(* ===== verification/Prelude.thy ===== *)
theory Prelude
  imports Main "HOL-Library.AList" "HOL-Library.Word"
begin

text \<open>
  Shared vocabulary of the development.

  \<^item> Results. Rust's \<open>Result<A, E>\<close> is the sum type \<open>E + A\<close>; the abbreviations \<open>Ok\<close> and
    \<open>Err\<close> name its injections and \<open>and_then\<close> is the \<open>?\<close> operator.
  \<^item> Hash maps. A \<open>HashMap\<close>, \<open>DashMap\<close> or \<open>BTreeMap\<close> is an association list with distinct keys
    (type \<open>hmap\<close>, well-formedness \<open>hwf\<close>). Lookups are \<open>map_of\<close>, insertion is \<open>AList.update\<close>,
    removal is \<open>AList.delete\<close>. The list order stands for the map's iteration order, which
    Rust leaves unspecified: every theorem is about any order.
  \<^item> Index buckets. \<open>entry(k).or_default().push(x)\<close> and the retain-then-drop-if-empty idiom are
    \<open>bucket_push\<close> and \<open>bucket_retain\<close>.
  \<^item> Strings are byte lists (type \<open>string\<close>); \<open>split_on\<close> is Rust's \<open>str::split(char)\<close>.
  \<^item> Two generic interfaces: \<open>string_codec\<close>, the contract between a type's \<open>as_str\<close> and its
    \<open>FromStr\<close>, and \<open>invariant_machine\<close>, a transition function whose steps keep an invariant.
\<close>

named_theorems hmap_simps "equations of lookups after hash-map operations"
named_theorems step_defs "definitions of the operations of a component"

section \<open>Results\<close>

type_synonym ('e, 'a) result = "'e + 'a"

abbreviation Ok :: "'a \<Rightarrow> 'e + 'a" where
  "Ok \<equiv> Inr"

abbreviation Err :: "'e \<Rightarrow> 'e + 'a" where
  "Err \<equiv> Inl"

definition and_then :: "'e + 'a \<Rightarrow> ('a \<Rightarrow> 'e + 'b) \<Rightarrow> 'e + 'b" where
  "and_then r f = (case r of Inl e \<Rightarrow> Inl e | Inr a \<Rightarrow> f a)"

definition ok_or :: "'e \<Rightarrow> 'a option \<Rightarrow> 'e + 'a" where
  "ok_or e x = (case x of None \<Rightarrow> Inl e | Some a \<Rightarrow> Inr a)"

definition is_ok :: "'e + 'a \<Rightarrow> bool" where
  "is_ok r = (case r of Inl _ \<Rightarrow> False | Inr _ \<Rightarrow> True)"

lemma and_then_simps [simp]:
  "and_then (Ok a) f = f a" "and_then (Err e) f = Err e"
  by (simp_all add: and_then_def)

lemma and_then_eq_Ok [simp]: "and_then r f = Ok b \<longleftrightarrow> (\<exists>a. r = Ok a \<and> f a = Ok b)"
  by (cases r) simp_all

lemma ok_or_simps [simp]:
  "ok_or e (Some a) = Ok a" "ok_or e None = Err e"
  by (simp_all add: ok_or_def)

lemma ok_or_eq_Ok [simp]: "ok_or e x = Ok a \<longleftrightarrow> x = Some a"
  by (cases x) simp_all

lemma is_ok_simps [simp]: "is_ok (Ok a)" "\<not> is_ok (Err e)"
  by (simp_all add: is_ok_def)

lemma is_ok_iff: "is_ok r \<longleftrightarrow> (\<exists>a. r = Ok a)"
  by (cases r) simp_all

section \<open>Hash maps\<close>

type_synonym ('k, 'v) hmap = "('k \<times> 'v) list"

definition hwf :: "('k, 'v) hmap \<Rightarrow> bool" where
  "hwf m \<longleftrightarrow> distinct (map fst m)"

lemma hwf_empty [simp, intro]: "hwf []"
  by (simp add: hwf_def)

lemma hwf_update [simp, intro]: "hwf m \<Longrightarrow> hwf (AList.update k v m)"
  unfolding hwf_def by (rule distinct_update)

lemma hwf_delete [simp, intro]: "hwf m \<Longrightarrow> hwf (AList.delete k m)"
  unfolding hwf_def by (rule distinct_delete)

lemma hget_update [hmap_simps]:
  "map_of (AList.update k v m) k' = (if k' = k then Some v else map_of m k')"
  by (simp add: update_conv')

lemma hget_delete [hmap_simps]:
  "map_of (AList.delete k m) k' = (if k' = k then None else map_of m k')"
  by (simp add: delete_conv')

lemma update_absent: "map_of m k = None \<Longrightarrow> AList.update k v m = m @ [(k, v)]"
  by (induction m) (auto split: if_splits)

lemma delete_absent: "map_of m k = None \<Longrightarrow> AList.delete k m = m"
  by (induction m) (auto simp: AList.delete_eq split: if_splits)

lemma hwf_map_of_iff: "hwf m \<Longrightarrow> map_of m k = Some v \<longleftrightarrow> (k, v) \<in> set m"
  by (simp add: hwf_def)

lemma hwf_filter [intro]: "hwf m \<Longrightarrow> hwf (filter P m)"
  by (simp add: hwf_def distinct_map_filter)

lemma map_of_filter_hwf:
  assumes "hwf m"
  shows "map_of (filter P m) k
           = (case map_of m k of None \<Rightarrow> None | Some v \<Rightarrow> if P (k, v) then Some v else None)"
  using assms
proof (induction m)
  case Nil
  then show ?case by simp
next
  case (Cons kv m)
  obtain k' v' where kv: "kv = (k', v')" by fastforce
  from Cons.prems have wf: "hwf m" and fresh: "k' \<notin> fst ` set m"
    by (auto simp: hwf_def kv)
  from fresh have "map_of m k' = None" by (simp add: map_of_eq_None_iff)
  with Cons.IH [OF wf] show ?case by (auto simp: kv split: option.split)
qed

lemma map_of_set_eq:
  assumes "hwf m" and "hwf m'" and "set m = set m'" shows "map_of m = map_of m'"
  using assms by (simp add: hwf_def map_of_inject_set)

section \<open>Index buckets\<close>

definition bucket :: "('k, 'x list) hmap \<Rightarrow> 'k \<Rightarrow> 'x list" where
  "bucket m k = (case map_of m k of None \<Rightarrow> [] | Some xs \<Rightarrow> xs)"

definition bucket_push :: "'k \<Rightarrow> 'x \<Rightarrow> ('k, 'x list) hmap \<Rightarrow> ('k, 'x list) hmap" where
  "bucket_push k x m = AList.update k (bucket m k @ [x]) m"

definition bucket_retain ::
  "'k \<Rightarrow> ('x \<Rightarrow> bool) \<Rightarrow> ('k, 'x list) hmap \<Rightarrow> ('k, 'x list) hmap" where
  "bucket_retain k P m =
     (case map_of m k of
        None \<Rightarrow> m
      | Some xs \<Rightarrow>
          (let ys = filter P xs
           in if ys = [] then AList.delete k m else AList.update k ys m))"

lemma bucket_empty [simp]: "bucket [] k = []"
  by (simp add: bucket_def)

lemma bucket_mem: "x \<in> set (bucket m k) \<longleftrightarrow> (\<exists>xs. map_of m k = Some xs \<and> x \<in> set xs)"
  by (cases "map_of m k") (simp_all add: bucket_def)

lemma bucket_push_look [hmap_simps]:
  "bucket (bucket_push k x m) k' = (if k' = k then bucket m k @ [x] else bucket m k')"
  by (simp add: bucket_def bucket_push_def hmap_simps)

lemma bucket_retain_look [hmap_simps]:
  "bucket (bucket_retain k P m) k' = (if k' = k then filter P (bucket m k) else bucket m k')"
  by (auto simp: bucket_def bucket_retain_def Let_def hmap_simps split: option.splits)

lemma hwf_bucket_push [simp, intro]: "hwf m \<Longrightarrow> hwf (bucket_push k x m)"
  by (simp add: bucket_push_def)

lemma hwf_bucket_retain [simp, intro]: "hwf m \<Longrightarrow> hwf (bucket_retain k P m)"
  by (simp add: bucket_retain_def Let_def split: option.split)

section \<open>Loops that push an element unless it was seen\<close>

text \<open>
  The idiom \<open>if seen.insert(x) { out.push(x) }\<close> with a fresh \<open>HashSet\<close>: the set always holds
  exactly the elements of \<open>out\<close>.
\<close>

definition push_new :: "'a list \<Rightarrow> 'a \<Rightarrow> 'a list" where
  "push_new out x = (if x \<in> set out then out else out @ [x])"

lemma set_push_new [simp]: "set (push_new out x) = insert x (set out)"
  by (auto simp: push_new_def)

lemma distinct_push_new [simp]: "distinct (push_new out x) \<longleftrightarrow> distinct out"
  by (simp add: push_new_def)

lemma set_foldl_push_new [simp]: "set (foldl push_new out xs) = set out \<union> set xs"
  by (induction xs arbitrary: out) auto

lemma distinct_foldl_push_new [simp]: "distinct (foldl push_new out xs) \<longleftrightarrow> distinct out"
  by (induction xs arbitrary: out) auto

section \<open>Strings\<close>

fun split_on :: "char \<Rightarrow> string \<Rightarrow> string list" where
  "split_on c [] = [[]]"
| "split_on c (x # xs) =
     (if x = c then [] # split_on c xs
      else (case split_on c xs of [] \<Rightarrow> [[x]] | p # ps \<Rightarrow> (x # p) # ps))"

fun join_with :: "char \<Rightarrow> string list \<Rightarrow> string" where
  "join_with c [] = []"
| "join_with c [p] = p"
| "join_with c (p # ps) = p @ c # join_with c ps"

lemma split_on_not_Nil [simp]: "split_on c s \<noteq> []"
  by (induction s) (auto split: list.split)

lemma join_with_Cons: "ps \<noteq> [] \<Longrightarrow> join_with c (p # ps) = p @ c # join_with c ps"
  by (cases ps) simp_all

lemma join_split_on [simp]: "join_with c (split_on c s) = s"
proof (induction s)
  case Nil
  then show ?case by simp
next
  case (Cons x s)
  then show ?case
    by (cases "split_on c s"; cases "tl (split_on c s)")
       (auto simp: join_with_Cons split: list.splits)
qed

lemma split_on_no_sep: "p \<in> set (split_on c s) \<Longrightarrow> c \<notin> set p"
  by (induction s arbitrary: p) (auto split: if_splits list.splits)

lemma split_on_append_sep: "c \<notin> set p \<Longrightarrow> split_on c (p @ c # s) = p # split_on c s"
  by (induction p) (auto split: list.split)

lemma split_on_snoc_sep: "c \<notin> set p \<Longrightarrow> split_on c (s @ c # p) = split_on c s @ [p]"
proof (induction s)
  case Nil
  then show ?case by (induction p) (auto split: list.split)
next
  case (Cons x s)
  then show ?case by (cases "split_on c s") auto
qed

lemma split_on_single: "c \<notin> set p \<Longrightarrow> split_on c p = [p]"
  by (induction p) (auto split: list.split)

lemma split_join_with:
  "ps \<noteq> [] \<Longrightarrow> (\<And>p. p \<in> set ps \<Longrightarrow> c \<notin> set p) \<Longrightarrow> split_on c (join_with c ps) = ps"
  by (induction c ps rule: join_with.induct) (simp_all add: split_on_append_sep split_on_single)

definition starts_with :: "string \<Rightarrow> string \<Rightarrow> bool" where
  "starts_with p s \<longleftrightarrow> take (length p) s = p"

definition strip_prefix :: "string \<Rightarrow> string \<Rightarrow> string option" where
  "strip_prefix p s = (if starts_with p s then Some (drop (length p) s) else None)"

lemma strip_prefix_Some: "strip_prefix p s = Some t \<longleftrightarrow> s = p @ t"
  by (auto simp: strip_prefix_def starts_with_def) (metis append_take_drop_id)

lemma starts_with_append [simp]: "starts_with p (p @ s)"
  by (simp add: starts_with_def)

lemma starts_with_iff: "starts_with p s \<longleftrightarrow> (\<exists>t. s = p @ t)"
  by (auto simp: starts_with_def) (metis append_take_drop_id)

lemma starts_with_same_length: "length p = length s \<Longrightarrow> starts_with p s \<longleftrightarrow> p = s"
  by (auto simp: starts_with_def)

text \<open>Rust's \<open>str::split_once(char)\<close>: the parts around the first separator.\<close>

definition split_once :: "char \<Rightarrow> string \<Rightarrow> (string \<times> string) option" where
  "split_once c s =
     (case dropWhile (\<lambda>x. x \<noteq> c) s of [] \<Rightarrow> None | _ # t \<Rightarrow> Some (takeWhile (\<lambda>x. x \<noteq> c) s, t))"

lemma split_once_append [simp]: "c \<notin> set p \<Longrightarrow> split_once c (p @ c # s) = Some (p, s)"
  by (induction p) (auto simp: split_once_def split: list.splits)

lemma split_once_None_iff: "split_once c s = None \<longleftrightarrow> c \<notin> set s"
proof -
  have "dropWhile (\<lambda>x. x \<noteq> c) s = [] \<longleftrightarrow> c \<notin> set s" by (induction s) auto
  then show ?thesis by (cases "dropWhile (\<lambda>x. x \<noteq> c) s") (simp_all add: split_once_def del: dropWhile_eq_Nil_conv)
qed

section \<open>Decimal numbers\<close>

fun digit_char :: "nat \<Rightarrow> char" where
  "digit_char n = char_of (48 + n)"

definition is_digit :: "char \<Rightarrow> bool" where
  "is_digit c \<longleftrightarrow> 48 \<le> (of_char c :: nat) \<and> (of_char c :: nat) \<le> 57"

definition digit_value :: "char \<Rightarrow> nat" where
  "digit_value c = of_char c - 48"

text \<open>The decimal rendering of \<open>{n}\<close>, least significant digit last.\<close>

fun show_nat :: "nat \<Rightarrow> string" where
  "show_nat n = (if n < 10 then [digit_char n] else show_nat (n div 10) @ [digit_char (n mod 10)])"

declare show_nat.simps [simp del]

definition read_digits :: "string \<Rightarrow> nat" where
  "read_digits ds = foldl (\<lambda>n c. 10 * n + digit_value c) 0 ds"

lemma digit_char_value [simp]: "n < 10 \<Longrightarrow> digit_value (digit_char n) = n"
  by (simp add: digit_value_def)

lemma is_digit_digit_char [simp]: "n < 10 \<Longrightarrow> is_digit (digit_char n)"
  by (simp add: is_digit_def)

lemma read_show_nat [simp]: "read_digits (show_nat n) = n"
proof (induction n rule: show_nat.induct)
  case (1 n)
  then show ?case
    by (subst show_nat.simps) (auto simp: read_digits_def simp del: digit_char.simps)
qed

lemma show_nat_inj [simp]: "show_nat m = show_nat n \<longleftrightarrow> m = n"
  by (metis read_show_nat)

lemma show_nat_digits: "c \<in> set (show_nat n) \<Longrightarrow> is_digit c"
proof (induction n rule: show_nat.induct)
  case (1 n)
  then show ?case
    by (subst (asm) (2) show_nat.simps) (auto simp del: digit_char.simps split: if_splits)
qed

lemma show_nat_not_Nil [simp]: "show_nat n \<noteq> []"
  by (subst show_nat.simps) simp

section \<open>Fallible steps over a state\<close>

text \<open>
  A method with \<open>&mut self\<close> that returns a \<open>Result\<close> is a function to the new state and the result;
  \<open>guarded r s k\<close> is \<open>r?\<close> in it: on an error the method ends in state \<open>s\<close>.
\<close>

definition guarded :: "'e + 'a \<Rightarrow> 's \<Rightarrow> ('a \<Rightarrow> 's \<times> ('e + 'b)) \<Rightarrow> 's \<times> ('e + 'b)" where
  "guarded r s k = (case r of Inl e \<Rightarrow> (s, Inl e) | Inr a \<Rightarrow> k a)"

lemma guarded_simps [simp]:
  "guarded (Ok a) s k = k a" "guarded (Err e) s k = (s, Err e)"
  by (simp_all add: guarded_def)

lemma guarded_Ok_iff: "guarded r s k = (s', Ok b) \<longleftrightarrow> (\<exists>a. r = Ok a \<and> k a = (s', Ok b))"
  by (cases r) simp_all

lemma guarded_snd_Ok_iff: "snd (guarded r s k) = Ok b \<longleftrightarrow> (\<exists>a. r = Ok a \<and> snd (k a) = Ok b)"
  by (cases r) simp_all

lemma guarded_induct:
  "(\<And>e. r = Err e \<Longrightarrow> P (s, Err e)) \<Longrightarrow> (\<And>a. r = Ok a \<Longrightarrow> P (k a)) \<Longrightarrow> P (guarded r s k)"
  by (cases r) simp_all

section \<open>Machine integers\<close>

type_synonym u8 = "8 word"
type_synonym u32 = "32 word"
type_synonym u64 = "64 word"

text \<open>Rust's \<open>saturating_add(1)\<close>.\<close>

definition sat_succ :: "'l::len word \<Rightarrow> 'l word" where
  "sat_succ w = (if w = - 1 then w else w + 1)"

lemma unat_sat_succ:
  fixes w :: "'l::len word"
  shows "unat (sat_succ w) = min (unat w + 1) (unat (- 1 :: 'l word))"
proof (cases "w = - 1")
  case False
  then have "1 + w \<noteq> 0" by (metis add.commute add_eq_0_iff)
  then have "unat (w + 1) = Suc (unat w)" by (metis add.commute unatSuc)
  moreover have "unat (w + 1) \<le> unat (- 1 :: 'l word)"
    by (metis word_le_nat_alt word_order.extremum)
  ultimately show ?thesis using False by (simp add: sat_succ_def)
qed (simp add: sat_succ_def)

lemma sat_succ_mono: "w \<le> sat_succ w"
  using word_order.extremum [of w] by (simp add: word_le_nat_alt unat_sat_succ)

lemma sat_succ_less:
  fixes w :: "'l::len word"
  assumes "w \<noteq> - 1"
  shows "w < sat_succ w"
proof -
  have "unat w \<le> unat (- 1 :: 'l word)" by (metis word_le_nat_alt word_order.extremum)
  moreover from assms have "unat w \<noteq> unat (- 1 :: 'l word)" by (metis word_unat_eq_iff)
  ultimately show ?thesis by (simp add: word_less_nat_alt unat_sat_succ)
qed

section \<open>The contract between as_str and FromStr\<close>

locale string_codec =
  fixes as_str :: "'a \<Rightarrow> string"
    and from_str :: "string \<Rightarrow> 'e + 'a"
  assumes from_as [simp]: "from_str (as_str x) = Ok x"
    and from_sound: "from_str s = Ok x \<Longrightarrow> as_str x = s"
begin

lemma as_str_inj [simp]: "as_str x = as_str y \<longleftrightarrow> x = y"
  by (metis from_as sum.inject(2))

lemma from_str_iff: "from_str s = Ok x \<longleftrightarrow> s = as_str x"
  using from_sound by auto

lemma rejects_iff: "(\<exists>e. from_str s = Err e) \<longleftrightarrow> s \<notin> range as_str"
  by (cases "from_str s") (auto simp: from_str_iff dest: from_sound)

end

section \<open>Transition functions that keep an invariant\<close>

locale invariant_machine =
  fixes step :: "'op \<Rightarrow> 's \<Rightarrow> 's"
    and init :: "'s \<Rightarrow> bool"
    and inv :: "'s \<Rightarrow> bool"
  assumes inv_init: "init s \<Longrightarrow> inv s"
    and inv_step: "inv s \<Longrightarrow> inv (step a s)"
begin

lemma inv_run: "inv s \<Longrightarrow> inv (fold step ops s)"
  by (induction ops arbitrary: s) (auto intro: inv_step)

lemma inv_reachable: "init s \<Longrightarrow> inv (fold step ops s)"
  by (blast intro: inv_init inv_run)

end

end
