(* ===== verification/ByteStrings.thy ===== *)
theory ByteStrings
  imports Prelude
begin

text \<open>
  Byte strings shared by the wire and storage formats: fixed-size arrays, big-endian words
  (\<open>to_be_bytes\<close>), the bytes of a string, UTF-8 validation, signed decimals, and \<open>str::parse::<u64>\<close>.
\<close>

type_synonym bytes = "8 word list"
type_synonym i64 = "64 word"

section \<open>Fixed-size byte arrays\<close>

text \<open>A UUID is \<open>[u8; 16]\<close>, the id of a relay process \<open>[u8; 32]\<close>.\<close>

typedef uuid = "{b :: bytes. length b = 16}" morphisms uuid_bytes mk_uuid
  by (rule exI [of _ "replicate 16 0"]) simp

typedef runtime_id = "{b :: bytes. length b = 32}" morphisms runtime_bytes mk_runtime
  by (rule exI [of _ "replicate 32 0"]) simp

lemma uuid_bytes_length [simp]: "length (uuid_bytes u) = 16"
  using uuid_bytes [of u] by simp

lemma runtime_bytes_length [simp]: "length (runtime_bytes r) = 32"
  using runtime_bytes [of r] by simp

lemma mk_uuid_bytes [simp]: "length b = 16 \<Longrightarrow> uuid_bytes (mk_uuid b) = b"
  by (simp add: mk_uuid_inverse)

lemma mk_runtime_bytes [simp]: "length b = 32 \<Longrightarrow> runtime_bytes (mk_runtime b) = b"
  by (simp add: mk_runtime_inverse)

declare uuid_bytes_inverse [simp] runtime_bytes_inverse [simp]
declare uuid_bytes_inject [simp] runtime_bytes_inject [simp]

instantiation uuid :: equal
begin

definition equal_uuid :: "uuid \<Rightarrow> uuid \<Rightarrow> bool" where
  "equal_uuid u v \<longleftrightarrow> uuid_bytes u = uuid_bytes v"

instance by standard (simp add: equal_uuid_def)

end

instantiation runtime_id :: equal
begin

definition equal_runtime_id :: "runtime_id \<Rightarrow> runtime_id \<Rightarrow> bool" where
  "equal_runtime_id r s \<longleftrightarrow> runtime_bytes r = runtime_bytes s"

instance by standard (simp add: equal_runtime_id_def)

end

section \<open>Big-endian words\<close>

definition be_bytes :: "nat \<Rightarrow> 'a::len word \<Rightarrow> bytes" where
  "be_bytes n w = map (\<lambda>i. ucast (drop_bit (8 * i) w)) (rev [0..<n])"

lemma be_bytes_length [simp]: "length (be_bytes n w) = n"
  by (simp add: be_bytes_def)

lemma be_bytes_inj:
  fixes v w :: "'a::len word"
  assumes "be_bytes n v = be_bytes n w" "LENGTH('a) \<le> 8 * n"
  shows "v = w"
proof (rule bit_word_eqI)
  fix k assume k: "k < LENGTH('a)"
  let ?i = "k div 8"
  have "?i < n" using k assms(2) by simp
  then have "(ucast (drop_bit (8 * ?i) v) :: 8 word) = ucast (drop_bit (8 * ?i) w)"
    using assms(1) by (simp add: be_bytes_def)
  then have "bit (ucast (drop_bit (8 * ?i) v) :: 8 word) (k mod 8)
      = bit (ucast (drop_bit (8 * ?i) w) :: 8 word) (k mod 8)" by simp
  then show "bit v k = bit w k"
    using k by (simp add: bit_ucast_iff bit_drop_bit_eq)
qed

lemma be_bytes_split:
  fixes v w :: "'a::len word"
  assumes "be_bytes n v @ xs = be_bytes n w @ ys" "LENGTH('a) \<le> 8 * n"
  shows "v = w" "xs = ys"
  using assms by (auto intro: be_bytes_inj)

section \<open>Strings as bytes\<close>

definition str_bytes :: "string \<Rightarrow> bytes" where
  "str_bytes s = map of_char s"

lemma unat_of_char [simp]: "unat (of_char c :: 8 word) = of_char c"
proof -
  have "unat (of_nat (of_char c) :: 8 word) = (of_char c :: nat) mod 256" by (simp add: unat_of_nat)
  then show ?thesis by (simp only: of_nat_of_char of_char_mod_256)
qed

lemma of_char_byte_eq [simp]: "(of_char c :: 8 word) = of_char d \<longleftrightarrow> c = d"
  by (metis unat_of_char of_char_eq_iff)

lemma str_bytes_eq [simp]: "str_bytes s = str_bytes t \<longleftrightarrow> s = t"
  by (simp add: str_bytes_def inj_map_eq_map inj_def)

text \<open>\<open>char::is_ascii_hexdigit\<close> and \<open>str::contains\<close> of a substring.\<close>

definition is_ascii_hexdigit :: "char \<Rightarrow> bool" where
  "is_ascii_hexdigit ch \<longleftrightarrow>
     (let n = (of_char ch :: nat) in 48 \<le> n \<and> n \<le> 57 \<or> 65 \<le> n \<and> n \<le> 70 \<or> 97 \<le> n \<and> n \<le> 102)"

fun has_infix :: "string \<Rightarrow> string \<Rightarrow> bool" where
  "has_infix p [] \<longleftrightarrow> p = []"
| "has_infix p (x # xs) \<longleftrightarrow> starts_with p (x # xs) \<or> has_infix p xs"

lemma has_infix_iff: "has_infix p s \<longleftrightarrow> (\<exists>u v. s = u @ p @ v)"
proof (induction s)
  case Nil
  then show ?case by auto
next
  case (Cons x s)
  have "(\<exists>u v. x # s = u @ p @ v) \<longleftrightarrow> (\<exists>v. x # s = p @ v) \<or> (\<exists>u v. s = u @ p @ v)"
    by (metis append_Cons append_Nil list.exhaust list.inject)
  then show ?case by (simp only: has_infix.simps Cons.IH starts_with_iff)
qed

text \<open>\<open>String::from_utf8\<close>: the well-formed byte sequences of UTF-8, without surrogates or overlong forms.\<close>

definition continuation :: "8 word \<Rightarrow> bool" where
  "continuation b \<longleftrightarrow> 0x80 \<le> b \<and> b \<le> 0xBF"

fun valid_utf8 :: "bytes \<Rightarrow> bool" where
  "valid_utf8 [] = True"
| "valid_utf8 (b # bs) =
     (if b < 0x80 then valid_utf8 bs
      else if 0xC2 \<le> b \<and> b \<le> 0xDF then
        (case bs of b1 # r \<Rightarrow> continuation b1 \<and> valid_utf8 r | _ \<Rightarrow> False)
      else if 0xE0 \<le> b \<and> b \<le> 0xEF then
        (case bs of b1 # b2 # r \<Rightarrow> continuation b1 \<and> continuation b2
             \<and> (b = 0xE0 \<longrightarrow> 0xA0 \<le> b1) \<and> (b = 0xED \<longrightarrow> b1 \<le> 0x9F) \<and> valid_utf8 r
         | _ \<Rightarrow> False)
      else if 0xF0 \<le> b \<and> b \<le> 0xF4 then
        (case bs of b1 # b2 # b3 # r \<Rightarrow> continuation b1 \<and> continuation b2 \<and> continuation b3
             \<and> (b = 0xF0 \<longrightarrow> 0x90 \<le> b1) \<and> (b = 0xF4 \<longrightarrow> b1 \<le> 0x8F) \<and> valid_utf8 r
         | _ \<Rightarrow> False)
      else False)"

definition string_from_utf8 :: "bytes \<Rightarrow> string option" where
  "string_from_utf8 bs = (if valid_utf8 bs then Some (map (\<lambda>b. char_of (unat b)) bs) else None)"

section \<open>Decimals\<close>

definition show_int :: "int \<Rightarrow> string" where
  "show_int t = (if t < 0 then CHR ''-'' # show_nat (nat (- t)) else show_nat (nat t))"

lemma digit_not_dash: "is_digit c \<Longrightarrow> c \<noteq> CHR ''-''"
  by (auto simp: is_digit_def)

lemma show_int_inj [simp]: "show_int s = show_int t \<longleftrightarrow> s = t"
proof
  assume eq: "show_int s = show_int t"
  have "CHR ''-'' # xs \<noteq> show_nat n" for xs n
    using show_nat_digits [of "CHR ''-''" n] by (metis digit_not_dash list.set_intros(1))
  then have "s < 0 \<longleftrightarrow> t < 0" using eq by (metis show_int_def)
  then show "s = t" using eq by (auto simp: show_int_def)
qed simp

lemma show_int_of_nat [simp]: "show_int (int n) = show_nat n"
  by (simp add: show_int_def)

definition parse_u64 :: "string \<Rightarrow> u64 option" where
  "parse_u64 s =
     (let ds = (case s of c # r \<Rightarrow> if c = CHR ''+'' then r else s | [] \<Rightarrow> [])
      in if ds = [] \<or> \<not> list_all is_digit ds then None
         else if read_digits ds < 2 ^ 64 then Some (of_nat (read_digits ds)) else None)"

lemma parse_show_nat [simp]: "n < 2 ^ 64 \<Longrightarrow> parse_u64 (show_nat n) = Some (of_nat n)"
proof -
  assume n: "n < 2 ^ 64"
  obtain c r where cr: "show_nat n = c # r" using show_nat_not_Nil by (metis list.exhaust)
  have "list_all is_digit (show_nat n)" using show_nat_digits by (auto simp: list_all_iff)
  moreover have "c \<noteq> CHR ''+''"
    using show_nat_digits [of c n] by (auto simp: cr is_digit_def)
  moreover have "read_digits (c # r) = n" by (simp flip: cr)
  ultimately show ?thesis using n by (simp add: parse_u64_def cr)
qed

lemma u64_of_nat_inj: "a < 2 ^ 64 \<Longrightarrow> b < 2 ^ 64 \<Longrightarrow> (of_nat a :: u64) = of_nat b \<longleftrightarrow> a = b"
proof -
  have inv: "unat (of_nat n :: u64) = n" if "n < 2 ^ 64" for n
    using that by (simp add: unat_of_nat)
  assume "a < 2 ^ 64" and "b < 2 ^ 64"
  then show ?thesis by (metis inv)
qed

end
