(* ===== verification/RedisStore.thy ===== *)
theory RedisStore
  imports ByteStrings
begin

text \<open>
  The Redis commands the relay uses, over an explicit store: string values by key, some of which
  expire. \<open>now\<close> is the server's clock in milliseconds; a key whose expiry has passed reads as
  missing. The operations follow the commands' documented behaviour, errors included: \<open>INCR\<close> refuses
  a value that is no \<open>i64\<close> or would overflow, \<open>EXPIRE\<close> deletes the key when the timeout is not
  positive and refuses one whose instant leaves the range. A call over the network is \<open>net\<close>.
\<close>

section \<open>The store\<close>

text \<open>Keys with string values, some of which expire at an instant of the store's clock.\<close>

record redis =
  rd_values :: "(string, string) hmap"
  rd_expiry :: "(string, nat) hmap"

definition redis_get :: "nat \<Rightarrow> string \<Rightarrow> redis \<Rightarrow> string option" where
  "redis_get now key st =
     (case map_of (rd_expiry st) key of
        Some t \<Rightarrow> if now < t then map_of (rd_values st) key else None
      | None \<Rightarrow> map_of (rd_values st) key)"

definition redis_set_px :: "string \<Rightarrow> string \<Rightarrow> nat \<Rightarrow> redis \<Rightarrow> redis" where
  "redis_set_px key v expiry st =
     st\<lparr>rd_values := AList.update key v (rd_values st), rd_expiry := AList.update key expiry (rd_expiry st)\<rparr>"

definition redis_pexpire :: "string \<Rightarrow> nat \<Rightarrow> redis \<Rightarrow> redis" where
  "redis_pexpire key expiry st = st\<lparr>rd_expiry := AList.update key expiry (rd_expiry st)\<rparr>"

definition redis_del :: "string \<Rightarrow> redis \<Rightarrow> redis" where
  "redis_del key st =
     st\<lparr>rd_values := AList.delete key (rd_values st), rd_expiry := AList.delete key (rd_expiry st)\<rparr>"

text \<open>\<open>INCR\<close>: a missing key counts as 0; a value that is no canonical \<open>i64\<close> or would overflow is an error.\<close>

definition parse_i64 :: "string \<Rightarrow> int option" where
  "parse_i64 s =
     (let n = (case s of c # ds \<Rightarrow> if c = CHR ''-'' then - int (read_digits ds) else int (read_digits s)
               | [] \<Rightarrow> 0)
      in if show_int n = s \<and> - (2 ^ 63) \<le> n \<and> n < 2 ^ 63 then Some n else None)"

definition redis_incr :: "nat \<Rightarrow> string \<Rightarrow> redis \<Rightarrow> (redis \<times> int) option" where
  "redis_incr now key st =
     (case (case redis_get now key st of None \<Rightarrow> Some 0 | Some v \<Rightarrow> parse_i64 v) of
        None \<Rightarrow> None
      | Some n \<Rightarrow>
          if n = 2 ^ 63 - 1 then None
          else Some (st\<lparr>rd_values := AList.update key (show_int (n + 1)) (rd_values st),
                         rd_expiry := (if redis_get now key st = None then AList.delete key (rd_expiry st)
                                       else rd_expiry st)\<rparr>, n + 1))"

definition empty_redis :: redis where
  "empty_redis = \<lparr>rd_values = [], rd_expiry = []\<rparr>"

section \<open>Conditional writes and expiry in seconds\<close>

text \<open>\<open>SET key v NX EX ttl\<close>: the flag tells whether the reply is \<open>OK\<close> (the key was missing) or nil.\<close>

definition redis_set_nx_ex :: "nat \<Rightarrow> string \<Rightarrow> string \<Rightarrow> nat \<Rightarrow> redis \<Rightarrow> redis \<times> bool" where
  "redis_set_nx_ex now key v ttl st =
     (if redis_get now key st = None then (redis_set_px key v (now + 1000 * ttl) st, True) else (st, False))"

text \<open>\<open>EXPIRE key secs\<close>; \<open>None\<close> is the error reply.\<close>

definition redis_expire :: "nat \<Rightarrow> string \<Rightarrow> int \<Rightarrow> redis \<Rightarrow> redis option" where
  "redis_expire now key secs st =
     (if 1000 * secs < - (2 ^ 63) \<or> 2 ^ 63 - 1 < int now + 1000 * secs then None
      else if redis_get now key st = None then Some st
      else if secs \<le> 0 then Some (redis_del key st)
      else Some (redis_pexpire key (nat (int now + 1000 * secs)) st))"

text \<open>\<open>TTL key\<close>: -2 when the key is missing, -1 when it has no expiry, otherwise seconds, rounded.\<close>

definition redis_ttl :: "nat \<Rightarrow> string \<Rightarrow> redis \<Rightarrow> int" where
  "redis_ttl now key st =
     (if redis_get now key st = None then - 2
      else case map_of (rd_expiry st) key of None \<Rightarrow> - 1 | Some t \<Rightarrow> int ((t - now + 500) div 1000))"

section \<open>Round trips\<close>

text \<open>
  A round trip to the store: the pool may have no connection, the call may fail before the script
  ran, or its reply may be lost.
\<close>

datatype net = NetOk | PoolDown | NotSent | ReplyLost

text \<open>The command ran on the server.\<close>

definition ran :: "net \<Rightarrow> bool" where
  "ran net \<longleftrightarrow> net = NetOk \<or> net = ReplyLost"

section \<open>Reading after writing\<close>

lemma redis_get_empty [simp]: "redis_get now key empty_redis = None"
  by (simp add: redis_get_def empty_redis_def)

lemma redis_get_set_px [hmap_simps]:
  "redis_get now k (redis_set_px key v t st) =
     (if k = key then if now < t then Some v else None else redis_get now k st)"
  by (auto simp: redis_get_def redis_set_px_def hmap_simps split: option.split)

lemma redis_get_del [hmap_simps]:
  "redis_get now k (redis_del key st) = (if k = key then None else redis_get now k st)"
  by (auto simp: redis_get_def redis_del_def hmap_simps split: option.split)

lemma redis_get_pexpire [hmap_simps]:
  "redis_get now k (redis_pexpire key t st) =
     (if k = key then if now < t then map_of (rd_values st) key else None else redis_get now k st)"
  by (auto simp: redis_get_def redis_pexpire_def hmap_simps split: option.split)

lemma redis_set_nx_ex_get:
  assumes "redis_set_nx_ex now key v ttl st = (st', fresh)"
  shows "fresh \<longleftrightarrow> redis_get now key st = None"
    "redis_get t k st' =
       (if k = key \<and> fresh then if t < now + 1000 * ttl then Some v else None else redis_get t k st)"
  using assms by (auto simp: redis_set_nx_ex_def hmap_simps split: if_splits)

lemma parse_i64_show [simp]: "n < 2 ^ 63 \<Longrightarrow> parse_i64 (show_nat n) = Some (int n)"
proof -
  assume n: "n < 2 ^ 63"
  obtain d r where cr: "show_nat n = d # r" using show_nat_not_Nil by (metis list.exhaust)
  have "d \<noteq> CHR ''-''" using show_nat_digits [of d n] by (simp add: cr digit_not_dash)
  moreover have "read_digits (d # r) = n" by (simp flip: cr)
  ultimately show ?thesis using n cr by (simp add: parse_i64_def)
qed

lemma redis_incr_other: "redis_incr now key st = Some (st', n) \<Longrightarrow> k \<noteq> key \<Longrightarrow>
    map_of (rd_values st') k = map_of (rd_values st) k \<and> map_of (rd_expiry st') k = map_of (rd_expiry st) k"
  by (auto simp: redis_incr_def hmap_simps split: option.splits if_splits)

end
