(* ===== verification/Tenant.thy ===== *)
theory Tenant
  imports ByteStrings
begin

text \<open>
  Host binding: \<open>normalize_host\<close> and \<open>relay_url_authority\<close> (\<open>crates/buzz-core/src/tenant.rs\<close>) and
  \<open>bind_community\<close> (\<open>crates/buzz-relay/src/tenant.rs\<close>), which turn the host of a connection into the
  community of every later step. The resolver (a database lookup) and the URL parser are
  parameters. Strings are UTF-8 bytes; \<open>str_trim\<close> strips the byte sequences of Unicode white space.

  The lemmas show which spellings of a host share a community, when normalizing twice changes
  nothing, and that binding fails closed.
\<close>

section \<open>String operations\<close>

definition byte_str :: "nat list \<Rightarrow> string" where
  "byte_str bs = map char_of bs"

text \<open>The UTF-8 forms of the white space characters of \<open>char::is_whitespace\<close>.\<close>

definition white_space :: "string list" where
  "white_space = map byte_str
     ([[9], [10], [11], [12], [13], [32], [194, 133], [194, 160], [225, 154, 128]]
      @ map (\<lambda>n. [226, 128, n]) [128..<139]
      @ [[226, 128, 168], [226, 128, 169], [226, 128, 175], [226, 129, 159], [227, 128, 128]])"

function trim_front :: "string list \<Rightarrow> string \<Rightarrow> string" where
  "trim_front ws s =
     (case find (\<lambda>w. w \<noteq> [] \<and> starts_with w s) ws of
        None \<Rightarrow> s
      | Some w \<Rightarrow> trim_front ws (drop (length w) s))"
  by pat_completeness auto
termination
proof (relation "measure (\<lambda>(ws, s). length s)")
  fix ws s w assume "find (\<lambda>w. w \<noteq> [] \<and> starts_with w s) ws = Some w"
  then have "w \<noteq> []" "starts_with w s" by (auto simp: find_Some_iff)
  then show "((ws, drop (length w) s), ws, s) \<in> measure (\<lambda>(ws, s). length s)"
    by (auto simp: starts_with_iff)
qed simp

declare trim_front.simps [simp del]

definition str_trim :: "string \<Rightarrow> string" where
  "str_trim s = rev (trim_front (map rev white_space) (rev (trim_front white_space s)))"

definition to_ascii_lower :: "char \<Rightarrow> char" where
  "to_ascii_lower c =
     (if 65 \<le> (of_char c :: nat) \<and> (of_char c :: nat) \<le> 90 then char_of (of_char c + 32 :: nat) else c)"

definition to_ascii_lowercase :: "string \<Rightarrow> string" where
  "to_ascii_lowercase s = map to_ascii_lower s"

definition eq_ignore_ascii_case :: "string \<Rightarrow> string \<Rightarrow> bool" where
  "eq_ignore_ascii_case s t \<longleftrightarrow> to_ascii_lowercase s = to_ascii_lowercase t"

definition strip_suffix :: "string \<Rightarrow> string \<Rightarrow> string option" where
  "strip_suffix p s = map_option rev (strip_prefix (rev p) (rev s))"

section \<open>Tenants\<close>

record tenant_context =
  tc_community :: uuid
  tc_host :: string

definition resolved :: "uuid \<Rightarrow> string \<Rightarrow> tenant_context" where
  "resolved community host = \<lparr>tc_community = community, tc_host = host\<rparr>"

definition strip_default_port :: "string \<Rightarrow> string" where
  "strip_default_port host =
     (case (case strip_suffix '':443'' host of Some s \<Rightarrow> Some s | None \<Rightarrow> strip_suffix '':80'' host) of
        Some s \<Rightarrow> s | None \<Rightarrow> host)"

definition strip_root_dot :: "string \<Rightarrow> string" where
  "strip_root_dot host = (case strip_suffix ''.'' host of Some s \<Rightarrow> s | None \<Rightarrow> host)"

definition normalize_host :: "string \<Rightarrow> string" where
  "normalize_host host = strip_root_dot (strip_default_port (to_ascii_lowercase (str_trim host)))"

text \<open>The host and port of a parsed URL; the port is absent when it is the scheme's default.\<close>

datatype url_host = Domain string | Ipv4 string | Ipv6 string

record parsed_authority =
  pa_host :: "url_host option"
  pa_port :: "nat option"

definition relay_url_authority :: "(string \<Rightarrow> parsed_authority option) \<Rightarrow> string \<Rightarrow> string" where
  "relay_url_authority parse_url relay_url =
     (case parse_url relay_url of
        None \<Rightarrow> []
      | Some url \<Rightarrow>
          (case pa_host url of
             None \<Rightarrow> []
           | Some h \<Rightarrow>
               let host = (case h of Domain d \<Rightarrow> d | Ipv4 a \<Rightarrow> a | Ipv6 a \<Rightarrow> ''['' @ a @ '']'');
                   authority = (case pa_port url of Some p \<Rightarrow> host @ '':'' @ show_nat p | None \<Rightarrow> host)
               in normalize_host authority))"

datatype 'e bind_error = UnmappedHost | Lookup 'e

definition bind_community ::
  "(string \<Rightarrow> 'e + uuid option) \<Rightarrow> string \<Rightarrow> 'e bind_error + tenant_context" where
  "bind_community resolve_host raw_host =
     (let host = normalize_host raw_host
      in if host = [] then Err UnmappedHost
         else case resolve_host host of
                Inr (Some community) \<Rightarrow> Ok (resolved community host)
              | Inr None \<Rightarrow> Err UnmappedHost
              | Inl e \<Rightarrow> Err (Lookup e))"

definition bind_deployment_community ::
  "(string \<Rightarrow> parsed_authority option) \<Rightarrow> (string \<Rightarrow> 'e + uuid option) \<Rightarrow> string
     \<Rightarrow> 'e bind_error + tenant_context" where
  "bind_deployment_community parse_url resolve_host relay_url =
     bind_community resolve_host (relay_url_authority parse_url relay_url)"

section \<open>Spellings of a host\<close>

lemma trim_front_fixed_iff: "trim_front ws s = s \<longleftrightarrow> (\<forall>w \<in> set ws. w = [] \<or> \<not> starts_with w s)"
proof -
  have len: "length (trim_front ws s) \<le> length s" for s
  proof (induction ws s rule: trim_front.induct)
    case (1 ws s)
    show ?case
    proof (cases "find (\<lambda>w. w \<noteq> [] \<and> starts_with w s) ws")
      case (Some w)
      then show ?thesis using "1.IH" [OF Some] by (subst trim_front.simps) simp
    qed (subst trim_front.simps, simp)
  qed
  show ?thesis
  proof (cases "find (\<lambda>w. w \<noteq> [] \<and> starts_with w s) ws")
    case None
    then have "trim_front ws s = s" by (subst trim_front.simps) (simp only: option.case)
    then show ?thesis using None by (auto simp: find_None_iff)
  next
    case (Some w)
    then have w: "w \<in> set ws" "w \<noteq> []" "starts_with w s" by (auto simp: find_Some_iff)
    then have "length (trim_front ws (drop (length w) s)) < length s"
      using len [of "drop (length w) s"] by (auto simp: starts_with_iff intro: le_less_trans)
    moreover have "trim_front ws s = trim_front ws (drop (length w) s)"
      by (subst trim_front.simps) (simp add: Some)
    ultimately have "trim_front ws s \<noteq> s" by auto
    then show ?thesis using w by auto
  qed
qed

lemma trim_front_Nil [simp]: "trim_front ws [] = []"
  by (auto simp: trim_front_fixed_iff starts_with_def)

lemma str_trim_Nil [simp]: "str_trim [] = []"
  by (simp add: str_trim_def)

lemma strip_suffix_Some: "strip_suffix p s = Some t \<longleftrightarrow> s = t @ p"
  by (auto simp: strip_suffix_def strip_prefix_Some) (metis rev_append rev_rev_ident)

lemma strip_suffix_append [simp]: "strip_suffix p (s @ p) = Some s"
  by (simp add: strip_suffix_Some)

lemma normalize_host_Nil [simp]: "normalize_host [] = []"
  by (simp add: normalize_host_def to_ascii_lowercase_def strip_default_port_def strip_root_dot_def
      strip_suffix_def strip_prefix_def starts_with_def)

text \<open>Printable ASCII other than the space: no byte of a white space character is one.\<close>

definition graphic :: "char \<Rightarrow> bool" where
  "graphic c \<longleftrightarrow> 33 \<le> (of_char c :: nat) \<and> (of_char c :: nat) < 127"

lemma white_space_not_graphic: "w \<in> set white_space \<Longrightarrow> c \<in> set w \<Longrightarrow> \<not> graphic c"
  by (auto simp: white_space_def byte_str_def graphic_def)

lemma trim_front_graphic:
  assumes "s = [] \<or> graphic (hd s)" "\<And>w. w \<in> set ws \<Longrightarrow> rev w \<in> set white_space \<or> w \<in> set white_space"
  shows "trim_front ws s = s"
  unfolding trim_front_fixed_iff
proof
  fix w assume w: "w \<in> set ws"
  show "w = [] \<or> \<not> starts_with w s"
  proof (cases w)
    case (Cons c r)
    then have "\<not> graphic c" using assms(2) [OF w] by (auto dest: white_space_not_graphic)
    then show ?thesis using assms(1) Cons by (cases s) (auto simp: starts_with_def)
  qed simp
qed

lemma str_trim_graphic:
  assumes "graphic (hd s)" "graphic (last s)"
  shows "str_trim s = s"
proof (cases "s = []")
  case False
  have "trim_front white_space s = s" using assms(1) by (intro trim_front_graphic) auto
  moreover have "trim_front (map rev white_space) (rev s) = rev s"
    using assms(2) False by (intro trim_front_graphic) (auto simp: hd_rev)
  ultimately show ?thesis by (simp add: str_trim_def)
qed simp

lemma to_ascii_lower_idem [simp]: "to_ascii_lower (to_ascii_lower c) = to_ascii_lower c"
  by (auto simp: to_ascii_lower_def)

lemma to_ascii_lowercase_simps [simp]:
  "to_ascii_lowercase (s @ t) = to_ascii_lowercase s @ to_ascii_lowercase t"
  "to_ascii_lowercase (to_ascii_lowercase s) = to_ascii_lowercase s"
  "to_ascii_lowercase [] = []"
  "to_ascii_lowercase s = [] \<longleftrightarrow> s = []"
  by (simp_all add: to_ascii_lowercase_def)

text \<open>A host name in canonical form: lower case, without a default port or a final dot.\<close>

definition plain_host :: "string \<Rightarrow> bool" where
  "plain_host h \<longleftrightarrow> h \<noteq> [] \<and> graphic (hd h) \<and> graphic (last h)
     \<and> strip_suffix '':443'' h = None \<and> strip_suffix '':80'' h = None \<and> last h \<noteq> CHR ''.''"

lemma normalize_host_lower:
  assumes "graphic (hd h)" "graphic (last h)"
  shows "normalize_host h = strip_root_dot (strip_default_port (to_ascii_lowercase h))"
  by (simp add: normalize_host_def str_trim_graphic [OF assms])

lemma strip_suffix_last: "p \<noteq> [] \<Longrightarrow> last s \<noteq> last p \<Longrightarrow> strip_suffix p s = None"
  by (metis last_appendR not_None_eq strip_suffix_Some)

lemma plain_host_fixed:
  assumes "plain_host h"
  shows "strip_default_port h = h" "strip_root_dot h = h" "strip_root_dot (h @ ''.'') = h"
    "strip_default_port (h @ ''.'') = h @ ''.''"
    "strip_default_port (t @ '':443'') = t" "strip_default_port (t @ '':80'') = t"
  using assms by (simp_all add: plain_host_def strip_default_port_def strip_root_dot_def strip_suffix_last)

text \<open>
  Host spellings. For a canonical host name, every spelling that differs in letter case, that adds one
  of the default ports, or the final dot of the root, or the dot and then a default port, normalizes to it.
\<close>

theorem host_spellings_agree:
  assumes "plain_host h" "to_ascii_lowercase s = h" "graphic (hd s)" "graphic (last s)"
    and "suffix \<in> {[], ''.'', '':443'', '':80'', ''.:443'', ''.:80''}"
  shows "normalize_host (s @ suffix) = h"
proof -
  have ne: "s \<noteq> []" using assms(1,2) by (auto simp: plain_host_def)
  have low: "to_ascii_lowercase suffix = suffix"
    using assms(5) by (auto simp: to_ascii_lowercase_def to_ascii_lower_def)
  have "graphic (last (s @ suffix))" using assms(4,5) by (auto simp: graphic_def)
  then have "normalize_host (s @ suffix) = strip_root_dot (strip_default_port (h @ suffix))"
    using assms(2,3) ne low by (simp add: normalize_host_lower)
  then show ?thesis
    using assms(5) plain_host_fixed [OF assms(1)]
      plain_host_fixed(5,6) [OF assms(1), of "h @ ''.''"] by auto
qed

theorem host_spellings_agree_witness: "normalize_host ''Relay.Example.:443'' = ''relay.example''"
proof -
  have "normalize_host (''Relay.Example'' @ ''.:443'') = ''relay.example''"
  proof (rule host_spellings_agree)
    show "plain_host ''relay.example''" by (simp add: plain_host_def graphic_def strip_suffix_last)
    show "to_ascii_lowercase ''Relay.Example'' = ''relay.example''" by code_simp
  qed (simp_all add: graphic_def)
  then show ?thesis by simp
qed

lemma trim_front_suffix: "\<exists>p. s = p @ trim_front ws s"
proof (induction ws s rule: trim_front.induct)
  case (1 ws s)
  show ?case
  proof (cases "find (\<lambda>w. w \<noteq> [] \<and> starts_with w s) ws")
    case (Some w)
    obtain p where "drop (length w) s = p @ trim_front ws (drop (length w) s)" using "1.IH" [OF Some] by blast
    moreover have "s = take (length w) s @ drop (length w) s" by simp
    moreover have "trim_front ws s = trim_front ws (drop (length w) s)"
      by (subst trim_front.simps) (simp add: Some)
    ultimately show ?thesis by (metis append.assoc)
  qed (subst trim_front.simps, simp)
qed

lemma str_trim_parts: "\<exists>p q. s = p @ str_trim s @ q"
proof -
  obtain p where p: "s = p @ trim_front white_space s" using trim_front_suffix by blast
  obtain q where "rev (trim_front white_space s) = q @ trim_front (map rev white_space) (rev (trim_front white_space s))"
    using trim_front_suffix by blast
  then have "trim_front white_space s = str_trim s @ rev q"
    unfolding str_trim_def by (metis rev_append rev_rev_ident)
  then show ?thesis using p by metis
qed

lemma strip_length:
  "length (strip_default_port h) \<le> length h" "length (strip_root_dot h) \<le> length h"
  "length (strip_default_port h) = length h \<longleftrightarrow> strip_suffix '':443'' h = None \<and> strip_suffix '':80'' h = None"
  "length (strip_root_dot h) = length h \<longleftrightarrow> strip_suffix ''.'' h = None"
  by (auto simp: strip_default_port_def strip_root_dot_def strip_suffix_Some split: option.split)

text \<open>
  Normalizing twice. A host is a fixed point of normalization exactly when it is trimmed and lower
  case and ends in neither a default port nor a dot: normalization strips one port and one dot only.
\<close>

theorem normalize_host_fixed_iff:
  "normalize_host h = h \<longleftrightarrow>
     str_trim h = h \<and> to_ascii_lowercase h = h
     \<and> strip_suffix '':443'' h = None \<and> strip_suffix '':80'' h = None \<and> strip_suffix ''.'' h = None"
proof
  assume fixed: "normalize_host h = h"
  let ?t = "str_trim h" let ?l = "to_ascii_lowercase ?t" let ?p = "strip_default_port ?l"
  obtain p q where pq: "h = p @ ?t @ q" using str_trim_parts by blast
  have len: "length ?l = length ?t" by (simp add: to_ascii_lowercase_def)
  have "length (strip_root_dot ?p) = length h" using fixed by (simp add: normalize_host_def)
  moreover have "length ?t \<le> length h" by (subst (2) pq) simp
  ultimately have eqs: "length ?t = length h" "length ?p = length ?l" "length (strip_root_dot ?p) = length ?p"
    using strip_length(1) [of ?l] strip_length(2) [of ?p] len by linarith+
  have "length p + length q = 0" using eqs(1) arg_cong [OF pq, of length] by simp
  then have t: "?t = h" using pq by simp
  have none: "strip_suffix '':443'' ?l = None" "strip_suffix '':80'' ?l = None"
    using eqs(2) by (simp_all add: strip_length(3))
  then have p: "?p = ?l" by (simp add: strip_default_port_def)
  have dot: "strip_suffix ''.'' ?l = None" using eqs(3) by (simp add: strip_length(4) p)
  then have l: "?l = h" using fixed by (simp add: normalize_host_def p strip_root_dot_def)
  then show "str_trim h = h \<and> to_ascii_lowercase h = h
     \<and> strip_suffix '':443'' h = None \<and> strip_suffix '':80'' h = None \<and> strip_suffix ''.'' h = None"
    using none dot t by simp
qed (simp add: normalize_host_def strip_default_port_def strip_root_dot_def)

text \<open>
  Host binding. A request is bound to a community exactly when its host is not empty after
  normalization and the resolver maps the normalized host to that community; the context carries that host.
  An empty host, an unmapped one and a failing lookup are refused.
\<close>

theorem bind_community_ok_iff:
  "bind_community resolve_host raw_host = Ok tenant \<longleftrightarrow>
     normalize_host raw_host \<noteq> [] \<and> resolve_host (normalize_host raw_host) = Ok (Some (tc_community tenant))
     \<and> tc_host tenant = normalize_host raw_host"
  by (cases tenant) (auto simp: bind_community_def resolved_def Let_def split: sum.split option.split)

end
