(* ===== verification/EventFilter.thy ===== *)
theory EventFilter
  imports Prelude
begin

text \<open>
  NIP-01 filter matching and result-level read authorization
  (\<open>crates/buzz-core/src/filter.rs\<close>, \<open>event.rs\<close>). Events, tags and filters are types of the
  \<open>nostr\<close> crate: they are records of the fields the code reads, with \<open>tag_kind\<close> the text of
  \<open>Tag::kind()\<close> and \<open>tag_content\<close> the value of \<open>Tag::content()\<close>. Public keys and event ids are
  their hex text, timestamps and kinds natural numbers. The specification of matching is
  \<open>filter_spec\<close>, with the channel fallback of \<open>#h\<close> filters spelled out as \<open>effective_values\<close>.
\<close>

section \<open>Data\<close>

record event_tag =
  tag_kind :: string
  tag_content :: "string option"

record nostr_event =
  ev_id :: string
  ev_pubkey :: string
  ev_created_at :: nat
  ev_kind :: nat
  ev_tags :: "event_tag list"
  ev_content :: string

record stored_event =
  se_event :: nostr_event
  se_received_at :: nat
  se_channel_id :: "string option"
  se_verified :: bool

record nostr_filter =
  f_ids :: "string list option"
  f_authors :: "string list option"
  f_kinds :: "nat list option"
  f_since :: "nat option"
  f_until :: "nat option"
  f_generic_tags :: "(char, string list) hmap"

definition new_stored_event :: "nat \<Rightarrow> nostr_event \<Rightarrow> string option \<Rightarrow> stored_event" where
  "new_stored_event now event channel_id =
     \<lparr>se_event = event, se_received_at = now, se_channel_id = channel_id, se_verified = False\<rparr>"

definition with_received_at ::
  "nostr_event \<Rightarrow> nat \<Rightarrow> string option \<Rightarrow> bool \<Rightarrow> stored_event" where
  "with_received_at event received_at channel_id verified =
     \<lparr>se_event = event, se_received_at = received_at, se_channel_id = channel_id,
      se_verified = verified\<rparr>"

section \<open>Matching\<close>

definition KIND_DM_VISIBILITY :: nat where "KIND_DM_VISIBILITY = 30622"
definition KIND_AGENT_TURN_METRIC :: nat where "KIND_AGENT_TURN_METRIC = 44200"

text \<open>The contents of the tags of one kind: the iterator chain that both functions use.\<close>

definition tag_contents :: "string \<Rightarrow> event_tag list \<Rightarrow> string list" where
  "tag_contents k tags = List.map_filter tag_content (filter (\<lambda>t. tag_kind t = k) tags)"

definition has_match :: "string \<Rightarrow> string list \<Rightarrow> stored_event \<Rightarrow> bool" where
  "has_match tag_key tag_values ev =
     list_ex (\<lambda>filter_val.
       list_ex (\<lambda>event_val. event_val = filter_val) (tag_contents tag_key (ev_tags (se_event ev))))
       tag_values"

text \<open>One round of the loop over \<open>generic_tags\<close>: \<open>False\<close> is the early return.\<close>

definition tag_filter_ok :: "char \<times> string list \<Rightarrow> stored_event \<Rightarrow> bool" where
  "tag_filter_ok kv ev =
     (let tag_key = [fst kv]; tag_values = snd kv; m = has_match tag_key tag_values ev
      in if \<not> m \<and> tag_key = ''h'' then
           (let event_has_h_tags = list_ex (\<lambda>t. tag_kind t = ''h'') (ev_tags (se_event ev))
            in if \<not> event_has_h_tags then
                 (case se_channel_id ev of
                    Some ch_id \<Rightarrow> list_ex (\<lambda>v. v = ch_id) tag_values
                  | None \<Rightarrow> False)
               else False)
         else m)"

definition filter_match_one :: "nostr_filter \<Rightarrow> stored_event \<Rightarrow> bool" where
  "filter_match_one f ev =
     (if (case f_kinds f of Some ks \<Rightarrow> \<not> List.member ks (ev_kind (se_event ev)) | None \<Rightarrow> False)
      then False
      else if (case f_authors f of
                 Some as \<Rightarrow> \<not> List.member as (ev_pubkey (se_event ev)) | None \<Rightarrow> False)
      then False
      else if (case f_since f of Some t \<Rightarrow> ev_created_at (se_event ev) < t | None \<Rightarrow> False)
      then False
      else if (case f_until f of Some t \<Rightarrow> ev_created_at (se_event ev) > t | None \<Rightarrow> False)
      then False
      else if (case f_ids f of
                 Some ids \<Rightarrow> \<not> list_ex (\<lambda>i. starts_with i (ev_id (se_event ev))) ids
               | None \<Rightarrow> False)
      then False
      else list_all (\<lambda>kv. tag_filter_ok kv ev) (f_generic_tags f))"

definition filters_match :: "nostr_filter list \<Rightarrow> stored_event \<Rightarrow> bool" where
  "filters_match filters ev = list_ex (\<lambda>f. filter_match_one f ev) filters"

definition reader_authorized_for_event :: "nostr_event \<Rightarrow> string \<Rightarrow> bool" where
  "reader_authorized_for_event event reader =
     (if ev_kind event \<noteq> KIND_DM_VISIBILITY \<and> ev_kind event \<noteq> KIND_AGENT_TURN_METRIC then True
      else list_ex (\<lambda>t. tag_content t = Some reader)
             (filter (\<lambda>t. tag_kind t = ''p'') (ev_tags event)))"

section \<open>Specification\<close>

text \<open>
  The values an event offers to a tag filter: its own tags of that letter, and, for \<open>#h\<close> on an
  event with no \<open>h\<close> tag at all, the channel the relay resolved for it.
\<close>

definition effective_values :: "stored_event \<Rightarrow> char \<Rightarrow> string set" where
  "effective_values ev c =
     {v. \<exists>t \<in> set (ev_tags (se_event ev)). tag_kind t = [c] \<and> tag_content t = Some v}
     \<union> (if c = CHR ''h'' \<and> (\<forall>t \<in> set (ev_tags (se_event ev)). tag_kind t \<noteq> ''h'')
        then set_option (se_channel_id ev) else {})"

definition opt_all :: "'a option \<Rightarrow> ('a \<Rightarrow> bool) \<Rightarrow> bool" where
  "opt_all x P = (case x of None \<Rightarrow> True | Some a \<Rightarrow> P a)"

lemma opt_all_simps [simp]: "opt_all None P" "opt_all (Some a) P \<longleftrightarrow> P a"
  by (simp_all add: opt_all_def)

definition filter_spec :: "nostr_filter \<Rightarrow> stored_event \<Rightarrow> bool" where
  "filter_spec f ev \<longleftrightarrow>
     opt_all (f_kinds f) (\<lambda>ks. ev_kind (se_event ev) \<in> set ks)
     \<and> opt_all (f_authors f) (\<lambda>as. ev_pubkey (se_event ev) \<in> set as)
     \<and> opt_all (f_since f) (\<lambda>t. t \<le> ev_created_at (se_event ev))
     \<and> opt_all (f_until f) (\<lambda>t. ev_created_at (se_event ev) \<le> t)
     \<and> opt_all (f_ids f) (\<lambda>ids. \<exists>i \<in> set ids. starts_with i (ev_id (se_event ev)))
     \<and> (\<forall>(c, vs) \<in> set (f_generic_tags f). set vs \<inter> effective_values ev c \<noteq> {})"

lemma set_tag_contents:
  "set (tag_contents k tags) = {v. \<exists>t \<in> set tags. tag_kind t = k \<and> tag_content t = Some v}"
  by (force simp: tag_contents_def List.map_filter_def)

lemma has_match_iff:
  "has_match k vs ev \<longleftrightarrow>
     (\<exists>t \<in> set (ev_tags (se_event ev)). tag_kind t = k \<and> (\<exists>v \<in> set vs. tag_content t = Some v))"
  by (auto simp: has_match_def list_ex_iff set_tag_contents)

lemma tag_filter_ok_iff:
  "tag_filter_ok (c, vs) ev \<longleftrightarrow> set vs \<inter> effective_values ev c \<noteq> {}"
proof -
  let ?own = "{v. \<exists>t \<in> set (ev_tags (se_event ev)). tag_kind t = [c] \<and> tag_content t = Some v}"
  have own: "has_match [c] vs ev \<longleftrightarrow> set vs \<inter> ?own \<noteq> {}"
    by (auto simp: has_match_iff)
  show ?thesis
    by (cases "se_channel_id ev")
       (auto simp: tag_filter_ok_def Let_def own effective_values_def list_ex_iff split: if_splits)
qed

lemma filter_match_one_iff_aux: "filter_match_one f ev \<longleftrightarrow> filter_spec f ev"
  by (auto simp: filter_match_one_def filter_spec_def list_all_iff tag_filter_ok_iff list_ex_iff
      List.member_iff opt_all_def not_less split: option.splits)

lemma filters_match_iff: "filters_match fs ev \<longleftrightarrow> (\<exists>f \<in> set fs. filter_spec f ev)"
  by (simp add: filters_match_def list_ex_iff filter_match_one_iff_aux)

text \<open>
  Filter matching. A list of filters matches an event exactly when one of them is satisfied in
  every field: kinds, authors, ids (by prefix), time window, and for each tag letter some requested
  value among the event's effective values. An \<open>#h\<close> filter is answered by the relay-side channel only
  on an event that carries no \<open>h\<close> tag of its own.
\<close>

theorem filters_match_spec:
  "filters_match fs ev \<longleftrightarrow> (\<exists>f \<in> set fs. filter_spec f ev)"
  by (rule filters_match_iff)

text \<open>
  Private events stay private: deliveries of the two viewer-private kinds are authorized only
  for a reader named by one of the event's \<open>p\<close> tags, all other kinds for every reader.
\<close>

lemma reader_authorized_iff:
  "reader_authorized_for_event ev reader \<longleftrightarrow>
     ev_kind ev \<notin> {KIND_DM_VISIBILITY, KIND_AGENT_TURN_METRIC}
     \<or> (\<exists>t \<in> set (ev_tags ev). tag_kind t = ''p'' \<and> tag_content t = Some reader)"
  by (auto simp: reader_authorized_for_event_def list_ex_iff)

end
