(* ===== verification/HttpAuth.thy ===== *)
theory HttpAuth
  imports RedisStore EventFilter Tenant
begin

text \<open>
  NIP-98 HTTP authentication: verification of the signed event (\<open>crates/buzz-auth/src/nip98.rs\<close>), the
  shared replay markers (\<open>crates/buzz-auth/src/nip98_replay.rs\<close>, \<open>crates/buzz-pubsub/src/nip98_replay.rs\<close>)
  and the header handling of the HTTP bridge (\<open>crates/buzz-relay/src/api/bridge.rs\<close>).

  Parameters (record \<open>http_lib\<close>): the JSON parser of events, signature and id verification, SHA-256, hex,
  base64, the URL parser and printer, the Unicode \<open>to_lowercase\<close> and the text of a UUID. Event ids and
  public keys are their hex text. Error messages are constructors that carry the values the text shows.
  One clock in milliseconds serves the relay and the store; \<open>Timestamp::now()\<close> is its whole seconds.
\<close>

section \<open>Library\<close>

record 'u http_lib =
  hl_parse_event :: "string \<Rightarrow> nostr_event option"
  hl_verify_id :: "nostr_event \<Rightarrow> bool"
  hl_verify_signature :: "nostr_event \<Rightarrow> bool"
  hl_sha256 :: "bytes \<Rightarrow> bytes"
  hl_hex :: "bytes \<Rightarrow> string"
  hl_base64_decode :: "string \<Rightarrow> bytes option"
  hl_pubkey_from_hex :: "string \<Rightarrow> string option"
  hl_url_parse :: "string \<Rightarrow> 'u option"
  hl_url_path :: "'u \<Rightarrow> string"
  hl_url_set_path :: "'u \<Rightarrow> string \<Rightarrow> 'u"
  hl_url_to_string :: "'u \<Rightarrow> string"
  hl_url_host :: "'u \<Rightarrow> string option"
  hl_url_set_host :: "'u \<Rightarrow> string \<Rightarrow> 'u"
  hl_to_lowercase :: "string \<Rightarrow> string"
  hl_uuid :: "uuid \<Rightarrow> string"

section \<open>Errors\<close>

datatype nip98_failure =
    EventJson | WrongKind nat | InvalidSchnorr | OutsideWindow nat | MissingUTag
  | UrlMismatch string string | MissingMethodTag | MethodMismatch string string | PayloadMismatch

datatype internal_failure = RedisPool | RedisCommand | UnexpectedReply | SpawnBlockingPanicked

datatype auth_error =
    InvalidSignature | ChallengeMismatch | RelayUrlMismatch | EventExpired
  | Nip98Invalid nip98_failure | Nip98Replay | PubkeyMismatch
  | InsufficientScope string "string list" | ChannelAccessDenied | Internal internal_failure

datatype verification_error = EventInvalidId | EventInvalidSignature

datatype reject =
    InvalidBase64 | InvalidUtf8 | InvalidEventJson | MissingPayloadTag | Nip98Failed auth_error
  | InvalidXPubkey | MissingNostrAuth | ReplayDetected | ReplayUnavailable

section \<open>Verification of the event\<close>

definition verify_event :: "'u http_lib \<Rightarrow> nostr_event \<Rightarrow> verification_error + unit" where
  "verify_event lib event =
     (if \<not> hl_verify_id lib event then Err EventInvalidId
      else if \<not> hl_verify_signature lib event then Err EventInvalidSignature
      else Ok ())"

definition HTTP_AUTH_KIND :: nat where "HTTP_AUTH_KIND = 27235"

definition TIMESTAMP_TOLERANCE_SECS :: nat where "TIMESTAMP_TOLERANCE_SECS = 60"

definition abs_diff :: "nat \<Rightarrow> nat \<Rightarrow> nat" where
  "abs_diff m n = (if m < n then n - m else m - n)"

text \<open>\<open>tags.find(kind).and_then(content)\<close>: only the first tag of the kind counts.\<close>

definition find_tag_content :: "string \<Rightarrow> event_tag list \<Rightarrow> string option" where
  "find_tag_content k tags = Option.bind (find (\<lambda>t. tag_kind t = k) tags) tag_content"

definition trim_end_slashes :: "string \<Rightarrow> string" where
  "trim_end_slashes s = rev (dropWhile (\<lambda>c. c = CHR ''/'') (rev s))"

definition normalize_url :: "'u http_lib \<Rightarrow> string \<Rightarrow> string" where
  "normalize_url lib raw =
     (case hl_url_parse lib raw of
        None \<Rightarrow> hl_to_lowercase lib raw
      | Some url \<Rightarrow> hl_url_to_string lib (hl_url_set_path lib url (trim_end_slashes (hl_url_path lib url))))"

definition verify_nip98_event ::
  "'u http_lib \<Rightarrow> nat \<Rightarrow> string \<Rightarrow> string \<Rightarrow> string \<Rightarrow> bytes option \<Rightarrow> auth_error + string" where
  "verify_nip98_event lib now_ms event_json expected_url expected_method body =
     (let invalid = (\<lambda>f. Err (Nip98Invalid f)) in
      case hl_parse_event lib event_json of
        None \<Rightarrow> invalid EventJson
      | Some event \<Rightarrow>
          if ev_kind event \<noteq> HTTP_AUTH_KIND then invalid (WrongKind (ev_kind event))
          else if \<not> is_ok (verify_event lib event) then invalid InvalidSchnorr
          else let delta = abs_diff (now_ms div 1000) (ev_created_at event) in
          if TIMESTAMP_TOLERANCE_SECS < delta then invalid (OutsideWindow delta)
          else (case find_tag_content ''u'' (ev_tags event) of
            None \<Rightarrow> invalid MissingUTag
          | Some u_tag \<Rightarrow>
              if normalize_url lib u_tag \<noteq> normalize_url lib expected_url
              then invalid (UrlMismatch u_tag expected_url)
              else (case find_tag_content ''method'' (ev_tags event) of
                None \<Rightarrow> invalid MissingMethodTag
              | Some method_tag \<Rightarrow>
                  if \<not> eq_ignore_ascii_case method_tag expected_method
                  then invalid (MethodMismatch method_tag expected_method)
                  else (case (find_tag_content ''payload'' (ev_tags event), body) of
                      (Some payload_hex, Some body_bytes) \<Rightarrow>
                        if hl_hex lib (hl_sha256 lib body_bytes) \<noteq> payload_hex
                        then invalid PayloadMismatch else Ok (ev_pubkey event)
                    | _ \<Rightarrow> Ok (ev_pubkey event)))))"

section \<open>The bridge's headers\<close>

text \<open>
  \<open>HeaderMap::get\<close> by lower-case name, then \<open>to_str\<close>, which takes only tabs and visible ASCII.
\<close>

definition header_str :: "string \<Rightarrow> (string, string) hmap \<Rightarrow> string option" where
  "header_str name headers =
     (case map_of headers name of
        None \<Rightarrow> None
      | Some v \<Rightarrow> if list_all (\<lambda>c. c = CHR 0x09 \<or> 32 \<le> (of_char c :: nat) \<and> (of_char c :: nat) < 127) v
                 then Some v else None)"

definition ZERO_EVENT_ID :: string where "ZERO_EVENT_ID = replicate 64 CHR ''0''"

definition verify_bridge_auth_with_options ::
  "'u http_lib \<Rightarrow> nat \<Rightarrow> (string, string) hmap \<Rightarrow> string \<Rightarrow> string \<Rightarrow> bytes option \<Rightarrow> bool \<Rightarrow> bool
     \<Rightarrow> reject + string \<times> string" where
  "verify_bridge_auth_with_options lib now_ms headers req_method url body require_auth_token require_payload =
     (case Option.bind (header_str ''authorization'' headers) (strip_prefix ''Nostr '') of
        Some auth_str \<Rightarrow>
          and_then (ok_or InvalidBase64 (hl_base64_decode lib auth_str)) (\<lambda>raw.
          and_then (ok_or InvalidUtf8 (string_from_utf8 raw)) (\<lambda>event_json.
          and_then (ok_or InvalidEventJson (hl_parse_event lib event_json)) (\<lambda>event.
            if require_payload \<and> \<not> list_ex (\<lambda>t. tag_kind t = ''payload'') (ev_tags event)
            then Err MissingPayloadTag
            else case verify_nip98_event lib now_ms event_json url req_method body of
                   Inl e \<Rightarrow> Err (Nip98Failed e)
                 | Inr pubkey \<Rightarrow> Ok (pubkey, ev_id event))))
      | None \<Rightarrow>
          (case (if require_auth_token then None else header_str ''x-pubkey'' headers) of
             Some hex_val \<Rightarrow>
               (case hl_pubkey_from_hex lib hex_val of
                  None \<Rightarrow> Err InvalidXPubkey
                | Some pubkey \<Rightarrow> Ok (pubkey, ZERO_EVENT_ID))
           | None \<Rightarrow> Err MissingNostrAuth))"

definition verify_bridge_auth ::
  "'u http_lib \<Rightarrow> nat \<Rightarrow> (string, string) hmap \<Rightarrow> string \<Rightarrow> string \<Rightarrow> bytes option \<Rightarrow> bool
     \<Rightarrow> reject + string \<times> string" where
  "verify_bridge_auth lib now_ms headers req_method url body require_auth_token =
     verify_bridge_auth_with_options lib now_ms headers req_method url body require_auth_token False"

section \<open>Expected URLs\<close>

definition tls_relay :: "string \<Rightarrow> bool" where
  "tls_relay config_relay_url \<longleftrightarrow> starts_with ''wss://'' (trim_front white_space config_relay_url)"

definition nip98_expected_url :: "string \<Rightarrow> tenant_context \<Rightarrow> string \<Rightarrow> string" where
  "nip98_expected_url config_relay_url tenant path =
     (if tls_relay config_relay_url then ''https'' else ''http'') @ ''://'' @ tc_host tenant @ path"

definition nip42_expected_relay_url :: "string \<Rightarrow> tenant_context \<Rightarrow> string" where
  "nip42_expected_relay_url config_relay_url tenant =
     (if tls_relay config_relay_url then ''wss'' else ''ws'') @ ''://'' @ tc_host tenant"

section \<open>Replay markers\<close>

definition DEFAULT_REPLAY_TTL_SECS :: nat where "DEFAULT_REPLAY_TTL_SECS = 120"
definition MAX_REPLAY_TTL_SECS :: nat where "MAX_REPLAY_TTL_SECS = 3600"

definition nip98_replay_key_for_scope :: "string \<Rightarrow> string \<Rightarrow> string" where
  "nip98_replay_key_for_scope scope event_id = ''buzz:'' @ scope @ '':nip98:'' @ event_id"

definition try_mark_in_scope ::
  "net \<Rightarrow> nat \<Rightarrow> string \<Rightarrow> string \<Rightarrow> nat \<Rightarrow> redis \<Rightarrow> redis \<times> (auth_error + bool)" where
  "try_mark_in_scope net now scope event_id ttl_secs st =
     (let ttl = min MAX_REPLAY_TTL_SECS (max DEFAULT_REPLAY_TTL_SECS ttl_secs);
          key = nip98_replay_key_for_scope scope event_id
      in case net of
           PoolDown \<Rightarrow> (st, Err (Internal RedisPool))
         | NotSent \<Rightarrow> (st, Err (Internal RedisCommand))
         | ReplyLost \<Rightarrow> (fst (redis_set_nx_ex now key ''1'' ttl st), Err (Internal RedisCommand))
         | NetOk \<Rightarrow> (let (st', fresh) = redis_set_nx_ex now key ''1'' ttl st in (st', Ok fresh)))"

definition try_mark ::
  "'u http_lib \<Rightarrow> net \<Rightarrow> nat \<Rightarrow> tenant_context \<Rightarrow> string \<Rightarrow> nat \<Rightarrow> redis \<Rightarrow> redis \<times> (auth_error + bool)" where
  "try_mark lib net now ctx event_id ttl_secs st =
     try_mark_in_scope net now (hl_uuid lib (tc_community ctx)) event_id ttl_secs st"

definition check_nip98_replay ::
  "'u http_lib \<Rightarrow> net \<Rightarrow> nat \<Rightarrow> tenant_context \<Rightarrow> string \<Rightarrow> redis \<Rightarrow> redis \<times> (reject + unit)" where
  "check_nip98_replay lib net now tenant event_id st =
     (if event_id = ZERO_EVENT_ID then (st, Ok ())
      else let (st', r) = try_mark lib net now tenant event_id DEFAULT_REPLAY_TTL_SECS st
           in (st', case r of
                      Inr True \<Rightarrow> Ok ()
                    | Inr False \<Rightarrow> Err ReplayDetected
                    | Inl _ \<Rightarrow> Err ReplayUnavailable))"

section \<open>What verification establishes\<close>

lemma verify_event_ok [simp]: "is_ok (verify_event lib ev) \<longleftrightarrow> hl_verify_id lib ev \<and> hl_verify_signature lib ev"
  by (simp add: verify_event_def)

text \<open>The checks on a parsed event, in any order.\<close>

definition nip98_valid :: "'u http_lib \<Rightarrow> nat \<Rightarrow> nostr_event \<Rightarrow> string \<Rightarrow> string \<Rightarrow> bytes option \<Rightarrow> bool" where
  "nip98_valid lib now_ms ev url req_method body \<longleftrightarrow>
     ev_kind ev = HTTP_AUTH_KIND \<and> hl_verify_id lib ev \<and> hl_verify_signature lib ev
     \<and> abs_diff (now_ms div 1000) (ev_created_at ev) \<le> TIMESTAMP_TOLERANCE_SECS
     \<and> (\<exists>u. find_tag_content ''u'' (ev_tags ev) = Some u \<and> normalize_url lib u = normalize_url lib url)
     \<and> (\<exists>m. find_tag_content ''method'' (ev_tags ev) = Some m \<and> eq_ignore_ascii_case m req_method)
     \<and> (case (find_tag_content ''payload'' (ev_tags ev), body) of
          (Some h, Some b) \<Rightarrow> h = hl_hex lib (hl_sha256 lib b) | _ \<Rightarrow> True)"

text \<open>
  NIP-98 verification. An event authenticates a request exactly when it parses, is of kind 27235, has
  the id and signature of its content, was created within 60 whole seconds of now on either side, names the
  request's URL up to trailing slashes and its method up to ASCII case in the first tag of each kind, and,
  when it carries a payload hash and the body is at hand, hashes that body. The result is its public key.
\<close>

theorem nip98_ok_iff:
  "verify_nip98_event lib now_ms event_json url req_method body = Ok pk \<longleftrightarrow>
     (\<exists>ev. hl_parse_event lib event_json = Some ev \<and> pk = ev_pubkey ev
        \<and> nip98_valid lib now_ms ev url req_method body)"
  by (auto simp: verify_nip98_event_def nip98_valid_def Let_def split: option.splits if_splits)

lemma bridge_auth_ok_iff:
  "verify_bridge_auth_with_options lib now_ms headers req_method url body token payload = Ok (pk, eid) \<longleftrightarrow>
     (case Option.bind (header_str ''authorization'' headers) (strip_prefix ''Nostr '') of
        Some auth \<Rightarrow> (\<exists>raw json ev. hl_base64_decode lib auth = Some raw \<and> string_from_utf8 raw = Some json
           \<and> hl_parse_event lib json = Some ev \<and> eid = ev_id ev \<and> pk = ev_pubkey ev
           \<and> nip98_valid lib now_ms ev url req_method body
           \<and> (payload \<longrightarrow> list_ex (\<lambda>t. tag_kind t = ''payload'') (ev_tags ev)))
      | None \<Rightarrow> \<not> token \<and> eid = ZERO_EVENT_ID
           \<and> (\<exists>h. header_str ''x-pubkey'' headers = Some h \<and> hl_pubkey_from_hex lib h = Some pk))"
proof (cases "Option.bind (header_str ''authorization'' headers) (strip_prefix ''Nostr '')")
  case None
  then show ?thesis
    by (auto simp: verify_bridge_auth_with_options_def split: option.split)
next
  case (Some auth)
  have "(case verify_nip98_event lib now_ms json url req_method body of
           Inl e \<Rightarrow> Err (Nip98Failed e) | Inr p \<Rightarrow> Ok (p, i)) = Ok (pk, eid) \<longleftrightarrow>
      verify_nip98_event lib now_ms json url req_method body = Ok pk \<and> i = eid" for json i
    by (cases "verify_nip98_event lib now_ms json url req_method body") auto
  then show ?thesis
    by (simp only: verify_bridge_auth_with_options_def Some option.case nip98_ok_iff if_distrib [of "\<lambda>r. r = _"]
        and_then_eq_Ok ok_or_eq_Ok) (auto split: if_splits)
qed

lemma bridge_auth_nip98:
  assumes "verify_bridge_auth_with_options lib now_ms headers req_method url body token payload = Ok (pk, eid)"
    and "token \<or> eid \<noteq> ZERO_EVENT_ID"
  obtains json ev where "hl_parse_event lib json = Some ev" "eid = ev_id ev" "pk = ev_pubkey ev"
    "nip98_valid lib now_ms ev url req_method body"
    "payload \<longrightarrow> list_ex (\<lambda>t. tag_kind t = ''payload'') (ev_tags ev)"
  using assms unfolding bridge_auth_ok_iff
  by (auto split: option.splits)

text \<open>
  Payload tags without a value. Endpoints that demand a payload tag only test that one exists. When the
  first payload tag carries no value, the outcome does not depend on the body: the signature does not bind it.
\<close>

theorem empty_payload_tag_binds_nothing:
  assumes "Option.bind (header_str ''authorization'' headers) (strip_prefix ''Nostr '') = Some auth"
    and "hl_base64_decode lib auth = Some raw" "string_from_utf8 raw = Some json"
    and "hl_parse_event lib json = Some ev" "find_tag_content ''payload'' (ev_tags ev) = None"
  shows "verify_bridge_auth_with_options lib now_ms headers req_method url (Some body) token payload
    = verify_bridge_auth_with_options lib now_ms headers req_method url (Some other) token payload"
proof -
  have "verify_nip98_event lib now_ms json url req_method (Some body)
      = verify_nip98_event lib now_ms json url req_method (Some other)"
    by (auto simp: verify_nip98_event_def assms Let_def split: option.split)
  then show ?thesis by (simp add: verify_bridge_auth_with_options_def assms)
qed

lemma abs_diff_le: "abs_diff m n \<le> d \<longleftrightarrow> m \<le> n + d \<and> n \<le> m + d"
  by (auto simp: abs_diff_def)

section \<open>What the markers establish\<close>

definition http_laws :: "'u http_lib \<Rightarrow> bool" where
  "http_laws lib \<longleftrightarrow> inj (hl_uuid lib) \<and> (\<forall>u. length (hl_uuid lib u) = 36 \<and> CHR '':'' \<notin> set (hl_uuid lib u))"

lemma http_lawsD:
  assumes "http_laws lib"
  shows "hl_uuid lib u = hl_uuid lib v \<longleftrightarrow> u = v" "length (hl_uuid lib u) = 36" "CHR '':'' \<notin> set (hl_uuid lib u)"
  using assms by (auto simp: http_laws_def inj_eq)

definition mark_key :: "'u http_lib \<Rightarrow> uuid \<Rightarrow> string \<Rightarrow> string" where
  "mark_key lib community event_id = nip98_replay_key_for_scope (hl_uuid lib community) event_id"

lemma mark_key_eq:
  assumes "http_laws lib"
  shows "mark_key lib c i = mark_key lib c' i' \<longleftrightarrow> c = c' \<and> i = i'"
proof -
  have "length (hl_uuid lib c) = length (hl_uuid lib c')" by (simp add: http_lawsD(2) [OF assms])
  then show ?thesis by (auto simp: mark_key_def nip98_replay_key_for_scope_def http_lawsD(1) [OF assms])
qed

lemma clamped_ttl: "min MAX_REPLAY_TTL_SECS (max DEFAULT_REPLAY_TTL_SECS DEFAULT_REPLAY_TTL_SECS) = 120"
  "min MAX_REPLAY_TTL_SECS DEFAULT_REPLAY_TTL_SECS = 120"
  by (simp_all add: DEFAULT_REPLAY_TTL_SECS_def MAX_REPLAY_TTL_SECS_def)

lemma check_replay_result:
  assumes "event_id \<noteq> ZERO_EVENT_ID"
  shows "snd (check_nip98_replay lib net now tenant event_id st) =
    (if net \<noteq> NetOk then Err ReplayUnavailable
     else if redis_get now (mark_key lib (tc_community tenant) event_id) st = None then Ok ()
     else Err ReplayDetected)"
  using assms
  by (cases net) (auto simp: check_nip98_replay_def try_mark_def try_mark_in_scope_def mark_key_def
      redis_set_nx_ex_def Let_def)

lemma check_replay_get:
  assumes "event_id \<noteq> ZERO_EVENT_ID"
  shows "redis_get t k (fst (check_nip98_replay lib net now tenant event_id st)) =
    (if k = mark_key lib (tc_community tenant) event_id \<and> ran net \<and> redis_get now k st = None
     then if t < now + 120000 then Some ''1'' else None
     else redis_get t k st)"
proof -
  let ?key = "mark_key lib (tc_community tenant) event_id"
  have "fst (check_nip98_replay lib net now tenant event_id st) =
      (if ran net then fst (redis_set_nx_ex now ?key ''1'' 120 st) else st)"
    using assms
    by (cases net) (simp_all add: check_nip98_replay_def try_mark_def try_mark_in_scope_def mark_key_def ran_def
        clamped_ttl Let_def case_prod_beta)
  then show ?thesis by (auto simp: redis_set_nx_ex_def hmap_simps)
qed

lemma check_replay_zero [simp]: "check_nip98_replay lib net now tenant ZERO_EVENT_ID st = (st, Ok ())"
  by (simp add: check_nip98_replay_def)

end
