(* ===== verification/RateLimit.thy ===== *)
theory RateLimit
  imports RedisStore HttpAuth
begin

text \<open>
  Fixed-window rate limits: the keys and results of \<open>crates/buzz-auth/src/rate_limit.rs\<close>, the Lua script and
  its caller in \<open>crates/buzz-pubsub/src/rate_limiter.rs\<close>, and the admission checks of
  \<open>crates/buzz-relay/src/admission.rs\<close>. The limiter is proved to refine an abstract \<open>counter\<close>: a count and
  the end of its window. Public keys and IP addresses are their text.
\<close>

section \<open>Types\<close>

record rate_limit_result =
  rl_allowed :: bool
  rl_current :: u64
  rl_limit :: u64
  rl_reset_in_secs :: u64

definition allowed :: "u64 \<Rightarrow> u64 \<Rightarrow> u64 \<Rightarrow> rate_limit_result" where
  "allowed current limit reset_in_secs =
     \<lparr>rl_allowed = True, rl_current = current, rl_limit = limit, rl_reset_in_secs = reset_in_secs\<rparr>"

definition denied :: "u64 \<Rightarrow> u64 \<Rightarrow> u64 \<Rightarrow> rate_limit_result" where
  "denied current limit reset_in_secs =
     \<lparr>rl_allowed = False, rl_current = current, rl_limit = limit, rl_reset_in_secs = reset_in_secs\<rparr>"

datatype limit_type = Messages | ApiCalls | WsEvents | IpConnections

fun key_suffix :: "limit_type \<Rightarrow> string" where
  "key_suffix Messages = ''msg''"
| "key_suffix ApiCalls = ''api''"
| "key_suffix WsEvents = ''ws''"
| "key_suffix IpConnections = ''conn''"

record rate_limit_config =
  human_messages_per_min :: u64
  human_api_calls_per_min :: u64
  human_ws_events_per_sec :: u64
  agent_standard_messages_per_min :: u64
  agent_standard_api_calls_per_min :: u64
  agent_elevated_messages_per_min :: u64
  agent_platform_messages_per_min :: u64

definition default_rate_limits :: rate_limit_config where
  "default_rate_limits =
     \<lparr>human_messages_per_min = 60, human_api_calls_per_min = 300, human_ws_events_per_sec = 10,
      agent_standard_messages_per_min = 120, agent_standard_api_calls_per_min = 600,
      agent_elevated_messages_per_min = 300, agent_platform_messages_per_min = 600\<rparr>"

definition rate_limit_key :: "'u http_lib \<Rightarrow> tenant_context \<Rightarrow> string \<Rightarrow> limit_type \<Rightarrow> string" where
  "rate_limit_key lib ctx pubkey lt =
     ''buzz:'' @ hl_uuid lib (tc_community ctx) @ '':ratelimit:'' @ pubkey @ '':'' @ key_suffix lt"

definition ip_rate_limit_key :: "string \<Rightarrow> string" where
  "ip_rate_limit_key ip = ''buzz:ratelimit:ip:'' @ ip @ '':conn''"

section \<open>The limiter\<close>

text \<open>
  The script: \<open>INCR\<close>, \<open>EXPIRE\<close> on the first hit, \<open>TTL\<close>. A failing command aborts it and leaves the
  effects of the commands before it.
\<close>

definition rate_limit_script :: "nat \<Rightarrow> string \<Rightarrow> int \<Rightarrow> redis \<Rightarrow> redis \<times> (int \<times> int) option" where
  "rate_limit_script now key window st =
     (case redis_incr now key st of
        None \<Rightarrow> (st, None)
      | Some (st1, count) \<Rightarrow>
          (case (if count = 1 then redis_expire now key window st1 else Some st1) of
             None \<Rightarrow> (st1, None)
           | Some st2 \<Rightarrow> (st2, Some (count, redis_ttl now key st2))))"

text \<open>
  The caller reads the count as \<open>u64\<close> and the TTL as \<open>i64\<close>. A key without expiry is repaired in a second
  round trip (\<open>net'\<close>, at \<open>now'\<close>), on the connection already held.
\<close>

definition run_rate_limit ::
  "net \<Rightarrow> nat \<Rightarrow> net \<Rightarrow> nat \<Rightarrow> string \<Rightarrow> u64 \<Rightarrow> u64 \<Rightarrow> redis \<Rightarrow> redis \<times> (auth_error + rate_limit_result)" where
  "run_rate_limit net now net' now' key window_secs limit st =
     (let window = sint window_secs;
          failed = Err (Internal RedisCommand);
          answer = (\<lambda>count reset. if of_int count \<le> limit then allowed (of_int count) limit reset
                                  else denied (of_int count) limit reset)
      in case net of
           PoolDown \<Rightarrow> (st, Err (Internal RedisPool))
         | NotSent \<Rightarrow> (st, failed)
         | ReplyLost \<Rightarrow> (fst (rate_limit_script now key window st), failed)
         | NetOk \<Rightarrow>
             (case rate_limit_script now key window st of
                (st1, None) \<Rightarrow> (st1, failed)
              | (st1, Some (count, ttl)) \<Rightarrow>
                  if count < 0 then (st1, failed)
                  else if 0 \<le> ttl then (st1, Ok (answer count (of_int ttl)))
                  else if ran net'
                  then (case redis_expire now' key window st1 of
                          None \<Rightarrow> (st1, failed)
                        | Some st2 \<Rightarrow>
                            (st2, if net' = NetOk then Ok (answer count window_secs) else failed))
                  else (st1, failed)))"

definition check_and_increment ::
  "'u http_lib \<Rightarrow> net \<Rightarrow> nat \<Rightarrow> net \<Rightarrow> nat \<Rightarrow> tenant_context \<Rightarrow> string \<Rightarrow> limit_type \<Rightarrow> u64 \<Rightarrow> u64 \<Rightarrow> redis
     \<Rightarrow> redis \<times> (auth_error + rate_limit_result)" where
  "check_and_increment lib net now net' now' ctx pubkey lt window_secs limit st =
     run_rate_limit net now net' now' (rate_limit_key lib ctx pubkey lt) window_secs limit st"

definition check_ip_connection ::
  "net \<Rightarrow> nat \<Rightarrow> net \<Rightarrow> nat \<Rightarrow> string \<Rightarrow> u64 \<Rightarrow> u64 \<Rightarrow> redis \<Rightarrow> redis \<times> (auth_error + rate_limit_result)" where
  "check_ip_connection net now net' now' ip window_secs limit st =
     run_rate_limit net now net' now' (ip_rate_limit_key ip) window_secs limit st"

section \<open>Admission\<close>

definition WS_BURST_WINDOW_SECS :: u64 where "WS_BURST_WINDOW_SECS = 5"

datatype admission_error = Exceeded u64 | Unavailable

text \<open>\<open>limiter\<close> is \<open>check_and_increment\<close> applied to the call's clock and network.\<close>

definition check_principal ::
  "(tenant_context \<Rightarrow> string \<Rightarrow> limit_type \<Rightarrow> u64 \<Rightarrow> u64 \<Rightarrow> redis \<Rightarrow> redis \<times> (auth_error + rate_limit_result))
     \<Rightarrow> tenant_context \<Rightarrow> string \<Rightarrow> limit_type \<Rightarrow> u64 \<Rightarrow> u64 \<Rightarrow> redis \<Rightarrow> redis \<times> (admission_error + unit)" where
  "check_principal limiter tenant pubkey lt window_secs limit st =
     (let (st', r) = limiter tenant pubkey lt window_secs limit st
      in (st', case r of
                 Inr result \<Rightarrow> if rl_allowed result then Ok () else Err (Exceeded (rl_reset_in_secs result))
               | Inl _ \<Rightarrow> Err Unavailable))"

definition saturating_mul :: "u64 \<Rightarrow> u64 \<Rightarrow> u64" where
  "saturating_mul a b = (if unat a * unat b < 2 ^ 64 then a * b else - 1)"

definition ws_admission_budget :: "u64 \<Rightarrow> u64 \<times> u64" where
  "ws_admission_budget per_second_limit =
     (WS_BURST_WINDOW_SECS, saturating_mul per_second_limit WS_BURST_WINDOW_SECS)"

section \<open>The abstract window\<close>

text \<open>A count of hits and the instant at which it starts afresh.\<close>

record counter =
  cn_hits :: nat
  cn_until :: nat

definition live_hits :: "nat \<Rightarrow> counter \<Rightarrow> nat" where
  "live_hits now c = (if now < cn_until c then cn_hits c else 0)"

definition hit :: "nat \<Rightarrow> nat \<Rightarrow> counter \<Rightarrow> counter" where
  "hit window now c =
     (if live_hits now c = 0 then \<lparr>cn_hits = 1, cn_until = now + 1000 * window\<rparr>
      else c\<lparr>cn_hits := Suc (cn_hits c)\<rparr>)"

definition idle_counter :: counter where
  "idle_counter = \<lparr>cn_hits = 0, cn_until = 0\<rparr>"

text \<open>The store holds the counter under a key: its decimal, with an expiry, unless there were no hits.\<close>

definition counts :: "string \<Rightarrow> redis \<Rightarrow> counter \<Rightarrow> bool" where
  "counts key st c \<longleftrightarrow>
     (\<forall>now. redis_get now key st = (if live_hits now c = 0 then None else Some (show_nat (cn_hits c))))"

lemma idle_hits [simp]: "cn_hits idle_counter = 0"
  by (simp add: idle_counter_def)

lemma counts_get:
  "counts key st c \<Longrightarrow>
     redis_get now key st = (if live_hits now c = 0 then None else Some (show_nat (cn_hits c)))"
  by (simp add: counts_def)

lemma counts_idle [simp]: "counts key st idle_counter \<longleftrightarrow> (\<forall>now. redis_get now key st = None)"
  by (simp add: counts_def live_hits_def idle_counter_def)

lemma counts_frame: "counts key st c \<Longrightarrow> (\<And>t. redis_get t key st' = redis_get t key st) \<Longrightarrow> counts key st' c"
  by (simp add: counts_def)

lemma countsI:
  "map_of (rd_values st) key = Some (show_nat (cn_hits c)) \<Longrightarrow> map_of (rd_expiry st) key = Some (cn_until c)
     \<Longrightarrow> 0 < cn_hits c \<Longrightarrow> counts key st c"
  by (simp add: counts_def live_hits_def redis_get_def)

lemma counts_expiry:
  assumes "counts key st c" "0 < live_hits now c"
  shows "map_of (rd_expiry st) key = Some (cn_until c)"
proof -
  from assms(2) have pos: "0 < cn_hits c" "0 < cn_until c" by (auto simp: live_hits_def split: if_splits)
  have "redis_get (cn_until c - 1) key st = Some (show_nat (cn_hits c))" "redis_get (cn_until c) key st = None"
    using pos by (simp_all add: counts_get [OF assms(1)] live_hits_def)
  then show ?thesis
    using pos by (auto simp: redis_get_def split: option.splits if_splits)
qed

lemma live_hits_le: "live_hits now c \<le> cn_hits c"
  by (simp add: live_hits_def)

lemma live_hits_hit [simp]: "0 < window \<Longrightarrow> live_hits now (hit window now c) = Suc (live_hits now c)"
  by (auto simp: hit_def live_hits_def)

text \<open>What the window of a call must satisfy for its expiry to be in range.\<close>

definition window_ok :: "nat \<Rightarrow> nat \<Rightarrow> bool" where
  "window_ok window now \<longleftrightarrow> 0 < window \<and> now + 1000 * window < 2 ^ 63"

lemma rate_limit_script_refines:
  assumes "counts key st c" "window_ok window now" "live_hits now c < 2 ^ 63 - 1"
  obtains st' where
    "rate_limit_script now key (int window) st
       = (st', Some (int (Suc (live_hits now c)), int ((cn_until (hit window now c) - now + 500) div 1000)))"
    "counts key st' (hit window now c)"
proof -
  let ?n = "live_hits now c"
  obtain st1 where incr: "redis_incr now key st = Some (st1, int (Suc ?n))"
      and val: "map_of (rd_values st1) key = Some (show_nat (Suc ?n))"
      and exp: "map_of (rd_expiry st1) key = (if ?n = 0 then None else Some (cn_until c))"
  proof -
    have cur: "(case redis_get now key st of None \<Rightarrow> Some 0 | Some v \<Rightarrow> parse_i64 v) = Some (int ?n)"
    proof (cases "?n = 0")
      case False
      then have "?n = cn_hits c" by (auto simp: live_hits_def split: if_splits)
      then show ?thesis using False assms(3) by (simp add: counts_get [OF assms(1)])
    qed (simp add: counts_get [OF assms(1)])
    let ?st1 = "st\<lparr>rd_values := AList.update key (show_int (int ?n + 1)) (rd_values st),
        rd_expiry := (if redis_get now key st = None then AList.delete key (rd_expiry st) else rd_expiry st)\<rparr>"
    have "redis_incr now key st = Some (?st1, int (Suc ?n))"
      using assms(3) by (simp add: redis_incr_def cur)
    moreover have "map_of (rd_expiry ?st1) key = (if ?n = 0 then None else Some (cn_until c))"
      by (simp add: counts_get [OF assms(1)] hmap_simps counts_expiry [OF assms(1)])
    moreover have "show_int (int ?n + 1) = show_nat (Suc ?n)"
      by (metis of_nat_Suc add.commute show_int_of_nat)
    ultimately show ?thesis by (intro that [of ?st1]) (simp_all add: hmap_simps)
  qed
  show ?thesis
  proof (cases "?n = 0")
    case True
    have get1: "redis_get now key st1 = Some (show_nat 1)"
      using val exp True by (simp add: redis_get_def)
    let ?u = "now + 1000 * window"
    have ex: "redis_expire now key (int window) st1 = Some (redis_pexpire key ?u st1)"
      using assms(2) get1 by (simp add: redis_expire_def window_ok_def nat_add_distrib nat_mult_distrib)
    have "redis_ttl now key (redis_pexpire key ?u st1) = int ((?u - now + 500) div 1000)"
      using assms(2) val True
      by (simp add: redis_ttl_def hmap_simps) (simp add: redis_pexpire_def hmap_simps window_ok_def)
    then have "rate_limit_script now key (int window) st
       = (redis_pexpire key ?u st1, Some (int (Suc ?n), int ((?u - now + 500) div 1000)))"
      by (simp add: rate_limit_script_def incr ex True)
    then have run: "rate_limit_script now key (int window) st = (redis_pexpire key ?u st1,
        Some (int (Suc ?n), int ((cn_until (hit window now c) - now + 500) div 1000)))"
      using True by (simp add: hit_def)
    have "counts key (redis_pexpire key ?u st1) (hit window now c)"
      using val True by (intro countsI) (simp_all add: hit_def redis_pexpire_def hmap_simps)
    then show ?thesis by (rule that [OF run])
  next
    case False
    then have live: "?n = cn_hits c" "now < cn_until c" by (auto simp: live_hits_def split: if_splits)
    have "redis_ttl now key st1 = int ((cn_until c - now + 500) div 1000)"
      using val exp False live by (simp add: redis_ttl_def redis_get_def)
    then have "rate_limit_script now key (int window) st
       = (st1, Some (int (Suc ?n), int ((cn_until c - now + 500) div 1000)))"
      using False by (simp add: rate_limit_script_def incr)
    then show ?thesis
      using val exp False live
      by (intro that [of st1]) (simp_all add: hit_def countsI)
  qed
qed

section \<open>Calls touch their own key and refine the counter\<close>

lemma redis_incr_get_other:
  "redis_incr now key st = Some (st', n) \<Longrightarrow> k \<noteq> key \<Longrightarrow> redis_get t k st' = redis_get t k st"
  by (drule (1) redis_incr_other) (auto simp: redis_get_def split: option.split)

lemma redis_expire_get_other:
  "redis_expire now key secs st = Some st' \<Longrightarrow> k \<noteq> key \<Longrightarrow> redis_get t k st' = redis_get t k st"
  by (auto simp: redis_expire_def hmap_simps split: if_splits)

lemma rate_limit_script_get_other:
  "k \<noteq> key \<Longrightarrow> redis_get t k (fst (rate_limit_script now key window st)) = redis_get t k st"
  by (auto simp: rate_limit_script_def redis_incr_get_other redis_expire_get_other split: option.split)

lemma run_rate_limit_get_other:
  assumes "k \<noteq> key"
  shows "redis_get t k (fst (run_rate_limit net now net' now' key w limit st)) = redis_get t k st"
proof (cases "rate_limit_script now key (sint w) st")
  case (Pair st1 r)
  then have "redis_get t k st1 = redis_get t k st"
    using rate_limit_script_get_other [OF assms, of t now "sint w" st] by simp
  then show ?thesis
    using assms Pair
    by (auto simp: run_rate_limit_def Let_def redis_expire_get_other split: net.split option.split)
qed

lemma sint_small: assumes "unat w < 2 ^ 63" shows "sint (w :: u64) = int (unat w)"
proof -
  have u: "int (unat w) = uint w" by simp
  have "uint w < 2 ^ 63" using assms by (simp only: u [symmetric] of_nat_less_numeral_power_cancel_iff)
  moreover have "- (2 ^ 63) \<le> uint w" by (rule order.trans [OF _ uint_ge_0]) simp
  ultimately have "signed_take_bit 63 (uint w) = uint w" by (simp add: signed_take_bit_int_eq_self)
  then show ?thesis by (simp add: sint_uint)
qed

lemma u64_count_le: "n < 2 ^ 64 \<Longrightarrow> (of_int (int n) :: u64) \<le> limit \<longleftrightarrow> n \<le> unat limit"
  by (simp add: word_le_nat_alt unat_of_nat)

lemma run_rate_limit_refines:
  fixes w limit :: u64
  assumes "counts key st c" "window_ok (unat w) now" "live_hits now c < 2 ^ 63 - 1"
  obtains st' reset where
    "run_rate_limit net now net' now' key w limit st = (st',
       if net = NetOk
       then Ok \<lparr>rl_allowed = Suc (live_hits now c) \<le> unat limit, rl_current = of_nat (Suc (live_hits now c)),
                rl_limit = limit, rl_reset_in_secs = reset\<rparr>
       else Err (Internal (if net = PoolDown then RedisPool else RedisCommand)))"
    "counts key st' (if ran net then hit (unat w) now c else c)"
proof -
  have sw: "sint w = int (unat w)" using assms(2) by (intro sint_small) (simp add: window_ok_def)
  obtain st' where s: "rate_limit_script now key (sint w) st
       = (st', Some (int (Suc (live_hits now c)), int ((cn_until (hit (unat w) now c) - now + 500) div 1000)))"
    "counts key st' (hit (unat w) now c)"
    unfolding sw by (rule rate_limit_script_refines [OF assms])
  have le: "of_int (int (Suc (live_hits now c))) \<le> limit \<longleftrightarrow> Suc (live_hits now c) \<le> unat limit"
    using assms(3) by (intro u64_count_le) simp
  show ?thesis
    using assms(1) s le
    by (cases net)
      (auto simp: run_rate_limit_def Let_def ran_def allowed_def denied_def simp del: of_nat_Suc intro!: that)
qed

section \<open>How many calls a window admits\<close>

text \<open>A run of calls on one counter: the instants of the admitted calls.\<close>

fun admitted :: "nat \<Rightarrow> nat \<Rightarrow> (nat \<times> net) list \<Rightarrow> counter \<Rightarrow> nat list" where
  "admitted window limit [] c = []"
| "admitted window limit ((now, net) # calls) c =
     (if net = NetOk \<and> Suc (live_hits now c) \<le> limit then [now] else [])
     @ admitted window limit calls (if ran net then hit window now c else c)"

definition within :: "nat \<Rightarrow> nat \<Rightarrow> nat list \<Rightarrow> nat" where
  "within a b ts = length (filter (\<lambda>t. a \<le> t \<and> t < b) ts)"

lemma within_Nil [simp]: "within a b [] = 0"
  by (simp add: within_def)

lemma within_append [simp]: "within a b (xs @ ys) = within a b xs + within a b ys"
  by (simp add: within_def)

lemma within_single: "within a b [t] \<le> 1"
  by (simp add: within_def)

lemma admitted_times: "t \<in> set (admitted window limit calls c) \<Longrightarrow> t \<in> fst ` set calls"
  by (induction calls arbitrary: c) (fastforce split: if_splits)+

lemma within_late: "(\<And>t. t \<in> set ts \<Longrightarrow> b \<le> t) \<Longrightarrow> within a b ts = 0"
  by (force simp: within_def filter_empty_conv)

text \<open>A window that stays open to the end of the interval admits what its hits leave of the limit.\<close>

lemma admitted_late:
  assumes "sorted (b # map fst calls)"
  shows "within a b (admitted window limit calls c) = 0"
  using assms by (intro within_late) (auto dest: admitted_times)

lemma admitted_open_window:
  assumes "sorted (map fst calls)" "0 < cn_hits c" "b \<le> cn_until c"
  shows "within a b (admitted window limit calls c) \<le> limit - cn_hits c"
  using assms
proof (induction calls arbitrary: c)
  case (Cons call calls)
  obtain now net where call: "call = (now, net)" by fastforce
  show ?case
  proof (cases "now < b")
    case True
    then have "live_hits now c = cn_hits c" "hit window now c = c\<lparr>cn_hits := Suc (cn_hits c)\<rparr>"
      using Cons.prems by (auto simp: live_hits_def hit_def)
    then show ?thesis
      using Cons.IH [of c] Cons.IH [of "c\<lparr>cn_hits := Suc (cn_hits c)\<rparr>"] Cons.prems within_single [of a b now]
      by (auto simp: call ran_def)
  next
    case False
    then have "sorted (b # map fst (call # calls))" using Cons.prems(1) by (auto simp: call)
    then show ?thesis by (simp only: admitted_late)
  qed
qed simp

lemma admitted_any_window:
  assumes "sorted (map fst calls)" "\<And>t. t \<in> fst ` set calls \<Longrightarrow> a \<le> t"
  shows "within a (a + 1000 * window) (admitted window limit calls c) \<le> (limit - cn_hits c) + limit"
  using assms
proof (induction calls arbitrary: c)
  case (Cons call calls)
  obtain now net where call: "call = (now, net)" by fastforce
  let ?b = "a + 1000 * window"
  have IH: "within a ?b (admitted window limit calls c') \<le> (limit - cn_hits c') + limit" for c'
    using Cons.prems by (intro Cons.IH) auto
  show ?case
  proof (cases "live_hits now c = 0")
    case True
    have "within a ?b (admitted window limit calls \<lparr>cn_hits = 1, cn_until = now + 1000 * window\<rparr>) \<le> limit - 1"
      using Cons.prems by (intro order.trans [OF admitted_open_window]) (auto simp: call)
    then show ?thesis
      using True IH [of c] within_single [of a ?b now] by (auto simp: call hit_def ran_def)
  next
    case False
    then have "live_hits now c = cn_hits c" by (auto simp: live_hits_def split: if_splits)
    then show ?thesis
      using False IH [of c] IH [of "c\<lparr>cn_hits := Suc (cn_hits c)\<rparr>"] within_single [of a ?b now]
      by (auto simp: call hit_def ran_def)
  qed
qed simp

lemma admitted_burst:
  assumes "sorted (map fst calls)"
  shows "within a (a + 1000 * window) (admitted window limit calls c) \<le> 2 * limit"
  using assms
proof (induction calls arbitrary: c)
  case (Cons call calls)
  obtain now net where call: "call = (now, net)" by fastforce
  show ?case
  proof (cases "a \<le> now")
    case True
    then have "within a (a + 1000 * window) (admitted window limit (call # calls) c) \<le> (limit - cn_hits c) + limit"
      using Cons.prems by (intro admitted_any_window) (auto simp: call)
    then show ?thesis by simp
  next
    case False
    then show ?thesis using Cons by (simp add: call within_def)
  qed
qed simp

text \<open>From idle, the calls of one window are admitted up to the limit, first come first served.\<close>

lemma admitted_first_window:
  assumes "\<And>t. t \<in> set ts \<Longrightarrow> t < cn_until c" "0 < cn_hits c"
  shows "admitted window limit (map (\<lambda>t. (t, NetOk)) ts) c = take (limit - cn_hits c) ts"
  using assms
proof (induction ts arbitrary: c)
  case (Cons t ts)
  have "live_hits t c = cn_hits c" using Cons.prems by (simp add: live_hits_def)
  then show ?case
    using Cons.prems Cons.IH [of "c\<lparr>cn_hits := Suc (cn_hits c)\<rparr>"]
    by (cases "limit - cn_hits c") (auto simp: hit_def ran_def intro!: arg_cong [where f = "\<lambda>n. take n ts"])
qed simp

end
