(* ===== verification/PairingQr.thy ===== *)
theory PairingQr
  imports ByteStrings
begin

text \<open>
  The vocabulary of NIP-AB device pairing: messages and errors
  (\<open>crates/buzz-core/src/pairing/types.rs\<close>, \<open>mod.rs\<close>), key derivation (\<open>crypto.rs\<close>) and the
  \<open>nostrpair://\<close> URI (\<open>qr.rs\<close>). The crates the code calls (\<open>hex\<close>, \<open>percent-encoding\<close>, \<open>url\<close>,
  HKDF and public keys of \<open>nostr\<close>) are the fields of the record \<open>codec_ext\<close>, an argument of the
  definitions that use them; \<open>codec_laws\<close> states their documented behaviour. Bytes are
  \<open>u8\<close> words, a public key is its 32 bytes. An error message built by \<open>format!\<close> from a fixed text is a
  constructor that keeps the interpolated values.
\<close>

type_synonym public_key = bytes

section \<open>Messages and errors\<close>

datatype payload_type = Nsec | Bunker | Connect | Custom

datatype abort_reason = SasMismatchReason | UserDenied | Timeout | ProtocolError | UnknownReason

datatype pairing_message =
    OfferMsg string u32
  | SasConfirmMsg string
  | PayloadMsg payload_type string
  | CompleteMsg bool
  | AbortMsg abort_reason

datatype qr_error =
    UriTooLong nat
  | MissingScheme
  | MissingQuery
  | PubkeyNotHex string
  | PubkeyInvalid string
  | UnsupportedVersion u32
  | MissingSecret
  | SecretNotHex string
  | SecretDecode string
  | SecretLength
  | SecretAllZeros
  | MissingRelay
  | RelayUrl string string
  | RelayScheme string
  | RelayHost string

datatype pairing_error =
    InvalidQr qr_error
  | InvalidSessionId
  | SasMismatch
  | TranscriptMismatch
  | UnexpectedMessage string string
  | SessionExpired
  | Nip44Error string
  | JsonError string
  | InvalidPubkey string
  | SigningError string

section \<open>Parameters\<close>

record codec_ext =
  hex_encode :: "bytes \<Rightarrow> string"
  hex_decode :: "string \<Rightarrow> string + bytes"
  hkdf_extract :: "bytes \<Rightarrow> bytes \<Rightarrow> bytes"
  hkdf_expand :: "bytes \<Rightarrow> bytes \<Rightarrow> nat \<Rightarrow> bytes"
  pk_from_hex :: "string \<Rightarrow> string + public_key"
  pct_encode :: "string \<Rightarrow> string"
  pct_decode :: "string \<Rightarrow> string"
  url_parse :: "string \<Rightarrow> string + (string \<times> string option)"

definition is_lowercase_hex :: "char \<Rightarrow> bool" where
  "is_lowercase_hex c \<longleftrightarrow>
     is_digit c \<or> (97 \<le> (of_char c :: nat) \<and> (of_char c :: nat) \<le> 102)"

text \<open>
  Documented behaviour: \<open>hex\<close> writes two lower-case digits per byte and reads them back, HKDF-Expand
  returns the requested number of bytes, percent encoding is undone by decoding and leaves only
  alphanumeric characters and percent signs.
\<close>

definition codec_laws :: "'x codec_ext_scheme \<Rightarrow> bool" where
  "codec_laws X \<longleftrightarrow>
     (\<forall>b. hex_decode X (hex_encode X b) = Ok b
        \<and> length (hex_encode X b) = 2 * length b \<and> list_all is_lowercase_hex (hex_encode X b))
     \<and> (\<forall>prk info n. length (hkdf_expand X prk info n) = n)
     \<and> (\<forall>s. pct_decode X (pct_encode X s) = s \<and> CHR ''&'' \<notin> set (pct_encode X s))"

lemma codec_lawsD:
  assumes "codec_laws X"
  shows "hex_decode X (hex_encode X b) = Ok b" "length (hex_encode X b) = 2 * length b"
    "list_all is_lowercase_hex (hex_encode X b)" "length (hkdf_expand X prk info n) = n"
    "pct_decode X (pct_encode X s) = s" "CHR ''&'' \<notin> set (pct_encode X s)"
  using assms by (simp_all add: codec_laws_def)

section \<open>Key derivation\<close>

definition ascii :: "string \<Rightarrow> bytes" where
  "ascii s = map (\<lambda>c. of_nat (of_char c)) s"

definition INFO_SESSION_ID :: bytes where "INFO_SESSION_ID = ascii ''nostr-pair-session-id''"
definition INFO_SAS :: bytes where "INFO_SAS = ascii ''nostr-pair-sas-v1''"
definition INFO_TRANSCRIPT :: bytes where "INFO_TRANSCRIPT = ascii ''nostr-pair-transcript-v1''"

definition hkdf32 :: "'x codec_ext_scheme \<Rightarrow> bytes \<Rightarrow> bytes \<Rightarrow> bytes \<Rightarrow> bytes" where
  "hkdf32 X salt ikm info =
     (let prk = hkdf_extract X salt ikm; okm = hkdf_expand X prk info 32 in take 32 okm)"

definition derive_session_id :: "'x codec_ext_scheme \<Rightarrow> bytes \<Rightarrow> bytes" where
  "derive_session_id X session_secret = hkdf32 X [] session_secret INFO_SESSION_ID"

definition be_u32 :: "u8 \<Rightarrow> u8 \<Rightarrow> u8 \<Rightarrow> u8 \<Rightarrow> u32" where
  "be_u32 a b c d = of_nat (((unat a * 256 + unat b) * 256 + unat c) * 256 + unat d)"

definition derive_sas :: "'x codec_ext_scheme \<Rightarrow> bytes \<Rightarrow> bytes \<Rightarrow> u32 \<times> bytes" where
  "derive_sas X ecdh_shared session_secret =
     (let sas_input = hkdf32 X session_secret ecdh_shared INFO_SAS;
          sas_code = be_u32 (sas_input ! 0) (sas_input ! 1) (sas_input ! 2) (sas_input ! 3) mod 1000000
      in (sas_code, sas_input))"

definition derive_transcript_hash ::
  "'x codec_ext_scheme \<Rightarrow> bytes \<Rightarrow> bytes \<Rightarrow> bytes \<Rightarrow> bytes \<Rightarrow> bytes \<Rightarrow> bytes" where
  "derive_transcript_hash X session_id source_pubkey target_pubkey sas_input session_secret =
     hkdf32 X session_secret (session_id @ source_pubkey @ target_pubkey @ sas_input) INFO_TRANSCRIPT"

definition format_sas :: "u32 \<Rightarrow> string" where
  "format_sas code =
     (let s = show_nat (unat code) in replicate (6 - length s) CHR ''0'' @ s)"

definition ct_eq :: "bytes \<Rightarrow> bytes \<Rightarrow> bool" where
  "ct_eq a b \<longleftrightarrow> a = b"

lemma length_hkdf32 [simp]: "codec_laws X \<Longrightarrow> length (hkdf32 X salt ikm info) = 32"
  by (simp add: hkdf32_def codec_lawsD)

lemma sas_code_bound: "unat (fst (derive_sas X ecdh secret)) < 1000000"
proof -
  have "unat (x mod 1000000 :: u32) < 1000000" for x :: u32
    by (simp add: unat_mod)
  then show ?thesis by (simp add: derive_sas_def Let_def)
qed

lemma read_digits_pad [simp]: "read_digits (replicate n CHR ''0'' @ s) = read_digits s"
  by (induction n) (simp_all add: read_digits_def digit_value_def)

lemma format_sas_inj [simp]: "format_sas a = format_sas b \<longleftrightarrow> a = b"
proof -
  have "read_digits (format_sas c) = unat c" for c by (simp add: format_sas_def Let_def)
  then show ?thesis by (metis word_unat_eq_iff)
qed

lemma length_show_nat: "0 < k \<Longrightarrow> n < 10 ^ k \<Longrightarrow> length (show_nat n) \<le> k"
proof (induction k arbitrary: n)
  case 0
  then show ?case by simp
next
  case (Suc k)
  show ?case
  proof (cases "n < 10")
    case True
    then show ?thesis by (subst show_nat.simps) simp
  next
    case False
    with Suc.prems have "k \<noteq> 0" by (cases k) auto
    with Suc.prems have "length (show_nat (n div 10)) \<le> k" by (intro Suc.IH) auto
    with False show ?thesis by (subst show_nat.simps) simp
  qed
qed

lemma length_format_sas: "unat code < 1000000 \<Longrightarrow> length (format_sas code) = 6"
  using length_show_nat [of 6 "unat code"] by (simp add: format_sas_def Let_def)

section \<open>The QR URI\<close>

record qr_payload =
  qr_source_pubkey :: public_key
  qr_session_secret :: bytes
  qr_relays :: "string list"
  qr_version :: u32

definition encode_qr :: "'x codec_ext_scheme \<Rightarrow> qr_payload \<Rightarrow> string" where
  "encode_qr X p =
     ''nostrpair://'' @ hex_encode X (qr_source_pubkey p) @ ''?secret=''
     @ hex_encode X (qr_session_secret p)
     @ concat (map (\<lambda>relay. ''&relay='' @ pct_encode X relay) (qr_relays p)) @ ''&v=1''"

text \<open>Rust's \<open>str::parse::<u32>\<close>: an optional plus sign, decimal digits, no overflow.\<close>

definition parse_u32 :: "string \<Rightarrow> u32 option" where
  "parse_u32 s =
     (let ds = (case s of [] \<Rightarrow> [] | c # t \<Rightarrow> if c = CHR ''+'' then t else s)
      in if ds = [] \<or> \<not> list_all is_digit ds then None
         else if read_digits ds < 2 ^ 32 then Some (of_nat (read_digits ds)) else None)"

record query_params =
  qp_secret :: "string option"
  qp_relays :: "string list"
  qp_version :: "u32 option"

definition query_step :: "'x codec_ext_scheme \<Rightarrow> query_params \<Rightarrow> string \<Rightarrow> query_params" where
  "query_step X q pair =
     (case split_once CHR ''='' pair of
        None \<Rightarrow> q
      | Some (key, val) \<Rightarrow>
          if key = ''secret'' then q\<lparr>qp_secret := Some val\<rparr>
          else if key = ''relay'' then q\<lparr>qp_relays := qp_relays q @ [pct_decode X val]\<rparr>
          else if key = ''v'' then q\<lparr>qp_version := parse_u32 val\<rparr>
          else q)"

definition parse_query :: "'x codec_ext_scheme \<Rightarrow> string \<Rightarrow> query_params" where
  "parse_query X query =
     foldl (query_step X) \<lparr>qp_secret = None, qp_relays = [], qp_version = None\<rparr>
       (split_on CHR ''&'' query)"

fun check_relays :: "'x codec_ext_scheme \<Rightarrow> string list \<Rightarrow> qr_error + unit" where
  "check_relays X [] = Ok ()"
| "check_relays X (relay # rest) =
     (case url_parse X relay of
        Inl e \<Rightarrow> Err (RelayUrl relay e)
      | Inr (scheme, host) \<Rightarrow>
          if scheme \<noteq> ''wss'' \<and> scheme \<noteq> ''ws'' then Err (RelayScheme scheme)
          else if host = None then Err (RelayHost relay)
          else check_relays X rest)"

text \<open>The checks on the collected query parameters, in the order of the code.\<close>

definition finish_qr ::
  "'x codec_ext_scheme \<Rightarrow> public_key \<Rightarrow> query_params \<Rightarrow> qr_error + qr_payload" where
  "finish_qr X source_pubkey q =
     (let version = (case qp_version q of None \<Rightarrow> 1 | Some v \<Rightarrow> v)
      in if version \<noteq> 1 then Err (UnsupportedVersion version)
         else and_then (ok_or MissingSecret (qp_secret q)) (\<lambda>secret_str.
           if length secret_str \<noteq> 64 \<or> \<not> list_all is_lowercase_hex secret_str
           then Err (SecretNotHex secret_str)
           else (case hex_decode X secret_str of
                   Inl e \<Rightarrow> Err (SecretDecode e)
                 | Inr secret \<Rightarrow>
                     if length secret \<noteq> 32 then Err SecretLength
                     else if secret = replicate 32 0 then Err SecretAllZeros
                     else if qp_relays q = [] then Err MissingRelay
                     else and_then (check_relays X (qp_relays q)) (\<lambda>_.
                       Ok \<lparr>qr_source_pubkey = source_pubkey, qr_session_secret = secret,
                           qr_relays = qp_relays q, qr_version = version\<rparr>))))"

definition decode_qr_reason :: "'x codec_ext_scheme \<Rightarrow> string \<Rightarrow> qr_error + qr_payload" where
  "decode_qr_reason X uri =
     (if length uri > 2048 then Err (UriTooLong (length uri))
      else and_then (ok_or MissingScheme (strip_prefix ''nostrpair://'' uri)) (\<lambda>rest.
        and_then (ok_or MissingQuery (split_once CHR ''?'' rest)) (\<lambda>(pubkey_hex, query).
          if length pubkey_hex \<noteq> 64 \<or> \<not> list_all is_lowercase_hex pubkey_hex
          then Err (PubkeyNotHex pubkey_hex)
          else (case pk_from_hex X pubkey_hex of
                  Inl e \<Rightarrow> Err (PubkeyInvalid e)
                | Inr source_pubkey \<Rightarrow> finish_qr X source_pubkey (parse_query X query)))))"

definition decode_qr :: "'x codec_ext_scheme \<Rightarrow> string \<Rightarrow> pairing_error + qr_payload" where
  "decode_qr X uri =
     (case decode_qr_reason X uri of Inl e \<Rightarrow> Err (InvalidQr e) | Inr p \<Rightarrow> Ok p)"

subsection \<open>Round trip\<close>

text \<open>What a payload must satisfy for its URI to decode: the decoder's own conditions.\<close>

definition encodable :: "'x codec_ext_scheme \<Rightarrow> qr_payload \<Rightarrow> bool" where
  "encodable X p \<longleftrightarrow>
     length (qr_source_pubkey p) = 32
     \<and> pk_from_hex X (hex_encode X (qr_source_pubkey p)) = Ok (qr_source_pubkey p)
     \<and> length (qr_session_secret p) = 32 \<and> qr_session_secret p \<noteq> replicate 32 0
     \<and> qr_relays p \<noteq> [] \<and> check_relays X (qr_relays p) = Ok ()
     \<and> qr_version p = 1 \<and> length (encode_qr X p) \<le> 2048"

lemma hex_no_char:
  assumes "codec_laws X" and "\<not> is_lowercase_hex c" shows "c \<notin> set (hex_encode X b)"
  using codec_lawsD(3) [OF assms(1), of b] assms(2) by (auto simp: list_all_iff)

lemma not_hex_chars: "\<not> is_lowercase_hex CHR ''&''" "\<not> is_lowercase_hex CHR ''?''"
    "\<not> is_lowercase_hex CHR ''=''"
  by (simp_all add: is_lowercase_hex_def is_digit_def)

lemma split_on_relays:
  assumes "codec_laws X" and "CHR ''&'' \<notin> set hd_part"
  shows "split_on CHR ''&'' (hd_part @ concat (map (\<lambda>relay. ''&relay='' @ pct_encode X relay) relays) @ ''&v=1'')
    = hd_part # map (\<lambda>relay. ''relay='' @ pct_encode X relay) relays @ [''v=1'']"
  using assms(2)
proof (induction relays arbitrary: hd_part)
  case Nil
  then show ?case by (simp add: split_on_append_sep)
next
  case (Cons r rs)
  have "CHR ''&'' \<notin> set (''relay='' @ pct_encode X r)" using assms(1) by (simp add: codec_lawsD)
  from Cons.IH [OF this] Cons.prems show ?case by (simp add: split_on_append_sep)
qed

lemma query_steps_relays:
  assumes "codec_laws X"
  shows "foldl (query_step X) q (map (\<lambda>relay. ''relay='' @ pct_encode X relay) relays)
    = q\<lparr>qp_relays := qp_relays q @ relays\<rparr>"
proof (induction relays arbitrary: q)
  case Nil
  then show ?case by simp
next
  case (Cons r rs)
  have "split_once CHR ''='' (''relay'' @ CHR ''='' # pct_encode X r) = Some (''relay'', pct_encode X r)"
    by (rule split_once_append) simp
  then have "query_step X q (''relay='' @ pct_encode X r) = q\<lparr>qp_relays := qp_relays q @ [r]\<rparr>"
    by (simp add: query_step_def codec_lawsD [OF assms])
  then show ?case using Cons.IH by simp
qed

lemma parse_u32_one: "parse_u32 ''1'' = Some 1"
  by (simp add: parse_u32_def read_digits_def is_digit_def digit_value_def)

lemma decode_encode_qr:
  assumes X: "codec_laws X" and p: "encodable X p"
  shows "decode_qr X (encode_qr X p) = Ok p"
proof -
  let ?pk = "hex_encode X (qr_source_pubkey p)" and ?sec = "hex_encode X (qr_session_secret p)"
  let ?tail = "concat (map (\<lambda>relay. ''&relay='' @ pct_encode X relay) (qr_relays p)) @ ''&v=1''"
  have uri: "encode_qr X p = ''nostrpair://'' @ ?pk @ CHR ''?'' # (''secret='' @ ?sec) @ ?tail"
    by (simp add: encode_qr_def)
  have strip: "strip_prefix ''nostrpair://'' (encode_qr X p) = Some (?pk @ CHR ''?'' # (''secret='' @ ?sec) @ ?tail)"
    unfolding strip_prefix_Some uri by simp
  have once: "split_once CHR ''?'' (?pk @ CHR ''?'' # (''secret='' @ ?sec) @ ?tail) = Some (?pk, (''secret='' @ ?sec) @ ?tail)"
    by (intro split_once_append hex_no_char X not_hex_chars)
  have "CHR ''&'' \<notin> set (''secret='' @ ?sec)" using hex_no_char [OF X not_hex_chars(1)] by simp
  note pieces = split_on_relays [OF X this]
  have "split_once CHR ''='' (''secret'' @ CHR ''='' # ?sec) = Some (''secret'', ?sec)"
    by (rule split_once_append) simp
  then have first: "query_step X q (''secret='' @ ?sec) = q\<lparr>qp_secret := Some ?sec\<rparr>" for q
    by (simp add: query_step_def)
  have "split_once CHR ''='' (''v'' @ CHR ''='' # ''1'') = Some (''v'', ''1'')"
    by (rule split_once_append) simp
  then have last: "query_step X q ''v=1'' = q\<lparr>qp_version := Some 1\<rparr>" for q
    by (simp add: query_step_def parse_u32_one)
  have query: "parse_query X ((''secret='' @ ?sec) @ ?tail)
      = \<lparr>qp_secret = Some ?sec, qp_relays = qr_relays p, qp_version = Some 1\<rparr>"
    unfolding parse_query_def pieces foldl_append foldl.simps first
    by (simp only: query_steps_relays [OF X] foldl_append foldl.simps last) simp
  show ?thesis
    unfolding decode_qr_def decode_qr_reason_def strip ok_or_simps and_then_simps once prod.case query
    using p by (simp add: finish_qr_def encodable_def codec_lawsD [OF X] del: list_all_iff)
qed

text \<open>A relay-supplied version beyond the range of \<open>u32\<close> is dropped, not rejected.\<close>

lemma parse_u32_overflow:
  assumes "list_all is_digit ds" and "2 ^ 32 \<le> read_digits ds"
  shows "parse_u32 ds = None"
proof -
  have "\<not> is_digit CHR ''+''" by (simp add: is_digit_def)
  with assms show ?thesis by (cases ds) (auto simp: parse_u32_def)
qed

lemma decode_encode_qr_overflow:
  assumes X: "codec_laws X" and p: "encodable X p"
    and ds: "list_all is_digit ds" "2 ^ 32 \<le> read_digits ds"
    and len: "length (encode_qr X p @ ''&v='' @ ds) \<le> 2048"
  shows "decode_qr X (encode_qr X p @ ''&v='' @ ds) = Ok p"
proof -
  let ?pk = "hex_encode X (qr_source_pubkey p)" and ?sec = "hex_encode X (qr_session_secret p)"
  let ?mid = "concat (map (\<lambda>relay. ''&relay='' @ pct_encode X relay) (qr_relays p)) @ ''&v=1''"
  let ?tail = "?mid @ CHR ''&'' # (''v='' @ ds)"
  let ?uri = "encode_qr X p @ ''&v='' @ ds"
  have uri: "?uri = ''nostrpair://'' @ ?pk @ CHR ''?'' # (''secret='' @ ?sec) @ ?tail"
    by (simp add: encode_qr_def)
  have strip: "strip_prefix ''nostrpair://'' ?uri = Some (?pk @ CHR ''?'' # (''secret='' @ ?sec) @ ?tail)"
    unfolding strip_prefix_Some uri by simp
  have once: "split_once CHR ''?'' (?pk @ CHR ''?'' # (''secret='' @ ?sec) @ ?tail) = Some (?pk, (''secret='' @ ?sec) @ ?tail)"
    by (intro split_once_append hex_no_char X not_hex_chars)
  have "CHR ''&'' \<notin> set (''secret='' @ ?sec)" using hex_no_char [OF X not_hex_chars(1)] by simp
  note pieces = split_on_relays [OF X this]
  have "CHR ''&'' \<notin> set (''v='' @ ds)" using ds(1) by (auto simp: list_all_iff is_digit_def)
  then have "split_on CHR ''&'' ((''secret='' @ ?sec) @ ?tail)
      = split_on CHR ''&'' ((''secret='' @ ?sec) @ ?mid) @ [''v='' @ ds]"
    using split_on_snoc_sep [of "CHR ''&''" "''v='' @ ds" "(''secret='' @ ?sec) @ ?mid"] by simp
  also have "\<dots> = (''secret='' @ ?sec)
      # ((map (\<lambda>relay. ''relay='' @ pct_encode X relay) (qr_relays p) @ [''v=1'']) @ [''v='' @ ds])"
    unfolding pieces by (rule append_Cons)
  finally have pieces: "split_on CHR ''&'' ((''secret='' @ ?sec) @ ?tail) = \<dots>" .
  have "split_once CHR ''='' (''secret'' @ CHR ''='' # ?sec) = Some (''secret'', ?sec)"
    by (rule split_once_append) simp
  then have first: "query_step X q (''secret='' @ ?sec) = q\<lparr>qp_secret := Some ?sec\<rparr>" for q
    by (simp add: query_step_def)
  have "split_once CHR ''='' (''v'' @ CHR ''='' # w) = Some (''v'', w)" for w
    by (rule split_once_append) simp
  then have v: "query_step X q (''v='' @ w) = q\<lparr>qp_version := parse_u32 w\<rparr>" for q w
    by (simp add: query_step_def)
  have v1: "query_step X q ''v=1'' = q\<lparr>qp_version := Some 1\<rparr>" for q
    using v [of q "''1''"] by (simp add: parse_u32_one)
  have query: "parse_query X ((''secret='' @ ?sec) @ ?tail)
      = \<lparr>qp_secret = Some ?sec, qp_relays = qr_relays p, qp_version = None\<rparr>"
    unfolding parse_query_def pieces foldl.simps first
    by (simp only: query_steps_relays [OF X] foldl_append foldl.simps v1 v
        parse_u32_overflow [OF ds]) simp
  show ?thesis
    unfolding decode_qr_def decode_qr_reason_def strip ok_or_simps and_then_simps once prod.case query
    using p len by (simp add: finish_qr_def encodable_def codec_lawsD [OF X] del: list_all_iff)
qed

subsection \<open>A codec that satisfies the laws\<close>

definition hex_digit :: "nat \<Rightarrow> char" where
  "hex_digit n = char_of (if n < 10 then 48 + n else 87 + n)"

definition hex_value :: "char \<Rightarrow> nat" where
  "hex_value c = (if (of_char c :: nat) < 58 then of_char c - 48 else of_char c - 87)"

definition demo_hex :: "bytes \<Rightarrow> string" where
  "demo_hex bs = concat (map (\<lambda>b. [hex_digit (unat b div 16), hex_digit (unat b mod 16)]) bs)"

fun demo_unhex :: "string \<Rightarrow> bytes" where
  "demo_unhex (a # b # s) = of_nat (16 * hex_value a + hex_value b) # demo_unhex s"
| "demo_unhex _ = []"

definition demo_pct :: "string \<Rightarrow> string" where
  "demo_pct s = demo_hex (map (\<lambda>c. of_nat (of_char c)) s)"

definition demo_codec :: codec_ext where
  "demo_codec =
     \<lparr>hex_encode = demo_hex, hex_decode = (\<lambda>s. Ok (demo_unhex s)),
      hkdf_extract = (\<lambda>salt ikm. salt @ ikm), hkdf_expand = (\<lambda>prk info n. take n (prk @ info @ replicate n 0)),
      pk_from_hex = (\<lambda>s. Ok (demo_unhex s)), pct_encode = demo_pct,
      pct_decode = (\<lambda>s. map (\<lambda>b. char_of (unat b)) (demo_unhex s)),
      url_parse = (\<lambda>s. Ok (''wss'', Some s))\<rparr>"

lemma hex_value_digit [simp]: "n < 16 \<Longrightarrow> hex_value (hex_digit n) = n"
  by (simp add: hex_value_def hex_digit_def)

lemma hex_digit_lower: "n < 16 \<Longrightarrow> is_lowercase_hex (hex_digit n)"
  by (simp add: is_lowercase_hex_def is_digit_def hex_digit_def)

lemma u8_unat_less: "unat (b :: u8) < 256"
  using unsigned_less [of b] by simp

lemma u8_div16: "unat (b :: u8) div 16 < 16"
  using u8_unat_less [of b] by (simp add: less_mult_imp_div_less)

lemma demo_unhex_hex [simp]: "demo_unhex (demo_hex bs) = bs"
  by (induction bs) (simp_all add: demo_hex_def u8_div16)

lemma demo_hex_length [simp]: "length (demo_hex bs) = 2 * length bs"
  by (induction bs) (simp_all add: demo_hex_def)

lemma demo_hex_lower: "list_all is_lowercase_hex (demo_hex bs)"
  by (induction bs) (simp_all add: demo_hex_def hex_digit_lower u8_div16)

lemma demo_unpct: "map (\<lambda>b. char_of (unat b)) (demo_unhex (demo_pct s)) = s"
proof -
  have "char_of (unat (of_nat (of_char c) :: u8)) = c" for c
    by (simp add: unat_of_nat take_bit_eq_mod)
  then show ?thesis by (simp add: demo_pct_def comp_def)
qed

lemma demo_codec_laws: "codec_laws demo_codec"
proof -
  have "CHR ''&'' \<notin> set (demo_pct s)" for s
    using demo_hex_lower [of "map (\<lambda>c. of_nat (of_char c)) s"] not_hex_chars(1)
    by (auto simp: demo_pct_def list_all_iff)
  moreover have "length (take n (prk @ info @ replicate n 0)) = n" for n and prk info :: bytes
    by (simp only: length_take length_append length_replicate)
  ultimately show ?thesis
    by (simp add: codec_laws_def demo_codec_def demo_hex_lower demo_unpct del: list_all_iff take_append)
qed

definition demo_qr :: qr_payload where
  "demo_qr = \<lparr>qr_source_pubkey = replicate 32 7, qr_session_secret = replicate 32 9,
     qr_relays = [''wss://r''], qr_version = 1\<rparr>"

lemma demo_encodable: "encodable demo_codec demo_qr"
proof -
  have "(replicate 32 9 :: bytes) \<noteq> replicate 32 0" by simp
  then show ?thesis
    by (simp add: encodable_def demo_qr_def demo_codec_def encode_qr_def demo_pct_def)
qed

section \<open>Properties\<close>

text \<open>
  QR round trip. Given the documented laws of the codecs, the URI of every payload that meets
  the decoder's conditions (32-byte key and non-zero secret, some relay, all relays valid WebSocket
  URLs, version 1, at most 2048 characters) decodes to the same payload.
\<close>

theorem qr_round_trip:
  assumes "codec_laws X" and "encodable X p"
  shows "decode_qr X (encode_qr X p) = Ok p"
  using assms by (rule decode_encode_qr)

theorem qr_round_trip_witness:
  "decode_qr demo_codec (encode_qr demo_codec demo_qr) = Ok demo_qr"
  by (rule qr_round_trip [OF demo_codec_laws demo_encodable])

text \<open>
  Version overflow is accepted. A version parameter that does not fit \<open>u32\<close> is treated as
  absent: appending \<open>&v=<number of at least 2^32>\<close> to a valid URI leaves it decodable as version 1,
  although the format says versions above 1 are rejected.
\<close>

theorem qr_version_overflow_accepted:
  assumes "codec_laws X" and "encodable X p"
    and "list_all is_digit ds" and "2 ^ 32 \<le> read_digits ds"
    and "length (encode_qr X p @ ''&v='' @ ds) \<le> 2048"
  shows "decode_qr X (encode_qr X p @ ''&v='' @ ds) = Ok p"
  using assms by (rule decode_encode_qr_overflow)

theorem qr_version_overflow_accepted_witness:
  "decode_qr demo_codec (encode_qr demo_codec demo_qr @ ''&v='' @ ''4294967298'') = Ok demo_qr"
  by (rule qr_version_overflow_accepted [OF demo_codec_laws demo_encodable])
     (simp_all add: is_digit_def read_digits_def digit_value_def encode_qr_def demo_codec_def demo_qr_def
        demo_pct_def)

end
