(* ===== verification/HttpDoor.thy ===== *)
theory HttpDoor
  imports RateLimit PairingQr
begin

text \<open>
  The authenticated front door of the HTTP endpoints: host binding, NIP-98 verification against the bound
  host's URL, admission and the replay check, in the order of the handlers of
  \<open>crates/buzz-relay/src/api/bridge.rs\<close> and \<open>api/invites.rs\<close>. Each call to the store is atomic, so the
  requests of all relay processes are one sequence of \<open>store_call\<close>s.
\<close>

section \<open>Doors\<close>

datatype door_error =
    NoCommunity | Unauthorized reject | QuotaExceeded u64 | AdmissionUnavailable

definition door_status :: "door_error \<Rightarrow> nat" where
  "door_status e = (case e of NoCommunity \<Rightarrow> 404 | Unauthorized _ \<Rightarrow> 401 | QuotaExceeded _ \<Rightarrow> 429 | AdmissionUnavailable \<Rightarrow> 503)"

record 'e bridge_config =
  bc_relay_url :: string
  bc_require_auth_token :: bool
  bc_rate_limits :: rate_limit_config
  bc_resolve_host :: "string \<Rightarrow> 'e + uuid option"

text \<open>The instants and the networks of a request's calls.\<close>

record request_env =
  re_verify_at :: nat
  re_admit_at :: nat
  re_admit_net :: net
  re_repair_at :: nat
  re_repair_net :: net
  re_mark_at :: nat
  re_mark_net :: net

definition enforce_http_admission ::
  "'u http_lib \<Rightarrow> 'e bridge_config \<Rightarrow> request_env \<Rightarrow> tenant_context \<Rightarrow> string \<Rightarrow> redis \<Rightarrow> redis \<times> (door_error + unit)" where
  "enforce_http_admission lib cfg env tenant pubkey st =
     (let limit = human_api_calls_per_min (bc_rate_limits cfg);
          limiter = check_and_increment lib (re_admit_net env) (re_admit_at env) (re_repair_net env) (re_repair_at env);
          (st', r) = check_principal limiter tenant pubkey ApiCalls 60 limit st
      in (st', case r of
                 Inr _ \<Rightarrow> Ok ()
               | Inl (Exceeded reset_in_secs) \<Rightarrow> Err (QuotaExceeded reset_in_secs)
               | Inl Unavailable \<Rightarrow> Err AdmissionUnavailable))"

definition bound_tenant :: "'e bridge_config \<Rightarrow> (string, string) hmap \<Rightarrow> door_error + tenant_context" where
  "bound_tenant cfg headers =
     (let raw_host = (case header_str ''host'' headers of Some h \<Rightarrow> h | None \<Rightarrow> [])
      in case bind_community (bc_resolve_host cfg) raw_host of Inl _ \<Rightarrow> Err NoCommunity | Inr t \<Rightarrow> Ok t)"

definition unauthorized :: "reject + 'a \<Rightarrow> door_error + 'a" where
  "unauthorized r = (case r of Inl e \<Rightarrow> Err (Unauthorized e) | Inr a \<Rightarrow> Ok a)"

text \<open>What \<open>submit_event\<close>, \<open>query_events\<close> and \<open>count_events\<close> do before their helpers.\<close>

definition bridge_identity ::
  "'u http_lib \<Rightarrow> 'e bridge_config \<Rightarrow> request_env \<Rightarrow> string \<Rightarrow> (string, string) hmap \<Rightarrow> bytes
     \<Rightarrow> door_error + tenant_context \<times> string \<times> string" where
  "bridge_identity lib cfg env path headers body =
     and_then (bound_tenant cfg headers) (\<lambda>tenant.
       let url = nip98_expected_url (bc_relay_url cfg) tenant path
       in and_then (unauthorized (verify_bridge_auth lib (re_verify_at env) headers ''POST'' url (Some body)
                                    (bc_require_auth_token cfg)))
            (\<lambda>(pubkey, event_id). Ok (tenant, pubkey, event_id)))"

definition admit_and_mark ::
  "'u http_lib \<Rightarrow> 'e bridge_config \<Rightarrow> request_env \<Rightarrow> tenant_context \<Rightarrow> string \<Rightarrow> string \<Rightarrow> redis
     \<Rightarrow> redis \<times> (door_error + unit)" where
  "admit_and_mark lib cfg env tenant pubkey event_id st =
     (case enforce_http_admission lib cfg env tenant pubkey st of
        (st, Inl e) \<Rightarrow> (st, Err e)
      | (st, Inr _) \<Rightarrow>
          (let (st, r) = check_nip98_replay lib (re_mark_net env) (re_mark_at env) tenant event_id st
           in (st, unauthorized r)))"

definition bridge_door ::
  "'u http_lib \<Rightarrow> 'e bridge_config \<Rightarrow> request_env \<Rightarrow> string \<Rightarrow> (string, string) hmap \<Rightarrow> bytes \<Rightarrow> redis
     \<Rightarrow> redis \<times> (door_error + tenant_context \<times> string)" where
  "bridge_door lib cfg env path headers body st =
     guarded (bridge_identity lib cfg env path headers body) st (\<lambda>(tenant, pubkey, event_id).
       let (st, r) = admit_and_mark lib cfg env tenant pubkey event_id st
       in (st, and_then r (\<lambda>_. Ok (tenant, pubkey))))"

definition submit_event_door where
  "submit_event_door lib cfg env headers body st = bridge_door lib cfg env ''/events'' headers body st"

definition query_events_door where
  "query_events_door lib cfg env headers body st = bridge_door lib cfg env ''/query'' headers body st"

definition count_events_door where
  "count_events_door lib cfg env headers body st = bridge_door lib cfg env ''/count'' headers body st"

text \<open>The doors without admission: moderation reads and invites.\<close>

definition moderation_read_door ::
  "'u http_lib \<Rightarrow> 'e bridge_config \<Rightarrow> request_env \<Rightarrow> string \<Rightarrow> string option \<Rightarrow> (string, string) hmap \<Rightarrow> redis
     \<Rightarrow> redis \<times> (door_error + tenant_context \<times> string)" where
  "moderation_read_door lib cfg env path raw_query headers st =
     guarded (bound_tenant cfg headers) st (\<lambda>tenant.
       let path_with_query = (case raw_query of Some q \<Rightarrow> if q \<noteq> [] then path @ ''?'' @ q else path | None \<Rightarrow> path);
           url = nip98_expected_url (bc_relay_url cfg) tenant path_with_query
       in guarded (unauthorized (verify_bridge_auth lib (re_verify_at env) headers ''GET'' url None
                                   (bc_require_auth_token cfg))) st (\<lambda>(pubkey, event_id).
            let (st, r) = check_nip98_replay lib (re_mark_net env) (re_mark_at env) tenant event_id st
            in (st, and_then (unauthorized r) (\<lambda>_. Ok (tenant, pubkey)))))"

definition invite_door ::
  "'u http_lib \<Rightarrow> 'e bridge_config \<Rightarrow> request_env \<Rightarrow> string \<Rightarrow> (string, string) hmap \<Rightarrow> bytes \<Rightarrow> redis
     \<Rightarrow> redis \<times> (door_error + tenant_context \<times> string)" where
  "invite_door lib cfg env path headers body st =
     guarded (bound_tenant cfg headers) st (\<lambda>tenant.
       let url = nip98_expected_url (bc_relay_url cfg) tenant path
       in guarded (unauthorized (verify_bridge_auth_with_options lib (re_verify_at env) headers ''POST'' url
                                   (Some body) True True)) st (\<lambda>(pubkey, event_id).
            let (st, r) = check_nip98_replay lib (re_mark_net env) (re_mark_at env) tenant event_id st
            in (st, and_then (unauthorized r) (\<lambda>_. Ok (tenant, pubkey)))))"

section \<open>Runs of the store\<close>

datatype store_call =
    MarkCall net nat tenant_context string
  | HitCall net nat net nat tenant_context string limit_type u64 u64
  | IpHitCall net nat net nat string u64 u64

fun store_step :: "'u http_lib \<Rightarrow> store_call \<Rightarrow> redis \<Rightarrow> redis" where
  "store_step lib (MarkCall net now tenant event_id) st = fst (check_nip98_replay lib net now tenant event_id st)"
| "store_step lib (HitCall net now net' now' tenant pubkey lt w limit) st =
     fst (check_and_increment lib net now net' now' tenant pubkey lt w limit st)"
| "store_step lib (IpHitCall net now net' now' ip w limit) st =
     fst (check_ip_connection net now net' now' ip w limit st)"

fun call_key :: "'u http_lib \<Rightarrow> store_call \<Rightarrow> string" where
  "call_key lib (MarkCall net now tenant event_id) = mark_key lib (tc_community tenant) event_id"
| "call_key lib (HitCall net now net' now' tenant pubkey lt w limit) = rate_limit_key lib tenant pubkey lt"
| "call_key lib (IpHitCall net now net' now' ip w limit) = ip_rate_limit_key ip"

lemma mark_not_rate_key:
  assumes "http_laws lib"
  shows "mark_key lib c i \<noteq> rate_limit_key lib tenant pubkey lt" "mark_key lib c i \<noteq> ip_rate_limit_key ip"
proof -
  have "length (hl_uuid lib c) = length (hl_uuid lib (tc_community tenant))" by (simp add: http_lawsD(2) [OF assms])
  then show "mark_key lib c i \<noteq> rate_limit_key lib tenant pubkey lt"
    by (auto simp: mark_key_def nip98_replay_key_for_scope_def rate_limit_key_def)
  have "mark_key lib c i ! 14 = hl_uuid lib c ! 9" "hl_uuid lib c ! 9 \<in> set (hl_uuid lib c)"
    using http_lawsD(2) [OF assms, of c]
    by (simp_all add: mark_key_def nip98_replay_key_for_scope_def nth_append)
  moreover have "ip_rate_limit_key ip ! 14 = CHR '':''" by (simp add: ip_rate_limit_key_def)
  ultimately show "mark_key lib c i \<noteq> ip_rate_limit_key ip" using http_lawsD(3) [OF assms, of c] by metis
qed

lemma store_step_other:
  assumes "k \<noteq> call_key lib call"
  shows "redis_get t k (store_step lib call st) = redis_get t k st"
proof (cases call)
  case (MarkCall net now tenant event_id)
  then show ?thesis
    using assms by (cases "event_id = ZERO_EVENT_ID") (simp_all add: check_replay_get)
qed (use assms in \<open>simp_all add: check_and_increment_def check_ip_connection_def run_rate_limit_get_other\<close>)

section \<open>Replays\<close>

text \<open>The instants at which an event id was accepted in a community.\<close>

fun accept_times :: "'u http_lib \<Rightarrow> uuid \<Rightarrow> string \<Rightarrow> store_call list \<Rightarrow> redis \<Rightarrow> nat list" where
  "accept_times lib c i [] st = []"
| "accept_times lib c i (call # calls) st =
     (case call of
        MarkCall net now tenant event_id \<Rightarrow>
          if tc_community tenant = c \<and> event_id = i \<and> snd (check_nip98_replay lib net now tenant event_id st) = Ok ()
          then [now] else []
      | _ \<Rightarrow> [])
     @ accept_times lib c i calls (store_step lib call st)"

definition marked_until :: "'u http_lib \<Rightarrow> uuid \<Rightarrow> string \<Rightarrow> nat \<Rightarrow> redis \<Rightarrow> bool" where
  "marked_until lib c i e st \<longleftrightarrow> (\<forall>t<e. redis_get t (mark_key lib c i) st \<noteq> None)"

lemma marked_fresh: "marked_until lib c i e st \<Longrightarrow> redis_get now (mark_key lib c i) st = None \<Longrightarrow> e \<le> now"
  by (metis marked_until_def not_le)

lemma marked_step:
  assumes "http_laws lib" "i \<noteq> ZERO_EVENT_ID" "marked_until lib c i e st"
  shows "marked_until lib c i e (store_step lib call st)"
proof (cases "call_key lib call = mark_key lib c i")
  case False
  then show ?thesis using assms(3) by (simp add: marked_until_def store_step_other)
next
  case True
  then obtain net now tenant where call: "call = MarkCall net now tenant i" "tc_community tenant = c"
    by (cases call) (auto simp: mark_key_eq [OF assms(1)] dest: sym
        intro: mark_not_rate_key [OF assms(1), THEN notE])
  then show ?thesis
    using assms(2,3) marked_fresh [OF assms(3), of now] by (auto simp: marked_until_def check_replay_get)
qed

lemma accepts_after_mark:
  assumes "http_laws lib" "i \<noteq> ZERO_EVENT_ID" "marked_until lib c i e st"
  shows "\<forall>t \<in> set (accept_times lib c i calls st). e \<le> t"
  using assms(3)
proof (induction calls arbitrary: st)
  case (Cons call calls)
  have "\<forall>t \<in> set (accept_times lib c i calls (store_step lib call st)). e \<le> t"
    by (rule Cons.IH [OF marked_step [OF assms(1,2) Cons.prems]])
  moreover have "e \<le> now" if "call = MarkCall net now tenant i" "tc_community tenant = c"
      "snd (check_nip98_replay lib net now tenant i st) = Ok ()" for net now tenant
    using that marked_fresh [OF Cons.prems, of now] assms(2) by (auto simp: check_replay_result split: if_splits)
  ultimately show ?case by (auto split: store_call.split)
qed simp

lemma accept_times_spaced_aux:
  assumes "http_laws lib" "i \<noteq> ZERO_EVENT_ID"
  shows "sorted_wrt (\<lambda>s t. s + 120000 \<le> t) (accept_times lib c i calls st)"
proof (induction calls arbitrary: st)
  case (Cons call calls)
  let ?rest = "accept_times lib c i calls (store_step lib call st)"
  have "\<forall>t \<in> set ?rest. now + 120000 \<le> t" if call: "call = MarkCall net now tenant i" "tc_community tenant = c"
      and ok: "snd (check_nip98_replay lib net now tenant i st) = Ok ()" for net now tenant
  proof (rule accepts_after_mark [OF assms])
    have "net = NetOk" "redis_get now (mark_key lib c i) st = None"
      using ok call(2) assms(2) by (auto simp: check_replay_result split: if_splits)
    then show "marked_until lib c i (now + 120000) (store_step lib call st)"
      using assms(2) call by (simp add: marked_until_def check_replay_get ran_def)
  qed
  then show ?case using Cons.IH [of "store_step lib call st"] by (auto simp: sorted_wrt_append split: store_call.split)
qed simp

text \<open>
  C16 (replay markers). Whatever calls all relay processes make of the store, in any order and with any
  network faults, two acceptances of one event id in one community are at least 120 seconds apart.
\<close>

theorem accept_times_spaced:
  assumes "http_laws lib" "i \<noteq> ZERO_EVENT_ID"
  shows "sorted_wrt (\<lambda>s t. s + 120000 \<le> t) (accept_times lib c i calls st)"
  by (rule accept_times_spaced_aux [OF assms])

text \<open>
  Replay. An event can be accepted a second time only when its first acceptance fell into the first
  second of its validity window, or the second request waited long enough between verification and marking:
  the marker lives 120 seconds, the window of 60 whole seconds on either side lasts 121.
\<close>

theorem replay_needs_first_second:
  assumes "http_laws lib" "ev_id ev \<noteq> ZERO_EVENT_ID"
    and "m < n" "n < length (accept_times lib c (ev_id ev) calls st)"
    and "nip98_valid lib verified ev url req_method body"
    and "verified \<le> accept_times lib c (ev_id ev) calls st ! n"
  shows "accept_times lib c (ev_id ev) calls st ! m + 59000
    < 1000 * ev_created_at ev + (accept_times lib c (ev_id ev) calls st ! n - verified)"
proof -
  let ?ts = "accept_times lib c (ev_id ev) calls st"
  have "?ts ! m + 120000 \<le> ?ts ! n"
    using accept_times_spaced_aux [OF assms(1,2)] assms(3,4) by (simp add: sorted_wrt_iff_nth_less)
  moreover have "verified div 1000 \<le> ev_created_at ev + 60"
    using assms(5) by (simp add: nip98_valid_def abs_diff_le TIMESTAMP_TOLERANCE_SECS_def)
  ultimately show ?thesis using assms(6) by linarith
qed

section \<open>What an accepted request proves\<close>

lemma bound_tenant_ok_iff:
  "bound_tenant cfg headers = Ok tenant \<longleftrightarrow>
     (let host = normalize_host (case header_str ''host'' headers of Some h \<Rightarrow> h | None \<Rightarrow> [])
      in host \<noteq> [] \<and> tc_host tenant = host \<and> bc_resolve_host cfg host = Ok (Some (tc_community tenant)))"
  by (cases tenant)
    (auto simp: bound_tenant_def bind_community_def resolved_def Let_def split: sum.split option.split)

lemma unauthorized_ok [simp]: "unauthorized r = Ok a \<longleftrightarrow> r = Ok a"
  by (cases r) (simp_all add: unauthorized_def)

text \<open>
  C15 (accepted bridge requests). When tokens are required, a request that passes the door is bound to the
  community its host resolves to, and carries an event, valid at the time of verification, for the URL of
  exactly that host and path and the method POST; if the event has a payload tag with a value, the value is the
  hash of this body (the bridge asks for no such tag, and without one the event binds no body); the request was
  admitted within the caller's quota in that community, and the event's id was not marked there. When tokens are not
  required, a plain header may name the key instead, and none of this holds.
\<close>

theorem bridge_door_accepts:
  assumes "bridge_door lib cfg env path headers body st = (st', Ok (tenant, pk))" "bc_require_auth_token cfg"
  shows "\<exists>ev res st1.
      bc_resolve_host cfg (tc_host tenant) = Ok (Some (tc_community tenant))
      \<and> Some (tc_host tenant) = map_option normalize_host (header_str ''host'' headers)
      \<and> nip98_valid lib (re_verify_at env) ev (nip98_expected_url (bc_relay_url cfg) tenant path) ''POST'' (Some body)
      \<and> (\<forall>h. find_tag_content ''payload'' (ev_tags ev) = Some h \<longrightarrow> h = hl_hex lib (hl_sha256 lib body))
      \<and> pk = ev_pubkey ev
      \<and> check_and_increment lib (re_admit_net env) (re_admit_at env) (re_repair_net env) (re_repair_at env)
          tenant pk ApiCalls 60 (human_api_calls_per_min (bc_rate_limits cfg)) st = (st1, Ok res)
      \<and> rl_allowed res
      \<and> check_nip98_replay lib (re_mark_net env) (re_mark_at env) tenant (ev_id ev) st1 = (st', Ok ())"
proof -
  obtain tenant' pk' eid where ident': "bridge_identity lib cfg env path headers body = Ok (tenant', pk', eid)"
    using assms(1) by (cases "bridge_identity lib cfg env path headers body") (auto simp: bridge_door_def)
  then have ident: "bridge_identity lib cfg env path headers body = Ok (tenant, pk, eid)"
      and mark: "admit_and_mark lib cfg env tenant pk eid st = (st', Ok ())"
    using assms(1) by (auto simp: bridge_door_def Let_def split: prod.splits)
  from ident have t: "bound_tenant cfg headers = Ok tenant"
    and auth: "verify_bridge_auth_with_options lib (re_verify_at env) headers ''POST''
      (nip98_expected_url (bc_relay_url cfg) tenant path) (Some body) True False = Ok (pk, eid)"
    using assms(2) by (auto simp: bridge_identity_def Let_def verify_bridge_auth_def)
  obtain ev where ev: "eid = ev_id ev" "pk = ev_pubkey ev"
      "nip98_valid lib (re_verify_at env) ev (nip98_expected_url (bc_relay_url cfg) tenant path) ''POST'' (Some body)"
    by (rule bridge_auth_nip98 [OF auth]) auto
  have host: "bc_resolve_host cfg (tc_host tenant) = Ok (Some (tc_community tenant))"
    "Some (tc_host tenant) = map_option normalize_host (header_str ''host'' headers)"
    using t by (auto simp: bound_tenant_ok_iff Let_def split: option.splits)
  obtain st1 where adm: "enforce_http_admission lib cfg env tenant pk st = (st1, Ok ())"
      and chk: "check_nip98_replay lib (re_mark_net env) (re_mark_at env) tenant eid st1 = (st', Ok ())"
    using mark by (auto simp: admit_and_mark_def Let_def split: prod.splits sum.splits)
  obtain res where "check_and_increment lib (re_admit_net env) (re_admit_at env) (re_repair_net env) (re_repair_at env)
      tenant pk ApiCalls 60 (human_api_calls_per_min (bc_rate_limits cfg)) st = (st1, Ok res)" "rl_allowed res"
    using adm by (auto simp: enforce_http_admission_def check_principal_def Let_def
        split: prod.splits sum.splits admission_error.splits if_splits)
  moreover have "\<forall>h. find_tag_content ''payload'' (ev_tags ev) = Some h \<longrightarrow> h = hl_hex lib (hl_sha256 lib body)"
    using ev(3) by (auto simp: nip98_valid_def)
  ultimately show ?thesis using host ev chk by blast
qed

section \<open>Quotas\<close>

text \<open>The network and instant of a call that counts against a key.\<close>

definition hit_on :: "'u http_lib \<Rightarrow> string \<Rightarrow> store_call \<Rightarrow> (nat \<times> net) option" where
  "hit_on lib key call =
     (if call_key lib call \<noteq> key then None
      else case call of
             MarkCall _ _ _ _ \<Rightarrow> None
           | HitCall net now _ _ _ _ _ _ _ \<Rightarrow> Some (now, net)
           | IpHitCall net now _ _ _ _ _ \<Rightarrow> Some (now, net))"

text \<open>All calls that count against the key do so with one window and limit.\<close>

definition same_quota :: "'u http_lib \<Rightarrow> string \<Rightarrow> u64 \<Rightarrow> u64 \<Rightarrow> store_call \<Rightarrow> bool" where
  "same_quota lib key w limit call \<longleftrightarrow>
     (case call of
        MarkCall _ _ _ _ \<Rightarrow> True
      | HitCall _ now _ _ _ _ _ w' l \<Rightarrow> call_key lib call \<noteq> key \<or> w' = w \<and> l = limit \<and> window_ok (unat w) now
      | IpHitCall _ now _ _ _ w' l \<Rightarrow> call_key lib call \<noteq> key \<or> w' = w \<and> l = limit \<and> window_ok (unat w) now)"

text \<open>The answer to a call, and the instants at which the key's calls were allowed.\<close>

fun limit_answer :: "'u http_lib \<Rightarrow> store_call \<Rightarrow> redis \<Rightarrow> auth_error + rate_limit_result" where
  "limit_answer lib (HitCall net now net' now' tenant pubkey lt w limit) st =
     snd (check_and_increment lib net now net' now' tenant pubkey lt w limit st)"
| "limit_answer lib (IpHitCall net now net' now' ip w limit) st =
     snd (check_ip_connection net now net' now' ip w limit st)"
| "limit_answer lib (MarkCall _ _ _ _) st = Err (Internal RedisCommand)"

definition allows :: "auth_error + rate_limit_result \<Rightarrow> bool" where
  "allows r = (case r of Inl _ \<Rightarrow> False | Inr res \<Rightarrow> rl_allowed res)"

fun allowed_times :: "'u http_lib \<Rightarrow> string \<Rightarrow> store_call list \<Rightarrow> redis \<Rightarrow> nat list" where
  "allowed_times lib key [] st = []"
| "allowed_times lib key (call # calls) st =
     (case hit_on lib key call of
        Some (now, _) \<Rightarrow> if allows (limit_answer lib call st) then [now] else []
      | None \<Rightarrow> [])
     @ allowed_times lib key calls (store_step lib call st)"

definition rate_key :: "'u http_lib \<Rightarrow> string \<Rightarrow> bool" where
  "rate_key lib key \<longleftrightarrow> (\<forall>c i. mark_key lib c i \<noteq> key)"

lemma rate_keys [simp]:
  assumes "http_laws lib"
  shows "rate_key lib (rate_limit_key lib tenant pubkey lt)" "rate_key lib (ip_rate_limit_key ip)"
  using mark_not_rate_key [OF assms] by (simp_all add: rate_key_def)

lemma hit_on_run:
  assumes "hit_on lib key call = Some (now, net)" "same_quota lib key w limit call"
  obtains net' now' where "store_step lib call st = fst (run_rate_limit net now net' now' key w limit st)"
    "limit_answer lib call st = snd (run_rate_limit net now net' now' key w limit st)" "window_ok (unat w) now"
proof (cases call)
  case (HitCall n t net' now' tenant pubkey lt w' l)
  then show ?thesis
    using assms by (intro that [of net' now']) (auto simp: hit_on_def same_quota_def check_and_increment_def split: if_splits)
next
  case (IpHitCall n t net' now' ip w' l)
  then show ?thesis
    using assms by (intro that [of net' now']) (auto simp: hit_on_def same_quota_def check_ip_connection_def split: if_splits)
qed (use assms in \<open>simp add: hit_on_def split: if_splits\<close>)

lemma allowed_times_admitted:
  assumes "rate_key lib key" "counts key st c" "cn_hits c + length calls < 2 ^ 63 - 1"
    and "\<And>call. call \<in> set calls \<Longrightarrow> same_quota lib key w limit call"
  shows "allowed_times lib key calls st
    = admitted (unat w) (unat limit) (List.map_filter (hit_on lib key) calls) c"
  using assms(2-)
proof (induction calls arbitrary: st c)
  case (Cons call calls)
  show ?case
  proof (cases "hit_on lib key call")
    case None
    have "call_key lib call \<noteq> key"
      using None assms(1) by (cases call) (auto simp: hit_on_def rate_key_def)
    then have "counts key (store_step lib call st) c"
      using Cons.prems(1) by (auto intro: counts_frame store_step_other)
    then show ?thesis
      using Cons.IH [of "store_step lib call st" c] Cons.prems None by simp
  next
    case (Some nn)
    obtain now net where nn: "nn = (now, net)" by fastforce
    have q: "same_quota lib key w limit call" using Cons.prems(3) by simp
    obtain net' now' where run:
        "store_step lib call st = fst (run_rate_limit net now net' now' key w limit st)"
        "limit_answer lib call st = snd (run_rate_limit net now net' now' key w limit st)" "window_ok (unat w) now"
      by (rule hit_on_run [OF Some [unfolded nn] q])
    have live: "live_hits now c < 2 ^ 63 - 1" using live_hits_le [of now c] Cons.prems(2) by simp
    obtain st' reset where r: "run_rate_limit net now net' now' key w limit st = (st',
         if net = NetOk
         then Ok \<lparr>rl_allowed = Suc (live_hits now c) \<le> unat limit, rl_current = of_nat (Suc (live_hits now c)),
                  rl_limit = limit, rl_reset_in_secs = reset\<rparr>
         else Err (Internal (if net = PoolDown then RedisPool else RedisCommand)))"
      and c': "counts key st' (if ran net then hit (unat w) now c else c)"
      by (rule run_rate_limit_refines [OF Cons.prems(1) run(3) live])
    have "cn_hits (if ran net then hit (unat w) now c else c) \<le> Suc (cn_hits c)" by (simp add: hit_def)
    then have "allowed_times lib key calls st'
        = admitted (unat w) (unat limit) (List.map_filter (hit_on lib key) calls) (if ran net then hit (unat w) now c else c)"
      using Cons.prems(2,3) by (intro Cons.IH [OF c']) auto
    then show ?thesis by (simp add: Some nn run r allows_def)
  qed
qed simp

text \<open>
  Fixed-window quota. In any interval of the length of the window, at most twice the limit of calls on
  one rate-limit key are allowed, whatever other calls the relay processes interleave and whichever calls or
  replies the network loses.
\<close>

theorem quota_burst:
  assumes "rate_key lib key" "\<And>now. redis_get now key st = None" "length calls < 2 ^ 63 - 1"
    and "\<And>call. call \<in> set calls \<Longrightarrow> same_quota lib key w limit call"
    and "sorted (map fst (List.map_filter (hit_on lib key) calls))"
  shows "within a (a + 1000 * unat w) (allowed_times lib key calls st) \<le> 2 * unat limit"
proof -
  have "allowed_times lib key calls st
      = admitted (unat w) (unat limit) (List.map_filter (hit_on lib key) calls) idle_counter"
    using assms by (intro allowed_times_admitted) simp_all
  then show ?thesis using admitted_burst [OF assms(5)] by simp
qed

section \<open>A concrete library\<close>

definition demo_community :: uuid where "demo_community = mk_uuid (replicate 16 7)"

definition demo_event_id :: string where "demo_event_id = replicate 64 CHR ''a''"

definition demo_auth_event :: "event_tag list \<Rightarrow> nostr_event" where
  "demo_auth_event payload =
     \<lparr>ev_id = demo_event_id, ev_pubkey = ''alice'', ev_created_at = 60, ev_kind = 27235,
      ev_tags = [\<lparr>tag_kind = ''u'', tag_content = Some ''http://relay.example/events''\<rparr>,
                 \<lparr>tag_kind = ''method'', tag_content = Some ''post''\<rparr>] @ payload,
      ev_content = []\<rparr>"

definition demo_http :: "event_tag list \<Rightarrow> string http_lib" where
  "demo_http payload =
     \<lparr>hl_parse_event = (\<lambda>s. if s = ''auth'' then Some (demo_auth_event payload) else None),
      hl_verify_id = (\<lambda>_. True), hl_verify_signature = (\<lambda>_. True), hl_sha256 = (\<lambda>b. b), hl_hex = demo_hex,
      hl_base64_decode = (\<lambda>s. Some (str_bytes s)), hl_pubkey_from_hex = Some,
      hl_url_parse = Some, hl_url_path = (\<lambda>_. []), hl_url_set_path = (\<lambda>u _. u), hl_url_to_string = (\<lambda>u. u),
      hl_url_host = (\<lambda>_. None), hl_url_set_host = (\<lambda>u _. u),
      hl_to_lowercase = to_ascii_lowercase, hl_uuid = (\<lambda>u. demo_hex (uuid_bytes u) @ ''----'')\<rparr>"

lemma demo_http_laws: "http_laws (demo_http p)"
proof -
  have "inj (\<lambda>u. demo_hex (uuid_bytes u) @ ''----'')"
  proof (rule injI)
    fix u v assume "demo_hex (uuid_bytes u) @ ''----'' = demo_hex (uuid_bytes v) @ ''----''"
    then have "demo_unhex (demo_hex (uuid_bytes u)) = demo_unhex (demo_hex (uuid_bytes v))" by simp
    then show "u = v" by (simp only: demo_unhex_hex uuid_bytes_inject)
  qed
  moreover have "CHR '':'' \<notin> set (demo_hex b)" for b
    using demo_hex_lower [of b] by (auto simp: list_all_iff is_lowercase_hex_def is_digit_def)
  ultimately show ?thesis by (simp add: http_laws_def demo_http_def demo_hex_length)
qed

definition demo_tenant :: tenant_context where
  "demo_tenant = \<lparr>tc_community = demo_community, tc_host = ''relay.example''\<rparr>"

definition demo_bridge :: "unit bridge_config" where
  "demo_bridge = \<lparr>bc_relay_url = ''ws://relay.example'', bc_require_auth_token = True,
     bc_rate_limits = default_rate_limits,
     bc_resolve_host = (\<lambda>h. Ok (if h = ''relay.example'' then Some demo_community else None))\<rparr>"

definition demo_headers :: "(string, string) hmap" where
  "demo_headers = [(''host'', ''Relay.example:443''), (''authorization'', ''Nostr auth'')]"

definition demo_env :: "nat \<Rightarrow> request_env" where
  "demo_env t = \<lparr>re_verify_at = t, re_admit_at = t, re_admit_net = NetOk, re_repair_at = t, re_repair_net = NetOk,
     re_mark_at = t, re_mark_net = NetOk\<rparr>"

lemma demo_env_sel [simp]:
  "re_verify_at (demo_env t) = t" "re_admit_at (demo_env t) = t" "re_admit_net (demo_env t) = NetOk"
  "re_repair_at (demo_env t) = t" "re_repair_net (demo_env t) = NetOk" "re_mark_at (demo_env t) = t"
  "re_mark_net (demo_env t) = NetOk"
  by (simp_all add: demo_env_def)

lemma demo_event_id_nonzero [simp]: "demo_event_id \<noteq> ZERO_EVENT_ID"
  by (simp add: demo_event_id_def ZERO_EVENT_ID_def numeral_eq_Suc)

lemma demo_strings:
  "to_ascii_lowercase ''POST'' = ''post''" "to_ascii_lowercase ''post'' = ''post''"
  "normalize_host ''Relay.example:443'' = ''relay.example''"
  "header_str ''host'' demo_headers = Some ''Relay.example:443''"
  "header_str ''authorization'' demo_headers = Some ''Nostr auth''"
  "strip_prefix ''Nostr '' ''Nostr auth'' = Some ''auth''"
  "string_from_utf8 (str_bytes ''auth'') = Some ''auth''"
  "nip98_expected_url ''ws://relay.example'' demo_tenant p = ''http://relay.example'' @ p"
proof -
  have "trim_front white_space ''ws://relay.example'' = ''ws://relay.example''"
    by (rule trim_front_graphic) (auto simp: graphic_def)
  then have "\<not> tls_relay ''ws://relay.example''" by (simp add: tls_relay_def starts_with_def)
  then show "nip98_expected_url ''ws://relay.example'' demo_tenant p = ''http://relay.example'' @ p"
    by (simp add: nip98_expected_url_def demo_tenant_def)
  have "to_ascii_lowercase ''Relay.example:443'' = ''relay.example'' @ '':443''" by code_simp
  moreover have "graphic (hd ''Relay.example:443'')" "graphic (last ''Relay.example:443'')"
    by (simp_all add: graphic_def)
  ultimately have "normalize_host ''Relay.example:443'' = strip_root_dot ''relay.example''"
    by (simp only: normalize_host_lower strip_default_port_def strip_suffix_append option.case)
  then show "normalize_host ''Relay.example:443'' = ''relay.example''"
    by (simp add: strip_root_dot_def strip_suffix_last)
qed code_simp+

lemma demo_nip98_valid:
  "p = [] \<or> p = [\<lparr>tag_kind = ''payload'', tag_content = None\<rparr>] \<Longrightarrow> t < 121000
     \<Longrightarrow> nip98_valid (demo_http p) t (demo_auth_event p) ''http://relay.example/events'' ''POST'' (Some body)"
  by (auto simp: nip98_valid_def demo_auth_event_def demo_http_def HTTP_AUTH_KIND_def abs_diff_le
      TIMESTAMP_TOLERANCE_SECS_def find_tag_content_def eq_ignore_ascii_case_def demo_strings)

lemma demo_identity:
  assumes "p = [] \<or> p = [\<lparr>tag_kind = ''payload'', tag_content = None\<rparr>]" "t < 121000"
  shows "bridge_identity (demo_http p) demo_bridge (demo_env t) ''/events'' demo_headers body
    = Ok (demo_tenant, ''alice'', demo_event_id)"
proof -
  have "bound_tenant demo_bridge demo_headers = Ok demo_tenant"
    by (simp add: bound_tenant_ok_iff demo_strings demo_bridge_def demo_tenant_def Let_def)
  moreover have "verify_bridge_auth (demo_http p) t demo_headers ''POST'' ''http://relay.example/events''
      (Some body) True = Ok (''alice'', demo_event_id)"
    using demo_nip98_valid [OF assms, of body]
    by (simp add: verify_bridge_auth_def bridge_auth_ok_iff demo_strings)
      (simp add: demo_http_def demo_strings demo_auth_event_def)
  ultimately show ?thesis
    by (simp add: bridge_identity_def Let_def demo_strings demo_bridge_def)
qed

text \<open>With no hits in the store, a request is admitted and its marker set for two minutes.\<close>

lemma demo_door:
  assumes "p = [] \<or> p = [\<lparr>tag_kind = ''payload'', tag_content = None\<rparr>]" "t < 121000"
    and "redis_get t (mark_key (demo_http p) demo_community demo_event_id) st = None"
    and "counts (rate_limit_key (demo_http p) demo_tenant ''alice'' ApiCalls) st c" "live_hits t c < 300"
  obtains st' where
    "submit_event_door (demo_http p) demo_bridge (demo_env t) demo_headers body st = (st', Ok (demo_tenant, ''alice''))"
    "\<And>u. redis_get u (mark_key (demo_http p) demo_community demo_event_id) st'
        = (if u < t + 120000 then Some ''1'' else None)"
    "counts (rate_limit_key (demo_http p) demo_tenant ''alice'' ApiCalls) st' (hit 60 t c)"
proof -
  let ?lib = "demo_http p" let ?key = "rate_limit_key ?lib demo_tenant ''alice'' ApiCalls"
  let ?mark = "mark_key ?lib demo_community demo_event_id"
  have ne: "?mark \<noteq> ?key" by (rule mark_not_rate_key(1) [OF demo_http_laws])
  have w: "window_ok (unat (60 :: u64)) t" using assms(2) by (simp add: window_ok_def)
  have l: "live_hits t c < 2 ^ 63 - 1" using assms(5) by simp
  obtain st1 reset where r': "run_rate_limit NetOk t NetOk t ?key 60 300 st = (st1, if NetOk = NetOk
      then Ok \<lparr>rl_allowed = Suc (live_hits t c) \<le> unat (300 :: u64), rl_current = of_nat (Suc (live_hits t c)),
               rl_limit = 300, rl_reset_in_secs = reset\<rparr>
      else Err (Internal (if NetOk = PoolDown then RedisPool else RedisCommand)))"
    and c1': "counts ?key st1 (if ran NetOk then hit (unat (60 :: u64)) t c else c)"
    by (rule run_rate_limit_refines [OF assms(4) w l])
  have r: "\<exists>res. run_rate_limit NetOk t NetOk t ?key 60 300 st = (st1, Ok res) \<and> rl_allowed res"
    using assms(5) by (simp add: r')
  have c1: "counts ?key st1 (hit 60 t c)" using c1' by (simp add: ran_def)
  have adm: "enforce_http_admission ?lib demo_bridge (demo_env t) demo_tenant ''alice'' st = (st1, Ok ())"
    using r by (auto simp: enforce_http_admission_def check_principal_def check_and_increment_def demo_bridge_def
        default_rate_limits_def Let_def)
  have m1: "redis_get u ?mark st1 = redis_get u ?mark st" for u
    using run_rate_limit_get_other [OF ne, of u NetOk t NetOk t 60 300 st] r by auto
  have comm: "tc_community demo_tenant = demo_community" by (simp add: demo_tenant_def)
  have "snd (check_nip98_replay ?lib NetOk t demo_tenant demo_event_id st1) = Ok ()"
    by (simp add: check_replay_result comm m1 assms(3))
  then obtain st' where chk: "check_nip98_replay ?lib NetOk t demo_tenant demo_event_id st1 = (st', Ok ())"
    by (metis prod.collapse)
  have get: "redis_get u k st' = (if k = ?mark \<and> redis_get t k st1 = None
      then if u < t + 120000 then Some ''1'' else None else redis_get u k st1)" for u k
    using check_replay_get [OF demo_event_id_nonzero, of u k ?lib NetOk t demo_tenant st1]
    by (simp add: chk comm ran_def)
  show ?thesis
  proof (rule that)
    show "submit_event_door ?lib demo_bridge (demo_env t) demo_headers body st = (st', Ok (demo_tenant, ''alice''))"
      by (simp add: submit_event_door_def bridge_door_def demo_identity [OF assms(1,2)] admit_and_mark_def adm chk
          unauthorized_def)
    show "redis_get u ?mark st' = (if u < t + 120000 then Some ''1'' else None)" for u
      by (simp add: get m1 assms(3))
    show "counts ?key st' (hit 60 t c)"
      using ne by (intro counts_frame [OF c1]) (simp add: get)
  qed
qed

section \<open>Concrete runs\<close>

definition demo_marks :: "store_call list" where
  "demo_marks = [MarkCall NetOk 0 demo_tenant demo_event_id, MarkCall NetOk 60000 demo_tenant demo_event_id,
     MarkCall NetOk 120500 demo_tenant demo_event_id]"

lemma demo_marks_accepted:
  "accept_times (demo_http []) demo_community demo_event_id demo_marks empty_redis = [0, 120500]"
  by (simp add: demo_marks_def demo_tenant_def check_replay_result check_replay_get ran_def)

theorem accept_times_spaced_witness:
  "sorted_wrt (\<lambda>s t. s + 120000 \<le> t) (accept_times (demo_http []) demo_community demo_event_id demo_marks empty_redis)"
  by (rule accept_times_spaced [OF demo_http_laws demo_event_id_nonzero])

theorem replay_needs_first_second_witness:
  "accept_times (demo_http []) demo_community demo_event_id demo_marks empty_redis ! 0 + 59000 < 60000"
proof -
  have "ev_id (demo_auth_event []) = demo_event_id" "ev_created_at (demo_auth_event []) = 60"
    by (simp_all add: demo_auth_event_def)
  then show ?thesis
    using replay_needs_first_second [where lib = "demo_http []" and ev = "demo_auth_event []" and m = 0 and n = 1
        and c = demo_community and calls = demo_marks and st = empty_redis and verified = 120500
        and body = "Some []", OF demo_http_laws _ _ _ demo_nip98_valid]
    by (simp add: demo_marks_accepted)
qed

text \<open>
  A replay across the marker's life. The same signed request passes the door twice: at the start of its
  window and, 120.5 seconds later, in the window's last second, when the marker has expired.
\<close>

theorem replay_in_last_second:
  "\<exists>st1 st2. submit_event_door (demo_http []) demo_bridge (demo_env 0) demo_headers body empty_redis
        = (st1, Ok (demo_tenant, ''alice''))
     \<and> submit_event_door (demo_http []) demo_bridge (demo_env 120500) demo_headers body st1
        = (st2, Ok (demo_tenant, ''alice''))"
proof -
  let ?key = "rate_limit_key (demo_http []) demo_tenant ''alice'' ApiCalls"
  have idle: "counts ?key empty_redis idle_counter" "live_hits 0 idle_counter < 300"
    by (simp_all add: live_hits_def)
  obtain st1 where first: "submit_event_door (demo_http []) demo_bridge (demo_env 0) demo_headers body empty_redis
        = (st1, Ok (demo_tenant, ''alice''))"
      and mark: "\<And>u. redis_get u (mark_key (demo_http []) demo_community demo_event_id) st1
          = (if u < 0 + 120000 then Some ''1'' else None)"
      and hits: "counts ?key st1 (hit 60 0 idle_counter)"
    by (rule demo_door [OF _ _ _ idle, of body]) simp_all
  obtain st2 where "submit_event_door (demo_http []) demo_bridge (demo_env 120500) demo_headers body st1
        = (st2, Ok (demo_tenant, ''alice''))"
    by (rule demo_door [OF _ _ _ hits, of 120500 body])
      (simp_all add: mark live_hits_def hit_def idle_counter_def)
  then show ?thesis using first by blast
qed

theorem bridge_door_accepts_witness:
  "\<exists>ev. nip98_valid (demo_http []) 0 ev ''http://relay.example/events'' ''POST'' (Some []) \<and> ev_pubkey ev = ''alice''"
proof -
  have idle: "counts (rate_limit_key (demo_http []) demo_tenant ''alice'' ApiCalls) empty_redis idle_counter"
    "live_hits 0 idle_counter < 300"
    by (simp_all add: live_hits_def)
  obtain st1 where "submit_event_door (demo_http []) demo_bridge (demo_env 0) demo_headers [] empty_redis
        = (st1, Ok (demo_tenant, ''alice''))"
    by (rule demo_door [OF _ _ _ idle, of "[]"]) simp_all
  then have door: "bridge_door (demo_http []) demo_bridge (demo_env 0) ''/events'' demo_headers [] empty_redis
        = (st1, Ok (demo_tenant, ''alice''))"
    by (simp add: submit_event_door_def)
  have "bc_require_auth_token demo_bridge" "bc_relay_url demo_bridge = ''ws://relay.example''"
    by (simp_all add: demo_bridge_def)
  with bridge_door_accepts [OF door] show ?thesis by (auto simp: demo_strings)
qed

theorem quota_burst_witness:
  "within 0 (0 + 1000 * unat (60 :: u64)) (allowed_times (demo_http [])
       (rate_limit_key (demo_http []) demo_tenant ''alice'' ApiCalls)
       [HitCall NetOk 5 NetOk 5 demo_tenant ''alice'' ApiCalls 60 2, MarkCall NetOk 6 demo_tenant demo_event_id,
        HitCall ReplyLost 7 NetOk 7 demo_tenant ''alice'' ApiCalls 60 2] empty_redis) \<le> 2 * unat (2 :: u64)"
  by (rule quota_burst)
    (auto simp: demo_http_laws same_quota_def hit_on_def window_ok_def mark_not_rate_key [OF demo_http_laws])

theorem empty_payload_tag_binds_nothing_witness:
  "verify_bridge_auth_with_options (demo_http [\<lparr>tag_kind = ''payload'', tag_content = None\<rparr>]) 0 demo_headers
       ''POST'' ''http://relay.example/events'' (Some [1]) True True = Ok (''alice'', demo_event_id)
   \<and> verify_bridge_auth_with_options (demo_http [\<lparr>tag_kind = ''payload'', tag_content = None\<rparr>]) 0 demo_headers
       ''POST'' ''http://relay.example/events'' (Some [2]) True True = Ok (''alice'', demo_event_id)"
proof -
  let ?p = "[\<lparr>tag_kind = ''payload'', tag_content = None\<rparr>]"
  have one: "verify_bridge_auth_with_options (demo_http ?p) 0 demo_headers
       ''POST'' ''http://relay.example/events'' (Some [1]) True True = Ok (''alice'', demo_event_id)"
    using demo_nip98_valid [of ?p 0 "[1]"]
    by (simp add: bridge_auth_ok_iff demo_strings) (simp add: demo_http_def demo_strings demo_auth_event_def)
  have "verify_bridge_auth_with_options (demo_http ?p) 0 demo_headers
       ''POST'' ''http://relay.example/events'' (Some [1]) True True
     = verify_bridge_auth_with_options (demo_http ?p) 0 demo_headers
       ''POST'' ''http://relay.example/events'' (Some [2]) True True"
    by (rule empty_payload_tag_binds_nothing [OF _ _ demo_strings(7), where auth = "''auth''" and ev = "demo_auth_event ?p"])
      (simp_all add: demo_strings(5,6) demo_http_def demo_auth_event_def find_tag_content_def)
  then show ?thesis using one by simp
qed

end
