(* ===== verification/AuthScope.thy ===== *)
theory AuthScope
  imports HttpAuth
begin

text \<open>
  Authorization scopes and channel access: \<open>crates/buzz-auth/src/scope.rs\<close> and \<open>access.rs\<close>. The membership
  lookup of \<open>ChannelAccessChecker\<close> is a parameter, the set of channels of a key in a community or an error.
\<close>

section \<open>Scopes\<close>

datatype scope =
    MessagesRead | MessagesWrite | ChannelsRead | ChannelsWrite | AdminChannels | UsersRead | UsersWrite
  | AdminUsers | JobsRead | JobsWrite | SubscriptionsRead | SubscriptionsWrite | FilesRead | FilesWrite
  | ReposRead | ReposWrite | Unknown string

definition all_known :: "scope list" where
  "all_known =
     [MessagesRead, MessagesWrite, ChannelsRead, ChannelsWrite, AdminChannels, UsersRead, UsersWrite, AdminUsers,
      JobsRead, JobsWrite, SubscriptionsRead, SubscriptionsWrite, FilesRead, FilesWrite, ReposRead, ReposWrite]"

definition all_non_admin :: "scope list" where
  "all_non_admin =
     [MessagesRead, MessagesWrite, ChannelsRead, ChannelsWrite, UsersRead, UsersWrite,
      JobsRead, JobsWrite, SubscriptionsRead, SubscriptionsWrite, FilesRead, FilesWrite, ReposRead, ReposWrite]"

fun scope_as_str :: "scope \<Rightarrow> string" where
  "scope_as_str MessagesRead = ''messages:read''"
| "scope_as_str MessagesWrite = ''messages:write''"
| "scope_as_str ChannelsRead = ''channels:read''"
| "scope_as_str ChannelsWrite = ''channels:write''"
| "scope_as_str AdminChannels = ''admin:channels''"
| "scope_as_str UsersRead = ''users:read''"
| "scope_as_str UsersWrite = ''users:write''"
| "scope_as_str AdminUsers = ''admin:users''"
| "scope_as_str JobsRead = ''jobs:read''"
| "scope_as_str JobsWrite = ''jobs:write''"
| "scope_as_str SubscriptionsRead = ''subscriptions:read''"
| "scope_as_str SubscriptionsWrite = ''subscriptions:write''"
| "scope_as_str FilesRead = ''files:read''"
| "scope_as_str FilesWrite = ''files:write''"
| "scope_as_str ReposRead = ''repos:read''"
| "scope_as_str ReposWrite = ''repos:write''"
| "scope_as_str (Unknown s) = s"

definition scope_from_str :: "string \<Rightarrow> scope" where
  "scope_from_str s =
     (if s = ''messages:read'' then MessagesRead
      else if s = ''messages:write'' then MessagesWrite
      else if s = ''channels:read'' then ChannelsRead
      else if s = ''channels:write'' then ChannelsWrite
      else if s = ''admin:channels'' then AdminChannels
      else if s = ''users:read'' then UsersRead
      else if s = ''users:write'' then UsersWrite
      else if s = ''admin:users'' then AdminUsers
      else if s = ''jobs:read'' then JobsRead
      else if s = ''jobs:write'' then JobsWrite
      else if s = ''subscriptions:read'' then SubscriptionsRead
      else if s = ''subscriptions:write'' then SubscriptionsWrite
      else if s = ''files:read'' then FilesRead
      else if s = ''files:write'' then FilesWrite
      else if s = ''repos:read'' then ReposRead
      else if s = ''repos:write'' then ReposWrite
      else Unknown s)"

definition parse_scopes :: "string list \<Rightarrow> scope list" where
  "parse_scopes raw = map scope_from_str raw"

section \<open>Access checks\<close>

type_synonym access_checker = "tenant_context \<Rightarrow> string \<Rightarrow> auth_error + uuid list"

definition can_access :: "access_checker \<Rightarrow> tenant_context \<Rightarrow> string \<Rightarrow> uuid \<Rightarrow> auth_error + bool" where
  "can_access accessible_channel_ids ctx pubkey channel_id =
     and_then (accessible_channel_ids ctx pubkey) (\<lambda>ids. Ok (channel_id \<in> set ids))"

definition require_scope :: "scope list \<Rightarrow> scope \<Rightarrow> auth_error + unit" where
  "require_scope scopes required =
     (if required \<in> set scopes then Ok ()
      else Err (InsufficientScope (scope_as_str required) (map scope_as_str scopes)))"

definition check_read_access ::
  "access_checker \<Rightarrow> tenant_context \<Rightarrow> string \<Rightarrow> uuid \<Rightarrow> scope list \<Rightarrow> auth_error + unit" where
  "check_read_access checker ctx pubkey channel_id scopes =
     and_then (require_scope scopes MessagesRead) (\<lambda>_.
       and_then (can_access checker ctx pubkey channel_id) (\<lambda>ok. if ok then Ok () else Err ChannelAccessDenied))"

definition check_write_access ::
  "access_checker \<Rightarrow> tenant_context \<Rightarrow> string \<Rightarrow> uuid \<Rightarrow> scope list \<Rightarrow> auth_error + unit" where
  "check_write_access checker ctx pubkey channel_id scopes =
     and_then (require_scope scopes MessagesWrite) (\<lambda>_.
       and_then (can_access checker ctx pubkey channel_id) (\<lambda>ok. if ok then Ok () else Err ChannelAccessDenied))"

section \<open>The codec is lossless\<close>

definition scope_wf :: "scope \<Rightarrow> bool" where
  "scope_wf sc \<longleftrightarrow> (case sc of Unknown s \<Rightarrow> s \<notin> set (map scope_as_str all_known) | _ \<Rightarrow> True)"

lemma scope_as_from [simp]: "scope_as_str (scope_from_str s) = s"
  by (simp add: scope_from_str_def)

lemma scope_from_as: "scope_wf sc \<Longrightarrow> scope_from_str (scope_as_str sc) = sc"
  by (cases sc) (auto simp: scope_wf_def all_known_def scope_from_str_def)

lemma scope_from_wf [simp]: "scope_wf (scope_from_str s)"
  by (auto simp: scope_wf_def scope_from_str_def all_known_def)

text \<open>
  Scope texts. Parsing a scope loses nothing, and the scopes that parsing yields are exactly those that
  their text determines: an unknown scope never carries the text of a known one.
\<close>

theorem scope_codec_exact: "scope_as_str (scope_from_str s) = s \<and> (range scope_from_str = Collect scope_wf)"
  by (auto simp: image_iff) (metis scope_from_as)

text \<open>
  Channel access. Reading and writing a channel each need their scope and membership of the channel in
  the request's own community; a failing lookup denies.
\<close>

theorem channel_access_iff:
  "(check_read_access checker ctx pk ch scopes = Ok () \<longleftrightarrow>
      MessagesRead \<in> set scopes \<and> (\<exists>ids. checker ctx pk = Ok ids \<and> ch \<in> set ids))
   \<and> (check_write_access checker ctx pk ch scopes = Ok () \<longleftrightarrow>
      MessagesWrite \<in> set scopes \<and> (\<exists>ids. checker ctx pk = Ok ids \<and> ch \<in> set ids))"
  by (cases "checker ctx pk")
    (auto simp: check_read_access_def check_write_access_def require_scope_def can_access_def)

end
