(* ===== verification/OwnerAttestation.thy ===== *)
theory OwnerAttestation
  imports ByteStrings
begin

text \<open>
  Owner attestations (NIP-OA): \<open>crates/buzz-sdk/src/nip_oa.rs\<close>. An \<open>auth\<close> tag
  \<open>["auth", owner, conditions, sig]\<close> carries the owner's signature over the agent's key and the conditions.
  Parameters (record \<open>attest_lib\<close>): the JSON parser and printer, public keys from hex and as curve
  points, SHA-256 and Schnorr signatures; public keys are their hex text. The laws \<open>attest_laws\<close> say that
  printing parses back, that signing verifies, and the shape of keys and signatures.

  \<open>render_conditions\<close> gives the grammar of the conditions; the validator accepts exactly its image.
\<close>

section \<open>Library and errors\<close>

datatype json_item = JStr string | JOther

datatype json_text = JArray "json_item list" | NoArray

record ('sk, 'sig, 'point) attest_lib =
  at_parse_json :: "string \<Rightarrow> json_text option"
  at_print_tag :: "string list \<Rightarrow> string"
  at_public :: "'sk \<Rightarrow> string"
  at_pubkey_from_hex :: "string \<Rightarrow> string option"
  at_xonly :: "string \<Rightarrow> 'point option"
  at_sha256 :: "bytes \<Rightarrow> bytes"
  at_sign :: "'sk \<Rightarrow> bytes \<Rightarrow> 'sig"
  at_sig_text :: "'sig \<Rightarrow> string"
  at_sig_parse :: "string \<Rightarrow> 'sig option"
  at_verify :: "'sig \<Rightarrow> bytes \<Rightarrow> 'point \<Rightarrow> bool"

text \<open>The texts of \<open>SdkError::InvalidInput\<close>.\<close>

datatype sdk_error =
    Whitespace | EmptyClause | UnsupportedClause string
  | EmptyValue | LeadingZero string | NotDecimal string | ParseOverflow | OutOfRange nat nat nat
  | InvalidJson | NoJsonArray | WrongLength nat | NotAString nat | WrongLabel string
  | InvalidOwner | SelfAttestation | InvalidSignatureHex | XonlyFailed | SignatureFailed
  | OwnerNotHex string | SignatureNotHex nat | TagFailed

section \<open>Conditions\<close>

definition is_ascii_whitespace :: "char \<Rightarrow> bool" where
  "is_ascii_whitespace c \<longleftrightarrow> (of_char c :: nat) \<in> {9, 10, 12, 13, 32}"

definition validate_canonical_decimal :: "string \<Rightarrow> nat \<Rightarrow> nat \<Rightarrow> sdk_error + unit" where
  "validate_canonical_decimal s lo hi =
     (if s = [] then Err EmptyValue
      else if 1 < length s \<and> starts_with ''0'' s then Err (LeadingZero s)
      else if \<not> list_all is_digit s then Err (NotDecimal s)
      else if 2 ^ 64 \<le> read_digits s then Err ParseOverflow
      else let value = read_digits s
           in if value < lo \<or> hi < value then Err (OutOfRange value lo hi) else Ok ())"

definition validate_clause :: "string \<Rightarrow> sdk_error + unit" where
  "validate_clause clause =
     (case strip_prefix ''kind='' clause of
        Some v \<Rightarrow> validate_canonical_decimal v 0 65535
      | None \<Rightarrow>
          (case strip_prefix ''created_at<'' clause of
             Some v \<Rightarrow> validate_canonical_decimal v 0 4294967295
           | None \<Rightarrow>
               (case strip_prefix ''created_at>'' clause of
                  Some v \<Rightarrow> validate_canonical_decimal v 0 4294967295
                | None \<Rightarrow> Err (UnsupportedClause clause))))"

fun validate_clauses :: "string list \<Rightarrow> sdk_error + unit" where
  "validate_clauses [] = Ok ()"
| "validate_clauses (clause # rest) =
     (if clause = [] then Err EmptyClause
      else and_then (validate_clause clause) (\<lambda>_. validate_clauses rest))"

definition validate_conditions :: "string \<Rightarrow> sdk_error + unit" where
  "validate_conditions conditions =
     (if conditions = [] then Ok ()
      else if list_ex is_ascii_whitespace conditions then Err Whitespace
      else validate_clauses (split_on CHR ''&'' conditions))"

section \<open>Tags\<close>

definition build_preimage :: "string \<Rightarrow> string \<Rightarrow> string" where
  "build_preimage agent_pubkey conditions = ''nostr:agent-auth:'' @ agent_pubkey @ '':'' @ conditions"

definition hash_preimage :: "('sk, 'sig, 'p) attest_lib \<Rightarrow> string \<Rightarrow> bytes" where
  "hash_preimage lib preimage = at_sha256 lib (str_bytes preimage)"

definition is_lowercase_hex_digit :: "char \<Rightarrow> bool" where
  "is_lowercase_hex_digit c \<longleftrightarrow> is_digit c \<or> 97 \<le> (of_char c :: nat) \<and> (of_char c :: nat) \<le> 102"

definition parse_json_array :: "('sk, 'sig, 'p) attest_lib \<Rightarrow> string \<Rightarrow> sdk_error + json_item list" where
  "parse_json_array lib s =
     (case at_parse_json lib s of
        None \<Rightarrow> Err InvalidJson
      | Some (JArray arr) \<Rightarrow> Ok arr
      | Some NoArray \<Rightarrow> Err NoJsonArray)"

fun as_str :: "nat \<Rightarrow> json_item \<Rightarrow> sdk_error + string" where
  "as_str i (JStr s) = Ok s"
| "as_str i JOther = Err (NotAString i)"

definition compute_auth_tag :: "('sk, 'sig, 'p) attest_lib \<Rightarrow> 'sk \<Rightarrow> string \<Rightarrow> string \<Rightarrow> sdk_error + string" where
  "compute_auth_tag lib owner_keys agent_pubkey conditions =
     (let owner_pubkey = at_public lib owner_keys
      in if owner_pubkey = agent_pubkey then Err SelfAttestation
         else and_then (validate_conditions conditions) (\<lambda>_.
           let message = hash_preimage lib (build_preimage agent_pubkey conditions);
               sig = at_sign lib owner_keys message
           in Ok (at_print_tag lib [''auth'', owner_pubkey, conditions, at_sig_text lib sig])))"

definition verify_auth_tag :: "('sk, 'sig, 'p) attest_lib \<Rightarrow> string \<Rightarrow> string \<Rightarrow> sdk_error + string" where
  "verify_auth_tag lib auth_tag_json agent_pubkey =
     and_then (parse_json_array lib auth_tag_json) (\<lambda>arr.
       if length arr \<noteq> 4 then Err (WrongLength (length arr))
       else
         and_then (as_str 0 (arr ! 0)) (\<lambda>label.
         if label \<noteq> ''auth'' then Err (WrongLabel label) else
         and_then (as_str 1 (arr ! 1)) (\<lambda>owner_hex.
         and_then (as_str 2 (arr ! 2)) (\<lambda>conditions.
         and_then (as_str 3 (arr ! 3)) (\<lambda>sig_hex.
         and_then (ok_or InvalidOwner (at_pubkey_from_hex lib owner_hex)) (\<lambda>owner.
         and_then (validate_conditions conditions) (\<lambda>_.
         if owner = agent_pubkey then Err SelfAttestation else
         and_then (ok_or InvalidSignatureHex (at_sig_parse lib sig_hex)) (\<lambda>sig.
         let message = hash_preimage lib (build_preimage agent_pubkey conditions) in
         and_then (ok_or XonlyFailed (at_xonly lib owner)) (\<lambda>point.
         if at_verify lib sig message point then Ok owner else Err SignatureFailed)))))))))"

text \<open>\<open>Tag::parse\<close> fails only on an empty list, so the parsed tag is the list of its four texts.\<close>

definition parse_auth_tag :: "('sk, 'sig, 'p) attest_lib \<Rightarrow> string \<Rightarrow> sdk_error + string list" where
  "parse_auth_tag lib json_str =
     and_then (parse_json_array lib json_str) (\<lambda>arr.
       if length arr \<noteq> 4 then Err (WrongLength (length arr))
       else
         and_then (as_str 0 (arr ! 0)) (\<lambda>label.
         if label \<noteq> ''auth'' then Err (WrongLabel label) else
         and_then (as_str 1 (arr ! 1)) (\<lambda>owner_hex.
         if length owner_hex \<noteq> 64 \<or> \<not> list_all is_lowercase_hex_digit owner_hex then Err (OwnerNotHex owner_hex) else
         and_then (as_str 2 (arr ! 2)) (\<lambda>conditions.
         and_then (validate_conditions conditions) (\<lambda>_.
         and_then (as_str 3 (arr ! 3)) (\<lambda>sig_hex.
         if length sig_hex \<noteq> 128 \<or> \<not> list_all is_lowercase_hex_digit sig_hex
         then Err (SignatureNotHex (length sig_hex))
         else Ok [''auth'', owner_hex, conditions, sig_hex]))))))"

section \<open>The grammar of conditions\<close>

datatype clause = KindIs nat | Before nat | After nat

fun render_clause :: "clause \<Rightarrow> string" where
  "render_clause (KindIs n) = ''kind='' @ show_nat n"
| "render_clause (Before n) = ''created_at<'' @ show_nat n"
| "render_clause (After n) = ''created_at>'' @ show_nat n"

fun clause_ok :: "clause \<Rightarrow> bool" where
  "clause_ok (KindIs n) \<longleftrightarrow> n \<le> 65535"
| "clause_ok (Before n) \<longleftrightarrow> n \<le> 4294967295"
| "clause_ok (After n) \<longleftrightarrow> n \<le> 4294967295"

definition render_conditions :: "clause list \<Rightarrow> string" where
  "render_conditions cs = join_with CHR ''&'' (map render_clause cs)"

text \<open>What the timestamp clauses demand of an event.\<close>

fun clause_admits_time :: "nat \<Rightarrow> clause \<Rightarrow> bool" where
  "clause_admits_time t (KindIs n) \<longleftrightarrow> True"
| "clause_admits_time t (Before n) \<longleftrightarrow> t < n"
| "clause_admits_time t (After n) \<longleftrightarrow> n < t"

lemma read_digits_snoc [simp]: "read_digits (s @ [d]) = 10 * read_digits s + digit_value d"
  by (simp add: read_digits_def)

lemma read_digits_short [simp]: "read_digits [] = 0" "read_digits [d] = digit_value d"
  by (simp_all add: read_digits_def)

lemma digit_char_of_value [simp]: "is_digit c \<Longrightarrow> digit_char (digit_value c) = c"
  by (simp add: is_digit_def digit_value_def)

lemma digit_value_less: "is_digit c \<Longrightarrow> digit_value c < 10"
  by (auto simp: is_digit_def digit_value_def)

lemma digit_char_0: "digit_char 0 = CHR ''0''"
  by code_simp

text \<open>A decimal without superfluous zeros is the rendering of its value.\<close>

lemma read_digits_pos: "list_all is_digit s \<Longrightarrow> s \<noteq> [] \<Longrightarrow> hd s \<noteq> CHR ''0'' \<Longrightarrow> 0 < read_digits s"
proof (induction s rule: rev_induct)
  case (snoc d s)
  show ?case
  proof (cases "s = []")
    case True
    have "digit_value d \<noteq> 0"
    proof
      assume "digit_value d = 0"
      then have "digit_char 0 = d"
        using snoc.prems(1) digit_char_of_value [of d] by (simp del: digit_char.simps)
      then show False using snoc.prems(3) True by (simp add: digit_char_0 del: digit_char.simps)
    qed
    then show ?thesis using True by simp
  next
    case False
    then show ?thesis using snoc by simp
  qed
qed simp

lemma show_read_digits:
  "list_all is_digit s \<Longrightarrow> s \<noteq> [] \<Longrightarrow> length s = 1 \<or> hd s \<noteq> CHR ''0'' \<Longrightarrow> show_nat (read_digits s) = s"
proof (induction s rule: rev_induct)
  case (snoc d s)
  have d: "is_digit d" "digit_value d < 10" using snoc.prems(1) by (simp_all add: digit_value_less)
  show ?case
  proof (cases "s = []")
    case True
    then show ?thesis using d by (subst show_nat.simps) (simp del: digit_char.simps)
  next
    case False
    then have hd: "hd s \<noteq> CHR ''0''" using snoc.prems(3) by simp
    have all: "list_all is_digit s" using snoc.prems(1) by simp
    have "0 < read_digits s" by (rule read_digits_pos [OF all False hd])
    moreover have "show_nat (read_digits s) = s" by (rule snoc.IH [OF all False]) (simp add: hd)
    ultimately show ?thesis
      using d by (subst show_nat.simps) (simp del: digit_char.simps)
  qed
qed simp

lemma show_nat_no_leading_zero: "1 < length (show_nat n) \<Longrightarrow> hd (show_nat n) \<noteq> CHR ''0''"
proof (induction n rule: show_nat.induct)
  case (1 n)
  show ?case
  proof (cases "n < 10")
    case True
    then show ?thesis using "1.prems" by (subst (asm) show_nat.simps) simp
  next
    case False
    then have eq: "show_nat n = show_nat (n div 10) @ [digit_char (n mod 10)]" by (subst show_nat.simps) simp
    then have hd: "hd (show_nat n) = hd (show_nat (n div 10))" by simp
    show ?thesis
    proof (cases "n div 10 < 10")
      case True
      then have "hd (show_nat (n div 10)) = digit_char (n div 10)" by (subst show_nat.simps) simp
      moreover have "digit_char (n div 10) \<noteq> CHR ''0''"
      proof
        assume "digit_char (n div 10) = CHR ''0''"
        then have "digit_value (digit_char (n div 10)) = 0" by (simp only: digit_value_def) simp
        then show False using True False by (simp del: digit_char.simps)
      qed
      ultimately show ?thesis using hd by simp
    next
      case False2: False
      then have "1 < length (show_nat (n div 10))" by (subst show_nat.simps) simp
      then show ?thesis using "1.IH" [OF False] hd by simp
    qed
  qed
qed

lemma canonical_decimal_iff:
  assumes "hi < 2 ^ 64"
  shows "validate_canonical_decimal s 0 hi = Ok () \<longleftrightarrow> (\<exists>n \<le> hi. s = show_nat n)"
proof
  assume v: "validate_canonical_decimal s 0 hi = Ok ()"
  then have s: "s \<noteq> []" "list_all is_digit s" "read_digits s \<le> hi" "\<not> (1 < length s \<and> starts_with ''0'' s)"
    by (auto simp: validate_canonical_decimal_def Let_def split: if_splits)
  have "length s = 1 \<or> hd s \<noteq> CHR ''0''"
    using s(1,4) by (cases s) (auto simp: starts_with_def)
  then have "show_nat (read_digits s) = s" using s(1,2) by (intro show_read_digits)
  then show "\<exists>n \<le> hi. s = show_nat n" using s(3) by metis
next
  assume "\<exists>n \<le> hi. s = show_nat n"
  then obtain n where n: "n \<le> hi" "s = show_nat n" by blast
  have "list_all is_digit s" using show_nat_digits by (auto simp: n list_all_iff)
  moreover have "\<not> (1 < length s \<and> starts_with ''0'' s)"
    using show_nat_no_leading_zero [of n] by (cases s) (auto simp: n starts_with_def)
  ultimately show "validate_canonical_decimal s 0 hi = Ok ()"
    using n assms by (simp add: validate_canonical_decimal_def)
qed

lemma validate_clause_iff: "validate_clause s = Ok () \<longleftrightarrow> (\<exists>c. s = render_clause c \<and> clause_ok c)"
proof -
  have disj: "strip_prefix ''kind='' s = Some v \<Longrightarrow> strip_prefix ''created_at<'' s = None"
    "strip_prefix ''kind='' s = Some v \<Longrightarrow> strip_prefix ''created_at>'' s = None"
    "strip_prefix ''created_at<'' s = Some v \<Longrightarrow> strip_prefix ''created_at>'' s = None" for v
    by (auto simp: strip_prefix_Some) (auto simp: strip_prefix_def starts_with_def)
  have eq: "(\<exists>c. s = render_clause c \<and> clause_ok c) \<longleftrightarrow>
      (\<exists>n \<le> 65535. strip_prefix ''kind='' s = Some (show_nat n))
      \<or> (\<exists>n \<le> 4294967295. strip_prefix ''created_at<'' s = Some (show_nat n))
      \<or> (\<exists>n \<le> 4294967295. strip_prefix ''created_at>'' s = Some (show_nat n))" (is "?l \<longleftrightarrow> ?r")
  proof
    assume ?l
    then obtain c where "s = render_clause c" "clause_ok c" by blast
    then show ?r by (cases c) (auto simp: strip_prefix_Some)
  next
    assume ?r
    then show ?l
      by (auto simp: strip_prefix_Some
          intro: exI [of _ "KindIs n" for n] exI [of _ "Before n" for n] exI [of _ "After n" for n])
  qed
  show ?thesis
  proof (cases "strip_prefix ''kind='' s")
    case Some
    then show ?thesis
      by (auto simp: eq disj(1,2) [OF Some] validate_clause_def canonical_decimal_iff)
  next
    case kind: None
    show ?thesis
    proof (cases "strip_prefix ''created_at<'' s")
      case Some
      then show ?thesis by (auto simp: eq kind disj(3) [OF Some] validate_clause_def canonical_decimal_iff)
    next
      case None
      then show ?thesis
        by (cases "strip_prefix ''created_at>'' s") (auto simp: eq kind validate_clause_def canonical_decimal_iff)
    qed
  qed
qed

lemma render_clause_not_Nil [simp]: "render_clause c \<noteq> []" "[] \<noteq> render_clause c"
  by (cases c; simp)+

lemma validate_clauses_iff:
  "validate_clauses ss = Ok () \<longleftrightarrow> (\<exists>cs. ss = map render_clause cs \<and> list_all clause_ok cs)"
proof (induction ss)
  case (Cons s ss)
  have "validate_clauses (s # ss) = Ok () \<longleftrightarrow>
      (\<exists>c. s = render_clause c \<and> clause_ok c) \<and> (\<exists>cs. ss = map render_clause cs \<and> list_all clause_ok cs)"
    by (auto simp: Cons.IH validate_clause_iff)
  also have "\<dots> \<longleftrightarrow> (\<exists>cs. s # ss = map render_clause cs \<and> list_all clause_ok cs)"
  proof
    assume "(\<exists>c. s = render_clause c \<and> clause_ok c) \<and> (\<exists>cs. ss = map render_clause cs \<and> list_all clause_ok cs)"
    then obtain c cs where "s = render_clause c" "clause_ok c" "ss = map render_clause cs" "list_all clause_ok cs" by blast
    then show "\<exists>cs. s # ss = map render_clause cs \<and> list_all clause_ok cs" by (intro exI [of _ "c # cs"]) simp
  qed (auto simp: Cons_eq_map_conv)
  finally show ?case .
qed simp

lemma digit_char_range: "is_digit c \<Longrightarrow> c \<noteq> CHR ''&'' \<and> \<not> is_ascii_whitespace c"
  by (auto simp: is_digit_def is_ascii_whitespace_def)

lemma render_clause_chars: "c \<in> set (render_clause k) \<Longrightarrow> c \<noteq> CHR ''&'' \<and> \<not> is_ascii_whitespace c"
  by (cases k) (auto dest!: show_nat_digits digit_char_range simp: is_ascii_whitespace_def)

lemma join_with_chars: "c \<in> set (join_with d ss) \<Longrightarrow> c = d \<or> (\<exists>s \<in> set ss. c \<in> set s)"
  by (induction d ss rule: join_with.induct) auto

lemma validate_conditions_iff_aux:
  "validate_conditions s = Ok () \<longleftrightarrow> (\<exists>cs. s = render_conditions cs \<and> list_all clause_ok cs)"
proof
  assume v: "validate_conditions s = Ok ()"
  show "\<exists>cs. s = render_conditions cs \<and> list_all clause_ok cs"
  proof (cases "s = []")
    case True
    then show ?thesis by (intro exI [of _ "[]"]) (simp add: render_conditions_def)
  next
    case False
    then have "validate_clauses (split_on CHR ''&'' s) = Ok ()"
      using v by (simp add: validate_conditions_def split: if_splits)
    then obtain cs where "split_on CHR ''&'' s = map render_clause cs" "list_all clause_ok cs"
      by (auto simp: validate_clauses_iff)
    then show ?thesis by (metis join_split_on render_conditions_def)
  qed
next
  assume "\<exists>cs. s = render_conditions cs \<and> list_all clause_ok cs"
  then obtain cs where cs: "s = render_conditions cs" "list_all clause_ok cs" by blast
  show "validate_conditions s = Ok ()"
  proof (cases "cs = []")
    case True
    then show ?thesis by (simp add: cs render_conditions_def validate_conditions_def)
  next
    case False
    have "\<not> list_ex is_ascii_whitespace s"
      by (auto simp: cs render_conditions_def list_ex_iff is_ascii_whitespace_def
          dest!: join_with_chars render_clause_chars)
    moreover have "split_on CHR ''&'' s = map render_clause cs"
      unfolding cs render_conditions_def using False
      by (intro split_join_with) (auto dest: render_clause_chars)
    ultimately show ?thesis
      using cs(2) by (auto simp: validate_conditions_def validate_clauses_iff)
  qed
qed

text \<open>
  The conditions grammar. The validator accepts exactly the renderings of lists of clauses whose
  numbers are in range: nothing else is accepted and nothing well-formed is refused.
\<close>

theorem validate_conditions_iff:
  "validate_conditions s = Ok () \<longleftrightarrow> (\<exists>cs. s = render_conditions cs \<and> list_all clause_ok cs)"
  by (rule validate_conditions_iff_aux)

section \<open>Verification\<close>

definition attest_laws :: "('sk, 'sig, 'p) attest_lib \<Rightarrow> bool" where
  "attest_laws lib \<longleftrightarrow>
     (\<forall>ss. at_parse_json lib (at_print_tag lib ss) = Some (JArray (map JStr ss)))
     \<and> (\<forall>k. at_pubkey_from_hex lib (at_public lib k) = Some (at_public lib k)
            \<and> length (at_public lib k) = 64 \<and> list_all is_lowercase_hex_digit (at_public lib k))
     \<and> (\<forall>sig. at_sig_parse lib (at_sig_text lib sig) = Some sig
            \<and> length (at_sig_text lib sig) = 128 \<and> list_all is_lowercase_hex_digit (at_sig_text lib sig))
     \<and> (\<forall>k m. \<exists>p. at_xonly lib (at_public lib k) = Some p \<and> at_verify lib (at_sign lib k m) m p)"

lemma attest_lawsD:
  assumes "attest_laws lib"
  shows "at_parse_json lib (at_print_tag lib ss) = Some (JArray (map JStr ss))"
    "at_pubkey_from_hex lib (at_public lib k) = Some (at_public lib k)" "length (at_public lib k) = 64"
    "list_all is_lowercase_hex_digit (at_public lib k)"
    "at_sig_parse lib (at_sig_text lib sig) = Some sig" "length (at_sig_text lib sig) = 128"
    "list_all is_lowercase_hex_digit (at_sig_text lib sig)"
    "\<exists>p. at_xonly lib (at_public lib k) = Some p \<and> at_verify lib (at_sign lib k m) m p"
  using assms unfolding attest_laws_def by blast+

lemma verify_auth_tag_iff:
  "verify_auth_tag lib tag agent = Ok owner \<longleftrightarrow>
     (\<exists>owner_hex conditions sig_hex sig point.
        at_parse_json lib tag = Some (JArray [JStr ''auth'', JStr owner_hex, JStr conditions, JStr sig_hex])
        \<and> at_pubkey_from_hex lib owner_hex = Some owner \<and> validate_conditions conditions = Ok () \<and> owner \<noteq> agent
        \<and> at_sig_parse lib sig_hex = Some sig \<and> at_xonly lib owner = Some point
        \<and> at_verify lib sig (hash_preimage lib (build_preimage agent conditions)) point)" (is "?l \<longleftrightarrow> ?r")
proof
  assume l: ?l
  then obtain arr where arr: "at_parse_json lib tag = Some (JArray arr)"
    by (auto simp: verify_auth_tag_def parse_json_array_def split: option.splits json_text.splits)
  with l have "length arr = 4"
    by (auto simp: verify_auth_tag_def parse_json_array_def split: if_splits)
  then obtain a b c d where "arr = [a, b, c, d]"
    by (auto simp: length_Suc_conv numeral_eq_Suc)
  with l arr show ?r
    by (cases a; cases b; cases c; cases d)
      (auto simp: verify_auth_tag_def parse_json_array_def Let_def split: if_splits)
qed (auto simp: verify_auth_tag_def parse_json_array_def Let_def simp del: and_then_eq_Ok)

lemma attestation_verifies:
  assumes "attest_laws lib" "compute_auth_tag lib owner agent conditions = Ok tag"
  shows "verify_auth_tag lib tag agent = Ok (at_public lib owner)
    \<and> (\<exists>sig. parse_auth_tag lib tag = Ok [''auth'', at_public lib owner, conditions, sig])"
proof -
  let ?m = "hash_preimage lib (build_preimage agent conditions)"
  let ?sig = "at_sig_text lib (at_sign lib owner ?m)"
  from assms(2) have tag: "tag = at_print_tag lib [''auth'', at_public lib owner, conditions, ?sig]"
    and ok: "at_public lib owner \<noteq> agent" "validate_conditions conditions = Ok ()"
    by (auto simp: compute_auth_tag_def Let_def split: if_splits)
  obtain point where point: "at_xonly lib (at_public lib owner) = Some point" "at_verify lib (at_sign lib owner ?m) ?m point"
    using attest_lawsD(8) [OF assms(1)] by blast
  have "verify_auth_tag lib tag agent = Ok (at_public lib owner)"
    unfolding verify_auth_tag_iff using ok point
    by (simp add: tag attest_lawsD(1,2,5) [OF assms(1)])
  moreover have "parse_auth_tag lib tag = Ok [''auth'', at_public lib owner, conditions, ?sig]"
    using ok(2)
    by (simp add: parse_auth_tag_def parse_json_array_def tag attest_lawsD(1,3,4,6,7) [OF assms(1)] del: and_then_eq_Ok)
  ultimately show ?thesis by blast
qed

text \<open>
  Attestations verify. A tag that an owner computes for an agent verifies for that agent and names the
  owner, and the structural parser accepts it and keeps the four texts.
\<close>

theorem attestation_round_trip:
  assumes "attest_laws lib" "compute_auth_tag lib owner agent conditions = Ok tag"
  shows "verify_auth_tag lib tag agent = Ok (at_public lib owner)
    \<and> (\<exists>sig. parse_auth_tag lib tag = Ok [''auth'', at_public lib owner, conditions, sig])"
  by (rule attestation_verifies [OF assms])

end
