(* ===== verification/WsAuth.thy ===== *)
theory WsAuth
  imports AuthScope RateLimit OwnerAttestation
begin

text \<open>
  Authentication of a websocket connection: NIP-42 verification (\<open>crates/buzz-auth/src/nip42.rs\<close>, \<open>lib.rs\<close>),
  relay membership with owner attestations (\<open>crates/buzz-relay/src/api/mod.rs\<close>), the AUTH handler
  (\<open>handlers/auth.rs\<close>) and the admission of the messages of an authenticated connection (\<open>connection.rs\<close>).
  The database is the part of its tables that the handlers read and write, every query can fail.
  The messages of one connection are handled in order: the receive loop awaits the AUTH handler.
\<close>

section \<open>NIP-42\<close>

definition NIP42_KIND :: nat where "NIP42_KIND = 22242"

definition normalize_relay_url :: "'u http_lib \<Rightarrow> string \<Rightarrow> string" where
  "normalize_relay_url lib raw =
     (case hl_url_parse lib raw of
        None \<Rightarrow> raw
      | Some parsed \<Rightarrow>
          let parsed = (case hl_url_host lib parsed of
                          Some host \<Rightarrow> if host = ''localhost'' \<or> host = ''::1''
                                       then hl_url_set_host lib parsed ''127.0.0.1'' else parsed
                        | None \<Rightarrow> parsed)
          in hl_url_to_string lib (hl_url_set_path lib parsed (trim_end_slashes (hl_url_path lib parsed))))"

definition verify_nip42_event ::
  "'u http_lib \<Rightarrow> nat \<Rightarrow> nostr_event \<Rightarrow> string \<Rightarrow> string \<Rightarrow> auth_error + unit" where
  "verify_nip42_event lib now_ms event expected_challenge relay_url =
     (if ev_kind event \<noteq> NIP42_KIND then Err InvalidSignature
      else if \<not> is_ok (verify_event lib event) then Err InvalidSignature
      else case find_tag_content ''challenge'' (ev_tags event) of
        None \<Rightarrow> Err ChallengeMismatch
      | Some challenge \<Rightarrow>
          if challenge \<noteq> expected_challenge then Err ChallengeMismatch
          else (case find_tag_content ''relay'' (ev_tags event) of
            None \<Rightarrow> Err RelayUrlMismatch
          | Some relay \<Rightarrow>
              if normalize_relay_url lib relay \<noteq> normalize_relay_url lib relay_url then Err RelayUrlMismatch
              else if TIMESTAMP_TOLERANCE_SECS < abs_diff (now_ms div 1000) (ev_created_at event)
              then Err EventExpired
              else Ok ()))"

datatype auth_method = Nip42 | Nip98

record auth_context =
  ac_pubkey :: string
  ac_scopes :: "scope list"
  ac_channel_ids :: "uuid list option"
  ac_method :: auth_method
  ac_owner :: "string option"

definition has_scope :: "auth_context \<Rightarrow> scope \<Rightarrow> bool" where
  "has_scope ctx sc \<longleftrightarrow> sc \<in> set (ac_scopes ctx)"

text \<open>\<open>panicked\<close>: the blocking task that checks the signature died.\<close>

definition verify_auth_event ::
  "'u http_lib \<Rightarrow> bool \<Rightarrow> nat \<Rightarrow> nostr_event \<Rightarrow> string \<Rightarrow> string \<Rightarrow> auth_error + auth_context" where
  "verify_auth_event lib panicked now_ms auth_event expected_challenge relay_url =
     (if panicked then Err (Internal SpawnBlockingPanicked)
      else and_then (verify_nip42_event lib now_ms auth_event expected_challenge relay_url) (\<lambda>_.
        Ok \<lparr>ac_pubkey = ev_pubkey auth_event, ac_scopes = all_known, ac_channel_ids = None, ac_method = Nip42,
            ac_owner = None\<rparr>))"

section \<open>The relay's tables\<close>

text \<open>
  Bans, allowlist and members by community; a user row holds the owner of an agent, if set. The two caches
  remember confirmed owners. \<open>rs_authenticated\<close> is the connection manager's key per connection.
\<close>

record relay_state =
  rs_banned :: "(uuid \<times> string) list"
  rs_allowlist :: "(uuid \<times> string) list"
  rs_members :: "(uuid \<times> string) list"
  rs_users :: "(uuid \<times> string, string option) hmap"
  rs_author_cache :: "(uuid \<times> string) list"
  rs_owner_cache :: "(uuid \<times> string \<times> string) list"
  rs_authenticated :: "(uuid, string) hmap"

datatype db_call = BanOf string | AllowlistOf string | MemberOf string | EnsureUser string | SetOwner | IsOwner

record relay_config =
  rc_relay_url :: string
  rc_pubkey_allowlist_enabled :: bool
  rc_require_relay_membership :: bool
  rc_allow_nip_oa_auth :: bool
  rc_rate_limits :: rate_limit_config

definition db_query :: "(db_call \<Rightarrow> bool) \<Rightarrow> db_call \<Rightarrow> 'a \<Rightarrow> unit + 'a" where
  "db_query fails call answer = (if fails call then Err () else Ok answer)"

section \<open>Relay membership\<close>

datatype membership_decision = OpenRelay | Member | ViaOwner string | Denied

datatype membership_error = MembershipCheckFailed | OwnerCheckFailed

definition check_relay_membership ::
  "('sk, 'sig, 'p) attest_lib \<Rightarrow> relay_config \<Rightarrow> (db_call \<Rightarrow> bool) \<Rightarrow> relay_state \<Rightarrow> uuid \<Rightarrow> string \<Rightarrow> string option
     \<Rightarrow> membership_error + membership_decision" where
  "check_relay_membership alib cfg fails st community pubkey auth_tag =
     (if \<not> rc_require_relay_membership cfg then Ok OpenRelay
      else case db_query fails (MemberOf pubkey) ((community, pubkey) \<in> set (rs_members st)) of
        Inl _ \<Rightarrow> Err MembershipCheckFailed
      | Inr True \<Rightarrow> Ok Member
      | Inr False \<Rightarrow>
          if \<not> rc_allow_nip_oa_auth cfg then Ok Denied
          else (case auth_tag of
            None \<Rightarrow> Ok Denied
          | Some tag_json \<Rightarrow>
              (case verify_auth_tag alib tag_json pubkey of
                 Inl _ \<Rightarrow> Ok Denied
               | Inr owner \<Rightarrow>
                   (case db_query fails (MemberOf owner) ((community, owner) \<in> set (rs_members st)) of
                      Inl _ \<Rightarrow> Err OwnerCheckFailed
                    | Inr True \<Rightarrow> Ok (ViaOwner owner)
                    | Inr False \<Rightarrow> Ok Denied))))"

datatype membership_reject = MembershipRequired | MembershipInternal

definition enforce_relay_membership ::
  "('sk, 'sig, 'p) attest_lib \<Rightarrow> relay_config \<Rightarrow> (db_call \<Rightarrow> bool) \<Rightarrow> relay_state \<Rightarrow> uuid \<Rightarrow> string \<Rightarrow> string option
     \<Rightarrow> membership_reject + string option" where
  "enforce_relay_membership alib cfg fails st community pubkey auth_tag =
     (case check_relay_membership alib cfg fails st community pubkey auth_tag of
        Inr OpenRelay \<Rightarrow> Ok None
      | Inr Member \<Rightarrow> Ok None
      | Inr (ViaOwner owner) \<Rightarrow> Ok (Some owner)
      | Inr Denied \<Rightarrow> Err MembershipRequired
      | Inl _ \<Rightarrow> Err MembershipInternal)"

definition extract_nip_oa_owner :: "('sk, 'sig, 'p) attest_lib \<Rightarrow> string \<Rightarrow> string option \<Rightarrow> string option" where
  "extract_nip_oa_owner alib pubkey auth_tag =
     (case auth_tag of
        None \<Rightarrow> None
      | Some tag_json \<Rightarrow> (case verify_auth_tag alib tag_json pubkey of Inr owner \<Rightarrow> Some owner | Inl _ \<Rightarrow> None))"

text \<open>
  \<open>INSERT \<dots> ON CONFLICT DO NOTHING\<close>, the conditional \<open>UPDATE\<close> that sets an owner only when there is none
  (an error when the row is missing), and the comparison with the stored owner.
\<close>

definition ensure_user :: "uuid \<Rightarrow> string \<Rightarrow> relay_state \<Rightarrow> relay_state" where
  "ensure_user community pubkey st =
     (case map_of (rs_users st) (community, pubkey) of
        Some _ \<Rightarrow> st
      | None \<Rightarrow> st\<lparr>rs_users := AList.update (community, pubkey) None (rs_users st)\<rparr>)"

definition set_agent_owner :: "uuid \<Rightarrow> string \<Rightarrow> string \<Rightarrow> relay_state \<Rightarrow> relay_state \<times> (unit + bool)" where
  "set_agent_owner community agent owner st =
     (case map_of (rs_users st) (community, agent) of
        None \<Rightarrow> (st, Err ())
      | Some (Some _) \<Rightarrow> (st, Ok False)
      | Some None \<Rightarrow> (st\<lparr>rs_users := AList.update (community, agent) (Some owner) (rs_users st)\<rparr>, Ok True))"

definition is_agent_owner :: "uuid \<Rightarrow> string \<Rightarrow> string \<Rightarrow> relay_state \<Rightarrow> bool" where
  "is_agent_owner community agent owner st \<longleftrightarrow> map_of (rs_users st) (community, agent) = Some (Some owner)"

definition materialize_nip_oa_owner ::
  "(db_call \<Rightarrow> bool) \<Rightarrow> tenant_context \<Rightarrow> string \<Rightarrow> string \<Rightarrow> relay_state \<Rightarrow> relay_state \<times> bool" where
  "materialize_nip_oa_owner fails tenant agent owner st =
     (let c = tc_community tenant in
      if fails (EnsureUser agent) then (st, False)
      else let st = ensure_user c agent st in
      if fails (EnsureUser owner) then (st, False)
      else let st = ensure_user c owner st;
               (st, materialized) =
                 (if fails SetOwner then (st, False)
                  else case set_agent_owner c agent owner st of
                    (st, Inr True) \<Rightarrow> (st, True)
                  | (st, Inr False) \<Rightarrow> (st, \<not> fails IsOwner \<and> is_agent_owner c agent owner st)
                  | (st, Inl _) \<Rightarrow> (st, False))
           in if materialized
              then (st\<lparr>rs_author_cache := push_new (rs_author_cache st) (c, agent),
                       rs_owner_cache := push_new (rs_owner_cache st) (c, agent, owner)\<rparr>, True)
              else (st, False))"

section \<open>Connections\<close>

datatype auth_state = Pending string | Authenticated auth_context | Failed

datatype frame = OkFrame string bool string | ClosedFrame string string | NoticeFrame string

text \<open>What the outbound channel does with a frame.\<close>

datatype send_outcome = Sent | Full | Closed

record connection =
  cn_id :: uuid
  cn_tenant :: tenant_context
  cn_auth :: auth_state
  cn_sent :: "frame list"
  cn_control :: "frame list"
  cn_cancelled :: bool
  cn_backpressure :: u8
  cn_grace_limit :: u8

definition send_frame :: "send_outcome \<Rightarrow> frame \<Rightarrow> connection \<Rightarrow> connection \<times> bool" where
  "send_frame outcome f conn =
     (case outcome of
        Sent \<Rightarrow> (conn\<lparr>cn_sent := cn_sent conn @ [f], cn_backpressure := 0\<rparr>, True)
      | Full \<Rightarrow>
          (let count = cn_backpressure conn + 1
           in (conn\<lparr>cn_backpressure := count,
                    cn_cancelled := cn_cancelled conn \<or> cn_grace_limit conn \<le> count\<rparr>, False))
      | Closed \<Rightarrow> (conn, False))"

definition try_send_control :: "send_outcome \<Rightarrow> frame \<Rightarrow> connection \<Rightarrow> connection" where
  "try_send_control outcome f conn =
     (if outcome = Sent then conn\<lparr>cn_control := cn_control conn @ [f]\<rparr> else conn)"

section \<open>The AUTH handler\<close>

text \<open>The AUTH event, with its tags also as full lists of texts.\<close>

record auth_message =
  am_event :: nostr_event
  am_slices :: "string list list"

definition extract_auth_tag_json :: "('sk, 'sig, 'p) attest_lib \<Rightarrow> auth_message \<Rightarrow> string option" where
  "extract_auth_tag_json alib m =
     (case filter (\<lambda>t. t \<noteq> [] \<and> hd t = ''auth'') (am_slices m) of
        [t] \<Rightarrow> Some (at_print_tag alib t)
      | _ \<Rightarrow> None)"

text \<open>The clock, the failing queries and the channels of one handler run.\<close>

record handler_env =
  he_now :: nat
  he_panicked :: bool
  he_fails :: "db_call \<Rightarrow> bool"
  he_send :: send_outcome
  he_control :: send_outcome

datatype ban_outcome = BanClear | Banned | BanDbError

definition restriction_outcome :: "(db_call \<Rightarrow> bool) \<Rightarrow> relay_state \<Rightarrow> uuid \<Rightarrow> string \<Rightarrow> ban_outcome" where
  "restriction_outcome fails st community pubkey =
     (case db_query fails (BanOf pubkey) ((community, pubkey) \<in> set (rs_banned st)) of
        Inr True \<Rightarrow> Banned | Inr False \<Rightarrow> BanClear | Inl _ \<Rightarrow> BanDbError)"

definition ban_gate ::
  "('sk, 'sig, 'p) attest_lib \<Rightarrow> (db_call \<Rightarrow> bool) \<Rightarrow> relay_state \<Rightarrow> uuid \<Rightarrow> string \<Rightarrow> string option \<Rightarrow> ban_outcome" where
  "ban_gate alib fails st community pubkey auth_tag =
     (case restriction_outcome fails st community pubkey of
        BanClear \<Rightarrow>
          (case extract_nip_oa_owner alib pubkey auth_tag of
             Some owner \<Rightarrow> restriction_outcome fails st community owner
           | None \<Rightarrow> BanClear)
      | outcome \<Rightarrow> outcome)"

definition reply_failed :: "handler_env \<Rightarrow> string \<Rightarrow> string \<Rightarrow> connection \<Rightarrow> connection" where
  "reply_failed env event_id reason conn =
     fst (send_frame (he_send env) (OkFrame event_id False reason) (conn\<lparr>cn_auth := Failed\<rparr>))"

text \<open>The last stage: the owner, if any, is recorded, and the connection becomes authenticated.\<close>

definition conclude_auth ::
  "('sk, 'sig, 'p) attest_lib \<Rightarrow> relay_config \<Rightarrow> handler_env \<Rightarrow> string \<Rightarrow> string option \<Rightarrow> auth_context \<Rightarrow> string option
     \<Rightarrow> connection \<times> relay_state \<Rightarrow> connection \<times> relay_state" where
  "conclude_auth alib cfg env event_id auth_tag ctx via = (\<lambda>(conn, st).
     let pubkey = ac_pubkey ctx;
         nip_oa_owner =
           (case via of
              Some owner \<Rightarrow> Some owner
            | None \<Rightarrow> if \<not> rc_require_relay_membership cfg \<and> auth_tag \<noteq> None
                      then extract_nip_oa_owner alib pubkey auth_tag else None);
         (ctx, st) =
           (case nip_oa_owner of
              None \<Rightarrow> (ctx, st)
            | Some owner \<Rightarrow>
                (case materialize_nip_oa_owner (he_fails env) (cn_tenant conn) pubkey owner st of
                   (st, True) \<Rightarrow> (ctx\<lparr>ac_owner := Some owner\<rparr>, st)
                 | (st, False) \<Rightarrow> (ctx, st)))
     in (fst (send_frame (he_send env) (OkFrame event_id True []) (conn\<lparr>cn_auth := Authenticated ctx\<rparr>)),
         st\<lparr>rs_authenticated := AList.update (cn_id conn) pubkey (rs_authenticated st)\<rparr>))"

definition handle_auth ::
  "'u http_lib \<Rightarrow> ('sk, 'sig, 'p) attest_lib \<Rightarrow> relay_config \<Rightarrow> handler_env \<Rightarrow> auth_message
     \<Rightarrow> connection \<times> relay_state \<Rightarrow> connection \<times> relay_state" where
  "handle_auth lib alib cfg env m = (\<lambda>(conn, st).
     let event_id = ev_id (am_event m);
         refuse = (\<lambda>reason. (fst (send_frame (he_send env) (OkFrame event_id False reason) conn), st));
         fail = (\<lambda>reason. (reply_failed env event_id reason conn, st))
     in case cn_auth conn of
       Authenticated _ \<Rightarrow> refuse ''auth-required: already authenticated''
     | Failed \<Rightarrow> refuse ''auth-required: authentication already failed''
     | Pending challenge \<Rightarrow>
         let auth_tag = extract_auth_tag_json alib m;
             relay_url = nip42_expected_relay_url (rc_relay_url cfg) (cn_tenant conn);
             community = tc_community (cn_tenant conn)
         in case verify_auth_event lib (he_panicked env) (he_now env) (am_event m) challenge relay_url of
           Inl _ \<Rightarrow> fail ''auth-required: verification failed''
         | Inr ctx \<Rightarrow>
             let pubkey = ac_pubkey ctx;
                 deny = (\<lambda>reason. ((try_send_control (he_control env) (OkFrame event_id False reason)
                                      (conn\<lparr>cn_auth := Failed\<rparr>))\<lparr>cn_cancelled := True\<rparr>, st))
             in case ban_gate alib (he_fails env) st community pubkey auth_tag of
               Banned \<Rightarrow> deny ''blocked: you are banned from this community''
             | BanDbError \<Rightarrow> deny ''error: internal error checking restriction state''
             | BanClear \<Rightarrow>
                 if rc_pubkey_allowlist_enabled cfg \<and> ac_method ctx = Nip42
                    \<and> db_query (he_fails env) (AllowlistOf pubkey) ((community, pubkey) \<in> set (rs_allowlist st)) \<noteq> Ok True
                 then fail ''auth-required: verification failed''
                 else case enforce_relay_membership alib cfg (he_fails env) st community pubkey auth_tag of
                   Inl _ \<Rightarrow> fail ''restricted: not a relay member''
                 | Inr via \<Rightarrow> conclude_auth alib cfg env event_id auth_tag ctx via (conn, st))"

section \<open>Admission of messages\<close>

datatype client_message = AuthMsg | EventMsg | ReqMsg string | CountMsg string | CloseMsg string

definition request_rejection_message :: "string option \<Rightarrow> string \<Rightarrow> frame" where
  "request_rejection_message sub_id reason =
     (case sub_id of Some s \<Rightarrow> ClosedFrame s reason | None \<Rightarrow> NoticeFrame reason)"

definition send_admission_result ::
  "send_outcome \<Rightarrow> admission_error + unit \<Rightarrow> string option \<Rightarrow> connection \<Rightarrow> connection \<times> bool" where
  "send_admission_result outcome result sub_id conn =
     (case result of
        Inr _ \<Rightarrow> (conn, True)
      | Inl (Exceeded reset_in_secs) \<Rightarrow>
          (fst (send_frame outcome (request_rejection_message sub_id
             (''rate-limited: quota exceeded; retry in '' @ show_nat (unat reset_in_secs) @ ''s'')) conn), False)
      | Inl Unavailable \<Rightarrow>
          (fst (send_frame outcome (request_rejection_message sub_id ''rate-limited: shared admission unavailable'') conn),
           False))"

text \<open>\<open>limit1\<close> and \<open>limit2\<close> are the two calls of the shared limiter at their instants.\<close>

type_synonym limiter = "tenant_context \<Rightarrow> string \<Rightarrow> limit_type \<Rightarrow> u64 \<Rightarrow> u64 \<Rightarrow> redis \<Rightarrow> redis \<times> (auth_error + rate_limit_result)"

definition enforce_ws_admission ::
  "relay_config \<Rightarrow> limiter \<Rightarrow> limiter \<Rightarrow> send_outcome \<Rightarrow> client_message \<Rightarrow> connection \<times> redis
     \<Rightarrow> (connection \<times> redis) \<times> bool" where
  "enforce_ws_admission cfg limit1 limit2 outcome msg = (\<lambda>(conn, store).
     let is_event = (msg = EventMsg) in
     if \<not> is_event \<and> (case msg of ReqMsg _ \<Rightarrow> False | CountMsg _ \<Rightarrow> False | _ \<Rightarrow> True) then ((conn, store), True)
     else case cn_auth conn of
       Authenticated ctx \<Rightarrow>
         let limits = rc_rate_limits cfg;
             pubkey = ac_pubkey ctx;
             (window, ws_limit) = ws_admission_budget (human_ws_events_per_sec limits);
             (store, r) = check_principal limit1 (cn_tenant conn) pubkey WsEvents window ws_limit store;
             sub_id = (case msg of ReqMsg s \<Rightarrow> Some s | _ \<Rightarrow> None);
             (conn, ok) = send_admission_result outcome r sub_id conn
         in if \<not> ok then ((conn, store), False)
            else if is_event
            then (let message_limit = (if ac_owner ctx \<noteq> None then agent_standard_messages_per_min limits
                                       else human_messages_per_min limits);
                      (store, r) = check_principal limit2 (cn_tenant conn) pubkey Messages 60 message_limit store;
                      (conn, ok) = send_admission_result outcome r None conn
                  in ((conn, store), ok))
            else ((conn, store), True)
     | _ \<Rightarrow> ((conn, store), True))"

section \<open>Who may enter\<close>

definition nip42_valid :: "'u http_lib \<Rightarrow> nat \<Rightarrow> nostr_event \<Rightarrow> string \<Rightarrow> string \<Rightarrow> bool" where
  "nip42_valid lib now_ms ev challenge relay_url \<longleftrightarrow>
     ev_kind ev = NIP42_KIND \<and> hl_verify_id lib ev \<and> hl_verify_signature lib ev
     \<and> find_tag_content ''challenge'' (ev_tags ev) = Some challenge
     \<and> (\<exists>r. find_tag_content ''relay'' (ev_tags ev) = Some r
          \<and> normalize_relay_url lib r = normalize_relay_url lib relay_url)
     \<and> abs_diff (now_ms div 1000) (ev_created_at ev) \<le> TIMESTAMP_TOLERANCE_SECS"

lemma verify_nip42_ok_iff:
  "verify_nip42_event lib now_ms ev challenge relay_url = Ok () \<longleftrightarrow> nip42_valid lib now_ms ev challenge relay_url"
  by (auto simp: verify_nip42_event_def nip42_valid_def split: option.splits if_splits)

lemma verify_auth_event_ok_iff:
  "verify_auth_event lib panicked now_ms ev challenge relay_url = Ok ctx \<longleftrightarrow>
     \<not> panicked \<and> nip42_valid lib now_ms ev challenge relay_url
     \<and> ctx = \<lparr>ac_pubkey = ev_pubkey ev, ac_scopes = all_known, ac_channel_ids = None, ac_method = Nip42, ac_owner = None\<rparr>"
  by (auto simp: verify_auth_event_def verify_nip42_ok_iff)

text \<open>
  The policy, over the tables: neither the key nor its proven owner is banned, the allowlist names the key
  where it is in force, and a closed relay counts the key or, if attestations are allowed, its proven owner
  among the members. A query that fails counts against the key.
\<close>

definition may_enter ::
  "('sk, 'sig, 'p) attest_lib \<Rightarrow> relay_config \<Rightarrow> (db_call \<Rightarrow> bool) \<Rightarrow> relay_state \<Rightarrow> uuid \<Rightarrow> string \<Rightarrow> string option \<Rightarrow> bool" where
  "may_enter alib cfg fails st c pk auth_tag \<longleftrightarrow>
     (let owner = extract_nip_oa_owner alib pk auth_tag
      in \<not> fails (BanOf pk) \<and> (c, pk) \<notin> set (rs_banned st)
         \<and> (\<forall>o'. owner = Some o' \<longrightarrow> \<not> fails (BanOf o') \<and> (c, o') \<notin> set (rs_banned st))
         \<and> (rc_pubkey_allowlist_enabled cfg \<longrightarrow> \<not> fails (AllowlistOf pk) \<and> (c, pk) \<in> set (rs_allowlist st))
         \<and> (rc_require_relay_membership cfg \<longrightarrow> \<not> fails (MemberOf pk)
              \<and> ((c, pk) \<in> set (rs_members st)
                 \<or> rc_allow_nip_oa_auth cfg
                   \<and> (\<exists>o'. owner = Some o' \<and> \<not> fails (MemberOf o') \<and> (c, o') \<in> set (rs_members st)))))"

lemma ban_gate_clear_iff:
  "ban_gate alib fails st c pk tag = BanClear \<longleftrightarrow>
     \<not> fails (BanOf pk) \<and> (c, pk) \<notin> set (rs_banned st)
     \<and> (\<forall>o'. extract_nip_oa_owner alib pk tag = Some o' \<longrightarrow> \<not> fails (BanOf o') \<and> (c, o') \<notin> set (rs_banned st))"
  by (auto simp: ban_gate_def restriction_outcome_def db_query_def
      split: option.split sum.split bool.split ban_outcome.split)

lemma membership_ok_iff:
  "(\<exists>via. enforce_relay_membership alib cfg fails st c pk tag = Ok via) \<longleftrightarrow>
     (rc_require_relay_membership cfg \<longrightarrow> \<not> fails (MemberOf pk)
        \<and> ((c, pk) \<in> set (rs_members st)
           \<or> rc_allow_nip_oa_auth cfg
             \<and> (\<exists>o'. extract_nip_oa_owner alib pk tag = Some o' \<and> \<not> fails (MemberOf o') \<and> (c, o') \<in> set (rs_members st))))"
  by (auto simp: enforce_relay_membership_def check_relay_membership_def db_query_def extract_nip_oa_owner_def
      split: option.splits sum.splits bool.splits)

lemma membership_via:
  "enforce_relay_membership alib cfg fails st c pk tag = Ok (Some owner) \<Longrightarrow>
     extract_nip_oa_owner alib pk tag = Some owner"
  by (auto simp: enforce_relay_membership_def check_relay_membership_def db_query_def extract_nip_oa_owner_def
      split: option.splits sum.splits bool.splits if_splits membership_decision.splits)

lemma send_frame_auth [simp]:
  "cn_auth (fst (send_frame outcome f conn)) = cn_auth conn" "cn_id (fst (send_frame outcome f conn)) = cn_id conn"
  "cn_tenant (fst (send_frame outcome f conn)) = cn_tenant conn"
  by (cases outcome; simp add: send_frame_def Let_def)+

lemma try_send_control_sel [simp]:
  "cn_auth (try_send_control outcome f conn) = cn_auth conn" "cn_id (try_send_control outcome f conn) = cn_id conn"
  "cn_tenant (try_send_control outcome f conn) = cn_tenant conn"
  by (simp_all add: try_send_control_def)

lemma reply_failed_auth [simp]: "cn_auth (reply_failed env i r conn) = Failed"
  by (simp add: reply_failed_def)

lemma conclude_auth_state:
  "\<exists>owner. cn_auth (fst (conclude_auth alib cfg env i tag ctx via (conn, st))) = Authenticated (ctx\<lparr>ac_owner := owner\<rparr>)"
  if "ac_owner ctx = None"
proof -
  have "ctx\<lparr>ac_owner := None\<rparr> = ctx" using that by (cases ctx) simp
  then show ?thesis
    by (auto simp: conclude_auth_def Let_def split: option.split prod.split bool.split) (metis)+
qed

text \<open>The connection's relay URL and the tag of a message, as the handler computes them.\<close>

definition admitted_auth ::
  "'u http_lib \<Rightarrow> ('sk, 'sig, 'p) attest_lib \<Rightarrow> relay_config \<Rightarrow> handler_env \<Rightarrow> auth_message \<Rightarrow> string
     \<Rightarrow> tenant_context \<Rightarrow> relay_state \<Rightarrow> bool" where
  "admitted_auth lib alib cfg env m challenge tenant st \<longleftrightarrow>
     \<not> he_panicked env
     \<and> nip42_valid lib (he_now env) (am_event m) challenge (nip42_expected_relay_url (rc_relay_url cfg) tenant)
     \<and> may_enter alib cfg (he_fails env) st (tc_community tenant) (ev_pubkey (am_event m)) (extract_auth_tag_json alib m)"

lemma handle_auth_admitted:
  assumes "cn_auth conn = Pending challenge" "admitted_auth lib alib cfg env m challenge (cn_tenant conn) st"
  obtains via where
    "handle_auth lib alib cfg env m (conn, st) = conclude_auth alib cfg env (ev_id (am_event m))
       (extract_auth_tag_json alib m)
       \<lparr>ac_pubkey = ev_pubkey (am_event m), ac_scopes = all_known, ac_channel_ids = None, ac_method = Nip42,
        ac_owner = None\<rparr> via (conn, st)"
    "enforce_relay_membership alib cfg (he_fails env) st (tc_community (cn_tenant conn)) (ev_pubkey (am_event m))
       (extract_auth_tag_json alib m) = Ok via"
proof -
  let ?c = "tc_community (cn_tenant conn)" let ?pk = "ev_pubkey (am_event m)" let ?tag = "extract_auth_tag_json alib m"
  let ?url = "nip42_expected_relay_url (rc_relay_url cfg) (cn_tenant conn)"
  let ?ctx = "\<lparr>ac_pubkey = ?pk, ac_scopes = all_known, ac_channel_ids = None, ac_method = Nip42, ac_owner = None\<rparr>"
  have v: "verify_auth_event lib (he_panicked env) (he_now env) (am_event m) challenge ?url = Ok ?ctx"
    using assms(2) by (simp add: verify_auth_event_ok_iff admitted_auth_def)
  have b: "ban_gate alib (he_fails env) st ?c ?pk ?tag = BanClear"
    using assms(2) by (simp add: ban_gate_clear_iff admitted_auth_def may_enter_def Let_def)
  have al: "\<not> (rc_pubkey_allowlist_enabled cfg
      \<and> db_query (he_fails env) (AllowlistOf ?pk) ((?c, ?pk) \<in> set (rs_allowlist st)) \<noteq> Ok True)"
    using assms(2) by (auto simp: admitted_auth_def may_enter_def Let_def db_query_def)
  obtain via where mem: "enforce_relay_membership alib cfg (he_fails env) st ?c ?pk ?tag = Ok via"
    using assms(2) membership_ok_iff [of alib cfg "he_fails env" st ?c ?pk ?tag]
    unfolding admitted_auth_def may_enter_def Let_def by blast
  show ?thesis
    by (rule that [OF _ mem]) (use al in \<open>auto simp: handle_auth_def assms(1) Let_def v b mem\<close>)
qed

lemma handle_auth_refused:
  assumes "cn_auth conn = Pending challenge" "\<not> admitted_auth lib alib cfg env m challenge (cn_tenant conn) st"
  shows "cn_auth (fst (handle_auth lib alib cfg env m (conn, st))) = Failed
    \<and> snd (handle_auth lib alib cfg env m (conn, st)) = st"
proof -
  let ?c = "tc_community (cn_tenant conn)" let ?pk = "ev_pubkey (am_event m)" let ?tag = "extract_auth_tag_json alib m"
  let ?url = "nip42_expected_relay_url (rc_relay_url cfg) (cn_tenant conn)"
  show ?thesis
  proof (cases "verify_auth_event lib (he_panicked env) (he_now env) (am_event m) challenge ?url")
    case (Inl e)
    then show ?thesis by (simp add: handle_auth_def assms(1) Let_def)
  next
    case (Inr ctx)
    then have v: "\<not> he_panicked env" "nip42_valid lib (he_now env) (am_event m) challenge ?url"
      and ctx: "ac_pubkey ctx = ?pk" "ac_method ctx = Nip42"
      by (simp_all add: verify_auth_event_ok_iff)
    have no: "\<not> may_enter alib cfg (he_fails env) st ?c ?pk ?tag"
      using assms(2) v by (simp add: admitted_auth_def)
    show ?thesis
    proof (cases "ban_gate alib (he_fails env) st ?c ?pk ?tag")
      case BanClear
      have "(rc_pubkey_allowlist_enabled cfg
          \<and> db_query (he_fails env) (AllowlistOf ?pk) ((?c, ?pk) \<in> set (rs_allowlist st)) \<noteq> Ok True)
        \<or> (\<exists>e. enforce_relay_membership alib cfg (he_fails env) st ?c ?pk ?tag = Err e)"
        using no BanClear membership_ok_iff [of alib cfg "he_fails env" st ?c ?pk ?tag]
        unfolding may_enter_def Let_def ban_gate_clear_iff db_query_def
        by (cases "enforce_relay_membership alib cfg (he_fails env) st ?c ?pk ?tag") auto
      then show ?thesis
        by (auto simp: handle_auth_def assms(1) Let_def Inr ctx BanClear)
    qed (simp_all add: handle_auth_def assms(1) Let_def Inr ctx)
  qed
qed

lemma handle_auth_settled:
  assumes "\<And>ch. cn_auth conn \<noteq> Pending ch"
  shows "cn_auth (fst (handle_auth lib alib cfg env m (conn, st))) = cn_auth conn
    \<and> snd (handle_auth lib alib cfg env m (conn, st)) = st"
  using assms by (cases "cn_auth conn") (auto simp: handle_auth_def Let_def)

lemma ws_auth_decision_aux:
  "(if admitted_auth lib alib cfg env m challenge (cn_tenant conn) st
    then \<exists>owner. cn_auth (fst (handle_auth lib alib cfg env m (conn\<lparr>cn_auth := Pending challenge\<rparr>, st)))
           = Authenticated \<lparr>ac_pubkey = ev_pubkey (am_event m), ac_scopes = all_known, ac_channel_ids = None,
                            ac_method = Nip42, ac_owner = owner\<rparr>
    else cn_auth (fst (handle_auth lib alib cfg env m (conn\<lparr>cn_auth := Pending challenge\<rparr>, st))) = Failed)"
proof -
  let ?conn = "conn\<lparr>cn_auth := Pending challenge\<rparr>"
  have p: "cn_auth ?conn = Pending challenge" "cn_tenant ?conn = cn_tenant conn" by simp_all
  show ?thesis
  proof (cases "admitted_auth lib alib cfg env m challenge (cn_tenant conn) st")
    case True
    obtain via where h: "handle_auth lib alib cfg env m (?conn, st) = conclude_auth alib cfg env (ev_id (am_event m))
       (extract_auth_tag_json alib m)
       \<lparr>ac_pubkey = ev_pubkey (am_event m), ac_scopes = all_known, ac_channel_ids = None, ac_method = Nip42,
        ac_owner = None\<rparr> via (?conn, st)"
      by (rule handle_auth_admitted [OF p(1)]) (use True p(2) in simp_all)
    show ?thesis
      using True conclude_auth_state [where ctx = "\<lparr>ac_pubkey = ev_pubkey (am_event m), ac_scopes = all_known,
          ac_channel_ids = None, ac_method = Nip42, ac_owner = None\<rparr>" and conn = ?conn and st = st and via = via]
      unfolding h by fastforce
  next
    case False
    then show ?thesis using handle_auth_refused [OF p(1), of lib alib cfg env m st] by simp
  qed
qed

text \<open>
  C17 (websocket authentication). An AUTH message on a fresh connection authenticates it, as the key that
  signed the message and with all scopes, exactly when the message answers this connection's challenge for
  its own host within the time window and the key may enter the community; otherwise the connection fails.
\<close>

theorem ws_auth_decision:
  "(if admitted_auth lib alib cfg env m challenge (cn_tenant conn) st
    then \<exists>owner. cn_auth (fst (handle_auth lib alib cfg env m (conn\<lparr>cn_auth := Pending challenge\<rparr>, st)))
           = Authenticated \<lparr>ac_pubkey = ev_pubkey (am_event m), ac_scopes = all_known, ac_channel_ids = None,
                            ac_method = Nip42, ac_owner = owner\<rparr>
    else cn_auth (fst (handle_auth lib alib cfg env m (conn\<lparr>cn_auth := Pending challenge\<rparr>, st))) = Failed)"
  by (rule ws_auth_decision_aux)

text \<open>
  A run of the AUTH messages of one connection; between two of them other connections may change the tables
  in any way (\<open>others\<close>).
\<close>

definition auth_run ::
  "'u http_lib \<Rightarrow> ('sk, 'sig, 'p) attest_lib \<Rightarrow> relay_config
     \<Rightarrow> ((relay_state \<Rightarrow> relay_state) \<times> handler_env \<times> auth_message) list
     \<Rightarrow> connection \<times> relay_state \<Rightarrow> connection \<times> relay_state" where
  "auth_run lib alib cfg msgs =
     fold (\<lambda>(others, env, m) (conn, st). handle_auth lib alib cfg env m (conn, others st)) msgs"

lemma handle_auth_not_pending:
  "cn_auth (fst (handle_auth lib alib cfg env m (conn, st))) \<noteq> Pending ch"
proof (cases "\<exists>c. cn_auth conn = Pending c")
  case True
  then obtain c where c: "cn_auth conn = Pending c" by blast
  then have "conn\<lparr>cn_auth := Pending c\<rparr> = conn" by (cases conn) simp
  then show ?thesis
    using ws_auth_decision_aux [of lib alib cfg env m c conn st] by (auto split: if_splits)
qed (use handle_auth_settled [of conn lib alib cfg env m st] in auto)

text \<open>
  One decision per connection. The first AUTH message decides: whatever AUTH messages follow, and
  whatever happens to the tables in between, the state of the connection stays as that message left it.
\<close>

theorem auth_decided_once:
  "cn_auth (fst (auth_run lib alib cfg (msg # msgs) (conn, st))) = cn_auth (fst (auth_run lib alib cfg [msg] (conn, st)))"
proof -
  have stay: "cn_auth (fst (auth_run lib alib cfg msgs (c, s))) = cn_auth c" if "\<And>ch. cn_auth c \<noteq> Pending ch" for c s
    using that
  proof (induction msgs arbitrary: c s)
    case (Cons x xs)
    obtain others env m where x: "x = (others, env, m)" by (cases x) auto
    obtain c' s' where h: "handle_auth lib alib cfg env m (c, others s) = (c', s')" by fastforce
    then have "cn_auth c' = cn_auth c"
      using handle_auth_settled [of c lib alib cfg env m "others s"] Cons.prems by simp
    then show ?case using Cons.IH [of c' s'] Cons.prems by (simp add: auth_run_def x h)
  qed (simp add: auth_run_def)
  obtain others env m where msg: "msg = (others, env, m)" by (cases msg) auto
  obtain c' s' where h: "handle_auth lib alib cfg env m (conn, others st) = (c', s')" by fastforce
  have "cn_auth (fst (auth_run lib alib cfg msgs (c', s'))) = cn_auth c'"
    using handle_auth_not_pending [of lib alib cfg env m conn "others st"] by (intro stay) (simp add: h)
  then show ?thesis by (simp add: auth_run_def msg h)
qed

end
