(* ===== verification/AgentOwners.thy ===== *)
theory AgentOwners
  imports WsAuth HttpDoor
begin

text \<open>
  Owners of agents over the life of a relay: the AUTH handler (\<open>handlers/auth.rs\<close>), the HTTP bridge's backfill
  (\<open>api/bridge.rs\<close>) and moderation change the tables in any order; the owner of an agent is recorded once and
  every authenticated connection of the agent that carries an owner carries that one.
  The second part follows an attestation from the owner's key to the recorded owner.
\<close>

section \<open>Owner rows\<close>

lemma map_of_AList_update [simp]: "map_of (AList.update k v al) = (map_of al)(k \<mapsto> v)"
  by (rule update_conv')

lemma ensure_user_owner: "is_agent_owner c a o' st \<Longrightarrow> is_agent_owner c a o' (ensure_user c' p st)"
  by (auto simp: is_agent_owner_def ensure_user_def split: option.split)

lemma ensure_user_present: "map_of (rs_users (ensure_user c p st)) (c, p) \<noteq> None"
  by (auto simp: ensure_user_def split: option.split)

lemma ensure_user_keeps: "map_of (rs_users st) k = Some r \<Longrightarrow> map_of (rs_users (ensure_user c p st)) k = Some r"
  by (auto simp: ensure_user_def split: option.split)

lemma set_agent_owner_owner:
  "is_agent_owner c a o' st \<Longrightarrow> is_agent_owner c a o' (fst (set_agent_owner c' a' o2 st))"
  by (auto simp: is_agent_owner_def set_agent_owner_def split: option.split)

lemma set_agent_owner_True: "snd (set_agent_owner c a ow st) = Ok True \<Longrightarrow> is_agent_owner c a ow (fst (set_agent_owner c a ow st))"
  by (auto simp: is_agent_owner_def set_agent_owner_def split: option.splits)

lemma set_agent_owner_not_True: "snd (set_agent_owner c a ow st) \<noteq> Ok True \<Longrightarrow> fst (set_agent_owner c a ow st) = st"
  by (auto simp: set_agent_owner_def split: option.splits)

lemma is_agent_owner_caches [simp]:
  "is_agent_owner c a ow (st\<lparr>rs_author_cache := x, rs_owner_cache := y\<rparr>) = is_agent_owner c a ow st"
  "is_agent_owner c a ow (st\<lparr>rs_authenticated := z\<rparr>) = is_agent_owner c a ow st"
  by (simp_all add: is_agent_owner_def)

lemma materialize_keeps:
  assumes "is_agent_owner c a ow st"
  shows "is_agent_owner c a ow (fst (materialize_nip_oa_owner fails t a' o' st))"
proof -
  have "is_agent_owner c a ow (fst (set_agent_owner c' a' o' (ensure_user c' o' (ensure_user c' a' st))))" for c'
    by (intro set_agent_owner_owner ensure_user_owner assms)
  then show ?thesis
    using assms
    by (auto simp: materialize_nip_oa_owner_def Let_def ensure_user_owner split: prod.split sum.split bool.split)
      (metis ensure_user_owner fst_conv)+
qed

lemma materialize_True:
  assumes "snd (materialize_nip_oa_owner fails t a ow st)"
  shows "is_agent_owner (tc_community t) a ow (fst (materialize_nip_oa_owner fails t a ow st))"
  using assms set_agent_owner_True [of "tc_community t" a ow "ensure_user (tc_community t) ow (ensure_user (tc_community t) a st)"]
  by (auto simp: materialize_nip_oa_owner_def Let_def split: prod.splits sum.splits bool.splits if_splits)

text \<open>Authentication as a whole: no row changes its owner, and an owner in the context is the one on record.\<close>

lemma conclude_keeps:
  assumes "is_agent_owner c a ow st"
  shows "is_agent_owner c a ow (snd (conclude_auth alib cfg env i tag ctx via (conn, st)))"
  using materialize_keeps [OF assms]
  by (auto simp: conclude_auth_def Let_def assms split: option.split prod.split bool.split) (metis fst_conv)+

lemma conclude_owner:
  assumes "ac_owner ctx = None" "cn_auth (fst (conclude_auth alib cfg env i tag ctx via (conn, st))) = Authenticated ctx'"
    "ac_owner ctx' = Some ow"
  shows "is_agent_owner (tc_community (cn_tenant conn)) (ac_pubkey ctx') ow
           (snd (conclude_auth alib cfg env i tag ctx via (conn, st)))"
  using assms materialize_True [of "he_fails env" "cn_tenant conn" "ac_pubkey ctx" ow st]
  by (auto simp: conclude_auth_def Let_def split: option.splits prod.splits bool.splits)

lemma handle_auth_cases:
  assumes "cn_auth conn = Pending ch"
  obtains (refused) "cn_auth (fst (handle_auth lib alib cfg env m (conn, st))) = Failed"
      "snd (handle_auth lib alib cfg env m (conn, st)) = st"
  | (concluded) i tag ctx via where "ac_owner ctx = None"
      "handle_auth lib alib cfg env m (conn, st) = conclude_auth alib cfg env i tag ctx via (conn, st)"
proof (cases "admitted_auth lib alib cfg env m ch (cn_tenant conn) st")
  case True
  show ?thesis
    by (rule handle_auth_admitted [OF assms True]) (rule concluded, simp_all)
next
  case False
  then show ?thesis using handle_auth_refused [OF assms] refused by blast
qed

lemma conclude_tenant [simp]:
  "cn_tenant (fst (conclude_auth alib cfg env i tag ctx via (conn, st))) = cn_tenant conn"
  by (auto simp: conclude_auth_def Let_def split: option.split prod.split bool.split)

lemma handle_auth_tenant: "cn_tenant (fst (handle_auth lib alib cfg env m (conn, st))) = cn_tenant conn"
  by (auto simp: handle_auth_def Let_def reply_failed_def split: auth_state.split sum.split ban_outcome.split)

section \<open>The life of a relay\<close>

text \<open>
  A state is the tables with the contexts handed out so far. AUTH messages of fresh connections, the backfill
  of the HTTP bridge, new users and moderation (any change of bans, allowlist and members) happen in any order.
\<close>

type_synonym relay_log = "(uuid \<times> auth_context) list"

definition record_context :: "connection \<Rightarrow> relay_log \<Rightarrow> relay_log" where
  "record_context conn log =
     (case cn_auth conn of Authenticated ctx \<Rightarrow> (tc_community (cn_tenant conn), ctx) # log | _ \<Rightarrow> log)"

inductive relay_step ::
  "'u http_lib \<Rightarrow> ('sk, 'sig, 'p) attest_lib \<Rightarrow> relay_config \<Rightarrow> relay_state \<times> relay_log \<Rightarrow> relay_state \<times> relay_log \<Rightarrow> bool"
  for lib alib cfg where
  ws_auth: "cn_auth conn = Pending challenge \<Longrightarrow> handle_auth lib alib cfg env m (conn, st) = (conn', st')
    \<Longrightarrow> relay_step lib alib cfg (st, log) (st', record_context conn' log)"
| http_backfill: "materialize_nip_oa_owner fails tenant agent owner st = (st', ok)
    \<Longrightarrow> relay_step lib alib cfg (st, log) (st', log)"
| new_user: "relay_step lib alib cfg (st, log) (ensure_user c p st, log)"
| moderation: "relay_step lib alib cfg (st, log)
    (st\<lparr>rs_banned := bans, rs_allowlist := allow, rs_members := members\<rparr>, log)"

inductive_cases relay_stepE: "relay_step lib alib cfg (st, log) s'"

definition relay_reachable ::
  "'u http_lib \<Rightarrow> ('sk, 'sig, 'p) attest_lib \<Rightarrow> relay_config \<Rightarrow> relay_state \<Rightarrow> relay_state \<times> relay_log \<Rightarrow> bool" where
  "relay_reachable lib alib cfg st0 = (relay_step lib alib cfg)\<^sup>*\<^sup>* (st0, [])"

definition owners_recorded :: "relay_state \<times> relay_log \<Rightarrow> bool" where
  "owners_recorded = (\<lambda>(st, log). \<forall>(c, ctx) \<in> set log. \<forall>ow. ac_owner ctx = Some ow \<longrightarrow> is_agent_owner c (ac_pubkey ctx) ow st)"

lemma owners_recorded_mono:
  assumes "owners_recorded (st, log)" "\<And>c a ow. is_agent_owner c a ow st \<Longrightarrow> is_agent_owner c a ow st'"
  shows "owners_recorded (st', log)"
  using assms by (fastforce simp: owners_recorded_def)

lemma ws_auth_keeps:
  assumes "owners_recorded (st, log)" "cn_auth conn = Pending ch"
  shows "owners_recorded (snd (handle_auth lib alib cfg env m (conn, st)),
           record_context (fst (handle_auth lib alib cfg env m (conn, st))) log)"
  using assms(2)
proof (cases rule: handle_auth_cases [where lib = lib and alib = alib and cfg = cfg and env = env and m = m and st = st])
  case refused
  then show ?thesis using assms(1) by (simp add: record_context_def)
next
  case (concluded i tag ctx via)
  let ?r = "conclude_auth alib cfg env i tag ctx via (conn, st)"
  have log: "owners_recorded (snd ?r, log)"
    by (rule owners_recorded_mono [OF assms(1)]) (rule conclude_keeps)
  obtain ow where a: "cn_auth (fst ?r) = Authenticated (ctx\<lparr>ac_owner := ow\<rparr>)"
    using conclude_auth_state [OF concluded(1)] by blast
  have "is_agent_owner (tc_community (cn_tenant conn)) (ac_pubkey ctx) o' (snd ?r)" if "ow = Some o'" for o'
    using conclude_owner [OF concluded(1) a, of o'] that by simp
  then have "owners_recorded (snd ?r, (tc_community (cn_tenant conn), ctx\<lparr>ac_owner := ow\<rparr>) # log)"
    using log by (auto simp: owners_recorded_def)
  then show ?thesis by (simp add: concluded(2) record_context_def a)
qed

lemma relay_step_owners: "relay_step lib alib cfg s s' \<Longrightarrow> owners_recorded s \<Longrightarrow> owners_recorded s'"
proof (induction rule: relay_step.induct)
  case (ws_auth conn challenge env m st conn' st' log)
  then show ?case using ws_auth_keeps [OF ws_auth.prems ws_auth.hyps(1), of lib alib cfg env m] by simp
next
  case (http_backfill fails tenant agent owner st st' ok log)
  then show ?case
    by (intro owners_recorded_mono [OF http_backfill.prems]) (metis materialize_keeps fst_conv)
next
  case (new_user st log c p)
  then show ?case by (rule owners_recorded_mono) (rule ensure_user_owner)
next
  case (moderation st log bans allow members)
  then show ?case by (rule owners_recorded_mono) (simp add: is_agent_owner_def)
qed

lemma relay_reachable_owners: "relay_reachable lib alib cfg st0 s \<Longrightarrow> owners_recorded s"
  unfolding relay_reachable_def
proof (induction rule: rtranclp_induct)
  case base
  show ?case by (simp add: owners_recorded_def)
qed (rule relay_step_owners)

text \<open>
  C21 (one owner per agent). However authentications, backfills, new users and moderation interleave, two
  authenticated contexts of one key in one community never carry different owners: the first recorded
  owner of an agent stays its owner.
\<close>

theorem agent_owner_unique:
  assumes "relay_reachable lib alib cfg st0 (st, log)" "(c, ctx) \<in> set log" "(c, ctx') \<in> set log"
    "ac_pubkey ctx = ac_pubkey ctx'" "ac_owner ctx = Some ow" "ac_owner ctx' = Some ow'"
  shows "ow = ow' \<and> is_agent_owner c (ac_pubkey ctx) ow st"
proof -
  have rec: "is_agent_owner c (ac_pubkey x) o' st" if "(c, x) \<in> set log" "ac_owner x = Some o'" for x o'
    using relay_reachable_owners [OF assms(1)] that unfolding owners_recorded_def by blast
  show ?thesis
    using rec [OF assms(2,5)] rec [OF assms(3,6)] assms(4) by (simp add: is_agent_owner_def)
qed

section \<open>From an attestation to an authenticated agent\<close>

lemma enforce_via_owner:
  assumes "rc_require_relay_membership cfg" "rc_allow_nip_oa_auth cfg" "verify_auth_tag alib tag pk = Ok owner"
    "(c, pk) \<notin> set (rs_members st)" "(c, owner) \<in> set (rs_members st)"
  shows "enforce_relay_membership alib cfg (\<lambda>_. False) st c pk (Some tag) = Ok (Some owner)"
  using assms by (simp add: enforce_relay_membership_def check_relay_membership_def db_query_def)

lemma materialize_first:
  assumes "\<And>ow. is_agent_owner (tc_community t) a ow st \<Longrightarrow> ow = owner"
  shows "snd (materialize_nip_oa_owner (\<lambda>_. False) t a owner st)"
proof -
  let ?c = "tc_community t" let ?st = "ensure_user ?c owner (ensure_user ?c a st)"
  have row: "map_of (rs_users ?st) (?c, a) = Some None \<or> map_of (rs_users ?st) (?c, a) = Some (Some owner)"
  proof (cases "map_of (rs_users st) (?c, a)")
    case (Some r)
    then have "r = None \<or> r = Some owner" using assms by (cases r) (simp_all add: is_agent_owner_def)
    then show ?thesis using Some by (auto simp: ensure_user_def split: option.split)
  qed (auto simp: ensure_user_def split: option.split)
  then show ?thesis
    by (auto simp: materialize_nip_oa_owner_def Let_def set_agent_owner_def is_agent_owner_def)
qed

lemma conclude_via:
  assumes "snd (materialize_nip_oa_owner (he_fails env) (cn_tenant conn) (ac_pubkey ctx) owner st)"
  shows "cn_auth (fst (conclude_auth alib cfg env i tag ctx (Some owner) (conn, st))) = Authenticated (ctx\<lparr>ac_owner := Some owner\<rparr>)"
  using assms by (auto simp: conclude_auth_def Let_def split: prod.split bool.split)

lemma attested_agent_enters_aux:
  assumes "attest_laws alib" "cn_auth conn = Pending challenge" "c = tc_community (cn_tenant conn)"
    "pk = ev_pubkey (am_event m)" "\<not> he_panicked env" "he_fails env = (\<lambda>_. False)"
    "nip42_valid lib (he_now env) (am_event m) challenge (nip42_expected_relay_url (rc_relay_url cfg) (cn_tenant conn))"
    "rc_require_relay_membership cfg" "rc_allow_nip_oa_auth cfg" "\<not> rc_pubkey_allowlist_enabled cfg"
    "list_all clause_ok cs" "compute_auth_tag alib sk pk (render_conditions cs) = Ok tag"
    "extract_auth_tag_json alib m = Some tag"
    "(c, at_public alib sk) \<in> set (rs_members st)" "(c, pk) \<notin> set (rs_members st)"
    "(c, at_public alib sk) \<notin> set (rs_banned st)" "(c, pk) \<notin> set (rs_banned st)"
    "\<And>ow. is_agent_owner c pk ow st \<Longrightarrow> ow = at_public alib sk"
  shows "cn_auth (fst (handle_auth lib alib cfg env m (conn, st)))
    = Authenticated \<lparr>ac_pubkey = pk, ac_scopes = all_known, ac_channel_ids = None, ac_method = Nip42,
                     ac_owner = Some (at_public alib sk)\<rparr>"
proof -
  have tag: "verify_auth_tag alib tag pk = Ok (at_public alib sk)"
    using attestation_verifies [OF assms(1,12)] by blast
  have via: "enforce_relay_membership alib cfg (\<lambda>_. False) st c pk (Some tag) = Ok (Some (at_public alib sk))"
    by (rule enforce_via_owner [OF assms(8,9) tag assms(15,14)])
  have "may_enter alib cfg (\<lambda>_. False) st c pk (Some tag)"
    using assms(8-10,14-17) by (simp add: may_enter_def extract_nip_oa_owner_def tag)
  then have adm: "admitted_auth lib alib cfg env m challenge (cn_tenant conn) st"
    using assms(5-7,13) by (simp add: admitted_auth_def assms(3,4))
  have mat: "snd (materialize_nip_oa_owner (\<lambda>_. False) (cn_tenant conn) pk (at_public alib sk) st)"
    by (rule materialize_first) (use assms(3,18) in auto)
  show ?thesis
  proof (rule handle_auth_admitted [OF assms(2) adm])
    fix v
    assume h: "handle_auth lib alib cfg env m (conn, st) = conclude_auth alib cfg env (ev_id (am_event m))
       (extract_auth_tag_json alib m)
       \<lparr>ac_pubkey = ev_pubkey (am_event m), ac_scopes = all_known, ac_channel_ids = None, ac_method = Nip42,
        ac_owner = None\<rparr> v (conn, st)"
      and v: "enforce_relay_membership alib cfg (he_fails env) st (tc_community (cn_tenant conn)) (ev_pubkey (am_event m))
       (extract_auth_tag_json alib m) = Ok v"
    from v via have v: "v = Some (at_public alib sk)" by (simp add: assms(3,4,6,13))
    show ?thesis using mat unfolding h v by (subst conclude_via) (simp_all add: assms(4,6))
  qed
qed

text \<open>
  Attested agents get in. On a closed relay that accepts attestations and needs no allowlist entry, an
  agent that is no member itself and shows a tag computed by a member's key, neither of them banned and no
  other owner on record, is authenticated with that owner. This holds for every list of clauses in the
  tag: their timestamps are not compared with the event, although NIP-AA demands it.
\<close>

theorem attested_agent_enters:
  assumes "attest_laws alib" "cn_auth conn = Pending challenge" "c = tc_community (cn_tenant conn)"
    "pk = ev_pubkey (am_event m)" "\<not> he_panicked env" "he_fails env = (\<lambda>_. False)"
    "nip42_valid lib (he_now env) (am_event m) challenge (nip42_expected_relay_url (rc_relay_url cfg) (cn_tenant conn))"
    "rc_require_relay_membership cfg" "rc_allow_nip_oa_auth cfg" "\<not> rc_pubkey_allowlist_enabled cfg"
    "list_all clause_ok cs" "compute_auth_tag alib sk pk (render_conditions cs) = Ok tag"
    "extract_auth_tag_json alib m = Some tag"
    "(c, at_public alib sk) \<in> set (rs_members st)" "(c, pk) \<notin> set (rs_members st)"
    "(c, at_public alib sk) \<notin> set (rs_banned st)" "(c, pk) \<notin> set (rs_banned st)"
    "\<And>ow. is_agent_owner c pk ow st \<Longrightarrow> ow = at_public alib sk"
  shows "cn_auth (fst (handle_auth lib alib cfg env m (conn, st)))
    = Authenticated \<lparr>ac_pubkey = pk, ac_scopes = all_known, ac_channel_ids = None, ac_method = Nip42,
                     ac_owner = Some (at_public alib sk)\<rparr>"
  by (rule attested_agent_enters_aux [OF assms])

text \<open>A library of two keys, for the witness; the tag printer prefixes every character.\<close>

fun demo_print :: "string list \<Rightarrow> string" where
  "demo_print [] = []"
| "demo_print ([] # ss) = CHR '','' # demo_print ss"
| "demo_print ((c # s) # ss) = CHR ''.'' # c # demo_print (s # ss)"

fun demo_unprint :: "string \<Rightarrow> string \<Rightarrow> string list" where
  "demo_unprint acc (a # rest) =
     (if a = CHR '','' then rev acc # demo_unprint [] rest
      else case rest of c # rest' \<Rightarrow> demo_unprint (c # acc) rest' | [] \<Rightarrow> [])"
| "demo_unprint acc [] = []"

lemma demo_unprint_print: "demo_unprint acc (demo_print (s # ss)) = (rev acc @ s) # demo_unprint [] (demo_print ss)"
  by (induction s arbitrary: acc) simp_all

lemma demo_unprint_print_all: "demo_unprint [] (demo_print ss) = ss"
  by (induction ss) (simp_all add: demo_unprint_print)

definition demo_attest :: "(bool, bool, bool) attest_lib" where
  "demo_attest =
     \<lparr>at_parse_json = (\<lambda>s. Some (JArray (map JStr (demo_unprint [] s)))), at_print_tag = demo_print,
      at_public = (\<lambda>k. replicate 64 (if k then CHR ''a'' else CHR ''b'')), at_pubkey_from_hex = Some,
      at_xonly = (\<lambda>s. Some (hd s = CHR ''a'')), at_sha256 = (\<lambda>b. b), at_sign = (\<lambda>k _. k),
      at_sig_text = (\<lambda>k. replicate 128 (if k then CHR ''a'' else CHR ''b'')),
      at_sig_parse = (\<lambda>s. Some (hd s = CHR ''a'')), at_verify = (\<lambda>sig _ p. sig = p)\<rparr>"

lemma demo_attest_laws: "attest_laws demo_attest"
  by (auto simp: attest_laws_def demo_attest_def demo_unprint_print_all is_lowercase_hex_digit_def list_all_iff)

definition demo_agent_message :: auth_message where
  "demo_agent_message =
     \<lparr>am_event = \<lparr>ev_id = demo_event_id, ev_pubkey = replicate 64 CHR ''b'', ev_created_at = 1713957001, ev_kind = 22242,
        ev_tags = [\<lparr>tag_kind = ''relay'', tag_content = Some ''ws://relay.example''\<rparr>,
                   \<lparr>tag_kind = ''challenge'', tag_content = Some ''c1''\<rparr>], ev_content = []\<rparr>,
      am_slices = [[''auth'', replicate 64 CHR ''a'', render_conditions [Before 1713957000], replicate 128 CHR ''a'']]\<rparr>"

definition demo_closed_relay :: relay_config where
  "demo_closed_relay =
     \<lparr>rc_relay_url = ''ws://relay.example'', rc_pubkey_allowlist_enabled = False, rc_require_relay_membership = True,
      rc_allow_nip_oa_auth = True, rc_rate_limits = default_rate_limits\<rparr>"

definition demo_handler_env :: handler_env where
  "demo_handler_env = \<lparr>he_now = 1713957001000, he_panicked = False, he_fails = (\<lambda>_. False), he_send = Sent, he_control = Sent\<rparr>"

definition demo_tables :: relay_state where
  "demo_tables =
     \<lparr>rs_banned = [], rs_allowlist = [], rs_members = [(demo_community, replicate 64 CHR ''a'')], rs_users = [],
      rs_author_cache = [], rs_owner_cache = [], rs_authenticated = []\<rparr>"

definition demo_connection :: connection where
  "demo_connection =
     \<lparr>cn_id = demo_community, cn_tenant = demo_tenant, cn_auth = Pending ''c1'', cn_sent = [], cn_control = [],
      cn_cancelled = False, cn_backpressure = 0, cn_grace_limit = 3\<rparr>"

lemmas demo_auth_defs =
  demo_attest_def demo_agent_message_def demo_closed_relay_def demo_handler_env_def demo_tables_def demo_connection_def

lemma demo_expected_url: "nip42_expected_relay_url ''ws://relay.example'' demo_tenant = ''ws://relay.example''"
proof -
  have "trim_front white_space ''ws://relay.example'' = ''ws://relay.example''"
    by (rule trim_front_graphic) (auto simp: graphic_def)
  then have "\<not> tls_relay ''ws://relay.example''" by (simp add: tls_relay_def starts_with_def)
  then show ?thesis by (simp add: nip42_expected_relay_url_def demo_tenant_def)
qed

lemma demo_tag:
  "compute_auth_tag demo_attest True (replicate 64 CHR ''b'') (render_conditions [Before 1713957000])
     = Ok (demo_print [''auth'', replicate 64 CHR ''a'', render_conditions [Before 1713957000], replicate 128 CHR ''a''])"
proof -
  have "validate_conditions (render_conditions [Before 1713957000]) = Ok ()"
    by (auto simp: validate_conditions_iff_aux intro!: exI [of _ "[Before 1713957000]"])
  then show ?thesis by (simp add: compute_auth_tag_def demo_attest_def Let_def)
qed

lemma demo_nip42_valid:
  "nip42_valid (demo_http []) 1713957001000 (am_event demo_agent_message) ''c1''
     (nip42_expected_relay_url ''ws://relay.example'' demo_tenant)"
  by (simp add: nip42_valid_def demo_agent_message_def demo_http_def NIP42_KIND_def demo_expected_url
      find_tag_content_def abs_diff_le TIMESTAMP_TOLERANCE_SECS_def)

lemma demo_extract:
  "extract_auth_tag_json demo_attest demo_agent_message
     = Some (demo_print [''auth'', replicate 64 CHR ''a'', render_conditions [Before 1713957000], replicate 128 CHR ''a''])"
  by (simp add: extract_auth_tag_json_def demo_agent_message_def demo_attest_def)

lemma demo_keys_differ: "replicate 64 CHR ''a'' \<noteq> replicate 64 CHR ''b''"
  by (simp add: replicate_eq_replicate)

lemma demo_handler_valid:
  "nip42_valid (demo_http []) (he_now demo_handler_env) (am_event demo_agent_message) ''c1''
     (nip42_expected_relay_url (rc_relay_url demo_closed_relay) (cn_tenant demo_connection))"
  using demo_nip42_valid by (simp add: demo_handler_env_def demo_closed_relay_def demo_connection_def)

theorem attested_agent_enters_witness:
  "\<not> clause_admits_time (ev_created_at (am_event demo_agent_message)) (Before 1713957000)
   \<and> extract_auth_tag_json demo_attest demo_agent_message
       = Some (demo_print [''auth'', replicate 64 CHR ''a'', render_conditions [Before 1713957000], replicate 128 CHR ''a''])
   \<and> cn_auth (fst (handle_auth (demo_http []) demo_attest demo_closed_relay demo_handler_env demo_agent_message
        (demo_connection, demo_tables)))
     = Authenticated \<lparr>ac_pubkey = replicate 64 CHR ''b'', ac_scopes = all_known, ac_channel_ids = None,
         ac_method = Nip42, ac_owner = Some (replicate 64 CHR ''a'')\<rparr>"
proof -
  have "cn_auth (fst (handle_auth (demo_http []) demo_attest demo_closed_relay demo_handler_env demo_agent_message
        (demo_connection, demo_tables)))
     = Authenticated \<lparr>ac_pubkey = replicate 64 CHR ''b'', ac_scopes = all_known, ac_channel_ids = None,
         ac_method = Nip42, ac_owner = Some (at_public demo_attest True)\<rparr>"
    by (rule attested_agent_enters [OF demo_attest_laws _ refl _ _ _ demo_handler_valid _ _ _ _ demo_tag demo_extract])
      (use demo_keys_differ in \<open>simp_all add: demo_auth_defs demo_tenant_def is_agent_owner_def\<close>)
  then show ?thesis using demo_extract by (simp add: demo_agent_message_def demo_attest_def)
qed

definition demo_context :: auth_context where
  "demo_context = \<lparr>ac_pubkey = replicate 64 CHR ''b'', ac_scopes = all_known, ac_channel_ids = None,
     ac_method = Nip42, ac_owner = Some (at_public demo_attest True)\<rparr>"

theorem agent_owner_unique_witness:
  "\<exists>st. relay_reachable (demo_http []) demo_attest demo_closed_relay demo_tables (st, [(demo_community, demo_context)])
      \<and> is_agent_owner demo_community (replicate 64 CHR ''b'') (replicate 64 CHR ''a'') st"
proof -
  obtain conn st where h: "handle_auth (demo_http []) demo_attest demo_closed_relay demo_handler_env demo_agent_message
      (demo_connection, demo_tables) = (conn, st)" by fastforce
  have "cn_auth (fst (handle_auth (demo_http []) demo_attest demo_closed_relay demo_handler_env demo_agent_message
        (demo_connection, demo_tables))) = Authenticated demo_context"
    unfolding demo_context_def
    by (rule attested_agent_enters_aux [OF demo_attest_laws _ refl _ _ _ demo_handler_valid _ _ _ _ demo_tag demo_extract])
      (use demo_keys_differ in \<open>simp_all add: demo_auth_defs demo_tenant_def is_agent_owner_def\<close>)
  moreover have "cn_tenant conn = demo_tenant"
    using handle_auth_tenant [of "demo_http []" demo_attest demo_closed_relay demo_handler_env demo_agent_message
        demo_connection demo_tables] h by (simp add: demo_connection_def)
  ultimately have log: "record_context conn [] = [(demo_community, demo_context)]"
    using h by (simp add: record_context_def demo_tenant_def)
  have "relay_step (demo_http []) demo_attest demo_closed_relay (demo_tables, []) (st, record_context conn [])"
    by (rule relay_step.ws_auth [OF _ h]) (simp add: demo_connection_def)
  then have reach: "relay_reachable (demo_http []) demo_attest demo_closed_relay demo_tables
      (st, [(demo_community, demo_context)])"
    by (simp add: relay_reachable_def log)
  have "is_agent_owner demo_community (ac_pubkey demo_context) (at_public demo_attest True) st"
    using agent_owner_unique [OF reach, of demo_community demo_context demo_context "at_public demo_attest True"
        "at_public demo_attest True"] by (simp add: demo_context_def)
  then show ?thesis using reach by (auto simp: demo_context_def demo_attest_def)
qed

end
