(* ===== verification/RelayRoster.thy ===== *)
theory RelayRoster
  imports Tenant EventFilter
begin

text \<open>
  The relay's members and their roles (NIP-43): the \<open>relay_members\<close> table and its transactions
  (\<open>crates/buzz-db/src/relay_members.rs\<close>, the community rows of \<open>buzz-db/src/lib.rs\<close>), the admin commands of
  kinds 9030 to 9033 (\<open>buzz-relay/src/handlers/relay_admin.rs\<close>) and the member commands of \<open>buzz-admin\<close>.

  A single SQL statement, or a transaction that nobody can interleave with, is one step; a handler that reads first
  and writes later is two, and other sessions may act in between. The two transactions that change the owner of a
  community are in \<open>RosterTx\<close>, statement by statement. An operation is \<open>None\<close> where a constraint of the schema refuses
  it. \<open>db_fault\<close> says what the connection does: the statement fails, or it succeeds and its reply is lost.
  \<open>sql_lower\<close> is the database's \<open>lower\<close>, \<open>new_id\<close> the fresh UUID of an insert.
\<close>

section \<open>Tables\<close>

record relay_member =
  rm_role :: string
  rm_added_by :: "string option"
  rm_created_at :: nat
  rm_updated_at :: nat

record community_row =
  cy_host :: string
  cy_archived_at :: "nat option"
  cy_icon :: "string option"

record roster_db =
  rd_members :: "(uuid \<times> string, relay_member) hmap"
  rd_acceptances :: "(uuid \<times> string \<times> string) list"
  rd_communities :: "(uuid, community_row) hmap"

datatype db_fault = DbOk | DbFailed | DbLostReply

definition commit :: "db_fault \<Rightarrow> 's \<Rightarrow> ('s \<times> 'a) option \<Rightarrow> 's \<times> (unit + 'a)" where
  "commit fault st r =
     (case r of
        None \<Rightarrow> (st, Err ())
      | Some (st', a) \<Rightarrow>
          (case fault of DbOk \<Rightarrow> (st', Ok a) | DbFailed \<Rightarrow> (st, Err ()) | DbLostReply \<Rightarrow> (st', Err ())))"

abbreviation "owner_role \<equiv> ''owner''"
abbreviation "admin_role \<equiv> ''admin''"
abbreviation "member_role \<equiv> ''member''"

text \<open>The check constraint of the \<open>role\<close> column and the foreign key to \<open>communities\<close>.\<close>

definition row_allowed :: "uuid \<Rightarrow> string \<Rightarrow> roster_db \<Rightarrow> bool" where
  "row_allowed c role st \<longleftrightarrow> role \<in> {owner_role, admin_role, member_role} \<and> c \<in> fst ` set (rd_communities st)"

definition empty_roster :: roster_db where
  "empty_roster = \<lparr>rd_members = [], rd_acceptances = [], rd_communities = []\<rparr>"

section \<open>Member operations\<close>

definition get_relay_member :: "uuid \<Rightarrow> string \<Rightarrow> roster_db \<Rightarrow> relay_member option" where
  "get_relay_member c pk st = map_of (rd_members st) (c, pk)"

definition is_relay_member :: "uuid \<Rightarrow> string \<Rightarrow> roster_db \<Rightarrow> bool" where
  "is_relay_member c pk st \<longleftrightarrow> get_relay_member c pk st \<noteq> None"

definition add_relay_member ::
  "nat \<Rightarrow> uuid \<Rightarrow> string \<Rightarrow> string \<Rightarrow> string option \<Rightarrow> roster_db \<Rightarrow> (roster_db \<times> bool) option" where
  "add_relay_member now c pk role added_by st =
     (if \<not> row_allowed c role st then None
      else if is_relay_member c pk st then Some (st, False)
      else Some (st\<lparr>rd_members := AList.update (c, pk)
              \<lparr>rm_role = role, rm_added_by = added_by, rm_created_at = now, rm_updated_at = now\<rparr> (rd_members st)\<rparr>, True))"

definition claim_relay_membership ::
  "nat \<Rightarrow> uuid \<Rightarrow> string \<Rightarrow> string \<Rightarrow> string option \<Rightarrow> roster_db \<Rightarrow> (roster_db \<times> bool) option" where
  "claim_relay_membership now c pk role policy_version st =
     (case add_relay_member now c pk role (Some ''invite'') st of
        None \<Rightarrow> None
      | Some (st, inserted) \<Rightarrow>
          (case policy_version of
             None \<Rightarrow> Some (st, inserted)
           | Some v \<Rightarrow>
               if length v \<noteq> 64 then None
               else Some (st\<lparr>rd_acceptances := push_new (rd_acceptances st) (c, pk, v)\<rparr>, inserted)))"

definition has_join_policy_acceptance :: "uuid \<Rightarrow> string \<Rightarrow> string \<Rightarrow> roster_db \<Rightarrow> bool" where
  "has_join_policy_acceptance c pk v st \<longleftrightarrow> (c, pk, v) \<in> set (rd_acceptances st)"

text \<open>Deleting a member deletes its acceptances (\<open>ON DELETE CASCADE\<close>).\<close>

definition delete_member :: "uuid \<Rightarrow> string \<Rightarrow> roster_db \<Rightarrow> roster_db" where
  "delete_member c pk st =
     st\<lparr>rd_members := AList.delete (c, pk) (rd_members st),
        rd_acceptances := filter (\<lambda>(c', pk', _). (c', pk') \<noteq> (c, pk)) (rd_acceptances st)\<rparr>"

datatype remove_result = Removed | IsOwner | NotFound | RoleMismatch

text \<open>\<open>gap\<close> is what other sessions do between the \<open>DELETE\<close> and the read that explains why it hit no row.\<close>

definition remove_relay_member ::
  "(roster_db \<Rightarrow> roster_db) \<Rightarrow> uuid \<Rightarrow> string \<Rightarrow> roster_db \<Rightarrow> roster_db \<times> remove_result" where
  "remove_relay_member gap c pk st =
     (case get_relay_member c pk st of
        Some m \<Rightarrow>
          if rm_role m \<noteq> owner_role then (delete_member c pk st, Removed)
          else (gap st, if is_relay_member c pk (gap st) then IsOwner else NotFound)
      | None \<Rightarrow> (gap st, if is_relay_member c pk (gap st) then IsOwner else NotFound))"

definition remove_relay_member_if_role ::
  "(roster_db \<Rightarrow> roster_db) \<Rightarrow> uuid \<Rightarrow> string \<Rightarrow> string \<Rightarrow> roster_db \<Rightarrow> roster_db \<times> remove_result" where
  "remove_relay_member_if_role gap c pk expected_role st =
     (let missed = (gap st, case get_relay_member c pk (gap st) of
                              None \<Rightarrow> NotFound
                            | Some m \<Rightarrow> if rm_role m = owner_role then IsOwner else RoleMismatch)
      in case get_relay_member c pk st of
           Some m \<Rightarrow> if rm_role m = expected_role then (delete_member c pk st, Removed) else missed
         | None \<Rightarrow> missed)"

definition update_relay_member_role ::
  "nat \<Rightarrow> uuid \<Rightarrow> string \<Rightarrow> string \<Rightarrow> roster_db \<Rightarrow> (roster_db \<times> bool) option" where
  "update_relay_member_role now c pk new_role st =
     (case get_relay_member c pk st of
        None \<Rightarrow> Some (st, False)
      | Some m \<Rightarrow>
          if rm_role m = owner_role then Some (st, False)
          else if \<not> row_allowed c new_role st then None
          else Some (st\<lparr>rd_members := AList.update (c, pk) (m\<lparr>rm_role := new_role, rm_updated_at := now\<rparr>) (rd_members st)\<rparr>, True))"

section \<open>Ownership\<close>

definition owners_of :: "uuid \<Rightarrow> roster_db \<Rightarrow> string list" where
  "owners_of c st = map (snd \<circ> fst) (filter (\<lambda>(k, m). fst k = c \<and> rm_role m = owner_role) (rd_members st))"

definition owned_count :: "string \<Rightarrow> roster_db \<Rightarrow> nat" where
  "owned_count pk st = length (filter (\<lambda>(k, m). snd k = pk \<and> rm_role m = owner_role) (rd_members st))"

definition owner_row :: "nat \<Rightarrow> relay_member option \<Rightarrow> relay_member" where
  "owner_row now old =
     (case old of
        None \<Rightarrow> \<lparr>rm_role = owner_role, rm_added_by = None, rm_created_at = now, rm_updated_at = now\<rparr>
      | Some m \<Rightarrow> m\<lparr>rm_role := owner_role, rm_updated_at := now\<rparr>)"

definition upsert_owner :: "nat \<Rightarrow> uuid \<Rightarrow> string \<Rightarrow> roster_db \<Rightarrow> roster_db" where
  "upsert_owner now c pk st =
     st\<lparr>rd_members := AList.update (c, pk) (owner_row now (get_relay_member c pk st)) (rd_members st)\<rparr>"

definition MAX_COMMUNITIES_PER_OWNER :: nat where "MAX_COMMUNITIES_PER_OWNER = 3"

section \<open>Communities\<close>

definition community_of_host :: "(string \<Rightarrow> string) \<Rightarrow> string \<Rightarrow> roster_db \<Rightarrow> (uuid \<times> community_row) option" where
  "community_of_host sql_lower host st = find (\<lambda>(i, r). sql_lower (cy_host r) = sql_lower host) (rd_communities st)"

definition insert_community :: "uuid \<Rightarrow> string \<Rightarrow> roster_db \<Rightarrow> roster_db" where
  "insert_community new_id host st =
     st\<lparr>rd_communities := AList.update new_id \<lparr>cy_host = host, cy_archived_at = None, cy_icon = None\<rparr> (rd_communities st)\<rparr>"

datatype create_result = Created uuid string | HostExists | CreateLimitReached

definition owns_active :: "(string \<Rightarrow> string) \<Rightarrow> uuid \<Rightarrow> string \<Rightarrow> roster_db \<Rightarrow> bool" where
  "owns_active sql_lower c pk st \<longleftrightarrow> list_ex (\<lambda>p. sql_lower p = sql_lower pk) (owners_of c st)"

definition create_community_with_owner ::
  "(string \<Rightarrow> string) \<Rightarrow> nat \<Rightarrow> uuid \<Rightarrow> string \<Rightarrow> string \<Rightarrow> roster_db \<Rightarrow> (roster_db \<times> create_result) option" where
  "create_community_with_owner sql_lower now new_id host owner_pubkey st =
     (let pk = to_ascii_lowercase owner_pubkey
      in case community_of_host sql_lower host st of
           None \<Rightarrow>
             if new_id \<in> fst ` set (rd_communities st) \<or> is_relay_member new_id pk st then None
             else if MAX_COMMUNITIES_PER_OWNER \<le> owned_count pk st then Some (st, CreateLimitReached)
             else Some (upsert_owner now new_id pk (insert_community new_id host st), Created new_id host)
         | Some (i, r) \<Rightarrow>
             if owns_active sql_lower i pk st \<and> cy_archived_at r = None then Some (st, Created i (cy_host r))
             else Some (st, HostExists))"

definition ensure_configured_community ::
  "(string \<Rightarrow> string) \<Rightarrow> uuid \<Rightarrow> string \<Rightarrow> roster_db \<Rightarrow> (roster_db \<times> uuid \<times> string \<times> bool) option" where
  "ensure_configured_community sql_lower new_id host st =
     (case community_of_host sql_lower host st of
        None \<Rightarrow>
          if new_id \<in> fst ` set (rd_communities st) then None
          else Some (insert_community new_id host st, new_id, host, True)
      | Some (i, r) \<Rightarrow> Some (st, i, cy_host r, False))"

definition archive_community_owned_by ::
  "(string \<Rightarrow> string) \<Rightarrow> nat \<Rightarrow> string \<Rightarrow> string \<Rightarrow> string \<Rightarrow> roster_db \<Rightarrow> (roster_db \<times> (uuid \<times> string \<times> nat option) option) option" where
  "archive_community_owned_by sql_lower now host owner_pubkey protected_host st =
     (case community_of_host sql_lower host st of
        Some (i, r) \<Rightarrow>
          if owns_active sql_lower i owner_pubkey st \<and> sql_lower (cy_host r) \<noteq> sql_lower protected_host
          then let archived = (case cy_archived_at r of Some t \<Rightarrow> Some t | None \<Rightarrow> Some now)
               in Some (st\<lparr>rd_communities := AList.update i (r\<lparr>cy_archived_at := archived\<rparr>) (rd_communities st)\<rparr>,
                        Some (i, cy_host r, archived))
          else Some (st, None)
      | None \<Rightarrow> Some (st, None))"

definition unarchive_community_owned_by ::
  "(string \<Rightarrow> string) \<Rightarrow> string \<Rightarrow> string \<Rightarrow> roster_db \<Rightarrow> (roster_db \<times> (uuid \<times> string) option) option" where
  "unarchive_community_owned_by sql_lower host owner_pubkey st =
     (case community_of_host sql_lower host st of
        Some (i, r) \<Rightarrow>
          if owns_active sql_lower i owner_pubkey st
          then Some (st\<lparr>rd_communities := AList.update i (r\<lparr>cy_archived_at := None\<rparr>) (rd_communities st)\<rparr>,
                     Some (i, cy_host r))
          else Some (st, None)
      | None \<Rightarrow> Some (st, None))"

definition set_community_icon :: "uuid \<Rightarrow> string option \<Rightarrow> roster_db \<Rightarrow> (roster_db \<times> unit) option" where
  "set_community_icon c icon st =
     (case map_of (rd_communities st) c of
        None \<Rightarrow> Some (st, ())
      | Some r \<Rightarrow> Some (st\<lparr>rd_communities := AList.update c (r\<lparr>cy_icon := icon\<rparr>) (rd_communities st)\<rparr>, ()))"

text \<open>The rows of the old allowlist (\<open>None\<close>: no such table), each a key in hex and the instant it was added.\<close>

fun backfill_rows :: "nat \<Rightarrow> uuid \<Rightarrow> (string \<times> nat) list \<Rightarrow> roster_db \<Rightarrow> roster_db \<times> nat" where
  "backfill_rows now c [] st = (st, 0)"
| "backfill_rows now c ((pk, added_at) # rows) st =
     (if is_relay_member c pk st then backfill_rows now c rows st
      else let st = st\<lparr>rd_members := AList.update (c, pk)
                      \<lparr>rm_role = member_role, rm_added_by = None, rm_created_at = added_at, rm_updated_at = now\<rparr> (rd_members st)\<rparr>;
               (st, n) = backfill_rows now c rows st
           in (st, n + 1))"

definition backfill_from_allowlist ::
  "(roster_db \<Rightarrow> roster_db) \<Rightarrow> nat \<Rightarrow> (string \<times> nat) list option \<Rightarrow> uuid \<Rightarrow> roster_db \<Rightarrow> (roster_db \<times> nat) option" where
  "backfill_from_allowlist gap now allowlist c st =
     (case allowlist of
        None \<Rightarrow> Some (st, 0)
      | Some rows \<Rightarrow>
          if list_ex (\<lambda>(k, _). fst k = c) (rd_members st) then Some (st, 0)
          else if rows \<noteq> [] \<and> \<not> row_allowed c member_role (gap st) then None
          else Some (backfill_rows now c rows (gap st)))"

section \<open>Admin commands\<close>

text \<open>An event with its tags also as full lists of texts, as \<open>Tag::as_slice\<close> gives them.\<close>

record tagged_event =
  te_event :: nostr_event
  te_slices :: "string list list"

fun extract_p_tag_hex :: "string list list \<Rightarrow> string option" where
  "extract_p_tag_hex [] = None"
| "extract_p_tag_hex (t # ts) =
     (case t of
        name # val # _ \<Rightarrow>
          if name = ''p'' \<and> length val = 64 \<and> list_all is_ascii_hexdigit val then Some val else extract_p_tag_hex ts
      | _ \<Rightarrow> extract_p_tag_hex ts)"

fun extract_tag_value :: "string \<Rightarrow> string list list \<Rightarrow> string option" where
  "extract_tag_value name [] = None"
| "extract_tag_value name (t # ts) =
     (if t \<noteq> [] \<and> hd t = name then (case t of _ # v # _ \<Rightarrow> Some v | _ \<Rightarrow> None) else extract_tag_value name ts)"

text \<open>Control characters (U+0000 to U+001F and U+007F to U+009F) in UTF-8.\<close>

definition control_chars :: "string list" where
  "control_chars = map (\<lambda>n. [char_of (n :: nat)]) ([0..<32] @ [127]) @ map (\<lambda>n. [char_of (0xC2 :: nat), char_of n]) [128..<160]"

fun contains_any :: "string list \<Rightarrow> string \<Rightarrow> bool" where
  "contains_any ws [] = False"
| "contains_any ws (ch # s) = (list_ex (\<lambda>w. starts_with w (ch # s)) ws \<or> contains_any ws s)"

datatype icon_error = IconCharacters | IconDataTooLong nat | IconScheme | IconTooLong nat

definition validate_workspace_icon :: "string \<Rightarrow> icon_error + unit" where
  "validate_workspace_icon icon =
     (if icon = [] then Ok ()
      else if contains_any (control_chars @ white_space) icon then Err IconCharacters
      else if starts_with ''data:image/'' icon
      then if 98304 < length icon then Err (IconDataTooLong (length icon)) else Ok ()
      else if \<not> starts_with ''https://'' icon \<and> \<not> starts_with ''http://'' icon then Err IconScheme
      else if 2048 < length icon then Err (IconTooLong (length icon)) else Ok ())"

datatype admin_error =
    StaleTimestamp | DatabaseError | NotAuthorized | BadIcon icon_error | MissingTarget
  | RoleIsOwner | AdminGrant | InvalidRole string | RemoveSelf | RemovesOwner | MemberNotFound string
  | AdminRemovesStaff | OwnerOnly | ChangesSelf | MissingRole | ChangesOwner | UnexpectedKind nat

text \<open>
  Seconds are 64-bit: \<open>created_at\<close> is cast from \<open>u64\<close> to \<open>i64\<close>, and the subtraction and \<open>abs\<close> wrap in a
  release build, so the absolute value of the least number is itself.
\<close>

definition wrapping_abs :: "64 word \<Rightarrow> 64 word" where
  "wrapping_abs w = (if sint w < 0 then - w else w)"

definition admin_fresh :: "nat \<Rightarrow> nat \<Rightarrow> bool" where
  "admin_fresh created_at now \<longleftrightarrow> sint (wrapping_abs (word_of_nat created_at - word_of_nat now)) \<le> 120"

datatype admin_action =
    SetIcon string
  | AddMember string string
  | RemoveMember string bool
  | ChangeRole string string

definition staff :: "string \<Rightarrow> bool" where
  "staff role \<longleftrightarrow> role = admin_role \<or> role = owner_role"

text \<open>What the command asks for, decided on the role that the sender was read to have.\<close>

definition decide_admin_action :: "string \<Rightarrow> tagged_event \<Rightarrow> admin_error + admin_action" where
  "decide_admin_action sender_role ev =
     (let kind = ev_kind (te_event ev); sender = ev_pubkey (te_event ev) in
      if kind = 9033 then
        (if \<not> staff sender_role then Err NotAuthorized
         else let icon = (case extract_tag_value ''icon'' (te_slices ev) of Some i \<Rightarrow> i | None \<Rightarrow> [])
              in case validate_workspace_icon icon of Inl e \<Rightarrow> Err (BadIcon e) | Inr _ \<Rightarrow> Ok (SetIcon icon))
      else case extract_p_tag_hex (te_slices ev) of
        None \<Rightarrow> Err MissingTarget
      | Some p \<Rightarrow>
          let target = to_ascii_lowercase p in
          if kind = 9030 then
            (if \<not> staff sender_role then Err NotAuthorized
             else let role = (case extract_tag_value ''role'' (te_slices ev) of Some r \<Rightarrow> r | None \<Rightarrow> member_role) in
             if role = owner_role then Err RoleIsOwner
             else if role = admin_role \<and> sender_role \<noteq> owner_role then Err AdminGrant
             else if role \<noteq> admin_role \<and> role \<noteq> member_role then Err (InvalidRole role)
             else Ok (AddMember target role))
          else if kind = 9031 then
            (if \<not> staff sender_role then Err NotAuthorized
             else if target = sender then Err RemoveSelf
             else Ok (RemoveMember target (sender_role = admin_role)))
          else if kind = 9032 then
            (if sender_role \<noteq> owner_role then Err OwnerOnly
             else if target = sender then Err ChangesSelf
             else case extract_tag_value ''role'' (te_slices ev) of
               None \<Rightarrow> Err MissingRole
             | Some role \<Rightarrow>
                 if role = owner_role then Err RoleIsOwner
                 else if role \<noteq> admin_role \<and> role \<noteq> member_role then Err (InvalidRole role)
                 else Ok (ChangeRole target role))
          else Err (UnexpectedKind kind))"

text \<open>The first half of the handler, up to and including the read of the sender's role.\<close>

definition begin_admin_event ::
  "bool \<Rightarrow> nat \<Rightarrow> tenant_context \<Rightarrow> tagged_event \<Rightarrow> roster_db \<Rightarrow> admin_error + admin_action" where
  "begin_admin_event read_fails now tenant ev st =
     (if \<not> admin_fresh (ev_created_at (te_event ev)) now then Err StaleTimestamp
      else if read_fails then Err DatabaseError
      else decide_admin_action
        (case get_relay_member (tc_community tenant) (ev_pubkey (te_event ev)) st of Some m \<Rightarrow> rm_role m | None \<Rightarrow> []) ev)"

definition removed_reply :: "string \<Rightarrow> remove_result \<Rightarrow> admin_error + unit" where
  "removed_reply target result =
     (case result of
        Removed \<Rightarrow> Ok ()
      | IsOwner \<Rightarrow> Err RemovesOwner
      | NotFound \<Rightarrow> Err (MemberNotFound target)
      | RoleMismatch \<Rightarrow> Err AdminRemovesStaff)"

text \<open>The second half: the write, with the faults of its two queries and the gap between them.\<close>

definition finish_admin_event ::
  "db_fault \<Rightarrow> bool \<Rightarrow> (roster_db \<Rightarrow> roster_db) \<Rightarrow> nat \<Rightarrow> tenant_context \<Rightarrow> string \<Rightarrow> admin_action \<Rightarrow> roster_db
     \<Rightarrow> roster_db \<times> (admin_error + unit)" where
  "finish_admin_event fault read_fails gap now tenant sender action st =
     (let c = tc_community tenant in
      case action of
        SetIcon icon \<Rightarrow>
          (case commit fault st (set_community_icon c (if icon = [] then None else Some icon) st) of
             (st, Inl _) \<Rightarrow> (st, Err DatabaseError) | (st, Inr _) \<Rightarrow> (st, Ok ()))
      | AddMember target role \<Rightarrow>
          (case commit fault st (add_relay_member now c target role (Some sender) st) of
             (st, Inl _) \<Rightarrow> (st, Err DatabaseError) | (st, Inr _) \<Rightarrow> (st, Ok ()))
      | RemoveMember target as_admin \<Rightarrow>
          (case commit fault st (Some (if as_admin then remove_relay_member_if_role gap c target member_role st
                                       else remove_relay_member gap c target st)) of
             (st, Inl _) \<Rightarrow> (st, Err DatabaseError) | (st, Inr r) \<Rightarrow> (st, removed_reply target r))
      | ChangeRole target role \<Rightarrow>
          (case commit fault st (update_relay_member_role now c target role st) of
             (st, Inl _) \<Rightarrow> (st, Err DatabaseError)
           | (st, Inr True) \<Rightarrow> (st, Ok ())
           | (st, Inr False) \<Rightarrow>
               (gap st, if read_fails then Err DatabaseError
                        else if is_relay_member c target (gap st) then Err ChangesOwner
                        else Err (MemberNotFound target))))"

definition handle_relay_admin_event ::
  "bool \<Rightarrow> db_fault \<Rightarrow> bool \<Rightarrow> (roster_db \<Rightarrow> roster_db) \<Rightarrow> (roster_db \<Rightarrow> roster_db) \<Rightarrow> nat \<Rightarrow> tenant_context \<Rightarrow> tagged_event
     \<Rightarrow> roster_db \<Rightarrow> roster_db \<times> (admin_error + unit)" where
  "handle_relay_admin_event read1_fails fault read2_fails others gap now tenant ev st =
     (case begin_admin_event read1_fails now tenant ev st of
        Inl e \<Rightarrow> (st, Err e)
      | Inr action \<Rightarrow> finish_admin_event fault read2_fails gap now tenant (ev_pubkey (te_event ev)) action (others st))"

text \<open>The member commands of the operator's command line; a refused role or key never reaches the table.\<close>

definition validate_role :: "string \<Rightarrow> bool" where
  "validate_role role \<longleftrightarrow> role = member_role \<or> role = admin_role"

definition cmd_add_member :: "nat \<Rightarrow> (string \<Rightarrow> string option) \<Rightarrow> uuid \<Rightarrow> string \<Rightarrow> string \<Rightarrow> roster_db \<Rightarrow> (roster_db \<times> int) option" where
  "cmd_add_member now parse_pubkey c pubkey_arg role st =
     (if \<not> validate_role role then Some (st, 1)
      else case parse_pubkey pubkey_arg of
        None \<Rightarrow> Some (st, 1)
      | Some pk \<Rightarrow> (case add_relay_member now c pk role None st of
                       None \<Rightarrow> Some (st, 5) | Some (st, _) \<Rightarrow> Some (st, 0)))"

definition cmd_remove_member ::
  "(roster_db \<Rightarrow> roster_db) \<Rightarrow> (string \<Rightarrow> string option) \<Rightarrow> uuid \<Rightarrow> string \<Rightarrow> string option \<Rightarrow> roster_db \<Rightarrow> roster_db \<times> int" where
  "cmd_remove_member gap parse_pubkey c pubkey_arg role_filter st =
     (if (case role_filter of Some role \<Rightarrow> \<not> validate_role role | None \<Rightarrow> False) then (st, 1)
      else case parse_pubkey pubkey_arg of
        None \<Rightarrow> (st, 1)
      | Some pk \<Rightarrow>
          (let (st, result) = (case role_filter of
                                 Some role \<Rightarrow> remove_relay_member_if_role gap c pk role st
                               | None \<Rightarrow> remove_relay_member gap c pk st)
           in (st, case result of Removed \<Rightarrow> 0 | NotFound \<Rightarrow> 2 | IsOwner \<Rightarrow> 3 | RoleMismatch \<Rightarrow> 4)))"

section \<open>Roles after an operation\<close>

definition role_of :: "uuid \<Rightarrow> string \<Rightarrow> roster_db \<Rightarrow> string option" where
  "role_of c pk st = map_option rm_role (get_relay_member c pk st)"

definition owner_set :: "roster_db \<Rightarrow> (uuid \<times> string) set" where
  "owner_set st = {(c, pk). role_of c pk st = Some owner_role}"

text \<open>The constraints of the schema.\<close>

definition tables_ok :: "roster_db \<Rightarrow> bool" where
  "tables_ok st \<longleftrightarrow> hwf (rd_members st) \<and> hwf (rd_communities st)
     \<and> (\<forall>c pk m. get_relay_member c pk st = Some m \<longrightarrow> row_allowed c (rm_role m) st)"

lemma get_member_update [simp]:
  "get_relay_member c pk (st\<lparr>rd_members := AList.update (c', pk') m (rd_members st)\<rparr>)
     = (if (c, pk) = (c', pk') then Some m else get_relay_member c pk st)"
  by (simp add: get_relay_member_def hget_update)

lemma get_member_other [simp]:
  "get_relay_member c pk (st\<lparr>rd_communities := x\<rparr>) = get_relay_member c pk st"
  "get_relay_member c pk (st\<lparr>rd_acceptances := y\<rparr>) = get_relay_member c pk st"
  by (simp_all add: get_relay_member_def)

lemma get_delete_member [simp]:
  "get_relay_member c pk (delete_member c' pk' st) = (if (c, pk) = (c', pk') then None else get_relay_member c pk st)"
  by (simp add: get_relay_member_def delete_member_def hmap_simps)

lemma map_of_map_keyed: "map_of (map (\<lambda>(k, m). (k, f k m)) xs) k = map_option (f k) (map_of xs k)"
  by (induction xs) auto

lemma get_upsert [simp]:
  "get_relay_member c pk (upsert_owner now c' pk' st) =
     (if (c, pk) = (c', pk') then Some (owner_row now (get_relay_member c pk st)) else get_relay_member c pk st)"
  by (simp add: upsert_owner_def)

lemma owner_row_role [simp]: "rm_role (owner_row now old) = owner_role"
  by (simp add: owner_row_def split: option.split)

lemma get_insert_community [simp]: "get_relay_member c pk (insert_community i host st) = get_relay_member c pk st"
  by (simp add: insert_community_def)

lemma row_allowed_other [simp]:
  "row_allowed c role (st\<lparr>rd_members := x\<rparr>) = row_allowed c role st"
  "row_allowed c role (st\<lparr>rd_acceptances := y\<rparr>) = row_allowed c role st"
  "row_allowed c role (delete_member c' pk st) = row_allowed c role st"
  "row_allowed c role (upsert_owner now c' pk st) = row_allowed c role st"
  by (simp_all add: row_allowed_def delete_member_def upsert_owner_def)

lemma row_allowed_community_update [simp]:
  "row_allowed c role (st\<lparr>rd_communities := AList.update i r (rd_communities st)\<rparr>)
     \<longleftrightarrow> row_allowed c role st \<or> c = i \<and> role \<in> {owner_role, admin_role, member_role}"
  by (auto simp: row_allowed_def AList.dom_update)

lemma hwf_map_keyed: "hwf m \<Longrightarrow> hwf (map (\<lambda>(k, v). (k, f k v)) m)"
  by (simp add: hwf_def comp_def case_prod_unfold)

lemma tables_okI_members:
  assumes "tables_ok st" "hwf (rd_members st')" "rd_communities st' = rd_communities st"
    "\<And>c pk m. get_relay_member c pk st' = Some m \<Longrightarrow>
       (\<exists>m0. get_relay_member c pk st = Some m0 \<and> rm_role m0 = rm_role m) \<or> row_allowed c (rm_role m) st"
  shows "tables_ok st'"
  using assms unfolding tables_ok_def row_allowed_def by metis

text \<open>\<open>quiet\<close>: the constraints still hold, no community is gone, and nobody became or ceased to be an owner.\<close>

definition quiet :: "roster_db \<Rightarrow> roster_db \<Rightarrow> bool" where
  "quiet st st' \<longleftrightarrow> tables_ok st' \<and> owner_set st' = owner_set st
     \<and> fst ` set (rd_communities st) \<subseteq> fst ` set (rd_communities st')"

lemma quiet_refl [simp]: "tables_ok st \<Longrightarrow> quiet st st"
  by (simp add: quiet_def)

lemma quietI:
  assumes "tables_ok st'" "\<And>c pk. role_of c pk st' = Some owner_role \<longleftrightarrow> role_of c pk st = Some owner_role"
    "fst ` set (rd_communities st) \<subseteq> fst ` set (rd_communities st')"
  shows "quiet st st'"
  using assms by (simp add: quiet_def owner_set_def)

lemma quiet_put:
  assumes "tables_ok st" "row_allowed c (rm_role m) st" "rm_role m \<noteq> owner_role" "role_of c pk st \<noteq> Some owner_role"
  shows "quiet st (st\<lparr>rd_members := AList.update (c, pk) m (rd_members st)\<rparr>)"
proof (rule quietI)
  show "tables_ok (st\<lparr>rd_members := AList.update (c, pk) m (rd_members st)\<rparr>)"
    using assms(1,2) by (auto intro!: tables_okI_members [OF assms(1)] simp: tables_ok_def split: if_splits)
qed (use assms(3,4) in \<open>auto simp: role_of_def\<close>)

lemma quiet_add:
  assumes "add_relay_member now c pk role by st = Some (st', b)" "role \<noteq> owner_role" "tables_ok st"
  shows "quiet st st'"
  using assms by (auto simp: add_relay_member_def is_relay_member_def role_of_def split: if_splits intro!: quiet_put)

lemma quiet_acceptance: "quiet st st' \<Longrightarrow> quiet st (st'\<lparr>rd_acceptances := xs\<rparr>)"
  by (simp add: quiet_def tables_ok_def owner_set_def role_of_def)

lemma quiet_claim:
  assumes "claim_relay_membership now c pk role v st = Some (st', b)" "role \<noteq> owner_role" "tables_ok st"
  shows "quiet st st'"
  using assms
  by (auto simp: claim_relay_membership_def split: option.splits if_splits prod.splits
      intro: quiet_acceptance dest: quiet_add)

lemma hwf_delete_member: "hwf (rd_members st) \<Longrightarrow> hwf (rd_members (delete_member c pk st))"
  by (simp add: delete_member_def hwf_delete)

lemma delete_member_communities [simp]: "rd_communities (delete_member c pk st) = rd_communities st"
  by (simp add: delete_member_def)

lemma quiet_delete:
  assumes "tables_ok st" "role_of c pk st \<noteq> Some owner_role" shows "quiet st (delete_member c pk st)"
proof (rule quietI)
  show "tables_ok (delete_member c pk st)"
    using assms(1)
    by (auto intro!: tables_okI_members [OF assms(1)] hwf_delete_member simp: tables_ok_def split: if_splits)
qed (use assms(2) in \<open>auto simp: role_of_def\<close>)

lemma quiet_remove:
  assumes "tables_ok st" shows "quiet st (fst (remove_relay_member (\<lambda>s. s) c pk st))"
  using assms by (auto simp: remove_relay_member_def role_of_def split: option.split intro!: quiet_delete)

lemma quiet_remove_if_role:
  assumes "tables_ok st" "role \<noteq> owner_role"
  shows "quiet st (fst (remove_relay_member_if_role (\<lambda>s. s) c pk role st))"
  using assms by (auto simp: remove_relay_member_if_role_def role_of_def Let_def split: option.split intro!: quiet_delete)

lemma quiet_update_role:
  assumes "update_relay_member_role now c pk role st = Some (st', b)" "role \<noteq> owner_role" "tables_ok st"
  shows "quiet st st'"
  using assms
  by (auto simp: update_relay_member_role_def role_of_def split: option.splits if_splits intro!: quiet_put)

lemma quiet_community:
  assumes "tables_ok st" shows "quiet st (st\<lparr>rd_communities := AList.update i r (rd_communities st)\<rparr>)"
proof (rule quietI)
  show "tables_ok (st\<lparr>rd_communities := AList.update i r (rd_communities st)\<rparr>)"
    using assms by (auto simp: tables_ok_def row_allowed_def AList.dom_update)
qed (simp_all add: role_of_def AList.dom_update subset_insertI)

lemma quiet_backfill_rows:
  assumes "tables_ok st" "row_allowed c member_role st" shows "quiet st (fst (backfill_rows now c rows st))"
  using assms
proof (induction now c rows st rule: backfill_rows.induct)
  case (2 now c pk added_at rows st)
  show ?case
  proof (cases "is_relay_member c pk st")
    case True
    then show ?thesis using "2.IH"(1) "2.prems" by simp
  next
    case False
    let ?st = "st\<lparr>rd_members := AList.update (c, pk)
      \<lparr>rm_role = member_role, rm_added_by = None, rm_created_at = added_at, rm_updated_at = now\<rparr> (rd_members st)\<rparr>"
    have "quiet st ?st"
      using "2.prems" False by (intro quiet_put) (auto simp: role_of_def is_relay_member_def)
    moreover from this have "quiet ?st (fst (backfill_rows now c rows ?st))"
      using "2.IH"(2) [OF False refl] "2.prems" by (simp add: quiet_def)
    ultimately show ?thesis using False by (simp add: quiet_def Let_def case_prod_unfold)
  qed
qed simp

lemma quiet_commit:
  assumes "tables_ok st" "\<And>st' a. r = Some (st', a) \<Longrightarrow> quiet st st'" shows "quiet st (fst (commit fault st r))"
  using assms by (auto simp: commit_def split: option.split db_fault.split)

lemma tables_ok_upsert:
  assumes "tables_ok st" "row_allowed c owner_role st" shows "tables_ok (upsert_owner now c pk st)"
  using assms
  by (intro tables_okI_members [OF assms(1)]) (auto simp: upsert_owner_def tables_ok_def split: if_splits option.splits)

lemma role_upsert [simp]:
  "role_of c pk (upsert_owner now c' pk' st) = (if (c, pk) = (c', pk') then Some owner_role else role_of c pk st)"
  by (simp add: role_of_def split: option.split)

lemma owner_set_upsert: "owner_set (upsert_owner now c pk st) = insert (c, pk) (owner_set st)"
  by (auto simp: owner_set_def split: if_splits)

lemma owner_set_insert_community [simp]: "owner_set (insert_community i host st) = owner_set st"
  by (simp add: owner_set_def role_of_def)

lemma owner_set_community: "tables_ok st \<Longrightarrow> (c, pk) \<in> owner_set st \<Longrightarrow> c \<in> fst ` set (rd_communities st)"
  by (auto simp: owner_set_def role_of_def tables_ok_def row_allowed_def)

lemma set_owners_of: "tables_ok st \<Longrightarrow> set (owners_of c st) = {pk. (c, pk) \<in> owner_set st}"
  by (force simp: owners_of_def owner_set_def role_of_def tables_ok_def get_relay_member_def hwf_map_of_iff
      image_iff split: option.splits)

lemma distinct_owners_of: "tables_ok st \<Longrightarrow> distinct (owners_of c st)"
proof -
  let ?rows = "filter (\<lambda>(k, m). fst k = c \<and> rm_role m = owner_role) (rd_members st)"
  assume "tables_ok st"
  then have "distinct (map fst ?rows)" by (simp add: tables_ok_def hwf_def distinct_map_filter)
  moreover have "inj_on snd (fst ` set ?rows)" by (auto simp: inj_on_def)
  ultimately show ?thesis by (simp add: owners_of_def distinct_map comp_inj_on)
qed

lemma distinct_singleton: "distinct xs \<Longrightarrow> set xs = {x} \<Longrightarrow> xs = [x]"
  by (cases xs; cases "tl xs") auto

lemma owned_count_card:
  assumes "tables_ok st" shows "owned_count pk st = card {c. (c, pk) \<in> owner_set st}"
proof -
  let ?rows = "filter (\<lambda>(k, m). snd k = pk \<and> rm_role m = owner_role) (rd_members st)"
  have "{c. (c, pk) \<in> owner_set st} = fst ` fst ` set ?rows"
    using assms
    by (force simp: owner_set_def role_of_def tables_ok_def get_relay_member_def hwf_map_of_iff image_iff)
  moreover have "distinct (map (fst \<circ> fst) ?rows)"
  proof -
    have "distinct (map fst ?rows)" using assms by (simp add: tables_ok_def hwf_def distinct_map_filter)
    moreover have "inj_on fst (fst ` set ?rows)" by (auto simp: inj_on_def)
    ultimately show ?thesis by (simp add: distinct_map comp_inj_on)
  qed
  ultimately show ?thesis
    by (metis (no_types, lifting) owned_count_def distinct_card image_comp length_map list.set_map)
qed

section \<open>What an admin command may change\<close>

text \<open>The permission matrix, for a row of key \<open>pk\<close> and a sender that was read to have role \<open>r\<close>.\<close>

definition permitted_change ::
  "string \<Rightarrow> string \<Rightarrow> string \<Rightarrow> relay_member option \<Rightarrow> relay_member option \<Rightarrow> bool" where
  "permitted_change r sender pk old new =
     (case (old, new) of
        (None, Some m) \<Rightarrow> staff r \<and> rm_added_by m = Some sender
          \<and> (rm_role m = member_role \<or> rm_role m = admin_role \<and> r = owner_role)
      | (Some m, None) \<Rightarrow> pk \<noteq> sender \<and> staff r
          \<and> (rm_role m = member_role \<or> rm_role m \<noteq> owner_role \<and> r = owner_role)
      | (Some m, Some m') \<Rightarrow> r = owner_role \<and> pk \<noteq> sender \<and> rm_role m \<noteq> owner_role
          \<and> rm_role m' \<in> {admin_role, member_role} \<and> rm_added_by m' = rm_added_by m
      | (None, None) \<Rightarrow> False)"

lemma finish_admin_state:
  "fst (finish_admin_event fault fails (\<lambda>s. s) now tenant sender action st) =
     (let c = tc_community tenant in
      case action of
        SetIcon icon \<Rightarrow> fst (commit fault st (set_community_icon c (if icon = [] then None else Some icon) st))
      | AddMember target role \<Rightarrow> fst (commit fault st (add_relay_member now c target role (Some sender) st))
      | RemoveMember target as_admin \<Rightarrow>
          fst (commit fault st (Some (if as_admin then remove_relay_member_if_role (\<lambda>s. s) c target member_role st
                                      else remove_relay_member (\<lambda>s. s) c target st)))
      | ChangeRole target role \<Rightarrow> fst (commit fault st (update_relay_member_role now c target role st)))"
  by (cases action) (auto simp: finish_admin_event_def Let_def case_prod_unfold split: sum.split bool.split)

lemma decide_cases:
  assumes "decide_admin_action r ev = Ok action"
  shows "case action of
      SetIcon _ \<Rightarrow> staff r
    | AddMember _ role \<Rightarrow> staff r \<and> (role = member_role \<or> role = admin_role \<and> r = owner_role)
    | RemoveMember target as_admin \<Rightarrow> staff r \<and> target \<noteq> ev_pubkey (te_event ev) \<and> (\<not> as_admin \<longrightarrow> r = owner_role)
    | ChangeRole target role \<Rightarrow> r = owner_role \<and> target \<noteq> ev_pubkey (te_event ev) \<and> role \<in> {admin_role, member_role}"
  using assms by (auto simp: decide_admin_action_def Let_def staff_def split: if_splits option.splits sum.splits)

lemma commit_pred: "P st \<Longrightarrow> (\<And>st' a. r = Some (st', a) \<Longrightarrow> P st') \<Longrightarrow> P (fst (commit fault st r))"
  by (auto simp: commit_def split: option.split db_fault.split)

definition confined :: "string \<Rightarrow> string \<Rightarrow> uuid \<Rightarrow> roster_db \<Rightarrow> roster_db \<Rightarrow> bool" where
  "confined r sender c0 st st' \<longleftrightarrow>
     (\<forall>c pk. get_relay_member c pk st' = get_relay_member c pk st
        \<or> c = c0 \<and> permitted_change r sender pk (get_relay_member c pk st) (get_relay_member c pk st'))"

lemma confined_refl [simp]: "confined r sender c0 st st"
  by (simp add: confined_def)

lemma finish_confined:
  assumes "decide_admin_action r ev = Ok action"
  shows "confined r (ev_pubkey (te_event ev)) (tc_community tenant) st
    (fst (finish_admin_event fault fails (\<lambda>s. s) now tenant (ev_pubkey (te_event ev)) action st))"
proof (cases action)
  case (SetIcon icon)
  show ?thesis
    unfolding finish_admin_state Let_def SetIcon admin_action.case
    by (rule commit_pred) (auto simp: set_community_icon_def confined_def split: option.splits)
next
  case (AddMember target role)
  show ?thesis
    unfolding finish_admin_state Let_def AddMember admin_action.case
    by (rule commit_pred)
      (use decide_cases [OF assms] in \<open>auto simp: add_relay_member_def is_relay_member_def AddMember permitted_change_def
        confined_def split: if_splits\<close>)
next
  case (RemoveMember target as_admin)
  show ?thesis
    unfolding finish_admin_state Let_def RemoveMember admin_action.case
  proof (rule commit_pred)
    fix st' a
    assume "Some (if as_admin then remove_relay_member_if_role (\<lambda>s. s) (tc_community tenant) target member_role st
               else remove_relay_member (\<lambda>s. s) (tc_community tenant) target st) = Some (st', a)"
    then show "confined r (ev_pubkey (te_event ev)) (tc_community tenant) st st'"
      using decide_cases [OF assms]
      by (cases as_admin; cases "get_relay_member (tc_community tenant) target st")
        (auto simp: remove_relay_member_def remove_relay_member_if_role_def RemoveMember permitted_change_def
          confined_def Let_def split: if_splits)
  qed simp
next
  case (ChangeRole target role)
  show ?thesis
    unfolding finish_admin_state Let_def ChangeRole admin_action.case
    by (rule commit_pred)
      (use decide_cases [OF assms] in \<open>auto simp: update_relay_member_role_def ChangeRole permitted_change_def
        confined_def split: if_splits option.splits\<close>)
qed

text \<open>
  C24 (the permission matrix). Whatever other sessions do between the lookup of the sender and the write, an
  admin command changes rows of its own community only, each as the matrix permits for the role that was
  read: an admin only adds members and removes rows that are members at the moment of removal, the owner's
  row is never touched, and nobody removes or demotes themselves.
\<close>

theorem admin_event_confined:
  "let st' = fst (handle_relay_admin_event fails1 fault fails2 others (\<lambda>s. s) now tenant ev st);
       r = (case role_of (tc_community tenant) (ev_pubkey (te_event ev)) st of Some r \<Rightarrow> r | None \<Rightarrow> [])
   in st' = st
      \<or> (admin_fresh (ev_created_at (te_event ev)) now
         \<and> confined r (ev_pubkey (te_event ev)) (tc_community tenant) (others st) st')"
proof (cases "begin_admin_event fails1 now tenant ev st")
  case (Inl e)
  then show ?thesis by (simp add: handle_relay_admin_event_def)
next
  case (Inr action)
  let ?r = "case role_of (tc_community tenant) (ev_pubkey (te_event ev)) st of Some r \<Rightarrow> r | None \<Rightarrow> []"
  have "(case get_relay_member (tc_community tenant) (ev_pubkey (te_event ev)) st of Some m \<Rightarrow> rm_role m | None \<Rightarrow> []) = ?r"
    by (simp add: role_of_def split: option.split)
  then have fresh: "admin_fresh (ev_created_at (te_event ev)) now" and d: "decide_admin_action ?r ev = Ok action"
    using Inr by (simp_all add: begin_admin_event_def split: if_splits)
  show ?thesis
    unfolding Let_def handle_relay_admin_event_def Inr sum.case
    using fresh finish_confined [OF d] by blast
qed

lemma neg_mod_half:
  "(- d + h) mod (2 * h) = (if (d + h) mod (2 * h) = 0 then 0 else 2 * h - (d + h) mod (2 * h))" for d h :: int
proof -
  have "(- d + h) mod (2 * h) = (- (d + h) + 2 * h) mod (2 * h)" by simp
  also have "\<dots> = (- (d + h)) mod (2 * h)" by (rule mod_add_self2)
  also have "\<dots> = (if (d + h) mod (2 * h) = 0 then 0 else 2 * h - (d + h) mod (2 * h))"
    by (rule zmod_zminus1_eq_if)
  finally show ?thesis .
qed

text \<open>
  The wrapped distance of two instants is small when they are close, and for one other instant: the one that
  lies exactly 2^63 seconds ahead, whose distance has no absolute value in 64 bits.
\<close>

lemma wrapped_distance_iff:
  assumes "int limit \<le> int now" "now < 2 ^ 63" "created_at < 2 ^ 64"
  shows "sint (wrapping_abs (word_of_nat created_at - word_of_nat now)) \<le> int limit
    \<longleftrightarrow> abs (int created_at - int now) \<le> int limit \<or> created_at = now + 2 ^ 63"
proof -
  let ?d = "int created_at - int now" let ?l = "int limit"
  let ?w = "word_of_nat created_at - word_of_nat now :: 64 word"
  let ?m = "(?d + 2 ^ 63) mod 2 ^ 64"
  have w: "?w = word_of_int ?d" "- ?w = word_of_int (- ?d)" by simp_all
  have si: "sint (word_of_int i :: 64 word) = (i + 2 ^ 63) mod 2 ^ 64 - 2 ^ 63" for i
    by (simp add: sint_sbintrunc' signed_take_bit_eq_take_bit_shift take_bit_eq_mod)
  have s: "sint ?w = ?m - 2 ^ 63" "sint (- ?w) = (- ?d + 2 ^ 63) mod 2 ^ 64 - 2 ^ 63"
    by (simp_all only: w(2)) (simp_all only: w(1) si)
  have neg: "sint (- ?w) = (if ?m = 0 then 0 else 2 ^ 64 - ?m) - 2 ^ 63"
    using neg_mod_half [of ?d "2 ^ 63"] unfolding s(2) by simp
  have fresh: "sint (wrapping_abs ?w) \<le> ?l \<longleftrightarrow> abs (?m - 2 ^ 63) \<le> ?l \<or> ?m = 0"
    unfolding wrapping_abs_def using s(1) neg by (auto split: if_splits)
  have d: "- (2 ^ 63) < ?d" "?d < 2 ^ 64 - ?l" using assms by simp_all
  show ?thesis
  proof (cases "?d < 2 ^ 63")
    case True
    then have "?m = ?d + 2 ^ 63" using d(1) by (intro mod_pos_pos_trivial) simp_all
    then show ?thesis unfolding fresh using d(1) True by auto
  next
    case False
    have "?m = ?d - 2 ^ 63"
      using False d(2) mod_add_self2 [of "?d - 2 ^ 63" "2 ^ 64 :: int"] by (simp add: algebra_simps)
    then show ?thesis unfolding fresh using d(2) False by auto
  qed
qed

text \<open>
  Freshness. Within two minutes either way a command is fresh, and for one other creation time: the one
  that lies exactly 2^63 seconds ahead.
\<close>

theorem admin_fresh_iff:
  assumes "120 \<le> now" "now < 2 ^ 63" "created_at < 2 ^ 64"
  shows "admin_fresh created_at now \<longleftrightarrow> abs (int created_at - int now) \<le> 120 \<or> created_at = now + 2 ^ 63"
  using wrapped_distance_iff [of 120 now created_at] assms by (simp add: admin_fresh_def)

section \<open>A small history\<close>

definition demo_uuid :: uuid where "demo_uuid = mk_uuid (replicate 16 9)"

definition demo_created :: roster_db where
  "demo_created = fst (commit DbOk empty_roster (create_community_with_owner (\<lambda>s. s) 5 demo_uuid ''h'' ''a'' empty_roster))"

lemma demo_created_eq:
  "demo_created = \<lparr>rd_members = [((demo_uuid, ''a''), \<lparr>rm_role = owner_role, rm_added_by = None, rm_created_at = 5, rm_updated_at = 5\<rparr>)],
     rd_acceptances = [], rd_communities = [(demo_uuid, \<lparr>cy_host = ''h'', cy_archived_at = None, cy_icon = None\<rparr>)]\<rparr>"
  by (simp add: demo_created_def empty_roster_def create_community_with_owner_def community_of_host_def is_relay_member_def
      get_relay_member_def owned_count_def MAX_COMMUNITIES_PER_OWNER_def insert_community_def upsert_owner_def owner_row_def commit_def
      to_ascii_lowercase_def to_ascii_lower_def)

theorem admin_fresh_iff_witness:
  "admin_fresh (1700000000 + 2 ^ 63) 1700000000 \<and> \<not> admin_fresh 1700000121 1700000000"
  using admin_fresh_iff [of 1700000000 "1700000000 + 2 ^ 63"] admin_fresh_iff [of 1700000000 1700000121] by simp

end
