(* ===== verification/RosterTx.thy ===== *)
theory RosterTx
  imports RelayRoster
begin

unbundle bit_operations_syntax

text \<open>
  The two transactions that change the owner of a community, \<open>bootstrap_owner\<close> and \<open>transfer_ownership\<close>
  (\<open>crates/buzz-db/src/relay_members.rs\<close>), statement by statement as the database runs them (\<open>READ COMMITTED\<close>),
  interleaved with each other and with every other write of the roster.

  An open transaction keeps its row versions to itself (\<open>ot_rows\<close>) and the keys it has locked (\<open>ot_locked\<close>).
  A statement that ranges over rows is several steps: it takes the matching rows of the database as the
  transaction sees it when the statement starts, then goes on row by row; a row that another open transaction has
  locked must become free first, and is looked at again once it is (a row that no longer matches is skipped, a row
  that came to match meanwhile is not seen). A statement of another session waits for locked rows too
  (\<open>waits_for\<close>). A commit publishes the row versions at once; a transaction may be aborted at any time. The
  creation of a community is one step: until it commits nobody else knows the community's id.
\<close>

section \<open>The transactions\<close>

text \<open>The key of the advisory lock: FNV-1a over the bytes of the public key.\<close>

definition owner_count_advisory_lock_key :: "string \<Rightarrow> 64 word" where
  "owner_count_advisory_lock_key pubkey_hex =
     foldl (\<lambda>h b. (h XOR word_of_nat (of_char b)) * 0x100000001b3) 0xcbf29ce484222325 pubkey_hex"

datatype transfer_result = Transferred "string option" | AlreadyOwner | NoOwner | OwnerConflict | LimitReached

datatype owner_phase =
    Starting
  | Scanning "string list" "string list"
  | Counting
  | Upserting
  | Upserted
  | Demoting "string list"

text \<open>A bootstrap has no expected owner. \<open>now()\<close> is the start of the transaction.\<close>

record owner_tx =
  ot_now :: nat
  ot_community :: uuid
  ot_pubkey :: string
  ot_expected :: "string option"
  ot_previous :: "string option"
  ot_phase :: owner_phase
  ot_rows :: "(string, relay_member) hmap"
  ot_locked :: "string list"

definition bootstrap_owner :: "nat \<Rightarrow> uuid \<Rightarrow> string \<Rightarrow> owner_tx" where
  "bootstrap_owner now c owner_pubkey =
     \<lparr>ot_now = now, ot_community = c, ot_pubkey = to_ascii_lowercase owner_pubkey, ot_expected = None,
      ot_previous = None, ot_phase = Upserting, ot_rows = [], ot_locked = []\<rparr>"

definition transfer_ownership :: "nat \<Rightarrow> uuid \<Rightarrow> string \<Rightarrow> string \<Rightarrow> owner_tx" where
  "transfer_ownership now c new_owner expected_owner =
     \<lparr>ot_now = now, ot_community = c, ot_pubkey = to_ascii_lowercase new_owner,
      ot_expected = Some (to_ascii_lowercase expected_owner), ot_previous = None, ot_phase = Starting,
      ot_rows = [], ot_locked = []\<rparr>"

text \<open>The database as the transaction sees it, and as its commit leaves it.\<close>

definition overlay :: "owner_tx \<Rightarrow> roster_db \<Rightarrow> roster_db" where
  "overlay t st =
     st\<lparr>rd_members := foldr (\<lambda>(pk, m). AList.update (ot_community t, pk) m) (ot_rows t) (rd_members st)\<rparr>"

definition demoted_role :: "owner_tx \<Rightarrow> string" where
  "demoted_role t = (case ot_expected t of None \<Rightarrow> admin_role | Some _ \<Rightarrow> member_role)"

datatype tx_reply =
    Continue owner_tx
  | Rollback transfer_result
  | Refused
  | Finished

text \<open>What a transfer makes of the owners that it has locked.\<close>

definition check_owners :: "owner_tx \<Rightarrow> string list \<Rightarrow> tx_reply" where
  "check_owners t existing =
     (if existing = [] then Rollback NoOwner
      else if ot_expected t \<notin> Some ` set existing then Rollback OwnerConflict
      else if existing = [ot_pubkey t] then Rollback AlreadyOwner
      else Continue (t\<lparr>ot_phase := Counting,
             ot_previous := (if length existing = 1 then Some (hd existing) else find (\<lambda>p. p \<noteq> ot_pubkey t) existing)\<rparr>))"

definition demote_row :: "owner_tx \<Rightarrow> string \<Rightarrow> string list \<Rightarrow> roster_db \<Rightarrow> owner_tx" where
  "demote_row t p qs st =
     (case get_relay_member (ot_community t) p (overlay t st) of
        None \<Rightarrow> t\<lparr>ot_phase := Demoting qs\<rparr>
      | Some m \<Rightarrow>
          if rm_role m \<noteq> owner_role then t\<lparr>ot_phase := Demoting qs\<rparr>
          else t\<lparr>ot_phase := Demoting qs,
                 ot_rows := AList.update p (m\<lparr>rm_role := demoted_role t, rm_updated_at := ot_now t\<rparr>) (ot_rows t),
                 ot_locked := p # ot_locked t\<rparr>)"

definition tx_statement :: "owner_tx \<Rightarrow> roster_db \<Rightarrow> tx_reply" where
  "tx_statement t st =
     (let c = ot_community t; pk = ot_pubkey t in
      case ot_phase t of
        Starting \<Rightarrow> Continue (t\<lparr>ot_phase := Scanning (owners_of c st) []\<rparr>)
      | Scanning (p # ps) existing \<Rightarrow>
          Continue (t\<lparr>ot_phase := Scanning ps (if role_of c p st = Some owner_role then existing @ [p] else existing),
                      ot_locked := p # ot_locked t\<rparr>)
      | Scanning [] existing \<Rightarrow> check_owners t existing
      | Counting \<Rightarrow>
          if MAX_COMMUNITIES_PER_OWNER \<le> owned_count pk st then Rollback LimitReached
          else Continue (t\<lparr>ot_phase := Upserting\<rparr>)
      | Upserting \<Rightarrow>
          if \<not> row_allowed c owner_role st then Refused
          else Continue (t\<lparr>ot_phase := Upserted, ot_rows := [(pk, owner_row (ot_now t) (get_relay_member c pk st))],
                           ot_locked := pk # ot_locked t\<rparr>)
      | Upserted \<Rightarrow> Continue (t\<lparr>ot_phase := Demoting (filter (\<lambda>p. p \<noteq> pk) (owners_of c (overlay t st)))\<rparr>)
      | Demoting (p # qs) \<Rightarrow> Continue (demote_row t p qs st)
      | Demoting [] \<Rightarrow> Finished)"

text \<open>The row that the next step has to lock.\<close>

definition awaits :: "owner_tx \<Rightarrow> string option" where
  "awaits t =
     (case ot_phase t of
        Scanning (p # _) _ \<Rightarrow> Some p
      | Upserting \<Rightarrow> Some (ot_pubkey t)
      | Demoting (p # _) \<Rightarrow> Some p
      | _ \<Rightarrow> None)"

section \<open>Histories of the roster\<close>

definition row_free :: "uuid \<Rightarrow> string \<Rightarrow> owner_tx list \<Rightarrow> bool" where
  "row_free c pk ts \<longleftrightarrow> (\<forall>t \<in> set ts. ot_community t = c \<longrightarrow> pk \<notin> set (ot_locked t))"

definition waits_for :: "owner_tx list \<Rightarrow> roster_db \<Rightarrow> roster_db \<Rightarrow> bool" where
  "waits_for ts st st' \<longleftrightarrow>
     (\<forall>c pk. get_relay_member c pk st' \<noteq> get_relay_member c pk st \<longrightarrow> row_free c pk ts)"

definition key_free :: "string \<Rightarrow> owner_tx list \<Rightarrow> bool" where
  "key_free pk ts \<longleftrightarrow>
     (\<forall>t \<in> set ts. ot_expected t \<noteq> None \<longrightarrow> owner_count_advisory_lock_key (ot_pubkey t) \<noteq> owner_count_advisory_lock_key pk)"

text \<open>
  The other sessions, next to the open transactions \<open>ts\<close>: the database with the admin commands whose sender has
  been looked up and whose write is still to come. Everything happens in any order, with any outcome of its queries.
\<close>

type_synonym pending = "(tenant_context \<times> string \<times> admin_action) list"

inductive session_step ::
  "(string \<Rightarrow> string) \<Rightarrow> owner_tx list \<Rightarrow> roster_db \<times> pending \<Rightarrow> roster_db \<times> pending \<Rightarrow> bool"
  for sql_lower ts where
  begin_admin: "begin_admin_event fails now tenant ev st = Ok action
    \<Longrightarrow> session_step sql_lower ts (st, ps) (st, (tenant, ev_pubkey (te_event ev), action) # ps)"
| finish_admin: "(tenant, sender, action) \<in> set ps
    \<Longrightarrow> session_step sql_lower ts (st, ps)
          (fst (finish_admin_event fault fails (\<lambda>s. s) now tenant sender action st), remove1 (tenant, sender, action) ps)"
| claim: "session_step sql_lower ts (st, ps)
    (fst (commit fault st (claim_relay_membership now c pk member_role v st)), ps)"
| leave: "session_step sql_lower ts (st, ps) (fst (commit fault st (Some (remove_relay_member (\<lambda>s. s) c pk st))), ps)"
| create: "key_free (to_ascii_lowercase pk) ts
    \<Longrightarrow> session_step sql_lower ts (st, ps)
          (fst (commit fault st (create_community_with_owner sql_lower now i host pk st)), ps)"
| ensure: "session_step sql_lower ts (st, ps) (fst (commit fault st (ensure_configured_community sql_lower i host st)), ps)"
| archive: "session_step sql_lower ts (st, ps)
    (fst (commit fault st (archive_community_owned_by sql_lower now host pk protected st)), ps)"
| unarchive: "session_step sql_lower ts (st, ps)
    (fst (commit fault st (unarchive_community_owned_by sql_lower host pk st)), ps)"
| backfill: "session_step sql_lower ts (st, ps)
    (fst (commit fault st (backfill_from_allowlist (\<lambda>s. s) now allowlist c st)), ps)"
| operator_add: "session_step sql_lower ts (st, ps)
    (fst (commit fault st (cmd_add_member now parse c arg role st)), ps)"
| operator_remove: "session_step sql_lower ts (st, ps)
    (fst (commit fault st (Some (cmd_remove_member (\<lambda>s. s) parse c arg filt st))), ps)"

text \<open>
  \<open>bootstrap_owner\<close> runs at startup and in the legacy provisioning. It takes no lock that a transfer or another
  bootstrap would wait for, so nothing in the program keeps them apart: \<open>AnyRotation\<close>. With \<open>SerialRotation\<close> the
  deployment sees to it that no other of these transactions is open on a community while a bootstrap of it is.
\<close>

datatype rotations = NoRotation | SerialRotation | AnyRotation

type_synonym roster_system = "roster_db \<times> pending \<times> owner_tx list"

inductive roster_step :: "(string \<Rightarrow> string) \<Rightarrow> rotations \<Rightarrow> roster_system \<Rightarrow> roster_system \<Rightarrow> bool"
  for sql_lower rotation where
  session: "session_step sql_lower ts (st, ps) (st', ps') \<Longrightarrow> waits_for ts st st'
    \<Longrightarrow> roster_step sql_lower rotation (st, ps, ts) (st', ps', ts)"
| begin_transfer: "key_free (to_ascii_lowercase pk) ts
    \<Longrightarrow> rotation = SerialRotation \<longrightarrow> (\<forall>t \<in> set ts. ot_expected t = None \<longrightarrow> ot_community t \<noteq> c)
    \<Longrightarrow> roster_step sql_lower rotation (st, ps, ts) (st, ps, transfer_ownership now c pk expected # ts)"
| begin_bootstrap: "rotation \<noteq> NoRotation
    \<Longrightarrow> rotation = SerialRotation \<longrightarrow> (\<forall>t \<in> set ts. ot_community t \<noteq> c)
    \<Longrightarrow> roster_step sql_lower rotation (st, ps, ts) (st, ps, bootstrap_owner now c pk # ts)"
| statement: "tx_statement t st = Continue t'
    \<Longrightarrow> \<forall>p. awaits t = Some p \<longrightarrow> row_free (ot_community t) p (xs @ ys)
    \<Longrightarrow> roster_step sql_lower rotation (st, ps, xs @ t # ys) (st, ps, xs @ t' # ys)"
| publish: "tx_statement t st = Finished
    \<Longrightarrow> roster_step sql_lower rotation (st, ps, xs @ t # ys) (overlay t st, ps, xs @ ys)"
| abort: "roster_step sql_lower rotation (st, ps, xs @ t # ys) (st, ps, xs @ ys)"

definition roster_reachable :: "(string \<Rightarrow> string) \<Rightarrow> rotations \<Rightarrow> roster_system \<Rightarrow> bool" where
  "roster_reachable sql_lower rotation = (roster_step sql_lower rotation)\<^sup>*\<^sup>* (empty_roster, [], [])"

section \<open>What the other sessions do to the owners\<close>

text \<open>A command never asks for the owner's role.\<close>

definition modest :: "admin_action \<Rightarrow> bool" where
  "modest action \<longleftrightarrow> (case action of AddMember _ r \<Rightarrow> r \<noteq> owner_role | ChangeRole _ r \<Rightarrow> r \<noteq> owner_role | _ \<Rightarrow> True)"

lemma decide_modest: "decide_admin_action role ev = Ok action \<Longrightarrow> modest action"
  by (auto simp: decide_admin_action_def Let_def modest_def split: if_splits option.splits sum.splits)

lemma quiet_finish:
  assumes "tables_ok st" "modest action"
  shows "quiet st (fst (finish_admin_event fault fails (\<lambda>s. s) now tenant sender action st))"
  unfolding finish_admin_state Let_def
  using assms quiet_remove [OF assms(1)] quiet_remove_if_role [OF assms(1), of member_role]
  by (cases action)
    (auto simp: modest_def set_community_icon_def split: option.splits if_splits
      intro!: quiet_commit intro: quiet_community dest: quiet_add quiet_update_role, (metis fst_conv)+)

lemma tables_ok_insert_community: "tables_ok st \<Longrightarrow> tables_ok (insert_community i host st)"
  using quiet_community [of st i] by (simp add: quiet_def insert_community_def)

lemma quiet_ensure: "ensure_configured_community f i host st = Some (st', r) \<Longrightarrow> tables_ok st \<Longrightarrow> quiet st st'"
  by (auto simp: ensure_configured_community_def insert_community_def split: option.splits if_splits intro: quiet_community)

lemma quiet_archive: "archive_community_owned_by f now host pk prot st = Some (st', r) \<Longrightarrow> tables_ok st \<Longrightarrow> quiet st st'"
  by (auto simp: archive_community_owned_by_def Let_def split: option.splits if_splits intro: quiet_community)

lemma quiet_unarchive: "unarchive_community_owned_by f host pk st = Some (st', r) \<Longrightarrow> tables_ok st \<Longrightarrow> quiet st st'"
  by (auto simp: unarchive_community_owned_by_def split: option.splits if_splits intro: quiet_community)

lemma quiet_backfill: "backfill_from_allowlist (\<lambda>s. s) now al c st = Some (st', r) \<Longrightarrow> tables_ok st \<Longrightarrow> quiet st st'"
  using quiet_backfill_rows [of st c now]
  by (auto simp: backfill_from_allowlist_def split: option.splits if_splits) (metis fst_conv backfill_rows.simps(1) quiet_refl)+

lemma quiet_operator_add: "cmd_add_member now parse c arg role st = Some (st', r) \<Longrightarrow> tables_ok st \<Longrightarrow> quiet st st'"
  by (auto simp: cmd_add_member_def validate_role_def split: option.splits if_splits prod.splits dest: quiet_add)

lemma quiet_operator_remove:
  "cmd_remove_member (\<lambda>s. s) parse c arg filt st = (st', r) \<Longrightarrow> tables_ok st \<Longrightarrow> quiet st st'"
  using quiet_remove [of st] quiet_remove_if_role [of st]
  by (auto simp: cmd_remove_member_def validate_role_def case_prod_unfold Let_def split: option.splits if_splits)

text \<open>What one step does to the set of owners.\<close>

definition rotated :: "uuid \<Rightarrow> string \<Rightarrow> (uuid \<times> string) set \<Rightarrow> (uuid \<times> string) set" where
  "rotated c pk own = {(c', p). (c', p) \<in> own \<and> c' \<noteq> c} \<union> {(c, pk)}"

definition owners_step :: "bool \<Rightarrow> roster_db \<Rightarrow> roster_db \<Rightarrow> bool" where
  "owners_step rotation st st' \<longleftrightarrow>
     owner_set st' = owner_set st
     \<or> (\<exists>c pk. c \<notin> fst ` owner_set st \<and> owned_count pk st < 3 \<and> owner_set st' = insert (c, pk) (owner_set st))
     \<or> (\<exists>c pk. (rotation \<or> c \<in> fst ` owner_set st \<and> owned_count pk st < 3) \<and> owner_set st' = rotated c pk (owner_set st))"

lemma owners_stepE:
  assumes "owners_step rotation st st'"
  obtains (same) "owner_set st' = owner_set st"
  | (fresh) c pk where "c \<notin> fst ` owner_set st" "owned_count pk st < 3" "owner_set st' = insert (c, pk) (owner_set st)"
  | (turned) c pk where "rotation \<or> c \<in> fst ` owner_set st \<and> owned_count pk st < 3"
      "owner_set st' = rotated c pk (owner_set st)"
  using assms unfolding owners_step_def by blast

lemma rotated_iff [simp]: "(c', p) \<in> rotated c pk own \<longleftrightarrow> (if c' = c then p = pk else (c', p) \<in> own)"
  by (simp add: rotated_def)

lemma owned_iff: "c \<in> fst ` own \<longleftrightarrow> (\<exists>p. (c, p) \<in> own)"
  by force

lemma owners_step_refl [simp]: "owners_step rotation st st"
  by (simp add: owners_step_def)

lemma owners_step_quiet: "quiet st st' \<Longrightarrow> tables_ok st' \<and> owners_step rotation st st'"
  by (simp add: quiet_def owners_step_def)

definition sole :: "(uuid \<times> string) set \<Rightarrow> bool" where
  "sole own \<longleftrightarrow> (\<forall>c p q. (c, p) \<in> own \<longrightarrow> (c, q) \<in> own \<longrightarrow> p = q)"

lemma soleD: "sole own \<Longrightarrow> (c, p) \<in> own \<Longrightarrow> (c, q) \<in> own \<Longrightarrow> p = q"
  unfolding sole_def by blast

lemma sole_section:
  assumes "sole own" "(c, pk) \<in> own" shows "{p. (c, p) \<in> own} = {pk}"
proof (intro equalityI subsetI)
  fix q assume "q \<in> {p. (c, p) \<in> own}"
  then have "(c, q) \<in> own" by simp
  from soleD [OF assms(1) this assms(2)] show "q \<in> {pk}" by simp
next
  fix q assume "q \<in> {pk}"
  then show "q \<in> {p. (c, p) \<in> own}" using assms(2) by simp
qed

lemma owners_step_sole:
  assumes "owners_step rotation st st'" "sole (owner_set st)" shows "sole (owner_set st')"
  using assms(1)
proof (cases rule: owners_stepE)
  case (fresh d pk)
  show ?thesis
    unfolding sole_def fresh(3)
  proof (intro allI impI)
    fix c p q
    assume "(c, p) \<in> insert (d, pk) (owner_set st)" "(c, q) \<in> insert (d, pk) (owner_set st)"
    then show "p = q" using fresh(1) soleD [OF assms(2), of c p q] by (cases "c = d") (simp_all add: owned_iff)
  qed
next
  case (turned d pk)
  show ?thesis
    unfolding sole_def turned(2)
  proof (intro allI impI)
    fix c p q
    assume "(c, p) \<in> rotated d pk (owner_set st)" "(c, q) \<in> rotated d pk (owner_set st)"
    then show "p = q" using soleD [OF assms(2), of c p q] by (cases "c = d") simp_all
  qed
qed (use assms(2) in simp)

lemma owners_step_keeps:
  assumes "owners_step rotation st st'" "c \<in> fst ` owner_set st" shows "c \<in> fst ` owner_set st'"
  using assms(1)
proof (cases rule: owners_stepE)
  case (turned d pk)
  then show ?thesis using assms(2) by (cases "c = d") (auto simp: owned_iff)
qed (use assms(2) in auto)

lemma finite_owner_set: "finite (owner_set st)"
proof (rule finite_subset)
  show "owner_set st \<subseteq> fst ` set (rd_members st)"
    by (force simp: owner_set_def role_of_def get_relay_member_def dest: map_of_SomeD)
qed simp

lemma owned_bound:
  assumes "tables_ok st" "tables_ok st'" "owners_step False st st'" "owned_count pk st \<le> 3"
  shows "owned_count pk st' \<le> 3"
proof -
  let ?own = "\<lambda>s p. {c. (c, p) \<in> owner_set s}"
  have fin: "finite (?own st p)" for p
    by (rule finite_subset [of _ "fst ` owner_set st"]) (auto simp: owned_iff finite_owner_set)
  have "?own st' pk \<subseteq> ?own st pk \<or> (\<exists>c. ?own st' pk \<subseteq> insert c (?own st pk) \<and> owned_count pk st < 3)"
    using assms(3)
  proof (cases rule: owners_stepE)
    case (fresh c p)
    then show ?thesis by (cases "p = pk") auto
  next
    case (turned c p)
    show ?thesis
    proof (cases "p = pk")
      case True
      then have "?own st' pk \<subseteq> insert c (?own st pk)" by (auto simp: turned(2) split: if_splits)
      then show ?thesis using turned(1) True by blast
    next
      case False
      then have "?own st' pk \<subseteq> ?own st pk" by (auto simp: turned(2) split: if_splits)
      then show ?thesis by blast
    qed
  qed simp
  then consider "?own st' pk \<subseteq> ?own st pk"
    | c where "?own st' pk \<subseteq> insert c (?own st pk)" "owned_count pk st < 3" by blast
  then show ?thesis
  proof cases
    case 1
    then have "card (?own st' pk) \<le> card (?own st pk)" by (intro card_mono fin)
    then show ?thesis using assms(1,2,4) by (simp add: owned_count_card)
  next
    case 2
    then have "card (?own st' pk) \<le> Suc (card (?own st pk))"
      using card_mono [of "insert c (?own st pk)" "?own st' pk"] fin [of pk] by (simp add: card_insert_if split: if_splits)
    then show ?thesis using 2(2) assms(1,2) by (simp add: owned_count_card)
  qed
qed

lemma grown_create:
  assumes "tables_ok st" "create_community_with_owner sql_lower now i host new st = Some (st', r)" "st' \<noteq> st"
  shows "tables_ok st'" "fst ` set (rd_communities st) \<subseteq> fst ` set (rd_communities st')"
    "i \<notin> fst ` set (rd_communities st)" "owned_count (to_ascii_lowercase new) st < 3"
    "owner_set st' = insert (i, to_ascii_lowercase new) (owner_set st)"
proof -
  let ?pk = "to_ascii_lowercase new"
  from assms(2,3) have st': "st' = upsert_owner now i ?pk (insert_community i host st)"
    and fresh: "i \<notin> fst ` set (rd_communities st)" "owned_count ?pk st < 3"
    by (auto simp: create_community_with_owner_def Let_def MAX_COMMUNITIES_PER_OWNER_def split: option.splits if_splits)
  show "i \<notin> fst ` set (rd_communities st)" "owned_count ?pk st < 3" by (fact fresh)+
  have "row_allowed i owner_role (insert_community i host st)" by (simp add: insert_community_def)
  then show "tables_ok st'" unfolding st' by (intro tables_ok_upsert tables_ok_insert_community assms(1))
  show "fst ` set (rd_communities st) \<subseteq> fst ` set (rd_communities st')"
    unfolding st' upsert_owner_def insert_community_def by (simp add: AList.dom_update subset_insertI)
  show "owner_set st' = insert (i, ?pk) (owner_set st)" unfolding st' owner_set_upsert by simp
qed

text \<open>A session keeps the owners, or creates a community whose owner no open transfer is about to promote.\<close>

definition founds :: "owner_tx list \<Rightarrow> roster_db \<Rightarrow> roster_db \<Rightarrow> bool" where
  "founds ts st st' \<longleftrightarrow> tables_ok st' \<and> fst ` set (rd_communities st) \<subseteq> fst ` set (rd_communities st')
     \<and> (\<exists>i pk. i \<notin> fst ` set (rd_communities st) \<and> owned_count pk st < 3 \<and> key_free pk ts
          \<and> owner_set st' = insert (i, pk) (owner_set st))"

lemma founds_create:
  assumes "create_community_with_owner sql_lower now i host new st = Some (st', r)" "tables_ok st"
    "key_free (to_ascii_lowercase new) ts"
  shows "quiet st st' \<or> founds ts st st'"
proof (cases "st' = st")
  case False
  show ?thesis using grown_create [OF assms(2,1) False] assms(3) unfolding founds_def by blast
qed (use assms(2) in simp)

definition pending_modest :: "pending \<Rightarrow> bool" where
  "pending_modest ps \<longleftrightarrow> (\<forall>(t, s, a) \<in> set ps. modest a)"

lemma session_step_effect:
  assumes "session_step sql_lower ts s s'" "tables_ok (fst s)" "pending_modest (snd s)"
  shows "pending_modest (snd s') \<and> (quiet (fst s) (fst s') \<or> founds ts (fst s) (fst s'))"
  using assms
proof (induction rule: session_step.induct)
  case (begin_admin fails now tenant ev st action ps)
  then show ?case
    by (auto simp: pending_modest_def begin_admin_event_def split: if_splits dest: decide_modest)
next
  case (finish_admin tenant sender action ps st fault fails now)
  then have "modest action" by (auto simp: pending_modest_def)
  then show ?case
    using finish_admin.prems quiet_finish [of st action]
    by (auto simp: pending_modest_def dest: set_remove1_subset [THEN subsetD])
next
  case (claim st ps fault now c pk v)
  then show ?case using quiet_claim [of now c pk member_role v st] by (auto intro!: quiet_commit)
next
  case (leave st ps fault c pk)
  then show ?case using quiet_remove [of st c pk] by (auto intro!: quiet_commit)
next
  case (create pk st ps fault now i host)
  then show ?case
    using founds_create [of sql_lower now i host pk st _ _ ts] by (auto simp: commit_def split: option.split db_fault.split)
next
  case (ensure st ps fault i host)
  then show ?case by (auto intro!: quiet_commit dest: quiet_ensure)
next
  case (archive st ps fault now host pk protected)
  then show ?case by (auto intro!: quiet_commit dest: quiet_archive)
next
  case (unarchive st ps fault host pk)
  then show ?case by (auto intro!: quiet_commit dest: quiet_unarchive)
next
  case (backfill st ps fault now allowlist c)
  then show ?case by (auto intro!: quiet_commit dest: quiet_backfill)
next
  case (operator_add st ps fault now parse c arg role)
  then show ?case by (auto intro!: quiet_commit dest: quiet_operator_add)
next
  case (operator_remove st ps fault parse c arg filt)
  then show ?case using quiet_operator_remove [of parse c arg filt st] by (auto intro!: quiet_commit)
qed

section \<open>Open transactions\<close>

lemma map_of_foldr_update:
  "map_of (foldr (\<lambda>(pk, m). AList.update (c, pk) m) rows xs) (c', p) =
     (if c' = c then case map_of rows p of Some m \<Rightarrow> Some m | None \<Rightarrow> map_of xs (c', p) else map_of xs (c', p))"
  by (induction rows) (auto simp: AList.update_conv' split: option.split)

lemma get_overlay:
  "get_relay_member c p (overlay t st) =
     (if c = ot_community t then case map_of (ot_rows t) p of Some m \<Rightarrow> Some m | None \<Rightarrow> get_relay_member c p st
      else get_relay_member c p st)"
  by (simp add: get_relay_member_def overlay_def map_of_foldr_update split: option.split)

lemma role_overlay:
  "role_of c p (overlay t st) =
     (if c = ot_community t then case map_of (ot_rows t) p of Some m \<Rightarrow> Some (rm_role m) | None \<Rightarrow> role_of c p st
      else role_of c p st)"
  by (simp add: role_of_def get_overlay split: option.split)

lemma overlay_communities [simp]: "rd_communities (overlay t st) = rd_communities st"
  by (simp add: overlay_def)

lemma tables_ok_overlay:
  assumes "tables_ok st" "\<And>p m. map_of (ot_rows t) p = Some m \<Longrightarrow> row_allowed (ot_community t) (rm_role m) st"
  shows "tables_ok (overlay t st)"
proof (rule tables_okI_members [OF assms(1)])
  have "hwf (foldr (\<lambda>(pk, m). AList.update (ot_community t, pk) m) rows xs)" if "hwf xs" for rows and xs :: "(uuid \<times> string, relay_member) hmap"
    using that by (induction rows) auto
  then show "hwf (rd_members (overlay t st))" using assms(1) by (simp add: overlay_def tables_ok_def)
  show "(\<exists>m0. get_relay_member c p st = Some m0 \<and> rm_role m0 = rm_role m) \<or> row_allowed c (rm_role m) st"
    if "get_relay_member c p (overlay t st) = Some m" for c p m
    using that assms(2) by (auto simp: get_overlay split: if_splits option.splits)
qed simp

lemma owners_of_iff: "tables_ok st \<Longrightarrow> p \<in> set (owners_of c st) \<longleftrightarrow> role_of c p st = Some owner_role"
  by (simp add: set_owners_of owner_set_def)

text \<open>
  A transfer that has found an owner is anchored: it holds the lock of a row that is still the owner's. What a
  transaction relies on in each phase; once it demotes, every other owner is in its list or already demoted.
\<close>

definition engaged :: "owner_tx \<Rightarrow> bool" where
  "engaged t \<longleftrightarrow> ot_expected t \<noteq> None
     \<and> (case ot_phase t of Starting \<Rightarrow> False | Scanning ps existing \<Rightarrow> existing \<noteq> [] | _ \<Rightarrow> True)"

definition anchored :: "roster_db \<Rightarrow> owner_tx \<Rightarrow> bool" where
  "anchored st t \<longleftrightarrow> (\<exists>p \<in> set (ot_locked t). role_of (ot_community t) p st = Some owner_role)"

definition others_covered :: "roster_db \<Rightarrow> owner_tx \<Rightarrow> string list \<Rightarrow> bool" where
  "others_covered st t qs \<longleftrightarrow>
     (\<forall>q. q \<noteq> ot_pubkey t \<and> role_of (ot_community t) q st = Some owner_role \<longrightarrow> q \<in> set qs \<or> map_of (ot_rows t) q \<noteq> None)
     \<and> (\<forall>q m. q \<noteq> ot_pubkey t \<and> map_of (ot_rows t) q = Some m \<longrightarrow> rm_role m = demoted_role t)"

definition tx_ok :: "roster_db \<Rightarrow> owner_tx \<Rightarrow> bool" where
  "tx_ok st t \<longleftrightarrow> (engaged t \<longrightarrow> anchored st t) \<and>
     (case ot_phase t of
        Starting \<Rightarrow> ot_expected t \<noteq> None \<and> ot_rows t = []
      | Scanning ps existing \<Rightarrow> ot_expected t \<noteq> None \<and> ot_rows t = []
          \<and> (\<forall>p \<in> set existing. p \<in> set (ot_locked t) \<and> role_of (ot_community t) p st = Some owner_role)
      | Counting \<Rightarrow> ot_expected t \<noteq> None \<and> ot_rows t = []
      | Upserting \<Rightarrow> ot_rows t = []
      | Upserted \<Rightarrow> row_allowed (ot_community t) owner_role st
          \<and> (\<exists>m. ot_rows t = [(ot_pubkey t, m)] \<and> rm_role m = owner_role)
      | Demoting qs \<Rightarrow> row_allowed (ot_community t) owner_role st \<and> ot_pubkey t \<notin> set qs
          \<and> (\<exists>m. map_of (ot_rows t) (ot_pubkey t) = Some m \<and> rm_role m = owner_role) \<and> others_covered st t qs)"

text \<open>What a transaction relies on concerns the owners of its community only, and nothing before it is settled.\<close>

definition settled :: "owner_tx \<Rightarrow> bool" where
  "settled t \<longleftrightarrow> engaged t \<or> (case ot_phase t of Upserted \<Rightarrow> True | Demoting qs \<Rightarrow> True | _ \<Rightarrow> False)"

lemma tx_ok_unsettled: "tx_ok st t \<Longrightarrow> \<not> settled t \<Longrightarrow> tx_ok st' t"
  by (auto simp: tx_ok_def settled_def engaged_def split: owner_phase.splits)

lemma tx_ok_cong:
  assumes "tx_ok st t" "fst ` set (rd_communities st) \<subseteq> fst ` set (rd_communities st')"
    and "\<And>q. role_of (ot_community t) q st' = Some owner_role \<longleftrightarrow> role_of (ot_community t) q st = Some owner_role"
  shows "tx_ok st' t"
proof -
  have "row_allowed (ot_community t) owner_role st \<Longrightarrow> row_allowed (ot_community t) owner_role st'"
    using assms(2) by (auto simp: row_allowed_def)
  then show ?thesis
    using assms(1) unfolding tx_ok_def anchored_def others_covered_def assms(3)
    by (cases "ot_phase t") simp_all
qed

lemma settled_community: "tables_ok st \<Longrightarrow> tx_ok st t \<Longrightarrow> settled t \<Longrightarrow> ot_community t \<in> fst ` set (rd_communities st)"
  by (force simp: tx_ok_def settled_def anchored_def row_allowed_def owner_set_def split: owner_phase.splits
      dest: owner_set_community)

lemma tx_ok_quiet: "quiet st st' \<Longrightarrow> tx_ok st t \<Longrightarrow> tx_ok st' t"
  by (rule tx_ok_cong) (auto simp: quiet_def owner_set_def set_eq_iff)

lemma tx_ok_founds:
  assumes "founds ts st st'" "tables_ok st" "tx_ok st t" shows "tx_ok st' t"
proof (cases "settled t")
  case True
  then have "ot_community t \<in> fst ` set (rd_communities st)" using settled_community assms by blast
  moreover obtain i pk where "i \<notin> fst ` set (rd_communities st)" "owner_set st' = insert (i, pk) (owner_set st)"
    "fst ` set (rd_communities st) \<subseteq> fst ` set (rd_communities st')"
    using assms(1) unfolding founds_def by blast
  ultimately show ?thesis
    by (intro tx_ok_cong [OF assms(3)]) (auto simp: owner_set_def set_eq_iff simp del: image_iff)
qed (use assms tx_ok_unsettled in blast)

lemma demoted_role [simp]: "demoted_role t \<noteq> owner_role" "demoted_role t \<in> {owner_role, admin_role, member_role}"
  by (simp_all add: demoted_role_def split: option.split)

lemma tx_rows_allowed:
  assumes "tx_ok st t" "map_of (ot_rows t) p = Some m" shows "row_allowed (ot_community t) (rm_role m) st"
proof (cases "p = ot_pubkey t")
  case False
  then show ?thesis
    using assms demoted_role(2) [of t]
    by (auto simp: tx_ok_def others_covered_def row_allowed_def split: owner_phase.splits)
qed (use assms in \<open>auto simp: tx_ok_def split: owner_phase.splits\<close>)

lemma tables_ok_published: "tables_ok st \<Longrightarrow> tx_ok st t \<Longrightarrow> tables_ok (overlay t st)"
  by (intro tables_ok_overlay) (auto intro: tx_rows_allowed)

text \<open>A statement keeps what its transaction relies on, and locks at most the row that it waited for.\<close>

lemma others_covered_demote:
  assumes "others_covered st t (p # qs)" "p \<noteq> ot_pubkey t" shows "others_covered st (demote_row t p qs st) qs"
proof -
  have "map_of (ot_rows t) p \<noteq> None"
    if "role_of (ot_community t) p st = Some owner_role" "role_of (ot_community t) p (overlay t st) \<noteq> Some owner_role"
    using that by (auto simp: role_overlay split: option.splits)
  then have skip: "others_covered st t qs" if "role_of (ot_community t) p (overlay t st) \<noteq> Some owner_role"
    using assms that unfolding others_covered_def by (metis set_ConsD)
  show ?thesis
  proof (cases "get_relay_member (ot_community t) p (overlay t st)")
    case None
    then show ?thesis using skip by (simp add: demote_row_def role_of_def others_covered_def demoted_role_def)
  next
    case (Some m)
    show ?thesis
    proof (cases "rm_role m = owner_role")
      case True
      then show ?thesis
        using assms Some by (auto simp: demote_row_def others_covered_def demoted_role_def hmap_simps AList.update_conv')
    next
      case False
      then show ?thesis
        using skip Some by (simp add: demote_row_def role_of_def others_covered_def demoted_role_def)
    qed
  qed
qed

lemma demote_row_fields:
  "ot_community (demote_row t p qs st) = ot_community t" "ot_pubkey (demote_row t p qs st) = ot_pubkey t"
  "ot_expected (demote_row t p qs st) = ot_expected t" "ot_phase (demote_row t p qs st) = Demoting qs"
  "set (ot_locked t) \<subseteq> set (ot_locked (demote_row t p qs st))"
  "set (ot_locked (demote_row t p qs st)) \<subseteq> insert p (set (ot_locked t))"
  "q \<noteq> p \<Longrightarrow> map_of (ot_rows (demote_row t p qs st)) q = map_of (ot_rows t) q"
  by (auto simp: demote_row_def AList.update_conv' split: option.split)

lemma statement_fields:
  assumes "tx_statement t st = Continue t'"
  shows "ot_community t' = ot_community t" "ot_pubkey t' = ot_pubkey t" "ot_expected t' = ot_expected t"
    "set (ot_locked t) \<subseteq> set (ot_locked t')"
    "set (ot_locked t') \<subseteq> set (ot_locked t) \<union> {p. awaits t = Some p}"
  using assms demote_row_fields(1-4) demote_row_fields(5) [THEN subsetD]
  by (auto dest: demote_row_fields(6) [THEN subsetD] simp: tx_statement_def check_owners_def awaits_def Let_def split: owner_phase.splits list.splits if_splits)

lemma anchored_mono:
  "anchored st t \<Longrightarrow> ot_community t' = ot_community t \<Longrightarrow> set (ot_locked t) \<subseteq> set (ot_locked t') \<Longrightarrow> anchored st t'"
  by (auto simp: anchored_def)

lemma statement_ok:
  assumes "tx_statement t st = Continue t'" "tables_ok st" "tx_ok st t"
  shows "tx_ok st t'"
proof (cases "ot_phase t")
  case (Scanning ps existing)
  show ?thesis
  proof (cases ps)
    case Nil
    then obtain prev where "existing \<noteq> []" and t': "t' = t\<lparr>ot_phase := Counting, ot_previous := prev\<rparr>"
      using assms(1) Scanning by (auto simp: tx_statement_def check_owners_def split: if_splits)
    then obtain p where "p \<in> set existing" by (cases existing) auto
    then show ?thesis using assms(3) Scanning by (auto simp: tx_ok_def engaged_def anchored_def t')
  qed (use assms Scanning in \<open>auto simp: tx_statement_def tx_ok_def engaged_def anchored_def split: if_splits\<close>)
next
  case Upserted
  then have t': "t' = t\<lparr>ot_phase := Demoting (filter (\<lambda>p. p \<noteq> ot_pubkey t) (owners_of (ot_community t) (overlay t st)))\<rparr>"
    using assms(1) by (simp add: tx_statement_def Let_def)
  obtain m where m: "ot_rows t = [(ot_pubkey t, m)]" "rm_role m = owner_role" "row_allowed (ot_community t) owner_role st"
    using assms(3) Upserted by (auto simp: tx_ok_def)
  have "others_covered st t' (filter (\<lambda>p. p \<noteq> ot_pubkey t) (owners_of (ot_community t) (overlay t st)))"
    using owners_of_iff [OF tables_ok_published [OF assms(2,3)]] m(1)
    by (auto simp: others_covered_def t' role_overlay)
  then show ?thesis using assms(3) Upserted m by (simp add: tx_ok_def t' engaged_def anchored_def)
next
  case (Demoting qs)
  then obtain p qs' where qs: "qs = p # qs'" "t' = demote_row t p qs' st"
    using assms(1) by (cases qs) (simp_all add: tx_statement_def Let_def)
  have "engaged t' \<longrightarrow> anchored st t'"
    using assms(3) Demoting anchored_mono [of st t t'] demote_row_fields(1-6) [of t p qs' st] demote_row_fields(7) [of "ot_pubkey t" p t qs' st]
    by (auto simp: tx_ok_def engaged_def qs(2))
  then show ?thesis
    using assms(3) Demoting others_covered_demote [of st t p qs'] demote_row_fields(1-6) [of t p qs' st] demote_row_fields(7) [of "ot_pubkey t" p t qs' st]
    by (auto simp: tx_ok_def qs)
qed (use assms in \<open>auto simp: tx_statement_def tx_ok_def engaged_def anchored_def Let_def split: if_splits\<close>)

text \<open>Publishing makes the transaction's key the only owner of its community.\<close>

lemma published_owners:
  assumes "tx_statement t st = Finished" "tx_ok st t"
  shows "owner_set (overlay t st) = rotated (ot_community t) (ot_pubkey t) (owner_set st)"
proof -
  have "ot_phase t = Demoting []"
    using assms(1)
    by (auto simp: tx_statement_def check_owners_def Let_def split: owner_phase.splits list.splits if_splits)
  then obtain m where "map_of (ot_rows t) (ot_pubkey t) = Some m" "rm_role m = owner_role" and c: "others_covered st t []"
    using assms(2) by (auto simp: tx_ok_def)
  then have own: "role_of (ot_community t) p (overlay t st) = Some owner_role \<longleftrightarrow> p = ot_pubkey t" for p
    using c by (cases "p = ot_pubkey t"; cases "map_of (ot_rows t) p") (auto simp: role_overlay others_covered_def)
  show ?thesis
  proof (rule set_eqI)
    fix x :: "uuid \<times> string"
    obtain c' p where x: "x = (c', p)" by (cases x)
    show "x \<in> owner_set (overlay t st) \<longleftrightarrow> x \<in> rotated (ot_community t) (ot_pubkey t) (owner_set st)"
      by (cases "c' = ot_community t") (simp_all add: x owner_set_def own, simp add: role_overlay)
  qed
qed

text \<open>
  Two open transactions of one community hold no common lock and are both transfers; two transfers hold different
  advisory locks.
\<close>

definition compatible :: "owner_tx \<Rightarrow> owner_tx \<Rightarrow> bool" where
  "compatible t u \<longleftrightarrow>
     (ot_community t = ot_community u \<longrightarrow>
        set (ot_locked t) \<inter> set (ot_locked u) = {} \<and> ot_expected t \<noteq> None \<and> ot_expected u \<noteq> None)
     \<and> (ot_expected t \<noteq> None \<and> ot_expected u \<noteq> None \<longrightarrow>
          owner_count_advisory_lock_key (ot_pubkey t) \<noteq> owner_count_advisory_lock_key (ot_pubkey u))"

lemma compatible_sym: "compatible t u \<Longrightarrow> compatible u t"
  unfolding compatible_def by (metis inf_commute)

definition granting :: "owner_tx \<Rightarrow> bool" where
  "granting t \<longleftrightarrow> (case ot_phase t of Upserting \<Rightarrow> True | Upserted \<Rightarrow> True | Demoting qs \<Rightarrow> True | _ \<Rightarrow> False)"

definition limited :: "roster_db \<Rightarrow> owner_tx \<Rightarrow> bool" where
  "limited st t \<longleftrightarrow> ot_expected t \<noteq> None \<and> (granting t \<longrightarrow> owned_count (ot_pubkey t) st < 3)"

definition sys_inv :: "rotations \<Rightarrow> roster_system \<Rightarrow> bool" where
  "sys_inv rotation = (\<lambda>(st, ps, ts). tables_ok st \<and> sole (owner_set st) \<and> pending_modest ps
     \<and> (\<forall>t \<in> set ts. tx_ok st t) \<and> sorted_wrt compatible ts
     \<and> (rotation = NoRotation \<longrightarrow> (\<forall>t \<in> set ts. limited st t)))"

lemma compatible_others: "sorted_wrt compatible (xs @ t # ys) \<Longrightarrow> u \<in> set (xs @ ys) \<Longrightarrow> compatible t u"
  by (auto simp: sorted_wrt_append intro: compatible_sym)

lemma compatible_replace:
  assumes "sorted_wrt compatible (xs @ t # ys)" "\<And>u. u \<in> set (xs @ ys) \<Longrightarrow> compatible t' u"
  shows "sorted_wrt compatible (xs @ t' # ys)"
  using assms compatible_sym by (auto simp: sorted_wrt_append)

text \<open>A statement.\<close>

lemma statement_compatible:
  assumes "tx_statement t st = Continue t'" "\<forall>p. awaits t = Some p \<longrightarrow> row_free (ot_community t) p us"
    and "compatible t u" "u \<in> set us"
  shows "compatible t' u"
  using assms(2-4) statement_fields [OF assms(1)] unfolding compatible_def row_free_def by fastforce

lemma statement_limited:
  assumes "tx_statement t st = Continue t'" "limited st t" shows "limited st t'"
  using assms statement_fields(2,3) [OF assms(1)] demote_row_fields(4)
  by (auto simp: limited_def granting_def tx_statement_def check_owners_def MAX_COMMUNITIES_PER_OWNER_def Let_def
      split: owner_phase.splits list.splits if_splits)

lemma statement_inv:
  assumes "sys_inv rotation (st, ps, xs @ t # ys)" "tx_statement t st = Continue t'"
    and "\<forall>p. awaits t = Some p \<longrightarrow> row_free (ot_community t) p (xs @ ys)"
  shows "sys_inv rotation (st, ps, xs @ t' # ys)"
proof -
  have s: "sorted_wrt compatible (xs @ t # ys)" "tables_ok st" "tx_ok st t" using assms(1) by (simp_all add: sys_inv_def)
  have "sorted_wrt compatible (xs @ t' # ys)"
    by (rule compatible_replace [OF s(1)]) (use statement_compatible [OF assms(2,3)] compatible_others [OF s(1)] in blast)
  then show ?thesis
    using assms(1) statement_ok [OF assms(2) s(2,3)] statement_limited [OF assms(2)] by (auto simp: sys_inv_def)
qed

text \<open>A commit: nobody else on the community is engaged, and nobody else grants the same key.\<close>

lemma publish_alone:
  assumes "sole (owner_set st)" "tx_statement t st = Finished" "tx_ok st t" "tx_ok st u" "compatible t u"
    and "ot_community u = ot_community t"
  shows "\<not> settled u"
proof -
  have "ot_phase t = Demoting []"
    using assms(2)
    by (auto simp: tx_statement_def check_owners_def Let_def split: owner_phase.splits list.splits if_splits)
  moreover have tr: "ot_expected t \<noteq> None" "ot_expected u \<noteq> None" and dis: "set (ot_locked t) \<inter> set (ot_locked u) = {}"
    using assms(5,6) by (simp_all add: compatible_def)
  ultimately obtain p where p: "p \<in> set (ot_locked t)" "(ot_community t, p) \<in> owner_set st"
    using assms(3) by (auto simp: tx_ok_def engaged_def anchored_def owner_set_def)
  have "\<not> anchored st u"
    using soleD [OF assms(1) p(2)] p(1) dis assms(6) by (fastforce simp: anchored_def owner_set_def)
  then have "\<not> engaged u" using assms(4) by (auto simp: tx_ok_def)
  then show ?thesis using tr(2) by (auto simp: settled_def engaged_def split: owner_phase.splits)
qed

lemma owned_count_mono:
  assumes "tables_ok st" "tables_ok st'" "\<And>c. (c, pk) \<in> owner_set st' \<Longrightarrow> (c, pk) \<in> owner_set st"
  shows "owned_count pk st' \<le> owned_count pk st"
proof -
  have "finite {c. (c, pk) \<in> owner_set st}"
    by (rule finite_subset [of _ "fst ` owner_set st"]) (auto simp: owned_iff finite_owner_set)
  then show ?thesis using assms by (auto simp: owned_count_card intro!: card_mono)
qed

lemma publish_inv:
  assumes "sys_inv rotation (st, ps, xs @ t # ys)" "tx_statement t st = Finished"
  shows "sys_inv rotation (overlay t st, ps, xs @ ys)"
    and "owners_step (rotation \<noteq> NoRotation) st (overlay t st)"
proof -
  have s: "tables_ok st" "sole (owner_set st)" "tx_ok st t" "sorted_wrt compatible (xs @ t # ys)"
    using assms(1) by (simp_all add: sys_inv_def)
  note own = published_owners [OF assms(2) s(3)]
  have ph: "ot_phase t = Demoting []"
    using assms(2)
    by (auto simp: tx_statement_def check_owners_def Let_def split: owner_phase.splits list.splits if_splits)
  have ok: "tables_ok (overlay t st)" by (rule tables_ok_published [OF s(1,3)])
  have lim: "ot_expected t \<noteq> None" "owned_count (ot_pubkey t) st < 3" if "rotation = NoRotation"
    using assms(1) that ph by (auto simp: sys_inv_def limited_def granting_def)
  have "ot_community t \<in> fst ` owner_set st" if "ot_expected t \<noteq> None"
    using s(3) ph that by (force simp: tx_ok_def engaged_def anchored_def owner_set_def)
  then show step: "owners_step (rotation \<noteq> NoRotation) st (overlay t st)"
    using own lim unfolding owners_step_def by (cases "rotation = NoRotation") blast+
  have others: "tx_ok (overlay t st) u" if u: "u \<in> set (xs @ ys)" for u
  proof (cases "ot_community u = ot_community t")
    case True
    have "tx_ok st u" using assms(1) u by (auto simp: sys_inv_def)
    then show ?thesis
      using publish_alone [OF s(2) assms(2) s(3) _ compatible_others [OF s(4) u] True] tx_ok_unsettled by blast
  next
    case False
    have "tx_ok st u" using assms(1) u by (auto simp: sys_inv_def)
    then show ?thesis by (rule tx_ok_cong) (simp_all add: role_overlay False)
  qed
  have limits: "limited (overlay t st) u" if no: "rotation = NoRotation" and u: "u \<in> set (xs @ ys)" for u
  proof -
    have lu: "limited st u" using assms(1) no u by (auto simp: sys_inv_def)
    then have "ot_pubkey u \<noteq> ot_pubkey t"
      using compatible_others [OF s(4) u] lim(1) [OF no] by (auto simp: compatible_def limited_def)
    then have "owned_count (ot_pubkey u) (overlay t st) \<le> owned_count (ot_pubkey u) st"
      by (intro owned_count_mono s(1) ok) (simp add: own split: if_splits)
    then show ?thesis using lu by (auto simp: limited_def)
  qed
  have "sorted_wrt compatible (xs @ ys)" using s(4) by (auto simp: sorted_wrt_append)
  then show "sys_inv rotation (overlay t st, ps, xs @ ys)"
    using assms(1) ok others limits owners_step_sole [OF step s(2)] by (auto simp: sys_inv_def)
qed

text \<open>The beginning of a transaction and the steps of other sessions.\<close>

lemma tx_ok_new [simp]: "tx_ok st (transfer_ownership now c pk ex)" "tx_ok st (bootstrap_owner now c pk)"
  by (simp_all add: tx_ok_def engaged_def transfer_ownership_def bootstrap_owner_def)

lemma limited_new [simp]: "limited st (transfer_ownership now c pk ex)"
  by (simp add: limited_def granting_def transfer_ownership_def)

lemma session_inv:
  assumes "sys_inv rotation (st, ps, ts)" "session_step sql_lower ts (st, ps) (st', ps')"
  shows "sys_inv rotation (st', ps', ts) \<and> owners_step (rotation \<noteq> NoRotation) st st'"
proof -
  have s: "tables_ok st" "sole (owner_set st)" using assms(1) by (simp_all add: sys_inv_def)
  have "pending_modest ps'" and "quiet st st' \<or> founds ts st st'"
    using session_step_effect [OF assms(2)] assms(1) by (auto simp: sys_inv_def)
  then consider (quiet) "quiet st st'" | (founds) "founds ts st st'" by blast
  then show ?thesis
  proof cases
    case quiet
    then have ok: "tables_ok st'" "owner_set st' = owner_set st" by (simp_all add: quiet_def)
    then have "owned_count pk st' = owned_count pk st" for pk using s(1) by (simp add: owned_count_card)
    then show ?thesis
      using assms(1) \<open>pending_modest ps'\<close> tx_ok_quiet [OF quiet] ok
      by (auto simp: sys_inv_def limited_def owners_step_def)
  next
    case founds
    then obtain i pk where f: "tables_ok st'" "i \<notin> fst ` set (rd_communities st)" "owned_count pk st < 3" "key_free pk ts"
        "owner_set st' = insert (i, pk) (owner_set st)" unfolding founds_def by blast
    have "i \<notin> fst ` owner_set st" using owner_set_community [OF s(1)] f(2) by auto
    then have step: "owners_step (rotation \<noteq> NoRotation) st st'" using f(3,5) unfolding owners_step_def by blast
    have "limited st' u" if "u \<in> set ts" "limited st u" for u
    proof -
      have "ot_pubkey u \<noteq> pk" using f(4) that by (auto simp: key_free_def limited_def)
      then have "owned_count (ot_pubkey u) st' \<le> owned_count (ot_pubkey u) st"
        by (intro owned_count_mono s(1) f(1)) (simp add: f(5))
      then show ?thesis using that(2) by (auto simp: limited_def)
    qed
    then show ?thesis
      using assms(1) \<open>pending_modest ps'\<close> tx_ok_founds [OF founds s(1)] f(1) step owners_step_sole [OF step s(2)]
      by (auto simp: sys_inv_def)
  qed
qed

lemma roster_step_inv:
  assumes "roster_step sql_lower rotation s s'" "rotation \<noteq> AnyRotation" "sys_inv rotation s"
  shows "sys_inv rotation s' \<and> owners_step (rotation \<noteq> NoRotation) (fst s) (fst s')"
  using assms(1,3)
proof (induction rule: roster_step.induct)
  case (session ts st ps st' ps')
  then show ?case using session_inv [of rotation st ps ts] by simp
next
  case (begin_transfer pk ts c st ps now expected)
  then have "\<forall>u \<in> set ts. compatible (transfer_ownership now c pk expected) u"
    using assms(2) by (cases rotation)
      (auto simp: compatible_def transfer_ownership_def key_free_def sys_inv_def limited_def)
  then show ?case using begin_transfer.prems by (simp add: sys_inv_def)
next
  case (begin_bootstrap ts c st ps now pk)
  then have "\<forall>u \<in> set ts. compatible (bootstrap_owner now c pk) u" "rotation = SerialRotation"
    using assms(2) by (cases rotation; auto simp: compatible_def bootstrap_owner_def)+
  then show ?case using begin_bootstrap.prems by (simp add: sys_inv_def)
next
  case (statement t st t' xs ys ps)
  then show ?case using statement_inv [of rotation st ps xs t ys t'] by simp
next
  case (publish t st ps xs ys)
  then show ?case using publish_inv [of rotation st ps xs t ys] by simp
next
  case (abort st ps xs t ys)
  then show ?case by (auto simp: sys_inv_def sorted_wrt_append)
qed

lemma roster_run_inv:
  assumes "(roster_step sql_lower rotation)\<^sup>*\<^sup>* s s'" "rotation \<noteq> AnyRotation" "sys_inv rotation s"
  shows "sys_inv rotation s'"
  using assms(1,3) by (induction rule: rtranclp_induct) (auto dest: roster_step_inv [OF _ assms(2)])

lemma start_inv: "sys_inv rotation (empty_roster, [], [])"
  by (simp add: sys_inv_def tables_ok_def empty_roster_def get_relay_member_def owner_set_def role_of_def sole_def
      pending_modest_def)

lemma roster_reachable_inv:
  "roster_reachable sql_lower rotation s \<Longrightarrow> rotation \<noteq> AnyRotation \<Longrightarrow> sys_inv rotation s"
  unfolding roster_reachable_def by (rule roster_run_inv [OF _ _ start_inv])

section \<open>One owner\<close>

text \<open>
  C22 (One owner). As long as no other ownership transaction of a community is open while a bootstrap of that
  community is, a community never has two owners, and one that has an owner keeps having exactly one: transfers and
  creations interleave with each other and with all other writes statement by statement, wait for each other's rows,
  fail and are aborted in any way.
\<close>

theorem one_owner:
  assumes "roster_reachable sql_lower rotation s" "rotation \<noteq> AnyRotation"
    and "(roster_step sql_lower rotation)\<^sup>*\<^sup>* s s'" "owners_of c (fst s) \<noteq> []"
  shows "\<exists>pk. owners_of c (fst s') = [pk]"
proof -
  note inv = roster_reachable_inv [OF assms(1,2)]
  have "tables_ok (fst s)" using inv by (auto simp: sys_inv_def)
  then have "c \<in> fst ` owner_set (fst s)"
    using assms(4) set_owners_of [of "fst s" c] by (cases "owners_of c (fst s)") (auto simp: owned_iff)
  with assms(3) have c': "c \<in> fst ` owner_set (fst s')"
  proof (induction rule: rtranclp_induct)
    case (step t t')
    have "sys_inv rotation t" by (rule roster_run_inv [OF step.hyps(1) assms(2) inv])
    then show ?case using roster_step_inv [OF step.hyps(2) assms(2)] owners_step_keeps step.IH [OF step.prems] by blast
  qed
  have ok: "tables_ok (fst s')" and one: "sole (owner_set (fst s'))"
    using roster_run_inv [OF assms(3,2) inv] by (auto simp: sys_inv_def)
  obtain pk where pk: "(c, pk) \<in> owner_set (fst s')" using c' unfolding owned_iff by blast
  then have "{p. (c, p) \<in> owner_set (fst s')} = {pk}" by (rule sole_section [OF one])
  then have "set (owners_of c (fst s')) = {pk}" by (simp only: set_owners_of [OF ok])
  then have "owners_of c (fst s') = [pk]" by (rule distinct_singleton [OF distinct_owners_of [OF ok]])
  then show ?thesis by (rule exI)
qed

text \<open>
  Three communities. As long as the deployment does not rotate owners, no key owns more than three
  communities, however creations and transfers interleave.
\<close>

theorem owned_at_most_three:
  assumes "roster_reachable sql_lower NoRotation s" shows "owned_count pk (fst s) \<le> 3"
  using assms unfolding roster_reachable_def
proof (induction rule: rtranclp_induct)
  case base
  show ?case by (simp add: owned_count_def empty_roster_def)
next
  case (step t t')
  have inv: "sys_inv NoRotation t" by (rule roster_reachable_inv) (use step.hyps(1) in \<open>simp_all add: roster_reachable_def\<close>)
  have "tables_ok (fst t)" "tables_ok (fst t')"
    using inv roster_step_inv [OF step.hyps(2) _ inv] by (auto simp: sys_inv_def)
  then show ?case using roster_step_inv [OF step.hyps(2) _ inv] owned_bound step.IH by simp
qed

section \<open>Two owners\<close>



text \<open>
  A transfer that was overtaken while it waited for the owner's row finds that row no longer the owner's, and the
  new owner was not among the rows it looks at: it reports that the community has no owner.
\<close>

lemma overtaken_transfer_reports_no_owner:
  assumes "ot_phase t = Scanning [p] []" "role_of (ot_community t) p st \<noteq> Some owner_role"
    and "tx_statement t st = Continue t'"
  shows "tx_statement t' st' = Rollback NoOwner"
  using assms by (auto simp: tx_statement_def check_owners_def)

section \<open>A transaction on its own\<close>

text \<open>Every statement brings a transaction closer to its end.\<close>

fun phase_rank :: "owner_phase \<Rightarrow> nat" where
  "phase_rank Starting = 6"
| "phase_rank (Scanning ps existing) = 5"
| "phase_rank Counting = 4"
| "phase_rank Upserting = 3"
| "phase_rank Upserted = 2"
| "phase_rank (Demoting qs) = 1"

fun phase_rows :: "owner_phase \<Rightarrow> nat" where
  "phase_rows (Scanning ps existing) = length ps"
| "phase_rows (Demoting qs) = length qs"
| "phase_rows ph = 0"

lemma statement_progress:
  assumes "tx_statement t st = Continue t'"
  shows "(t', t) \<in> measures [phase_rank \<circ> ot_phase, phase_rows \<circ> ot_phase]"
  using assms
  by (auto simp: tx_statement_def check_owners_def Let_def demote_row_fields split: owner_phase.splits list.splits if_splits)

function run_alone :: "owner_tx \<Rightarrow> roster_db \<Rightarrow> roster_db \<times> (unit + transfer_result)" where
  "run_alone t st =
     (case tx_statement t st of
        Continue t' \<Rightarrow> run_alone t' st
      | Rollback r \<Rightarrow> (st, Ok r)
      | Refused \<Rightarrow> (st, Err ())
      | Finished \<Rightarrow> (overlay t st, Ok (Transferred (ot_previous t))))"
  by pat_completeness auto
termination
proof (relation "inv_image (measures [phase_rank \<circ> ot_phase, phase_rows \<circ> ot_phase]) fst")
  fix t st t' assume "tx_statement t st = Continue t'"
  from statement_progress [OF this]
  show "((t', st), (t, st)) \<in> inv_image (measures [phase_rank \<circ> ot_phase, phase_rows \<circ> ot_phase]) fst" by simp
qed simp

declare run_alone.simps [simp del]

lemma alone_steps:
  "(roster_step sql_lower rotation)\<^sup>*\<^sup>* (st, ps, [t]) (fst (run_alone t st), ps, [])"
proof (induction t st rule: run_alone.induct)
  case (1 t st)
  show ?case
  proof (cases "tx_statement t st")
    case (Continue t')
    then have "roster_step sql_lower rotation (st, ps, [] @ t # []) (st, ps, [] @ t' # [])"
      by (intro roster_step.statement) (simp_all add: row_free_def)
    then show ?thesis using 1 [OF Continue] Continue by (simp add: run_alone.simps [of t st] converse_rtranclp_into_rtranclp)
  next
    case Finished
    then show ?thesis
      using roster_step.publish [OF Finished, of sql_lower rotation ps "[]" "[]"] by (simp add: run_alone.simps [of t st])
  qed (use roster_step.abort [of sql_lower rotation st ps "[]" t "[]"] in \<open>simp_all add: run_alone.simps [of t st]\<close>)
qed

lemma transfer_steps:
  "(roster_step sql_lower rotation)\<^sup>*\<^sup>* (st, ps, []) (fst (run_alone (transfer_ownership now c pk ex) st), ps, [])"
  using roster_step.begin_transfer [of pk "[]" rotation c sql_lower st ps now ex] alone_steps
  by (simp add: key_free_def) (rule converse_rtranclp_into_rtranclp)

section \<open>A small history\<close>

text \<open>A community is created for the key \<open>a\<close> and transferred to \<open>b\<close>.\<close>

definition demo_transferred :: roster_db where
  "demo_transferred = fst (run_alone (transfer_ownership 6 demo_uuid ''b'' ''a'') demo_created)"

lemma demo_created_reachable: "roster_reachable (\<lambda>s. s) rotation (demo_created, [], [])"
proof -
  have "session_step (\<lambda>s. s) [] (empty_roster, []) (demo_created, [])"
    unfolding demo_created_def by (rule session_step.create) (simp add: key_free_def)
  then have "roster_step (\<lambda>s. s) rotation (empty_roster, [], []) (demo_created, [], [])"
    by (rule roster_step.session) (simp add: waits_for_def row_free_def)
  then show ?thesis unfolding roster_reachable_def by blast
qed


lemma demo_created_owner: "owners_of demo_uuid demo_created = [''a'']"
  by (simp add: demo_created_eq owners_of_def)

theorem one_owner_witness:
  "owners_of demo_uuid demo_created = [''a''] \<and> (\<exists>pk. owners_of demo_uuid demo_transferred = [pk])"
  using one_owner [OF demo_created_reachable [of NoRotation] _ transfer_steps [of _ _ _ _ 6 demo_uuid "''b''" "''a''"], of demo_uuid]
  by (simp add: demo_created_owner demo_transferred_def)

lemma demo_transferred_owner: "owners_of demo_uuid demo_transferred = [''b'']"
  by (simp add: demo_transferred_def demo_created_eq run_alone.simps tx_statement_def transfer_ownership_def Let_def
      owners_of_def role_of_def get_relay_member_def check_owners_def owned_count_def MAX_COMMUNITIES_PER_OWNER_def
      owner_row_def row_allowed_def overlay_def demote_row_def demoted_role_def to_ascii_lowercase_def to_ascii_lower_def)


theorem owned_at_most_three_witness: "owned_count ''a'' demo_created \<le> 3"
  using owned_at_most_three [OF demo_created_reachable] by simp

end
