(* ===== verification/Invites.thy ===== *)
theory Invites
  imports RelayRoster HttpDoor
begin

text \<open>
  Invites: stateless codes and policy receipts (\<open>crates/buzz-relay/src/invite_token.rs\<close>) and the endpoints that
  mint and claim them (\<open>api/invites.rs\<close>). Parameters (record \<open>invite_lib\<close>): JSON of the two payloads and
  of the request bodies, HMAC-SHA256 and URL-safe base64; \<open>invite_laws\<close> states what the code relies on.
  The laws of the two JSON readers say that a payload of one kind lacks a field of the other.

  The lemmas show when a minted code verifies, and that in any history a claim succeeds only by a code that
  an owner or admin of the same community minted, not after its expiry.
\<close>

section \<open>Tokens\<close>

record invite_payload =
  ip_c :: string
  ip_r :: string
  ip_e :: nat
  ip_n :: string

record policy_payload =
  pp_c :: string
  pp_v :: string
  pp_e :: nat

record claim_request =
  cr_code :: string
  cr_receipt :: "string option"

record accept_request =
  ar_code :: string
  ar_version :: string
  ar_age_confirmed :: bool

record invite_lib =
  il_invite_json :: "invite_payload \<Rightarrow> bytes"
  il_parse_invite :: "bytes \<Rightarrow> invite_payload option"
  il_policy_json :: "policy_payload \<Rightarrow> bytes"
  il_parse_policy :: "bytes \<Rightarrow> policy_payload option"
  il_hmac :: "bytes \<Rightarrow> bytes \<Rightarrow> bytes"
  il_b64 :: "bytes \<Rightarrow> string"
  il_unb64 :: "string \<Rightarrow> bytes option"
  il_parse_mint :: "bytes \<Rightarrow> nat option option"
  il_parse_claim :: "bytes \<Rightarrow> claim_request option"
  il_parse_accept :: "bytes \<Rightarrow> accept_request option"

datatype invite_error = Malformed | BadSignature | Expired | WrongCommunity | InvalidInviteRole

definition DEFAULT_INVITE_TTL_SECS :: nat where "DEFAULT_INVITE_TTL_SECS = 72 * 60 * 60"
definition MAX_INVITE_TTL_SECS :: nat where "MAX_INVITE_TTL_SECS = 30 * 24 * 60 * 60"
definition MAX_CODE_LEN :: nat where "MAX_CODE_LEN = 1024"
definition KEY_DERIVATION_LABEL :: string where "KEY_DERIVATION_LABEL = ''buzz-invite-v1''"

definition derive_invite_key :: "'u http_lib \<Rightarrow> bytes \<Rightarrow> bytes" where
  "derive_invite_key lib secret = hl_sha256 lib (secret @ str_bytes KEY_DERIVATION_LABEL)"

definition sign_payload :: "invite_lib \<Rightarrow> bytes \<Rightarrow> bytes \<Rightarrow> bytes" where
  "sign_payload il key payload_bytes = il_hmac il key payload_bytes"

definition token :: "invite_lib \<Rightarrow> bytes \<Rightarrow> bytes \<Rightarrow> string" where
  "token il key payload_bytes = il_b64 il payload_bytes @ ''.'' @ il_b64 il (sign_payload il key payload_bytes)"

definition mint_invite ::
  "'u http_lib \<Rightarrow> invite_lib \<Rightarrow> bytes \<Rightarrow> uuid \<Rightarrow> nat \<Rightarrow> nat \<Rightarrow> bytes \<Rightarrow> string \<times> nat" where
  "mint_invite lib il key community ttl_secs now nonce =
     (let ttl = (if ttl_secs < 60 then 60 else if MAX_INVITE_TTL_SECS < ttl_secs then MAX_INVITE_TTL_SECS else ttl_secs);
          expires_at = now + ttl;
          payload = \<lparr>ip_c = hl_uuid lib community, ip_r = member_role, ip_e = expires_at, ip_n = il_b64 il nonce\<rparr>
      in (token il key (il_invite_json il payload), expires_at))"

text \<open>The part that both verifiers share: split, decode, and compare the MAC.\<close>

definition open_token :: "invite_lib \<Rightarrow> bytes \<Rightarrow> nat \<Rightarrow> string \<Rightarrow> invite_error + bytes" where
  "open_token il key max_len code =
     (if max_len < length code then Err Malformed
      else and_then (ok_or Malformed (split_once CHR ''.'' code)) (\<lambda>(payload_b64, mac_b64).
        and_then (ok_or Malformed (il_unb64 il payload_b64)) (\<lambda>payload_bytes.
        and_then (ok_or Malformed (il_unb64 il mac_b64)) (\<lambda>mac_bytes.
          if mac_bytes = sign_payload il key payload_bytes then Ok payload_bytes else Err BadSignature))))"

definition verify_invite ::
  "'u http_lib \<Rightarrow> invite_lib \<Rightarrow> bytes \<Rightarrow> uuid \<Rightarrow> string \<Rightarrow> nat \<Rightarrow> invite_error + invite_payload" where
  "verify_invite lib il key community code now =
     and_then (open_token il key MAX_CODE_LEN code) (\<lambda>payload_bytes.
     and_then (ok_or Malformed (il_parse_invite il payload_bytes)) (\<lambda>payload.
       if ip_e payload < now then Err Expired
       else if ip_c payload \<noteq> hl_uuid lib community then Err WrongCommunity
       else if ip_r payload \<noteq> member_role then Err InvalidInviteRole
       else Ok payload))"

definition mint_policy_acceptance ::
  "'u http_lib \<Rightarrow> invite_lib \<Rightarrow> bytes \<Rightarrow> string \<Rightarrow> string \<Rightarrow> nat \<Rightarrow> string" where
  "mint_policy_acceptance lib il key code version now =
     token il key (il_policy_json il
       \<lparr>pp_c = hl_hex lib (hl_sha256 lib (str_bytes code)), pp_v = version, pp_e = now + 10 * 60\<rparr>)"

definition verify_policy_acceptance ::
  "'u http_lib \<Rightarrow> invite_lib \<Rightarrow> bytes \<Rightarrow> string \<Rightarrow> string \<Rightarrow> string \<Rightarrow> nat \<Rightarrow> invite_error + policy_payload" where
  "verify_policy_acceptance lib il key receipt code version now =
     and_then (open_token il key 2048 receipt) (\<lambda>bytes.
     and_then (ok_or Malformed (il_parse_policy il bytes)) (\<lambda>payload.
       if pp_e payload < now then Err Expired
       else if pp_c payload \<noteq> hl_hex lib (hl_sha256 lib (str_bytes code)) \<or> pp_v payload \<noteq> version then Err Malformed
       else Ok payload))"

section \<open>Endpoints\<close>

datatype invite_rejection =
    DoorClosed door_error
  | RoleLookupFailed | NotStaff | InvalidInviteJson
  | TooManyAttempts | InvalidClaimJson | InviteExpired | InviteInvalid | JoinPolicyRequired | ClaimInsertFailed
  | PolicyNotConfigured | InvalidAcceptJson | PolicyNotAccepted

record join_policy =
  jp_version :: string
  jp_age_attestation_required :: bool

record invite_config =
  ic_secret :: bytes
  ic_relay_url :: string
  ic_policy :: "join_policy option"

definition accept_policy ::
  "'u http_lib \<Rightarrow> invite_lib \<Rightarrow> invite_config \<Rightarrow> nat \<Rightarrow> bytes \<Rightarrow> invite_rejection + string" where
  "accept_policy lib il icfg now body =
     (case ic_policy icfg of
        None \<Rightarrow> Err PolicyNotConfigured
      | Some policy \<Rightarrow>
          and_then (ok_or InvalidAcceptJson (il_parse_accept il body)) (\<lambda>request.
            if ar_version request \<noteq> jp_version policy \<or> jp_age_attestation_required policy \<and> \<not> ar_age_confirmed request
            then Err PolicyNotAccepted
            else Ok (mint_policy_acceptance lib il (derive_invite_key lib (ic_secret icfg)) (ar_code request)
                       (jp_version policy) now)))"

text \<open>Minting, for a caller that passed the door: the code, its expiry and the link.\<close>

definition mint_for ::
  "'u http_lib \<Rightarrow> invite_lib \<Rightarrow> invite_config \<Rightarrow> bool \<Rightarrow> nat \<Rightarrow> bytes \<Rightarrow> tenant_context \<Rightarrow> string \<Rightarrow> bytes \<Rightarrow> roster_db
     \<Rightarrow> invite_rejection + string \<times> nat \<times> string" where
  "mint_for lib il icfg lookup_fails now nonce tenant pubkey body db =
     (if lookup_fails then Err RoleLookupFailed
      else let role = (case get_relay_member (tc_community tenant) pubkey db of Some m \<Rightarrow> rm_role m | None \<Rightarrow> []) in
        if role \<noteq> owner_role \<and> role \<noteq> admin_role then Err NotStaff
        else and_then (if body = [] then Ok None else ok_or InvalidInviteJson (il_parse_mint il body)) (\<lambda>requested.
          let ttl = (case requested of Some t \<Rightarrow> t | None \<Rightarrow> DEFAULT_INVITE_TTL_SECS);
              (code, expires_at) = mint_invite lib il (derive_invite_key lib (ic_secret icfg)) (tc_community tenant) ttl now nonce;
              scheme = (if tls_relay (ic_relay_url icfg) then ''https'' else ''http'')
          in Ok (code, expires_at, scheme @ ''://'' @ tc_host tenant @ ''/invite/'' @ code)))"

definition mint_invite_endpoint ::
  "'u http_lib \<Rightarrow> invite_lib \<Rightarrow> 'e bridge_config \<Rightarrow> invite_config \<Rightarrow> request_env \<Rightarrow> bool \<Rightarrow> nat \<Rightarrow> bytes
     \<Rightarrow> (string, string) hmap \<Rightarrow> bytes \<Rightarrow> redis \<times> roster_db \<Rightarrow> redis \<times> (invite_rejection + string \<times> nat \<times> string)" where
  "mint_invite_endpoint lib il cfg icfg env lookup_fails now nonce headers body = (\<lambda>(st, db).
     case invite_door lib cfg env ''/api/invites'' headers body st of
       (st, Inl e) \<Rightarrow> (st, Err (DoorClosed e))
     | (st, Inr (tenant, pubkey)) \<Rightarrow> (st, mint_for lib il icfg lookup_fails now nonce tenant pubkey body db))"

text \<open>
  The limiter of claims, a cache whose entries live 60 seconds from their creation and may be evicted
  before (\<open>evict\<close>); instants in milliseconds. The counter is 32 bits wide.
\<close>

type_synonym claim_limiter = "(uuid \<times> string, 32 word \<times> nat) hmap"

definition CLAIM_RATE_LIMIT :: "32 word" where "CLAIM_RATE_LIMIT = 10"

definition claim_key_rate_limited ::
  "nat \<Rightarrow> (uuid \<times> string \<Rightarrow> bool) \<Rightarrow> uuid \<times> string \<Rightarrow> claim_limiter \<Rightarrow> claim_limiter \<times> bool" where
  "claim_key_rate_limited now evict key cache =
     (let live = filter (\<lambda>(k, _, created). \<not> evict k \<and> now < created + 60000) cache;
          (count, created) = (case map_of live key of Some e \<Rightarrow> e | None \<Rightarrow> (0, now))
      in (AList.update key (count + 1, created) live, CLAIM_RATE_LIMIT \<le> count))"

record claim_env =
  ce_limit_now :: nat
  ce_evict :: "uuid \<times> string \<Rightarrow> bool"
  ce_now :: nat
  ce_receipt_now :: nat
  ce_db_now :: nat
  ce_fault :: db_fault

text \<open>Claiming, for a caller that passed the door: whether a row was inserted, and the role.\<close>

definition claim_for ::
  "'u http_lib \<Rightarrow> invite_lib \<Rightarrow> invite_config \<Rightarrow> claim_env \<Rightarrow> tenant_context \<Rightarrow> string \<Rightarrow> bytes
     \<Rightarrow> claim_limiter \<times> roster_db \<Rightarrow> (claim_limiter \<times> roster_db) \<times> (invite_rejection + bool \<times> string)" where
  "claim_for lib il icfg ce tenant pubkey body = (\<lambda>(cache, db).
     let c = tc_community tenant;
         (cache, limited) = claim_key_rate_limited (ce_limit_now ce) (ce_evict ce) (c, pubkey) cache;
         stop = (\<lambda>e. ((cache, db), Err e))
     in if limited then stop TooManyAttempts
        else case il_parse_claim il body of
          None \<Rightarrow> stop InvalidClaimJson
        | Some request \<Rightarrow>
            let key = derive_invite_key lib (ic_secret icfg) in
            case verify_invite lib il key c (cr_code request) (ce_now ce) of
              Inl e \<Rightarrow> stop (if e = Expired then InviteExpired else InviteInvalid)
            | Inr payload \<Rightarrow>
                let receipt_ok = (case ic_policy icfg of
                       None \<Rightarrow> True
                     | Some policy \<Rightarrow> (case cr_receipt request of
                         None \<Rightarrow> False
                       | Some receipt \<Rightarrow> is_ok (verify_policy_acceptance lib il key receipt (cr_code request)
                                                 (jp_version policy) (ce_receipt_now ce))))
                in if \<not> receipt_ok then stop JoinPolicyRequired
                   else (let (db, r) = commit (ce_fault ce) db (claim_relay_membership (ce_db_now ce) c pubkey (ip_r payload)
                                          (map_option jp_version (ic_policy icfg)) db)
                         in ((cache, db), case r of Inl _ \<Rightarrow> Err ClaimInsertFailed | Inr b \<Rightarrow> Ok (b, ip_r payload))))"

definition claim_invite_endpoint ::
  "'u http_lib \<Rightarrow> invite_lib \<Rightarrow> 'e bridge_config \<Rightarrow> invite_config \<Rightarrow> request_env \<Rightarrow> claim_env \<Rightarrow> (string, string) hmap \<Rightarrow> bytes
     \<Rightarrow> redis \<times> claim_limiter \<times> roster_db \<Rightarrow> (redis \<times> claim_limiter \<times> roster_db) \<times> (invite_rejection + bool \<times> string)" where
  "claim_invite_endpoint lib il cfg icfg env ce headers body = (\<lambda>(st, s).
     case invite_door lib cfg env ''/api/invites/claim'' headers body st of
       (st, Inl e) \<Rightarrow> ((st, s), Err (DoorClosed e))
     | (st, Inr (tenant, pubkey)) \<Rightarrow>
         (let (s, r) = claim_for lib il icfg ce tenant pubkey body s in ((st, s), r)))"

section \<open>What the tokens rely on\<close>

definition plain :: "string \<Rightarrow> bool" where
  "plain s \<longleftrightarrow> list_all (\<lambda>ch. graphic ch \<and> ch \<noteq> CHR 0x22 \<and> ch \<noteq> CHR 0x5C) s"

definition plain_invite :: "invite_payload \<Rightarrow> bool" where
  "plain_invite p \<longleftrightarrow> plain (ip_c p) \<and> plain (ip_r p) \<and> plain (ip_n p)"

text \<open>
  Base64 without padding is injective, free of dots and at most twice as long; a MAC has 32 bytes; the JSON of
  an invite with plain texts has 27 bytes beside them and reads back; no receipt reads as an invite and no
  invite as a receipt; UUID texts are distinct, plain and 36 long.
\<close>

definition invite_laws :: "'u http_lib \<Rightarrow> invite_lib \<Rightarrow> bool" where
  "invite_laws lib il \<longleftrightarrow>
     (\<forall>x. il_unb64 il (il_b64 il x) = Some x \<and> CHR ''.'' \<notin> set (il_b64 il x) \<and> plain (il_b64 il x)
        \<and> length (il_b64 il x) \<le> 2 * length x)
     \<and> (\<forall>k b. length (il_hmac il k b) = 32)
     \<and> (\<forall>p. plain_invite p \<longrightarrow> il_parse_invite il (il_invite_json il p) = Some p
          \<and> length (il_invite_json il p)
              = 27 + length (ip_c p) + length (ip_r p) + length (show_nat (ip_e p)) + length (ip_n p))
     \<and> (\<forall>p. il_parse_invite il (il_policy_json il p) = None) \<and> (\<forall>p. il_parse_policy il (il_invite_json il p) = None)
     \<and> inj (hl_uuid lib) \<and> (\<forall>u. length (hl_uuid lib u) = 36 \<and> plain (hl_uuid lib u))"

lemma invite_lawsD:
  assumes "invite_laws lib il"
  shows "il_unb64 il (il_b64 il x) = Some x" "CHR ''.'' \<notin> set (il_b64 il x)" "plain (il_b64 il x)"
    "length (il_b64 il x) \<le> 2 * length x" "length (il_hmac il k b) = 32"
    "plain_invite p \<Longrightarrow> il_parse_invite il (il_invite_json il p) = Some p"
    "plain_invite p \<Longrightarrow> length (il_invite_json il p)
              = 27 + length (ip_c p) + length (ip_r p) + length (show_nat (ip_e p)) + length (ip_n p)"
    "il_parse_invite il (il_policy_json il q) = None" "il_parse_policy il (il_invite_json il p) = None"
    "hl_uuid lib u = hl_uuid lib v \<longleftrightarrow> u = v" "length (hl_uuid lib u) = 36" "plain (hl_uuid lib u)"
  using assms by (auto simp: invite_laws_def inj_eq)

lemma split_token:
  assumes "invite_laws lib il"
  shows "split_once CHR ''.'' (token il key b) = Some (il_b64 il b, il_b64 il (sign_payload il key b))"
  using split_once_append [OF invite_lawsD(2) [OF assms]] by (simp add: token_def)

lemma open_token_ok:
  assumes "invite_laws lib il"
  shows "open_token il key max_len (token il key b)
    = (if max_len < length (token il key b) then Err Malformed else Ok b)"
  by (simp add: open_token_def split_token [OF assms] invite_lawsD(1) [OF assms])

lemma plain_member [simp]: "plain member_role"
  by (simp add: plain_def graphic_def)

lemma minted_payload_plain:
  assumes "invite_laws lib il"
  shows "plain_invite \<lparr>ip_c = hl_uuid lib c, ip_r = member_role, ip_e = e, ip_n = il_b64 il nonce\<rparr>"
  by (simp add: plain_invite_def invite_lawsD(3,12) [OF assms])

lemma minted_length:
  assumes "invite_laws lib il" "e < 2 ^ 64" "length nonce = 16"
  shows "length (token il key (il_invite_json il
    \<lparr>ip_c = hl_uuid lib c, ip_r = member_role, ip_e = e, ip_n = il_b64 il nonce\<rparr>)) \<le> MAX_CODE_LEN"
proof -
  let ?p = "\<lparr>ip_c = hl_uuid lib c, ip_r = member_role, ip_e = e, ip_n = il_b64 il nonce\<rparr>"
  have "length (show_nat e) \<le> 20" by (rule length_show_nat) (use assms(2) in simp_all)
  moreover have "length (il_b64 il nonce) \<le> 32" using invite_lawsD(4) [OF assms(1), of nonce] assms(3) by simp
  ultimately have "length (il_invite_json il ?p) \<le> 121"
    using invite_lawsD(7) [OF assms(1) minted_payload_plain [OF assms(1)], of c e nonce]
    by (simp add: invite_lawsD(11) [OF assms(1)])
  then have len: "length (il_b64 il (il_invite_json il ?p)) \<le> 242"
    using invite_lawsD(4) [OF assms(1), of "il_invite_json il ?p"] by simp
  have mac: "length (il_b64 il (sign_payload il key b)) \<le> 64" for b
    using invite_lawsD(4) [OF assms(1), of "sign_payload il key b"]
    by (simp add: sign_payload_def invite_lawsD(5) [OF assms(1)])
  show ?thesis
    using add_mono [OF len mac [of "il_invite_json il ?p"]] by (simp add: token_def MAX_CODE_LEN_def)
qed

lemma minted_verifies_aux:
  assumes "invite_laws lib il" "mint_invite lib il key c ttl now nonce = (code, e)" "e < 2 ^ 64" "length nonce = 16"
  shows "now + 60 \<le> e \<and> e \<le> now + 30 * 24 * 60 * 60
    \<and> verify_invite lib il key c' code now' =
       (if e < now' then Err Expired
        else if c' \<noteq> c then Err WrongCommunity
        else Ok \<lparr>ip_c = hl_uuid lib c, ip_r = member_role, ip_e = e, ip_n = il_b64 il nonce\<rparr>)"
proof -
  let ?p = "\<lparr>ip_c = hl_uuid lib c, ip_r = member_role, ip_e = e, ip_n = il_b64 il nonce\<rparr>"
  from assms(2) have code: "code = token il key (il_invite_json il ?p)"
    and ttl: "now + 60 \<le> e" "e \<le> now + 30 * 24 * 60 * 60"
    by (auto simp: mint_invite_def Let_def MAX_INVITE_TTL_SECS_def split: if_splits)
  have "open_token il key MAX_CODE_LEN code = Ok (il_invite_json il ?p)"
    using minted_length [OF assms(1,3,4), of key c] by (simp add: code open_token_ok [OF assms(1)])
  then show ?thesis
    using ttl invite_lawsD(6) [OF assms(1) minted_payload_plain [OF assms(1)], of c e nonce]
    by (simp add: verify_invite_def invite_lawsD(10) [OF assms(1)] del: and_then_eq_Ok)
qed

text \<open>
  Minted codes. A minted code lives between a minute and 30 days and verifies until then, for its own
  community and with the member's role; another community refuses it, and later everyone does.
\<close>

theorem minted_invite_verifies:
  assumes "invite_laws lib il" "mint_invite lib il key c ttl now nonce = (code, e)" "e < 2 ^ 64" "length nonce = 16"
  shows "now + 60 \<le> e \<and> e \<le> now + 30 * 24 * 60 * 60
    \<and> verify_invite lib il key c' code now' =
       (if e < now' then Err Expired
        else if c' \<noteq> c then Err WrongCommunity
        else Ok \<lparr>ip_c = hl_uuid lib c, ip_r = member_role, ip_e = e, ip_n = il_b64 il nonce\<rparr>)"
  by (rule minted_verifies_aux [OF assms])

section \<open>Histories of claims\<close>

text \<open>
  The history records every minted code with its community, expiry, minter and the role the minter had then,
  and every successful claim with its community, key and second. Between the calls the roster changes in
  any way. HMAC is not forged: the payload of a code that opens was signed by this relay, as an invite it
  minted or as a receipt (\<open>genuine\<close>).
\<close>

type_synonym issued = "(uuid \<times> nat \<times> string \<times> string \<times> string) list"
type_synonym claimed = "(uuid \<times> string \<times> nat) list"

definition genuine :: "invite_lib \<Rightarrow> bytes \<Rightarrow> issued \<Rightarrow> string \<Rightarrow> bool" where
  "genuine il key iss code \<longleftrightarrow>
     (\<forall>b. open_token il key MAX_CODE_LEN code = Ok b \<longrightarrow>
        (\<exists>(c, e, minter, role, code') \<in> set iss. open_token il key MAX_CODE_LEN code' = Ok b) \<or> (\<exists>q. b = il_policy_json il q))"

definition role_text :: "uuid \<Rightarrow> string \<Rightarrow> roster_db \<Rightarrow> string" where
  "role_text c pk db = (case get_relay_member c pk db of Some m \<Rightarrow> rm_role m | None \<Rightarrow> [])"

inductive claims_step ::
  "'u http_lib \<Rightarrow> invite_lib \<Rightarrow> invite_config \<Rightarrow> roster_db \<times> issued \<times> claimed \<Rightarrow> roster_db \<times> issued \<times> claimed \<Rightarrow> bool"
  for lib il icfg where
  minted: "mint_for lib il icfg fails now nonce tenant pubkey body db = Ok (code, e, url)
    \<Longrightarrow> claims_step lib il icfg (db, iss, cl)
          (db, (tc_community tenant, e, pubkey, role_text (tc_community tenant) pubkey db, code) # iss, cl)"
| claimed: "claim_for lib il icfg ce tenant pubkey body (cache, db) = ((cache', db'), Ok r)
    \<Longrightarrow> il_parse_claim il body = Some request
    \<Longrightarrow> genuine il (derive_invite_key lib (ic_secret icfg)) iss (cr_code request)
    \<Longrightarrow> claims_step lib il icfg (db, iss, cl) (db', iss, (tc_community tenant, pubkey, ce_now ce) # cl)"
| refused: "claim_for lib il icfg ce tenant pubkey body (cache, db) = ((cache', db'), Err e)
    \<Longrightarrow> claims_step lib il icfg (db, iss, cl) (db', iss, cl)"
| others: "claims_step lib il icfg (db, iss, cl) (db', iss, cl)"

inductive_cases claims_stepE: "claims_step lib il icfg (db, iss, cl) s'"

definition claims_reachable where
  "claims_reachable lib il icfg db0 = (claims_step lib il icfg)\<^sup>*\<^sup>* (db0, [], [])"

text \<open>A minted code opens as the payload it was minted with; a successful claim presented such a code.\<close>

definition issued_ok :: "'u http_lib \<Rightarrow> invite_lib \<Rightarrow> bytes \<Rightarrow> uuid \<times> nat \<times> string \<times> string \<times> string \<Rightarrow> bool" where
  "issued_ok lib il key = (\<lambda>(c, e, minter, role, code).
     staff role \<and> (\<exists>n. \<forall>b. open_token il key MAX_CODE_LEN code = Ok b \<longrightarrow>
       b = il_invite_json il \<lparr>ip_c = hl_uuid lib c, ip_r = member_role, ip_e = e, ip_n = il_b64 il n\<rparr>))"

definition backed :: "issued \<Rightarrow> uuid \<times> string \<times> nat \<Rightarrow> bool" where
  "backed iss = (\<lambda>(c, pk, t). \<exists>e minter role code. (c, e, minter, role, code) \<in> set iss \<and> staff role \<and> t \<le> e)"

lemma minted_issued_ok:
  assumes "invite_laws lib il" "mint_for lib il icfg fails now nonce tenant pubkey body db = Ok (code, e, url)"
  shows "issued_ok lib il (derive_invite_key lib (ic_secret icfg))
    (tc_community tenant, e, pubkey, role_text (tc_community tenant) pubkey db, code)"
proof -
  let ?key = "derive_invite_key lib (ic_secret icfg)" let ?c = "tc_community tenant"
  from assms(2) obtain ttl where code: "mint_invite lib il ?key ?c ttl now nonce = (code, e)"
    and role: "staff (role_text ?c pubkey db)"
    by (auto simp: mint_for_def role_text_def staff_def Let_def case_prod_unfold prod_eq_iff split: if_splits)
  have "open_token il ?key MAX_CODE_LEN code = Ok b
      \<Longrightarrow> b = il_invite_json il \<lparr>ip_c = hl_uuid lib ?c, ip_r = member_role, ip_e = e, ip_n = il_b64 il nonce\<rparr>" for b
    using code by (auto simp: mint_invite_def Let_def open_token_ok [OF assms(1)] split: if_splits)
  then show ?thesis using role by (auto simp: issued_ok_def)
qed

lemma verify_invite_OkD:
  "verify_invite lib il key c code now = Ok payload \<Longrightarrow>
     \<exists>b. open_token il key MAX_CODE_LEN code = Ok b \<and> il_parse_invite il b = Some payload \<and> now \<le> ip_e payload
       \<and> ip_c payload = hl_uuid lib c \<and> ip_r payload = member_role"
  by (auto simp: verify_invite_def split: if_splits)

lemma claim_for_OkD:
  assumes "claim_for lib il icfg ce tenant pubkey body (cache, db) = (s, Ok r)" "il_parse_claim il body = Some request"
  shows "\<exists>payload. verify_invite lib il (derive_invite_key lib (ic_secret icfg)) (tc_community tenant) (cr_code request)
           (ce_now ce) = Ok payload"
  using assms by (auto simp: claim_for_def Let_def split: prod.splits if_splits sum.splits)

lemma claimed_backed:
  assumes laws: "invite_laws lib il" and iss: "\<forall>x \<in> set iss. issued_ok lib il key x"
    and gen: "genuine il key iss code" and ver: "verify_invite lib il key c code now = Ok payload"
  shows "backed iss (c, pk, now)"
proof -
  obtain b where b: "open_token il key MAX_CODE_LEN code = Ok b" "il_parse_invite il b = Some payload"
      "now \<le> ip_e payload" "ip_c payload = hl_uuid lib c"
    using verify_invite_OkD [OF ver] by blast
  have "\<nexists>q. b = il_policy_json il q" using b(2) invite_lawsD(8) [OF laws] by auto
  then obtain c0 e minter role code' where i: "(c0, e, minter, role, code') \<in> set iss"
      "open_token il key MAX_CODE_LEN code' = Ok b"
    using gen b(1) unfolding genuine_def by blast
  obtain n where role: "staff role"
    and n: "b = il_invite_json il \<lparr>ip_c = hl_uuid lib c0, ip_r = member_role, ip_e = e, ip_n = il_b64 il n\<rparr>"
    using bspec [OF iss i(1)] i(2) by (auto simp: issued_ok_def)
  have "payload = \<lparr>ip_c = hl_uuid lib c0, ip_r = member_role, ip_e = e, ip_n = il_b64 il n\<rparr>"
    using b(2) invite_lawsD(6) [OF laws minted_payload_plain [OF laws], of c0 e n] by (simp add: n)
  then have "c0 = c" "now \<le> e" using b(3,4) invite_lawsD(10) [OF laws] by simp_all
  then show ?thesis using i(1) role by (auto simp: backed_def)
qed

lemma backed_mono: "backed iss x \<Longrightarrow> backed (y # iss) x"
  by (auto simp: backed_def)

text \<open>
  C29 (claims need an invitation). In any history every successful claim is covered by a code that somebody
  minted who was then an owner or admin of that same community, and comes no later than that code's
  expiry; codes of other communities and policy receipts never admit anyone.
\<close>

theorem claim_needs_staff_invite:
  assumes "invite_laws lib il" "claims_reachable lib il icfg db0 (db, iss, cl)" "(c, pk, t) \<in> set cl"
  shows "\<exists>e minter role code. (c, e, minter, role, code) \<in> set iss \<and> staff role \<and> t \<le> e"
proof -
  let ?key = "derive_invite_key lib (ic_secret icfg)"
  define good where "good s \<longleftrightarrow> (\<forall>x \<in> set (fst (snd s)). issued_ok lib il ?key x)
      \<and> (\<forall>x \<in> set (snd (snd s)). backed (fst (snd s)) x)" for s :: "roster_db \<times> issued \<times> claimed"
  have "good s" if "(claims_step lib il icfg)\<^sup>*\<^sup>* (db0, [], []) s" for s
    using that
  proof (induction rule: rtranclp_induct)
    case base
    show ?case by (simp add: good_def)
  next
    case (step s s')
    from step.hyps(2) step.IH show ?case
    proof (induction rule: claims_step.induct)
      case minted
      then show ?case using minted_issued_ok [OF assms(1) minted.hyps] by (simp add: good_def backed_mono)
    next
      case (claimed ce tenant pubkey body cache db cache' db' r request iss cl)
      obtain payload where "verify_invite lib il ?key (tc_community tenant) (cr_code request) (ce_now ce) = Ok payload"
        using claim_for_OkD [OF claimed.hyps(1,2)] by blast
      then have "backed iss (tc_community tenant, pubkey, ce_now ce)"
        using claimed.prems claimed.hyps(3) by (intro claimed_backed [OF assms(1)]) (auto simp: good_def)
      then show ?case using claimed.prems by (simp add: good_def)
    qed (simp_all add: good_def)
  qed
  then show ?thesis using assms(2,3) unfolding claims_reachable_def by (fastforce simp: good_def backed_def)
qed

section \<open>A concrete library\<close>

definition demo_fields :: "string list \<Rightarrow> string" where
  "demo_fields fs = join_with CHR 0x00 (fs @ replicate 23 [])"

definition demo_text :: "bytes \<Rightarrow> string" where
  "demo_text b = map (\<lambda>w. char_of (unat w)) b"

definition demo_il :: invite_lib where
  "demo_il =
     \<lparr>il_invite_json = (\<lambda>p. str_bytes (CHR ''{'' # demo_fields [ip_c p, ip_r p, show_nat (ip_e p), ip_n p])),
      il_parse_invite = (\<lambda>b. case demo_text b of
          ch # t \<Rightarrow> if ch \<noteq> CHR ''{'' then None
                   else (case split_on CHR 0x00 t of
                      c # r # e # n # _ \<Rightarrow> Some \<lparr>ip_c = c, ip_r = r, ip_e = read_digits e, ip_n = n\<rparr> | _ \<Rightarrow> None)
        | [] \<Rightarrow> None),
      il_policy_json = (\<lambda>q. str_bytes (CHR ''['' # demo_fields [pp_c q, pp_v q, show_nat (pp_e q)])),
      il_parse_policy = (\<lambda>b. None),
      il_hmac = (\<lambda>k b. take 32 (b @ replicate 32 0)), il_b64 = demo_hex, il_unb64 = (\<lambda>s. Some (demo_unhex s)),
      il_parse_mint = (\<lambda>_. None),
      il_parse_claim = (\<lambda>b. Some \<lparr>cr_code = demo_text b, cr_receipt = None\<rparr>), il_parse_accept = (\<lambda>_. None)\<rparr>"

lemma demo_text_bytes [simp]: "demo_text (str_bytes s) = s"
  by (simp add: demo_text_def str_bytes_def comp_def)

lemma plain_no_zero: "plain s \<Longrightarrow> CHR 0x00 \<notin> set s"
proof
  assume "plain s" "CHR 0x00 \<in> set s"
  then have "graphic (CHR 0x00)" unfolding plain_def list_all_iff by blast
  then show False by (simp add: graphic_def)
qed

lemma digits_no_zero: "CHR 0x00 \<notin> set (show_nat n)"
proof
  assume "CHR 0x00 \<in> set (show_nat n)"
  then have "is_digit (CHR 0x00)" by (rule show_nat_digits)
  then show False by (simp add: is_digit_def)
qed

lemma demo_fields_split:
  assumes "fs \<noteq> []" "\<And>f. f \<in> set fs \<Longrightarrow> CHR 0x00 \<notin> set f"
  shows "split_on CHR 0x00 (demo_fields fs) = fs @ replicate 23 []"
  unfolding demo_fields_def using assms by (intro split_join_with) auto

lemma length_join_with: "ps \<noteq> [] \<Longrightarrow> length (join_with c ps) = sum_list (map length ps) + (length ps - 1)"
  by (induction c ps rule: join_with.induct) simp_all

lemma demo_hex_plain: "plain (demo_hex b)"
  using demo_hex_lower [of b] by (auto simp: plain_def list_all_iff is_lowercase_hex_def is_digit_def graphic_def)

lemma demo_il_hex:
  "il_b64 demo_il = demo_hex" "il_unb64 demo_il s = Some (demo_unhex s)" "length (il_hmac demo_il k b) = 32"
  "il_parse_policy demo_il b = None"
  by (simp_all add: demo_il_def)

lemma demo_invite_laws: "invite_laws (demo_http []) demo_il"
proof -
  have "CHR ''.'' \<notin> set (demo_hex b)" for b
    using demo_hex_lower [of b] by (auto simp: list_all_iff is_lowercase_hex_def is_digit_def)
  moreover have "il_parse_invite demo_il (il_invite_json demo_il p) = Some p" if "plain_invite p" for p
  proof -
    have "split_on CHR 0x00 (demo_fields [ip_c p, ip_r p, show_nat (ip_e p), ip_n p])
        = [ip_c p, ip_r p, show_nat (ip_e p), ip_n p] @ replicate 23 []"
      using that by (intro demo_fields_split) (auto simp: plain_invite_def plain_no_zero digits_no_zero)
    then show ?thesis by (simp add: demo_il_def)
  qed
  moreover have "length (il_invite_json demo_il p)
      = 27 + length (ip_c p) + length (ip_r p) + length (show_nat (ip_e p)) + length (ip_n p)" for p
    by (simp add: demo_il_def demo_fields_def str_bytes_def length_join_with sum_list_replicate)
  moreover have "il_parse_invite demo_il (il_policy_json demo_il q) = None" for q by (simp add: demo_il_def)
  moreover have "plain (hl_uuid (demo_http []) u)" for u
    using demo_hex_plain [of "uuid_bytes u"] by (simp add: demo_http_def plain_def graphic_def)
  moreover have "inj (hl_uuid (demo_http []))" "length (hl_uuid (demo_http []) u) = 36" for u
    using demo_http_laws [of "[]"] by (simp_all add: http_laws_def)
  ultimately show ?thesis
    unfolding invite_laws_def using demo_hex_plain demo_hex_length by (simp add: demo_il_hex)
qed

text \<open>The owner \<open>a\<close> of the small community invites, and \<open>z\<close> claims in time.\<close>

definition demo_invites :: invite_config where
  "demo_invites = \<lparr>ic_secret = [1, 2, 3], ic_relay_url = ''ws://relay.example'', ic_policy = None\<rparr>"

definition demo_small :: tenant_context where
  "demo_small = \<lparr>tc_community = demo_uuid, tc_host = ''h''\<rparr>"

abbreviation demo_key :: bytes where
  "demo_key \<equiv> derive_invite_key (demo_http []) (ic_secret demo_invites)"

definition demo_code :: string where
  "demo_code = fst (mint_invite (demo_http []) demo_il demo_key demo_uuid DEFAULT_INVITE_TTL_SECS 100 (replicate 16 0))"

definition demo_claim_env :: claim_env where
  "demo_claim_env = \<lparr>ce_limit_now = 0, ce_evict = (\<lambda>_. False), ce_now = 200, ce_receipt_now = 200, ce_db_now = 200, ce_fault = DbOk\<rparr>"

lemma demo_code_minted:
  "mint_invite (demo_http []) demo_il demo_key demo_uuid DEFAULT_INVITE_TTL_SECS 100 (replicate 16 0) = (demo_code, 259300)"
  by (simp add: demo_code_def mint_invite_def Let_def DEFAULT_INVITE_TTL_SECS_def MAX_INVITE_TTL_SECS_def)

theorem minted_invite_verifies_witness:
  "verify_invite (demo_http []) demo_il demo_key demo_uuid demo_code 200
     = Ok \<lparr>ip_c = hl_uuid (demo_http []) demo_uuid, ip_r = member_role, ip_e = 259300, ip_n = il_b64 demo_il (replicate 16 0)\<rparr>
   \<and> verify_invite (demo_http []) demo_il demo_key demo_uuid demo_code 259301 = Err Expired"
  using minted_invite_verifies [OF demo_invite_laws demo_code_minted, of demo_uuid 200]
    minted_invite_verifies [OF demo_invite_laws demo_code_minted, of demo_uuid 259301] by simp

lemma demo_mint_for:
  "\<exists>url. mint_for (demo_http []) demo_il demo_invites False 100 (replicate 16 0) demo_small ''a'' [] demo_created
     = Ok (demo_code, 259300, url)"
  using demo_code_minted
  by (simp add: mint_for_def demo_small_def demo_created_eq get_relay_member_def Let_def)

lemma demo_claim_for:
  "\<exists>s' r. claim_for (demo_http []) demo_il demo_invites demo_claim_env demo_small ''z'' (str_bytes demo_code) ([], demo_created)
     = (s', Ok r)"
proof -
  have v: "verify_invite (demo_http []) demo_il demo_key demo_uuid demo_code 200
      = Ok \<lparr>ip_c = hl_uuid (demo_http []) demo_uuid, ip_r = member_role, ip_e = 259300, ip_n = il_b64 demo_il (replicate 16 0)\<rparr>"
    using minted_verifies_aux [OF demo_invite_laws demo_code_minted, of demo_uuid 200] by simp
  have p: "il_parse_claim demo_il (str_bytes demo_code) = Some \<lparr>cr_code = demo_code, cr_receipt = None\<rparr>"
    by (simp add: demo_il_def)
  have "claim_relay_membership 200 demo_uuid ''z'' member_role None demo_created \<noteq> None"
    by (simp add: claim_relay_membership_def add_relay_member_def row_allowed_def is_relay_member_def get_relay_member_def
        demo_created_eq)
  then obtain db' b where w': "claim_relay_membership 200 demo_uuid ''z'' member_role None demo_created = Some (db', b)"
    by auto
  have i: "ic_policy demo_invites = None" by (simp add: demo_invites_def)
  show ?thesis
    by (simp add: claim_for_def claim_key_rate_limited_def demo_claim_env_def CLAIM_RATE_LIMIT_def demo_small_def Let_def p v i w'
        commit_def del: and_then_eq_Ok)
qed

theorem claim_needs_staff_invite_witness:
  "\<exists>db iss. claims_reachable (demo_http []) demo_il demo_invites demo_created (db, iss, [(demo_uuid, ''z'', 200)])
     \<and> (\<exists>e minter role code. (demo_uuid, e, minter, role, code) \<in> set iss \<and> staff role \<and> 200 \<le> e)"
proof -
  let ?step = "claims_step (demo_http []) demo_il demo_invites"
  let ?iss = "[(demo_uuid, 259300, ''a'', role_text demo_uuid ''a'' demo_created, demo_code)] :: issued"
  obtain url where m: "mint_for (demo_http []) demo_il demo_invites False 100 (replicate 16 0) demo_small ''a'' [] demo_created
     = Ok (demo_code, 259300, url)" using demo_mint_for by blast
  obtain cache db r where c: "claim_for (demo_http []) demo_il demo_invites demo_claim_env demo_small ''z'' (str_bytes demo_code)
      ([], demo_created) = ((cache, db), Ok r)" using demo_claim_for by (metis surj_pair)
  have "?step (demo_created, [], []) (demo_created, ?iss, [])"
    using claims_step.minted [OF m, of "[]" "[]"] by (simp add: demo_small_def)
  moreover have "?step (demo_created, ?iss, []) (db, ?iss, [(demo_uuid, ''z'', 200)])"
    using claims_step.claimed [OF c, of "\<lparr>cr_code = demo_code, cr_receipt = None\<rparr>" ?iss "[]"]
    by (simp add: demo_small_def demo_claim_env_def demo_il_def genuine_def)
  ultimately have reach: "claims_reachable (demo_http []) demo_il demo_invites demo_created (db, ?iss, [(demo_uuid, ''z'', 200)])"
    unfolding claims_reachable_def by (meson converse_rtranclp_into_rtranclp r_into_rtranclp)
  have "\<exists>e minter role code. (demo_uuid, e, minter, role, code) \<in> set ?iss \<and> staff role \<and> 200 \<le> e"
    by (rule claim_needs_staff_invite [OF demo_invite_laws reach]) simp
  then show ?thesis using reach by blast
qed

end
