(* ===== verification/Channel.thy ===== *)
theory Channel
  imports Prelude
begin

text \<open>
  Channel and membership enums of \<open>crates/buzz-core/src/channel.rs\<close>: visibility, channel type and
  member role, with their wire strings (\<open>as_str\<close>), their parsers (\<open>FromStr\<close>) and the permission
  levels that authorization compares. The three parsers are interpretations of
  \<open>Prelude.string_codec\<close>; roles are a linear order by permission level, so the library's order
  automation applies to \<open>has_at_least\<close>.
\<close>

section \<open>Enums and their wire strings\<close>

datatype channel_visibility = Open | Private

datatype channel_type = Stream | Forum | Dm | WorkflowChannel

datatype member_role = Owner | Admin | Member | Guest | Bot

text \<open>
  The parse error is the text \<open>unknown <what>: <offending string>\<close>; the model keeps the two parts.
\<close>

datatype parse_error = UnknownName string string

fun visibility_as_str :: "channel_visibility \<Rightarrow> string" where
  "visibility_as_str Open = ''open''"
| "visibility_as_str Private = ''private''"

definition visibility_from_str :: "string \<Rightarrow> parse_error + channel_visibility" where
  "visibility_from_str s =
     (if s = ''open'' then Ok Open
      else if s = ''private'' then Ok Private
      else Err (UnknownName ''channel visibility'' s))"

fun channel_type_as_str :: "channel_type \<Rightarrow> string" where
  "channel_type_as_str Stream = ''stream''"
| "channel_type_as_str Forum = ''forum''"
| "channel_type_as_str Dm = ''dm''"
| "channel_type_as_str WorkflowChannel = ''workflow''"

definition channel_type_from_str :: "string \<Rightarrow> parse_error + channel_type" where
  "channel_type_from_str s =
     (if s = ''stream'' then Ok Stream
      else if s = ''forum'' then Ok Forum
      else if s = ''dm'' then Ok Dm
      else if s = ''workflow'' then Ok WorkflowChannel
      else Err (UnknownName ''channel type'' s))"

fun role_as_str :: "member_role \<Rightarrow> string" where
  "role_as_str Owner = ''owner''"
| "role_as_str Admin = ''admin''"
| "role_as_str Member = ''member''"
| "role_as_str Guest = ''guest''"
| "role_as_str Bot = ''bot''"

definition role_from_str :: "string \<Rightarrow> parse_error + member_role" where
  "role_from_str s =
     (if s = ''owner'' then Ok Owner
      else if s = ''admin'' then Ok Admin
      else if s = ''member'' then Ok Member
      else if s = ''guest'' then Ok Guest
      else if s = ''bot'' then Ok Bot
      else Err (UnknownName ''member role'' s))"

interpretation visibility: string_codec visibility_as_str visibility_from_str
proof unfold_locales
  show "visibility_from_str (visibility_as_str x) = Ok x" for x
    by (cases x) (simp_all add: visibility_from_str_def)
  show "visibility_from_str s = Ok x \<Longrightarrow> visibility_as_str x = s" for s x
    by (auto simp: visibility_from_str_def split: if_splits)
qed

interpretation channel_type: string_codec channel_type_as_str channel_type_from_str
proof unfold_locales
  show "channel_type_from_str (channel_type_as_str x) = Ok x" for x
    by (cases x) (simp_all add: channel_type_from_str_def)
  show "channel_type_from_str s = Ok x \<Longrightarrow> channel_type_as_str x = s" for s x
    by (auto simp: channel_type_from_str_def split: if_splits)
qed

interpretation role: string_codec role_as_str role_from_str
proof unfold_locales
  show "role_from_str (role_as_str x) = Ok x" for x
    by (cases x) (simp_all add: role_from_str_def)
  show "role_from_str s = Ok x \<Longrightarrow> role_as_str x = s" for s x
    by (auto simp: role_from_str_def split: if_splits)
qed

section \<open>Permission levels\<close>

fun is_elevated :: "member_role \<Rightarrow> bool" where
  "is_elevated Owner = True"
| "is_elevated Admin = True"
| "is_elevated _ = False"

fun permission_level :: "member_role \<Rightarrow> u8" where
  "permission_level Owner = 4"
| "permission_level Admin = 3"
| "permission_level Member = 2"
| "permission_level Guest = 1"
| "permission_level Bot = 0"

definition has_at_least :: "member_role \<Rightarrow> member_role \<Rightarrow> bool" where
  "has_at_least self required \<longleftrightarrow> permission_level required \<le> permission_level self"

lemma permission_level_inj [simp]: "permission_level a = permission_level b \<longleftrightarrow> a = b"
  by (cases a; cases b) simp_all

instantiation member_role :: linorder
begin

definition less_eq_member_role :: "member_role \<Rightarrow> member_role \<Rightarrow> bool" where
  "a \<le> b \<longleftrightarrow> permission_level a \<le> permission_level b"

definition less_member_role :: "member_role \<Rightarrow> member_role \<Rightarrow> bool" where
  "a < b \<longleftrightarrow> permission_level a < permission_level b"

instance
proof
  fix a b c :: member_role
  show "a < b \<longleftrightarrow> a \<le> b \<and> \<not> b \<le> a"
    by (simp add: less_eq_member_role_def less_member_role_def less_le_not_le)
  show "a \<le> a" by (simp add: less_eq_member_role_def)
  show "a \<le> b \<Longrightarrow> b \<le> c \<Longrightarrow> a \<le> c"
    unfolding less_eq_member_role_def by (rule order_trans)
  show "a \<le> b \<Longrightarrow> b \<le> a \<Longrightarrow> a = b"
    using permission_level_inj [of a b] by (simp add: less_eq_member_role_def)
  show "a \<le> b \<or> b \<le> a" by (auto simp: less_eq_member_role_def)
qed

end

lemma has_at_least_iff [simp]: "has_at_least r q \<longleftrightarrow> q \<le> r"
  by (simp add: has_at_least_def less_eq_member_role_def)

lemma level_less_iff: "permission_level a < permission_level b \<longleftrightarrow> a < b"
  by (simp add: less_member_role_def)

lemma level_le_iff: "permission_level a \<le> permission_level b \<longleftrightarrow> a \<le> b"
  by (simp add: less_eq_member_role_def)

lemma role_order:
  "Bot < Guest" "Guest < Member" "Member < Admin" "Admin < Owner" "r \<le> Owner" "Bot \<le> r"
  by (cases r; simp add: less_member_role_def less_eq_member_role_def)+

lemma is_elevated_iff: "is_elevated r \<longleftrightarrow> Admin \<le> r"
  by (cases r) (simp_all add: less_eq_member_role_def word_le_nat_alt)

end
