(* ===== verification/GitPerms.thy ===== *)
theory GitPerms
  imports Channel
begin

text \<open>
  Git permissions, \<open>crates/buzz-core/src/git_perms.rs\<close>: ref patterns and their parser and matcher,
  \<open>buzz-protect\<close> tags and their parser, the union of the rules that match a ref, and the
  evaluation of a push against them.

  The matcher's \<open>unreachable!()\<close> arms are the value \<open>None\<close> of \<open>match_segs\<close>;
  \<open>matches_never_panics\<close> shows that no pattern the parser returns reaches them.
\<close>

definition MAX_PROTECTION_RULES :: nat where "MAX_PROTECTION_RULES = 50"
definition MAX_PATTERN_LENGTH :: nat where "MAX_PATTERN_LENGTH = 256"
definition MAX_WILDCARDS_PER_PATTERN :: nat where "MAX_WILDCARDS_PER_PATTERN = 3"

section \<open>Ref patterns\<close>

datatype pattern_segment = Literal string | Wildcard | RecursiveWildcard

record ref_pattern =
  rp_raw :: string
  rp_segments :: "pattern_segment list"

datatype pattern_error =
    PatternEmpty
  | PatternTooLong
  | MissingRefsPrefix
  | InvalidSegment string
  | TooManyWildcards

definition is_ascii_alphanumeric :: "char \<Rightarrow> bool" where
  "is_ascii_alphanumeric c \<longleftrightarrow>
     (let n = (of_char c :: nat)
      in (48 \<le> n \<and> n \<le> 57) \<or> (65 \<le> n \<and> n \<le> 90) \<or> (97 \<le> n \<and> n \<le> 122))"

definition literal_char :: "char \<Rightarrow> bool" where
  "literal_char c \<longleftrightarrow>
     is_ascii_alphanumeric c \<or> c = CHR ''.'' \<or> c = CHR ''_'' \<or> c = CHR ''-''"

fun parse_parts :: "nat \<Rightarrow> string list \<Rightarrow> pattern_error + pattern_segment list" where
  "parse_parts wildcard_count [] = Ok []"
| "parse_parts wildcard_count (part # rest) =
     (if part = ''**'' then
        (if rest \<noteq> [] then Err (InvalidSegment ''** must be the last segment'')
         else if wildcard_count + 1 > MAX_WILDCARDS_PER_PATTERN then Err TooManyWildcards
         else and_then (parse_parts (wildcard_count + 1) rest) (\<lambda>ss. Ok (RecursiveWildcard # ss)))
      else if part = ''*'' then
        (if wildcard_count + 1 > MAX_WILDCARDS_PER_PATTERN then Err TooManyWildcards
         else and_then (parse_parts (wildcard_count + 1) rest) (\<lambda>ss. Ok (Wildcard # ss)))
      else if part = [] then Err (InvalidSegment [])
      else if CHR ''*'' \<in> set part \<or> CHR ''?'' \<in> set part
            \<or> CHR ''['' \<in> set part \<or> CHR '']'' \<in> set part then Err (InvalidSegment part)
      else if \<not> list_all literal_char part then Err (InvalidSegment part)
      else and_then (parse_parts wildcard_count rest) (\<lambda>ss. Ok (Literal part # ss)))"

definition parse_pattern :: "string \<Rightarrow> pattern_error + ref_pattern" where
  "parse_pattern pattern =
     (if pattern = [] then Err PatternEmpty
      else if length pattern > MAX_PATTERN_LENGTH then Err PatternTooLong
      else if \<not> starts_with ''refs/'' pattern then Err MissingRefsPrefix
      else and_then (parse_parts 0 (split_on CHR ''/'' pattern))
             (\<lambda>segments. Ok \<lparr>rp_raw = pattern, rp_segments = segments\<rparr>))"

text \<open>\<open>self.segments.iter().zip(ref_segments).all(..)\<close>; \<open>None\<close> is the \<open>unreachable!()\<close> panic.\<close>

fun match_segs :: "pattern_segment list \<Rightarrow> string list \<Rightarrow> bool option" where
  "match_segs (Wildcard # ps) (s # ss) = match_segs ps ss"
| "match_segs (Literal l # ps) (s # ss) = (if l = s then match_segs ps ss else Some False)"
| "match_segs (RecursiveWildcard # ps) (s # ss) = None"
| "match_segs _ _ = Some True"

definition try_matches :: "ref_pattern \<Rightarrow> string \<Rightarrow> bool option" where
  "try_matches rp ref_name =
     (let segs = rp_segments rp; ref_segments = split_on CHR ''/'' ref_name
      in if segs \<noteq> [] \<and> last segs = RecursiveWildcard then
           (let prefix_len = length segs - 1
            in if length ref_segments \<le> prefix_len then Some False
               else match_segs (take prefix_len segs) (take prefix_len ref_segments))
         else if length ref_segments \<noteq> length segs then Some False
         else match_segs segs ref_segments)"

definition pattern_matches :: "ref_pattern \<Rightarrow> string \<Rightarrow> bool" where
  "pattern_matches rp ref_name \<longleftrightarrow> try_matches rp ref_name = Some True"

section \<open>Ref updates\<close>

datatype update_kind = Create | FastForward | NonFastForward | Delete

definition ZERO_OID :: string where
  "ZERO_OID = replicate 40 (CHR ''0'')"

definition classify :: "string \<Rightarrow> string \<Rightarrow> bool \<Rightarrow> update_kind" where
  "classify old_oid new_oid is_ancestor =
     (if old_oid = ZERO_OID then Create
      else if new_oid = ZERO_OID then Delete
      else if is_ancestor then FastForward
      else NonFastForward)"

record ref_update =
  ru_ref_name :: string
  ru_kind :: update_kind
  ru_old_oid :: string
  ru_new_oid :: string

section \<open>Protection rules\<close>

record protection_rule =
  pr_pattern :: ref_pattern
  pr_push_role :: "member_role option"
  pr_no_force_push :: bool
  pr_no_delete :: bool
  pr_require_patch :: bool

datatype rule_parse_error =
    TooFewValues
  | TooManyRules
  | InvalidPattern pattern_error
  | UnknownRule string
  | InvalidRole string

text \<open>The role kept by the \<open>match push_role { None => .., Some(existing) => .. }\<close> idiom.\<close>

definition stricter :: "member_role option \<Rightarrow> member_role \<Rightarrow> member_role option" where
  "stricter push_role role =
     Some (case push_role of
             None \<Rightarrow> role
           | Some existing \<Rightarrow>
               if permission_level role > permission_level existing then role else existing)"

text \<open>The loop over the rule strings: the four flags of the rule and the unknown strings.\<close>

fun parse_rule_strs ::
  "protection_rule \<Rightarrow> string list \<Rightarrow> string list
     \<Rightarrow> rule_parse_error + (protection_rule \<times> string list)" where
  "parse_rule_strs rule unknown_rules [] = Ok (rule, unknown_rules)"
| "parse_rule_strs rule unknown_rules (rule_str # rest) =
     (case strip_prefix ''push:'' rule_str of
        Some role_str \<Rightarrow>
          (case role_from_str role_str of
             Inl _ \<Rightarrow> Err (InvalidRole role_str)
           | Inr role \<Rightarrow>
               if role = Bot \<or> role = Guest then Err (InvalidRole role_str)
               else parse_rule_strs
                      (rule\<lparr>pr_push_role := stricter (pr_push_role rule) role\<rparr>) unknown_rules rest)
      | None \<Rightarrow>
          if rule_str = ''no-force-push'' then
            parse_rule_strs (rule\<lparr>pr_no_force_push := True\<rparr>) unknown_rules rest
          else if rule_str = ''no-delete'' then
            parse_rule_strs (rule\<lparr>pr_no_delete := True\<rparr>) unknown_rules rest
          else if rule_str = ''require-patch'' then
            parse_rule_strs (rule\<lparr>pr_require_patch := True\<rparr>) unknown_rules rest
          else parse_rule_strs rule (unknown_rules @ [rule_str]) rest)"

definition parse_protection_tag_with_warnings ::
  "string list \<Rightarrow> rule_parse_error + (protection_rule \<times> string list)" where
  "parse_protection_tag_with_warnings values =
     (case values of
        v0 # v1 # vs \<Rightarrow>
          (case parse_pattern v0 of
             Inl e \<Rightarrow> Err (InvalidPattern e)
           | Inr pattern \<Rightarrow>
               parse_rule_strs
                 \<lparr>pr_pattern = pattern, pr_push_role = None, pr_no_force_push = False,
                  pr_no_delete = False, pr_require_patch = False\<rparr> [] (v1 # vs))
      | _ \<Rightarrow> Err TooFewValues)"

definition parse_protection_tag :: "string list \<Rightarrow> rule_parse_error + protection_rule" where
  "parse_protection_tag values =
     and_then (parse_protection_tag_with_warnings values) (\<lambda>(rule, _). Ok rule)"

record parsed_protection =
  pp_rules :: "protection_rule list"
  pp_unknown_rules :: "string list"

fun parse_protection_loop ::
  "protection_rule list \<Rightarrow> string list \<Rightarrow> string list list
     \<Rightarrow> rule_parse_error + parsed_protection" where
  "parse_protection_loop rules unknown_rules [] =
     Ok \<lparr>pp_rules = rules, pp_unknown_rules = unknown_rules\<rparr>"
| "parse_protection_loop rules unknown_rules (tag # tags) =
     (case tag of
        [] \<Rightarrow> parse_protection_loop rules unknown_rules tags
      | name # values \<Rightarrow>
          if name \<noteq> ''buzz-protect'' then parse_protection_loop rules unknown_rules tags
          else if length rules \<ge> MAX_PROTECTION_RULES then Err TooManyRules
          else and_then (parse_protection_tag_with_warnings values)
                 (\<lambda>(rule, unknowns).
                    parse_protection_loop (rules @ [rule]) (unknown_rules @ unknowns) tags))"

definition parse_protection_tags :: "string list list \<Rightarrow> rule_parse_error + parsed_protection" where
  "parse_protection_tags tags = parse_protection_loop [] [] tags"

section \<open>Effective rules and push evaluation\<close>

fun default_min_role :: "string \<Rightarrow> update_kind \<Rightarrow> member_role" where
  "default_min_role ref_name Create =
     (if starts_with ''refs/heads/'' ref_name \<or> starts_with ''refs/tags/'' ref_name
      then Member else Admin)"
| "default_min_role ref_name FastForward =
     (if starts_with ''refs/heads/'' ref_name then Member
      else if starts_with ''refs/tags/'' ref_name then Admin else Admin)"
| "default_min_role ref_name NonFastForward = Admin"
| "default_min_role ref_name Delete = Admin"

record effective_rules =
  ef_push_role :: "member_role option"
  ef_no_force_push :: bool
  ef_no_delete :: bool
  ef_require_patch :: bool
  ef_has_explicit_match :: bool

definition no_effective_rules :: effective_rules where
  "no_effective_rules =
     \<lparr>ef_push_role = None, ef_no_force_push = False, ef_no_delete = False,
      ef_require_patch = False, ef_has_explicit_match = False\<rparr>"

definition union_rule :: "string \<Rightarrow> effective_rules \<Rightarrow> protection_rule \<Rightarrow> effective_rules" where
  "union_rule ref_name ef rule =
     (if \<not> pattern_matches (pr_pattern rule) ref_name then ef
      else \<lparr>ef_push_role = (case pr_push_role rule of
                               None \<Rightarrow> ef_push_role ef
                             | Some role \<Rightarrow> stricter (ef_push_role ef) role),
            ef_no_force_push = (ef_no_force_push ef \<or> pr_no_force_push rule),
            ef_no_delete = (ef_no_delete ef \<or> pr_no_delete rule),
            ef_require_patch = (ef_require_patch ef \<or> pr_require_patch rule),
            ef_has_explicit_match = True\<rparr>)"

definition for_ref :: "string \<Rightarrow> protection_rule list \<Rightarrow> effective_rules" where
  "for_ref ref_name rules = foldl (union_rule ref_name) no_effective_rules rules"

record denial =
  dn_ref_name :: string
  dn_reason :: string

definition deny :: "ref_update \<Rightarrow> string \<Rightarrow> denial + unit" where
  "deny update reason = Err \<lparr>dn_ref_name = ru_ref_name update, dn_reason = reason\<rparr>"

definition explicit_min_role :: "ref_update \<Rightarrow> effective_rules \<Rightarrow> member_role" where
  "explicit_min_role update effective =
     (let default_role = default_min_role (ru_ref_name update) (ru_kind update)
      in case ef_push_role effective of
           Some explicit \<Rightarrow>
             if permission_level explicit \<ge> permission_level default_role then explicit
             else default_role
         | None \<Rightarrow> default_role)"

definition evaluate_ref_update ::
  "ref_update \<Rightarrow> member_role \<Rightarrow> protection_rule list \<Rightarrow> denial + unit" where
  "evaluate_ref_update update role rules =
     (let effective = for_ref (ru_ref_name update) rules
      in if \<not> ef_has_explicit_match effective then
           (let min_role = default_min_role (ru_ref_name update) (ru_kind update)
            in if \<not> has_at_least role min_role then
                 deny update (''requires '' @ role_as_str min_role @ '' role (you have ''
                               @ role_as_str role @ ''), using built-in defaults'')
               else Ok ())
         else if ef_require_patch effective then
           deny update ''direct push denied: require-patch is set, submit a NIP-34 patch''
         else
           (let min_role = explicit_min_role update effective
            in if \<not> has_at_least role min_role then
                 deny update (''requires '' @ role_as_str min_role @ '' role (you have ''
                               @ role_as_str role @ '')'')
               else if ef_no_force_push effective \<and> ru_kind update = NonFastForward then
                 deny update ''non-fast-forward update denied: no-force-push is set''
               else if ef_no_delete effective \<and> ru_kind update = Delete then
                 deny update ''ref deletion denied: no-delete is set''
               else Ok ()))"

definition evaluate_push ::
  "ref_update list \<Rightarrow> member_role \<Rightarrow> protection_rule list \<Rightarrow> denial list + unit" where
  "evaluate_push updates role rules =
     (let denials = List.map_filter
                      (\<lambda>update. case evaluate_ref_update update role rules of
                                  Inl d \<Rightarrow> Some d | Inr _ \<Rightarrow> None) updates
      in if denials = [] then Ok () else Err denials)"

section \<open>Parsing: the grammar and its round trip\<close>

fun segment_str :: "pattern_segment \<Rightarrow> string" where
  "segment_str (Literal l) = l"
| "segment_str Wildcard = ''*''"
| "segment_str RecursiveWildcard = ''**''"

fun wf_segment :: "pattern_segment \<Rightarrow> bool" where
  "wf_segment (Literal l) \<longleftrightarrow> l \<noteq> [] \<and> list_all literal_char l"
| "wf_segment Wildcard \<longleftrightarrow> True"
| "wf_segment RecursiveWildcard \<longleftrightarrow> True"

fun is_literal :: "pattern_segment \<Rightarrow> bool" where
  "is_literal (Literal l) = True"
| "is_literal Wildcard = False"
| "is_literal RecursiveWildcard = False"

definition wildcards :: "pattern_segment list \<Rightarrow> nat" where
  "wildcards ss = length (filter (\<lambda>s. \<not> is_literal s) ss)"

fun rec_only_last :: "pattern_segment list \<Rightarrow> bool" where
  "rec_only_last [] \<longleftrightarrow> True"
| "rec_only_last (s # ss) \<longleftrightarrow> (s = RecursiveWildcard \<longrightarrow> ss = []) \<and> rec_only_last ss"

definition wf_segments :: "pattern_segment list \<Rightarrow> bool" where
  "wf_segments ss \<longleftrightarrow>
     list_all wf_segment ss \<and> rec_only_last ss
     \<and> wildcards ss \<le> MAX_WILDCARDS_PER_PATTERN"

lemma wildcards_simps [simp]:
  "wildcards [] = 0"
  "wildcards (Literal l # ss) = wildcards ss"
  "wildcards (Wildcard # ss) = Suc (wildcards ss)"
  "wildcards (RecursiveWildcard # ss) = Suc (wildcards ss)"
  by (simp_all add: wildcards_def)

lemma literal_char_not_glob:
  "literal_char c \<Longrightarrow> c \<noteq> CHR ''*'' \<and> c \<noteq> CHR ''?'' \<and> c \<noteq> CHR ''['' \<and> c \<noteq> CHR '']'' \<and> c \<noteq> CHR ''/''"
  by (auto simp: literal_char_def is_ascii_alphanumeric_def Let_def)

lemma literal_not_glob:
  assumes "list_all literal_char l"
  shows "CHR ''*'' \<notin> set l" "CHR ''?'' \<notin> set l" "CHR ''['' \<notin> set l" "CHR '']'' \<notin> set l"
    "CHR ''/'' \<notin> set l"
  using assms literal_char_not_glob by (auto simp: list_all_iff)

lemma parse_parts_iff:
  "wc \<le> MAX_WILDCARDS_PER_PATTERN \<Longrightarrow>
   parse_parts wc parts = Ok ss \<longleftrightarrow>
     parts = map segment_str ss \<and> list_all wf_segment ss \<and> rec_only_last ss
     \<and> wc + wildcards ss \<le> MAX_WILDCARDS_PER_PATTERN"
proof (induction parts arbitrary: wc ss)
  case Nil
  then show ?case by (cases ss) auto
next
  case (Cons part rest)
  show ?case
  proof (cases ss)
    case Nil
    then show ?thesis by (auto split: if_splits)
  next
    case (Cons x ss')
    have IH: "wc \<le> MAX_WILDCARDS_PER_PATTERN \<Longrightarrow> parse_parts wc rest = Ok ss' \<longleftrightarrow>
        rest = map segment_str ss' \<and> list_all wf_segment ss' \<and> rec_only_last ss' 
        \<and> wc + wildcards ss' \<le> MAX_WILDCARDS_PER_PATTERN" for wc
      by (rule Cons.IH)
    show ?thesis
      using Cons.prems Cons literal_not_glob [of part]
      by (cases x) (auto simp: IH)
  qed
qed

lemma split_on_segments:
  assumes "list_all wf_segment ss" and "ss \<noteq> []"
  shows "split_on CHR ''/'' (join_with CHR ''/'' (map segment_str ss)) = map segment_str ss"
proof (rule split_join_with)
  show "map segment_str ss \<noteq> []" using assms by simp
  fix p assume "p \<in> set (map segment_str ss)"
  with assms obtain x where "wf_segment x" "p = segment_str x" by (auto simp: list_all_iff)
  then show "CHR ''/'' \<notin> set p" by (cases x) (auto simp: literal_not_glob)
qed

lemma parse_pattern_iff_aux:
  "parse_pattern s = Ok rp \<longleftrightarrow>
     rp_raw rp = s \<and> s = join_with CHR ''/'' (map segment_str (rp_segments rp))
     \<and> wf_segments (rp_segments rp)
     \<and> s \<noteq> [] \<and> length s \<le> MAX_PATTERN_LENGTH \<and> starts_with ''refs/'' s"
  (is "?L \<longleftrightarrow> ?R")
proof
  assume ?L
  then have guards: "s \<noteq> []" "length s \<le> MAX_PATTERN_LENGTH" "starts_with ''refs/'' s"
    and parts: "parse_parts 0 (split_on CHR ''/'' s) = Ok (rp_segments rp)" and raw: "rp_raw rp = s"
    by (auto simp: parse_pattern_def split: if_splits)
  from parts have wf: "wf_segments (rp_segments rp)"
    and seg: "split_on CHR ''/'' s = map segment_str (rp_segments rp)"
    by (simp_all add: parse_parts_iff wf_segments_def)
  from seg have "s = join_with CHR ''/'' (map segment_str (rp_segments rp))"
    by (metis join_split_on)
  with guards wf raw show ?R by simp
next
  assume R: ?R
  then have wf: "list_all wf_segment (rp_segments rp)" by (simp add: wf_segments_def)
  from R have "rp_segments rp \<noteq> []" by (cases "rp_segments rp") auto
  with wf R have "split_on CHR ''/'' s = map segment_str (rp_segments rp)"
    using split_on_segments by metis
  with R show ?L
    by (cases rp) (auto simp: parse_pattern_def parse_parts_iff wf_segments_def)
qed

section \<open>Matching: refinement of the segment relation\<close>

inductive seg_match :: "pattern_segment list \<Rightarrow> string list \<Rightarrow> bool" where
  seg_nil: "seg_match [] []"
| seg_wild: "seg_match ps ss \<Longrightarrow> seg_match (Wildcard # ps) (s # ss)"
| seg_lit: "seg_match ps ss \<Longrightarrow> seg_match (Literal l # ps) (l # ss)"
| seg_rec: "ss \<noteq> [] \<Longrightarrow> seg_match [RecursiveWildcard] ss"

inductive_simps seg_match_simps:
  "seg_match [] ss"
  "seg_match (Wildcard # ps) ss"
  "seg_match (Literal l # ps) ss"
  "seg_match (RecursiveWildcard # ps) ss"

code_pred seg_match .

lemma match_segs_exact:
  "RecursiveWildcard \<notin> set ps \<Longrightarrow> length ss = length ps \<Longrightarrow>
   match_segs ps ss = Some (seg_match ps ss)"
  by (induction ps ss rule: match_segs.induct) (auto simp: seg_match_simps)

lemma seg_match_length:
  "seg_match ps ss \<Longrightarrow> RecursiveWildcard \<notin> set ps \<Longrightarrow> length ss = length ps"
  by (induction rule: seg_match.induct) auto

lemma seg_match_snoc_rec:
  "RecursiveWildcard \<notin> set ps \<Longrightarrow>
   seg_match (ps @ [RecursiveWildcard]) ss \<longleftrightarrow>
     length ps < length ss \<and> seg_match ps (take (length ps) ss)"
proof (induction ps arbitrary: ss)
  case Nil
  then show ?case by (auto simp: seg_match_simps)
next
  case (Cons p ps)
  then show ?case
    by (cases p; cases ss) (auto simp: seg_match_simps)
qed

lemma rec_only_last_snoc:
  "rec_only_last (ps @ [p]) \<longleftrightarrow> RecursiveWildcard \<notin> set ps"
  by (induction ps) auto

lemma try_matches_eq:
  assumes "rec_only_last (rp_segments rp)"
  shows "try_matches rp r = Some (seg_match (rp_segments rp) (split_on CHR ''/'' r))"
proof (cases "rp_segments rp" rule: rev_cases)
  case Nil
  then show ?thesis by (simp add: try_matches_def seg_match_simps)
next
  case (snoc ps p)
  with assms have no: "RecursiveWildcard \<notin> set ps" by (simp add: rec_only_last_snoc)
  show ?thesis
  proof (cases "p = RecursiveWildcard")
    case True
    with snoc no show ?thesis
      by (auto simp: try_matches_def Let_def match_segs_exact seg_match_snoc_rec)
  next
    case False
    with snoc no have "RecursiveWildcard \<notin> set (rp_segments rp)" by simp
    with False show ?thesis
      by (auto simp: try_matches_def Let_def snoc match_segs_exact dest: seg_match_length)
  qed
qed

section \<open>Effective rules: the union of what matches\<close>

text \<open>A required role is met when every role recorded so far is at most the pusher's.\<close>

definition role_bounded :: "member_role \<Rightarrow> member_role option \<Rightarrow> bool" where
  "role_bounded role p = (case p of None \<Rightarrow> True | Some q \<Rightarrow> q \<le> role)"

lemma role_bounded_simps [simp]:
  "role_bounded role None" "role_bounded role (Some q) \<longleftrightarrow> q \<le> role"
  by (simp_all add: role_bounded_def)

lemma role_bounded_stricter [simp]:
  "role_bounded role (stricter p q) \<longleftrightarrow> q \<le> role \<and> role_bounded role p"
  by (auto simp: stricter_def level_less_iff not_less split: option.split intro: order_trans less_imp_le)

definition rule_permits :: "protection_rule \<Rightarrow> ref_update \<Rightarrow> member_role \<Rightarrow> bool" where
  "rule_permits rule u role \<longleftrightarrow>
     \<not> pr_require_patch rule
     \<and> role_bounded role (pr_push_role rule)
     \<and> (pr_no_force_push rule \<longrightarrow> ru_kind u \<noteq> NonFastForward)
     \<and> (pr_no_delete rule \<longrightarrow> ru_kind u \<noteq> Delete)"

definition matching :: "string \<Rightarrow> protection_rule list \<Rightarrow> protection_rule set" where
  "matching r rules = {rule \<in> set rules. pattern_matches (pr_pattern rule) r}"

lemma matching_Cons [simp]:
  "matching r (rule # rules) =
     (if pattern_matches (pr_pattern rule) r then insert rule (matching r rules)
      else matching r rules)"
  by (auto simp: matching_def)

lemma matching_Nil [simp]: "matching r [] = {}"
  by (simp add: matching_def)

lemma foldl_union_rule:
  "ef_has_explicit_match (foldl (union_rule r) ef rules) \<longleftrightarrow>
     ef_has_explicit_match ef \<or> matching r rules \<noteq> {}"
  "ef_require_patch (foldl (union_rule r) ef rules) \<longleftrightarrow>
     ef_require_patch ef \<or> (\<exists>rule \<in> matching r rules. pr_require_patch rule)"
  "ef_no_force_push (foldl (union_rule r) ef rules) \<longleftrightarrow>
     ef_no_force_push ef \<or> (\<exists>rule \<in> matching r rules. pr_no_force_push rule)"
  "ef_no_delete (foldl (union_rule r) ef rules) \<longleftrightarrow>
     ef_no_delete ef \<or> (\<exists>rule \<in> matching r rules. pr_no_delete rule)"
  "role_bounded role (ef_push_role (foldl (union_rule r) ef rules)) \<longleftrightarrow>
     role_bounded role (ef_push_role ef)
     \<and> (\<forall>rule \<in> matching r rules. role_bounded role (pr_push_role rule))"
  by (induction rules arbitrary: ef) (auto simp: union_rule_def split: option.splits)

lemma for_ref_simps:
  "ef_has_explicit_match (for_ref r rules) \<longleftrightarrow> matching r rules \<noteq> {}"
  "ef_require_patch (for_ref r rules) \<longleftrightarrow> (\<exists>rule \<in> matching r rules. pr_require_patch rule)"
  "ef_no_force_push (for_ref r rules) \<longleftrightarrow> (\<exists>rule \<in> matching r rules. pr_no_force_push rule)"
  "ef_no_delete (for_ref r rules) \<longleftrightarrow> (\<exists>rule \<in> matching r rules. pr_no_delete rule)"
  "role_bounded role (ef_push_role (for_ref r rules)) \<longleftrightarrow>
     (\<forall>rule \<in> matching r rules. role_bounded role (pr_push_role rule))"
  by (simp_all add: for_ref_def foldl_union_rule no_effective_rules_def)

lemma explicit_min_role_le:
  "explicit_min_role u ef \<le> role \<longleftrightarrow>
     default_min_role (ru_ref_name u) (ru_kind u) \<le> role \<and> role_bounded role (ef_push_role ef)"
  by (auto simp: explicit_min_role_def Let_def level_le_iff not_le split: option.split
      intro: order_trans less_imp_le)

lemma deny_not_Ok [simp]: "deny u reason \<noteq> Ok ()"
  by (simp add: deny_def)

lemma evaluate_ref_update_Ok:
  "evaluate_ref_update u role rules = Ok () \<longleftrightarrow>
     default_min_role (ru_ref_name u) (ru_kind u) \<le> role
     \<and> (\<forall>rule \<in> matching (ru_ref_name u) rules. rule_permits rule u role)"
proof (cases "matching (ru_ref_name u) rules = {}")
  case True
  then show ?thesis by (simp add: evaluate_ref_update_def Let_def for_ref_simps)
next
  case False
  let ?ef = "for_ref (ru_ref_name u) rules"
  have "evaluate_ref_update u role rules = Ok () \<longleftrightarrow>
      \<not> ef_require_patch ?ef \<and> explicit_min_role u ?ef \<le> role
      \<and> \<not> (ef_no_force_push ?ef \<and> ru_kind u = NonFastForward)
      \<and> \<not> (ef_no_delete ?ef \<and> ru_kind u = Delete)"
    using False by (simp add: evaluate_ref_update_def Let_def for_ref_simps)
  then show ?thesis
    by (auto simp: for_ref_simps explicit_min_role_le rule_permits_def)
qed

lemma evaluate_ref_update_denial:
  "evaluate_ref_update u role rules = Err d \<Longrightarrow> dn_ref_name d = ru_ref_name u"
  by (auto simp: evaluate_ref_update_def Let_def deny_def split: if_splits)

lemma matching_mono: "set rules' \<subseteq> set rules \<Longrightarrow> matching r rules' \<subseteq> matching r rules"
  by (auto simp: matching_def)

lemma role_bounded_mono: "role_bounded r p \<Longrightarrow> r \<le> r' \<Longrightarrow> role_bounded r' p"
  by (cases p) auto

section \<open>Parsing rule strings\<close>

lemma push_prefix_distinct:
  "strip_prefix ''push:'' s = Some t \<Longrightarrow>
     s \<noteq> ''no-force-push'' \<and> s \<noteq> ''no-delete'' \<and> s \<noteq> ''require-patch''"
  by (auto simp: strip_prefix_Some)

lemma strip_push: "strip_prefix ''push:'' (''push:'' @ t) = Some t"
  by (simp only: strip_prefix_Some)

lemma push_string_iff:
  "''push:'' @ role_as_str q = s \<longleftrightarrow>
     (\<exists>t. strip_prefix ''push:'' s = Some t \<and> role_from_str t = Ok q)"
  by (auto simp only: strip_prefix_Some role.from_str_iff)

lemma parse_rule_strs_sound:
  "parse_rule_strs rule us strs = Ok (rule', us') \<Longrightarrow>
     pr_pattern rule' = pr_pattern rule
     \<and> (pr_no_force_push rule' \<longleftrightarrow> pr_no_force_push rule \<or> ''no-force-push'' \<in> set strs)
     \<and> (pr_no_delete rule' \<longleftrightarrow> pr_no_delete rule \<or> ''no-delete'' \<in> set strs)
     \<and> (pr_require_patch rule' \<longleftrightarrow> pr_require_patch rule \<or> ''require-patch'' \<in> set strs)
     \<and> (role_bounded role (pr_push_role rule') \<longleftrightarrow>
          role_bounded role (pr_push_role rule)
          \<and> (\<forall>q. ''push:'' @ role_as_str q \<in> set strs \<longrightarrow> q \<le> role))"
proof (induction rule us strs rule: parse_rule_strs.induct)
  case (1 rule us)
  then show ?case by auto
next
  case (2 rule us s rest)
  show ?case
  proof (cases "strip_prefix ''push:'' s")
    case None
    then have "\<And>q. ''push:'' @ role_as_str q \<noteq> s" by (auto simp only: push_string_iff)
    with None 2 show ?thesis by (auto split: if_splits)
  next
    case (Some t)
    with "2.prems" obtain q where q: "role_from_str t = Ok q" "q \<noteq> Bot" "q \<noteq> Guest"
      by (auto split: sum.splits if_splits)
    have iff: "\<And>q'. ''push:'' @ role_as_str q' = s \<longleftrightarrow> q' = q"
      using Some q by (auto simp only: push_string_iff)
    from Some q "2.prems" have rec: "parse_rule_strs (rule\<lparr>pr_push_role := stricter (pr_push_role rule) q\<rparr>) us rest
        = Ok (rule', us')" by simp
    from "2.IH"(5) [OF Some q(1) _ rec] q have IH: "pr_pattern rule' = pr_pattern rule"
      "pr_no_force_push rule' \<longleftrightarrow> pr_no_force_push rule \<or> ''no-force-push'' \<in> set rest"
      "pr_no_delete rule' \<longleftrightarrow> pr_no_delete rule \<or> ''no-delete'' \<in> set rest"
      "pr_require_patch rule' \<longleftrightarrow> pr_require_patch rule \<or> ''require-patch'' \<in> set rest"
      "role_bounded role (pr_push_role rule') \<longleftrightarrow>
          q \<le> role \<and> role_bounded role (pr_push_role rule)
          \<and> (\<forall>q. ''push:'' @ role_as_str q \<in> set rest \<longrightarrow> q \<le> role)"
      by auto
    show ?thesis
      using push_prefix_distinct [OF Some] IH by (simp only: set_simps insert_iff iff) blast
  qed
qed

lemma parse_tag_push_role:
  "parse_rule_strs rule us strs = Ok (rule', us') \<Longrightarrow>
     pr_push_role rule \<notin> {Some Bot, Some Guest} \<Longrightarrow> pr_push_role rule' \<notin> {Some Bot, Some Guest}"
proof (induction rule us strs rule: parse_rule_strs.induct)
  case (1 rule us)
  then show ?case by auto
next
  case (2 rule us s rest)
  show ?case
  proof (cases "strip_prefix ''push:'' s")
    case None
    with 2 show ?thesis by (auto split: if_splits)
  next
    case (Some t)
    with "2.prems" obtain q where q: "role_from_str t = Ok q" "q \<noteq> Bot" "q \<noteq> Guest"
      by (auto split: sum.splits if_splits)
    from Some q "2.prems" have rec:
      "parse_rule_strs (rule\<lparr>pr_push_role := stricter (pr_push_role rule) q\<rparr>) us rest
         = Ok (rule', us')" by simp
    show ?thesis
      by (rule "2.IH"(5) [OF Some q(1) _ rec])
         (use q "2.prems"(2) in \<open>auto simp: stricter_def split: option.splits\<close>)
  qed
qed

lemma parse_tag_sound:
  assumes "parse_protection_tag_with_warnings (pat # strs) = Ok (rule, us)"
  shows "parse_pattern pat = Ok (pr_pattern rule)
     \<and> strs \<noteq> []
     \<and> pr_push_role rule \<notin> {Some Bot, Some Guest}
     \<and> (pr_no_force_push rule \<longleftrightarrow> ''no-force-push'' \<in> set strs)
     \<and> (pr_no_delete rule \<longleftrightarrow> ''no-delete'' \<in> set strs)
     \<and> (pr_require_patch rule \<longleftrightarrow> ''require-patch'' \<in> set strs)
     \<and> (role_bounded role (pr_push_role rule) \<longleftrightarrow>
          (\<forall>q. ''push:'' @ role_as_str q \<in> set strs \<longrightarrow> q \<le> role))"
proof -
  from assms obtain p where strs: "strs \<noteq> []" and p: "parse_pattern pat = Ok p"
    and loop: "parse_rule_strs
                 \<lparr>pr_pattern = p, pr_push_role = None, pr_no_force_push = False,
                  pr_no_delete = False, pr_require_patch = False\<rparr> [] strs = Ok (rule, us)"
    by (auto simp: parse_protection_tag_with_warnings_def split: list.splits sum.splits)
  from parse_tag_push_role [OF loop] have "pr_push_role rule \<notin> {Some Bot, Some Guest}" by simp
  with parse_rule_strs_sound [OF loop, of role] strs p show ?thesis by simp
qed

definition is_protect_tag :: "string list \<Rightarrow> bool" where
  "is_protect_tag tag \<longleftrightarrow> tag \<noteq> [] \<and> hd tag = ''buzz-protect''"

lemma parse_protection_loop_Ok:
  "length rules \<le> MAX_PROTECTION_RULES \<Longrightarrow>
   parse_protection_loop rules us tags = Ok pp \<Longrightarrow>
     length (pp_rules pp) \<le> MAX_PROTECTION_RULES
     \<and> (\<exists>new. pp_rules pp = rules @ new
          \<and> list_all2 (\<lambda>t r. \<exists>w. parse_protection_tag_with_warnings (tl t) = Ok (r, w))
              (filter is_protect_tag tags) new)"
proof (induction rules us tags arbitrary: pp rule: parse_protection_loop.induct)
  case (1 rules us)
  then show ?case by auto
next
  case (2 rules us tag tags)
  show ?case
  proof (cases tag)
    case Nil
    with 2 show ?thesis by (auto simp: is_protect_tag_def)
  next
    case (Cons name vals)
    show ?thesis
    proof (cases "name = ''buzz-protect''")
      case False
      with Cons 2 show ?thesis by (auto simp: is_protect_tag_def)
    next
      case True
      with Cons "2.prems" obtain r w where room: "length rules < MAX_PROTECTION_RULES"
        and r: "parse_protection_tag_with_warnings vals = Ok (r, w)"
        and rec: "parse_protection_loop (rules @ [r]) (us @ w) tags = Ok pp"
        by (auto split: if_splits)
      from "2.IH"(3) [OF Cons _ _ _ rec] True room r
      obtain new where "length (pp_rules pp) \<le> MAX_PROTECTION_RULES"
        "pp_rules pp = (rules @ [r]) @ new"
        "list_all2 (\<lambda>t r. \<exists>w. parse_protection_tag_with_warnings (tl t) = Ok (r, w))
           (filter is_protect_tag tags) new"
        by auto
      moreover have "is_protect_tag tag" using Cons True by (simp add: is_protect_tag_def)
      ultimately show ?thesis using Cons r by auto
    qed
  qed
qed

section \<open>Properties\<close>

text \<open>
  Pattern grammar. \<open>RefPattern::parse\<close> accepts a string exactly when it is non-empty, at most
  256 bytes, starts with \<open>refs/\<close> and is the \<open>/\<close>-separated rendering of a well-formed segment list
  (non-empty literals over the allowed characters, \<open>**\<close> only last, at most three wildcards), and
  the pattern it returns is that string with that segment list.
\<close>

theorem parse_pattern_iff:
  "parse_pattern s = Ok rp \<longleftrightarrow>
     rp_raw rp = s \<and> s = join_with CHR ''/'' (map segment_str (rp_segments rp))
     \<and> wf_segments (rp_segments rp)
     \<and> s \<noteq> [] \<and> length s \<le> MAX_PATTERN_LENGTH \<and> starts_with ''refs/'' s"
  by (rule parse_pattern_iff_aux)

text \<open>
  C13 (matching is exact and panic-free). For every pattern the parser returns, \<open>matches\<close> never
  reaches an \<open>unreachable!()\<close> arm and decides the segment relation: \<open>*\<close> stands for one segment,
  a literal for itself, a final \<open>**\<close> for one or more segments.
\<close>

theorem pattern_match_exact:
  assumes "parse_pattern s = Ok rp"
  shows "try_matches rp r = Some (seg_match (rp_segments rp) (split_on CHR ''/'' r))"
  using assms by (intro try_matches_eq) (simp add: parse_pattern_iff_aux wf_segments_def)

lemma parse_heads_glob:
  "parse_pattern ''refs/heads/*'' =
     Ok \<lparr>rp_raw = ''refs/heads/*'', rp_segments = [Literal ''refs'', Literal ''heads'', Wildcard]\<rparr>"
  by code_simp

theorem pattern_match_exact_witness:
  "try_matches \<lparr>rp_raw = ''refs/heads/*'', rp_segments = [Literal ''refs'', Literal ''heads'', Wildcard]\<rparr>
     ''refs/heads/main'' = Some True"
  using pattern_match_exact [OF parse_heads_glob, of "''refs/heads/main''"]
  by (simp add: seg_match_simps)

text \<open>
  Who may update a ref. A ref update is allowed exactly when the pusher has at least the
  built-in default role for the operation and every protection rule whose pattern matches the ref
  permits it. So explicit rules only ever add constraints: \<open>push:member\<close> never weakens a default,
  and the verdict does not depend on the order or multiplicity of the rules.
\<close>

theorem ref_update_allowed_iff:
  "evaluate_ref_update u role rules = Ok () \<longleftrightarrow>
     default_min_role (ru_ref_name u) (ru_kind u) \<le> role
     \<and> (\<forall>rule \<in> matching (ru_ref_name u) rules. rule_permits rule u role)"
  by (rule evaluate_ref_update_Ok)

definition demo_rule :: protection_rule where
  "demo_rule =
     \<lparr>pr_pattern = \<lparr>rp_raw = ''refs/heads/main'',
                    rp_segments = [Literal ''refs'', Literal ''heads'', Literal ''main'']\<rparr>,
      pr_push_role = Some Member, pr_no_force_push = False, pr_no_delete = False,
      pr_require_patch = False\<rparr>"

definition demo_update :: "update_kind \<Rightarrow> ref_update" where
  "demo_update k =
     \<lparr>ru_ref_name = ''refs/heads/main'', ru_kind = k, ru_old_oid = ''a'', ru_new_oid = ''b''\<rparr>"

lemma demo_matching: "matching ''refs/heads/main'' [demo_rule] = {demo_rule}"
proof -
  have "pattern_matches (pr_pattern demo_rule) ''refs/heads/main''" by code_simp
  then show ?thesis by simp
qed

theorem ref_update_allowed_iff_witness:
  "evaluate_ref_update (demo_update FastForward) Member [demo_rule] = Ok ()
   \<and> evaluate_ref_update (demo_update NonFastForward) Member [demo_rule] \<noteq> Ok ()"
  using ref_update_allowed_iff [of "demo_update FastForward" Member "[demo_rule]"]
    ref_update_allowed_iff [of "demo_update NonFastForward" Member "[demo_rule]"]
    demo_matching role_order
  by (simp add: demo_update_def rule_permits_def starts_with_def)
     (simp add: demo_rule_def)

text \<open>
  Monotonicity. Raising the pusher's role or dropping, reordering or repeating rules never
  turns an allowed update into a denied one.
\<close>

theorem ref_update_monotone:
  assumes "evaluate_ref_update u role rules = Ok ()"
    and "set rules' \<subseteq> set rules" and "role \<le> role'"
  shows "evaluate_ref_update u role' rules' = Ok ()"
  using assms matching_mono [OF assms(2), of "ru_ref_name u"]
  by (auto simp: evaluate_ref_update_Ok rule_permits_def intro: role_bounded_mono)

theorem ref_update_monotone_witness:
  "evaluate_ref_update (demo_update FastForward) Admin [] = Ok ()"
proof (rule ref_update_monotone [of _ Member "[demo_rule]"])
  show "evaluate_ref_update (demo_update FastForward) Member [demo_rule] = Ok ()"
    by code_simp
qed (simp_all add: role_order less_imp_le)

text \<open>
  A push is atomic. \<open>evaluate_push\<close> succeeds exactly when every ref update is allowed, and
  otherwise returns the non-empty list of all denials, in the order of the updates.
\<close>

theorem push_is_atomic:
  "(evaluate_push us role rules = Ok () \<longleftrightarrow>
      (\<forall>u \<in> set us. evaluate_ref_update u role rules = Ok ()))
   \<and> (evaluate_push us role rules = Err ds \<longleftrightarrow>
      ds \<noteq> [] \<and> map Inl ds = filter (\<lambda>r. r \<noteq> Ok ()) (map (\<lambda>u. evaluate_ref_update u role rules) us))"
proof -
  let ?f = "\<lambda>u. case evaluate_ref_update u role rules of Inl d \<Rightarrow> Some d | Inr _ \<Rightarrow> None"
  have mf: "map Inl (List.map_filter ?f us)
      = filter (\<lambda>r. r \<noteq> Ok ()) (map (\<lambda>u. evaluate_ref_update u role rules) us)"
    by (induction us) (auto simp: List.map_filter_simps split: sum.splits)
  have all: "List.map_filter ?f us = [] \<longleftrightarrow> (\<forall>u \<in> set us. evaluate_ref_update u role rules = Ok ())"
    using arg_cong [OF mf, of "\<lambda>l. l = []"] by (auto simp: filter_empty_conv)
  have ds: "map Inl ds = map Inl (List.map_filter ?f us) \<longleftrightarrow> ds = List.map_filter ?f us"
    by (rule inj_map_eq_map) (rule inj_Inl)
  show ?thesis
    unfolding evaluate_push_def Let_def mf [symmetric] ds using all by auto
qed

theorem push_is_atomic_witness:
  "evaluate_push [demo_update FastForward, demo_update Delete] Member [] \<noteq> Ok ()"
proof -
  have "evaluate_ref_update (demo_update Delete) Member [] \<noteq> Ok ()" by code_simp
  then show ?thesis
    using push_is_atomic [of "[demo_update FastForward, demo_update Delete]" Member "[]" "[]"] by simp
qed

text \<open>
  Protection tags. When \<open>parse_protection_tags\<close> succeeds there are at most 50 rules, one per
  \<open>buzz-protect\<close> tag in tag order; each rule's flags are exactly the rule strings present in its
  tag, and its push role is the strictest of the tag's \<open>push:<role>\<close> strings and never Bot or Guest.
\<close>

theorem protection_tags_sound:
  assumes "parse_protection_tags tags = Ok pp"
  shows "length (pp_rules pp) \<le> MAX_PROTECTION_RULES
     \<and> list_all2
         (\<lambda>t r. parse_pattern (hd (tl t)) = Ok (pr_pattern r)
            \<and> pr_push_role r \<notin> {Some Bot, Some Guest}
            \<and> (pr_no_force_push r \<longleftrightarrow> ''no-force-push'' \<in> set (tl (tl t)))
            \<and> (pr_no_delete r \<longleftrightarrow> ''no-delete'' \<in> set (tl (tl t)))
            \<and> (pr_require_patch r \<longleftrightarrow> ''require-patch'' \<in> set (tl (tl t)))
            \<and> (\<forall>role. role_bounded role (pr_push_role r) \<longleftrightarrow>
                 (\<forall>q. ''push:'' @ role_as_str q \<in> set (tl (tl t)) \<longrightarrow> q \<le> role)))
         (filter is_protect_tag tags) (pp_rules pp)"
proof -
  from assms parse_protection_loop_Ok [of "[]" "[]" tags pp]
  have "length (pp_rules pp) \<le> MAX_PROTECTION_RULES"
    and all: "list_all2 (\<lambda>t r. \<exists>w. parse_protection_tag_with_warnings (tl t) = Ok (r, w))
          (filter is_protect_tag tags) (pp_rules pp)"
    by (auto simp: parse_protection_tags_def)
  from all have "list_all2
         (\<lambda>t r. parse_pattern (hd (tl t)) = Ok (pr_pattern r)
            \<and> pr_push_role r \<notin> {Some Bot, Some Guest}
            \<and> (pr_no_force_push r \<longleftrightarrow> ''no-force-push'' \<in> set (tl (tl t)))
            \<and> (pr_no_delete r \<longleftrightarrow> ''no-delete'' \<in> set (tl (tl t)))
            \<and> (pr_require_patch r \<longleftrightarrow> ''require-patch'' \<in> set (tl (tl t)))
            \<and> (\<forall>role. role_bounded role (pr_push_role r) \<longleftrightarrow>
                 (\<forall>q. ''push:'' @ role_as_str q \<in> set (tl (tl t)) \<longrightarrow> q \<le> role)))
         (filter is_protect_tag tags) (pp_rules pp)"
  proof (rule list_all2_mono, elim exE)
    fix t :: "string list" and r w
    assume ok: "parse_protection_tag_with_warnings (tl t) = Ok (r, w)"
    then obtain pat strs where t: "tl t = pat # strs"
      by (auto simp: parse_protection_tag_with_warnings_def split: list.splits)
    from parse_tag_sound [OF ok [unfolded t]]
    show "parse_pattern (hd (tl t)) = Ok (pr_pattern r)
            \<and> pr_push_role r \<notin> {Some Bot, Some Guest}
            \<and> (pr_no_force_push r \<longleftrightarrow> ''no-force-push'' \<in> set (tl (tl t)))
            \<and> (pr_no_delete r \<longleftrightarrow> ''no-delete'' \<in> set (tl (tl t)))
            \<and> (pr_require_patch r \<longleftrightarrow> ''require-patch'' \<in> set (tl (tl t)))
            \<and> (\<forall>role. role_bounded role (pr_push_role r) \<longleftrightarrow>
                 (\<forall>q. ''push:'' @ role_as_str q \<in> set (tl (tl t)) \<longrightarrow> q \<le> role))"
      unfolding t list.sel by blast
  qed
  with \<open>length (pp_rules pp) \<le> MAX_PROTECTION_RULES\<close> show ?thesis by blast
qed

theorem protection_tags_sound_witness:
  "\<exists>pp. parse_protection_tags [[''d'', ''x''], [''buzz-protect'', ''refs/heads/main'', ''push:admin'', ''no-delete'']]
          = Ok pp \<and> length (pp_rules pp) = 1 \<and> pr_no_delete (hd (pp_rules pp))"
proof -
  define pp where "pp = \<lparr>pp_rules = [demo_rule\<lparr>pr_push_role := Some Admin, pr_no_delete := True\<rparr>],
      pp_unknown_rules = []\<rparr>"
  have ok: "parse_protection_tags
      [[''d'', ''x''], [''buzz-protect'', ''refs/heads/main'', ''push:admin'', ''no-delete'']] = Ok pp"
    unfolding pp_def by code_simp
  from protection_tags_sound [OF ok] ok show ?thesis
    by (auto simp: is_protect_tag_def list_all2_Cons1)
qed

end
