(* ===== verification/GitManifest.thy ===== *)
theory GitManifest
  imports Tenant GitPerms "HOL-Library.List_Lexorder" "HOL-Library.Char_ord"
begin

text \<open>
  The manifest of a hosted git repository (\<open>crates/buzz-relay/src/api/git/manifest.rs\<close>): the immutable
  snapshot of its refs, its HEAD and the packs that cover them. A \<open>BTreeMap\<close> is an association list
  with strictly increasing keys (\<open>btree\<close>). SHA-256, the JSON form, the rendering of a UUID and the
  ETags of the object store are parameters (\<open>git_lib\<close>), with what is documented of them in \<open>git_laws\<close>.

  The lemmas give validation as one declarative predicate, show that a safe ref name cannot leave the
  repository's directory, that the canonical bytes do not depend on the order of the packs and are read
  back, and which repositories share a pointer.
\<close>

text \<open>\<open>Result::map_err\<close>, the conversion in \<open>?\<close>.\<close>

definition map_err :: "('e \<Rightarrow> 'f) \<Rightarrow> 'e + 'a \<Rightarrow> 'f + 'a" where
  "map_err f r = (case r of Inl e \<Rightarrow> Inl (f e) | Inr a \<Rightarrow> Inr a)"

lemma map_err_simps [simp]: "map_err f (Ok a) = Ok a" "map_err f (Err e) = Err (f e)"
  by (simp_all add: map_err_def)

lemma map_err_eq_Ok [simp]: "map_err f r = Ok a \<longleftrightarrow> r = Ok a"
  by (cases r) simp_all

section \<open>The data\<close>

definition MANIFEST_VERSION :: u32 where "MANIFEST_VERSION = 1"
definition MAX_MANIFEST_PACKS :: nat where "MAX_MANIFEST_PACKS = 128"
definition PACK_COMPACTION_THRESHOLD :: nat where "PACK_COMPACTION_THRESHOLD = MAX_MANIFEST_PACKS * 3 div 4"
definition MAX_MANIFEST_REFS :: nat where "MAX_MANIFEST_REFS = 10000"

record manifest =
  mf_version :: u32
  mf_head :: string
  mf_refs :: "(string, string) hmap"
  mf_packs :: "string list"
  mf_parent :: "string option"

datatype manifest_error =
    ManifestSerde
  | UnsupportedVersion u32
  | UnsafeRefName string
  | MalformedOid string string
  | EmptyHead
  | MalformedParent string
  | TooManyPacks nat
  | TooManyRefs nat
  | MalformedPackKey string

text \<open>\<open>BTreeMap<String, String>\<close>: the entries in increasing key order, and \<open>insert\<close>.\<close>

definition btree :: "(string, string) hmap \<Rightarrow> bool" where
  "btree m \<longleftrightarrow> sorted_wrt (<) (map fst m)"

fun btree_insert :: "string \<Rightarrow> string \<Rightarrow> (string, string) hmap \<Rightarrow> (string, string) hmap" where
  "btree_insert k v [] = [(k, v)]"
| "btree_insert k v ((k', v') # m) =
     (if k < k' then (k, v) # (k', v') # m
      else if k = k' then (k, v) # m
      else (k', v') # btree_insert k v m)"

section \<open>Predicates on names\<close>

definition is_safe_refname :: "string \<Rightarrow> bool" where
  "is_safe_refname s \<longleftrightarrow>
     starts_with ''refs/'' s
     \<and> \<not> (has_infix ''..'' s \<or> has_infix ''//'' s \<or> starts_with ''/'' s \<or> strip_suffix ''/'' s \<noteq> None)
     \<and> list_all (\<lambda>c. is_ascii_alphanumeric c \<or> c = CHR ''/'' \<or> c = CHR ''_'' \<or> c = CHR ''.'' \<or> c = CHR ''-'') s"

definition is_hex_oid :: "string \<Rightarrow> bool" where
  "is_hex_oid s \<longleftrightarrow> (length s = 40 \<or> length s = 64) \<and> list_all is_ascii_hexdigit s"

definition lower_hex :: "char \<Rightarrow> bool" where
  "lower_hex c \<longleftrightarrow> (let n = (of_char c :: nat) in 48 \<le> n \<and> n \<le> 57 \<or> 97 \<le> n \<and> n \<le> 102)"

definition is_manifest_digest :: "string \<Rightarrow> bool" where
  "is_manifest_digest s \<longleftrightarrow> length s = 64 \<and> list_all lower_hex s"

definition is_pack_key :: "string \<Rightarrow> bool" where
  "is_pack_key s \<longleftrightarrow> (case strip_prefix ''packs/'' s of None \<Rightarrow> False | Some d \<Rightarrow> is_manifest_digest d)"

section \<open>Validation\<close>

fun validate_refs :: "(string, string) hmap \<Rightarrow> manifest_error + unit" where
  "validate_refs [] = Ok ()"
| "validate_refs ((refname, oid) # refs) =
     (if \<not> is_safe_refname refname then Err (UnsafeRefName refname)
      else if \<not> is_hex_oid oid then Err (MalformedOid refname oid)
      else validate_refs refs)"

fun validate_packs :: "string list \<Rightarrow> manifest_error + unit" where
  "validate_packs [] = Ok ()"
| "validate_packs (pack # packs) =
     (if \<not> is_pack_key pack then Err (MalformedPackKey pack) else validate_packs packs)"

definition validate :: "manifest \<Rightarrow> manifest_error + unit" where
  "validate m =
     (if length (mf_packs m) > MAX_MANIFEST_PACKS then Err (TooManyPacks (length (mf_packs m)))
      else if length (mf_refs m) > MAX_MANIFEST_REFS then Err (TooManyRefs (length (mf_refs m)))
      else if mf_head m = [] then Err EmptyHead
      else if \<not> is_safe_refname (mf_head m) then Err (UnsafeRefName (mf_head m))
      else and_then (validate_refs (mf_refs m)) (\<lambda>_.
        and_then (validate_packs (mf_packs m)) (\<lambda>_.
          case mf_parent m of
            None \<Rightarrow> Ok ()
          | Some p \<Rightarrow> if is_manifest_digest p then Ok () else Err (MalformedParent p))))"

section \<open>Serialization\<close>

record git_lib =
  gl_sha :: "bytes \<Rightarrow> string"
  gl_to_vec :: "manifest \<Rightarrow> bytes"
  gl_from_slice :: "bytes \<Rightarrow> manifest option"
  gl_uuid :: "uuid \<Rightarrow> string"
  gl_etag :: "nat \<Rightarrow> bytes \<Rightarrow> string"
  gl_header_value :: "string \<Rightarrow> bool"

text \<open>
  Documented of the parameters: a hexadecimal SHA-256 has 64 lower-case digits; \<open>serde_json\<close> reads back
  what it wrote; the hyphenated form of a UUID is injective, not empty and has no slash; an ETag changes
  when the content of the object changes (\<open>gl_etag n body\<close> is the one given to the \<open>n\<close>th write, so it
  may depend on the content alone, on the version, or on both). \<open>gl_header_value\<close> says whether a
  string can be sent as the value of a header.
\<close>

definition git_laws :: "git_lib \<Rightarrow> bool" where
  "git_laws lib \<longleftrightarrow>
     (\<forall>b. is_manifest_digest (gl_sha lib b))
     \<and> (\<forall>m. btree (mf_refs m) \<longrightarrow> gl_from_slice lib (gl_to_vec lib m) = Some m)
     \<and> inj (gl_uuid lib) \<and> (\<forall>u. CHR ''/'' \<notin> set (gl_uuid lib u))
     \<and> (\<forall>n b n' b'. gl_etag lib n b = gl_etag lib n' b' \<longrightarrow> b = b')"

text \<open>\<open>packs.sort(); packs.dedup()\<close>\<close>

definition sort_dedup :: "string list \<Rightarrow> string list" where
  "sort_dedup xs = remdups_adj (sort xs)"

definition canonical_bytes :: "git_lib \<Rightarrow> manifest \<Rightarrow> bytes" where
  "canonical_bytes lib m = gl_to_vec lib (m\<lparr>mf_packs := sort_dedup (mf_packs m)\<rparr>)"

definition manifest_from_bytes :: "git_lib \<Rightarrow> bytes \<Rightarrow> manifest_error + manifest" where
  "manifest_from_bytes lib bs =
     (case gl_from_slice lib bs of
        None \<Rightarrow> Err ManifestSerde
      | Some m \<Rightarrow> if mf_version m \<noteq> MANIFEST_VERSION then Err (UnsupportedVersion (mf_version m)) else Ok m)"

text \<open>\<open>repos/<community>/<owner>/<repo>/pointer\<close>, a trailing \<open>.git\<close> stripped.\<close>

definition strip_dot_git :: "string \<Rightarrow> string" where
  "strip_dot_git repo = (case strip_suffix ''.git'' repo of None \<Rightarrow> repo | Some r \<Rightarrow> r)"

definition pointer_key :: "git_lib \<Rightarrow> uuid \<Rightarrow> string \<Rightarrow> string \<Rightarrow> string" where
  "pointer_key lib community owner repo =
     ''repos/'' @ gl_uuid lib community @ ''/'' @ owner @ ''/'' @ strip_dot_git repo @ ''/pointer''"

text \<open>\<open>format!("manifests/{digest}")\<close>\<close>

definition manifest_key :: "string \<Rightarrow> string" where
  "manifest_key d = ''manifests/'' @ d"

lemma manifest_key_simps [simp]:
  "strip_prefix ''manifests/'' (manifest_key d) = Some d"
  "manifest_key d = manifest_key d' \<longleftrightarrow> d = d'"
  "\<not> starts_with ''repos/'' (manifest_key d)" "\<not> starts_with ''packs/'' (manifest_key d)"
  "\<not> starts_with ''idx/'' (manifest_key d)"
  by (simp_all add: manifest_key_def strip_prefix_def starts_with_def)

lemma pointer_key_prefix [simp]:
  "starts_with ''repos/'' (pointer_key lib c owner repo)"
  by (simp add: pointer_key_def starts_with_def)

section \<open>Ordered maps and pack lists\<close>

lemma btree_simps [simp]: "btree []" "btree ((k, v) # m) \<longleftrightarrow> (\<forall>x \<in> set m. k < fst x) \<and> btree m"
  by (simp_all add: btree_def)

lemma set_btree_insert: "set (btree_insert k v m) \<subseteq> insert (k, v) (set m)"
  by (induction k v m rule: btree_insert.induct) auto

lemma btree_insert_btree [simp]: "btree m \<Longrightarrow> btree (btree_insert k v m)"
proof (induction k v m rule: btree_insert.induct)
  case (2 k v k' v' m)
  then show ?case using set_btree_insert [of k v m] by (auto dest: less_trans)
qed simp

lemma map_of_btree_insert [simp]: "btree m \<Longrightarrow> map_of (btree_insert k v m) = (map_of m)(k \<mapsto> v)"
proof (induction k v m rule: btree_insert.induct)
  case (2 k v k' v' m)
  have "map_of m k = None" if "k < k'"
    using 2(2) that by (auto simp: map_of_eq_None_iff dest: less_trans)
  then show ?case using 2 by (auto simp: fun_eq_iff)
qed simp

lemma btree_hwf: "btree m \<Longrightarrow> hwf m"
  by (simp add: btree_def hwf_def strict_sorted_iff)

lemma distinct_remdups_adj_sorted: "sorted xs \<Longrightarrow> distinct (remdups_adj xs)" for xs :: "'a::linorder list"
  by (induction xs rule: remdups_adj.induct) auto

lemma set_sort_dedup [simp]: "set (sort_dedup xs) = set xs"
  by (simp add: sort_dedup_def)

lemma sorted_sort_dedup [simp]: "sorted (sort_dedup xs)" "distinct (sort_dedup xs)"
  by (simp_all add: sort_dedup_def sorted_remdups_adj distinct_remdups_adj_sorted)

lemma sort_dedup_eq_iff: "sort_dedup xs = sort_dedup ys \<longleftrightarrow> set xs = set ys"
  by (metis set_sort_dedup sorted_distinct_set_unique sorted_sort_dedup)

lemma sort_dedup_idem [simp]: "sort_dedup (sort_dedup xs) = sort_dedup xs"
  by (simp add: sort_dedup_eq_iff)

lemma length_sort_dedup: "length (sort_dedup xs) \<le> length xs"
  by (metis card_length distinct_card set_sort_dedup sorted_sort_dedup(2))

section \<open>Validation as one predicate\<close>

definition manifest_ok :: "manifest \<Rightarrow> bool" where
  "manifest_ok m \<longleftrightarrow>
     length (mf_packs m) \<le> MAX_MANIFEST_PACKS \<and> length (mf_refs m) \<le> MAX_MANIFEST_REFS
     \<and> is_safe_refname (mf_head m)
     \<and> (\<forall>(refname, oid) \<in> set (mf_refs m). is_safe_refname refname \<and> is_hex_oid oid)
     \<and> (\<forall>pack \<in> set (mf_packs m). is_pack_key pack)
     \<and> (\<forall>p. mf_parent m = Some p \<longrightarrow> is_manifest_digest p)"

lemma validate_refs_iff: "validate_refs refs = Ok () \<longleftrightarrow> (\<forall>(r, oid) \<in> set refs. is_safe_refname r \<and> is_hex_oid oid)"
  by (induction refs rule: validate_refs.induct) auto

lemma validate_packs_iff: "validate_packs ps = Ok () \<longleftrightarrow> (\<forall>p \<in> set ps. is_pack_key p)"
  by (induction ps) auto

lemma safe_refname_not_Nil [simp]: "\<not> is_safe_refname []"
  by (simp add: is_safe_refname_def starts_with_def)

lemma validate_iff: "validate m = Ok () \<longleftrightarrow> manifest_ok m"
  by (auto simp: validate_def manifest_ok_def validate_refs_iff validate_packs_iff not_less
        split: option.splits)

lemma manifest_ok_sort_dedup: "manifest_ok m \<Longrightarrow> manifest_ok (m\<lparr>mf_packs := sort_dedup (mf_packs m)\<rparr>)"
  using length_sort_dedup [of "mf_packs m"] by (auto simp: manifest_ok_def)

section \<open>Safe names\<close>

lemma ends_with_iff: "strip_suffix p s \<noteq> None \<longleftrightarrow> (\<exists>t. s = t @ p)"
  by (metis not_None_eq strip_suffix_Some)

lemma empty_later_segment:
  "[] \<in> set (tl (split_on c s)) \<Longrightarrow> (\<exists>t. s = t @ [c]) \<or> has_infix [c, c] s"
proof (induction s)
  case (Cons x s)
  obtain p ps where sp: "split_on c s = p # ps" by (cases "split_on c s") auto
  show ?case
  proof (cases "x = c \<and> p = []")
    case True
    then have "s = [] \<or> hd s = c" using sp by (cases s) (auto split: if_splits list.splits)
    then show ?thesis using True by (cases s) (auto simp: starts_with_def)
  next
    case False
    then have "[] \<in> set (tl (split_on c s))" using Cons.prems sp by (auto split: if_splits)
    with Cons.IH show ?thesis by (metis append_Cons has_infix.simps(2))
  qed
qed simp

lemma empty_segment:
  assumes "[] \<in> set (split_on c s)" "s \<noteq> []"
  shows "starts_with [c] s \<or> (\<exists>t. s = t @ [c]) \<or> has_infix [c, c] s"
proof (cases "hd (split_on c s) = []")
  case True
  then show ?thesis using assms(2) by (cases s) (auto simp: starts_with_def split: if_splits list.splits)
next
  case False
  then have "[] \<in> set (tl (split_on c s))" using assms(1) by (cases "split_on c s") auto
  then show ?thesis using empty_later_segment by blast
qed

lemma safe_refname_segments:
  assumes "is_safe_refname s" "seg \<in> set (split_on CHR ''/'' s)"
  shows "seg \<noteq> []" "seg \<noteq> ''..''" "list_all literal_char seg"
proof -
  obtain xs ys where split: "split_on CHR ''/'' s = xs @ seg # ys" using assms(2) by (meson split_list)
  have joined: "\<exists>u v. join_with c (xs @ seg # ys) = u @ seg @ v" for c
  proof (induction xs)
    case Nil
    then show ?case by (cases ys) (auto intro: exI [of _ "[]"])
  next
    case (Cons p xs)
    then obtain u v where "join_with c (xs @ seg # ys) = u @ seg @ v" by blast
    then have "join_with c ((p # xs) @ seg # ys) = (p @ c # u) @ seg @ v"
      by (simp add: join_with_Cons)
    then show ?case by blast
  qed
  obtain u v where s: "s = u @ seg @ v" using joined [of "CHR ''/''"] split by (metis join_split_on)
  have safe: "\<not> has_infix ''..'' s" "\<not> has_infix ''//'' s" "\<not> starts_with ''/'' s" "\<nexists>t. s = t @ ''/''" "s \<noteq> []"
    using assms(1) by (auto simp: is_safe_refname_def ends_with_iff [symmetric] starts_with_def)
  show "seg \<noteq> []" using empty_segment [of "CHR ''/''" s] assms(2) safe by auto
  show "seg \<noteq> ''..''" using safe(1) s unfolding has_infix_iff by blast
  have "CHR ''/'' \<notin> set seg" using split_on_no_sep [OF assms(2)] .
  moreover have "set seg \<subseteq> set s" using s by auto
  ultimately show "list_all literal_char seg"
    using assms(1) by (auto simp: is_safe_refname_def list_all_iff literal_char_def)
qed

lemma safe_refname_root:
  assumes "is_safe_refname s"
  shows "\<exists>seg segs. split_on CHR ''/'' s = ''refs'' # seg # segs"
proof -
  obtain t where "s = ''refs'' @ CHR ''/'' # t"
    using assms by (auto simp: is_safe_refname_def starts_with_iff)
  then have "split_on CHR ''/'' s = ''refs'' # split_on CHR ''/'' t"
    by (simp only: split_on_append_sep) (simp add: split_on_append_sep)
  then show ?thesis by (cases "split_on CHR ''/'' t") auto
qed

section \<open>Canonical bytes\<close>

lemma canonical_round_trip:
  assumes "git_laws lib" "btree (mf_refs m)"
  shows "manifest_from_bytes lib (canonical_bytes lib m) =
           (if mf_version m = MANIFEST_VERSION then Ok (m\<lparr>mf_packs := sort_dedup (mf_packs m)\<rparr>)
            else Err (UnsupportedVersion (mf_version m)))"
  using assms by (simp add: git_laws_def canonical_bytes_def manifest_from_bytes_def)

lemma canonical_bytes_packs:
  assumes "git_laws lib" "btree (mf_refs m)"
  shows "canonical_bytes lib (m\<lparr>mf_packs := ps\<rparr>) = canonical_bytes lib (m\<lparr>mf_packs := qs\<rparr>) \<longleftrightarrow> set ps = set qs"
proof
  assume "canonical_bytes lib (m\<lparr>mf_packs := ps\<rparr>) = canonical_bytes lib (m\<lparr>mf_packs := qs\<rparr>)"
  then have "gl_from_slice lib (gl_to_vec lib (m\<lparr>mf_packs := sort_dedup ps\<rparr>))
      = gl_from_slice lib (gl_to_vec lib (m\<lparr>mf_packs := sort_dedup qs\<rparr>))" by (simp add: canonical_bytes_def)
  then have "m\<lparr>mf_packs := sort_dedup ps\<rparr> = m\<lparr>mf_packs := sort_dedup qs\<rparr>"
    using assms by (simp add: git_laws_def)
  then have "sort_dedup ps = sort_dedup qs" by (metis manifest.ext_inject manifest.surjective manifest.update_convs(4))
  then show "set ps = set qs" by (simp add: sort_dedup_eq_iff)
next
  assume "set ps = set qs"
  then have "sort_dedup ps = sort_dedup qs" by (simp add: sort_dedup_eq_iff)
  then show "canonical_bytes lib (m\<lparr>mf_packs := ps\<rparr>) = canonical_bytes lib (m\<lparr>mf_packs := qs\<rparr>)"
    by (simp add: canonical_bytes_def)
qed

section \<open>Which repositories share a pointer\<close>

lemma slash_free_append:
  "c \<notin> set u \<Longrightarrow> c \<notin> set u' \<Longrightarrow> u @ c # s = u' @ c # s' \<longleftrightarrow> u = u' \<and> s = s'" for c :: char
  by (metis Pair_inject option.inject split_once_append)

lemma pointer_key_eq_iff:
  assumes "git_laws lib" "CHR ''/'' \<notin> set owner" "CHR ''/'' \<notin> set owner'"
  shows "pointer_key lib c owner repo = pointer_key lib c' owner' repo'
           \<longleftrightarrow> c = c' \<and> owner = owner' \<and> strip_dot_git repo = strip_dot_git repo'"
proof -
  have uuid: "CHR ''/'' \<notin> set (gl_uuid lib u)" "gl_uuid lib u = gl_uuid lib v \<longleftrightarrow> u = v" for u v
    using assms(1) by (auto simp: git_laws_def inj_eq)
  have "pointer_key lib c owner repo = pointer_key lib c' owner' repo'
      \<longleftrightarrow> gl_uuid lib c @ CHR ''/'' # (owner @ CHR ''/'' # (strip_dot_git repo @ ''/pointer''))
          = gl_uuid lib c' @ CHR ''/'' # (owner' @ CHR ''/'' # (strip_dot_git repo' @ ''/pointer''))"
    by (simp add: pointer_key_def)
  then show ?thesis by (simp only: slash_free_append assms(2,3) uuid append_same_eq not_False_eq_True)
qed

lemma manifest_digest_ascii: "is_manifest_digest d \<Longrightarrow> list_all is_ascii_hexdigit d"
  by (auto simp: is_manifest_digest_def list_all_iff lower_hex_def is_ascii_hexdigit_def Let_def)

lemma str_trim_digest: "is_manifest_digest d \<Longrightarrow> str_trim d = d"
proof -
  assume d: "is_manifest_digest d"
  then have "d \<noteq> []" by (auto simp: is_manifest_digest_def)
  then have "hd d \<in> set d" "last d \<in> set d" by simp_all
  then have "graphic (hd d)" "graphic (last d)"
    using d by (auto simp: is_manifest_digest_def list_all_iff lower_hex_def graphic_def Let_def)
  then show "str_trim d = d" by (rule str_trim_graphic)
qed

lemma is_pack_key_packs: "is_manifest_digest d \<Longrightarrow> is_pack_key (''packs/'' @ d)"
  by (simp add: is_pack_key_def strip_prefix_def starts_with_def)

lemma git_laws_sha: "git_laws lib \<Longrightarrow> is_manifest_digest (gl_sha lib b)"
  by (simp add: git_laws_def)

end
