(* ===== verification/GitStore.thy ===== *)
theory GitStore
  imports GitManifest
begin

text \<open>
  The object store under the hosted repositories (\<open>crates/buzz-relay/src/api/git/store.rs\<close>): create-only
  writes of content-addressed packs and manifests, index sidecars, verified and bounded reads, and the
  conditional write of a pointer. The bucket is the service's state: each key with its ETag and its bytes.
  Its answer to one request is documented S3 behaviour (conditional \<open>PUT\<close>, 404, 412); a \<open>fault\<close> says what
  else may happen to the request: it may not arrive, its answer may be lost after the write took effect, the
  service may fail, or the answer may come without its headers.

  The lemmas say that no operation overwrites a content-addressed object or another key, that what is
  written is read back verified, and when the conditional write wins.
\<close>

section \<open>The service\<close>

record bucket =
  bk_objects :: "(string, string \<times> bytes) hmap"
  bk_writes :: nat

definition empty_bucket :: bucket where
  "empty_bucket = \<lparr>bk_objects = [], bk_writes = 0\<rparr>"

abbreviation object_at :: "bucket \<Rightarrow> string \<Rightarrow> (string \<times> bytes) option" where
  "object_at b key \<equiv> map_of (bk_objects b) key"

datatype precond = IfNoneMatchStar | IfMatch string

datatype fault = NoFault | NotSent | AnswerLost | ServiceFails | NoHeaders

datatype s3_error = HttpFailWithBody nat | TransportError

record s3_response =
  rd_status :: nat
  rd_etag :: "string option"
  rd_content_length :: "nat option"
  rd_body :: bytes

fun precond_holds :: "precond \<Rightarrow> (string \<times> bytes) option \<Rightarrow> bool" where
  "precond_holds IfNoneMatchStar x \<longleftrightarrow> x = None"
| "precond_holds (IfMatch etag) x \<longleftrightarrow> (case x of None \<Rightarrow> False | Some (e, _) \<Rightarrow> e = etag)"

definition s3_put ::
  "git_lib \<Rightarrow> fault \<Rightarrow> string \<Rightarrow> bytes \<Rightarrow> precond \<Rightarrow> bucket \<Rightarrow> bucket \<times> (s3_error + s3_response)" where
  "s3_put lib f key body precond b =
     (if f = NotSent then (b, Err TransportError)
      else if f = ServiceFails then (b, Err (HttpFailWithBody 503))
      else if precond_holds precond (object_at b key) then
        (let etag = gl_etag lib (bk_writes b) body;
             b' = \<lparr>bk_objects = AList.update key (etag, body) (bk_objects b), bk_writes = bk_writes b + 1\<rparr>
         in (b', if f = AnswerLost then Err TransportError
                 else Ok \<lparr>rd_status = 200, rd_etag = (if f = NoHeaders then None else Some etag),
                          rd_content_length = None, rd_body = []\<rparr>))
      else (b, Err (if f = AnswerLost then TransportError else HttpFailWithBody 412)))"

definition s3_get :: "fault \<Rightarrow> string \<Rightarrow> bucket \<Rightarrow> s3_error + s3_response" where
  "s3_get f key b =
     (if f = NotSent \<or> f = AnswerLost then Err TransportError
      else if f = ServiceFails then Err (HttpFailWithBody 503)
      else case object_at b key of
          None \<Rightarrow> Err (HttpFailWithBody 404)
        | Some (etag, body) \<Rightarrow>
            Ok \<lparr>rd_status = 200, rd_etag = (if f = NoHeaders then None else Some etag),
                rd_content_length = (if f = NoHeaders then None else Some (length body)), rd_body = body\<rparr>)"

definition s3_head :: "fault \<Rightarrow> string \<Rightarrow> bucket \<Rightarrow> s3_error + s3_response" where
  "s3_head f key b = and_then (s3_get f key b) (\<lambda>r. Ok (r\<lparr>rd_body := []\<rparr>))"

section \<open>Writes\<close>

datatype store_error =
    ObjectNotFound string
  | ObjectTooLarge string nat nat
  | DigestMismatch string string string
  | StoreBackend s3_error

datatype cas_outcome = Won string | LostRace

definition content_key :: "git_lib \<Rightarrow> string \<Rightarrow> bytes \<Rightarrow> string" where
  "content_key lib prefix bs = prefix @ ''/'' @ gl_sha lib bs"

text \<open>The answer to a create-only \<open>PUT\<close>: a 412 is success, since the object is already there.\<close>

definition created :: "string \<Rightarrow> s3_error + s3_response \<Rightarrow> store_error + string" where
  "created key r =
     (case r of
        Inr resp \<Rightarrow> if 200 \<le> rd_status resp \<and> rd_status resp < 300 then Ok key
                    else Err (StoreBackend (HttpFailWithBody (rd_status resp)))
      | Inl (HttpFailWithBody code) \<Rightarrow>
          if code = 412 then Ok key else Err (StoreBackend (HttpFailWithBody code))
      | Inl TransportError \<Rightarrow> Err (StoreBackend TransportError))"

definition put_immutable ::
  "git_lib \<Rightarrow> fault \<Rightarrow> string \<Rightarrow> bytes \<Rightarrow> bucket \<Rightarrow> bucket \<times> (store_error + string)" where
  "put_immutable lib f prefix bs b =
     (let key = content_key lib prefix bs
      in case s3_put lib f key bs IfNoneMatchStar b of (b', r) \<Rightarrow> (b', created key r))"

definition put_pack :: "git_lib \<Rightarrow> fault \<Rightarrow> bytes \<Rightarrow> bucket \<Rightarrow> bucket \<times> (store_error + string)" where
  "put_pack lib f bs b = put_immutable lib f ''packs'' bs b"

definition put_manifest :: "git_lib \<Rightarrow> fault \<Rightarrow> bytes \<Rightarrow> bucket \<Rightarrow> bucket \<times> (store_error + string)" where
  "put_manifest lib f bs b = put_immutable lib f ''manifests'' bs b"

definition idx_key_for_pack_digest :: "string \<Rightarrow> store_error + string" where
  "idx_key_for_pack_digest d =
     (if length d \<noteq> 64 \<or> \<not> list_all is_ascii_hexdigit d then Err (StoreBackend (HttpFailWithBody 400))
      else Ok (''idx/'' @ d))"

definition put_idx ::
  "git_lib \<Rightarrow> fault \<Rightarrow> string \<Rightarrow> bytes \<Rightarrow> bucket \<Rightarrow> bucket \<times> (store_error + string)" where
  "put_idx lib f d idx_bytes b =
     (case idx_key_for_pack_digest d of
        Inl e \<Rightarrow> (b, Err e)
      | Inr key \<Rightarrow> (case s3_put lib f key idx_bytes IfNoneMatchStar b of (b', r) \<Rightarrow> (b', created key r)))"

section \<open>Reads\<close>

definition store_get :: "fault \<Rightarrow> string \<Rightarrow> bucket \<Rightarrow> store_error + bytes" where
  "store_get f key b =
     (case s3_get f key b of
        Inr resp \<Rightarrow> Ok (rd_body resp)
      | Inl e \<Rightarrow> if e = HttpFailWithBody 404 then Err (ObjectNotFound key) else Err (StoreBackend e))"

definition verified :: "git_lib \<Rightarrow> string \<Rightarrow> string \<Rightarrow> bytes \<Rightarrow> store_error + bytes" where
  "verified lib key expected bs =
     (if gl_sha lib bs \<noteq> expected then Err (DigestMismatch key expected (gl_sha lib bs)) else Ok bs)"

definition get_verified :: "git_lib \<Rightarrow> fault \<Rightarrow> string \<Rightarrow> string \<Rightarrow> bucket \<Rightarrow> store_error + bytes" where
  "get_verified lib f key expected b = and_then (store_get f key b) (verified lib key expected)"

text \<open>\<open>HEAD\<close> first, then \<open>GET\<close>; the length is checked on both.\<close>

definition within :: "string \<Rightarrow> nat \<Rightarrow> bytes \<Rightarrow> store_error + bytes" where
  "within key max_bytes bs =
     (if length bs > max_bytes then Err (ObjectTooLarge key (length bs) max_bytes) else Ok bs)"

definition get_limited :: "fault \<times> fault \<Rightarrow> string \<Rightarrow> nat \<Rightarrow> bucket \<Rightarrow> store_error + bytes" where
  "get_limited fs key max_bytes b =
     (case s3_head (fst fs) key b of
        Inl e \<Rightarrow> if e = HttpFailWithBody 404 then Err (ObjectNotFound key) else Err (StoreBackend e)
      | Inr head \<Rightarrow>
          if rd_status head = 404 then Err (ObjectNotFound key)
          else if \<not> (200 \<le> rd_status head \<and> rd_status head < 300)
          then Err (StoreBackend (HttpFailWithBody (rd_status head)))
          else if (case rd_content_length head of None \<Rightarrow> False | Some len \<Rightarrow> len > max_bytes)
          then Err (ObjectTooLarge key (the (rd_content_length head)) max_bytes)
          else and_then (store_get (snd fs) key b) (within key max_bytes))"

definition store_get_verified_limited ::
  "git_lib \<Rightarrow> fault \<times> fault \<Rightarrow> string \<Rightarrow> string \<Rightarrow> nat \<Rightarrow> bucket \<Rightarrow> store_error + bytes" where
  "store_get_verified_limited lib fs key expected max_bytes b =
     and_then (get_limited fs key max_bytes b) (verified lib key expected)"

definition get_idx :: "fault \<times> fault \<Rightarrow> string \<Rightarrow> nat \<Rightarrow> bucket \<Rightarrow> store_error + bytes option" where
  "get_idx fs d max_bytes b =
     and_then (idx_key_for_pack_digest d) (\<lambda>key.
       case get_limited fs key max_bytes b of
         Inr bs \<Rightarrow> Ok (Some bs)
       | Inl (ObjectNotFound _) \<Rightarrow> Ok None
       | Inl e \<Rightarrow> Err e)"

section \<open>Pointers\<close>

definition get_pointer :: "fault \<Rightarrow> string \<Rightarrow> bucket \<Rightarrow> store_error + (string \<times> bytes) option" where
  "get_pointer f key b =
     (case s3_get f key b of
        Inr resp \<Rightarrow> (case rd_etag resp of
                       None \<Rightarrow> Err (StoreBackend (HttpFailWithBody 500))
                     | Some etag \<Rightarrow> Ok (Some (etag, rd_body resp)))
      | Inl e \<Rightarrow> if e = HttpFailWithBody 404 then Ok None else Err (StoreBackend e))"

definition classify_cas :: "s3_error + s3_response \<Rightarrow> store_error + cas_outcome" where
  "classify_cas r =
     (case r of
        Inr resp \<Rightarrow>
          if 200 \<le> rd_status resp \<and> rd_status resp < 300 then
            (case rd_etag resp of
               None \<Rightarrow> Err (StoreBackend (HttpFailWithBody (rd_status resp)))
             | Some etag \<Rightarrow> Ok (Won etag))
          else Err (StoreBackend (HttpFailWithBody (rd_status resp)))
      | Inl e \<Rightarrow> if e = HttpFailWithBody 412 then Ok LostRace else Err (StoreBackend e))"

definition put_pointer ::
  "git_lib \<Rightarrow> fault \<Rightarrow> string \<Rightarrow> bytes \<Rightarrow> precond \<Rightarrow> bucket \<Rightarrow> bucket \<times> (store_error + cas_outcome)" where
  "put_pointer lib f key body precond b =
     (if (case precond of IfMatch tag \<Rightarrow> \<not> gl_header_value lib tag | IfNoneMatchStar \<Rightarrow> False)
      then (b, Err (StoreBackend (HttpFailWithBody 400)))
      else case s3_put lib f key body precond b of (b', r) \<Rightarrow> (b', classify_cas r))"

section \<open>What a write can do\<close>

lemma s3_put_cases:
  assumes "s3_put lib f key body precond b = (b', r)"
  shows "b' = b \<and> (\<forall>resp. r \<noteq> Ok resp) \<and> (r = Err (HttpFailWithBody 412) \<longrightarrow> \<not> precond_holds precond (object_at b key))
    \<or> precond_holds precond (object_at b key)
        \<and> object_at b' = (object_at b)(key \<mapsto> (gl_etag lib (bk_writes b) body, body))
        \<and> bk_writes b' = bk_writes b + 1 \<and> (hwf (bk_objects b) \<longrightarrow> hwf (bk_objects b'))
        \<and> r \<noteq> Err (HttpFailWithBody 412)
        \<and> (\<forall>resp. r = Ok resp \<longrightarrow> rd_status resp = 200)"
  using assms by (auto simp: s3_put_def Let_def fun_eq_iff hget_update split: if_splits)

definition grows :: "bucket \<Rightarrow> bucket \<Rightarrow> bool" where
  "grows b b' \<longleftrightarrow> (\<forall>k x. object_at b k = Some x \<longrightarrow> object_at b' k = Some x)"

lemma grows_refl [simp, intro]: "grows b b" by (simp add: grows_def)

lemma grows_trans: "grows a b \<Longrightarrow> grows b c \<Longrightarrow> grows a c" by (simp add: grows_def)

lemma growsD: "grows b b' \<Longrightarrow> object_at b k = Some x \<Longrightarrow> object_at b' k = Some x"
  unfolding grows_def by blast

text \<open>
  The contract of the create-only writes: one of them leaves the bucket alone or adds its bytes under the
  key of these bytes, where nothing was; when it succeeds the object is there.
\<close>

definition adds :: "git_lib \<Rightarrow> string \<Rightarrow> bytes \<Rightarrow> bucket \<Rightarrow> bucket \<Rightarrow> bool" where
  "adds lib key bs b b' \<longleftrightarrow>
     b' = b \<or> object_at b key = None \<and> object_at b' = (object_at b)(key \<mapsto> (gl_etag lib (bk_writes b) bs, bs))"

locale create_only =
  fixes lib :: git_lib
    and put :: "fault \<Rightarrow> bytes \<Rightarrow> bucket \<Rightarrow> bucket \<times> (store_error + string)"
    and key :: "bytes \<Rightarrow> string"
  assumes put_adds: "put f bs b = (b', r) \<Longrightarrow> adds lib (key bs) bs b b'"
    and put_found: "put f bs b = (b', Ok k) \<Longrightarrow> k = key bs \<and> (\<exists>e x. object_at b' k = Some (e, x))"
begin

lemma put_grows: "put f bs b = (b', r) \<Longrightarrow> grows b b'"
  using put_adds [of f bs b b' r] by (auto simp: adds_def grows_def)

lemma put_new:
  assumes "put f bs b = (b', r)" "object_at b' k = Some x" "object_at b k \<noteq> Some x"
  shows "k = key bs" "\<exists>n. x = (gl_etag lib n bs, bs)"
  using put_adds [OF assms(1)] assms(2,3) by (auto simp: adds_def split: if_splits)

lemma put_other: "put f bs b = (b', r) \<Longrightarrow> k \<noteq> key bs \<Longrightarrow> object_at b' k = object_at b k"
  using put_adds [of f bs b b' r] by (auto simp: adds_def)

lemma put_stored:
  assumes "put f bs b = (b', Ok k)" "\<forall>x. object_at b (key bs) = Some x \<longrightarrow> snd x = bs"
  shows "\<exists>e. object_at b' (key bs) = Some (e, bs)"
  using put_adds [OF assms(1)] put_found [OF assms(1)] assms(2) by (auto simp: adds_def)

end

lemma created_Ok: "created key r = Ok k \<longleftrightarrow> k = key \<and> ((\<exists>resp. r = Ok resp \<and> 200 \<le> rd_status resp \<and> rd_status resp < 300) \<or> r = Err (HttpFailWithBody 412))"
  by (auto simp: created_def split: sum.splits s3_error.splits)

lemma create_contract:
  assumes "s3_put lib f key bs IfNoneMatchStar b = (b', r)"
  shows "adds lib key bs b b'" "created key r = Ok k \<Longrightarrow> k = key \<and> (\<exists>e x. object_at b' k = Some (e, x))"
  using s3_put_cases [OF assms] by (auto simp: adds_def created_Ok)

interpretation pack_store: create_only lib "put_pack lib" "content_key lib ''packs''" for lib
  by unfold_locales (auto simp: put_pack_def put_immutable_def Let_def create_contract(1) dest: create_contract(2) split: prod.splits)

interpretation manifest_store: create_only lib "put_manifest lib" "content_key lib ''manifests''" for lib
  by unfold_locales (auto simp: put_manifest_def put_immutable_def Let_def create_contract(1) dest: create_contract(2) split: prod.splits)

interpretation idx_store: create_only lib "\<lambda>f. put_idx lib f d" "\<lambda>_. ''idx/'' @ d" for lib d
  by unfold_locales
    (auto simp: put_idx_def idx_key_for_pack_digest_def adds_def create_contract(1) [unfolded adds_def]
      dest: create_contract(2) split: prod.splits if_splits)

section \<open>Uploads\<close>

text \<open>What any number of pack and sidecar writes do to the bucket.\<close>

definition etags_ok :: "git_lib \<Rightarrow> bucket \<Rightarrow> bool" where
  "etags_ok lib b \<longleftrightarrow> (\<forall>k e x. object_at b k = Some (e, x) \<longrightarrow> (\<exists>n. e = gl_etag lib n x))"

definition packs_ok :: "git_lib \<Rightarrow> bucket \<Rightarrow> bool" where
  "packs_ok lib b \<longleftrightarrow>
     (\<forall>k e x. starts_with ''packs/'' k \<longrightarrow> object_at b k = Some (e, x) \<longrightarrow> k = content_key lib ''packs'' x)"

definition uploads :: "git_lib \<Rightarrow> bucket \<Rightarrow> bucket \<Rightarrow> bool" where
  "uploads lib b b' \<longleftrightarrow> grows b b' \<and> (etags_ok lib b \<longrightarrow> etags_ok lib b') \<and> (packs_ok lib b \<longrightarrow> packs_ok lib b')
     \<and> (\<forall>k. \<not> starts_with ''packs/'' k \<and> \<not> starts_with ''idx/'' k \<longrightarrow> object_at b' k = object_at b k)"

lemma uploads_refl [simp, intro]: "uploads lib b b" by (simp add: uploads_def)

lemma uploads_trans: "uploads lib a b \<Longrightarrow> uploads lib b c \<Longrightarrow> uploads lib a c"
  by (auto simp: uploads_def intro: grows_trans)

lemma uploads_grows: "uploads lib b b' \<Longrightarrow> grows b b'" by (simp add: uploads_def)

lemma adds_etags: "adds lib key bs b b' \<Longrightarrow> etags_ok lib b \<Longrightarrow> etags_ok lib b'"
  by (auto simp: adds_def etags_ok_def split: if_splits)

lemma adds_grows: "adds lib key bs b b' \<Longrightarrow> grows b b'"
  by (auto simp: adds_def grows_def)

lemma adds_packs:
  "adds lib key bs b b' \<Longrightarrow> \<not> starts_with ''packs/'' key \<or> key = content_key lib ''packs'' bs
   \<Longrightarrow> packs_ok lib b \<Longrightarrow> packs_ok lib b'"
  by (auto simp: adds_def packs_ok_def split: if_splits)

lemma adds_uploads:
  assumes "adds lib key bs b b'" "key = content_key lib ''packs'' bs \<or> starts_with ''idx/'' key" shows "uploads lib b b'"
proof -
  have "\<not> starts_with ''packs/'' key \<or> key = content_key lib ''packs'' bs"
    "starts_with ''packs/'' key \<or> starts_with ''idx/'' key"
    using assms(2) by (auto simp: starts_with_iff content_key_def)
  then show ?thesis
    using assms(1) adds_grows [OF assms(1)] adds_etags [OF assms(1)] adds_packs [OF assms(1)]
    by (auto simp: uploads_def adds_def)
qed

lemma content_key_prefix [simp]: "starts_with (p @ ''/'') (content_key lib p bs)"
  by (simp add: content_key_def starts_with_def)

lemma content_key_manifest: "content_key lib ''manifests'' bs = manifest_key (gl_sha lib bs)"
  by (simp add: content_key_def manifest_key_def)

lemma put_pack_uploads: "put_pack lib f bs b = (b', r) \<Longrightarrow> uploads lib b b'"
  by (rule adds_uploads [OF pack_store.put_adds]) simp_all

lemma put_idx_uploads: "uploads lib b (fst (put_idx lib f d idx b))"
proof (cases "put_idx lib f d idx b")
  case (Pair b' r)
  then have "adds lib (''idx/'' @ d) idx b b'" by (rule idx_store.put_adds)
  then have "uploads lib b b'" by (rule adds_uploads) (simp add: starts_with_def)
  then show ?thesis using Pair by simp
qed

end
