(* ===== verification/GitPublish.thy ===== *)
theory GitPublish
  imports GitStore
begin

text \<open>
  Publication of a push (\<open>crates/buzz-relay/src/api/git/cas_publish.rs\<close>): the refs, HEAD and new objects
  that \<open>git receive-pack\<close> left in the workspace become packs and a manifest in the object store, and the
  pointer of the repository is moved to the manifest by one conditional write.

  What the \<open>git\<close> subprocesses and the temporary files give is a \<open>workspace\<close>; \<open>None\<close> is any failure of
  the process (spawn, exit status, time limit) or of its files. A \<open>publish_env\<close> gives the fault of each
  request to the object store. Error texts are not modelled.

  The lemmas describe each part: what a snapshot holds, which branch becomes HEAD, what the composed
  manifest names, which limits apply, and what the final write does.
\<close>

section \<open>Errors, limits and the observed parent\<close>

datatype cas_error =
    Conflict manifest string
  | ManifestReadFailed
  | ManifestInvalid manifest_error
  | CasBackend store_error
  | PackCapture
  | CasResourceLimit

record publish_limits =
  pl_parent_hydrated_bytes :: nat
  pl_max_pack_bytes :: nat
  pl_max_repo_bytes :: nat

record parent_state =
  pst_if_match :: "string option"
  pst_parent_digest :: "string option"
  pst_parent :: manifest

definition fresh_parent :: parent_state where
  "fresh_parent =
     \<lparr>pst_if_match = None, pst_parent_digest = None,
      pst_parent = \<lparr>mf_version = MANIFEST_VERSION, mf_head = [], mf_refs = [], mf_packs = [], mf_parent = None\<rparr>\<rparr>"

definition parent_from_loaded :: "string \<Rightarrow> string \<Rightarrow> manifest \<Rightarrow> parent_state" where
  "parent_from_loaded etag d parent =
     \<lparr>pst_if_match = Some etag, pst_parent_digest = Some d, pst_parent = parent\<rparr>"

text \<open>\<open>u64::checked_add\<close> on lengths.\<close>

definition checked_add_u64 :: "nat \<Rightarrow> nat \<Rightarrow> nat option" where
  "checked_add_u64 m n = (if m + n < 2 ^ 64 then Some (m + n) else None)"

text \<open>\<open>str::lines\<close>: the last line may end without a newline; a carriage return before a newline goes.\<close>

definition strip_cr :: "string \<Rightarrow> string" where
  "strip_cr l = (case strip_suffix [CHR 0x0D] l of None \<Rightarrow> l | Some l' \<Rightarrow> l')"

definition str_lines :: "string \<Rightarrow> string list" where
  "str_lines s =
     (let parts = split_on (CHR 0x0A) s
      in map strip_cr (butlast parts) @ (if last parts = [] then [] else [last parts]))"

section \<open>The workspace after receive-pack\<close>

record compact_file =
  cf_name :: string
  cf_stat :: "nat option"
  cf_read :: "bytes option"
  cf_idx_stat :: "nat option"
  cf_idx_read :: "bytes option"

record workspace =
  ws_for_each_ref :: "bytes option"
  ws_symbolic_ref :: "string option option"
  ws_pack_objects :: "string \<Rightarrow> bytes option"
  ws_index_pack :: "bytes \<Rightarrow> bytes option"
  ws_count_objects :: "string option"
  ws_compact :: "string \<Rightarrow> compact_file list option"

record publish_env =
  pe_permit :: bool
  pe_uploads_in_time :: "nat option"
  pe_pack_fault :: "nat \<Rightarrow> fault"
  pe_idx_fault :: "nat \<Rightarrow> fault"
  pe_delta_fault :: fault
  pe_delta_idx_fault :: fault
  pe_manifest_fault :: fault
  pe_pointer_fault :: fault
  pe_winner_faults :: "fault \<times> fault"

definition MAX_REF_SNAPSHOT_BYTES :: nat where "MAX_REF_SNAPSHOT_BYTES = 4 * 1024 * 1024"
definition MAX_COMPACTION_OBJECTS :: nat where "MAX_COMPACTION_OBJECTS = 1000000"
definition MAX_COUNT_OBJECTS_OUTPUT_BYTES :: nat where "MAX_COUNT_OBJECTS_OUTPUT_BYTES = 64 * 1024"

fun snapshot_refs :: "string list \<Rightarrow> (string, string) hmap \<Rightarrow> cas_error + (string, string) hmap" where
  "snapshot_refs [] refs = Ok refs"
| "snapshot_refs (line # rest) refs =
     (case split_once CHR '' '' line of
        None \<Rightarrow> snapshot_refs rest refs
      | Some (name, oid) \<Rightarrow>
          if length oid \<noteq> 40 \<or> \<not> list_all is_ascii_hexdigit oid then snapshot_refs rest refs
          else if length refs \<ge> MAX_MANIFEST_REFS \<and> map_of refs name = None then Err CasResourceLimit
          else snapshot_refs rest (btree_insert name oid refs))"

text \<open>\<open>symbolic-ref\<close>: the outer \<open>None\<close> is a failed spawn, the inner one a non-zero exit (detached HEAD).\<close>

definition snapshot_workspace_state :: "workspace \<Rightarrow> cas_error + (string, string) hmap \<times> string" where
  "snapshot_workspace_state ws =
     (case ws_for_each_ref ws of
        None \<Rightarrow> Err PackCapture
      | Some out \<Rightarrow>
          if length out > MAX_REF_SNAPSHOT_BYTES then Err CasResourceLimit
          else and_then (snapshot_refs
                 (str_lines (case string_from_utf8 out of None \<Rightarrow> [] | Some s \<Rightarrow> s)) []) (\<lambda>refs.
            case ws_symbolic_ref ws of
              None \<Rightarrow> Err PackCapture
            | Some head \<Rightarrow> Ok (refs, case head of None \<Rightarrow> [] | Some t \<Rightarrow> str_trim t)))"

definition resolve_published_head :: "(string, string) hmap \<Rightarrow> string \<Rightarrow> string \<Rightarrow> string" where
  "resolve_published_head refs observed_head parent_head =
     (let is_published_branch = (\<lambda>name. starts_with ''refs/heads/'' name \<and> map_of refs name \<noteq> None)
      in if is_published_branch observed_head then observed_head
         else if is_published_branch parent_head then parent_head
         else case find (\<lambda>preferred. map_of refs preferred \<noteq> None) [''refs/heads/main'', ''refs/heads/master''] of
             Some preferred \<Rightarrow> preferred
           | None \<Rightarrow>
               (case find (starts_with ''refs/heads/'') (map fst refs) of
                  Some branch \<Rightarrow> branch
                | None \<Rightarrow> if observed_head \<noteq> [] then observed_head else parent_head))"

section \<open>Packs\<close>

definition digest_from_pack_key :: "string \<Rightarrow> cas_error + string" where
  "digest_from_pack_key key =
     (case strip_prefix ''packs/'' key of
        Some d \<Rightarrow> if length d = 64 \<and> list_all is_ascii_hexdigit d then Ok d
                  else Err (CasBackend (StoreBackend (HttpFailWithBody 500)))
      | None \<Rightarrow> Err (CasBackend (StoreBackend (HttpFailWithBody 500))))"

text \<open>The result of a sidecar write only goes to the log, so only the bucket is kept.\<close>

definition write_idx_sidecar ::
  "git_lib \<Rightarrow> fault \<Rightarrow> workspace \<Rightarrow> string \<Rightarrow> bytes \<Rightarrow> bucket \<Rightarrow> bucket" where
  "write_idx_sidecar lib f ws pack_key pack_bytes b =
     (case digest_from_pack_key pack_key of
        Inl _ \<Rightarrow> b
      | Inr d \<Rightarrow> (case ws_index_pack ws pack_bytes of
                    None \<Rightarrow> b
                  | Some idx \<Rightarrow> fst (put_idx lib f d idx b)))"

definition rev_lines :: "string \<Rightarrow> string list \<Rightarrow> string" where
  "rev_lines mark oids = concat (map (\<lambda>oid. mark @ oid @ [CHR 0x0A]) oids)"

definition capture_pack ::
  "workspace \<Rightarrow> (string, string) hmap \<Rightarrow> (string, string) hmap \<Rightarrow> nat \<Rightarrow> cas_error + bytes option" where
  "capture_pack ws refs_before refs_after max_pack_bytes =
     (if refs_after = [] then Ok None
      else case ws_pack_objects ws
                  (rev_lines [] (map snd refs_after) @ rev_lines ''^'' (map snd refs_before)) of
          None \<Rightarrow> Err PackCapture
        | Some pack \<Rightarrow>
            if length pack > max_pack_bytes then Err CasResourceLimit
            else if pack = [] then Ok None
            else Ok (Some pack))"

section \<open>Compaction\<close>

definition should_compact :: "nat \<Rightarrow> nat \<Rightarrow> bool" where
  "should_compact parent_pack_count threshold \<longleftrightarrow> parent_pack_count \<ge> threshold"

definition compacted_pack_set_is_usable :: "nat \<Rightarrow> nat \<Rightarrow> bool" where
  "compacted_pack_set_is_usable parent_pack_count compacted_pack_count \<longleftrightarrow>
     compacted_pack_count < parent_pack_count
     \<or> parent_pack_count \<ge> MAX_MANIFEST_PACKS \<and> compacted_pack_count \<le> MAX_MANIFEST_PACKS"

fun first_value :: "string \<Rightarrow> string list \<Rightarrow> string option" where
  "first_value name [] = None"
| "first_value name (l # ls) = (case strip_prefix name l of Some v \<Rightarrow> Some v | None \<Rightarrow> first_value name ls)"

definition parse_count :: "string \<Rightarrow> string \<Rightarrow> cas_error + nat" where
  "parse_count output name =
     (case first_value name (str_lines output) of
        None \<Rightarrow> Err PackCapture
      | Some v \<Rightarrow> (case parse_u64 (str_trim v) of None \<Rightarrow> Err PackCapture | Some n \<Rightarrow> Ok (unat n)))"

definition enforce_compaction_object_limit :: "workspace \<Rightarrow> cas_error + unit" where
  "enforce_compaction_object_limit ws =
     (case ws_count_objects ws of
        None \<Rightarrow> Err PackCapture
      | Some output \<Rightarrow>
          if length output > MAX_COUNT_OBJECTS_OUTPUT_BYTES then Err CasResourceLimit
          else and_then (parse_count output ''count:'') (\<lambda>loose.
               and_then (parse_count output ''in-pack:'') (\<lambda>packed.
                 case checked_add_u64 loose packed of
                   None \<Rightarrow> Err CasResourceLimit
                 | Some n \<Rightarrow> if n > MAX_COMPACTION_OBJECTS then Err CasResourceLimit else Ok ())))"

text \<open>\<open>if seen_oids.insert(oid)\<close>: each oid once, at its first place.\<close>

definition first_oids :: "string list \<Rightarrow> string list" where
  "first_oids oids = foldl push_new [] oids"

fun check_compacted :: "publish_limits \<Rightarrow> nat \<Rightarrow> compact_file list \<Rightarrow> cas_error + nat" where
  "check_compacted limits acc [] = Ok acc"
| "check_compacted limits acc (p # ps) =
     (case cf_stat p of
        None \<Rightarrow> Err PackCapture
      | Some pack_bytes \<Rightarrow>
          if pack_bytes > pl_max_pack_bytes limits then Err CasResourceLimit
          else case checked_add_u64 acc pack_bytes of
              None \<Rightarrow> Err CasResourceLimit
            | Some acc' \<Rightarrow>
                if acc' > pl_max_repo_bytes limits then Err CasResourceLimit
                else case cf_idx_stat p of
                    None \<Rightarrow> Err PackCapture
                  | Some idx_bytes \<Rightarrow>
                      if idx_bytes > pl_max_pack_bytes limits then Err CasResourceLimit
                      else check_compacted limits acc' ps)"

definition capture_compacted_packs ::
  "workspace \<Rightarrow> (string, string) hmap \<Rightarrow> publish_limits \<Rightarrow> cas_error + compact_file list" where
  "capture_compacted_packs ws refs_after limits =
     (if refs_after = [] then Ok []
      else and_then (enforce_compaction_object_limit ws) (\<lambda>_.
        case ws_compact ws (rev_lines [] (first_oids (map snd refs_after))) of
          None \<Rightarrow> Err PackCapture
        | Some files \<Rightarrow>
            (let packs = sort_key cf_name files
             in if length packs > MAX_MANIFEST_PACKS then Err CasResourceLimit
                else and_then (check_compacted limits 0 packs) (\<lambda>_. Ok packs))))"

text \<open>
  The upload of the packs in order; \<open>k\<close> counts them. A pack that changed since it was measured or cannot
  be read ends it, a failed sidecar does not. The 600 second limit of the whole operation may end it after
  any number of packs (\<open>pe_uploads_in_time\<close>).
\<close>

fun upload_compacted_packs ::
  "git_lib \<Rightarrow> publish_env \<Rightarrow> nat \<Rightarrow> compact_file list \<Rightarrow> bucket \<Rightarrow> bucket \<times> (cas_error + string list)" where
  "upload_compacted_packs lib env k [] b = (b, Ok [])"
| "upload_compacted_packs lib env k (p # ps) b =
     (if pe_uploads_in_time env = Some k then (b, Err PackCapture)
      else case cf_read p of
          None \<Rightarrow> (b, Err PackCapture)
        | Some pack \<Rightarrow>
            if Some (length pack) \<noteq> cf_stat p then (b, Err PackCapture)
            else (case put_pack lib (pe_pack_fault env k) pack b of
                (b1, Inl e) \<Rightarrow> (b1, Err (CasBackend e))
              | (b1, Inr key) \<Rightarrow>
                  (case digest_from_pack_key key of
                     Inl e \<Rightarrow> (b1, Err e)
                   | Inr d \<Rightarrow>
                       (let b2 = (case cf_idx_read p of
                                    None \<Rightarrow> b1
                                  | Some idx \<Rightarrow> fst (put_idx lib (pe_idx_fault env k) d idx b1))
                        in case upload_compacted_packs lib env (k + 1) ps b2 of
                            (b3, r) \<Rightarrow> (b3, and_then r (\<lambda>keys. Ok (key # keys)))))))"

definition prepare_compaction ::
  "git_lib \<Rightarrow> publish_env \<Rightarrow> workspace \<Rightarrow> (string, string) hmap \<Rightarrow> publish_limits \<Rightarrow> nat \<Rightarrow> bucket
     \<Rightarrow> bucket \<times> (cas_error + string list)" where
  "prepare_compaction lib env ws refs_after limits packs_before b =
     (case capture_compacted_packs ws refs_after limits of
        Inl e \<Rightarrow> (b, Err e)
      | Inr compacted \<Rightarrow>
          if \<not> compacted_pack_set_is_usable packs_before (length compacted) then (b, Err CasResourceLimit)
          else (case upload_compacted_packs lib env 0 compacted b of
              (b1, r) \<Rightarrow> (b1, and_then r (\<lambda>keys. Ok (sort_dedup keys)))))"

section \<open>Composing the manifest\<close>

definition compose_after ::
  "manifest \<Rightarrow> string option \<Rightarrow> string \<Rightarrow> (string, string) hmap \<Rightarrow> string option \<Rightarrow> manifest" where
  "compose_after parent parent_digest head refs new_pack_key =
     (let packs = (case new_pack_key of
                     None \<Rightarrow> mf_packs parent
                   | Some k \<Rightarrow> if k \<in> set (mf_packs parent) then mf_packs parent else mf_packs parent @ [k])
      in \<lparr>mf_version = MANIFEST_VERSION, mf_head = head, mf_refs = refs,
          mf_packs = sort_dedup packs, mf_parent = parent_digest\<rparr>)"

definition compose_compacted_after ::
  "string option \<Rightarrow> string \<Rightarrow> (string, string) hmap \<Rightarrow> string list \<Rightarrow> manifest" where
  "compose_compacted_after parent_digest head refs compacted_pack_keys =
     \<lparr>mf_version = MANIFEST_VERSION, mf_head = head, mf_refs = refs,
      mf_packs = sort_dedup compacted_pack_keys, mf_parent = parent_digest\<rparr>"

definition digest_from_manifest_key :: "string \<Rightarrow> cas_error + string" where
  "digest_from_manifest_key key =
     (case strip_prefix ''manifests/'' key of
        Some d \<Rightarrow> Ok d
      | None \<Rightarrow> Err (CasBackend (StoreBackend (HttpFailWithBody 500))))"

text \<open>
  The body of \<open>cas_publish_inner\<close> up to the manifest: a compaction when the parent names enough packs,
  and otherwise, or when the compaction fails, one pack with the new objects.
\<close>

datatype compaction = NotTried | FellBack cas_error | Compacted "string list"

definition try_compaction ::
  "git_lib \<Rightarrow> publish_env \<Rightarrow> workspace \<Rightarrow> (string, string) hmap \<Rightarrow> publish_limits \<Rightarrow> nat \<Rightarrow> nat \<Rightarrow> bucket
     \<Rightarrow> bucket \<times> compaction" where
  "try_compaction lib env ws refs_after limits threshold packs_before b =
     (if \<not> should_compact packs_before threshold then (b, NotTried)
      else if \<not> pe_permit env then (b, FellBack PackCapture)
      else (case prepare_compaction lib env ws refs_after limits packs_before b of
          (b1, Inl e) \<Rightarrow> (b1, FellBack e)
        | (b1, Inr keys) \<Rightarrow> (b1, Compacted keys)))"

definition publish_delta ::
  "git_lib \<Rightarrow> publish_env \<Rightarrow> workspace \<Rightarrow> parent_state \<Rightarrow> publish_limits \<Rightarrow> string \<Rightarrow> (string, string) hmap
     \<Rightarrow> compaction \<Rightarrow> bucket \<Rightarrow> bucket \<times> (cas_error + manifest)" where
  "publish_delta lib env ws ps limits head refs_after tried b =
     (case capture_pack ws (mf_refs (pst_parent ps)) refs_after (pl_max_pack_bytes limits) of
        Inl e \<Rightarrow> (b, Err e)
      | Inr None \<Rightarrow> (b, Ok (compose_after (pst_parent ps) (pst_parent_digest ps) head refs_after None))
      | Inr (Some pack) \<Rightarrow>
          if length (mf_packs (pst_parent ps)) \<ge> MAX_MANIFEST_PACKS
          then (b, Err (case tried of FellBack e \<Rightarrow> e | _ \<Rightarrow> CasResourceLimit))
          else (case checked_add_u64 (pl_parent_hydrated_bytes limits) (length pack) of
              None \<Rightarrow> (b, Err CasResourceLimit)
            | Some total_bytes \<Rightarrow>
                if total_bytes > pl_max_repo_bytes limits then (b, Err CasResourceLimit)
                else (case put_pack lib (pe_delta_fault env) pack b of
                    (b1, Inl e) \<Rightarrow> (b1, Err (CasBackend e))
                  | (b1, Inr pack_key) \<Rightarrow>
                      (write_idx_sidecar lib (pe_delta_idx_fault env) ws pack_key pack b1,
                       Ok (compose_after (pst_parent ps) (pst_parent_digest ps) head refs_after (Some pack_key))))))"

definition compose_manifest ::
  "git_lib \<Rightarrow> publish_env \<Rightarrow> workspace \<Rightarrow> parent_state \<Rightarrow> publish_limits \<Rightarrow> nat \<Rightarrow> bucket
     \<Rightarrow> bucket \<times> (cas_error + manifest)" where
  "compose_manifest lib env ws ps limits threshold b =
     (case snapshot_workspace_state ws of
        Inl e \<Rightarrow> (b, Err e)
      | Inr (refs_after, head_observed) \<Rightarrow>
          (let head = resolve_published_head refs_after head_observed (mf_head (pst_parent ps));
               packs_before = length (mf_packs (pst_parent ps))
           in case try_compaction lib env ws refs_after limits threshold packs_before b of
               (b1, Compacted keys) \<Rightarrow> (b1, Ok (compose_compacted_after (pst_parent_digest ps) head refs_after keys))
             | (b1, tried) \<Rightarrow> publish_delta lib env ws ps limits head refs_after tried b1))"

section \<open>Writing the manifest and moving the pointer\<close>

definition write_manifest ::
  "git_lib \<Rightarrow> publish_env \<Rightarrow> manifest \<Rightarrow> bucket \<Rightarrow> bucket \<times> (cas_error + string)" where
  "write_manifest lib env m_after b =
     (case validate m_after of
        Inl e \<Rightarrow> (b, Err (ManifestInvalid e))
      | Inr _ \<Rightarrow>
          (case put_manifest lib (pe_manifest_fault env) (canonical_bytes lib m_after) b of
             (b1, Inl e) \<Rightarrow> (b1, Err (CasBackend e))
           | (b1, Inr key) \<Rightarrow> (b1, Ok key)))"

definition pointer_digest :: "bytes \<Rightarrow> string option" where
  "pointer_digest body =
     (case string_from_utf8 body of
        None \<Rightarrow> None
      | Some s \<Rightarrow> (let d = str_trim s
                   in if length d \<noteq> 64 \<or> \<not> list_all is_ascii_hexdigit d then None else Some d))"

definition read_winner_after_conflict ::
  "git_lib \<Rightarrow> fault \<times> fault \<Rightarrow> string \<Rightarrow> bucket \<Rightarrow> cas_error + manifest \<times> string" where
  "read_winner_after_conflict lib fs pkey b =
     (case get_pointer (fst fs) pkey b of
        Inl e \<Rightarrow> Err (CasBackend e)
      | Inr None \<Rightarrow> Err ManifestReadFailed
      | Inr (Some (_, body)) \<Rightarrow>
          (case pointer_digest body of
             None \<Rightarrow> Err ManifestReadFailed
           | Some d \<Rightarrow>
               (case get_verified lib (snd fs) (manifest_key d) d b of
                  Inl e \<Rightarrow> Err (case e of DigestMismatch _ _ _ \<Rightarrow> ManifestReadFailed
                                     | ObjectNotFound _ \<Rightarrow> ManifestReadFailed
                                     | _ \<Rightarrow> CasBackend e)
                | Inr bs \<Rightarrow>
                    (case manifest_from_bytes lib bs of
                       Inl _ \<Rightarrow> Err ManifestReadFailed
                     | Inr winner \<Rightarrow> Ok (winner, manifest_key d)))))"

text \<open>
  The conditional write. \<open>later\<close> is the bucket when a losing push re-reads the pointer: other writers
  may have moved on since.
\<close>

definition commit_pointer ::
  "git_lib \<Rightarrow> publish_env \<Rightarrow> string \<Rightarrow> parent_state \<Rightarrow> manifest \<Rightarrow> string \<Rightarrow> (bucket \<Rightarrow> bucket) \<Rightarrow> bucket
     \<Rightarrow> bucket \<times> (cas_error + manifest \<times> string)" where
  "commit_pointer lib env pkey ps m_after mkey later b =
     (case digest_from_manifest_key mkey of
        Inl e \<Rightarrow> (b, Err e)
      | Inr d \<Rightarrow>
          (let precond = (case pst_if_match ps of Some e \<Rightarrow> IfMatch e | None \<Rightarrow> IfNoneMatchStar)
           in case put_pointer lib (pe_pointer_fault env) pkey (str_bytes d) precond b of
               (b1, Inl e) \<Rightarrow> (b1, Err (CasBackend e))
             | (b1, Inr (Won _)) \<Rightarrow> (b1, Ok (m_after, mkey))
             | (b1, Inr LostRace) \<Rightarrow>
                 (b1, and_then (read_winner_after_conflict lib (pe_winner_faults env) pkey (later b1))
                        (\<lambda>(winner, key). Err (Conflict winner key)))))"

definition cas_publish_inner ::
  "git_lib \<Rightarrow> publish_env \<Rightarrow> workspace \<Rightarrow> uuid \<Rightarrow> string \<Rightarrow> string \<Rightarrow> parent_state \<Rightarrow> publish_limits \<Rightarrow> nat
     \<Rightarrow> (bucket \<Rightarrow> bucket) \<Rightarrow> bucket \<Rightarrow> bucket \<times> (cas_error + manifest \<times> string)" where
  "cas_publish_inner lib env ws community owner repo ps limits threshold later b =
     (case compose_manifest lib env ws ps limits threshold b of
        (b1, Inl e) \<Rightarrow> (b1, Err e)
      | (b1, Inr m_after) \<Rightarrow>
          (case write_manifest lib env m_after b1 of
             (b2, Inl e) \<Rightarrow> (b2, Err e)
           | (b2, Inr key) \<Rightarrow>
               commit_pointer lib env (pointer_key lib community owner repo) ps m_after key later b2))"

definition cas_publish where
  "cas_publish lib env ws community owner repo ps limits later b =
     cas_publish_inner lib env ws community owner repo ps limits PACK_COMPACTION_THRESHOLD later b"

section \<open>The snapshot and HEAD\<close>

definition oids_ok :: "(string, string) hmap \<Rightarrow> bool" where
  "oids_ok refs \<longleftrightarrow> btree refs \<and> length refs \<le> MAX_MANIFEST_REFS
     \<and> (\<forall>(name, oid) \<in> set refs. length oid = 40 \<and> list_all is_ascii_hexdigit oid)"

lemma length_btree_insert:
  "btree m \<Longrightarrow> length (btree_insert k v m) = (if map_of m k = None then length m + 1 else length m)"
proof (induction k v m rule: btree_insert.induct)
  case (2 k v k' v' m)
  have "map_of m k = None" if "k < k'"
    using 2(2) that by (auto simp: map_of_eq_None_iff dest: less_trans)
  then show ?case using 2 by auto
qed simp

lemma oids_ok_insert:
  assumes "oids_ok refs" "length oid = 40" "list_all is_ascii_hexdigit oid"
    "\<not> (length refs \<ge> MAX_MANIFEST_REFS \<and> map_of refs name = None)"
  shows "oids_ok (btree_insert name oid refs)"
  using assms set_btree_insert [of name oid refs] by (auto simp: oids_ok_def length_btree_insert)

lemma snapshot_refs_ok: "snapshot_refs ls refs = Ok refs' \<Longrightarrow> oids_ok refs \<Longrightarrow> oids_ok refs'"
  by (induction ls refs rule: snapshot_refs.induct)
     (auto split: option.splits if_splits simp: oids_ok_insert)

lemma snapshot_workspace_ok:
  assumes "snapshot_workspace_state ws = Ok (refs, head)" shows "oids_ok refs"
proof -
  obtain ls where "snapshot_refs ls [] = Ok refs"
    using assms by (cases "ws_symbolic_ref ws") (auto simp: snapshot_workspace_state_def split: option.splits if_splits)
  then show ?thesis by (rule snapshot_refs_ok) (simp add: oids_ok_def)
qed

lemma resolve_head_published_aux:
  assumes "branch \<in> dom (map_of refs)" "starts_with ''refs/heads/'' branch"
  shows "starts_with ''refs/heads/'' (resolve_published_head refs observed parent)"
    "resolve_published_head refs observed parent \<in> dom (map_of refs)"
proof -
  have b: "branch \<in> set (map fst refs)" using assms(1) by (simp add: dom_map_of_conv_image_fst)
  have "find (starts_with ''refs/heads/'') (map fst refs) \<noteq> None"
    using b assms(2) by (simp add: find_None_iff) blast
  then obtain br where br: "find (starts_with ''refs/heads/'') (map fst refs) = Some br" by blast
  then have "starts_with ''refs/heads/'' br" "br \<in> set (map fst refs)"
    by (metis find_Some_iff nth_mem)+
  then have br': "starts_with ''refs/heads/'' br" "br \<in> dom (map_of refs)"
    by (simp_all add: dom_map_of_conv_image_fst)
  have pref: "find (\<lambda>p. map_of refs p \<noteq> None) [''refs/heads/main'', ''refs/heads/master''] = Some p
      \<Longrightarrow> starts_with ''refs/heads/'' p \<and> p \<in> dom (map_of refs)" for p
    by (auto simp: starts_with_def split: if_splits)
  show "starts_with ''refs/heads/'' (resolve_published_head refs observed parent)"
    "resolve_published_head refs observed parent \<in> dom (map_of refs)"
    using br br' pref unfolding resolve_published_head_def Let_def
    by (auto split: option.split simp del: find.simps)
qed

section \<open>What the composed manifest names\<close>

lemma digest_pack_key [simp]: "is_manifest_digest d \<Longrightarrow> digest_from_pack_key (''packs/'' @ d) = Ok d"
  using manifest_digest_ascii [of d]
  by (simp add: digest_from_pack_key_def strip_prefix_def starts_with_def is_manifest_digest_def)

definition packs_stored :: "bucket \<Rightarrow> string list \<Rightarrow> bool" where
  "packs_stored b keys \<longleftrightarrow> (\<forall>k \<in> set keys. is_pack_key k \<and> object_at b k \<noteq> None)"

lemma packs_stored_grows: "packs_stored b keys \<Longrightarrow> grows b b' \<Longrightarrow> packs_stored b' keys"
  unfolding packs_stored_def grows_def by (metis not_Some_eq)

lemma packs_stored_uploads: "packs_stored b keys \<Longrightarrow> uploads lib b b' \<Longrightarrow> packs_stored b' keys"
  by (rule packs_stored_grows [OF _ uploads_grows])

lemma put_pack_stored:
  assumes "git_laws lib" "put_pack lib f pack b = (b', Ok key)"
  shows "packs_stored b' [key]"
proof -
  have "key = content_key lib ''packs'' pack" "\<exists>e x. object_at b' key = Some (e, x)"
    using pack_store.put_found [OF assms(2)] by auto
  then show ?thesis
    using is_pack_key_packs [OF git_laws_sha [OF assms(1)]] by (auto simp: packs_stored_def content_key_def)
qed

lemma write_idx_sidecar_uploads: "uploads lib b (write_idx_sidecar lib f ws key pack b)"
  by (auto simp: write_idx_sidecar_def put_idx_uploads split: sum.split option.split)

lemma upload_effect:
  assumes "git_laws lib"
  shows "upload_compacted_packs lib env k ps b = (b', r) \<Longrightarrow>
     uploads lib b b' \<and> (\<forall>keys. r = Ok keys \<longrightarrow> packs_stored b' keys \<and> length keys = length ps)"
proof (induction ps arbitrary: k b b' r)
  case Nil
  then show ?case by (auto simp: packs_stored_def)
next
  case (Cons p ps)
  note prem = Cons.prems
  show ?case
  proof (cases "pe_uploads_in_time env = Some k \<or> cf_read p = None \<or> map_option length (cf_read p) \<noteq> cf_stat p")
    case True
    then show ?thesis using prem by (auto split: option.splits if_splits)
  next
    case False
    then obtain pack where pack: "cf_read p = Some pack" "Some (length pack) = cf_stat p" by auto
    obtain b1 r1 where put: "put_pack lib (pe_pack_fault env k) pack b = (b1, r1)" by fastforce
    note grown = put_pack_uploads [OF put]
    show ?thesis
    proof (cases r1)
      case (Inl e)
      then show ?thesis using prem pack put grown False by (auto split: if_splits)
    next
      case (Inr key)
      have stored: "packs_stored b1 [key]" by (rule put_pack_stored [OF assms put [unfolded Inr]])
      show ?thesis
      proof (cases "digest_from_pack_key key")
        case (Inl e)
        then show ?thesis using prem pack put grown Inr False by (auto split: if_splits)
      next
        case d: (Inr d)
        define b2 where "b2 = (case cf_idx_read p of None \<Rightarrow> b1
            | Some idx \<Rightarrow> fst (put_idx lib (pe_idx_fault env k) d idx b1))"
        have b2: "uploads lib b1 b2" by (auto simp: b2_def put_idx_uploads split: option.split)
        obtain b3 r3 where rest: "upload_compacted_packs lib env (k + 1) ps b2 = (b3, r3)" by fastforce
        have res: "b' = b3" "r = and_then r3 (\<lambda>keys. Ok (key # keys))"
          using prem pack put Inr d rest False by (auto simp: Let_def b2_def split: if_splits)
        have ih: "uploads lib b2 b3" "r3 = Ok keys \<Longrightarrow> packs_stored b3 keys \<and> length keys = length ps" for keys
          using Cons.IH [OF rest] by auto
        have all: "uploads lib b b3" using grown b2 ih(1) uploads_trans by blast
        moreover have "packs_stored b3 [key]"
          using stored b2 ih(1) uploads_trans packs_stored_uploads by blast
        ultimately show ?thesis using res ih(2) by (auto simp: packs_stored_def)
      qed
    qed
  qed
qed

lemma capture_compacted_length: "capture_compacted_packs ws refs limits = Ok ps \<Longrightarrow> length ps \<le> MAX_MANIFEST_PACKS"
  by (auto simp: capture_compacted_packs_def Let_def split: if_splits option.splits)

text \<open>A manifest that \<open>compose_manifest\<close> can give: well formed, and all its packs are in the bucket.\<close>

definition composed_ok :: "bucket \<Rightarrow> string option \<Rightarrow> manifest \<Rightarrow> bool" where
  "composed_ok b parent_digest m \<longleftrightarrow>
     mf_version m = MANIFEST_VERSION \<and> mf_parent m = parent_digest \<and> btree (mf_refs m)
     \<and> sort_dedup (mf_packs m) = mf_packs m \<and> length (mf_packs m) \<le> MAX_MANIFEST_PACKS
     \<and> packs_stored b (mf_packs m)"

lemma composed_ok_grows: "composed_ok b d m \<Longrightarrow> grows b b' \<Longrightarrow> composed_ok b' d m"
  by (auto simp: composed_ok_def packs_stored_grows)

lemma try_compaction_effect:
  assumes "git_laws lib" "try_compaction lib env ws refs limits threshold n b = (b', t)"
  shows "uploads lib b b'" "t = Compacted keys \<Longrightarrow> packs_stored b' keys \<and> length keys \<le> MAX_MANIFEST_PACKS"
proof -
  have "uploads lib b b' \<and> (\<forall>keys. t = Compacted keys \<longrightarrow> packs_stored b' keys \<and> length keys \<le> MAX_MANIFEST_PACKS)"
  proof (cases "\<not> should_compact n threshold \<or> \<not> pe_permit env")
    case True
    then show ?thesis using assms(2) by (auto simp: try_compaction_def split: if_splits)
  next
    case False
    obtain b1 r where prep: "prepare_compaction lib env ws refs limits n b = (b1, r)" by fastforce
    have b1: "b' = b1" "t = (case r of Inl e \<Rightarrow> FellBack e | Inr keys \<Rightarrow> Compacted keys)"
      using assms(2) prep False by (auto simp: try_compaction_def split: sum.splits)
    show ?thesis
    proof (cases "capture_compacted_packs ws refs limits")
      case (Inl e)
      then show ?thesis using prep b1 by (auto simp: prepare_compaction_def)
    next
      case (Inr ps)
      show ?thesis
      proof (cases "compacted_pack_set_is_usable n (length ps)")
        case True
        obtain b2 r2 where up: "upload_compacted_packs lib env 0 ps b = (b2, r2)" by fastforce
        then have "b1 = b2" "r = and_then r2 (\<lambda>keys. Ok (sort_dedup keys))"
          using prep Inr True by (auto simp: prepare_compaction_def)
        then show ?thesis
          using upload_effect [OF assms(1) up] b1 capture_compacted_length [OF Inr]
            length_sort_dedup order_trans
          by (cases r2) (auto simp: packs_stored_def intro: order_trans [OF length_sort_dedup])
      qed (use prep b1 Inr in \<open>auto simp: prepare_compaction_def\<close>)
    qed
  qed
  then show "uploads lib b b'" "t = Compacted keys \<Longrightarrow> packs_stored b' keys \<and> length keys \<le> MAX_MANIFEST_PACKS"
    by blast+
qed

lemma compose_after_ok:
  assumes "btree refs" "packs_stored b (mf_packs parent)"
    "length (mf_packs parent) + (if new = None then 0 else 1) \<le> MAX_MANIFEST_PACKS"
    "\<And>k. new = Some k \<Longrightarrow> packs_stored b [k]"
  shows "composed_ok b d (compose_after parent d head refs new)"
proof -
  define packs where "packs = (case new of None \<Rightarrow> mf_packs parent
      | Some k \<Rightarrow> if k \<in> set (mf_packs parent) then mf_packs parent else mf_packs parent @ [k])"
  have "packs_stored b packs" "length packs \<le> MAX_MANIFEST_PACKS"
    using assms(2-4) by (auto simp: packs_def packs_stored_def split: option.splits)
  then show ?thesis
    using assms(1) length_sort_dedup [of packs]
    by (auto simp: composed_ok_def compose_after_def packs_def [symmetric] packs_stored_def)
qed

lemma publish_delta_effect:
  assumes "git_laws lib" "publish_delta lib env ws ps limits head refs tried b = (b', r)"
    "btree refs" "packs_stored b (mf_packs (pst_parent ps))" "length (mf_packs (pst_parent ps)) \<le> MAX_MANIFEST_PACKS"
  shows "uploads lib b b' \<and> (\<forall>m. r = Ok m \<longrightarrow> composed_ok b' (pst_parent_digest ps) m)"
proof (cases "capture_pack ws (mf_refs (pst_parent ps)) refs (pl_max_pack_bytes limits)")
  case (Inl e)
  then show ?thesis using assms(2) by (auto simp: publish_delta_def)
next
  case (Inr captured)
  show ?thesis
  proof (cases captured)
    case None
    then show ?thesis using assms(2-5) Inr by (auto simp: publish_delta_def intro: compose_after_ok)
  next
    case (Some pack)
    let ?sum = "checked_add_u64 (pl_parent_hydrated_bytes limits) (length pack)"
    show ?thesis
    proof (cases "MAX_MANIFEST_PACKS \<le> length (mf_packs (pst_parent ps)) \<or> ?sum = None
        \<or> the ?sum > pl_max_repo_bytes limits")
      case True
      then show ?thesis using assms(2) Inr Some by (auto simp: publish_delta_def split: option.splits if_splits)
    next
      case False
      obtain b1 r1 where put: "put_pack lib (pe_delta_fault env) pack b = (b1, r1)" by fastforce
      note effect = put_pack_uploads [OF put]
      show ?thesis
      proof (cases r1)
        case (Inl e)
        then show ?thesis using assms(2) Inr Some False put effect
          by (auto simp: publish_delta_def split: option.splits)
      next
        case key: (Inr key)
        let ?b2 = "write_idx_sidecar lib (pe_delta_idx_fault env) ws key pack b1"
        have res: "b' = ?b2" "r = Ok (compose_after (pst_parent ps) (pst_parent_digest ps) head refs (Some key))"
          using assms(2) Inr Some False put key by (auto simp: publish_delta_def split: option.splits)
        have grown: "uploads lib b ?b2" by (rule uploads_trans [OF effect write_idx_sidecar_uploads])
        have "packs_stored ?b2 [key]" by (rule packs_stored_uploads [OF put_pack_stored [OF assms(1) put [unfolded key]] write_idx_sidecar_uploads])
        then have "composed_ok ?b2 (pst_parent_digest ps)
            (compose_after (pst_parent ps) (pst_parent_digest ps) head refs (Some key))"
          using False by (intro compose_after_ok assms(3) packs_stored_uploads [OF assms(4) grown]) auto
        then show ?thesis using res grown by blast
      qed
    qed
  qed
qed

lemma compose_manifest_effect:
  assumes "git_laws lib" "compose_manifest lib env ws ps limits threshold b = (b', r)"
    "packs_stored b (mf_packs (pst_parent ps))" "length (mf_packs (pst_parent ps)) \<le> MAX_MANIFEST_PACKS"
  shows "uploads lib b b'" "r = Ok m \<Longrightarrow> composed_ok b' (pst_parent_digest ps) m"
proof -
  have "uploads lib b b' \<and> (\<forall>m. r = Ok m \<longrightarrow> composed_ok b' (pst_parent_digest ps) m)"
  proof (cases "snapshot_workspace_state ws")
    case (Inl e)
    then show ?thesis using assms(2) by (auto simp: compose_manifest_def)
  next
    case (Inr snap)
    obtain refs observed where snap: "snap = (refs, observed)" by fastforce
    have refs: "btree refs" using snapshot_workspace_ok Inr snap by (auto simp: oids_ok_def)
    define head where "head = resolve_published_head refs observed (mf_head (pst_parent ps))"
    obtain b1 t where tc: "try_compaction lib env ws refs limits threshold (length (mf_packs (pst_parent ps))) b = (b1, t)"
      by fastforce
    note tried = try_compaction_effect [OF assms(1) tc]
    show ?thesis
    proof (cases t)
      case (Compacted keys)
      then have "b' = b1" "r = Ok (compose_compacted_after (pst_parent_digest ps) head refs keys)"
        using assms(2) Inr snap tc by (auto simp: compose_manifest_def head_def Let_def)
      then show ?thesis using tried Compacted refs length_sort_dedup [of keys]
        by (auto simp: composed_ok_def compose_compacted_after_def packs_stored_def)
    next
      case (FellBack e)
      then have "publish_delta lib env ws ps limits head refs t b1 = (b', r)"
        using assms(2) Inr snap tc by (auto simp: compose_manifest_def head_def Let_def)
      then show ?thesis
        using publish_delta_effect [OF assms(1) _ refs] packs_stored_uploads [OF assms(3) tried(1)] assms(4)
          uploads_trans [OF tried(1)] by blast
    next
      case NotTried
      then have "publish_delta lib env ws ps limits head refs t b1 = (b', r)"
        using assms(2) Inr snap tc by (auto simp: compose_manifest_def head_def Let_def)
      then show ?thesis
        using publish_delta_effect [OF assms(1) _ refs] packs_stored_uploads [OF assms(3) tried(1)] assms(4)
          uploads_trans [OF tried(1)] by blast
    qed
  qed
  then show "uploads lib b b'" "r = Ok m \<Longrightarrow> composed_ok b' (pst_parent_digest ps) m" by blast+
qed
end
