(* ===== verification/GitPackCache.thy ===== *)
theory GitPackCache
  imports GitPublish
begin

text \<open>
  The bounded local cache of pack and index pairs (\<open>crates/buzz-relay/src/api/git/pack_cache.rs\<close>) and the
  reads that fill it (\<open>get_verified_limited\<close>, \<open>install_or_generate_idx\<close> of \<open>hydrate.rs\<close>). The cache's
  state is its table of entries with their sizes and times of use; each operation under the mutex is a
  function on it. The local file system, \<open>git verify-pack\<close>, \<open>git index-pack\<close> and which entries are held
  by running requests (\<open>Arc::strong_count\<close>) are given by a \<open>cache_env\<close>.

  The lemmas say that the byte count is exactly the sum over the entries in every reachable state, that
  eviction takes unused entries in the order of their last use, ends, and leaves the cache within its
  limit or with nothing evictable, and that a miss only ever installs bytes with the right digest.
\<close>

section \<open>Errors and verified reads\<close>

datatype hydrate_error =
    InvalidPointer
  | HydrateManifest manifest_error
  | HydrateStore store_error
  | HydrateFailed
  | HydrateResourceLimit

definition hydrate_get_verified_limited ::
  "git_lib \<Rightarrow> fault \<times> fault \<Rightarrow> string \<Rightarrow> string \<Rightarrow> nat \<Rightarrow> bucket \<Rightarrow> hydrate_error + bytes" where
  "hydrate_get_verified_limited lib fs key d max_bytes b =
     (case store_get_verified_limited lib fs key d max_bytes b of
        Inr bs \<Rightarrow> Ok bs
      | Inl (ObjectTooLarge _ _ _) \<Rightarrow> Err HydrateResourceLimit
      | Inl e \<Rightarrow> Err (HydrateStore e))"

section \<open>The table\<close>

record cached_pack =
  cp_pack_bytes :: nat
  cp_total_bytes :: nat

record cache_state =
  cs_entries :: "(string, cached_pack \<times> nat) hmap"
  cs_total_bytes :: nat
  cs_tick :: nat

definition empty_cache :: cache_state where
  "empty_cache = \<lparr>cs_entries = [], cs_total_bytes = 0, cs_tick = 0\<rparr>"

definition U64_MAX :: nat where "U64_MAX = 2 ^ 64 - 1"

definition sat_add_u64 :: "nat \<Rightarrow> nat \<Rightarrow> nat" where
  "sat_add_u64 m n = min (m + n) U64_MAX"

text \<open>\<open>present\<close> says whether both files of the entry are still regular files.\<close>

definition cache_lookup :: "string \<Rightarrow> bool \<Rightarrow> cache_state \<Rightarrow> cache_state \<times> cached_pack option" where
  "cache_lookup d present cs =
     (let next_tick = sat_add_u64 (cs_tick cs) 1;
          cs' = cs\<lparr>cs_tick := next_tick\<rparr>
      in case map_of (cs_entries cs) d of
           None \<Rightarrow> (cs', None)
         | Some (entry, _) \<Rightarrow>
             if \<not> present then (cs', None)
             else (cs'\<lparr>cs_entries := AList.update d (entry, next_tick) (cs_entries cs)\<rparr>, Some entry))"

definition cache_insert :: "string \<Rightarrow> cached_pack \<Rightarrow> cache_state \<Rightarrow> cache_state" where
  "cache_insert d entry cs =
     (let tick = sat_add_u64 (cs_tick cs) 1;
          left = (case map_of (cs_entries cs) d of
                    None \<Rightarrow> cs_total_bytes cs
                  | Some (previous, _) \<Rightarrow> cs_total_bytes cs - cp_total_bytes previous)
      in \<lparr>cs_entries = AList.update d (entry, tick) (AList.delete d (cs_entries cs)),
          cs_total_bytes = sat_add_u64 left (cp_total_bytes entry), cs_tick = tick\<rparr>)"

definition cache_remove :: "string \<Rightarrow> cache_state \<Rightarrow> cache_state" where
  "cache_remove d cs =
     (case map_of (cs_entries cs) d of
        None \<Rightarrow> cs
      | Some (entry, _) \<Rightarrow> cs\<lparr>cs_entries := AList.delete d (cs_entries cs),
                             cs_total_bytes := cs_total_bytes cs - cp_total_bytes entry\<rparr>)"

definition invalidate :: "string \<Rightarrow> cache_state \<Rightarrow> cache_state" where
  "invalidate d cs = cache_remove d cs"

text \<open>\<open>min_by_key(last_used)\<close> over the entries that no request holds: the first smallest.\<close>

fun oldest :: "(string, cached_pack \<times> nat) hmap \<Rightarrow> (string \<times> nat) option" where
  "oldest [] = None"
| "oldest ((d, _, used) # es) =
     (case oldest es of
        Some (d', used') \<Rightarrow> if used' < used then Some (d', used') else Some (d, used)
      | None \<Rightarrow> Some (d, used))"

definition candidate :: "(string \<Rightarrow> bool) \<Rightarrow> cache_state \<Rightarrow> string option" where
  "candidate held cs = map_option fst (oldest (filter (\<lambda>(d, _). \<not> held d) (cs_entries cs)))"

function prune :: "(string \<Rightarrow> bool) \<Rightarrow> nat \<Rightarrow> cache_state \<Rightarrow> cache_state" where
  "prune held max_bytes cs =
     (if cs_total_bytes cs \<le> max_bytes then cs
      else case candidate held cs of
          None \<Rightarrow> cs
        | Some d \<Rightarrow> prune held max_bytes (cache_remove d cs))"
  by pat_completeness auto

lemma oldest_mem: "oldest es = Some (d, u) \<Longrightarrow> \<exists>e. (d, e, u) \<in> set es"
  by (induction es arbitrary: d u rule: oldest.induct) (fastforce split: option.splits if_splits)+

lemma oldest_least: "oldest es = Some (d, u) \<Longrightarrow> (d', e', u') \<in> set es \<Longrightarrow> u \<le> u'"
proof (induction es arbitrary: d u rule: oldest.induct)
  case (2 a b used es)
  show ?case
  proof (cases "oldest es")
    case None
    then have "es = []" by (cases es) (auto split: option.splits if_splits)
    then show ?thesis using 2 by auto
  next
    case (Some p)
    then show ?thesis using 2 by (cases p) (fastforce split: if_splits)
  qed
qed simp

lemma oldest_None: "oldest es = None \<longleftrightarrow> es = []"
  by (cases es) (auto split: option.splits if_splits)

lemma candidate_mem: "candidate held cs = Some d \<Longrightarrow> \<not> held d \<and> d \<in> fst ` set (cs_entries cs)"
  by (force simp: candidate_def dest: oldest_mem)

lemma length_delete_mem: "k \<in> fst ` set m \<Longrightarrow> length (AList.delete k m) < length m"
  by (induction m) (auto simp: less_Suc_eq_le length_delete_le Suc_le_eq rev_image_eqI)

termination prune
proof (relation "measure (\<lambda>(_, _, cs). length (cs_entries cs))")
  fix held max_bytes cs d
  assume c: "candidate held cs = Some d"
  then have "d \<in> fst ` set (cs_entries cs)" by (simp add: candidate_mem)
  moreover from this obtain e where "map_of (cs_entries cs) d = Some e"
    by (metis map_of_eq_None_iff not_None_eq)
  ultimately show "((held, max_bytes, cache_remove d cs), held, max_bytes, cs)
      \<in> measure (\<lambda>(_, _, cs). length (cs_entries cs))"
    by (cases e) (simp add: cache_remove_def length_delete_mem)
qed simp

declare prune.simps [simp del]

section \<open>Filling and installing\<close>

record cache_env =
  ce_present :: bool
  ce_install_hit :: bool
  ce_present_again :: bool
  ce_install :: bool
  ce_staging :: bool
  ce_pack_faults :: "fault \<times> fault"
  ce_write :: bool
  ce_idx_faults :: "fault \<times> fault"
  ce_idx_write :: bool
  ce_verify_pack :: "bytes \<Rightarrow> bool"
  ce_index_pack :: "nat option"
  ce_final :: "cached_pack option"
  ce_rename :: bool
  ce_renamed :: "cached_pack option"
  ce_held :: "string \<Rightarrow> bool"

definition generate_idx :: "cache_env \<Rightarrow> nat \<Rightarrow> hydrate_error + nat" where
  "generate_idx env max_idx_bytes =
     (case ce_index_pack env of
        None \<Rightarrow> Err HydrateFailed
      | Some idx_bytes \<Rightarrow> if idx_bytes > max_idx_bytes then Err HydrateResourceLimit else Ok idx_bytes)"

text \<open>The stored sidecar is used when \<open>git verify-pack\<close> accepts it; otherwise the index is generated.\<close>

definition install_or_generate_idx :: "cache_env \<Rightarrow> string \<Rightarrow> nat \<Rightarrow> bucket \<Rightarrow> hydrate_error + nat" where
  "install_or_generate_idx env d max_idx_bytes b =
     (case get_idx (ce_idx_faults env) d max_idx_bytes b of
        Inr (Some idx) \<Rightarrow>
          if \<not> ce_idx_write env then Err HydrateFailed
          else if ce_verify_pack env idx then Ok (length idx)
          else generate_idx env max_idx_bytes
      | _ \<Rightarrow> generate_idx env max_idx_bytes)"

text \<open>
  \<open>populate\<close> gives the entry and whether it bypassed the cache. The directory of the digest may have been
  published by another process before or during the rename (\<open>ce_final\<close>, \<open>ce_renamed\<close>).
\<close>

definition populate ::
  "git_lib \<Rightarrow> cache_env \<Rightarrow> nat \<Rightarrow> string \<Rightarrow> string \<Rightarrow> nat \<Rightarrow> bucket \<Rightarrow> cache_state
     \<Rightarrow> cache_state \<times> (hydrate_error + cached_pack \<times> bool)" where
  "populate lib env max_bytes object_key d max_pack_bytes b cs =
     (if \<not> ce_staging env then (cs, Err HydrateFailed)
      else case hydrate_get_verified_limited lib (ce_pack_faults env) object_key d max_pack_bytes b of
          Inl e \<Rightarrow> (cs, Err e)
        | Inr pack \<Rightarrow>
            if \<not> ce_write env then (cs, Err HydrateFailed)
            else (case install_or_generate_idx env d max_pack_bytes b of
                Inl e \<Rightarrow> (cs, Err e)
              | Inr idx_bytes \<Rightarrow>
                  (let fresh = \<lparr>cp_pack_bytes = length pack, cp_total_bytes = sat_add_u64 (length pack) idx_bytes\<rparr>
                   in if max_bytes = 0 \<or> cp_total_bytes fresh > max_bytes then (cs, Ok (fresh, True))
                      else case ce_final env of
                          Some entry \<Rightarrow> (cache_insert d entry cs, Ok (entry, False))
                        | None \<Rightarrow>
                            if ce_rename env then (cache_insert d fresh cs, Ok (fresh, False))
                            else (case ce_renamed env of
                                Some entry \<Rightarrow> (cache_insert d entry cs, Ok (entry, False))
                              | None \<Rightarrow> (cs, Err HydrateFailed)))))"

text \<open>The flight of a miss: a second look at the table, then the fill; every path ends in a \<open>prune\<close>.\<close>

definition run_flight ::
  "git_lib \<Rightarrow> cache_env \<Rightarrow> nat \<Rightarrow> string \<Rightarrow> string \<Rightarrow> nat \<Rightarrow> bucket \<Rightarrow> cache_state
     \<Rightarrow> cache_state \<times> (hydrate_error + nat)" where
  "run_flight lib env max_bytes object_key d max_pack_bytes b cs =
     (case cache_lookup d (ce_present_again env) cs of
        (cs1, found) \<Rightarrow>
          (case (case found of
                   Some entry \<Rightarrow> (cs1, Ok (entry, False))
                 | None \<Rightarrow> populate lib env max_bytes object_key d max_pack_bytes b cs1) of
             (cs2, r) \<Rightarrow>
               (prune (ce_held env) max_bytes cs2,
                and_then r (\<lambda>(entry, _).
                  if ce_install env then Ok (cp_pack_bytes entry) else Err HydrateFailed))))"

definition materialize_pack ::
  "git_lib \<Rightarrow> cache_env \<Rightarrow> nat \<Rightarrow> string \<Rightarrow> string \<Rightarrow> nat \<Rightarrow> bucket \<Rightarrow> cache_state
     \<Rightarrow> cache_state \<times> (hydrate_error + nat)" where
  "materialize_pack lib env max_bytes object_key d max_pack_bytes b cs =
     (if length d \<noteq> 64 \<or> \<not> list_all is_ascii_hexdigit d then (cs, Err HydrateFailed)
      else (case cache_lookup d (ce_present env) cs of
          (cs1, None) \<Rightarrow> run_flight lib env max_bytes object_key d max_pack_bytes b cs1
        | (cs1, Some entry) \<Rightarrow>
            if ce_install_hit env then (prune (ce_held env) max_bytes cs1, Ok (cp_pack_bytes entry))
            else run_flight lib env max_bytes object_key d max_pack_bytes b (invalidate d cs1)))"

section \<open>The byte count\<close>

definition entry_bytes :: "(string, cached_pack \<times> nat) hmap \<Rightarrow> nat" where
  "entry_bytes es = sum_list (map (\<lambda>(_, e, _). cp_total_bytes e) es)"

definition cache_ok :: "cache_state \<Rightarrow> bool" where
  "cache_ok cs \<longleftrightarrow> hwf (cs_entries cs) \<and> cs_total_bytes cs = entry_bytes (cs_entries cs)"

lemma entry_bytes_simps [simp]:
  "entry_bytes [] = 0" "entry_bytes ((d, e, u) # es) = cp_total_bytes e + entry_bytes es"
  by (simp_all add: entry_bytes_def)

lemma entry_bytes_delete:
  "hwf es \<Longrightarrow> entry_bytes (AList.delete d es)
     = entry_bytes es - (case map_of es d of None \<Rightarrow> 0 | Some (e, _) \<Rightarrow> cp_total_bytes e)"
  "hwf es \<Longrightarrow> (case map_of es d of None \<Rightarrow> 0 | Some (e, _) \<Rightarrow> cp_total_bytes e) \<le> entry_bytes es"
proof (induction es)
  case (Cons x es)
  obtain k e u where x: "x = (k, e, u)" by (cases x) auto
  { case 1
    then have "hwf es" "k \<notin> fst ` set es" by (auto simp: hwf_def x)
    moreover from this have "map_of es k = None" by (simp add: map_of_eq_None_iff)
    ultimately show ?case using Cons.IH by (auto simp: x delete_idem split: option.splits) }
  { case 2
    then have "hwf es" by (auto simp: hwf_def)
    then show ?case using Cons.IH(2) by (auto simp: x) }
qed simp_all

lemma entry_bytes_update:
  "entry_bytes (AList.update d (e, u) es)
     + (case map_of es d of None \<Rightarrow> 0 | Some (e', _) \<Rightarrow> cp_total_bytes e') = entry_bytes es + cp_total_bytes e"
  by (induction es) auto

lemma cache_ok_empty [simp]: "cache_ok empty_cache"
  by (simp add: cache_ok_def empty_cache_def)

lemma cache_ok_lookup: "cache_ok cs \<Longrightarrow> cache_ok (fst (cache_lookup d present cs))"
proof -
  assume ok: "cache_ok cs"
  have "entry_bytes (AList.update d (e, t) (cs_entries cs)) = entry_bytes (cs_entries cs)"
    if "map_of (cs_entries cs) d = Some (e, u)" for e u t
    using entry_bytes_update [of d e t "cs_entries cs"] that by simp
  then show ?thesis
    using ok by (auto simp: cache_ok_def cache_lookup_def Let_def split: option.split)
qed

lemma cache_ok_remove: "cache_ok cs \<Longrightarrow> cache_ok (cache_remove d cs)"
  using entry_bytes_delete(1) [of "cs_entries cs" d]
  by (auto simp: cache_ok_def cache_remove_def split: option.split)

text \<open>Sizes of real files: the bytes of all entries fit in a \<open>u64\<close>.\<close>

definition fits :: "cached_pack \<Rightarrow> cache_state \<Rightarrow> bool" where
  "fits entry cs \<longleftrightarrow> entry_bytes (cs_entries cs) + cp_total_bytes entry \<le> U64_MAX"

lemma cache_ok_insert: "cache_ok cs \<Longrightarrow> fits entry cs \<Longrightarrow> cache_ok (cache_insert d entry cs)"
proof -
  assume ok: "cache_ok cs" and fit: "fits entry cs"
  let ?es = "AList.delete d (cs_entries cs)"
  have wf: "hwf (cs_entries cs)" using ok by (simp add: cache_ok_def)
  have "map_of ?es d = None" by (simp add: hget_delete)
  then have "entry_bytes (AList.update d (entry, t) ?es) = entry_bytes ?es + cp_total_bytes entry" for t
    using entry_bytes_update [of d entry t ?es] by simp
  then show ?thesis
    using ok fit entry_bytes_delete [OF wf, of d] wf
    by (auto simp: cache_ok_def cache_insert_def Let_def fits_def sat_add_u64_def split: option.splits)
qed

section \<open>Eviction\<close>

lemma prune_ok: "cache_ok cs \<Longrightarrow> cache_ok (prune held max_bytes cs)"
  by (induction held max_bytes cs rule: prune.induct)
     (subst prune.simps, auto split: option.split intro: cache_ok_remove)

lemma cache_remove_entries: "map_of (cs_entries (cache_remove d cs)) k = (if k = d then None else map_of (cs_entries cs) k)"
  by (auto simp: cache_remove_def hget_delete split: option.split)

lemma prune_bound:
  "cs_total_bytes (prune held max_bytes cs) \<le> max_bytes \<or> (\<forall>d \<in> fst ` set (cs_entries (prune held max_bytes cs)). held d)"
proof (induction held max_bytes cs rule: prune.induct)
  case (1 held max_bytes cs)
  show ?case
  proof (cases "candidate held cs")
    case None
    then have "filter (\<lambda>(d, _). \<not> held d) (cs_entries cs) = []" by (simp add: candidate_def oldest_None)
    then have "\<forall>d \<in> fst ` set (cs_entries cs). held d" by (auto simp: filter_empty_conv)
    then show ?thesis using None by (subst (1 2) prune.simps) auto
  next
    case (Some d)
    then show ?thesis using 1 by (subst (1 2) prune.simps) auto
  qed
qed

text \<open>Eviction keeps every entry that is held, and evicts in the order of the last use.\<close>

definition survives :: "string \<Rightarrow> cache_state \<Rightarrow> bool" where
  "survives d cs \<longleftrightarrow> map_of (cs_entries cs) d \<noteq> None"

lemma prune_entries:
  "map_of (cs_entries (prune held max_bytes cs)) d = map_of (cs_entries cs) d
   \<or> map_of (cs_entries (prune held max_bytes cs)) d = None \<and> \<not> held d"
proof (induction held max_bytes cs rule: prune.induct)
  case (1 held max_bytes cs)
  show ?case
  proof (cases "cs_total_bytes cs \<le> max_bytes \<or> candidate held cs = None")
    case True
    then show ?thesis by (subst (1 2) prune.simps) auto
  next
    case False
    then obtain v where v: "candidate held cs = Some v" by auto
    then have ih: "map_of (cs_entries (prune held max_bytes (cache_remove v cs))) d = map_of (cs_entries (cache_remove v cs)) d
        \<or> map_of (cs_entries (prune held max_bytes (cache_remove v cs))) d = None \<and> \<not> held d"
      using 1 False by auto
    have "prune held max_bytes cs = prune held max_bytes (cache_remove v cs)"
      using v False by (subst prune.simps) auto
    then show ?thesis using ih candidate_mem [OF v] by (auto simp: cache_remove_entries split: if_splits)
  qed
qed

lemma prune_oldest_first:
  assumes "hwf (cs_entries cs)" "map_of (cs_entries cs) d = Some (e, u)" "map_of (cs_entries cs) d' = Some (e', u')"
    "\<not> survives d (prune held max_bytes cs)" "survives d' (prune held max_bytes cs)" "\<not> held d'"
  shows "u \<le> u'"
  using assms
proof (induction held max_bytes cs rule: prune.induct)
  case (1 held max_bytes cs)
  show ?case
  proof (cases "cs_total_bytes cs \<le> max_bytes \<or> candidate held cs = None")
    case True
    then have "prune held max_bytes cs = cs" by (subst prune.simps) auto
    then show ?thesis using 1 by (simp add: survives_def)
  next
    case False
    then obtain v where v: "candidate held cs = Some v" by auto
    then have step: "prune held max_bytes cs = prune held max_bytes (cache_remove v cs)"
      using False by (subst prune.simps) auto
    have wf: "hwf (cs_entries (cache_remove v cs))"
      using 1(2) by (auto simp: cache_remove_def split: option.split)
    have d': "d' \<noteq> v"
      using 1(6) prune_entries [of held max_bytes "cache_remove v cs" v] step
      by (auto simp: survives_def cache_remove_entries)
    show ?thesis
    proof (cases "d = v")
      case True
      obtain w where "oldest (filter (\<lambda>(d, _). \<not> held d) (cs_entries cs)) = Some (v, w)"
        using v by (auto simp: candidate_def)
      moreover have "(d', e', u') \<in> set (filter (\<lambda>(d, _). \<not> held d) (cs_entries cs))"
        using 1(4,7) by (auto dest: map_of_SomeD)
      ultimately have "w \<le> u'" and "\<exists>e. (v, e, w) \<in> set (cs_entries cs)"
        using oldest_least oldest_mem by fastforce+
      moreover have "(v, e, u) \<in> set (cs_entries cs)" using 1(3) True by (auto dest: map_of_SomeD)
      ultimately show ?thesis using 1(2) by (metis Pair_inject hwf_map_of_iff option.inject)
    next
      case False
      then show ?thesis
        using 1(1) [OF _ v wf] 1(3-7) d' step \<open>\<not> (cs_total_bytes cs \<le> max_bytes \<or> candidate held cs = None)\<close>
        by (simp add: cache_remove_entries)
    qed
  qed
qed

section \<open>Interleaved requests\<close>

text \<open>
  Each critical section of the mutex is one step; requests interleave in any order. An insertion assumes
  that the sizes on disk fit in a \<open>u64\<close>.
\<close>

inductive cache_step :: "nat \<Rightarrow> cache_state \<Rightarrow> cache_state \<Rightarrow> bool" for max_bytes where
  step_lookup: "cache_step max_bytes cs (fst (cache_lookup d present cs))"
| step_insert: "fits entry cs \<Longrightarrow> cache_step max_bytes cs (cache_insert d entry cs)"
| step_invalidate: "cache_step max_bytes cs (invalidate d cs)"
| step_prune: "cache_step max_bytes cs (prune held max_bytes cs)"

lemma cache_step_ok: "cache_step max_bytes cs cs' \<Longrightarrow> cache_ok cs \<Longrightarrow> cache_ok cs'"
  by (induction rule: cache_step.induct)
     (auto simp: cache_ok_lookup cache_ok_insert invalidate_def cache_ok_remove prune_ok)

lemma cache_steps_ok: "(cache_step max_bytes)\<^sup>*\<^sup>* cs cs' \<Longrightarrow> cache_ok cs \<Longrightarrow> cache_ok cs'"
  by (induction rule: rtranclp_induct) (auto intro: cache_step_ok)

text \<open>Whatever a fill hands out was read under the pack's key with the digest of the key.\<close>

lemma store_get_Ok: "store_get f key b = Ok bs \<Longrightarrow> \<exists>e. object_at b key = Some (e, bs)"
  by (auto simp: store_get_def s3_get_def split: if_splits sum.splits option.splits)

lemma get_limited_Ok: "get_limited fs key n b = Ok bs \<Longrightarrow> (\<exists>e. object_at b key = Some (e, bs)) \<and> length bs \<le> n"
  by (auto simp: get_limited_def within_def dest!: store_get_Ok split: sum.splits if_splits)

lemma hydrate_get_Ok:
  assumes "hydrate_get_verified_limited lib fs key d n b = Ok bs"
  shows "\<exists>e. object_at b key = Some (e, bs)" "gl_sha lib bs = d" "length bs \<le> n"
  using assms get_limited_Ok [of fs key n b]
  by (auto simp: hydrate_get_verified_limited_def store_get_verified_limited_def verified_def
      split: sum.splits store_error.splits if_splits)

lemma populate_verified:
  assumes "populate lib env max_bytes key d max_pack_bytes b cs = (cs', Ok (entry, bypass))"
  shows "\<exists>e pack. object_at b key = Some (e, pack) \<and> gl_sha lib pack = d \<and> length pack \<le> max_pack_bytes"
  using assms hydrate_get_Ok [of lib "ce_pack_faults env" key d max_pack_bytes b]
  by (auto simp: populate_def split: if_splits sum.splits)

text \<open>
  A request that meets no local failure: nothing cached, the files written, the sidecar missing or
  readable, the index generated within the limit, its directory renamed into place.
\<close>

definition calm :: "nat \<Rightarrow> cache_env \<Rightarrow> bool" where
  "calm max_pack_bytes env \<longleftrightarrow>
     \<not> ce_present env \<and> \<not> ce_present_again env \<and> ce_install env \<and> ce_staging env \<and> ce_write env \<and> ce_idx_write env \<and> ce_rename env
     \<and> ce_final env = None \<and> ce_pack_faults env = (NoFault, NoFault)
     \<and> (\<exists>n. ce_index_pack env = Some n \<and> n \<le> max_pack_bytes)"

lemma hydrate_get_calm:
  assumes "object_at b key = Some (e, bs)" "gl_sha lib bs = d" "length bs \<le> n"
  shows "hydrate_get_verified_limited lib (NoFault, NoFault) key d n b = Ok bs"
  using assms
  by (simp add: hydrate_get_verified_limited_def store_get_verified_limited_def verified_def get_limited_def
      s3_head_def s3_get_def store_get_def within_def)

lemma hydrate_get_too_large:
  assumes "object_at b key = Some (e, bs)" "length bs > n"
  shows "hydrate_get_verified_limited lib (NoFault, NoFault) key d n b = Err HydrateResourceLimit"
  using assms
  by (simp add: hydrate_get_verified_limited_def store_get_verified_limited_def get_limited_def
      s3_head_def s3_get_def)

lemma install_or_generate_calm: "calm n env \<Longrightarrow> \<exists>len. install_or_generate_idx env d n b = Ok len"
  by (auto simp: calm_def install_or_generate_idx_def generate_idx_def
      split: sum.split option.split store_error.split)

lemma materialize_calm:
  assumes "calm max_pack_bytes env" "is_manifest_digest d"
    "object_at b key = Some (e, pack)" "gl_sha lib pack = d" "length pack \<le> max_pack_bytes"
  shows "snd (materialize_pack lib env max_bytes key d max_pack_bytes b cs) = Ok (length pack)"
proof -
  obtain len where "install_or_generate_idx env d max_pack_bytes b = Ok len"
    using install_or_generate_calm assms(1) by blast
  moreover have "hydrate_get_verified_limited lib (ce_pack_faults env) key d max_pack_bytes b = Ok pack"
    using hydrate_get_calm [OF assms(3-5)] assms(1) by (simp add: calm_def)
  ultimately have pop: "\<exists>cs' t. populate lib env max_bytes key d max_pack_bytes b cs1
      = (cs', Ok (\<lparr>cp_pack_bytes = length pack, cp_total_bytes = t\<rparr>, bp cs1))"
    if "bp = (\<lambda>_. max_bytes = 0 \<or> sat_add_u64 (length pack) len > max_bytes)" for cs1 bp
    using assms(1) that by (auto simp: populate_def calm_def Let_def)
  have miss: "\<exists>cs1. cache_lookup d False cs0 = (cs1, None)" for cs0
    by (auto simp: cache_lookup_def Let_def split: option.split)
  obtain cs1 where l1: "cache_lookup d False cs = (cs1, None)" using miss by blast
  obtain cs2 where l2: "cache_lookup d False cs1 = (cs2, None)" using miss by blast
  obtain cs3 t bp where "populate lib env max_bytes key d max_pack_bytes b cs2
      = (cs3, Ok (\<lparr>cp_pack_bytes = length pack, cp_total_bytes = t\<rparr>, bp))" using pop by blast
  then show ?thesis
    using assms(1,2) manifest_digest_ascii [OF assms(2)] l1 l2
    by (simp add: materialize_pack_def run_flight_def calm_def is_manifest_digest_def)
qed

end
