(* ===== verification/GitHydrate.thy ===== *)
theory GitHydrate
  imports GitPackCache
begin

text \<open>
  Reading a hosted repository (\<open>crates/buzz-relay/src/api/git/hydrate.rs\<close>): the pointer gives the digest of
  the manifest, the verified manifest its packs, refs and HEAD, which are materialized into an empty bare
  repository, packs first. The manifest and its packs are written once, so the later reads of one request
  see the bucket in which the pointer was read, or a larger one.

  The lemmas say what a successful read implies and that a validated manifest whose packs are stored and
  within the limits materializes completely.
\<close>

definition MAX_MANIFEST_BYTES :: nat where "MAX_MANIFEST_BYTES = 4 * 1024 * 1024"

record hydration_options =
  ho_cache_bytes :: nat
  ho_max_pack_bytes :: nat
  ho_max_repo_bytes :: nat

record hydrate_env =
  he_init :: bool
  he_pointer_fault :: fault
  he_manifest_faults :: "fault \<times> fault"
  he_cache :: "string \<Rightarrow> cache_env"
  he_write_ref :: "string \<Rightarrow> bool"
  he_write_head :: bool

text \<open>The bare repository: installed packs, loose refs, the target of HEAD.\<close>

record hydrated_repo =
  hr_packs :: "string list"
  hr_refs :: "(string, string) hmap"
  hr_head :: string
  hr_hydrated_bytes :: nat

definition load_pointer ::
  "git_lib \<Rightarrow> hydrate_env \<Rightarrow> uuid \<Rightarrow> string \<Rightarrow> string \<Rightarrow> bucket
     \<Rightarrow> hydrate_error + (string \<times> string \<times> manifest) option" where
  "load_pointer lib env community owner repo b =
     and_then (map_err HydrateStore (get_pointer (he_pointer_fault env) (pointer_key lib community owner repo) b)) (\<lambda>p.
       case p of
         None \<Rightarrow> Ok None
       | Some (etag, body) \<Rightarrow>
           and_then (ok_or InvalidPointer (pointer_digest body)) (\<lambda>d.
           and_then (hydrate_get_verified_limited lib (he_manifest_faults env) (manifest_key d) d
                       MAX_MANIFEST_BYTES b) (\<lambda>bs.
           and_then (map_err HydrateManifest (manifest_from_bytes lib bs)) (\<lambda>m.
           and_then (map_err HydrateManifest (validate m)) (\<lambda>_.
             Ok (Some (etag, d, m)))))))"

text \<open>Phase 1: each pack through the cache, with the limits on one pack and on the sum.\<close>

fun materialize_packs ::
  "git_lib \<Rightarrow> hydrate_env \<Rightarrow> hydration_options \<Rightarrow> bucket \<Rightarrow> string list \<Rightarrow> nat \<Rightarrow> cache_state
     \<Rightarrow> cache_state \<times> (hydrate_error + nat \<times> string list)" where
  "materialize_packs lib env opts b [] hydrated cs = (cs, Ok (hydrated, []))"
| "materialize_packs lib env opts b (key # keys) hydrated cs =
     (case strip_prefix ''packs/'' key of
        None \<Rightarrow> (cs, Err HydrateFailed)
      | Some d \<Rightarrow>
          (case materialize_pack lib (he_cache env key) (ho_cache_bytes opts) key d (ho_max_pack_bytes opts) b cs of
             (cs1, Inl e) \<Rightarrow> (cs1, Err e)
           | (cs1, Inr pack_bytes) \<Rightarrow>
               if pack_bytes > ho_max_pack_bytes opts then (cs1, Err HydrateResourceLimit)
               else (case checked_add_u64 hydrated pack_bytes of
                   None \<Rightarrow> (cs1, Err HydrateResourceLimit)
                 | Some hydrated' \<Rightarrow>
                     if hydrated' > ho_max_repo_bytes opts then (cs1, Err HydrateResourceLimit)
                     else (case materialize_packs lib env opts b keys hydrated' cs1 of
                         (cs2, r) \<Rightarrow> (cs2, and_then r (\<lambda>(n, ds). Ok (n, d # ds)))))))"

text \<open>Phase 2: one loose ref per entry, the names and ids checked again.\<close>

fun materialize_refs ::
  "hydrate_env \<Rightarrow> (string, string) hmap \<Rightarrow> (string, string) hmap \<Rightarrow> hydrate_error + (string, string) hmap" where
  "materialize_refs env [] files = Ok files"
| "materialize_refs env ((refname, oid) # refs) files =
     (if \<not> is_safe_refname refname then Err HydrateFailed
      else if \<not> is_hex_oid oid then Err HydrateFailed
      else if \<not> he_write_ref env refname then Err HydrateFailed
      else materialize_refs env refs (files @ [(refname, oid)]))"

definition materialize_manifest ::
  "git_lib \<Rightarrow> hydrate_env \<Rightarrow> hydration_options \<Rightarrow> bucket \<Rightarrow> manifest \<Rightarrow> cache_state
     \<Rightarrow> cache_state \<times> (hydrate_error + hydrated_repo)" where
  "materialize_manifest lib env opts b m cs =
     (if \<not> he_init env then (cs, Err HydrateFailed)
      else (case materialize_packs lib env opts b (mf_packs m) 0 cs of
          (cs1, Inl e) \<Rightarrow> (cs1, Err e)
        | (cs1, Inr (hydrated, packs)) \<Rightarrow>
            (cs1, and_then (materialize_refs env (mf_refs m) []) (\<lambda>refs.
              if \<not> is_safe_refname (mf_head m) then Err HydrateFailed
              else if \<not> he_write_head env then Err HydrateFailed
              else Ok \<lparr>hr_packs = packs, hr_refs = refs, hr_head = mf_head m, hr_hydrated_bytes = hydrated\<rparr>))))"

definition hydrate_for_read ::
  "git_lib \<Rightarrow> hydrate_env \<Rightarrow> hydration_options \<Rightarrow> uuid \<Rightarrow> string \<Rightarrow> string \<Rightarrow> bucket \<Rightarrow> cache_state
     \<Rightarrow> cache_state \<times> (hydrate_error + hydrated_repo option)" where
  "hydrate_for_read lib env opts community owner repo b cs =
     (case load_pointer lib env community owner repo b of
        Inl e \<Rightarrow> (cs, Err e)
      | Inr None \<Rightarrow> (cs, Ok None)
      | Inr (Some (_, _, m)) \<Rightarrow>
          (case materialize_manifest lib env opts b m cs of (cs1, r) \<Rightarrow> (cs1, and_then r (\<lambda>repo. Ok (Some repo)))))"

definition load_manifest_for_read ::
  "git_lib \<Rightarrow> hydrate_env \<Rightarrow> uuid \<Rightarrow> string \<Rightarrow> string \<Rightarrow> bucket \<Rightarrow> hydrate_error + manifest option" where
  "load_manifest_for_read lib env community owner repo b =
     and_then (load_pointer lib env community owner repo b) (\<lambda>p. Ok (map_option (\<lambda>(_, _, m). m) p))"

text \<open>A fresh bare repository has HEAD on \<open>main\<close> and nothing else.\<close>

definition fresh_repo :: hydrated_repo where
  "fresh_repo = \<lparr>hr_packs = [], hr_refs = [], hr_head = ''refs/heads/main'', hr_hydrated_bytes = 0\<rparr>"

definition hydrate_for_write ::
  "git_lib \<Rightarrow> hydrate_env \<Rightarrow> hydration_options \<Rightarrow> uuid \<Rightarrow> string \<Rightarrow> string \<Rightarrow> bucket \<Rightarrow> cache_state
     \<Rightarrow> cache_state \<times> (hydrate_error + hydrated_repo \<times> parent_state)" where
  "hydrate_for_write lib env opts community owner repo b cs =
     (case load_pointer lib env community owner repo b of
        Inl e \<Rightarrow> (cs, Err e)
      | Inr None \<Rightarrow> (cs, if he_init env then Ok (fresh_repo, fresh_parent) else Err HydrateFailed)
      | Inr (Some (etag, d, m)) \<Rightarrow>
          (case materialize_manifest lib env opts b m cs of
             (cs1, r) \<Rightarrow> (cs1, and_then r (\<lambda>repo. Ok (repo, parent_from_loaded etag d m)))))"

section \<open>What a successful read implies\<close>

lemma get_pointer_Some: "get_pointer f key b = Ok (Some (etag, body)) \<Longrightarrow> object_at b key = Some (etag, body)"
  by (auto simp: get_pointer_def s3_get_def split: sum.splits option.splits if_splits)

lemma get_pointer_None: "get_pointer f key b = Ok None \<Longrightarrow> object_at b key = None"
  by (auto simp: get_pointer_def s3_get_def split: sum.splits option.splits if_splits)

lemma load_pointer_Some:
  assumes "load_pointer lib env c owner repo b = Ok (Some (etag, d, m))"
  shows "\<exists>body e bs. object_at b (pointer_key lib c owner repo) = Some (etag, body) \<and> pointer_digest body = Some d
    \<and> object_at b (manifest_key d) = Some (e, bs) \<and> gl_sha lib bs = d \<and> length bs \<le> MAX_MANIFEST_BYTES
    \<and> manifest_from_bytes lib bs = Ok m \<and> manifest_ok m"
proof -
  from assms obtain body bs where
    p: "get_pointer (he_pointer_fault env) (pointer_key lib c owner repo) b = Ok (Some (etag, body))"
    and d: "pointer_digest body = Some d"
    and bs: "hydrate_get_verified_limited lib (he_manifest_faults env) (manifest_key d) d MAX_MANIFEST_BYTES b = Ok bs"
    and m: "manifest_from_bytes lib bs = Ok m" "validate m = Ok ()"
    by (auto simp: load_pointer_def split: option.splits)
  show ?thesis using get_pointer_Some [OF p] d hydrate_get_Ok [OF bs] m by (auto simp: validate_iff)
qed

lemma load_pointer_None:
  "load_pointer lib env c owner repo b = Ok None \<Longrightarrow> object_at b (pointer_key lib c owner repo) = None"
  by (auto simp: load_pointer_def split: option.splits) (metis get_pointer_None not_Some_eq surj_pair)

lemma pointer_digest_bytes: "is_manifest_digest d \<Longrightarrow> pointer_digest (str_bytes d) = Some d"
proof -
  assume d: "is_manifest_digest d"
  have "valid_utf8 (str_bytes s)" if "list_all lower_hex s" for s
    using that
  proof (induction s)
    case (Cons c s)
    then have "unat (of_char c :: 8 word) < 128" by (simp add: lower_hex_def Let_def) arith
    then have "(of_char c :: 8 word) < 0x80" by (simp add: word_less_nat_alt)
    then show ?case using Cons by (simp add: str_bytes_def)
  qed (simp add: str_bytes_def)
  then have "string_from_utf8 (str_bytes d) = Some d"
    using d by (simp add: is_manifest_digest_def string_from_utf8_def str_bytes_def comp_def)
  then show ?thesis
    using d manifest_digest_ascii [OF d]
    by (simp add: pointer_digest_def str_trim_digest Let_def is_manifest_digest_def)
qed

section \<open>When a read succeeds\<close>

text \<open>No fault and nothing in the cache.\<close>

definition calm_read :: "hydration_options \<Rightarrow> hydrate_env \<Rightarrow> bool" where
  "calm_read opts env \<longleftrightarrow>
     he_init env \<and> he_pointer_fault env = NoFault \<and> he_manifest_faults env = (NoFault, NoFault)
     \<and> (\<forall>key. calm (ho_max_pack_bytes opts) (he_cache env key)) \<and> (\<forall>r. he_write_ref env r) \<and> he_write_head env"

definition published :: "git_lib \<Rightarrow> bucket \<Rightarrow> string \<Rightarrow> manifest \<Rightarrow> bool" where
  "published lib b d m \<longleftrightarrow>
     (\<exists>e. object_at b (manifest_key d) = Some (e, canonical_bytes lib m))
     \<and> gl_sha lib (canonical_bytes lib m) = d
     \<and> manifest_ok m \<and> composed_ok b (mf_parent m) m"

lemma published_digest: "git_laws lib \<Longrightarrow> published lib b d m \<Longrightarrow> is_manifest_digest d"
  by (auto simp: published_def git_laws_def)

lemma published_decodes:
  "git_laws lib \<Longrightarrow> published lib b d m \<Longrightarrow> manifest_from_bytes lib (canonical_bytes lib m) = Ok m"
  by (auto simp: published_def composed_ok_def canonical_round_trip)

lemma load_published:
  assumes "git_laws lib" "published lib b d m"
    "object_at b (pointer_key lib c owner repo) = Some (etag, str_bytes d)"
    "he_pointer_fault env = NoFault" "he_manifest_faults env = (NoFault, NoFault)"
  shows "load_pointer lib env c owner repo b =
    (if length (canonical_bytes lib m) \<le> MAX_MANIFEST_BYTES then Ok (Some (etag, d, m))
     else Err HydrateResourceLimit)"
proof -
  have d: "is_manifest_digest d" by (rule published_digest [OF assms(1,2)])
  obtain e where obj: "object_at b (manifest_key d) = Some (e, canonical_bytes lib m)"
    and sha: "gl_sha lib (canonical_bytes lib m) = d" and ok: "validate m = Ok ()"
    using assms(2) by (auto simp: published_def validate_iff)
  have ptr: "get_pointer NoFault (pointer_key lib c owner repo) b = Ok (Some (etag, str_bytes d))"
    using assms(3) by (simp add: get_pointer_def s3_get_def)
  show ?thesis
  proof (cases "length (canonical_bytes lib m) \<le> MAX_MANIFEST_BYTES")
    case True
    then show ?thesis
      using ptr pointer_digest_bytes [OF d] hydrate_get_calm [OF obj sha True] ok published_decodes [OF assms(1,2)] assms(4,5)
      by (simp add: load_pointer_def)
  next
    case False
    then show ?thesis
      using ptr pointer_digest_bytes [OF d] hydrate_get_too_large [OF obj] assms(4,5)
      by (simp add: load_pointer_def)
  qed
qed

lemma materialize_refs_all:
  "\<lbrakk>\<forall>(r, oid) \<in> set refs. is_safe_refname r \<and> is_hex_oid oid; \<forall>r. he_write_ref env r\<rbrakk>
   \<Longrightarrow> materialize_refs env refs files = Ok (files @ refs)"
  by (induction env refs files rule: materialize_refs.induct) auto

text \<open>The bytes of the packs a manifest names, verified under their keys.\<close>

definition pack_bodies :: "git_lib \<Rightarrow> bucket \<Rightarrow> string list \<Rightarrow> bytes list \<Rightarrow> bool" where
  "pack_bodies lib b keys bodies \<longleftrightarrow>
     list_all2 (\<lambda>key body. key = content_key lib ''packs'' body \<and> (\<exists>e. object_at b key = Some (e, body))) keys bodies"

lemma materialize_packs_all:
  assumes "git_laws lib" "calm_read opts env" "pack_bodies lib b keys bodies"
    "\<forall>p \<in> set bodies. length p \<le> ho_max_pack_bytes opts"
    "n + sum_list (map length bodies) \<le> ho_max_repo_bytes opts" "ho_max_repo_bytes opts < 2 ^ 64"
  shows "snd (materialize_packs lib env opts b keys n cs) =
    Ok (n + sum_list (map length bodies), map (gl_sha lib) bodies)"
  using assms(3-5)
proof (induction keys arbitrary: bodies n cs)
  case Nil
  then show ?case by (simp add: pack_bodies_def)
next
  case (Cons key keys)
  then obtain p ps e where bodies: "bodies = p # ps" and key: "key = content_key lib ''packs'' p"
    and obj: "object_at b key = Some (e, p)" and rest: "pack_bodies lib b keys ps"
    by (auto simp: pack_bodies_def list_all2_Cons1)
  have strip: "strip_prefix ''packs/'' key = Some (gl_sha lib p)"
    by (simp add: key content_key_def strip_prefix_Some)
  have calm: "calm (ho_max_pack_bytes opts) (he_cache env key)" using assms(2) by (simp add: calm_read_def)
  obtain cs1 where mat: "materialize_pack lib (he_cache env key) (ho_cache_bytes opts) key (gl_sha lib p)
      (ho_max_pack_bytes opts) b cs = (cs1, Ok (length p))"
    using materialize_calm [OF calm git_laws_sha [OF assms(1)] obj refl] Cons.prems(2) bodies
    by (metis list.set_intros(1) prod.collapse)
  have bound: "n + length p \<le> ho_max_repo_bytes opts" using Cons.prems(3) bodies by simp
  then have add: "checked_add_u64 n (length p) = Some (n + length p)"
    using assms(6) by (simp add: checked_add_u64_def)
  obtain cs2 r where next': "materialize_packs lib env opts b keys (n + length p) cs1 = (cs2, r)" by fastforce
  have "r = Ok (n + length p + sum_list (map length ps), map (gl_sha lib) ps)"
    using Cons.IH [OF rest, of "n + length p" cs1] Cons.prems(2,3) bodies next' by (simp add: add.assoc)
  then show ?case using strip mat bound add next' Cons.prems(2) bodies by (simp add: add.assoc)
qed

lemma read_published_aux:
  assumes "git_laws lib" "published lib b d m" "calm_read opts env"
    "object_at b (pointer_key lib c owner repo) = Some (etag, str_bytes d)"
    "length (canonical_bytes lib m) \<le> MAX_MANIFEST_BYTES" "pack_bodies lib b (mf_packs m) bodies"
    "\<forall>p \<in> set bodies. length p \<le> ho_max_pack_bytes opts"
    "sum_list (map length bodies) \<le> ho_max_repo_bytes opts" "ho_max_repo_bytes opts < 2 ^ 64"
  shows "snd (hydrate_for_read lib env opts c owner repo b cs) =
    Ok (Some \<lparr>hr_packs = map (gl_sha lib) bodies, hr_refs = mf_refs m, hr_head = mf_head m,
              hr_hydrated_bytes = sum_list (map length bodies)\<rparr>)"
proof -
  have load: "load_pointer lib env c owner repo b = Ok (Some (etag, d, m))"
    using load_published [OF assms(1,2,4)] assms(3,5) by (simp add: calm_read_def)
  have ok: "manifest_ok m" using assms(2) by (simp add: published_def)
  obtain cs1 where packs: "materialize_packs lib env opts b (mf_packs m) 0 cs
      = (cs1, Ok (sum_list (map length bodies), map (gl_sha lib) bodies))"
    using materialize_packs_all [OF assms(1,3,6,7), of 0] assms(8,9) by (metis add_0 prod.collapse)
  have refs: "materialize_refs env (mf_refs m) [] = Ok (mf_refs m)"
    using ok assms(3) by (subst materialize_refs_all) (auto simp: manifest_ok_def calm_read_def)
  show ?thesis
    using load packs refs ok assms(3)
    by (simp add: hydrate_for_read_def materialize_manifest_def calm_read_def manifest_ok_def)
qed

end
