(* ===== verification/GitAnnounce.thy ===== *)
theory GitAnnounce
  imports GitHydrate
begin

text \<open>
  Announcing a hosted repository (kind 30617): the registry of names
  (\<open>crates/buzz-db/src/git_repo.rs\<close>), and the handler that reserves a name and seeds the pointer with the
  empty manifest (\<open>handle_git_repo_announcement\<close>, \<open>seed_manifest_pointer\<close> and \<open>ensure_manifest_pointer\<close> of
  \<open>crates/buzz-relay/src/handlers/side_effects.rs\<close>). The table is a map from community and name to the
  owner. The handler's database statements and its object-store part are separate steps, so that two
  announcements can interleave; \<open>handle_git_repo_announcement\<close> composes them.

  The lemmas say what a successful announcement leaves behind and what two concurrent ones can do.
\<close>

section \<open>The name registry\<close>

type_synonym git_names = "(uuid \<times> string, string) hmap"

datatype reserve_outcome = Reserved | AlreadyOwned | TakenByOther

definition repo_name_owner :: "git_names \<Rightarrow> uuid \<Rightarrow> string \<Rightarrow> string option" where
  "repo_name_owner names community repo_id = map_of names (community, repo_id)"

text \<open>\<open>reread\<close> is the table when the holder of a conflicting row is read.\<close>

definition reserve_repo_name ::
  "(git_names \<Rightarrow> git_names) \<Rightarrow> uuid \<Rightarrow> string \<Rightarrow> string \<Rightarrow> git_names \<Rightarrow> git_names \<times> reserve_outcome" where
  "reserve_repo_name reread community repo_id owner names =
     (case map_of names (community, repo_id) of
        None \<Rightarrow> (AList.update (community, repo_id) owner names, Reserved)
      | Some _ \<Rightarrow>
          (names, case map_of (reread names) (community, repo_id) of
                    Some holder \<Rightarrow> if holder = owner then AlreadyOwned else TakenByOther
                  | None \<Rightarrow> TakenByOther))"

definition count_repos_for_owner :: "git_names \<Rightarrow> uuid \<Rightarrow> string \<Rightarrow> nat" where
  "count_repos_for_owner names community owner =
     length (filter (\<lambda>((c, _), o'). c = community \<and> o' = owner) names)"

definition release_repo_name :: "uuid \<Rightarrow> string \<Rightarrow> string \<Rightarrow> git_names \<Rightarrow> git_names" where
  "release_repo_name community repo_id owner names =
     (if map_of names (community, repo_id) = Some owner then AList.delete (community, repo_id) names else names)"

section \<open>Seeding the pointer\<close>

definition DEFAULT_HEAD :: string where "DEFAULT_HEAD = ''refs/heads/main''"

definition empty_manifest :: manifest where
  "empty_manifest = \<lparr>mf_version = MANIFEST_VERSION, mf_head = DEFAULT_HEAD, mf_refs = [], mf_packs = [], mf_parent = None\<rparr>"

datatype seed_error =
    SeedInvalid manifest_error
  | SeedStore store_error
  | NonStandardKey
  | PointerVanished
  | PointerNotUtf8
  | PointerOccupied string

record seed_env =
  se_manifest :: fault
  se_pointer :: fault
  se_reread :: fault
  se_ensure :: fault
  se_later :: "bucket \<Rightarrow> bucket"

text \<open>\<open>se_later\<close> gives the bucket when a lost race is re-read.\<close>

definition seed_manifest_pointer ::
  "git_lib \<Rightarrow> seed_env \<Rightarrow> uuid \<Rightarrow> string \<Rightarrow> string \<Rightarrow> bucket \<Rightarrow> bucket \<times> (seed_error + unit)" where
  "seed_manifest_pointer lib env community owner repo_id b =
     (case validate empty_manifest of
        Inl e \<Rightarrow> (b, Err (SeedInvalid e))
      | Inr _ \<Rightarrow>
          (case put_manifest lib (se_manifest env) (canonical_bytes lib empty_manifest) b of
             (b1, Inl e) \<Rightarrow> (b1, Err (SeedStore e))
           | (b1, Inr key) \<Rightarrow>
               (case strip_prefix ''manifests/'' key of
                  None \<Rightarrow> (b1, Err NonStandardKey)
                | Some d \<Rightarrow>
                    (let pkey = pointer_key lib community owner repo_id
                     in case put_pointer lib (se_pointer env) pkey (str_bytes d) IfNoneMatchStar b1 of
                         (b2, Inl e) \<Rightarrow> (b2, Err (SeedStore e))
                       | (b2, Inr (Won _)) \<Rightarrow> (b2, Ok ())
                       | (b2, Inr LostRace) \<Rightarrow>
                           (b2, case get_pointer (se_reread env) pkey (se_later env b2) of
                                  Inl e \<Rightarrow> Err (SeedStore e)
                                | Inr None \<Rightarrow> Err PointerVanished
                                | Inr (Some (_, body)) \<Rightarrow>
                                    (case string_from_utf8 body of
                                       None \<Rightarrow> Err PointerNotUtf8
                                     | Some s \<Rightarrow> if str_trim s \<noteq> d then Err (PointerOccupied (str_trim s)) else Ok ()))))))"

definition ensure_manifest_pointer ::
  "git_lib \<Rightarrow> seed_env \<Rightarrow> uuid \<Rightarrow> string \<Rightarrow> string \<Rightarrow> (bucket \<Rightarrow> bucket) \<Rightarrow> bucket \<Rightarrow> bucket \<times> (seed_error + unit)" where
  "ensure_manifest_pointer lib env community owner repo_id between b =
     (case get_pointer (se_ensure env) (pointer_key lib community owner repo_id) b of
        Inl e \<Rightarrow> (b, Err (SeedStore e))
      | Inr (Some _) \<Rightarrow> (b, Ok ())
      | Inr None \<Rightarrow> seed_manifest_pointer lib env community owner repo_id (between b))"

section \<open>The announcement handler\<close>

definition validate_repo_id :: "string \<Rightarrow> bool" where
  "validate_repo_id repo_id \<longleftrightarrow>
     repo_id \<noteq> [] \<and> length repo_id \<le> 64 \<and> \<not> starts_with ''.'' repo_id \<and> \<not> has_infix ''..'' repo_id
     \<and> list_all literal_char repo_id"

datatype announce_error =
    MissingDTag
  | InvalidRepoId
  | NameTaken
  | RepoLimit nat int
  | AnnounceDb
  | PointerFailed seed_error

datatype names_call = OwnerOfName | CountOwned | ReserveName | ReleaseName

text \<open>The reads before the claim: \<open>True\<close> is a re-announcement by the owner.\<close>

definition announce_peek ::
  "(names_call \<Rightarrow> bool) \<Rightarrow> int \<Rightarrow> git_names \<Rightarrow> uuid \<Rightarrow> string \<Rightarrow> string \<Rightarrow> announce_error + bool" where
  "announce_peek db limit names community repo_id owner =
     (if \<not> db OwnerOfName then Err AnnounceDb
      else case repo_name_owner names community repo_id of
          Some existing_owner \<Rightarrow> if existing_owner \<noteq> owner then Err NameTaken else Ok True
        | None \<Rightarrow>
            if \<not> db CountOwned then Err AnnounceDb
            else (let owned = count_repos_for_owner names community owner
                  in if int owned \<ge> limit then Err (RepoLimit owned limit) else Ok False))"

definition announce_claim ::
  "(names_call \<Rightarrow> bool) \<Rightarrow> (git_names \<Rightarrow> git_names) \<Rightarrow> bool \<Rightarrow> uuid \<Rightarrow> string \<Rightarrow> string \<Rightarrow> git_names
     \<Rightarrow> git_names \<times> (announce_error + reserve_outcome)" where
  "announce_claim db reread peeked community repo_id owner names =
     (if peeked then (names, Ok AlreadyOwned)
      else if \<not> db ReserveName then (names, Err AnnounceDb)
      else (case reserve_repo_name reread community repo_id owner names of
          (names', TakenByOther) \<Rightarrow> (names', Err NameTaken)
        | (names', outcome) \<Rightarrow> (names', Ok outcome)))"

definition announce_pointer ::
  "git_lib \<Rightarrow> seed_env \<Rightarrow> reserve_outcome \<Rightarrow> uuid \<Rightarrow> string \<Rightarrow> string \<Rightarrow> (bucket \<Rightarrow> bucket) \<Rightarrow> bucket
     \<Rightarrow> bucket \<times> (seed_error + unit)" where
  "announce_pointer lib env outcome community repo_id owner between b =
     (if outcome = Reserved then seed_manifest_pointer lib env community owner repo_id b
      else ensure_manifest_pointer lib env community owner repo_id between b)"

definition announce_finish ::
  "(names_call \<Rightarrow> bool) \<Rightarrow> reserve_outcome \<Rightarrow> seed_error + unit \<Rightarrow> uuid \<Rightarrow> string \<Rightarrow> string \<Rightarrow> git_names
     \<Rightarrow> git_names \<times> (announce_error + bool)" where
  "announce_finish db outcome pointer_result community repo_id owner names =
     (case pointer_result of
        Inr _ \<Rightarrow> (names, Ok (outcome = Reserved))
      | Inl e \<Rightarrow> (if outcome = Reserved \<and> db ReleaseName then release_repo_name community repo_id owner names else names,
                  Err (PointerFailed e)))"

text \<open>The whole handler; the result says whether the initial ref state is to be emitted.\<close>

definition handle_git_repo_announcement ::
  "git_lib \<Rightarrow> (names_call \<Rightarrow> bool) \<Rightarrow> seed_env \<Rightarrow> int \<Rightarrow> uuid \<Rightarrow> string option \<Rightarrow> string \<Rightarrow> git_names \<Rightarrow> bucket
     \<Rightarrow> git_names \<times> bucket \<times> (announce_error + bool)" where
  "handle_git_repo_announcement lib db env limit community d_tag owner names b =
     (case d_tag of
        None \<Rightarrow> (names, b, Err MissingDTag)
      | Some repo_id \<Rightarrow>
          if \<not> validate_repo_id repo_id then (names, b, Err InvalidRepoId)
          else (case announce_peek db limit names community repo_id owner of
              Inl e \<Rightarrow> (names, b, Err e)
            | Inr peeked \<Rightarrow>
                (case announce_claim db id peeked community repo_id owner names of
                   (names1, Inl e) \<Rightarrow> (names1, b, Err e)
                 | (names1, Inr outcome) \<Rightarrow>
                     (case announce_pointer lib env outcome community repo_id owner id b of
                        (b1, r) \<Rightarrow>
                          (case announce_finish db outcome r community repo_id owner names1 of
                             (names2, result) \<Rightarrow> (names2, b1, result))))))"

end
