(* ===== verification/GitHistory.thy ===== *)
theory GitHistory
  imports GitAnnounce
begin

text \<open>
  Concurrent pushes and announcements on one object store. A push hydrates, composes its manifest (with its
  uploads), writes the manifest and moves the pointer; these are separate steps of the relation
  \<open>git_step\<close>, so any number of relay processes interleave in any order, requests may be lost at every
  call, and a push may stop anywhere. A step that writes a manifest assumes that SHA-256 does not give two
  different manifests one digest (\<open>no_clash\<close>).

  The invariant \<open>git_ok\<close> says what the bucket holds in every reachable state: each pointer names a stored,
  valid manifest, its packs and its parent are stored, and the parent links have no cycle. From it follow
  that a published state is never lost, that histories do not fork, and that what is published can be read.
\<close>

section \<open>The relation\<close>

type_synonym repo_name = "uuid \<times> string \<times> string"

definition repo_key :: "git_lib \<Rightarrow> repo_name \<Rightarrow> string" where
  "repo_key lib repo = (case repo of (c, owner, name) \<Rightarrow> pointer_key lib c owner name)"

record git_system =
  gs_bucket :: bucket
  gs_hydrated :: "(repo_name \<times> parent_state) set"
  gs_composed :: "(repo_name \<times> parent_state \<times> manifest) set"
  gs_written :: "(repo_name \<times> parent_state \<times> manifest \<times> string) set"

definition git_start :: git_system where
  "git_start = \<lparr>gs_bucket = empty_bucket, gs_hydrated = {}, gs_composed = {}, gs_written = {}\<rparr>"

definition parent_of :: "(string \<times> string \<times> manifest) option \<Rightarrow> parent_state" where
  "parent_of loaded = (case loaded of None \<Rightarrow> fresh_parent | Some (e, d, m) \<Rightarrow> parent_from_loaded e d m)"

definition no_clash :: "git_lib \<Rightarrow> bucket \<Rightarrow> manifest \<Rightarrow> bool" where
  "no_clash lib b m \<longleftrightarrow>
     (\<forall>e x. object_at b (content_key lib ''manifests'' (canonical_bytes lib m)) = Some (e, x)
        \<longrightarrow> x = canonical_bytes lib m)"

inductive git_step :: "git_lib \<Rightarrow> git_system \<Rightarrow> git_system \<Rightarrow> bool" for lib where
  step_hydrate:
    "load_pointer lib env c owner name (gs_bucket s) = Ok loaded \<Longrightarrow>
     git_step lib s (s\<lparr>gs_hydrated := insert ((c, owner, name), parent_of loaded) (gs_hydrated s)\<rparr>)"
| step_upload:
    "put_pack lib f pack (gs_bucket s) = (b', r) \<Longrightarrow> git_step lib s (s\<lparr>gs_bucket := b'\<rparr>)"
| step_sidecar:
    "git_step lib s (s\<lparr>gs_bucket := fst (put_idx lib f d idx (gs_bucket s))\<rparr>)"
| step_compose:
    "\<lbrakk>(repo, ps) \<in> gs_hydrated s;
      compose_manifest lib env ws ps limits threshold (gs_bucket s) = (b', r)\<rbrakk> \<Longrightarrow>
     git_step lib s (s\<lparr>gs_bucket := b',
       gs_composed := (case r of Inl _ \<Rightarrow> gs_composed s | Inr m \<Rightarrow> insert (repo, ps, m) (gs_composed s))\<rparr>)"
| step_write:
    "\<lbrakk>(repo, ps, m) \<in> gs_composed s; no_clash lib (gs_bucket s) m;
      write_manifest lib env m (gs_bucket s) = (b', r)\<rbrakk> \<Longrightarrow>
     git_step lib s (s\<lparr>gs_bucket := b',
       gs_written := (case r of Inl _ \<Rightarrow> gs_written s | Inr key \<Rightarrow> insert (repo, ps, m, key) (gs_written s))\<rparr>)"
| step_commit:
    "\<lbrakk>(repo, ps, m, key) \<in> gs_written s;
      commit_pointer lib env (repo_key lib repo) ps m key later (gs_bucket s) = (b', r)\<rbrakk> \<Longrightarrow>
     git_step lib s (s\<lparr>gs_bucket := b'\<rparr>)"
| step_seed:
    "\<lbrakk>no_clash lib (gs_bucket s) empty_manifest;
      seed_manifest_pointer lib env' c owner name (gs_bucket s) = (b', r')\<rbrakk> \<Longrightarrow>
     git_step lib s (s\<lparr>gs_bucket := b'\<rparr>)"

definition git_reachable :: "git_lib \<Rightarrow> git_system \<Rightarrow> bool" where
  "git_reachable lib s \<longleftrightarrow> (git_step lib)\<^sup>*\<^sup>* git_start s"

section \<open>The bucket's invariant\<close>

definition parent_rel :: "git_lib \<Rightarrow> bucket \<Rightarrow> (string \<times> string) set" where
  "parent_rel lib b = {(p, d). \<exists>m. published lib b d m \<and> mf_parent m = Some p}"

definition bucket_ok :: "git_lib \<Rightarrow> bucket \<Rightarrow> bool" where
  "bucket_ok lib b \<longleftrightarrow>
     etags_ok lib b \<and> packs_ok lib b
     \<and> (\<forall>d e x. object_at b (manifest_key d) = Some (e, x) \<longrightarrow>
          (\<exists>m. published lib b d m \<and> (\<forall>p. mf_parent m = Some p \<longrightarrow> (\<exists>m'. published lib b p m'))))
     \<and> (\<forall>k e x. starts_with ''repos/'' k \<longrightarrow> object_at b k = Some (e, x) \<longrightarrow>
          (\<exists>d m. x = str_bytes d \<and> published lib b d m))
     \<and> acyclic (parent_rel lib b)"

definition keeps :: "bucket \<Rightarrow> bucket \<Rightarrow> bool" where
  "keeps b b' \<longleftrightarrow> (\<forall>k x. \<not> starts_with ''repos/'' k \<longrightarrow> object_at b k = Some x \<longrightarrow> object_at b' k = Some x)"

lemma grows_keeps: "grows b b' \<Longrightarrow> keeps b b'" by (simp add: grows_def keeps_def)

lemma repo_key_prefix [simp]: "starts_with ''repos/'' (repo_key lib repo)"
  by (simp add: repo_key_def split: prod.split)

lemma repos_other_prefix: "starts_with ''repos/'' k \<Longrightarrow> \<not> starts_with ''packs/'' k \<and> \<not> starts_with ''idx/'' k"
  by (auto simp: starts_with_iff)

lemma pack_key_prefix: "is_pack_key k \<Longrightarrow> \<not> starts_with ''repos/'' k"
  by (auto simp: is_pack_key_def strip_prefix_Some starts_with_def split: option.splits)

lemma packs_stored_keeps: "packs_stored b keys \<Longrightarrow> keeps b b' \<Longrightarrow> packs_stored b' keys"
  unfolding packs_stored_def
proof
  fix k assume "\<forall>k \<in> set keys. is_pack_key k \<and> object_at b k \<noteq> None" "keeps b b'" "k \<in> set keys"
  then have k: "is_pack_key k" "keeps b b'" and "object_at b k \<noteq> None" by auto
  then obtain x where "object_at b k = Some x" by blast
  then have "object_at b' k = Some x" using pack_key_prefix [OF k(1)] k(2) unfolding keeps_def by blast
  then show "is_pack_key k \<and> object_at b' k \<noteq> None" using k(1) by simp
qed

lemma published_keeps:
  assumes "published lib b d m" "keeps b b'" shows "published lib b' d m"
proof -
  obtain e where "object_at b (manifest_key d) = Some (e, canonical_bytes lib m)"
    using assms(1) by (auto simp: published_def)
  then have "object_at b' (manifest_key d) = Some (e, canonical_bytes lib m)"
    using assms(2) unfolding keeps_def by (metis manifest_key_simps(3))
  moreover have "packs_stored b' (mf_packs m)"
    by (rule packs_stored_keeps [OF _ assms(2)]) (use assms(1) in \<open>unfold published_def composed_ok_def, blast\<close>)
  ultimately show ?thesis
    using assms(1) unfolding published_def composed_ok_def by blast
qed

lemma published_object: "published lib b d m \<Longrightarrow> \<exists>e. object_at b (manifest_key d) = Some (e, canonical_bytes lib m)"
  by (simp add: published_def)

lemma published_unique:
  assumes "git_laws lib" "published lib b d m" "published lib b d m'" shows "m = m'"
proof -
  have "canonical_bytes lib m = canonical_bytes lib m'" 
    using published_object [OF assms(2)] published_object [OF assms(3)] by (metis option.inject snd_conv)
  then have "(Ok m :: manifest_error + manifest) = Ok m'"
    using published_decodes [OF assms(1,2)] published_decodes [OF assms(1,3)] by metis
  then show ?thesis by simp
qed

lemma bucket_ok_manifest:
  "bucket_ok lib b \<Longrightarrow> object_at b (manifest_key d) = Some (e, x)
   \<Longrightarrow> \<exists>m. published lib b d m \<and> (\<forall>p. mf_parent m = Some p \<longrightarrow> (\<exists>m'. published lib b p m'))"
  unfolding bucket_ok_def by blast

lemma bucket_ok_pointer:
  "bucket_ok lib b \<Longrightarrow> starts_with ''repos/'' k \<Longrightarrow> object_at b k = Some (e, x)
   \<Longrightarrow> \<exists>d m. x = str_bytes d \<and> published lib b d m"
  unfolding bucket_ok_def by blast

lemma bucket_ok_etags: "bucket_ok lib b \<Longrightarrow> etags_ok lib b" by (simp add: bucket_ok_def)

lemma bucket_ok_packs: "bucket_ok lib b \<Longrightarrow> packs_ok lib b" by (simp add: bucket_ok_def)

lemma parent_rel_cong:
  assumes "git_laws lib" "bucket_ok lib b" "keeps b b'"
    "\<And>d. object_at b' (manifest_key d) = object_at b (manifest_key d)"
  shows "published lib b' d m \<longleftrightarrow> published lib b d m" "parent_rel lib b' = parent_rel lib b"
proof -
  have iff: "published lib b' d m \<longleftrightarrow> published lib b d m" for d m
  proof
    assume p: "published lib b' d m"
    then obtain e where "object_at b (manifest_key d) = Some (e, canonical_bytes lib m)"
      using published_object assms(4) by fastforce
    then obtain m0 where m0: "published lib b d m0" using bucket_ok_manifest [OF assms(2)] by blast
    then show "published lib b d m"
      using published_unique [OF assms(1) p published_keeps [OF m0 assms(3)]] by simp
  qed (rule published_keeps [OF _ assms(3)])
  then show "published lib b' d m \<longleftrightarrow> published lib b d m" .
  show "parent_rel lib b' = parent_rel lib b" by (simp add: parent_rel_def iff)
qed

lemma bucket_ok_extend:
  assumes "git_laws lib" "bucket_ok lib b" "etags_ok lib b'" "packs_ok lib b'" "keeps b b'"
    "\<And>d. object_at b' (manifest_key d) = object_at b (manifest_key d)"
    "\<And>k. starts_with ''repos/'' k \<Longrightarrow> object_at b' k = object_at b k
       \<or> (\<exists>e d m. object_at b' k = Some (e, str_bytes d) \<and> published lib b d m)"
  shows "bucket_ok lib b'"
proof -
  note same = parent_rel_cong [OF assms(1,2,5,6)]
  have "\<exists>d m. x = str_bytes d \<and> published lib b d m" if "starts_with ''repos/'' k" "object_at b' k = Some (e, x)" for k e x
    using assms(7) [OF that(1)] that assms(2) unfolding bucket_ok_def by fastforce
  then show ?thesis
    using assms(2,3,4) by (simp add: bucket_ok_def same assms(6))
qed

lemma bucket_ok_uploads:
  assumes "git_laws lib" "bucket_ok lib b" "uploads lib b b'" shows "bucket_ok lib b'"
  using assms(3) assms(2)
  by (intro bucket_ok_extend [OF assms(1,2)]) (auto simp: uploads_def bucket_ok_def grows_keeps dest: repos_other_prefix)

section \<open>Writing a manifest\<close>

lemma published_stored:
  assumes "manifest_ok m" "composed_ok b (mf_parent m) m"
    "object_at b (manifest_key (gl_sha lib (canonical_bytes lib m))) = Some (e, canonical_bytes lib m)"
  shows "published lib b (gl_sha lib (canonical_bytes lib m)) m"
  using assms unfolding published_def by blast

lemma store_manifest:
  assumes "git_laws lib" "bucket_ok lib b" "manifest_ok m" "composed_ok b (mf_parent m) m"
    "\<forall>p. mf_parent m = Some p \<longrightarrow> (\<exists>m'. published lib b p m')" "no_clash lib b m"
    "put_manifest lib f (canonical_bytes lib m) b = (b', r)"
  shows "bucket_ok lib b'" "grows b b'" "r = Ok key \<Longrightarrow> \<exists>d. key = manifest_key d \<and> published lib b' d m"
    "starts_with ''repos/'' k \<Longrightarrow> object_at b' k = object_at b k"
    "published lib b' d' m' \<Longrightarrow> published lib b d' m' \<or> m' = m"
proof -
  define bs where "bs = canonical_bytes lib m"
  define d where "d = gl_sha lib bs"
  have put: "put_manifest lib f bs b = (b', r)" using assms(7) by (simp add: bs_def)
  have adds: "adds lib (manifest_key d) bs b b'"
    using manifest_store.put_adds [OF put] by (simp add: content_key_manifest d_def)
  show grown: "grows b b'" by (rule adds_grows [OF adds])
  have other: "k \<noteq> manifest_key d \<Longrightarrow> object_at b' k = object_at b k" for k
    using manifest_store.put_other [OF put] by (simp add: content_key_manifest d_def)
  show "starts_with ''repos/'' k \<Longrightarrow> object_at b' k = object_at b k" using other [of k] manifest_key_simps(3) by metis
  have composed: "composed_ok b' (mf_parent m) m" by (rule composed_ok_grows [OF assms(4) grown])
  have pub: "published lib b' d m" if "object_at b' (manifest_key d) = Some (e, bs)" for e
    using published_stored [OF assms(3) composed] that by (simp add: d_def bs_def)
  have clash: "\<forall>x. object_at b (manifest_key d) = Some x \<longrightarrow> snd x = bs"
    using assms(6) by (auto simp: no_clash_def content_key_manifest d_def bs_def)
  show "r = Ok key \<Longrightarrow> \<exists>d. key = manifest_key d \<and> published lib b' d m"
  proof -
    assume ok: "r = Ok key"
    then have key: "key = manifest_key d"
      using manifest_store.put_found [of lib f bs b b' key] put by (simp add: content_key_manifest d_def)
    obtain e where "object_at b' (manifest_key d) = Some (e, bs)"
      using manifest_store.put_stored [of lib f bs b b' key] put ok clash
      by (auto simp: content_key_manifest d_def)
    then show ?thesis using pub key by blast
  qed
  have keep: "keeps b b'" by (rule grows_keeps [OF grown])
  have old: "published lib b d' m'" if p: "published lib b' d' m'" and ne: "d' \<noteq> d" for d' m'
  proof -
    obtain e' where "object_at b (manifest_key d') = Some (e', canonical_bytes lib m')"
      using published_object [OF p] other [of "manifest_key d'"] ne by auto
    then obtain m0 where m0: "published lib b d' m0" using bucket_ok_manifest [OF assms(2)] by blast
    then show ?thesis using published_unique [OF assms(1) p published_keeps [OF m0 keep]] by simp
  qed
  show "published lib b' d' m' \<Longrightarrow> published lib b d' m' \<or> m' = m"
  proof (cases "d' = d")
    case True
    assume p: "published lib b' d' m'"
    obtain e x where obj: "object_at b' (manifest_key d) = Some (e, x)" using published_object [OF p] True by auto
    have "x = bs" using adds obj clash by (auto simp: adds_def split: if_splits)
    then show ?thesis using published_unique [OF assms(1) p] pub obj True by blast
  next
    case False
    assume "published lib b' d' m'"
    then show ?thesis using old False by blast
  qed
  show "bucket_ok lib b'"
  proof (cases "object_at b (manifest_key d)")
    case (Some x)
    then have "b' = b" using adds by (simp add: adds_def)
    then show ?thesis using assms(2) by simp
  next
    case None
    show ?thesis
    proof (cases "b' = b")
      case False
      then obtain e where new: "object_at b' (manifest_key d) = Some (e, bs)" using adds by (auto simp: adds_def)
      have new_only: "m' = m" if "published lib b' d m'" for m'
        using published_unique [OF assms(1) that pub [OF new]] .
      have fresh: "\<not> published lib b d m'" for m' using None published_object [of lib b d m'] by auto
      have iff: "published lib b' d' m' \<longleftrightarrow> published lib b d' m' \<or> d' = d \<and> m' = m" for d' m'
      proof (cases "d' = d")
        case True
        then show ?thesis using new_only pub [OF new] fresh by blast
      next
        case False
        then show ?thesis using old published_keeps [OF _ keep] by blast
      qed
      have rel: "parent_rel lib b' = parent_rel lib b \<union> {(p, d) |p. mf_parent m = Some p}"
        unfolding parent_rel_def iff by blast
      have out: "(d, x) \<notin> parent_rel lib b" for x
      proof
        assume "(d, x) \<in> parent_rel lib b"
        then obtain m' where m': "published lib b x m'" "mf_parent m' = Some d" by (auto simp: parent_rel_def)
        obtain m0 where m0: "published lib b x m0" "\<forall>p. mf_parent m0 = Some p \<longrightarrow> (\<exists>m'. published lib b p m')"
          using bucket_ok_manifest [OF assms(2)] published_object [OF m'(1)] by blast
        then have "\<exists>m'. published lib b d m'" using published_unique [OF assms(1) m'(1) m0(1)] m'(2) by simp
        then show False using fresh by blast
      qed
      have acyc: "acyclic (parent_rel lib b')"
      proof (cases "mf_parent m")
        case None
        then show ?thesis using rel assms(2) by (simp add: bucket_ok_def)
      next
        case (Some p)
        then obtain mp where "published lib b p mp" using assms(5) by blast
        then have "p \<noteq> d" using fresh by blast
        then have "(d, p) \<notin> (parent_rel lib b)\<^sup>*"
          using out by (blast elim: converse_rtranclE)
        moreover have "parent_rel lib b' = insert (p, d) (parent_rel lib b)" using rel Some by auto
        ultimately show ?thesis using assms(2) by (simp add: bucket_ok_def acyclic_insert)
      qed
      have mans: "\<exists>m'. published lib b' d' m' \<and> (\<forall>p. mf_parent m' = Some p \<longrightarrow> (\<exists>m''. published lib b' p m''))"
        if "object_at b' (manifest_key d') = Some (e', x')" for d' e' x'
      proof (cases "d' = d")
        case True
        then show ?thesis using pub [OF new] assms(5) published_keeps [OF _ keep] by blast
      next
        case False
        then have "object_at b (manifest_key d') = Some (e', x')" using that other [of "manifest_key d'"] by simp
        from bucket_ok_manifest [OF assms(2) this] obtain m0 where
          m0: "published lib b d' m0" "\<forall>p. mf_parent m0 = Some p \<longrightarrow> (\<exists>m'. published lib b p m')" by blast
        have "published lib b' d' m0" by (rule published_keeps [OF m0(1) keep])
        moreover have "\<forall>p. mf_parent m0 = Some p \<longrightarrow> (\<exists>m''. published lib b' p m'')"
          using m0(2) published_keeps [OF _ keep] by metis
        ultimately show ?thesis by blast
      qed
      have ptrs: "\<exists>d m. x' = str_bytes d \<and> published lib b' d m"
        if "starts_with ''repos/'' k" "object_at b' k = Some (e', x')" for k e' x'
      proof -
        have "k \<noteq> manifest_key d" using that(1) by auto
        then have "object_at b k = Some (e', x')" using that(2) other by simp
        then show ?thesis using bucket_ok_pointer [OF assms(2) that(1)] published_keeps [OF _ keep] by blast
      qed
      show ?thesis
        unfolding bucket_ok_def
        using adds_etags [OF adds bucket_ok_etags [OF assms(2)]]
          adds_packs [OF adds _ bucket_ok_packs [OF assms(2)]] manifest_key_simps(4) [of d] mans ptrs acyc by blast
    qed (use assms(2) in simp)
  qed
qed

section \<open>Moving a pointer\<close>

lemma put_pointer_cases:
  assumes "put_pointer lib f key body precond b = (b', r)"
  shows "b' = b \<and> (\<forall>e. r \<noteq> Ok (Won e))
    \<or> precond_holds precond (object_at b key) \<and> (\<exists>n. object_at b' = (object_at b)(key \<mapsto> (gl_etag lib n body, body)))
        \<and> r \<noteq> Ok LostRace"
proof (cases "case precond of IfMatch tag \<Rightarrow> \<not> gl_header_value lib tag | IfNoneMatchStar \<Rightarrow> False")
  case True
  then show ?thesis using assms by (auto simp: put_pointer_def)
next
  case False
  obtain b1 r1 where put: "s3_put lib f key body precond b = (b1, r1)" by fastforce
  then have "b' = b1" "r = classify_cas r1" using assms False by (auto simp: put_pointer_def)
  then show ?thesis
    using s3_put_cases [OF put] by (fastforce simp: classify_cas_def split: sum.splits if_splits option.splits)
qed

lemma move_pointer:
  assumes "git_laws lib" "bucket_ok lib b" "published lib b d m" "starts_with ''repos/'' key"
    "put_pointer lib f key (str_bytes d) precond b = (b', r)"
  shows "bucket_ok lib b'" "keeps b b'" "object_at b' (manifest_key d') = object_at b (manifest_key d')"
    "k \<noteq> key \<Longrightarrow> object_at b' k = object_at b k"
    "object_at b' key = object_at b key
      \<or> precond_holds precond (object_at b key) \<and> (\<exists>e. object_at b' key = Some (e, str_bytes d))"
proof -
  have cases: "b' = b \<or> precond_holds precond (object_at b key)
      \<and> (\<exists>n. object_at b' = (object_at b)(key \<mapsto> (gl_etag lib n (str_bytes d), str_bytes d)))"
    using put_pointer_cases [OF assms(5)] by blast
  show other: "k \<noteq> key \<Longrightarrow> object_at b' k = object_at b k" for k using cases by auto
  have mk: "manifest_key d' \<noteq> key" for d' using assms(4) manifest_key_simps(3) by metis
  show man: "object_at b' (manifest_key d') = object_at b (manifest_key d')" for d' by (rule other [OF mk])
  show keep: "keeps b b'" unfolding keeps_def using other assms(4) by metis
  show at: "object_at b' key = object_at b key
      \<or> precond_holds precond (object_at b key) \<and> (\<exists>e. object_at b' key = Some (e, str_bytes d))"
    using cases by auto
  have "etags_ok lib b'"
    using cases bucket_ok_etags [OF assms(2)] by (auto simp: etags_ok_def split: if_splits)
  moreover have "packs_ok lib b'"
    using bucket_ok_packs [OF assms(2)] repos_other_prefix [OF assms(4)] other unfolding packs_ok_def by metis
  ultimately show "bucket_ok lib b'"
    by (rule bucket_ok_extend [OF assms(1,2) _ _ keep man]) (use at other assms(3) in metis)
qed

section \<open>The system's invariant\<close>

definition parent_ok :: "git_lib \<Rightarrow> bucket \<Rightarrow> parent_state \<Rightarrow> bool" where
  "parent_ok lib b ps \<longleftrightarrow>
     ps = fresh_parent
     \<or> (\<exists>n d m. ps = parent_from_loaded (gl_etag lib n (str_bytes d)) d m \<and> published lib b d m)"

definition git_ok :: "git_lib \<Rightarrow> git_system \<Rightarrow> bool" where
  "git_ok lib s \<longleftrightarrow>
     bucket_ok lib (gs_bucket s)
     \<and> (\<forall>(repo, ps) \<in> gs_hydrated s. parent_ok lib (gs_bucket s) ps)
     \<and> (\<forall>(repo, ps, m) \<in> gs_composed s.
          parent_ok lib (gs_bucket s) ps \<and> composed_ok (gs_bucket s) (pst_parent_digest ps) m)
     \<and> (\<forall>(repo, ps, m, key) \<in> gs_written s.
          parent_ok lib (gs_bucket s) ps \<and> mf_parent m = pst_parent_digest ps
          \<and> (\<exists>d. key = manifest_key d \<and> published lib (gs_bucket s) d m))"

lemma parent_ok_keeps: "parent_ok lib b ps \<Longrightarrow> keeps b b' \<Longrightarrow> parent_ok lib b' ps"
  unfolding parent_ok_def using published_keeps by blast

lemma composed_ok_keeps: "composed_ok b d m \<Longrightarrow> keeps b b' \<Longrightarrow> composed_ok b' d m"
  using packs_stored_keeps by (auto simp: composed_ok_def)

lemma git_ok_bucket:
  assumes "git_ok lib s" "bucket_ok lib b'" "keeps (gs_bucket s) b'"
  shows "git_ok lib (s\<lparr>gs_bucket := b'\<rparr>)"
  using assms(1,2) parent_ok_keeps [OF _ assms(3)] composed_ok_keeps [OF _ assms(3)] published_keeps [OF _ assms(3)]
  unfolding git_ok_def by (simp add: split_beta) blast

lemma parent_ok_packs:
  assumes "parent_ok lib b ps"
  shows "packs_stored b (mf_packs (pst_parent ps))" "length (mf_packs (pst_parent ps)) \<le> MAX_MANIFEST_PACKS"
  using assms unfolding parent_ok_def published_def composed_ok_def
  by (auto simp: fresh_parent_def parent_from_loaded_def packs_stored_def)

lemma parent_ok_digest:
  "parent_ok lib b ps \<Longrightarrow> pst_parent_digest ps = Some p \<Longrightarrow> \<exists>m'. published lib b p m'"
  unfolding parent_ok_def by (auto simp: fresh_parent_def parent_from_loaded_def)

lemma loaded_parent_ok:
  assumes "git_laws lib" "bucket_ok lib b" "load_pointer lib env c owner name b = Ok loaded"
  shows "parent_ok lib b (parent_of loaded)"
proof (cases loaded)
  case None
  then show ?thesis by (simp add: parent_ok_def parent_of_def)
next
  case (Some p)
  obtain e d m where p: "p = (e, d, m)" by (cases p) auto
  obtain body e' bs where obj: "object_at b (pointer_key lib c owner name) = Some (e, body)" "pointer_digest body = Some d"
      "object_at b (manifest_key d) = Some (e', bs)" "manifest_from_bytes lib bs = Ok m"
    using load_pointer_Some [of lib env c owner name b e d m] assms(3) Some p by auto
  obtain d0 m0 where m0: "body = str_bytes d0" "published lib b d0 m0"
    using bucket_ok_pointer [OF assms(2) pointer_key_prefix obj(1)] by blast
  have d: "d0 = d" using obj(2) m0(1) pointer_digest_bytes [OF published_digest [OF assms(1) m0(2)]] by simp
  then have "bs = canonical_bytes lib m0" using published_object [OF m0(2)] obj(3) by auto
  then have "m = m0" using obj(4) published_decodes [OF assms(1) m0(2)] by simp
  moreover obtain n where "e = gl_etag lib n body"
    using bucket_ok_etags [OF assms(2)] obj(1) unfolding etags_ok_def by blast
  ultimately show ?thesis
    using Some p m0 d by (auto simp: parent_ok_def parent_of_def)
qed

section \<open>Every step moves pointers to children only\<close>

definition advances :: "git_lib \<Rightarrow> bucket \<Rightarrow> bucket \<Rightarrow> bool" where
  "advances lib b b' \<longleftrightarrow>
     (\<forall>k. starts_with ''repos/'' k \<longrightarrow>
        object_at b' k = object_at b k
        \<or> (\<exists>e d m. object_at b' k = Some (e, str_bytes d) \<and> published lib b' d m
             \<and> (case object_at b k of
                  None \<Rightarrow> mf_parent m = None
                | Some (_, x) \<Rightarrow> (\<exists>p. mf_parent m = Some p \<and> x = str_bytes p))))"

lemma advances_same: "(\<And>k. starts_with ''repos/'' k \<Longrightarrow> object_at b' k = object_at b k) \<Longrightarrow> advances lib b b'"
  by (simp add: advances_def)

lemma advancesD:
  assumes "advances lib b b'" "starts_with ''repos/'' k" "object_at b k = Some (e, x)"
  shows "object_at b' k = Some (e, x)
    \<or> (\<exists>e' d m p. object_at b' k = Some (e', str_bytes d) \<and> published lib b' d m
         \<and> mf_parent m = Some p \<and> x = str_bytes p)"
  using assms(1) [unfolded advances_def, rule_format, OF assms(2)] unfolding assms(3) by auto

lemma commit_advances:
  assumes "git_laws lib" "bucket_ok lib b" "parent_ok lib b ps" "mf_parent m = pst_parent_digest ps"
    "published lib b d m" "commit_pointer lib env (repo_key lib repo) ps m (manifest_key d) later b = (b', r)"
  shows "bucket_ok lib b'" "keeps b b'" "advances lib b b'"
proof -
  define key where "key = repo_key lib repo"
  define precond where "precond = (case pst_if_match ps of Some e \<Rightarrow> IfMatch e | None \<Rightarrow> IfNoneMatchStar)"
  have start: "starts_with ''repos/'' key" by (simp add: key_def)
  obtain b1 r1 where put: "put_pointer lib (pe_pointer_fault env) key (str_bytes d) precond b = (b1, r1)" by fastforce
  have "digest_from_manifest_key (manifest_key d) = (Ok d :: cas_error + string)"
    by (simp add: digest_from_manifest_key_def)
  then have "b' = b1"
    using assms(6) put by (auto simp: commit_pointer_def Let_def key_def precond_def split: sum.splits cas_outcome.splits)
  note moved = move_pointer [OF assms(1,2,5) start put, folded \<open>b' = b1\<close>]
  show "bucket_ok lib b'" by (rule moved(1))
  show keep: "keeps b b'" by (rule moved(2))
  have child: "case object_at b key of None \<Rightarrow> mf_parent m = None
      | Some (_, x) \<Rightarrow> (\<exists>p. mf_parent m = Some p \<and> x = str_bytes p)" if holds: "precond_holds precond (object_at b key)"
  proof (cases "ps = fresh_parent")
    case True
    then show ?thesis using holds assms(4) by (simp add: precond_def fresh_parent_def)
  next
    case False
    then obtain n p mp where ps: "ps = parent_from_loaded (gl_etag lib n (str_bytes p)) p mp"
      using assms(3) by (auto simp: parent_ok_def)
    then have "precond = IfMatch (gl_etag lib n (str_bytes p))" by (simp add: precond_def parent_from_loaded_def)
    then obtain x where x: "object_at b key = Some (gl_etag lib n (str_bytes p), x)"
      using holds by (auto split: option.splits)
    then obtain n' where "gl_etag lib n (str_bytes p) = gl_etag lib n' x"
      using bucket_ok_etags [OF assms(2)] unfolding etags_ok_def by blast
    then have "x = str_bytes p" using assms(1) unfolding git_laws_def by metis
    then show ?thesis using x assms(4) ps by (simp add: parent_from_loaded_def)
  qed
  show "advances lib b b'"
    unfolding advances_def
  proof (intro allI impI)
    fix k assume k: "starts_with ''repos/'' k"
    show "object_at b' k = object_at b k
        \<or> (\<exists>e d m. object_at b' k = Some (e, str_bytes d) \<and> published lib b' d m
             \<and> (case object_at b k of None \<Rightarrow> mf_parent m = None
                | Some (_, x) \<Rightarrow> (\<exists>p. mf_parent m = Some p \<and> x = str_bytes p)))"
    proof (cases "k = key \<and> object_at b' k \<noteq> object_at b k")
      case True
      then obtain e where "precond_holds precond (object_at b key)" "object_at b' key = Some (e, str_bytes d)"
        using moved(5) by auto
      then show ?thesis using True child published_keeps [OF assms(5) keep] by blast
    next
      case False
      then show ?thesis using moved(4) by blast
    qed
  qed
qed

lemma empty_manifest_ok: "manifest_ok empty_manifest" "composed_ok b None empty_manifest"
  by (auto simp: manifest_ok_def empty_manifest_def composed_ok_def packs_stored_def sort_dedup_def
      MAX_MANIFEST_PACKS_def MAX_MANIFEST_REFS_def DEFAULT_HEAD_def is_safe_refname_def starts_with_def
      strip_suffix_def strip_prefix_def is_ascii_alphanumeric_def Let_def)

lemma seed_advances:
  assumes "git_laws lib" "bucket_ok lib b" "no_clash lib b empty_manifest"
    "seed_manifest_pointer lib env c owner name b = (b', r)"
  shows "bucket_ok lib b'" "keeps b b'" "advances lib b b'"
proof -
  have valid: "validate empty_manifest = Ok ()" using empty_manifest_ok by (simp add: validate_iff)
  have parent: "mf_parent empty_manifest = None" by (simp add: empty_manifest_def)
  obtain b1 r1 where put: "put_manifest lib (se_manifest env) (canonical_bytes lib empty_manifest) b = (b1, r1)" by fastforce
  have composed: "composed_ok b (mf_parent empty_manifest) empty_manifest"
    unfolding parent by (rule empty_manifest_ok)
  note stored = store_manifest [OF assms(1,2) empty_manifest_ok(1) composed _ assms(3) put, unfolded parent, simplified]
  have "bucket_ok lib b' \<and> keeps b b' \<and> advances lib b b'"
  proof (cases r1)
    case (Inl e)
    then have "b' = b1" using assms(4) valid put by (simp add: seed_manifest_pointer_def)
    then show ?thesis using stored(1,2,4) by (auto intro: grows_keeps advances_same)
  next
    case (Inr key)
    then obtain d where d: "key = manifest_key d" "published lib b1 d empty_manifest" using stored(3) by blast
    obtain b2 r2 where move: "put_pointer lib (se_pointer env) (pointer_key lib c owner name) (str_bytes d) IfNoneMatchStar b1 = (b2, r2)"
      by fastforce
    have "b' = b2"
      using assms(4) valid put Inr d(1) move
      by (auto simp: seed_manifest_pointer_def Let_def split: sum.splits cas_outcome.splits)
    note moved = move_pointer [OF assms(1) stored(1) d(2) pointer_key_prefix move, folded \<open>b' = b2\<close>]
    have keep: "keeps b b'" using grows_keeps [OF stored(2)] moved(2) unfolding keeps_def by blast
    have "advances lib b b'"
      unfolding advances_def
    proof (intro allI impI)
      fix k assume k: "starts_with ''repos/'' k"
      have same: "object_at b1 k = object_at b k" using stored(4) k by blast
      show "object_at b' k = object_at b k
        \<or> (\<exists>e d m. object_at b' k = Some (e, str_bytes d) \<and> published lib b' d m
             \<and> (case object_at b k of None \<Rightarrow> mf_parent m = None
                | Some (_, x) \<Rightarrow> (\<exists>p. mf_parent m = Some p \<and> x = str_bytes p)))"
      proof (cases "k = pointer_key lib c owner name \<and> object_at b' k \<noteq> object_at b1 k")
        case True
        then obtain e where "object_at b1 k = None" "object_at b' k = Some (e, str_bytes d)"
          using moved(5) by auto
        then show ?thesis using same parent published_keeps [OF d(2) moved(2)] by auto
      next
        case False
        then show ?thesis using moved(4) same by metis
      qed
    qed
    then show ?thesis using moved(1) keep by blast
  qed
  then show "bucket_ok lib b'" "keeps b b'" "advances lib b b'" by blast+
qed

section \<open>Steps and runs\<close>

lemma uploads_step:
  assumes "git_laws lib" "git_ok lib s" "uploads lib (gs_bucket s) b'"
  shows "git_ok lib (s\<lparr>gs_bucket := b'\<rparr>)" "keeps (gs_bucket s) b'" "advances lib (gs_bucket s) b'"
proof -
  show keep: "keeps (gs_bucket s) b'" using assms(3) by (simp add: uploads_def grows_keeps)
  have "bucket_ok lib (gs_bucket s)" using assms(2) by (simp add: git_ok_def)
  then show "git_ok lib (s\<lparr>gs_bucket := b'\<rparr>)"
    by (intro git_ok_bucket [OF assms(2)] bucket_ok_uploads [OF assms(1) _ assms(3)] keep)
  show "advances lib (gs_bucket s) b'"
    by (rule advances_same) (use assms(3) in \<open>auto simp: uploads_def dest: repos_other_prefix\<close>)
qed

lemma git_step_effect:
  assumes "git_laws lib" "git_step lib s s'" "git_ok lib s"
  shows "git_ok lib s' \<and> keeps (gs_bucket s) (gs_bucket s') \<and> advances lib (gs_bucket s) (gs_bucket s')"
  using assms(2,3)
proof (induction rule: git_step.induct)
  case (step_hydrate env c owner name s loaded)
  then have "parent_ok lib (gs_bucket s) (parent_of loaded)"
    using loaded_parent_ok [OF assms(1)] by (simp add: git_ok_def)
  then show ?case using step_hydrate by (auto simp: git_ok_def keeps_def intro: advances_same)
next
  case (step_upload f pack s b' r)
  then show ?case using uploads_step [OF assms(1) step_upload(2) put_pack_uploads] by simp
next
  case (step_sidecar s f d idx)
  then show ?case using uploads_step [OF assms(1) step_sidecar put_idx_uploads] by simp
next
  case (step_compose repo ps s env ws limits threshold b' r)
  then have ps: "parent_ok lib (gs_bucket s) ps" by (auto simp: git_ok_def)
  note effect = compose_manifest_effect [OF assms(1) step_compose(2) parent_ok_packs [OF ps]]
  note up = uploads_step [OF assms(1) step_compose(3) effect(1)]
  have "parent_ok lib b' ps" by (rule parent_ok_keeps [OF ps up(2)])
  then show ?case using up effect(2) by (cases r) (auto simp: git_ok_def)
next
  case (step_write repo ps m s env b' r)
  then have ps: "parent_ok lib (gs_bucket s) ps" "composed_ok (gs_bucket s) (pst_parent_digest ps) m"
    and ok: "bucket_ok lib (gs_bucket s)" by (auto simp: git_ok_def)
  have parent: "mf_parent m = pst_parent_digest ps" using ps(2) by (simp add: composed_ok_def)
  show ?case
  proof (cases "validate m")
    case (Inl e)
    then have "b' = gs_bucket s" "r = Err (ManifestInvalid e)" using step_write(3) by (auto simp: write_manifest_def)
    then show ?thesis using step_write(4) by (auto simp: keeps_def intro: advances_same)
  next
    case (Inr u)
    then have valid: "manifest_ok m" using validate_iff by simp
    obtain b1 r1 where put: "put_manifest lib (pe_manifest_fault env) (canonical_bytes lib m) (gs_bucket s) = (b1, r1)"
      by fastforce
    have b1: "b' = b1" "r = map_err CasBackend r1"
      using step_write(3) Inr put by (auto simp: write_manifest_def map_err_def split: sum.splits)
    have parents: "\<forall>p. mf_parent m = Some p \<longrightarrow> (\<exists>m'. published lib (gs_bucket s) p m')"
      using parent_ok_digest [OF ps(1)] parent by simp
    note stored = store_manifest [OF assms(1) ok valid _ parents step_write(2) put, unfolded parent, OF ps(2)]
    have keep: "keeps (gs_bucket s) b'" using stored(2) b1(1) grows_keeps by simp
    have "git_ok lib (s\<lparr>gs_bucket := b'\<rparr>)"
      using git_ok_bucket [OF step_write(4)] stored(1) b1(1) keep by simp
    moreover have "\<exists>d. key = manifest_key d \<and> published lib b' d m" if "r = Ok key" for key
      using stored(3) b1 that map_err_eq_Ok by metis
    ultimately have "git_ok lib (s\<lparr>gs_bucket := b',
        gs_written := (case r of Inl _ \<Rightarrow> gs_written s | Inr key \<Rightarrow> insert (repo, ps, m, key) (gs_written s))\<rparr>)"
      using parent parent_ok_keeps [OF ps(1) keep] by (cases r) (auto simp: git_ok_def)
    then show ?thesis using keep stored(4) b1(1) by (auto intro: advances_same)
  qed
next
  case (step_commit repo ps m key s env later b' r)
  then have w: "parent_ok lib (gs_bucket s) ps" "mf_parent m = pst_parent_digest ps"
      "\<exists>d. key = manifest_key d \<and> published lib (gs_bucket s) d m" and ok: "bucket_ok lib (gs_bucket s)"
    by (auto simp: git_ok_def)
  then obtain d where d: "key = manifest_key d" "published lib (gs_bucket s) d m" by blast
  note c = commit_advances [OF assms(1) ok w(1,2) d(2) step_commit(2) [unfolded d(1)]]
  show ?case using git_ok_bucket [OF step_commit(3) c(1,2)] c(2,3) by simp
next
  case (step_seed s env' c owner name b' r')
  then have ok: "bucket_ok lib (gs_bucket s)" by (simp add: git_ok_def)
  note c = seed_advances [OF assms(1) ok step_seed(1,2)]
  show ?case using git_ok_bucket [OF step_seed(3) c(1,2)] c(2,3) by simp
qed

lemma git_start_ok: "git_ok lib git_start"
  by (simp add: git_ok_def git_start_def bucket_ok_def empty_bucket_def etags_ok_def packs_ok_def parent_rel_def
      published_def acyclic_def)

lemma git_steps_ok: "(git_step lib)\<^sup>*\<^sup>* s s' \<Longrightarrow> git_laws lib \<Longrightarrow> git_ok lib s \<Longrightarrow> git_ok lib s'"
  by (induction rule: rtranclp_induct) (auto dest: git_step_effect)

lemma git_reachable_ok: "git_laws lib \<Longrightarrow> git_reachable lib s \<Longrightarrow> git_ok lib s"
  using git_steps_ok git_start_ok by (auto simp: git_reachable_def)

lemma git_steps_keep:
  "(git_step lib)\<^sup>*\<^sup>* s s' \<Longrightarrow> git_laws lib \<Longrightarrow> git_ok lib s \<Longrightarrow> keeps (gs_bucket s) (gs_bucket s')"
proof (induction rule: rtranclp_induct)
  case (step s1 s2)
  then have "git_ok lib s1" using git_steps_ok by blast
  then have "keeps (gs_bucket s1) (gs_bucket s2)" using git_step_effect step by blast
  then show ?case using step by (auto simp: keeps_def)
qed (simp add: keeps_def)

lemma parent_rel_mono: "keeps b b' \<Longrightarrow> parent_rel lib b \<subseteq> parent_rel lib b'"
  using published_keeps by (fastforce simp: parent_rel_def)

text \<open>The published digest of a repository.\<close>

definition head_of :: "git_lib \<Rightarrow> git_system \<Rightarrow> repo_name \<Rightarrow> string option" where
  "head_of lib s repo =
     (case object_at (gs_bucket s) (repo_key lib repo) of
        None \<Rightarrow> None
      | Some (_, body) \<Rightarrow> pointer_digest body)"

lemma head_of_Some:
  assumes "git_laws lib" "git_ok lib s" "head_of lib s repo = Some d"
  shows "\<exists>e m. object_at (gs_bucket s) (repo_key lib repo) = Some (e, str_bytes d) \<and> published lib (gs_bucket s) d m"
proof -
  obtain e body where obj: "object_at (gs_bucket s) (repo_key lib repo) = Some (e, body)" "pointer_digest body = Some d"
    using assms(3) by (auto simp: head_of_def split: option.splits)
  then obtain d0 m where d0: "body = str_bytes d0" "published lib (gs_bucket s) d0 m"
    using bucket_ok_pointer assms(2) repo_key_prefix unfolding git_ok_def by blast
  then have "d0 = d" using obj(2) pointer_digest_bytes [OF published_digest [OF assms(1) d0(2)]] by simp
  then show ?thesis using obj(1) d0 by auto
qed

lemma head_of_object:
  "git_laws lib \<Longrightarrow> published lib b d m \<Longrightarrow> object_at (gs_bucket s) (repo_key lib repo) = Some (e, str_bytes d)
   \<Longrightarrow> head_of lib s repo = Some d"
  by (simp add: head_of_def pointer_digest_bytes published_digest)

lemma step_descends:
  assumes "git_laws lib" "git_ok lib s" "git_step lib s s'" "head_of lib s repo = Some d"
  shows "\<exists>d'. head_of lib s' repo = Some d' \<and> (d, d') \<in> (parent_rel lib (gs_bucket s'))\<^sup>*"
proof -
  obtain e m where obj: "object_at (gs_bucket s) (repo_key lib repo) = Some (e, str_bytes d)"
    and pub: "published lib (gs_bucket s) d m" using head_of_Some [OF assms(1,2,4)] by blast
  have adv: "advances lib (gs_bucket s) (gs_bucket s')" using git_step_effect [OF assms(1,3,2)] by blast
  consider "object_at (gs_bucket s') (repo_key lib repo) = Some (e, str_bytes d)"
    | e' d' m' p where "object_at (gs_bucket s') (repo_key lib repo) = Some (e', str_bytes d')"
        "published lib (gs_bucket s') d' m'" "mf_parent m' = Some p" "str_bytes d = str_bytes p"
    using advancesD [OF adv repo_key_prefix obj] by blast
  then show ?thesis
  proof cases
    case 1
    then have "head_of lib s' repo = Some d" using head_of_object [OF assms(1) pub] obj by simp
    then show ?thesis by blast
  next
    case 2
    then have "(d, d') \<in> parent_rel lib (gs_bucket s')" by (auto simp: parent_rel_def)
    moreover have "head_of lib s' repo = Some d'" by (rule head_of_object [OF assms(1) 2(2,1)])
    ultimately show ?thesis by blast
  qed
qed

lemma steps_descend:
  assumes "(git_step lib)\<^sup>*\<^sup>* s s'" "git_laws lib" "git_ok lib s" "head_of lib s repo = Some d"
  shows "\<exists>d'. head_of lib s' repo = Some d' \<and> (d, d') \<in> (parent_rel lib (gs_bucket s'))\<^sup>*"
  using assms
proof (induction rule: rtranclp_induct)
  case (step s1 s2)
  then obtain d1 where d1: "head_of lib s1 repo = Some d1" "(d, d1) \<in> (parent_rel lib (gs_bucket s1))\<^sup>*" by blast
  have ok: "git_ok lib s1" using git_steps_ok step by blast
  then obtain d2 where d2: "head_of lib s2 repo = Some d2" "(d1, d2) \<in> (parent_rel lib (gs_bucket s2))\<^sup>*"
    using step_descends [OF step(4) _ step(2) d1(1)] by blast
  have "keeps (gs_bucket s1) (gs_bucket s2)" using git_step_effect [OF step(4) step(2) ok] by blast
  then have "(parent_rel lib (gs_bucket s1))\<^sup>* \<subseteq> (parent_rel lib (gs_bucket s2))\<^sup>*"
    by (intro rtrancl_mono parent_rel_mono)
  then have "(d, d1) \<in> (parent_rel lib (gs_bucket s2))\<^sup>*" using d1(2) by blast
  then show ?case using d2 by (meson rtrancl_trans)
qed blast

end
