(* ===== verification/GitLoadable.thy ===== *)
theory GitLoadable
  imports GitHistory
begin

text \<open>
  Two consequences of the invariant of \<open>GitHistory\<close> that the theorems on publication share: a push that is in
  flight loaded its parent within the read limit, so no stored manifest has a parent above it; and a push that
  nobody overtakes runs through to the pointer.
\<close>

section \<open>Parents were readable\<close>

text \<open>
  A push that is in flight loaded its parent, so the parent's manifest was within the read limit; hence
  no stored manifest has a parent above it.
\<close>

definition loadable :: "git_lib \<Rightarrow> parent_state \<Rightarrow> bool" where
  "loadable lib ps \<longleftrightarrow>
     (pst_parent_digest ps \<noteq> None \<longrightarrow> length (canonical_bytes lib (pst_parent ps)) \<le> MAX_MANIFEST_BYTES)"

definition links_loadable :: "git_lib \<Rightarrow> bucket \<Rightarrow> bool" where
  "links_loadable lib b \<longleftrightarrow>
     (\<forall>d m p m'. published lib b d m \<longrightarrow> mf_parent m = Some p \<longrightarrow> published lib b p m'
        \<longrightarrow> length (canonical_bytes lib m') \<le> MAX_MANIFEST_BYTES)"

definition git_loadable :: "git_lib \<Rightarrow> git_system \<Rightarrow> bool" where
  "git_loadable lib s \<longleftrightarrow>
     links_loadable lib (gs_bucket s)
     \<and> (\<forall>(repo, ps) \<in> gs_hydrated s. loadable lib ps)
     \<and> (\<forall>(repo, ps, m) \<in> gs_composed s. loadable lib ps)
     \<and> (\<forall>(repo, ps, m, key) \<in> gs_written s. loadable lib ps)"

lemma loaded_loadable:
  assumes "git_laws lib" "bucket_ok lib b" "load_pointer lib env c owner name b = Ok loaded"
  shows "loadable lib (parent_of loaded)"
proof (cases loaded)
  case None
  then show ?thesis by (simp add: loadable_def parent_of_def fresh_parent_def)
next
  case (Some p)
  obtain e d m where p: "p = (e, d, m)" by (cases p) auto
  obtain e' bs where obj: "object_at b (manifest_key d) = Some (e', bs)" "length bs \<le> MAX_MANIFEST_BYTES"
      "manifest_from_bytes lib bs = Ok m"
    using load_pointer_Some [of lib env c owner name b e d m] assms(3) Some p by auto
  obtain m0 where m0: "published lib b d m0" using bucket_ok_manifest [OF assms(2) obj(1)] by blast
  then have "bs = canonical_bytes lib m0" using published_object [OF m0] obj(1) by auto
  then show ?thesis
    using obj(2,3) published_decodes [OF assms(1) m0] Some p
    by (simp add: loadable_def parent_of_def parent_from_loaded_def)
qed

lemma links_loadable_cong:
  assumes "git_laws lib" "bucket_ok lib b" "keeps b b'"
    "\<And>d. object_at b' (manifest_key d) = object_at b (manifest_key d)" "links_loadable lib b"
  shows "links_loadable lib b'"
  using assms(5) unfolding links_loadable_def parent_rel_cong(1) [OF assms(1-4)] .

lemma links_loadable_uploads:
  assumes "git_laws lib" "bucket_ok lib b" "uploads lib b b'" "links_loadable lib b"
  shows "links_loadable lib b'"
  using assms(3) by (intro links_loadable_cong [OF assms(1,2) _ _ assms(4)]) (auto simp: uploads_def grows_keeps)

text \<open>Writing a manifest whose parent is loadable keeps the links loadable.\<close>

lemma links_loadable_store:
  assumes "git_laws lib" "bucket_ok lib b" "links_loadable lib b" "keeps b b'"
    "\<And>d' m'. published lib b' d' m' \<Longrightarrow> published lib b d' m' \<or> m' = m"
    "\<And>p. mf_parent m = Some p \<Longrightarrow>
       \<exists>mp. published lib b p mp \<and> length (canonical_bytes lib mp) \<le> MAX_MANIFEST_BYTES"
  shows "links_loadable lib b'"
  unfolding links_loadable_def
proof (intro allI impI)
  fix d m1 p m' assume a: "published lib b' d m1" "mf_parent m1 = Some p" "published lib b' p m'"
  have parent: "\<exists>mp. published lib b p mp \<and> length (canonical_bytes lib mp) \<le> MAX_MANIFEST_BYTES"
  proof (cases "m1 = m")
    case True
    then show ?thesis using assms(6) a(2) by blast
  next
    case False
    then have old: "published lib b d m1" using assms(5) [OF a(1)] by blast
    then obtain m0 where m0: "published lib b d m0" "\<forall>p. mf_parent m0 = Some p \<longrightarrow> (\<exists>m'. published lib b p m')"
      using bucket_ok_manifest [OF assms(2)] published_object [OF old] by blast
    have "m0 = m1" by (rule published_unique [OF assms(1) m0(1) old])
    then obtain mp where mp: "published lib b p mp" using m0(2) a(2) by blast
    have "length (canonical_bytes lib mp) \<le> MAX_MANIFEST_BYTES"
      using assms(3) old a(2) mp unfolding links_loadable_def by blast
    then show ?thesis using mp by blast
  qed
  then obtain mp where mp: "published lib b p mp" "length (canonical_bytes lib mp) \<le> MAX_MANIFEST_BYTES" by blast
  have "mp = m'" by (rule published_unique [OF assms(1) published_keeps [OF mp(1) assms(4)] a(3)])
  then show "length (canonical_bytes lib m') \<le> MAX_MANIFEST_BYTES" using mp(2) by simp
qed

lemma parent_ok_loadable:
  assumes "parent_ok lib b ps" "loadable lib ps" "pst_parent_digest ps = Some p"
  shows "\<exists>mp. published lib b p mp \<and> length (canonical_bytes lib mp) \<le> MAX_MANIFEST_BYTES"
  using assms unfolding parent_ok_def
  by (auto simp: fresh_parent_def parent_from_loaded_def loadable_def)

lemma commit_bucket:
  assumes "commit_pointer lib env pkey ps m (manifest_key d) later b = (b', r)"
  shows "b' = fst (put_pointer lib (pe_pointer_fault env) pkey (str_bytes d)
     (case pst_if_match ps of Some e \<Rightarrow> IfMatch e | None \<Rightarrow> IfNoneMatchStar) b)"
proof -
  have "digest_from_manifest_key (manifest_key d) = (Ok d :: cas_error + string)"
    by (simp add: digest_from_manifest_key_def)
  then show ?thesis
    using assms by (auto simp: commit_pointer_def Let_def split: sum.splits cas_outcome.splits prod.splits)
qed

lemma seed_links_loadable:
  assumes "git_laws lib" "bucket_ok lib b" "no_clash lib b empty_manifest"
    "seed_manifest_pointer lib env c owner name b = (b', r)" "links_loadable lib b"
  shows "links_loadable lib b'"
proof -
  have valid: "validate empty_manifest = Ok ()" using empty_manifest_ok by (simp add: validate_iff)
  have parent: "mf_parent empty_manifest = None" by (simp add: empty_manifest_def)
  obtain b1 r1 where put: "put_manifest lib (se_manifest env) (canonical_bytes lib empty_manifest) b = (b1, r1)" by fastforce
  have composed: "composed_ok b (mf_parent empty_manifest) empty_manifest"
    unfolding parent by (rule empty_manifest_ok)
  note stored = store_manifest [OF assms(1,2) empty_manifest_ok(1) composed _ assms(3) put, unfolded parent, simplified]
  have linked: "links_loadable lib b1"
    by (rule links_loadable_store [OF assms(1,2,5) grows_keeps [OF stored(2)] stored(5)]) (simp_all add: parent)
  show ?thesis
  proof (cases r1)
    case (Inl e)
    then show ?thesis using assms(4) valid put linked by (simp add: seed_manifest_pointer_def)
  next
    case (Inr key)
    then obtain d where d: "key = manifest_key d" "published lib b1 d empty_manifest" using stored(3) by blast
    obtain b2 r2 where move: "put_pointer lib (se_pointer env) (pointer_key lib c owner name) (str_bytes d) IfNoneMatchStar b1 = (b2, r2)"
      by fastforce
    have "b' = b2"
      using assms(4) valid put Inr d(1) move
      by (auto simp: seed_manifest_pointer_def Let_def split: sum.splits cas_outcome.splits)
    then show ?thesis
      using links_loadable_cong [OF assms(1) stored(1) _ _ linked] move_pointer(2,3) [OF assms(1) stored(1) d(2) pointer_key_prefix move]
      by blast
  qed
qed

lemma git_step_loadable:
  assumes "git_laws lib" "git_step lib s s'" "git_ok lib s" "git_loadable lib s"
  shows "git_loadable lib s'"
  using assms(2-4)
proof (induction rule: git_step.induct)
  case (step_hydrate env c owner name s loaded)
  then have "bucket_ok lib (gs_bucket s)" by (simp add: git_ok_def)
  then have "loadable lib (parent_of loaded)" using loaded_loadable [OF assms(1)] step_hydrate(1) by blast
  then show ?case using step_hydrate by (auto simp: git_loadable_def)
next
  case (step_upload f pack s b' r)
  then show ?case
    using links_loadable_uploads [OF assms(1) _ put_pack_uploads [OF step_upload(1)]]
    by (auto simp: git_loadable_def git_ok_def)
next
  case (step_sidecar s f d idx)
  then show ?case
    using links_loadable_uploads [OF assms(1) _ put_idx_uploads] by (auto simp: git_loadable_def git_ok_def)
next
  case (step_compose repo ps s env ws limits threshold b' r)
  then have ps: "parent_ok lib (gs_bucket s) ps" "loadable lib ps" and ok: "bucket_ok lib (gs_bucket s)"
    by (auto simp: git_ok_def git_loadable_def)
  note effect = compose_manifest_effect [OF assms(1) step_compose(2) parent_ok_packs [OF ps(1)]]
  have "links_loadable lib b'"
    using links_loadable_uploads [OF assms(1) ok effect(1)] step_compose(4) by (simp add: git_loadable_def)
  then show ?case using step_compose(4) ps(2) by (cases r) (auto simp: git_loadable_def)
next
  case (step_write repo ps m s env b' r)
  then have ps: "parent_ok lib (gs_bucket s) ps" "composed_ok (gs_bucket s) (pst_parent_digest ps) m" "loadable lib ps"
    and ok: "bucket_ok lib (gs_bucket s)" by (auto simp: git_ok_def git_loadable_def)
  have parent: "mf_parent m = pst_parent_digest ps" using ps(2) by (simp add: composed_ok_def)
  have "links_loadable lib b'"
  proof (cases "validate m")
    case (Inl e)
    then have "b' = gs_bucket s" using step_write(3) by (auto simp: write_manifest_def)
    then show ?thesis using step_write(5) by (simp add: git_loadable_def)
  next
    case (Inr u)
    then have valid: "manifest_ok m" using validate_iff by simp
    obtain b1 r1 where put: "put_manifest lib (pe_manifest_fault env) (canonical_bytes lib m) (gs_bucket s) = (b1, r1)"
      by fastforce
    have b1: "b' = b1" using step_write(3) Inr put by (auto simp: write_manifest_def split: sum.splits)
    have parents: "\<forall>p. mf_parent m = Some p \<longrightarrow> (\<exists>m'. published lib (gs_bucket s) p m')"
      using parent_ok_digest [OF ps(1)] parent by simp
    note stored = store_manifest [OF assms(1) ok valid _ parents step_write(2) put, unfolded parent, OF ps(2)]
    have linked: "links_loadable lib (gs_bucket s)" using step_write(5) by (simp add: git_loadable_def)
    have mp: "\<exists>mp. published lib (gs_bucket s) p mp \<and> length (canonical_bytes lib mp) \<le> MAX_MANIFEST_BYTES"
      if "mf_parent m = Some p" for p
      using parent_ok_loadable [OF ps(1,3)] that parent by simp
    show ?thesis
      unfolding b1 by (rule links_loadable_store [OF assms(1) ok linked grows_keeps [OF stored(2)] stored(5) mp])
  qed
  then show ?case using step_write(5) ps(3) by (cases r) (auto simp: git_loadable_def)
next
  case (step_commit repo ps m key s env later b' r)
  then have w: "parent_ok lib (gs_bucket s) ps" "mf_parent m = pst_parent_digest ps"
      "\<exists>d. key = manifest_key d \<and> published lib (gs_bucket s) d m" and ok: "bucket_ok lib (gs_bucket s)"
    by (auto simp: git_ok_def)
  then obtain d where d: "key = manifest_key d" "published lib (gs_bucket s) d m" by blast
  have put: "put_pointer lib (pe_pointer_fault env) (repo_key lib repo) (str_bytes d)
     (case pst_if_match ps of Some e \<Rightarrow> IfMatch e | None \<Rightarrow> IfNoneMatchStar) (gs_bucket s)
     = (b', snd (put_pointer lib (pe_pointer_fault env) (repo_key lib repo) (str_bytes d)
     (case pst_if_match ps of Some e \<Rightarrow> IfMatch e | None \<Rightarrow> IfNoneMatchStar) (gs_bucket s)))"
    using commit_bucket [OF step_commit(2) [unfolded d(1)]] by simp
  note moved = move_pointer [OF assms(1) ok d(2) repo_key_prefix put]
  have "links_loadable lib b'"
    using links_loadable_cong [OF assms(1) ok moved(2,3)] step_commit(4) by (simp add: git_loadable_def)
  then show ?case using step_commit(4) by (auto simp: git_loadable_def)
next
  case (step_seed s env' c owner name b' r')
  then have ok: "bucket_ok lib (gs_bucket s)" by (simp add: git_ok_def)
  have "links_loadable lib b'"
    by (rule seed_links_loadable [OF assms(1) ok step_seed(1,2)]) (use step_seed(4) in \<open>simp add: git_loadable_def\<close>)
  then show ?case using step_seed(4) by (auto simp: git_loadable_def)
qed

lemma git_reachable_loadable:
  assumes "git_laws lib" "git_reachable lib s" shows "git_loadable lib s"
  using assms(2) unfolding git_reachable_def
proof (induction rule: rtranclp_induct)
  case base
  then show ?case
    by (simp add: git_loadable_def git_start_def links_loadable_def published_def empty_bucket_def)
next
  case (step s1 s2)
  then have "git_ok lib s1" using git_reachable_ok [OF assms(1)] by (simp add: git_reachable_def)
  then show ?case using git_step_loadable [OF assms(1) step(2)] step(3) by blast
qed

lemma git_reachable_steps: "git_reachable lib s \<Longrightarrow> (git_step lib)\<^sup>*\<^sup>* s s' \<Longrightarrow> git_reachable lib s'"
  unfolding git_reachable_def by (rule rtranclp_trans)

section \<open>Readable state\<close>

lemma stored_pack_bodies:
  assumes "packs_ok lib b" "packs_stored b keys"
  shows "pack_bodies lib b keys (map (\<lambda>k. snd (the (object_at b k))) keys)"
proof -
  have "k = content_key lib ''packs'' (snd (the (object_at b k))) \<and> (\<exists>e. object_at b k = Some (e, snd (the (object_at b k))))"
    if "k \<in> set keys" for k
  proof -
    have k: "is_pack_key k" "object_at b k \<noteq> None" using that assms(2) by (simp_all add: packs_stored_def)
    then have "starts_with ''packs/'' k" by (auto simp: is_pack_key_def strip_prefix_def split: if_splits)
    moreover obtain e x where obj: "object_at b k = Some (e, x)" using k(2) by (cases "object_at b k") auto
    ultimately have "k = content_key lib ''packs'' x" using assms(1) unfolding packs_ok_def by blast
    then show ?thesis using obj by simp
  qed
  then show ?thesis by (simp add: pack_bodies_def list_all2_conv_all_nth)
qed

section \<open>An undisturbed push\<close>

definition quiet_publish :: "git_lib \<Rightarrow> publish_env \<Rightarrow> bool" where
  "quiet_publish lib env \<longleftrightarrow>
     pe_manifest_fault env = NoFault \<and> pe_pointer_fault env = NoFault
     \<and> (\<forall>n b. gl_header_value lib (gl_etag lib n b))"

lemma put_manifest_quiet: "snd (put_manifest lib NoFault bs b) = Ok (manifest_key (gl_sha lib bs))"
  by (auto simp: put_manifest_def put_immutable_def Let_def s3_put_def created_def content_key_manifest split: option.split)

lemma put_pointer_quiet:
  assumes "precond_holds precond (object_at b key)" "\<forall>n b. gl_header_value lib (gl_etag lib n b)"
    "\<And>tag. precond = IfMatch tag \<Longrightarrow> \<exists>n x. tag = gl_etag lib n x"
  shows "\<exists>b' e. put_pointer lib NoFault key body precond b = (b', Ok (Won e)) \<and> object_at b' key = Some (e, body)"
proof (cases precond)
  case IfNoneMatchStar
  then show ?thesis using assms(1)
    by (simp add: put_pointer_def s3_put_def classify_cas_def Let_def hget_update)
next
  case (IfMatch tag)
  then have "gl_header_value lib tag" using assms(2,3) by blast
  then show ?thesis using assms(1) IfMatch
    by (simp add: put_pointer_def s3_put_def classify_cas_def Let_def hget_update)
qed

lemma undisturbed_push_aux:
  assumes "git_laws lib" "git_reachable lib s" "quiet_publish lib env"
    "load_pointer lib henv c owner name (gs_bucket s) = Ok loaded"
    "compose_manifest lib env ws (parent_of loaded) limits threshold (gs_bucket s) = (b1, Ok m)"
    "manifest_ok m" "no_clash lib b1 m"
  shows "\<exists>s'. (git_step lib)\<^sup>*\<^sup>* s s'
    \<and> cas_publish_inner lib env ws c owner name (parent_of loaded) limits threshold later (gs_bucket s)
        = (gs_bucket s', Ok (m, manifest_key (gl_sha lib (canonical_bytes lib m))))
    \<and> head_of lib s' (c, owner, name) = Some (gl_sha lib (canonical_bytes lib m))
    \<and> published lib (gs_bucket s') (gl_sha lib (canonical_bytes lib m)) m
    \<and> (\<forall>d'. d' \<noteq> gl_sha lib (canonical_bytes lib m) \<longrightarrow>
          object_at (gs_bucket s') (manifest_key d') = object_at (gs_bucket s) (manifest_key d'))"
proof -
  let ?repo = "(c, owner, name)" and ?ps = "parent_of loaded" and ?b = "gs_bucket s"
  let ?pkey = "pointer_key lib c owner name"
  define d where "d = gl_sha lib (canonical_bytes lib m)"
  have pkey: "repo_key lib ?repo = ?pkey" by (simp add: repo_key_def)
  have ok: "git_ok lib s" by (rule git_reachable_ok [OF assms(1,2)])
  then have bok: "bucket_ok lib ?b" by (simp add: git_ok_def)
  have ps: "parent_ok lib ?b ?ps" by (rule loaded_parent_ok [OF assms(1) bok assms(4)])
  define s1 where "s1 = s\<lparr>gs_hydrated := insert (?repo, ?ps) (gs_hydrated s)\<rparr>"
  have st1: "git_step lib s s1" unfolding s1_def by (rule step_hydrate [OF assms(4)])
  define s2 where "s2 = s1\<lparr>gs_bucket := b1, gs_composed := insert (?repo, ?ps, m) (gs_composed s1)\<rparr>"
  have st2: "git_step lib s1 s2"
    using step_compose [of ?repo ?ps s1 lib env ws limits threshold b1 "Ok m"] assms(5)
    by (simp add: s1_def s2_def)
  obtain b2 where put: "put_manifest lib NoFault (canonical_bytes lib m) b1 = (b2, Ok (manifest_key d))"
    using put_manifest_quiet [of lib "canonical_bytes lib m" b1] by (metis d_def prod.collapse)
  have wrote: "write_manifest lib env m b1 = (b2, Ok (manifest_key d))"
    using put assms(3,6) by (simp add: write_manifest_def quiet_publish_def validate_iff [THEN iffD2])
  define s3 where "s3 = s2\<lparr>gs_bucket := b2, gs_written := insert (?repo, ?ps, m, manifest_key d) (gs_written s2)\<rparr>"
  have st3: "git_step lib s2 s3"
    using step_write [of ?repo ?ps m s2 lib env b2 "Ok (manifest_key d)"] assms(7) wrote
    by (simp add: s2_def s3_def)
  note effect = compose_manifest_effect [OF assms(1,5) parent_ok_packs [OF ps]]
  have up: "uploads lib ?b b1" by (rule effect(1))
  have b1ok: "bucket_ok lib b1" by (rule bucket_ok_uploads [OF assms(1) bok up])
  have comp: "composed_ok b1 (pst_parent_digest ?ps) m" using effect(2) by simp
  then have par: "mf_parent m = pst_parent_digest ?ps" by (simp add: composed_ok_def)
  have parents: "\<forall>p. mf_parent m = Some p \<longrightarrow> (\<exists>m'. published lib b1 p m')"
    using parent_ok_digest [OF ps] par published_keeps [OF _ grows_keeps [OF uploads_grows [OF up]]] by metis
  note stored = store_manifest [OF assms(1) b1ok assms(6) _ parents assms(7) put, unfolded par, OF comp]
  have pub: "published lib b2 d m" using stored(3) by simp
  have ptr: "object_at b2 ?pkey = object_at ?b ?pkey"
    using stored(4) [OF pointer_key_prefix] up repos_other_prefix [OF pointer_key_prefix]
    by (simp add: uploads_def)
  define precond where "precond = (case pst_if_match ?ps of Some e \<Rightarrow> IfMatch e | None \<Rightarrow> IfNoneMatchStar)"
  have tag: "\<exists>n x. tag = gl_etag lib n x" if "precond = IfMatch tag" for tag
    using ps that by (auto simp: parent_ok_def precond_def fresh_parent_def parent_from_loaded_def) blast
  have "precond_holds precond (object_at b2 ?pkey)"
  proof (cases loaded)
    case None
    then show ?thesis using load_pointer_None assms(4) ptr
      by (simp add: precond_def parent_of_def fresh_parent_def)
  next
    case (Some p)
    obtain e d0 m0 where p: "p = (e, d0, m0)" by (cases p) auto
    then show ?thesis using load_pointer_Some [of lib henv c owner name ?b e d0 m0] assms(4) ptr Some
      by (auto simp: precond_def parent_of_def parent_from_loaded_def)
  qed
  then obtain b3 e where move: "put_pointer lib NoFault ?pkey (str_bytes d) precond b2 = (b3, Ok (Won e))"
    and at: "object_at b3 ?pkey = Some (e, str_bytes d)"
    using put_pointer_quiet [of precond b2 ?pkey lib "str_bytes d"] assms(3) tag by (auto simp: quiet_publish_def)
  have commit: "commit_pointer lib env ?pkey ?ps m (manifest_key d) later b2 = (b3, Ok (m, manifest_key d))"
    using move assms(3)
    by (simp add: commit_pointer_def digest_from_manifest_key_def quiet_publish_def precond_def Let_def)
  define s4 where "s4 = s3\<lparr>gs_bucket := b3\<rparr>"
  have st4: "git_step lib s3 s4"
    using step_commit [of ?repo ?ps m "manifest_key d" s3 lib env later b3] commit pkey
    by (simp add: s3_def s4_def)
  note moved = move_pointer [OF assms(1) stored(1) pub pointer_key_prefix move]
  have pub3: "published lib b3 d m" by (rule published_keeps [OF pub moved(2)])
  have "head_of lib s4 ?repo = Some d"
    by (rule head_of_object [OF assms(1) pub3]) (simp add: s4_def pkey at)
  moreover have "object_at b3 (manifest_key d') = object_at ?b (manifest_key d')" if "d' \<noteq> d" for d'
  proof -
    have "object_at b2 (manifest_key d') = object_at b1 (manifest_key d')"
      using manifest_store.put_other [OF put] that by (simp add: content_key_manifest d_def [symmetric])
    then show ?thesis using moved(3) up by (simp add: uploads_def)
  qed
  moreover have "cas_publish_inner lib env ws c owner name ?ps limits threshold later ?b = (b3, Ok (m, manifest_key d))"
    using assms(5) wrote commit by (simp add: cas_publish_inner_def)
  moreover have "(git_step lib)\<^sup>*\<^sup>* s s4" using st1 st2 st3 st4 by (meson converse_rtranclp_into_rtranclp rtranclp.rtrancl_refl)
  ultimately show ?thesis using pub3 by (intro exI [of _ s4]) (simp add: s4_def d_def)
qed

end
