(* ===== verification/GitDemo.thy ===== *)
theory GitDemo
  imports GitLoadable PairingQr
begin

text \<open>
  A small instance of the parameters of the hosted-git model that satisfies \<open>git_laws\<close>, and a run on it: a first
  push with one branch, and a second push with two branches whose manifest is above the read limit.
\<close>

section \<open>A small instance\<close>

text \<open>
  Manifests are encoded reversibly, with a first byte that tells the kinds of manifest apart and that the
  digest reads; a manifest with more than one ref is padded above the read limit.
\<close>

fun put_str :: "string \<Rightarrow> bytes" where
  "put_str [] = [0]"
| "put_str (c # s) = 1 # of_char c # put_str s"

fun get_str :: "bytes \<Rightarrow> string \<times> bytes" where
  "get_str (x # c # r) =
     (if x = 0 then ([], c # r) else (case get_str r of (s, r') \<Rightarrow> (char_of (unat c) # s, r')))"
| "get_str [x] = ([], [])"
| "get_str [] = ([], [])"

definition put_list :: "string list \<Rightarrow> bytes" where
  "put_list xs = concat (map (\<lambda>s. 1 # put_str s) xs) @ [0]"

fun get_list :: "nat \<Rightarrow> bytes \<Rightarrow> string list \<times> bytes" where
  "get_list 0 bs = ([], bs)"
| "get_list (Suc n) [] = ([], [])"
| "get_list (Suc n) (x # r) =
     (if x = 0 then ([], r)
      else (case get_str r of (s, r1) \<Rightarrow> (case get_list n r1 of (ss, r2) \<Rightarrow> (s # ss, r2))))"

lemma get_put_str [simp]: "get_str (put_str s @ r) = (s, r)"
proof (induction s)
  case Nil
  then show ?case by (cases r) simp_all
qed simp

lemma get_put_list [simp]: "length xs < n \<Longrightarrow> get_list n (put_list xs @ r) = (xs, r)"
proof (induction xs arbitrary: n)
  case Nil
  then show ?case by (cases n) (simp_all add: put_list_def)
next
  case (Cons x xs)
  then obtain k where n: "n = Suc k" "length xs < k" by (cases n) auto
  have "put_list (x # xs) @ r = 1 # put_str x @ (put_list xs @ r)" by (simp add: put_list_def)
  then show ?case using Cons.IH [OF n(2)] n(1) by simp
qed

lemma length_put_list: "length xs < length (put_list xs)"
  by (induction xs) (auto simp: put_list_def)

definition demo_put :: "manifest \<Rightarrow> bytes" where
  "demo_put m =
     put_list [show_nat (unat (mf_version m)), mf_head m] @ put_list (case mf_parent m of None \<Rightarrow> [] | Some p \<Rightarrow> [p])
     @ put_list (mf_packs m) @ put_list (map fst (mf_refs m)) @ put_list (map snd (mf_refs m))"

definition demo_get :: "bytes \<Rightarrow> manifest" where
  "demo_get bs =
     (let n = length bs;
          (a, r1) = get_list n bs; (p, r2) = get_list n r1; (ks, r3) = get_list n r2;
          (names, r4) = get_list n r3; (oids, r5) = get_list n r4
      in \<lparr>mf_version = of_nat (read_digits (a ! 0)), mf_head = a ! 1, mf_refs = zip names oids, mf_packs = ks,
          mf_parent = (case p of [] \<Rightarrow> None | q # _ \<Rightarrow> Some q)\<rparr>)"

lemma demo_get_put: "demo_get (demo_put m @ r) = m"
proof -
  define n where "n = length (demo_put m @ r)"
  let ?a = "[show_nat (unat (mf_version m)), mf_head m]" and ?p = "case mf_parent m of None \<Rightarrow> [] | Some p \<Rightarrow> [p]"
  let ?f = "map fst (mf_refs m)" and ?s = "map snd (mf_refs m)"
  have len: "length ?a < n" "length ?p < n" "length (mf_packs m) < n" "length ?f < n" "length ?s < n"
    using length_put_list [of ?a] length_put_list [of ?p] length_put_list [of "mf_packs m"]
      length_put_list [of ?f] length_put_list [of ?s]
    by (simp_all add: n_def demo_put_def)
  have "get_list n (demo_put m @ r) = (?a, put_list ?p @ put_list (mf_packs m) @ put_list ?f @ put_list ?s @ r)"
    unfolding demo_put_def append_assoc by (rule get_put_list [OF len(1)])
  then have "demo_get (demo_put m @ r) =
      \<lparr>mf_version = of_nat (read_digits (?a ! 0)), mf_head = ?a ! 1, mf_refs = zip ?f ?s, mf_packs = mf_packs m,
       mf_parent = (case ?p of [] \<Rightarrow> None | q # _ \<Rightarrow> Some q)\<rparr>"
    using get_put_list [OF len(2)] get_put_list [OF len(3)] get_put_list [OF len(4)] get_put_list [OF len(5)]
    unfolding demo_get_def n_def [symmetric] Let_def by (simp only: prod.case)
  then show ?thesis by (simp add: zip_map_fst_snd split: option.split)
qed

definition demo_kind :: "manifest \<Rightarrow> 8 word" where
  "demo_kind m =
     (case mf_refs m of [] \<Rightarrow> 0 | [_] \<Rightarrow> (case mf_parent m of None \<Rightarrow> 1 | Some _ \<Rightarrow> 3) | _ \<Rightarrow> 2)"

definition demo_padding :: bytes where "demo_padding = replicate (MAX_MANIFEST_BYTES + 1) 0"

lemma length_demo_padding: "length demo_padding = MAX_MANIFEST_BYTES + 1"
  by (simp add: demo_padding_def)

definition demo_digest :: "nat \<Rightarrow> string" where
  "demo_digest n = replicate 64 (char_of (48 + n))"

definition demo_git :: git_lib where
  "demo_git =
     \<lparr>gl_sha = (\<lambda>bs. case bs of [] \<Rightarrow> demo_digest 9 | x # _ \<Rightarrow>
                 demo_digest (if x = 0 then 0 else if x = 1 then 1 else if x = 2 then 2 else 3)),
      gl_to_vec = (\<lambda>m. demo_kind m # demo_put m @ (if demo_kind m = 2 then demo_padding else [])),
      gl_from_slice = (\<lambda>bs. Some (demo_get (tl bs))),
      gl_uuid = (\<lambda>u. demo_hex (uuid_bytes u)),
      gl_etag = (\<lambda>_. demo_hex),
      gl_header_value = (\<lambda>_. True)\<rparr>"

lemma demo_digest_ok: "n < 10 \<Longrightarrow> is_manifest_digest (demo_digest n)"
  by (simp add: is_manifest_digest_def demo_digest_def lower_hex_def Let_def list_all_iff)

lemma demo_git_laws: "git_laws demo_git"
proof -
  have "inj (gl_uuid demo_git)"
  proof (rule injI)
    fix u v assume "gl_uuid demo_git u = gl_uuid demo_git v"
    then have "demo_unhex (demo_hex (uuid_bytes u)) = demo_unhex (demo_hex (uuid_bytes v))" by (simp add: demo_git_def)
    then show "u = v" by simp
  qed
  moreover have "CHR ''/'' \<notin> set (demo_hex b)" for b
    using demo_hex_lower [of b] by (auto simp: list_all_iff is_lowercase_hex_def is_digit_def)
  moreover have "b = b'" if "demo_hex b = demo_hex b'" for b b'
    using that demo_unhex_hex by metis
  moreover have "is_manifest_digest (gl_sha demo_git b)" for b
    by (auto simp: demo_git_def demo_digest_ok split: list.split)
  ultimately show ?thesis
    unfolding git_laws_def by (auto simp: demo_git_def demo_get_put)
qed

section \<open>Two pushes\<close>

definition demo_oid :: string where "demo_oid = replicate 40 (CHR ''a'')"

definition demo_line :: "string \<Rightarrow> string" where "demo_line name = name @ '' '' @ demo_oid"

text \<open>What a push leaves: the ref names, and the bytes of the new pack.\<close>

definition demo_ws :: "string list \<Rightarrow> bytes \<Rightarrow> workspace" where
  "demo_ws names pack =
     \<lparr>ws_for_each_ref = Some (str_bytes (concat (map (\<lambda>n. demo_line n @ [CHR 0x0A]) names))),
      ws_symbolic_ref = Some (Some ''refs/heads/main''), ws_pack_objects = \<lambda>_. Some pack, ws_index_pack = \<lambda>_. None,
      ws_count_objects = None, ws_compact = \<lambda>_. None\<rparr>"

definition demo_env :: publish_env where
  "demo_env =
     \<lparr>pe_permit = True, pe_uploads_in_time = None, pe_pack_fault = \<lambda>_. NoFault, pe_idx_fault = \<lambda>_. NoFault,
      pe_delta_fault = NoFault, pe_delta_idx_fault = NoFault, pe_manifest_fault = NoFault,
      pe_pointer_fault = NoFault, pe_winner_faults = (NoFault, NoFault)\<rparr>"

definition demo_limits :: publish_limits where
  "demo_limits = \<lparr>pl_parent_hydrated_bytes = 0, pl_max_pack_bytes = 10, pl_max_repo_bytes = 10\<rparr>"

definition demo_cenv :: cache_env where
  "demo_cenv =
     \<lparr>ce_present = False, ce_install_hit = False, ce_present_again = False, ce_install = True, ce_staging = True,
      ce_pack_faults = (NoFault, NoFault), ce_write = True, ce_idx_faults = (NoFault, NoFault), ce_idx_write = True,
      ce_verify_pack = \<lambda>_. True, ce_index_pack = Some 1, ce_final = None, ce_rename = True, ce_renamed = None,
      ce_held = \<lambda>_. False\<rparr>"

definition demo_henv :: hydrate_env where
  "demo_henv =
     \<lparr>he_init = True, he_pointer_fault = NoFault, he_manifest_faults = (NoFault, NoFault),
      he_cache = \<lambda>_. demo_cenv, he_write_ref = \<lambda>_. True, he_write_head = True\<rparr>"

lemma utf8_ascii:
  "list_all (\<lambda>c. (of_char c :: 8 word) < 0x80) s \<Longrightarrow> string_from_utf8 (str_bytes s) = Some s"
proof -
  have "valid_utf8 (str_bytes s)" if "list_all (\<lambda>c. (of_char c :: 8 word) < 0x80) s" for s
    using that by (induction s) (simp_all add: str_bytes_def)
  then show "list_all (\<lambda>c. (of_char c :: 8 word) < 0x80) s \<Longrightarrow> string_from_utf8 (str_bytes s) = Some s"
    by (simp add: string_from_utf8_def str_bytes_def comp_def)
qed

definition demo_main :: string where "demo_main = ''refs/heads/main''"
definition demo_dev :: string where "demo_dev = ''refs/heads/dev''"

lemma demo_ref_lines:
  "str_lines (demo_line demo_main @ [CHR 0x0A]) = [demo_line demo_main]"
  "str_lines (demo_line demo_main @ CHR 0x0A # demo_line demo_dev @ [CHR 0x0A]) = [demo_line demo_main, demo_line demo_dev]"
  by (simp_all add: demo_main_def demo_dev_def demo_line_def demo_oid_def str_lines_def Let_def numeral_eq_Suc strip_cr_def
      strip_suffix_def strip_prefix_def starts_with_def)

lemma demo_snapshot_refs:
  "snapshot_refs [demo_line demo_main] [] = Ok [(demo_main, demo_oid)]"
  "snapshot_refs [demo_line demo_main, demo_line demo_dev] [] = Ok [(demo_dev, demo_oid), (demo_main, demo_oid)]"
  by (simp_all add: demo_main_def demo_dev_def demo_line_def demo_oid_def split_once_def numeral_eq_Suc is_ascii_hexdigit_def
      MAX_MANIFEST_REFS_def)

lemma demo_line_utf8: "list_all (\<lambda>c. (of_char c :: 8 word) < 0x80) (demo_line demo_main)"
    "list_all (\<lambda>c. (of_char c :: 8 word) < 0x80) (demo_line demo_dev)"
  by (simp_all add: demo_main_def demo_dev_def demo_line_def demo_oid_def list_all_iff)

lemma demo_trim: "str_trim demo_main = demo_main"
  unfolding demo_main_def by code_simp

lemma demo_lengths: "length (demo_line demo_main) = 56" "length (demo_line demo_dev) = 55"
  by (simp_all add: demo_line_def demo_oid_def demo_main_def demo_dev_def)

lemma demo_bytes_length: "length (str_bytes s) = length s" by (simp add: str_bytes_def)

lemma demo_newline: "(of_char (CHR 0x0A) :: 8 word) < 0x80"
  by simp

lemma demo_snapshot:
  "snapshot_workspace_state (demo_ws [demo_main] p) = Ok ([(demo_main, demo_oid)], demo_main)"
  "snapshot_workspace_state (demo_ws [demo_main, demo_dev] p)
     = Ok ([(demo_dev, demo_oid), (demo_main, demo_oid)], demo_main)"
proof -
  let ?one = "demo_line demo_main @ [CHR 0x0A]"
  let ?two = "demo_line demo_main @ CHR 0x0A # demo_line demo_dev @ [CHR 0x0A]"
  have "string_from_utf8 (str_bytes ?one) = Some ?one" "string_from_utf8 (str_bytes ?two) = Some ?two"
    by (rule utf8_ascii, simp only: list_all_append demo_line_utf8 demo_newline list.pred_inject HOL.simp_thms)+
  moreover have "length (str_bytes ?one) \<le> MAX_REF_SNAPSHOT_BYTES" "length (str_bytes ?two) \<le> MAX_REF_SNAPSHOT_BYTES"
    by (simp_all add: demo_bytes_length demo_lengths MAX_REF_SNAPSHOT_BYTES_def)
  moreover have "demo_ws [demo_main] p = (demo_ws [] p)\<lparr>ws_for_each_ref := Some (str_bytes ?one)\<rparr>"
    "demo_ws [demo_main, demo_dev] p = (demo_ws [] p)\<lparr>ws_for_each_ref := Some (str_bytes ?two)\<rparr>"
    "ws_symbolic_ref (demo_ws [] p) = Some (Some demo_main)"
    by (simp_all add: demo_ws_def demo_main_def)
  ultimately show "snapshot_workspace_state (demo_ws [demo_main] p) = Ok ([(demo_main, demo_oid)], demo_main)"
    "snapshot_workspace_state (demo_ws [demo_main, demo_dev] p)
     = Ok ([(demo_dev, demo_oid), (demo_main, demo_oid)], demo_main)"
    by (simp_all add: snapshot_workspace_state_def demo_ref_lines demo_snapshot_refs demo_trim del: snapshot_refs.simps)
qed

definition demo_owner :: string where "demo_owner = replicate 64 (CHR ''a'')"

definition demo_repo :: repo_name where "demo_repo = (mk_uuid (replicate 16 0), demo_owner, ''r'')"

definition demo_m1 :: manifest where
  "demo_m1 = \<lparr>mf_version = MANIFEST_VERSION, mf_head = demo_main, mf_refs = [(demo_main, demo_oid)],
              mf_packs = [''packs/'' @ demo_digest 3], mf_parent = None\<rparr>"

definition demo_m2 :: manifest where
  "demo_m2 = \<lparr>mf_version = MANIFEST_VERSION, mf_head = demo_main, mf_refs = [(demo_dev, demo_oid), (demo_main, demo_oid)],
              mf_packs = [''packs/'' @ demo_digest 3], mf_parent = Some (demo_digest 1)\<rparr>"

lemma demo_head:
  "resolve_published_head [(demo_main, demo_oid)] demo_main h = demo_main"
  "resolve_published_head [(demo_dev, demo_oid), (demo_main, demo_oid)] demo_main h = demo_main"
  by (simp_all add: resolve_published_head_def demo_main_def starts_with_def)

lemma demo_names: "is_safe_refname demo_main" "is_safe_refname demo_dev" "is_hex_oid demo_oid"
  unfolding demo_main_def demo_dev_def
  by (code_simp, code_simp, simp add: demo_oid_def is_hex_oid_def list_all_iff is_ascii_hexdigit_def)

lemma demo_m1_ok: "manifest_ok demo_m1" and demo_m2_ok: "manifest_ok demo_m2"
  using demo_names is_pack_key_packs [OF demo_digest_ok [of 3]] demo_digest_ok [of 1]
  by (simp_all add: manifest_ok_def demo_m1_def demo_m2_def MAX_MANIFEST_PACKS_def MAX_MANIFEST_REFS_def)

lemma put_pack_quiet: "snd (put_pack lib NoFault bs b) = Ok (content_key lib ''packs'' bs)"
  by (auto simp: put_pack_def put_immutable_def Let_def s3_put_def created_def content_key_def split: option.split)

lemma demo_ws_sel [simp]: "ws_pack_objects (demo_ws names p) k = Some p" "ws_index_pack (demo_ws names p) q = None"
  by (simp_all add: demo_ws_def)

lemma demo_pack_key: "content_key demo_git ''packs'' [3] = ''packs/'' @ demo_digest 3"
  by (simp add: content_key_def demo_git_def)

lemma demo_compose1:
  "\<exists>b. compose_manifest demo_git demo_env (demo_ws [demo_main] [3]) fresh_parent demo_limits PACK_COMPACTION_THRESHOLD
     empty_bucket = (b, Ok demo_m1)"
proof -
  obtain b where put: "put_pack demo_git NoFault [3] empty_bucket = (b, Ok (''packs/'' @ demo_digest 3))"
    using put_pack_quiet [of demo_git "[3]" empty_bucket] unfolding demo_pack_key by (metis prod.collapse)
  have w: "write_idx_sidecar demo_git NoFault (demo_ws [demo_main] [3]) (''packs/'' @ demo_digest 3) [3] b = b"
    by (simp add: write_idx_sidecar_def split: sum.split)
  have "publish_delta demo_git demo_env (demo_ws [demo_main] [3]) fresh_parent demo_limits demo_main
      [(demo_main, demo_oid)] NotTried empty_bucket = (b, Ok demo_m1)"
    using put w by (simp add: publish_delta_def capture_pack_def fresh_parent_def demo_limits_def checked_add_u64_def
      MAX_MANIFEST_PACKS_def demo_env_def demo_m1_def compose_after_def sort_dedup_def)
  then show ?thesis
    by (simp add: compose_manifest_def demo_snapshot try_compaction_def should_compact_def fresh_parent_def demo_head
      PACK_COMPACTION_THRESHOLD_def MAX_MANIFEST_PACKS_def)
qed

lemma demo_compose2:
  "compose_manifest demo_git demo_env (demo_ws [demo_main, demo_dev] []) (parent_from_loaded e (demo_digest 1) demo_m1)
     demo_limits PACK_COMPACTION_THRESHOLD b = (b, Ok demo_m2)"
proof -
  have "publish_delta demo_git demo_env (demo_ws [demo_main, demo_dev] []) (parent_from_loaded e (demo_digest 1) demo_m1)
     demo_limits demo_main [(demo_dev, demo_oid), (demo_main, demo_oid)] NotTried b = (b, Ok demo_m2)"
    by (simp add: publish_delta_def capture_pack_def parent_from_loaded_def demo_m1_def demo_m2_def compose_after_def
      sort_dedup_def)
  then show ?thesis
    by (simp add: compose_manifest_def demo_snapshot try_compaction_def should_compact_def parent_from_loaded_def demo_head
      PACK_COMPACTION_THRESHOLD_def MAX_MANIFEST_PACKS_def demo_m1_def)
qed

lemma demo_sha:
  "gl_sha demo_git (canonical_bytes demo_git demo_m1) = demo_digest 1"
  "gl_sha demo_git (canonical_bytes demo_git demo_m2) = demo_digest 2"
  by (simp_all add: demo_git_def canonical_bytes_def demo_m1_def demo_m2_def demo_kind_def)

lemma length_put_str: "length (put_str s) = 2 * length s + 1" by (induction s) simp_all

lemma length_put_list_sum: "length (put_list xs) = sum_list (map (\<lambda>s. 2 * length s + 2) xs) + 1"
  by (induction xs) (simp_all add: put_list_def length_put_str)

lemma demo_sizes:
  "length (canonical_bytes demo_git demo_m1) \<le> MAX_MANIFEST_BYTES"
  "length (canonical_bytes demo_git demo_m2) > MAX_MANIFEST_BYTES"
proof -
  have "length (show_nat (unat MANIFEST_VERSION)) = 1" by (simp add: MANIFEST_VERSION_def show_nat.simps)
  then show "length (canonical_bytes demo_git demo_m1) \<le> MAX_MANIFEST_BYTES"
    by (simp add: demo_git_def canonical_bytes_def demo_m1_def demo_kind_def demo_put_def length_put_list_sum
        sort_dedup_def demo_main_def demo_oid_def demo_digest_def MAX_MANIFEST_BYTES_def)
qed (simp add: demo_git_def canonical_bytes_def demo_m2_def demo_kind_def length_demo_padding)

lemma demo_quiet: "quiet_publish demo_git demo_env"
  by (simp add: quiet_publish_def demo_env_def demo_git_def)

lemma demo_load1:
  assumes "head_of demo_git s demo_repo = Some (demo_digest 1)" "git_reachable demo_git s"
    "published demo_git (gs_bucket s) (demo_digest 1) demo_m1"
  shows "\<exists>e. load_pointer demo_git demo_henv (mk_uuid (replicate 16 0)) demo_owner ''r'' (gs_bucket s) = Ok (Some (e, demo_digest 1, demo_m1))"
  using head_of_Some [OF demo_git_laws git_reachable_ok [OF demo_git_laws assms(2)] assms(1)]
    load_published [OF demo_git_laws assms(3), of "mk_uuid (replicate 16 0)" demo_owner "''r''" _ demo_henv] demo_sizes(1)
  by (auto simp: demo_repo_def repo_key_def demo_henv_def)

lemma demo_start: "git_reachable demo_git git_start" by (simp add: git_reachable_def)

lemma demo_load0:
  "load_pointer demo_git demo_henv (mk_uuid (replicate 16 0)) demo_owner ''r'' (gs_bucket git_start) = Ok None"
  by (simp add: load_pointer_def get_pointer_def s3_get_def git_start_def empty_bucket_def demo_henv_def)

lemma demo_no_clash:
  assumes "compose_manifest demo_git demo_env (demo_ws [demo_main] [3]) fresh_parent demo_limits
      PACK_COMPACTION_THRESHOLD empty_bucket = (b, Ok demo_m1)"
  shows "no_clash demo_git b demo_m1"
proof -
  have "uploads demo_git empty_bucket b"
    by (rule compose_manifest_effect(1) [OF demo_git_laws assms]) (simp_all add: fresh_parent_def packs_stored_def)
  then show ?thesis by (simp add: no_clash_def uploads_def content_key_manifest empty_bucket_def)
qed

lemma demo_first_push_fresh:
  "\<exists>s. (git_step demo_git)\<^sup>*\<^sup>* git_start s \<and> git_reachable demo_git s
     \<and> head_of demo_git s demo_repo = Some (demo_digest 1) \<and> published demo_git (gs_bucket s) (demo_digest 1) demo_m1
     \<and> (\<forall>n. demo_digest n \<noteq> demo_digest 1 \<longrightarrow> object_at (gs_bucket s) (manifest_key (demo_digest n)) = None)"
proof -
  obtain b where compose: "compose_manifest demo_git demo_env (demo_ws [demo_main] [3]) fresh_parent demo_limits
      PACK_COMPACTION_THRESHOLD empty_bucket = (b, Ok demo_m1)" using demo_compose1 by blast
  from undisturbed_push_aux [OF demo_git_laws demo_start demo_quiet demo_load0 _ demo_m1_ok demo_no_clash [OF compose],
      of "demo_ws [demo_main] [3]" demo_limits PACK_COMPACTION_THRESHOLD id] compose
  obtain s where s: "(git_step demo_git)\<^sup>*\<^sup>* git_start s" "head_of demo_git s demo_repo = Some (demo_digest 1)"
      "published demo_git (gs_bucket s) (demo_digest 1) demo_m1"
      "\<forall>d'. d' \<noteq> demo_digest 1 \<longrightarrow> object_at (gs_bucket s) (manifest_key d') = object_at empty_bucket (manifest_key d')"
    by (auto simp: parent_of_def git_start_def demo_sha demo_repo_def)
  then show ?thesis by (auto simp: empty_bucket_def git_reachable_def)
qed

lemma demo_first_push:
  "\<exists>s. (git_step demo_git)\<^sup>*\<^sup>* git_start s \<and> git_reachable demo_git s
     \<and> head_of demo_git s demo_repo = Some (demo_digest 1) \<and> published demo_git (gs_bucket s) (demo_digest 1) demo_m1
     \<and> object_at (gs_bucket s) (manifest_key (demo_digest 2)) = None"
proof -
  have "demo_digest 2 \<noteq> demo_digest 1" by (simp add: demo_digest_def)
  then show ?thesis using demo_first_push_fresh by blast
qed

lemma demo_second_push:
  assumes "head_of demo_git s demo_repo = Some (demo_digest 1)" "git_reachable demo_git s"
    "published demo_git (gs_bucket s) (demo_digest 1) demo_m1" "object_at (gs_bucket s) (manifest_key (demo_digest 2)) = None"
  shows "\<exists>s'. (git_step demo_git)\<^sup>*\<^sup>* s s' \<and> head_of demo_git s' demo_repo = Some (demo_digest 2)
     \<and> published demo_git (gs_bucket s') (demo_digest 2) demo_m2"
proof -
  obtain e where load: "load_pointer demo_git demo_henv (mk_uuid (replicate 16 0)) demo_owner ''r'' (gs_bucket s)
      = Ok (Some (e, demo_digest 1, demo_m1))" using demo_load1 [OF assms(1-3)] by blast
  have "no_clash demo_git (gs_bucket s) demo_m2"
    using assms(4) by (simp add: no_clash_def content_key_manifest demo_sha)
  from undisturbed_push_aux [OF demo_git_laws assms(2) demo_quiet load _ demo_m2_ok this,
      of "demo_ws [demo_main, demo_dev] []" demo_limits PACK_COMPACTION_THRESHOLD id]
  show ?thesis by (auto simp: parent_of_def demo_compose2 demo_sha demo_repo_def simp del: One_nat_def)
qed

end
