(* ===== verification/GitPublication.thy ===== *)
theory GitPublication
  imports GitDemo
begin

text \<open>
  What concurrent publication guarantees: a published state stays in the history of its repository,
  histories do not fork, the published state can be read back, a push leaves every other repository
  alone; and one limit that the writer does not check: a manifest above \<open>MAX_MANIFEST_BYTES\<close> is published,
  and then neither readable nor replaceable. The witnesses run a first and a second push on a small
  instance of the parameters.
\<close>

section \<open>What publication guarantees\<close>

text \<open>
  C3 (A published state is never lost). Let a repository's pointer name manifest \<open>d\<close> in a state reached by
  any interleaving of pushes, uploads and announcements with any lost requests. In every later state the
  repository still has a pointer, and the manifest it names descends from \<open>d\<close> by parent links: no
  concurrent push, retry or re-announcement can overwrite a published state with one that was not based
  on it.
\<close>

theorem published_never_lost:
  assumes "git_laws lib" "git_reachable lib s" "(git_step lib)\<^sup>*\<^sup>* s s'" "head_of lib s repo = Some d"
  shows "\<exists>d'. head_of lib s' repo = Some d' \<and> (d, d') \<in> (parent_rel lib (gs_bucket s'))\<^sup>*"
  by (rule steps_descend [OF assms(3,1) git_reachable_ok [OF assms(1,2)] assms(4)])

theorem published_never_lost_witness:
  "\<exists>s s'. (git_step demo_git)\<^sup>*\<^sup>* git_start s \<and> (git_step demo_git)\<^sup>*\<^sup>* s s'
     \<and> head_of demo_git s demo_repo = Some (demo_digest 1) \<and> head_of demo_git s' demo_repo = Some (demo_digest 2)
     \<and> (demo_digest 1, demo_digest 2) \<in> (parent_rel demo_git (gs_bucket s'))\<^sup>*"
proof -
  obtain s where s: "(git_step demo_git)\<^sup>*\<^sup>* git_start s" "git_reachable demo_git s"
      "head_of demo_git s demo_repo = Some (demo_digest 1)" "published demo_git (gs_bucket s) (demo_digest 1) demo_m1"
      "object_at (gs_bucket s) (manifest_key (demo_digest 2)) = None" using demo_first_push by blast
  obtain s' where s': "(git_step demo_git)\<^sup>*\<^sup>* s s'" "head_of demo_git s' demo_repo = Some (demo_digest 2)"
    using demo_second_push [OF s(3,2,4,5)] by blast
  show ?thesis using published_never_lost [OF demo_git_laws s(2) s'(1) s(3)] s s' by auto
qed

text \<open>
  C4 (Histories do not fork). Two manifests that were published for one repository, at whatever times, and
  that name the same parent, are one manifest: of two pushes that ran against the same published state at
  most one is accepted. (Two first pushes, with no parent, included.)
\<close>

theorem histories_do_not_fork:
  assumes "git_laws lib" "git_reachable lib s" "(git_step lib)\<^sup>*\<^sup>* s s'"
    "head_of lib s repo = Some d" "head_of lib s' repo = Some d'"
    "published lib (gs_bucket s) d m" "published lib (gs_bucket s') d' m'" "mf_parent m = mf_parent m'"
  shows "d = d'"
proof (rule ccontr)
  assume neq: "d \<noteq> d'"
  let ?R = "parent_rel lib (gs_bucket s')"
  note ok = git_reachable_ok [OF assms(1,2)]
  have ok': "git_ok lib s'" using git_steps_ok [OF assms(3,1) ok] .
  have "(d, d') \<in> ?R\<^sup>*" using steps_descend [OF assms(3,1) ok assms(4)] assms(5) by auto
  then obtain p where p: "(d, p) \<in> ?R\<^sup>*" "(p, d') \<in> ?R" using neq by (meson rtranclE)
  then have parent: "mf_parent m' = Some p"
    using published_unique [OF assms(1,7)] by (auto simp: parent_rel_def)
  have "published lib (gs_bucket s') d m"
    by (rule published_keeps [OF assms(6) git_steps_keep [OF assms(3,1) ok]])
  then have "(p, d) \<in> ?R" using parent assms(8) by (auto simp: parent_rel_def)
  then have "(p, p) \<in> ?R\<^sup>+" using p(1) by (simp add: rtrancl_into_trancl2)
  moreover have "acyclic ?R" using ok' by (simp add: git_ok_def bucket_ok_def)
  ultimately show False by (simp add: acyclic_def)
qed

theorem histories_do_not_fork_witness:
  "\<exists>s. git_reachable demo_git s \<and> head_of demo_git s demo_repo = Some (demo_digest 1)
     \<and> (\<forall>d'. head_of demo_git s demo_repo = Some d' \<longrightarrow> demo_digest 1 = d')"
proof -
  obtain s where s: "git_reachable demo_git s" "head_of demo_git s demo_repo = Some (demo_digest 1)"
      "published demo_git (gs_bucket s) (demo_digest 1) demo_m1" using demo_first_push by blast
  have "demo_digest 1 = demo_digest 1"
    by (rule histories_do_not_fork [OF demo_git_laws s(1) rtranclp.rtrancl_refl s(2,2,3,3) refl])
  then show ?thesis using s by auto
qed

text \<open>
  C5 (What is published can be read). In every reachable state, for every repository with a pointer: the
  pointer names one stored manifest, which passes validation and whose packs are all stored under their
  digests; and unless a limit is exceeded, a read without faults returns a bare repository with exactly
  the manifest's refs, HEAD and packs.
\<close>

theorem published_state_readable:
  assumes "git_laws lib" "git_reachable lib s" "head_of lib s (c, owner, name) = Some d"
  shows "\<exists>m bodies. published lib (gs_bucket s) d m \<and> manifest_ok m
    \<and> pack_bodies lib (gs_bucket s) (mf_packs m) bodies
    \<and> (\<forall>env opts cs. calm_read opts env \<longrightarrow> length (canonical_bytes lib m) \<le> MAX_MANIFEST_BYTES
         \<longrightarrow> (\<forall>p \<in> set bodies. length p \<le> ho_max_pack_bytes opts)
         \<longrightarrow> sum_list (map length bodies) \<le> ho_max_repo_bytes opts \<longrightarrow> ho_max_repo_bytes opts < 2 ^ 64
         \<longrightarrow> snd (hydrate_for_read lib env opts c owner name (gs_bucket s) cs)
             = Ok (Some \<lparr>hr_packs = map (gl_sha lib) bodies, hr_refs = mf_refs m, hr_head = mf_head m,
                         hr_hydrated_bytes = sum_list (map length bodies)\<rparr>))"
proof -
  note ok = git_reachable_ok [OF assms(1,2)]
  obtain e m where obj: "object_at (gs_bucket s) (repo_key lib (c, owner, name)) = Some (e, str_bytes d)"
    and pub: "published lib (gs_bucket s) d m" using head_of_Some [OF assms(1) ok assms(3)] by blast
  have "packs_ok lib (gs_bucket s)" using ok by (simp add: git_ok_def bucket_ok_def)
  moreover have "packs_stored (gs_bucket s) (mf_packs m)" using pub by (simp add: published_def composed_ok_def)
  ultimately obtain bodies where bodies: "pack_bodies lib (gs_bucket s) (mf_packs m) bodies"
    using stored_pack_bodies by blast
  have key: "object_at (gs_bucket s) (pointer_key lib c owner name) = Some (e, str_bytes d)"
    using obj by (simp add: repo_key_def)
  show ?thesis
    using pub bodies read_published_aux [OF assms(1) pub _ key _ bodies]
    by (intro exI [of _ m] exI [of _ bodies]) (simp add: published_def)
qed

theorem published_state_readable_witness:
  "\<exists>s m bodies. git_reachable demo_git s \<and> head_of demo_git s demo_repo = Some (demo_digest 1)
     \<and> published demo_git (gs_bucket s) (demo_digest 1) m \<and> manifest_ok m
     \<and> pack_bodies demo_git (gs_bucket s) (mf_packs m) bodies"
proof -
  obtain s where s: "git_reachable demo_git s" "head_of demo_git s demo_repo = Some (demo_digest 1)"
    using demo_first_push by blast
  show ?thesis
    using published_state_readable [OF demo_git_laws s(1) s(2) [unfolded demo_repo_def]] s by blast
qed

text \<open>
  C6 (An oversized manifest locks its repository). The writer limits the packs and refs of a manifest and
  the size of git's ref listing, but not the size of the manifest's bytes; the reader accepts at most
  \<open>MAX_MANIFEST_BYTES\<close>. Once a manifest above that limit is published, no read of the pointer succeeds any
  more, under any faults, and no step of any push or announcement ever moves the pointer again.
\<close>

theorem oversized_state_is_final:
  assumes "git_laws lib" "git_reachable lib s" "head_of lib s (c, owner, name) = Some d"
    "published lib (gs_bucket s) d m" "length (canonical_bytes lib m) > MAX_MANIFEST_BYTES"
    "(git_step lib)\<^sup>*\<^sup>* s s'"
  shows "head_of lib s' (c, owner, name) = Some d \<and> load_pointer lib env c owner name (gs_bucket s') \<noteq> Ok r"
proof
  let ?R = "parent_rel lib (gs_bucket s')"
  note ok = git_reachable_ok [OF assms(1,2)]
  note reach' = git_reachable_steps [OF assms(2,6)]
  have ok': "bucket_ok lib (gs_bucket s')" using git_reachable_ok [OF assms(1) reach'] by (simp add: git_ok_def)
  have pub': "published lib (gs_bucket s') d m"
    by (rule published_keeps [OF assms(4) git_steps_keep [OF assms(6,1) ok]])
  have "links_loadable lib (gs_bucket s')" using git_reachable_loadable [OF assms(1) reach'] by (simp add: git_loadable_def)
  then have leaf: "(d, x) \<notin> ?R" for x
    using pub' assms(5) unfolding links_loadable_def parent_rel_def by fastforce
  obtain d' where d': "head_of lib s' (c, owner, name) = Some d'" "(d, d') \<in> ?R\<^sup>*"
    using steps_descend [OF assms(6,1) ok assms(3)] by blast
  have "d' = d" using d'(2) leaf by (blast elim: converse_rtranclE)
  then show head: "head_of lib s' (c, owner, name) = Some d" using d'(1) by simp
  then obtain e where obj: "object_at (gs_bucket s') (pointer_key lib c owner name) = Some (e, str_bytes d)"
    using head_of_Some [OF assms(1) git_reachable_ok [OF assms(1) reach'] head] by (auto simp: repo_key_def)
  show "load_pointer lib env c owner name (gs_bucket s') \<noteq> Ok r"
  proof
    assume load: "load_pointer lib env c owner name (gs_bucket s') = Ok r"
    show False
    proof (cases r)
      case None
      then show False using load_pointer_None load obj by fastforce
    next
      case (Some p)
      obtain e1 d1 m1 where p: "p = (e1, d1, m1)" by (cases p) auto
      obtain body e2 bs where l: "object_at (gs_bucket s') (pointer_key lib c owner name) = Some (e1, body)"
          "pointer_digest body = Some d1" "object_at (gs_bucket s') (manifest_key d1) = Some (e2, bs)"
          "length bs \<le> MAX_MANIFEST_BYTES"
        using load_pointer_Some [of lib env c owner name "gs_bucket s'" e1 d1 m1] load Some p by auto
      have "d1 = d" using l(1,2) obj pointer_digest_bytes [OF published_digest [OF assms(1) pub']] by simp
      then have "bs = canonical_bytes lib m" using published_object [OF pub'] l(3) by auto
      then show False using l(4) assms(5) by simp
    qed
  qed
qed

theorem oversized_state_is_final_witness:
  "\<exists>s. git_reachable demo_git s \<and> head_of demo_git s demo_repo = Some (demo_digest 2)
     \<and> load_pointer demo_git demo_henv (mk_uuid (replicate 16 0)) demo_owner ''r'' (gs_bucket s) \<noteq> Ok None"
proof -
  obtain s where s: "git_reachable demo_git s" "head_of demo_git s demo_repo = Some (demo_digest 1)"
      "published demo_git (gs_bucket s) (demo_digest 1) demo_m1"
      "object_at (gs_bucket s) (manifest_key (demo_digest 2)) = None" using demo_first_push by blast
  obtain s' where s': "(git_step demo_git)\<^sup>*\<^sup>* s s'" "head_of demo_git s' demo_repo = Some (demo_digest 2)"
      "published demo_git (gs_bucket s') (demo_digest 2) demo_m2" using demo_second_push [OF s(2,1,3,4)] by blast
  have reach: "git_reachable demo_git s'" by (rule git_reachable_steps [OF s(1) s'(1)])
  show ?thesis
    using oversized_state_is_final [OF demo_git_laws reach s'(2) [unfolded demo_repo_def] s'(3) demo_sizes(2)
      rtranclp.rtrancl_refl, of demo_henv None] reach s'(2) by blast
qed

text \<open>
  C7 (A composed push is published). Take a reachable state in which the pointer of the repository can be loaded,
  and a push on top of what was loaded that no other writer overtakes. If a manifest can be composed from its
  workspace (packs stored, limits kept), that manifest passes validation and its digest names no other content, and
  the manifest write and the pointer write meet no fault, then \<open>cas_publish\<close> reports success, the pointer names
  the manifest, and the manifest is stored. A push that cannot be composed or validated is refused before that.
\<close>

theorem undisturbed_push_wins:
  assumes "git_laws lib" "git_reachable lib s" "quiet_publish lib env"
    "load_pointer lib henv c owner name (gs_bucket s) = Ok loaded"
    "compose_manifest lib env ws (parent_of loaded) limits PACK_COMPACTION_THRESHOLD (gs_bucket s) = (b1, Ok m)"
    "manifest_ok m" "no_clash lib b1 m"
  shows "\<exists>s' d. (git_step lib)\<^sup>*\<^sup>* s s'
    \<and> cas_publish lib env ws c owner name (parent_of loaded) limits later (gs_bucket s)
        = (gs_bucket s', Ok (m, manifest_key d))
    \<and> head_of lib s' (c, owner, name) = Some d \<and> published lib (gs_bucket s') d m"
  using undisturbed_push_aux [OF assms, of later] unfolding cas_publish_def by blast

theorem undisturbed_push_wins_witness:
  "\<exists>s d. (git_step demo_git)\<^sup>*\<^sup>* git_start s
     \<and> cas_publish demo_git demo_env (demo_ws [demo_main] [3]) (mk_uuid (replicate 16 0)) demo_owner ''r'' fresh_parent
         demo_limits id empty_bucket = (gs_bucket s, Ok (demo_m1, manifest_key d))
     \<and> head_of demo_git s demo_repo = Some d"
proof -
  obtain b where compose: "compose_manifest demo_git demo_env (demo_ws [demo_main] [3]) fresh_parent demo_limits
      PACK_COMPACTION_THRESHOLD empty_bucket = (b, Ok demo_m1)" "no_clash demo_git b demo_m1"
    using demo_compose1 demo_no_clash by blast
  show ?thesis
    using undisturbed_push_wins [OF demo_git_laws demo_start demo_quiet demo_load0 _ demo_m1_ok compose(2), of
      "demo_ws [demo_main] [3]" demo_limits id] compose(1)
    by (auto simp: parent_of_def git_start_def demo_repo_def)
qed

end
