(* ===== verification/GitRegistry.thy ===== *)
theory GitRegistry
  imports GitDemo
begin

text \<open>
  What the announcement of a hosted repository guarantees, alone and next to others. Alone it is all or
  nothing and keeps the quota. Between the handler's database and object-store calls other announcements and
  pushes run, and three of its comments do not hold then: a rollback can remove the row under a sibling that
  was accepted, a re-announcement that races with the first push is refused, and two announcements at the
  quota both pass.
\<close>

section \<open>The registry\<close>

lemma reserve_free:
  "map_of names (c, r) = None \<Longrightarrow> reserve_repo_name reread c r o' names = (names @ [((c, r), o')], Reserved)"
  by (simp add: reserve_repo_name_def update_absent)

lemma release_reserved:
  "map_of names (c, r) = None \<Longrightarrow> release_repo_name c r o' (names @ [((c, r), o')]) = names"
proof -
  assume free: "map_of names (c, r) = None"
  then have "AList.delete (c, r) names = names" by (rule delete_absent)
  then show ?thesis using free by (simp add: release_repo_name_def map_add_def AList.delete_eq)
qed

lemma count_reserved:
  "count_repos_for_owner (names @ [((c, r), o')]) c' x =
     count_repos_for_owner names c' x + (if c' = c \<and> x = o' then 1 else 0)"
  by (simp add: count_repos_for_owner_def)

section \<open>The pointer\<close>

lemma seed_Ok_pointer:
  assumes "seed_manifest_pointer lib env c owner name b = (b', Ok ())"
  shows "object_at b' (pointer_key lib c owner name) \<noteq> None
    \<or> object_at (se_later env b') (pointer_key lib c owner name) \<noteq> None"
proof -
  have valid: "validate empty_manifest = Ok ()" using empty_manifest_ok by (simp add: validate_iff)
  let ?pkey = "pointer_key lib c owner name"
  obtain b1 r1 where put: "put_manifest lib (se_manifest env) (canonical_bytes lib empty_manifest) b = (b1, r1)" by fastforce
  then obtain key where key: "r1 = Ok key" using assms valid by (cases r1) (simp_all add: seed_manifest_pointer_def)
  then obtain d where d: "strip_prefix ''manifests/'' key = Some d"
    using assms valid put by (cases "strip_prefix ''manifests/'' key") (simp_all add: seed_manifest_pointer_def)
  obtain b2 r2 where move: "put_pointer lib (se_pointer env) ?pkey (str_bytes d) IfNoneMatchStar b1 = (b2, r2)" by fastforce
  show ?thesis
  proof (cases r2)
    case (Inl e)
    then show ?thesis using assms valid put key d move by (simp add: seed_manifest_pointer_def Let_def)
  next
    case (Inr out)
    show ?thesis
    proof (cases out)
      case (Won e)
      then have "b' = b2" using assms valid put key d move Inr by (simp add: seed_manifest_pointer_def Let_def)
      then show ?thesis using put_pointer_cases [OF move] Inr Won by auto
    next
      case LostRace
      then obtain p where "get_pointer (se_reread env) ?pkey (se_later env b') = Ok (Some p)"
        using assms valid put key d move Inr
        by (auto simp: seed_manifest_pointer_def Let_def split: sum.splits option.splits)
      then show ?thesis using get_pointer_Some [of "se_reread env" ?pkey "se_later env b'" "fst p" "snd p"] by simp
    qed
  qed
qed

lemma ensure_Ok_pointer:
  assumes "ensure_manifest_pointer lib env c owner name id b = (b', Ok ())" "se_later env = id"
  shows "object_at b' (pointer_key lib c owner name) \<noteq> None"
proof (cases "get_pointer (se_ensure env) (pointer_key lib c owner name) b")
  case (Inl e)
  then show ?thesis using assms by (simp add: ensure_manifest_pointer_def)
next
  case (Inr p)
  show ?thesis
  proof (cases p)
    case None
    then have "seed_manifest_pointer lib env c owner name b = (b', Ok ())"
      using assms Inr by (simp add: ensure_manifest_pointer_def)
    then show ?thesis using seed_Ok_pointer assms(2) by fastforce
  next
    case (Some q)
    then have "b' = b" using assms Inr by (simp add: ensure_manifest_pointer_def)
    then show ?thesis
      using get_pointer_Some [of "se_ensure env" "pointer_key lib c owner name" b "fst q" "snd q"] Inr Some by simp
  qed
qed

lemma seed_quiet:
  assumes "se_manifest env = NoFault" "se_pointer env = NoFault"
    "object_at b (pointer_key lib c owner name) = None"
  shows "snd (seed_manifest_pointer lib env c owner name b) = Ok ()"
proof -
  have valid: "validate empty_manifest = Ok ()" using empty_manifest_ok by (simp add: validate_iff)
  let ?pkey = "pointer_key lib c owner name" and ?d = "gl_sha lib (canonical_bytes lib empty_manifest)"
  obtain b1 where put: "put_manifest lib NoFault (canonical_bytes lib empty_manifest) b = (b1, Ok (manifest_key ?d))"
    using put_manifest_quiet [of lib "canonical_bytes lib empty_manifest" b] by (metis prod.collapse)
  have at: "object_at b1 ?pkey = None"
    using manifest_store.put_other [OF put, of ?pkey] assms(3) manifest_key_simps(3) pointer_key_prefix
    by (metis content_key_manifest)
  obtain b2 e where "put_pointer lib NoFault ?pkey (str_bytes ?d) IfNoneMatchStar b1 = (b2, Ok (Won e))"
    using at by (simp add: put_pointer_def s3_put_def classify_cas_def Let_def)
  moreover have "strip_prefix ''manifests/'' (manifest_key ?d) = Some ?d"
    by (simp add: manifest_key_def strip_prefix_def starts_with_def)
  ultimately show ?thesis using valid put assms(1,2) by (simp add: seed_manifest_pointer_def Let_def)
qed

text \<open>A quiet environment, and one whose manifest write is lost.\<close>

definition demo_seed :: "fault \<Rightarrow> seed_env" where
  "demo_seed f = \<lparr>se_manifest = f, se_pointer = NoFault, se_reread = NoFault, se_ensure = NoFault, se_later = id\<rparr>"

lemma demo_seeded:
  "\<exists>b. seed_manifest_pointer lib (demo_seed NoFault) c owner name empty_bucket = (b, Ok ())"
  "seed_manifest_pointer lib (demo_seed NotSent) c owner name b = (b, Err (SeedStore (StoreBackend TransportError)))"
  using seed_quiet [of "demo_seed NoFault" empty_bucket lib c owner name] empty_manifest_ok
  by (auto simp: demo_seed_def empty_bucket_def seed_manifest_pointer_def put_manifest_def put_immutable_def Let_def
      s3_put_def created_def validate_iff [THEN iffD2] prod_eq_iff)

abbreviation nil_community :: uuid where "nil_community \<equiv> mk_uuid (replicate 16 0)"

section \<open>One announcement alone\<close>

lemma peek_cases:
  assumes "announce_peek db limit names c r owner = Ok peeked"
  shows "peeked \<longleftrightarrow> map_of names (c, r) = Some owner" "\<not> peeked \<Longrightarrow> map_of names (c, r) = None"
    "\<not> peeked \<Longrightarrow> int (count_repos_for_owner names c owner) < limit"
  using assms by (auto simp: announce_peek_def repo_name_owner_def Let_def split: if_splits option.splits)

lemma handle_announcement_Ok_aux:
  assumes "handle_git_repo_announcement lib db env limit c d_tag owner names b = (names', b', Ok fresh)"
    "se_later env = id"
  shows "\<exists>r. d_tag = Some r \<and> validate_repo_id r
    \<and> (if fresh then map_of names (c, r) = None \<and> names' = names @ [((c, r), owner)]
           \<and> int (count_repos_for_owner names c owner) < limit
       else map_of names (c, r) = Some owner \<and> names' = names)
    \<and> object_at b' (pointer_key lib c owner r) \<noteq> None"
proof -
  obtain r where r: "d_tag = Some r" "validate_repo_id r"
    using assms(1) by (auto simp: handle_git_repo_announcement_def split: option.splits if_splits)
  then obtain peeked where peek: "announce_peek db limit names c r owner = Ok peeked"
    using assms(1) by (cases "announce_peek db limit names c r owner") (simp_all add: handle_git_repo_announcement_def)
  note facts = peek_cases [OF peek]
  obtain names1 r1 where claim: "announce_claim db id peeked c r owner names = (names1, r1)" by fastforce
  then obtain outcome where out: "r1 = Ok outcome"
    using assms(1) r peek by (cases r1) (simp_all add: handle_git_repo_announcement_def)
  have claimed: "if peeked then names1 = names \<and> outcome = AlreadyOwned
      else names1 = names @ [((c, r), owner)] \<and> outcome = Reserved"
    using claim out facts(2) by (auto simp: announce_claim_def reserve_free split: if_splits)
  obtain b1 res where point: "announce_pointer lib env outcome c r owner id b = (b1, res)" by fastforce
  then obtain names2 result where fin: "announce_finish db outcome res c r owner names1 = (names2, result)" by fastforce
  then have same: "names' = names2" "b' = b1" "result = Ok fresh"
    using assms(1) r peek claim out point by (simp_all add: handle_git_repo_announcement_def)
  then have res: "res = Ok ()" "names2 = names1" "fresh \<longleftrightarrow> outcome = Reserved"
    using fin by (auto simp: announce_finish_def split: sum.splits)
  have "object_at b' (pointer_key lib c owner r) \<noteq> None"
    using point res(1) same(2) seed_Ok_pointer [of lib env c owner r b b'] ensure_Ok_pointer [of lib env c owner r b b'] assms(2)
    by (auto simp: announce_pointer_def split: if_splits)
  then show ?thesis using r facts claimed res same by (cases peeked) auto
qed

lemma handle_announcement_Err_aux:
  assumes "handle_git_repo_announcement lib db env limit c d_tag owner names b = (names', b', Err e)" "db ReleaseName"
  shows "names' = names"
proof -
  consider "d_tag = None" | r where "d_tag = Some r" "\<not> validate_repo_id r"
    | r e' where "d_tag = Some r" "validate_repo_id r" "announce_peek db limit names c r owner = Err e'"
    | r peeked where "d_tag = Some r" "validate_repo_id r" "announce_peek db limit names c r owner = Ok peeked"
    by (metis not_None_eq sum.exhaust_sel sum.collapse)
  then show ?thesis
  proof cases
    case 4
    obtain names1 r1 where claim: "announce_claim db id peeked c r owner names = (names1, r1)" by fastforce
    show ?thesis
    proof (cases r1)
      case (Inl e')
      then have "names' = names1" using assms(1) 4 claim by (simp add: handle_git_repo_announcement_def)
      then show ?thesis using claim Inl peek_cases(2) [OF 4(3)]
        by (auto simp: announce_claim_def reserve_free split: if_splits)
    next
      case (Inr outcome)
      have claimed: "if peeked then names1 = names \<and> outcome = AlreadyOwned
          else map_of names (c, r) = None \<and> names1 = names @ [((c, r), owner)] \<and> outcome = Reserved"
        using claim Inr peek_cases(2) [OF 4(3)] by (auto simp: announce_claim_def reserve_free split: if_splits)
      obtain b1 res where point: "announce_pointer lib env outcome c r owner id b = (b1, res)" by fastforce
      then have "names' = fst (announce_finish db outcome res c r owner names1)" "snd (announce_finish db outcome res c r owner names1) = Err e"
        using assms(1) 4 claim Inr by (auto simp: handle_git_repo_announcement_def split: prod.splits)
      then show ?thesis using claimed assms(2) release_reserved
        by (auto simp: announce_finish_def split: sum.splits if_splits)
    qed
  qed (use assms(1) in \<open>auto simp: handle_git_repo_announcement_def\<close>)
qed

text \<open>
  An announcement is all or nothing. When no other process interferes, an accepted announcement leaves
  the name registered to the announcer and a pointer in the object store; the name is newly registered
  exactly when the initial state is to be emitted, and then it was free and the quota was not reached. A
  refused announcement leaves the registry as it was, unless the release itself fails.
\<close>

theorem announcement_all_or_nothing:
  assumes "handle_git_repo_announcement lib db env limit c d_tag owner names b = (names', b', result)"
    "se_later env = id"
  shows "case result of
      Inr fresh \<Rightarrow> \<exists>r. d_tag = Some r \<and> validate_repo_id r \<and> repo_name_owner names' c r = Some owner
        \<and> object_at b' (pointer_key lib c owner r) \<noteq> None
        \<and> (if fresh then repo_name_owner names c r = None \<and> names' = names @ [((c, r), owner)]
              \<and> int (count_repos_for_owner names' c owner) \<le> limit
           else names' = names)
    | Inl e \<Rightarrow> db ReleaseName \<longrightarrow> names' = names"
proof (cases result)
  case (Inl e)
  then show ?thesis using handle_announcement_Err_aux assms(1) by auto
next
  case (Inr fresh)
  then show ?thesis
    using handle_announcement_Ok_aux [of lib db env limit c d_tag owner names b names' b' fresh] assms
    by (cases fresh) (auto simp: repo_name_owner_def count_reserved map_add_def)
qed

theorem announcement_all_or_nothing_witness:
  "\<exists>names b. handle_git_repo_announcement demo_git (\<lambda>_. True) (demo_seed NoFault) 1 nil_community (Some ''r'') demo_owner []
      empty_bucket = (names, b, Ok True)
    \<and> repo_name_owner names nil_community ''r'' = Some demo_owner
    \<and> object_at b (pointer_key demo_git nil_community demo_owner ''r'') \<noteq> None"
proof -
  obtain b where b: "seed_manifest_pointer demo_git (demo_seed NoFault) nil_community demo_owner ''r'' empty_bucket = (b, Ok ())"
    using demo_seeded(1) by blast
  have "validate_repo_id ''r''" by code_simp
  then have run: "handle_git_repo_announcement demo_git (\<lambda>_. True) (demo_seed NoFault) 1 nil_community (Some ''r'') demo_owner []
      empty_bucket = ([((nil_community, ''r''), demo_owner)], b, Ok True)"
    using b by (simp add: handle_git_repo_announcement_def announce_peek_def repo_name_owner_def count_repos_for_owner_def
      announce_claim_def reserve_free announce_pointer_def announce_finish_def)
  show ?thesis using announcement_all_or_nothing [OF run] run by (auto simp: demo_seed_def)
qed

section \<open>Announcements next to others\<close>

text \<open>
  C14 (A rollback strands an accepted repository). Two announcements of one owner for one free name: the
  first reserves it; the second finds the row, treats it as its own and seeds the pointer; then the seed of
  the first fails, and it releases the row. The second was accepted and its pointer is there, yet the name
  is free, and any other owner below the quota reserves it too. The comment at the rollback calls releasing
  \<open>our own just-inserted row\<close> safe.
\<close>

theorem sibling_rollback_strands_name:
  assumes "repo_name_owner names c r = None" "int (count_repos_for_owner names c owner) < limit"
    "int (count_repos_for_owner names c other) < limit"
    "ensure_manifest_pointer lib env2 c owner r id b = (b1, Ok ())" "se_later env2 = id"
    "seed_manifest_pointer lib env1 c owner r b1 = (b2, Err e)" "\<forall>call. db call"
  shows "\<exists>names1.
    announce_peek db limit names c r owner = Ok False
    \<and> announce_claim db id False c r owner names = (names1, Ok Reserved)
    \<and> announce_peek db limit names1 c r owner = Ok True
    \<and> announce_claim db id True c r owner names1 = (names1, Ok AlreadyOwned)
    \<and> announce_pointer lib env2 AlreadyOwned c r owner id b = (b1, Ok ())
    \<and> announce_finish db AlreadyOwned (Ok ()) c r owner names1 = (names1, Ok False)
    \<and> object_at b1 (pointer_key lib c owner r) \<noteq> None
    \<and> announce_pointer lib env1 Reserved c r owner id b1 = (b2, Err e)
    \<and> announce_finish db Reserved (Err e) c r owner names1 = (names, Err (PointerFailed e))
    \<and> announce_peek db limit names c r other = Ok False
    \<and> announce_claim db id False c r other names = (names @ [((c, r), other)], Ok Reserved)"
proof -
  have free: "map_of names (c, r) = None" using assms(1) by (simp add: repo_name_owner_def)
  have "announce_peek db limit names c r x = Ok False" if "int (count_repos_for_owner names c x) < limit" for x
    using free assms(7) that by (simp add: announce_peek_def repo_name_owner_def)
  moreover have "announce_claim db id False c r x names = (names @ [((c, r), x)], Ok Reserved)" for x
    using assms(7) by (simp add: announce_claim_def reserve_free [OF free])
  moreover have "announce_peek db limit (names @ [((c, r), owner)]) c r owner = Ok True"
    using free assms(7) by (simp add: announce_peek_def repo_name_owner_def map_add_def)
  moreover have "announce_finish db Reserved (Err e) c r owner (names @ [((c, r), owner)]) = (names, Err (PointerFailed e))"
    using assms(7) by (simp add: announce_finish_def release_reserved [OF free])
  ultimately show ?thesis
    using assms(2-6) ensure_Ok_pointer [OF assms(4,5)]
    by (intro exI [of _ "names @ [((c, r), owner)]"]) (simp add: announce_claim_def announce_pointer_def announce_finish_def)
qed

theorem sibling_rollback_strands_name_witness:
  "\<exists>names1 b1.
    announce_claim (\<lambda>_. True) id False nil_community ''r'' demo_owner [] = (names1, Ok Reserved)
    \<and> announce_finish (\<lambda>_. True) AlreadyOwned (Ok ()) nil_community ''r'' demo_owner names1 = (names1, Ok False)
    \<and> object_at b1 (pointer_key demo_git nil_community demo_owner ''r'') \<noteq> None
    \<and> announce_finish (\<lambda>_. True) Reserved (Err (SeedStore (StoreBackend TransportError))) nil_community ''r'' demo_owner names1
        = ([], Err (PointerFailed (SeedStore (StoreBackend TransportError))))
    \<and> announce_claim (\<lambda>_. True) id False nil_community ''r'' ''p'' [] = ([((nil_community, ''r''), ''p'')], Ok Reserved)"
proof -
  obtain b1 where b1: "seed_manifest_pointer demo_git (demo_seed NoFault) nil_community demo_owner ''r'' empty_bucket = (b1, Ok ())"
    using demo_seeded(1) by blast
  then have "ensure_manifest_pointer demo_git (demo_seed NoFault) nil_community demo_owner ''r'' id empty_bucket = (b1, Ok ())"
    by (simp add: ensure_manifest_pointer_def get_pointer_def s3_get_def demo_seed_def empty_bucket_def)
  from sibling_rollback_strands_name [OF _ _ _ this _ demo_seeded(2), of "[]" 1 "''p''" "\<lambda>_. True"]
  show ?thesis by (auto simp: repo_name_owner_def count_repos_for_owner_def demo_seed_def)
qed

lemma seed_occupied:
  assumes "git_laws lib" "se_manifest env = NoFault" "se_pointer env = NoFault" "se_reread env = NoFault" "se_later env = id"
    "object_at b (pointer_key lib c owner name) = Some (etag, str_bytes d)" "is_manifest_digest d"
  shows "snd (seed_manifest_pointer lib env c owner name b) =
    (if d = gl_sha lib (canonical_bytes lib empty_manifest) then Ok () else Err (PointerOccupied d))"
proof -
  have valid: "validate empty_manifest = Ok ()" using empty_manifest_ok by (simp add: validate_iff)
  let ?pkey = "pointer_key lib c owner name" and ?d = "gl_sha lib (canonical_bytes lib empty_manifest)"
  obtain b1 where put: "put_manifest lib NoFault (canonical_bytes lib empty_manifest) b = (b1, Ok (manifest_key ?d))"
    using put_manifest_quiet [of lib "canonical_bytes lib empty_manifest" b] by (metis prod.collapse)
  have at: "object_at b1 ?pkey = Some (etag, str_bytes d)"
    using manifest_store.put_other [OF put, of ?pkey] assms(6) manifest_key_simps(3) pointer_key_prefix
    by (metis content_key_manifest)
  have move: "put_pointer lib NoFault ?pkey (str_bytes ?d) IfNoneMatchStar b1 = (b1, Ok LostRace)"
    using at by (simp add: put_pointer_def s3_put_def classify_cas_def)
  have strip: "strip_prefix ''manifests/'' (manifest_key ?d) = Some ?d"
    by (simp add: manifest_key_def strip_prefix_def starts_with_def)
  obtain s where s: "string_from_utf8 (str_bytes d) = Some s" "str_trim s = d"
    using pointer_digest_bytes [OF assms(7)] by (auto simp: pointer_digest_def Let_def split: option.splits if_splits)
  have reread: "get_pointer NoFault ?pkey b1 = Ok (Some (etag, str_bytes d))"
    using at by (simp add: get_pointer_def s3_get_def)
  show ?thesis
    using valid put move strip s reread assms(2-5) by (simp add: seed_manifest_pointer_def Let_def)
qed

text \<open>
  A re-announcement that races with the first push is refused. The owner announces again while the
  pointer is missing, and between the handler's read of the pointer and its seed a push publishes commits.
  Without any fault the re-announcement then fails with \<open>PointerOccupied\<close>; the comment on
  \<open>ensure_manifest_pointer\<close> says that this case is treated as an already present pointer. (When the other
  writer seeded the empty manifest, it does succeed.)
\<close>

theorem reannounce_race_rejected:
  assumes "git_laws lib" "object_at b (pointer_key lib c owner name) = None"
    "object_at (between b) (pointer_key lib c owner name) = Some (etag, str_bytes d)" "is_manifest_digest d"
    "se_ensure env = NoFault" "se_manifest env = NoFault" "se_pointer env = NoFault" "se_reread env = NoFault"
    "se_later env = id"
  shows "snd (announce_pointer lib env AlreadyOwned c name owner between b) =
    (if d = gl_sha lib (canonical_bytes lib empty_manifest) then Ok () else Err (PointerOccupied d))"
proof -
  have "get_pointer NoFault (pointer_key lib c owner name) b = Ok None"
    using assms(2) by (simp add: get_pointer_def s3_get_def)
  then show ?thesis
    using seed_occupied [OF assms(1,6-9,3,4)] assms(5) by (simp add: announce_pointer_def ensure_manifest_pointer_def)
qed

theorem reannounce_race_rejected_witness:
  "snd (announce_pointer demo_git (demo_seed NoFault) AlreadyOwned nil_community ''r'' demo_owner
      (\<lambda>_. \<lparr>bk_objects = [(pointer_key demo_git nil_community demo_owner ''r'', ''e'', str_bytes (demo_digest 1))], bk_writes = 1\<rparr>)
      empty_bucket) = Err (PointerOccupied (demo_digest 1))"
proof -
  have "gl_sha demo_git (canonical_bytes demo_git empty_manifest) = demo_digest 0"
    by (simp add: demo_git_def canonical_bytes_def empty_manifest_def demo_kind_def)
  then have "demo_digest 1 \<noteq> gl_sha demo_git (canonical_bytes demo_git empty_manifest)" by (simp add: demo_digest_def)
  then show ?thesis
    by (subst reannounce_race_rejected [OF demo_git_laws, where d = "demo_digest 1" and etag = "''e''"])
       (simp_all add: empty_bucket_def demo_seed_def demo_digest_ok)
qed

text \<open>
  The quota is counted before the name is reserved: with one repository left in the quota, two announcements
  of different names that count first both reserve, and the owner is one above the limit.
\<close>

lemma concurrent_quota_overrun:
  assumes "r \<noteq> r'" "repo_name_owner names c r = None" "repo_name_owner names c r' = None"
    "int (count_repos_for_owner names c owner) + 1 = limit" "\<forall>call. db call"
  shows "\<exists>names1 names2.
    announce_peek db limit names c r owner = Ok False \<and> announce_peek db limit names c r' owner = Ok False
    \<and> announce_claim db id False c r owner names = (names1, Ok Reserved)
    \<and> announce_claim db id False c r' owner names1 = (names2, Ok Reserved)
    \<and> int (count_repos_for_owner names2 c owner) = limit + 1"
proof -
  have free: "map_of names (c, r) = None" "map_of (names @ [((c, r), owner)]) (c, r') = None"
    using assms(1-3) by (simp_all add: repo_name_owner_def map_add_def)
  then show ?thesis
    using assms reserve_free [OF free(1)] reserve_free [OF free(2)]
    by (intro exI) (auto simp: announce_peek_def announce_claim_def repo_name_owner_def count_repos_for_owner_def)
qed

end
