(* ===== verification/GitPolicy.thy ===== *)
theory GitPolicy
  imports GitWire GitPerms WsAuth "HOL-Library.Multiset"
begin

text \<open>
  Authorization of a push: the pre-receive hook that the relay installs in the workspace
  (\<open>crates/buzz-relay/src/api/git/hook.rs\<close>) sends the ref updates, signed, to the relay's internal policy
  endpoint (\<open>policy.rs\<close>), which resolves the repository's protection rules and the pusher's role and asks
  \<open>evaluate_push\<close> (\<open>GitPerms\<close>). Public keys are their lower-case hex text. The tables the endpoint reads
  are \<open>policy_tables\<close>; \<open>fails\<close> says which query fails. Parameters (\<open>policy_lib\<close>): HMAC-SHA256 and the parser
  of UUIDs.

  The lemmas say what the signed text determines, that the hook's signature verifies, and exactly when the
  endpoint allows a push.
\<close>

section \<open>Hexadecimal\<close>

definition hex_of_bytes :: "bytes \<Rightarrow> string" where
  "hex_of_bytes bs = concat (map (\<lambda>b. [hex_digit (unat b div 16), hex_digit (unat b mod 16)]) bs)"

text \<open>\<open>hex::decode\<close>\<close>

fun hex_decode :: "string \<Rightarrow> bytes option" where
  "hex_decode [] = Some []"
| "hex_decode [_] = None"
| "hex_decode (a # b # s) =
     (case (hex_val a, hex_val b) of
        (Some x, Some y) \<Rightarrow> map_option (\<lambda>bs. of_nat (16 * x + y) # bs) (hex_decode s)
      | _ \<Rightarrow> None)"

section \<open>The callback\<close>

record hook_ref_update =
  hu_old_oid :: string
  hu_new_oid :: string
  hu_ref_name :: string
  hu_is_ancestor :: bool

record hook_request =
  hq_repo_id :: string
  hq_repo_owner :: string
  hq_community_id :: string
  hq_pusher_pubkey :: string
  hq_ref_updates :: "hook_ref_update list"
  hq_timestamp :: nat
  hq_signature :: string

record policy_lib =
  gp_hmac :: "bytes \<Rightarrow> bytes \<Rightarrow> bytes"
  gp_parse_uuid :: "string \<Rightarrow> uuid option"

definition MAX_CALLBACK_AGE_SECS :: nat where "MAX_CALLBACK_AGE_SECS = 30"

definition bit_char :: "bool \<Rightarrow> char" where "bit_char b = (if b then CHR ''1'' else CHR ''0'')"

definition hmac_ref :: "hook_ref_update \<Rightarrow> string" where
  "hmac_ref r =
     hu_old_oid r @ hu_new_oid r @ show_nat (length (hu_ref_name r)) @ '':'' @ hu_ref_name r @ [bit_char (hu_is_ancestor r)]"

definition hmac_text :: "hook_request \<Rightarrow> string" where
  "hmac_text req =
     show_nat (length (hq_repo_id req)) @ '':'' @ hq_repo_id req @ ''|'' @ hq_repo_owner req @ ''|''
     @ hq_community_id req @ ''|'' @ hq_pusher_pubkey req @ ''|''
     @ concat (map hmac_ref (sort_key hu_ref_name (hq_ref_updates req))) @ ''|'' @ show_nat (hq_timestamp req)"

definition compute_hmac :: "policy_lib \<Rightarrow> bytes \<Rightarrow> hook_request \<Rightarrow> bytes" where
  "compute_hmac lib secret req = gp_hmac lib secret (str_bytes (hmac_text req))"

definition verify_hmac :: "policy_lib \<Rightarrow> bytes \<Rightarrow> hook_request \<Rightarrow> bool" where
  "verify_hmac lib secret req =
     (case hex_decode (hq_signature req) of
        None \<Rightarrow> False
      | Some provided \<Rightarrow> compute_hmac lib secret req = provided)"

section \<open>The hook script\<close>

text \<open>
  What the relay sets in the hook's environment, the commands git writes to its standard input, and
  \<open>git merge-base --is-ancestor\<close>. The script writes one line per update, sorts the lines by their bytes and
  signs the fields it reads back from them.
\<close>

record hook_env =
  hk_repo_id :: string
  hk_repo_owner :: string
  hk_community_id :: string
  hk_pusher_pubkey :: string
  hk_secret :: bytes

definition hook_update :: "(string \<Rightarrow> string \<Rightarrow> bool) \<Rightarrow> string \<times> string \<times> string \<Rightarrow> hook_ref_update" where
  "hook_update merge_base cmd =
     (case cmd of (old_oid, new_oid, ref_name) \<Rightarrow>
        \<lparr>hu_old_oid = old_oid, hu_new_oid = new_oid, hu_ref_name = ref_name,
         hu_is_ancestor = (old_oid \<noteq> ZERO_OID \<and> new_oid \<noteq> ZERO_OID \<and> merge_base old_oid new_oid)\<rparr>)"

definition hook_line :: "hook_ref_update \<Rightarrow> string" where
  "hook_line r = hu_ref_name r @ '' '' @ hu_old_oid r @ '' '' @ hu_new_oid r @ '' '' @ [bit_char (hu_is_ancestor r)]"

definition hook_text :: "hook_env \<Rightarrow> hook_ref_update list \<Rightarrow> nat \<Rightarrow> string" where
  "hook_text env updates timestamp =
     show_nat (length (hk_repo_id env)) @ '':'' @ hk_repo_id env @ ''|'' @ hk_repo_owner env @ ''|''
     @ hk_community_id env @ ''|'' @ hk_pusher_pubkey env @ ''|''
     @ concat (map hmac_ref (sort_key hook_line updates)) @ ''|'' @ show_nat timestamp"

definition hook_callback ::
  "policy_lib \<Rightarrow> hook_env \<Rightarrow> (string \<Rightarrow> string \<Rightarrow> bool) \<Rightarrow> (string \<times> string \<times> string) list \<Rightarrow> nat \<Rightarrow> hook_request" where
  "hook_callback lib env merge_base cmds timestamp =
     (let updates = map (hook_update merge_base) cmds
      in \<lparr>hq_repo_id = hk_repo_id env, hq_repo_owner = hk_repo_owner env, hq_community_id = hk_community_id env,
          hq_pusher_pubkey = hk_pusher_pubkey env, hq_ref_updates = updates, hq_timestamp = timestamp,
          hq_signature = hex_of_bytes (gp_hmac lib (hk_secret env) (str_bytes (hook_text env updates timestamp)))\<rparr>)"

section \<open>The tables\<close>

text \<open>Announced repositories (events), channels and their members.\<close>

record repo_event =
  re_community :: uuid
  re_id :: string
  re_pubkey :: string
  re_kind :: nat
  re_d_tag :: string
  re_created_at :: nat
  re_channel :: "uuid option"
  re_deleted :: bool
  re_tags :: "string list list"

record channel_row =
  cr_deleted :: bool
  cr_archived :: bool

record member_row =
  mr_role :: string
  mr_removed :: bool

record policy_tables =
  pt_events :: "repo_event list"
  pt_channels :: "(uuid \<times> uuid, channel_row) hmap"
  pt_channel_members :: "(uuid \<times> uuid \<times> string, member_row) hmap"

datatype policy_call = QueryEvents | GetChannel | IsAgentOwner | GetMemberRole

text \<open>
  \<open>query_events\<close> for the kind, author and identifier of a repository outside channels: newest first, then by
  id, at most one.
\<close>

definition query_repo_events :: "policy_tables \<Rightarrow> uuid \<Rightarrow> string \<Rightarrow> string \<Rightarrow> repo_event list" where
  "query_repo_events t community owner d_tag =
     take 1 (sort_key (\<lambda>e. - int (re_created_at e)) (sort_key re_id
       (filter (\<lambda>e. re_community e = community \<and> \<not> re_deleted e \<and> re_channel e = None \<and> re_kind e = 30617
                  \<and> re_pubkey e = owner \<and> re_d_tag e = d_tag) (pt_events t))))"

definition get_channel :: "policy_tables \<Rightarrow> uuid \<Rightarrow> uuid \<Rightarrow> channel_row option" where
  "get_channel t community channel =
     (case map_of (pt_channels t) (community, channel) of
        None \<Rightarrow> None | Some c \<Rightarrow> if cr_deleted c then None else Some c)"

definition get_member_role :: "policy_tables \<Rightarrow> uuid \<Rightarrow> uuid \<Rightarrow> string \<Rightarrow> string option" where
  "get_member_role t community channel pubkey =
     (case map_of (pt_channel_members t) (community, channel, pubkey) of
        None \<Rightarrow> None
      | Some m \<Rightarrow> if mr_removed m \<or> get_channel t community channel = None then None else Some (mr_role m))"

section \<open>The endpoint\<close>

datatype policy_reply =
    PolicyAllowed
  | PolicyForbidden string
  | PolicyDenied "denial list"

definition lower_hex_key :: "string \<Rightarrow> bool" where
  "lower_hex_key s \<longleftrightarrow> length s = 64 \<and> list_all lower_hex s"

fun check_ref_updates :: "hook_ref_update list \<Rightarrow> string + unit" where
  "check_ref_updates [] = Ok ()"
| "check_ref_updates (r # rs) =
     (if length (hu_old_oid r) \<noteq> 40 \<or> \<not> list_all is_ascii_hexdigit (hu_old_oid r) then Err ''invalid old_oid''
      else if length (hu_new_oid r) \<noteq> 40 \<or> \<not> list_all is_ascii_hexdigit (hu_new_oid r) then Err ''invalid new_oid''
      else if hu_ref_name r = [] \<or> length (hu_ref_name r) > 256 \<or> \<not> starts_with ''refs/'' (hu_ref_name r)
              \<or> has_infix ''..'' (hu_ref_name r)
              \<or> list_ex (\<lambda>c. (of_char c :: nat) \<le> 0x20 \<or> (of_char c :: nat) = 0x7f) (hu_ref_name r)
           then Err ''invalid ref_name''
      else check_ref_updates rs)"

text \<open>Step 1, the structural checks: the parsed community.\<close>

definition check_request :: "policy_lib \<Rightarrow> hook_request \<Rightarrow> string + uuid" where
  "check_request lib req =
     (if hq_repo_id req = [] \<or> length (hq_repo_id req) > 64 then Err ''invalid repo_id''
      else if \<not> lower_hex_key (hq_repo_owner req) then Err ''invalid repo_owner''
      else if \<not> lower_hex_key (hq_pusher_pubkey req) then Err ''invalid pusher_pubkey''
      else case gp_parse_uuid lib (hq_community_id req) of
          None \<Rightarrow> Err ''invalid community_id''
        | Some community \<Rightarrow>
            if hq_ref_updates req = [] \<or> length (hq_ref_updates req) > 500 then Err ''invalid ref_updates count''
            else and_then (check_ref_updates (hq_ref_updates req)) (\<lambda>_. Ok community))"

text \<open>Step 3; the subtractions on \<open>u64\<close> saturate.\<close>

definition check_age :: "nat \<Rightarrow> hook_request \<Rightarrow> string + unit" where
  "check_age now req =
     (if now - hq_timestamp req > MAX_CALLBACK_AGE_SECS then Err ''callback expired''
      else if hq_timestamp req - now > 5 then Err ''callback timestamp invalid''
      else Ok ())"

definition channel_tag :: "policy_lib \<Rightarrow> string list list \<Rightarrow> uuid option" where
  "channel_tag lib tags =
     (case find (\<lambda>t. t \<noteq> [] \<and> hd t = ''buzz-channel'') tags of
        None \<Rightarrow> None
      | Some t \<Rightarrow> if length t \<le> 1 then None else gp_parse_uuid lib (t ! 1))"

text \<open>Step 7, the pusher's role.\<close>

definition pusher_role ::
  "(policy_call \<Rightarrow> bool) \<Rightarrow> policy_tables \<Rightarrow> relay_state \<Rightarrow> uuid \<Rightarrow> string \<Rightarrow> string \<Rightarrow> string \<Rightarrow> uuid option
     \<Rightarrow> string + member_role" where
  "pusher_role fails t st community owner event_author pusher channel =
     (if pusher = event_author then Ok Owner
      else if fails IsAgentOwner then Err ''internal error''
      else if is_agent_owner community owner pusher st then Ok Owner
      else case channel of
          None \<Rightarrow> Err ''no channel binding''
        | Some ch \<Rightarrow>
            if fails GetMemberRole then Err ''internal error''
            else case get_member_role t community ch pusher of
                None \<Rightarrow> Err ''not a channel member''
              | Some role_str \<Rightarrow> (case role_from_str role_str of Inl _ \<Rightarrow> Err ''internal error'' | Inr role \<Rightarrow> Ok role))"

definition git_role :: "member_role \<Rightarrow> member_role" where
  "git_role role = (if role = Bot then member_role.Member else role)"

definition classified :: "hook_ref_update \<Rightarrow> ref_update" where
  "classified r =
     \<lparr>ru_ref_name = hu_ref_name r, ru_kind = classify (hu_old_oid r) (hu_new_oid r) (hu_is_ancestor r),
      ru_old_oid = hu_old_oid r, ru_new_oid = hu_new_oid r\<rparr>"

text \<open>Steps 4 to 8: the rules and the role.\<close>

definition resolve_policy ::
  "policy_lib \<Rightarrow> (policy_call \<Rightarrow> bool) \<Rightarrow> policy_tables \<Rightarrow> relay_state \<Rightarrow> uuid \<Rightarrow> hook_request
     \<Rightarrow> string + member_role \<times> protection_rule list" where
  "resolve_policy lib fails t st community req =
     (if fails QueryEvents then Err ''internal error''
      else case query_repo_events t community (hq_repo_owner req) (hq_repo_id req) of
          [] \<Rightarrow> Err ''repository not found''
        | event # _ \<Rightarrow>
            (case parse_protection_tags (re_tags event) of
               Inl _ \<Rightarrow> Err ''malformed protection rules''
             | Inr parsed \<Rightarrow>
                 (let channel = channel_tag lib (re_tags event);
                      closed = (case channel of
                          None \<Rightarrow> Ok ()
                        | Some ch \<Rightarrow>
                            if fails GetChannel then Err ''internal error''
                            else case get_channel t community ch of
                                None \<Rightarrow> Err ''internal error''
                              | Some c \<Rightarrow> if cr_archived c then Err ''channel is archived (read-only)'' else Ok ())
                  in and_then closed (\<lambda>_.
                     and_then (pusher_role fails t st community (hq_repo_owner req) (re_pubkey event)
                                 (hq_pusher_pubkey req) channel) (\<lambda>role.
                       Ok (git_role role, pp_rules parsed))))))"

definition hook_policy_check ::
  "policy_lib \<Rightarrow> bytes \<Rightarrow> (policy_call \<Rightarrow> bool) \<Rightarrow> nat \<Rightarrow> policy_tables \<Rightarrow> relay_state \<Rightarrow> hook_request \<Rightarrow> policy_reply" where
  "hook_policy_check lib secret fails now t st req =
     (case check_request lib req of
        Inl e \<Rightarrow> PolicyForbidden e
      | Inr community \<Rightarrow>
          if \<not> verify_hmac lib secret req then PolicyForbidden ''signature verification failed''
          else case check_age now req of
              Inl e \<Rightarrow> PolicyForbidden e
            | Inr _ \<Rightarrow>
                (case resolve_policy lib fails t st community req of
                   Inl e \<Rightarrow> PolicyForbidden e
                 | Inr (role, rules) \<Rightarrow>
                     (case evaluate_push (map classified (hq_ref_updates req)) role rules of
                        Inr _ \<Rightarrow> PolicyAllowed
                      | Inl denials \<Rightarrow> PolicyDenied denials)))"

definition generate_hook_hmac ::
  "policy_lib \<Rightarrow> bytes \<Rightarrow> string \<Rightarrow> string \<Rightarrow> string \<Rightarrow> string \<Rightarrow> hook_ref_update list \<Rightarrow> nat \<Rightarrow> string" where
  "generate_hook_hmac lib secret repo_id repo_owner community_id pusher ref_updates timestamp =
     hex_of_bytes (compute_hmac lib secret
       \<lparr>hq_repo_id = repo_id, hq_repo_owner = repo_owner, hq_community_id = community_id, hq_pusher_pubkey = pusher,
        hq_ref_updates = ref_updates, hq_timestamp = timestamp, hq_signature = []\<rparr>)"

section \<open>Hexadecimal round trip\<close>

lemma hex_decode_bytes [simp]: "hex_decode (hex_of_bytes bs) = Some bs"
proof (induction bs)
  case Nil
  then show ?case by (simp add: hex_of_bytes_def)
next
  case (Cons b bs)
  have "unat b < 2 ^ LENGTH(8)" by (rule unsigned_less)
  then have b: "unat b < 256" by simp
  then have d: "unat b div 16 < 16" "unat b mod 16 < 16" by (simp_all add: less_mult_imp_div_less)
  have "hex_of_bytes (b # bs) = hex_digit (unat b div 16) # hex_digit (unat b mod 16) # hex_of_bytes bs"
    by (simp add: hex_of_bytes_def)
  moreover have "(of_nat (16 * (unat b div 16) + unat b mod 16) :: 8 word) = b" by (simp only: mult_div_mod_eq) simp
  ultimately show ?case using Cons hex_val_digit [OF d(1)] hex_val_digit [OF d(2)] by simp
qed

section \<open>The two sort orders\<close>

text \<open>
  The relay sorts by the ref name, the hook by the whole line. A ref name has no blank or control character,
  so a name that is a prefix of another comes first in both orders.
\<close>

definition plain_name :: "string \<Rightarrow> bool" where
  "plain_name s \<longleftrightarrow> list_all (\<lambda>c. (of_char c :: nat) > 0x20) s"

lemma char_less: "(c :: char) < d \<longleftrightarrow> (of_char c :: nat) < of_char d"
  by (simp add: less_char_def)

lemma blank_first: "plain_name (c # s) \<Longrightarrow> CHR '' '' < c"
  by (simp add: plain_name_def char_less)

lemma line_order: "plain_name s \<Longrightarrow> plain_name t \<Longrightarrow> s < t \<Longrightarrow> s @ '' '' @ u < t @ '' '' @ v"
proof (induction s arbitrary: t)
  case Nil
  then obtain c t' where t: "t = c # t'" by (cases t) auto
  then show ?case using blank_first Nil by (simp add: Cons_less_Cons)
next
  case (Cons c s)
  then obtain d t' where t: "t = d # t'" by (cases t) auto
  then show ?case using Cons by (auto simp: Cons_less_Cons plain_name_def)
qed

lemma sort_by_line:
  assumes "\<forall>r \<in> set rs. plain_name (hu_ref_name r)" "distinct (map hu_ref_name rs)"
  shows "sort_key hook_line rs = sort_key hu_ref_name rs"
proof (rule sort_key_inj_key_eq)
  show "mset rs = mset (sort_key hu_ref_name rs)" by simp
  show "sorted (map hook_line (sort_key hu_ref_name rs))"
    unfolding sorted_map
  proof (rule sorted_wrt_mono_rel [OF _ sorted_sort_key [of hu_ref_name rs, unfolded sorted_map]])
    fix x y assume xy: "x \<in> set (sort_key hu_ref_name rs)" "y \<in> set (sort_key hu_ref_name rs)" "hu_ref_name x \<le> hu_ref_name y"
    show "hook_line x \<le> hook_line y"
    proof (cases "hu_ref_name x = hu_ref_name y")
      case True
      then have "x = y" using xy(1,2) assms(2) by (auto simp: distinct_map dest: inj_onD)
      then show ?thesis by simp
    next
      case False
      then show ?thesis
        using xy assms(1) line_order [of "hu_ref_name x" "hu_ref_name y"] by (simp add: hook_line_def less_imp_le)
    qed
  qed
  show "inj_on hook_line (set rs)"
  proof (rule inj_onI)
    fix x y assume xy: "x \<in> set rs" "y \<in> set rs" "hook_line x = hook_line y"
    have blank: "CHR '' '' \<notin> set (hu_ref_name z)" if "z \<in> set rs" for z
      using assms(1) that by (fastforce simp: plain_name_def list_all_iff)
    have "takeWhile (\<lambda>c. c \<noteq> CHR '' '') (hook_line z) = hu_ref_name z" if "z \<in> set rs" for z
    proof -
      have "\<forall>c \<in> set (hu_ref_name z). c \<noteq> CHR '' ''" using blank [OF that] by blast
      then show ?thesis by (simp add: hook_line_def)
    qed
    then have "hu_ref_name x = hu_ref_name y" using xy by metis
    then show "x = y" using xy(1,2) assms(2) by (auto simp: distinct_map dest: inj_onD)
  qed
qed

section \<open>What the signed text determines\<close>

text \<open>Documented of \<open>Uuid::parse_str\<close>: its text forms are made of hex digits, hyphens, braces and \<open>urn:uuid:\<close>.\<close>

definition policy_laws :: "policy_lib \<Rightarrow> bool" where
  "policy_laws lib \<longleftrightarrow> (\<forall>s u. gp_parse_uuid lib s = Some u \<longrightarrow> CHR ''|'' \<notin> set s)"

lemma split_at_char:
  assumes "c \<notin> set s" "c \<notin> set t" "s @ c # u = t @ c # v" shows "s = t \<and> u = v"
  using assms
proof (induction s arbitrary: t)
  case Nil
  then show ?case by (cases t) auto
next
  case (Cons a s)
  then show ?case by (cases t) auto
qed

lemma length_prefix:
  assumes "show_nat (length a) @ CHR '':'' # a @ u = show_nat (length b) @ CHR '':'' # b @ v"
  shows "a = b \<and> u = v"
proof -
  have colon: "CHR '':'' \<notin> set (show_nat n)" for n
    using show_nat_digits [of "CHR '':''" n] by (auto simp: is_digit_def)
  have "show_nat (length a) = show_nat (length b) \<and> a @ u = b @ v" by (rule split_at_char [OF colon colon assms])
  then show ?thesis by auto
qed

lemma checked_refs:
  "check_ref_updates rs = Ok () \<Longrightarrow> r \<in> set rs \<Longrightarrow>
     length (hu_old_oid r) = 40 \<and> length (hu_new_oid r) = 40 \<and> list_all is_ascii_hexdigit (hu_old_oid r)
     \<and> list_all is_ascii_hexdigit (hu_new_oid r)"
  by (induction rs rule: check_ref_updates.induct) (auto split: if_splits)

lemma hmac_ref_head:
  assumes "length (hu_old_oid r) = 40" "list_all is_ascii_hexdigit (hu_old_oid r)"
  shows "hmac_ref r @ x \<noteq> CHR ''|'' # y"
proof -
  obtain c s where c: "hu_old_oid r = c # s" using assms(1) by (cases "hu_old_oid r") auto
  then have "c \<noteq> CHR ''|''" using assms(2) by (auto simp: is_ascii_hexdigit_def)
  then show ?thesis by (simp add: hmac_ref_def c)
qed

lemma hmac_ref_split:
  assumes "length (hu_old_oid r) = 40" "length (hu_new_oid r) = 40" "length (hu_old_oid r') = 40" "length (hu_new_oid r') = 40"
    "hmac_ref r @ x = hmac_ref r' @ y"
  shows "r = r' \<and> x = y"
proof -
  have eq: "hu_old_oid r @ hu_new_oid r @ show_nat (length (hu_ref_name r)) @ CHR '':'' # hu_ref_name r @ bit_char (hu_is_ancestor r) # x
      = hu_old_oid r' @ hu_new_oid r' @ show_nat (length (hu_ref_name r')) @ CHR '':'' # hu_ref_name r' @ bit_char (hu_is_ancestor r') # y"
    using assms(5) by (simp add: hmac_ref_def)
  then have oids: "hu_old_oid r = hu_old_oid r'" "hu_new_oid r = hu_new_oid r'"
    and rest: "show_nat (length (hu_ref_name r)) @ CHR '':'' # hu_ref_name r @ bit_char (hu_is_ancestor r) # x
      = show_nat (length (hu_ref_name r')) @ CHR '':'' # hu_ref_name r' @ bit_char (hu_is_ancestor r') # y"
    using assms(1-4) by simp_all
  have "hu_ref_name r = hu_ref_name r' \<and> bit_char (hu_is_ancestor r) # x = bit_char (hu_is_ancestor r') # y"
    by (rule length_prefix [OF rest])
  then show ?thesis using oids by (cases r; cases r') (auto simp: bit_char_def split: if_splits)
qed

lemma hmac_refs_split:
  assumes "\<forall>r \<in> set rs \<union> set rs'. length (hu_old_oid r) = 40 \<and> length (hu_new_oid r) = 40 \<and> list_all is_ascii_hexdigit (hu_old_oid r)"
    "concat (map hmac_ref rs) @ CHR ''|'' # x = concat (map hmac_ref rs') @ CHR ''|'' # y"
  shows "rs = rs' \<and> x = y"
  using assms
proof (induction rs arbitrary: rs')
  case Nil
  show ?case
  proof (cases rs')
    case (Cons r r's)
    then show ?thesis using Nil.prems hmac_ref_head [of r "concat (map hmac_ref r's) @ CHR ''|'' # y" x]
      by (auto dest: sym)
  qed (use Nil in simp)
next
  case (Cons r rs)
  show ?case
  proof (cases rs')
    case Nil
    then show ?thesis using Cons.prems hmac_ref_head [of r "concat (map hmac_ref rs) @ CHR ''|'' # x" y] by auto
  next
    case r': (Cons r' r's)
    have "hmac_ref r @ concat (map hmac_ref rs) @ CHR ''|'' # x = hmac_ref r' @ concat (map hmac_ref r's) @ CHR ''|'' # y"
      using Cons.prems(2) r' by simp
    then have "r = r' \<and> concat (map hmac_ref rs) @ CHR ''|'' # x = concat (map hmac_ref r's) @ CHR ''|'' # y"
      using Cons.prems(1) r' by (intro hmac_ref_split) auto
    then show ?thesis using Cons.IH [of r's] Cons.prems(1) r' by auto
  qed
qed

section \<open>A small instance\<close>

definition demo_policy :: policy_lib where
  "demo_policy = \<lparr>gp_hmac = (\<lambda>k m. k @ m), gp_parse_uuid = (\<lambda>s. if s = ''c'' then Some (mk_uuid (replicate 16 0)) else None)\<rparr>"

definition demo_hook :: hook_env where
  "demo_hook = \<lparr>hk_repo_id = ''r'', hk_repo_owner = replicate 64 (CHR ''a''), hk_community_id = ''c'',
     hk_pusher_pubkey = replicate 64 (CHR ''a''), hk_secret = [7]\<rparr>"

definition demo_cmds :: "(string \<times> string \<times> string) list" where
  "demo_cmds = [(ZERO_OID, replicate 40 (CHR ''a''), ''refs/heads/main''), (ZERO_OID, replicate 40 (CHR ''b''), ''refs/heads/dev'')]"

definition demo_call :: hook_request where
  "demo_call = hook_callback demo_policy demo_hook (\<lambda>_ _. True) demo_cmds 10"

definition demo_policy_tables :: policy_tables where
  "demo_policy_tables = \<lparr>pt_events = [\<lparr>re_community = mk_uuid (replicate 16 0), re_id = ''e'', re_pubkey = replicate 64 (CHR ''a''),
     re_kind = 30617, re_d_tag = ''r'', re_created_at = 1, re_channel = None, re_deleted = False, re_tags = []\<rparr>],
     pt_channels = [], pt_channel_members = []\<rparr>"

lemma demo_policy_laws: "policy_laws demo_policy"
  by (simp add: policy_laws_def demo_policy_def)

lemma demo_call_request: "check_request demo_policy demo_call = Ok (mk_uuid (replicate 16 0))"
proof -
  have "has_infix ''..'' ''refs/heads/main'' = False" "has_infix ''..'' ''refs/heads/dev'' = False"
    "starts_with ''refs/'' ''refs/heads/main''" "starts_with ''refs/'' ''refs/heads/dev''"
    by (simp_all add: starts_with_def)
  then show ?thesis
    by (simp add: check_request_def demo_call_def hook_callback_def Let_def demo_hook_def demo_policy_def demo_cmds_def
        hook_update_def lower_hex_key_def lower_hex_def ZERO_OID_def is_ascii_hexdigit_def list_all_iff)
qed

lemma demo_cmds_plain:
  "\<forall>(old_oid, new_oid, name) \<in> set demo_cmds. plain_name name" "distinct (map (\<lambda>(_, _, name). name) demo_cmds)"
  by (simp_all add: demo_cmds_def plain_name_def)

section \<open>The hook and the endpoint agree\<close>

lemma hook_verifies_aux:
  assumes "\<forall>(old_oid, new_oid, name) \<in> set cmds. plain_name name" "distinct (map (\<lambda>(_, _, name). name) cmds)"
  shows "verify_hmac lib (hk_secret env) (hook_callback lib env merge_base cmds timestamp)"
proof -
  let ?rs = "map (hook_update merge_base) cmds"
  have names: "map hu_ref_name ?rs = map (\<lambda>(_, _, name). name) cmds"
    by (simp add: hook_update_def split_beta)
  have "\<forall>r \<in> set ?rs. plain_name (hu_ref_name r)" using assms(1) by (auto simp: hook_update_def)
  moreover have "distinct (map hu_ref_name ?rs)" unfolding names by (rule assms(2))
  ultimately have "sort_key hook_line ?rs = sort_key hu_ref_name ?rs" by (rule sort_by_line)
  then show ?thesis
    by (simp add: verify_hmac_def compute_hmac_def hook_callback_def hook_text_def hmac_text_def Let_def)
qed

text \<open>
  The hook's signature verifies. For the commands of a push with pairwise different ref names without
  blanks or control characters, in whatever order git lists them, the endpoint accepts the signature that
  the hook script computes, although the script sorts whole lines and the relay sorts by ref name.
\<close>

theorem hook_callback_verifies:
  assumes "\<forall>(old_oid, new_oid, name) \<in> set cmds. plain_name name" "distinct (map (\<lambda>(_, _, name). name) cmds)"
  shows "verify_hmac lib (hk_secret env) (hook_callback lib env merge_base cmds timestamp)"
  by (rule hook_verifies_aux [OF assms])

theorem hook_callback_verifies_witness:
  "verify_hmac demo_policy [7] demo_call"
  using hook_callback_verifies [OF demo_cmds_plain, of demo_policy demo_hook "\<lambda>_ _. True" 10]
  by (simp add: demo_call_def demo_hook_def)

text \<open>
  What a signature binds. Two callbacks that pass the structural checks and have the same signed text
  agree in the repository, its owner, the community, the pusher, the time and the ref updates up to their
  order: no field can be shifted into another.
\<close>

theorem signed_text_binds:
  assumes "policy_laws lib" "check_request lib req = Ok c" "check_request lib req' = Ok c'" "hmac_text req = hmac_text req'"
  shows "hq_repo_id req = hq_repo_id req' \<and> hq_repo_owner req = hq_repo_owner req'
    \<and> hq_community_id req = hq_community_id req' \<and> hq_pusher_pubkey req = hq_pusher_pubkey req'
    \<and> mset (hq_ref_updates req) = mset (hq_ref_updates req') \<and> hq_timestamp req = hq_timestamp req'"
proof -
  define rs where "rs = (\<lambda>q :: hook_request. sort_key hu_ref_name (hq_ref_updates q))"
  define tail where "tail = (\<lambda>q :: hook_request. concat (map hmac_ref (rs q)) @ CHR ''|'' # show_nat (hq_timestamp q))"
  have ok: "length (hq_repo_owner q) = 64" "length (hq_pusher_pubkey q) = 64" "CHR ''|'' \<notin> set (hq_community_id q)"
      "check_ref_updates (hq_ref_updates q) = Ok ()" if "check_request lib q = Ok d" for q d
    using that assms(1) by (auto simp: check_request_def lower_hex_key_def policy_laws_def split: if_splits option.splits)
  note o1 = ok [OF assms(2)] and o2 = ok [OF assms(3)]
  have spelled: "hmac_text q = show_nat (length (hq_repo_id q)) @ CHR '':'' # hq_repo_id q @ CHR ''|'' # hq_repo_owner q @ CHR ''|''
      # hq_community_id q @ CHR ''|'' # hq_pusher_pubkey q @ CHR ''|'' # tail q" for q
    by (simp add: hmac_text_def tail_def rs_def)
  have id: "hq_repo_id req = hq_repo_id req' \<and> CHR ''|'' # hq_repo_owner req @ CHR ''|'' # hq_community_id req @ CHR ''|''
        # hq_pusher_pubkey req @ CHR ''|'' # tail req
      = CHR ''|'' # hq_repo_owner req' @ CHR ''|'' # hq_community_id req' @ CHR ''|'' # hq_pusher_pubkey req' @ CHR ''|'' # tail req'"
    by (rule length_prefix) (use assms(4) in \<open>simp only: spelled\<close>)
  then have owner: "hq_repo_owner req = hq_repo_owner req'"
    and rest: "hq_community_id req @ CHR ''|'' # hq_pusher_pubkey req @ CHR ''|'' # tail req
      = hq_community_id req' @ CHR ''|'' # hq_pusher_pubkey req' @ CHR ''|'' # tail req'"
    using o1(1) o2(1) by simp_all
  have com: "hq_community_id req = hq_community_id req' \<and> hq_pusher_pubkey req @ CHR ''|'' # tail req = hq_pusher_pubkey req' @ CHR ''|'' # tail req'"
    by (rule split_at_char [OF o1(3) o2(3) rest])
  then have pusher: "hq_pusher_pubkey req = hq_pusher_pubkey req'" and tails: "tail req = tail req'"
    using o1(2) o2(2) by simp_all
  have "rs req = rs req' \<and> show_nat (hq_timestamp req) = show_nat (hq_timestamp req')"
  proof (rule hmac_refs_split)
    show "\<forall>r \<in> set (rs req) \<union> set (rs req'). length (hu_old_oid r) = 40 \<and> length (hu_new_oid r) = 40 \<and> list_all is_ascii_hexdigit (hu_old_oid r)"
      using checked_refs [OF o1(4)] checked_refs [OF o2(4)] by (auto simp: rs_def)
  qed (use tails in \<open>simp add: tail_def\<close>)
  then have "mset (hq_ref_updates req) = mset (hq_ref_updates req')" "hq_timestamp req = hq_timestamp req'"
    by (metis mset_sort rs_def, simp)
  then show ?thesis using id owner com pusher by blast
qed

theorem signed_text_binds_witness:
  "mset (hq_ref_updates demo_call) = mset (hq_ref_updates (demo_call\<lparr>hq_signature := []\<rparr>)) \<and> hq_signature demo_call \<noteq> []"
proof -
  have "check_request demo_policy (demo_call\<lparr>hq_signature := []\<rparr>) = Ok (mk_uuid (replicate 16 0))"
    using demo_call_request by (simp add: check_request_def cong: if_cong option.case_cong)
  moreover have "hmac_text (demo_call\<lparr>hq_signature := []\<rparr>) = hmac_text demo_call"
    by (simp add: hmac_text_def)
  ultimately have "mset (hq_ref_updates demo_call) = mset (hq_ref_updates (demo_call\<lparr>hq_signature := []\<rparr>))"
    using signed_text_binds [OF demo_policy_laws demo_call_request, of "demo_call\<lparr>hq_signature := []\<rparr>"] by metis
  moreover have "hq_signature demo_call \<noteq> []"
    by (simp add: demo_call_def hook_callback_def Let_def demo_policy_def demo_hook_def hex_of_bytes_def)
  ultimately show ?thesis by blast
qed

section \<open>When a push is allowed\<close>

lemma query_repo_event:
  assumes "query_repo_events t community owner d = ev # evs"
  shows "evs = []" "ev \<in> set (pt_events t)" "re_pubkey ev = owner" "re_d_tag ev = d" "re_community ev = community" "\<not> re_deleted ev"
proof -
  let ?xs = "sort_key (\<lambda>e. - int (re_created_at e)) (sort_key re_id
       (filter (\<lambda>e. re_community e = community \<and> \<not> re_deleted e \<and> re_channel e = None \<and> re_kind e = 30617
                  \<and> re_pubkey e = owner \<and> re_d_tag e = d) (pt_events t)))"
  have take: "take 1 ?xs = ev # evs" using assms by (simp add: query_repo_events_def)
  then show "evs = []" by (cases ?xs) auto
  have "ev \<in> set (take 1 ?xs)" unfolding take by simp
  then have "ev \<in> set ?xs" by (rule in_set_takeD)
  then show "ev \<in> set (pt_events t)" "re_pubkey ev = owner" "re_d_tag ev = d" "re_community ev = community" "\<not> re_deleted ev"
    by auto
qed

definition holds_role ::
  "(policy_call \<Rightarrow> bool) \<Rightarrow> policy_tables \<Rightarrow> relay_state \<Rightarrow> uuid \<Rightarrow> string \<Rightarrow> string \<Rightarrow> uuid option \<Rightarrow> member_role \<Rightarrow> bool" where
  "holds_role fails t st community owner pusher channel role \<longleftrightarrow>
     pusher = owner \<and> role = Owner
     \<or> pusher \<noteq> owner \<and> \<not> fails IsAgentOwner
        \<and> (is_agent_owner community owner pusher st \<and> role = Owner
           \<or> \<not> is_agent_owner community owner pusher st \<and> \<not> fails GetMemberRole
              \<and> (\<exists>ch c m. channel = Some ch \<and> map_of (pt_channels t) (community, ch) = Some c \<and> \<not> cr_deleted c
                   \<and> map_of (pt_channel_members t) (community, ch, pusher) = Some m \<and> \<not> mr_removed m
                   \<and> mr_role m = role_as_str role))"

lemma role_from_str_iff: "role_from_str s = Ok r \<longleftrightarrow> s = role_as_str r"
  by (cases r) (auto simp: role_from_str_def)

lemma pusher_role_iff:
  "pusher_role fails t st community owner owner pusher channel = Ok role \<longleftrightarrow>
     holds_role fails t st community owner pusher channel role"
proof (cases "pusher = owner \<or> fails IsAgentOwner \<or> is_agent_owner community owner pusher st")
  case True
  then show ?thesis by (auto simp: pusher_role_def holds_role_def)
next
  case False
  have parsed: "(case role_from_str s of Inl _ \<Rightarrow> Err ''internal error'' | Inr role \<Rightarrow> Ok role) = Ok role \<longleftrightarrow> s = role_as_str role" for s
    using role_from_str_iff [of s role] by (cases "role_from_str s") simp_all
  have member: "get_member_role t community ch pusher = Some s \<longleftrightarrow>
      (\<exists>c m. map_of (pt_channels t) (community, ch) = Some c \<and> \<not> cr_deleted c
         \<and> map_of (pt_channel_members t) (community, ch, pusher) = Some m \<and> \<not> mr_removed m \<and> mr_role m = s)" for ch s
    by (auto simp: get_member_role_def get_channel_def split: option.splits)
  show ?thesis
  proof (cases channel)
    case None
    then show ?thesis using False by (simp add: pusher_role_def holds_role_def)
  next
    case (Some ch)
    have "pusher_role fails t st community owner owner pusher channel = Ok role \<longleftrightarrow>
        \<not> fails GetMemberRole \<and> get_member_role t community ch pusher = Some (role_as_str role)"
      using False Some parsed by (simp add: pusher_role_def split: option.split)
    then show ?thesis using False Some member by (simp add: holds_role_def)
  qed
qed

text \<open>
  C10 (When a push is allowed). The endpoint answers 200 exactly when the callback is well formed, carries a
  valid signature and is between 30 seconds old and 5 seconds ahead; the pusher's claimed repository is
  announced in the community by the claimed owner, with protection tags that parse, in no archived or
  missing channel; the pusher is the owner, the recorded owner of that agent, or a present member of the
  bound channel, where a bot counts as a member; and every update has the built-in role for its kind and
  satisfies every matching rule. Every failed query denies.
\<close>

theorem hook_allows_iff:
  "hook_policy_check lib secret fails now t st req = PolicyAllowed \<longleftrightarrow>
     (\<exists>community ev parsed role.
        check_request lib req = Ok community \<and> verify_hmac lib secret req
        \<and> now \<le> hq_timestamp req + 30 \<and> hq_timestamp req \<le> now + 5
        \<and> \<not> fails QueryEvents \<and> query_repo_events t community (hq_repo_owner req) (hq_repo_id req) = [ev]
        \<and> parse_protection_tags (re_tags ev) = Ok parsed
        \<and> (\<forall>ch. channel_tag lib (re_tags ev) = Some ch \<longrightarrow>
             \<not> fails GetChannel \<and> (\<exists>c. get_channel t community ch = Some c \<and> \<not> cr_archived c))
        \<and> holds_role fails t st community (hq_repo_owner req) (hq_pusher_pubkey req) (channel_tag lib (re_tags ev)) role
        \<and> (\<forall>r \<in> set (hq_ref_updates req).
             default_min_role (hu_ref_name r) (classify (hu_old_oid r) (hu_new_oid r) (hu_is_ancestor r)) \<le> git_role role
             \<and> (\<forall>rule \<in> matching (hu_ref_name r) (pp_rules parsed). rule_permits rule (classified r) (git_role role))))"
proof -
  have age: "check_age now req = Ok () \<longleftrightarrow> now \<le> hq_timestamp req + 30 \<and> hq_timestamp req \<le> now + 5"
    by (auto simp: check_age_def MAX_CALLBACK_AGE_SECS_def)
  have closed: "resolve_policy lib fails t st community req = Ok (role', rules) \<longleftrightarrow>
      \<not> fails QueryEvents \<and> (\<exists>ev parsed role. query_repo_events t community (hq_repo_owner req) (hq_repo_id req) = [ev]
        \<and> parse_protection_tags (re_tags ev) = Ok parsed
        \<and> (\<forall>ch. channel_tag lib (re_tags ev) = Some ch \<longrightarrow>
             \<not> fails GetChannel \<and> (\<exists>c. get_channel t community ch = Some c \<and> \<not> cr_archived c))
        \<and> holds_role fails t st community (hq_repo_owner req) (hq_pusher_pubkey req) (channel_tag lib (re_tags ev)) role
        \<and> role' = git_role role \<and> rules = pp_rules parsed)" for community role' rules
  proof (cases "query_repo_events t community (hq_repo_owner req) (hq_repo_id req)")
    case Nil
    then show ?thesis by (simp add: resolve_policy_def)
  next
    case (Cons ev evs)
    note q = query_repo_event [OF Cons]
    show ?thesis
    proof (cases "parse_protection_tags (re_tags ev)")
      case (Inl e)
      then show ?thesis using Cons q(1) by (simp add: resolve_policy_def)
    next
      case (Inr parsed)
      then show ?thesis
        using Cons q(1) pusher_role_iff [of fails t st community "hq_repo_owner req" "hq_pusher_pubkey req" "channel_tag lib (re_tags ev)"]
        by (cases "channel_tag lib (re_tags ev)")
           (auto simp: resolve_policy_def Let_def q(3) split: option.splits if_splits)
    qed
  qed
  have permitted: "evaluate_push (map classified rs) role rules = Ok () \<longleftrightarrow>
      (\<forall>r \<in> set rs. default_min_role (hu_ref_name r) (classify (hu_old_oid r) (hu_new_oid r) (hu_is_ancestor r)) \<le> role
         \<and> (\<forall>rule \<in> matching (hu_ref_name r) rules. rule_permits rule (classified r) role))" for rs role rules
    using push_is_atomic [of "map classified rs" role rules] by (simp add: evaluate_ref_update_Ok classified_def)
  have "hook_policy_check lib secret fails now t st req = PolicyAllowed \<longleftrightarrow>
      (\<exists>community role rules. check_request lib req = Ok community \<and> verify_hmac lib secret req \<and> check_age now req = Ok ()
        \<and> resolve_policy lib fails t st community req = Ok (role, rules)
        \<and> evaluate_push (map classified (hq_ref_updates req)) role rules = Ok ())"
    by (auto simp: hook_policy_check_def split: sum.splits)
  then show ?thesis unfolding closed permitted age by blast
qed

theorem hook_allows_iff_witness:
  "\<forall>st. hook_policy_check demo_policy [7] (\<lambda>_. False) 12 demo_policy_tables st demo_call = PolicyAllowed"
proof
  fix st
  have signed: "verify_hmac demo_policy [7] demo_call"
    using hook_verifies_aux [OF demo_cmds_plain, of demo_policy demo_hook "\<lambda>_ _. True" 10]
    by (simp add: demo_call_def demo_hook_def)
  have fields: "hq_timestamp demo_call = 10" "hq_repo_owner demo_call = replicate 64 (CHR ''a'')" "hq_repo_id demo_call = ''r''"
      "hq_pusher_pubkey demo_call = replicate 64 (CHR ''a'')"
    by (simp_all add: demo_call_def hook_callback_def Let_def demo_hook_def)
  have ev: "query_repo_events demo_policy_tables (mk_uuid (replicate 16 0)) (replicate 64 (CHR ''a'')) ''r'' = [hd (pt_events demo_policy_tables)]"
    by (simp add: query_repo_events_def demo_policy_tables_def)
  have tags: "re_tags (hd (pt_events demo_policy_tables)) = []" by (simp add: demo_policy_tables_def)
  obtain parsed where parsed: "parse_protection_tags [] = Ok parsed" "pp_rules parsed = []"
    by (simp add: parse_protection_tags_def)
  have "holds_role (\<lambda>_. False) demo_policy_tables st (mk_uuid (replicate 16 0)) (replicate 64 (CHR ''a'')) (replicate 64 (CHR ''a'')) c Owner" for c
    by (simp add: holds_role_def)
  moreover have "default_min_role n k \<le> git_role Owner" for n k by (simp add: git_role_def role_order)
  ultimately show "hook_policy_check demo_policy [7] (\<lambda>_. False) 12 demo_policy_tables st demo_call = PolicyAllowed"
    unfolding hook_allows_iff
    using demo_call_request signed ev parsed
    by (intro exI [of _ "mk_uuid (replicate 16 0)"] exI [of _ "hd (pt_events demo_policy_tables)"] exI [of _ parsed] exI [of _ Owner])
       (simp add: fields tags channel_tag_def matching_def)
qed

end
