(* ===== verification/GitTransport.thy ===== *)
theory GitTransport
  imports GitPolicy GitDemo HttpAuth
begin

text \<open>
  The endpoints of the git server (\<open>crates/buzz-relay/src/api/git/transport.rs\<close>) and the ref-state event of a
  push (\<open>manifest_event.rs\<close>): authentication, the ref advertisement, and a push from its request to its
  response. The request body, the \<open>git\<close> subprocesses and the event database are inputs: \<open>run_git_at\<close> gives
  what \<open>git receive-pack\<close> printed, whether it exited with success, and the workspace it leaves.

  The lemmas say what the advertisement carries, what each response of a push implies for the published
  state, and where that falls short.
\<close>

section \<open>Authentication\<close>

text \<open>
  The parameters beside \<open>http_lib\<close>: the second base64 alphabet, the JSON value's \<open>method\<close> tag and the tags of
  the parsed event as texts.
\<close>

record git_auth_lib =
  ga_base64_url :: "string \<Rightarrow> bytes option"
  ga_json_method :: "string \<Rightarrow> string option"
  ga_slices :: "string \<Rightarrow> string list list"

text \<open>\<open>str::split_once\<close> with a string: the part before its first occurrence.\<close>

fun before_infix :: "string \<Rightarrow> string \<Rightarrow> string option" where
  "before_infix p [] = (if p = [] then Some [] else None)"
| "before_infix p (c # s) = (if starts_with p (c # s) then Some [] else map_option (\<lambda>u. c # u) (before_infix p s))"

definition git_expected_url :: "string \<Rightarrow> tenant_context \<Rightarrow> string \<Rightarrow> string option" where
  "git_expected_url config_relay_url tenant path_and_query =
     (let scheme = if tls_relay config_relay_url then ''https'' else ''http'';
          repo_path = (case before_infix ''/info/refs'' path_and_query of
              Some prefix \<Rightarrow> Some prefix
            | None \<Rightarrow> (case strip_suffix ''/git-upload-pack'' path_and_query of
                Some prefix \<Rightarrow> Some prefix
              | None \<Rightarrow> strip_suffix ''/git-receive-pack'' path_and_query))
      in map_option (\<lambda>path. scheme @ ''://'' @ tc_host tenant @ path) repo_path)"

definition git_auth ::
  "'u http_lib \<Rightarrow> git_auth_lib \<Rightarrow> ('sk, 'sig, 'p) attest_lib \<Rightarrow> relay_config \<Rightarrow> (db_call \<Rightarrow> bool)
     \<Rightarrow> (string \<Rightarrow> 'e + uuid option) \<Rightarrow> relay_state \<Rightarrow> nat \<Rightarrow> string \<Rightarrow> string \<Rightarrow> (string, string) hmap
     \<Rightarrow> git_reply + string \<times> tenant_context" where
  "git_auth lib glib alib cfg fails resolve_host st now_ms req_method path_and_query headers =
     and_then (ok_or (GitText 401 ''missing Authorization header'') (header_str ''authorization'' headers)) (\<lambda>auth_header.
     and_then (ok_or (GitText 401 ''expected Authorization: Nostr <base64>'') (strip_prefix ''Nostr '' auth_header)) (\<lambda>token.
     and_then (ok_or (GitText 401 ''invalid base64'')
        (case hl_base64_decode lib token of Some raw \<Rightarrow> Some raw | None \<Rightarrow> ga_base64_url glib token)) (\<lambda>raw.
     and_then (ok_or (GitText 401 ''invalid utf-8'') (string_from_utf8 raw)) (\<lambda>event_json.
     case bind_community resolve_host (case header_str ''host'' headers of Some h \<Rightarrow> h | None \<Rightarrow> []) of
       Inl _ \<Rightarrow> Err (GitText 404 ''repository not found'')
     | Inr tenant \<Rightarrow>
         and_then (ok_or (GitText 400 ''unrecognized git endpoint'')
            (git_expected_url (rc_relay_url cfg) tenant path_and_query)) (\<lambda>expected_url.
         let event_method = (case ga_json_method glib event_json of Some m \<Rightarrow> m | None \<Rightarrow> req_method)
         in case verify_nip98_event lib now_ms event_json expected_url event_method None of
              Inl _ \<Rightarrow> Err (GitText 401 ''NIP-98 auth failed'')
            | Inr pubkey \<Rightarrow>
                and_then (ok_or (GitText 401 ''invalid auth event'') (hl_parse_event lib event_json)) (\<lambda>event.
                let event_tag = extract_auth_tag_json alib \<lparr>am_event = event, am_slices = ga_slices glib event_json\<rparr>;
                    auth_tag = (case event_tag of Some t \<Rightarrow> Some t | None \<Rightarrow> header_str ''x-auth-tag'' headers)
                in case enforce_relay_membership alib cfg fails st (tc_community tenant) pubkey auth_tag of
                     Inl _ \<Rightarrow> Err (GitText 403 ''restricted: not a relay member'')
                   | Inr _ \<Rightarrow> Ok (pubkey, tenant)))))))"

section \<open>Advertisement and reads\<close>

definition hydrate_error_to_response :: "hydrate_error \<Rightarrow> git_reply" where
  "hydrate_error_to_response e =
     (if e = HydrateResourceLimit then GitText 413 ''repository exceeds relay resource limits''
      else GitText 500 ''git backend hydration failed'')"

text \<open>A free permit of the semaphore, and what \<open>git --advertise-refs\<close> prints for a hydrated repository.\<close>

definition GIT_BUSY :: git_reply where "GIT_BUSY = GitText 503 ''git service busy''"

definition INFO_REFS_MAX_OUTPUT_BYTES :: nat where "INFO_REFS_MAX_OUTPUT_BYTES = 4 * 1024 * 1024"
definition RECEIVE_PACK_MAX_OUTPUT_BYTES :: nat where "RECEIVE_PACK_MAX_OUTPUT_BYTES = 1024 * 1024"

datatype git_failure = GitError | GitTimeout

definition failure_reply :: "git_failure \<Rightarrow> git_reply" where
  "failure_reply f = (case f of GitError \<Rightarrow> GitText 500 ''git error'' | GitTimeout \<Rightarrow> GitText 504 ''git operation timed out'')"

definition advertisement_type :: "string \<Rightarrow> string" where
  "advertisement_type service = ''application/x-'' @ service @ ''-advertisement''"

definition info_refs_subprocess ::
  "git_lib \<Rightarrow> hydrate_env \<Rightarrow> hydration_options \<Rightarrow> bool \<Rightarrow> (hydrated_repo \<Rightarrow> git_failure + bytes) \<Rightarrow> tenant_context
     \<Rightarrow> string \<Rightarrow> string \<Rightarrow> string \<Rightarrow> bucket \<Rightarrow> cache_state \<Rightarrow> cache_state \<times> (git_reply + git_reply)" where
  "info_refs_subprocess lib env opts permit advertise tenant service owner repo b cs =
     (if \<not> permit then (cs, Err GIT_BUSY)
      else (case hydrate_for_read lib env opts (tc_community tenant) owner repo b cs of
          (cs1, Inl e) \<Rightarrow> (cs1, Err (hydrate_error_to_response e))
        | (cs1, Inr None) \<Rightarrow> (cs1, Err (GitText 404 ''repository not found''))
        | (cs1, Inr (Some hydrated)) \<Rightarrow>
            (cs1, case advertise hydrated of
                Inl f \<Rightarrow> Err (failure_reply f)
              | Inr stdout \<Rightarrow>
                  if length stdout > INFO_REFS_MAX_OUTPUT_BYTES
                  then Err (GitText 413 ''git ref advertisement exceeds relay limits'')
                  else Ok (GitBody (advertisement_type service)
                         (str_bytes (hex04 (length (service_line service) + 4) @ service_line service) @ FLUSH @ stdout)))))"

definition info_refs ::
  "git_lib \<Rightarrow> hydrate_env \<Rightarrow> hydration_options \<Rightarrow> bool \<Rightarrow> (hydrated_repo \<Rightarrow> git_failure + bytes) \<Rightarrow> tenant_context
     \<Rightarrow> string \<Rightarrow> string \<Rightarrow> string \<Rightarrow> bucket \<Rightarrow> cache_state \<Rightarrow> cache_state \<times> (git_reply + git_reply)" where
  "info_refs lib env opts permit advertise tenant service owner repo b cs =
     (if service \<noteq> ''git-upload-pack'' \<and> service \<noteq> ''git-receive-pack'' then (cs, Err (GitText 400 ''invalid service''))
      else case transport_validate_repo_id owner repo of
          Inl e \<Rightarrow> (cs, Err e)
        | Inr _ \<Rightarrow>
            let subprocess = info_refs_subprocess lib env opts permit advertise tenant service owner repo b cs
            in if service = ''git-upload-pack''
               then (case load_manifest_for_read lib env (tc_community tenant) owner repo b of
                   Inl e \<Rightarrow> (cs, Err (hydrate_error_to_response e))
                 | Inr None \<Rightarrow> (cs, Err (GitText 404 ''repository not found''))
                 | Inr (Some m) \<Rightarrow>
                     if fast_path_eligible m
                     then (case build_upload_pack_advertisement m of
                         Some body \<Rightarrow> (cs, Ok (GitBody (advertisement_type service) body))
                       | None \<Rightarrow> subprocess)
                     else subprocess)
               else subprocess)"

section \<open>The ref-state event\<close>

definition is_emittable_ref :: "string \<Rightarrow> bool" where
  "is_emittable_ref name \<longleftrightarrow>
     (starts_with ''refs/heads/'' name \<or> starts_with ''refs/tags/'' name)
     \<and> \<not> starts_with ''/'' name \<and> \<not> has_infix ''//'' name
     \<and> list_all (\<lambda>c. is_ascii_alphanumeric c \<or> c \<in> set ''/_.-'') name"

definition is_valid_oid :: "string \<Rightarrow> bool" where
  "is_valid_oid s \<longleftrightarrow> (length s = 40 \<or> length s = 64) \<and> list_all is_ascii_hexdigit s"

datatype build_error = InvalidActor | SignFailed

text \<open>The tags of kind 30618; \<open>parse_key\<close> is \<open>PublicKey::from_hex\<close>, \<open>sign\<close> says whether signing succeeds.\<close>

definition build_ref_state_event ::
  "(string \<Rightarrow> string option) \<Rightarrow> bool \<Rightarrow> string \<Rightarrow> string \<Rightarrow> (string, string) hmap \<Rightarrow> string \<Rightarrow> build_error + string list list" where
  "build_ref_state_event parse_key sign repo_id head refs actor_hex =
     (case parse_key actor_hex of
        None \<Rightarrow> Err InvalidActor
      | Some actor \<Rightarrow>
          if \<not> sign then Err SignFailed
          else Ok ([[''d'', repo_id]]
                   @ map (\<lambda>(name, oid). [name, oid]) (filter (\<lambda>(name, oid). is_emittable_ref name \<and> is_valid_oid oid) refs)
                   @ (if head \<noteq> [] \<and> is_emittable_ref head then [[''HEAD'', ''ref: '' @ head]] else [])
                   @ [[''p'', actor]]))"

section \<open>A push\<close>

record pack_output =
  po_stdout :: bytes
  po_ok :: bool

text \<open>What the \<open>receive-pack\<close> process does: its output and status, and the workspace it leaves.\<close>

record git_run =
  gr_success :: bool
  gr_stdout :: bytes
  gr_workspace :: workspace

definition run_git_at :: "git_failure + git_run \<Rightarrow> git_reply + pack_output \<times> workspace" where
  "run_git_at outcome =
     (case outcome of
        Inl f \<Rightarrow> Err (failure_reply f)
      | Inr run \<Rightarrow>
          if length (gr_stdout run) > RECEIVE_PACK_MAX_OUTPUT_BYTES then Err (GitText 413 ''git output exceeds relay limits'')
          else Ok (\<lparr>po_stdout = gr_stdout run,
                    po_ok = (gr_success run \<and> \<not> receive_pack_report_rejected (gr_stdout run))\<rparr>, gr_workspace run))"

record push_context =
  pc_pack :: pack_output
  pc_workspace :: workspace
  pc_parent_state :: parent_state
  pc_owner :: string
  pc_repo :: string
  pc_repo_id :: string
  pc_pusher :: string
  pc_tenant :: tenant_context
  pc_hydrated_bytes :: nat

text \<open>
  The environment of one push: the publication's, the bucket a losing push re-reads, the signer, and what
  \<open>insert_event\<close> answers (\<open>Some True\<close> new, \<open>Some False\<close> already there, \<open>None\<close> an error).
\<close>

record push_env =
  pv_publish :: publish_env
  pv_later :: "bucket \<Rightarrow> bucket"
  pv_max_pack_bytes :: nat
  pv_max_repo_bytes :: nat
  pv_parse_key :: "string \<Rightarrow> string option"
  pv_sign :: bool
  pv_insert :: "bool option"

type_synonym event_log = "(uuid \<times> string list list) list"

definition build_git_response :: "pack_output \<Rightarrow> git_reply" where
  "build_git_response pack = GitBody ''application/x-git-receive-pack-result'' (po_stdout pack)"

definition manifest_changed :: "parent_state \<Rightarrow> string \<Rightarrow> bool" where
  "manifest_changed ps key =
     (case (pst_parent_digest ps, strip_prefix ''manifests/'' key) of
        (Some before, Some after) \<Rightarrow> before \<noteq> after
      | _ \<Rightarrow> True)"

definition emit_ref_state :: "push_env \<Rightarrow> push_context \<Rightarrow> manifest \<Rightarrow> event_log \<Rightarrow> event_log" where
  "emit_ref_state env ctx m log =
     (case build_ref_state_event (pv_parse_key env) (pv_sign env) (pc_repo_id ctx) (mf_head m) (mf_refs m) (pc_pusher ctx) of
        Inl _ \<Rightarrow> log
      | Inr tags \<Rightarrow> if pv_insert env = Some True then log @ [(tc_community (pc_tenant ctx), tags)] else log)"

definition cas_error_reply :: "cas_error \<Rightarrow> git_reply" where
  "cas_error_reply e =
     (case e of
        Conflict _ _ \<Rightarrow> GitText 409 ''push superseded by a concurrent writer; pull and retry''
      | ManifestInvalid _ \<Rightarrow> GitText 400 ''push produced invalid manifest state''
      | CasResourceLimit \<Rightarrow> GitText 413 ''repository exceeds relay resource limits''
      | _ \<Rightarrow> GitText 500 ''git backend error'')"

definition push_limits :: "push_env \<Rightarrow> push_context \<Rightarrow> publish_limits" where
  "push_limits env ctx =
     \<lparr>pl_parent_hydrated_bytes = pc_hydrated_bytes ctx, pl_max_pack_bytes = pv_max_pack_bytes env,
      pl_max_repo_bytes = pv_max_repo_bytes env\<rparr>"

definition finalize_push ::
  "git_lib \<Rightarrow> push_env \<Rightarrow> push_context \<Rightarrow> bucket \<times> event_log \<Rightarrow> (bucket \<times> event_log) \<times> git_reply" where
  "finalize_push lib env ctx s =
     (case s of (b, log) \<Rightarrow>
        if \<not> po_ok (pc_pack ctx) then ((b, log), build_git_response (pc_pack ctx))
        else (case cas_publish lib (pv_publish env) (pc_workspace ctx) (tc_community (pc_tenant ctx)) (pc_owner ctx)
                     (pc_repo ctx) (pc_parent_state ctx) (push_limits env ctx) (pv_later env) b of
            (b1, Inl e) \<Rightarrow> ((b1, log), cas_error_reply e)
          | (b1, Inr (m, key)) \<Rightarrow>
              ((b1, if manifest_changed (pc_parent_state ctx) key then emit_ref_state env ctx m log else log),
               build_git_response (pc_pack ctx))))"

text \<open>
  The handler. \<open>install\<close> is the installation of the hook; \<open>git\<close> runs \<open>receive-pack\<close> on the hydrated workspace,
  with the hook's verdict on the commands of the request (which calls the policy endpoint).
\<close>

definition receive_pack ::
  "git_lib \<Rightarrow> hydrate_env \<Rightarrow> hydration_options \<Rightarrow> push_env \<Rightarrow> bool \<Rightarrow> bool
     \<Rightarrow> (hydrated_repo \<Rightarrow> ((string \<times> string \<times> string) list \<Rightarrow> bool) \<Rightarrow> git_failure + git_run)
     \<Rightarrow> ((string \<times> string \<times> string) list \<Rightarrow> bool) \<Rightarrow> string \<times> tenant_context \<Rightarrow> string \<Rightarrow> string
     \<Rightarrow> bucket \<times> event_log \<Rightarrow> cache_state \<Rightarrow> (bucket \<times> event_log) \<times> cache_state \<times> git_reply" where
  "receive_pack lib henv opts env permit install git verdict auth owner repo s cs =
     (case transport_validate_repo_id owner repo of
        Inl e \<Rightarrow> (s, cs, e)
      | Inr repo_name \<Rightarrow>
          if \<not> permit then (s, cs, GIT_BUSY)
          else (case hydrate_for_write lib henv opts (tc_community (snd auth)) owner repo (fst s) cs of
              (cs1, Inl e) \<Rightarrow> (s, cs1, hydrate_error_to_response e)
            | (cs1, Inr (hydrated, ps)) \<Rightarrow>
                if \<not> install then (s, cs1, GitText 500 ''git hook install failed'')
                else (case run_git_at (git hydrated verdict) of
                    Inl e \<Rightarrow> (s, cs1, e)
                  | Inr (pack, ws) \<Rightarrow>
                      (case finalize_push lib env
                              \<lparr>pc_pack = pack, pc_workspace = ws, pc_parent_state = ps, pc_owner = owner, pc_repo = repo,
                               pc_repo_id = repo_name, pc_pusher = fst auth, pc_tenant = snd auth,
                               pc_hydrated_bytes = hr_hydrated_bytes hydrated\<rparr> s of
                         (s1, reply) \<Rightarrow> (s1, cs1, reply)))))"

text \<open>The hook's verdict: the script calls the endpoint and exits with success on 200 only.\<close>

definition hook_verdict ::
  "policy_lib \<Rightarrow> bytes \<Rightarrow> (policy_call \<Rightarrow> bool) \<Rightarrow> policy_tables \<Rightarrow> relay_state \<Rightarrow> (string \<Rightarrow> string \<Rightarrow> bool) \<Rightarrow> nat \<Rightarrow> nat
     \<Rightarrow> string \<Rightarrow> string \<Rightarrow> string \<Rightarrow> string \<Rightarrow> (string \<times> string \<times> string) list \<Rightarrow> bool" where
  "hook_verdict plib secret fails t st merge_base called now repo_name owner community pusher cmds \<longleftrightarrow>
     hook_policy_check plib secret fails now t st
       (hook_callback plib \<lparr>hk_repo_id = repo_name, hk_repo_owner = owner, hk_community_id = community,
                            hk_pusher_pubkey = pusher, hk_secret = secret\<rparr> merge_base cmds called) = PolicyAllowed"

end
