(* ===== verification/GitPush.thy ===== *)
theory GitPush
  imports GitTransport
begin

text \<open>
  What the git endpoints guarantee together: the advertisement of a clone names exactly the published refs;
  what each answer to a push says about the published state; and where the endpoints fall short of their
  comments: every accepted push is announced, and a declined push whose client asked for no report is published
  and announced too.
\<close>

section \<open>A small instance\<close>

definition demo_git_tenant :: tenant_context where
  "demo_git_tenant = \<lparr>tc_community = mk_uuid (replicate 16 0), tc_host = ''h''\<rparr>"

definition demo_penv :: push_env where
  "demo_penv = \<lparr>pv_publish = demo_env, pv_later = id, pv_max_pack_bytes = 10, pv_max_repo_bytes = 10, pv_parse_key = Some,
     pv_sign = True, pv_insert = Some True\<rparr>"

definition demo_opts :: hydration_options where
  "demo_opts = \<lparr>ho_cache_bytes = 0, ho_max_pack_bytes = 10, ho_max_repo_bytes = 10\<rparr>"

text \<open>A push that leaves the refs of the first push unchanged, and one into an empty repository.\<close>

definition demo_m3 :: manifest where
  "demo_m3 = \<lparr>mf_version = MANIFEST_VERSION, mf_head = demo_main, mf_refs = [(demo_main, demo_oid)],
              mf_packs = [''packs/'' @ demo_digest 3], mf_parent = Some (demo_digest 1)\<rparr>"

definition demo_m0 :: manifest where
  "demo_m0 = \<lparr>mf_version = MANIFEST_VERSION, mf_head = demo_main, mf_refs = [], mf_packs = [], mf_parent = None\<rparr>"

lemma demo_m3_ok: "manifest_ok demo_m3" and demo_m0_ok: "manifest_ok demo_m0"
  using demo_names is_pack_key_packs [OF demo_digest_ok [of 3]] demo_digest_ok [of 1]
  by (simp_all add: manifest_ok_def demo_m3_def demo_m0_def MAX_MANIFEST_PACKS_def MAX_MANIFEST_REFS_def)

lemma demo_sha3: "gl_sha demo_git (canonical_bytes demo_git demo_m3) = demo_digest 3"
  by (simp add: demo_git_def canonical_bytes_def demo_m3_def demo_kind_def)

lemma demo_compose3:
  "compose_manifest demo_git demo_env (demo_ws [demo_main] []) (parent_from_loaded e (demo_digest 1) demo_m1)
     limits PACK_COMPACTION_THRESHOLD b = (b, Ok demo_m3)"
proof -
  have "publish_delta demo_git demo_env (demo_ws [demo_main] []) (parent_from_loaded e (demo_digest 1) demo_m1)
     limits demo_main [(demo_main, demo_oid)] NotTried b = (b, Ok demo_m3)"
    by (simp add: publish_delta_def capture_pack_def parent_from_loaded_def demo_m1_def demo_m3_def compose_after_def
      sort_dedup_def)
  then show ?thesis
    by (simp add: compose_manifest_def demo_snapshot try_compaction_def should_compact_def parent_from_loaded_def demo_head
      PACK_COMPACTION_THRESHOLD_def MAX_MANIFEST_PACKS_def demo_m1_def)
qed

lemma demo_snapshot0: "snapshot_workspace_state (demo_ws [] []) = Ok ([], demo_main)"
proof -
  have "string_from_utf8 [] = Some []" by (simp add: string_from_utf8_def)
  then show ?thesis
    using demo_trim by (simp add: snapshot_workspace_state_def demo_ws_def str_bytes_def demo_main_def str_lines_def)
qed

lemma demo_compose0:
  "compose_manifest demo_git demo_env (demo_ws [] []) fresh_parent limits PACK_COMPACTION_THRESHOLD b = (b, Ok demo_m0)"
proof -
  have "resolve_published_head [] demo_main [] = demo_main"
    by (simp add: resolve_published_head_def demo_main_def)
  then show ?thesis
    by (simp add: compose_manifest_def demo_snapshot0 try_compaction_def should_compact_def fresh_parent_def
      PACK_COMPACTION_THRESHOLD_def publish_delta_def capture_pack_def compose_after_def demo_m0_def sort_dedup_def
      MAX_MANIFEST_PACKS_def Let_def)
qed

lemma demo_repo_valid: "transport_validate_repo_id demo_owner ''r'' = Ok ''r''"
  by (simp add: transport_validate_repo_id_def transport_repo_name_def demo_owner_def lower_hex_def strip_suffix_def
      strip_prefix_def starts_with_def is_ascii_alphanumeric_def list_all_iff)

lemma demo_fast_path: "fast_path_eligible demo_m1"
  using demo_names
  by (simp add: fast_path_eligible_def demo_m1_def demo_main_def starts_with_def MAX_FAST_PATH_REFNAME_LEN_def)

section \<open>The advertisement\<close>

lemma upload_pack_caps_length: "length (upload_pack_caps head fmt) \<le> 200 + length head + length fmt"
  by (simp add: upload_pack_caps_def)

lemma fast_path_refs:
  assumes "fast_path_eligible m" "(r, oid) \<in> set (mf_refs m)"
  shows "is_safe_refname r" "length r \<le> 4096" "is_hex_oid oid"
  using assms by (auto simp: fast_path_eligible_def list_all_iff MAX_FAST_PATH_REFNAME_LEN_def split: if_splits)

lemma fast_path_head:
  assumes "fast_path_eligible m"
  shows "\<exists>first. head_line m = Some first \<and> length first \<le> PKT_LINE_MAX_PAYLOAD"
proof -
  obtain oid where oid: "map_of (mf_refs m) (mf_head m) = Some oid"
    using assms by (auto simp: fast_path_eligible_def split: if_splits)
  note ref = fast_path_refs [OF assms map_of_SomeD [OF oid]]
  have "length oid \<le> 64" using ref(3) by (auto simp: is_hex_oid_def)
  moreover have "length (upload_pack_caps (mf_head m) ''sha256'') \<le> 4306" "length (upload_pack_caps (mf_head m) ''sha1'') \<le> 4306"
    using upload_pack_caps_length [of "mf_head m" "''sha256''"] upload_pack_caps_length [of "mf_head m" "''sha1''"] ref(2)
    by (simp_all)
  ultimately show ?thesis
    using oid by (simp add: head_line_def Let_def PKT_LINE_MAX_PAYLOAD_def)
qed

lemma ref_line_bound:
  "fast_path_eligible m \<Longrightarrow> ro \<in> set (mf_refs m) \<Longrightarrow> length (ref_line ro) \<le> PKT_LINE_MAX_PAYLOAD"
  using fast_path_refs [of m "fst ro" "snd ro"]
  by (cases ro) (auto simp: ref_line_def PKT_LINE_MAX_PAYLOAD_def is_hex_oid_def)

lemma advertisement_payloads:
  assumes "fast_path_eligible m"
  shows "\<exists>first body. head_line m = Some first \<and> build_upload_pack_advertisement m = Some body
    \<and> pkt_payloads body = str_bytes (service_line ''git-upload-pack'') # first # map ref_line (mf_refs m)"
proof -
  obtain first where first: "head_line m = Some first" "length first \<le> PKT_LINE_MAX_PAYLOAD"
    using fast_path_head [OF assms] by blast
  have service: "length (str_bytes (service_line ''git-upload-pack'')) \<le> PKT_LINE_MAX_PAYLOAD"
    by (simp add: service_line_def PKT_LINE_MAX_PAYLOAD_def)
  have refs: "\<forall>p \<in> set (map ref_line (mf_refs m)). length p \<le> PKT_LINE_MAX_PAYLOAD"
    using ref_line_bound [OF assms] by auto
  have flush: "pkt_payloads FLUSH = []" using pkt_payloads_flush [of "[]"] by simp
  show ?thesis
    using first pkt_payloads_lines [OF refs, of FLUSH] flush
    by (simp add: build_upload_pack_advertisement_def pkt_payloads_line [OF service] pkt_payloads_flush
        pkt_payloads_line [OF first(2)] comp_def)
qed

text \<open>A client's view of a ref line: the object name up to the blank, then the ref name up to the newline.\<close>

definition read_ref_line :: "bytes \<Rightarrow> (string \<times> string) option" where
  "read_ref_line line =
     map_option (\<lambda>(oid, name). (butlast name, oid)) (split_once CHR '' '' (map (\<lambda>b. char_of (unat b)) line))"

lemma read_ref_line: "is_hex_oid oid \<Longrightarrow> read_ref_line (ref_line (r, oid)) = Some (r, oid)"
proof -
  assume "is_hex_oid oid"
  then have "CHR '' '' \<notin> set oid" by (auto simp: is_hex_oid_def list_all_iff is_ascii_hexdigit_def)
  then have "split_once CHR '' '' (oid @ CHR '' '' # r @ [CHR 0x0A]) = Some (oid, r @ [CHR 0x0A])"
    by (simp add: split_once_append)
  moreover have "map (\<lambda>b. char_of (unat b)) (str_bytes t) = t" for t by (simp add: str_bytes_def comp_def)
  ultimately show ?thesis by (simp only: read_ref_line_def ref_line_def prod.case append_Cons append_Nil) simp
qed

text \<open>
  C9 (The fast path offers exactly the published refs). In every state that concurrent pushes and announcements
  reach, take a repository with a valid id whose pointer names a manifest that fits the read limit and that the
  fast path accepts, and let the reads of pointer and manifest meet no fault. The advertisement of
  \<open>git-upload-pack\<close> is answered without a permit and without a subprocess, and a client that reads its packet lines
  finds the service line, the HEAD line and then exactly the refs and object names of that manifest, in their
  order. Off the fast path the advertisement is written by the git subprocess, which this does not cover.
\<close>

theorem clone_is_offered_published_refs:
  assumes "git_laws lib" "git_reachable lib s" "head_of lib s (tc_community tenant, owner, repo) = Some d"
    "published lib (gs_bucket s) d m" "length (canonical_bytes lib m) \<le> MAX_MANIFEST_BYTES"
    "he_pointer_fault env = NoFault" "he_manifest_faults env = (NoFault, NoFault)"
    "transport_validate_repo_id owner repo = Ok name" "fast_path_eligible m"
  shows "\<exists>body first. info_refs lib env opts permit advertise tenant ''git-upload-pack'' owner repo (gs_bucket s) cs
      = (cs, Ok (GitBody ''application/x-git-upload-pack-advertisement'' body))
    \<and> head_line m = Some first
    \<and> pkt_payloads body = str_bytes (service_line ''git-upload-pack'') # first # map ref_line (mf_refs m)
    \<and> map read_ref_line (drop 2 (pkt_payloads body)) = map Some (mf_refs m)"
proof -
  obtain e m0 where obj: "object_at (gs_bucket s) (pointer_key lib (tc_community tenant) owner repo) = Some (e, str_bytes d)"
    using head_of_Some [OF assms(1) git_reachable_ok [OF assms(1,2)] assms(3)] by (auto simp: repo_key_def)
  have load: "load_manifest_for_read lib env (tc_community tenant) owner repo (gs_bucket s) = Ok (Some m)"
    using load_published [OF assms(1,4) obj assms(6,7)] assms(5) by (simp add: load_manifest_for_read_def)
  obtain first body where adv: "head_line m = Some first" "build_upload_pack_advertisement m = Some body"
      "pkt_payloads body = str_bytes (service_line ''git-upload-pack'') # first # map ref_line (mf_refs m)"
    using advertisement_payloads [OF assms(9)] by blast
  have "map (read_ref_line \<circ> ref_line) (mf_refs m) = map Some (mf_refs m)"
    using fast_path_refs(3) [OF assms(9)] read_ref_line by (auto intro!: map_cong)
  then show ?thesis
    using load adv assms(8,9) by (simp add: info_refs_def advertisement_type_def Let_def)
qed

theorem clone_is_offered_published_refs_witness:
  "\<exists>s body. git_reachable demo_git s
     \<and> info_refs demo_git demo_henv demo_opts False (\<lambda>_. Err GitError) demo_git_tenant ''git-upload-pack'' demo_owner ''r''
         (gs_bucket s) empty_cache = (empty_cache, Ok (GitBody ''application/x-git-upload-pack-advertisement'' body))
     \<and> map read_ref_line (drop 2 (pkt_payloads body)) = [Some (demo_main, demo_oid)]"
proof -
  obtain s where s: "git_reachable demo_git s" "head_of demo_git s demo_repo = Some (demo_digest 1)"
      "published demo_git (gs_bucket s) (demo_digest 1) demo_m1" using demo_first_push by blast
  have "head_of demo_git s (tc_community demo_git_tenant, demo_owner, ''r'') = Some (demo_digest 1)"
    using s(2) by (simp add: demo_git_tenant_def demo_repo_def)
  moreover have "he_pointer_fault demo_henv = NoFault" "he_manifest_faults demo_henv = (NoFault, NoFault)"
    by (simp_all add: demo_henv_def)
  ultimately obtain body where "info_refs demo_git demo_henv demo_opts False (\<lambda>_. Err GitError) demo_git_tenant ''git-upload-pack''
      demo_owner ''r'' (gs_bucket s) empty_cache = (empty_cache, Ok (GitBody ''application/x-git-upload-pack-advertisement'' body))"
      "map read_ref_line (drop 2 (pkt_payloads body)) = map Some (mf_refs demo_m1)"
    using clone_is_offered_published_refs [OF demo_git_laws s(1) _ s(3) demo_sizes(1) _ _ demo_repo_valid demo_fast_path]
    by blast
  then show ?thesis using s(1) by (auto simp: demo_m1_def)
qed

section \<open>What an answer to a push says\<close>

lemma finalize_push_cases:
  assumes "finalize_push lib env ctx (b, log) = ((b', log'), reply)"
  shows "\<not> po_ok (pc_pack ctx) \<and> b' = b \<and> log' = log \<and> reply = build_git_response (pc_pack ctx)
    \<or> po_ok (pc_pack ctx) \<and> (\<exists>e. cas_publish lib (pv_publish env) (pc_workspace ctx) (tc_community (pc_tenant ctx)) (pc_owner ctx)
          (pc_repo ctx) (pc_parent_state ctx) (push_limits env ctx) (pv_later env) b = (b', Err e)
        \<and> log' = log \<and> reply = cas_error_reply e)
    \<or> po_ok (pc_pack ctx) \<and> (\<exists>m key. cas_publish lib (pv_publish env) (pc_workspace ctx) (tc_community (pc_tenant ctx)) (pc_owner ctx)
          (pc_repo ctx) (pc_parent_state ctx) (push_limits env ctx) (pv_later env) b = (b', Ok (m, key))
        \<and> log' = (if manifest_changed (pc_parent_state ctx) key then emit_ref_state env ctx m log else log)
        \<and> reply = build_git_response (pc_pack ctx))"
  using assms by (auto simp: finalize_push_def split: if_splits prod.splits sum.splits)

lemma cas_error_reply_status: "\<exists>n t. cas_error_reply e = GitText n t \<and> 400 \<le> n"
  by (cases e) (auto simp: cas_error_reply_def)

lemma emit_ref_state_cases:
  "emit_ref_state env ctx m log = log
   \<or> (\<exists>tags. build_ref_state_event (pv_parse_key env) (pv_sign env) (pc_repo_id ctx) (mf_head m) (mf_refs m) (pc_pusher ctx) = Ok tags
        \<and> emit_ref_state env ctx m log = log @ [(tc_community (pc_tenant ctx), tags)])"
  by (simp add: emit_ref_state_def split: sum.split)

lemma run_git_ok:
  "run_git_at outcome = Ok (pack, ws) \<Longrightarrow>
     \<exists>run. outcome = Ok run \<and> ws = gr_workspace run \<and> po_stdout pack = gr_stdout run
       \<and> (po_ok pack \<longleftrightarrow> gr_success run \<and> \<not> receive_pack_report_rejected (gr_stdout run))"
  by (auto simp: run_git_at_def split: sum.splits if_splits)

lemma run_git_error: "run_git_at outcome = Err e \<Longrightarrow> \<exists>n t. e = GitText n t \<and> 400 \<le> n"
  by (auto simp: run_git_at_def failure_reply_def split: sum.splits if_splits git_failure.splits)

lemma hydrate_error_status: "\<exists>n t. hydrate_error_to_response e = GitText n t \<and> 400 \<le> n"
  by (auto simp: hydrate_error_to_response_def)

lemma validate_repo_status: "transport_validate_repo_id owner repo = Err e \<Longrightarrow> \<exists>n t. e = GitText n t \<and> 400 \<le> n"
  by (auto simp: transport_validate_repo_id_def Let_def split: if_splits)

text \<open>A push that reached its last step, and the inputs of that step.\<close>

lemma receive_pack_cases:
  assumes "receive_pack lib henv opts env permit install git verdict auth owner repo (b, log) cs = ((b', log'), cs', reply)"
  shows "b' = b \<and> log' = log \<and> (\<exists>n t. reply = GitText n t \<and> 400 \<le> n)
    \<or> (\<exists>repo_name hydrated ps run pack ctx.
          hydrate_for_write lib henv opts (tc_community (snd auth)) owner repo b cs = (cs', Ok (hydrated, ps))
        \<and> transport_validate_repo_id owner repo = Ok repo_name
        \<and> git hydrated verdict = Ok run \<and> po_stdout pack = gr_stdout run
        \<and> (po_ok pack \<longleftrightarrow> gr_success run \<and> \<not> receive_pack_report_rejected (gr_stdout run))
        \<and> ctx = \<lparr>pc_pack = pack, pc_workspace = gr_workspace run, pc_parent_state = ps, pc_owner = owner, pc_repo = repo,
                 pc_repo_id = repo_name, pc_pusher = fst auth, pc_tenant = snd auth,
                 pc_hydrated_bytes = hr_hydrated_bytes hydrated\<rparr>
        \<and> finalize_push lib env ctx (b, log) = ((b', log'), reply))"
proof (cases "transport_validate_repo_id owner repo")
  case (Inl e)
  then show ?thesis using assms validate_repo_status [OF Inl] by (auto simp: receive_pack_def)
next
  case name: (Inr repo_name)
  show ?thesis
  proof (cases "permit")
    case permit: True
    obtain cs1 h where h: "hydrate_for_write lib henv opts (tc_community (snd auth)) owner repo b cs = (cs1, h)" by fastforce
    show ?thesis
    proof (cases h)
      case (Inl e)
      then show ?thesis using assms name permit h hydrate_error_status [of e] by (auto simp: receive_pack_def)
    next
      case (Inr hp)
      obtain hydrated ps where hp: "hp = (hydrated, ps)" by fastforce
      show ?thesis
      proof (cases "install")
        case False
        then show ?thesis using assms name permit h Inr hp by (auto simp: receive_pack_def)
      next
        case True
        note d = name permit h Inr hp True
        show ?thesis
        proof (cases "run_git_at (git hydrated verdict)")
          case (Inl e)
          then show ?thesis using assms d run_git_error [OF Inl] by (auto simp: receive_pack_def)
        next
          case ran: (Inr pw)
          obtain pack ws where pw: "pw = (pack, ws)" by fastforce
          obtain run where run: "git hydrated verdict = Ok run" "ws = gr_workspace run" "po_stdout pack = gr_stdout run"
              "po_ok pack \<longleftrightarrow> gr_success run \<and> \<not> receive_pack_report_rejected (gr_stdout run)"
            using run_git_ok [OF ran [unfolded pw]] by blast
          show ?thesis
            using assms d ran pw run by (auto simp: receive_pack_def split: prod.splits)
        qed
      qed
    qed
  qed (use assms name in \<open>auto simp: receive_pack_def GIT_BUSY_def\<close>)
qed

text \<open>The pointer write of a push was accepted: \<open>cas_publish\<close> succeeded with manifest \<open>m\<close> and left bucket \<open>b'\<close>.\<close>

definition accepted ::
  "git_lib \<Rightarrow> push_env \<Rightarrow> workspace \<Rightarrow> uuid \<Rightarrow> string \<Rightarrow> string \<Rightarrow> parent_state \<Rightarrow> bucket \<Rightarrow> bucket \<Rightarrow> manifest \<Rightarrow> bool" where
  "accepted lib env ws community owner repo ps b b' m \<longleftrightarrow>
     (\<exists>limits key. cas_publish lib (pv_publish env) ws community owner repo ps limits (pv_later env) b = (b', Ok (m, key)))"

lemma finalize_push_reply:
  assumes "finalize_push lib env ctx (b, log) = ((b', log'), reply)"
  shows "log' = log \<and> (\<exists>n t. reply = GitText n t \<and> 400 \<le> n)
    \<or> reply = build_git_response (pc_pack ctx)
      \<and> (if po_ok (pc_pack ctx)
          then \<exists>m. accepted lib env (pc_workspace ctx) (tc_community (pc_tenant ctx)) (pc_owner ctx) (pc_repo ctx)
                      (pc_parent_state ctx) b b' m
               \<and> (log' = log \<or> (\<exists>tags. build_ref_state_event (pv_parse_key env) (pv_sign env) (pc_repo_id ctx) (mf_head m)
                      (mf_refs m) (pc_pusher ctx) = Ok tags \<and> log' = log @ [(tc_community (pc_tenant ctx), tags)]))
          else b' = b \<and> log' = log)"
  using finalize_push_cases [OF assms]
proof (elim disjE conjE exE)
  fix m key
  assume "po_ok (pc_pack ctx)" "reply = build_git_response (pc_pack ctx)"
    and cas: "cas_publish lib (pv_publish env) (pc_workspace ctx) (tc_community (pc_tenant ctx)) (pc_owner ctx)
          (pc_repo ctx) (pc_parent_state ctx) (push_limits env ctx) (pv_later env) b = (b', Ok (m, key))"
    and log: "log' = (if manifest_changed (pc_parent_state ctx) key then emit_ref_state env ctx m log else log)"
  moreover have "accepted lib env (pc_workspace ctx) (tc_community (pc_tenant ctx)) (pc_owner ctx) (pc_repo ctx)
      (pc_parent_state ctx) b b' m" using cas unfolding accepted_def by blast
  moreover have "log' = log \<or> (\<exists>tags. build_ref_state_event (pv_parse_key env) (pv_sign env) (pc_repo_id ctx) (mf_head m)
      (mf_refs m) (pc_pusher ctx) = Ok tags \<and> log' = log @ [(tc_community (pc_tenant ctx), tags)])"
    using emit_ref_state_cases [of env ctx m log] log by (cases "manifest_changed (pc_parent_state ctx) key") simp_all
  ultimately show ?thesis by auto
next
  fix e assume "po_ok (pc_pack ctx)" "log' = log" "reply = cas_error_reply e"
  then show ?thesis using cas_error_reply_status [of e] by auto
qed simp

text \<open>
  C8 (The push fence). Every run of the receive-pack handler ends in one of two ways. Either the answer is an
  error and no event is added. Or git ran on the hydrated workspace and the answer is a success with exactly
  git's output; then, if git failed or its report carries a rejected ref, neither the bucket nor the events
  change; otherwise the pointer write of this push was accepted, and at most one event is added, in the
  community of the request, whose tags are built from the accepted manifest with the pusher as actor.
\<close>

theorem push_fence:
  assumes "receive_pack lib henv opts env permit install git verdict auth owner repo (b, log) cs = ((b', log'), cs', reply)"
  shows "log' = log \<and> (\<exists>n t. reply = GitText n t \<and> 400 \<le> n)
    \<or> (\<exists>name hydrated ps run.
          transport_validate_repo_id owner repo = Ok name
        \<and> hydrate_for_write lib henv opts (tc_community (snd auth)) owner repo b cs = (cs', Ok (hydrated, ps))
        \<and> git hydrated verdict = Ok run
        \<and> reply = GitBody ''application/x-git-receive-pack-result'' (gr_stdout run)
        \<and> (if gr_success run \<and> \<not> receive_pack_report_rejected (gr_stdout run)
            then \<exists>m. accepted lib env (gr_workspace run) (tc_community (snd auth)) owner repo ps b b' m
                 \<and> (log' = log \<or> (\<exists>tags. build_ref_state_event (pv_parse_key env) (pv_sign env) name (mf_head m)
                        (mf_refs m) (fst auth) = Ok tags \<and> log' = log @ [(tc_community (snd auth), tags)]))
            else b' = b \<and> log' = log))"
  using receive_pack_cases [OF assms]
proof (elim disjE conjE exE)
  fix name hydrated ps run pack ctx
  assume h: "hydrate_for_write lib henv opts (tc_community (snd auth)) owner repo b cs = (cs', Ok (hydrated, ps))"
      "transport_validate_repo_id owner repo = Ok name" "git hydrated verdict = Ok run" "po_stdout pack = gr_stdout run"
      "po_ok pack \<longleftrightarrow> gr_success run \<and> \<not> receive_pack_report_rejected (gr_stdout run)"
    and ctx: "ctx = \<lparr>pc_pack = pack, pc_workspace = gr_workspace run, pc_parent_state = ps, pc_owner = owner, pc_repo = repo,
                 pc_repo_id = name, pc_pusher = fst auth, pc_tenant = snd auth,
                 pc_hydrated_bytes = hr_hydrated_bytes hydrated\<rparr>"
    and fin: "finalize_push lib env ctx (b, log) = ((b', log'), reply)"
  from finalize_push_reply [OF fin] show ?thesis
  proof
    assume "reply = build_git_response (pc_pack ctx)
      \<and> (if po_ok (pc_pack ctx)
          then \<exists>m. accepted lib env (pc_workspace ctx) (tc_community (pc_tenant ctx)) (pc_owner ctx) (pc_repo ctx)
                      (pc_parent_state ctx) b b' m
               \<and> (log' = log \<or> (\<exists>tags. build_ref_state_event (pv_parse_key env) (pv_sign env) (pc_repo_id ctx) (mf_head m)
                      (mf_refs m) (pc_pusher ctx) = Ok tags \<and> log' = log @ [(tc_community (pc_tenant ctx), tags)]))
          else b' = b \<and> log' = log)"
    then show ?thesis
      using h by (intro disjI2 exI [of _ name] exI [of _ hydrated] exI [of _ ps] exI [of _ run])
        (simp add: ctx build_git_response_def cong: if_cong)
  qed blast
qed simp

theorem push_fence_witness:
  "\<exists>b' log'. fst (receive_pack demo_git demo_henv demo_opts demo_penv True True
       (\<lambda>_ _. Ok \<lparr>gr_success = False, gr_stdout = [], gr_workspace = demo_ws [] []\<rparr>) (\<lambda>_. True) (demo_owner, demo_git_tenant)
       demo_owner ''r'' (empty_bucket, []) empty_cache) = (b', log') \<and> log' = [] \<and> b' = empty_bucket"
proof -
  let ?git = "\<lambda>_ _. Ok \<lparr>gr_success = False, gr_stdout = [], gr_workspace = demo_ws [] []\<rparr>"
  have "\<exists>b' log' cs'. receive_pack demo_git demo_henv demo_opts demo_penv True True ?git (\<lambda>_. True) (demo_owner, demo_git_tenant)
       demo_owner ''r'' (empty_bucket, []) empty_cache = ((b', log'), cs', GitBody ''application/x-git-receive-pack-result'' [])"
    using demo_load0
    by (simp add: receive_pack_def demo_repo_valid hydrate_for_write_def demo_git_tenant_def git_start_def demo_henv_def run_git_at_def
        finalize_push_def build_git_response_def receive_pack_report_rejected_def)
  then obtain b' log' cs' where run: "receive_pack demo_git demo_henv demo_opts demo_penv True True ?git (\<lambda>_. True)
      (demo_owner, demo_git_tenant) demo_owner ''r'' (empty_bucket, []) empty_cache
      = ((b', log'), cs', GitBody ''application/x-git-receive-pack-result'' [])" by blast
  from push_fence [OF run] have "b' = empty_bucket \<and> log' = []" by auto
  then show ?thesis using run by simp
qed

section \<open>Every accepted push is announced\<close>

lemma published_digest_is_new:
  assumes "git_laws lib" "bucket_ok lib b" "parent_ok lib b ps" "no_clash lib b m"
    "cas_publish_inner lib env ws c owner repo ps limits threshold later b = (b', Ok (m, key))"
  shows "\<exists>d. key = manifest_key d \<and> pst_parent_digest ps \<noteq> Some d"
proof -
  from assms(5) obtain b1 b2 where compose: "compose_manifest lib env ws ps limits threshold b = (b1, Ok m)"
    and wrote: "write_manifest lib env m b1 = (b2, Ok key)"
    by (auto simp: cas_publish_inner_def commit_pointer_def Let_def
        split: prod.splits sum.splits cas_outcome.splits)
  have valid: "manifest_ok m" and put: "put_manifest lib (pe_manifest_fault env) (canonical_bytes lib m) b1 = (b2, Ok key)"
    using wrote by (auto simp: write_manifest_def validate_iff split: sum.splits prod.splits)
  note effect = compose_manifest_effect [OF assms(1) compose parent_ok_packs [OF assms(3)]]
  have up: "uploads lib b b1" by (rule effect(1))
  have comp: "composed_ok b1 (pst_parent_digest ps) m" using effect(2) by simp
  then have par: "mf_parent m = pst_parent_digest ps" by (simp add: composed_ok_def)
  have parents: "\<forall>p. mf_parent m = Some p \<longrightarrow> (\<exists>m'. published lib b1 p m')"
    using parent_ok_digest [OF assms(3)] par published_keeps [OF _ grows_keeps [OF uploads_grows [OF up]]] by metis
  have clash: "no_clash lib b1 m" using assms(4) up by (simp add: no_clash_def uploads_def content_key_manifest)
  note stored = store_manifest [OF assms(1) bucket_ok_uploads [OF assms(1,2) up] valid _ parents clash put, unfolded par, OF comp]
  obtain d where d: "key = manifest_key d" "published lib b2 d m" using stored(3) by blast
  have "acyclic (parent_rel lib b2)" using stored(1) by (simp add: bucket_ok_def)
  then have "(d, d) \<notin> parent_rel lib b2" by (auto simp: acyclic_def)
  then show ?thesis using d par by (auto simp: parent_rel_def)
qed

lemma manifest_changed_published:
  assumes "git_laws lib" "git_reachable lib s" "load_pointer lib henv c owner repo (gs_bucket s) = Ok loaded"
    "no_clash lib (gs_bucket s) m"
    "cas_publish lib env ws c owner repo (parent_of loaded) limits later (gs_bucket s) = (b', Ok (m, key))"
  shows "manifest_changed (parent_of loaded) key"
proof -
  have ok: "bucket_ok lib (gs_bucket s)" using git_reachable_ok [OF assms(1,2)] by (simp add: git_ok_def)
  obtain d where "key = manifest_key d" "pst_parent_digest (parent_of loaded) \<noteq> Some d"
    using published_digest_is_new [OF assms(1) ok loaded_parent_ok [OF assms(1) ok assms(3)] assms(4) assms(5) [unfolded cas_publish_def]]
    by blast
  then show ?thesis
    by (auto simp: manifest_changed_def manifest_key_def strip_prefix_Some split: option.split)
qed

text \<open>
  Every accepted push is announced. The comment above \<open>manifest_changed\<close> says that a push that changes
  nothing is detected by its digest and pays for no event. A manifest contains the digest of its parent, so
  its digest never equals that digest: in every reachable state, whatever the workspace holds, a publication
  that succeeds is taken for a change, and if the event can be built and is stored, it is announced.
\<close>

theorem every_accepted_push_announced:
  assumes "git_laws lib" "git_reachable lib s"
    "load_pointer lib henv (tc_community (pc_tenant ctx)) (pc_owner ctx) (pc_repo ctx) (gs_bucket s) = Ok loaded"
    "pc_parent_state ctx = parent_of loaded" "po_ok (pc_pack ctx)" "no_clash lib (gs_bucket s) m"
    "cas_publish lib (pv_publish env) (pc_workspace ctx) (tc_community (pc_tenant ctx)) (pc_owner ctx) (pc_repo ctx)
       (pc_parent_state ctx) (push_limits env ctx) (pv_later env) (gs_bucket s) = (b', Ok (m, key))"
    "build_ref_state_event (pv_parse_key env) (pv_sign env) (pc_repo_id ctx) (mf_head m) (mf_refs m) (pc_pusher ctx) = Ok tags"
    "pv_insert env = Some True"
  shows "finalize_push lib env ctx (gs_bucket s, log)
    = ((b', log @ [(tc_community (pc_tenant ctx), tags)]), build_git_response (pc_pack ctx))"
  using manifest_changed_published [OF assms(1,2,3,6) assms(7) [unfolded assms(4)]] assms(4,5,7,8,9)
  by (simp add: finalize_push_def emit_ref_state_def)

theorem every_accepted_push_announced_witness:
  "\<exists>s ctx b' tags. git_reachable demo_git s \<and> head_of demo_git s demo_repo = Some (demo_digest 1)
     \<and> snapshot_workspace_state (pc_workspace ctx) = Ok (mf_refs demo_m1, demo_main)
     \<and> finalize_push demo_git demo_penv ctx (gs_bucket s, [])
         = ((b', [(tc_community demo_git_tenant, tags)]), GitBody ''application/x-git-receive-pack-result'' [])"
proof -
  obtain s where s: "git_reachable demo_git s" "head_of demo_git s demo_repo = Some (demo_digest 1)"
      "published demo_git (gs_bucket s) (demo_digest 1) demo_m1"
      "\<forall>n. demo_digest n \<noteq> demo_digest 1 \<longrightarrow> object_at (gs_bucket s) (manifest_key (demo_digest n)) = None"
    using demo_first_push_fresh by blast
  obtain e where load: "load_pointer demo_git demo_henv (mk_uuid (replicate 16 0)) demo_owner ''r'' (gs_bucket s)
      = Ok (Some (e, demo_digest 1, demo_m1))" using demo_load1 [OF s(2,1,3)] by blast
  let ?ps = "parent_of (Some (e, demo_digest 1, demo_m1))"
  define ctx where "ctx = \<lparr>pc_pack = \<lparr>po_stdout = [], po_ok = True\<rparr>, pc_workspace = demo_ws [demo_main] [], pc_parent_state = ?ps,
     pc_owner = demo_owner, pc_repo = ''r'', pc_repo_id = ''r'', pc_pusher = demo_owner, pc_tenant = demo_git_tenant,
     pc_hydrated_bytes = 0\<rparr>"
  have "demo_digest 3 \<noteq> demo_digest 1" by (simp add: demo_digest_def)
  then have clash: "no_clash demo_git (gs_bucket s) demo_m3"
    using s(4) by (simp add: no_clash_def content_key_manifest demo_sha3)
  have compose: "compose_manifest demo_git demo_env (demo_ws [demo_main] []) ?ps (push_limits demo_penv ctx)
      PACK_COMPACTION_THRESHOLD (gs_bucket s) = (gs_bucket s, Ok demo_m3)"
    by (simp only: parent_of_def option.case prod.case demo_compose3)
  obtain b' key where cas: "cas_publish demo_git demo_env (demo_ws [demo_main] []) (mk_uuid (replicate 16 0)) demo_owner ''r'' ?ps
      (push_limits demo_penv ctx) id (gs_bucket s) = (b', Ok (demo_m3, key))"
    using undisturbed_push_aux [OF demo_git_laws s(1) demo_quiet load compose demo_m3_ok clash, of id]
    unfolding cas_publish_def by blast
  obtain tags where tags: "build_ref_state_event Some True ''r'' demo_main (mf_refs demo_m3) demo_owner = Ok tags"
    by (simp add: build_ref_state_event_def)
  have "finalize_push demo_git demo_penv ctx (gs_bucket s, [])
      = ((b', [] @ [(tc_community (pc_tenant ctx), tags)]), build_git_response (pc_pack ctx))"
    by (rule every_accepted_push_announced [OF demo_git_laws s(1), where loaded = "Some (e, demo_digest 1, demo_m1)" and henv = demo_henv
          and m = demo_m3 and key = key])
       (use load clash cas tags in \<open>simp_all add: ctx_def demo_git_tenant_def demo_penv_def\<close>, simp_all add: demo_m3_def)
  then show ?thesis
    using s(1,2) demo_snapshot(1) by (intro exI [of _ s] exI [of _ ctx]) (auto simp: ctx_def build_git_response_def demo_m1_def)
qed

section \<open>A declined push without a report\<close>

lemma hydrate_for_write_parent:
  "hydrate_for_write lib henv opts c owner repo b cs = (cs1, Ok (hydrated, ps)) \<Longrightarrow>
     \<exists>loaded. load_pointer lib henv c owner repo b = Ok loaded \<and> ps = parent_of loaded"
  by (auto simp: hydrate_for_write_def parent_of_def split: sum.splits option.splits prod.splits if_splits)

lemma compose_refs:
  assumes "compose_manifest lib env ws ps limits threshold b = (b', Ok m)" "snapshot_workspace_state ws = Ok (refs, observed)"
  shows "mf_refs m = refs"
proof -
  obtain b1 t where tc: "try_compaction lib env ws refs limits threshold (length (mf_packs (pst_parent ps))) b = (b1, t)"
    by fastforce
  have delta: "mf_refs m = refs" if "publish_delta lib env ws ps limits head refs t b1 = (b', Ok m)" for head
    using that by (auto simp: publish_delta_def compose_after_def Let_def split: sum.splits option.splits if_splits prod.splits)
  show ?thesis
    using assms tc delta by (cases t) (auto simp: compose_manifest_def Let_def compose_compacted_after_def)
qed

lemma no_clash_uploads: "uploads lib b b1 \<Longrightarrow> no_clash lib b m \<Longrightarrow> no_clash lib b1 m"
  by (simp add: no_clash_def uploads_def content_key_manifest)

lemma declined_push_aux:
  assumes "git_laws lib" "git_reachable lib s" "quiet_publish lib (pv_publish env)"
    "transport_validate_repo_id owner repo = Ok name"
    "hydrate_for_write lib henv opts (tc_community tenant) owner repo (gs_bucket s) cs = (cs1, Ok (hydrated, ps))"
    "git hydrated verdict = Ok \<lparr>gr_success = True, gr_stdout = out, gr_workspace = ws\<rparr>"
    "pkt_payloads out = []" "length out \<le> RECEIVE_PACK_MAX_OUTPUT_BYTES"
    "compose_manifest lib (pv_publish env) ws ps
       \<lparr>pl_parent_hydrated_bytes = hr_hydrated_bytes hydrated, pl_max_pack_bytes = pv_max_pack_bytes env,
        pl_max_repo_bytes = pv_max_repo_bytes env\<rparr> PACK_COMPACTION_THRESHOLD (gs_bucket s) = (b1, Ok m)"
    "manifest_ok m" "no_clash lib (gs_bucket s) m"
    "build_ref_state_event (pv_parse_key env) (pv_sign env) name (mf_head m) (mf_refs m) pusher = Ok tags"
    "pv_insert env = Some True"
  shows "\<exists>s'. (git_step lib)\<^sup>*\<^sup>* s s'
    \<and> receive_pack lib henv opts env True True git verdict (pusher, tenant) owner repo (gs_bucket s, log) cs
        = ((gs_bucket s', log @ [(tc_community tenant, tags)]), cs1,
           GitBody ''application/x-git-receive-pack-result'' out)
    \<and> head_of lib s' (tc_community tenant, owner, repo) = Some (gl_sha lib (canonical_bytes lib m))
    \<and> pst_parent_digest ps \<noteq> Some (gl_sha lib (canonical_bytes lib m))"
proof -
  obtain loaded where loaded: "load_pointer lib henv (tc_community tenant) owner repo (gs_bucket s) = Ok loaded"
      "ps = parent_of loaded" using hydrate_for_write_parent [OF assms(5)] by blast
  have ok: "bucket_ok lib (gs_bucket s)" using git_reachable_ok [OF assms(1,2)] by (simp add: git_ok_def)
  note effect = compose_manifest_effect [OF assms(1,9) parent_ok_packs [OF loaded_parent_ok [OF assms(1) ok loaded(1), folded loaded(2)]]]
  have clash: "no_clash lib b1 m" by (rule no_clash_uploads [OF effect(1) assms(11)])
  define limits where "limits = \<lparr>pl_parent_hydrated_bytes = hr_hydrated_bytes hydrated, pl_max_pack_bytes = pv_max_pack_bytes env,
        pl_max_repo_bytes = pv_max_repo_bytes env\<rparr>"
  obtain s' where s': "(git_step lib)\<^sup>*\<^sup>* s s'"
      "cas_publish_inner lib (pv_publish env) ws (tc_community tenant) owner repo ps limits PACK_COMPACTION_THRESHOLD
         (pv_later env) (gs_bucket s) = (gs_bucket s', Ok (m, manifest_key (gl_sha lib (canonical_bytes lib m))))"
      "head_of lib s' (tc_community tenant, owner, repo) = Some (gl_sha lib (canonical_bytes lib m))"
    using undisturbed_push_aux [OF assms(1,2,3) loaded(1) assms(9) [unfolded loaded(2)] assms(10) clash, of "pv_later env"]
    by (auto simp: loaded(2) limits_def)
  have cas: "cas_publish lib (pv_publish env) ws (tc_community tenant) owner repo ps limits (pv_later env) (gs_bucket s)
      = (gs_bucket s', Ok (m, manifest_key (gl_sha lib (canonical_bytes lib m))))"
    using s'(2) by (simp add: cas_publish_def)
  have changed: "manifest_changed ps (manifest_key (gl_sha lib (canonical_bytes lib m)))"
    using manifest_changed_published [OF assms(1,2) loaded(1) assms(11)] cas loaded(2) by blast
  have ran: "run_git_at (git hydrated verdict) = Ok (\<lparr>po_stdout = out, po_ok = True\<rparr>, ws)"
    using assms(6,7,8) by (simp add: run_git_at_def receive_pack_report_rejected_def)
  moreover have "pst_parent_digest ps \<noteq> Some (gl_sha lib (canonical_bytes lib m))"
    using changed by (auto simp: manifest_changed_def manifest_key_def strip_prefix_def starts_with_def)
  ultimately show ?thesis
    using s'(1,3) assms(4,5,12,13) cas changed
    by (intro exI [of _ s']) (simp add: receive_pack_def finalize_push_def push_limits_def limits_def emit_ref_state_def build_git_response_def)
qed

text \<open>
  C11 (A declined push without a report is published). The relay learns that the hook declined a push only from
  the \<open>ng\<close> lines of the report, and a client need not ask for a report: then git, which exits with success,
  prints no packet line. For whatever verdict, if the workspace still has the published refs, the push
  is published: the pointer moves to a new manifest with the same refs, an event that names the declined pusher
  as actor is stored, and the answer is a success.
\<close>

theorem declined_push_without_report:
  assumes "git_laws lib" "git_reachable lib s" "quiet_publish lib (pv_publish env)"
    "transport_validate_repo_id owner repo = Ok name"
    "hydrate_for_write lib henv opts (tc_community tenant) owner repo (gs_bucket s) cs = (cs1, Ok (hydrated, ps))"
    "git hydrated (\<lambda>_. False) = Ok \<lparr>gr_success = True, gr_stdout = out, gr_workspace = ws\<rparr>"
    "pkt_payloads out = []" "length out \<le> RECEIVE_PACK_MAX_OUTPUT_BYTES"
    "snapshot_workspace_state ws = Ok (mf_refs (pst_parent ps), observed)"
    "compose_manifest lib (pv_publish env) ws ps
       \<lparr>pl_parent_hydrated_bytes = hr_hydrated_bytes hydrated, pl_max_pack_bytes = pv_max_pack_bytes env,
        pl_max_repo_bytes = pv_max_repo_bytes env\<rparr> PACK_COMPACTION_THRESHOLD (gs_bucket s) = (b1, Ok m)"
    "manifest_ok m" "no_clash lib (gs_bucket s) m"
    "build_ref_state_event (pv_parse_key env) (pv_sign env) name (mf_head m) (mf_refs m) pusher = Ok tags"
    "pv_insert env = Some True"
  shows "\<exists>s' d. (git_step lib)\<^sup>*\<^sup>* s s'
    \<and> receive_pack lib henv opts env True True git (\<lambda>_. False) (pusher, tenant) owner repo (gs_bucket s, log) cs
        = ((gs_bucket s', log @ [(tc_community tenant, tags)]), cs1,
           GitBody ''application/x-git-receive-pack-result'' out)
    \<and> head_of lib s' (tc_community tenant, owner, repo) = Some d \<and> pst_parent_digest ps \<noteq> Some d
    \<and> mf_refs m = mf_refs (pst_parent ps)"
proof -
  obtain loaded where loaded: "load_pointer lib henv (tc_community tenant) owner repo (gs_bucket s) = Ok loaded"
      "ps = parent_of loaded" using hydrate_for_write_parent [OF assms(5)] by blast
  obtain s' where s': "(git_step lib)\<^sup>*\<^sup>* s s'"
     "receive_pack lib henv opts env True True git (\<lambda>_. False) (pusher, tenant) owner repo (gs_bucket s, log) cs
        = ((gs_bucket s', log @ [(tc_community tenant, tags)]), cs1,
           GitBody ''application/x-git-receive-pack-result'' out)"
     "head_of lib s' (tc_community tenant, owner, repo) = Some (gl_sha lib (canonical_bytes lib m))"
     "pst_parent_digest ps \<noteq> Some (gl_sha lib (canonical_bytes lib m))"
    using declined_push_aux [where git = git and verdict = "\<lambda>_. False", OF assms(1-8,10-14), of log] by blast
  show ?thesis using s' compose_refs [OF assms(10,9)] by blast
qed

theorem declined_push_without_report_witness:
  "\<exists>s d tags. git_reachable demo_git s
     \<and> receive_pack demo_git demo_henv demo_opts demo_penv True True
         (\<lambda>_ _. Ok \<lparr>gr_success = True, gr_stdout = FLUSH, gr_workspace = demo_ws [] []\<rparr>) (\<lambda>_. False)
         (demo_owner, demo_git_tenant) demo_owner ''r'' (empty_bucket, []) empty_cache
       = ((gs_bucket s, [(tc_community demo_git_tenant, tags)]), empty_cache,
          GitBody ''application/x-git-receive-pack-result'' FLUSH)
     \<and> head_of demo_git s demo_repo = Some d"
proof -
  have hydrate: "hydrate_for_write demo_git demo_henv demo_opts (tc_community demo_git_tenant) demo_owner ''r'' (gs_bucket git_start) empty_cache
      = (empty_cache, Ok (fresh_repo, fresh_parent))"
    using demo_load0 by (simp add: hydrate_for_write_def demo_git_tenant_def demo_henv_def)
  have flush: "pkt_payloads FLUSH = []" "length FLUSH \<le> RECEIVE_PACK_MAX_OUTPUT_BYTES"
    using pkt_payloads_flush [of "[]"] by (simp_all add: FLUSH_def RECEIVE_PACK_MAX_OUTPUT_BYTES_def)
  have clash: "no_clash demo_git (gs_bucket git_start) demo_m0" by (simp add: no_clash_def git_start_def empty_bucket_def)
  obtain tags where tags: "build_ref_state_event Some True ''r'' (mf_head demo_m0) (mf_refs demo_m0) demo_owner = Ok tags"
    by (simp add: build_ref_state_event_def)
  have env: "pv_publish demo_penv = demo_env" "pv_parse_key demo_penv = Some" "pv_sign demo_penv = True" "pv_insert demo_penv = Some True"
    by (simp_all add: demo_penv_def)
  have snap: "snapshot_workspace_state (demo_ws [] []) = Ok (mf_refs (pst_parent fresh_parent), demo_main)"
    by (simp add: demo_snapshot0 fresh_parent_def)
  obtain s' d where s': "(git_step demo_git)\<^sup>*\<^sup>* git_start s'"
     "receive_pack demo_git demo_henv demo_opts demo_penv True True
         (\<lambda>_ _. Ok \<lparr>gr_success = True, gr_stdout = FLUSH, gr_workspace = demo_ws [] []\<rparr>) (\<lambda>_. False)
         (demo_owner, demo_git_tenant) demo_owner ''r'' (gs_bucket git_start, []) empty_cache
       = ((gs_bucket s', [] @ [(tc_community demo_git_tenant, tags)]), empty_cache,
          GitBody ''application/x-git-receive-pack-result'' FLUSH)"
     "head_of demo_git s' (tc_community demo_git_tenant, demo_owner, ''r'') = Some d"
    using declined_push_without_report [where git = "\<lambda>_ _. Ok \<lparr>gr_success = True, gr_stdout = FLUSH, gr_workspace = demo_ws [] []\<rparr>"
        and env = demo_penv, unfolded env, OF demo_git_laws demo_start demo_quiet demo_repo_valid hydrate refl flush snap
          demo_compose0 demo_m0_ok clash _ refl, of demo_owner tags "[]"] tags
    by auto
  have "git_reachable demo_git s'" using s'(1) by (simp add: git_reachable_def)
  moreover have "head_of demo_git s' demo_repo = Some d" using s'(3) by (simp add: demo_repo_def demo_git_tenant_def)
  moreover have "gs_bucket git_start = empty_bucket" by (simp add: git_start_def)
  ultimately show ?thesis using s'(2) by (intro exI [of _ s'] exI [of _ d] exI [of _ tags]) simp
qed

end
