(* ===== verification/GitBans.thy ===== *)
theory GitBans
  imports GitTransport AgentOwners
begin

text \<open>
  Bans and the git endpoints: neither the authentication of a git request nor the policy of a push looks at the
  community's bans.
\<close>

section \<open>Neither authentication nor policy reads the bans\<close>

lemma tables_beside_bans:
  "rs_members (st\<lparr>rs_banned := bans\<rparr>) = rs_members st" "rs_users (st\<lparr>rs_banned := bans\<rparr>) = rs_users st"
  by simp_all

lemma member_ignores_bans:
  "check_relay_membership alib cfg fails (st\<lparr>rs_banned := bans\<rparr>) c pk tag = check_relay_membership alib cfg fails st c pk tag"
  unfolding check_relay_membership_def tables_beside_bans ..

lemma role_ignores_bans:
  "pusher_role fails t (st\<lparr>rs_banned := bans\<rparr>) c owner author pusher channel = pusher_role fails t st c owner author pusher channel"
  unfolding pusher_role_def is_agent_owner_def tables_beside_bans ..

lemma git_auth_ignores_bans:
  "git_auth lib glib alib cfg fails resolve_host (st\<lparr>rs_banned := bans\<rparr>) now req_method path headers
   = git_auth lib glib alib cfg fails resolve_host st now req_method path headers"
  unfolding git_auth_def enforce_relay_membership_def member_ignores_bans ..

lemma policy_ignores_bans:
  "hook_policy_check plib secret fails now t (st\<lparr>rs_banned := bans\<rparr>) req = hook_policy_check plib secret fails now t st req"
  unfolding hook_policy_check_def resolve_policy_def role_ignores_bans ..

text \<open>
  C12 (Bans do not reach git). A ban is documented as an admission boundary, and the gate of the websocket refuses a
  banned key. The git endpoints never ask: for whatever request, authentication by the git server and the policy
  endpoint answer a banned key exactly as they would without any ban, so a banned member still clones and pushes.
\<close>

theorem bans_do_not_reach_git:
  assumes "(c, pk) \<in> set (rs_banned st)"
  shows "ban_gate alib fails st c pk tag \<noteq> BanClear
    \<and> git_auth lib glib alib cfg fails resolve_host st now req_method path headers
        = git_auth lib glib alib cfg fails resolve_host (st\<lparr>rs_banned := []\<rparr>) now req_method path headers
    \<and> hook_policy_check plib secret pfails now' t st req = hook_policy_check plib secret pfails now' t (st\<lparr>rs_banned := []\<rparr>) req"
  using assms by (simp add: ban_gate_clear_iff git_auth_ignores_bans policy_ignores_bans)

theorem bans_do_not_reach_git_witness:
  "ban_gate demo_attest (\<lambda>_. False) (demo_tables\<lparr>rs_banned := [(demo_community, demo_owner)]\<rparr>) demo_community demo_owner None \<noteq> BanClear
   \<and> hook_policy_check demo_policy [7] (\<lambda>_. False) 12 demo_policy_tables (demo_tables\<lparr>rs_banned := [(demo_community, demo_owner)]\<rparr>) demo_call
       = hook_policy_check demo_policy [7] (\<lambda>_. False) 12 demo_policy_tables demo_tables demo_call"
proof -
  let ?st = "demo_tables\<lparr>rs_banned := [(demo_community, demo_owner)]\<rparr>"
  have "?st\<lparr>rs_banned := []\<rparr> = demo_tables" by (simp add: demo_tables_def)
  moreover have "(demo_community, demo_owner) \<in> set (rs_banned ?st)" by simp
  ultimately show ?thesis using bans_do_not_reach_git [of demo_community demo_owner ?st] by metis
qed

end
