(* ===== verification/EventKinds.thy ===== *)
theory EventKinds
  imports Prelude
begin

text \<open>
  The event kinds of \<open>crates/buzz-core/src/kind.rs\<close> and their classes. A kind is the 16-bit number of an
  event, here a natural number.
\<close>

abbreviation "KIND_PROFILE \<equiv> 0 :: nat"
abbreviation "KIND_TEXT_NOTE \<equiv> 1 :: nat"
abbreviation "KIND_CONTACT_LIST \<equiv> 3 :: nat"
abbreviation "KIND_MUTE_LIST \<equiv> 10000 :: nat"
abbreviation "KIND_PIN_LIST \<equiv> 10001 :: nat"
abbreviation "KIND_NIP65_RELAY_LIST_METADATA \<equiv> 10002 :: nat"
abbreviation "KIND_BOOKMARK_LIST \<equiv> 10003 :: nat"
abbreviation "KIND_EMOJI_LIST \<equiv> 10030 :: nat"
abbreviation "KIND_FOLLOW_SET \<equiv> 30000 :: nat"
abbreviation "KIND_BOOKMARK_SET \<equiv> 30003 :: nat"
abbreviation "KIND_EMOJI_SET \<equiv> 30030 :: nat"
abbreviation "KIND_CHANNEL_METADATA \<equiv> 41 :: nat"
abbreviation "KIND_DELETION \<equiv> 5 :: nat"
abbreviation "KIND_REACTION \<equiv> 7 :: nat"
abbreviation "KIND_GIFT_WRAP \<equiv> 1059 :: nat"
abbreviation "KIND_FILE_METADATA \<equiv> 1063 :: nat"
abbreviation "KIND_LONG_FORM \<equiv> 30023 :: nat"
abbreviation "KIND_USER_STATUS \<equiv> 30315 :: nat"
abbreviation "KIND_READ_STATE \<equiv> 30078 :: nat"
abbreviation "KIND_AUTH \<equiv> 22242 :: nat"
abbreviation "KIND_BLOSSOM_AUTH \<equiv> 24242 :: nat"
abbreviation "KIND_NOSTR_IDENTITY_BINDING \<equiv> 24243 :: nat"
abbreviation "KIND_HTTP_AUTH \<equiv> 27235 :: nat"
abbreviation "KIND_AGENT_PROFILE \<equiv> 10100 :: nat"
abbreviation "KIND_AGENT_ENGRAM \<equiv> 30174 :: nat"
abbreviation "KIND_EVENT_REMINDER \<equiv> 30300 :: nat"
abbreviation "KIND_PUSH_LEASE \<equiv> 30350 :: nat"
abbreviation "KIND_PERSONA \<equiv> 30175 :: nat"
abbreviation "KIND_TEAM \<equiv> 30176 :: nat"
abbreviation "KIND_MANAGED_AGENT \<equiv> 30177 :: nat"
abbreviation "KIND_REPORT \<equiv> 1984 :: nat"
abbreviation "KIND_PRODUCT_FEEDBACK \<equiv> 42000 :: nat"
abbreviation "KIND_NIP29_PUT_USER \<equiv> 9000 :: nat"
abbreviation "KIND_NIP29_REMOVE_USER \<equiv> 9001 :: nat"
abbreviation "KIND_NIP29_EDIT_METADATA \<equiv> 9002 :: nat"
abbreviation "KIND_NIP29_DELETE_EVENT \<equiv> 9005 :: nat"
abbreviation "KIND_NIP29_CREATE_GROUP \<equiv> 9007 :: nat"
abbreviation "KIND_NIP29_DELETE_GROUP \<equiv> 9008 :: nat"
abbreviation "KIND_NIP29_CREATE_INVITE \<equiv> 9009 :: nat"
abbreviation "KIND_NIP29_JOIN_REQUEST \<equiv> 9021 :: nat"
abbreviation "KIND_NIP29_LEAVE_REQUEST \<equiv> 9022 :: nat"
abbreviation "KIND_MODERATION_BAN \<equiv> 9040 :: nat"
abbreviation "KIND_MODERATION_UNBAN \<equiv> 9041 :: nat"
abbreviation "KIND_MODERATION_TIMEOUT \<equiv> 9042 :: nat"
abbreviation "KIND_MODERATION_UNTIMEOUT \<equiv> 9043 :: nat"
abbreviation "KIND_MODERATION_RESOLVE_REPORT \<equiv> 9044 :: nat"
abbreviation "RELAY_ADMIN_ADD_MEMBER \<equiv> 9030 :: nat"
abbreviation "RELAY_ADMIN_REMOVE_MEMBER \<equiv> 9031 :: nat"
abbreviation "RELAY_ADMIN_CHANGE_ROLE \<equiv> 9032 :: nat"
abbreviation "RELAY_ADMIN_SET_WORKSPACE_PROFILE \<equiv> 9033 :: nat"
abbreviation "KIND_NIP43_MEMBERSHIP_LIST \<equiv> 13534 :: nat"
abbreviation "KIND_NIP43_MEMBER_ADDED \<equiv> 8000 :: nat"
abbreviation "KIND_NIP43_MEMBER_REMOVED \<equiv> 8001 :: nat"
abbreviation "KIND_NIP43_LEAVE_REQUEST \<equiv> 28936 :: nat"
abbreviation "KIND_IA_ARCHIVE_REQUEST \<equiv> 9035 :: nat"
abbreviation "KIND_IA_UNARCHIVE_REQUEST \<equiv> 9036 :: nat"
abbreviation "KIND_IA_ARCHIVED \<equiv> 8002 :: nat"
abbreviation "KIND_IA_UNARCHIVED \<equiv> 8003 :: nat"
abbreviation "KIND_IA_ARCHIVED_LIST \<equiv> 13535 :: nat"
abbreviation "KIND_NIP29_GROUP_METADATA \<equiv> 39000 :: nat"
abbreviation "KIND_NIP29_GROUP_ADMINS \<equiv> 39001 :: nat"
abbreviation "KIND_NIP29_GROUP_MEMBERS \<equiv> 39002 :: nat"
abbreviation "KIND_NIP29_GROUP_ROLES \<equiv> 39003 :: nat"
abbreviation "KIND_THREAD_SUMMARY \<equiv> 39005 :: nat"
abbreviation "KIND_WINDOW_BOUNDS \<equiv> 39006 :: nat"
abbreviation "KIND_WORKFLOW_DEF \<equiv> 30620 :: nat"
abbreviation "KIND_DM_VISIBILITY \<equiv> 30622 :: nat"
abbreviation "KIND_PRESENCE_UPDATE \<equiv> 20001 :: nat"
abbreviation "KIND_PAIRING \<equiv> 24134 :: nat"
abbreviation "KIND_TYPING_INDICATOR \<equiv> 20002 :: nat"
abbreviation "KIND_AGENT_OBSERVER_FRAME \<equiv> 24200 :: nat"
abbreviation "KIND_HUDDLE_REACTION \<equiv> 24810 :: nat"
abbreviation "KIND_STREAM_MESSAGE \<equiv> 9 :: nat"
abbreviation "KIND_STREAM_MESSAGE_V2 \<equiv> 40002 :: nat"
abbreviation "KIND_STREAM_MESSAGE_EDIT \<equiv> 40003 :: nat"
abbreviation "KIND_STREAM_MESSAGE_PINNED \<equiv> 40004 :: nat"
abbreviation "KIND_STREAM_MESSAGE_BOOKMARKED \<equiv> 40005 :: nat"
abbreviation "KIND_STREAM_MESSAGE_SCHEDULED \<equiv> 40006 :: nat"
abbreviation "KIND_STREAM_REMINDER \<equiv> 40007 :: nat"
abbreviation "KIND_STREAM_MESSAGE_DIFF \<equiv> 40008 :: nat"
abbreviation "KIND_CANVAS \<equiv> 40100 :: nat"
abbreviation "KIND_SYSTEM_MESSAGE \<equiv> 40099 :: nat"
abbreviation "KIND_CHANNEL_SUMMARY \<equiv> 40901 :: nat"
abbreviation "KIND_PRESENCE_SNAPSHOT \<equiv> 40902 :: nat"
abbreviation "KIND_DM_OPEN \<equiv> 41010 :: nat"
abbreviation "KIND_DM_ADD_MEMBER \<equiv> 41011 :: nat"
abbreviation "KIND_DM_HIDE \<equiv> 41012 :: nat"
abbreviation "KIND_DM_CREATED \<equiv> 41001 :: nat"
abbreviation "KIND_JOB_REQUEST \<equiv> 43001 :: nat"
abbreviation "KIND_JOB_ACCEPTED \<equiv> 43002 :: nat"
abbreviation "KIND_JOB_PROGRESS \<equiv> 43003 :: nat"
abbreviation "KIND_JOB_RESULT \<equiv> 43004 :: nat"
abbreviation "KIND_JOB_CANCEL \<equiv> 43005 :: nat"
abbreviation "KIND_JOB_ERROR \<equiv> 43006 :: nat"
abbreviation "KIND_MEMBER_ADDED_NOTIFICATION \<equiv> 44100 :: nat"
abbreviation "KIND_MEMBER_REMOVED_NOTIFICATION \<equiv> 44101 :: nat"
abbreviation "KIND_AGENT_TURN_METRIC \<equiv> 44200 :: nat"
abbreviation "KIND_FORUM_POST \<equiv> 45001 :: nat"
abbreviation "KIND_FORUM_VOTE \<equiv> 45002 :: nat"
abbreviation "KIND_FORUM_COMMENT \<equiv> 45003 :: nat"
abbreviation "KIND_WORKFLOW_TRIGGER \<equiv> 46020 :: nat"
abbreviation "KIND_APPROVAL_GRANT \<equiv> 46030 :: nat"
abbreviation "KIND_APPROVAL_DENY \<equiv> 46031 :: nat"
abbreviation "KIND_WORKFLOW_TRIGGERED \<equiv> 46001 :: nat"
abbreviation "KIND_WORKFLOW_STEP_STARTED \<equiv> 46002 :: nat"
abbreviation "KIND_WORKFLOW_STEP_COMPLETED \<equiv> 46003 :: nat"
abbreviation "KIND_WORKFLOW_STEP_FAILED \<equiv> 46004 :: nat"
abbreviation "KIND_WORKFLOW_COMPLETED \<equiv> 46005 :: nat"
abbreviation "KIND_WORKFLOW_FAILED \<equiv> 46006 :: nat"
abbreviation "KIND_WORKFLOW_CANCELLED \<equiv> 46007 :: nat"
abbreviation "KIND_WORKFLOW_APPROVAL_REQUESTED \<equiv> 46010 :: nat"
abbreviation "KIND_WORKFLOW_APPROVAL_GRANTED \<equiv> 46011 :: nat"
abbreviation "KIND_WORKFLOW_APPROVAL_DENIED \<equiv> 46012 :: nat"
abbreviation "KIND_AUDIT_ENTRY \<equiv> 48001 :: nat"
abbreviation "KIND_HUDDLE_STARTED \<equiv> 48100 :: nat"
abbreviation "KIND_HUDDLE_PARTICIPANT_JOINED \<equiv> 48101 :: nat"
abbreviation "KIND_HUDDLE_PARTICIPANT_LEFT \<equiv> 48102 :: nat"
abbreviation "KIND_HUDDLE_ENDED \<equiv> 48103 :: nat"
abbreviation "KIND_HUDDLE_GUIDELINES \<equiv> 48106 :: nat"
abbreviation "KIND_MEDIA_UPLOAD \<equiv> 49001 :: nat"
abbreviation "KIND_GIT_REPO_ANNOUNCEMENT \<equiv> 30617 :: nat"
abbreviation "KIND_GIT_REPO_STATE \<equiv> 30618 :: nat"
abbreviation "KIND_GIT_PATCH \<equiv> 1617 :: nat"
abbreviation "KIND_GIT_PULL_REQUEST \<equiv> 1618 :: nat"
abbreviation "KIND_GIT_PR_UPDATE \<equiv> 1619 :: nat"
abbreviation "KIND_GIT_ISSUE \<equiv> 1621 :: nat"
abbreviation "KIND_GIT_STATUS_OPEN \<equiv> 1630 :: nat"
abbreviation "KIND_GIT_STATUS_MERGED \<equiv> 1631 :: nat"
abbreviation "KIND_GIT_STATUS_CLOSED \<equiv> 1632 :: nat"
abbreviation "KIND_GIT_STATUS_DRAFT \<equiv> 1633 :: nat"

section \<open>Classes\<close>

definition ALL_KINDS :: "nat list" where
  "ALL_KINDS =
    [KIND_PROFILE, KIND_TEXT_NOTE, KIND_CONTACT_LIST, KIND_MUTE_LIST, KIND_PIN_LIST,
     KIND_NIP65_RELAY_LIST_METADATA, KIND_BOOKMARK_LIST, KIND_EMOJI_LIST, KIND_FOLLOW_SET, KIND_BOOKMARK_SET,
     KIND_EMOJI_SET, KIND_CHANNEL_METADATA, KIND_DELETION, KIND_REACTION, KIND_GIFT_WRAP, KIND_FILE_METADATA,
     KIND_AGENT_PROFILE, KIND_AGENT_ENGRAM, KIND_EVENT_REMINDER, KIND_PERSONA, KIND_TEAM, KIND_MANAGED_AGENT,
     KIND_REPORT, KIND_PRODUCT_FEEDBACK, KIND_NIP29_PUT_USER, KIND_NIP29_REMOVE_USER, KIND_NIP29_EDIT_METADATA,
     KIND_NIP29_DELETE_EVENT, KIND_NIP29_CREATE_GROUP, KIND_NIP29_DELETE_GROUP, KIND_NIP29_CREATE_INVITE,
     KIND_NIP29_JOIN_REQUEST, KIND_NIP29_LEAVE_REQUEST, KIND_MODERATION_BAN, KIND_MODERATION_UNBAN,
     KIND_MODERATION_TIMEOUT, KIND_MODERATION_UNTIMEOUT, KIND_MODERATION_RESOLVE_REPORT,
     RELAY_ADMIN_ADD_MEMBER, RELAY_ADMIN_REMOVE_MEMBER, RELAY_ADMIN_CHANGE_ROLE,
     RELAY_ADMIN_SET_WORKSPACE_PROFILE, KIND_NIP43_MEMBERSHIP_LIST, KIND_NIP43_MEMBER_ADDED,
     KIND_NIP43_MEMBER_REMOVED, KIND_NIP43_LEAVE_REQUEST, KIND_IA_ARCHIVE_REQUEST, KIND_IA_UNARCHIVE_REQUEST,
     KIND_IA_ARCHIVED, KIND_IA_UNARCHIVED, KIND_IA_ARCHIVED_LIST, KIND_NIP29_GROUP_METADATA,
     KIND_NIP29_GROUP_ADMINS, KIND_NIP29_GROUP_MEMBERS, KIND_NIP29_GROUP_ROLES, KIND_THREAD_SUMMARY,
     KIND_WINDOW_BOUNDS, KIND_PRESENCE_UPDATE, KIND_TYPING_INDICATOR, KIND_HUDDLE_REACTION, KIND_BLOSSOM_AUTH,
     KIND_PAIRING, KIND_AGENT_OBSERVER_FRAME, KIND_HTTP_AUTH, KIND_STREAM_MESSAGE, KIND_STREAM_MESSAGE_V2,
     KIND_STREAM_MESSAGE_EDIT, KIND_STREAM_MESSAGE_PINNED, KIND_STREAM_MESSAGE_BOOKMARKED,
     KIND_STREAM_MESSAGE_SCHEDULED, KIND_STREAM_REMINDER, KIND_STREAM_MESSAGE_DIFF, KIND_CANVAS,
     KIND_SYSTEM_MESSAGE, KIND_CHANNEL_SUMMARY, KIND_PRESENCE_SNAPSHOT, KIND_DM_VISIBILITY, KIND_DM_OPEN,
     KIND_DM_ADD_MEMBER, KIND_DM_HIDE, KIND_DM_CREATED, KIND_JOB_REQUEST, KIND_JOB_ACCEPTED, KIND_JOB_PROGRESS,
     KIND_JOB_RESULT, KIND_JOB_CANCEL, KIND_JOB_ERROR, KIND_MEMBER_ADDED_NOTIFICATION,
     KIND_MEMBER_REMOVED_NOTIFICATION, KIND_AGENT_TURN_METRIC, KIND_WORKFLOW_DEF, KIND_LONG_FORM,
     KIND_USER_STATUS, KIND_READ_STATE, KIND_FORUM_POST, KIND_FORUM_VOTE, KIND_FORUM_COMMENT,
     KIND_WORKFLOW_TRIGGER, KIND_APPROVAL_GRANT, KIND_APPROVAL_DENY, KIND_WORKFLOW_TRIGGERED,
     KIND_WORKFLOW_STEP_STARTED, KIND_WORKFLOW_STEP_COMPLETED, KIND_WORKFLOW_STEP_FAILED,
     KIND_WORKFLOW_COMPLETED, KIND_WORKFLOW_FAILED, KIND_WORKFLOW_CANCELLED, KIND_WORKFLOW_APPROVAL_REQUESTED,
     KIND_WORKFLOW_APPROVAL_GRANTED, KIND_WORKFLOW_APPROVAL_DENIED, KIND_AUDIT_ENTRY, KIND_HUDDLE_STARTED,
     KIND_HUDDLE_PARTICIPANT_JOINED, KIND_HUDDLE_PARTICIPANT_LEFT, KIND_HUDDLE_ENDED, KIND_HUDDLE_GUIDELINES,
     KIND_MEDIA_UPLOAD, KIND_GIT_REPO_ANNOUNCEMENT, KIND_GIT_REPO_STATE, KIND_GIT_PATCH, KIND_GIT_PULL_REQUEST,
     KIND_GIT_PR_UPDATE, KIND_GIT_ISSUE, KIND_GIT_STATUS_OPEN, KIND_GIT_STATUS_MERGED, KIND_GIT_STATUS_CLOSED,
     KIND_GIT_STATUS_DRAFT]"

definition is_ephemeral :: "nat \<Rightarrow> bool" where
  "is_ephemeral kind \<longleftrightarrow> 20000 \<le> kind \<and> kind \<le> 29999"

definition is_replaceable :: "nat \<Rightarrow> bool" where
  "is_replaceable kind \<longleftrightarrow> kind \<in> {0, 3, KIND_CHANNEL_METADATA} \<or> 10000 \<le> kind \<and> kind \<le> 19999"

definition is_parameterized_replaceable :: "nat \<Rightarrow> bool" where
  "is_parameterized_replaceable kind \<longleftrightarrow> 30000 \<le> kind \<and> kind \<le> 39999"

definition is_workflow_execution_kind :: "nat \<Rightarrow> bool" where
  "is_workflow_execution_kind kind \<longleftrightarrow> KIND_WORKFLOW_TRIGGERED \<le> kind \<and> kind \<le> KIND_WORKFLOW_APPROVAL_DENIED"

definition is_moderation_command_kind :: "nat \<Rightarrow> bool" where
  "is_moderation_command_kind kind \<longleftrightarrow> kind \<in>
     {KIND_MODERATION_BAN, KIND_MODERATION_UNBAN, KIND_MODERATION_TIMEOUT, KIND_MODERATION_UNTIMEOUT,
      KIND_MODERATION_RESOLVE_REPORT}"

definition is_relay_admin_kind :: "nat \<Rightarrow> bool" where
  "is_relay_admin_kind kind \<longleftrightarrow> kind \<in>
     {RELAY_ADMIN_ADD_MEMBER, RELAY_ADMIN_REMOVE_MEMBER, RELAY_ADMIN_CHANGE_ROLE,
      RELAY_ADMIN_SET_WORKSPACE_PROFILE}"

definition is_identity_archive_request_kind :: "nat \<Rightarrow> bool" where
  "is_identity_archive_request_kind kind \<longleftrightarrow> kind \<in>
     {KIND_IA_ARCHIVE_REQUEST, KIND_IA_UNARCHIVE_REQUEST}"

definition is_command_kind :: "nat \<Rightarrow> bool" where
  "is_command_kind kind \<longleftrightarrow> kind \<in>
     {KIND_WORKFLOW_DEF, KIND_DM_OPEN, KIND_DM_ADD_MEMBER, KIND_DM_HIDE, KIND_WORKFLOW_TRIGGER,
      KIND_APPROVAL_GRANT, KIND_APPROVAL_DENY}"

definition is_relay_only_kind :: "nat \<Rightarrow> bool" where
  "is_relay_only_kind kind \<longleftrightarrow> kind \<in>
     {KIND_NIP43_MEMBERSHIP_LIST, KIND_CHANNEL_SUMMARY, KIND_PRESENCE_SNAPSHOT, KIND_DM_VISIBILITY,
      KIND_THREAD_SUMMARY, KIND_WINDOW_BOUNDS}"

lemmas kind_classes =
  is_ephemeral_def is_replaceable_def is_parameterized_replaceable_def is_workflow_execution_kind_def
  is_moderation_command_kind_def is_relay_admin_kind_def is_identity_archive_request_kind_def is_command_kind_def
  is_relay_only_kind_def

section \<open>The classes do not overlap\<close>

lemma all_kinds_distinct: "distinct ALL_KINDS"
  by (simp add: ALL_KINDS_def)

lemma stored_classes_disjoint:
  "\<not> (is_ephemeral kind \<and> is_replaceable kind)" "\<not> (is_ephemeral kind \<and> is_parameterized_replaceable kind)"
  "\<not> (is_replaceable kind \<and> is_parameterized_replaceable kind)"
  by (auto simp: kind_classes)

text \<open>The kinds that a handler executes, instead of storing the event, are each of one class.\<close>

lemma executed_classes_disjoint:
  "is_command_kind kind \<Longrightarrow> \<not> is_moderation_command_kind kind \<and> \<not> is_relay_admin_kind kind
     \<and> \<not> is_identity_archive_request_kind kind \<and> \<not> is_relay_only_kind kind \<and> \<not> is_ephemeral kind"
  "is_moderation_command_kind kind \<Longrightarrow> \<not> is_relay_admin_kind kind \<and> \<not> is_identity_archive_request_kind kind
     \<and> \<not> is_relay_only_kind kind \<and> \<not> is_ephemeral kind"
  by (auto simp: kind_classes)

end
