(* ===== verification/Moderation.thy ===== *)
theory Moderation
  imports RelayRoster GitPolicy EventKinds
begin

text \<open>
  Community moderation: who may moderate (\<open>crates/buzz-relay/src/handlers/moderation_authz.rs\<close>), the tables of
  bans, reports and actions (\<open>crates/buzz-db/src/moderation.rs\<close>), reports (\<open>handlers/report.rs\<close>) and the
  commands of kinds 9040 to 9044 (\<open>handlers/moderation_commands.rs\<close>).

  A handler is a function on the tables and the effects it has caused (closed connections, notices). Each of
  its calls to the database happens in a \<open>mod_env\<close>: the server's clock in microseconds, whether the call
  fails or its reply is lost, and what other sessions do to the tables before it. Public keys and event ids
  are their lower-case hex text.
\<close>

section \<open>Tables\<close>

datatype report_target = TargetEvent string | TargetPubkey string | TargetBlob string

record new_report =
  nr_event_id :: string
  nr_reporter :: string
  nr_target :: report_target
  nr_channel :: "uuid option"
  nr_type :: string
  nr_note :: "string option"

record report_record = new_report +
  rp_id :: uuid
  rp_status :: string
  rp_resolved_by :: "string option"
  rp_resolved_at :: "nat option"
  rp_action_id :: "uuid option"
  rp_created_at :: nat

record ban_record =
  bn_banned :: bool
  bn_ban_expires_at :: "int option"
  bn_ban_reason :: "string option"
  bn_muted_until :: "int option"
  bn_mute_reason :: "string option"
  bn_actor :: string
  bn_updated_at :: nat

record new_action =
  na_actor :: string
  na_action :: string
  na_target_pubkey :: "string option"
  na_target_event :: "string option"
  na_channel :: "uuid option"
  na_reason_code :: "string option"
  na_public_reason :: "string option"
  na_private_reason :: "string option"
  na_matched_principal :: "string option"

record action_record = new_action +
  al_id :: uuid
  al_created_at :: nat

text \<open>
  \<open>md_events\<close> gives the channel of each stored event that is not deleted, \<open>md_blobs\<close> the media files of each community. Reports
  and actions are in insertion order.
\<close>

record mod_db =
  md_roster :: roster_db
  md_channels :: policy_tables
  md_events :: "(uuid \<times> string, uuid option) hmap"
  md_blobs :: "(uuid \<times> string) list"
  md_bans :: "(uuid \<times> string, ban_record) hmap"
  md_reports :: "(uuid \<times> report_record) list"
  md_actions :: "(uuid \<times> action_record) list"

definition community_exists :: "uuid \<Rightarrow> mod_db \<Rightarrow> bool" where
  "community_exists c db \<longleftrightarrow> c \<in> fst ` set (rd_communities (md_roster db))"

definition MODERATION_ACTION_CHECK_VOCAB :: "string list" where
  "MODERATION_ACTION_CHECK_VOCAB =
     [''delete_message'', ''kick'', ''ban'', ''unban'', ''timeout'', ''untimeout'', ''dismiss_report'', ''escalate'',
      ''resolve:delete'', ''resolve:kick'', ''resolve:ban'', ''resolve:timeout'']"

section \<open>Bans and timeouts\<close>

definition ban_active :: "nat \<Rightarrow> ban_record \<Rightarrow> bool" where
  "ban_active now b \<longleftrightarrow> bn_banned b \<and> (case bn_ban_expires_at b of None \<Rightarrow> True | Some e \<Rightarrow> int now < e)"

definition mute_active :: "nat \<Rightarrow> ban_record \<Rightarrow> bool" where
  "mute_active now b \<longleftrightarrow> (case bn_muted_until b of None \<Rightarrow> False | Some e \<Rightarrow> int now < e)"

definition ban_row :: "uuid \<Rightarrow> string \<Rightarrow> mod_db \<Rightarrow> ban_record option" where
  "ban_row c pk db = map_of (md_bans db) (c, pk)"

definition put_ban :: "uuid \<Rightarrow> string \<Rightarrow> ban_record \<Rightarrow> mod_db \<Rightarrow> mod_db" where
  "put_ban c pk b db = db\<lparr>md_bans := AList.update (c, pk) b (md_bans db)\<rparr>"

text \<open>The constraints of the table: the community exists, both keys have 32 bytes.\<close>

definition ban_row_allowed :: "uuid \<Rightarrow> string \<Rightarrow> string \<Rightarrow> mod_db \<Rightarrow> bool" where
  "ban_row_allowed c pk actor db \<longleftrightarrow> community_exists c db \<and> length pk = 64 \<and> length actor = 64"

definition ban_member ::
  "nat \<Rightarrow> uuid \<Rightarrow> string \<Rightarrow> string \<Rightarrow> string option \<Rightarrow> int option \<Rightarrow> mod_db \<Rightarrow> (mod_db \<times> unit) option" where
  "ban_member now c pk actor reason expires_at db =
     (if \<not> ban_row_allowed c pk actor db then None
      else Some (put_ban c pk
        (case ban_row c pk db of
           None \<Rightarrow> \<lparr>bn_banned = True, bn_ban_expires_at = expires_at, bn_ban_reason = reason, bn_muted_until = None,
                    bn_mute_reason = None, bn_actor = actor, bn_updated_at = now\<rparr>
         | Some b \<Rightarrow> b\<lparr>bn_banned := True, bn_ban_expires_at := expires_at, bn_ban_reason := reason,
                       bn_actor := actor, bn_updated_at := now\<rparr>) db, ()))"

definition unban_member ::
  "nat \<Rightarrow> uuid \<Rightarrow> string \<Rightarrow> string \<Rightarrow> mod_db \<Rightarrow> (mod_db \<times> bool) option" where
  "unban_member now c pk actor db =
     (case ban_row c pk db of
        None \<Rightarrow> Some (db, False)
      | Some b \<Rightarrow>
          if \<not> bn_banned b then Some (db, False)
          else if length actor \<noteq> 64 then None
          else Some (put_ban c pk (b\<lparr>bn_banned := False, bn_ban_expires_at := None, bn_ban_reason := None,
                                     bn_actor := actor, bn_updated_at := now\<rparr>) db, True))"

definition timeout_member ::
  "nat \<Rightarrow> uuid \<Rightarrow> string \<Rightarrow> string \<Rightarrow> int \<Rightarrow> string option \<Rightarrow> mod_db \<Rightarrow> (mod_db \<times> unit) option" where
  "timeout_member now c pk actor muted_until reason db =
     (if \<not> ban_row_allowed c pk actor db then None
      else Some (put_ban c pk
        (case ban_row c pk db of
           None \<Rightarrow> \<lparr>bn_banned = False, bn_ban_expires_at = None, bn_ban_reason = None, bn_muted_until = Some muted_until,
                    bn_mute_reason = reason, bn_actor = actor, bn_updated_at = now\<rparr>
         | Some b \<Rightarrow> b\<lparr>bn_muted_until := Some muted_until, bn_mute_reason := reason,
                       bn_actor := actor, bn_updated_at := now\<rparr>) db, ()))"

definition untimeout_member ::
  "nat \<Rightarrow> uuid \<Rightarrow> string \<Rightarrow> string \<Rightarrow> mod_db \<Rightarrow> (mod_db \<times> bool) option" where
  "untimeout_member now c pk actor db =
     (case ban_row c pk db of
        None \<Rightarrow> Some (db, False)
      | Some b \<Rightarrow>
          if \<not> mute_active now b then Some (db, False)
          else if length actor \<noteq> 64 then None
          else Some (put_ban c pk (b\<lparr>bn_muted_until := None, bn_mute_reason := None,
                                     bn_actor := actor, bn_updated_at := now\<rparr>) db, True))"

record restriction_state =
  rt_banned :: bool
  rt_muted_until :: "int option"

definition restriction_state :: "nat \<Rightarrow> uuid \<Rightarrow> string \<Rightarrow> mod_db \<Rightarrow> restriction_state" where
  "restriction_state now c pk db =
     (case ban_row c pk db of
        None \<Rightarrow> \<lparr>rt_banned = False, rt_muted_until = None\<rparr>
      | Some b \<Rightarrow> \<lparr>rt_banned = ban_active now b,
                   rt_muted_until = (if mute_active now b then bn_muted_until b else None)\<rparr>)"

text \<open>Reads report the ban as inactive once it has expired.\<close>

definition as_of :: "nat \<Rightarrow> ban_record \<Rightarrow> ban_record" where
  "as_of now b = b\<lparr>bn_banned := ban_active now b\<rparr>"

definition get_ban :: "nat \<Rightarrow> uuid \<Rightarrow> string \<Rightarrow> mod_db \<Rightarrow> ban_record option" where
  "get_ban now c pk db = map_option (as_of now) (ban_row c pk db)"

definition list_restricted :: "nat \<Rightarrow> uuid \<Rightarrow> mod_db \<Rightarrow> (string \<times> ban_record) list" where
  "list_restricted now c db =
     sort_key (\<lambda>(pk, b). - int (bn_updated_at b))
       (map (\<lambda>((_, pk), b). (pk, as_of now b))
         (filter (\<lambda>((c', _), b). c' = c \<and> (ban_active now b \<or> mute_active now b)) (md_bans db)))"

section \<open>Reports and actions\<close>

definition report_allowed :: "uuid \<Rightarrow> 'a new_report_scheme \<Rightarrow> mod_db \<Rightarrow> bool" where
  "report_allowed c r db \<longleftrightarrow>
     community_exists c db \<and> length (nr_event_id r) = 64 \<and> length (nr_reporter r) = 64
     \<and> (case nr_target r of TargetEvent s \<Rightarrow> length s = 64 | TargetPubkey s \<Rightarrow> length s = 64 | TargetBlob s \<Rightarrow> length s = 64)
     \<and> (case nr_channel r of None \<Rightarrow> True | Some ch \<Rightarrow> (c, ch) \<in> fst ` set (pt_channels (md_channels db)))"

definition open_record :: "nat \<Rightarrow> uuid \<Rightarrow> new_report \<Rightarrow> report_record" where
  "open_record now i r =
     \<lparr>nr_event_id = nr_event_id r, nr_reporter = nr_reporter r, nr_target = nr_target r, nr_channel = nr_channel r,
      nr_type = nr_type r, nr_note = nr_note r, rp_id = i, rp_status = ''open'', rp_resolved_by = None,
      rp_resolved_at = None, rp_action_id = None, rp_created_at = now\<rparr>"

fun find_report :: "uuid \<Rightarrow> (report_record \<Rightarrow> bool) \<Rightarrow> (uuid \<times> report_record) list \<Rightarrow> report_record option" where
  "find_report c p [] = None"
| "find_report c p ((c', r) # rs) = (if c' = c \<and> p r then Some r else find_report c p rs)"

definition get_report :: "uuid \<Rightarrow> uuid \<Rightarrow> mod_db \<Rightarrow> report_record option" where
  "get_report c i db = find_report c (\<lambda>r. rp_id r = i) (md_reports db)"

definition get_report_by_event :: "uuid \<Rightarrow> string \<Rightarrow> mod_db \<Rightarrow> report_record option" where
  "get_report_by_event c event_id db = find_report c (\<lambda>r. nr_event_id r = event_id) (md_reports db)"

text \<open>
  A conflict on the signed event rewrites only that column with its own value, and returns the row. \<open>new_id\<close> is
  the fresh UUID of an insert; the primary key refuses one that is taken.
\<close>

definition insert_report :: "nat \<Rightarrow> uuid \<Rightarrow> uuid \<Rightarrow> new_report \<Rightarrow> mod_db \<Rightarrow> (mod_db \<times> uuid) option" where
  "insert_report now new_id c r db =
     (if \<not> report_allowed c r db then None
      else case get_report_by_event c (nr_event_id r) db of
        Some old \<Rightarrow> Some (db, rp_id old)
      | None \<Rightarrow>
          if get_report c new_id db \<noteq> None then None
          else Some (db\<lparr>md_reports := md_reports db @ [(c, open_record now new_id r)]\<rparr>, new_id))"

definition list_reports :: "uuid \<Rightarrow> string option \<Rightarrow> int \<Rightarrow> mod_db \<Rightarrow> report_record list option" where
  "list_reports c status limit db =
     (if limit < 0 then None
      else Some (take (nat limit) (sort_key (\<lambda>r. - int (rp_created_at r))
        (map snd (filter (\<lambda>(c', r). c' = c \<and> (status = None \<or> status = Some (rp_status r))) (md_reports db))))))"

definition status_allowed :: "string \<Rightarrow> bool" where
  "status_allowed status \<longleftrightarrow> status \<in> {''open'', ''resolved'', ''dismissed'', ''escalated''}"

definition resolve_row :: "nat \<Rightarrow> uuid \<Rightarrow> uuid \<Rightarrow> string \<Rightarrow> string \<Rightarrow> uuid option \<Rightarrow> uuid \<times> report_record \<Rightarrow> uuid \<times> report_record" where
  "resolve_row now c i status resolver action_id = (\<lambda>(c', r).
     (c', if c' = c \<and> rp_id r = i \<and> rp_status r = ''open''
          then r\<lparr>rp_status := status, rp_resolved_by := Some resolver, rp_resolved_at := Some now, rp_action_id := action_id\<rparr>
          else r))"

definition resolve_report ::
  "nat \<Rightarrow> uuid \<Rightarrow> uuid \<Rightarrow> string \<Rightarrow> string \<Rightarrow> uuid option \<Rightarrow> mod_db \<Rightarrow> (mod_db \<times> bool) option" where
  "resolve_report now c i status resolver action_id db =
     (if list_ex (\<lambda>(c', r). c' = c \<and> rp_id r = i \<and> rp_status r = ''open'') (md_reports db) then
        (if \<not> status_allowed status
            \<or> (case action_id of None \<Rightarrow> False | Some a \<Rightarrow> \<not> list_ex (\<lambda>(c', x). c' = c \<and> al_id x = a) (md_actions db))
         then None
         else Some (db\<lparr>md_reports := map (resolve_row now c i status resolver action_id) (md_reports db)\<rparr>, True))
      else Some (db, False))"

definition action_allowed :: "uuid \<Rightarrow> new_action \<Rightarrow> mod_db \<Rightarrow> bool" where
  "action_allowed c a db \<longleftrightarrow>
     community_exists c db \<and> length (na_actor a) = 64 \<and> na_action a \<in> set MODERATION_ACTION_CHECK_VOCAB
     \<and> (case na_target_pubkey a of None \<Rightarrow> True | Some s \<Rightarrow> length s = 64)
     \<and> (case na_target_event a of None \<Rightarrow> True | Some s \<Rightarrow> length s = 64)
     \<and> (case na_channel a of None \<Rightarrow> True | Some ch \<Rightarrow> (c, ch) \<in> fst ` set (pt_channels (md_channels db)))
     \<and> (case na_matched_principal a of None \<Rightarrow> True | Some p \<Rightarrow> p \<in> {''self'', ''owner''})"

definition insert_action :: "nat \<Rightarrow> uuid \<Rightarrow> uuid \<Rightarrow> new_action \<Rightarrow> mod_db \<Rightarrow> (mod_db \<times> uuid) option" where
  "insert_action now new_id c a db =
     (if \<not> action_allowed c a db \<or> list_ex (\<lambda>(c', x). c' = c \<and> al_id x = new_id) (md_actions db) then None
      else Some (db\<lparr>md_actions := md_actions db @ [(c, new_action.extend a \<lparr>al_id = new_id, al_created_at = now\<rparr>)]\<rparr>, new_id))"

definition list_actions :: "uuid \<Rightarrow> int \<Rightarrow> mod_db \<Rightarrow> action_record list option" where
  "list_actions c limit db =
     (if limit < 0 then None
      else Some (take (nat limit) (sort_key (\<lambda>a. - int (al_created_at a)) (map snd (filter (\<lambda>(c', _). c' = c) (md_actions db))))))"

section \<open>Handlers\<close>

datatype mod_notice =
    ReportResolved uuid string string
  | Restriction uuid string string

datatype mod_effect =
    DisconnectPubkey uuid string string string
  | SendNotice uuid string mod_notice

datatype mod_call =
    ReadRestriction | CheckClock | ReadActor | ReadTarget | ReadChannelRole
  | WriteRestriction | ReadReport | WriteAudit | WriteResolution | ReadReported | WriteReport

record mod_env =
  me_now :: "mod_call \<Rightarrow> nat"
  me_fault :: "mod_call \<Rightarrow> db_fault"
  me_others :: "mod_call \<Rightarrow> mod_db \<Rightarrow> mod_db"
  me_new_id :: uuid
  me_chrono :: "int \<Rightarrow> bool"

type_synonym mod_world = "mod_db \<times> mod_effect list"
type_synonym ('e, 'a) mod_handler = "mod_world \<Rightarrow> mod_world \<times> ('e + 'a)"

definition yields :: "'e + 'a \<Rightarrow> ('e, 'a) mod_handler" where
  "yields r = (\<lambda>w. (w, r))"

definition then_do :: "('e, 'a) mod_handler \<Rightarrow> ('a \<Rightarrow> ('e, 'b) mod_handler) \<Rightarrow> ('e, 'b) mod_handler" where
  "then_do m f = (\<lambda>w. case m w of (w', Inl e) \<Rightarrow> (w', Err e) | (w', Inr a) \<Rightarrow> f a w')"

definition on_error :: "('d \<Rightarrow> 'e) \<Rightarrow> ('d, 'a) mod_handler \<Rightarrow> ('e, 'a) mod_handler" where
  "on_error g m = (\<lambda>w. case m w of (w', Inl e) \<Rightarrow> (w', Err (g e)) | (w', Inr a) \<Rightarrow> (w', Ok a))"

definition db_read :: "mod_env \<Rightarrow> mod_call \<Rightarrow> 'e \<Rightarrow> (mod_db \<Rightarrow> 'a) \<Rightarrow> ('e, 'a) mod_handler" where
  "db_read env call e f = (\<lambda>(db, effs).
     let db = me_others env call db
     in ((db, effs), if me_fault env call = DbOk then Ok (f db) else Err e))"

definition db_write :: "mod_env \<Rightarrow> mod_call \<Rightarrow> 'e \<Rightarrow> (mod_db \<Rightarrow> (mod_db \<times> 'a) option) \<Rightarrow> ('e, 'a) mod_handler" where
  "db_write env call e f = (\<lambda>(db, effs).
     let db = me_others env call db
     in case commit (me_fault env call) db (f db) of
          (db, Inl _) \<Rightarrow> ((db, effs), Err e) | (db, Inr a) \<Rightarrow> ((db, effs), Ok a))"

definition emit :: "mod_effect \<Rightarrow> ('e, unit) mod_handler" where
  "emit eff = (\<lambda>(db, effs). ((db, effs @ [eff]), Ok ()))"

section \<open>Authorization\<close>

datatype moderation_action = DeleteMessage | Kick | Ban | Unban | Timeout | Untimeout | ResolveReport | ViewQueue
datatype moderation_target = EventTarget string | PubkeyTarget string | NoTarget
datatype moderation_authority = CommunityOwner | CommunityAdmin | ChannelRole
datatype authz_error = AuthzDatabase | AdminGuard | ModeratorRequired

definition decide_authority ::
  "string option \<Rightarrow> string option \<Rightarrow> string option \<Rightarrow> moderation_action \<Rightarrow> authz_error + moderation_authority" where
  "decide_authority actor_role target_role channel_role action =
     (if actor_role = Some owner_role then Ok CommunityOwner
      else if actor_role = Some admin_role then
        (if action \<in> {Ban, Timeout} \<and> target_role \<in> {Some owner_role, Some admin_role} then Err AdminGuard
         else Ok CommunityAdmin)
      else if action \<in> {DeleteMessage, Kick} \<and> channel_role \<in> {Some owner_role, Some admin_role} then Ok ChannelRole
      else Err ModeratorRequired)"

definition community_role :: "uuid \<Rightarrow> string \<Rightarrow> mod_db \<Rightarrow> string option" where
  "community_role c pk db = map_option rm_role (get_relay_member c pk (md_roster db))"

definition authorize_moderation_action ::
  "mod_env \<Rightarrow> uuid \<Rightarrow> string \<Rightarrow> uuid option \<Rightarrow> moderation_target \<Rightarrow> moderation_action
     \<Rightarrow> (authz_error, moderation_authority) mod_handler" where
  "authorize_moderation_action env c actor channel target action =
     then_do (db_read env ReadActor AuthzDatabase (community_role c actor)) (\<lambda>actor_role.
     then_do (case target of
         PubkeyTarget pk \<Rightarrow>
           if actor_role = Some admin_role \<and> action \<in> {Ban, Timeout}
           then db_read env ReadTarget AuthzDatabase (community_role c pk) else yields (Ok None)
       | _ \<Rightarrow> yields (Ok None)) (\<lambda>target_role.
     then_do (case channel of
         Some ch \<Rightarrow>
           if actor_role \<notin> {Some owner_role, Some admin_role} \<and> action \<in> {DeleteMessage, Kick}
           then db_read env ReadChannelRole AuthzDatabase (\<lambda>db. get_member_role (md_channels db) c ch actor)
           else yields (Ok None)
       | None \<Rightarrow> yields (Ok None)) (\<lambda>channel_role.
     yields (decide_authority actor_role target_role channel_role action))))"

section \<open>Tags of a command\<close>

text \<open>The first tag of the given name whose value is 64 hex digits.\<close>

fun extract_hex_tag :: "string \<Rightarrow> string list list \<Rightarrow> string option" where
  "extract_hex_tag name [] = None"
| "extract_hex_tag name (t # ts) =
     (case t of
        n # val # _ \<Rightarrow>
          if n = name \<and> length val = 64 \<and> list_all is_ascii_hexdigit val then Some (to_ascii_lowercase val)
          else extract_hex_tag name ts
      | _ \<Rightarrow> extract_hex_tag name ts)"

definition extract_p_tag_bytes :: "tagged_event \<Rightarrow> string option" where
  "extract_p_tag_bytes ev = extract_hex_tag ''p'' (te_slices ev)"

definition extract_report_tag :: "tagged_event \<Rightarrow> string option" where
  "extract_report_tag ev = extract_hex_tag ''report'' (te_slices ev)"

text \<open>\<open>str::parse::<i64>\<close>\<close>

definition str_parse_i64 :: "string \<Rightarrow> int option" where
  "str_parse_i64 s =
     (let neg = (case s of c # _ \<Rightarrow> c = CHR ''-'' | [] \<Rightarrow> False);
          ds = (case s of c # r \<Rightarrow> if c = CHR ''-'' \<or> c = CHR ''+'' then r else s | [] \<Rightarrow> []);
          v = (if neg then - int (read_digits ds) else int (read_digits ds))
      in if ds = [] \<or> \<not> list_all is_digit ds \<or> v < - (2 ^ 63) \<or> 2 ^ 63 \<le> v then None else Some v)"

datatype invalid_command =
    TimestampRange | UnexpectedCommand nat | MissingP | BadExpiration string | ExpirationRange int
  | NotBannedError | NeedsExpiration | NotTimedOut | MissingReport | MissingStatus | MissingAction
  | BadStatus string | BadAction string | DismissMismatch | ReportUnknown | ReportClosed

datatype mod_error =
    BlockedActor
  | Restricted authz_error
  | Invalid invalid_command
  | ModDatabase

text \<open>Seconds become an instant where \<open>chrono\<close> has one, here in microseconds.\<close>

definition extract_expiration :: "mod_env \<Rightarrow> tagged_event \<Rightarrow> mod_error + int option" where
  "extract_expiration env ev =
     (case extract_tag_value ''expiration'' (te_slices ev) of
        None \<Rightarrow> Ok None
      | Some raw \<Rightarrow>
          (case str_parse_i64 raw of
             None \<Rightarrow> Err (Invalid (BadExpiration raw))
           | Some secs \<Rightarrow> if me_chrono env secs then Ok (Some (secs * 10 ^ 6)) else Err (Invalid (ExpirationRange secs))))"

definition need :: "invalid_command \<Rightarrow> 'a option \<Rightarrow> (mod_error, 'a) mod_handler" where
  "need e x = yields (case x of None \<Rightarrow> Err (Invalid e) | Some a \<Rightarrow> Ok a)"

definition check_that :: "invalid_command \<Rightarrow> bool \<Rightarrow> (mod_error, unit) mod_handler" where
  "check_that e ok = yields (if ok then Ok () else Err (Invalid e))"

section \<open>The commands\<close>

definition insert_audit ::
  "mod_env \<Rightarrow> uuid \<Rightarrow> string \<Rightarrow> string \<Rightarrow> string option \<Rightarrow> string option \<Rightarrow> string option \<Rightarrow> (mod_error, uuid) mod_handler" where
  "insert_audit env c actor action target_pubkey target_event public_reason =
     db_write env WriteAudit ModDatabase (insert_action (me_now env WriteAudit) (me_new_id env) c
       \<lparr>na_actor = actor, na_action = action, na_target_pubkey = target_pubkey, na_target_event = target_event,
        na_channel = None, na_reason_code = None, na_public_reason = public_reason, na_private_reason = None,
        na_matched_principal = None\<rparr>)"

definition authorize_command ::
  "mod_env \<Rightarrow> uuid \<Rightarrow> string \<Rightarrow> moderation_target \<Rightarrow> moderation_action \<Rightarrow> (mod_error, moderation_authority) mod_handler" where
  "authorize_command env c actor target action =
     on_error Restricted (authorize_moderation_action env c actor None target action)"

definition reason_text :: "string option \<Rightarrow> string" where
  "reason_text reason = (case reason of None \<Rightarrow> [] | Some r \<Rightarrow> r)"

definition handle_ban :: "mod_env \<Rightarrow> uuid \<Rightarrow> tagged_event \<Rightarrow> (mod_error, unit) mod_handler" where
  "handle_ban env c ev =
     (let actor = ev_pubkey (te_event ev); reason = extract_tag_value ''reason'' (te_slices ev) in
      then_do (need MissingP (extract_p_tag_bytes ev)) (\<lambda>target.
      then_do (yields (extract_expiration env ev)) (\<lambda>expires_at.
      then_do (authorize_command env c actor (PubkeyTarget target) Ban) (\<lambda>_.
      then_do (db_write env WriteRestriction ModDatabase
                 (ban_member (me_now env WriteRestriction) c target actor reason expires_at)) (\<lambda>_.
      then_do (insert_audit env c actor ''ban'' (Some target) None reason) (\<lambda>action_id.
      then_do (emit (DisconnectPubkey c target (ev_id (te_event ev)) ''blocked: you are banned from this community'')) (\<lambda>_.
      emit (SendNotice c target (Restriction action_id ''ban'' (reason_text reason))))))))))"

definition handle_unban :: "mod_env \<Rightarrow> uuid \<Rightarrow> tagged_event \<Rightarrow> (mod_error, unit) mod_handler" where
  "handle_unban env c ev =
     (let actor = ev_pubkey (te_event ev) in
      then_do (need MissingP (extract_p_tag_bytes ev)) (\<lambda>target.
      then_do (authorize_command env c actor (PubkeyTarget target) Unban) (\<lambda>_.
      then_do (db_write env WriteRestriction ModDatabase (unban_member (me_now env WriteRestriction) c target actor)) (\<lambda>lifted.
      then_do (check_that NotBannedError lifted) (\<lambda>_.
      then_do (insert_audit env c actor ''unban'' (Some target) None None) (\<lambda>_. yields (Ok ())))))))"

definition handle_timeout :: "mod_env \<Rightarrow> uuid \<Rightarrow> tagged_event \<Rightarrow> (mod_error, unit) mod_handler" where
  "handle_timeout env c ev =
     (let actor = ev_pubkey (te_event ev); reason = extract_tag_value ''reason'' (te_slices ev) in
      then_do (need MissingP (extract_p_tag_bytes ev)) (\<lambda>target.
      then_do (yields (extract_expiration env ev)) (\<lambda>expires_at.
      then_do (need NeedsExpiration expires_at) (\<lambda>muted_until.
      then_do (authorize_command env c actor (PubkeyTarget target) Timeout) (\<lambda>_.
      then_do (db_write env WriteRestriction ModDatabase
                 (timeout_member (me_now env WriteRestriction) c target actor muted_until reason)) (\<lambda>_.
      then_do (insert_audit env c actor ''timeout'' (Some target) None reason) (\<lambda>action_id.
      emit (SendNotice c target (Restriction action_id ''timeout'' (reason_text reason))))))))))"

definition handle_untimeout :: "mod_env \<Rightarrow> uuid \<Rightarrow> tagged_event \<Rightarrow> (mod_error, unit) mod_handler" where
  "handle_untimeout env c ev =
     (let actor = ev_pubkey (te_event ev) in
      then_do (need MissingP (extract_p_tag_bytes ev)) (\<lambda>target.
      then_do (authorize_command env c actor (PubkeyTarget target) Untimeout) (\<lambda>_.
      then_do (db_write env WriteRestriction ModDatabase (untimeout_member (me_now env WriteRestriction) c target actor)) (\<lambda>cleared.
      then_do (check_that NotTimedOut cleared) (\<lambda>_.
      then_do (insert_audit env c actor ''untimeout'' (Some target) None None) (\<lambda>_. yields (Ok ())))))))"

definition resolution_audit_action :: "string \<Rightarrow> string" where
  "resolution_audit_action action =
     (if action = ''dismiss'' then ''dismiss_report''
      else if action = ''escalate'' then ''escalate''
      else if action \<in> {''delete'', ''kick'', ''ban'', ''timeout''} then ''resolve:'' @ action
      else ''resolve:unknown'')"

definition report_summary :: "string \<Rightarrow> string option \<Rightarrow> string" where
  "report_summary status reason =
     (case reason of
        Some r \<Rightarrow> r
      | None \<Rightarrow> if status = ''dismissed'' then ''Your report was reviewed and dismissed.''
                else ''Your report was reviewed and acted on.'')"

definition handle_resolve :: "mod_env \<Rightarrow> uuid \<Rightarrow> tagged_event \<Rightarrow> (mod_error, unit) mod_handler" where
  "handle_resolve env c ev =
     (let actor = ev_pubkey (te_event ev); reason = extract_tag_value ''reason'' (te_slices ev) in
      then_do (need MissingReport (extract_report_tag ev)) (\<lambda>report_event_id.
      then_do (need MissingStatus (extract_tag_value ''status'' (te_slices ev))) (\<lambda>status.
      then_do (need MissingAction (extract_tag_value ''action'' (te_slices ev))) (\<lambda>action.
      then_do (check_that (BadStatus status) (status \<in> {''resolved'', ''dismissed''})) (\<lambda>_.
      then_do (check_that (BadAction action)
                 (action \<in> {''delete'', ''kick'', ''ban'', ''timeout'', ''dismiss'', ''escalate''})) (\<lambda>_.
      then_do (check_that DismissMismatch (action = ''dismiss'' \<longleftrightarrow> status = ''dismissed'')) (\<lambda>_.
      then_do (authorize_command env c actor (EventTarget report_event_id) ResolveReport) (\<lambda>_.
      then_do (db_read env ReadReport ModDatabase (get_report_by_event c report_event_id)) (\<lambda>found.
      then_do (need ReportUnknown found) (\<lambda>report.
      then_do (check_that ReportClosed (rp_status report = ''open'')) (\<lambda>_.
      then_do (insert_audit env c actor (resolution_audit_action action)
                 (case nr_target report of TargetPubkey p \<Rightarrow> Some p | _ \<Rightarrow> None)
                 (case nr_target report of TargetEvent e \<Rightarrow> Some e | _ \<Rightarrow> None) reason) (\<lambda>action_id.
      then_do (db_write env WriteResolution ModDatabase
                 (resolve_report (me_now env WriteResolution) c (rp_id report) status actor (Some action_id))) (\<lambda>resolved.
      then_do (check_that ReportClosed resolved) (\<lambda>_.
      emit (SendNotice c (nr_reporter report)
        (ReportResolved (rp_id report) status (report_summary status reason)))))))))))))))))"

definition handle_moderation_command :: "mod_env \<Rightarrow> tenant_context \<Rightarrow> tagged_event \<Rightarrow> (mod_error, unit) mod_handler" where
  "handle_moderation_command env tenant ev =
     (let c = tc_community tenant; kind = ev_kind (te_event ev); actor = ev_pubkey (te_event ev) in
      then_do (db_read env ReadRestriction ModDatabase
                 (restriction_state (me_now env ReadRestriction) c actor)) (\<lambda>restriction.
      then_do (yields (if rt_banned restriction then Err BlockedActor else Ok ())) (\<lambda>_.
      then_do (check_that TimestampRange
                 (admin_fresh (ev_created_at (te_event ev)) (me_now env CheckClock div 10 ^ 6))) (\<lambda>_.
      if kind = KIND_MODERATION_BAN then handle_ban env c ev
      else if kind = KIND_MODERATION_UNBAN then handle_unban env c ev
      else if kind = KIND_MODERATION_TIMEOUT then handle_timeout env c ev
      else if kind = KIND_MODERATION_UNTIMEOUT then handle_untimeout env c ev
      else if kind = KIND_MODERATION_RESOLVE_REPORT then handle_resolve env c ev
      else yields (Err (Invalid (UnexpectedCommand kind)))))))"

section \<open>Reports\<close>

definition REPORT_TYPES :: "string list" where
  "REPORT_TYPES = [''illegal'', ''nudity'', ''malware'', ''spam'', ''impersonation'', ''profanity'', ''other'']"

datatype report_error =
    NoP | ManyP | BadHex string | BothTargets | ManyE | ManyX | NoReportType | BadReportType string
  | TargetEventUnknown | TargetBlobUnknown | ReportDatabase

definition collect_report_tags :: "tagged_event \<Rightarrow> string \<Rightarrow> (string \<times> string option) list" where
  "collect_report_tags ev name =
     map (\<lambda>t. (t ! 1, if 2 < length t then Some (t ! 2) else None))
       (filter (\<lambda>t. 2 \<le> length t \<and> t ! 0 = name) (te_slices ev))"

definition parse_report_type :: "string option \<Rightarrow> report_error + string" where
  "parse_report_type v =
     (case v of None \<Rightarrow> Err NoReportType | Some s \<Rightarrow> if s \<in> set REPORT_TYPES then Ok s else Err (BadReportType s))"

definition decode_32_byte_hex :: "string \<Rightarrow> string \<Rightarrow> report_error + string" where
  "decode_32_byte_hex v label =
     (if length v = 64 \<and> list_all is_ascii_hexdigit v then Ok (to_ascii_lowercase v) else Err (BadHex label))"

text \<open>The author that the \<open>p\<close> tag names next to an event or a blob is checked for its shape only.\<close>

definition parse_report :: "tagged_event \<Rightarrow> report_error + report_target \<times> string" where
  "parse_report ev =
     (case collect_report_tags ev ''p'' of
        [] \<Rightarrow> Err NoP
      | [(p, p_type)] \<Rightarrow>
          (case decode_32_byte_hex p ''p tag pubkey'' of
             Inl e \<Rightarrow> Err e
           | Inr pubkey \<Rightarrow>
               let es = collect_report_tags ev ''e''; xs = collect_report_tags ev ''x'' in
               if es \<noteq> [] \<and> xs \<noteq> [] then Err BothTargets
               else if 1 < length es then Err ManyE
               else if 1 < length xs then Err ManyX
               else case (es, xs) of
                 ((v, ty) # _, _) \<Rightarrow>
                   (case parse_report_type ty of Inl e \<Rightarrow> Err e | Inr ty \<Rightarrow>
                     (case decode_32_byte_hex v ''e tag event id'' of Inl e \<Rightarrow> Err e | Inr i \<Rightarrow> Ok (TargetEvent i, ty)))
               | ([], (v, ty) # _) \<Rightarrow>
                   (case parse_report_type ty of Inl e \<Rightarrow> Err e | Inr ty \<Rightarrow>
                     (case decode_32_byte_hex v ''x tag sha256'' of Inl e \<Rightarrow> Err e | Inr i \<Rightarrow> Ok (TargetBlob i, ty)))
               | ([], []) \<Rightarrow>
                   (case parse_report_type p_type of Inl e \<Rightarrow> Err e | Inr ty \<Rightarrow> Ok (TargetPubkey pubkey, ty)))
      | _ # _ # _ \<Rightarrow> Err ManyP)"

definition handle_report_event ::
  "mod_env \<Rightarrow> uuid \<Rightarrow> tagged_event \<Rightarrow> (report_error, unit) mod_handler" where
  "handle_report_event env c ev =
     then_do (yields (parse_report ev)) (\<lambda>(target, ty).
     then_do (case target of
         TargetEvent i \<Rightarrow>
           then_do (db_read env ReadReported ReportDatabase (\<lambda>db. map_of (md_events db) (c, i)))
             (\<lambda>stored. yields (case stored of None \<Rightarrow> Err TargetEventUnknown | Some ch \<Rightarrow> Ok ch))
       | TargetBlob b \<Rightarrow>
           then_do (db_read env ReadReported TargetBlobUnknown (\<lambda>db. (c, b) \<in> set (md_blobs db)))
             (\<lambda>present. yields (if present then Ok None else Err TargetBlobUnknown))
       | TargetPubkey _ \<Rightarrow> yields (Ok None)) (\<lambda>channel.
     then_do (db_write env WriteReport ReportDatabase (insert_report (me_now env WriteReport) (me_new_id env) c
                \<lparr>nr_event_id = ev_id (te_event ev), nr_reporter = ev_pubkey (te_event ev), nr_target = target,
                 nr_channel = channel, nr_type = ty,
                 nr_note = (if ev_content (te_event ev) = [] then None else Some (ev_content (te_event ev)))\<rparr>))
       (\<lambda>_. yields (Ok ()))))"

end
