(* ===== verification/ModerationSafety.thy ===== *)
theory ModerationSafety
  imports Moderation
begin

text \<open>
  What the moderation commands guarantee while other sessions run statements of their own between the calls of
  a handler: nothing happens without authority, a ban holds until it is lifted or expires, a report is resolved
  at most once. \<open>triple\<close> is the Hoare triple of a handler; what others may do is a rely, a predicate that each
  of their changes keeps.
\<close>

section \<open>Reasoning about handlers\<close>

definition triple :: "(mod_world \<Rightarrow> bool) \<Rightarrow> ('e, 'a) mod_handler \<Rightarrow> ('e + 'a \<Rightarrow> mod_world \<Rightarrow> bool) \<Rightarrow> bool" where
  "triple P m Q \<longleftrightarrow> (\<forall>w w' r. P w \<longrightarrow> m w = (w', r) \<longrightarrow> Q r w')"

lemma tripleI: "(\<And>w w' r. P w \<Longrightarrow> m w = (w', r) \<Longrightarrow> Q r w') \<Longrightarrow> triple P m Q"
  unfolding triple_def by blast

lemma tripleD: "triple P m Q \<Longrightarrow> P w \<Longrightarrow> m w = (w', r) \<Longrightarrow> Q r w'"
  unfolding triple_def by blast

named_theorems triple_intros "rules that compose triples"

lemma triple_yields [triple_intros]: "(\<And>w. P w \<Longrightarrow> Q r w) \<Longrightarrow> triple P (yields r) Q"
  by (simp add: triple_def yields_def)

lemma triple_then:
  assumes "triple P m R" "\<And>a. triple (R (Ok a)) (f a) Q" "\<And>e w. R (Err e) w \<Longrightarrow> Q (Err e) w"
  shows "triple P (then_do m f) Q"
proof (rule tripleI)
  fix w w' r assume w: "P w" "then_do m f w = (w', r)"
  obtain w1 r1 where m: "m w = (w1, r1)" by fastforce
  note R = tripleD [OF assms(1) w(1) m]
  show "Q r w'"
  proof (cases r1)
    case (Inl e)
    then show ?thesis using R w(2) m assms(3) [of e w1] by (auto simp: then_do_def)
  next
    case (Inr a)
    then have "f a w1 = (w', r)" using w(2) m by (simp add: then_do_def)
    from tripleD [OF assms(2) _ this] show ?thesis using R Inr by blast
  qed
qed

lemma triple_conseq: "triple P' m Q' \<Longrightarrow> (\<And>w. P w \<Longrightarrow> P' w) \<Longrightarrow> (\<And>r w. Q' r w \<Longrightarrow> Q r w) \<Longrightarrow> triple P m Q"
  unfolding triple_def by blast

text \<open>A property of the state that every part keeps.\<close>

abbreviation keeps :: "(mod_db \<Rightarrow> bool) \<Rightarrow> ('e, 'a) mod_handler \<Rightarrow> bool" where
  "keeps I m \<equiv> triple (\<lambda>(db, _). I db) m (\<lambda>_ (db, _). I db)"

lemma keeps_then [triple_intros]: "keeps I m \<Longrightarrow> (\<And>a. keeps I (f a)) \<Longrightarrow> keeps I (then_do m f)"
  by (rule triple_then)

lemma keeps_on_error [triple_intros]: "keeps I m \<Longrightarrow> keeps I (on_error g m)"
  by (fastforce simp: triple_def on_error_def split: prod.splits sum.splits)

lemma keeps_emit [triple_intros]: "keeps I (emit eff)"
  by (auto simp: triple_def emit_def)

lemma keeps_read [triple_intros]:
  "(\<And>db. I db \<Longrightarrow> I (me_others env call db)) \<Longrightarrow> keeps I (db_read env call e f)"
  by (auto simp: triple_def db_read_def Let_def)

lemma keeps_write:
  "(\<And>db. I db \<Longrightarrow> I (me_others env call db)) \<Longrightarrow> (\<And>db db' a. I db \<Longrightarrow> f db = Some (db', a) \<Longrightarrow> I db')
    \<Longrightarrow> keeps I (db_write env call e f)"
  unfolding triple_def db_write_def Let_def commit_def
  by (clarsimp split: option.splits db_fault.splits prod.splits sum.splits) metis+

lemma keeps_yields [triple_intros]: "keeps I (yields r)"
  by (rule triple_yields)

lemma keeps_need [triple_intros]: "keeps I (need e x)" "keeps I (check_that e ok)"
  by (simp_all add: need_def check_that_def keeps_yields)

lemma keeps_authorize [triple_intros]:
  assumes "\<And>call db. I db \<Longrightarrow> I (me_others env call db)"
  shows "keeps I (authorize_command env c actor target action)"
  unfolding authorize_command_def authorize_moderation_action_def
  by (intro triple_intros; (rule assms; assumption)?)
    (auto split: moderation_target.split option.split intro!: triple_intros assms)

section \<open>Handlers that end in a value\<close>

named_theorems handler_ok "what a handler did that ended in a value"

lemma then_do_Ok [handler_ok]:
  "then_do m f w = (w', Ok b) \<longleftrightarrow> (\<exists>w1 a. m w = (w1, Ok a) \<and> f a w1 = (w', Ok b))"
  by (auto simp: then_do_def split: prod.splits sum.splits)

lemma yields_Ok [handler_ok]: "yields r w = (w', Ok a) \<longleftrightarrow> w' = w \<and> r = Ok a"
  by (auto simp: yields_def)

lemma on_error_Ok [handler_ok]: "on_error g m w = (w', Ok a) \<longleftrightarrow> m w = (w', Ok a)"
  by (auto simp: on_error_def split: prod.splits sum.splits)

lemma emit_Ok [handler_ok]: "emit eff (db, effs) = (w', Ok a) \<longleftrightarrow> w' = (db, effs @ [eff])"
  by (auto simp: emit_def)

lemma need_Ok [handler_ok]: "need e x w = (w', Ok a) \<longleftrightarrow> w' = w \<and> x = Some a"
  by (auto simp: need_def handler_ok split: option.split)

lemma check_that_Ok [handler_ok]: "check_that e ok w = (w', Ok a) \<longleftrightarrow> w' = w \<and> ok"
  by (auto simp: check_that_def handler_ok)

lemma db_read_Ok [handler_ok]:
  "db_read env call e f (db, effs) = (w', Ok a)
     \<longleftrightarrow> me_fault env call = DbOk \<and> w' = (me_others env call db, effs) \<and> a = f (me_others env call db)"
  by (auto simp: db_read_def Let_def)

lemma db_write_Ok [handler_ok]:
  "db_write env call e f (db, effs) = (w', Ok a)
     \<longleftrightarrow> me_fault env call = DbOk \<and> (\<exists>db'. f (me_others env call db) = Some (db', a) \<and> w' = (db', effs))"
  by (auto simp: db_write_def commit_def Let_def split: option.splits db_fault.splits prod.splits)

lemma authorize_command_Ok:
  assumes "authorize_command env c actor target action (db, effs) = (w', Ok auth)"
  obtains db' where "w' = (db', effs)"
    and "db' = me_others env ReadActor db \<or> db' = me_others env ReadTarget (me_others env ReadActor db)"
    and "community_role c actor (me_others env ReadActor db) = Some owner_role \<and> auth = CommunityOwner
      \<or> community_role c actor (me_others env ReadActor db) = Some admin_role \<and> auth = CommunityAdmin
         \<and> (\<forall>t. target = PubkeyTarget t \<and> action \<in> {Ban, Timeout}
             \<longrightarrow> community_role c t db' \<notin> {Some owner_role, Some admin_role})"
  using assms unfolding authorize_command_def authorize_moderation_action_def
  by (auto simp: handler_ok decide_authority_def split: moderation_target.splits if_splits)

section \<open>Statements of the program\<close>

datatype mod_statement =
    SBan nat uuid string string "string option" "int option"
  | SUnban nat uuid string string
  | STimeout nat uuid string string int "string option"
  | SUntimeout nat uuid string string
  | SReport nat uuid uuid new_report
  | SResolve nat uuid uuid string string "uuid option"
  | SAction nat uuid uuid new_action
  | SElsewhere roster_db policy_tables "(uuid \<times> string, uuid option) hmap" "(uuid \<times> string) list"

definition committed :: "(mod_db \<times> 'a) option \<Rightarrow> mod_db \<Rightarrow> mod_db" where
  "committed r db = (case r of None \<Rightarrow> db | Some (db', _) \<Rightarrow> db')"

text \<open>The last one stands for any change of the other tables.\<close>

fun run_statement :: "mod_statement \<Rightarrow> mod_db \<Rightarrow> mod_db" where
  "run_statement (SBan now c pk actor reason e) db = committed (ban_member now c pk actor reason e db) db"
| "run_statement (SUnban now c pk actor) db = committed (unban_member now c pk actor db) db"
| "run_statement (STimeout now c pk actor e reason) db = committed (timeout_member now c pk actor e reason db) db"
| "run_statement (SUntimeout now c pk actor) db = committed (untimeout_member now c pk actor db) db"
| "run_statement (SReport now i c r) db = committed (insert_report now i c r db) db"
| "run_statement (SResolve now c i status resolver a) db = committed (resolve_report now c i status resolver a db) db"
| "run_statement (SAction now i c a) db = committed (insert_action now i c a db) db"
| "run_statement (SElsewhere roster channels events blobs) db =
     db\<lparr>md_roster := roster, md_channels := channels, md_events := events, md_blobs := blobs\<rparr>"

text \<open>Between the calls of a handler others run any statements.\<close>

definition others_run :: "mod_env \<Rightarrow> bool" where
  "others_run env \<longleftrightarrow> (\<forall>call db. \<exists>ops. me_others env call db = fold run_statement ops db)"

lemma fold_keeps: "(\<And>op db. I db \<Longrightarrow> I (run_statement op db)) \<Longrightarrow> I db \<Longrightarrow> I (fold run_statement ops db)"
  by (induction ops arbitrary: db) auto

lemma others_keep:
  "others_run env \<Longrightarrow> (\<And>op db. I db \<Longrightarrow> I (run_statement op db)) \<Longrightarrow> I db \<Longrightarrow> I (me_others env call db)"
  unfolding others_run_def using fold_keeps [of I] by metis

section \<open>The tables stay well formed\<close>

definition linked :: "(uuid \<times> action_record) list \<Rightarrow> uuid \<times> report_record \<Rightarrow> bool" where
  "linked actions = (\<lambda>(c, r). status_allowed (rp_status r)
     \<and> (\<forall>a. rp_action_id r = Some a \<longrightarrow> (\<exists>x. (c, x) \<in> set actions \<and> al_id x = a)))"

definition mod_ok :: "mod_db \<Rightarrow> bool" where
  "mod_ok db \<longleftrightarrow>
     hwf (md_bans db)
     \<and> distinct (map (\<lambda>(c, r). (c, nr_event_id r)) (md_reports db))
     \<and> distinct (map (\<lambda>(c, r). (c, rp_id r)) (md_reports db))
     \<and> distinct (map (\<lambda>(c, a). (c, al_id a)) (md_actions db))
     \<and> list_all (linked (md_actions db)) (md_reports db)"

lemma linked_more: "linked actions x \<Longrightarrow> linked (actions @ as) x"
  by (auto simp: linked_def)

lemma open_record_simps [simp]:
  "nr_event_id (open_record now i r) = nr_event_id r" "rp_id (open_record now i r) = i"
  "rp_status (open_record now i r) = ''open''" "linked actions (c, open_record now i r)"
  by (simp_all add: open_record_def linked_def status_allowed_def)

lemma find_report_None: "find_report c p rs = None \<longleftrightarrow> (\<forall>(c', r) \<in> set rs. c' = c \<longrightarrow> \<not> p r)"
  by (induction rs) (auto split: if_splits)

lemma find_report_free: "find_report c (\<lambda>r. f r = v) rs = None \<longleftrightarrow> (c, v) \<notin> (\<lambda>(c, r). (c, f r)) ` set rs"
  by (induction rs) (auto split: if_splits)

lemma find_report_Some: "find_report c p rs = Some r \<Longrightarrow> (c, r) \<in> set rs \<and> p r"
  by (induction rs) (auto split: if_splits)

lemma find_report_append: "find_report c p (rs @ ss) = (case find_report c p rs of Some r \<Rightarrow> Some r | None \<Rightarrow> find_report c p ss)"
  by (induction rs) auto

lemma resolve_row_simps [simp]:
  "fst (resolve_row now c i status resolver a x) = fst x"
  "nr_event_id (snd (resolve_row now c i status resolver a x)) = nr_event_id (snd x)"
  "rp_id (snd (resolve_row now c i status resolver a x)) = rp_id (snd x)"
  by (simp_all add: resolve_row_def split: prod.split)

lemma find_report_resolved:
  assumes "\<And>x. p (snd (resolve_row now c0 i status resolver a x)) = p (snd x)"
  shows "find_report c p (map (resolve_row now c0 i status resolver a) rs)
    = map_option (\<lambda>r. snd (resolve_row now c0 i status resolver a (c, r))) (find_report c p rs)"
proof (induction rs)
  case (Cons x rs)
  obtain c' r where x: "x = (c', r)" by fastforce
  obtain r' where y: "resolve_row now c0 i status resolver a (c', r) = (c', r')"
    using resolve_row_simps(1) [of now c0 i status resolver a "(c', r)"] by (metis fst_conv prod.collapse)
  then have "p r' = p r" using assms [of "(c', r)"] by simp
  then show ?case using Cons y by (cases "c' = c") (auto simp: x)
qed simp

lemma put_ban_fields [simp]:
  "md_roster (put_ban c pk b db) = md_roster db" "md_channels (put_ban c pk b db) = md_channels db"
  "md_reports (put_ban c pk b db) = md_reports db" "md_actions (put_ban c pk b db) = md_actions db"
  "md_events (put_ban c pk b db) = md_events db" "md_blobs (put_ban c pk b db) = md_blobs db"
  by (simp_all add: put_ban_def)

lemma ban_row_put [simp]: "ban_row c' pk' (put_ban c pk b db) = (if (c', pk') = (c, pk) then Some b else ban_row c' pk' db)"
  by (auto simp: ban_row_def put_ban_def hmap_simps)

lemma put_ban_ok: "mod_ok db \<Longrightarrow> mod_ok (put_ban c pk b db)"
  by (simp add: mod_ok_def) (simp add: put_ban_def hwf_def distinct_update)

text \<open>A statement on one restriction row leaves everything as it was, or writes that row.\<close>

lemma restriction_statements:
  "committed (ban_member now c pk actor reason e db) db = db \<or> (\<exists>b. committed (ban_member now c pk actor reason e db) db = put_ban c pk b db)"
  "committed (unban_member now c pk actor db) db = db \<or> (\<exists>b. committed (unban_member now c pk actor db) db = put_ban c pk b db)"
  "committed (timeout_member now c pk actor t reason db) db = db \<or> (\<exists>b. committed (timeout_member now c pk actor t reason db) db = put_ban c pk b db)"
  "committed (untimeout_member now c pk actor db) db = db \<or> (\<exists>b. committed (untimeout_member now c pk actor db) db = put_ban c pk b db)"
  by (auto simp: committed_def ban_member_def unban_member_def timeout_member_def untimeout_member_def split: option.split)

lemma resolved_ok:
  assumes ok: "mod_ok db" and st: "status_allowed status"
    and a: "\<And>a. action_id = Some a \<Longrightarrow> \<exists>x. (c, x) \<in> set (md_actions db) \<and> al_id x = a"
  shows "mod_ok (db\<lparr>md_reports := map (resolve_row now c i status resolver action_id) (md_reports db)\<rparr>)"
proof -
  have m: "map (\<lambda>(c, r). (c, f r)) (map (resolve_row now c i status resolver action_id) rs) = map (\<lambda>(c, r). (c, f r)) rs"
    if "\<And>x. f (snd (resolve_row now c i status resolver action_id x)) = f (snd x)" for f :: "report_record \<Rightarrow> 'b" and rs
    using that by (auto simp: case_prod_unfold)
  have "linked (md_actions db) (resolve_row now c i status resolver action_id x)" if "linked (md_actions db) x" for x
    using that st a by (auto simp: linked_def resolve_row_def split: if_splits)
  then have "list_all (linked (md_actions db)) (map (resolve_row now c i status resolver action_id) (md_reports db))"
    using ok by (auto simp: mod_ok_def list_all_iff)
  then show ?thesis using ok by (simp add: mod_ok_def m del: map_map)
qed

lemma resolve_report_Some:
  assumes "resolve_report now c i status resolver action_id db = Some (db', b)"
  shows "b \<longleftrightarrow> (\<exists>r. (c, r) \<in> set (md_reports db) \<and> rp_id r = i \<and> rp_status r = ''open'')"
    and "db' = (if b then db\<lparr>md_reports := map (resolve_row now c i status resolver action_id) (md_reports db)\<rparr> else db)"
    and "b \<Longrightarrow> status_allowed status"
    and "b \<Longrightarrow> action_id = Some a \<Longrightarrow> \<exists>x. (c, x) \<in> set (md_actions db) \<and> al_id x = a"
  using assms by (auto simp: resolve_report_def list_ex_iff split: if_splits option.splits)

lemma insert_report_Some:
  assumes "insert_report now i c r db = Some (db', j)"
  shows "db' = db \<and> (\<exists>old. get_report_by_event c (nr_event_id r) db = Some old \<and> j = rp_id old)
    \<or> db' = db\<lparr>md_reports := md_reports db @ [(c, open_record now i r)]\<rparr> \<and> j = i
       \<and> get_report_by_event c (nr_event_id r) db = None \<and> get_report c i db = None"
  using assms by (auto simp: insert_report_def split: if_splits option.splits)

lemma insert_action_Some:
  assumes "insert_action now i c a db = Some (db', j)"
  shows "j = i" "action_allowed c a db" "\<And>x. (c, x) \<in> set (md_actions db) \<Longrightarrow> al_id x \<noteq> i"
    "db' = db\<lparr>md_actions := md_actions db @ [(c, new_action.extend a \<lparr>al_id = i, al_created_at = now\<rparr>)]\<rparr>"
  using assms by (auto simp: insert_action_def list_ex_iff split: if_splits)

lemma run_statement_ok: "mod_ok db \<Longrightarrow> mod_ok (run_statement op db)"
proof (cases op)
  case (SReport now i c r)
  assume ok: "mod_ok db"
  show ?thesis
  proof (cases "insert_report now i c r db")
    case (Some x)
    then obtain db' j where ins: "insert_report now i c r db = Some (db', j)" by (cases x) auto
    show ?thesis
      using insert_report_Some [OF ins] ok
      by (auto simp: SReport committed_def ins mod_ok_def get_report_by_event_def get_report_def find_report_free
        simp del: image_iff)
  qed (use ok in \<open>simp add: SReport committed_def\<close>)
next
  case (SResolve now c i status resolver a)
  assume ok: "mod_ok db"
  show ?thesis
  proof (cases "resolve_report now c i status resolver a db")
    case (Some x)
    then obtain db' b where r: "resolve_report now c i status resolver a db = Some (db', b)" by (cases x) auto
    have "run_statement op db = db'" by (simp add: SResolve committed_def r)
    then show ?thesis
      using resolve_report_Some(2) [OF r] ok
      by (cases b) (auto intro: resolved_ok dest: resolve_report_Some(3,4) [OF r])
  qed (use ok in \<open>simp add: SResolve committed_def\<close>)
next
  case (SAction now i c a)
  assume ok: "mod_ok db"
  show ?thesis
  proof (cases "insert_action now i c a db")
    case (Some x)
    then obtain db' j where ins: "insert_action now i c a db = Some (db', j)" by (cases x) auto
    show ?thesis
      using insert_action_Some [OF ins] ok
      by (auto simp: SAction committed_def ins mod_ok_def new_action.defs list_all_iff linked_more)
  qed (use ok in \<open>simp add: SAction committed_def\<close>)
next
  case (SElsewhere roster channels events blobs)
  then show "mod_ok db \<Longrightarrow> ?thesis" by (simp add: mod_ok_def)
qed (metis restriction_statements put_ban_ok run_statement.simps)+

definition empty_mod_db :: "roster_db \<Rightarrow> policy_tables \<Rightarrow> mod_db" where
  "empty_mod_db roster channels =
     \<lparr>md_roster = roster, md_channels = channels, md_events = [], md_blobs = [], md_bans = [], md_reports = [], md_actions = []\<rparr>"

lemma empty_mod_ok: "mod_ok (empty_mod_db roster channels)"
  by (simp add: empty_mod_db_def mod_ok_def hwf_def)

interpretation moderation: invariant_machine run_statement "\<lambda>db. \<exists>roster channels. db = empty_mod_db roster channels" mod_ok
  by unfold_locales (auto intro: empty_mod_ok run_statement_ok)

section \<open>Reports\<close>

definition report_closed :: "uuid \<Rightarrow> string \<Rightarrow> mod_db \<Rightarrow> bool" where
  "report_closed c event_id db \<longleftrightarrow> (\<exists>r. get_report_by_event c event_id db = Some r \<and> rp_status r \<noteq> ''open'')"

lemma get_report_by_event_cong: "md_reports db' = md_reports db \<Longrightarrow> get_report_by_event c e db' = get_report_by_event c e db"
  by (simp add: get_report_by_event_def)

lemma snd_resolve_row:
  "snd (resolve_row now c i status resolver a (c', r)) =
     (if c' = c \<and> rp_id r = i \<and> rp_status r = ''open''
      then r\<lparr>rp_status := status, rp_resolved_by := Some resolver, rp_resolved_at := Some now, rp_action_id := a\<rparr> else r)"
  by (simp add: resolve_row_def)

lemma get_report_resolved:
  "get_report_by_event c e (db\<lparr>md_reports := map (resolve_row now c' i status resolver a) (md_reports db)\<rparr>)
    = map_option (\<lambda>r. snd (resolve_row now c' i status resolver a (c, r))) (get_report_by_event c e db)"
  using find_report_resolved [of "\<lambda>r. nr_event_id r = e" now c' i status resolver a c "md_reports db"]
  by (simp add: get_report_by_event_def)

text \<open>A report keeps its row; a closed one keeps it unchanged.\<close>

lemma report_evolves:
  assumes "get_report_by_event c e db = Some r"
  shows "\<exists>r'. get_report_by_event c e (run_statement op db) = Some r' \<and> rp_id r' = rp_id r
    \<and> (rp_status r \<noteq> ''open'' \<longrightarrow> r' = r)"
proof (cases op)
  case (SReport now i c' r')
  have "get_report_by_event c e (db\<lparr>md_reports := md_reports db @ xs\<rparr>) = Some r" for xs
    using assms by (simp add: get_report_by_event_def find_report_append)
  then show ?thesis
    using assms by (auto simp: SReport committed_def split: option.split dest!: insert_report_Some)
next
  case (SResolve now c' i status resolver a)
  show ?thesis
    using assms by (auto simp: SResolve committed_def get_report_resolved snd_resolve_row split: option.split dest!: resolve_report_Some(2))
next
  case (SAction now i c' a)
  then show ?thesis
    using assms by (auto simp: committed_def get_report_by_event_def split: option.split dest!: insert_action_Some(4))
next
  case (SElsewhere roster channels events blobs)
  then show ?thesis using assms by (auto simp: get_report_by_event_def)
qed (metis assms get_report_by_event_cong put_ban_fields(3) restriction_statements run_statement.simps)+

lemma report_closed_stays: "report_closed c e db \<Longrightarrow> report_closed c e (run_statement op db)"
  unfolding report_closed_def using report_evolves by metis

lemma resolution_closes:
  assumes ok: "mod_ok db" and r: "get_report_by_event c e db = Some r" "rp_id r = i"
    and run: "resolve_report now c i status resolver a db = Some (db', True)" and "status \<noteq> ''open''"
  shows "report_closed c e db'"
proof -
  note res = resolve_report_Some [OF run]
  obtain q where q: "(c, q) \<in> set (md_reports db)" "rp_id q = i" "rp_status q = ''open''" using res(1) by auto
  have "(c, r) \<in> set (md_reports db)" using r(1) unfolding get_report_by_event_def by (auto dest: find_report_Some)
  moreover have "inj_on (\<lambda>(c, r). (c, rp_id r)) (set (md_reports db))"
    using ok by (simp add: mod_ok_def distinct_map)
  ultimately have "q = r" using q r(2) inj_onD [of "\<lambda>(c, r). (c, rp_id r)" _ "(c, q)" "(c, r)"] by auto
  moreover have "get_report_by_event c e db' = Some (snd (resolve_row now c i status resolver a (c, r)))"
    using r(1) by (simp add: res(2) get_report_resolved)
  ultimately show ?thesis using q r(2) \<open>status \<noteq> _\<close> by (simp add: report_closed_def resolve_row_def)
qed

lemma others_keep_ok: "others_run env \<Longrightarrow> mod_ok db \<Longrightarrow> mod_ok (me_others env call db)"
  by (rule others_keep) (auto intro: run_statement_ok)

lemma others_keep_closed: "others_run env \<Longrightarrow> report_closed c e db \<Longrightarrow> report_closed c e (me_others env call db)"
  by (rule others_keep) (auto intro: report_closed_stays)

definition report_row :: "uuid \<Rightarrow> string \<Rightarrow> uuid \<Rightarrow> mod_db \<Rightarrow> bool" where
  "report_row c e i db \<longleftrightarrow> (\<exists>r. get_report_by_event c e db = Some r \<and> rp_id r = i)"

lemma report_row_stays: "report_row c e i db \<Longrightarrow> report_row c e i (run_statement op db)"
  unfolding report_row_def using report_evolves by metis

lemma others_keep_row: "others_run env \<Longrightarrow> report_row c e i db \<Longrightarrow> report_row c e i (me_others env call db)"
  by (rule others_keep) (auto intro: report_row_stays)

text \<open>What a successful resolution did: the report was open when it was closed.\<close>

lemma handle_resolve_Ok:
  assumes run: "handle_resolve env c ev (db, effs) = (w', Ok u)" and others: "others_run env" and ok: "mod_ok db"
  obtains e where "extract_report_tag ev = Some e" "\<not> report_closed c e db" "report_closed c e (fst w')" "mod_ok (fst w')"
proof -
  note keep = others_keep_ok [OF others] others_keep_closed [OF others] others_keep_row [OF others]
  obtain db' effs' where w': "w' = (db', effs')" by fastforce
  obtain e status w1 auth r i db3 where
    e: "extract_report_tag ev = Some e" and status: "status \<in> {''resolved'', ''dismissed''}"
    and auth: "authorize_command env c (ev_pubkey (te_event ev)) (EventTarget e) ResolveReport (db, effs) = (w1, Ok auth)"
    and r: "get_report_by_event c e (me_others env ReadReport (fst w1)) = Some r" "rp_status r = ''open''"
    and audit: "\<exists>a. insert_action (me_now env WriteAudit) (me_new_id env) c a
        (me_others env WriteAudit (me_others env ReadReport (fst w1))) = Some (db3, i)"
    and wr: "resolve_report (me_now env WriteResolution) c (rp_id r) status (ev_pubkey (te_event ev)) (Some i)
        (me_others env WriteResolution db3) = Some (db', True)"
    using run unfolding w' handle_resolve_def Let_def insert_audit_def
    apply (simp only: handler_ok prod.collapse split_paired_Ex, elim exE conjE, simp only: prod.inject, elim conjE, hypsubst)
    apply (rule that)
    apply (assumption | rule refl | (simp only: fst_conv, rule sym, assumption) | (rule exI, assumption) | simp only: fst_conv)+
    done
  obtain db1 where w1: "w1 = (db1, effs)" and "db1 = me_others env ReadActor db \<or> db1 = me_others env ReadTarget (me_others env ReadActor db)"
    using auth by (rule authorize_command_Ok)
  then have db1: "mod_ok db1" "report_closed c e db \<Longrightarrow> report_closed c e db1"
    using keep(1,2) ok by metis+
  have was_open: "\<not> report_closed c e db"
    using keep(2) [OF db1(2), of ReadReport] r by (auto simp: report_closed_def w1)
  let ?db2 = "me_others env WriteAudit (me_others env ReadReport db1)"
  obtain a where a: "insert_action (me_now env WriteAudit) (me_new_id env) c a ?db2 = Some (db3, i)"
    using audit w1 by auto
  then have db3: "db3 = run_statement (SAction (me_now env WriteAudit) (me_new_id env) c a) ?db2"
    by (simp add: committed_def)
  have "report_row c e (rp_id r) (me_others env ReadReport db1)" using r w1 by (simp add: report_row_def)
  then have "mod_ok (me_others env WriteResolution db3)" "report_row c e (rp_id r) (me_others env WriteResolution db3)"
    unfolding db3 using db1(1) by (blast intro: keep run_statement_ok report_row_stays)+
  moreover from this have "mod_ok (run_statement (SResolve (me_now env WriteResolution) c (rp_id r) status
      (ev_pubkey (te_event ev)) (Some i)) (me_others env WriteResolution db3))" by (blast intro: run_statement_ok)
  ultimately have "report_closed c e db'" "mod_ok db'"
    using resolution_closes [OF _ _ _ wr] status wr by (auto simp: report_row_def committed_def)
  then show ?thesis using that e was_open w' by auto
qed

section \<open>Commands\<close>

definition command_body :: "mod_env \<Rightarrow> uuid \<Rightarrow> tagged_event \<Rightarrow> (mod_error, unit) mod_handler" where
  "command_body env c ev =
     (let kind = ev_kind (te_event ev) in
      if kind = KIND_MODERATION_BAN then handle_ban env c ev
      else if kind = KIND_MODERATION_UNBAN then handle_unban env c ev
      else if kind = KIND_MODERATION_TIMEOUT then handle_timeout env c ev
      else if kind = KIND_MODERATION_UNTIMEOUT then handle_untimeout env c ev
      else if kind = KIND_MODERATION_RESOLVE_REPORT then handle_resolve env c ev
      else yields (Err (Invalid (UnexpectedCommand kind))))"

lemma command_Ok:
  assumes "handle_moderation_command env tenant ev (db, effs) = (w', Ok u)"
  shows "command_body env (tc_community tenant) ev (me_others env ReadRestriction db, effs) = (w', Ok u)"
    and "\<not> rt_banned (restriction_state (me_now env ReadRestriction) (tc_community tenant) (ev_pubkey (te_event ev))
            (me_others env ReadRestriction db))"
    and "admin_fresh (ev_created_at (te_event ev)) (me_now env CheckClock div 10 ^ 6)"
  using assms unfolding handle_moderation_command_def Let_def command_body_def
  by (auto simp: handler_ok split: if_splits)

section \<open>Nothing without authority\<close>

abbreviation inert :: "(mod_db \<Rightarrow> bool) \<Rightarrow> mod_effect list \<Rightarrow> ('e, 'a) mod_handler \<Rightarrow> bool" where
  "inert I E m \<equiv> triple (\<lambda>(db, effs). I db \<and> effs = E) m (\<lambda>_ (db, effs). I db \<and> effs = E)"

abbreviation denied :: "(mod_db \<Rightarrow> bool) \<Rightarrow> mod_effect list \<Rightarrow> ('e, 'a) mod_handler \<Rightarrow> bool" where
  "denied I E m \<equiv> triple (\<lambda>(db, effs). I db \<and> effs = E) m (\<lambda>r (db, effs). I db \<and> effs = E \<and> isl r)"

lemma denied_later: "inert I E m \<Longrightarrow> (\<And>a. denied I E (f a)) \<Longrightarrow> denied I E (then_do m f)"
  by (erule triple_then) auto

lemma denied_first: "denied I E m \<Longrightarrow> denied I E (then_do m f)"
  by (erule triple_then) (auto simp: triple_def)

lemma inert_simps [intro]:
  "inert I E (need e x)" "inert I E (check_that e ok)" "inert I E (yields r)"
  by (auto simp: need_def check_that_def yields_def triple_def)

lemma then_do_yields: "then_do (yields (Ok a)) f = f a"
  by (simp add: then_do_def yields_def fun_eq_iff)

lemma denied_error [intro]: "denied I E (yields (Err e))"
  by (auto simp: yields_def triple_def)

lemma inert_read:
  "(\<And>call db. I db \<Longrightarrow> I (me_others env call db)) \<Longrightarrow> inert I E (db_read env call e f)"
  by (auto simp: triple_def db_read_def Let_def)

text \<open>Someone who is neither owner nor admin, or an admin against the owner or an admin, is refused.\<close>

lemma denied_no_staff:
  assumes others: "\<And>call db. I db \<Longrightarrow> I (me_others env call db)"
    and role: "\<And>db. I db \<Longrightarrow> community_role c actor db \<notin> {Some owner_role, Some admin_role}"
  shows "denied I E (authorize_command env c actor target action)"
proof (rule tripleI)
  fix w w' r assume "case w of (db, effs) \<Rightarrow> I db \<and> effs = E" and run: "authorize_command env c actor target action w = (w', r)"
  then obtain db where w: "w = (db, E)" "I db" by auto
  let ?db = "me_others env ReadActor db"
  have "I ?db" "community_role c actor ?db \<noteq> Some owner_role" "community_role c actor ?db \<noteq> Some admin_role"
    using others w(2) role [OF others [OF w(2)]] by auto
  then show "case w' of (db, effs) \<Rightarrow> I db \<and> effs = E \<and> isl r"
    using run unfolding w authorize_command_def authorize_moderation_action_def
    by (cases target) (auto simp: on_error_def then_do_def db_read_def yields_def Let_def decide_authority_def split: if_splits)
qed

lemma denied_guard:
  assumes others: "\<And>call db. I db \<Longrightarrow> I (me_others env call db)" and "action \<in> {Ban, Timeout}"
    and role: "\<And>db. I db \<Longrightarrow> community_role c actor db \<noteq> Some owner_role"
    and target: "\<And>db. I db \<Longrightarrow> community_role c t db \<in> {Some owner_role, Some admin_role}"
  shows "denied I E (authorize_command env c actor (PubkeyTarget t) action)"
proof (rule tripleI)
  fix w w' r assume "case w of (db, effs) \<Rightarrow> I db \<and> effs = E"
    and run: "authorize_command env c actor (PubkeyTarget t) action w = (w', r)"
  then obtain db where w: "w = (db, E)" "I db" by auto
  let ?db = "me_others env ReadActor db" let ?db' = "me_others env ReadTarget ?db"
  have "I ?db" "I ?db'" "community_role c actor ?db \<noteq> Some owner_role" "community_role c t ?db' \<in> {Some owner_role, Some admin_role}"
    using others w(2) role target by auto
  then show "case w' of (db, effs) \<Rightarrow> I db \<and> effs = E \<and> isl r"
    using run assms(2) unfolding w authorize_command_def authorize_moderation_action_def
    by (auto simp: on_error_def then_do_def db_read_def yields_def Let_def decide_authority_def split: if_splits)
qed

lemma command_body_denied:
  assumes others: "\<And>call db. I db \<Longrightarrow> I (me_others env call db)"
    and power: "(\<forall>db. I db \<longrightarrow> community_role c (ev_pubkey (te_event ev)) db \<notin> {Some owner_role, Some admin_role})
      \<or> ev_kind (te_event ev) \<in> {KIND_MODERATION_BAN, KIND_MODERATION_TIMEOUT}
        \<and> (\<forall>db. I db \<longrightarrow> community_role c (ev_pubkey (te_event ev)) db \<noteq> Some owner_role)
        \<and> (\<exists>t. extract_p_tag_bytes ev = Some t
              \<and> (\<forall>db. I db \<longrightarrow> community_role c t db \<in> {Some owner_role, Some admin_role}))"
  shows "denied I E (command_body env c ev)"
proof -
  let ?actor = "ev_pubkey (te_event ev)"
  show ?thesis
  proof (cases "\<forall>db. I db \<longrightarrow> community_role c ?actor db \<notin> {Some owner_role, Some admin_role}")
    case True
    have d: "denied I E (authorize_command env c ?actor target action)" for target action
      by (rule denied_no_staff) (use True others in blast)+
    show ?thesis
      unfolding command_body_def handle_ban_def handle_unban_def handle_timeout_def handle_untimeout_def handle_resolve_def Let_def
      by (simp only: split: if_split, intro conjI impI; (rule denied_first [OF d] denied_error | (rule denied_later, rule inert_simps))+)
  next
    case False
    then obtain t where t: "extract_p_tag_bytes ev = Some t"
      and kind: "ev_kind (te_event ev) = KIND_MODERATION_BAN \<or> ev_kind (te_event ev) = KIND_MODERATION_TIMEOUT"
      and role: "\<And>db. I db \<Longrightarrow> community_role c ?actor db \<noteq> Some owner_role"
        "\<And>db. I db \<Longrightarrow> community_role c t db \<in> {Some owner_role, Some admin_role}"
      using power by blast
    have d: "denied I E (authorize_command env c ?actor (PubkeyTarget t) action)" if "action \<in> {Ban, Timeout}" for action
      by (rule denied_guard) (use others that role in blast)+
    have "denied I E (handle_ban env c ev)" "denied I E (handle_timeout env c ev)"
      unfolding handle_ban_def handle_timeout_def Let_def t need_def [of _ "Some t"] option.case then_do_yields
      by (rule denied_later inert_simps denied_first d insertI1 insertI2)+
    with kind show ?thesis by (auto simp: command_body_def Let_def)
  qed
qed

section \<open>Bans\<close>

definition ban_holds :: "uuid \<Rightarrow> string \<Rightarrow> int option \<Rightarrow> mod_db \<Rightarrow> bool" where
  "ban_holds c pk e db \<longleftrightarrow> (\<exists>b. ban_row c pk db = Some b \<and> bn_banned b \<and> bn_ban_expires_at b = e)"

text \<open>A statement that neither bans nor unbans this key.\<close>

definition spares :: "uuid \<Rightarrow> string \<Rightarrow> mod_statement \<Rightarrow> bool" where
  "spares c pk op =
     (case op of
        SBan _ c' pk' _ _ _ \<Rightarrow> (c', pk') \<noteq> (c, pk)
      | SUnban _ c' pk' _ \<Rightarrow> (c', pk') \<noteq> (c, pk)
      | _ \<Rightarrow> True)"

definition others_spare :: "uuid \<Rightarrow> string \<Rightarrow> mod_env \<Rightarrow> bool" where
  "others_spare c pk env \<longleftrightarrow>
     (\<forall>call db. \<exists>ops. list_all (spares c pk) ops \<and> me_others env call db = fold run_statement ops db)"

lemma ban_holds_stays:
  assumes "spares c pk op" "ban_holds c pk e db"
  shows "ban_holds c pk e (run_statement op db)"
proof (cases op)
  case (SReport now i c' r)
  then show ?thesis
    using assms by (auto simp: committed_def ban_holds_def ban_row_def split: option.split dest!: insert_report_Some)
next
  case (SResolve now c' i status resolver a)
  then show ?thesis
    using assms by (auto simp: committed_def ban_holds_def ban_row_def split: option.split dest!: resolve_report_Some(2))
next
  case (SAction now i c' a)
  then show ?thesis
    using assms by (auto simp: committed_def ban_holds_def ban_row_def split: option.split dest!: insert_action_Some(4))
next
  case (SElsewhere roster channels events blobs)
  then show ?thesis using assms by (simp add: ban_holds_def ban_row_def)
qed (use assms in \<open>auto simp: ban_holds_def spares_def committed_def ban_member_def unban_member_def timeout_member_def
    untimeout_member_def split: option.split\<close>)

lemma ban_holds_fold: "list_all (spares c pk) ops \<Longrightarrow> ban_holds c pk e db \<Longrightarrow> ban_holds c pk e (fold run_statement ops db)"
  by (induction ops arbitrary: db) (auto intro: ban_holds_stays)

lemma others_keep_ban: "others_spare c pk env \<Longrightarrow> ban_holds c pk e db \<Longrightarrow> ban_holds c pk e (me_others env call db)"
  unfolding others_spare_def using ban_holds_fold by metis

lemma ban_holds_restricts:
  "ban_holds c pk e db \<Longrightarrow> rt_banned (restriction_state now c pk db) \<longleftrightarrow> (case e of None \<Rightarrow> True | Some t \<Rightarrow> int now < t)"
  by (auto simp: ban_holds_def restriction_state_def ban_active_def)

lemma ban_member_holds: "ban_member now c pk actor reason e db = Some (db', u) \<Longrightarrow> ban_holds c pk e db'"
  by (auto simp: ban_member_def ban_holds_def split: if_splits option.splits)

end
