(* ===== verification/ModerationRules.thy ===== *)
theory ModerationRules
  imports ModerationSafety AgentOwners
begin

text \<open>
  The guarantees of community moderation, whatever other sessions do between the calls of a command: no effect
  without authority, what an accepted ban leaves behind and how long it shuts its target out, that a report is
  resolved once; and one gap: when the audit row cannot be written, the ban is in force without it.
\<close>

section \<open>A small community\<close>

definition demo_mod_uuid :: uuid where "demo_mod_uuid = mk_uuid (replicate 16 3)"
definition demo_mod_new :: uuid where "demo_mod_new = mk_uuid (replicate 16 4)"

definition mod_key :: "char \<Rightarrow> string" where "mod_key ch = replicate 64 ch"

definition demo_mod_member :: "string \<Rightarrow> relay_member" where
  "demo_mod_member role = \<lparr>rm_role = role, rm_added_by = None, rm_created_at = 0, rm_updated_at = 0\<rparr>"

definition demo_mod_roster :: roster_db where
  "demo_mod_roster =
     \<lparr>rd_members = [((demo_mod_uuid, mod_key (CHR ''d'')), demo_mod_member owner_role),
                    ((demo_mod_uuid, mod_key (CHR ''e'')), demo_mod_member admin_role),
                    ((demo_mod_uuid, mod_key (CHR ''a'')), demo_mod_member member_role)],
      rd_acceptances = [],
      rd_communities = [(demo_mod_uuid, \<lparr>cy_host = ''h'', cy_archived_at = None, cy_icon = None\<rparr>)]\<rparr>"

definition demo_mod_db :: mod_db where
  "demo_mod_db = empty_mod_db demo_mod_roster \<lparr>pt_events = [], pt_channels = [], pt_channel_members = []\<rparr>"

definition demo_mod_env :: mod_env where
  "demo_mod_env = \<lparr>me_now = \<lambda>_. 200000000, me_fault = \<lambda>_. DbOk, me_others = \<lambda>_ db. db, me_new_id = demo_mod_new,
     me_chrono = \<lambda>_. True\<rparr>"

definition demo_mod_tenant :: tenant_context where
  "demo_mod_tenant = \<lparr>tc_community = demo_mod_uuid, tc_host = ''h''\<rparr>"

definition demo_mod_event :: "nat \<Rightarrow> string \<Rightarrow> string list list \<Rightarrow> tagged_event" where
  "demo_mod_event kind actor slices =
     \<lparr>te_event = \<lparr>ev_id = mod_key (CHR ''e''), ev_pubkey = actor, ev_created_at = 200, ev_kind = kind, ev_tags = [],
                   ev_content = []\<rparr>,
      te_slices = slices\<rparr>"

definition demo_ban_event :: "string \<Rightarrow> string \<Rightarrow> tagged_event" where
  "demo_ban_event actor target = demo_mod_event KIND_MODERATION_BAN actor [[''p'', target]]"

lemma demo_mod_others: "others_run demo_mod_env" "others_spare c pk demo_mod_env"
  unfolding others_run_def others_spare_def demo_mod_env_def
  by (auto intro: exI [of _ "[]"])

lemma demo_now: "me_now demo_mod_env call = 200000000"
  by (simp add: demo_mod_env_def)

lemma mod_key_simps [simp]: "length (mod_key ch) = 64" "mod_key ch = mod_key ch' \<longleftrightarrow> ch = ch'"
  by (simp_all add: mod_key_def)

section \<open>Properties\<close>

text \<open>
  C25 (Moderation needs authority). Let \<open>I\<close> be anything that other sessions keep true. If it implies that the
  sender is neither owner nor admin of the community, or that a ban or timeout by someone who is not the owner is
  aimed at the owner or an admin, or that the sender is banned, then a moderation command does nothing of its own:
  \<open>I\<close> still holds, no connection is closed, nobody is notified, and the reply is an error.
\<close>

theorem moderation_needs_authority:
  assumes others: "\<And>call db. I db \<Longrightarrow> I (me_others env call db)" and "I db"
    and power: "(\<forall>db. I db \<longrightarrow> community_role (tc_community tenant) (ev_pubkey (te_event ev)) db \<notin> {Some owner_role, Some admin_role})
      \<or> ev_kind (te_event ev) \<in> {KIND_MODERATION_BAN, KIND_MODERATION_TIMEOUT}
        \<and> (\<forall>db. I db \<longrightarrow> community_role (tc_community tenant) (ev_pubkey (te_event ev)) db \<noteq> Some owner_role)
        \<and> (\<exists>t. extract_p_tag_bytes ev = Some t
              \<and> (\<forall>db. I db \<longrightarrow> community_role (tc_community tenant) t db \<in> {Some owner_role, Some admin_role}))
      \<or> (\<forall>db. I db \<longrightarrow> rt_banned (restriction_state (me_now env ReadRestriction) (tc_community tenant)
              (ev_pubkey (te_event ev)) db))"
  shows "case handle_moderation_command env tenant ev (db, effs) of
      ((db', effs'), reply) \<Rightarrow> I db' \<and> effs' = effs \<and> isl reply"
proof -
  let ?c = "tc_community tenant" and ?actor = "ev_pubkey (te_event ev)"
  have "denied I effs (handle_moderation_command env tenant ev)"
  proof (cases "\<forall>db. I db \<longrightarrow> rt_banned (restriction_state (me_now env ReadRestriction) ?c ?actor db)")
    case True
    then show ?thesis
      using others by (auto simp: triple_def handle_moderation_command_def Let_def then_do_def db_read_def yields_def)
  next
    case False
    then have "denied I effs (command_body env ?c ev)" using power by (intro command_body_denied others) blast+
    then show ?thesis
      unfolding handle_moderation_command_def Let_def command_body_def
      by (intro denied_later inert_read inert_simps others)
  qed
  from tripleD [OF this, of "(db, effs)"] \<open>I db\<close> show ?thesis by (auto split: prod.split)
qed

text \<open>
  C27 (A report is resolved at most once). Let moderator A's resolution of a report succeed while other sessions
  run any statements between its calls. Then the report was open and is closed, and whatever statements follow,
  no later resolution of the same report succeeds, whoever sends it and whatever runs between its own calls.
\<close>

theorem report_resolved_once:
  assumes "others_run env1" "others_run env2" "mod_ok db"
    and "handle_moderation_command env1 tenant1 ev1 (db, effs1) = ((db1, effs1'), Ok ())"
    and "ev_kind (te_event ev1) = KIND_MODERATION_RESOLVE_REPORT" "ev_kind (te_event ev2) = KIND_MODERATION_RESOLVE_REPORT"
    and "tc_community tenant2 = tc_community tenant1" "extract_report_tag ev2 = extract_report_tag ev1"
  shows "(\<exists>e. extract_report_tag ev1 = Some e \<and> \<not> report_closed (tc_community tenant1) e db
        \<and> report_closed (tc_community tenant1) e db1)
    \<and> snd (handle_moderation_command env2 tenant2 ev2 (fold run_statement ops db1, effs2)) \<noteq> Ok ()"
proof -
  let ?c = "tc_community tenant1"
  have "handle_resolve env1 ?c ev1 (me_others env1 ReadRestriction db, effs1) = ((db1, effs1'), Ok ())"
    using command_Ok(1) [OF assms(4)] assms(5) by (simp add: command_body_def)
  then obtain e where e: "extract_report_tag ev1 = Some e" "\<not> report_closed ?c e (me_others env1 ReadRestriction db)"
    "report_closed ?c e db1" "mod_ok db1"
    using handle_resolve_Ok [OF _ assms(1) others_keep_ok [OF assms(1,3)]] by (metis fst_conv)
  let ?db2 = "fold run_statement ops db1"
  have later: "report_closed ?c e ?db2" "mod_ok ?db2"
    using fold_keeps [where I = "report_closed ?c e", OF report_closed_stays e(3)]
      fold_keeps [where I = mod_ok, OF run_statement_ok e(4)] by auto
  have False if run: "handle_moderation_command env2 tenant2 ev2 (?db2, effs2) = (w, Ok ())" for w
  proof -
    have "handle_resolve env2 ?c ev2 (me_others env2 ReadRestriction ?db2, effs2) = (w, Ok ())"
      using command_Ok(1) [OF run] assms(6,7) by (simp add: command_body_def)
    then show False
      using handle_resolve_Ok [OF _ assms(2) others_keep_ok [OF assms(2) later(2)]] others_keep_closed [OF assms(2) later(1)]
        assms(8) e(1) by (metis option.inject)
  qed
  then show ?thesis using e others_keep_closed [OF assms(1)] by (metis prod.collapse)
qed


definition ban_notices :: "mod_env \<Rightarrow> uuid \<Rightarrow> string \<Rightarrow> tagged_event \<Rightarrow> mod_effect list" where
  "ban_notices env c t ev =
     [DisconnectPubkey c t (ev_id (te_event ev)) ''blocked: you are banned from this community'',
      SendNotice c t (Restriction (me_new_id env) ''ban'' (reason_text (extract_tag_value ''reason'' (te_slices ev))))]"

definition ban_audited :: "mod_env \<Rightarrow> uuid \<Rightarrow> string \<Rightarrow> tagged_event \<Rightarrow> mod_db \<Rightarrow> bool" where
  "ban_audited env c t ev db \<longleftrightarrow>
     (\<exists>a. (c, a) \<in> set (md_actions db) \<and> al_id a = me_new_id env \<and> na_action a = ''ban''
        \<and> na_actor a = ev_pubkey (te_event ev) \<and> na_target_pubkey a = Some t)"

lemma handle_ban_Ok:
  assumes run: "handle_ban env c ev (db, effs) = ((db', effs'), Ok u)" and target: "extract_p_tag_bytes ev = Some t"
  obtains e a db1 where "extract_expiration env ev = Ok e" and "ban_holds c t e db1"
    and "insert_action (me_now env WriteAudit) (me_new_id env) c a (me_others env WriteAudit db1) = Some (db', me_new_id env)"
    and "na_actor a = ev_pubkey (te_event ev)" "na_action a = ''ban''" "na_target_pubkey a = Some t"
    and "effs' = effs @ ban_notices env c t ev"
proof -
  let ?reason = "extract_tag_value ''reason'' (te_slices ev)" and ?actor = "ev_pubkey (te_event ev)"
  obtain e w1 auth where e: "extract_expiration env ev = Ok e"
    and auth: "authorize_command env c ?actor (PubkeyTarget t) Ban (db, effs) = (w1, Ok auth)"
    and rest: "then_do (db_write env WriteRestriction ModDatabase (ban_member (me_now env WriteRestriction) c t ?actor ?reason e))
        (\<lambda>_. then_do (insert_audit env c ?actor ''ban'' (Some t) None ?reason)
        (\<lambda>action_id. then_do (emit (DisconnectPubkey c t (ev_id (te_event ev)) ''blocked: you are banned from this community''))
        (\<lambda>_. emit (SendNotice c t (Restriction action_id ''ban'' (reason_text ?reason))))))
        w1 = ((db', effs'), Ok u)"
    using run target unfolding handle_ban_def Let_def by (auto simp: handler_ok simp del: prod.case)
  obtain db0 where w1: "w1 = (db0, effs)" using auth by (rule authorize_command_Ok)
  show ?thesis
    using rest unfolding w1 insert_audit_def
    by (auto simp: handler_ok ban_notices_def intro!: that [OF e] dest: ban_member_holds insert_action_Some(1))
qed

lemma accepted_ban:
  assumes run: "handle_moderation_command env tenant ev (db, effs) = ((db', effs'), Ok ())"
    and kind: "ev_kind (te_event ev) = KIND_MODERATION_BAN"
    and target: "extract_p_tag_bytes ev = Some t" and spare: "others_spare (tc_community tenant) t env"
  obtains e where "extract_expiration env ev = Ok e" "ban_holds (tc_community tenant) t e db'"
    "ban_audited env (tc_community tenant) t ev db'" "effs' = effs @ ban_notices env (tc_community tenant) t ev"
proof -
  let ?c = "tc_community tenant"
  have "handle_ban env ?c ev (me_others env ReadRestriction db, effs) = ((db', effs'), Ok ())"
    using command_Ok(1) [OF run] kind by (simp add: command_body_def)
  then obtain e a db1 where e: "extract_expiration env ev = Ok e" and holds: "ban_holds ?c t e db1"
    and ins: "insert_action (me_now env WriteAudit) (me_new_id env) ?c a (me_others env WriteAudit db1) = Some (db', me_new_id env)"
    and a: "na_actor a = ev_pubkey (te_event ev)" "na_action a = ''ban''" "na_target_pubkey a = Some t"
    and effs': "effs' = effs @ ban_notices env ?c t ev"
    by (rule handle_ban_Ok [OF _ target])
  have "ban_holds ?c t e db'"
    using others_keep_ban [OF spare holds] unfolding insert_action_Some(4) [OF ins] by (simp add: ban_holds_def ban_row_def)
  moreover have "ban_audited env ?c t ev db'"
    unfolding insert_action_Some(4) [OF ins] ban_audited_def
    by (rule exI [of _ "new_action.extend a \<lparr>al_id = me_new_id env, al_created_at = me_now env WriteAudit\<rparr>"])
      (simp add: new_action.defs a)
  ultimately show ?thesis using e effs' that by blast
qed

text \<open>
  An accepted ban. When a ban is accepted and nobody else bans or unbans the target meanwhile, the target is
  restricted from then on exactly until the expiration that the command names (always, without one), the action
  log has the row of this ban, the target's connections were closed and the target was notified. The effect of an
  expiration in the past is that no ban holds any more.
\<close>

theorem ban_takes_effect:
  assumes run: "handle_moderation_command env tenant ev (db, effs) = ((db', effs'), Ok ())"
    and kind: "ev_kind (te_event ev) = KIND_MODERATION_BAN"
    and target: "extract_p_tag_bytes ev = Some t" and spare: "others_spare (tc_community tenant) t env"
  shows "(\<exists>e. extract_expiration env ev = Ok e
      \<and> (\<forall>now. rt_banned (restriction_state now (tc_community tenant) t db') = (case e of None \<Rightarrow> True | Some until \<Rightarrow> int now < until)))
    \<and> ban_audited env (tc_community tenant) t ev db' \<and> effs' = effs @ ban_notices env (tc_community tenant) t ev"
  using accepted_ban [OF assms] ban_holds_restricts by metis

text \<open>
  The bans that the AUTH handler reads (\<open>WsAuth\<close>) are the restrictions in force at its clock.
\<close>

definition bans_agree :: "nat \<Rightarrow> mod_db \<Rightarrow> relay_state \<Rightarrow> bool" where
  "bans_agree now db st \<longleftrightarrow> (\<forall>c pk. (c, pk) \<in> set (rs_banned st) \<longleftrightarrow> rt_banned (restriction_state now c pk db))"

lemma banned_gate: "(c, pk) \<in> set (rs_banned st) \<Longrightarrow> restriction_outcome fails st c pk \<noteq> BanClear"
  by (simp add: restriction_outcome_def db_query_def)

text \<open>
  C26 (A ban shuts its target out). After an accepted ban let any statements follow, other bans, timeouts, lifted
  timeouts, reports and resolutions included, as long as none bans or unbans this target. While the expiration
  lies ahead the target cannot authenticate, nor can an agent that presents an attestation of the target, and no
  moderation command of the target succeeds.
\<close>

theorem ban_shuts_out:
  assumes "handle_moderation_command env tenant ev (db, effs) = ((db', effs'), Ok ())"
    and "ev_kind (te_event ev) = KIND_MODERATION_BAN"
    and "extract_p_tag_bytes ev = Some t" "others_spare (tc_community tenant) t env"
    and e: "extract_expiration env ev = Ok e" "case e of None \<Rightarrow> True | Some until \<Rightarrow> int now < until"
    and ops: "list_all (spares (tc_community tenant) t) ops"
    and agree: "bans_agree now (fold run_statement ops db') st"
    and oa: "extract_nip_oa_owner alib agent tag = Some t"
    and ev2: "ev_pubkey (te_event ev2) = t" "tc_community tenant2 = tc_community tenant"
    and env2: "others_spare (tc_community tenant) t env2" "me_now env2 ReadRestriction = now"
  shows "ban_gate alib fails st (tc_community tenant) t tag2 \<noteq> BanClear
    \<and> ban_gate alib fails st (tc_community tenant) agent tag \<noteq> BanClear
    \<and> isl (snd (handle_moderation_command env2 tenant2 ev2 (fold run_statement ops db', effs2)))"
proof -
  let ?c = "tc_community tenant" and ?db = "fold run_statement ops db'"
  obtain e' where "extract_expiration env ev = Ok e'" "ban_holds ?c t e' db'" by (rule accepted_ban [OF assms(1-4)])
  then have holds: "ban_holds ?c t e ?db" using e ops by (simp add: ban_holds_fold)
  then have "(?c, t) \<in> set (rs_banned st)" using agree e(2) by (simp add: bans_agree_def ban_holds_restricts)
  then have gate: "restriction_outcome fails st ?c t \<noteq> BanClear" by (rule banned_gate)
  have "rt_banned (restriction_state now ?c t (me_others env2 ReadRestriction ?db))"
    using ban_holds_restricts [OF others_keep_ban [OF env2(1) holds]] e(2) by simp
  then have "isl (snd (handle_moderation_command env2 tenant2 ev2 (?db, effs2)))"
    using ev2 env2(2) by (simp add: handle_moderation_command_def then_do_def db_read_def yields_def Let_def)
  with gate show ?thesis using oa by (auto simp: ban_gate_def split: ban_outcome.split)
qed

text \<open>
  C28 (A ban without its record). When the insertion of the audit row fails, the command answers with a database
  error, yet the ban is in force: the target is restricted, but there is no row in the action log, the target's
  connections stay open and nobody is notified.
\<close>

theorem unaudited_ban:
  assumes "\<And>call db. me_others env call db = db" "me_fault env WriteAudit = DbFailed"
    "\<And>call. call \<noteq> WriteAudit \<Longrightarrow> me_fault env call = DbOk"
    and "ev_kind (te_event ev) = KIND_MODERATION_BAN" "extract_p_tag_bytes ev = Some t" "extract_expiration env ev = Ok e"
    and "admin_fresh (ev_created_at (te_event ev)) (me_now env CheckClock div 10 ^ 6)"
    and "\<not> rt_banned (restriction_state (me_now env ReadRestriction) (tc_community tenant) (ev_pubkey (te_event ev)) db)"
    and "community_role (tc_community tenant) (ev_pubkey (te_event ev)) db = Some owner_role"
    and "ban_row_allowed (tc_community tenant) t (ev_pubkey (te_event ev)) db"
  shows "\<exists>db'. handle_moderation_command env tenant ev (db, effs) = ((db', effs), Err ModDatabase)
    \<and> ban_holds (tc_community tenant) t e db' \<and> md_actions db' = md_actions db"
proof -
  let ?c = "tc_community tenant" and ?actor = "ev_pubkey (te_event ev)"
  let ?ban = "ban_member (me_now env WriteRestriction) ?c t ?actor (extract_tag_value ''reason'' (te_slices ev)) e db"
  obtain db' where ban: "?ban = Some (db', ())" "md_actions db' = md_actions db"
    using assms(10) by (auto simp: ban_member_def)
  have "handle_ban env ?c ev (db, effs) = ((db', effs), Err ModDatabase)"
    using assms ban(1)
    by (simp add: handle_ban_def then_do_def need_def yields_def db_write_def insert_audit_def authorize_command_def
      authorize_moderation_action_def db_read_def decide_authority_def on_error_def Let_def commit_def split: option.split)
  then have "handle_moderation_command env tenant ev (db, effs) = ((db', effs), Err ModDatabase)"
    using assms by (simp add: handle_moderation_command_def then_do_def db_read_def yields_def check_that_def Let_def)
  then show ?thesis using ban ban_member_holds by blast
qed


section \<open>Witnesses\<close>

lemmas demo_mod_defs =
  demo_mod_uuid_def demo_mod_new_def demo_mod_member_def demo_mod_roster_def demo_mod_db_def empty_mod_db_def
  demo_mod_env_def demo_mod_tenant_def demo_mod_event_def demo_ban_event_def

lemma demo_fresh: "admin_fresh 200 (200000000 div 10 ^ 6)"
  using admin_fresh_iff [of 200 200] by simp

lemma demo_hex_key:
  "ch \<in> {CHR ''a'', CHR ''d'', CHR ''e''} \<Longrightarrow> to_ascii_lowercase (mod_key ch) = mod_key ch \<and> list_all is_ascii_hexdigit (mod_key ch)"
  by (auto simp: mod_key_def to_ascii_lowercase_def to_ascii_lower_def list_all_iff is_ascii_hexdigit_def is_digit_def)

lemma demo_target:
  "ch \<in> {CHR ''a'', CHR ''d'', CHR ''e''} \<Longrightarrow> extract_p_tag_bytes (demo_ban_event actor (mod_key ch)) = Some (mod_key ch)"
  using demo_hex_key [of ch] by (simp add: extract_p_tag_bytes_def demo_ban_event_def demo_mod_event_def)

lemma demo_roles:
  "md_roster db = demo_mod_roster \<Longrightarrow> community_role demo_mod_uuid (mod_key (CHR ''d'')) db = Some owner_role"
  "md_roster db = demo_mod_roster \<Longrightarrow> community_role demo_mod_uuid (mod_key (CHR ''e'')) db = Some admin_role"
  "md_roster db = demo_mod_roster \<Longrightarrow> community_role demo_mod_uuid (mod_key (CHR ''a'')) db = Some member_role"
  by (simp_all add: community_role_def get_relay_member_def demo_mod_roster_def demo_mod_member_def)

theorem moderation_needs_authority_witness:
  "case handle_moderation_command demo_mod_env demo_mod_tenant
      (demo_ban_event (mod_key (CHR ''e'')) (mod_key (CHR ''d''))) (demo_mod_db, []) of
      ((db', effs'), reply) \<Rightarrow> md_roster db' = demo_mod_roster \<and> effs' = [] \<and> isl reply"
proof (rule moderation_needs_authority [of "\<lambda>db. md_roster db = demo_mod_roster"])
  show "md_roster demo_mod_db = demo_mod_roster" by (simp add: demo_mod_db_def empty_mod_db_def)
qed (use demo_target [of "CHR ''d''"] in \<open>simp_all add: demo_mod_env_def demo_mod_tenant_def demo_ban_event_def
      demo_mod_event_def demo_roles\<close>)

definition demo_member_ban :: tagged_event where
  "demo_member_ban = demo_ban_event (mod_key (CHR ''d'')) (mod_key (CHR ''a''))"

definition demo_banned :: mod_db where
  "demo_banned = fst (fst (handle_moderation_command demo_mod_env demo_mod_tenant demo_member_ban (demo_mod_db, [])))"

lemma demo_member_ban_parts:
  "ev_pubkey (te_event demo_member_ban) = mod_key (CHR ''d'')" "ev_kind (te_event demo_member_ban) = KIND_MODERATION_BAN"
  "ev_created_at (te_event demo_member_ban) = 200" "extract_p_tag_bytes demo_member_ban = Some (mod_key (CHR ''a''))"
  "extract_expiration env demo_member_ban = Ok None" "extract_tag_value ''reason'' (te_slices demo_member_ban) = None"
  using demo_target [of "CHR ''a''" "mod_key (CHR ''d'')"]
  by (simp_all add: demo_member_ban_def demo_ban_event_def demo_mod_event_def extract_expiration_def)

lemma demo_mod_db_parts:
  "md_roster demo_mod_db = demo_mod_roster" "md_bans demo_mod_db = []" "md_actions demo_mod_db = []"
  "tc_community demo_mod_tenant = demo_mod_uuid" "community_exists demo_mod_uuid demo_mod_db"
  by (simp_all add: demo_mod_defs community_exists_def)

lemma demo_not_restricted: "restriction_state now c pk demo_mod_db = \<lparr>rt_banned = False, rt_muted_until = None\<rparr>"
  by (simp add: restriction_state_def ban_row_def demo_mod_db_parts)

lemmas demo_ban_run =
  handle_moderation_command_def handle_ban_def demo_member_ban_parts demo_mod_env_def db_read_def db_write_def
  then_do_def yields_def need_def check_that_def emit_def insert_audit_def authorize_command_def on_error_def
  authorize_moderation_action_def decide_authority_def demo_mod_db_parts demo_not_restricted commit_def ban_member_def
  ban_row_allowed_def ban_row_def insert_action_def action_allowed_def MODERATION_ACTION_CHECK_VOCAB_def
  community_exists_def put_ban_def demo_mod_roster_def Let_def

lemma demo_member_ban_Ok:
  "\<exists>effs'. handle_moderation_command demo_mod_env demo_mod_tenant demo_member_ban (demo_mod_db, []) = ((demo_banned, effs'), Ok ())"
proof -
  let ?run = "handle_moderation_command demo_mod_env demo_mod_tenant demo_member_ban (demo_mod_db, [])"
  have "snd ?run = Ok ()"
    using demo_fresh demo_roles(1) [OF demo_mod_db_parts(1)]
    by (simp add: demo_ban_run)
  then show ?thesis unfolding demo_banned_def by (metis prod.collapse)
qed

theorem ban_takes_effect_witness:
  "\<forall>now. rt_banned (restriction_state now demo_mod_uuid (mod_key (CHR ''a'')) demo_banned)"
proof -
  obtain effs' where "handle_moderation_command demo_mod_env demo_mod_tenant demo_member_ban (demo_mod_db, []) = ((demo_banned, effs'), Ok ())"
    using demo_member_ban_Ok by blast
  from ban_takes_effect [OF this demo_member_ban_parts(2,4) demo_mod_others(2)]
  show ?thesis by (simp add: demo_member_ban_parts demo_mod_db_parts)
qed

definition demo_bans_state :: relay_state where
  "demo_bans_state = demo_tables\<lparr>rs_banned := [(demo_mod_uuid, mod_key (CHR ''a''))]\<rparr>"

lemma demo_banned_row: "md_bans demo_banned = [((demo_mod_uuid, mod_key (CHR ''a'')),
   \<lparr>bn_banned = True, bn_ban_expires_at = None, bn_ban_reason = None, bn_muted_until = None, bn_mute_reason = None,
    bn_actor = mod_key (CHR ''d''), bn_updated_at = 200000000\<rparr>)]"
    using demo_fresh demo_roles(1) [OF demo_mod_db_parts(1)]
    by (simp add: demo_banned_def demo_ban_run)

theorem ban_shuts_out_witness:
  "ban_gate demo_attest (\<lambda>_. False) demo_bans_state demo_mod_uuid (mod_key (CHR ''a'')) None \<noteq> BanClear
   \<and> (\<exists>tag. ban_gate demo_attest (\<lambda>_. False) demo_bans_state demo_mod_uuid (mod_key (CHR ''b'')) (Some tag) \<noteq> BanClear)
   \<and> isl (snd (handle_moderation_command demo_mod_env demo_mod_tenant
         (demo_ban_event (mod_key (CHR ''a'')) (mod_key (CHR ''d''))) (demo_banned, [])))"
proof -
  obtain effs' where run: "handle_moderation_command demo_mod_env demo_mod_tenant demo_member_ban (demo_mod_db, []) = ((demo_banned, effs'), Ok ())"
    using demo_member_ban_Ok by blast
  obtain tag where "extract_nip_oa_owner demo_attest (mod_key (CHR ''b'')) (Some tag) = Some (mod_key (CHR ''a''))"
  proof
    have "at_public demo_attest True = mod_key (CHR ''a'')" by (simp add: demo_attest_def mod_key_def)
    then show "extract_nip_oa_owner demo_attest (mod_key (CHR ''b'')) (Some (demo_print [''auth'', replicate 64 CHR ''a'',
        render_conditions [Before 1713957000], replicate 128 CHR ''a''])) = Some (mod_key (CHR ''a''))"
      using attestation_verifies [OF demo_attest_laws demo_tag, THEN conjunct1] by (simp add: extract_nip_oa_owner_def mod_key_def)
  qed
  moreover have "bans_agree 200000000 (fold run_statement [] demo_banned) demo_bans_state"
    by (auto simp: bans_agree_def demo_bans_state_def restriction_state_def ban_row_def demo_banned_row ban_active_def)
  ultimately have "ban_gate demo_attest (\<lambda>_. False) demo_bans_state (tc_community demo_mod_tenant) (mod_key (CHR ''a'')) None \<noteq> BanClear
    \<and> ban_gate demo_attest (\<lambda>_. False) demo_bans_state (tc_community demo_mod_tenant) (mod_key (CHR ''b'')) (Some tag) \<noteq> BanClear
    \<and> isl (snd (handle_moderation_command demo_mod_env demo_mod_tenant
         (demo_ban_event (mod_key (CHR ''a'')) (mod_key (CHR ''d''))) (fold run_statement [] demo_banned, [])))"
    by (intro ban_shuts_out [OF run demo_member_ban_parts(2,4) demo_mod_others(2) demo_member_ban_parts(5)])
      (simp_all add: demo_mod_others demo_ban_event_def demo_mod_event_def demo_now)
  then show ?thesis by (auto simp: demo_mod_db_parts)
qed


definition demo_no_audit :: mod_env where
  "demo_no_audit = demo_mod_env\<lparr>me_fault := (\<lambda>call. if call = WriteAudit then DbFailed else DbOk)\<rparr>"

theorem unaudited_ban_witness:
  "\<exists>db'. handle_moderation_command demo_no_audit demo_mod_tenant demo_member_ban (demo_mod_db, []) = ((db', []), Err ModDatabase)
     \<and> ban_holds demo_mod_uuid (mod_key (CHR ''a'')) None db' \<and> md_actions db' = []"
proof -
  have "\<exists>db'. handle_moderation_command demo_no_audit demo_mod_tenant demo_member_ban (demo_mod_db, []) = ((db', []), Err ModDatabase)
     \<and> ban_holds (tc_community demo_mod_tenant) (mod_key (CHR ''a'')) None db' \<and> md_actions db' = md_actions demo_mod_db"
    by (rule unaudited_ban)
      (use demo_fresh demo_roles(1) [OF demo_mod_db_parts(1)] in \<open>simp_all add: demo_no_audit_def demo_mod_env_def
        demo_member_ban_parts demo_mod_db_parts demo_not_restricted ban_row_allowed_def\<close>)
  then show ?thesis by (simp add: demo_mod_db_parts)
qed

definition demo_report_row :: new_report where
  "demo_report_row = \<lparr>nr_event_id = mod_key (CHR ''e''), nr_reporter = mod_key (CHR ''a''),
     nr_target = TargetPubkey (mod_key (CHR ''d'')), nr_channel = None, nr_type = ''spam'', nr_note = None\<rparr>"

definition demo_reported :: mod_db where
  "demo_reported = run_statement (SReport 7 (mk_uuid (replicate 16 5)) demo_mod_uuid demo_report_row) demo_mod_db"

definition demo_resolution :: tagged_event where
  "demo_resolution = demo_mod_event KIND_MODERATION_RESOLVE_REPORT (mod_key (CHR ''d''))
     [[''report'', mod_key (CHR ''e'')], [''status'', ''dismissed''], [''action'', ''dismiss'']]"

lemma demo_resolution_parts:
  "ev_pubkey (te_event demo_resolution) = mod_key (CHR ''d'')" "ev_kind (te_event demo_resolution) = KIND_MODERATION_RESOLVE_REPORT"
  "ev_created_at (te_event demo_resolution) = 200" "extract_report_tag demo_resolution = Some (mod_key (CHR ''e''))"
  "extract_tag_value ''reason'' (te_slices demo_resolution) = None"
  "extract_tag_value ''status'' (te_slices demo_resolution) = Some ''dismissed''"
  "extract_tag_value ''action'' (te_slices demo_resolution) = Some ''dismiss''"
  using demo_hex_key [of "CHR ''e''"] by (simp_all add: demo_resolution_def demo_mod_event_def extract_report_tag_def)

lemma demo_reported_eq:
  "demo_reported = demo_mod_db\<lparr>md_reports := [(demo_mod_uuid, open_record 7 (mk_uuid (replicate 16 5)) demo_report_row)]\<rparr>"
  by (simp add: demo_reported_def committed_def insert_report_def report_allowed_def demo_report_row_def demo_mod_db_parts
    get_report_by_event_def get_report_def) (simp add: demo_mod_db_def empty_mod_db_def)

lemma demo_resolution_Ok:
  "snd (handle_moderation_command demo_mod_env demo_mod_tenant demo_resolution (demo_reported, [])) = Ok ()"
  using demo_fresh demo_roles(1) [of demo_reported]
  by (simp add: handle_moderation_command_def handle_resolve_def demo_resolution_parts demo_mod_env_def db_read_def db_write_def
    then_do_def yields_def need_def check_that_def emit_def insert_audit_def authorize_command_def on_error_def
    authorize_moderation_action_def decide_authority_def demo_mod_db_parts commit_def demo_reported_eq restriction_state_def
    ban_row_def get_report_by_event_def demo_report_row_def open_record_def resolution_audit_action_def
    insert_action_def action_allowed_def MODERATION_ACTION_CHECK_VOCAB_def community_exists_def demo_mod_roster_def
    resolve_report_def status_allowed_def new_action.defs Let_def)

theorem report_resolved_once_witness:
  "snd (handle_moderation_command demo_mod_env demo_mod_tenant demo_resolution (demo_reported, [])) = Ok ()
   \<and> snd (handle_moderation_command demo_mod_env demo_mod_tenant demo_resolution
         (fst (fst (handle_moderation_command demo_mod_env demo_mod_tenant demo_resolution (demo_reported, []))), [])) \<noteq> Ok ()"
proof -
  obtain db1 effs1 where run: "handle_moderation_command demo_mod_env demo_mod_tenant demo_resolution (demo_reported, []) = ((db1, effs1), Ok ())"
    using demo_resolution_Ok by (metis prod.collapse)
  have "mod_ok demo_reported"
    unfolding demo_reported_def by (rule run_statement_ok) (simp add: demo_mod_db_def empty_mod_ok)
  from report_resolved_once [OF demo_mod_others(1) demo_mod_others(1) this run demo_resolution_parts(2) demo_resolution_parts(2) refl refl, of "[]" "[]"]
  show ?thesis by (simp add: run)
qed

end
