(* ===== verification/Ingest.thy ===== *)
theory Ingest
  imports Moderation AuthScope
begin

text \<open>
  The way of an event into the relay: the routing of a websocket event and the handler of ephemeral events
  (\<open>handle_event\<close>, \<open>handle_ephemeral_event\<close> of \<open>crates/buzz-relay/src/handlers/event.rs\<close>), and the gates of
  \<open>ingest_event_inner\<close> (\<open>handlers/ingest.rs\<close>) up to the point where an event is handed to the handler of its kind
  or to the validation that precedes storage. Every query reads the tables as they are at that moment: \<open>in_tables\<close>
  gives them per query, \<open>in_fails\<close> says which query fails. The membership cache is state. Parameters: the event
  verification of \<open>http_lib\<close> and the parser of UUIDs.
\<close>

section \<open>Scopes and classes of kinds\<close>

definition has_tag :: "string \<Rightarrow> nostr_event \<Rightarrow> bool" where
  "has_tag name ev \<longleftrightarrow> list_ex (\<lambda>t. tag_kind t = name) (ev_tags ev)"

definition required_scope_for_kind :: "nat \<Rightarrow> nostr_event \<Rightarrow> scope option" where
  "required_scope_for_kind kind ev =
     (if kind = KIND_PROFILE then Some UsersWrite
      else if kind \<in> {KIND_TEXT_NOTE, KIND_LONG_FORM} then Some MessagesWrite
      else if kind \<in> {KIND_CONTACT_LIST, KIND_READ_STATE, KIND_USER_STATUS, KIND_AGENT_ENGRAM, KIND_EVENT_REMINDER,
                      KIND_PERSONA, KIND_TEAM, KIND_MANAGED_AGENT, KIND_PUSH_LEASE} then Some UsersWrite
      else if kind = KIND_AGENT_TURN_METRIC then Some MessagesWrite
      else if kind \<in> {KIND_REPORT, KIND_PRODUCT_FEEDBACK} then Some MessagesWrite
      else if is_moderation_command_kind kind then Some MessagesWrite
      else if kind \<in> {KIND_MUTE_LIST, KIND_PIN_LIST, KIND_NIP65_RELAY_LIST_METADATA, KIND_BOOKMARK_LIST, KIND_FOLLOW_SET,
                      KIND_BOOKMARK_SET, KIND_EMOJI_SET, KIND_EMOJI_LIST, KIND_AGENT_PROFILE} then Some UsersWrite
      else if kind \<in> {KIND_DELETION, KIND_REACTION, KIND_GIFT_WRAP, KIND_STREAM_MESSAGE, KIND_STREAM_MESSAGE_V2,
                      KIND_NIP29_DELETE_EVENT, KIND_STREAM_MESSAGE_EDIT, KIND_STREAM_MESSAGE_PINNED,
                      KIND_STREAM_MESSAGE_BOOKMARKED, KIND_STREAM_MESSAGE_SCHEDULED, KIND_STREAM_REMINDER,
                      KIND_STREAM_MESSAGE_DIFF, KIND_FORUM_POST, KIND_FORUM_VOTE, KIND_FORUM_COMMENT} then Some MessagesWrite
      else if kind \<in> {KIND_NIP29_PUT_USER, KIND_NIP29_REMOVE_USER, KIND_NIP29_DELETE_GROUP} then Some AdminChannels
      else if is_relay_admin_kind kind then Some AdminUsers
      else if kind \<in> {KIND_IA_ARCHIVE_REQUEST, KIND_IA_UNARCHIVE_REQUEST} then Some UsersWrite
      else if kind = KIND_NIP29_EDIT_METADATA
      then Some (if has_tag ''archived'' ev then AdminChannels else ChannelsWrite)
      else if kind \<in> {KIND_NIP29_CREATE_GROUP, KIND_CANVAS} then Some ChannelsWrite
      else if kind \<in> {KIND_NIP29_JOIN_REQUEST, KIND_NIP29_LEAVE_REQUEST, KIND_NIP43_LEAVE_REQUEST} then Some ChannelsRead
      else if kind \<in> {KIND_HUDDLE_STARTED, KIND_HUDDLE_PARTICIPANT_JOINED, KIND_HUDDLE_PARTICIPANT_LEFT, KIND_HUDDLE_ENDED,
                      KIND_HUDDLE_GUIDELINES} then Some ChannelsWrite
      else if kind \<in> {KIND_GIT_REPO_ANNOUNCEMENT, KIND_GIT_REPO_STATE} then Some ReposWrite
      else if kind \<in> {KIND_GIT_PATCH, KIND_GIT_PULL_REQUEST, KIND_GIT_PR_UPDATE, KIND_GIT_ISSUE, KIND_GIT_STATUS_OPEN,
                      KIND_GIT_STATUS_MERGED, KIND_GIT_STATUS_CLOSED, KIND_GIT_STATUS_DRAFT} then Some MessagesWrite
      else if kind \<in> {KIND_DM_OPEN, KIND_DM_ADD_MEMBER, KIND_DM_HIDE} then Some MessagesWrite
      else if kind \<in> {KIND_WORKFLOW_DEF, KIND_WORKFLOW_TRIGGER} then Some MessagesWrite
      else if kind \<in> {KIND_APPROVAL_GRANT, KIND_APPROVAL_DENY} then Some MessagesWrite
      else None)"

definition is_global_only_kind :: "nat \<Rightarrow> bool" where
  "is_global_only_kind kind \<longleftrightarrow> kind \<in>
     {KIND_PROFILE, KIND_TEXT_NOTE, KIND_CONTACT_LIST, KIND_LONG_FORM, KIND_USER_STATUS, KIND_READ_STATE,
      KIND_MUTE_LIST, KIND_PIN_LIST, KIND_NIP65_RELAY_LIST_METADATA, KIND_BOOKMARK_LIST, KIND_FOLLOW_SET,
      KIND_BOOKMARK_SET, KIND_EMOJI_SET, KIND_EMOJI_LIST, KIND_AGENT_ENGRAM, KIND_EVENT_REMINDER,
      KIND_AGENT_PROFILE, KIND_PERSONA, KIND_TEAM, KIND_MANAGED_AGENT, KIND_GIT_REPO_ANNOUNCEMENT,
      KIND_GIT_REPO_STATE, KIND_GIT_PATCH, KIND_GIT_PULL_REQUEST, KIND_GIT_PR_UPDATE, KIND_GIT_ISSUE,
      KIND_GIT_STATUS_OPEN, KIND_GIT_STATUS_MERGED, KIND_GIT_STATUS_CLOSED, KIND_GIT_STATUS_DRAFT,
      KIND_MODERATION_BAN, KIND_MODERATION_UNBAN, KIND_MODERATION_TIMEOUT, KIND_MODERATION_UNTIMEOUT,
      KIND_MODERATION_RESOLVE_REPORT, RELAY_ADMIN_ADD_MEMBER, RELAY_ADMIN_REMOVE_MEMBER,
      RELAY_ADMIN_CHANGE_ROLE, RELAY_ADMIN_SET_WORKSPACE_PROFILE, KIND_NIP43_LEAVE_REQUEST,
      KIND_IA_ARCHIVE_REQUEST, KIND_IA_UNARCHIVE_REQUEST, KIND_AGENT_TURN_METRIC, KIND_PUSH_LEASE}"

definition requires_h_channel_scope :: "nat \<Rightarrow> bool" where
  "requires_h_channel_scope kind \<longleftrightarrow> kind \<in>
     {KIND_STREAM_MESSAGE, KIND_STREAM_MESSAGE_V2, KIND_STREAM_MESSAGE_EDIT, KIND_STREAM_MESSAGE_PINNED,
      KIND_STREAM_MESSAGE_BOOKMARKED, KIND_STREAM_MESSAGE_SCHEDULED, KIND_STREAM_REMINDER,
      KIND_STREAM_MESSAGE_DIFF, KIND_CANVAS, KIND_FORUM_POST, KIND_FORUM_VOTE, KIND_FORUM_COMMENT,
      KIND_NIP29_PUT_USER, KIND_NIP29_REMOVE_USER, KIND_NIP29_EDIT_METADATA, KIND_NIP29_DELETE_EVENT,
      KIND_NIP29_DELETE_GROUP, KIND_NIP29_LEAVE_REQUEST, KIND_HUDDLE_STARTED, KIND_HUDDLE_PARTICIPANT_JOINED,
      KIND_HUDDLE_PARTICIPANT_LEFT, KIND_HUDDLE_ENDED, KIND_HUDDLE_GUIDELINES}"

section \<open>Requests\<close>

datatype ingest_auth =
    IngestNip42 string "scope list" "uuid list option" uuid
  | IngestHttp string "scope list"

fun auth_pubkey :: "ingest_auth \<Rightarrow> string" where
  "auth_pubkey (IngestNip42 pk _ _ _) = pk"
| "auth_pubkey (IngestHttp pk _) = pk"

fun auth_scopes :: "ingest_auth \<Rightarrow> scope list" where
  "auth_scopes (IngestNip42 _ scopes _ _) = scopes"
| "auth_scopes (IngestHttp _ scopes) = scopes"

fun auth_channel_ids :: "ingest_auth \<Rightarrow> uuid list option" where
  "auth_channel_ids (IngestNip42 _ _ ids _) = ids"
| "auth_channel_ids (IngestHttp _ _) = None"

fun auth_is_http :: "ingest_auth \<Rightarrow> bool" where
  "auth_is_http (IngestNip42 _ _ _ _) = False"
| "auth_is_http (IngestHttp _ _) = True"

text \<open>Channels that are not deleted, with their visibility, and the members of channels.\<close>

record channel_view =
  cv_visibility :: string
  cv_archived :: bool

record ingest_tables =
  it_mod :: mod_db
  it_channels :: "(uuid \<times> uuid, channel_view) hmap"
  it_members :: "(uuid \<times> uuid \<times> string) list"

datatype ingest_call = QRestriction | QReactionTarget | QDeletionTarget | QChannel | QMember | QOpenChannel

record ingest_env =
  in_now :: nat
  in_panicked :: bool
  in_fails :: "ingest_call \<Rightarrow> bool"
  in_tables :: "ingest_call \<Rightarrow> ingest_tables"
  in_parse_uuid :: "string \<Rightarrow> uuid option"

type_synonym member_cache = "(uuid \<times> uuid \<times> string, bool) hmap"

definition now_secs :: "ingest_env \<Rightarrow> nat" where
  "now_secs env = in_now env div 10 ^ 6"

fun channel_tag_of :: "(string \<Rightarrow> uuid option) \<Rightarrow> event_tag list \<Rightarrow> uuid option" where
  "channel_tag_of parse [] = None"
| "channel_tag_of parse (t # ts) =
     (case (if tag_kind t = ''h'' then Option.bind (tag_content t) parse else None) of
        Some i \<Rightarrow> Some i | None \<Rightarrow> channel_tag_of parse ts)"

definition extract_channel_id :: "ingest_env \<Rightarrow> nostr_event \<Rightarrow> uuid option" where
  "extract_channel_id env ev = channel_tag_of (in_parse_uuid env) (ev_tags ev)"

text \<open>The first \<open>e\<close> tag with 64 hex digits.\<close>

fun hex_e_tag :: "event_tag list \<Rightarrow> string option" where
  "hex_e_tag [] = None"
| "hex_e_tag (t # ts) =
     (case (if tag_kind t = ''e'' then tag_content t else None) of
        Some v \<Rightarrow> if length v = 64 \<and> list_all is_ascii_hexdigit v then Some (to_ascii_lowercase v) else hex_e_tag ts
      | None \<Rightarrow> hex_e_tag ts)"

datatype reaction_channel = InChannel uuid | NoChannel | TargetUnknown | NoTargetTag | TargetDbError

definition derive_reaction_channel :: "ingest_env \<Rightarrow> uuid \<Rightarrow> nostr_event \<Rightarrow> reaction_channel" where
  "derive_reaction_channel env c ev =
     (case hex_e_tag (rev (ev_tags ev)) of
        None \<Rightarrow> NoTargetTag
      | Some target \<Rightarrow>
          if in_fails env QReactionTarget then TargetDbError
          else case map_of (md_events (it_mod (in_tables env QReactionTarget))) (c, target) of
            None \<Rightarrow> TargetUnknown
          | Some None \<Rightarrow> NoChannel
          | Some (Some ch) \<Rightarrow> InChannel ch)"

section \<open>Channel membership\<close>

definition is_member_cached ::
  "ingest_env \<Rightarrow> uuid \<Rightarrow> uuid \<Rightarrow> string \<Rightarrow> member_cache \<Rightarrow> member_cache \<times> (unit + bool)" where
  "is_member_cached env c ch pk cache =
     (case map_of cache (c, ch, pk) of
        Some b \<Rightarrow> (cache, Ok b)
      | None \<Rightarrow>
          if in_fails env QMember then (cache, Err ())
          else let b = (c, ch, pk) \<in> set (it_members (in_tables env QMember))
               in (AList.update (c, ch, pk) b cache, Ok b))"

definition check_channel_membership ::
  "ingest_env \<Rightarrow> uuid \<Rightarrow> uuid \<Rightarrow> string \<Rightarrow> channel_view option \<Rightarrow> member_cache \<Rightarrow> member_cache \<times> (string + unit)" where
  "check_channel_membership env c ch pk channel cache =
     (case is_member_cached env c ch pk cache of
        (cache, Inl _) \<Rightarrow> (cache, Err ''error: database error'')
      | (cache, Inr True) \<Rightarrow> (cache, Ok ())
      | (cache, Inr False) \<Rightarrow>
          let is_open = (case channel of
              Some row \<Rightarrow> cv_visibility row = ''open''
            | None \<Rightarrow> \<not> in_fails env QOpenChannel
                \<and> (case map_of (it_channels (in_tables env QOpenChannel)) (c, ch) of
                     None \<Rightarrow> False | Some row \<Rightarrow> cv_visibility row = ''open''))
          in (cache, if is_open then Ok () else Err ''restricted: not a channel member''))"

definition check_token_channel_access :: "ingest_auth \<Rightarrow> uuid \<Rightarrow> bool" where
  "check_token_channel_access auth ch = (case auth_channel_ids auth of None \<Rightarrow> True | Some ids \<Rightarrow> ch \<in> set ids)"

section \<open>The gates of an ingested event\<close>

datatype ingest_reason =
    AuthNotSubmittable | NotificationKind | WebSocketOnly nat | RelayOnlyKind | BadEvent verification_error
  | VerifyPanicked | TimestampDrift | ContentTooLong nat | WrongPubkey | UnknownKind | AdminNeedsGlobalToken
  | LeaveNeedsGlobalToken | InsufficientScope scope | BannedHere | TimedOut int | RestrictionDbError
  | ReactionTargetUnknown | ReactionWithoutTarget | TargetLookupFailed | MissingHTag | TokenChannel | TokenGlobal
  | Membership string

datatype ingest_error =
    Rejected ingest_reason
  | AuthFailed ingest_reason
  | Internal ingest_reason

datatype ingest_route =
    ToCommand | ToFeedback | ToReport | ToModeration | ToRelayAdmin | ToLeave
  | ToValidation "uuid option"

definition within_drift :: "nat \<Rightarrow> nat \<Rightarrow> bool" where
  "within_drift created_at now \<longleftrightarrow> sint (wrapping_abs (word_of_nat created_at - word_of_nat now)) \<le> 900"

text \<open>The checks before any query.\<close>

definition check_event :: "'u http_lib \<Rightarrow> ingest_env \<Rightarrow> nostr_event \<Rightarrow> ingest_auth \<Rightarrow> ingest_error + scope" where
  "check_event lib env ev auth =
     (let kind = ev_kind ev in
      if kind = KIND_AUTH then Err (Rejected AuthNotSubmittable)
      else if kind = KIND_MEMBER_ADDED_NOTIFICATION \<or> kind = KIND_MEMBER_REMOVED_NOTIFICATION then Err (Rejected NotificationKind)
      else if auth_is_http auth \<and> (kind = KIND_GIFT_WRAP \<or> kind = KIND_PRESENCE_UPDATE) then Err (Rejected (WebSocketOnly kind))
      else if is_relay_only_kind kind then Err (Rejected RelayOnlyKind)
      else if in_panicked env then Err (Internal VerifyPanicked)
      else case verify_event lib ev of
        Inl e \<Rightarrow> Err (Rejected (BadEvent e))
      | Inr _ \<Rightarrow>
          if \<not> within_drift (ev_created_at ev) (now_secs env) then Err (Rejected TimestampDrift)
          else if 256 * 1024 < length (ev_content ev) then Err (Rejected (ContentTooLong (length (ev_content ev))))
          else if ev_pubkey ev \<noteq> auth_pubkey auth \<and> kind \<noteq> KIND_GIFT_WRAP then Err (AuthFailed WrongPubkey)
          else case required_scope_for_kind kind ev of
            None \<Rightarrow> Err (Rejected UnknownKind)
          | Some required \<Rightarrow>
              if is_relay_admin_kind kind \<and> auth_channel_ids auth \<noteq> None then Err (AuthFailed AdminNeedsGlobalToken)
              else if kind = KIND_NIP43_LEAVE_REQUEST \<and> auth_channel_ids auth \<noteq> None then Err (AuthFailed LeaveNeedsGlobalToken)
              else if required \<notin> set (auth_scopes auth) then Err (AuthFailed (InsufficientScope required))
              else Ok required)"

text \<open>The ban and timeout gate; an instant is in microseconds, its timestamp in seconds.\<close>

definition write_gate :: "ingest_env \<Rightarrow> uuid \<Rightarrow> string \<Rightarrow> ingest_error + unit" where
  "write_gate env c pk =
     (if in_fails env QRestriction then Err (Internal RestrictionDbError)
      else let r = restriction_state (in_now env) c pk (it_mod (in_tables env QRestriction)) in
        if rt_banned r then Err (AuthFailed BannedHere)
        else case rt_muted_until r of
          Some until \<Rightarrow> if int (in_now env) < until then Err (AuthFailed (TimedOut (until div 10 ^ 6))) else Ok ()
        | None \<Rightarrow> Ok ())"

definition event_channel :: "ingest_env \<Rightarrow> uuid \<Rightarrow> nostr_event \<Rightarrow> ingest_error + uuid option" where
  "event_channel env c ev =
     (let kind = ev_kind ev in
      if kind = KIND_REACTION then
        (case derive_reaction_channel env c ev of
           InChannel ch \<Rightarrow> Ok (Some ch)
         | NoChannel \<Rightarrow> Ok None
         | TargetUnknown \<Rightarrow> Err (Rejected ReactionTargetUnknown)
         | NoTargetTag \<Rightarrow> Err (Rejected ReactionWithoutTarget)
         | TargetDbError \<Rightarrow> Err (Internal TargetLookupFailed))
      else if kind = KIND_GIFT_WRAP then Ok None
      else if kind = KIND_DELETION then
        (case hex_e_tag (ev_tags ev) of
           None \<Rightarrow> Ok None
         | Some target \<Rightarrow>
             if in_fails env QDeletionTarget then Err (Internal TargetLookupFailed)
             else Ok (case map_of (md_events (it_mod (in_tables env QDeletionTarget))) (c, target) of
                        None \<Rightarrow> None | Some ch \<Rightarrow> ch))
      else Ok (extract_channel_id env ev))"

definition skip_membership :: "nat \<Rightarrow> bool" where
  "skip_membership kind \<longleftrightarrow> kind \<in>
     {KIND_NIP29_JOIN_REQUEST, KIND_NIP29_CREATE_GROUP, KIND_STREAM_MESSAGE_EDIT, KIND_NIP29_EDIT_METADATA,
      KIND_NIP29_DELETE_EVENT, KIND_NIP29_DELETE_GROUP}"

definition channel_gate ::
  "ingest_env \<Rightarrow> uuid \<Rightarrow> nostr_event \<Rightarrow> ingest_auth \<Rightarrow> uuid option \<Rightarrow> member_cache
     \<Rightarrow> member_cache \<times> (ingest_error + uuid option)" where
  "channel_gate env c ev auth found cache =
     (let kind = ev_kind ev; channel = (if is_global_only_kind kind then None else found) in
      if requires_h_channel_scope kind \<and> channel = None then (cache, Err (Rejected MissingHTag))
      else case channel of
        None \<Rightarrow> (cache, if auth_channel_ids auth \<noteq> None then Err (AuthFailed TokenGlobal) else Ok None)
      | Some ch \<Rightarrow>
          if \<not> check_token_channel_access auth ch then (cache, Err (AuthFailed TokenChannel))
          else if skip_membership kind then (cache, Ok (Some ch))
          else let row = (if in_fails env QChannel then None else map_of (it_channels (in_tables env QChannel)) (c, ch))
               in case check_channel_membership env c ch (auth_pubkey auth) row cache of
                    (cache, Inl e) \<Rightarrow> (cache, Err (Rejected (Membership e)))
                  | (cache, Inr _) \<Rightarrow> (cache, Ok (Some ch)))"

definition ingest_event_inner ::
  "'u http_lib \<Rightarrow> ingest_env \<Rightarrow> tenant_context \<Rightarrow> nostr_event \<Rightarrow> ingest_auth \<Rightarrow> member_cache
     \<Rightarrow> member_cache \<times> (ingest_error + ingest_route)" where
  "ingest_event_inner lib env tenant ev auth cache =
     (let c = tc_community tenant; kind = ev_kind ev in
      case check_event lib env ev auth of
        Inl e \<Rightarrow> (cache, Err e)
      | Inr _ \<Rightarrow>
          if is_command_kind kind then (cache, Ok ToCommand)
          else if kind = KIND_PRODUCT_FEEDBACK then (cache, Ok ToFeedback)
          else if kind = KIND_REPORT then (cache, Ok ToReport)
          else if is_moderation_command_kind kind then (cache, Ok ToModeration)
          else case (if is_relay_admin_kind kind then Ok () else write_gate env c (auth_pubkey auth)) of
            Inl e \<Rightarrow> (cache, Err e)
          | Inr _ \<Rightarrow>
              (case event_channel env c ev of
                 Inl e \<Rightarrow> (cache, Err e)
               | Inr found \<Rightarrow>
                   (case channel_gate env c ev auth found cache of
                      (cache, Inl e) \<Rightarrow> (cache, Err e)
                    | (cache, Inr channel) \<Rightarrow>
                        (cache, Ok (if is_relay_admin_kind kind then ToRelayAdmin
                                    else if kind = KIND_NIP43_LEAVE_REQUEST then ToLeave
                                    else ToValidation channel)))))"

section \<open>Leaving the relay\<close>

datatype leave_error = MembershipDisabled | LeaveTimestamp | NotProtected | LeaveDatabase | NotMember | OwnerCannotLeave

definition handle_leave ::
  "bool \<Rightarrow> nat \<Rightarrow> db_fault \<Rightarrow> (roster_db \<Rightarrow> roster_db) \<Rightarrow> uuid \<Rightarrow> tagged_event \<Rightarrow> roster_db
     \<Rightarrow> roster_db \<times> (leave_error + unit)" where
  "handle_leave require_membership now fault gap c ev st =
     (if \<not> require_membership then (st, Err MembershipDisabled)
      else if \<not> admin_fresh (ev_created_at (te_event ev)) now then (st, Err LeaveTimestamp)
      else if \<not> list_ex (\<lambda>t. t \<noteq> [] \<and> hd t = ''-'') (te_slices ev) then (st, Err NotProtected)
      else case commit fault st (Some (remove_relay_member gap c (ev_pubkey (te_event ev)) st)) of
        (st, Inl _) \<Rightarrow> (st, Err LeaveDatabase)
      | (st, Inr r) \<Rightarrow> (st, case r of Removed \<Rightarrow> Ok () | remove_result.IsOwner \<Rightarrow> Err OwnerCannotLeave | _ \<Rightarrow> Err NotMember))"

section \<open>Events on a websocket\<close>

datatype ws_outcome =
    WsRefused string
  | WsObserver
  | WsEphemeral
  | WsIngest ingest_auth

definition handle_event :: "uuid \<Rightarrow> auth_context option \<Rightarrow> nostr_event \<Rightarrow> ws_outcome" where
  "handle_event conn_id authenticated ev =
     (let kind = ev_kind ev in
      case authenticated of
        None \<Rightarrow> WsRefused ''auth-required: not authenticated''
      | Some ctx \<Rightarrow>
          let may_write = ac_scopes ctx = [] \<or> MessagesWrite \<in> set (ac_scopes ctx) in
          if ev_pubkey ev \<noteq> ac_pubkey ctx \<and> kind \<noteq> KIND_GIFT_WRAP
          then WsRefused ''invalid: event pubkey does not match authenticated identity''
          else if kind = KIND_AUTH then WsRefused ''invalid: AUTH events cannot be submitted via EVENT''
          else if kind = KIND_AGENT_OBSERVER_FRAME then
            (if may_write then WsObserver else WsRefused ''restricted: insufficient scope for agent observer frames'')
          else if is_ephemeral kind then
            (if may_write then WsEphemeral else WsRefused ''restricted: insufficient scope for ephemeral events'')
          else WsIngest (IngestNip42 (ac_pubkey ctx) (ac_scopes ctx) (ac_channel_ids ctx) conn_id))"

datatype eph_effect =
    ClearPresence string
  | SetPresence string string
  | MarkLocal string
  | PublishTo "uuid option"
  | UnmarkLocal string
  | FanOutTo "uuid option"

definition utf8_boundary :: "string \<Rightarrow> nat \<Rightarrow> bool" where
  "utf8_boundary s i \<longleftrightarrow> i = 0 \<or> i = length s \<or> i < length s \<and> \<not> ((128 :: nat) \<le> of_char (s ! i) \<and> of_char (s ! i) < (192 :: nat))"

fun boundary_below :: "string \<Rightarrow> nat \<Rightarrow> nat" where
  "boundary_below s 0 = 0"
| "boundary_below s (Suc i) = (if utf8_boundary s (Suc i) then Suc i else boundary_below s i)"

text \<open>\<open>json_status\<close> is the text of the member \<open>status\<close> of a JSON object, if there is one.\<close>

definition presence_status :: "(string \<Rightarrow> string option) \<Rightarrow> string \<Rightarrow> string" where
  "presence_status json_status raw =
     (if starts_with ''{'' raw then (case json_status raw of Some s \<Rightarrow> s | None \<Rightarrow> raw)
      else if 128 < length raw then take (boundary_below raw 128) raw else raw)"

definition handle_ephemeral_event ::
  "'u http_lib \<Rightarrow> ingest_env \<Rightarrow> (string \<Rightarrow> string option) \<Rightarrow> bool \<Rightarrow> uuid \<Rightarrow> string \<Rightarrow> nostr_event \<Rightarrow> member_cache
     \<Rightarrow> member_cache \<times> eph_effect list \<times> (string + unit)" where
  "handle_ephemeral_event lib env json_status publish_fails c pk ev cache =
     (if in_panicked env then (cache, [], Err ''error: internal error'')
      else if \<not> is_ok (verify_event lib ev) then (cache, [], Err ''invalid'')
      else
        let presence =
              (if ev_kind ev \<noteq> KIND_PRESENCE_UPDATE then []
               else let status = presence_status json_status (ev_content ev)
                    in if status = ''offline'' then [ClearPresence pk] else [SetPresence pk status]);
            send = (\<lambda>ch. [MarkLocal (ev_id ev), PublishTo ch] @ (if publish_fails then [UnmarkLocal (ev_id ev)] else []) @ [FanOutTo ch])
        in case extract_channel_id env ev of
             None \<Rightarrow> (cache, presence @ send None, Ok ())
           | Some ch \<Rightarrow>
               (case check_channel_membership env c ch pk None cache of
                  (cache, Inl e) \<Rightarrow> (cache, presence, Err e)
                | (cache, Inr _) \<Rightarrow> (cache, presence @ send (Some ch), Ok ())))"

end
