(* ===== verification/IngestRules.thy ===== *)
theory IngestRules
  imports Ingest ModerationRules
begin

text \<open>
  What it takes for an event to be let in, and three ways around the gates: commands and ephemeral events are
  handled before the ban and timeout gate, and a request to leave the relay that is sent over a websocket is
  treated as an ephemeral event.
\<close>

section \<open>Admission\<close>

lemma within_drift_iff:
  assumes "900 \<le> now" "now < 2 ^ 63" "created_at < 2 ^ 64"
  shows "within_drift created_at now \<longleftrightarrow> abs (int created_at - int now) \<le> 900 \<or> created_at = now + 2 ^ 63"
  using wrapped_distance_iff [of 900 now created_at] assms by (simp add: within_drift_def)


lemma check_event_Ok:
  assumes "check_event lib env ev auth = Ok required"
  shows "is_ok (verify_event lib ev)" "within_drift (ev_created_at ev) (now_secs env)" "length (ev_content ev) \<le> 262144"
    "ev_pubkey ev = auth_pubkey auth \<or> ev_kind ev = KIND_GIFT_WRAP"
    "required_scope_for_kind (ev_kind ev) ev = Some required" "required \<in> set (auth_scopes auth)"
    "\<not> is_relay_only_kind (ev_kind ev)" "ev_kind ev \<noteq> KIND_AUTH"
  using assms unfolding check_event_def verify_event_def Let_def by (auto split: if_splits option.splits)

text \<open>The sender may write in the channel: a member by the cache or the table, or the channel is open.\<close>

definition may_write_in :: "ingest_env \<Rightarrow> uuid \<Rightarrow> uuid \<Rightarrow> string \<Rightarrow> member_cache \<Rightarrow> bool" where
  "may_write_in env c ch pk cache \<longleftrightarrow>
     map_of cache (c, ch, pk) = Some True
     \<or> map_of cache (c, ch, pk) = None \<and> (c, ch, pk) \<in> set (it_members (in_tables env QMember))
     \<or> (\<exists>call \<in> {QChannel, QOpenChannel}. \<exists>row. map_of (it_channels (in_tables env call)) (c, ch) = Some row
          \<and> cv_visibility row = ''open'')"

lemma membership_Ok:
  assumes "check_channel_membership env c ch pk row cache = (cache', Ok u)"
    and "\<And>r. row = Some r \<Longrightarrow> map_of (it_channels (in_tables env QChannel)) (c, ch) = Some r"
  shows "may_write_in env c ch pk cache"
  using assms
  by (auto simp: check_channel_membership_def is_member_cached_def may_write_in_def Let_def
    split: option.splits sum.splits prod.splits bool.splits if_splits)

lemma channel_gate_Ok:
  assumes "channel_gate env c ev auth found cache = (cache', Ok (Some ch))"
  shows "check_token_channel_access auth ch" "found = Some ch" "\<not> is_global_only_kind (ev_kind ev)"
    "skip_membership (ev_kind ev) \<or> may_write_in env c ch (auth_pubkey auth) cache"
proof -
  let ?row = "if in_fails env QChannel then None else map_of (it_channels (in_tables env QChannel)) (c, ch)"
  have gate: "found = Some ch \<and> \<not> is_global_only_kind (ev_kind ev) \<and> check_token_channel_access auth ch
    \<and> (skip_membership (ev_kind ev) \<or> (\<exists>cache' u. check_channel_membership env c ch (auth_pubkey auth) ?row cache = (cache', Ok u)))"
    using assms unfolding channel_gate_def Let_def by (fastforce split: if_splits option.splits prod.splits sum.splits)
  then show "check_token_channel_access auth ch" "found = Some ch" "\<not> is_global_only_kind (ev_kind ev)" by blast+
  have row: "\<And>r. ?row = Some r \<Longrightarrow> map_of (it_channels (in_tables env QChannel)) (c, ch) = Some r"
    by (simp split: if_splits)
  show "skip_membership (ev_kind ev) \<or> may_write_in env c ch (auth_pubkey auth) cache"
    using gate membership_Ok [OF _ row] by blast
qed

definition restricted :: "ingest_env \<Rightarrow> uuid \<Rightarrow> string \<Rightarrow> bool" where
  "restricted env c pk \<longleftrightarrow>
     (let r = restriction_state (in_now env) c pk (it_mod (in_tables env QRestriction))
      in rt_banned r \<or> rt_muted_until r \<noteq> None)"

lemma muted_future: "rt_muted_until (restriction_state now c pk db) = Some t \<Longrightarrow> int now < t"
  by (auto simp: restriction_state_def mute_active_def split: option.splits if_splits)

lemma write_gate_Ok: "write_gate env c pk = Ok u \<longleftrightarrow> \<not> in_fails env QRestriction \<and> \<not> restricted env c pk"
  using muted_future [of "in_now env" c pk "it_mod (in_tables env QRestriction)"]
  by (auto simp: write_gate_def restricted_def Let_def split: option.splits)

lemma inner_Ok:
  assumes "ingest_event_inner lib env tenant ev auth cache = (cache', Ok route)"
  obtains required where "check_event lib env ev auth = Ok required"
    and "route = ToLeave \<or> (\<exists>channel. route = ToValidation channel)
      \<Longrightarrow> \<not> restricted env (tc_community tenant) (auth_pubkey auth)"
    and "\<And>ch. route = ToValidation (Some ch) \<Longrightarrow> check_token_channel_access auth ch
      \<and> (skip_membership (ev_kind ev) \<or> may_write_in env (tc_community tenant) ch (auth_pubkey auth) cache)"
proof -
  let ?c = "tc_community tenant" and ?kind = "ev_kind ev"
  obtain required where r: "check_event lib env ev auth = Ok required"
    using assms by (auto simp: ingest_event_inner_def Let_def split: sum.splits)
  have gated: "\<not> restricted env ?c (auth_pubkey auth) \<and> (\<forall>ch. route = ToValidation (Some ch) \<longrightarrow>
      (\<exists>found cache'. channel_gate env ?c ev auth found cache = (cache', Ok (Some ch))))"
    if "route = ToLeave \<or> (\<exists>channel. route = ToValidation channel)"
    using assms that write_gate_Ok [of env ?c "auth_pubkey auth"] unfolding ingest_event_inner_def r Let_def sum.case
    by (fastforce split: if_splits sum.splits prod.splits)
  show ?thesis
  proof (rule that [OF r])
    show "\<not> restricted env ?c (auth_pubkey auth)" if "route = ToLeave \<or> (\<exists>channel. route = ToValidation channel)"
      using gated that by blast
    show "check_token_channel_access auth ch \<and> (skip_membership ?kind \<or> may_write_in env ?c ch (auth_pubkey auth) cache)"
      if channel: "route = ToValidation (Some ch)" for ch
    proof -
      obtain found cache'' where "channel_gate env ?c ev auth found cache = (cache'', Ok (Some ch))"
        using gated channel by blast
      from channel_gate_Ok(1,4) [OF this] show ?thesis by blast
    qed
  qed
qed

text \<open>
  C18 (Admission). An event gets past the gates only when its signature verifies, it was created within fifteen
  minutes of now (or, by the wrap-around, 2^63 seconds ahead), is at most 256 KiB, was signed by the
  authenticated key (or is a gift wrap), and the scope of its kind was granted. When it goes on to be validated
  and stored, or is a request to leave, the sender is neither banned nor timed out; in a channel, the token covers
  the channel and the sender is a member or the channel open, unless the kind has a check of its own.
\<close>

theorem ingest_admission:
  assumes "ingest_event_inner lib env tenant ev auth cache = (cache', Ok route)"
    and "900 \<le> now_secs env" "now_secs env < 2 ^ 63" "ev_created_at ev < 2 ^ 64"
  shows "is_ok (verify_event lib ev) \<and> length (ev_content ev) \<le> 262144
    \<and> (abs (int (ev_created_at ev) - int (now_secs env)) \<le> 900 \<or> ev_created_at ev = now_secs env + 2 ^ 63)
    \<and> (ev_pubkey ev = auth_pubkey auth \<or> ev_kind ev = KIND_GIFT_WRAP)
    \<and> (\<exists>required \<in> set (auth_scopes auth). required_scope_for_kind (ev_kind ev) ev = Some required)
    \<and> \<not> is_relay_only_kind (ev_kind ev)
    \<and> (route = ToLeave \<or> (\<exists>channel. route = ToValidation channel)
         \<longrightarrow> \<not> restricted env (tc_community tenant) (auth_pubkey auth))
    \<and> (\<forall>ch. route = ToValidation (Some ch) \<longrightarrow> check_token_channel_access auth ch
         \<and> (skip_membership (ev_kind ev) \<or> may_write_in env (tc_community tenant) ch (auth_pubkey auth) cache))"
proof -
  obtain required where r: "check_event lib env ev auth = Ok required"
    and rest: "route = ToLeave \<or> (\<exists>channel. route = ToValidation channel)
        \<Longrightarrow> \<not> restricted env (tc_community tenant) (auth_pubkey auth)"
      "\<And>ch. route = ToValidation (Some ch) \<Longrightarrow> check_token_channel_access auth ch
        \<and> (skip_membership (ev_kind ev) \<or> may_write_in env (tc_community tenant) ch (auth_pubkey auth) cache)"
    using inner_Ok [OF assms(1)] by blast
  show ?thesis
    using check_event_Ok [OF r] rest within_drift_iff [OF assms(2-4)] by blast
qed


section \<open>Around the gate\<close>

text \<open>The same request while the restriction query reads other tables, or fails.\<close>

definition with_restrictions :: "ingest_tables \<Rightarrow> bool \<Rightarrow> ingest_env \<Rightarrow> ingest_env" where
  "with_restrictions tables fails env =
     env\<lparr>in_tables := (in_tables env)(QRestriction := tables), in_fails := (in_fails env)(QRestriction := fails)\<rparr>"

lemma with_restrictions_simps [simp]:
  "in_now (with_restrictions t f env) = in_now env" "in_panicked (with_restrictions t f env) = in_panicked env"
  "in_parse_uuid (with_restrictions t f env) = in_parse_uuid env" "now_secs (with_restrictions t f env) = now_secs env"
  "in_tables (with_restrictions t f env) QMember = in_tables env QMember"
  "in_tables (with_restrictions t f env) QOpenChannel = in_tables env QOpenChannel"
  "in_fails (with_restrictions t f env) QMember = in_fails env QMember"
  "in_fails (with_restrictions t f env) QOpenChannel = in_fails env QOpenChannel"
  by (simp_all add: with_restrictions_def now_secs_def)

lemma check_event_unrestricted: "check_event lib (with_restrictions t f env) ev auth = check_event lib env ev auth"
  unfolding check_event_def with_restrictions_simps ..

lemma membership_unrestricted:
  "check_channel_membership (with_restrictions t f env) c ch pk row cache = check_channel_membership env c ch pk row cache"
  unfolding check_channel_membership_def is_member_cached_def with_restrictions_simps ..

lemma ephemeral_unrestricted:
  "handle_ephemeral_event lib (with_restrictions t f env) json_status fails c pk ev cache
     = handle_ephemeral_event lib env json_status fails c pk ev cache"
  unfolding handle_ephemeral_event_def extract_channel_id_def membership_unrestricted with_restrictions_simps ..

text \<open>
  C19 (A banned sender still acts). A ban is re-checked where events are written, as the backstop for a connection
  that outlives it. On the authenticated websocket of a banned sender an ephemeral event (presence and pairing
  included, observer frames apart) goes to the handler of ephemeral events, and with a good signature, and membership
  where it names a channel, it is published and acknowledged; an event of a command kind (direct messages,
  workflows, approvals) that passes the checks on the event goes through ingest to the command handler. Neither way
  looks at restrictions: the outcome is the same whatever that table holds and whether or not it can be read. The
  gate they go around refuses the sender.
\<close>

theorem banned_sender_still_acts:
  fixes ctx conn_id
  defines "auth \<equiv> IngestNip42 (ac_pubkey ctx) (ac_scopes ctx) (ac_channel_ids ctx) conn_id"
  assumes banned: "rt_banned (restriction_state (in_now env) (tc_community tenant) (ac_pubkey ctx) (it_mod (in_tables env QRestriction)))"
    and cmd: "is_command_kind (ev_kind cmd)" "check_event lib env cmd auth = Ok required"
    and eph: "is_ephemeral (ev_kind eph)" "ev_kind eph \<notin> {KIND_AUTH, KIND_AGENT_OBSERVER_FRAME}"
      "ev_pubkey eph = ac_pubkey ctx" "MessagesWrite \<in> set (ac_scopes ctx)" "is_ok (verify_event lib eph)" "\<not> in_panicked env"
    and channel: "case extract_channel_id env eph of None \<Rightarrow> cache' = cache
      | Some ch \<Rightarrow> check_channel_membership env (tc_community tenant) ch (ac_pubkey ctx) None cache = (cache', Ok ())"
  shows "\<not> is_ok (write_gate env (tc_community tenant) (ac_pubkey ctx))
    \<and> handle_event conn_id (Some ctx) cmd = WsIngest auth
    \<and> (\<forall>t f. ingest_event_inner lib (with_restrictions t f env) tenant cmd auth cache = (cache, Ok ToCommand))
    \<and> handle_event conn_id (Some ctx) eph = WsEphemeral
    \<and> (\<exists>effs. PublishTo (extract_channel_id env eph) \<in> set effs
         \<and> (\<forall>t f. handle_ephemeral_event lib (with_restrictions t f env) json_status publish_fails (tc_community tenant)
                (ac_pubkey ctx) eph cache = (cache', effs, Ok ())))"
proof (intro conjI allI)
  have "restricted env (tc_community tenant) (ac_pubkey ctx)" using banned by (simp add: restricted_def Let_def)
  then show "\<not> is_ok (write_gate env (tc_community tenant) (ac_pubkey ctx))"
    using write_gate_Ok [of env "tc_community tenant" "ac_pubkey ctx"]
    by (cases "write_gate env (tc_community tenant) (ac_pubkey ctx)") auto
  have kinds: "ev_kind cmd \<notin> {KIND_AUTH, KIND_AGENT_OBSERVER_FRAME, KIND_GIFT_WRAP}" "\<not> is_ephemeral (ev_kind cmd)"
    using cmd(1) by (auto simp: is_command_kind_def is_ephemeral_def)
  then have "ev_pubkey cmd = ac_pubkey ctx" using check_event_Ok [OF cmd(2)] by (auto simp: auth_def)
  then show "handle_event conn_id (Some ctx) cmd = WsIngest auth"
    using kinds by (simp add: handle_event_def auth_def Let_def)
  show "ingest_event_inner lib (with_restrictions t f env) tenant cmd auth cache = (cache, Ok ToCommand)" for t f
    using cmd by (simp add: ingest_event_inner_def check_event_unrestricted Let_def)
  show "handle_event conn_id (Some ctx) eph = WsEphemeral" using eph by (simp add: handle_event_def Let_def)
  have "\<exists>effs. PublishTo (extract_channel_id env eph) \<in> set effs \<and> handle_ephemeral_event lib env json_status publish_fails
      (tc_community tenant) (ac_pubkey ctx) eph cache = (cache', effs, Ok ())"
    using eph(5,6) channel by (cases "extract_channel_id env eph") (simp_all add: handle_ephemeral_event_def Let_def)
  then show "\<exists>effs. PublishTo (extract_channel_id env eph) \<in> set effs
         \<and> (\<forall>t f. handle_ephemeral_event lib (with_restrictions t f env) json_status publish_fails (tc_community tenant)
                (ac_pubkey ctx) eph cache = (cache', effs, Ok ()))"
    unfolding ephemeral_unrestricted by blast
qed

text \<open>
  C20 (Leaving over a websocket). A request to leave the relay has kind 28936, which is in the ephemeral range. Over
  a websocket it therefore never reaches the ingest pipeline, whose handler would remove the member: it is
  published to the community and acknowledged as accepted. The same event sent over HTTP goes to that handler.
\<close>

theorem leave_request_over_websocket:
  assumes kind: "ev_kind ev = KIND_NIP43_LEAVE_REQUEST" and ok: "is_ok (verify_event lib ev)" "\<not> in_panicked env"
    and ctx: "ac_pubkey ctx = ev_pubkey ev" "ac_scopes ctx = all_known" and no_h: "extract_channel_id env ev = None"
    and http: "within_drift (ev_created_at ev) (now_secs env)" "length (ev_content ev) \<le> 262144"
      "\<not> in_fails env QRestriction" "\<not> restricted env (tc_community tenant) (ev_pubkey ev)"
  shows "handle_event conn_id (Some ctx) ev = WsEphemeral
    \<and> (\<forall>conn_id authenticated auth. handle_event conn_id authenticated ev \<noteq> WsIngest auth)
    \<and> handle_ephemeral_event lib env json_status False (tc_community tenant) (ev_pubkey ev) ev cache
        = (cache, [MarkLocal (ev_id ev), PublishTo None, FanOutTo None], Ok ())
    \<and> ingest_event_inner lib env tenant ev (IngestHttp (ev_pubkey ev) all_known) cache = (cache, Ok ToLeave)"
proof (intro conjI allI)
  show "handle_event conn_id (Some ctx) ev = WsEphemeral"
    using kind ctx by (simp add: handle_event_def is_ephemeral_def all_known_def)
  show "handle_event conn_id authenticated ev \<noteq> WsIngest auth" for conn_id authenticated auth
    using kind by (simp add: handle_event_def is_ephemeral_def Let_def split: option.split)
  show "handle_ephemeral_event lib env json_status False (tc_community tenant) (ev_pubkey ev) ev cache
      = (cache, [MarkLocal (ev_id ev), PublishTo None, FanOutTo None], Ok ())"
    using kind ok no_h by (simp add: handle_ephemeral_event_def Let_def)
  have u: "verify_event lib ev = Ok ()" using ok(1) unfolding verify_event_ok by (simp add: verify_event_def)
  have "write_gate env (tc_community tenant) (ev_pubkey ev) = Ok ()" using http write_gate_Ok by simp
  then show "ingest_event_inner lib env tenant ev (IngestHttp (ev_pubkey ev) all_known) cache = (cache, Ok ToLeave)"
    using kind ok http(1,2) u no_h
    by (simp add: ingest_event_inner_def check_event_def required_scope_for_kind_def kind_classes event_channel_def
      channel_gate_def is_global_only_kind_def requires_h_channel_scope_def all_known_def)
qed

text \<open>Leaving removes exactly the sender's row, and never the owner's.\<close>

lemma leave_removes_sender:
  assumes "handle_leave require now fault (\<lambda>st. st) c ev st = (st', reply)"
  shows "(\<forall>key. key \<noteq> (c, ev_pubkey (te_event ev)) \<longrightarrow> map_of (rd_members st') key = map_of (rd_members st) key)
    \<and> (role_of c (ev_pubkey (te_event ev)) st = Some owner_role \<longrightarrow> st' = st)
    \<and> (reply = Ok () \<longrightarrow> map_of (rd_members st') (c, ev_pubkey (te_event ev)) = None)"
  using assms
  by (auto simp: handle_leave_def commit_def remove_relay_member_def delete_member_def role_of_def hmap_simps
      get_relay_member_def split: if_splits option.splits db_fault.splits remove_result.splits)


section \<open>Witnesses\<close>

text \<open>The community of \<open>ModerationRules\<close> after its ban, with one channel.\<close>

definition demo_in_env :: ingest_env where
  "demo_in_env =
     \<lparr>in_now = 1000000000, in_panicked = False, in_fails = \<lambda>_. False,
      in_tables = \<lambda>_. \<lparr>it_mod = demo_banned, it_channels = [],
                       it_members = [(demo_mod_uuid, demo_mod_new, mod_key (CHR ''d''))]\<rparr>,
      in_parse_uuid = \<lambda>s. if s = ''c'' then Some demo_mod_new else None\<rparr>"

definition demo_in_event :: "nat \<Rightarrow> string \<Rightarrow> event_tag list \<Rightarrow> nostr_event" where
  "demo_in_event kind actor tags =
     \<lparr>ev_id = mod_key (CHR ''e''), ev_pubkey = actor, ev_created_at = 1000, ev_kind = kind, ev_tags = tags, ev_content = []\<rparr>"

lemma demo_now_secs: "now_secs demo_in_env = 1000"
  by (simp add: now_secs_def demo_in_env_def)

lemma demo_drift: "within_drift 1000 1000"
  using within_drift_iff [of 1000 1000] by simp

lemma demo_verifies: "verify_event (demo_http []) ev = Ok ()"
  by (simp add: verify_event_def demo_http_def)

lemma demo_restriction:
  "restricted demo_in_env demo_mod_uuid pk \<longleftrightarrow> pk = mod_key (CHR ''a'')"
  "rt_banned (restriction_state (in_now demo_in_env) demo_mod_uuid (mod_key (CHR ''a'')) (it_mod (in_tables demo_in_env QRestriction)))"
  by (simp_all add: restricted_def demo_in_env_def restriction_state_def ban_row_def demo_banned_row ban_active_def mute_active_def)

lemma demo_check_event:
  assumes "kind \<in> {KIND_STREAM_MESSAGE, KIND_DM_OPEN}" "auth_pubkey auth = pk" "auth_scopes auth = all_known"
  shows "check_event (demo_http []) demo_in_env (demo_in_event kind pk tags) auth = Ok MessagesWrite"
  using assms demo_now_secs demo_drift
  by (auto simp: check_event_def demo_in_event_def demo_verifies demo_in_env_def required_scope_for_kind_def kind_classes
    all_known_def now_secs_def)

definition demo_ctx :: "string \<Rightarrow> auth_context" where
  "demo_ctx pk = \<lparr>ac_pubkey = pk, ac_scopes = all_known, ac_channel_ids = None, ac_method = Nip42, ac_owner = None\<rparr>"

lemma demo_ctx_simps [simp]:
  "ac_pubkey (demo_ctx pk) = pk" "ac_scopes (demo_ctx pk) = all_known" "ac_channel_ids (demo_ctx pk) = None"
  by (simp_all add: demo_ctx_def)

lemma demo_in_event_simps [simp]:
  "ev_kind (demo_in_event kind pk tags) = kind" "ev_pubkey (demo_in_event kind pk tags) = pk"
  "ev_id (demo_in_event kind pk tags) = mod_key (CHR ''e'')" "ev_tags (demo_in_event kind pk tags) = tags"
  by (simp_all add: demo_in_event_def)

lemma demo_mod_community [simp]: "tc_community demo_mod_tenant = demo_mod_uuid"
  by (simp add: demo_mod_tenant_def)

definition demo_message :: nostr_event where
  "demo_message = demo_in_event KIND_STREAM_MESSAGE (mod_key (CHR ''d'')) [\<lparr>tag_kind = ''h'', tag_content = Some ''c''\<rparr>]"

lemma demo_message_enters:
  "\<exists>cache. ingest_event_inner (demo_http []) demo_in_env demo_mod_tenant demo_message (IngestHttp (mod_key (CHR ''d'')) all_known) []
     = (cache, Ok (ToValidation (Some demo_mod_new)))"
proof -
  have "write_gate demo_in_env demo_mod_uuid (mod_key (CHR ''d'')) = Ok ()"
    using demo_restriction(1) write_gate_Ok by (simp add: demo_in_env_def)
  moreover have "event_channel demo_in_env demo_mod_uuid demo_message = Ok (Some demo_mod_new)"
    by (simp add: event_channel_def demo_message_def demo_in_event_def extract_channel_id_def demo_in_env_def)
  moreover have "\<exists>cache. channel_gate demo_in_env demo_mod_uuid demo_message (IngestHttp (mod_key (CHR ''d'')) all_known)
      (Some demo_mod_new) [] = (cache, Ok (Some demo_mod_new))"
    by (simp add: channel_gate_def demo_message_def demo_in_event_def is_global_only_kind_def skip_membership_def
      check_token_channel_access_def check_channel_membership_def is_member_cached_def demo_in_env_def Let_def)
  ultimately show ?thesis
    using demo_check_event [of KIND_STREAM_MESSAGE _ "mod_key (CHR ''d'')"]
    by (auto simp: ingest_event_inner_def demo_mod_tenant_def demo_message_def demo_in_event_def kind_classes Let_def)
qed

theorem ingest_admission_witness:
  "\<not> restricted demo_in_env demo_mod_uuid (mod_key (CHR ''d''))
   \<and> may_write_in demo_in_env demo_mod_uuid demo_mod_new (mod_key (CHR ''d'')) []"
proof -
  obtain cache where "ingest_event_inner (demo_http []) demo_in_env demo_mod_tenant demo_message
      (IngestHttp (mod_key (CHR ''d'')) all_known) [] = (cache, Ok (ToValidation (Some demo_mod_new)))"
    using demo_message_enters by blast
  from ingest_admission [OF this] show ?thesis
    by (simp add: demo_now_secs demo_message_def demo_in_event_def demo_mod_tenant_def skip_membership_def)
qed

theorem banned_sender_still_acts_witness:
  "let a = mod_key (CHR ''a''); dm = demo_in_event KIND_DM_OPEN a []; typing = demo_in_event KIND_TYPING_INDICATOR a [] in
     \<not> is_ok (write_gate demo_in_env demo_mod_uuid a)
     \<and> handle_event demo_mod_new (Some (demo_ctx a)) dm = WsIngest (IngestNip42 a all_known None demo_mod_new)
     \<and> handle_event demo_mod_new (Some (demo_ctx a)) typing = WsEphemeral
     \<and> (\<exists>effs. PublishTo None \<in> set effs \<and> handle_ephemeral_event (demo_http [])
          (with_restrictions (in_tables demo_in_env QRestriction) False demo_in_env) (\<lambda>_. None) False demo_mod_uuid a typing []
          = ([], effs, Ok ()))"
proof -
  let ?a = "mod_key (CHR ''a'')" and ?typing = "demo_in_event KIND_TYPING_INDICATOR (mod_key (CHR ''a'')) []"
  have no_h: "extract_channel_id demo_in_env ?typing = None" by (simp add: extract_channel_id_def)
  have ban: "rt_banned (restriction_state (in_now demo_in_env) (tc_community demo_mod_tenant) (ac_pubkey (demo_ctx ?a))
      (it_mod (in_tables demo_in_env QRestriction)))"
    using demo_restriction(2) by simp
  have check: "check_event (demo_http []) demo_in_env (demo_in_event KIND_DM_OPEN ?a [])
      (IngestNip42 (ac_pubkey (demo_ctx ?a)) (ac_scopes (demo_ctx ?a)) (ac_channel_ids (demo_ctx ?a)) demo_mod_new) = Ok MessagesWrite"
    by (rule demo_check_event) simp_all
  have kinds: "is_command_kind (ev_kind (demo_in_event KIND_DM_OPEN ?a []))" "is_ephemeral (ev_kind ?typing)"
    by (simp_all add: is_command_kind_def is_ephemeral_def)
  have live: "\<not> in_panicked demo_in_env" by (simp add: demo_in_env_def)
  have ok: "is_ok (verify_event (demo_http []) ?typing)" unfolding demo_verifies by (rule is_ok_simps)
  have scope: "MessagesWrite \<in> set (ac_scopes (demo_ctx ?a))" by (simp add: all_known_def)
  from banned_sender_still_acts [OF ban kinds(1) check kinds(2) _ _ scope ok live, of "[]" "[]" "\<lambda>_. None" False]
  show ?thesis unfolding Let_def no_h by (auto simp: no_h)
qed

theorem leave_request_over_websocket_witness:
  "handle_ephemeral_event (demo_http []) demo_in_env (\<lambda>_. None) False demo_mod_uuid (mod_key (CHR ''d''))
     (demo_in_event KIND_NIP43_LEAVE_REQUEST (mod_key (CHR ''d'')) []) []
     = ([], [MarkLocal (mod_key (CHR ''e'')), PublishTo None, FanOutTo None], Ok ())
   \<and> ingest_event_inner (demo_http []) demo_in_env demo_mod_tenant (demo_in_event KIND_NIP43_LEAVE_REQUEST (mod_key (CHR ''d'')) [])
       (IngestHttp (mod_key (CHR ''d'')) all_known) [] = ([], Ok ToLeave)"
proof -
  let ?ev = "demo_in_event KIND_NIP43_LEAVE_REQUEST (mod_key (CHR ''d'')) []"
  let ?ctx = "\<lparr>ac_pubkey = mod_key (CHR ''d''), ac_scopes = all_known, ac_channel_ids = None, ac_method = Nip42, ac_owner = None\<rparr>"
  have ok: "is_ok (verify_event (demo_http []) ?ev)" unfolding demo_verifies by (rule is_ok_simps)
  have "\<not> restricted demo_in_env (tc_community demo_mod_tenant) (ev_pubkey ?ev)"
    using demo_restriction(1) by (simp add: demo_mod_tenant_def demo_in_event_def)
  from leave_request_over_websocket [of ?ev "demo_http []" demo_in_env ?ctx, OF _ ok _ _ _ _ _ _ _ this]
  show ?thesis
    using demo_drift
    by (simp add: demo_in_event_def demo_mod_tenant_def extract_channel_id_def demo_now_secs) (simp add: demo_in_env_def)
qed

end
