(* ===== verification/Subscription.thy ===== *)
theory Subscription
  imports EventFilter
begin

text \<open>
  The subscription registry of \<open>crates/buzz-relay/src/subscription.rs\<close>: active WebSocket
  subscriptions with five routing indexes, and the fan-out that uses them. The state is
  \<open>registry\<close>; every public method is a function that returns the new registry with the method's
  result. \<open>DashMap\<close> operations are taken one at a time.

  The interface \<open>sub_index\<close> states what an index promises after adding and deleting an entry under
  a list of keys. It is interpreted on the hash-map buckets that the code uses
  (\<open>push_keys\<close>, \<open>retain_keys\<close>, \<open>bucket\<close>); its client lemmas carry the registry invariant
  \<open>reg_ok\<close>: each bucket of each index holds exactly the registered subscriptions that its key
  selects.
\<close>

section \<open>Indexes\<close>

locale sub_index =
  fixes add :: "'k list \<Rightarrow> 'e \<Rightarrow> 'm \<Rightarrow> 'm"
    and del :: "'k list \<Rightarrow> 'e \<Rightarrow> 'm \<Rightarrow> 'm"
    and look :: "'m \<Rightarrow> 'k \<Rightarrow> 'e list"
  assumes look_add: "set (look (add ks e m) k) = (if k \<in> set ks then {e} else {}) \<union> set (look m k)"
    and look_del: "set (look (del ks e m) k) = set (look m k) - (if k \<in> set ks then {e} else {})"
begin

text \<open>
  \<open>tracks m K\<close>: the index holds an entry under a key exactly when \<open>K\<close> assigns that key to the entry.
\<close>

definition tracks :: "'m \<Rightarrow> ('e \<Rightarrow> 'k set) \<Rightarrow> bool" where
  "tracks m K \<longleftrightarrow> (\<forall>k e. e \<in> set (look m k) \<longleftrightarrow> k \<in> K e)"

lemma tracksD: "tracks m K \<Longrightarrow> e \<in> set (look m k) \<longleftrightarrow> k \<in> K e"
  by (simp add: tracks_def)

lemma tracks_add:
  assumes "tracks m K" and "K e = {}"
  shows "tracks (add ks e m) (K(e := set ks))"
  using assms by (auto simp: tracks_def look_add)

lemma tracks_del:
  assumes "tracks m K" and "K e = set ks"
  shows "tracks (del ks e m) (K(e := {}))"
  using assms by (auto simp: tracks_def look_del)

lemma tracks_cong: "tracks m K \<Longrightarrow> (\<And>e. K e = K' e) \<Longrightarrow> tracks m K'"
  by (simp add: tracks_def)

end

definition push_keys :: "'k list \<Rightarrow> 'x \<Rightarrow> ('k, 'x list) hmap \<Rightarrow> ('k, 'x list) hmap" where
  "push_keys ks x m = fold (\<lambda>k. bucket_push k x) ks m"

definition retain_keys :: "'k list \<Rightarrow> 'x \<Rightarrow> ('k, 'x list) hmap \<Rightarrow> ('k, 'x list) hmap" where
  "retain_keys ks x m = fold (\<lambda>k. bucket_retain k (\<lambda>y. y \<noteq> x)) ks m"

lemma set_bucket_push_keys:
  "set (bucket (push_keys ks x m) k) = (if k \<in> set ks then {x} else {}) \<union> set (bucket m k)"
  unfolding push_keys_def by (induction ks arbitrary: m) (auto simp: hmap_simps)

lemma set_bucket_retain_keys:
  "set (bucket (retain_keys ks x m) k) = set (bucket m k) - (if k \<in> set ks then {x} else {})"
  unfolding retain_keys_def by (induction ks arbitrary: m) (auto simp: hmap_simps)

lemma hwf_push_keys [simp, intro]: "hwf m \<Longrightarrow> hwf (push_keys ks x m)"
  unfolding push_keys_def by (induction ks arbitrary: m) auto

lemma hwf_retain_keys [simp, intro]: "hwf m \<Longrightarrow> hwf (retain_keys ks x m)"
  unfolding retain_keys_def by (induction ks arbitrary: m) auto

interpretation buckets: sub_index push_keys retain_keys bucket
  by unfold_locales (simp_all add: set_bucket_push_keys set_bucket_retain_keys)

section \<open>State\<close>

type_synonym conn_id = string
type_synonym sub_id = string
type_synonym community_id = string
type_synonym channel_id = string
type_synonym sub_entry = "nostr_filter list \<times> community_id \<times> channel_id option"

record index_key =
  ik_channel_id :: channel_id
  ik_kind :: nat

record global_p_kind_index_key =
  gp_community_id :: community_id
  gp_kind :: nat
  gp_p :: string

record removed_subscription =
  rs_community_id :: community_id
  rs_channel_id :: "channel_id option"

record registry =
  subs :: "(conn_id, (sub_id, sub_entry) hmap) hmap"
  channel_kind_index :: "(community_id \<times> index_key, (conn_id \<times> sub_id) list) hmap"
  channel_wildcard_index :: "(community_id \<times> channel_id, (conn_id \<times> sub_id) list) hmap"
  global_kind_index :: "(community_id \<times> nat, (conn_id \<times> sub_id) list) hmap"
  global_p_kind_index :: "(global_p_kind_index_key, (conn_id \<times> sub_id) list) hmap"
  global_wildcard_index :: "(community_id, (conn_id \<times> sub_id) list) hmap"

definition new_registry :: registry where
  "new_registry =
     \<lparr>subs = [], channel_kind_index = [], channel_wildcard_index = [], global_kind_index = [],
      global_p_kind_index = [], global_wildcard_index = []\<rparr>"

section \<open>Index keys of a list of filters\<close>

text \<open>The loop of \<open>extract_kinds_from_filters\<close>; \<open>kinds\<close> is also the \<open>seen\<close> set.\<close>

fun extract_kinds_loop :: "nat list \<Rightarrow> nostr_filter list \<Rightarrow> nat list option" where
  "extract_kinds_loop kinds [] = Some kinds"
| "extract_kinds_loop kinds (f # fs) =
     (case f_kinds f of
        Some filter_kinds \<Rightarrow> extract_kinds_loop (foldl push_new kinds filter_kinds) fs
      | None \<Rightarrow> None)"

definition extract_kinds_from_filters :: "nostr_filter list \<Rightarrow> nat list option" where
  "extract_kinds_from_filters filters = extract_kinds_loop [] filters"

fun extract_p_keys_loop ::
  "community_id \<Rightarrow> global_p_kind_index_key list \<Rightarrow> nostr_filter list
     \<Rightarrow> global_p_kind_index_key list option" where
  "extract_p_keys_loop community keys [] = Some keys"
| "extract_p_keys_loop community keys (f # fs) =
     (case f_kinds f of
        None \<Rightarrow> None
      | Some kinds \<Rightarrow>
          if kinds = [] then extract_p_keys_loop community keys fs
          else (case map_of (f_generic_tags f) CHR ''p'' of
                  None \<Rightarrow> None
                | Some p_values \<Rightarrow>
                    if p_values = [] then None
                    else extract_p_keys_loop community
                           (foldl push_new keys
                              (concat (map (\<lambda>kind. map (\<lambda>p.
                                 \<lparr>gp_community_id = community, gp_kind = kind, gp_p = p\<rparr>) p_values)
                                 kinds))) fs))"

definition extract_global_p_kind_index_keys ::
  "community_id \<Rightarrow> nostr_filter list \<Rightarrow> global_p_kind_index_key list option" where
  "extract_global_p_kind_index_keys community filters = extract_p_keys_loop community [] filters"

definition event_p_tag_values :: "stored_event \<Rightarrow> string list" where
  "event_p_tag_values event =
     foldl (\<lambda>values tag.
              if tag_kind tag \<noteq> ''p'' then values
              else (case tag_content tag of Some v \<Rightarrow> push_new values v | None \<Rightarrow> values))
       [] (ev_tags (se_event event))"

section \<open>Operations\<close>

text \<open>The second half of \<open>register_scoped\<close>: entering the subscription into its index.\<close>

definition insert_into_index ::
  "conn_id \<Rightarrow> sub_id \<Rightarrow> nostr_filter list \<Rightarrow> community_id \<Rightarrow> channel_id option
     \<Rightarrow> registry \<Rightarrow> registry" where
  "insert_into_index conn sub filters community channel r =
     (case channel of
        Some ch \<Rightarrow>
          (case extract_kinds_from_filters filters of
             None \<Rightarrow> r\<lparr>channel_wildcard_index :=
                         bucket_push (community, ch) (conn, sub) (channel_wildcard_index r)\<rparr>
           | Some kinds \<Rightarrow>
               if kinds = [] then r
               else r\<lparr>channel_kind_index :=
                        push_keys (map (\<lambda>kind. (community, \<lparr>ik_channel_id = ch, ik_kind = kind\<rparr>)) kinds)
                          (conn, sub) (channel_kind_index r)\<rparr>)
      | None \<Rightarrow>
          (case extract_global_p_kind_index_keys community filters of
             Some keys \<Rightarrow> r\<lparr>global_p_kind_index := push_keys keys (conn, sub) (global_p_kind_index r)\<rparr>
           | None \<Rightarrow>
               (case extract_kinds_from_filters filters of
                  None \<Rightarrow> r\<lparr>global_wildcard_index :=
                              bucket_push community (conn, sub) (global_wildcard_index r)\<rparr>
                | Some kinds \<Rightarrow>
                    if kinds = [] then r
                    else r\<lparr>global_kind_index :=
                             push_keys (map (\<lambda>kind. (community, kind)) kinds)
                               (conn, sub) (global_kind_index r)\<rparr>)))"

definition remove_from_index ::
  "conn_id \<Rightarrow> sub_id \<Rightarrow> nostr_filter list \<Rightarrow> community_id \<Rightarrow> channel_id option
     \<Rightarrow> registry \<Rightarrow> registry" where
  "remove_from_index conn sub filters community channel r =
     (case channel of
        Some ch \<Rightarrow>
          (case extract_kinds_from_filters filters of
             None \<Rightarrow> r\<lparr>channel_wildcard_index :=
                         bucket_retain (community, ch) (\<lambda>e. e \<noteq> (conn, sub)) (channel_wildcard_index r)\<rparr>
           | Some kinds \<Rightarrow>
               if kinds = [] then r
               else r\<lparr>channel_kind_index :=
                        retain_keys (map (\<lambda>kind. (community, \<lparr>ik_channel_id = ch, ik_kind = kind\<rparr>)) kinds)
                          (conn, sub) (channel_kind_index r)\<rparr>)
      | None \<Rightarrow>
          (case extract_global_p_kind_index_keys community filters of
             Some keys \<Rightarrow> r\<lparr>global_p_kind_index := retain_keys keys (conn, sub) (global_p_kind_index r)\<rparr>
           | None \<Rightarrow>
               (case extract_kinds_from_filters filters of
                  None \<Rightarrow> r\<lparr>global_wildcard_index :=
                              bucket_retain community (\<lambda>e. e \<noteq> (conn, sub)) (global_wildcard_index r)\<rparr>
                | Some kinds \<Rightarrow>
                    if kinds = [] then r
                    else r\<lparr>global_kind_index :=
                             retain_keys (map (\<lambda>kind. (community, kind)) kinds)
                               (conn, sub) (global_kind_index r)\<rparr>)))"

definition remove_subscription ::
  "conn_id \<Rightarrow> sub_id \<Rightarrow> registry \<Rightarrow> registry \<times> removed_subscription option" where
  "remove_subscription conn sub r =
     (case map_of (subs r) conn of
        None \<Rightarrow> (r, None)
      | Some conn_subs \<Rightarrow>
          (case map_of conn_subs sub of
             None \<Rightarrow> (r, None)
           | Some (filters, community, channel) \<Rightarrow>
               (remove_from_index conn sub filters community channel
                  (r\<lparr>subs := AList.update conn (AList.delete sub conn_subs) (subs r)\<rparr>),
                Some \<lparr>rs_community_id = community, rs_channel_id = channel\<rparr>)))"

definition register_scoped ::
  "community_id \<Rightarrow> conn_id \<Rightarrow> sub_id \<Rightarrow> nostr_filter list \<Rightarrow> channel_id option
     \<Rightarrow> registry \<Rightarrow> registry \<times> removed_subscription option" where
  "register_scoped community conn sub filters channel r0 =
     (let (r, removed) = remove_subscription conn sub r0;
          conn_subs = (case map_of (subs r) conn of None \<Rightarrow> [] | Some m \<Rightarrow> m);
          r' = r\<lparr>subs := AList.update conn
                          (AList.update sub (filters, community, channel) conn_subs) (subs r)\<rparr>
      in (insert_into_index conn sub filters community channel r', removed))"

definition remove_connection ::
  "conn_id \<Rightarrow> registry \<Rightarrow> registry \<times> removed_subscription list" where
  "remove_connection conn r =
     (case map_of (subs r) conn of
        None \<Rightarrow> (r, [])
      | Some conn_subs \<Rightarrow>
          (fold (\<lambda>(sub, filters, community, channel).
                    remove_from_index conn sub filters community channel)
             conn_subs (r\<lparr>subs := AList.delete conn (subs r)\<rparr>),
           map (\<lambda>(sub, filters, community, channel).
                  \<lparr>rs_community_id = community, rs_channel_id = channel\<rparr>) conn_subs))"

text \<open>The consuming half of \<open>remove_channel_subscriptions_scoped\<close>.\<close>

fun remove_each ::
  "conn_id \<Rightarrow> sub_id list \<Rightarrow> registry \<Rightarrow> registry \<times> (sub_id \<times> removed_subscription) list" where
  "remove_each conn [] r = (r, [])"
| "remove_each conn (sub # rest) r =
     (let (r', removed) = remove_subscription conn sub r;
          (r'', out) = remove_each conn rest r'
      in (r'', case removed of None \<Rightarrow> out | Some x \<Rightarrow> (sub, x) # out))"

definition channel_sub_ids ::
  "community_id \<Rightarrow> conn_id \<Rightarrow> channel_id \<Rightarrow> registry \<Rightarrow> sub_id list" where
  "channel_sub_ids community conn channel r =
     (case map_of (subs r) conn of
        None \<Rightarrow> []
      | Some conn_subs \<Rightarrow>
          map fst (filter (\<lambda>(sub, filters, sub_community, sub_channel).
                      sub_community = community \<and> sub_channel = Some channel) conn_subs))"

definition remove_channel_subscriptions_scoped ::
  "community_id \<Rightarrow> conn_id \<Rightarrow> channel_id \<Rightarrow> registry
     \<Rightarrow> registry \<times> (sub_id \<times> removed_subscription) list" where
  "remove_channel_subscriptions_scoped community conn channel r =
     remove_each conn (channel_sub_ids community conn channel r) r"

definition channel_subscriber_conns_scoped ::
  "community_id \<Rightarrow> channel_id \<Rightarrow> registry \<Rightarrow> conn_id list" where
  "channel_subscriber_conns_scoped community channel r =
     remdups
       (concat (map (\<lambda>((c, key), entries). map fst entries)
          (filter (\<lambda>((c, key), entries). c = community \<and> ik_channel_id key = channel)
             (channel_kind_index r)))
        @ map fst (bucket (channel_wildcard_index r) (community, channel)))"

definition get_filters :: "conn_id \<Rightarrow> sub_id \<Rightarrow> registry \<Rightarrow> nostr_filter list option" where
  "get_filters conn sub r =
     (case map_of (subs r) conn of
        None \<Rightarrow> None
      | Some conn_subs \<Rightarrow>
          (case map_of conn_subs sub of None \<Rightarrow> None | Some (filters, _, _) \<Rightarrow> Some filters))"

definition push_match ::
  "registry \<Rightarrow> stored_event \<Rightarrow> (conn_id \<times> sub_id) list \<Rightarrow> conn_id \<times> sub_id
     \<Rightarrow> (conn_id \<times> sub_id) list" where
  "push_match r event results cs =
     (case cs of (conn, sub) \<Rightarrow>
        (case get_filters conn sub r of
           None \<Rightarrow> results
         | Some filters \<Rightarrow>
             if filters_match filters event then push_new results (conn, sub) else results))"

text \<open>The buckets that fan-out visits, in order.\<close>

definition fan_out_candidates ::
  "community_id \<Rightarrow> stored_event \<Rightarrow> registry \<Rightarrow> (conn_id \<times> sub_id) list" where
  "fan_out_candidates community event r =
     (let kind = ev_kind (se_event event)
      in case se_channel_id event of
           Some channel \<Rightarrow>
             bucket (channel_kind_index r) (community, \<lparr>ik_channel_id = channel, ik_kind = kind\<rparr>)
             @ bucket (channel_wildcard_index r) (community, channel)
         | None \<Rightarrow>
             concat (map (\<lambda>p. bucket (global_p_kind_index r)
                                \<lparr>gp_community_id = community, gp_kind = kind, gp_p = p\<rparr>)
                       (event_p_tag_values event))
             @ bucket (global_kind_index r) (community, kind)
             @ bucket (global_wildcard_index r) community)"

definition fan_out_scoped ::
  "community_id \<Rightarrow> stored_event \<Rightarrow> registry \<Rightarrow> (conn_id \<times> sub_id) list" where
  "fan_out_scoped community event r =
     foldl (push_match r event) [] (fan_out_candidates community event r)"

definition total_subscriptions :: "registry \<Rightarrow> nat" where
  "total_subscriptions r = sum_list (map (\<lambda>(conn, conn_subs). length conn_subs) (subs r))"

definition total_connections :: "registry \<Rightarrow> nat" where
  "total_connections r = length (subs r)"

definition per_community_subscriptions :: "registry \<Rightarrow> (community_id, nat) hmap" where
  "per_community_subscriptions r =
     foldl (\<lambda>counts (sub, filters, community, channel).
              AList.update community
                ((case map_of counts community of None \<Rightarrow> 0 | Some n \<Rightarrow> n) + 1) counts)
       [] (concat (map snd (subs r)))"

section \<open>The registry as a map\<close>

definition entry_of :: "registry \<Rightarrow> conn_id \<times> sub_id \<Rightarrow> sub_entry option" where
  "entry_of r cs =
     (case map_of (subs r) (fst cs) of None \<Rightarrow> None | Some conn_subs \<Rightarrow> map_of conn_subs (snd cs))"

definition scope_of :: "sub_entry \<Rightarrow> removed_subscription" where
  "scope_of x = (case x of (filters, community, channel) \<Rightarrow>
     \<lparr>rs_community_id = community, rs_channel_id = channel\<rparr>)"

text \<open>The keys under which each index keeps an entry.\<close>

fun ck_list :: "sub_entry \<Rightarrow> (community_id \<times> index_key) list" where
  "ck_list (filters, community, Some ch) =
     (case extract_kinds_from_filters filters of
        None \<Rightarrow> [] | Some kinds \<Rightarrow> map (\<lambda>k. (community, \<lparr>ik_channel_id = ch, ik_kind = k\<rparr>)) kinds)"
| "ck_list (filters, community, None) = []"

fun cw_list :: "sub_entry \<Rightarrow> (community_id \<times> channel_id) list" where
  "cw_list (filters, community, Some ch) =
     (if extract_kinds_from_filters filters = None then [(community, ch)] else [])"
| "cw_list (filters, community, None) = []"

fun gp_list :: "sub_entry \<Rightarrow> global_p_kind_index_key list" where
  "gp_list (filters, community, None) =
     (case extract_global_p_kind_index_keys community filters of None \<Rightarrow> [] | Some keys \<Rightarrow> keys)"
| "gp_list (filters, community, Some ch) = []"

fun gk_list :: "sub_entry \<Rightarrow> (community_id \<times> nat) list" where
  "gk_list (filters, community, None) =
     (if extract_global_p_kind_index_keys community filters = None
      then (case extract_kinds_from_filters filters of
              None \<Rightarrow> [] | Some kinds \<Rightarrow> map (\<lambda>k. (community, k)) kinds)
      else [])"
| "gk_list (filters, community, Some ch) = []"

fun gw_list :: "sub_entry \<Rightarrow> community_id list" where
  "gw_list (filters, community, None) =
     (if extract_global_p_kind_index_keys community filters = None
         \<and> extract_kinds_from_filters filters = None
      then [community] else [])"
| "gw_list (filters, community, Some ch) = []"

lemma push_keys_simps: "push_keys [] x m = m" "push_keys [k] x m = bucket_push k x m"
  by (simp_all add: push_keys_def)

lemma retain_keys_simps:
  "retain_keys [] x m = m" "retain_keys [k] x m = bucket_retain k (\<lambda>y. y \<noteq> x) m"
  by (simp_all add: retain_keys_def)

lemma insert_into_index_normal:
  "insert_into_index conn sub filters community channel r =
     (let x = (filters, community, channel); e = (conn, sub)
      in r\<lparr>channel_kind_index := push_keys (ck_list x) e (channel_kind_index r),
           channel_wildcard_index := push_keys (cw_list x) e (channel_wildcard_index r),
           global_kind_index := push_keys (gk_list x) e (global_kind_index r),
           global_p_kind_index := push_keys (gp_list x) e (global_p_kind_index r),
           global_wildcard_index := push_keys (gw_list x) e (global_wildcard_index r)\<rparr>)"
  by (cases channel; cases "extract_kinds_from_filters filters";
      cases "extract_global_p_kind_index_keys community filters")
     (simp_all add: insert_into_index_def Let_def push_keys_simps)

lemma remove_from_index_normal:
  "remove_from_index conn sub filters community channel r =
     (let x = (filters, community, channel); e = (conn, sub)
      in r\<lparr>channel_kind_index := retain_keys (ck_list x) e (channel_kind_index r),
           channel_wildcard_index := retain_keys (cw_list x) e (channel_wildcard_index r),
           global_kind_index := retain_keys (gk_list x) e (global_kind_index r),
           global_p_kind_index := retain_keys (gp_list x) e (global_p_kind_index r),
           global_wildcard_index := retain_keys (gw_list x) e (global_wildcard_index r)\<rparr>)"
  by (cases channel; cases "extract_kinds_from_filters filters";
      cases "extract_global_p_kind_index_keys community filters")
     (simp_all add: remove_from_index_def Let_def retain_keys_simps)

definition keys_of :: "(sub_entry \<Rightarrow> 'k list) \<Rightarrow> (conn_id \<times> sub_id \<Rightarrow> sub_entry option)
    \<Rightarrow> conn_id \<times> sub_id \<Rightarrow> 'k set" where
  "keys_of L M e = (case M e of None \<Rightarrow> {} | Some x \<Rightarrow> set (L x))"

lemma keys_of_upd: "keys_of L (M(e := Some x)) = (keys_of L M)(e := set (L x))"
  by (auto simp: keys_of_def fun_eq_iff)

lemma keys_of_del: "keys_of L (M(e := None)) = (keys_of L M)(e := {})"
  by (auto simp: keys_of_def fun_eq_iff)

definition indexes_ok :: "registry \<Rightarrow> (conn_id \<times> sub_id \<Rightarrow> sub_entry option) \<Rightarrow> bool" where
  "indexes_ok r M \<longleftrightarrow>
     buckets.tracks (channel_kind_index r) (keys_of ck_list M)
     \<and> buckets.tracks (channel_wildcard_index r) (keys_of cw_list M)
     \<and> buckets.tracks (global_kind_index r) (keys_of gk_list M)
     \<and> buckets.tracks (global_p_kind_index r) (keys_of gp_list M)
     \<and> buckets.tracks (global_wildcard_index r) (keys_of gw_list M)
     \<and> hwf (channel_kind_index r)"

definition inner_wf :: "(conn_id, (sub_id, sub_entry) hmap) hmap \<Rightarrow> bool" where
  "inner_wf m \<longleftrightarrow> (\<forall>kv \<in> set m. hwf (snd kv))"

definition reg_ok :: "registry \<Rightarrow> bool" where
  "reg_ok r \<longleftrightarrow>
     hwf (subs r) \<and> inner_wf (subs r) \<and> indexes_ok r (entry_of r)"

lemma indexes_ok_insert:
  assumes "indexes_ok r M" and "M (conn, sub) = None"
  shows "indexes_ok (insert_into_index conn sub filters community channel r)
           (M((conn, sub) := Some (filters, community, channel)))"
  using assms
  by (simp add: indexes_ok_def insert_into_index_normal Let_def keys_of_upd buckets.tracks_add keys_of_def)

lemma indexes_ok_remove:
  assumes "indexes_ok r M" and "M (conn, sub) = Some (filters, community, channel)"
  shows "indexes_ok (remove_from_index conn sub filters community channel r)
           (M((conn, sub) := None))"
  using assms
  by (simp add: indexes_ok_def remove_from_index_normal Let_def keys_of_del buckets.tracks_del keys_of_def)

lemma subs_insert_into_index [simp]:
  "subs (insert_into_index conn sub filters community channel r) = subs r"
  by (simp add: insert_into_index_normal Let_def)

lemma subs_remove_from_index [simp]:
  "subs (remove_from_index conn sub filters community channel r) = subs r"
  by (simp add: remove_from_index_normal Let_def)

lemma indexes_ok_subs_upd [simp]: "indexes_ok (r\<lparr>subs := m\<rparr>) M = indexes_ok r M"
  by (simp add: indexes_ok_def)

lemma entry_of_cong: "subs r = subs r' \<Longrightarrow> entry_of r = entry_of r'"
  by (simp add: entry_of_def fun_eq_iff)

lemma wf_inner: "inner_wf m \<Longrightarrow> map_of m conn = Some conn_subs \<Longrightarrow> hwf conn_subs"
  by (force simp: inner_wf_def dest: map_of_SomeD)

lemma wf_inner_update: "inner_wf m \<Longrightarrow> hwf x \<Longrightarrow> inner_wf (AList.update c x m)"
  by (induction m) (auto simp: inner_wf_def)

lemma wf_inner_delete: "inner_wf m \<Longrightarrow> inner_wf (AList.delete c m)"
  by (auto simp: inner_wf_def AList.delete_eq)

section \<open>Every operation refines its map update and keeps the invariant\<close>

lemma remove_subscription_refines:
  assumes ok: "reg_ok r"
  shows "reg_ok (fst (remove_subscription conn sub r))
     \<and> entry_of (fst (remove_subscription conn sub r)) = (entry_of r)((conn, sub) := None)
     \<and> snd (remove_subscription conn sub r) = map_option scope_of (entry_of r (conn, sub))"
proof (cases "entry_of r (conn, sub)")
  case None
  then have "remove_subscription conn sub r = (r, None)"
    by (auto simp: remove_subscription_def entry_of_def split: option.splits)
  with None ok show ?thesis by (auto simp: fun_upd_idem)
next
  case (Some x)
  obtain filters community channel where x: "x = (filters, community, channel)" by (metis prod_cases3)
  from Some obtain cs where cs: "map_of (subs r) conn = Some cs" "map_of cs sub = Some x"
    by (auto simp: entry_of_def split: option.splits)
  let ?r' = "r\<lparr>subs := AList.update conn (AList.delete sub cs) (subs r)\<rparr>"
  have rs: "remove_subscription conn sub r =
      (remove_from_index conn sub filters community channel ?r', Some (scope_of x))"
    using cs by (simp add: remove_subscription_def x scope_of_def)
  have ent: "entry_of (remove_from_index conn sub filters community channel ?r')
      = (entry_of r)((conn, sub) := None)"
    using cs by (auto simp: entry_of_def fun_eq_iff hmap_simps)
  have "indexes_ok (remove_from_index conn sub filters community channel ?r')
      ((entry_of r)((conn, sub) := None))"
    using ok Some by (intro indexes_ok_remove) (simp_all add: reg_ok_def x)
  moreover have "hwf cs" using ok cs by (auto simp: reg_ok_def intro: wf_inner)
  ultimately show ?thesis
    using ok Some by (simp add: rs ent reg_ok_def wf_inner_update)
qed

lemma register_refines:
  assumes ok: "reg_ok r"
  shows "reg_ok (fst (register_scoped community conn sub filters channel r))
     \<and> entry_of (fst (register_scoped community conn sub filters channel r))
         = (entry_of r)((conn, sub) := Some (filters, community, channel))
     \<and> snd (register_scoped community conn sub filters channel r)
         = map_option scope_of (entry_of r (conn, sub))"
proof -
  obtain r1 removed where r1: "remove_subscription conn sub r = (r1, removed)" by fastforce
  with remove_subscription_refines [OF ok, of conn sub]
  have ok1: "reg_ok r1" and ent1: "entry_of r1 = (entry_of r)((conn, sub) := None)"
    and rem: "removed = map_option scope_of (entry_of r (conn, sub))" by simp_all
  define cs where "cs = (case map_of (subs r1) conn of None \<Rightarrow> [] | Some m \<Rightarrow> m)"
  let ?r2 = "r1\<lparr>subs := AList.update conn (AList.update sub (filters, community, channel) cs) (subs r1)\<rparr>"
  have reg: "register_scoped community conn sub filters channel r
      = (insert_into_index conn sub filters community channel ?r2, removed)"
    by (simp add: register_scoped_def r1 cs_def Let_def)
  have ent: "entry_of (insert_into_index conn sub filters community channel ?r2)
      = (entry_of r1)((conn, sub) := Some (filters, community, channel))"
    by (auto simp: entry_of_def fun_eq_iff hmap_simps cs_def split: option.split)
  have "indexes_ok (insert_into_index conn sub filters community channel ?r2)
      ((entry_of r1)((conn, sub) := Some (filters, community, channel)))"
    using ok1 by (intro indexes_ok_insert) (simp_all add: reg_ok_def ent1)
  moreover have "hwf cs" using ok1
    by (auto simp: reg_ok_def cs_def split: option.split intro: wf_inner)
  ultimately show ?thesis
    using ok1 by (simp add: reg reg_ok_def ent wf_inner_update rem) (simp add: ent1)
qed

lemma remove_fold_indexes:
  assumes "indexes_ok r M" and "hwf cs" and "\<And>s x. (s, x) \<in> set cs \<Longrightarrow> M (conn, s) = Some x"
  shows "indexes_ok (fold (\<lambda>(sub, filters, community, channel).
                        remove_from_index conn sub filters community channel) cs r)
           (\<lambda>e. if fst e = conn \<and> snd e \<in> fst ` set cs then None else M e)"
  using assms
proof (induction cs arbitrary: r M)
  case Nil
  then show ?case by simp
next
  case (Cons sx cs)
  obtain sub filters community channel where sx: "sx = (sub, filters, community, channel)"
    by (metis prod_cases4)
  from Cons.prems(2) have wf: "hwf cs" and fresh: "sub \<notin> fst ` set cs" by (auto simp: hwf_def sx)
  have "indexes_ok (remove_from_index conn sub filters community channel r) (M((conn, sub) := None))"
    using Cons.prems(1,3) by (intro indexes_ok_remove) (auto simp: sx)
  moreover have "(M((conn, sub) := None)) (conn, s) = Some x" if "(s, x) \<in> set cs" for s x
  proof -
    from that fresh have "s \<noteq> sub" by (metis fst_conv imageI)
    then show ?thesis using Cons.prems(3) [of s x] that by simp
  qed
  ultimately have "indexes_ok (fold (\<lambda>(sub, filters, community, channel).
            remove_from_index conn sub filters community channel) cs
            (remove_from_index conn sub filters community channel r))
        (\<lambda>e. if fst e = conn \<and> snd e \<in> fst ` set cs then None else (M((conn, sub) := None)) e)"
    by (intro Cons.IH wf)
  moreover have "(\<lambda>e. if fst e = conn \<and> snd e \<in> fst ` set cs then None else (M((conn, sub) := None)) e)
      = (\<lambda>e. if fst e = conn \<and> snd e \<in> fst ` set (sx # cs) then None else M e)"
    by (auto simp: fun_eq_iff sx)
  ultimately show ?case by (simp add: sx)
qed

lemma subs_remove_fold:
  "subs (fold (\<lambda>(sub, filters, community, channel).
           remove_from_index conn sub filters community channel) cs r) = subs r"
  by (induction cs arbitrary: r) (auto split: prod.split)

definition drop_conn ::
  "conn_id \<Rightarrow> (conn_id \<times> sub_id \<Rightarrow> sub_entry option) \<Rightarrow> conn_id \<times> sub_id \<Rightarrow> sub_entry option" where
  "drop_conn conn M e = (if fst e = conn then None else M e)"

lemma remove_connection_refines:
  assumes ok: "reg_ok r"
  shows "reg_ok (fst (remove_connection conn r))
     \<and> entry_of (fst (remove_connection conn r)) = drop_conn conn (entry_of r)"
proof (cases "map_of (subs r) conn")
  case None
  then have "remove_connection conn r = (r, [])" by (simp add: remove_connection_def)
  moreover have "entry_of r = drop_conn conn (entry_of r)"
    using None by (auto simp: fun_eq_iff entry_of_def drop_conn_def)
  ultimately show ?thesis using ok by simp
next
  case (Some cs)
  let ?r' = "fst (remove_connection conn r)"
  have r': "?r' = fold (\<lambda>(sub, filters, community, channel).
           remove_from_index conn sub filters community channel) cs (r\<lparr>subs := AList.delete conn (subs r)\<rparr>)"
    using Some by (simp add: remove_connection_def)
  have subs': "subs ?r' = AList.delete conn (subs r)" by (simp add: r' subs_remove_fold)
  have ent: "entry_of ?r' = drop_conn conn (entry_of r)"
    by (auto simp: entry_of_def drop_conn_def subs' hmap_simps fun_eq_iff)
  have wf: "hwf cs" using ok Some by (auto simp: reg_ok_def intro: wf_inner)
  have "entry_of r (conn, s) = Some x" if "(s, x) \<in> set cs" for s x
    using Some wf that by (simp add: entry_of_def hwf_map_of_iff)
  then have "indexes_ok ?r' (\<lambda>e. if fst e = conn \<and> snd e \<in> fst ` set cs then None else entry_of r e)"
    unfolding r' using ok by (intro remove_fold_indexes wf) (simp_all add: reg_ok_def)
  moreover have "(\<lambda>e. if fst e = conn \<and> snd e \<in> fst ` set cs then None else entry_of r e)
      = drop_conn conn (entry_of r)"
    using Some by (auto simp: fun_eq_iff entry_of_def drop_conn_def map_of_eq_None_iff)
  ultimately show ?thesis
    using ok by (simp add: reg_ok_def ent subs' wf_inner_delete)
qed

lemma remove_each_refines:
  assumes "reg_ok r"
  shows "reg_ok (fst (remove_each conn ids r))
     \<and> entry_of (fst (remove_each conn ids r))
         = (\<lambda>e. if fst e = conn \<and> snd e \<in> set ids then None else entry_of r e)"
  using assms
proof (induction ids arbitrary: r)
  case Nil
  then show ?case by simp
next
  case (Cons sub ids)
  obtain r1 x where r1: "remove_subscription conn sub r = (r1, x)" by fastforce
  with remove_subscription_refines [OF Cons.prems, of conn sub]
  have "reg_ok r1" and ent: "entry_of r1 = (entry_of r)((conn, sub) := None)" by simp_all
  from Cons.IH [OF this(1)] show ?case
    by (auto simp: r1 Let_def ent fun_eq_iff split: prod.split)
qed

definition drop_channel ::
  "community_id \<Rightarrow> conn_id \<Rightarrow> channel_id
     \<Rightarrow> (conn_id \<times> sub_id \<Rightarrow> sub_entry option) \<Rightarrow> conn_id \<times> sub_id \<Rightarrow> sub_entry option" where
  "drop_channel community conn channel M e =
     (if fst e = conn \<and> map_option scope_of (M e)
           = Some \<lparr>rs_community_id = community, rs_channel_id = Some channel\<rparr>
      then None else M e)"

lemma set_channel_sub_ids:
  assumes "reg_ok r"
  shows "sub \<in> set (channel_sub_ids community conn channel r) \<longleftrightarrow>
     map_option scope_of (entry_of r (conn, sub))
       = Some \<lparr>rs_community_id = community, rs_channel_id = Some channel\<rparr>"
proof (cases "map_of (subs r) conn")
  case None
  then show ?thesis by (simp add: channel_sub_ids_def entry_of_def)
next
  case (Some cs)
  then have "hwf cs" using assms by (auto simp: reg_ok_def intro: wf_inner)
  then show ?thesis using Some
    by (force simp: channel_sub_ids_def entry_of_def scope_of_def hwf_map_of_iff)
qed

lemma remove_channel_refines:
  assumes ok: "reg_ok r"
  shows "reg_ok (fst (remove_channel_subscriptions_scoped community conn channel r))
     \<and> entry_of (fst (remove_channel_subscriptions_scoped community conn channel r))
         = drop_channel community conn channel (entry_of r)"
  using remove_each_refines [OF ok] set_channel_sub_ids [OF ok]
  by (auto simp: remove_channel_subscriptions_scoped_def drop_channel_def fun_eq_iff)

section \<open>Reachable registries\<close>

datatype reg_op =
    Register community_id conn_id sub_id "nostr_filter list" "channel_id option"
  | RemoveSub conn_id sub_id
  | RemoveConn conn_id
  | RemoveChannel community_id conn_id channel_id

fun reg_step :: "reg_op \<Rightarrow> registry \<Rightarrow> registry" where
  "reg_step (Register community conn sub filters channel) r =
     fst (register_scoped community conn sub filters channel r)"
| "reg_step (RemoveSub conn sub) r = fst (remove_subscription conn sub r)"
| "reg_step (RemoveConn conn) r = fst (remove_connection conn r)"
| "reg_step (RemoveChannel community conn channel) r =
     fst (remove_channel_subscriptions_scoped community conn channel r)"

lemma reg_ok_new: "reg_ok new_registry"
  by (simp add: reg_ok_def inner_wf_def indexes_ok_def new_registry_def buckets.tracks_def keys_of_def
      entry_of_def)

lemma reg_ok_step: "reg_ok r \<Longrightarrow> reg_ok (reg_step op r)"
  by (cases op) (simp_all add: register_refines remove_subscription_refines
      remove_connection_refines remove_channel_refines)

interpretation reg: invariant_machine reg_step "\<lambda>r. r = new_registry" reg_ok
  by unfold_locales (simp_all add: reg_ok_new reg_ok_step)

text \<open>The abstract registry: one map from subscription to entry.\<close>

type_synonym sub_map = "conn_id \<times> sub_id \<Rightarrow> sub_entry option"

fun abs_step :: "reg_op \<Rightarrow> sub_map \<Rightarrow> sub_map" where
  "abs_step (Register community conn sub filters channel) M =
     M((conn, sub) := Some (filters, community, channel))"
| "abs_step (RemoveSub conn sub) M = M((conn, sub) := None)"
| "abs_step (RemoveConn conn) M = drop_conn conn M"
| "abs_step (RemoveChannel community conn channel) M = drop_channel community conn channel M"

lemma reg_step_refines: "reg_ok r \<Longrightarrow> entry_of (reg_step op r) = abs_step op (entry_of r)"
  by (cases op) (simp_all add: register_refines remove_subscription_refines
      remove_connection_refines remove_channel_refines)

lemma reg_run_refines: "reg_ok r \<Longrightarrow> entry_of (fold reg_step ops r) = fold abs_step ops (entry_of r)"
  by (induction ops arbitrary: r) (simp_all add: reg_step_refines reg_ok_step)

lemma entry_of_new [simp]: "entry_of new_registry = (\<lambda>_. None)"
  by (simp add: entry_of_def new_registry_def fun_eq_iff)

section \<open>Index keys select every subscription that matches\<close>

lemma extract_kinds_loop_sound:
  "extract_kinds_loop ks fs = Some out \<Longrightarrow>
     set ks \<subseteq> set out \<and> (\<forall>f \<in> set fs. \<exists>k. f_kinds f = Some k \<and> set k \<subseteq> set out)"
proof (induction fs arbitrary: ks)
  case Nil
  then show ?case by simp
next
  case (Cons f fs)
  then obtain k where "f_kinds f = Some k" "extract_kinds_loop (foldl push_new ks k) fs = Some out"
    by (auto split: option.splits)
  with Cons.IH [of "foldl push_new ks k"] show ?case by auto
qed

lemma kinds_of_match:
  assumes "filters_match fs ev" and "extract_kinds_from_filters fs = Some kinds"
  shows "ev_kind (se_event ev) \<in> set kinds"
  using assms extract_kinds_loop_sound [of "[]" fs kinds]
  by (fastforce simp: filters_match_iff filter_spec_def extract_kinds_from_filters_def)

definition p_keys_of :: "community_id \<Rightarrow> nostr_filter \<Rightarrow> global_p_kind_index_key set" where
  "p_keys_of community f =
     {\<lparr>gp_community_id = community, gp_kind = k, gp_p = p\<rparr> | k p ks ps.
        f_kinds f = Some ks \<and> k \<in> set ks \<and> map_of (f_generic_tags f) CHR ''p'' = Some ps \<and> p \<in> set ps}"

lemma extract_p_keys_loop_sound:
  "extract_p_keys_loop community keys fs = Some out \<Longrightarrow>
     set keys \<subseteq> set out \<and>
     (\<forall>f \<in> set fs. p_keys_of community f \<subseteq> set out
        \<and> (\<exists>ks. f_kinds f = Some ks \<and> (ks \<noteq> [] \<longrightarrow> map_of (f_generic_tags f) CHR ''p'' \<noteq> None)))"
proof (induction fs arbitrary: keys)
  case Nil
  then show ?case by simp
next
  case (Cons f fs)
  then obtain ks where ks: "f_kinds f = Some ks" by (auto split: option.splits)
  show ?case
  proof (cases "ks = []")
    case True
    with Cons.prems Cons.IH [of keys] ks show ?thesis by (auto simp: p_keys_of_def)
  next
    case False
    with Cons.prems ks obtain ps where ps: "map_of (f_generic_tags f) CHR ''p'' = Some ps"
      and rest: "extract_p_keys_loop community (foldl push_new keys
                   (concat (map (\<lambda>kind. map (\<lambda>p.
                      \<lparr>gp_community_id = community, gp_kind = kind, gp_p = p\<rparr>) ps) ks))) fs = Some out"
      by (auto split: option.splits if_splits)
    from Cons.IH [OF rest] show ?thesis using ks ps by (auto simp: p_keys_of_def)
  qed
qed

lemma set_event_p_tag_values:
  "set (event_p_tag_values ev) =
     {v. \<exists>t \<in> set (ev_tags (se_event ev)). tag_kind t = ''p'' \<and> tag_content t = Some v}"
proof -
  have "set (foldl (\<lambda>values tag.
              if tag_kind tag \<noteq> ''p'' then values
              else (case tag_content tag of Some v \<Rightarrow> push_new values v | None \<Rightarrow> values)) vs tags)
     = set vs \<union> {v. \<exists>t \<in> set tags. tag_kind t = ''p'' \<and> tag_content t = Some v}" for vs tags
    by (induction tags arbitrary: vs) (auto split: option.splits)
  note loop = this
  show ?thesis unfolding event_p_tag_values_def loop by simp
qed

lemma p_keys_of_match:
  assumes "filters_match fs ev" and "extract_global_p_kind_index_keys community fs = Some keys"
  shows "\<exists>p \<in> set (event_p_tag_values ev).
           \<lparr>gp_community_id = community, gp_kind = ev_kind (se_event ev), gp_p = p\<rparr> \<in> set keys"
proof -
  from assms(1) obtain f where f: "f \<in> set fs" "filter_spec f ev" by (auto simp: filters_match_iff)
  with assms(2) extract_p_keys_loop_sound [of community "[]" fs keys]
  obtain ks where ks: "f_kinds f = Some ks" "ks \<noteq> [] \<longrightarrow> map_of (f_generic_tags f) CHR ''p'' \<noteq> None"
    and sub: "p_keys_of community f \<subseteq> set keys"
    by (auto simp: extract_global_p_kind_index_keys_def)
  from f(2) ks(1) have k: "ev_kind (se_event ev) \<in> set ks" by (simp add: filter_spec_def)
  with ks(2) obtain ps where ps: "map_of (f_generic_tags f) CHR ''p'' = Some ps" by fastforce
  with f(2) have "set ps \<inter> effective_values ev CHR ''p'' \<noteq> {}"
    by (auto simp: filter_spec_def dest: map_of_SomeD)
  then obtain p where "p \<in> set ps" "p \<in> set (event_p_tag_values ev)"
    by (auto simp: effective_values_def set_event_p_tag_values)
  with k ks(1) ps sub show ?thesis by (force simp: p_keys_of_def)
qed

lemma candidates_iff:
  assumes "reg_ok r"
  shows "e \<in> set (fan_out_candidates community ev r) \<longleftrightarrow>
     (case se_channel_id ev of
        Some ch \<Rightarrow> (community, \<lparr>ik_channel_id = ch, ik_kind = ev_kind (se_event ev)\<rparr>)
                      \<in> keys_of ck_list (entry_of r) e
                   \<or> (community, ch) \<in> keys_of cw_list (entry_of r) e
      | None \<Rightarrow> (\<exists>p \<in> set (event_p_tag_values ev).
                   \<lparr>gp_community_id = community, gp_kind = ev_kind (se_event ev), gp_p = p\<rparr>
                     \<in> keys_of gp_list (entry_of r) e)
                \<or> (community, ev_kind (se_event ev)) \<in> keys_of gk_list (entry_of r) e
                \<or> community \<in> keys_of gw_list (entry_of r) e)"
proof -
  from assms have ix: "indexes_ok r (entry_of r)" by (simp add: reg_ok_def)
  show ?thesis
    using ix [unfolded indexes_ok_def]
    by (auto simp only: fan_out_candidates_def Let_def buckets.tracksD [where e = e] set_append
        set_concat set_map option.case split: option.split)
qed

lemma extract_p_keys_loop_community:
  "extract_p_keys_loop community keys fs = Some out \<Longrightarrow> gp_community_id ` set keys \<subseteq> {community}
     \<Longrightarrow> gp_community_id ` set out \<subseteq> {community}"
proof (induction fs arbitrary: keys)
  case Nil
  then show ?case by simp
next
  case (Cons f fs)
  then obtain ks where ks: "f_kinds f = Some ks" by (auto split: option.splits)
  show ?case
  proof (cases "ks = []")
    case True
    with Cons ks show ?thesis by simp
  next
    case False
    with Cons.prems(1) ks obtain ps where
      rest: "extract_p_keys_loop community (foldl push_new keys
                   (concat (map (\<lambda>kind. map (\<lambda>p.
                      \<lparr>gp_community_id = community, gp_kind = kind, gp_p = p\<rparr>) ps) ks))) fs = Some out"
      by (auto split: option.splits if_splits)
    from Cons.prems(2) show ?thesis by (intro Cons.IH [OF rest]) auto
  qed
qed

lemma p_keys_community:
  "extract_global_p_kind_index_keys community fs = Some keys \<Longrightarrow> k \<in> set keys
     \<Longrightarrow> gp_community_id k = community"
  using extract_p_keys_loop_community [of community "[]" fs keys]
  by (auto simp: extract_global_p_kind_index_keys_def)

lemma keys_of_None [simp]: "entry_of r e = None \<Longrightarrow> k \<notin> keys_of L (entry_of r) e"
  by (simp add: keys_of_def)

lemma keys_of_Some [simp]: "entry_of r e = Some x \<Longrightarrow> keys_of L (entry_of r) e = set (L x)"
  by (simp add: keys_of_def)

text \<open>Every key names the community and the channel scope of its entry.\<close>

lemma list_scopes:
  shows "(c, k) \<in> set (ck_list (fs, community, channel)) \<Longrightarrow>
           c = community \<and> channel = Some (ik_channel_id k)"
    and "(c, ch) \<in> set (cw_list (fs, community, channel)) \<Longrightarrow> c = community \<and> channel = Some ch"
    and "p \<in> set (gp_list (fs, community, channel)) \<Longrightarrow>
           gp_community_id p = community \<and> channel = None"
    and "(c, n) \<in> set (gk_list (fs, community, channel)) \<Longrightarrow> c = community \<and> channel = None"
    and "c \<in> set (gw_list (fs, community, channel)) \<Longrightarrow> c = community \<and> channel = None"
proof -
  show "(c, k) \<in> set (ck_list (fs, community, channel)) \<Longrightarrow>
           c = community \<and> channel = Some (ik_channel_id k)"
  proof (cases channel)
    case (Some ch)
    then show "(c, k) \<in> set (ck_list (fs, community, channel)) \<Longrightarrow>
           c = community \<and> channel = Some (ik_channel_id k)"
      by (cases "extract_kinds_from_filters fs") auto
  qed simp
  show "(c, ch) \<in> set (cw_list (fs, community, channel)) \<Longrightarrow> c = community \<and> channel = Some ch"
    by (cases channel; cases "extract_kinds_from_filters fs") simp_all
  show "p \<in> set (gp_list (fs, community, channel)) \<Longrightarrow>
           gp_community_id p = community \<and> channel = None"
    by (cases channel; cases "extract_global_p_kind_index_keys community fs")
       (simp_all add: p_keys_community)
  show "(c, n) \<in> set (gk_list (fs, community, channel)) \<Longrightarrow> c = community \<and> channel = None"
    by (cases channel; cases "extract_kinds_from_filters fs";
        cases "extract_global_p_kind_index_keys community fs") auto
  show "c \<in> set (gw_list (fs, community, channel)) \<Longrightarrow> c = community \<and> channel = None"
    by (cases channel) (auto split: if_splits)
qed

lemma candidate_scope:
  assumes "reg_ok r" and cand: "e \<in> set (fan_out_candidates community ev r)"
  shows "\<exists>fs. entry_of r e = Some (fs, community, se_channel_id ev)"
proof (cases "entry_of r e")
  case None
  with cand candidates_iff [OF assms(1)] show ?thesis by (simp split: option.splits)
next
  case (Some x)
  obtain fs comm ch where x: "x = (fs, comm, ch)" by (metis prod_cases3)
  show ?thesis
  proof (cases "se_channel_id ev")
    case None
    then show ?thesis using cand Some x
      by (auto simp only: candidates_iff [OF assms(1)] keys_of_Some option.case dest!: list_scopes)
         simp_all
  next
    case (Some c)
    then show ?thesis using cand \<open>entry_of r e = Some x\<close> x
      by (auto simp only: candidates_iff [OF assms(1)] keys_of_Some option.case dest!: list_scopes)
         simp_all
  qed
qed

lemma match_is_candidate:
  assumes "reg_ok r" and ent: "entry_of r e = Some (fs, community, se_channel_id ev)"
    and m: "filters_match fs ev"
  shows "e \<in> set (fan_out_candidates community ev r)"
proof (cases "se_channel_id ev")
  case (Some ch)
  then show ?thesis
    using ent kinds_of_match [OF m] unfolding candidates_iff [OF assms(1)] keys_of_Some [OF ent]
    by (cases "extract_kinds_from_filters fs") auto
next
  case None
  then show ?thesis
    using ent kinds_of_match [OF m] p_keys_of_match [OF m, of community]
    unfolding candidates_iff [OF assms(1)] keys_of_Some [OF ent]
    by (cases "extract_kinds_from_filters fs"; cases "extract_global_p_kind_index_keys community fs")
       auto
qed

lemma get_filters_entry: "get_filters conn sub r = map_option fst (entry_of r (conn, sub))"
  by (auto simp: get_filters_def entry_of_def split: option.splits)

lemma fold_push_match:
  "distinct out \<Longrightarrow>
     distinct (foldl (push_match r ev) out cs)
     \<and> set (foldl (push_match r ev) out cs) =
         set out \<union> {e \<in> set cs. \<exists>x. entry_of r e = Some x \<and> filters_match (fst x) ev}"
proof (induction cs arbitrary: out)
  case Nil
  then show ?case by simp
next
  case (Cons e cs)
  have "distinct (push_match r ev out e)
      \<and> set (push_match r ev out e)
          = set out \<union> (if \<exists>x. entry_of r e = Some x \<and> filters_match (fst x) ev then {e} else {})"
    using Cons.prems by (cases e) (auto simp: push_match_def get_filters_entry split: option.split)
  with Cons.IH [of "push_match r ev out e"] show ?case by auto
qed

lemma fan_out_iff:
  assumes "reg_ok r"
  shows "distinct (fan_out_scoped community ev r)
     \<and> (e \<in> set (fan_out_scoped community ev r) \<longleftrightarrow>
          (\<exists>fs. entry_of r e = Some (fs, community, se_channel_id ev) \<and> filters_match fs ev))"
  using fold_push_match [of "[]" r ev "fan_out_candidates community ev r"]
    candidate_scope [OF assms, of e community ev] match_is_candidate [OF assms, of e _ community ev]
  by (auto simp: fan_out_scoped_def)

section \<open>Subscriber connections and counts\<close>

text \<open>
  A subscription is indexed unless every one of its filters asks for no kind at all (\<open>kinds: []\<close>).
\<close>

definition asks_for_kinds :: "nostr_filter list \<Rightarrow> bool" where
  "asks_for_kinds fs \<longleftrightarrow> (\<exists>f \<in> set fs. f_kinds f \<noteq> Some [])"

lemma extract_kinds_loop_empty:
  "extract_kinds_loop ks fs = Some [] \<longleftrightarrow> ks = [] \<and> \<not> asks_for_kinds fs"
proof (induction fs arbitrary: ks)
  case Nil
  then show ?case by (simp add: asks_for_kinds_def)
next
  case (Cons f fs)
  have "foldl push_new ks k = [] \<longleftrightarrow> ks = [] \<and> k = []" for k
    by (metis set_foldl_push_new Un_empty set_empty)
  with Cons.IH show ?case by (auto simp: asks_for_kinds_def split: option.split)
qed

lemma ck_or_cw_iff:
  "((\<exists>k. ik_channel_id k = ch \<and> (comm, k) \<in> set (ck_list x)) \<or> (comm, ch) \<in> set (cw_list x)) \<longleftrightarrow>
     (\<exists>fs. x = (fs, comm, Some ch) \<and> asks_for_kinds fs)"
proof -
  obtain fs comm' ch' where x: "x = (fs, comm', ch')" by (metis prod_cases3)
  show ?thesis
  proof (cases ch')
    case None
    then show ?thesis by (simp add: x)
  next
    case (Some c)
    have "asks_for_kinds fs \<longleftrightarrow> extract_kinds_from_filters fs \<noteq> Some []"
      by (simp add: extract_kinds_from_filters_def extract_kinds_loop_empty)
    moreover have "(\<exists>k. ik_channel_id k = ch \<and>
        (comm, k) \<in> (\<lambda>n. (comm', \<lparr>ik_channel_id = c, ik_kind = n\<rparr>)) ` set ns)
        \<longleftrightarrow> comm' = comm \<and> c = ch \<and> ns \<noteq> []" for ns
      by (cases ns) force+
    ultimately show ?thesis
      by (cases "extract_kinds_from_filters fs") (auto simp: x Some)
  qed
qed

lemma channel_subscribers_iff:
  assumes "reg_ok r"
  shows "conn \<in> set (channel_subscriber_conns_scoped community ch r) \<longleftrightarrow>
     (\<exists>sub fs. entry_of r (conn, sub) = Some (fs, community, Some ch) \<and> asks_for_kinds fs)"
proof -
  from assms have ix: "buckets.tracks (channel_kind_index r) (keys_of ck_list (entry_of r))"
      "buckets.tracks (channel_wildcard_index r) (keys_of cw_list (entry_of r))"
      "hwf (channel_kind_index r)"
    by (simp_all add: reg_ok_def indexes_ok_def)
  have ck: "(\<exists>sub k. ik_channel_id k = ch \<and> (conn, sub) \<in> set (bucket (channel_kind_index r) (community, k)))
      \<longleftrightarrow> conn \<in> set (concat (map (\<lambda>((c, key), entries). map fst entries)
          (filter (\<lambda>((c, key), entries). c = community \<and> ik_channel_id key = ch) (channel_kind_index r))))"
    (is "?L \<longleftrightarrow> ?R")
  proof
    assume ?L
    then obtain sub k xs where "ik_channel_id k = ch" "map_of (channel_kind_index r) (community, k) = Some xs"
      "(conn, sub) \<in> set xs"
      unfolding bucket_mem by blast
    then have "((community, k), xs) \<in> set (filter (\<lambda>((c, key), entries). c = community \<and> ik_channel_id key = ch)
        (channel_kind_index r))" and "conn \<in> set (map fst xs)"
      by (auto dest: map_of_SomeD intro: rev_image_eqI)
    then show ?R by force
  next
    assume ?R
    then obtain k xs sub where "((community, k), xs) \<in> set (channel_kind_index r)" "ik_channel_id k = ch"
      "(conn, sub) \<in> set xs" by auto
    then show ?L using ix(3) by (force simp: hwf_map_of_iff [symmetric] bucket_def)
  qed
  have "conn \<in> set (channel_subscriber_conns_scoped community ch r) \<longleftrightarrow>
      (\<exists>sub. (\<exists>k. ik_channel_id k = ch \<and> (community, k) \<in> keys_of ck_list (entry_of r) (conn, sub))
           \<or> (community, ch) \<in> keys_of cw_list (entry_of r) (conn, sub))"
    unfolding channel_subscriber_conns_scoped_def set_remdups set_append ck [symmetric] Un_iff
      buckets.tracksD [OF ix(1)]
    using buckets.tracksD [OF ix(2)] by (force simp: image_iff)
  also have "\<dots> \<longleftrightarrow> (\<exists>sub x. entry_of r (conn, sub) = Some x \<and>
      (\<exists>fs. x = (fs, community, Some ch) \<and> asks_for_kinds fs))"
    unfolding ck_or_cw_iff [symmetric]
  proof (rule ex_cong1)
    fix sub
    show "((\<exists>k. ik_channel_id k = ch \<and> (community, k) \<in> keys_of ck_list (entry_of r) (conn, sub))
           \<or> (community, ch) \<in> keys_of cw_list (entry_of r) (conn, sub)) \<longleftrightarrow>
       (\<exists>x. entry_of r (conn, sub) = Some x \<and>
          ((\<exists>k. ik_channel_id k = ch \<and> (community, k) \<in> set (ck_list x)) \<or> (community, ch) \<in> set (cw_list x)))"
      by (cases "entry_of r (conn, sub)") simp_all
  qed
  finally show ?thesis by auto
qed

text \<open>The list of all entries, in the iteration order of the maps.\<close>

definition all_entries :: "registry \<Rightarrow> ((conn_id \<times> sub_id) \<times> sub_entry) list" where
  "all_entries r = concat (map (\<lambda>(conn, conn_subs). map (\<lambda>(sub, x). ((conn, sub), x)) conn_subs) (subs r))"

lemma hwf_all_entries:
  assumes "reg_ok r" shows "hwf (all_entries r)"
proof -
  have "hwf m \<Longrightarrow> inner_wf m \<Longrightarrow>
      hwf (concat (map (\<lambda>(conn, conn_subs). map (\<lambda>(sub, x). ((conn, sub), x)) conn_subs) m))"
    for m :: "(conn_id, (sub_id, sub_entry) hmap) hmap"
  proof (induction m)
    case Nil
    then show ?case by simp
  next
    case (Cons cm m)
    obtain conn cs where cm: "cm = (conn, cs)" by fastforce
    have fst_cs: "map fst (map (\<lambda>(sub, x). ((conn, sub), x)) cs) = map (Pair conn) (map fst cs)"
      by (induction cs) auto
    let ?rest = "concat (map (\<lambda>(conn, conn_subs). map (\<lambda>(sub, x). ((conn, sub), x)) conn_subs) m)"
    from Cons have rest: "distinct (map fst ?rest)" and cs: "distinct (map fst cs)"
      and fresh: "conn \<notin> fst ` set m"
      by (auto simp: hwf_def inner_wf_def cm)
    have "\<forall>e \<in> set (map fst ?rest). fst e \<in> fst ` set m" by force
    then have "set (map (Pair conn) (map fst cs)) \<inter> set (map fst ?rest) = {}"
      using fresh by fastforce
    moreover have "distinct (map (Pair conn) (map fst cs))"
      using cs by (simp only: distinct_map [of "Pair conn"]) (simp add: inj_on_def)
    ultimately show ?case
      using rest by (simp only: hwf_def cm list.map concat.simps map_append prod.case fst_cs
        distinct_append)
  qed
  with assms show ?thesis by (simp add: all_entries_def reg_ok_def)
qed

lemma all_entries_iff:
  assumes "reg_ok r" shows "(e, x) \<in> set (all_entries r) \<longleftrightarrow> entry_of r e = Some x"
proof -
  obtain conn sub where e: "e = (conn, sub)" by fastforce
  have "(e, x) \<in> set (all_entries r) \<longleftrightarrow> (\<exists>cs. (conn, cs) \<in> set (subs r) \<and> (sub, x) \<in> set cs)"
    by (force simp: all_entries_def e)
  also have "\<dots> \<longleftrightarrow> (\<exists>cs. map_of (subs r) conn = Some cs \<and> map_of cs sub = Some x)"
    using assms wf_inner [of "subs r" conn] by (auto simp: reg_ok_def hwf_map_of_iff)
  finally show ?thesis by (auto simp: e entry_of_def split: option.splits)
qed

lemma total_subscriptions_card:
  assumes "reg_ok r" shows "total_subscriptions r = card (dom (entry_of r))"
proof -
  have "total_subscriptions r = length (all_entries r)"
    by (auto simp: total_subscriptions_def all_entries_def length_concat comp_def intro!: arg_cong [of _ _ sum_list])
  also have "\<dots> = card (fst ` set (all_entries r))"
    using hwf_all_entries [OF assms] by (metis hwf_def distinct_card length_map set_map)
  also have "fst ` set (all_entries r) = dom (entry_of r)"
    using all_entries_iff [OF assms] by (force simp: dom_def)
  finally show ?thesis .
qed

section \<open>Properties\<close>

text \<open>
  C2 (the registry is one map). After any sequence of registrations and removals, the registry's
  content is the map obtained by the same sequence of plain map updates: re-registering a
  subscription id replaces it, removing a connection drops its subscriptions and no other, and
  removing a channel drops exactly the subscriptions of that community, connection and channel.
\<close>

theorem registry_refines_map:
  "entry_of (fold reg_step ops new_registry) = fold abs_step ops (\<lambda>_. None)"
  by (simp add: reg_run_refines reg_ok_new)

text \<open>
  C1 (fan-out is exact). In every reachable registry, fan-out of an event in a community returns,
  without duplicates, exactly the subscriptions registered in that community for the event's own
  channel scope whose filters match. So the indexed lookup equals the linear scan, communities are
  isolated, global subscriptions never see channel events and channel subscriptions never see
  global ones.
\<close>

theorem fan_out_exact:
  "distinct (fan_out_scoped community ev (fold reg_step ops new_registry))
   \<and> (e \<in> set (fan_out_scoped community ev (fold reg_step ops new_registry)) \<longleftrightarrow>
        (\<exists>fs. fold abs_step ops (\<lambda>_. None) e = Some (fs, community, se_channel_id ev)
              \<and> filters_match fs ev))"
  using fan_out_iff [OF reg.inv_reachable [of new_registry ops], of community ev e]
  by (simp add: reg_run_refines reg_ok_new)

text \<open>
  A removed connection is gone. Once a connection is removed, no fan-out names it and no index
  bucket mentions it, until one of its subscriptions is registered again.
\<close>

theorem removed_connection_unreachable:
  assumes "\<forall>op \<in> set later. \<forall>community sub fs ch. op \<noteq> Register community conn sub fs ch"
  shows "(conn, sub) \<notin> set (fan_out_candidates community ev
           (fold reg_step (earlier @ RemoveConn conn # later) new_registry))"
proof -
  have drop: "abs_step op M (conn, sub) = None"
    if "M (conn, sub) = None" "\<forall>community sub fs ch. op \<noteq> Register community conn sub fs ch"
    for op and M :: sub_map
    using that by (cases op) (auto simp: drop_conn_def drop_channel_def)
  have "fold abs_step ops M (conn, sub) = None"
    if "M (conn, sub) = None" "\<forall>op \<in> set ops. \<forall>community sub fs ch. op \<noteq> Register community conn sub fs ch"
    for ops and M :: sub_map
    using that by (induction ops arbitrary: M) (simp_all add: drop)
  then have "fold abs_step (earlier @ RemoveConn conn # later) (\<lambda>_. None) (conn, sub) = None"
    using assms by (simp add: drop_conn_def)
  then have "entry_of (fold reg_step (earlier @ RemoveConn conn # later) new_registry) (conn, sub) = None"
    by (simp only: reg_run_refines [OF reg_ok_new] entry_of_new)
  then show ?thesis
    using candidate_scope [OF reg.inv_reachable [OF refl]] by (metis option.distinct(1))
qed

definition demo_stored_event :: stored_event where
  "demo_stored_event = new_stored_event 7
     \<lparr>ev_id = ''e'', ev_pubkey = ''a'', ev_created_at = 5, ev_kind = 1, ev_tags = [], ev_content = []\<rparr> None"

theorem removed_connection_unreachable_witness:
  "(''c1'', ''s'') \<notin> set (fan_out_candidates ''t'' demo_stored_event
     (fold reg_step [Register ''t'' ''c1'' ''s'' [] None, RemoveConn ''c1'', RemoveSub ''c2'' ''x'']
        new_registry))"
  using removed_connection_unreachable [of "[RemoveSub ''c2'' ''x'']" "''c1''" "''s''" "''t''" demo_stored_event
      "[Register ''t'' ''c1'' ''s'' [] None]"]
  by simp

text \<open>
  Channel subscribers. The connections reported as subscribed to a channel are, without
  duplicates, exactly those holding a subscription of that community and channel that asks for some
  event kind; a subscription all of whose filters say \<open>kinds: []\<close> is not reported.
\<close>

theorem channel_subscribers_exact:
  "distinct (channel_subscriber_conns_scoped community ch (fold reg_step ops new_registry))
   \<and> (conn \<in> set (channel_subscriber_conns_scoped community ch (fold reg_step ops new_registry)) \<longleftrightarrow>
        (\<exists>sub fs. fold abs_step ops (\<lambda>_. None) (conn, sub) = Some (fs, community, Some ch)
                  \<and> asks_for_kinds fs))"
  using channel_subscribers_iff [OF reg.inv_reachable [of new_registry ops], of conn community ch]
  by (simp add: reg_run_refines reg_ok_new) (simp add: channel_subscriber_conns_scoped_def)

text \<open>
  The gauge counts the map. \<open>total_subscriptions\<close> of every reachable registry is the number
  of entries of the abstract map.
\<close>

theorem total_subscriptions_exact:
  "total_subscriptions (fold reg_step ops new_registry) = card (dom (fold abs_step ops (\<lambda>_. None)))"
  using total_subscriptions_card [OF reg.inv_reachable [of new_registry ops]]
  by (simp add: reg_run_refines reg_ok_new)

end
