(* ===== verification/Pairing.thy ===== *)
theory Pairing
  imports PairingQr
begin

text \<open>
  The NIP-AB pairing session (\<open>crates/buzz-core/src/pairing/session.rs\<close>): the state of one side and
  every handler of both sides. A handler is a function of the current time, the session and its
  input to the session it leaves and its \<open>Result\<close>; \<open>guarded\<close> is the \<open>?\<close> operator, so a handler
  that fails after changing the session keeps that change. Cryptography, JSON and event signing are
  the fields of \<open>pair_ext\<close> (extending \<open>codec_ext\<close>); random numbers and clocks are arguments.
  Zeroization is not modelled.

  \<open>allowed\<close> is the protocol automaton; \<open>pair_step\<close> and \<open>ptrace\<close> are the runs of a session under
  arbitrary calls, and the properties relate them.
\<close>

section \<open>Parameters\<close>

type_synonym secret_key = bytes

record key_pair =
  k_secret :: secret_key
  k_public :: public_key

record pair_event =
  pe_id :: bytes
  pe_pubkey :: public_key
  pe_created_at :: nat
  pe_kind :: nat
  pe_tags :: "string list list"
  pe_content :: string

record pair_ext = codec_ext +
  ecdh :: "secret_key \<Rightarrow> public_key \<Rightarrow> string + bytes"
  nip44_encrypt :: "secret_key \<Rightarrow> public_key \<Rightarrow> string \<Rightarrow> bytes \<Rightarrow> string + string"
  nip44_decrypt :: "secret_key \<Rightarrow> public_key \<Rightarrow> string \<Rightarrow> string + string"
  json_write :: "pairing_message \<Rightarrow> string + string"
  json_read :: "string \<Rightarrow> string + pairing_message"
  sign_event :: "key_pair \<Rightarrow> nat \<Rightarrow> string \<Rightarrow> string list list \<Rightarrow> nat \<Rightarrow> string + pair_event"
  verify_event :: "pair_event \<Rightarrow> string + unit"

text \<open>What \<open>build_event\<close> reads from its environment: wall clock, jitter and encryption nonce.\<close>

record build_env =
  env_now :: nat
  env_jitter :: nat
  env_nonce :: bytes

section \<open>Session state\<close>

definition DEFAULT_TIMEOUT :: nat where "DEFAULT_TIMEOUT = 120 * 10 ^ 9"
definition PAIRING_KIND :: nat where "PAIRING_KIND = 24134"

datatype role = Source | Target

datatype session_state =
    Waiting | Confirming | AwaitingConfirmation | Transferring | PayloadExchanged | Completed | Aborted

record session =
  s_role :: role
  s_state :: session_state
  s_keys :: key_pair
  s_session_secret :: bytes
  s_relay_urls :: "string list"
  s_peer_pubkey :: "public_key option"
  s_session_id :: bytes
  s_sas_code :: "u32 option"
  s_sas_input :: "bytes option"
  s_processed_ids :: "bytes set"
  s_created_at :: nat
  s_timeout :: nat

fun role_debug :: "role \<Rightarrow> string" where
  "role_debug Source = ''Source''"
| "role_debug Target = ''Target''"

fun state_debug :: "session_state \<Rightarrow> string" where
  "state_debug Waiting = ''Waiting''"
| "state_debug Confirming = ''Confirming''"
| "state_debug AwaitingConfirmation = ''AwaitingConfirmation''"
| "state_debug Transferring = ''Transferring''"
| "state_debug PayloadExchanged = ''PayloadExchanged''"
| "state_debug Completed = ''Completed''"
| "state_debug Aborted = ''Aborted''"

section \<open>Checks\<close>

definition is_expired :: "nat \<Rightarrow> session \<Rightarrow> bool" where
  "is_expired now s \<longleftrightarrow> now - s_created_at s > s_timeout s"

definition check_expired :: "nat \<Rightarrow> session \<Rightarrow> pairing_error + unit" where
  "check_expired now s = (if is_expired now s then Err SessionExpired else Ok ())"

definition expect_state :: "session_state \<Rightarrow> session \<Rightarrow> pairing_error + unit" where
  "expect_state expected s =
     (if s_state s \<noteq> expected
      then Err (UnexpectedMessage (''state '' @ state_debug expected) (''state '' @ state_debug (s_state s)))
      else Ok ())"

definition expect_role :: "role \<Rightarrow> session \<Rightarrow> pairing_error + unit" where
  "expect_role expected s =
     (if s_role s \<noteq> expected
      then Err (UnexpectedMessage (''role '' @ role_debug expected) (''role '' @ role_debug (s_role s)))
      else Ok ())"

definition unexpected :: "string \<Rightarrow> pairing_message \<Rightarrow> pairing_error" where
  "unexpected expected got =
     UnexpectedMessage expected
       (case got of
          OfferMsg _ _ \<Rightarrow> ''offer''
        | SasConfirmMsg _ \<Rightarrow> ''sas-confirm''
        | PayloadMsg _ _ \<Rightarrow> ''payload''
        | CompleteMsg _ \<Rightarrow> ''complete''
        | AbortMsg _ \<Rightarrow> ''abort'')"

definition has_p_tag :: "'x pair_ext_scheme \<Rightarrow> session \<Rightarrow> pair_event \<Rightarrow> bool" where
  "has_p_tag X s event =
     list_ex (\<lambda>t. case t of
                    name # val # _ \<Rightarrow> name = ''p'' \<and> val = hex_encode X (k_public (s_keys s))
                  | _ \<Rightarrow> False) (pe_tags event)"

definition validate_event_basics ::
  "'x pair_ext_scheme \<Rightarrow> pair_event \<Rightarrow> session \<Rightarrow> pairing_error + unit" where
  "validate_event_basics X event s =
     (case verify_event X event of
        Inl e \<Rightarrow> Err (InvalidPubkey (''event verification failed: '' @ e))
      | Inr _ \<Rightarrow>
          if pe_id event \<in> s_processed_ids s then
            Err (UnexpectedMessage ''new event'' ''duplicate event id'')
          else if pe_kind event \<noteq> PAIRING_KIND then
            Err (UnexpectedMessage (''kind '' @ show_nat PAIRING_KIND) (''kind '' @ show_nat (pe_kind event)))
          else if \<not> has_p_tag X s event then
            Err (InvalidPubkey ''event p-tag does not match our ephemeral pubkey'')
          else Ok ())"

definition validate_event_from_peer ::
  "'x pair_ext_scheme \<Rightarrow> pair_event \<Rightarrow> session \<Rightarrow> pairing_error + unit" where
  "validate_event_from_peer X event s =
     and_then (validate_event_basics X event s) (\<lambda>_.
       case s_peer_pubkey s of
         Some expected \<Rightarrow>
           if pe_pubkey event \<noteq> expected
           then Err (InvalidPubkey (''event from '' @ hex_encode X (pe_pubkey event)
                       @ '' but expected '' @ hex_encode X expected))
           else Ok ()
       | None \<Rightarrow> Ok ())"

definition record_event :: "pair_event \<Rightarrow> session \<Rightarrow> session" where
  "record_event event s = s\<lparr>s_processed_ids := insert (pe_id event) (s_processed_ids s)\<rparr>"

text \<open>The two error texts with characters outside ASCII, in UTF-8.\<close>

definition nip44_size_text :: string where
  "nip44_size_text = ''NIP-44 content (132'' @ [CHR 0xE2, CHR 0x80, CHR 0x93] @ ''87472 chars)''"

definition plaintext_size_text :: string where
  "plaintext_size_text = ''plaintext '' @ [CHR 0xE2, CHR 0x89, CHR 0xA4] @ '' 65535 bytes''"

definition decrypt_message ::
  "'x pair_ext_scheme \<Rightarrow> pair_event \<Rightarrow> session \<Rightarrow> pairing_error + pairing_message" where
  "decrypt_message X event s =
     (let content_len = length (pe_content event)
      in if \<not> (132 \<le> content_len \<and> content_len \<le> 87472) then
           Err (UnexpectedMessage nip44_size_text (show_nat content_len @ '' chars''))
         else (case nip44_decrypt X (k_secret (s_keys s)) (pe_pubkey event) (pe_content event) of
                 Inl e \<Rightarrow> Err (Nip44Error e)
               | Inr decrypted \<Rightarrow>
                   if length decrypted > 65535 then
                     Err (UnexpectedMessage plaintext_size_text (show_nat (length decrypted) @ '' bytes''))
                   else (case json_read X decrypted of Inl e \<Rightarrow> Err (JsonError e) | Inr m \<Rightarrow> Ok m)))"

definition build_event ::
  "'x pair_ext_scheme \<Rightarrow> build_env \<Rightarrow> pairing_message \<Rightarrow> session \<Rightarrow> pairing_error + pair_event" where
  "build_event X env message s =
     (case s_peer_pubkey s of
        None \<Rightarrow> Err (InvalidPubkey ''no peer pubkey set'')
      | Some peer \<Rightarrow>
          (case json_write X message of
             Inl e \<Rightarrow> Err (JsonError e)
           | Inr plaintext \<Rightarrow>
               (case nip44_encrypt X (k_secret (s_keys s)) peer plaintext (env_nonce env) of
                  Inl e \<Rightarrow> Err (Nip44Error e)
                | Inr encrypted \<Rightarrow>
                    (let ts = env_now env - env_jitter env mod 31
                     in case sign_event X (s_keys s) PAIRING_KIND encrypted
                               [[''p'', hex_encode X peer]] ts of
                          Inl e \<Rightarrow> Err (SigningError e)
                        | Inr event \<Rightarrow> Ok event))))"

text \<open>A decoded 32-byte array: \<open>hex::decode(..).ok().and_then(try_from)\<close>.\<close>

definition decode_32 :: "'x codec_ext_scheme \<Rightarrow> string \<Rightarrow> bytes option" where
  "decode_32 X h =
     (case hex_decode X h of Inl _ \<Rightarrow> None | Inr b \<Rightarrow> if length b = 32 then Some b else None)"

section \<open>Source side\<close>

definition new_source ::
  "'x pair_ext_scheme \<Rightarrow> key_pair \<Rightarrow> bytes \<Rightarrow> nat \<Rightarrow> string \<Rightarrow> session \<times> qr_payload" where
  "new_source X keys session_secret now relay_url =
     (\<lparr>s_role = Source, s_state = Waiting, s_keys = keys, s_session_secret = session_secret,
       s_relay_urls = [relay_url], s_peer_pubkey = None,
       s_session_id = derive_session_id X session_secret, s_sas_code = None, s_sas_input = None,
       s_processed_ids = {}, s_created_at = now, s_timeout = DEFAULT_TIMEOUT\<rparr>,
      \<lparr>qr_source_pubkey = k_public keys, qr_session_secret = session_secret,
       qr_relays = [relay_url], qr_version = 1\<rparr>)"

text \<open>The message checks of \<open>handle_offer\<close>, which read the session only.\<close>

definition check_offer ::
  "'x pair_ext_scheme \<Rightarrow> pairing_message \<Rightarrow> session \<Rightarrow> pairing_error + unit" where
  "check_offer X msg s =
     (case msg of
        OfferMsg session_id_hex version \<Rightarrow>
          if version \<noteq> 1 then
            Err (UnexpectedMessage ''version 1'' (''version '' @ show_nat (unat version)))
          else (case decode_32 X session_id_hex of
                  Some i \<Rightarrow> if ct_eq i (s_session_id s) then Ok () else Err InvalidSessionId
                | None \<Rightarrow> Err InvalidSessionId)
      | other \<Rightarrow> Err (unexpected ''offer'' other))"

definition handle_offer ::
  "'x pair_ext_scheme \<Rightarrow> nat \<Rightarrow> pair_event \<Rightarrow> session \<Rightarrow> session \<times> (pairing_error + string)" where
  "handle_offer X now event s =
     guarded (check_expired now s) s (\<lambda>_.
     guarded (expect_state Waiting s) s (\<lambda>_.
     guarded (expect_role Source s) s (\<lambda>_.
     guarded (validate_event_basics X event s) s (\<lambda>_.
     guarded (decrypt_message X event s) s (\<lambda>msg.
     guarded (check_offer X msg s) s (\<lambda>_.
       let peer = pe_pubkey event; s1 = s\<lparr>s_peer_pubkey := Some peer\<rparr>
       in case ecdh X (k_secret (s_keys s)) peer of
            Inl e \<Rightarrow> (s1, Err (SigningError e))
          | Inr shared \<Rightarrow>
              (let (code, sas_input) = derive_sas X shared (s_session_secret s)
               in (record_event event
                     (s1\<lparr>s_sas_code := Some code, s_sas_input := Some sas_input, s_state := Confirming\<rparr>),
                   Ok (format_sas code)))))))))"

definition confirm_sas ::
  "'x pair_ext_scheme \<Rightarrow> build_env \<Rightarrow> nat \<Rightarrow> session \<Rightarrow> session \<times> (pairing_error + pair_event)" where
  "confirm_sas X env now s =
     guarded (check_expired now s) s (\<lambda>_.
     guarded (expect_state Confirming s) s (\<lambda>_.
     guarded (expect_role Source s) s (\<lambda>_.
     guarded (ok_or SasMismatch (s_sas_input s)) s (\<lambda>sas_input.
     guarded (ok_or (InvalidPubkey ''no peer'') (s_peer_pubkey s)) s (\<lambda>peer.
       let transcript_hash = derive_transcript_hash X (s_session_id s) (k_public (s_keys s)) peer
                               sas_input (s_session_secret s)
       in guarded (build_event X env (SasConfirmMsg (hex_encode X transcript_hash)) s) s (\<lambda>event.
            (s\<lparr>s_state := Transferring\<rparr>, Ok event)))))))"

definition send_payload ::
  "'x pair_ext_scheme \<Rightarrow> build_env \<Rightarrow> nat \<Rightarrow> payload_type \<Rightarrow> string \<Rightarrow> session
     \<Rightarrow> session \<times> (pairing_error + pair_event)" where
  "send_payload X env now payload_type payload s =
     guarded (check_expired now s) s (\<lambda>_.
     guarded (expect_state Transferring s) s (\<lambda>_.
     guarded (expect_role Source s) s (\<lambda>_.
     guarded (build_event X env (PayloadMsg payload_type payload) s) s (\<lambda>event.
       (s\<lparr>s_state := PayloadExchanged\<rparr>, Ok event)))))"

definition handle_complete ::
  "'x pair_ext_scheme \<Rightarrow> nat \<Rightarrow> pair_event \<Rightarrow> session \<Rightarrow> session \<times> (pairing_error + unit)" where
  "handle_complete X now event s =
     guarded (check_expired now s) s (\<lambda>_.
     guarded (expect_state PayloadExchanged s) s (\<lambda>_.
     guarded (expect_role Source s) s (\<lambda>_.
     guarded (validate_event_from_peer X event s) s (\<lambda>_.
     guarded (decrypt_message X event s) s (\<lambda>msg.
       case msg of
         CompleteMsg success \<Rightarrow>
           if success then (record_event event (s\<lparr>s_state := Completed\<rparr>), Ok ())
           else (s\<lparr>s_state := Aborted\<rparr>,
                 Err (UnexpectedMessage ''complete(success=true)'' ''complete(success=false)''))
       | other \<Rightarrow> (s, Err (unexpected ''complete'' other)))))))"

section \<open>Target side\<close>

definition new_target ::
  "'x pair_ext_scheme \<Rightarrow> build_env \<Rightarrow> key_pair \<Rightarrow> nat \<Rightarrow> qr_payload
     \<Rightarrow> pairing_error + (session \<times> pair_event)" where
  "new_target X env keys now qr =
     (let session_id = derive_session_id X (qr_session_secret qr)
      in case ecdh X (k_secret keys) (qr_source_pubkey qr) of
           Inl e \<Rightarrow> Err (SigningError e)
         | Inr shared \<Rightarrow>
             (let (code, sas_input) = derive_sas X shared (qr_session_secret qr);
                  session = \<lparr>s_role = Target, s_state = Waiting, s_keys = keys,
                    s_session_secret = qr_session_secret qr, s_relay_urls = qr_relays qr,
                    s_peer_pubkey = Some (qr_source_pubkey qr), s_session_id = session_id,
                    s_sas_code = Some code, s_sas_input = Some sas_input, s_processed_ids = {},
                    s_created_at = now, s_timeout = DEFAULT_TIMEOUT\<rparr>
              in and_then (build_event X env (OfferMsg (hex_encode X session_id) 1) session)
                   (\<lambda>event. Ok (session\<lparr>s_state := Confirming\<rparr>, event))))"

definition handle_sas_confirm ::
  "'x pair_ext_scheme \<Rightarrow> nat \<Rightarrow> pair_event \<Rightarrow> session \<Rightarrow> session \<times> (pairing_error + string)" where
  "handle_sas_confirm X now event s =
     guarded (check_expired now s) s (\<lambda>_.
     guarded (expect_state Confirming s) s (\<lambda>_.
     guarded (expect_role Target s) s (\<lambda>_.
     guarded (validate_event_from_peer X event s) s (\<lambda>_.
     guarded (decrypt_message X event s) s (\<lambda>msg.
     guarded (case msg of SasConfirmMsg h \<Rightarrow> Ok h | other \<Rightarrow> Err (unexpected ''sas-confirm'' other)) s
       (\<lambda>received_hash.
     guarded (ok_or SasMismatch (s_sas_input s)) s (\<lambda>sas_input.
     guarded (ok_or (InvalidPubkey ''no peer'') (s_peer_pubkey s)) s (\<lambda>peer.
       let expected_hash = derive_transcript_hash X (s_session_id s) peer (k_public (s_keys s))
                             sas_input (s_session_secret s);
           hash_matches = (case decode_32 X received_hash of Some rb \<Rightarrow> ct_eq rb expected_hash | None \<Rightarrow> False)
       in if \<not> hash_matches then (s\<lparr>s_state := Aborted\<rparr>, Err TranscriptMismatch)
          else (let s1 = record_event event (s\<lparr>s_state := AwaitingConfirmation\<rparr>)
                in guarded (ok_or SasMismatch (s_sas_code s)) s1 (\<lambda>code. (s1, Ok (format_sas code))))))))))))"

definition confirm_target_sas :: "nat \<Rightarrow> session \<Rightarrow> session \<times> (pairing_error + unit)" where
  "confirm_target_sas now s =
     guarded (check_expired now s) s (\<lambda>_.
     guarded (expect_state AwaitingConfirmation s) s (\<lambda>_.
     guarded (expect_role Target s) s (\<lambda>_.
       (s\<lparr>s_state := Transferring\<rparr>, Ok ()))))"

definition handle_payload ::
  "'x pair_ext_scheme \<Rightarrow> nat \<Rightarrow> pair_event \<Rightarrow> session
     \<Rightarrow> session \<times> (pairing_error + payload_type \<times> string)" where
  "handle_payload X now event s =
     guarded (check_expired now s) s (\<lambda>_.
     guarded (expect_state Transferring s) s (\<lambda>_.
     guarded (expect_role Target s) s (\<lambda>_.
     guarded (validate_event_from_peer X event s) s (\<lambda>_.
     guarded (decrypt_message X event s) s (\<lambda>msg.
       case msg of
         PayloadMsg payload_type payload \<Rightarrow>
           (record_event event (s\<lparr>s_state := PayloadExchanged\<rparr>), Ok (payload_type, payload))
       | other \<Rightarrow> (s, Err (unexpected ''payload'' other)))))))"

definition send_complete ::
  "'x pair_ext_scheme \<Rightarrow> build_env \<Rightarrow> nat \<Rightarrow> session \<Rightarrow> session \<times> (pairing_error + pair_event)" where
  "send_complete X env now s =
     guarded (check_expired now s) s (\<lambda>_.
     guarded (expect_state PayloadExchanged s) s (\<lambda>_.
     guarded (expect_role Target s) s (\<lambda>_.
     guarded (build_event X env (CompleteMsg True) s) s (\<lambda>event.
       (s\<lparr>s_state := Completed\<rparr>, Ok event)))))"

section \<open>Aborts and accessors\<close>

definition expect_non_terminal :: "session \<Rightarrow> pairing_error + unit" where
  "expect_non_terminal s =
     (if s_state s = Completed \<or> s_state s = Aborted
      then Err (UnexpectedMessage ''non-terminal state'' (''state '' @ state_debug (s_state s)))
      else Ok ())"

definition abort_session ::
  "'x pair_ext_scheme \<Rightarrow> build_env \<Rightarrow> abort_reason \<Rightarrow> session
     \<Rightarrow> session \<times> (pairing_error + pair_event option)" where
  "abort_session X env reason s =
     guarded (expect_non_terminal s) s (\<lambda>_.
       if s_peer_pubkey s = None then (s\<lparr>s_state := Aborted\<rparr>, Ok None)
       else guarded (build_event X env (AbortMsg reason) s) s (\<lambda>event.
              (s\<lparr>s_state := Aborted\<rparr>, Ok (Some event))))"

definition handle_abort ::
  "'x pair_ext_scheme \<Rightarrow> pair_event \<Rightarrow> session \<Rightarrow> session \<times> (pairing_error + abort_reason)" where
  "handle_abort X event s =
     guarded (expect_non_terminal s) s (\<lambda>_.
       if s_peer_pubkey s = None
       then (s, Err (InvalidPubkey ''cannot accept abort before peer is known''))
       else guarded (validate_event_from_peer X event s) s (\<lambda>_.
            guarded (decrypt_message X event s) s (\<lambda>msg.
              case msg of
                AbortMsg reason \<Rightarrow> (record_event event (s\<lparr>s_state := Aborted\<rparr>), Ok reason)
              | other \<Rightarrow> (s, Err (unexpected ''abort'' other)))))"

definition session_sas_code :: "session \<Rightarrow> string option" where
  "session_sas_code s = map_option format_sas (s_sas_code s)"

definition qr_uri :: "'x pair_ext_scheme \<Rightarrow> session \<Rightarrow> string option" where
  "qr_uri X s =
     (if s_role s \<noteq> Source then None
      else Some (encode_qr X \<lparr>qr_source_pubkey = k_public (s_keys s),
                   qr_session_secret = s_session_secret s, qr_relays = s_relay_urls s, qr_version = 1\<rparr>))"

lemmas pairing_ops_def =
  handle_offer_def confirm_sas_def send_payload_def handle_complete_def handle_sas_confirm_def
  confirm_target_sas_def handle_payload_def send_complete_def abort_session_def handle_abort_def

section \<open>What each handler can do to a session\<close>

lemma check_Ok_iff [simp]:
  "check_expired now s = Ok u \<longleftrightarrow> \<not> is_expired now s"
  "expect_state st s = Ok u \<longleftrightarrow> s_state s = st"
  "expect_role ro s = Ok u \<longleftrightarrow> s_role s = ro"
  "expect_non_terminal s = Ok u \<longleftrightarrow> s_state s \<noteq> Completed \<and> s_state s \<noteq> Aborted"
  by (simp_all add: check_expired_def expect_state_def expect_role_def expect_non_terminal_def)

lemma check_pass [simp]:
  "\<not> is_expired now s \<Longrightarrow> check_expired now s = Ok ()"
  "s_state s = st \<Longrightarrow> expect_state st s = Ok ()"
  "s_role s = ro \<Longrightarrow> expect_role ro s = Ok ()"
  by simp_all

lemma validate_basics_Ok:
  "validate_event_basics X event s = Ok u \<Longrightarrow>
     is_ok (verify_event X event) \<and> pe_id event \<notin> s_processed_ids s
     \<and> pe_kind event = PAIRING_KIND \<and> has_p_tag X s event"
  by (simp add: validate_event_basics_def split: sum.splits if_splits)

lemma validate_peer_Ok:
  "validate_event_from_peer X event s = Ok u \<Longrightarrow>
     pe_id event \<notin> s_processed_ids s
     \<and> (\<forall>p. s_peer_pubkey s = Some p \<longrightarrow> pe_pubkey event = p)"
  by (auto simp: validate_event_from_peer_def dest!: validate_basics_Ok split: option.splits if_splits)

text \<open>A handler that only reports an error.\<close>

definition rejects :: "session \<Rightarrow> session \<times> ('e + 'a) \<Rightarrow> bool" where
  "rejects s r \<longleftrightarrow> fst r = s \<and> (\<exists>e. snd r = Err e)"

lemma rejects_simps [simp]: "rejects s (s', Ok a) \<longleftrightarrow> False" "rejects s (s', Err e) \<longleftrightarrow> s' = s"
  by (auto simp: rejects_def)

text \<open>\<open>eff s Q x\<close>: the result \<open>x\<close> of a handler called on \<open>s\<close> is a plain rejection or satisfies \<open>Q\<close>.\<close>

definition eff :: "session \<Rightarrow> (session \<times> ('e + 'a) \<Rightarrow> bool) \<Rightarrow> session \<times> ('e + 'a) \<Rightarrow> bool" where
  "eff s Q x \<longleftrightarrow> rejects s x \<or> Q x"

lemma guarded_eff: "(\<And>a. r = Ok a \<Longrightarrow> eff s Q (k a)) \<Longrightarrow> eff s Q (guarded r s k)"
  by (cases r) (simp_all add: eff_def)

lemma eff_reject: "eff s Q (s, Err e)"
  by (simp add: eff_def)

lemma effI: "Q x \<Longrightarrow> eff s Q x"
  by (simp add: eff_def)

lemma effE:
  assumes "eff s Q x"
  obtains (rejected) e where "x = (s, Err e)" | (accepted) "Q x"
  using assms by (cases x) (auto simp: eff_def rejects_def)

lemma handle_offer_effect:
  "eff s (\<lambda>x. \<not> is_expired now s \<and> s_state s = Waiting \<and> s_role s = Source
      \<and> pe_id ev \<notin> s_processed_ids s
      \<and> ((\<exists>e. x = (s\<lparr>s_peer_pubkey := Some (pe_pubkey ev)\<rparr>, Err (SigningError e)))
         \<or> (\<exists>code inp. x =
               (record_event ev (s\<lparr>s_peer_pubkey := Some (pe_pubkey ev), s_sas_code := Some code,
                   s_sas_input := Some inp, s_state := Confirming\<rparr>), Ok (format_sas code)))))
     (handle_offer X now ev s)"
  unfolding handle_offer_def
  by (intro guarded_eff effI)
     (auto simp: Let_def dest!: validate_basics_Ok split: sum.split prod.split)

lemma confirm_sas_effect:
  "eff s (\<lambda>x. \<not> is_expired now s \<and> s_state s = Confirming \<and> s_role s = Source
      \<and> (\<exists>ev. x = (s\<lparr>s_state := Transferring\<rparr>, Ok ev)))
     (confirm_sas X env now s)"
  unfolding confirm_sas_def Let_def by (intro guarded_eff effI) auto

lemma send_payload_effect:
  "eff s (\<lambda>x. \<not> is_expired now s \<and> s_state s = Transferring \<and> s_role s = Source
      \<and> (\<exists>ev. x = (s\<lparr>s_state := PayloadExchanged\<rparr>, Ok ev)))
     (send_payload X env now pt p s)"
  unfolding send_payload_def by (intro guarded_eff effI) auto

lemma handle_complete_effect:
  "eff s (\<lambda>x. \<not> is_expired now s \<and> s_state s = PayloadExchanged \<and> s_role s = Source
      \<and> pe_id ev \<notin> s_processed_ids s \<and> (\<forall>p. s_peer_pubkey s = Some p \<longrightarrow> pe_pubkey ev = p)
      \<and> (x = (record_event ev (s\<lparr>s_state := Completed\<rparr>), Ok ())
         \<or> (\<exists>e. x = (s\<lparr>s_state := Aborted\<rparr>, Err e))))
     (handle_complete X now ev s)"
  unfolding handle_complete_def
  by (intro guarded_eff) (auto simp: eff_def dest!: validate_peer_Ok split: pairing_message.split)

lemma handle_sas_confirm_effect:
  "eff s (\<lambda>x. \<not> is_expired now s \<and> s_state s = Confirming \<and> s_role s = Target
      \<and> pe_id ev \<notin> s_processed_ids s \<and> (\<forall>p. s_peer_pubkey s = Some p \<longrightarrow> pe_pubkey ev = p)
      \<and> ((\<exists>e. x = (s\<lparr>s_state := Aborted\<rparr>, Err e))
         \<or> (\<exists>r. x = (record_event ev (s\<lparr>s_state := AwaitingConfirmation\<rparr>), r)
              \<and> (\<forall>c. s_sas_code s = Some c \<longrightarrow> r = Ok (format_sas c)))))
     (handle_sas_confirm X now ev s)"
  unfolding handle_sas_confirm_def Let_def
  by (cases "s_sas_code s"; intro guarded_eff; auto simp: eff_def dest!: validate_peer_Ok)

lemma confirm_target_sas_effect:
  "eff s (\<lambda>x. \<not> is_expired now s \<and> s_state s = AwaitingConfirmation \<and> s_role s = Target
      \<and> x = (s\<lparr>s_state := Transferring\<rparr>, Ok ()))
     (confirm_target_sas now s)"
  unfolding confirm_target_sas_def by (intro guarded_eff effI) auto

lemma handle_payload_effect:
  "eff s (\<lambda>x. \<not> is_expired now s \<and> s_state s = Transferring \<and> s_role s = Target
      \<and> pe_id ev \<notin> s_processed_ids s \<and> (\<forall>p. s_peer_pubkey s = Some p \<longrightarrow> pe_pubkey ev = p)
      \<and> (\<exists>pt p. x = (record_event ev (s\<lparr>s_state := PayloadExchanged\<rparr>), Ok (pt, p))))
     (handle_payload X now ev s)"
  unfolding handle_payload_def
  by (intro guarded_eff) (auto simp: eff_def dest!: validate_peer_Ok split: pairing_message.split)

lemma send_complete_effect:
  "eff s (\<lambda>x. \<not> is_expired now s \<and> s_state s = PayloadExchanged \<and> s_role s = Target
      \<and> (\<exists>ev. x = (s\<lparr>s_state := Completed\<rparr>, Ok ev)))
     (send_complete X env now s)"
  unfolding send_complete_def by (intro guarded_eff effI) auto

lemma abort_session_effect:
  "eff s (\<lambda>x. s_state s \<noteq> Completed \<and> s_state s \<noteq> Aborted \<and> (\<exists>o'. x = (s\<lparr>s_state := Aborted\<rparr>, Ok o')))
     (abort_session X env reason s)"
  unfolding abort_session_def
  by (intro guarded_eff) (auto simp: eff_def guarded_def split: sum.split)

lemma handle_abort_effect:
  "eff s (\<lambda>x. s_state s \<noteq> Completed \<and> s_state s \<noteq> Aborted
      \<and> pe_id ev \<notin> s_processed_ids s \<and> s_peer_pubkey s = Some (pe_pubkey ev)
      \<and> (\<exists>reason. x = (record_event ev (s\<lparr>s_state := Aborted\<rparr>), Ok reason)))
     (handle_abort X ev s)"
proof (cases "s_peer_pubkey s")
  case None
  then show ?thesis unfolding handle_abort_def by (intro guarded_eff) (simp add: eff_def)
next
  case (Some p)
  then show ?thesis unfolding handle_abort_def
    by (intro guarded_eff; simp only: option.distinct if_False; intro guarded_eff)
       (auto simp: eff_def dest!: validate_peer_Ok split: pairing_message.split)
qed

section \<open>Runs\<close>

datatype pair_op =
    HandleOffer nat pair_event
  | ConfirmSas build_env nat
  | SendPayload build_env nat payload_type string
  | HandleComplete nat pair_event
  | HandleSasConfirm nat pair_event
  | ConfirmTargetSas nat
  | HandlePayload nat pair_event
  | SendComplete build_env nat
  | AbortSession build_env abort_reason
  | HandleAbort pair_event

datatype outcome =
    OutErr pairing_error
  | OutSas string
  | OutEvent "pair_event option"
  | OutDone
  | OutPayload payload_type string
  | OutAborted abort_reason

definition outcome_of :: "('a \<Rightarrow> outcome) \<Rightarrow> session \<times> (pairing_error + 'a) \<Rightarrow> session \<times> outcome" where
  "outcome_of f x = (fst x, case snd x of Inl e \<Rightarrow> OutErr e | Inr a \<Rightarrow> f a)"

fun pair_step :: "'x pair_ext_scheme \<Rightarrow> pair_op \<Rightarrow> session \<Rightarrow> session \<times> outcome" where
  "pair_step X (HandleOffer now ev) s = outcome_of OutSas (handle_offer X now ev s)"
| "pair_step X (ConfirmSas env now) s = outcome_of (OutEvent \<circ> Some) (confirm_sas X env now s)"
| "pair_step X (SendPayload env now pt p) s = outcome_of (OutEvent \<circ> Some) (send_payload X env now pt p s)"
| "pair_step X (HandleComplete now ev) s = outcome_of (\<lambda>_. OutDone) (handle_complete X now ev s)"
| "pair_step X (HandleSasConfirm now ev) s = outcome_of OutSas (handle_sas_confirm X now ev s)"
| "pair_step X (ConfirmTargetSas now) s = outcome_of (\<lambda>_. OutDone) (confirm_target_sas now s)"
| "pair_step X (HandlePayload now ev) s =
     outcome_of (\<lambda>(pt, p). OutPayload pt p) (handle_payload X now ev s)"
| "pair_step X (SendComplete env now) s = outcome_of (OutEvent \<circ> Some) (send_complete X env now s)"
| "pair_step X (AbortSession env reason) s = outcome_of OutEvent (abort_session X env reason s)"
| "pair_step X (HandleAbort ev) s = outcome_of OutAborted (handle_abort X ev s)"

text \<open>The event an operation consumes and the time at which it is checked for expiry.\<close>

fun op_event :: "pair_op \<Rightarrow> pair_event option" where
  "op_event (HandleOffer now ev) = Some ev"
| "op_event (HandleComplete now ev) = Some ev"
| "op_event (HandleSasConfirm now ev) = Some ev"
| "op_event (HandlePayload now ev) = Some ev"
| "op_event (HandleAbort ev) = Some ev"
| "op_event _ = None"

fun op_now :: "pair_op \<Rightarrow> nat option" where
  "op_now (HandleOffer now ev) = Some now"
| "op_now (ConfirmSas env now) = Some now"
| "op_now (SendPayload env now pt p) = Some now"
| "op_now (HandleComplete now ev) = Some now"
| "op_now (HandleSasConfirm now ev) = Some now"
| "op_now (ConfirmTargetSas now) = Some now"
| "op_now (HandlePayload now ev) = Some now"
| "op_now (SendComplete env now) = Some now"
| "op_now _ = None"

section \<open>The protocol automaton\<close>

text \<open>The successful protocol actions of a side.\<close>

datatype milestone =
    Offered | SasConfirmed | PayloadSent | CompleteReceived
  | SasVerified | UserApproved | PayloadReceived | CompleteSent

fun milestone_of :: "pair_op \<times> outcome \<Rightarrow> milestone option" where
  "milestone_of (HandleOffer now ev, OutSas c) = Some Offered"
| "milestone_of (ConfirmSas env now, OutEvent e) = Some SasConfirmed"
| "milestone_of (SendPayload env now pt p, OutEvent e) = Some PayloadSent"
| "milestone_of (HandleComplete now ev, OutDone) = Some CompleteReceived"
| "milestone_of (HandleSasConfirm now ev, OutSas c) = Some SasVerified"
| "milestone_of (ConfirmTargetSas now, OutDone) = Some UserApproved"
| "milestone_of (HandlePayload now ev, OutPayload pt p) = Some PayloadReceived"
| "milestone_of (SendComplete env now, OutEvent e) = Some CompleteSent"
| "milestone_of _ = None"

inductive protocol :: "role \<Rightarrow> session_state \<Rightarrow> milestone option \<Rightarrow> session_state \<Rightarrow> bool" where
  offered: "protocol Source Waiting (Some Offered) Confirming"
| confirmed: "protocol Source Confirming (Some SasConfirmed) Transferring"
| sent: "protocol Source Transferring (Some PayloadSent) PayloadExchanged"
| finished: "protocol Source PayloadExchanged (Some CompleteReceived) Completed"
| verified: "protocol Target Confirming (Some SasVerified) AwaitingConfirmation"
| approved: "protocol Target AwaitingConfirmation (Some UserApproved) Transferring"
| received: "protocol Target Transferring (Some PayloadReceived) PayloadExchanged"
| completed: "protocol Target PayloadExchanged (Some CompleteSent) Completed"
| aborted: "st \<noteq> Completed \<Longrightarrow> protocol ro st None Aborted"
| stutter: "protocol ro st None st"

inductive_simps protocol_from_terminal:
  "protocol ro Completed m st" "protocol ro Aborted m st"

inductive_cases protocol_cases: "protocol ro st m st'"

text \<open>The states and milestones reachable from the initial state of a side.\<close>

fun initial_state :: "role \<Rightarrow> session_state" where
  "initial_state Source = Waiting"
| "initial_state Target = Confirming"

inductive protocol_run :: "role \<Rightarrow> milestone list \<Rightarrow> session_state \<Rightarrow> bool" where
  start: "protocol_run ro [] (initial_state ro)"
| step: "protocol_run ro ms st \<Longrightarrow> protocol ro st m st' \<Longrightarrow>
           protocol_run ro (ms @ (case m of None \<Rightarrow> [] | Some x \<Rightarrow> [x])) st'"

text \<open>The whole history of a side, and the part of it that each state stands for.\<close>

fun history :: "role \<Rightarrow> milestone list" where
  "history Source = [Offered, SasConfirmed, PayloadSent, CompleteReceived]"
| "history Target = [SasVerified, UserApproved, PayloadReceived, CompleteSent]"

fun progress :: "role \<Rightarrow> session_state \<Rightarrow> nat" where
  "progress Source Waiting = 0"
| "progress Source Confirming = 1"
| "progress Target Confirming = 0"
| "progress Target AwaitingConfirmation = 1"
| "progress ro Transferring = 2"
| "progress ro PayloadExchanged = 3"
| "progress ro Completed = 4"
| "progress _ _ = 0"

fun proper_state :: "role \<Rightarrow> session_state \<Rightarrow> bool" where
  "proper_state Source AwaitingConfirmation = False"
| "proper_state Target Waiting = False"
| "proper_state ro st = True"

lemma protocol_run_history:
  "protocol_run ro ms st \<Longrightarrow>
     proper_state ro st
     \<and> (st \<noteq> Aborted \<longrightarrow> ms = take (progress ro st) (history ro))
     \<and> (\<exists>k. ms = take k (history ro))"
proof (induction rule: protocol_run.induct)
  case (start ro)
  show ?case by (cases ro) (auto intro: exI [of _ 0])
next
  case (step ro ms st m st')
  from step.hyps(2) show ?case
  proof (cases rule: protocol.cases)
    case aborted
    then show ?thesis using step.IH by (cases ro) auto
  next
    case stutter
    then show ?thesis using step.IH by simp
  qed (use step.IH in \<open>auto intro: exI [of _ 1] exI [of _ 2] exI [of _ 3] exI [of _ 4]\<close>)
qed

text \<open>
  The one description of a step that the properties use: a change made in time, on a fresh event of
  the peer, that keeps the identity of the session.
\<close>

definition accepted_step :: "pair_op \<Rightarrow> session \<Rightarrow> session \<Rightarrow> bool" where
  "accepted_step op s s' \<longleftrightarrow>
     (\<forall>now. op_now op = Some now \<longrightarrow> \<not> is_expired now s)
     \<and> (\<forall>ev. op_event op = Some ev \<longrightarrow>
          pe_id ev \<notin> s_processed_ids s
          \<and> (s_state s \<noteq> Waiting \<longrightarrow> (\<forall>p. s_peer_pubkey s = Some p \<longrightarrow> pe_pubkey ev = p)))
     \<and> s_role s' = s_role s \<and> s_keys s' = s_keys s \<and> s_session_secret s' = s_session_secret s
     \<and> s_session_id s' = s_session_id s \<and> s_created_at s' = s_created_at s
     \<and> s_timeout s' = s_timeout s \<and> s_relay_urls s' = s_relay_urls s
     \<and> s_processed_ids s \<subseteq> s_processed_ids s'
     \<and> (s_sas_code s \<noteq> None \<longrightarrow> s_sas_code s' \<noteq> None)
     \<and> (s_state s \<noteq> Waiting \<longrightarrow> s_peer_pubkey s' = s_peer_pubkey s)"

definition step_ok :: "pair_op \<Rightarrow> session \<Rightarrow> session \<times> outcome \<Rightarrow> bool" where
  "step_ok op s r \<longleftrightarrow>
     accepted_step op s (fst r)
     \<and> (s_sas_code s \<noteq> None \<or> s_role s = Source \<longrightarrow>
          protocol (s_role s) (s_state s) (milestone_of (op, snd r)) (s_state (fst r)))
     \<and> (\<forall>ev. op_event op = Some ev \<and> (\<forall>e. snd r \<noteq> OutErr e) \<longrightarrow> pe_id ev \<in> s_processed_ids (fst r))"

lemma outcome_of_simps [simp]:
  "outcome_of f (s, Ok a) = (s, f a)" "outcome_of f (s, Err e) = (s, OutErr e)"
  by (simp_all add: outcome_of_def)

lemma record_event_sel [simp]:
  "s_role (record_event ev s) = s_role s" "s_state (record_event ev s) = s_state s"
  "s_keys (record_event ev s) = s_keys s" "s_session_secret (record_event ev s) = s_session_secret s"
  "s_session_id (record_event ev s) = s_session_id s" "s_created_at (record_event ev s) = s_created_at s"
  "s_timeout (record_event ev s) = s_timeout s" "s_relay_urls (record_event ev s) = s_relay_urls s"
  "s_peer_pubkey (record_event ev s) = s_peer_pubkey s" "s_sas_code (record_event ev s) = s_sas_code s"
  "s_sas_input (record_event ev s) = s_sas_input s"
  "s_processed_ids (record_event ev s) = insert (pe_id ev) (s_processed_ids s)"
  by (simp_all add: record_event_def)

lemma pair_step_ok:
  "(\<exists>e. pair_step X op s = (s, OutErr e)) \<or> step_ok op s (pair_step X op s)"
proof (cases op)
  case (HandleOffer now ev)
  show ?thesis using handle_offer_effect [of s now ev X]
    by (rule effE) (auto simp: HandleOffer step_ok_def accepted_step_def intro: protocol.intros)
next
  case (ConfirmSas env now)
  show ?thesis using confirm_sas_effect [of s now X env]
    by (rule effE) (auto simp: ConfirmSas step_ok_def accepted_step_def intro: protocol.intros)
next
  case (SendPayload env now pt p)
  show ?thesis using send_payload_effect [of s now X env pt p]
    by (rule effE) (auto simp: SendPayload step_ok_def accepted_step_def intro: protocol.intros)
next
  case (HandleComplete now ev)
  show ?thesis using handle_complete_effect [of s now ev X]
    by (rule effE) (auto simp: HandleComplete step_ok_def accepted_step_def intro: protocol.intros)
next
  case (HandleSasConfirm now ev)
  show ?thesis using handle_sas_confirm_effect [of s now ev X]
    by (rule effE) (auto simp: HandleSasConfirm step_ok_def accepted_step_def outcome_of_def
        split: sum.split intro: protocol.intros)
next
  case (ConfirmTargetSas now)
  show ?thesis using confirm_target_sas_effect [of s now]
    by (rule effE) (auto simp: ConfirmTargetSas step_ok_def accepted_step_def intro: protocol.intros)
next
  case (HandlePayload now ev)
  show ?thesis using handle_payload_effect [of s now ev X]
    by (rule effE) (auto simp: HandlePayload step_ok_def accepted_step_def intro: protocol.intros)
next
  case (SendComplete env now)
  show ?thesis using send_complete_effect [of s now X env]
    by (rule effE) (auto simp: SendComplete step_ok_def accepted_step_def intro: protocol.intros)
next
  case (AbortSession env reason)
  show ?thesis using abort_session_effect [of s X env reason]
    by (rule effE) (auto simp: AbortSession step_ok_def accepted_step_def intro: protocol.intros)
next
  case (HandleAbort ev)
  show ?thesis using handle_abort_effect [of s ev X]
    by (rule effE) (auto simp: HandleAbort step_ok_def accepted_step_def intro: protocol.intros)
qed

section \<open>Traces\<close>

fun ptrace ::
  "'x pair_ext_scheme \<Rightarrow> pair_op list \<Rightarrow> session \<Rightarrow> session \<times> (pair_op \<times> outcome) list" where
  "ptrace X [] s = (s, [])"
| "ptrace X (op # ops) s =
     (let (s1, out) = pair_step X op s; (s2, tr) = ptrace X ops s1 in (s2, (op, out) # tr))"

definition milestones :: "(pair_op \<times> outcome) list \<Rightarrow> milestone list" where
  "milestones tr = List.map_filter milestone_of tr"

lemma ptrace_snoc:
  "ptrace X (ops @ [op]) s =
     (fst (pair_step X op (fst (ptrace X ops s))),
      snd (ptrace X ops s) @ [(op, snd (pair_step X op (fst (ptrace X ops s))))])"
  by (induction ops arbitrary: s) (simp_all add: Let_def split: prod.split)

lemma milestones_snoc:
  "milestones (tr @ [x]) = milestones tr @ (case milestone_of x of None \<Rightarrow> [] | Some m \<Rightarrow> [m])"
proof -
  have "List.map_filter f (xs @ ys) = List.map_filter f xs @ List.map_filter f ys" for f :: "'a \<Rightarrow> 'b option" and xs ys
    by (simp add: List.map_filter_def)
  note app = this
  show ?thesis unfolding milestones_def app by (simp add: List.map_filter_simps split: option.split)
qed

text \<open>The sessions that the constructors make.\<close>

definition fresh_session :: "'x pair_ext_scheme \<Rightarrow> session \<Rightarrow> bool" where
  "fresh_session X s \<longleftrightarrow>
     (\<exists>keys secret now url. s = fst (new_source X keys secret now url))
     \<or> (\<exists>env keys now qr offer. new_target X env keys now qr = Ok (s, offer))"

lemma new_target_session:
  "new_target X env keys now qr = Ok (s, offer) \<Longrightarrow>
     s_role s = Target \<and> s_state s = Confirming \<and> s_sas_code s \<noteq> None \<and> s_processed_ids s = {}"
  by (auto simp: new_target_def Let_def split: sum.splits prod.splits)

lemma fresh_session_initial:
  "fresh_session X s \<Longrightarrow>
     s_state s = initial_state (s_role s) \<and> (s_sas_code s \<noteq> None \<or> s_role s = Source)
     \<and> s_processed_ids s = {}"
  by (auto simp: fresh_session_def new_source_def dest!: new_target_session)

lemma milestone_of_err [simp]: "milestone_of (op, OutErr e) = None"
  by (cases op) simp_all

lemma session_protocol_run:
  assumes "fresh_session X s0"
  shows "protocol_run (s_role s0) (milestones (snd (ptrace X ops s0))) (s_state (fst (ptrace X ops s0)))
     \<and> s_role (fst (ptrace X ops s0)) = s_role s0
     \<and> (s_sas_code (fst (ptrace X ops s0)) \<noteq> None \<or> s_role s0 = Source)"
proof (induction ops rule: rev_induct)
  case Nil
  from fresh_session_initial [OF assms] protocol_run.start [of "s_role s0"] show ?case
    by (simp add: milestones_def List.map_filter_simps)
next
  case (snoc op ops)
  let ?s = "fst (ptrace X ops s0)" and ?tr = "snd (ptrace X ops s0)"
  from pair_step_ok [of X op ?s]
  have "protocol (s_role s0) (s_state ?s) (milestone_of (op, snd (pair_step X op ?s)))
          (s_state (fst (pair_step X op ?s)))
      \<and> s_role (fst (pair_step X op ?s)) = s_role s0
      \<and> (s_sas_code (fst (pair_step X op ?s)) \<noteq> None \<or> s_role s0 = Source)"
    using snoc.IH by (auto simp: step_ok_def accepted_step_def intro: protocol.stutter)
  then show ?case
    using protocol_run.step [of "s_role s0" "milestones ?tr" "s_state ?s"] snoc.IH
    by (simp add: ptrace_snoc milestones_snoc)
qed

lemma processed_mono: "s_processed_ids s \<subseteq> s_processed_ids (fst (ptrace X ops s))"
proof (induction ops rule: rev_induct)
  case Nil
  then show ?case by simp
next
  case (snoc op ops)
  with pair_step_ok [of X op "fst (ptrace X ops s)"] show ?case
    by (auto simp: ptrace_snoc step_ok_def accepted_step_def)
qed

section \<open>Properties of one session\<close>

text \<open>
  C31 (order of a pairing). In every run of a fresh session under arbitrary calls, the successful
  protocol actions are a prefix of the side's fixed history, each at most once and in order, and
  unless the session has been aborted the state tells exactly which prefix (an aborted session has made some prefix
  of it, which its state does not tell). So a source releases the
  payload only after one accepted offer and the user's confirmation, and a target accepts one
  payload, only after a verified transcript hash and the user's approval.
\<close>

theorem session_order:
  assumes "fresh_session X s0" and "ptrace X ops s0 = (s, tr)"
  shows "(\<exists>k. milestones tr = take k (history (s_role s0)))
     \<and> (s_state s \<noteq> Aborted \<longrightarrow> milestones tr = take (progress (s_role s0) (s_state s)) (history (s_role s0)))"
  using session_protocol_run [OF assms(1), of ops] assms(2) protocol_run_history
  by fastforce

definition idle_ext :: pair_ext where
  "idle_ext = codec_ext.extend demo_codec
     \<lparr>ecdh = (\<lambda>_ _. Err ''no''), nip44_encrypt = (\<lambda>_ _ _ _. Err ''no''), nip44_decrypt = (\<lambda>_ _ _. Err ''no''),
      json_write = (\<lambda>_. Err ''no''), json_read = (\<lambda>_. Err ''no''), sign_event = (\<lambda>_ _ _ _ _. Err ''no''),
      verify_event = (\<lambda>_. Err ''no'')\<rparr>"

definition demo_keys :: "u8 \<Rightarrow> key_pair" where
  "demo_keys b = \<lparr>k_secret = replicate 32 b, k_public = replicate 32 b\<rparr>"

definition demo_event :: pair_event where
  "demo_event = \<lparr>pe_id = [1], pe_pubkey = [2], pe_created_at = 0, pe_kind = PAIRING_KIND, pe_tags = [], pe_content = []\<rparr>"

definition demo_source :: session where
  "demo_source = fst (new_source idle_ext (demo_keys 1) [] 0 ''wss://r'')"

lemma demo_source_fresh: "fresh_session idle_ext demo_source"
  by (auto simp: fresh_session_def demo_source_def)

text \<open>
  Final states. A completed or aborted session rejects every call and never changes again.
\<close>

theorem session_final:
  assumes "s_state s = Completed \<or> s_state s = Aborted"
  shows "\<exists>e. pair_step X op s = (s, OutErr e)"
proof (cases op)
  case (HandleOffer now ev)
  with assms handle_offer_effect [of s now ev X] show ?thesis by (auto elim!: effE)
next
  case (ConfirmSas env now)
  with assms confirm_sas_effect [of s now X env] show ?thesis by (auto elim!: effE)
next
  case (SendPayload env now pt p)
  with assms send_payload_effect [of s now X env pt p] show ?thesis by (auto elim!: effE)
next
  case (HandleComplete now ev)
  with assms handle_complete_effect [of s now ev X] show ?thesis by (auto elim!: effE)
next
  case (HandleSasConfirm now ev)
  with assms handle_sas_confirm_effect [of s now ev X] show ?thesis by (auto elim!: effE)
next
  case (ConfirmTargetSas now)
  with assms confirm_target_sas_effect [of s now] show ?thesis by (auto elim!: effE)
next
  case (HandlePayload now ev)
  with assms handle_payload_effect [of s now ev X] show ?thesis by (auto elim!: effE)
next
  case (SendComplete env now)
  with assms send_complete_effect [of s now X env] show ?thesis by (auto elim!: effE)
next
  case (AbortSession env reason)
  with assms abort_session_effect [of s X env reason] show ?thesis by (auto elim!: effE)
next
  case (HandleAbort ev)
  with assms handle_abort_effect [of s ev X] show ?thesis by (auto elim!: effE)
qed

theorem session_final_witness:
  "\<exists>e. pair_step idle_ext (ConfirmTargetSas 5) (demo_source\<lparr>s_state := Aborted\<rparr>)
         = (demo_source\<lparr>s_state := Aborted\<rparr>, OutErr e)"
  by (rule session_final) simp

text \<open>
  Expiry. Once the session's lifetime is over, every call that checks the clock (all but the
  two abort calls) is rejected and changes nothing.
\<close>

theorem session_expiry:
  assumes "op_now op = Some now" and "is_expired now s"
  shows "\<exists>e. pair_step X op s = (s, OutErr e)"
  using pair_step_ok [of X op s] assms by (auto simp: step_ok_def accepted_step_def)

theorem session_expiry_witness:
  "\<exists>e. pair_step idle_ext (HandleOffer (DEFAULT_TIMEOUT + 1) demo_event) demo_source = (demo_source, OutErr e)"
  by (rule session_expiry [of _ "DEFAULT_TIMEOUT + 1"])
     (simp_all add: is_expired_def demo_source_def new_source_def)

text \<open>
  No replay. Once a call has accepted an event, whatever happens next, every call that brings
  an event with the same id is rejected and changes nothing.
\<close>

theorem session_no_replay:
  assumes "op_event op = Some ev" and "pair_step X op s = (s1, out)" and "\<forall>e. out \<noteq> OutErr e"
    and "op_event op' = Some ev'" and "pe_id ev' = pe_id ev"
  shows "\<exists>e. pair_step X op' (fst (ptrace X ops s1)) = (fst (ptrace X ops s1), OutErr e)"
proof -
  from pair_step_ok [of X op s] assms(1-3) have "pe_id ev \<in> s_processed_ids s1"
    by (auto simp: step_ok_def)
  with processed_mono [of s1 X ops] have "pe_id ev' \<in> s_processed_ids (fst (ptrace X ops s1))"
    using assms(5) by auto
  with pair_step_ok [of X op' "fst (ptrace X ops s1)"] assms(4) show ?thesis
    by (auto simp: step_ok_def accepted_step_def)
qed

text \<open>
  Only the peer is heard. After the offer is accepted, an event signed by any key but the
  locked peer's is rejected by every handler and changes nothing; before it, no abort is accepted.
\<close>

theorem session_only_peer:
  assumes "op_event op = Some ev" and "s_state s \<noteq> Waiting"
    and "s_peer_pubkey s = Some p" and "pe_pubkey ev \<noteq> p"
  shows "\<exists>e. pair_step X op s = (s, OutErr e)"
  using pair_step_ok [of X op s] assms by (auto simp: step_ok_def accepted_step_def)

theorem session_only_peer_witness:
  "\<exists>e. pair_step idle_ext (HandleAbort demo_event)
          (demo_source\<lparr>s_state := Confirming, s_peer_pubkey := Some []\<rparr>)
        = (demo_source\<lparr>s_state := Confirming, s_peer_pubkey := Some []\<rparr>, OutErr e)"
  by (rule session_only_peer [of _ demo_event _ "[]"]) (simp_all add: demo_event_def)

section \<open>The honest run\<close>

text \<open>Length of the text fields of a message.\<close>

fun text_length :: "pairing_message \<Rightarrow> nat" where
  "text_length (OfferMsg session_id version) = length session_id"
| "text_length (SasConfirmMsg h) = length h"
| "text_length (PayloadMsg pt p) = length p"
| "text_length _ = 0"

text \<open>
  Documented behaviour of the called crates, for two key pairs \<open>a\<close> and \<open>b\<close>: the ECDH secret is
  symmetric; NIP-44 encrypts 1 to 65535 bytes into a payload of 132 to 87472 characters that the peer
  decrypts; serde writes JSON that it reads back, escaping a byte into at most six; a signed event
  carries what was signed and verifies; verified events with equal ids (hashes) have equal content.
\<close>

definition channel_laws :: "'x pair_ext_scheme \<Rightarrow> key_pair \<Rightarrow> key_pair \<Rightarrow> bool" where
  "channel_laws X a b \<longleftrightarrow>
     (\<forall>pt nonce. pt \<noteq> [] \<and> length pt \<le> 65535 \<longrightarrow>
        (\<exists>c. nip44_encrypt X (k_secret a) (k_public b) pt nonce = Ok c
           \<and> 132 \<le> length c \<and> length c \<le> 87472
           \<and> nip44_decrypt X (k_secret b) (k_public a) c = Ok pt))"

definition pair_laws :: "'x pair_ext_scheme \<Rightarrow> key_pair \<Rightarrow> key_pair \<Rightarrow> bool" where
  "pair_laws X a b \<longleftrightarrow>
     codec_laws X \<and> channel_laws X a b \<and> channel_laws X b a
     \<and> (\<exists>shared. ecdh X (k_secret a) (k_public b) = Ok shared \<and> ecdh X (k_secret b) (k_public a) = Ok shared)
     \<and> (\<forall>m. \<exists>t. json_write X m = Ok t \<and> t \<noteq> [] \<and> length t \<le> 256 + 6 * text_length m
              \<and> json_read X t = Ok m)
     \<and> (\<forall>k kind content tags ts. \<exists>ev. sign_event X k kind content tags ts = Ok ev
          \<and> verify_event X ev = Ok () \<and> pe_pubkey ev = k_public k \<and> pe_kind ev = kind
          \<and> pe_content ev = content \<and> pe_tags ev = tags)
     \<and> (\<forall>ev ev'. verify_event X ev = Ok () \<and> verify_event X ev' = Ok () \<and> pe_id ev = pe_id ev'
          \<longrightarrow> pe_content ev = pe_content ev')"

text \<open>The event \<open>ev\<close> carries message \<open>m\<close> from \<open>a\<close> to \<open>b\<close>.\<close>

definition carries :: "'x pair_ext_scheme \<Rightarrow> key_pair \<Rightarrow> key_pair \<Rightarrow> pair_event \<Rightarrow> pairing_message \<Rightarrow> bool" where
  "carries X a b ev m \<longleftrightarrow>
     verify_event X ev = Ok () \<and> pe_kind ev = PAIRING_KIND \<and> pe_pubkey ev = k_public a
     \<and> pe_tags ev = [[''p'', hex_encode X (k_public b)]]
     \<and> (\<forall>r. s_keys r = b \<longrightarrow> decrypt_message X ev r = Ok m)"

lemma build_event_carries:
  assumes laws: "channel_laws X a b" "pair_laws X c d"
    and s: "s_keys s = a" "s_peer_pubkey s = Some (k_public b)"
    and m: "256 + 6 * text_length m \<le> 65535"
  shows "\<exists>ev. build_event X env m s = Ok ev \<and> carries X a b ev m"
proof -
  from laws(2) obtain t where t: "json_write X m = Ok t" "t \<noteq> []" "length t \<le> 256 + 6 * text_length m"
      "json_read X t = Ok m" unfolding pair_laws_def by blast
  with m laws(1) obtain c where c: "nip44_encrypt X (k_secret a) (k_public b) t (env_nonce env) = Ok c"
      "132 \<le> length c" "length c \<le> 87472" "nip44_decrypt X (k_secret b) (k_public a) c = Ok t"
    unfolding channel_laws_def by (meson le_trans)
  from laws(2) obtain ev where ev: "sign_event X a PAIRING_KIND c [[''p'', hex_encode X (k_public b)]]
        (env_now env - env_jitter env mod 31) = Ok ev"
      "verify_event X ev = Ok ()" "pe_pubkey ev = k_public a" "pe_kind ev = PAIRING_KIND"
      "pe_content ev = c" "pe_tags ev = [[''p'', hex_encode X (k_public b)]]"
    unfolding pair_laws_def by blast
  have "build_event X env m s = Ok ev" using s t c ev by (simp add: build_event_def Let_def)
  moreover have "carries X a b ev m" using m t c ev by (simp add: carries_def decrypt_message_def Let_def)
  ultimately show ?thesis by blast
qed

lemma carries_valid:
  assumes "carries X a b ev m" and "s_keys r = b" and "pe_id ev \<notin> s_processed_ids r"
  shows "validate_event_basics X ev r = Ok () \<and> decrypt_message X ev r = Ok m \<and> pe_pubkey ev = k_public a
    \<and> (s_peer_pubkey r = Some (k_public a) \<longrightarrow> validate_event_from_peer X ev r = Ok ())"
  using assms by (simp add: carries_def validate_event_basics_def validate_event_from_peer_def has_p_tag_def)

lemma carries_distinct:
  assumes "pair_laws X c d" and "carries X a b ev m" and "carries X a b ev' m'" and "m \<noteq> m'"
  shows "pe_id ev \<noteq> pe_id ev'"
proof
  assume "pe_id ev = pe_id ev'"
  with assms(1-3) have same: "pe_content ev = pe_content ev'"
    unfolding pair_laws_def carries_def by blast
  obtain r :: session where r: "s_keys r = b" by (rule that [of "demo_source\<lparr>s_keys := b\<rparr>"]) simp
  with assms(2,3) have "decrypt_message X ev r = Ok m" "decrypt_message X ev' r = Ok m'"
    by (simp_all add: carries_def)
  with same assms(2,3) have "m = m'"
    by (simp add: decrypt_message_def carries_def Let_def cong: if_cong)
  with assms(4) show False ..
qed

lemma decode_32_encode: "codec_laws X \<Longrightarrow> length b = 32 \<Longrightarrow> decode_32 X (hex_encode X b) = Some b"
  by (simp add: decode_32_def codec_lawsD)

lemma new_target_honest:
  assumes laws: "pair_laws X a b"
    and shared: "ecdh X (k_secret b) (k_public a) = Ok shared"
    and sas: "derive_sas X shared (qr_session_secret qr) = (code, inp)"
    and qr: "qr_source_pubkey qr = k_public a"
    and tgt: "tgt0 = \<lparr>s_role = Target, s_state = Confirming, s_keys = b,
                    s_session_secret = qr_session_secret qr, s_relay_urls = qr_relays qr,
                    s_peer_pubkey = Some (k_public a),
                    s_session_id = derive_session_id X (qr_session_secret qr), s_sas_code = Some code,
                    s_sas_input = Some inp, s_processed_ids = {},
                    s_created_at = now, s_timeout = DEFAULT_TIMEOUT\<rparr>"
  shows "\<exists>offer. new_target X env b now qr = Ok (tgt0, offer)
    \<and> carries X b a offer (OfferMsg (hex_encode X (derive_session_id X (qr_session_secret qr))) 1)"
proof -
  from laws have X: "codec_laws X" and ch: "channel_laws X b a" by (simp_all add: pair_laws_def)
  have "\<exists>offer. build_event X env (OfferMsg (hex_encode X (derive_session_id X (qr_session_secret qr))) 1)
        (tgt0\<lparr>s_state := Waiting\<rparr>) = Ok offer
      \<and> carries X b a offer (OfferMsg (hex_encode X (derive_session_id X (qr_session_secret qr))) 1)"
    by (rule build_event_carries [OF ch laws])
       (simp_all add: tgt codec_lawsD [OF X] derive_session_id_def length_hkdf32 [OF X])
  then show ?thesis
    by (auto simp: new_target_def Let_def shared sas qr tgt)
qed

lemma source_honest:
  assumes laws: "pair_laws X a b"
    and shared: "ecdh X (k_secret a) (k_public b) = Ok shared"
    and sas: "derive_sas X shared secret = (code, inp)"
    and src0: "src0 = fst (new_source X a secret t0 url)"
    and offer: "carries X b a offer (OfferMsg (hex_encode X (derive_session_id X secret)) 1)"
    and now: "n1 \<le> t0 + DEFAULT_TIMEOUT" "n2 \<le> t0 + DEFAULT_TIMEOUT" "n3 \<le> t0 + DEFAULT_TIMEOUT"
    and fits: "256 + 6 * length payload \<le> 65535"
    and src1: "src1 = record_event offer (src0\<lparr>s_peer_pubkey := Some (k_public b), s_sas_code := Some code,
                 s_sas_input := Some inp, s_state := Confirming\<rparr>)"
  shows "\<exists>conf pay. handle_offer X n1 offer src0 = (src1, Ok (format_sas code))
    \<and> confirm_sas X e2 n2 src1 = (src1\<lparr>s_state := Transferring\<rparr>, Ok conf)
    \<and> send_payload X e3 n3 pt payload (src1\<lparr>s_state := Transferring\<rparr>)
        = (src1\<lparr>s_state := PayloadExchanged\<rparr>, Ok pay)
    \<and> carries X a b conf (SasConfirmMsg (hex_encode X (derive_transcript_hash X
        (derive_session_id X secret) (k_public a) (k_public b) inp secret)))
    \<and> carries X a b pay (PayloadMsg pt payload)"
proof -
  from laws have X: "codec_laws X" and ch: "channel_laws X a b" by (simp_all add: pair_laws_def)
  have live: "\<not> is_expired n s" if "s_created_at s = t0" "s_timeout s = DEFAULT_TIMEOUT"
      "n \<le> t0 + DEFAULT_TIMEOUT" for n s
    using that by (simp add: is_expired_def)
  have s0: "s_keys src0 = a" "s_state src0 = Waiting" "s_role src0 = Source" "s_processed_ids src0 = {}"
      "s_created_at src0 = t0" "s_timeout src0 = DEFAULT_TIMEOUT" "s_session_secret src0 = secret"
      "s_session_id src0 = derive_session_id X secret"
    by (simp_all add: src0 new_source_def)
  have sid: "length (derive_session_id X secret) = 32" by (simp add: derive_session_id_def length_hkdf32 [OF X])
  have "handle_offer X n1 offer src0 = (src1, Ok (format_sas code))"
    using carries_valid [OF offer s0(1)] now(1) s0 shared sas decode_32_encode [OF X sid]
    by (simp add: handle_offer_def live check_offer_def ct_eq_def Let_def src1)
  moreover
  let ?hash = "derive_transcript_hash X (derive_session_id X secret) (k_public a) (k_public b) inp secret"
  have "\<exists>conf. build_event X e2 (SasConfirmMsg (hex_encode X ?hash)) src1 = Ok conf
      \<and> carries X a b conf (SasConfirmMsg (hex_encode X ?hash))"
    by (rule build_event_carries [OF ch laws])
       (simp_all add: src1 s0 codec_lawsD [OF X] derive_transcript_hash_def length_hkdf32 [OF X])
  then obtain conf where conf: "build_event X e2 (SasConfirmMsg (hex_encode X ?hash)) src1 = Ok conf"
      "carries X a b conf (SasConfirmMsg (hex_encode X ?hash))" by blast
  then have "confirm_sas X e2 n2 src1 = (src1\<lparr>s_state := Transferring\<rparr>, Ok conf)"
    using now(2) by (simp add: confirm_sas_def live src1 s0 Let_def)
  moreover
  have "\<exists>pay. build_event X e3 (PayloadMsg pt payload) (src1\<lparr>s_state := Transferring\<rparr>) = Ok pay
      \<and> carries X a b pay (PayloadMsg pt payload)"
    by (rule build_event_carries [OF ch laws]) (simp_all add: src1 s0 fits)
  then obtain pay where pay: "build_event X e3 (PayloadMsg pt payload) (src1\<lparr>s_state := Transferring\<rparr>) = Ok pay"
      "carries X a b pay (PayloadMsg pt payload)" by blast
  then have "send_payload X e3 n3 pt payload (src1\<lparr>s_state := Transferring\<rparr>)
      = (src1\<lparr>s_state := PayloadExchanged\<rparr>, Ok pay)"
    using now(3) by (simp add: send_payload_def live src1 s0)
  ultimately show ?thesis using conf(2) pay(2) by blast
qed

lemma target_honest:
  assumes laws: "pair_laws X a b"
    and tgt: "s_role tgt0 = Target" "s_state tgt0 = Confirming" "s_keys tgt0 = b"
      "s_peer_pubkey tgt0 = Some (k_public a)" "s_sas_code tgt0 = Some code" "s_sas_input tgt0 = Some inp"
      "s_processed_ids tgt0 = {}" "s_created_at tgt0 = t1" "s_timeout tgt0 = DEFAULT_TIMEOUT"
    and conf: "carries X a b conf (SasConfirmMsg (hex_encode X (derive_transcript_hash X
        (s_session_id tgt0) (k_public a) (k_public b) inp (s_session_secret tgt0))))"
    and pay: "carries X a b pay (PayloadMsg pt payload)"
    and now: "m1 \<le> t1 + DEFAULT_TIMEOUT" "m2 \<le> t1 + DEFAULT_TIMEOUT" "m3 \<le> t1 + DEFAULT_TIMEOUT"
      "m4 \<le> t1 + DEFAULT_TIMEOUT"
    and tgt1: "tgt1 = record_event conf (tgt0\<lparr>s_state := AwaitingConfirmation\<rparr>)"
    and tgt3: "tgt3 = record_event pay (tgt1\<lparr>s_state := PayloadExchanged\<rparr>)"
  shows "\<exists>comp. handle_sas_confirm X m1 conf tgt0 = (tgt1, Ok (format_sas code))
    \<and> confirm_target_sas m2 tgt1 = (tgt1\<lparr>s_state := Transferring\<rparr>, Ok ())
    \<and> handle_payload X m3 pay (tgt1\<lparr>s_state := Transferring\<rparr>) = (tgt3, Ok (pt, payload))
    \<and> send_complete X e4 m4 tgt3 = (tgt3\<lparr>s_state := Completed\<rparr>, Ok comp)
    \<and> carries X b a comp (CompleteMsg True)"
proof -
  from laws have X: "codec_laws X" and ch: "channel_laws X b a" by (simp_all add: pair_laws_def)
  have live: "\<not> is_expired n s" if "s_created_at s = t1" "s_timeout s = DEFAULT_TIMEOUT"
      "n \<le> t1 + DEFAULT_TIMEOUT" for n s
    using that by (simp add: is_expired_def)
  let ?hash = "derive_transcript_hash X (s_session_id tgt0) (k_public a) (k_public b) inp (s_session_secret tgt0)"
  have len: "length ?hash = 32" by (simp add: derive_transcript_hash_def length_hkdf32 [OF X])
  have "handle_sas_confirm X m1 conf tgt0 = (tgt1, Ok (format_sas code))"
    using carries_valid [OF conf tgt(3)] now(1) tgt decode_32_encode [OF X len]
    by (simp add: handle_sas_confirm_def live Let_def ct_eq_def tgt1)
  moreover have "confirm_target_sas m2 tgt1 = (tgt1\<lparr>s_state := Transferring\<rparr>, Ok ())"
    using now(2) tgt by (simp add: confirm_target_sas_def live tgt1)
  moreover
  have "pe_id pay \<noteq> pe_id conf" by (rule carries_distinct [OF laws pay conf]) simp
  then have "handle_payload X m3 pay (tgt1\<lparr>s_state := Transferring\<rparr>) = (tgt3, Ok (pt, payload))"
    using carries_valid [OF pay, of "tgt1\<lparr>s_state := Transferring\<rparr>"] now(3) tgt
    by (simp add: handle_payload_def live tgt1 tgt3)
  moreover
  have "\<exists>comp. build_event X e4 (CompleteMsg True) tgt3 = Ok comp \<and> carries X b a comp (CompleteMsg True)"
    by (rule build_event_carries [OF ch laws]) (simp_all add: tgt3 tgt1 tgt)
  then obtain comp where comp: "build_event X e4 (CompleteMsg True) tgt3 = Ok comp"
      "carries X b a comp (CompleteMsg True)" by blast
  then have "send_complete X e4 m4 tgt3 = (tgt3\<lparr>s_state := Completed\<rparr>, Ok comp)"
    using now(4) tgt by (simp add: send_complete_def live tgt3 tgt1)
  ultimately show ?thesis using comp(2) by blast
qed

lemma honest_run:
  assumes laws: "pair_laws X a b" and fits: "256 + 6 * length payload \<le> 65535"
    and source_times: "\<forall>n \<in> {n1, n2, n3, n4}. n \<le> t0 + DEFAULT_TIMEOUT"
    and target_times: "\<forall>m \<in> {m1, m2, m3, m4}. m \<le> t1 + DEFAULT_TIMEOUT"
  shows "\<exists>tgt0 offer conf pay comp src tgt sas.
     new_target X e1 b t1 (snd (new_source X a secret t0 url)) = Ok (tgt0, offer)
     \<and> session_sas_code tgt0 = Some sas
     \<and> ptrace X [HandleOffer n1 offer, ConfirmSas e2 n2, SendPayload e3 n3 pt payload, HandleComplete n4 comp]
         (fst (new_source X a secret t0 url))
       = (src, [(HandleOffer n1 offer, OutSas sas), (ConfirmSas e2 n2, OutEvent (Some conf)),
                (SendPayload e3 n3 pt payload, OutEvent (Some pay)), (HandleComplete n4 comp, OutDone)])
     \<and> ptrace X [HandleSasConfirm m1 conf, ConfirmTargetSas m2, HandlePayload m3 pay, SendComplete e4 m4] tgt0
       = (tgt, [(HandleSasConfirm m1 conf, OutSas sas), (ConfirmTargetSas m2, OutDone),
                (HandlePayload m3 pay, OutPayload pt payload), (SendComplete e4 m4, OutEvent (Some comp))])
     \<and> s_state src = Completed \<and> s_state tgt = Completed"
proof -
  from laws obtain shared where shared: "ecdh X (k_secret a) (k_public b) = Ok shared"
      "ecdh X (k_secret b) (k_public a) = Ok shared" unfolding pair_laws_def by blast
  obtain code inp where sas: "derive_sas X shared secret = (code, inp)" by fastforce
  define qr where "qr = snd (new_source X a secret t0 url)"
  define src0 where "src0 = fst (new_source X a secret t0 url)"
  define tgt0 where "tgt0 = \<lparr>s_role = Target, s_state = Confirming, s_keys = b,
      s_session_secret = qr_session_secret qr, s_relay_urls = qr_relays qr, s_peer_pubkey = Some (k_public a),
      s_session_id = derive_session_id X (qr_session_secret qr), s_sas_code = Some code,
      s_sas_input = Some inp, s_processed_ids = {}, s_created_at = t1, s_timeout = DEFAULT_TIMEOUT\<rparr>"
  have qr: "qr_source_pubkey qr = k_public a" "qr_session_secret qr = secret"
    by (simp_all add: qr_def new_source_def)
  from new_target_honest [OF laws shared(2) sas [folded qr(2)] qr(1) tgt0_def, of e1]
  obtain offer where offer: "new_target X e1 b t1 qr = Ok (tgt0, offer)"
      "carries X b a offer (OfferMsg (hex_encode X (derive_session_id X secret)) 1)"
    by (auto simp: qr)
  define src1 where "src1 = record_event offer (src0\<lparr>s_peer_pubkey := Some (k_public b), s_sas_code := Some code,
                 s_sas_input := Some inp, s_state := Confirming\<rparr>)"
  from source_times have n: "n1 \<le> t0 + DEFAULT_TIMEOUT" "n2 \<le> t0 + DEFAULT_TIMEOUT"
      "n3 \<le> t0 + DEFAULT_TIMEOUT" "n4 \<le> t0 + DEFAULT_TIMEOUT" by simp_all
  from target_times have m: "m1 \<le> t1 + DEFAULT_TIMEOUT" "m2 \<le> t1 + DEFAULT_TIMEOUT"
      "m3 \<le> t1 + DEFAULT_TIMEOUT" "m4 \<le> t1 + DEFAULT_TIMEOUT" by simp_all
  from source_honest [OF laws shared(1) sas src0_def offer(2) n(1-3) fits src1_def, of e2 e3 pt]
  obtain conf pay where src: "handle_offer X n1 offer src0 = (src1, Ok (format_sas code))"
      "confirm_sas X e2 n2 src1 = (src1\<lparr>s_state := Transferring\<rparr>, Ok conf)"
      "send_payload X e3 n3 pt payload (src1\<lparr>s_state := Transferring\<rparr>)
        = (src1\<lparr>s_state := PayloadExchanged\<rparr>, Ok pay)"
    and conf: "carries X a b conf (SasConfirmMsg (hex_encode X (derive_transcript_hash X
        (derive_session_id X secret) (k_public a) (k_public b) inp secret)))"
    and pay: "carries X a b pay (PayloadMsg pt payload)" by blast
  define tgt1 where "tgt1 = record_event conf (tgt0\<lparr>s_state := AwaitingConfirmation\<rparr>)"
  define tgt3 where "tgt3 = record_event pay (tgt1\<lparr>s_state := PayloadExchanged\<rparr>)"
  have "s_role tgt0 = Target" "s_state tgt0 = Confirming" "s_keys tgt0 = b"
      "s_peer_pubkey tgt0 = Some (k_public a)" "s_sas_code tgt0 = Some code" "s_sas_input tgt0 = Some inp"
      "s_processed_ids tgt0 = {}" "s_created_at tgt0 = t1" "s_timeout tgt0 = DEFAULT_TIMEOUT"
    by (simp_all add: tgt0_def)
  from target_honest [OF laws this _ pay m tgt1_def tgt3_def, of e4] conf
  obtain comp where tgt: "handle_sas_confirm X m1 conf tgt0 = (tgt1, Ok (format_sas code))"
      "confirm_target_sas m2 tgt1 = (tgt1\<lparr>s_state := Transferring\<rparr>, Ok ())"
      "handle_payload X m3 pay (tgt1\<lparr>s_state := Transferring\<rparr>) = (tgt3, Ok (pt, payload))"
      "send_complete X e4 m4 tgt3 = (tgt3\<lparr>s_state := Completed\<rparr>, Ok comp)"
    and comp: "carries X b a comp (CompleteMsg True)"
    by (auto simp: tgt0_def qr)
  let ?src = "record_event comp (src1\<lparr>s_state := Completed\<rparr>)"
  have "pe_id comp \<noteq> pe_id offer" by (rule carries_distinct [OF laws comp offer(2)]) simp
  then have fin: "handle_complete X n4 comp (src1\<lparr>s_state := PayloadExchanged\<rparr>) = (?src, Ok ())"
    using carries_valid [OF comp, of "src1\<lparr>s_state := PayloadExchanged\<rparr>"] n(4)
    by (simp add: handle_complete_def is_expired_def src1_def src0_def new_source_def)
  show ?thesis
  proof (intro exI conjI)
    show "new_target X e1 b t1 (snd (new_source X a secret t0 url)) = Ok (tgt0, offer)"
      using offer(1) by (simp add: qr_def)
    show "session_sas_code tgt0 = Some (format_sas code)" by (simp add: session_sas_code_def tgt0_def)
    show "ptrace X [HandleOffer n1 offer, ConfirmSas e2 n2, SendPayload e3 n3 pt payload, HandleComplete n4 comp]
         (fst (new_source X a secret t0 url))
       = (?src, [(HandleOffer n1 offer, OutSas (format_sas code)), (ConfirmSas e2 n2, OutEvent (Some conf)),
                (SendPayload e3 n3 pt payload, OutEvent (Some pay)), (HandleComplete n4 comp, OutDone)])"
      by (simp add: src0_def [symmetric] src fin)
    show "ptrace X [HandleSasConfirm m1 conf, ConfirmTargetSas m2, HandlePayload m3 pay, SendComplete e4 m4] tgt0
       = (tgt3\<lparr>s_state := Completed\<rparr>, [(HandleSasConfirm m1 conf, OutSas (format_sas code)), (ConfirmTargetSas m2, OutDone),
                (HandlePayload m3 pay, OutPayload pt payload), (SendComplete e4 m4, OutEvent (Some comp))])"
      by (simp add: tgt)
  qed simp_all
qed

text \<open>
  C30 (an honest pairing delivers the payload). Under the documented laws of the called crates, for a payload that
  fits one encrypted message whatever its characters (at most 10879 bytes, as JSON may escape a byte to six), with
  both sides calling in order before the timeout: the target's offer, the source's confirmation and
  payload, and the target's completion are all accepted; both sides show the same short
  authentication string; the target obtains exactly the payload and both sessions end completed.
\<close>

theorem honest_pairing:
  assumes laws: "pair_laws X a b" and fits: "256 + 6 * length payload \<le> 65535"
    and source_times: "\<forall>n \<in> {n1, n2, n3, n4}. n \<le> t0 + DEFAULT_TIMEOUT"
    and target_times: "\<forall>m \<in> {m1, m2, m3, m4}. m \<le> t1 + DEFAULT_TIMEOUT"
  shows "\<exists>tgt0 offer conf pay comp src tgt sas.
     new_target X e1 b t1 (snd (new_source X a secret t0 url)) = Ok (tgt0, offer)
     \<and> session_sas_code tgt0 = Some sas
     \<and> ptrace X [HandleOffer n1 offer, ConfirmSas e2 n2, SendPayload e3 n3 pt payload, HandleComplete n4 comp]
         (fst (new_source X a secret t0 url))
       = (src, [(HandleOffer n1 offer, OutSas sas), (ConfirmSas e2 n2, OutEvent (Some conf)),
                (SendPayload e3 n3 pt payload, OutEvent (Some pay)), (HandleComplete n4 comp, OutDone)])
     \<and> ptrace X [HandleSasConfirm m1 conf, ConfirmTargetSas m2, HandlePayload m3 pay, SendComplete e4 m4] tgt0
       = (tgt, [(HandleSasConfirm m1 conf, OutSas sas), (ConfirmTargetSas m2, OutDone),
                (HandlePayload m3 pay, OutPayload pt payload), (SendComplete e4 m4, OutEvent (Some comp))])
     \<and> s_state src = Completed \<and> s_state tgt = Completed"
  by (rule honest_run [OF assms])

subsection \<open>Parameters that satisfy the laws\<close>

fun payload_char :: "payload_type \<Rightarrow> char" where
  "payload_char Nsec = CHR ''n''" | "payload_char Bunker = CHR ''b''"
| "payload_char Connect = CHR ''c''" | "payload_char Custom = CHR ''x''"

definition char_payload :: "char \<Rightarrow> payload_type" where
  "char_payload c = (if c = CHR ''n'' then Nsec else if c = CHR ''b'' then Bunker
     else if c = CHR ''c'' then Connect else Custom)"

fun reason_char :: "abort_reason \<Rightarrow> char" where
  "reason_char SasMismatchReason = CHR ''m''" | "reason_char UserDenied = CHR ''d''"
| "reason_char Timeout = CHR ''t''" | "reason_char ProtocolError = CHR ''p''"
| "reason_char UnknownReason = CHR ''u''"

definition char_reason :: "char \<Rightarrow> abort_reason" where
  "char_reason c = (if c = CHR ''m'' then SasMismatchReason else if c = CHR ''d'' then UserDenied
     else if c = CHR ''t'' then Timeout else if c = CHR ''p'' then ProtocolError else UnknownReason)"

fun demo_write :: "pairing_message \<Rightarrow> string" where
  "demo_write (OfferMsg session_id version) = CHR ''O'' # show_nat (unat version) @ CHR '':'' # session_id"
| "demo_write (SasConfirmMsg h) = CHR ''S'' # h"
| "demo_write (PayloadMsg pt p) = CHR ''P'' # payload_char pt # p"
| "demo_write (CompleteMsg b) = (if b then ''CT'' else ''CF'')"
| "demo_write (AbortMsg r) = [CHR ''A'', reason_char r]"

fun demo_read :: "string \<Rightarrow> string + pairing_message" where
  "demo_read [] = Err ''empty''"
| "demo_read (c # s) =
     (if c = CHR ''O'' then
        (case split_once CHR '':'' s of
           Some (v, session_id) \<Rightarrow> Ok (OfferMsg session_id (of_nat (read_digits v)))
         | None \<Rightarrow> Err ''offer'')
      else if c = CHR ''S'' then Ok (SasConfirmMsg s)
      else if c = CHR ''P'' then Ok (PayloadMsg (char_payload (hd s)) (tl s))
      else if c = CHR ''C'' then Ok (CompleteMsg (s = ''T''))
      else Ok (AbortMsg (char_reason (hd s))))"

definition demo_ext :: pair_ext where
  "demo_ext = codec_ext.extend demo_codec
     \<lparr>ecdh = (\<lambda>sk pk. Ok (map (\<lambda>(x, y). x + y) (zip sk pk))),
      nip44_encrypt = (\<lambda>sk pk pt nonce. Ok (replicate 132 CHR ''0'' @ pt)),
      nip44_decrypt = (\<lambda>sk pk c. Ok (drop 132 c)),
      json_write = (\<lambda>m. Ok (demo_write m)), json_read = demo_read,
      sign_event = (\<lambda>k kind content tags ts. Ok \<lparr>pe_id = ascii content, pe_pubkey = k_public k,
        pe_created_at = ts, pe_kind = kind, pe_tags = tags, pe_content = content\<rparr>),
      verify_event = (\<lambda>ev. if pe_id ev = ascii (pe_content ev) then Ok () else Err ''id'')\<rparr>"

lemma ascii_inj: "ascii s = ascii t \<Longrightarrow> s = t"
proof -
  have "char_of (unat (of_nat (of_char c) :: u8)) = c" for c
    by (simp add: unat_of_nat take_bit_eq_mod)
  then have inv: "map (\<lambda>b. char_of (unat b)) (ascii s) = s" for s by (simp add: ascii_def comp_def)
  assume "ascii s = ascii t"
  then show "s = t" using inv by metis
qed

lemma demo_read_write: "demo_read (demo_write m) = Ok m"
proof (cases m)
  case (OfferMsg session_id version)
  have "CHR '':'' \<notin> set (show_nat (unat version))"
    using show_nat_digits [of "CHR '':''" "unat version"] by (auto simp: is_digit_def)
  then show ?thesis by (simp add: OfferMsg)
next
  case (PayloadMsg pt p)
  then show ?thesis by (cases pt) (simp_all add: char_payload_def)
next
  case (AbortMsg r)
  then show ?thesis by (cases r) (simp_all add: char_reason_def)
qed simp_all

lemma demo_write_length: "length (demo_write m) \<le> 256 + 6 * text_length m"
proof (cases m)
  case (OfferMsg session_id version)
  have "unat version < 2 ^ 32" using unsigned_less [of version] by simp
  then have "length (show_nat (unat version)) \<le> 10" by (intro length_show_nat) simp_all
  then show ?thesis by (simp add: OfferMsg)
qed simp_all

lemma demo_pair_laws: "pair_laws demo_ext (demo_keys 1) (demo_keys 2)"
proof -
  have codec: "codec_laws demo_ext"
    using demo_codec_laws by (simp add: codec_laws_def demo_ext_def demo_codec_def codec_ext.extend_def)
  have channel: "channel_laws demo_ext a b" for a b
    by (simp add: channel_laws_def demo_ext_def codec_ext.extend_def)
  have json: "\<exists>t. json_write demo_ext m = Ok t \<and> t \<noteq> [] \<and> length t \<le> 256 + 6 * text_length m
      \<and> json_read demo_ext t = Ok m" for m
    using demo_write_length [of m] demo_read_write [of m]
    by (cases m) (simp_all add: demo_ext_def codec_ext.extend_def)
  have sign: "\<exists>ev. sign_event demo_ext k kind content tags ts = Ok ev
      \<and> verify_event demo_ext ev = Ok () \<and> pe_pubkey ev = k_public k \<and> pe_kind ev = kind
      \<and> pe_content ev = content \<and> pe_tags ev = tags" for k kind content tags ts
    by (simp add: demo_ext_def codec_ext.extend_def)
  have ids: "pe_content ev = pe_content ev'"
    if "verify_event demo_ext ev = Ok ()" "verify_event demo_ext ev' = Ok ()" "pe_id ev = pe_id ev'" for ev ev'
    using that by (auto simp: demo_ext_def codec_ext.extend_def split: if_splits intro: ascii_inj)
  have "\<exists>shared. ecdh demo_ext (k_secret (demo_keys 1)) (k_public (demo_keys 2)) = Ok shared
      \<and> ecdh demo_ext (k_secret (demo_keys 2)) (k_public (demo_keys 1)) = Ok shared"
    by (simp add: demo_ext_def codec_ext.extend_def demo_keys_def zip_replicate add.commute)
  with codec channel json sign ids show ?thesis unfolding pair_laws_def by blast
qed

definition demo_env :: build_env where
  "demo_env = \<lparr>env_now = 1000, env_jitter = 40, env_nonce = []\<rparr>"

theorem honest_pairing_witness:
  "\<exists>tgt0 offer conf pay comp src tgt sas.
     new_target demo_ext demo_env (demo_keys 2) 5
       (snd (new_source demo_ext (demo_keys 1) [7] 0 ''wss://r'')) = Ok (tgt0, offer)
     \<and> session_sas_code tgt0 = Some sas
     \<and> ptrace demo_ext [HandleOffer 6 offer, ConfirmSas demo_env 7,
           SendPayload demo_env 8 Nsec ''nsec1abc'', HandleComplete 9 comp]
         (fst (new_source demo_ext (demo_keys 1) [7] 0 ''wss://r''))
       = (src, [(HandleOffer 6 offer, OutSas sas), (ConfirmSas demo_env 7, OutEvent (Some conf)),
                (SendPayload demo_env 8 Nsec ''nsec1abc'', OutEvent (Some pay)), (HandleComplete 9 comp, OutDone)])
     \<and> ptrace demo_ext [HandleSasConfirm 6 conf, ConfirmTargetSas 7, HandlePayload 8 pay, SendComplete demo_env 9] tgt0
       = (tgt, [(HandleSasConfirm 6 conf, OutSas sas), (ConfirmTargetSas 7, OutDone),
                (HandlePayload 8 pay, OutPayload Nsec ''nsec1abc''), (SendComplete demo_env 9, OutEvent (Some comp))])
     \<and> s_state src = Completed \<and> s_state tgt = Completed"
  by (rule honest_pairing [OF demo_pair_laws]) (simp_all add: DEFAULT_TIMEOUT_def)

theorem session_order_witness:
  "\<exists>ops s tr. ptrace demo_ext ops (fst (new_source demo_ext (demo_keys 1) [7] 0 ''wss://r'')) = (s, tr)
     \<and> s_state s = Completed \<and> milestones tr = [Offered, SasConfirmed, PayloadSent, CompleteReceived]"
proof -
  let ?src = "fst (new_source demo_ext (demo_keys 1) [7] 0 ''wss://r'')"
  have "256 + 6 * length ''nsec1abc'' \<le> 65535" by simp
  moreover have "\<forall>n \<in> {6, 7, 8, 9}. n \<le> 0 + DEFAULT_TIMEOUT" "\<forall>m \<in> {6, 7, 8, 9}. m \<le> 5 + DEFAULT_TIMEOUT"
    by (simp_all add: DEFAULT_TIMEOUT_def)
  ultimately obtain ops s tr where run: "ptrace demo_ext ops ?src = (s, tr)" "s_state s = Completed"
    using honest_run [OF demo_pair_laws] by metis
  moreover have "fresh_session demo_ext ?src" "s_role ?src = Source" by (auto simp: fresh_session_def new_source_def)
  ultimately show ?thesis using session_order [OF _ run(1)] by fastforce
qed

definition demo_abort :: pair_event where
  "demo_abort = \<lparr>pe_id = ascii (replicate 132 CHR ''0'' @ ''At''), pe_pubkey = [], pe_created_at = 0,
     pe_kind = PAIRING_KIND, pe_tags = [[''p'', hex_encode demo_ext (k_public (demo_keys 1))]],
     pe_content = replicate 132 CHR ''0'' @ ''At''\<rparr>"

definition demo_locked :: session where
  "demo_locked = demo_source\<lparr>s_state := Confirming, s_peer_pubkey := Some []\<rparr>"

lemma demo_abort_accepted:
  "pair_step demo_ext (HandleAbort demo_abort) demo_locked
     = (record_event demo_abort (demo_locked\<lparr>s_state := Aborted\<rparr>), OutAborted Timeout)"
proof -
  have "verify_event demo_ext demo_abort = Ok ()"
    by (simp add: demo_ext_def codec_ext.extend_def demo_abort_def)
  moreover have "decrypt_message demo_ext demo_abort demo_locked = Ok (AbortMsg Timeout)"
    by (simp add: decrypt_message_def demo_ext_def codec_ext.extend_def char_reason_def Let_def demo_abort_def)
  ultimately show ?thesis
    by (simp add: handle_abort_def expect_non_terminal_def validate_event_from_peer_def
        validate_event_basics_def has_p_tag_def demo_locked_def demo_source_def new_source_def demo_abort_def)
qed

theorem session_no_replay_witness:
  "\<exists>e. pair_step demo_ext (HandlePayload 3 demo_abort)
          (fst (ptrace demo_ext [ConfirmTargetSas 1] (record_event demo_abort (demo_locked\<lparr>s_state := Aborted\<rparr>))))
        = (fst (ptrace demo_ext [ConfirmTargetSas 1] (record_event demo_abort (demo_locked\<lparr>s_state := Aborted\<rparr>))), OutErr e)"
  by (rule session_no_replay [OF _ demo_abort_accepted, of demo_abort _ demo_abort]) simp_all

end
