(* ===== verification/Gossip.thy ===== *)
theory Gossip
  imports Prelude "HOL-Library.Multiset" "HOL-Library.List_Lexorder" "HOL-Library.Char_ord"
begin

text \<open>
  Relay-mesh gossip and membership: \<open>crates/buzz-relay-mesh/src/gossip.rs\<close> (digest/delta exchange and
  the heartbeat window), \<open>membership.rs\<close> (the peer table) and \<open>status.rs\<close>. Both tables keep the
  record of the highest version per runtime; the interface \<open>lww_table\<close> states that contract and is
  interpreted on both. Runtime ids are their 32 bytes, \<open>f32\<close> and \<open>f64\<close> values are bit patterns that
  the code only copies, times are nanoseconds since the epoch. Hex rendering, the wire codec and
  attestation checks are parameters. The floating-point suspicion level \<open>phi_at\<close> is a parameter of the
  functions that read it.
\<close>

type_synonym runtime_id = "u8 list"

section \<open>Tables that keep the newest record\<close>

text \<open>
  \<open>look\<close> reads the table, \<open>accept\<close> offers it a record, \<open>admits\<close> says which runtimes the table
  takes records for at all.
\<close>

locale lww_table =
  fixes rid :: "'r \<Rightarrow> 'i"
    and ver :: "'r \<Rightarrow> 'v::linorder"
    and admits :: "'s \<Rightarrow> 'i \<Rightarrow> bool"
    and look :: "'s \<Rightarrow> 'i \<Rightarrow> 'r option"
    and accept :: "'r \<Rightarrow> 's \<Rightarrow> 's"
  assumes look_accept: "look (accept r s) i =
      (if i = rid r \<and> admits s i \<and> (case look s i of None \<Rightarrow> True | Some e \<Rightarrow> ver e < ver r)
       then Some r else look s i)"
    and admits_accept [simp]: "admits (accept r s) = admits s"
begin

definition known :: "'s \<Rightarrow> 'i \<Rightarrow> 'v option" where
  "known s i = map_option ver (look s i)"

lemma admits_fold [simp]: "admits (fold accept rs s) = admits s"
  by (induction rs arbitrary: s) simp_all

text \<open>Records that agree whenever their runtime and version agree.\<close>

definition consistent :: "'r set \<Rightarrow> bool" where
  "consistent R \<longleftrightarrow> (\<forall>r \<in> R. \<forall>r' \<in> R. rid r = rid r' \<and> ver r = ver r' \<longrightarrow> r = r')"

definition best :: "'s \<Rightarrow> 'r set \<Rightarrow> 'i \<Rightarrow> 'r \<Rightarrow> bool" where
  "best s R i r \<longleftrightarrow>
     (look s i = Some r \<or> (r \<in> R \<and> rid r = i \<and> admits s i))
     \<and> (\<forall>e. look s i = Some e \<longrightarrow> ver e \<le> ver r)
     \<and> (admits s i \<longrightarrow> (\<forall>r' \<in> R. rid r' = i \<longrightarrow> ver r' \<le> ver r))"

lemma fold_accept_best:
  "(case look (fold accept rs s) i of
      None \<Rightarrow> look s i = None \<and> (admits s i \<longrightarrow> (\<forall>r \<in> set rs. rid r \<noteq> i))
    | Some r \<Rightarrow> best s (set rs) i r)"
proof (induction rs rule: rev_induct)
  case Nil
  then show ?case by (auto simp: best_def split: option.split)
next
  case (snoc r rs)
  let ?s = "fold accept rs s"
  have step: "look (fold accept (rs @ [r]) s) i =
      (if i = rid r \<and> admits s i \<and> (case look ?s i of None \<Rightarrow> True | Some e \<Rightarrow> ver e < ver r)
       then Some r else look ?s i)"
    by (simp add: look_accept)
  show ?case
  proof (cases "look ?s i")
    case None
    with snoc.IH have base: "look s i = None" "admits s i \<Longrightarrow> \<forall>r \<in> set rs. rid r \<noteq> i" by auto
    show ?thesis unfolding step None using base by (auto simp: best_def)
  next
    case (Some e)
    with snoc.IH have base: "best s (set rs) i e" by simp
    show ?thesis
    proof (cases "i = rid r \<and> admits s i \<and> ver e < ver r")
      case True
      with base have "best s (set (rs @ [r])) i r"
        by (fastforce simp: best_def intro: less_imp_le dest: order.strict_trans1)
      then show ?thesis unfolding step Some using True by auto
    next
      case False
      with base have "best s (set (rs @ [r])) i e" by (auto simp: best_def)
      then show ?thesis unfolding step Some using False by auto
    qed
  qed
qed

lemma known_mono: "look s i = Some e \<Longrightarrow> \<exists>r. look (fold accept rs s) i = Some r \<and> ver e \<le> ver r"
  using fold_accept_best [where rs = "rs" and s = s and i = i] by (auto simp: best_def split: option.splits)

lemma fold_accept_from: "look (fold accept rs s) i = Some r \<Longrightarrow>
    look s i = Some r \<or> (r \<in> set rs \<and> rid r = i \<and> admits s i)"
  using fold_accept_best [where rs = "rs" and s = s and i = i] by (auto simp: best_def)

lemma order_irrelevant:
  assumes "set rs = set rs'" and cons: "consistent (set rs \<union> {e. \<exists>i. look s i = Some e})"
    and keyed: "\<And>i e. look s i = Some e \<Longrightarrow> rid e = i"
  shows "look (fold accept rs s) i = look (fold accept rs' s) i"
proof -
  have same: "r = r'" if "best s (set rs) i r" "best s (set rs) i r'" for r r'
  proof -
    have "ver r' \<le> ver r" if "best s (set rs) i r" "best s (set rs) i r'" for r r'
      using that unfolding best_def by blast
    with that have "ver r = ver r'" by (intro order.antisym) blast+
    moreover have "rid r = i" "rid r' = i" using that keyed by (auto simp: best_def)
    moreover have "r \<in> set rs \<union> {e. \<exists>i. look s i = Some e}" "r' \<in> set rs \<union> {e. \<exists>i. look s i = Some e}"
      using that by (auto simp: best_def)
    ultimately show "r = r'" using cons unfolding consistent_def by simp
  qed
  have none: "(look (fold accept xs s) i = None) = (look s i = None \<and> (admits s i \<longrightarrow> (\<forall>r \<in> set xs. rid r \<noteq> i)))" for xs
    using fold_accept_best [where rs = "xs" and s = s and i = i] by (auto simp: best_def split: option.splits)
  show ?thesis
  proof (cases "look (fold accept rs s) i")
    case None
    then show ?thesis using none [where xs = rs] none [where xs = rs'] assms(1) by simp
  next
    case (Some r)
    then obtain r' where r': "look (fold accept rs' s) i = Some r'"
      using none [where xs = rs] none [where xs = rs'] assms(1) by (cases "look (fold accept rs' s) i") auto
    from fold_accept_best [where rs = "rs" and s = s and i = i] Some have "best s (set rs) i r" by simp
    moreover from fold_accept_best [where rs = "rs'" and s = s and i = i] r' assms(1) have "best s (set rs) i r'" by simp
    ultimately show ?thesis using same Some r' by simp
  qed
qed

end

section \<open>Gossip records and state\<close>

record gossip_record =
  gr_runtime_id :: runtime_id
  gr_endpoint_addrs :: "string list"
  gr_proto_version :: nat
  gr_load :: u32
  gr_draining :: bool
  gr_capabilities :: "string list"
  gr_version :: u64
  gr_heartbeat_millis :: u64

record gossip_digest_entry =
  ge_runtime_id :: runtime_id
  ge_version :: u64

datatype gossip_message =
    Digest u8 "gossip_digest_entry list"
  | Delta u8 "gossip_record list"

datatype mesh_error = Encode string | Decode string | UnknownPayloadVersion u8 | Attestation string

definition GOSSIP_PAYLOAD_VERSION :: u8 where "GOSSIP_PAYLOAD_VERSION = 1"

text \<open>
  The hex rendering of runtime ids, the \<open>postcard\<close> codec, the parse-and-render of a relay public key
  and the Schnorr check of key, signature and signed text (parsing of the signature included).
\<close>

record mesh_ext =
  id_hex :: "runtime_id \<Rightarrow> string"
  postcard_write :: "gossip_message \<Rightarrow> string + u8 list"
  postcard_read :: "u8 list \<Rightarrow> string + gossip_message"
  relay_key_hex :: "string \<Rightarrow> string + string"
  schnorr_verify :: "string \<Rightarrow> string \<Rightarrow> string \<Rightarrow> string + unit"

definition new_gossip_record :: "u64 \<Rightarrow> runtime_id \<Rightarrow> string list \<Rightarrow> nat \<Rightarrow> gossip_record" where
  "new_gossip_record now runtime_id endpoint_addrs proto_version =
     \<lparr>gr_runtime_id = runtime_id, gr_endpoint_addrs = endpoint_addrs, gr_proto_version = proto_version,
      gr_load = 0, gr_draining = False, gr_capabilities = [], gr_version = 1,
      gr_heartbeat_millis = now\<rparr>"

definition encode_message :: "'x mesh_ext_scheme \<Rightarrow> gossip_message \<Rightarrow> mesh_error + u8 list" where
  "encode_message X message = (case postcard_write X message of Inl e \<Rightarrow> Err (Encode e) | Inr b \<Rightarrow> Ok b)"

definition decode_message :: "'x mesh_ext_scheme \<Rightarrow> u8 list \<Rightarrow> mesh_error + gossip_message" where
  "decode_message X bytes =
     (case postcard_read X bytes of
        Inl e \<Rightarrow> Err (Decode e)
      | Inr message \<Rightarrow>
          (let version = (case message of Digest v _ \<Rightarrow> v | Delta v _ \<Rightarrow> v)
           in if version \<noteq> GOSSIP_PAYLOAD_VERSION then Err (UnknownPayloadVersion version)
              else Ok message))"

text \<open>\<open>GossipState\<close> is its map of records.\<close>

type_synonym gossip_state = "(runtime_id, gossip_record) hmap"

definition new_gossip_state :: "gossip_record \<Rightarrow> gossip_state" where
  "new_gossip_state local_record = AList.update (gr_runtime_id local_record) local_record []"

definition gossip_update_local ::
  "runtime_id \<Rightarrow> (gossip_record \<Rightarrow> gossip_record) \<Rightarrow> u64 \<Rightarrow> gossip_state
     \<Rightarrow> gossip_state \<times> gossip_record option" where
  "gossip_update_local runtime_id update now s =
     (case map_of s runtime_id of
        None \<Rightarrow> (s, None)
      | Some record \<Rightarrow>
          (let r1 = update record;
               r2 = r1\<lparr>gr_version := sat_succ (gr_version r1), gr_heartbeat_millis := now\<rparr>
           in (AList.update runtime_id r2 s, Some r2)))"

definition digest_of :: "'x mesh_ext_scheme \<Rightarrow> gossip_record list \<Rightarrow> gossip_message" where
  "digest_of X records =
     Digest GOSSIP_PAYLOAD_VERSION
       (sort_key (\<lambda>e. id_hex X (ge_runtime_id e))
          (map (\<lambda>r. \<lparr>ge_runtime_id = gr_runtime_id r, ge_version = gr_version r\<rparr>) records))"

text \<open>Collecting entries into a \<open>HashMap\<close> keeps the last entry of a key.\<close>

definition remote_versions :: "gossip_digest_entry list \<Rightarrow> runtime_id \<Rightarrow> u64 option" where
  "remote_versions entries = map_of (rev (map (\<lambda>e. (ge_runtime_id e, ge_version e)) entries))"

definition delta_records ::
  "'x mesh_ext_scheme \<Rightarrow> gossip_digest_entry list \<Rightarrow> gossip_record list \<Rightarrow> gossip_record list" where
  "delta_records X entries records =
     sort_key (\<lambda>r. id_hex X (gr_runtime_id r))
       (filter (\<lambda>r. case remote_versions entries (gr_runtime_id r) of
                      None \<Rightarrow> True | Some remote \<Rightarrow> remote < gr_version r) records)"

definition gossip_digest :: "'x mesh_ext_scheme \<Rightarrow> gossip_state \<Rightarrow> gossip_message" where
  "gossip_digest X s = digest_of X (map snd s)"

definition gossip_delta_for ::
  "'x mesh_ext_scheme \<Rightarrow> gossip_digest_entry list \<Rightarrow> gossip_state \<Rightarrow> gossip_message" where
  "gossip_delta_for X entries s = Delta GOSSIP_PAYLOAD_VERSION (delta_records X entries (map snd s))"

text \<open>One round of the loop of \<open>apply_delta\<close>.\<close>

definition should_apply :: "gossip_record \<Rightarrow> gossip_state \<Rightarrow> bool" where
  "should_apply record s =
     (case map_of s (gr_runtime_id record) of
        None \<Rightarrow> True | Some existing \<Rightarrow> gr_version record > gr_version existing)"

definition apply_record :: "gossip_record \<Rightarrow> gossip_state \<Rightarrow> gossip_state" where
  "apply_record record s =
     (if should_apply record s then AList.update (gr_runtime_id record) record s else s)"

fun apply_delta :: "gossip_record list \<Rightarrow> gossip_state \<Rightarrow> gossip_state \<times> runtime_id list" where
  "apply_delta [] s = (s, [])"
| "apply_delta (record # records) s =
     (let (s', changed) = apply_delta records (apply_record record s)
      in (s', if should_apply record s then gr_runtime_id record # changed else changed))"

section \<open>The heartbeat window\<close>

record phi_accrual =
  pa_samples :: "nat list"
  pa_last_heartbeat :: "nat option"
  pa_max_samples :: nat

definition new_phi_accrual :: "nat \<Rightarrow> phi_accrual" where
  "new_phi_accrual max_samples =
     \<lparr>pa_samples = [], pa_last_heartbeat = None, pa_max_samples = max max_samples 1\<rparr>"

definition default_phi_accrual :: phi_accrual where
  "default_phi_accrual = new_phi_accrual 100"

definition observe :: "nat \<Rightarrow> phi_accrual \<Rightarrow> phi_accrual" where
  "observe t p =
     (let samples = (case pa_last_heartbeat p of
                       None \<Rightarrow> pa_samples p
                     | Some prev \<Rightarrow>
                         if prev \<le> t \<and> t - prev \<noteq> 0 then
                           (let grown = pa_samples p @ [t - prev]
                            in if length grown > pa_max_samples p then tl grown else grown)
                         else pa_samples p)
      in p\<lparr>pa_samples := samples, pa_last_heartbeat := Some t\<rparr>)"

section \<open>Membership\<close>

datatype connection_state = Disconnected | Connecting | Connected | Suspect

record mesh_peer_counters =
  mc_runtime_id :: string
  mc_streams_opened :: u64
  mc_streams_received :: u64
  mc_datagrams_sent :: u64
  mc_datagrams_received :: u64
  mc_gossip_frames_sent :: u64
  mc_gossip_frames_received :: u64
  mc_stale_generation_rejections :: u64

definition zero_counters :: "string \<Rightarrow> mesh_peer_counters" where
  "zero_counters i =
     \<lparr>mc_runtime_id = i, mc_streams_opened = 0, mc_streams_received = 0, mc_datagrams_sent = 0,
      mc_datagrams_received = 0, mc_gossip_frames_sent = 0, mc_gossip_frames_received = 0,
      mc_stale_generation_rejections = 0\<rparr>"

record peer_state =
  ps_record :: gossip_record
  ps_phi :: phi_accrual
  ps_connection_state :: connection_state
  ps_counters :: mesh_peer_counters

record membership =
  mm_local_runtime_id :: runtime_id
  mm_local_record :: gossip_record
  mm_peers :: "(runtime_id, peer_state) hmap"
  mm_draining :: bool
  mm_stale_generation_rejections :: u64
  mm_foreign_relay_rejections :: u64
  mm_expected_relay_pubkey :: "string option"

definition new_membership :: "gossip_record \<Rightarrow> membership" where
  "new_membership local_record =
     \<lparr>mm_local_runtime_id = gr_runtime_id local_record, mm_local_record = local_record, mm_peers = [],
      mm_draining = False, mm_stale_generation_rejections = 0, mm_foreign_relay_rejections = 0,
      mm_expected_relay_pubkey = None\<rparr>"

definition with_expected_relay_pubkey :: "string \<Rightarrow> membership \<Rightarrow> membership" where
  "with_expected_relay_pubkey pubkey m = m\<lparr>mm_expected_relay_pubkey := Some pubkey\<rparr>"

record ready_record =
  rr_runtime_id :: runtime_id
  rr_runtime_pubkey :: string
  rr_relay_pubkey :: string
  rr_relay_sig :: string
  rr_endpoint_addrs :: "string list"
  rr_proto_version :: nat
  rr_capabilities :: "string list"

definition attestation_preimage :: "'x mesh_ext_scheme \<Rightarrow> runtime_id \<Rightarrow> string \<Rightarrow> string" where
  "attestation_preimage X runtime_id relay_pubkey =
     ''buzz-relay-mesh-ready-v1'' @ [CHR 0x0A] @ ''runtime_pubkey='' @ id_hex X runtime_id
     @ [CHR 0x0A] @ ''relay_pubkey='' @ relay_pubkey"

definition verify_relay_sig ::
  "'x mesh_ext_scheme \<Rightarrow> runtime_id \<Rightarrow> string \<Rightarrow> string \<Rightarrow> mesh_error + unit" where
  "verify_relay_sig X runtime_id relay_pubkey relay_sig =
     (case relay_key_hex X relay_pubkey of
        Inl e \<Rightarrow> Err (Attestation (''ready registry attestation invalid relay_pubkey: '' @ e))
      | Inr key \<Rightarrow>
          (case schnorr_verify X key relay_sig (attestation_preimage X runtime_id key) of
             Inl e \<Rightarrow> Err (Attestation e) | Inr _ \<Rightarrow> Ok ()))"

definition verify_attestation :: "'x mesh_ext_scheme \<Rightarrow> ready_record \<Rightarrow> mesh_error + unit" where
  "verify_attestation X ready =
     (if rr_runtime_pubkey ready \<noteq> id_hex X (rr_runtime_id ready)
      then Err (Attestation (''ready registry runtime_id/runtime_pubkey mismatch: ''
                  @ id_hex X (rr_runtime_id ready) @ '' != '' @ rr_runtime_pubkey ready))
      else verify_relay_sig X (rr_runtime_id ready) (rr_relay_pubkey ready) (rr_relay_sig ready))"

definition apply_gossip_record ::
  "'x mesh_ext_scheme \<Rightarrow> gossip_record \<Rightarrow> membership \<Rightarrow> membership \<times> bool" where
  "apply_gossip_record X record m =
     (if gr_runtime_id record = mm_local_runtime_id m then (m, False)
      else (let heartbeat = unat (gr_heartbeat_millis record) * 10 ^ 6
            in case map_of (mm_peers m) (gr_runtime_id record) of
                 Some peer \<Rightarrow>
                   if gr_version record \<le> gr_version (ps_record peer) then (m, False)
                   else (m\<lparr>mm_peers := AList.update (gr_runtime_id record)
                            (peer\<lparr>ps_record := record, ps_connection_state := Connected,
                                  ps_phi := observe heartbeat (ps_phi peer)\<rparr>) (mm_peers m)\<rparr>, True)
               | None \<Rightarrow>
                   (m\<lparr>mm_peers := AList.update (gr_runtime_id record)
                        \<lparr>ps_record = record, ps_phi = observe heartbeat default_phi_accrual,
                         ps_connection_state = Connected,
                         ps_counters = zero_counters (id_hex X (gr_runtime_id record))\<rparr> (mm_peers m)\<rparr>, True)))"

definition apply_ready_record ::
  "'x mesh_ext_scheme \<Rightarrow> u64
     \<Rightarrow> ready_record \<Rightarrow> membership \<Rightarrow> membership" where
  "apply_ready_record X now ready m =
     (if rr_runtime_id ready = mm_local_runtime_id m then m
      else if mm_expected_relay_pubkey m \<noteq> Some (rr_relay_pubkey ready) then
        m\<lparr>mm_foreign_relay_rejections := mm_foreign_relay_rejections m + 1\<rparr>
      else (case verify_attestation X ready of
              Inl _ \<Rightarrow> m
            | Inr _ \<Rightarrow>
                fst (apply_gossip_record X
                  ((new_gossip_record now (rr_runtime_id ready) (rr_endpoint_addrs ready) (rr_proto_version ready))
                     \<lparr>gr_capabilities := rr_capabilities ready\<rparr>) m)))"

definition apply_ready_records ::
  "'x mesh_ext_scheme \<Rightarrow> u64
     \<Rightarrow> ready_record list \<Rightarrow> membership \<Rightarrow> membership" where
  "apply_ready_records X now records m = fold (apply_ready_record X now) records m"

definition mark_connection_state :: "runtime_id \<Rightarrow> connection_state \<Rightarrow> membership \<Rightarrow> membership" where
  "mark_connection_state runtime_id state m =
     (case map_of (mm_peers m) runtime_id of
        None \<Rightarrow> m
      | Some peer \<Rightarrow> m\<lparr>mm_peers := AList.update runtime_id (peer\<lparr>ps_connection_state := state\<rparr>) (mm_peers m)\<rparr>)"

definition update_local ::
  "(gossip_record \<Rightarrow> gossip_record) \<Rightarrow> u64 \<Rightarrow> membership \<Rightarrow> membership \<times> gossip_record" where
  "update_local update now m =
     (let r1 = update (mm_local_record m);
          r2 = r1\<lparr>gr_version := sat_succ (gr_version r1), gr_heartbeat_millis := now\<rparr>
      in (m\<lparr>mm_local_record := r2\<rparr>, r2))"

definition has_peer :: "runtime_id \<Rightarrow> membership \<Rightarrow> bool" where
  "has_peer runtime_id m \<longleftrightarrow> map_of (mm_peers m) runtime_id \<noteq> None"

definition all_records :: "membership \<Rightarrow> gossip_record list" where
  "all_records m = map (\<lambda>kv. ps_record (snd kv)) (mm_peers m) @ [mm_local_record m]"

definition membership_digest :: "'x mesh_ext_scheme \<Rightarrow> membership \<Rightarrow> gossip_message" where
  "membership_digest X m = digest_of X (all_records m)"

definition membership_delta_for ::
  "'x mesh_ext_scheme \<Rightarrow> gossip_digest_entry list \<Rightarrow> membership \<Rightarrow> gossip_message" where
  "membership_delta_for X entries m = Delta GOSSIP_PAYLOAD_VERSION (delta_records X entries (all_records m))"

definition update_peer_counters ::
  "runtime_id \<Rightarrow> (mesh_peer_counters \<Rightarrow> mesh_peer_counters) \<Rightarrow> membership \<Rightarrow> membership" where
  "update_peer_counters runtime_id update m =
     (case map_of (mm_peers m) runtime_id of
        None \<Rightarrow> m
      | Some peer \<Rightarrow>
          m\<lparr>mm_peers := AList.update runtime_id (peer\<lparr>ps_counters := update (ps_counters peer)\<rparr>) (mm_peers m)\<rparr>)"

definition record_stream_opened :: "runtime_id \<Rightarrow> membership \<Rightarrow> membership" where
  "record_stream_opened i = update_peer_counters i
     (\<lambda>c. c\<lparr>mc_streams_opened := sat_succ (mc_streams_opened c)\<rparr>)"

definition record_stream_received :: "runtime_id \<Rightarrow> membership \<Rightarrow> membership" where
  "record_stream_received i = update_peer_counters i
     (\<lambda>c. c\<lparr>mc_streams_received := sat_succ (mc_streams_received c)\<rparr>)"

definition record_datagram_sent :: "runtime_id \<Rightarrow> membership \<Rightarrow> membership" where
  "record_datagram_sent i = update_peer_counters i
     (\<lambda>c. c\<lparr>mc_datagrams_sent := sat_succ (mc_datagrams_sent c)\<rparr>)"

definition record_datagram_received :: "runtime_id \<Rightarrow> membership \<Rightarrow> membership" where
  "record_datagram_received i = update_peer_counters i
     (\<lambda>c. c\<lparr>mc_datagrams_received := sat_succ (mc_datagrams_received c)\<rparr>)"

definition record_gossip_frame_sent :: "runtime_id \<Rightarrow> membership \<Rightarrow> membership" where
  "record_gossip_frame_sent i = update_peer_counters i
     (\<lambda>c. c\<lparr>mc_gossip_frames_sent := sat_succ (mc_gossip_frames_sent c)\<rparr>)"

definition record_gossip_frame_received :: "runtime_id \<Rightarrow> membership \<Rightarrow> membership" where
  "record_gossip_frame_received i = update_peer_counters i
     (\<lambda>c. c\<lparr>mc_gossip_frames_received := sat_succ (mc_gossip_frames_received c)\<rparr>)"

text \<open>\<open>fetch_add\<close> wraps, the per-peer counter saturates.\<close>

definition record_stale_generation_rejection :: "runtime_id option \<Rightarrow> membership \<Rightarrow> membership" where
  "record_stale_generation_rejection i m =
     (let m1 = m\<lparr>mm_stale_generation_rejections := mm_stale_generation_rejections m + 1\<rparr>
      in case i of
           None \<Rightarrow> m1
         | Some runtime_id \<Rightarrow>
             update_peer_counters runtime_id
               (\<lambda>c. c\<lparr>mc_stale_generation_rejections := sat_succ (mc_stale_generation_rejections c)\<rparr>) m1)"

definition begin_drain :: "u64 \<Rightarrow> membership \<Rightarrow> membership" where
  "begin_drain now m = fst (update_local (\<lambda>r. r\<lparr>gr_draining := True\<rparr>) now (m\<lparr>mm_draining := True\<rparr>))"

record peer_info =
  pi_runtime_id :: runtime_id
  pi_draining :: bool
  pi_phi :: "u64 option"
  pi_load :: u32

record mesh_peer_status =
  st_runtime_id :: string
  st_endpoint_addrs :: "string list"
  st_proto_version :: nat
  st_draining :: bool
  st_connection_state :: connection_state
  st_phi :: "u64 option"
  st_load :: u32
  st_record_version :: u64
  st_last_heartbeat_millis :: u64
  st_counters :: mesh_peer_counters

record mesh_status =
  ms_enabled :: bool
  ms_local_runtime_id :: string
  ms_draining :: bool
  ms_peer_count :: nat
  ms_peers :: "mesh_peer_status list"
  ms_stale_generation_rejections :: u64
  ms_foreign_relay_rejections :: u64

text \<open>\<open>phi\<close> is \<open>phi_at\<close> at the current time, \<open>over\<close> the comparison with the suspicion threshold.\<close>

definition peers_view :: "(phi_accrual \<Rightarrow> u64 option) \<Rightarrow> (u64 \<Rightarrow> bool) \<Rightarrow> membership \<Rightarrow> peer_info list" where
  "peers_view phi over m =
     List.map_filter (\<lambda>(i, peer).
       if (case phi (ps_phi peer) of None \<Rightarrow> False | Some p \<Rightarrow> over p) then None
       else Some \<lparr>pi_runtime_id = gr_runtime_id (ps_record peer), pi_draining = gr_draining (ps_record peer),
                  pi_phi = phi (ps_phi peer), pi_load = gr_load (ps_record peer)\<rparr>) (mm_peers m)"

definition peer_status ::
  "'x mesh_ext_scheme \<Rightarrow> (phi_accrual \<Rightarrow> u64 option) \<Rightarrow> (u64 \<Rightarrow> bool) \<Rightarrow> peer_state \<Rightarrow> mesh_peer_status" where
  "peer_status X phi over peer =
     (let record = ps_record peer
      in \<lparr>st_runtime_id = id_hex X (gr_runtime_id record), st_endpoint_addrs = gr_endpoint_addrs record,
          st_proto_version = gr_proto_version record, st_draining = gr_draining record,
          st_connection_state = (if (case phi (ps_phi peer) of None \<Rightarrow> False | Some p \<Rightarrow> over p)
                                 then Suspect else ps_connection_state peer),
          st_phi = phi (ps_phi peer), st_load = gr_load record, st_record_version = gr_version record,
          st_last_heartbeat_millis = gr_heartbeat_millis record, st_counters = ps_counters peer\<rparr>)"

definition mesh_status_of ::
  "'x mesh_ext_scheme \<Rightarrow> (phi_accrual \<Rightarrow> u64 option) \<Rightarrow> (u64 \<Rightarrow> bool) \<Rightarrow> membership \<Rightarrow> mesh_status" where
  "mesh_status_of X phi over m =
     (let peers = sort_key st_runtime_id (map (\<lambda>kv. peer_status X phi over (snd kv)) (mm_peers m))
      in \<lparr>ms_enabled = True, ms_local_runtime_id = id_hex X (gr_runtime_id (mm_local_record m)),
          ms_draining = mm_draining m, ms_peer_count = length peers, ms_peers = peers,
          ms_stale_generation_rejections = mm_stale_generation_rejections m,
          ms_foreign_relay_rejections = mm_foreign_relay_rejections m\<rparr>)"

section \<open>Both tables keep the newest record\<close>

definition peer_record :: "membership \<Rightarrow> runtime_id \<Rightarrow> gossip_record option" where
  "peer_record m i = map_option ps_record (map_of (mm_peers m) i)"

interpretation gossip: lww_table gr_runtime_id gr_version "\<lambda>s i. True" map_of apply_record
  by unfold_locales (auto simp: apply_record_def should_apply_def hmap_simps split: option.split)

lemma peer_record_accept:
  "peer_record (fst (apply_gossip_record X r m)) i =
      (if i = gr_runtime_id r \<and> i \<noteq> mm_local_runtime_id m
          \<and> (case peer_record m i of None \<Rightarrow> True | Some e \<Rightarrow> gr_version e < gr_version r)
       then Some r else peer_record m i)"
  by (auto simp: apply_gossip_record_def peer_record_def Let_def hmap_simps not_less split: option.split)

lemma apply_gossip_record_sel [simp]:
  "mm_local_runtime_id (fst (apply_gossip_record X r m)) = mm_local_runtime_id m"
  "mm_local_record (fst (apply_gossip_record X r m)) = mm_local_record m"
  "mm_expected_relay_pubkey (fst (apply_gossip_record X r m)) = mm_expected_relay_pubkey m"
  by (auto simp: apply_gossip_record_def Let_def split: option.split)

interpretation peers: lww_table gr_runtime_id gr_version "\<lambda>m i. i \<noteq> mm_local_runtime_id m" peer_record
    "\<lambda>r m. fst (apply_gossip_record X r m)" for X :: "'x mesh_ext_scheme"
  by unfold_locales (simp_all add: peer_record_accept)

section \<open>Digest and delta\<close>

definition rec_of :: "gossip_record list \<Rightarrow> runtime_id \<Rightarrow> gossip_record option" where
  "rec_of records = map_of (map (\<lambda>r. (gr_runtime_id r, r)) records)"

definition newer :: "gossip_record option \<Rightarrow> gossip_record option \<Rightarrow> gossip_record option" where
  "newer x y =
     (case x of None \<Rightarrow> y
      | Some a \<Rightarrow> (case y of None \<Rightarrow> x | Some b \<Rightarrow> if gr_version a < gr_version b then y else x))"

definition distinct_ids :: "gossip_record list \<Rightarrow> bool" where
  "distinct_ids records \<longleftrightarrow> distinct (map gr_runtime_id records)"

lemma hwf_by_id: "hwf (map (\<lambda>r. (gr_runtime_id r, r)) records) \<longleftrightarrow> distinct_ids records"
  by (simp add: hwf_def distinct_ids_def comp_def)

lemma rec_of_Some_iff:
  "distinct_ids records \<Longrightarrow> rec_of records i = Some r \<longleftrightarrow> r \<in> set records \<and> gr_runtime_id r = i"
  unfolding rec_of_def by (subst hwf_map_of_iff) (auto simp: hwf_by_id)

lemma distinct_ids_sort [simp]: "distinct_ids (sort_key f records) \<longleftrightarrow> distinct_ids records"
  unfolding distinct_ids_def by (metis mset_map mset_sort mset_eq_imp_distinct_iff)

lemma distinct_ids_filter: "distinct_ids records \<Longrightarrow> distinct_ids (filter P records)"
  unfolding distinct_ids_def by (rule distinct_map_filter)

lemma rec_of_eqI:
  assumes "distinct_ids xs" and "distinct_ids ys" and "set xs = set ys"
  shows "rec_of xs = rec_of ys"
  unfolding rec_of_def using assms by (intro map_of_set_eq) (simp_all add: hwf_by_id)

lemma remote_versions_digest:
  assumes "distinct_ids records" and "digest_of X records = Digest v entries"
  shows "remote_versions entries i = map_option gr_version (rec_of records i)"
proof -
  let ?e = "\<lambda>r. \<lparr>ge_runtime_id = gr_runtime_id r, ge_version = gr_version r\<rparr>"
  let ?kv = "map (\<lambda>r. (gr_runtime_id r, gr_version r)) records"
  from assms(2) have entries: "entries = sort_key (\<lambda>e. id_hex X (ge_runtime_id e)) (map ?e records)"
    by (simp add: digest_of_def)
  have ids: "mset (map ge_runtime_id entries) = mset (map gr_runtime_id records)"
    unfolding entries mset_map by (simp add: image_mset.compositionality comp_def)
  then have wf: "hwf (rev (map (\<lambda>e. (ge_runtime_id e, ge_version e)) entries))" and "hwf ?kv"
    using assms(1) mset_eq_imp_distinct_iff [OF ids]
    by (simp_all add: hwf_def rev_map [symmetric] comp_def distinct_ids_def)
  then have "map_of (rev (map (\<lambda>e. (ge_runtime_id e, ge_version e)) entries)) = map_of ?kv"
    by (rule map_of_set_eq) (simp add: entries image_image)
  moreover have "map_of ?kv i = map_option gr_version (rec_of records i)"
    unfolding rec_of_def by (induction records) auto
  ultimately show ?thesis by (simp add: remote_versions_def)
qed

lemma rec_of_delta:
  assumes "distinct_ids records"
  shows "rec_of (delta_records X entries records) i =
     (case rec_of records i of
        None \<Rightarrow> None
      | Some r \<Rightarrow> if (case remote_versions entries i of None \<Rightarrow> True | Some v \<Rightarrow> v < gr_version r)
                  then Some r else None)"
proof -
  have d: "distinct_ids (delta_records X entries records)"
    using assms by (simp add: delta_records_def distinct_ids_filter)
  have iff: "rec_of (delta_records X entries records) i = Some r \<longleftrightarrow>
      rec_of records i = Some r \<and> (case remote_versions entries i of None \<Rightarrow> True | Some v \<Rightarrow> v < gr_version r)" for r
    unfolding rec_of_Some_iff [OF d] rec_of_Some_iff [OF assms] by (auto simp: delta_records_def)
  show ?thesis
  proof (cases "rec_of (delta_records X entries records) i")
    case (Some r)
    with iff [of r] show ?thesis by simp
  next
    case None
    show ?thesis
    proof (cases "rec_of records i")
      case (Some a)
      with iff [of a] None show ?thesis by simp
    qed (simp add: None)
  qed
qed

lemma gossip_fold_newer:
  assumes "distinct_ids rs"
  shows "map_of (fold apply_record rs s) i = newer (map_of s i) (rec_of rs i)"
  using assms
proof (induction rs arbitrary: s)
  case Nil
  then show ?case by (simp add: rec_of_def newer_def split: option.split)
next
  case (Cons r rs)
  then have d: "distinct_ids rs" and fresh: "rec_of rs (gr_runtime_id r) = None"
    by (auto simp: distinct_ids_def rec_of_def map_of_eq_None_iff)
  have "map_of (fold apply_record (r # rs) s) i = newer (map_of (apply_record r s) i) (rec_of rs i)"
    using Cons.IH [OF d] by simp
  then show ?case using fresh gossip.look_accept [of r s i]
    by (auto simp: rec_of_def newer_def split: option.splits)
qed

lemma peers_fold_newer:
  assumes "distinct_ids rs" and "i \<noteq> mm_local_runtime_id m"
  shows "peer_record (fold (\<lambda>r m. fst (apply_gossip_record X r m)) rs m) i = newer (peer_record m i) (rec_of rs i)"
  using assms
proof (induction rs arbitrary: m)
  case Nil
  then show ?case by (simp add: rec_of_def newer_def split: option.split)
next
  case (Cons r rs)
  then have d: "distinct_ids rs" and fresh: "rec_of rs (gr_runtime_id r) = None"
    by (auto simp: distinct_ids_def rec_of_def map_of_eq_None_iff)
  have "peer_record (fold (\<lambda>r m. fst (apply_gossip_record X r m)) (r # rs) m) i
      = newer (peer_record (fst (apply_gossip_record X r m)) i) (rec_of rs i)"
    using Cons.IH [OF d, of "fst (apply_gossip_record X r m)"] Cons.prems(2) by simp
  then show ?case using fresh Cons.prems(2) peer_record_accept [of X r m i]
    by (auto simp: rec_of_def newer_def split: option.splits)
qed

lemma apply_delta_fold: "fst (apply_delta rs s) = fold apply_record rs s"
  by (induction rs arbitrary: s) (simp_all add: Let_def case_prod_beta)

section \<open>Well-formed tables\<close>

definition gossip_ok :: "gossip_state \<Rightarrow> bool" where
  "gossip_ok s \<longleftrightarrow> hwf s \<and> (\<forall>kv \<in> set s. gr_runtime_id (snd kv) = fst kv)"

definition mem_ok :: "membership \<Rightarrow> bool" where
  "mem_ok m \<longleftrightarrow>
     hwf (mm_peers m) \<and> gr_runtime_id (mm_local_record m) = mm_local_runtime_id m
     \<and> (\<forall>kv \<in> set (mm_peers m). gr_runtime_id (ps_record (snd kv)) = fst kv
          \<and> fst kv \<noteq> mm_local_runtime_id m)"

lemma gossip_ok_records:
  assumes "gossip_ok s"
  shows "distinct_ids (map snd s)" and "rec_of (map snd s) = map_of s"
proof -
  from assms have ids: "map (gr_runtime_id \<circ> snd) s = map fst s" by (auto simp: gossip_ok_def)
  with assms show "distinct_ids (map snd s)"
    by (simp only: distinct_ids_def gossip_ok_def hwf_def map_map)
  have "map (\<lambda>r. (gr_runtime_id r, r)) (map snd s) = s"
    using assms by (auto simp: gossip_ok_def intro!: map_idI)
  then show "rec_of (map snd s) = map_of s" by (simp add: rec_of_def)
qed

lemma mem_ok_records:
  assumes "mem_ok m"
  shows "distinct_ids (all_records m)"
    and "rec_of (all_records m) i =
           (if i = mm_local_runtime_id m then Some (mm_local_record m) else peer_record m i)"
proof -
  let ?peers = "map (\<lambda>kv. ps_record (snd kv)) (mm_peers m)"
  from assms have ids: "map gr_runtime_id ?peers = map fst (mm_peers m)" by (auto simp: mem_ok_def)
  moreover from assms have "mm_local_runtime_id m \<notin> fst ` set (mm_peers m)"
      "gr_runtime_id (mm_local_record m) = mm_local_runtime_id m" "distinct (map fst (mm_peers m))"
    by (auto simp: mem_ok_def hwf_def)
  ultimately show d: "distinct_ids (all_records m)"
    unfolding distinct_ids_def all_records_def map_append ids by simp
  have "map (\<lambda>r. (gr_runtime_id r, r)) ?peers = map (\<lambda>kv. (fst kv, ps_record (snd kv))) (mm_peers m)"
    using assms by (auto simp: mem_ok_def)
  moreover have "map_of (map (\<lambda>kv. (fst kv, ps_record (snd kv))) xs) i = map_option ps_record (map_of xs i)" for xs
    by (induction xs) auto
  ultimately have "rec_of ?peers i = peer_record m i" by (simp only: rec_of_def peer_record_def)
  moreover have "peer_record m (mm_local_runtime_id m) = None"
    using \<open>mm_local_runtime_id m \<notin> fst ` set (mm_peers m)\<close>
    by (simp add: peer_record_def map_of_eq_None_iff)
  ultimately show "rec_of (all_records m) i =
           (if i = mm_local_runtime_id m then Some (mm_local_record m) else peer_record m i)"
    using \<open>gr_runtime_id (mm_local_record m) = mm_local_runtime_id m\<close>
    by (auto simp: all_records_def rec_of_def map_add_def split: option.split)
qed

lemma set_update_subset: "set (AList.update k v m) \<subseteq> insert (k, v) (set m)"
  by (induction m) auto

lemma mem_ok_update_peer:
  assumes "mem_ok m" and "gr_runtime_id (ps_record p) = i" and "i \<noteq> mm_local_runtime_id m"
  shows "mem_ok (m\<lparr>mm_peers := AList.update i p (mm_peers m)\<rparr>)"
  using assms set_update_subset [of i p "mm_peers m"] by (fastforce simp: mem_ok_def)

lemma mem_ok_peer:
  assumes "mem_ok m" and "map_of (mm_peers m) i = Some p"
  shows "gr_runtime_id (ps_record p) = i \<and> i \<noteq> mm_local_runtime_id m"
  using assms by (fastforce simp: mem_ok_def dest: map_of_SomeD)

lemma mem_ok_apply_gossip: "mem_ok m \<Longrightarrow> mem_ok (fst (apply_gossip_record X r m))"
  by (auto simp: apply_gossip_record_def Let_def intro!: mem_ok_update_peer split: option.split)

lemma mem_ok_counters: "mem_ok m \<Longrightarrow> mem_ok (update_peer_counters i f m)"
  by (auto simp: update_peer_counters_def intro!: mem_ok_update_peer dest: mem_ok_peer split: option.split)

text \<open>Every operation; the updates of the local record are the ones that keep its runtime id.\<close>

datatype mem_op =
    ApplyGossip gossip_record
  | ApplyReady u64 "ready_record list"
  | MarkConnection runtime_id connection_state
  | UpdateLocal "gossip_record \<Rightarrow> gossip_record" u64
  | StreamOpened runtime_id
  | StreamReceived runtime_id
  | DatagramSent runtime_id
  | DatagramReceived runtime_id
  | GossipFrameSent runtime_id
  | GossipFrameReceived runtime_id
  | StaleGeneration "runtime_id option"
  | BeginDrain u64

fun mem_step :: "'x mesh_ext_scheme \<Rightarrow> mem_op \<Rightarrow> membership \<Rightarrow> membership" where
  "mem_step X (ApplyGossip r) m = fst (apply_gossip_record X r m)"
| "mem_step X (ApplyReady now rs) m = apply_ready_records X now rs m"
| "mem_step X (MarkConnection i st) m = mark_connection_state i st m"
| "mem_step X (UpdateLocal f now) m =
     (if gr_runtime_id (f (mm_local_record m)) = gr_runtime_id (mm_local_record m)
      then fst (update_local f now m) else m)"
| "mem_step X (StreamOpened i) m = record_stream_opened i m"
| "mem_step X (StreamReceived i) m = record_stream_received i m"
| "mem_step X (DatagramSent i) m = record_datagram_sent i m"
| "mem_step X (DatagramReceived i) m = record_datagram_received i m"
| "mem_step X (GossipFrameSent i) m = record_gossip_frame_sent i m"
| "mem_step X (GossipFrameReceived i) m = record_gossip_frame_received i m"
| "mem_step X (StaleGeneration i) m = record_stale_generation_rejection i m"
| "mem_step X (BeginDrain now) m = begin_drain now m"

lemma mem_ok_foreign: "mem_ok m \<Longrightarrow> mem_ok (m\<lparr>mm_foreign_relay_rejections := n\<rparr>)"
  by (simp add: mem_ok_def)

lemma mem_ok_ready: "mem_ok m \<Longrightarrow> mem_ok (apply_ready_record X now r m)"
  by (simp add: apply_ready_record_def mem_ok_apply_gossip mem_ok_foreign split: sum.split)

lemma mem_ok_stale: "mem_ok m \<Longrightarrow> mem_ok (m\<lparr>mm_stale_generation_rejections := n\<rparr>)"
  by (simp add: mem_ok_def)

lemma mem_ok_step:
  assumes ok: "mem_ok m"
  shows "mem_ok (mem_step X op m)"
proof (cases op)
  case (ApplyReady now rs)
  have "mem_ok m \<Longrightarrow> mem_ok (fold (apply_ready_record X now) rs m)" for m
    by (induction rs arbitrary: m) (simp_all add: mem_ok_ready)
  with ok show ?thesis by (simp add: ApplyReady apply_ready_records_def)
next
  case (MarkConnection i st)
  with ok show ?thesis
    by (auto simp: mark_connection_state_def intro!: mem_ok_update_peer dest: mem_ok_peer split: option.split)
next
  case (UpdateLocal f now)
  with ok show ?thesis by (simp add: update_local_def Let_def mem_ok_def)
next
  case (BeginDrain now)
  with ok show ?thesis by (simp add: begin_drain_def update_local_def Let_def mem_ok_def)
next
  case (StaleGeneration i)
  have "mem_ok (record_stale_generation_rejection i m)"
    unfolding record_stale_generation_rejection_def Let_def
    by (cases i; simp only: option.case; intro mem_ok_counters mem_ok_stale ok)
  then show ?thesis by (simp add: StaleGeneration)
qed (simp_all add: ok mem_ok_apply_gossip mem_ok_counters record_stream_opened_def record_stream_received_def
      record_datagram_sent_def record_datagram_received_def record_gossip_frame_sent_def
      record_gossip_frame_received_def)

interpretation mem: invariant_machine "mem_step X" "\<lambda>m. \<exists>r pk. m = new_membership r \<or>
    m = with_expected_relay_pubkey pk (new_membership r)" mem_ok for X :: "'x mesh_ext_scheme"
proof unfold_locales
  fix m assume "\<exists>r pk. m = new_membership r \<or> m = with_expected_relay_pubkey pk (new_membership r)"
  then show "mem_ok m" by (auto simp: mem_ok_def new_membership_def with_expected_relay_pubkey_def)
qed (rule mem_ok_step)

section \<open>Anti-entropy rounds\<close>

text \<open>
  One round over the control stream: \<open>A\<close> sends its digest, \<open>B\<close> answers with the records that the
  digest lacks or has older, \<open>A\<close> applies them.
\<close>

definition gossip_pull :: "'x mesh_ext_scheme \<Rightarrow> gossip_state \<Rightarrow> gossip_state \<Rightarrow> gossip_state" where
  "gossip_pull X A B =
     (case gossip_digest X A of
        Digest _ entries \<Rightarrow>
          (case gossip_delta_for X entries B of Delta _ records \<Rightarrow> fst (apply_delta records A) | _ \<Rightarrow> A)
      | _ \<Rightarrow> A)"

definition membership_pull :: "'x mesh_ext_scheme \<Rightarrow> membership \<Rightarrow> membership \<Rightarrow> membership" where
  "membership_pull X A B =
     (case membership_digest X A of
        Digest _ entries \<Rightarrow>
          (case membership_delta_for X entries B of
             Delta _ records \<Rightarrow> fold (\<lambda>r m. fst (apply_gossip_record X r m)) records A
           | _ \<Rightarrow> A)
      | _ \<Rightarrow> A)"

text \<open>What a membership knows: its own record under its own id, its peers' records elsewhere.\<close>

definition view :: "membership \<Rightarrow> runtime_id \<Rightarrow> gossip_record option" where
  "view m i = (if i = mm_local_runtime_id m then Some (mm_local_record m) else peer_record m i)"

lemma newer_delta:
  assumes "distinct_ids recsA" and "distinct_ids recsB" and "digest_of X recsA = Digest v entries"
  shows "newer (rec_of recsA i) (rec_of (delta_records X entries recsB) i) = newer (rec_of recsA i) (rec_of recsB i)"
  using remote_versions_digest [OF assms(1,3), of i] rec_of_delta [OF assms(2), of X entries i]
  by (cases "rec_of recsA i"; cases "rec_of recsB i") (simp_all add: newer_def)

lemma distinct_delta: "distinct_ids recs \<Longrightarrow> distinct_ids (delta_records X entries recs)"
  by (simp add: delta_records_def distinct_ids_filter)

lemma gossip_pull_lookup:
  assumes "gossip_ok A" and "gossip_ok B"
  shows "map_of (gossip_pull X A B) i = newer (map_of A i) (map_of B i)"
proof -
  obtain v entries where d: "digest_of X (map snd A) = Digest v entries" by (simp add: digest_of_def)
  have "map_of (gossip_pull X A B) i = newer (map_of A i) (rec_of (delta_records X entries (map snd B)) i)"
    using d gossip_fold_newer [OF distinct_delta [OF gossip_ok_records(1) [OF assms(2)]]]
    by (simp add: gossip_pull_def gossip_digest_def gossip_delta_for_def apply_delta_fold)
  then show ?thesis
    using newer_delta [OF gossip_ok_records(1) [OF assms(1)] gossip_ok_records(1) [OF assms(2)] d, of i]
    by (simp add: gossip_ok_records [OF assms(1)] gossip_ok_records [OF assms(2)])
qed

lemma local_id_fold [simp]:
  "mm_local_runtime_id (fold (\<lambda>r m. fst (apply_gossip_record X r m)) rs m) = mm_local_runtime_id m"
  "mm_local_record (fold (\<lambda>r m. fst (apply_gossip_record X r m)) rs m) = mm_local_record m"
  by (induction rs arbitrary: m) simp_all

lemma membership_pull_view:
  assumes "mem_ok A" and "mem_ok B"
  shows "view (membership_pull X A B) i =
     (if i = mm_local_runtime_id A then Some (mm_local_record A) else newer (view A i) (view B i))"
proof -
  obtain v entries where d: "digest_of X (all_records A) = Digest v entries" by (simp add: digest_of_def)
  have pull: "membership_pull X A B = fold (\<lambda>r m. fst (apply_gossip_record X r m)) (delta_records X entries (all_records B)) A"
    using d by (simp add: membership_pull_def membership_digest_def membership_delta_for_def)
  show ?thesis
  proof (cases "i = mm_local_runtime_id A")
    case True
    then show ?thesis by (simp add: view_def pull)
  next
    case False
    then have "view (membership_pull X A B) i = newer (view A i) (rec_of (delta_records X entries (all_records B)) i)"
      using peers_fold_newer [OF distinct_delta [OF mem_ok_records(1) [OF assms(2)]] False]
      by (simp add: view_def pull)
    then show ?thesis
      using newer_delta [OF mem_ok_records(1) [OF assms(1)] mem_ok_records(1) [OF assms(2)] d, of i] False
      by (simp add: mem_ok_records(2) [OF assms(1)] mem_ok_records(2) [OF assms(2)] view_def)
  qed
qed

section \<open>Properties\<close>

text \<open>
  Delta exchange. After a digest and delta round a gossip table holds, for every runtime, the
  newer of the two tables' records, and its own on a tie.
\<close>

theorem gossip_pull_newest:
  assumes "gossip_ok A" and "gossip_ok B"
  shows "map_of (gossip_pull X A B) i = newer (map_of A i) (map_of B i)"
  using assms by (rule gossip_pull_lookup)

definition demo_mesh :: mesh_ext where
  "demo_mesh = \<lparr>id_hex = map (\<lambda>b. char_of (unat b)), postcard_write = (\<lambda>_. Ok []), postcard_read = (\<lambda>_. Err []),
     relay_key_hex = Ok, schnorr_verify = (\<lambda>_ _ _. Ok ())\<rparr>"

definition demo_record :: "u8 \<Rightarrow> u64 \<Rightarrow> gossip_record" where
  "demo_record i v = (new_gossip_record 0 [i] [] 1)\<lparr>gr_version := v\<rparr>"

theorem gossip_pull_newest_witness:
  "map_of (gossip_pull demo_mesh (new_gossip_state (demo_record 1 3)) (new_gossip_state (demo_record 1 5))) [1]
     = Some (demo_record 1 5)"
  using gossip_pull_newest [of "new_gossip_state (demo_record 1 3)" "new_gossip_state (demo_record 1 5)" demo_mesh "[1]"]
  by (simp add: gossip_ok_def new_gossip_state_def hwf_def demo_record_def new_gossip_record_def newer_def)

text \<open>
  C32 (two members converge). If two well-formed memberships agree on records of equal version and
  neither holds a version of the other's own record that the other has not reached, then after one
  round in each direction both know the same record of every runtime.
\<close>

theorem membership_converges:
  assumes "mem_ok A" and "mem_ok B"
    and agree: "\<And>i a b. view A i = Some a \<Longrightarrow> view B i = Some b \<Longrightarrow> gr_version a = gr_version b \<Longrightarrow> a = b"
    and ownA: "\<And>r. view B (mm_local_runtime_id A) = Some r \<Longrightarrow> gr_version r \<le> gr_version (mm_local_record A)"
    and ownB: "\<And>r. view A (mm_local_runtime_id B) = Some r \<Longrightarrow> gr_version r \<le> gr_version (mm_local_record B)"
  shows "view (membership_pull X A B) i = view (membership_pull X B A) i"
proof -
  have comm: "newer (view A i) (view B i) = newer (view B i) (view A i)"
  proof (cases "view A i"; cases "view B i")
    fix a b assume a: "view A i = Some a" and b: "view B i = Some b"
    from agree [OF a b] show ?thesis by (auto simp: newer_def a b not_less intro: order.antisym)
  qed (simp_all add: newer_def)
  have absorb: "newer x (Some l) = Some l"
    if "\<And>r. x = Some r \<Longrightarrow> gr_version r \<le> gr_version l" "\<And>r. x = Some r \<Longrightarrow> gr_version r = gr_version l \<Longrightarrow> r = l"
    for x l
  proof (cases x)
    case (Some r)
    with that [of r] show ?thesis by (auto simp: newer_def not_less intro: order.antisym)
  qed (simp add: newer_def)
  have "view A (mm_local_runtime_id A) = Some (mm_local_record A)" by (simp add: view_def)
  from absorb [of "view B (mm_local_runtime_id A)", OF ownA] agree [OF this]
  have A: "newer (view B (mm_local_runtime_id A)) (Some (mm_local_record A)) = Some (mm_local_record A)"
    by metis
  have "view B (mm_local_runtime_id B) = Some (mm_local_record B)" by (simp add: view_def)
  from absorb [of "view A (mm_local_runtime_id B)", OF ownB] agree [OF _ this]
  have B: "newer (view A (mm_local_runtime_id B)) (Some (mm_local_record B)) = Some (mm_local_record B)"
    by metis
  have own: "view A (mm_local_runtime_id A) = Some (mm_local_record A)"
      "view B (mm_local_runtime_id B) = Some (mm_local_record B)" by (simp_all add: view_def)
  show ?thesis
  proof (cases "i = mm_local_runtime_id A \<or> i = mm_local_runtime_id B")
    case False
    then show ?thesis
      using comm unfolding membership_pull_view [OF assms(1,2)] membership_pull_view [OF assms(2,1)] by simp
  next
    case True
    have "newer (view A (mm_local_runtime_id A)) (view B (mm_local_runtime_id A)) = Some (mm_local_record A)"
      if "i = mm_local_runtime_id A" using A own(1) comm unfolding that by simp
    moreover have "newer (view B (mm_local_runtime_id B)) (view A (mm_local_runtime_id B)) = Some (mm_local_record B)"
      if "i = mm_local_runtime_id B" using B own(2) comm unfolding that by simp
    ultimately show ?thesis
      unfolding membership_pull_view [OF assms(1,2)] membership_pull_view [OF assms(2,1)]
      using True comm by (metis (full_types))
  qed
qed

text \<open>
  Delivery order does not matter. Gossip records that agree whenever their runtime and version
  agree leave a membership with the same record of every peer, whatever the order and repetition in
  which they are delivered.
\<close>

theorem membership_order_irrelevant:
  assumes "mem_ok m" and "set rs = set rs'"
    and "\<And>r r'. r \<in> set rs \<union> {e. \<exists>i. peer_record m i = Some e} \<Longrightarrow>
           r' \<in> set rs \<union> {e. \<exists>i. peer_record m i = Some e} \<Longrightarrow>
           gr_runtime_id r = gr_runtime_id r' \<Longrightarrow> gr_version r = gr_version r' \<Longrightarrow> r = r'"
  shows "peer_record (fold (\<lambda>r m. fst (apply_gossip_record X r m)) rs m) i
       = peer_record (fold (\<lambda>r m. fst (apply_gossip_record X r m)) rs' m) i"
proof (rule peers.order_irrelevant [OF assms(2)])
  show "peers.consistent (set rs \<union> {e. \<exists>i. peer_record m i = Some e})"
    unfolding peers.consistent_def using assms(3) by blast
  show "gr_runtime_id e = i" if "peer_record m i = Some e" for i e
    using that mem_ok_peer [OF assms(1)] by (auto simp: peer_record_def)
qed

text \<open>
  Bootstrap is anchored. Applying ready records from the registry adds only peers with a seed
  that names this deployment's relay key and whose attestation verifies; without an anchor it adds
  nobody.
\<close>

theorem ready_seeds_anchored:
  assumes "has_peer i (apply_ready_records X now rs m)"
  shows "has_peer i m \<or>
     (\<exists>r \<in> set rs. rr_runtime_id r = i \<and> i \<noteq> mm_local_runtime_id m
        \<and> mm_expected_relay_pubkey m = Some (rr_relay_pubkey r) \<and> verify_attestation X r = Ok ())"
proof -
  have step: "has_peer i m \<or> (rr_runtime_id r = i \<and> i \<noteq> mm_local_runtime_id m
        \<and> mm_expected_relay_pubkey m = Some (rr_relay_pubkey r) \<and> verify_attestation X r = Ok ())"
    if "has_peer i (apply_ready_record X now r m)" for m r
    using that
    by (auto simp: apply_ready_record_def apply_gossip_record_def has_peer_def Let_def hmap_simps new_gossip_record_def
        split: if_splits sum.splits option.splits)
  have keep: "mm_local_runtime_id (apply_ready_record X now r m) = mm_local_runtime_id m
      \<and> mm_expected_relay_pubkey (apply_ready_record X now r m) = mm_expected_relay_pubkey m" for r m
    by (simp add: apply_ready_record_def split: sum.split)
  show ?thesis
    using assms unfolding apply_ready_records_def
  proof (induction rs arbitrary: m)
    case Nil
    then show ?case by simp
  next
    case (Cons r rs)
    from Cons.IH [of "apply_ready_record X now r m"] Cons.prems step [of r m] keep [of r m] show ?case by auto
  qed
qed

definition demo_member :: "u8 \<Rightarrow> membership" where
  "demo_member i = new_membership (demo_record i 1)"

lemma demo_member_ok: "mem_ok (demo_member i)"
  by (simp add: mem_ok_def demo_member_def new_membership_def)

lemma demo_member_view: "view (demo_member i) j = (if j = [i] then Some (demo_record i 1) else None)"
  by (simp add: view_def demo_member_def new_membership_def peer_record_def demo_record_def new_gossip_record_def)

theorem membership_converges_witness:
  "view (membership_pull demo_mesh (demo_member 1) (demo_member 2)) [1]
     = view (membership_pull demo_mesh (demo_member 2) (demo_member 1)) [1]"
proof (rule membership_converges)
  have loc: "mm_local_runtime_id (demo_member i) = [i]" for i
    by (simp add: demo_member_def new_membership_def demo_record_def new_gossip_record_def)
  show "gr_version r \<le> gr_version (mm_local_record (demo_member 1))"
    if "view (demo_member 2) (mm_local_runtime_id (demo_member 1)) = Some r" for r
    using that by (simp add: demo_member_view loc)
  show "gr_version r \<le> gr_version (mm_local_record (demo_member 2))"
    if "view (demo_member 1) (mm_local_runtime_id (demo_member 2)) = Some r" for r
    using that by (simp add: demo_member_view loc)
qed (simp_all add: demo_member_ok demo_member_view split: if_splits)

theorem membership_order_irrelevant_witness:
  "peer_record (fold (\<lambda>r m. fst (apply_gossip_record demo_mesh r m)) [demo_record 2 4, demo_record 2 7] (demo_member 1)) [2]
     = peer_record (fold (\<lambda>r m. fst (apply_gossip_record demo_mesh r m)) [demo_record 2 7, demo_record 2 4] (demo_member 1)) [2]"
proof (rule membership_order_irrelevant [OF demo_member_ok])
  show "r = r'"
    if "r \<in> set [demo_record 2 4, demo_record 2 7] \<union> {e. \<exists>i. peer_record (demo_member 1) i = Some e}"
      "r' \<in> set [demo_record 2 4, demo_record 2 7] \<union> {e. \<exists>i. peer_record (demo_member 1) i = Some e}"
      "gr_version r = gr_version r'" for r r'
    using that by (auto simp: peer_record_def demo_member_def new_membership_def demo_record_def)
qed auto

theorem ready_seeds_anchored_witness:
  "\<exists>r \<in> set [\<lparr>rr_runtime_id = [2], rr_runtime_pubkey = [CHR 0x02], rr_relay_pubkey = ''k'',
               rr_relay_sig = [], rr_endpoint_addrs = [], rr_proto_version = 1, rr_capabilities = []\<rparr>].
     verify_attestation demo_mesh r = Ok ()"
proof -
  let ?r = "\<lparr>rr_runtime_id = [2], rr_runtime_pubkey = [CHR 0x02], rr_relay_pubkey = ''k'',
               rr_relay_sig = [], rr_endpoint_addrs = [], rr_proto_version = 1, rr_capabilities = []\<rparr>"
  let ?m = "with_expected_relay_pubkey ''k'' (demo_member 1)"
  have "char_of (unat (2 :: u8)) = CHR 0x02" by code_simp
  then have "verify_attestation demo_mesh ?r = Ok ()"
    by (simp add: verify_attestation_def verify_relay_sig_def demo_mesh_def)
  then have "has_peer [2] (apply_ready_records demo_mesh 9 [?r] ?m)"
    by (simp add: apply_ready_records_def apply_ready_record_def apply_gossip_record_def has_peer_def
        with_expected_relay_pubkey_def demo_member_def new_membership_def demo_record_def
        new_gossip_record_def Let_def)
  from ready_seeds_anchored [OF this] show ?thesis
    by (auto simp: has_peer_def with_expected_relay_pubkey_def demo_member_def new_membership_def)
qed

end
