(* ===== verification/AcpQueue.thy ===== *)
theory AcpQueue
  imports EventFilter "HOL-Library.Multiset"
begin

text \<open>
  The per-channel event queue of the agent harness (\<open>crates/buzz-acp/src/queue.rs\<close>, the
  \<open>EventQueue\<close> state machine and \<open>parse_thread_tags\<close>). Times are nanoseconds on the monotonic clock
  and are arguments; the retry delay that \<open>requeue\<close> computes with floating-point jitter is a function
  argument from the capped backoff in seconds to nanoseconds. Logging is not modelled. A method that
  also returns a value returns the new queue first.
\<close>

section \<open>Data\<close>

definition MAX_PENDING_PER_CHANNEL :: nat where "MAX_PENDING_PER_CHANNEL = 500"
definition MAX_BATCH_EVENTS :: nat where "MAX_BATCH_EVENTS = 50"
definition MAX_RETRIES :: nat where "MAX_RETRIES = 10"
definition BASE_RETRY_DELAY_SECS :: nat where "BASE_RETRY_DELAY_SECS = 5"
definition MAX_RETRY_DELAY_SECS :: nat where "MAX_RETRY_DELAY_SECS = 300"
definition IN_FLIGHT_DEADLINE_BUFFER_SECS :: nat where "IN_FLIGHT_DEADLINE_BUFFER_SECS = 100"
definition DEFAULT_IN_FLIGHT_DEADLINE_SECS :: nat where "DEFAULT_IN_FLIGHT_DEADLINE_SECS = 7300"

definition from_secs :: "nat \<Rightarrow> nat" where "from_secs s = s * 10 ^ 9"

type_synonym chan = string

datatype dedup_mode = Drop | Queue

record queued_event =
  qe_channel_id :: chan
  qe_event :: nostr_event
  qe_received_at :: nat
  qe_prompt_tag :: string

record batch_event =
  be_event :: nostr_event
  be_prompt_tag :: string
  be_received_at :: nat

datatype cancel_reason = Interrupt | Steer

record flush_batch =
  fb_channel_id :: chan
  fb_events :: "batch_event list"
  fb_cancelled_events :: "batch_event list"
  fb_cancel_reason :: "cancel_reason option"

record event_queue =
  eq_queues :: "(chan, queued_event list) hmap"
  eq_in_flight_channels :: "chan set"
  eq_in_flight_deadlines :: "(chan, nat) hmap"
  eq_in_flight_batch_sizes :: "(chan, nat) hmap"
  eq_retry_after :: "(chan, nat) hmap"
  eq_retry_counts :: "(chan, nat) hmap"
  eq_dedup_mode :: dedup_mode
  eq_cancelled_batches :: "(chan, batch_event list) hmap"
  eq_cancel_reasons :: "(chan, cancel_reason) hmap"
  eq_withheld_native_steer :: "(chan, queued_event list) hmap"
  eq_in_flight_deadline :: nat

definition new_queue :: "dedup_mode \<Rightarrow> event_queue" where
  "new_queue dedup_mode =
     \<lparr>eq_queues = [], eq_in_flight_channels = {}, eq_in_flight_deadlines = [],
      eq_in_flight_batch_sizes = [], eq_retry_after = [], eq_retry_counts = [],
      eq_dedup_mode = dedup_mode, eq_cancelled_batches = [], eq_cancel_reasons = [],
      eq_withheld_native_steer = [],
      eq_in_flight_deadline = from_secs DEFAULT_IN_FLIGHT_DEADLINE_SECS\<rparr>"

definition with_in_flight_deadline :: "nat \<Rightarrow> event_queue \<Rightarrow> event_queue" where
  "with_in_flight_deadline max_turn_duration_secs q =
     q\<lparr>eq_in_flight_deadline := from_secs (max_turn_duration_secs + IN_FLIGHT_DEADLINE_BUFFER_SECS)\<rparr>"

definition to_batch_event :: "queued_event \<Rightarrow> batch_event" where
  "to_batch_event qe =
     \<lparr>be_event = qe_event qe, be_prompt_tag = qe_prompt_tag qe, be_received_at = qe_received_at qe\<rparr>"

definition to_queued_event :: "chan \<Rightarrow> batch_event \<Rightarrow> queued_event" where
  "to_queued_event channel_id be =
     \<lparr>qe_channel_id = channel_id, qe_event = be_event be, qe_received_at = be_received_at be,
      qe_prompt_tag = be_prompt_tag be\<rparr>"

section \<open>Queue primitives\<close>

definition push_fronts :: "queued_event list \<Rightarrow> queued_event list \<Rightarrow> queued_event list" where
  "push_fronts entries queue = fold (\<lambda>qe q. qe # q) (rev entries) queue"

text \<open>\<open>while queue.len() > MAX_PENDING_PER_CHANNEL { queue.pop_back(); }\<close>\<close>

function trim_queue :: "queued_event list \<Rightarrow> queued_event list" where
  "trim_queue queue = (if length queue > MAX_PENDING_PER_CHANNEL then trim_queue (butlast queue) else queue)"
  by auto

termination by (relation "measure length") (auto simp: MAX_PENDING_PER_CHANNEL_def)

declare trim_queue.simps [simp del]

definition queue_of :: "chan \<Rightarrow> event_queue \<Rightarrow> queued_event list" where
  "queue_of ch q = bucket (eq_queues q) ch"

section \<open>Operations\<close>

definition extend_in_flight_deadline :: "chan \<Rightarrow> nat \<Rightarrow> nat \<Rightarrow> event_queue \<Rightarrow> event_queue" where
  "extend_in_flight_deadline ch max_turn_secs now q =
     (case map_of (eq_in_flight_deadlines q) ch of
        None \<Rightarrow> q
      | Some current \<Rightarrow>
          (let extended = now + from_secs (max_turn_secs + IN_FLIGHT_DEADLINE_BUFFER_SECS)
           in if extended > current
              then q\<lparr>eq_in_flight_deadlines := AList.update ch extended (eq_in_flight_deadlines q)\<rparr>
              else q))"

definition push :: "queued_event \<Rightarrow> event_queue \<Rightarrow> event_queue \<times> bool" where
  "push event q =
     (if eq_dedup_mode q = Drop \<and> qe_channel_id event \<in> eq_in_flight_channels q then (q, False)
      else (let queue = queue_of (qe_channel_id event) q;
                queue' = (if length queue \<ge> MAX_PENDING_PER_CHANNEL then tl queue else queue)
            in (q\<lparr>eq_queues := AList.update (qe_channel_id event) (queue' @ [event]) (eq_queues q)\<rparr>, True)))"

definition recover_withheld_for_expired_channel :: "chan \<Rightarrow> event_queue \<Rightarrow> event_queue" where
  "recover_withheld_for_expired_channel ch q =
     (case map_of (eq_withheld_native_steer q) ch of
        None \<Rightarrow> q
      | Some entries \<Rightarrow>
          q\<lparr>eq_withheld_native_steer := AList.delete ch (eq_withheld_native_steer q),
            eq_queues := AList.update ch (trim_queue (push_fronts entries (queue_of ch q))) (eq_queues q)\<rparr>)"

text \<open>One round of the expiry loop that \<open>flush_next\<close> and \<open>has_flushable_work\<close> share.\<close>

definition expire_channel :: "chan \<Rightarrow> event_queue \<Rightarrow> event_queue" where
  "expire_channel ch q =
     recover_withheld_for_expired_channel ch
       (q\<lparr>eq_in_flight_batch_sizes := AList.delete ch (eq_in_flight_batch_sizes q),
          eq_in_flight_channels := eq_in_flight_channels q - {ch},
          eq_in_flight_deadlines := AList.delete ch (eq_in_flight_deadlines q)\<rparr>)"

definition expire_in_flight :: "nat \<Rightarrow> event_queue \<Rightarrow> event_queue" where
  "expire_in_flight now q =
     (let expired = map fst (filter (\<lambda>(ch, deadline). now \<ge> deadline) (eq_in_flight_deadlines q))
      in fold expire_channel expired q)"

definition flushable :: "nat \<Rightarrow> event_queue \<Rightarrow> chan \<times> queued_event list \<Rightarrow> bool" where
  "flushable now q kv =
     (snd kv \<noteq> [] \<and> fst kv \<notin> eq_in_flight_channels q
      \<and> (case map_of (eq_retry_after q) (fst kv) of None \<Rightarrow> True | Some t \<Rightarrow> t \<le> now))"

text \<open>\<open>Iterator::min_by_key\<close>: the first element of minimal key.\<close>

fun min_by_key :: "('a \<Rightarrow> nat) \<Rightarrow> 'a list \<Rightarrow> 'a option" where
  "min_by_key key [] = None"
| "min_by_key key (x # xs) =
     (case min_by_key key xs of None \<Rightarrow> Some x | Some y \<Rightarrow> if key x \<le> key y then Some x else Some y)"

definition set_in_flight :: "chan \<Rightarrow> nat \<Rightarrow> nat \<Rightarrow> event_queue \<Rightarrow> event_queue" where
  "set_in_flight ch now batch_size q =
     q\<lparr>eq_in_flight_channels := insert ch (eq_in_flight_channels q),
       eq_in_flight_deadlines := AList.update ch (now + eq_in_flight_deadline q) (eq_in_flight_deadlines q),
       eq_in_flight_batch_sizes := AList.update ch batch_size (eq_in_flight_batch_sizes q)\<rparr>"

text \<open>The fallback of \<open>flush_next\<close>: a channel with cancelled events only.\<close>

definition flush_cancelled :: "nat \<Rightarrow> event_queue \<Rightarrow> event_queue \<times> flush_batch option" where
  "flush_cancelled now q =
     (case find (\<lambda>ch. ch \<notin> eq_in_flight_channels q) (map fst (eq_cancelled_batches q)) of
        None \<Rightarrow> (q, None)
      | Some ch \<Rightarrow>
          (let cancelled = (case map_of (eq_cancelled_batches q) ch of None \<Rightarrow> [] | Some c \<Rightarrow> c);
               reason = map_of (eq_cancel_reasons q) ch;
               q1 = q\<lparr>eq_cancelled_batches := AList.delete ch (eq_cancelled_batches q),
                      eq_cancel_reasons := AList.delete ch (eq_cancel_reasons q)\<rparr>
           in (set_in_flight ch now (length cancelled) q1,
               Some \<lparr>fb_channel_id = ch, fb_events = cancelled, fb_cancelled_events = [],
                     fb_cancel_reason = reason\<rparr>)))"

text \<open>The main path of \<open>flush_next\<close> for the chosen channel.\<close>

definition flush_channel :: "nat \<Rightarrow> chan \<Rightarrow> event_queue \<Rightarrow> event_queue \<times> flush_batch" where
  "flush_channel now ch q =
     (let queue = queue_of ch q;
          drain_count = min MAX_BATCH_EVENTS (length queue);
          events = sort_key (\<lambda>be. ev_created_at (be_event be)) (map to_batch_event (take drain_count queue));
          rest = drop drain_count queue;
          q1 = q\<lparr>eq_queues := (if rest = [] then AList.delete ch (eq_queues q)
                               else AList.update ch rest (eq_queues q))\<rparr>;
          q2 = set_in_flight ch now (length events) q1;
          cancelled = (case map_of (eq_cancelled_batches q) ch of None \<Rightarrow> [] | Some c \<Rightarrow> c);
          reason = (if cancelled = [] then None else map_of (eq_cancel_reasons q) ch)
      in (q2\<lparr>eq_cancelled_batches := AList.delete ch (eq_cancelled_batches q),
             eq_cancel_reasons := AList.delete ch (eq_cancel_reasons q)\<rparr>,
          \<lparr>fb_channel_id = ch, fb_events = events, fb_cancelled_events = cancelled,
           fb_cancel_reason = reason\<rparr>))"

definition head_received_at :: "chan \<times> queued_event list \<Rightarrow> nat" where
  "head_received_at kv = qe_received_at (hd (snd kv))"

definition flush_next :: "nat \<Rightarrow> event_queue \<Rightarrow> event_queue \<times> flush_batch option" where
  "flush_next now q0 =
     (let q = expire_in_flight now q0
      in case min_by_key head_received_at (filter (flushable now q) (eq_queues q)) of
           Some (ch, _) \<Rightarrow> (case flush_channel now ch q of (q', b) \<Rightarrow> (q', Some b))
         | None \<Rightarrow> flush_cancelled now q)"

definition mark_complete :: "chan \<Rightarrow> nat \<Rightarrow> event_queue \<Rightarrow> event_queue" where
  "mark_complete ch now q =
     (let q1 = q\<lparr>eq_in_flight_channels := eq_in_flight_channels q - {ch},
                 eq_in_flight_deadlines := AList.delete ch (eq_in_flight_deadlines q),
                 eq_in_flight_batch_sizes := AList.delete ch (eq_in_flight_batch_sizes q)\<rparr>
      in case map_of (eq_retry_after q) ch of
           Some deadline \<Rightarrow>
             if deadline > now then q1
             else q1\<lparr>eq_retry_after := AList.delete ch (eq_retry_after q),
                     eq_retry_counts := AList.delete ch (eq_retry_counts q)\<rparr>
         | None \<Rightarrow> q1\<lparr>eq_retry_counts := AList.delete ch (eq_retry_counts q)\<rparr>)"

definition backoff_secs :: "nat \<Rightarrow> nat" where
  "backoff_secs attempt =
     min (BASE_RETRY_DELAY_SECS * 2 ^ min (attempt - 1) 6) MAX_RETRY_DELAY_SECS"

definition requeue ::
  "(nat \<Rightarrow> nat) \<Rightarrow> nat \<Rightarrow> flush_batch \<Rightarrow> event_queue \<Rightarrow> event_queue \<times> flush_batch option" where
  "requeue delay now batch q =
     (let ch = fb_channel_id batch;
          attempt = (case map_of (eq_retry_counts q) ch of None \<Rightarrow> 0 | Some n \<Rightarrow> n) + 1
      in if attempt > MAX_RETRIES then
           (q\<lparr>eq_retry_counts := AList.delete ch (eq_retry_counts q),
              eq_retry_after := AList.delete ch (eq_retry_after q)\<rparr>, Some batch)
         else
           (q\<lparr>eq_retry_counts := AList.update ch attempt (eq_retry_counts q),
              eq_queues := AList.update ch
                (trim_queue (push_fronts (map (to_queued_event ch) (fb_events batch)) (queue_of ch q))) (eq_queues q),
              eq_retry_after := AList.update ch (now + delay (backoff_secs attempt)) (eq_retry_after q)\<rparr>, None))"

definition requeue_preserve_timestamps :: "flush_batch \<Rightarrow> event_queue \<Rightarrow> event_queue" where
  "requeue_preserve_timestamps batch q =
     (let ch = fb_channel_id batch
      in q\<lparr>eq_queues := AList.update ch
             (trim_queue (push_fronts (map (to_queued_event ch) (fb_events batch)) (queue_of ch q))) (eq_queues q)\<rparr>)"

definition requeue_as_cancelled :: "flush_batch \<Rightarrow> cancel_reason \<Rightarrow> event_queue \<Rightarrow> event_queue" where
  "requeue_as_cancelled batch reason q =
     (let ch = fb_channel_id batch;
          entry = (case map_of (eq_cancelled_batches q) ch of None \<Rightarrow> [] | Some c \<Rightarrow> c)
      in q\<lparr>eq_cancelled_batches :=
             AList.update ch (entry @ fb_cancelled_events batch @ fb_events batch) (eq_cancelled_batches q),
           eq_cancel_reasons := AList.update ch reason (eq_cancel_reasons q)\<rparr>)"

definition has_flushable_work :: "nat \<Rightarrow> event_queue \<Rightarrow> event_queue \<times> bool" where
  "has_flushable_work now q0 =
     (let q = expire_in_flight now q0
      in (q, list_ex (flushable now q) (eq_queues q)
             \<or> list_ex (\<lambda>ch. ch \<notin> eq_in_flight_channels q) (map fst (eq_cancelled_batches q))))"

definition pending_channels :: "event_queue \<Rightarrow> nat" where
  "pending_channels q = length (eq_queues q)"

definition drain_channel :: "chan \<Rightarrow> event_queue \<Rightarrow> event_queue \<times> string list" where
  "drain_channel ch q =
     (q\<lparr>eq_queues := AList.delete ch (eq_queues q), eq_retry_after := AList.delete ch (eq_retry_after q),
        eq_retry_counts := AList.delete ch (eq_retry_counts q),
        eq_cancelled_batches := AList.delete ch (eq_cancelled_batches q),
        eq_cancel_reasons := AList.delete ch (eq_cancel_reasons q),
        eq_withheld_native_steer := AList.delete ch (eq_withheld_native_steer q)\<rparr>,
      map (\<lambda>e. ev_id (qe_event e)) (queue_of ch q))"

definition is_channel_in_flight :: "chan \<Rightarrow> event_queue \<Rightarrow> bool" where
  "is_channel_in_flight ch q \<longleftrightarrow> ch \<in> eq_in_flight_channels q"

text \<open>\<open>position\<close> and \<open>remove\<close>: the first entry with the given event id and the others.\<close>

fun take_event :: "string \<Rightarrow> queued_event list \<Rightarrow> (queued_event \<times> queued_event list) option" where
  "take_event event_id [] = None"
| "take_event event_id (qe # rest) =
     (if ev_id (qe_event qe) = event_id then Some (qe, rest)
      else map_option (\<lambda>(x, others). (x, qe # others)) (take_event event_id rest))"

definition put_or_remove :: "chan \<Rightarrow> 'a list \<Rightarrow> (chan, 'a list) hmap \<Rightarrow> (chan, 'a list) hmap" where
  "put_or_remove ch xs m = (if xs = [] then AList.delete ch m else AList.update ch xs m)"

definition mark_native_steer_pending :: "chan \<Rightarrow> string \<Rightarrow> event_queue \<Rightarrow> event_queue \<times> bool" where
  "mark_native_steer_pending ch event_id q =
     (case map_of (eq_queues q) ch of
        None \<Rightarrow> (q, False)
      | Some queue \<Rightarrow>
          (case take_event event_id queue of
             None \<Rightarrow> (q, False)
           | Some (qe, rest) \<Rightarrow>
               (q\<lparr>eq_queues := put_or_remove ch rest (eq_queues q),
                  eq_withheld_native_steer := bucket_push ch qe (eq_withheld_native_steer q)\<rparr>, True)))"

definition release_native_steer :: "chan \<Rightarrow> string \<Rightarrow> event_queue \<Rightarrow> event_queue" where
  "release_native_steer ch event_id q =
     (case map_of (eq_withheld_native_steer q) ch of
        None \<Rightarrow> q
      | Some entries \<Rightarrow>
          (case take_event event_id entries of
             None \<Rightarrow> q
           | Some (qe, rest) \<Rightarrow>
               q\<lparr>eq_withheld_native_steer := put_or_remove ch rest (eq_withheld_native_steer q),
                 eq_queues := AList.update ch (trim_queue (qe # queue_of ch q)) (eq_queues q)\<rparr>))"

definition remove_event :: "chan \<Rightarrow> string \<Rightarrow> event_queue \<Rightarrow> event_queue" where
  "remove_event ch event_id q =
     q\<lparr>eq_withheld_native_steer :=
         bucket_retain ch (\<lambda>qe. ev_id (qe_event qe) \<noteq> event_id) (eq_withheld_native_steer q),
       eq_queues := bucket_retain ch (\<lambda>qe. ev_id (qe_event qe) \<noteq> event_id) (eq_queues q)\<rparr>"

definition compact_expired_state :: "nat \<Rightarrow> event_queue \<Rightarrow> event_queue" where
  "compact_expired_state now q =
     (let retry_after = filter (\<lambda>(ch, deadline). deadline > now) (eq_retry_after q)
      in q\<lparr>eq_retry_after := retry_after,
           eq_retry_counts :=
             filter (\<lambda>(ch, n). map_of retry_after ch \<noteq> None
                \<or> (case map_of (eq_queues q) ch of None \<Rightarrow> False | Some queue \<Rightarrow> queue \<noteq> [])
                \<or> ch \<in> eq_in_flight_channels q) (eq_retry_counts q)\<rparr>)"

section \<open>Thread tags\<close>

record thread_tags =
  tt_root_event_id :: "string option"
  tt_parent_event_id :: "string option"
  tt_mentioned_pubkeys :: "string list"

text \<open>One round of the loop over the tags, given as the slices of their values.\<close>

definition thread_tag_step ::
  "string option \<times> string option \<times> string list \<Rightarrow> string list \<Rightarrow> string option \<times> string option \<times> string list" where
  "thread_tag_step acc parts =
     (case acc of (root, reply, mentions) \<Rightarrow>
        (case parts of
           name # i # rest \<Rightarrow>
             if name = ''e'' then
               (case rest of
                  relay # marker # _ \<Rightarrow>
                    if marker = ''root'' then (Some i, reply, mentions)
                    else if marker = ''reply'' then (root, Some i, mentions)
                    else acc
                | _ \<Rightarrow> acc)
             else if name = ''p'' then (root, reply, mentions @ [i])
             else acc
         | _ \<Rightarrow> acc))"

definition parse_thread_tags :: "string list list \<Rightarrow> thread_tags" where
  "parse_thread_tags tags =
     (let (root, reply, mentions) = foldl thread_tag_step (None, None, []) tags;
          (root_id, parent_id) =
            (case (root, reply) of
               (Some r, Some p) \<Rightarrow> (Some r, Some p)
             | (Some r, None) \<Rightarrow> (Some r, Some r)
             | (None, Some p) \<Rightarrow> (Some p, Some p)
             | (None, None) \<Rightarrow> (None, None))
      in \<lparr>tt_root_event_id = root_id, tt_parent_event_id = parent_id, tt_mentioned_pubkeys = mentions\<rparr>)"

section \<open>Primitives, characterised\<close>

lemma push_fronts_eq [simp]: "push_fronts entries queue = entries @ queue"
proof -
  have "fold (\<lambda>qe q. qe # q) xs queue = rev xs @ queue" for xs :: "queued_event list"
    by (induction xs arbitrary: queue) auto
  then show ?thesis by (simp add: push_fronts_def)
qed

lemma trim_queue_eq [simp]: "trim_queue queue = take MAX_PENDING_PER_CHANNEL queue"
proof (induction queue rule: trim_queue.induct)
  case (1 queue)
  show ?case
  proof (cases "length queue > MAX_PENDING_PER_CHANNEL")
    case True
    then have "trim_queue queue = take MAX_PENDING_PER_CHANNEL (butlast queue)"
      using 1 by (subst trim_queue.simps) simp
    with True show ?thesis by (simp add: take_butlast)
  qed (subst trim_queue.simps, simp)
qed

lemma min_by_key_None [simp]: "min_by_key key xs = None \<longleftrightarrow> xs = []"
  by (induction xs) (auto split: option.splits)

lemma min_by_key_Some:
  "min_by_key key xs = Some x \<Longrightarrow> x \<in> set xs \<and> (\<forall>y\<in>set xs. key x \<le> key y)"
proof (induction xs arbitrary: x)
  case Nil
  then show ?case by simp
next
  case (Cons a xs)
  then show ?case by (cases "min_by_key key xs") (fastforce split: if_splits)+
qed

lemma find_None_iff_list_ex: "find P xs = None \<longleftrightarrow> \<not> list_ex P xs"
  by (auto simp: find_None_iff list_ex_iff)

lemma put_or_remove_look [hmap_simps]:
  "map_of (put_or_remove ch xs m) c = (if c = ch then (if xs = [] then None else Some xs) else map_of m c)"
  by (simp add: put_or_remove_def hmap_simps)

lemma bucket_put_or_remove [hmap_simps]:
  "bucket (put_or_remove ch xs m) c = (if c = ch then xs else bucket m c)"
  by (simp add: bucket_def hmap_simps)

lemma bucket_update [hmap_simps]: "bucket (AList.update k xs m) c = (if c = k then xs else bucket m c)"
  by (simp add: bucket_def hmap_simps)

lemma bucket_delete [hmap_simps]: "bucket (AList.delete k m) c = (if c = k then [] else bucket m c)"
  by (simp add: bucket_def hmap_simps)

lemma hwf_put_or_remove [simp, intro]: "hwf m \<Longrightarrow> hwf (put_or_remove ch xs m)"
  by (simp add: put_or_remove_def)

lemma take_event_SomeD:
  "take_event i xs = Some (x, rest) \<Longrightarrow>
     ev_id (qe_event x) = i \<and> x \<in> set xs \<and> mset xs = add_mset x (mset rest) \<and> length rest < length xs"
proof (induction xs arbitrary: x rest)
  case Nil
  then show ?case by simp
next
  case (Cons a xs)
  then show ?case by (force split: if_splits)
qed

lemma take_event_append:
  "i \<notin> (\<lambda>qe. ev_id (qe_event qe)) ` set xs \<Longrightarrow> ev_id (qe_event x) = i \<Longrightarrow>
     take_event i (xs @ [x]) = Some (x, xs)"
  by (induction xs) auto

section \<open>Expiry\<close>

text \<open>What recovery leaves in the queue of an expired channel.\<close>

definition recovered_queue :: "event_queue \<Rightarrow> chan \<Rightarrow> queued_event list" where
  "recovered_queue q ch =
     (if map_of (eq_withheld_native_steer q) ch = None then queue_of ch q
      else take MAX_PENDING_PER_CHANNEL (bucket (eq_withheld_native_steer q) ch @ queue_of ch q))"

definition expired_channels :: "nat \<Rightarrow> event_queue \<Rightarrow> chan set" where
  "expired_channels now q = {ch. \<exists>d. map_of (eq_in_flight_deadlines q) ch = Some d \<and> d \<le> now}"

lemma expire_channel_frame [simp]:
  "eq_retry_after (expire_channel ch q) = eq_retry_after q"
  "eq_retry_counts (expire_channel ch q) = eq_retry_counts q"
  "eq_dedup_mode (expire_channel ch q) = eq_dedup_mode q"
  "eq_cancelled_batches (expire_channel ch q) = eq_cancelled_batches q"
  "eq_cancel_reasons (expire_channel ch q) = eq_cancel_reasons q"
  "eq_in_flight_deadline (expire_channel ch q) = eq_in_flight_deadline q"
  "eq_in_flight_channels (expire_channel ch q) = eq_in_flight_channels q - {ch}"
  "eq_in_flight_deadlines (expire_channel ch q) = AList.delete ch (eq_in_flight_deadlines q)"
  "eq_in_flight_batch_sizes (expire_channel ch q) = AList.delete ch (eq_in_flight_batch_sizes q)"
  by (simp_all add: expire_channel_def recover_withheld_for_expired_channel_def split: option.split)

lemma expire_channel_look:
  "bucket (eq_queues (expire_channel ch q)) c = (if c = ch then recovered_queue q c else bucket (eq_queues q) c)"
  "map_of (eq_withheld_native_steer (expire_channel ch q)) c
     = (if c = ch then None else map_of (eq_withheld_native_steer q) c)"
  by (auto simp: expire_channel_def recover_withheld_for_expired_channel_def recovered_queue_def
        queue_of_def bucket_def hmap_simps split: option.split)

lemma expire_fold_frame [simp]:
  "eq_retry_after (fold expire_channel cs q) = eq_retry_after q"
  "eq_retry_counts (fold expire_channel cs q) = eq_retry_counts q"
  "eq_dedup_mode (fold expire_channel cs q) = eq_dedup_mode q"
  "eq_cancelled_batches (fold expire_channel cs q) = eq_cancelled_batches q"
  "eq_cancel_reasons (fold expire_channel cs q) = eq_cancel_reasons q"
  "eq_in_flight_deadline (fold expire_channel cs q) = eq_in_flight_deadline q"
  "eq_in_flight_channels (fold expire_channel cs q) = eq_in_flight_channels q - set cs"
  by (induction cs arbitrary: q) auto

lemma expire_fold_look:
  "map_of (eq_in_flight_deadlines (fold expire_channel cs q)) c
     = (if c \<in> set cs then None else map_of (eq_in_flight_deadlines q) c)"
  "map_of (eq_in_flight_batch_sizes (fold expire_channel cs q)) c
     = (if c \<in> set cs then None else map_of (eq_in_flight_batch_sizes q) c)"
  "map_of (eq_withheld_native_steer (fold expire_channel cs q)) c
     = (if c \<in> set cs then None else map_of (eq_withheld_native_steer q) c)"
  by (induction cs arbitrary: q) (auto simp: hmap_simps expire_channel_look)

lemma recovered_queue_other:
  "c \<noteq> ch \<Longrightarrow> recovered_queue (expire_channel ch q) c = recovered_queue q c"
  unfolding recovered_queue_def queue_of_def
  by (simp add: expire_channel_look bucket_def [of "eq_withheld_native_steer (expire_channel ch q)"]
      bucket_def [of "eq_withheld_native_steer q"])

lemma expire_fold_queues:
  "distinct cs \<Longrightarrow>
     bucket (eq_queues (fold expire_channel cs q)) c
       = (if c \<in> set cs then recovered_queue q c else bucket (eq_queues q) c)"
proof (induction cs arbitrary: q)
  case Nil
  then show ?case by simp
next
  case (Cons ch cs)
  then show ?case
    by (cases "c = ch") (simp_all add: expire_channel_look recovered_queue_other)
qed

lemma set_expired:
  assumes "hwf (eq_in_flight_deadlines q)"
  shows "set (map fst (filter (\<lambda>(ch, deadline). now \<ge> deadline) (eq_in_flight_deadlines q)))
           = expired_channels now q"
    and "distinct (map fst (filter (\<lambda>(ch, deadline). now \<ge> deadline) (eq_in_flight_deadlines q)))"
proof -
  show "set (map fst (filter (\<lambda>(ch, deadline). now \<ge> deadline) (eq_in_flight_deadlines q)))
          = expired_channels now q"
    using assms by (force simp: expired_channels_def hwf_map_of_iff)
  show "distinct (map fst (filter (\<lambda>(ch, deadline). now \<ge> deadline) (eq_in_flight_deadlines q)))"
    using hwf_filter [OF assms] by (simp add: hwf_def)
qed

lemma expire_frame [simp]:
  "eq_retry_after (expire_in_flight now q) = eq_retry_after q"
  "eq_retry_counts (expire_in_flight now q) = eq_retry_counts q"
  "eq_dedup_mode (expire_in_flight now q) = eq_dedup_mode q"
  "eq_cancelled_batches (expire_in_flight now q) = eq_cancelled_batches q"
  "eq_cancel_reasons (expire_in_flight now q) = eq_cancel_reasons q"
  "eq_in_flight_deadline (expire_in_flight now q) = eq_in_flight_deadline q"
  by (simp_all add: expire_in_flight_def Let_def)

lemma expire_look:
  assumes "hwf (eq_in_flight_deadlines q)"
  shows "eq_in_flight_channels (expire_in_flight now q) = eq_in_flight_channels q - expired_channels now q"
    and "map_of (eq_in_flight_deadlines (expire_in_flight now q)) c
           = (if c \<in> expired_channels now q then None else map_of (eq_in_flight_deadlines q) c)"
    and "map_of (eq_in_flight_batch_sizes (expire_in_flight now q)) c
           = (if c \<in> expired_channels now q then None else map_of (eq_in_flight_batch_sizes q) c)"
    and "map_of (eq_withheld_native_steer (expire_in_flight now q)) c
           = (if c \<in> expired_channels now q then None else map_of (eq_withheld_native_steer q) c)"
    and "queue_of c (expire_in_flight now q)
           = (if c \<in> expired_channels now q then recovered_queue q c else queue_of c q)"
  using set_expired [OF assms, of now]
  by (simp_all add: expire_in_flight_def Let_def expire_fold_look expire_fold_queues queue_of_def)

section \<open>The queue invariant\<close>

definition queue_fits :: "chan \<Rightarrow> queued_event list \<Rightarrow> bool" where
  "queue_fits ch xs \<longleftrightarrow> length xs \<le> MAX_PENDING_PER_CHANNEL \<and> (\<forall>qe\<in>set xs. qe_channel_id qe = ch)"

definition queues_fine :: "(chan, queued_event list) hmap \<Rightarrow> bool" where
  "queues_fine queues \<longleftrightarrow> hwf queues \<and> (\<forall>ch. queue_fits ch (bucket queues ch))"

definition withheld_fine :: "(chan, queued_event list) hmap \<Rightarrow> bool" where
  "withheld_fine withheld \<longleftrightarrow>
     hwf withheld \<and> (\<forall>ch. \<forall>qe\<in>set (bucket withheld ch). qe_channel_id qe = ch)"

definition in_flight_fine :: "chan set \<Rightarrow> (chan, nat) hmap \<Rightarrow> (chan, nat) hmap \<Rightarrow> bool" where
  "in_flight_fine channels deadlines sizes \<longleftrightarrow>
     hwf deadlines \<and> hwf sizes \<and> dom (map_of deadlines) = channels \<and> dom (map_of sizes) = channels"

definition cancel_fine :: "(chan, batch_event list) hmap \<Rightarrow> (chan, cancel_reason) hmap \<Rightarrow> bool" where
  "cancel_fine batches reasons \<longleftrightarrow>
     hwf batches \<and> hwf reasons \<and> (\<forall>ch. (map_of batches ch = None) = (map_of reasons ch = None))"

definition retries_fine :: "(chan, nat) hmap \<Rightarrow> bool" where
  "retries_fine counts \<longleftrightarrow> hwf counts \<and> (\<forall>ch n. map_of counts ch = Some n \<longrightarrow> 1 \<le> n \<and> n \<le> MAX_RETRIES)"

definition queue_ok :: "event_queue \<Rightarrow> bool" where
  "queue_ok q \<longleftrightarrow>
     queues_fine (eq_queues q) \<and> withheld_fine (eq_withheld_native_steer q)
     \<and> in_flight_fine (eq_in_flight_channels q) (eq_in_flight_deadlines q) (eq_in_flight_batch_sizes q)
     \<and> cancel_fine (eq_cancelled_batches q) (eq_cancel_reasons q)
     \<and> retries_fine (eq_retry_counts q) \<and> hwf (eq_retry_after q)"

lemma queue_ok_new: "queue_ok (new_queue mode)"
  by (simp add: queue_ok_def queues_fine_def withheld_fine_def in_flight_fine_def cancel_fine_def
        retries_fine_def new_queue_def queue_fits_def)

lemma queue_fits_Nil [simp]: "queue_fits ch []"
  by (simp add: queue_fits_def)

lemma queues_fine_update [simp, intro]:
  "queues_fine queues \<Longrightarrow> queue_fits ch xs \<Longrightarrow> queues_fine (AList.update ch xs queues)"
  by (simp add: queues_fine_def hmap_simps)

lemma queues_fine_delete [simp, intro]: "queues_fine queues \<Longrightarrow> queues_fine (AList.delete ch queues)"
  by (simp add: queues_fine_def hmap_simps)

lemma queues_fine_put [simp, intro]:
  "queues_fine queues \<Longrightarrow> queue_fits ch xs \<Longrightarrow> queues_fine (put_or_remove ch xs queues)"
  by (simp add: put_or_remove_def)

lemma queues_fine_retain [simp, intro]:
  "queues_fine queues \<Longrightarrow> queues_fine (bucket_retain ch P queues)"
  by (auto simp: queues_fine_def queue_fits_def hmap_simps intro: order_trans [OF length_filter_le])

lemma withheld_fine_edits [simp, intro]:
  assumes "withheld_fine withheld"
  shows "withheld_fine (AList.delete ch withheld)"
    and "withheld_fine (bucket_retain ch P withheld)"
    and "\<forall>qe\<in>set xs. qe_channel_id qe = ch \<Longrightarrow> withheld_fine (put_or_remove ch xs withheld)"
    and "qe_channel_id qe = ch \<Longrightarrow> withheld_fine (bucket_push ch qe withheld)"
  using assms by (auto simp: withheld_fine_def hmap_simps)

lemma in_flight_fine_edits [simp, intro]:
  assumes "in_flight_fine channels deadlines sizes"
  shows "in_flight_fine (channels - {ch}) (AList.delete ch deadlines) (AList.delete ch sizes)"
    and "in_flight_fine (insert ch channels) (AList.update ch t deadlines) (AList.update ch n sizes)"
    and "ch \<in> channels \<Longrightarrow> in_flight_fine channels (AList.update ch t deadlines) sizes"
  using assms by (auto simp: in_flight_fine_def update_conv' delete_conv')

lemma cancel_fine_edits [simp, intro]:
  assumes "cancel_fine batches reasons"
  shows "cancel_fine (AList.delete ch batches) (AList.delete ch reasons)"
    and "cancel_fine (AList.update ch bs batches) (AList.update ch r reasons)"
  using assms by (simp_all add: cancel_fine_def hmap_simps)

lemma retries_fine_edits [simp, intro]:
  assumes "retries_fine counts"
  shows "retries_fine (AList.delete ch counts)"
    and "Suc n \<le> MAX_RETRIES \<Longrightarrow> retries_fine (AList.update ch (Suc n) counts)"
  using assms by (simp_all add: retries_fine_def hmap_simps)

lemma retries_fine_filter [simp, intro]: "retries_fine counts \<Longrightarrow> retries_fine (filter P counts)"
  by (auto simp: retries_fine_def hwf_filter map_of_filter_hwf split: option.splits if_splits)

lemma queue_okD:
  assumes "queue_ok q"
  shows "queues_fine (eq_queues q)" "withheld_fine (eq_withheld_native_steer q)"
    "in_flight_fine (eq_in_flight_channels q) (eq_in_flight_deadlines q) (eq_in_flight_batch_sizes q)"
    "cancel_fine (eq_cancelled_batches q) (eq_cancel_reasons q)"
    "retries_fine (eq_retry_counts q)" "hwf (eq_retry_after q)"
    "queue_fits ch (queue_of ch q)" "queue_fits ch (bucket (eq_queues q) ch)"
    "\<forall>qe\<in>set (bucket (eq_withheld_native_steer q) ch). qe_channel_id qe = ch"
    "hwf (eq_in_flight_deadlines q)" "hwf (eq_queues q)" "hwf (eq_cancelled_batches q)"
  using assms
  by (auto simp: queue_ok_def queues_fine_def queue_of_def withheld_fine_def in_flight_fine_def cancel_fine_def)

lemma queue_fits_take:
  "(\<forall>qe\<in>set xs. qe_channel_id qe = ch) \<Longrightarrow> queue_fits ch (take MAX_PENDING_PER_CHANNEL xs)"
  by (auto simp: queue_fits_def dest: in_set_takeD)

lemma queue_fits_requeue [simp]:
  "queue_fits ch ys \<Longrightarrow> \<forall>qe\<in>set xs. qe_channel_id qe = ch \<Longrightarrow>
     queue_fits ch (take MAX_PENDING_PER_CHANNEL (xs @ ys))"
  by (rule queue_fits_take) (auto simp: queue_fits_def)

lemma queue_fits_drop [simp]: "queue_fits ch xs \<Longrightarrow> queue_fits ch (drop n xs)"
  by (auto simp: queue_fits_def dest: in_set_dropD)

lemma to_queued_event_channel [simp]: "qe_channel_id (to_queued_event ch be) = ch"
  by (simp add: to_queued_event_def)

section \<open>Operations keep the invariant\<close>

lemma recover_ok: "queue_ok q \<Longrightarrow> queue_ok (recover_withheld_for_expired_channel ch q)"
  using queue_okD(9) [of q ch]
  by (auto simp: recover_withheld_for_expired_channel_def queue_ok_def queue_of_def bucket_def
        queues_fine_def hmap_simps simp del: take_append intro!: queue_fits_requeue split: option.split)

lemma expire_channel_ok: "queue_ok q \<Longrightarrow> queue_ok (expire_channel ch q)"
  unfolding expire_channel_def by (rule recover_ok) (simp add: queue_ok_def in_flight_fine_edits)

lemma expire_ok: "queue_ok q \<Longrightarrow> queue_ok (expire_in_flight now q)"
proof -
  have "queue_ok q \<Longrightarrow> queue_ok (fold expire_channel cs q)" for cs
    by (induction cs arbitrary: q) (simp_all add: expire_channel_ok)
  then show "queue_ok q \<Longrightarrow> queue_ok (expire_in_flight now q)"
    by (simp add: expire_in_flight_def Let_def)
qed

lemma set_in_flight_ok [simp]: "queue_ok q \<Longrightarrow> queue_ok (set_in_flight ch now n q)"
  by (simp add: set_in_flight_def queue_ok_def in_flight_fine_edits)

lemma flush_cancelled_ok: "queue_ok q \<Longrightarrow> queue_ok (fst (flush_cancelled now q))"
  by (auto simp: flush_cancelled_def Let_def split: option.split intro!: set_in_flight_ok)
     (simp_all add: queue_ok_def cancel_fine_edits)

lemma flush_channel_ok: "queue_ok q \<Longrightarrow> queue_ok (fst (flush_channel now ch q))"
  using queue_okD(7) [of q ch]
  by (simp add: flush_channel_def Let_def queue_ok_def set_in_flight_def cancel_fine_edits in_flight_fine_edits
        del: drop_eq_Nil)

lemma flush_next_ok: "queue_ok q \<Longrightarrow> queue_ok (fst (flush_next now q))"
  by (auto simp: flush_next_def Let_def expire_ok flush_channel_ok flush_cancelled_ok case_prod_beta
        split: option.split)

lemma push_ok: "queue_ok q \<Longrightarrow> queue_ok (fst (push event q))"
proof -
  assume q: "queue_ok q"
  let ?ch = "qe_channel_id event"
  have "queue_fits ?ch ((if length (queue_of ?ch q) \<ge> MAX_PENDING_PER_CHANNEL
                         then tl (queue_of ?ch q) else queue_of ?ch q) @ [event])"
    using queue_okD(7) [OF q, of ?ch]
    by (cases "queue_of ?ch q") (simp_all add: queue_fits_def MAX_PENDING_PER_CHANNEL_def)
  then show ?thesis using q by (simp add: push_def Let_def queue_ok_def)
qed

lemma requeue_ok: "queue_ok q \<Longrightarrow> queue_ok (fst (requeue delay now batch q))"
  using queue_okD(7) [of q "fb_channel_id batch"]
  by (simp add: requeue_def Let_def queue_ok_def retries_fine_edits del: take_append)

lemma requeue_preserve_ok: "queue_ok q \<Longrightarrow> queue_ok (requeue_preserve_timestamps batch q)"
  using queue_okD(7) [of q "fb_channel_id batch"]
  by (simp add: requeue_preserve_timestamps_def Let_def queue_ok_def del: take_append)

lemma take_event_channels:
  assumes "take_event i xs = Some (x, rest)" and "\<forall>qe\<in>set xs. qe_channel_id qe = ch"
  shows "qe_channel_id x = ch" and "\<forall>qe\<in>set rest. qe_channel_id qe = ch"
proof -
  from take_event_SomeD [OF assms(1)] have "set xs = insert x (set rest)"
    by (metis set_mset_add_mset_insert set_mset_mset)
  with assms(2) show "qe_channel_id x = ch" "\<forall>qe\<in>set rest. qe_channel_id qe = ch" by simp_all
qed

text \<open>The two moves of the steer side table, by cases on what they find.\<close>

lemma withhold_cases:
  assumes "mark_native_steer_pending ch i q = (q', r)"
  obtains (absent) "q' = q" and "\<not> r"
  | (found) qe rest where "take_event i (queue_of ch q) = Some (qe, rest)" and "r"
      and "q' = q\<lparr>eq_queues := put_or_remove ch rest (eq_queues q),
                  eq_withheld_native_steer := bucket_push ch qe (eq_withheld_native_steer q)\<rparr>"
proof (cases "map_of (eq_queues q) ch")
  case None
  with assms absent show ?thesis by (simp add: mark_native_steer_pending_def)
next
  case queue: (Some queue)
  then have "queue_of ch q = queue" by (simp add: queue_of_def bucket_def)
  show ?thesis
  proof (cases "take_event i queue")
    case None
    with assms absent queue show ?thesis by (simp add: mark_native_steer_pending_def)
  next
    case (Some p)
    obtain qe rest where p: "p = (qe, rest)" by fastforce
    show ?thesis
      by (rule found [of qe rest])
         (use Some p assms queue \<open>queue_of ch q = queue\<close> in \<open>simp_all add: mark_native_steer_pending_def\<close>)
  qed
qed

lemma release_cases:
  obtains (absent) "release_native_steer ch i q = q"
  | (found) qe rest where "take_event i (bucket (eq_withheld_native_steer q) ch) = Some (qe, rest)"
      and "release_native_steer ch i q
        = q\<lparr>eq_withheld_native_steer := put_or_remove ch rest (eq_withheld_native_steer q),
             eq_queues := AList.update ch (take MAX_PENDING_PER_CHANNEL (qe # queue_of ch q)) (eq_queues q)\<rparr>"
proof (cases "map_of (eq_withheld_native_steer q) ch")
  case None
  with absent show ?thesis by (simp add: release_native_steer_def)
next
  case entries: (Some entries)
  then have eq: "bucket (eq_withheld_native_steer q) ch = entries" by (simp add: bucket_def)
  show ?thesis
  proof (cases "take_event i entries")
    case None
    with absent entries show ?thesis by (simp add: release_native_steer_def)
  next
    case (Some p)
    obtain qe rest where p: "p = (qe, rest)" by fastforce
    show ?thesis
      by (rule found [of qe rest]) (use Some p entries eq in \<open>simp_all add: release_native_steer_def\<close>)
  qed
qed

lemma withhold_ok: "queue_ok q \<Longrightarrow> queue_ok (fst (mark_native_steer_pending ch i q))"
proof -
  assume q: "queue_ok q"
  obtain q' r where run: "mark_native_steer_pending ch i q = (q', r)" by fastforce
  from run show ?thesis
  proof (cases rule: withhold_cases)
    case absent
    with run q show ?thesis by simp
  next
    case (found qe rest)
    from queue_okD(7) [OF q, of ch]
    have len: "length (queue_of ch q) \<le> MAX_PENDING_PER_CHANNEL"
      and chs: "\<forall>x\<in>set (queue_of ch q). qe_channel_id x = ch" by (simp_all add: queue_fits_def)
    from take_event_SomeD [OF found(1)] have "length rest < length (queue_of ch q)" by blast
    with take_event_channels [OF found(1) chs] len
    have "qe_channel_id qe = ch" "queue_fits ch rest" by (simp_all add: queue_fits_def)
    with q run found(3) show ?thesis by (simp add: queue_ok_def)
  qed
qed

lemma release_ok: "queue_ok q \<Longrightarrow> queue_ok (release_native_steer ch i q)"
proof -
  assume q: "queue_ok q"
  show ?thesis
  proof (cases rule: release_cases [of ch i q])
    case absent
    with q show ?thesis by simp
  next
    case (found qe rest)
    from take_event_channels [OF found(1) queue_okD(9) [OF q]]
    have "qe_channel_id qe = ch" "\<forall>x\<in>set rest. qe_channel_id x = ch" .
    moreover have "queue_fits ch (take MAX_PENDING_PER_CHANNEL ([qe] @ queue_of ch q))"
      using calculation queue_okD(7) [OF q, of ch] by (intro queue_fits_requeue) simp_all
    ultimately show ?thesis using q found(2) by (simp add: queue_ok_def)
  qed
qed

lemma other_ops_ok:
  assumes "queue_ok q"
  shows "queue_ok (extend_in_flight_deadline ch secs now q)"
    and "queue_ok (mark_complete ch now q)"
    and "queue_ok (requeue_as_cancelled batch reason q)"
    and "queue_ok (fst (has_flushable_work now q))"
    and "queue_ok (fst (drain_channel ch q))"
    and "queue_ok (remove_event ch i q)"
    and "queue_ok (compact_expired_state now q)"
proof -
  show "queue_ok (extend_in_flight_deadline ch secs now q)"
    using assms by (auto simp: extend_in_flight_deadline_def queue_ok_def Let_def in_flight_fine_def
        update_conv' split: option.split)
  show "queue_ok (mark_complete ch now q)"
    using assms by (auto simp: mark_complete_def queue_ok_def Let_def split: option.split)
  show "queue_ok (requeue_as_cancelled batch reason q)"
    using assms by (simp add: requeue_as_cancelled_def queue_ok_def Let_def cancel_fine_edits)
  show "queue_ok (fst (has_flushable_work now q))"
    using assms by (simp add: has_flushable_work_def Let_def expire_ok)
  show "queue_ok (fst (drain_channel ch q))" and "queue_ok (remove_event ch i q)"
    using assms by (simp_all add: drain_channel_def remove_event_def queue_ok_def cancel_fine_edits)
  show "queue_ok (compact_expired_state now q)"
    using assms by (simp add: compact_expired_state_def queue_ok_def Let_def hwf_filter)
qed

section \<open>Reachable queues\<close>

datatype queue_op =
    OpPush queued_event
  | OpExtend chan nat nat
  | OpFlush nat
  | OpProbe nat
  | OpComplete chan nat
  | OpRequeue "nat \<Rightarrow> nat" nat flush_batch
  | OpPreserve flush_batch
  | OpCancelled flush_batch cancel_reason
  | OpDrain chan
  | OpWithhold chan string
  | OpRelease chan string
  | OpRemove chan string
  | OpCompact nat

fun queue_step :: "queue_op \<Rightarrow> event_queue \<Rightarrow> event_queue" where
  "queue_step (OpPush event) q = fst (push event q)"
| "queue_step (OpExtend ch secs now) q = extend_in_flight_deadline ch secs now q"
| "queue_step (OpFlush now) q = fst (flush_next now q)"
| "queue_step (OpProbe now) q = fst (has_flushable_work now q)"
| "queue_step (OpComplete ch now) q = mark_complete ch now q"
| "queue_step (OpRequeue delay now batch) q = fst (requeue delay now batch q)"
| "queue_step (OpPreserve batch) q = requeue_preserve_timestamps batch q"
| "queue_step (OpCancelled batch reason) q = requeue_as_cancelled batch reason q"
| "queue_step (OpDrain ch) q = fst (drain_channel ch q)"
| "queue_step (OpWithhold ch i) q = fst (mark_native_steer_pending ch i q)"
| "queue_step (OpRelease ch i) q = release_native_steer ch i q"
| "queue_step (OpRemove ch i) q = remove_event ch i q"
| "queue_step (OpCompact now) q = compact_expired_state now q"

definition queue_start :: "event_queue \<Rightarrow> bool" where
  "queue_start q \<longleftrightarrow>
     (\<exists>mode. q = new_queue mode \<or> (\<exists>secs. q = with_in_flight_deadline secs (new_queue mode)))"

lemma queue_start_ok: "queue_start q \<Longrightarrow> queue_ok q"
  using queue_ok_new by (auto simp: queue_start_def with_in_flight_deadline_def queue_ok_def)

interpretation acp: invariant_machine queue_step queue_start queue_ok
proof
  show "queue_start q \<Longrightarrow> queue_ok q" for q by (rule queue_start_ok)
  show "queue_ok q \<Longrightarrow> queue_ok (queue_step a q)" for q a
    by (cases a) (simp_all add: push_ok flush_next_ok requeue_ok requeue_preserve_ok withhold_ok
        release_ok other_ops_ok)
qed

section \<open>Accounting of the held events\<close>

definition held :: "event_queue \<Rightarrow> chan \<Rightarrow> batch_event multiset" where
  "held q ch =
     image_mset to_batch_event (mset (queue_of ch q)) + mset (bucket (eq_cancelled_batches q) ch)
     + image_mset to_batch_event (mset (bucket (eq_withheld_native_steer q) ch))"

definition batch_content :: "flush_batch \<Rightarrow> chan \<Rightarrow> batch_event multiset" where
  "batch_content b ch =
     (if ch = fb_channel_id b then mset (fb_events b) + mset (fb_cancelled_events b) else {#})"

definition delivered :: "flush_batch option \<Rightarrow> chan \<Rightarrow> batch_event multiset" where
  "delivered r ch = (case r of None \<Rightarrow> {#} | Some b \<Rightarrow> batch_content b ch)"

text \<open>What an operation hands to the queue, and what it takes out of it for the agent.\<close>

fun handed_in :: "chan \<Rightarrow> queue_op \<Rightarrow> batch_event multiset" where
  "handed_in ch (OpPush event) = (if ch = qe_channel_id event then {#to_batch_event event#} else {#})"
| "handed_in ch (OpRequeue delay now batch) = batch_content batch ch"
| "handed_in ch (OpPreserve batch) = batch_content batch ch"
| "handed_in ch (OpCancelled batch reason) = batch_content batch ch"
| "handed_in ch _ = {#}"

fun handed_out :: "chan \<Rightarrow> queue_op \<Rightarrow> event_queue \<Rightarrow> batch_event multiset" where
  "handed_out ch (OpFlush now) q = delivered (snd (flush_next now q)) ch"
| "handed_out ch _ q = {#}"

fun all_out :: "chan \<Rightarrow> queue_op list \<Rightarrow> event_queue \<Rightarrow> batch_event multiset" where
  "all_out ch [] q = {#}"
| "all_out ch (op # ops) q = handed_out ch op q + all_out ch ops (queue_step op q)"

lemma queue_of_simps [simp]:
  "queue_of c (set_in_flight ch now n q) = queue_of c q"
  "queue_of c (q\<lparr>eq_cancelled_batches := x1\<rparr>) = queue_of c q"
  "queue_of c (q\<lparr>eq_cancel_reasons := x2\<rparr>) = queue_of c q"
  "queue_of c (q\<lparr>eq_withheld_native_steer := x3\<rparr>) = queue_of c q"
  "queue_of c (q\<lparr>eq_retry_after := x4\<rparr>) = queue_of c q"
  "queue_of c (q\<lparr>eq_retry_counts := x5\<rparr>) = queue_of c q"
  "queue_of c (q\<lparr>eq_in_flight_channels := x6\<rparr>) = queue_of c q"
  "queue_of c (q\<lparr>eq_in_flight_deadlines := x4\<rparr>) = queue_of c q"
  "queue_of c (q\<lparr>eq_in_flight_batch_sizes := x5\<rparr>) = queue_of c q"
  "queue_of c (q\<lparr>eq_queues := x7\<rparr>) = bucket x7 c"
  by (simp_all add: queue_of_def set_in_flight_def)

lemma set_in_flight_frame [simp]:
  "eq_cancelled_batches (set_in_flight ch now n q) = eq_cancelled_batches q"
  "eq_cancel_reasons (set_in_flight ch now n q) = eq_cancel_reasons q"
  "eq_withheld_native_steer (set_in_flight ch now n q) = eq_withheld_native_steer q"
  "eq_retry_after (set_in_flight ch now n q) = eq_retry_after q"
  "eq_retry_counts (set_in_flight ch now n q) = eq_retry_counts q"
  "eq_in_flight_channels (set_in_flight ch now n q) = insert ch (eq_in_flight_channels q)"
  "eq_in_flight_deadlines (set_in_flight ch now n q)
     = AList.update ch (now + eq_in_flight_deadline q) (eq_in_flight_deadlines q)"
  "eq_in_flight_batch_sizes (set_in_flight ch now n q) = AList.update ch n (eq_in_flight_batch_sizes q)"
  "eq_in_flight_deadline (set_in_flight ch now n q) = eq_in_flight_deadline q"
  "eq_queues (set_in_flight ch now n q) = eq_queues q"
  by (simp_all add: set_in_flight_def)

lemma mset_take_le: "mset (take n xs) \<subseteq># mset xs"
  by (metis append_take_drop_id mset_append mset_subset_eq_add_left)

lemma mset_filter_le: "mset (filter P xs) \<subseteq># mset xs"
  by simp

text \<open>Recovery moves the withheld events of an expired channel to its queue, as far as they fit.\<close>

lemma recovered_queue_mset:
  "mset (recovered_queue q ch) \<subseteq># mset (bucket (eq_withheld_native_steer q) ch) + mset (queue_of ch q)"
  using mset_take_le [of MAX_PENDING_PER_CHANNEL "bucket (eq_withheld_native_steer q) ch @ queue_of ch q"]
  by (simp add: recovered_queue_def bucket_def del: take_append split: option.split)

lemma recovered_queue_mset_fits:
  assumes "length (bucket (eq_withheld_native_steer q) ch) + length (queue_of ch q) \<le> MAX_PENDING_PER_CHANNEL"
  shows "mset (recovered_queue q ch) = mset (bucket (eq_withheld_native_steer q) ch) + mset (queue_of ch q)"
  using assms by (auto simp: recovered_queue_def bucket_def split: option.split)

lemma held_expire:
  assumes "hwf (eq_in_flight_deadlines q)"
  shows "held (expire_in_flight now q) ch \<subseteq># held q ch"
proof (cases "ch \<in> expired_channels now q")
  case True
  then have "held (expire_in_flight now q) ch
      = image_mset to_batch_event (mset (recovered_queue q ch)) + mset (bucket (eq_cancelled_batches q) ch)"
    by (simp add: held_def expire_look(4,5) [OF assms] bucket_def [of "eq_withheld_native_steer (expire_in_flight now q)"])
  with image_mset_subseteq_mono [OF recovered_queue_mset [of q ch], of to_batch_event] show ?thesis
    by (simp add: held_def ac_simps)
next
  case False
  then show ?thesis by (simp add: held_def bucket_def expire_look(4,5) [OF assms])
qed

lemma held_expire_fits:
  assumes "hwf (eq_in_flight_deadlines q)"
    and "ch \<in> expired_channels now q \<Longrightarrow>
      length (bucket (eq_withheld_native_steer q) ch) + length (queue_of ch q) \<le> MAX_PENDING_PER_CHANNEL"
  shows "held (expire_in_flight now q) ch = held q ch"
proof (cases "ch \<in> expired_channels now q")
  case True
  then have "held (expire_in_flight now q) ch
      = image_mset to_batch_event (mset (recovered_queue q ch)) + mset (bucket (eq_cancelled_batches q) ch)"
    by (simp add: held_def expire_look(4,5) [OF assms(1)] bucket_def [of "eq_withheld_native_steer (expire_in_flight now q)"])
  then show ?thesis by (simp add: held_def recovered_queue_mset_fits [OF assms(2) [OF True]] ac_simps)
next
  case False
  then show ?thesis by (simp add: held_def bucket_def expire_look(4,5) [OF assms(1)])
qed

text \<open>Past expiry a flush moves events out and loses none.\<close>

lemma held_flush_cancelled:
  assumes "flush_cancelled now q = (q', r)"
  shows "held q' ch + delivered r ch = held q ch"
proof (cases "find (\<lambda>ch. ch \<notin> eq_in_flight_channels q) (map fst (eq_cancelled_batches q))")
  case None
  with assms show ?thesis by (simp add: flush_cancelled_def delivered_def)
next
  case (Some c)
  define b where "b = \<lparr>fb_channel_id = c, fb_events = bucket (eq_cancelled_batches q) c,
    fb_cancelled_events = [], fb_cancel_reason = map_of (eq_cancel_reasons q) c\<rparr>"
  define n where "n = length (bucket (eq_cancelled_batches q) c)"
  from Some assms have r: "r = Some b" and q': "q' = set_in_flight c now n
      (q\<lparr>eq_cancelled_batches := AList.delete c (eq_cancelled_batches q),
         eq_cancel_reasons := AList.delete c (eq_cancel_reasons q)\<rparr>)"
    by (simp_all add: flush_cancelled_def Let_def bucket_def b_def n_def)
  show ?thesis by (simp add: r q' b_def held_def delivered_def batch_content_def bucket_delete ac_simps)
qed

lemma held_flush_channel:
  assumes "flush_channel now c q = (q', b)"
  shows "held q' ch + delivered (Some b) ch = held q ch"
proof -
  have split: "image_mset to_batch_event (mset (take n xs)) + image_mset to_batch_event (mset (drop n xs))
      = image_mset to_batch_event (mset xs)" for n xs
    by (metis append_take_drop_id image_mset_union mset_append)
  have b: "fb_channel_id b = c"
    "mset (fb_events b) = image_mset to_batch_event (mset (take (min MAX_BATCH_EVENTS (length (queue_of c q))) (queue_of c q)))"
    "fb_cancelled_events b = bucket (eq_cancelled_batches q) c"
    using assms by (auto simp: flush_channel_def Let_def bucket_def)
  have q': "queue_of ch q' = (if ch = c then drop (min MAX_BATCH_EVENTS (length (queue_of c q))) (queue_of c q)
                              else queue_of ch q)"
    "bucket (eq_cancelled_batches q') ch = (if ch = c then [] else bucket (eq_cancelled_batches q) ch)"
    "eq_withheld_native_steer q' = eq_withheld_native_steer q"
    using assms by (auto simp: flush_channel_def Let_def hmap_simps queue_of_def [symmetric])
  show ?thesis
    using split [of "min MAX_BATCH_EVENTS (length (queue_of c q))" "queue_of c q"]
    by (simp add: held_def delivered_def batch_content_def b q' ac_simps)
qed

lemma held_flush_next:
  "held (fst (flush_next now q)) ch + delivered (snd (flush_next now q)) ch = held (expire_in_flight now q) ch"
  by (auto simp: flush_next_def Let_def held_flush_channel held_flush_cancelled
        split: option.split prod.split)

text \<open>Editing the queue and the withheld list of one channel.\<close>

lemma held_other:
  assumes "queue_of ch q' = queue_of ch q" and "bucket (eq_cancelled_batches q') ch = bucket (eq_cancelled_batches q) ch"
    and "bucket (eq_withheld_native_steer q') ch = bucket (eq_withheld_native_steer q) ch"
  shows "held q' ch = held q ch"
  using assms by (simp add: held_def)

lemma held_push: "held (fst (push event q)) ch \<subseteq># held q ch + handed_in ch (OpPush event)"
proof (cases "ch = qe_channel_id event")
  case True
  have "mset (tl xs) \<subseteq># mset xs" for xs :: "queued_event list"
    by (cases xs) simp_all
  from image_mset_subseteq_mono [OF this, of to_batch_event] True show ?thesis
    by (auto simp: push_def Let_def held_def bucket_update queue_of_def [symmetric] ac_simps)
next
  case False
  then show ?thesis by (auto simp: push_def Let_def held_def bucket_update queue_of_def [symmetric])
qed

lemma to_batch_to_queued [simp]: "to_batch_event (to_queued_event ch x) = x"
  by (simp add: to_batch_event_def to_queued_event_def)

lemma held_front:
  assumes "q' = q\<lparr>eq_queues := AList.update c (take n (map (to_queued_event c) bs @ queue_of c q)) (eq_queues q)\<rparr>"
  shows "held q' ch \<subseteq># held q ch + (if ch = c then mset bs else {#})"
    and "length bs + length (queue_of c q) \<le> n \<Longrightarrow> held q' ch = held q ch + (if ch = c then mset bs else {#})"
proof -
  show "held q' ch \<subseteq># held q ch + (if ch = c then mset bs else {#})"
    using image_mset_subseteq_mono [OF mset_take_le [of n "map (to_queued_event c) bs @ queue_of c q"], of to_batch_event]
    by (simp add: assms held_def bucket_update queue_of_def [symmetric] image_mset.compositionality comp_def ac_simps
        del: take_append take_map)
  show "held q' ch = held q ch + (if ch = c then mset bs else {#})" if "length bs + length (queue_of c q) \<le> n"
    using that
    by (simp add: assms held_def bucket_update queue_of_def [symmetric] image_mset.compositionality comp_def ac_simps)
qed

lemma held_frame_simps [simp]:
  "held (q\<lparr>eq_retry_after := t\<rparr>) ch = held q ch"
  "held (q\<lparr>eq_retry_counts := n\<rparr>) ch = held q ch"
  by (simp_all add: held_def)

lemma held_requeue: "held (fst (requeue delay now batch q)) ch \<subseteq># held q ch + batch_content batch ch"
proof (cases "snd (requeue delay now batch q)")
  case None
  define q1 where "q1 = q\<lparr>eq_queues := AList.update (fb_channel_id batch)
      (take MAX_PENDING_PER_CHANNEL (map (to_queued_event (fb_channel_id batch)) (fb_events batch)
         @ queue_of (fb_channel_id batch) q)) (eq_queues q)\<rparr>"
  have "held (fst (requeue delay now batch q)) ch = held q1 ch"
    using None by (simp add: requeue_def Let_def q1_def held_def split: if_splits)
  also have "\<dots> \<subseteq># held q ch + (if ch = fb_channel_id batch then mset (fb_events batch) else {#})"
    by (rule held_front(1) [OF q1_def])
  finally show ?thesis
    by (rule subset_mset.order_trans) (simp add: batch_content_def)
next
  case (Some b)
  then show ?thesis by (simp add: requeue_def Let_def held_def split: if_splits)
qed

lemma held_preserve: "held (requeue_preserve_timestamps batch q) ch \<subseteq># held q ch + batch_content batch ch"
proof -
  have "held (requeue_preserve_timestamps batch q) ch
      \<subseteq># held q ch + (if ch = fb_channel_id batch then mset (fb_events batch) else {#})"
    by (rule held_front(1)) (simp add: requeue_preserve_timestamps_def Let_def del: take_append)
  then show ?thesis by (rule subset_mset.order_trans) (simp add: batch_content_def)
qed

lemma held_cancelled: "held (requeue_as_cancelled batch reason q) ch = held q ch + batch_content batch ch"
  by (simp add: requeue_as_cancelled_def Let_def held_def batch_content_def bucket_def hmap_simps ac_simps
        split: option.split)

lemma held_withhold:
  assumes "mark_native_steer_pending c i q = (q', r)"
  shows "held q' ch = held q ch"
  using assms
proof (cases rule: withhold_cases)
  case (found qe rest)
  from take_event_SomeD [OF found(1)] have "mset (queue_of c q) = add_mset qe (mset rest)" by blast
  with found(3) show ?thesis
    by (cases "ch = c")
       (simp_all add: held_def bucket_put_or_remove bucket_push_look queue_of_def [symmetric] ac_simps)
qed simp

lemma held_release: "held (release_native_steer c i q) ch \<subseteq># held q ch"
proof (cases rule: release_cases [of c i q])
  case (found qe rest)
  from take_event_SomeD [OF found(1)]
  have m: "mset (bucket (eq_withheld_native_steer q) c) = add_mset qe (mset rest)" by blast
  have "mset (take MAX_PENDING_PER_CHANNEL (qe # queue_of c q)) \<subseteq># add_mset qe (mset (queue_of c q))"
    using mset_take_le [of _ "qe # queue_of c q"] by simp
  from image_mset_subseteq_mono [OF this, of to_batch_event] show ?thesis
    by (simp add: found(2) held_def bucket_put_or_remove bucket_update queue_of_def [symmetric] m ac_simps)
qed simp

lemma held_rest:
  "held (extend_in_flight_deadline c secs now q) ch = held q ch"
  "held (mark_complete c now q) ch = held q ch"
  "held (compact_expired_state now q) ch = held q ch"
  by (simp_all add: held_def extend_in_flight_deadline_def mark_complete_def compact_expired_state_def Let_def
        queue_of_def split: option.split)

lemma held_drain: "held (fst (drain_channel c q)) ch = (if ch = c then {#} else held q ch)"
  by (simp add: held_def drain_channel_def bucket_delete queue_of_def)

lemma held_remove: "held (remove_event c i q) ch \<subseteq># held q ch"
proof -
  have "image_mset to_batch_event (mset (filter P xs)) \<subseteq># image_mset to_batch_event (mset xs)" for P xs
    by (rule image_mset_subseteq_mono) simp
  then show ?thesis
    by (simp add: held_def remove_event_def bucket_retain_look queue_of_def subset_mset.add_mono)
qed

lemma held_step:
  assumes "queue_ok q"
  shows "handed_out ch op q + held (queue_step op q) ch \<subseteq># held q ch + handed_in ch op"
proof (cases op)
  case (OpFlush now)
  with held_flush_next [of now q ch] held_expire [OF queue_okD(10) [OF assms], of now ch] show ?thesis
    by (simp add: ac_simps)
next
  case (OpProbe now)
  with held_expire [OF queue_okD(10) [OF assms], of now ch] show ?thesis
    by (simp add: has_flushable_work_def Let_def)
next
  case (OpWithhold c i)
  obtain q' r where "mark_native_steer_pending c i q = (q', r)" by fastforce
  with OpWithhold held_withhold [OF this] show ?thesis by simp
qed (use held_push held_requeue held_preserve held_remove held_release in
      \<open>simp_all add: held_rest held_cancelled held_drain\<close>)

lemma accounting:
  "queue_ok q \<Longrightarrow> all_out ch ops q + held (fold queue_step ops q) ch \<subseteq># held q ch + sum_list (map (handed_in ch) ops)"
proof (induction ops arbitrary: q)
  case Nil
  then show ?case by simp
next
  case (Cons op ops)
  let ?q = "queue_step op q"
  from Cons.IH [OF acp.inv_step [OF Cons.prems, of op]]
  have "all_out ch ops ?q + held (fold queue_step ops ?q) ch \<subseteq># held ?q ch + sum_list (map (handed_in ch) ops)" .
  then have "handed_out ch op q + (all_out ch ops ?q + held (fold queue_step ops ?q) ch)
      \<subseteq># handed_out ch op q + held ?q ch + sum_list (map (handed_in ch) ops)"
    by (simp add: ac_simps)
  also have "\<dots> \<subseteq># held q ch + handed_in ch op + sum_list (map (handed_in ch) ops)"
    using held_step [OF Cons.prems, of ch op] by simp
  finally show ?case by (simp add: ac_simps)
qed

section \<open>What a flush returns\<close>

lemma flush_next_cases:
  assumes wf: "hwf (eq_queues (expire_in_flight now q))"
  obtains (main) ch where "snd (flush_next now q) = Some (snd (flush_channel now ch (expire_in_flight now q)))"
      and "fst (flush_next now q) = fst (flush_channel now ch (expire_in_flight now q))"
      and "flushable now (expire_in_flight now q) (ch, queue_of ch (expire_in_flight now q))"
      and "\<forall>kv\<in>set (eq_queues (expire_in_flight now q)). flushable now (expire_in_flight now q) kv \<longrightarrow>
             qe_received_at (hd (queue_of ch (expire_in_flight now q))) \<le> head_received_at kv"
  | (cancelled) ch where "ch \<notin> eq_in_flight_channels (expire_in_flight now q)"
      and "map_of (eq_cancelled_batches q) ch \<noteq> None"
      and "flush_next now q = flush_cancelled now (expire_in_flight now q)"
      and "find (\<lambda>ch. ch \<notin> eq_in_flight_channels (expire_in_flight now q)) (map fst (eq_cancelled_batches q)) = Some ch"
      and "\<not> list_ex (flushable now (expire_in_flight now q)) (eq_queues (expire_in_flight now q))"
  | (idle) "flush_next now q = (expire_in_flight now q, None)"
      and "\<not> list_ex (flushable now (expire_in_flight now q)) (eq_queues (expire_in_flight now q))"
      and "\<not> list_ex (\<lambda>ch. ch \<notin> eq_in_flight_channels (expire_in_flight now q)) (map fst (eq_cancelled_batches q))"
proof -
  let ?q = "expire_in_flight now q"
  let ?cands = "filter (flushable now ?q) (eq_queues ?q)"
  show thesis
  proof (cases "min_by_key head_received_at ?cands")
    case (Some kv)
    obtain ch xs where kv: "kv = (ch, xs)" by fastforce
    from min_by_key_Some [OF Some] kv have mem: "(ch, xs) \<in> set (eq_queues ?q)" "flushable now ?q (ch, xs)"
      and least: "\<forall>y\<in>set (eq_queues ?q). flushable now ?q y \<longrightarrow> head_received_at (ch, xs) \<le> head_received_at y"
      by auto
    from mem(1) wf have xs: "queue_of ch ?q = xs" by (simp add: queue_of_def bucket_def hwf_map_of_iff [symmetric])
    show thesis
      by (rule main [of ch])
         (use Some kv mem least xs in \<open>simp_all add: flush_next_def Let_def case_prod_beta head_received_at_def\<close>)
  next
    case None
    then have none: "\<not> list_ex (flushable now ?q) (eq_queues ?q)"
      by (simp add: filter_empty_conv list_ex_iff)
    have fn: "flush_next now q = flush_cancelled now ?q"
      using None by (simp only: flush_next_def Let_def) simp
    show thesis
    proof (cases "find (\<lambda>ch. ch \<notin> eq_in_flight_channels ?q) (map fst (eq_cancelled_batches q))")
      case find: None
      show thesis
      proof (rule idle)
        show "flush_next now q = (?q, None)" using fn find by (simp add: flush_cancelled_def)
      qed (use none find in \<open>simp_all add: find_None_iff_list_ex\<close>)
    next
      case (Some ch)
      then have "ch \<notin> eq_in_flight_channels ?q" and "ch \<in> set (map fst (eq_cancelled_batches q))"
        by (auto simp: find_Some_iff)
      then show thesis
        by (intro cancelled [of ch]) (use fn Some none in \<open>simp_all add: map_of_eq_None_iff\<close>)
    qed
  qed
qed

lemma flush_cancelled_result:
  assumes "find (\<lambda>ch. ch \<notin> eq_in_flight_channels q) (map fst (eq_cancelled_batches q)) = Some ch"
  shows "flush_cancelled now q =
    (set_in_flight ch now (length (bucket (eq_cancelled_batches q) ch))
       (q\<lparr>eq_cancelled_batches := AList.delete ch (eq_cancelled_batches q),
          eq_cancel_reasons := AList.delete ch (eq_cancel_reasons q)\<rparr>),
     Some \<lparr>fb_channel_id = ch, fb_events = bucket (eq_cancelled_batches q) ch, fb_cancelled_events = [],
           fb_cancel_reason = map_of (eq_cancel_reasons q) ch\<rparr>)"
  using assms by (simp add: flush_cancelled_def Let_def bucket_def)

lemma flush_channel_result:
  fixes q ch
  defines "taken \<equiv> take MAX_BATCH_EVENTS (queue_of ch q)"
    and "cancelled \<equiv> bucket (eq_cancelled_batches q) ch"
  shows "snd (flush_channel now ch q) =
      \<lparr>fb_channel_id = ch, fb_events = sort_key (\<lambda>be. ev_created_at (be_event be)) (map to_batch_event taken),
       fb_cancelled_events = cancelled,
       fb_cancel_reason = (if cancelled = [] then None else map_of (eq_cancel_reasons q) ch)\<rparr>"
    and "eq_in_flight_channels (fst (flush_channel now ch q)) = insert ch (eq_in_flight_channels q)"
    and "map_of (eq_in_flight_deadlines (fst (flush_channel now ch q))) ch = Some (now + eq_in_flight_deadline q)"
    and "queue_of ch (fst (flush_channel now ch q)) = drop MAX_BATCH_EVENTS (queue_of ch q)"
proof -
  have tk: "take (min n (length xs)) xs = take n xs" and dp: "drop (min n (length xs)) xs = drop n xs"
    for n and xs :: "queued_event list" by (simp_all add: min_def)
  show "snd (flush_channel now ch q) =
      \<lparr>fb_channel_id = ch, fb_events = sort_key (\<lambda>be. ev_created_at (be_event be)) (map to_batch_event taken),
       fb_cancelled_events = cancelled,
       fb_cancel_reason = (if cancelled = [] then None else map_of (eq_cancel_reasons q) ch)\<rparr>"
    by (simp add: flush_channel_def Let_def tk taken_def cancelled_def bucket_def split: option.split)
  show "eq_in_flight_channels (fst (flush_channel now ch q)) = insert ch (eq_in_flight_channels q)"
    and "map_of (eq_in_flight_deadlines (fst (flush_channel now ch q))) ch = Some (now + eq_in_flight_deadline q)"
    by (simp_all add: flush_channel_def Let_def hget_update)
  show "queue_of ch (fst (flush_channel now ch q)) = drop MAX_BATCH_EVENTS (queue_of ch q)"
    by (simp add: flush_channel_def Let_def dp hmap_simps del: drop_eq_Nil)
qed

section \<open>Sequences of operations\<close>

definition reached :: "dedup_mode \<Rightarrow> nat \<Rightarrow> queue_op list \<Rightarrow> event_queue" where
  "reached mode secs ops = fold queue_step ops (with_in_flight_deadline secs (new_queue mode))"

lemma reached_ok: "queue_ok (reached mode secs ops)"
  unfolding reached_def by (rule acp.inv_reachable) (auto simp: queue_start_def)

lemma in_flight_dom:
  "queue_ok q \<Longrightarrow> ch \<in> eq_in_flight_channels q \<longleftrightarrow> map_of (eq_in_flight_deadlines q) ch \<noteq> None"
  using queue_okD(3) [of q] by (auto simp: in_flight_fine_def dom_def)

section \<open>Concrete runs\<close>

definition sample_event :: "string \<Rightarrow> nat \<Rightarrow> queued_event" where
  "sample_event i t =
     \<lparr>qe_channel_id = ''c'',
      qe_event = \<lparr>ev_id = i, ev_pubkey = ''a'', ev_created_at = t, ev_kind = 9, ev_tags = [], ev_content = []\<rparr>,
      qe_received_at = t, qe_prompt_tag = ''all''\<rparr>"

text \<open>Two queued events; and an interrupted request of one event with a new one queued behind it.\<close>

definition sample_ops :: "queue_op list" where
  "sample_ops = [OpPush (sample_event ''1'' 5), OpPush (sample_event ''2'' 3)]"

definition sample_batch :: "flush_batch" where
  "sample_batch = \<lparr>fb_channel_id = ''c'', fb_events = [to_batch_event (sample_event ''1'' 5)],
     fb_cancelled_events = [], fb_cancel_reason = None\<rparr>"

definition cancel_ops :: "queue_op list" where
  "cancel_ops = [OpPush (sample_event ''1'' 5), OpFlush 6, OpCancelled sample_batch Steer,
     OpComplete ''c'' 7, OpPush (sample_event ''2'' 8)]"

lemmas queue_run = reached_def new_queue_def with_in_flight_deadline_def push_def Let_def queue_of_def bucket_def
  flush_next_def flush_channel_def expire_in_flight_def flushable_def set_in_flight_def min_def
  MAX_PENDING_PER_CHANNEL_def MAX_BATCH_EVENTS_def requeue_as_cancelled_def mark_complete_def from_secs_def
  IN_FLIGHT_DEADLINE_BUFFER_SECS_def

lemma sample_run:
  "queue_of c (reached Queue 0 sample_ops)
     = (if c = ''c'' then [sample_event ''1'' 5, sample_event ''2'' 3] else [])"
  "eq_queues (reached Queue 0 sample_ops) = [(''c'', [sample_event ''1'' 5, sample_event ''2'' 3])]"
  "eq_withheld_native_steer (reached Queue 0 sample_ops) = []"
  "eq_cancelled_batches (reached Queue 0 sample_ops) = []"
  by (simp_all add: queue_run sample_ops_def sample_event_def)

lemma sample_flush:
  "fb_channel_id (the (snd (flush_next 10 (reached Queue 0 sample_ops)))) = ''c''"
  "flush_next 10 (reached Queue 0 sample_ops)
     = (fst (flush_next 10 (reached Queue 0 sample_ops)), Some (the (snd (flush_next 10 (reached Queue 0 sample_ops)))))"
  by (simp_all add: queue_run sample_ops_def sample_event_def)

lemma cancel_flush:
  "fb_cancelled_events (the (snd (flush_next 10 (reached Queue 0 cancel_ops)))) = [to_batch_event (sample_event ''1'' 5)]"
  "fb_events (the (snd (flush_next 10 (reached Queue 0 cancel_ops)))) = [to_batch_event (sample_event ''2'' 8)]"
  "queue_of c (fst (flush_next 10 (reached Queue 0 cancel_ops))) = []"
  "flush_next 10 (reached Queue 0 cancel_ops)
     = (fst (flush_next 10 (reached Queue 0 cancel_ops)), Some (the (snd (flush_next 10 (reached Queue 0 cancel_ops)))))"
  by (simp_all add: queue_run cancel_ops_def sample_event_def sample_batch_def to_batch_event_def)

section \<open>Properties of the queue\<close>

text \<open>
  C34 (Queue invariant). After any sequence of operations on a fresh queue: no channel holds more than
  500 queued events, every queued or withheld event sits under its own channel, a channel is in flight
  exactly when it has an expiry deadline (so no channel can stay blocked for ever), a cancelled batch
  and its reason are present together, and no retry counter exceeds 10.
\<close>

theorem queue_reachable_invariant:
  "let q = reached mode secs ops
   in length (queue_of ch q) \<le> 500
      \<and> list_all (\<lambda>qe. qe_channel_id qe = ch) (queue_of ch q @ bucket (eq_withheld_native_steer q) ch)
      \<and> (is_channel_in_flight ch q \<longleftrightarrow> map_of (eq_in_flight_deadlines q) ch \<noteq> None)
      \<and> (map_of (eq_cancelled_batches q) ch = None \<longleftrightarrow> map_of (eq_cancel_reasons q) ch = None)
      \<and> (case map_of (eq_retry_counts q) ch of None \<Rightarrow> True | Some n \<Rightarrow> 1 \<le> n \<and> n \<le> 10)"
proof -
  let ?q = "reached mode secs ops"
  note ok = queue_okD [OF reached_ok [of mode secs ops]]
  show ?thesis
    using ok(7) [of ch] ok(9) [of ch] in_flight_dom [OF reached_ok [of mode secs ops], of ch] ok(4,5)
    by (auto simp: queue_fits_def MAX_PENDING_PER_CHANNEL_def MAX_RETRIES_def list_all_iff is_channel_in_flight_def
          cancel_fine_def retries_fine_def Let_def split: option.split)
qed

text \<open>
  C33 (No event is delivered twice). Over any sequence of operations, the events of a channel that
  flushes hand to the agent together with those the queue still holds for it are at most the events
  that were pushed or handed back for it, with multiplicities: no interleaving of flushes, requeues,
  cancellations, steer withholds and expiry recoveries duplicates an event.
\<close>

theorem no_event_duplicated:
  "all_out ch ops (with_in_flight_deadline secs (new_queue mode)) + held (reached mode secs ops) ch
     \<subseteq># sum_list (map (handed_in ch) ops)"
proof -
  have "queue_ok (with_in_flight_deadline secs (new_queue mode))"
    by (rule queue_start_ok) (auto simp: queue_start_def)
  moreover have "held (with_in_flight_deadline secs (new_queue mode)) ch = {#}"
    by (simp add: held_def with_in_flight_deadline_def new_queue_def queue_of_def)
  ultimately show ?thesis using accounting [of "with_in_flight_deadline secs (new_queue mode)" ch ops]
    by (simp add: reached_def)
qed

text \<open>
  A flush loses nothing. While the withheld and queued events of every channel fit the cap of
  500 together, a flush moves events: what it returns and what the queue holds afterwards are exactly
  what the queue held before, for every channel, expiry recovery included.
\<close>

theorem flush_conserves:
  assumes "\<And>c. length (bucket (eq_withheld_native_steer (reached mode secs ops)) c)
               + length (queue_of c (reached mode secs ops)) \<le> 500"
  shows "held (fst (flush_next now (reached mode secs ops))) ch
           + delivered (snd (flush_next now (reached mode secs ops))) ch
         = held (reached mode secs ops) ch"
  unfolding held_flush_next
  by (rule held_expire_fits [OF queue_okD(10) [OF reached_ok]])
     (use assms in \<open>simp add: MAX_PENDING_PER_CHANNEL_def\<close>)

theorem flush_conserves_witness:
  "held (fst (flush_next 10 (reached Queue 0 sample_ops))) ''c''
     + delivered (snd (flush_next 10 (reached Queue 0 sample_ops))) ''c''
   = held (reached Queue 0 sample_ops) ''c''
   \<and> size (held (reached Queue 0 sample_ops) ''c'') = 2"
proof
  show "held (fst (flush_next 10 (reached Queue 0 sample_ops))) ''c''
     + delivered (snd (flush_next 10 (reached Queue 0 sample_ops))) ''c''
   = held (reached Queue 0 sample_ops) ''c''"
    by (rule flush_conserves) (simp add: sample_run)
qed (simp add: held_def sample_run)

text \<open>
  What a flush picks. A returned batch belongs to a channel that was not in flight after expiry;
  afterwards it is in flight, the only new one, with the configured deadline, and the withheld steers
  are as expiry left them. Either the channel was ready (not throttled) with the oldest head event of
  all ready channels, and the batch is its first 50 events at most, stably sorted by creation time,
  merged with its cancelled events, the others staying queued; or no channel was ready and the batch
  is a cancelled batch.
\<close>

theorem flush_next_spec:
  fixes mode secs ops now
  defines "q \<equiv> reached mode secs ops"
  defines "e \<equiv> expire_in_flight now q"
  assumes "flush_next now q = (q', Some b)"
  shows "fb_channel_id b \<notin> eq_in_flight_channels e
    \<and> eq_in_flight_channels q' = insert (fb_channel_id b) (eq_in_flight_channels e)
    \<and> map_of (eq_in_flight_deadlines q') (fb_channel_id b) = Some (now + eq_in_flight_deadline q)
    \<and> eq_withheld_native_steer q' = eq_withheld_native_steer e
    \<and> (flushable now e (fb_channel_id b, queue_of (fb_channel_id b) e)
         \<and> (\<forall>kv\<in>set (eq_queues e). flushable now e kv \<longrightarrow>
              qe_received_at (hd (queue_of (fb_channel_id b) e)) \<le> head_received_at kv)
         \<and> fb_events b = sort_key (\<lambda>be. ev_created_at (be_event be))
              (map to_batch_event (take 50 (queue_of (fb_channel_id b) e)))
         \<and> queue_of (fb_channel_id b) q' = drop 50 (queue_of (fb_channel_id b) e)
         \<and> fb_cancelled_events b = bucket (eq_cancelled_batches q) (fb_channel_id b)
       \<or> (\<forall>kv\<in>set (eq_queues e). \<not> flushable now e kv)
         \<and> fb_events b = bucket (eq_cancelled_batches q) (fb_channel_id b) \<and> fb_cancelled_events b = [])"
proof -
  have ok: "queue_ok e" unfolding e_def q_def by (rule expire_ok [OF reached_ok])
  have wf: "hwf (eq_queues (expire_in_flight now q))" using queue_okD(11) [OF ok] by (simp add: e_def)
  from wf show ?thesis
  proof (cases rule: flush_next_cases)
    case (main ch)
    have withheld: "eq_withheld_native_steer (fst (flush_channel now ch e)) = eq_withheld_native_steer e"
      by (simp add: flush_channel_def Let_def)
    from main(1,2) assms(3) have b: "b = snd (flush_channel now ch e)" and q': "q' = fst (flush_channel now ch e)"
      by (simp_all add: e_def)
    note res = flush_channel_result [where now = now and ch = ch and q = e]
    have "fb_channel_id b = ch" by (simp add: b res(1))
    moreover from main(3) have "ch \<notin> eq_in_flight_channels e" by (simp add: flushable_def e_def)
    ultimately show ?thesis
      using main(3,4) by (simp add: b q' res withheld MAX_BATCH_EVENTS_def) (simp add: e_def)
  next
    case (cancelled ch)
    note res = flush_cancelled_result [where q = "expire_in_flight now q" and ch = ch and now = now, simplified, OF cancelled(4)]
    from res cancelled(1,3,5) assms(3) show ?thesis
      by (auto simp: e_def hget_update list_ex_iff)
  next
    case idle
    with assms(3) show ?thesis by simp
  qed
qed

theorem flush_next_spec_witness:
  "''c'' \<notin> eq_in_flight_channels (expire_in_flight 10 (reached Queue 0 sample_ops))"
  using flush_next_spec [OF sample_flush(2)] sample_flush(1) by simp

text \<open>
  The probe agrees with the flush. At any instant and in any state, \<open>has_flushable_work\<close> answers
  true exactly when \<open>flush_next\<close> would return a batch, and when it would not both leave the same queue.
\<close>

theorem flush_iff_work:
  "case flush_next now q of
     (q', None) \<Rightarrow> has_flushable_work now q = (q', False)
   | (q', Some b) \<Rightarrow> snd (has_flushable_work now q)"
proof -
  let ?e = "expire_in_flight now q"
  have cands: "filter (flushable now ?e) (eq_queues ?e) = [] \<longleftrightarrow> \<not> list_ex (flushable now ?e) (eq_queues ?e)"
    by (simp add: filter_empty_conv list_ex_iff)
  show ?thesis
  proof (cases "min_by_key head_received_at (filter (flushable now ?e) (eq_queues ?e))")
    case (Some kv)
    then have "list_ex (flushable now ?e) (eq_queues ?e)" using cands by (metis min_by_key_None option.distinct(1))
    with Some show ?thesis
      by (cases kv) (simp add: flush_next_def has_flushable_work_def Let_def case_prod_beta)
  next
    case None
    then have none: "\<not> list_ex (flushable now ?e) (eq_queues ?e)" using cands by simp
    let ?P = "\<lambda>ch. ch \<notin> eq_in_flight_channels ?e"
    show ?thesis
    proof (cases "find ?P (map fst (eq_cancelled_batches q))")
      case find: None
      then have "\<not> list_ex ?P (map fst (eq_cancelled_batches q))" using find_None_iff_list_ex [of ?P "map fst (eq_cancelled_batches q)"] by blast
      with None none find show ?thesis
        by (simp add: flush_next_def has_flushable_work_def Let_def flush_cancelled_def)
    next
      case (Some ch)
      then have "list_ex ?P (map fst (eq_cancelled_batches q))"
        using find_None_iff_list_ex [of ?P "map fst (eq_cancelled_batches q)"] by (metis option.distinct(1))
      with None Some show ?thesis
        by (simp add: flush_next_def has_flushable_work_def Let_def flush_cancelled_def)
    qed
  qed
qed

text \<open>
  Expiry recovers. For every reachable queue, expiry at time \<open>now\<close> releases exactly the channels
  whose deadline has passed: a released channel is no longer in flight and its withheld steers are back
  in front of its queued events, in order and cut at 500; every other channel keeps its flight state,
  its queue and its withheld steers.
\<close>

theorem expiry_recovers:
  "let q = reached mode secs ops; e = expire_in_flight now q
   in if (case map_of (eq_in_flight_deadlines q) ch of None \<Rightarrow> False | Some d \<Rightarrow> d \<le> now)
      then \<not> is_channel_in_flight ch e \<and> bucket (eq_withheld_native_steer e) ch = []
           \<and> queue_of ch e = take 500 (bucket (eq_withheld_native_steer q) ch @ queue_of ch q)
      else is_channel_in_flight ch e = is_channel_in_flight ch q \<and> queue_of ch e = queue_of ch q
           \<and> bucket (eq_withheld_native_steer e) ch = bucket (eq_withheld_native_steer q) ch"
proof -
  let ?q = "reached mode secs ops"
  let ?expired = "case map_of (eq_in_flight_deadlines ?q) ch of None \<Rightarrow> False | Some d \<Rightarrow> d \<le> now"
  have ok: "queue_ok ?q" by (rule reached_ok)
  note look = expire_look [where now = now, OF queue_okD(10) [OF ok]]
  have iff: "?expired \<longleftrightarrow> ch \<in> expired_channels now ?q"
    by (simp add: expired_channels_def split: option.split)
  have fits: "length (queue_of ch ?q) \<le> MAX_PENDING_PER_CHANNEL"
    using queue_okD(7) [OF ok, of ch] by (simp add: queue_fits_def)
  show ?thesis
  proof (cases ?expired)
    case True
    with iff have ex: "ch \<in> expired_channels now ?q" by simp
    have "recovered_queue ?q ch = take 500 (bucket (eq_withheld_native_steer ?q) ch @ queue_of ch ?q)"
      using fits by (auto simp: recovered_queue_def bucket_def MAX_PENDING_PER_CHANNEL_def)
    with True ex show ?thesis
      by (simp add: Let_def look(1,5) bucket_def [of "eq_withheld_native_steer (expire_in_flight now ?q)"]
          look(4) is_channel_in_flight_def del: take_append)
  next
    case False
    with iff have ex: "ch \<notin> expired_channels now ?q" by simp
    with False show ?thesis
      by (simp add: Let_def look(1,5) bucket_def look(4) is_channel_in_flight_def)
  qed
qed

text \<open>
  Retry and dead letter. For every reachable queue: requeueing a failed batch of a channel with
  \<open>n\<close> failures behind it returns the batch, for the dead-letter notice, exactly when \<open>n = 10\<close>, clears the
  channel's counter and throttle and leaves the queued events alone; otherwise the batch's events go to
  the front of the queue in their order, cut at 500, the counter is \<open>n + 1\<close> and the throttle ends
  after the delay of \<open>min (5 * 2 ^ n) 300\<close> seconds.
\<close>

theorem requeue_outcome:
  "let q = reached mode secs ops; ch = fb_channel_id b; (q', dead) = requeue delay now b q;
       n = (case map_of (eq_retry_counts q) ch of None \<Rightarrow> 0 | Some k \<Rightarrow> k)
   in if n = 10
      then dead = Some b \<and> map_of (eq_retry_counts q') ch = None \<and> map_of (eq_retry_after q') ch = None
           \<and> eq_queues q' = eq_queues q
      else n < 10 \<and> dead = None \<and> map_of (eq_retry_counts q') ch = Some (n + 1)
           \<and> map_of (eq_retry_after q') ch = Some (now + delay (min (5 * 2 ^ n) 300))
           \<and> queue_of ch q' = take 500 (map (to_queued_event ch) (fb_events b) @ queue_of ch q)"
proof -
  let ?q = "reached mode secs ops" and ?ch = "fb_channel_id b"
  define n where "n = (case map_of (eq_retry_counts ?q) ?ch of None \<Rightarrow> 0 | Some k \<Rightarrow> k)"
  have n: "n \<le> 10"
    using queue_okD(5) [OF reached_ok [of mode secs ops]]
    by (auto simp: n_def retries_fine_def MAX_RETRIES_def split: option.split)
  have backoff: "backoff_secs (n + 1) = min (5 * 2 ^ n) 300"
  proof (cases "n \<le> 6")
    case False
    then have "(2::nat) ^ 6 \<le> 2 ^ n" by (intro power_increasing) simp_all
    with False show ?thesis
      by (simp add: backoff_secs_def BASE_RETRY_DELAY_SECS_def MAX_RETRY_DELAY_SECS_def)
  qed (simp add: backoff_secs_def BASE_RETRY_DELAY_SECS_def MAX_RETRY_DELAY_SECS_def)
  show ?thesis
  proof (cases "n = 10")
    case True
    then show ?thesis
      by (simp add: Let_def n_def [symmetric] requeue_def MAX_RETRIES_def hmap_simps)
  next
    case False
    with n have "n < 10" by simp
    then show ?thesis
      using backoff by (simp add: Let_def n_def [symmetric] requeue_def MAX_RETRIES_def hmap_simps
          MAX_PENDING_PER_CHANNEL_def del: take_append)
  qed
qed

text \<open>
  Handing back a merged batch loses its cancelled events. When no agent is free, dispatch hands
  the flushed batch back with \<open>requeue_preserve_timestamps\<close> and completes the channel. Even when all
  events fit the cap, the queue afterwards lacks exactly the batch's cancelled events: the interrupted
  request that the flush had merged in is gone.
\<close>

theorem preserve_loses_cancelled:
  assumes "flush_next now (reached mode secs ops) = (q', Some b)"
    and "length (fb_events b) + length (queue_of (fb_channel_id b) q') \<le> 500"
  shows "held (mark_complete (fb_channel_id b) now' (requeue_preserve_timestamps b q')) (fb_channel_id b)
           + mset (fb_cancelled_events b)
         = held (expire_in_flight now (reached mode secs ops)) (fb_channel_id b)"
proof -
  let ?ch = "fb_channel_id b"
  have "held (requeue_preserve_timestamps b q') ?ch = held q' ?ch + (if ?ch = ?ch then mset (fb_events b) else {#})"
    by (rule held_front(2) [where n = MAX_PENDING_PER_CHANNEL])
       (use assms(2) in \<open>simp_all add: requeue_preserve_timestamps_def Let_def MAX_PENDING_PER_CHANNEL_def
          del: take_append\<close>)
  with held_flush_next [of now "reached mode secs ops" ?ch] assms(1) show ?thesis
    by (simp add: held_rest delivered_def batch_content_def ac_simps)
qed

theorem preserve_loses_cancelled_witness:
  "let (q', r) = flush_next 10 (reached Queue 0 cancel_ops); b = the r
   in held (mark_complete (fb_channel_id b) 10 (requeue_preserve_timestamps b q')) (fb_channel_id b)
        + {#to_batch_event (sample_event ''1'' 5)#}
      = held (expire_in_flight 10 (reached Queue 0 cancel_ops)) (fb_channel_id b)"
proof -
  let ?r = "flush_next 10 (reached Queue 0 cancel_ops)"
  have "length (fb_events (the (snd ?r))) + length (queue_of (fb_channel_id (the (snd ?r))) (fst ?r)) \<le> 500"
    by (simp add: cancel_flush(2,3))
  from preserve_loses_cancelled [OF cancel_flush(4) this, of 10] show ?thesis
    by (simp add: cancel_flush(1) case_prod_beta Let_def)
qed

text \<open>
  Withholding a steer. For every reachable queue, withholding a queued event that is not withheld
  yet takes that event, the first with its id, out of the queue, so that no flush can pick it before
  the deadline, and releasing it puts it at the head of the queue, the other events in their order; the
  withheld list is as before and no event is lost.
\<close>

theorem steer_round_trip:
  fixes mode secs ops ch i
  defines "q \<equiv> reached mode secs ops"
  assumes "mark_native_steer_pending ch i q = (q', True)"
    and "i \<notin> (\<lambda>qe. ev_id (qe_event qe)) ` set (bucket (eq_withheld_native_steer q) ch)"
  shows "\<exists>qe rest. take_event i (queue_of ch q) = Some (qe, rest) \<and> queue_of ch q' = rest
    \<and> queue_of ch (release_native_steer ch i q') = qe # rest
    \<and> bucket (eq_withheld_native_steer (release_native_steer ch i q')) ch = bucket (eq_withheld_native_steer q) ch
    \<and> held q' ch = held q ch \<and> held (release_native_steer ch i q') ch = held q ch"
  using assms(2)
proof (cases rule: withhold_cases)
  case absent
  then show ?thesis by simp
next
  case (found qe rest)
  let ?W = "bucket (eq_withheld_native_steer q) ch"
  note took = take_event_SomeD [OF found(1)]
  have len: "length (queue_of ch q) \<le> MAX_PENDING_PER_CHANNEL"
    using queue_okD(7) [OF reached_ok [of mode secs ops], of ch] by (simp add: queue_fits_def q_def)
  have q': "queue_of ch q' = rest" "bucket (eq_withheld_native_steer q') ch = ?W @ [qe]"
    by (simp_all add: found(3) bucket_put_or_remove bucket_push_look)
  have took': "take_event i (?W @ [qe]) = Some (qe, ?W)"
    using took by (intro take_event_append [OF assms(3)]) simp
  have look: "map_of (eq_withheld_native_steer q') ch = Some (?W @ [qe])"
    by (simp add: found(3) bucket_push_def hget_update)
  have rel: "release_native_steer ch i q'
      = q'\<lparr>eq_withheld_native_steer := put_or_remove ch ?W (eq_withheld_native_steer q'),
           eq_queues := AList.update ch (take MAX_PENDING_PER_CHANNEL (qe # rest)) (eq_queues q')\<rparr>"
    by (simp add: release_native_steer_def look took' q'(1))
  from took len have "take MAX_PENDING_PER_CHANNEL (qe # rest) = qe # rest" by simp
  moreover have "eq_cancelled_batches q' = eq_cancelled_batches q" by (simp add: found(3))
  ultimately have r: "queue_of ch (release_native_steer ch i q') = qe # rest"
    "bucket (eq_withheld_native_steer (release_native_steer ch i q')) ch = ?W"
    "bucket (eq_cancelled_batches (release_native_steer ch i q')) ch = bucket (eq_cancelled_batches q) ch"
    by (simp_all only: rel) (simp_all add: bucket_update bucket_put_or_remove)
  from took have "mset (queue_of ch q) = mset (qe # rest)" by simp
  then have "held (release_native_steer ch i q') ch = held q ch" by (simp add: held_def r)
  with found(1) q'(1) r held_withhold [OF assms(2), of ch] show ?thesis by blast
qed

theorem steer_round_trip_witness:
  "take_event ''2'' (queue_of ''c'' (reached Queue 0 sample_ops)) = Some (sample_event ''2'' 3, [sample_event ''1'' 5])
   \<and> (let q' = fst (mark_native_steer_pending ''c'' ''2'' (reached Queue 0 sample_ops))
      in queue_of ''c'' q' = [sample_event ''1'' 5]
         \<and> queue_of ''c'' (release_native_steer ''c'' ''2'' q') = [sample_event ''2'' 3, sample_event ''1'' 5])"
proof -
  let ?q = "reached Queue 0 sample_ops"
  have took: "take_event ''2'' (queue_of ''c'' ?q) = Some (sample_event ''2'' 3, [sample_event ''1'' 5])"
    by (simp add: sample_run(1)) (simp add: sample_event_def)
  have run: "mark_native_steer_pending ''c'' ''2'' ?q = (fst (mark_native_steer_pending ''c'' ''2'' ?q), True)"
    by (simp add: mark_native_steer_pending_def sample_run(2)) (simp add: sample_event_def)
  from steer_round_trip [OF run] took show ?thesis by (auto simp: sample_run(3) Let_def)
qed

section \<open>Thread tags\<close>

definition last_opt :: "'a list \<Rightarrow> 'a option" where
  "last_opt xs = (if xs = [] then None else Some (last xs))"

definition marked_e :: "string \<Rightarrow> string list \<Rightarrow> string option" where
  "marked_e marker parts =
     (if length parts \<ge> 4 \<and> parts ! 0 = ''e'' \<and> parts ! 3 = marker then Some (parts ! 1) else None)"

definition p_value :: "string list \<Rightarrow> string option" where
  "p_value parts = (if length parts \<ge> 2 \<and> parts ! 0 = ''p'' then Some (parts ! 1) else None)"

lemma thread_tag_step_eq:
  "thread_tag_step (root, reply, mentions) parts =
     (if marked_e ''root'' parts = None then root else marked_e ''root'' parts,
      if marked_e ''reply'' parts = None then reply else marked_e ''reply'' parts,
      mentions @ (case p_value parts of None \<Rightarrow> [] | Some x \<Rightarrow> [x]))"
  by (auto simp: thread_tag_step_def marked_e_def p_value_def split: list.splits)

lemma thread_tag_fold:
  "foldl thread_tag_step (root, reply, mentions) tags =
     (case last_opt (List.map_filter (marked_e ''root'') tags) of None \<Rightarrow> root | x \<Rightarrow> x,
      case last_opt (List.map_filter (marked_e ''reply'') tags) of None \<Rightarrow> reply | x \<Rightarrow> x,
      mentions @ List.map_filter p_value tags)"
proof (induction tags arbitrary: root reply mentions)
  case Nil
  then show ?case by (simp add: last_opt_def List.map_filter_def)
next
  case (Cons parts tags)
  show ?case
    by (simp add: Cons.IH thread_tag_step_eq map_filter_simps last_opt_def split: option.split)
qed

text \<open>
  Thread tags. \<open>parse_thread_tags\<close> returns the last \<open>e\<close> tag with the marker \<open>root\<close> and the last one
  with the marker \<open>reply\<close>, each standing in for the other when that one is missing, and the values of
  all \<open>p\<close> tags in order; tags that are too short are skipped.
\<close>

theorem thread_tags_spec:
  "let root = last_opt (List.map_filter (marked_e ''root'') tags);
       reply = last_opt (List.map_filter (marked_e ''reply'') tags)
   in parse_thread_tags tags =
        \<lparr>tt_root_event_id = (case root of None \<Rightarrow> reply | x \<Rightarrow> x),
         tt_parent_event_id = (case reply of None \<Rightarrow> root | x \<Rightarrow> x),
         tt_mentioned_pubkeys = List.map_filter p_value tags\<rparr>"
  by (simp add: parse_thread_tags_def thread_tag_fold Let_def split: option.split)

end
