(* ===== verification/Conformance.thy ===== *)
theory Conformance
  imports Prelude "HOL-Library.List_Lexorder" "HOL-Library.Char_ord"
begin

text \<open>
  The runtime conformance checker (\<open>crates/buzz-conformance/src/lib.rs\<close>, \<open>transitions.rs\<close> and
  \<open>checker.rs\<close>): the trace schema, the check of one step and the replay of a trace. Labels are opaque
  strings. The human-readable detail of an error is kept as the values that its text is formatted
  from, one constructor per message. The abstract specification is the step relation \<open>allowed\<close>, the
  obligations that the module documentation distils from the TLA+ model.
\<close>

section \<open>Trace schema\<close>

type_synonym community_label = string
type_synonym channel_label = string
type_synonym host_label = string
type_synonym actor_label = string
type_synonym opaque_id = string

datatype verdict = Allow | Deny

datatype sanitized_reason = Restricted | Invalid | ServerError

record abstract_state =
  as_resolved_community :: community_label
  as_bound_host :: host_label
  as_actor :: actor_label

datatype trace_action =
    WriteInsert opaque_id channel_label "community_label option"
  | WriteInsertGlobal opaque_id "community_label option"
  | WriteDuplicate opaque_id channel_label "community_label option"
  | SanitizedError sanitized_reason
  | AuthCheck channel_label "community_label option" verdict
  | ReadMessageRows "channel_label option" "community_label list"
  | ReadByIdRows "channel_label option" "community_label list"
  | ReadHostFeedRows "community_label list"
  | ImplBug string

definition SCHEMA_VERSION :: u32 where "SCHEMA_VERSION = 1"

fun action_kind :: "trace_action \<Rightarrow> string" where
  "action_kind (WriteInsert _ _ _) = ''write_insert''"
| "action_kind (WriteInsertGlobal _ _) = ''write_insert_global''"
| "action_kind (WriteDuplicate _ _ _) = ''write_duplicate''"
| "action_kind (SanitizedError _) = ''sanitized_error''"
| "action_kind (AuthCheck _ _ _) = ''auth_check''"
| "action_kind (ReadMessageRows _ _) = ''read_message_rows''"
| "action_kind (ReadByIdRows _ _) = ''read_by_id_rows''"
| "action_kind (ReadHostFeedRows _) = ''read_host_feed_rows''"
| "action_kind (ImplBug _) = ''impl_bug''"

record trace_step =
  ts_schema_version :: u32
  ts_action :: trace_action
  ts_state_after :: abstract_state

definition new_trace_step :: "trace_action \<Rightarrow> abstract_state \<Rightarrow> trace_step" where
  "new_trace_step action state_after =
     \<lparr>ts_schema_version = SCHEMA_VERSION, ts_action = action, ts_state_after = state_after\<rparr>"

section \<open>The check of one step\<close>

datatype error_detail =
    CommunityChanged community_label community_label
  | HostChanged host_label host_label
  | ActorChanged actor_label actor_label
  | AllowForeignClaim community_label community_label
  | ForeignRow community_label community_label
  | DropGuard string
  | EmptyTrace
  | SchemaVersion u32
  | NeverEmitted "string list"

datatype transition_error =
    IllegalTransition nat error_detail
  | StateMismatch nat error_detail
  | NonInterference nat error_detail
  | CoverageBreach error_detail

record model_state =
  ms_resolved_community :: community_label
  ms_bound_host :: host_label
  ms_actor :: actor_label

definition bootstrap :: "abstract_state \<Rightarrow> model_state" where
  "bootstrap first =
     \<lparr>ms_resolved_community = as_resolved_community first, ms_bound_host = as_bound_host first,
      ms_actor = as_actor first\<rparr>"

definition check_row_labels ::
  "nat \<Rightarrow> model_state \<Rightarrow> community_label list \<Rightarrow> transition_error + unit" where
  "check_row_labels step_index model row_communities =
     (case find (\<lambda>c. c \<noteq> ms_resolved_community model) row_communities of
        Some foreign \<Rightarrow> Err (NonInterference step_index (ForeignRow foreign (ms_resolved_community model)))
      | None \<Rightarrow> Ok ())"

definition check_step :: "nat \<Rightarrow> model_state \<Rightarrow> trace_step \<Rightarrow> transition_error + unit" where
  "check_step step_index model step =
     (let after = ts_state_after step
      in if as_resolved_community after \<noteq> ms_resolved_community model then
           Err (StateMismatch step_index
             (CommunityChanged (ms_resolved_community model) (as_resolved_community after)))
         else if as_bound_host after \<noteq> ms_bound_host model then
           Err (StateMismatch step_index (HostChanged (ms_bound_host model) (as_bound_host after)))
         else if as_actor after \<noteq> ms_actor model then
           Err (StateMismatch step_index (ActorChanged (ms_actor model) (as_actor after)))
         else (case ts_action step of
             WriteInsert _ _ _ \<Rightarrow> Ok ()
           | WriteInsertGlobal _ _ \<Rightarrow> Ok ()
           | WriteDuplicate _ _ _ \<Rightarrow> Ok ()
           | SanitizedError reason \<Rightarrow>
               (case reason of Restricted \<Rightarrow> Ok () | Invalid \<Rightarrow> Ok () | ServerError \<Rightarrow> Ok ())
           | AuthCheck _ claimed_community verdict \<Rightarrow>
               (case (verdict, claimed_community) of
                  (Allow, Some c) \<Rightarrow>
                    if c \<noteq> ms_resolved_community model
                    then Err (IllegalTransition step_index (AllowForeignClaim c (ms_resolved_community model)))
                    else Ok ()
                | _ \<Rightarrow> Ok ())
           | ReadMessageRows _ row_communities \<Rightarrow> check_row_labels step_index model row_communities
           | ReadByIdRows _ row_communities \<Rightarrow> check_row_labels step_index model row_communities
           | ReadHostFeedRows row_communities \<Rightarrow> check_row_labels step_index model row_communities
           | ImplBug kind \<Rightarrow> Err (CoverageBreach (DropGuard kind))))"

fun action_channel :: "trace_action \<Rightarrow> channel_label option" where
  "action_channel (WriteInsert _ channel _) = Some channel"
| "action_channel (WriteDuplicate _ channel _) = Some channel"
| "action_channel (AuthCheck channel _ _) = Some channel"
| "action_channel (ReadMessageRows channel _) = channel"
| "action_channel (ReadByIdRows channel _) = channel"
| "action_channel _ = None"

section \<open>The replay of a trace\<close>

text \<open>The set of required actions is a list of its elements, in the set's iteration order.\<close>

record scenario =
  sc_trace :: "trace_step list"
  sc_required :: "string list"

definition unstructured :: "trace_step list \<Rightarrow> scenario" where
  "unstructured trace = \<lparr>sc_trace = trace, sc_required = []\<rparr>"

definition require :: "string \<Rightarrow> scenario \<Rightarrow> scenario" where
  "require kind sc = sc\<lparr>sc_required := push_new (sc_required sc) kind\<rparr>"

text \<open>The loop over the steps from index \<open>i\<close> on.\<close>

fun check_steps :: "model_state \<Rightarrow> nat \<Rightarrow> trace_step list \<Rightarrow> transition_error + unit" where
  "check_steps model i [] = Ok ()"
| "check_steps model i (step # steps) =
     (if ts_schema_version step \<noteq> SCHEMA_VERSION
      then Err (IllegalTransition i (SchemaVersion (ts_schema_version step)))
      else and_then (check_step i model step) (\<lambda>_. check_steps model (Suc i) steps))"

definition check_trace :: "scenario \<Rightarrow> transition_error + unit" where
  "check_trace sc =
     (case sc_trace sc of
        [] \<Rightarrow> Err (CoverageBreach EmptyTrace)
      | first # _ \<Rightarrow>
          if ts_schema_version first \<noteq> SCHEMA_VERSION
          then Err (IllegalTransition 0 (SchemaVersion (ts_schema_version first)))
          else and_then (check_steps (bootstrap (ts_state_after first)) 0 (sc_trace sc)) (\<lambda>_.
            let seen = set (map (\<lambda>step. action_kind (ts_action step)) (sc_trace sc));
                missing = filter (\<lambda>k. k \<notin> seen) (sc_required sc)
            in if missing \<noteq> [] then Err (CoverageBreach (NeverEmitted (sort missing))) else Ok ()))"

section \<open>Specification\<close>

text \<open>
  The steps that a request resolved to community \<open>c\<close>, host \<open>h\<close> and actor \<open>a\<close> may emit: every read is
  confined to \<open>c\<close>, and an Allow is never given to a claim of another community.
\<close>

inductive allowed :: "community_label \<Rightarrow> trace_action \<Rightarrow> bool" for c where
  insert: "allowed c (WriteInsert msg_id channel claimed)"
| insert_global: "allowed c (WriteInsertGlobal msg_id claimed)"
| duplicate: "allowed c (WriteDuplicate msg_id channel claimed)"
| sanitized: "allowed c (SanitizedError reason)"
| deny: "allowed c (AuthCheck channel claimed Deny)"
| allow_unclaimed: "allowed c (AuthCheck channel None Allow)"
| allow_own: "allowed c (AuthCheck channel (Some c) Allow)"
| read_rows: "set rows \<subseteq> {c} \<Longrightarrow> allowed c (ReadMessageRows channel rows)"
| read_by_id: "set rows \<subseteq> {c} \<Longrightarrow> allowed c (ReadByIdRows channel rows)"
| read_feed: "set rows \<subseteq> {c} \<Longrightarrow> allowed c (ReadHostFeedRows rows)"

inductive_simps allowed_simps [simp]:
  "allowed c (WriteInsert msg_id channel claimed)"
  "allowed c (WriteInsertGlobal msg_id claimed)"
  "allowed c (WriteDuplicate msg_id channel claimed)"
  "allowed c (SanitizedError reason)"
  "allowed c (AuthCheck channel claimed v)"
  "allowed c (ReadMessageRows ch rows)"
  "allowed c (ReadByIdRows ch rows)"
  "allowed c (ReadHostFeedRows rows)"
  "allowed c (ImplBug kind)"

definition step_conforms :: "abstract_state \<Rightarrow> trace_step \<Rightarrow> bool" where
  "step_conforms s step \<longleftrightarrow>
     ts_schema_version step = SCHEMA_VERSION \<and> ts_state_after step = s
     \<and> allowed (as_resolved_community s) (ts_action step)"

lemma find_foreign_None: "find (\<lambda>c. c \<noteq> x) rows = None \<longleftrightarrow> set rows \<subseteq> {x}"
  by (auto simp: find_None_iff)

lemma check_row_labels_Ok [simp]:
  "check_row_labels i m rows = Ok u \<longleftrightarrow> set rows \<subseteq> {ms_resolved_community m}"
proof (cases "find (\<lambda>c. c \<noteq> ms_resolved_community m) rows")
  case None
  then have "set rows \<subseteq> {ms_resolved_community m}" by (simp only: find_foreign_None)
  with None show ?thesis by (simp only: check_row_labels_def) simp
next
  case (Some foreign)
  then have "\<not> set rows \<subseteq> {ms_resolved_community m}"
    using find_foreign_None [of "ms_resolved_community m" rows] by (metis option.distinct(1))
  with Some show ?thesis by (simp add: check_row_labels_def)
qed

lemma same_state_iff:
  "ts_state_after step = s \<longleftrightarrow>
     as_resolved_community (ts_state_after step) = as_resolved_community s
     \<and> as_bound_host (ts_state_after step) = as_bound_host s \<and> as_actor (ts_state_after step) = as_actor s"
  by auto

lemma check_step_Ok:
  "check_step i (bootstrap s) step = Ok u \<longleftrightarrow>
     ts_state_after step = s \<and> allowed (as_resolved_community s) (ts_action step)"
  unfolding same_state_iff
  by (cases "ts_action step")
     (auto simp: check_step_def bootstrap_def Let_def split: option.splits verdict.splits sanitized_reason.splits)

lemma check_steps_Ok: "check_steps (bootstrap s) i steps = Ok u \<longleftrightarrow> list_all (step_conforms s) steps"
  by (induction steps arbitrary: i) (auto simp: step_conforms_def check_step_Ok)


section \<open>Properties\<close>

text \<open>
  A trace is accepted exactly when it conforms. The checker accepts a scenario exactly when its
  trace is not empty, every step has the current schema version, carries the tenant state of the first
  step and is a step that the specification allows for that community, and every required action kind
  occurs. So no accepted trace contains a row of a foreign community, an Allow for a foreign claim or a
  step of the coverage guard.
\<close>

theorem check_trace_accepts_iff:
  "check_trace sc = Ok () \<longleftrightarrow>
     sc_trace sc \<noteq> [] \<and> list_all (step_conforms (ts_state_after (hd (sc_trace sc)))) (sc_trace sc)
     \<and> set (sc_required sc) \<subseteq> (\<lambda>step. action_kind (ts_action step)) ` set (sc_trace sc)"
proof (cases "sc_trace sc")
  case Nil
  then show ?thesis by (simp add: check_trace_def)
next
  case (Cons first rest)
  have missing: "filter (\<lambda>k. k \<notin> S) (sc_required sc) = [] \<longleftrightarrow> set (sc_required sc) \<subseteq> S" for S
    by (auto simp: filter_empty_conv)
  have "check_trace sc = Ok () \<longleftrightarrow>
      ts_schema_version first = SCHEMA_VERSION
      \<and> check_steps (bootstrap (ts_state_after first)) 0 (sc_trace sc) = Ok ()
      \<and> filter (\<lambda>k. k \<notin> (\<lambda>step. action_kind (ts_action step)) ` set (sc_trace sc)) (sc_required sc) = []"
    by (simp add: check_trace_def Cons Let_def del: check_steps.simps)
  also have "\<dots> \<longleftrightarrow> list_all (step_conforms (ts_state_after first)) (sc_trace sc)
      \<and> set (sc_required sc) \<subseteq> (\<lambda>step. action_kind (ts_action step)) ` set (sc_trace sc)"
    unfolding check_steps_Ok missing by (auto simp: Cons step_conforms_def)
  finally show ?thesis by (simp add: Cons)
qed

text \<open>The error of a step is about that step.\<close>

fun error_index :: "transition_error \<Rightarrow> nat option" where
  "error_index (IllegalTransition i _) = Some i"
| "error_index (StateMismatch i _) = Some i"
| "error_index (NonInterference i _) = Some i"
| "error_index (CoverageBreach _) = None"

text \<open>Which error a failing step gets, read off the schema.\<close>

definition step_error :: "nat \<Rightarrow> abstract_state \<Rightarrow> trace_step \<Rightarrow> transition_error \<Rightarrow> bool" where
  "step_error i s step e \<longleftrightarrow>
     (if ts_schema_version step \<noteq> SCHEMA_VERSION then e = IllegalTransition i (SchemaVersion (ts_schema_version step))
      else if ts_state_after step \<noteq> s then (\<exists>d. e = StateMismatch i d)
      else (case ts_action step of
              AuthCheck _ _ _ \<Rightarrow> (\<exists>d. e = IllegalTransition i d)
            | ImplBug kind \<Rightarrow> e = CoverageBreach (DropGuard kind)
            | _ \<Rightarrow> (\<exists>foreign. foreign \<noteq> as_resolved_community s
                     \<and> e = NonInterference i (ForeignRow foreign (as_resolved_community s)))))"

lemma sort_not_Nil: "xs \<noteq> [] \<Longrightarrow> sort xs \<noteq> []" for xs :: "'a::linorder list"
  by (metis set_empty set_sort)

lemma check_row_labels_Err:
  assumes "check_row_labels i m rows = Err e"
  shows "\<exists>foreign. foreign \<noteq> ms_resolved_community m \<and> e = NonInterference i (ForeignRow foreign (ms_resolved_community m))"
  using assms by (cases "find (\<lambda>c. c \<noteq> ms_resolved_community m) rows") (auto simp: check_row_labels_def find_Some_iff)

lemma check_step_Err:
  assumes "check_step i (bootstrap s) step = Err e" and "ts_schema_version step = SCHEMA_VERSION"
  shows "step_error i s step e"
proof (cases "ts_state_after step = s")
  case False
  with assms show ?thesis
    by (auto simp: check_step_def step_error_def Let_def bootstrap_def same_state_iff split: if_splits)
next
  case True
  with assms show ?thesis
    by (cases "ts_action step")
       (auto simp: check_step_def step_error_def Let_def bootstrap_def dest!: check_row_labels_Err
          split: option.splits verdict.splits sanitized_reason.splits if_splits)
qed

lemma check_steps_Err:
  "check_steps (bootstrap s) i steps = Err e \<Longrightarrow>
     \<exists>pre step post. steps = pre @ step # post \<and> list_all (step_conforms s) pre
       \<and> \<not> step_conforms s step \<and> step_error (i + length pre) s step e"
proof (induction steps arbitrary: i)
  case Nil
  then show ?case by simp
next
  case (Cons step steps)
  show ?case
  proof (cases "step_conforms s step")
    case True
    then have "check_step i (bootstrap s) step = Ok ()" by (simp add: check_step_Ok step_conforms_def)
    with Cons.prems True have "check_steps (bootstrap s) (Suc i) steps = Err e" by (simp add: step_conforms_def)
    from Cons.IH [OF this] obtain pre bad post where "steps = pre @ bad # post"
      "list_all (step_conforms s) pre" "\<not> step_conforms s bad" "step_error (Suc i + length pre) s bad e"
      by blast
    with True show ?thesis by (intro exI [of _ "step # pre"] exI [of _ bad] exI [of _ post]) simp
  next
    case False
    have "step_error i s step e"
    proof (cases "ts_schema_version step = SCHEMA_VERSION")
      case version: True
      with False have "check_step i (bootstrap s) step \<noteq> Ok u" for u by (simp add: check_step_Ok step_conforms_def)
      then obtain e' where e': "check_step i (bootstrap s) step = Err e'"
        by (cases "check_step i (bootstrap s) step") auto
      with Cons.prems version have "e = e'" by simp
      with check_step_Err [OF e' version] show ?thesis by simp
    qed (use Cons.prems in \<open>simp add: step_error_def\<close>)
    with False show ?thesis by (intro exI [of _ "[]"] exI [of _ step] exI [of _ steps]) simp
  qed
qed

text \<open>
  A rejection names the first violation. When a non-empty trace is rejected, either it has a first
  step that does not conform and the error is that step's: its index and its class, a schema or Allow
  violation, a tenant flip, a foreign row (naming one) or the coverage guard; or every step conforms and
  the error lists, sorted, exactly the required kinds that never occur.
\<close>

theorem check_trace_first_violation:
  assumes "check_trace sc = Err e" and "sc_trace sc \<noteq> []"
  defines "s \<equiv> ts_state_after (hd (sc_trace sc))"
  shows "(\<exists>pre step post. sc_trace sc = pre @ step # post \<and> list_all (step_conforms s) pre
            \<and> \<not> step_conforms s step \<and> step_error (length pre) s step e)
       \<or> list_all (step_conforms s) (sc_trace sc)
           \<and> (\<exists>missing. missing \<noteq> [] \<and> e = CoverageBreach (NeverEmitted missing) \<and> sorted missing
                \<and> set missing = set (sc_required sc) - (\<lambda>step. action_kind (ts_action step)) ` set (sc_trace sc))"
proof -
  from assms(2) obtain first rest where trace: "sc_trace sc = first # rest" by (cases "sc_trace sc") auto
  then have s: "s = ts_state_after first" by (simp add: s_def)
  let ?seen = "(\<lambda>step. action_kind (ts_action step)) ` set (sc_trace sc)"
  show ?thesis
  proof (cases "ts_schema_version first = SCHEMA_VERSION")
    case False
    with assms(1) trace have "e = IllegalTransition 0 (SchemaVersion (ts_schema_version first))"
      by (simp add: check_trace_def)
    with False trace show ?thesis
      by (intro disjI1 exI [of _ "[]"] exI [of _ first] exI [of _ rest]) (simp add: step_conforms_def step_error_def)
  next
    case True
    show ?thesis
    proof (cases "check_steps (bootstrap s) 0 (sc_trace sc)")
      case (Inl e')
      with assms(1) True trace have "e = e'" by (simp add: check_trace_def s del: check_steps.simps)
      with check_steps_Err [OF Inl] show ?thesis by simp
    next
      case (Inr u)
      then have ok: "list_all (step_conforms s) (sc_trace sc)" by (simp only: check_steps_Ok)
      define missing where "missing = filter (\<lambda>k. k \<notin> ?seen) (sc_required sc)"
      have "missing \<noteq> [] \<and> e = CoverageBreach (NeverEmitted (sort missing))"
        using assms(1) True Inr
        by (simp add: check_trace_def trace s missing_def Let_def del: check_steps.simps split: if_splits)
      moreover have "set missing = set (sc_required sc) - ?seen" by (auto simp: missing_def)
      ultimately show ?thesis
        using ok sort_not_Nil [of missing] by (intro disjI2 conjI exI [of _ "sort missing"]) simp_all
    qed
  qed
qed

definition demo_state :: abstract_state where
  "demo_state = \<lparr>as_resolved_community = ''c'', as_bound_host = ''h'', as_actor = ''a''\<rparr>"

theorem check_trace_first_violation_witness:
  "\<exists>pre step. [new_trace_step (SanitizedError Invalid) demo_state,
               new_trace_step (ReadHostFeedRows [''c'', ''d'']) demo_state] = pre @ [step]
     \<and> \<not> step_conforms demo_state step"
proof -
  let ?trace = "[new_trace_step (SanitizedError Invalid) demo_state,
                 new_trace_step (ReadHostFeedRows [''c'', ''d'']) demo_state]"
  have "check_trace (unstructured ?trace) = Err (NonInterference 1 (ForeignRow ''d'' ''c''))"
    by (simp add: check_trace_def unstructured_def new_trace_step_def demo_state_def check_step_def
        check_row_labels_def bootstrap_def)
  from check_trace_first_violation [OF this]
  have "\<exists>pre step post. ?trace = pre @ step # post \<and> list_all (step_conforms demo_state) pre
      \<and> \<not> step_conforms demo_state step"
    by (simp add: unstructured_def new_trace_step_def) blast
  then show ?thesis
    by (auto simp: Cons_eq_append_conv step_conforms_def new_trace_step_def)
qed

end
