(* ===== verification/AudioRoom.thy ===== *)
theory AudioRoom
  imports Prelude "HOL-Library.Multiset" ByteStrings
begin

text \<open>
  Audio rooms (\<open>crates/buzz-relay/src/audio/room.rs\<close>): admission, index allocation, roster deltas,
  frame fan-out and the registry of rooms. All of a room's methods run under its admission lock, so each
  is one atomic step; the lock is never poisoned. A bounded \<open>mpsc\<close> channel is its buffer with its
  capacity and a flag that the receiver is gone. The roster broadcast channel is the log of the deltas
  sent, oldest first. A fresh peer id (\<open>Uuid::new_v4\<close>) is an argument. Rooms behind an \<open>Arc\<close> live in a
  heap of the manager.
\<close>

section \<open>Data\<close>

type_synonym peer_id = string
type_synonym frame = "u8 list"

record 'a mpsc =
  mp_buffer :: "'a list"
  mp_capacity :: nat
  mp_closed :: bool

definition mpsc_channel :: "nat \<Rightarrow> 'a mpsc" where
  "mpsc_channel capacity = \<lparr>mp_buffer = [], mp_capacity = capacity, mp_closed = False\<rparr>"

definition try_send :: "'a \<Rightarrow> 'a mpsc \<Rightarrow> 'a mpsc \<times> bool" where
  "try_send x c =
     (if mp_closed c \<or> length (mp_buffer c) \<ge> mp_capacity c then (c, False)
      else (c\<lparr>mp_buffer := mp_buffer c @ [x]\<rparr>, True))"

datatype peer_ctrl = CtrlJson string | CtrlClose

record audio_peer =
  ap_pubkey :: string
  ap_audio_tx :: "frame mpsc"
  ap_ctrl_tx :: "peer_ctrl mpsc"
  ap_peer_index :: u8

definition AUDIO_CHANNEL_CAPACITY :: nat where "AUDIO_CHANNEL_CAPACITY = 8"
definition CTRL_CHANNEL_CAPACITY :: nat where "CTRL_CHANNEL_CAPACITY = 32"
definition MAX_PEERS_PER_ROOM :: nat where "MAX_PEERS_PER_ROOM = 25"

record roster_peer =
  rp_pubkey :: string
  rp_peer_index :: u8

record roster_snapshot =
  rs_revision :: u64
  rs_peers :: "roster_peer list"

record roster_delta =
  rd_revision :: u64
  rd_joined :: "roster_peer option"
  rd_left :: "roster_peer option"

datatype admission_error = Ended | Full | VersionMismatch u8 u8

record admission_guard =
  ag_next_fresh :: u8
  ag_free :: "u8 list"
  ag_ended :: bool
  ag_pinned_version :: "u8 option"
  ag_roster_revision :: u64

definition new_guard :: admission_guard where
  "new_guard = \<lparr>ag_next_fresh = 0, ag_free = [], ag_ended = False, ag_pinned_version = None, ag_roster_revision = 0\<rparr>"

text \<open>\<open>free\<close> is a stack whose top is the head of the list.\<close>

definition alloc :: "admission_guard \<Rightarrow> admission_guard \<times> u8 option" where
  "alloc g =
     (case ag_free g of
        idx # free \<Rightarrow> (g\<lparr>ag_free := free\<rparr>, Some idx)
      | [] \<Rightarrow>
          if ag_next_fresh g = 255 then (g, None)
          else (g\<lparr>ag_next_fresh := ag_next_fresh g + 1\<rparr>, Some (ag_next_fresh g)))"

definition release :: "u8 \<Rightarrow> admission_guard \<Rightarrow> admission_guard" where
  "release idx g = g\<lparr>ag_free := idx # ag_free g\<rparr>"

record room =
  ro_community_id :: string
  ro_channel_id :: string
  ro_peers :: "(peer_id, audio_peer) hmap"
  ro_guard :: admission_guard
  ro_roster_log :: "roster_delta list"

definition new_room :: "string \<Rightarrow> string \<Rightarrow> room" where
  "new_room community_id channel_id =
     \<lparr>ro_community_id = community_id, ro_channel_id = channel_id, ro_peers = [], ro_guard = new_guard,
      ro_roster_log = []\<rparr>"

section \<open>Admission\<close>

definition mark_ended :: "room \<Rightarrow> room \<times> bool" where
  "mark_ended r = (r\<lparr>ro_guard := ro_guard r\<lparr>ag_ended := True\<rparr>\<rparr>, ro_peers r = [])"

definition clear_ended :: "room \<Rightarrow> room" where
  "clear_ended r = r\<lparr>ro_guard := ro_guard r\<lparr>ag_ended := False\<rparr>\<rparr>"

definition version_check :: "u8 \<Rightarrow> admission_guard \<Rightarrow> admission_error + unit" where
  "version_check requested g =
     (case ag_pinned_version g of
        Some pinned \<Rightarrow> if pinned \<noteq> requested then Err (VersionMismatch pinned requested) else Ok ()
      | None \<Rightarrow> Ok ())"

definition pin_version :: "u8 \<Rightarrow> admission_guard \<Rightarrow> admission_guard" where
  "pin_version requested g =
     g\<lparr>ag_pinned_version := (case ag_pinned_version g of None \<Rightarrow> Some requested | Some v \<Rightarrow> Some v)\<rparr>"

text \<open>The insertion and the delta that both admissions end with; \<open>g\<close> is the guard so far.\<close>

definition admit :: "peer_id \<Rightarrow> string \<Rightarrow> u8 \<Rightarrow> admission_guard \<Rightarrow> room \<Rightarrow> room" where
  "admit peer_id pubkey peer_index g r =
     (let peer = \<lparr>ap_pubkey = pubkey, ap_audio_tx = mpsc_channel AUDIO_CHANNEL_CAPACITY,
                  ap_ctrl_tx = mpsc_channel CTRL_CHANNEL_CAPACITY, ap_peer_index = peer_index\<rparr>;
          revision = ag_roster_revision g + 1;
          delta = \<lparr>rd_revision = revision,
                   rd_joined = Some \<lparr>rp_pubkey = pubkey, rp_peer_index = peer_index\<rparr>, rd_left = None\<rparr>
      in r\<lparr>ro_peers := AList.update peer_id peer (ro_peers r),
           ro_guard := g\<lparr>ag_roster_revision := revision\<rparr>,
           ro_roster_log := ro_roster_log r @ [delta]\<rparr>)"

definition add_peer ::
  "peer_id \<Rightarrow> string \<Rightarrow> u8 \<Rightarrow> room \<Rightarrow> room \<times> (admission_error + peer_id \<times> u8)" where
  "add_peer peer_id pubkey requested_version r =
     (let g = ro_guard r
      in if ag_ended g then (r, Err Ended)
         else if length (ro_peers r) \<ge> MAX_PEERS_PER_ROOM then (r, Err Full)
         else guarded (version_check requested_version g) r (\<lambda>_.
           case alloc g of
             (g1, None) \<Rightarrow> (r\<lparr>ro_guard := g1\<rparr>, Err Full)
           | (g1, Some peer_index) \<Rightarrow>
               (admit peer_id pubkey peer_index (pin_version requested_version g1) r,
                Ok (peer_id, peer_index))))"

definition add_peer_at_index ::
  "peer_id \<Rightarrow> string \<Rightarrow> u8 \<Rightarrow> u8 \<Rightarrow> room \<Rightarrow> room \<times> (admission_error + peer_id)" where
  "add_peer_at_index peer_id pubkey requested_version peer_index r =
     (let g = ro_guard r
      in if ag_ended g then (r, Err Ended)
         else if length (ro_peers r) \<ge> MAX_PEERS_PER_ROOM
                 \<or> list_ex (\<lambda>(_, peer). ap_peer_index peer = peer_index) (ro_peers r)
              then (r, Err Full)
         else guarded (version_check requested_version g) r (\<lambda>_.
           let g1 = pin_version requested_version g;
               g2 = g1\<lparr>ag_free := filter (\<lambda>idx. idx \<noteq> peer_index) (ag_free g1)\<rparr>;
               g3 = (if peer_index \<ge> ag_next_fresh g2
                     then g2\<lparr>ag_next_fresh := sat_succ peer_index\<rparr> else g2)
           in (admit peer_id pubkey peer_index g3 r, Ok peer_id)))"

text \<open>The removal and the delta that both leave methods share.\<close>

definition expel :: "peer_id \<Rightarrow> audio_peer \<Rightarrow> room \<Rightarrow> room" where
  "expel peer_id peer r =
     (let g = release (ap_peer_index peer) (ro_guard r);
          revision = ag_roster_revision g + 1;
          delta = \<lparr>rd_revision = revision, rd_joined = None,
                   rd_left = Some \<lparr>rp_pubkey = ap_pubkey peer, rp_peer_index = ap_peer_index peer\<rparr>\<rparr>
      in r\<lparr>ro_peers := AList.delete peer_id (ro_peers r),
           ro_guard := g\<lparr>ag_roster_revision := revision\<rparr>,
           ro_roster_log := ro_roster_log r @ [delta]\<rparr>)"

definition remove_peer :: "peer_id \<Rightarrow> room \<Rightarrow> room" where
  "remove_peer peer_id r =
     (case map_of (ro_peers r) peer_id of None \<Rightarrow> r | Some peer \<Rightarrow> expel peer_id peer r)"

definition remove_peer_and_check_ended :: "peer_id \<Rightarrow> room \<Rightarrow> room \<times> (u8 \<times> bool) option" where
  "remove_peer_and_check_ended peer_id r =
     (case map_of (ro_peers r) peer_id of
        None \<Rightarrow> (r, None)
      | Some peer \<Rightarrow>
          (let r1 = expel peer_id peer r
           in if \<not> ag_ended (ro_guard r1) \<and> ro_peers r1 = []
              then (r1\<lparr>ro_guard := ro_guard r1\<lparr>ag_ended := True\<rparr>\<rparr>, Some (ap_peer_index peer, True))
              else (r1, Some (ap_peer_index peer, False))))"

section \<open>Fan-out\<close>

definition send_audio :: "frame \<Rightarrow> audio_peer \<Rightarrow> audio_peer" where
  "send_audio bytes peer = peer\<lparr>ap_audio_tx := fst (try_send bytes (ap_audio_tx peer))\<rparr>"

definition broadcast_frame :: "peer_id \<Rightarrow> frame \<Rightarrow> room \<Rightarrow> room" where
  "broadcast_frame sender_id bytes r =
     (case map_of (ro_peers r) sender_id of
        None \<Rightarrow> r
      | Some p \<Rightarrow>
          (let prefixed = ap_peer_index p # bytes
           in r\<lparr>ro_peers := map (\<lambda>(i, peer). if i = sender_id then (i, peer) else (i, send_audio prefixed peer))
                             (ro_peers r)\<rparr>))"

definition deliver_prefixed :: "u8 \<Rightarrow> frame \<Rightarrow> room \<Rightarrow> room" where
  "deliver_prefixed author_index prefixed r =
     r\<lparr>ro_peers := map (\<lambda>(i, peer). if ap_peer_index peer = author_index then (i, peer)
                                    else (i, send_audio prefixed peer)) (ro_peers r)\<rparr>"

definition broadcast_control :: "string \<Rightarrow> room \<Rightarrow> room" where
  "broadcast_control json r =
     r\<lparr>ro_peers := map (\<lambda>(i, peer).
          (i, peer\<lparr>ap_ctrl_tx := fst (try_send (CtrlJson json) (ap_ctrl_tx peer))\<rparr>)) (ro_peers r)\<rparr>"

definition roster_peer_of :: "audio_peer \<Rightarrow> roster_peer" where
  "roster_peer_of peer = \<lparr>rp_pubkey = ap_pubkey peer, rp_peer_index = ap_peer_index peer\<rparr>"

definition room_roster_snapshot :: "room \<Rightarrow> roster_snapshot" where
  "room_roster_snapshot r =
     \<lparr>rs_revision = ag_roster_revision (ro_guard r),
      rs_peers = sort_key rp_peer_index (map (\<lambda>(_, peer). roster_peer_of peer) (ro_peers r))\<rparr>"

definition peer_pubkeys :: "room \<Rightarrow> (string \<times> u8) list" where
  "peer_pubkeys r = map (\<lambda>(_, peer). (ap_pubkey peer, ap_peer_index peer)) (ro_peers r)"

definition room_is_empty :: "room \<Rightarrow> bool" where
  "room_is_empty r \<longleftrightarrow> ro_peers r = []"

section \<open>The rooms of a relay\<close>

text \<open>
  An \<open>Arc<Room>\<close> is a handle into \<open>am_heap\<close>: a caller keeps its handle when the manager drops the room.
\<close>

type_synonym room_key = "string \<times> string"

record room_manager =
  am_rooms :: "(room_key, nat) hmap"
  am_heap :: "(nat, room) hmap"
  am_next :: nat

definition new_manager :: room_manager where
  "new_manager = \<lparr>am_rooms = [], am_heap = [], am_next = 0\<rparr>"

definition get_or_create :: "string \<Rightarrow> string \<Rightarrow> room_manager \<Rightarrow> room_manager \<times> nat" where
  "get_or_create community_id channel_id m =
     (case map_of (am_rooms m) (community_id, channel_id) of
        Some h \<Rightarrow> (m, h)
      | None \<Rightarrow>
          (m\<lparr>am_rooms := AList.update (community_id, channel_id) (am_next m) (am_rooms m),
             am_heap := AList.update (am_next m) (new_room community_id channel_id) (am_heap m),
             am_next := Suc (am_next m)\<rparr>, am_next m))"

definition get_room :: "string \<Rightarrow> string \<Rightarrow> room_manager \<Rightarrow> nat option" where
  "get_room community_id channel_id m = map_of (am_rooms m) (community_id, channel_id)"

definition get_unambiguous_by_channel :: "string \<Rightarrow> room_manager \<Rightarrow> nat option" where
  "get_unambiguous_by_channel channel_id m =
     (case filter (\<lambda>((community, channel), h). channel = channel_id) (am_rooms m) of
        [] \<Rightarrow> None
      | [(key, h)] \<Rightarrow> Some h
      | _ \<Rightarrow> None)"

definition cleanup_if_empty :: "string \<Rightarrow> string \<Rightarrow> room_manager \<Rightarrow> room_manager \<times> bool" where
  "cleanup_if_empty community_id channel_id m =
     (case map_of (am_rooms m) (community_id, channel_id) of
        None \<Rightarrow> (m, False)
      | Some h \<Rightarrow>
          (case map_of (am_heap m) h of
             Some r \<Rightarrow>
               if room_is_empty r
               then (m\<lparr>am_rooms := AList.delete (community_id, channel_id) (am_rooms m)\<rparr>, True)
               else (m, False)
           | None \<Rightarrow> (m, False)))"

text \<open>A method of the room behind a handle.\<close>

definition on_room :: "(room \<Rightarrow> room) \<Rightarrow> nat \<Rightarrow> room_manager \<Rightarrow> room_manager" where
  "on_room f h m =
     (case map_of (am_heap m) h of
        None \<Rightarrow> m | Some r \<Rightarrow> m\<lparr>am_heap := AList.update h (f r) (am_heap m)\<rparr>)"

section \<open>Following the owner's roster\<close>

text \<open>
  \<open>read_owner_control\<close> of \<open>join.rs\<close>: a non-owner relay reads the frames of the owner's control stream and
  forwards roster changes to its client. Each frame comes with whether the send that it triggers
  succeeds. The result lists the sends, and has the last revision and, once the loop returned, the
  cause.
\<close>

datatype goodbye_reason = StaleGeneration | Draining | SessionEndedReason

datatype teardown_cause = OwnerLost | OwnerDraining | SessionEnded | StreamClosed

fun from_goodbye :: "goodbye_reason \<Rightarrow> teardown_cause" where
  "from_goodbye StaleGeneration = OwnerLost"
| "from_goodbye Draining = OwnerDraining"
| "from_goodbye SessionEndedReason = SessionEnded"

datatype fence_rejection = FenceStale | FenceNoLease | FenceOwnerMismatch | FenceFuture

datatype register_rejection = RoomFull | RoomEnded | RoomVersionMismatch u8 u8 | Fenced fence_rejection

datatype huddle_control_msg =
    RegisterPeer string string u8
  | PeerRegistered string u8 roster_snapshot
  | RosterSnapshot u64 "roster_peer list"
  | RosterDelta u64 "roster_peer option" "roster_peer option"
  | RosterResync
  | RegisterRejected string register_rejection
  | UnregisterPeer string

fun admission_to_rejection :: "admission_error \<Rightarrow> register_rejection" where
  "admission_to_rejection Full = RoomFull"
| "admission_to_rejection Ended = RoomEnded"
| "admission_to_rejection (VersionMismatch pinned requested) = RoomVersionMismatch pinned requested"

definition roster_snapshot_msg :: "room \<Rightarrow> huddle_control_msg" where
  "roster_snapshot_msg r =
     (let snapshot = room_roster_snapshot r in RosterSnapshot (rs_revision snapshot) (rs_peers snapshot))"

definition roster_delta_msg :: "roster_delta \<Rightarrow> huddle_control_msg" where
  "roster_delta_msg d = RosterDelta (rd_revision d) (rd_joined d) (rd_left d)"

text \<open>A frame of the stream; \<open>Data None\<close> is a payload that does not decode.\<close>

datatype owner_frame = Goodbye goodbye_reason | Data "huddle_control_msg option" | OtherFrame | StreamEnd | StreamError

datatype client_msg =
    ClientRoster u64 "roster_peer list"
  | ClientJoined u64 roster_peer
  | ClientLeft u64 roster_peer

datatype control_send = ToClient client_msg | ToOwner huddle_control_msg

fun read_owner_control ::
  "u64 \<Rightarrow> (owner_frame \<times> bool) list \<Rightarrow> control_send list \<times> u64 \<times> teardown_cause option" where
  "read_owner_control revision [] = ([], revision, None)"
| "read_owner_control revision ((frame, ok) # frames) =
     (case frame of
        Goodbye reason \<Rightarrow> ([], revision, Some (from_goodbye reason))
      | Data (Some (RosterSnapshot next peers)) \<Rightarrow>
          if ok then
            (case read_owner_control next frames of
               (sends, res) \<Rightarrow> (ToClient (ClientRoster next peers) # sends, res))
          else ([], next, Some SessionEnded)
      | Data (Some (RosterDelta next joined left)) \<Rightarrow>
          if next = revision + 1 then
            (case (joined, left) of
               (Some peer, _) \<Rightarrow>
                 if ok then
                   (case read_owner_control next frames of
                      (sends, res) \<Rightarrow> (ToClient (ClientJoined next peer) # sends, res))
                 else ([], next, Some SessionEnded)
             | (None, Some peer) \<Rightarrow>
                 if ok then
                   (case read_owner_control next frames of
                      (sends, res) \<Rightarrow> (ToClient (ClientLeft next peer) # sends, res))
                 else ([], next, Some SessionEnded)
             | (None, None) \<Rightarrow> read_owner_control next frames)
          else if next \<le> revision then read_owner_control revision frames
          else if ok then
            (case read_owner_control revision frames of
               (sends, res) \<Rightarrow> (ToOwner RosterResync # sends, res))
          else ([], revision, Some StreamClosed)
      | Data _ \<Rightarrow> read_owner_control revision frames
      | OtherFrame \<Rightarrow> read_owner_control revision frames
      | StreamEnd \<Rightarrow> ([], revision, Some StreamClosed)
      | StreamError \<Rightarrow> ([], revision, Some StreamClosed))"

section \<open>Peers and indices\<close>

definition index_of :: "(peer_id, audio_peer) hmap \<Rightarrow> peer_id \<Rightarrow> u8 option" where
  "index_of peers i = map_option ap_peer_index (map_of peers i)"

lemma index_of_edits [hmap_simps]:
  "index_of (AList.update k p peers) i = (if i = k then Some (ap_peer_index p) else index_of peers i)"
  "index_of (AList.delete k peers) i = (if i = k then None else index_of peers i)"
  by (simp_all add: index_of_def hmap_simps)

lemma delete_present_mset:
  "hwf m \<Longrightarrow> map_of m k = Some v \<Longrightarrow> mset m = add_mset (k, v) (mset (AList.delete k m))"
proof (induction m)
  case Nil
  then show ?case by simp
next
  case (Cons a m)
  obtain k' v' where a: "a = (k', v')" by fastforce
  show ?case
  proof (cases "k' = k")
    case True
    with Cons.prems have "map_of m k = None" by (auto simp: a hwf_def map_of_eq_None_iff)
    with True Cons.prems(2) show ?thesis by (simp add: a delete_absent)
  next
    case False
    with Cons.prems Cons.IH show ?thesis by (simp add: a hwf_def)
  qed
qed

lemma map_of_map_snd: "map_of (map (\<lambda>(i, p). (i, f i p)) m) k = map_option (f k) (map_of m k)"
  by (induction m) auto

lemma hwf_map_snd: "hwf (map (\<lambda>(i, p). (i, f i p)) m) \<longleftrightarrow> hwf m"
  by (simp add: hwf_def comp_def case_prod_beta)

definition indices_ok :: "u8 \<Rightarrow> u8 list \<Rightarrow> (peer_id \<Rightarrow> u8 option) \<Rightarrow> bool" where
  "indices_ok next_fresh free idx \<longleftrightarrow>
     distinct free \<and> (\<forall>i j x. idx i = Some x \<longrightarrow> idx j = Some x \<longrightarrow> i = j)
     \<and> ran idx \<inter> set free = {} \<and> (\<forall>x\<in>set free \<union> ran idx. x < next_fresh \<or> next_fresh = 255)"

lemma u8_max: "(255 :: u8) = - 1"
  by simp

lemma u8_succ_less: "(x :: u8) \<noteq> 255 \<Longrightarrow> x < x + 1"
  using sat_succ_less [of x] unfolding sat_succ_def u8_max [symmetric] by simp

lemma indices_ok_new: "indices_ok 0 [] (\<lambda>_. None)"
  by (simp add: indices_ok_def)

lemma indices_ok_insert:
  assumes "indices_ok n free idx" and "x \<notin> ran idx" and "x \<notin> set free" and "x < n \<or> n = 255"
  shows "indices_ok n free (idx(i \<mapsto> x))"
  using assms unfolding indices_ok_def ran_def by (auto split: if_splits)

lemma indices_ok_release:
  assumes "indices_ok n free idx" and "idx i = Some x"
  shows "indices_ok n (x # free) (idx(i := None))"
proof -
  have "x \<in> ran idx" using assms(2) by (auto simp: ran_def)
  then have "x \<notin> set free" and "x < n \<or> n = 255" using assms(1) by (auto simp: indices_ok_def)
  moreover have "x \<notin> ran (idx(i := None))" using assms unfolding indices_ok_def ran_def by (auto split: if_splits)
  moreover have "ran (idx(i := None)) \<subseteq> ran idx" by (auto simp: ran_def split: if_splits)
  ultimately show ?thesis using assms(1) unfolding indices_ok_def by (auto split: if_splits)
qed

lemma alloc_spec:
  assumes "indices_ok (ag_next_fresh g) (ag_free g) idx" and "alloc g = (g', Some x)"
  shows "x \<notin> ran idx" and "x \<notin> set (ag_free g')" and "x < ag_next_fresh g' \<or> ag_next_fresh g' = 255"
    and "indices_ok (ag_next_fresh g') (ag_free g') idx"
    and "ag_ended g' = ag_ended g \<and> ag_pinned_version g' = ag_pinned_version g \<and> ag_roster_revision g' = ag_roster_revision g"
proof -
  let ?n = "ag_next_fresh g"
  show "ag_ended g' = ag_ended g \<and> ag_pinned_version g' = ag_pinned_version g \<and> ag_roster_revision g' = ag_roster_revision g"
    using assms(2) by (auto simp: alloc_def split: list.splits if_splits)
  have all: "x \<notin> ran idx \<and> x \<notin> set (ag_free g') \<and> (x < ag_next_fresh g' \<or> ag_next_fresh g' = 255)
      \<and> indices_ok (ag_next_fresh g') (ag_free g') idx"
  proof (cases "ag_free g")
    case (Cons y free)
    with assms(2) have "x = y" and "g' = g\<lparr>ag_free := free\<rparr>" by (simp_all add: alloc_def)
    with assms(1) Cons show ?thesis by (auto simp: indices_ok_def)
  next
    case Nil
    with assms(2) have n: "?n \<noteq> 255" and x: "x = ?n" and g': "g' = g\<lparr>ag_next_fresh := ?n + 1\<rparr>"
      by (auto simp: alloc_def split: if_splits)
    from u8_succ_less [OF n] have less: "?n < ?n + 1" .
    have old: "y < ?n" if "y \<in> ran idx" for y using assms(1) n that by (auto simp: indices_ok_def)
    then have "y < ?n + 1" if "y \<in> ran idx" for y using that less by (meson less_trans)
    with assms(1) old Nil less show ?thesis by (auto simp: x g' indices_ok_def)
  qed
  from all show "x \<notin> ran idx" and "x \<notin> set (ag_free g')" and "x < ag_next_fresh g' \<or> ag_next_fresh g' = 255"
    and "indices_ok (ag_next_fresh g') (ag_free g') idx" by simp_all
qed

lemma reserve_index:
  assumes "indices_ok n free idx" and "x \<notin> ran idx"
  shows "indices_ok (if n \<le> x then sat_succ x else n) (filter (\<lambda>y. y \<noteq> x) free) (idx(i \<mapsto> x))"
proof (rule indices_ok_insert)
  let ?n = "if n \<le> x then sat_succ x else n"
  have grow: "y < ?n \<or> ?n = 255" if "y < n \<or> n = 255" for y
  proof (cases "n \<le> x")
    case True
    show ?thesis
    proof (cases "x = 255")
      case False
      then have "x < sat_succ x" by (metis sat_succ_less u8_max)
      moreover have "n \<noteq> 255" using True False by (metis antisym u8_max word_order.extremum)
      ultimately show ?thesis using that True by (auto intro: less_trans less_le_trans)
    qed (use True in \<open>simp add: sat_succ_def\<close>)
  qed (use that in simp)
  then show "indices_ok ?n (filter (\<lambda>y. y \<noteq> x) free) idx" using assms(1) unfolding indices_ok_def by auto
  show "x < ?n \<or> ?n = 255"
    using sat_succ_less [of x] unfolding sat_succ_def u8_max [symmetric] by (auto simp: not_le)
qed (use assms in auto)

section \<open>Reachable rooms\<close>

text \<open>Applying a delta to a roster.\<close>

definition opt_mset :: "'a option \<Rightarrow> 'a multiset" where
  "opt_mset x = (case x of None \<Rightarrow> {#} | Some a \<Rightarrow> {#a#})"

definition apply_roster_delta :: "roster_delta \<Rightarrow> roster_peer multiset \<Rightarrow> roster_peer multiset" where
  "apply_roster_delta d R = R - opt_mset (rd_left d) + opt_mset (rd_joined d)"

definition room_roster :: "room \<Rightarrow> roster_peer multiset" where
  "room_roster r = image_mset (\<lambda>(i, peer). roster_peer_of peer) (mset (ro_peers r))"

definition roster_at :: "roster_delta list \<Rightarrow> nat \<Rightarrow> roster_peer multiset" where
  "roster_at log k = fold apply_roster_delta (take k log) {#}"

definition one_sided :: "roster_delta \<Rightarrow> bool" where
  "one_sided d \<longleftrightarrow> (rd_joined d = None) \<noteq> (rd_left d = None)"

definition log_ok :: "room \<Rightarrow> bool" where
  "log_ok r \<longleftrightarrow>
     ag_roster_revision (ro_guard r) = of_nat (length (ro_roster_log r))
     \<and> (\<forall>k<length (ro_roster_log r). rd_revision (ro_roster_log r ! k) = of_nat (Suc k)
          \<and> one_sided (ro_roster_log r ! k))
     \<and> room_roster r = roster_at (ro_roster_log r) (length (ro_roster_log r))"

definition room_ok :: "room \<Rightarrow> bool" where
  "room_ok r \<longleftrightarrow>
     hwf (ro_peers r) \<and> length (ro_peers r) \<le> MAX_PEERS_PER_ROOM
     \<and> indices_ok (ag_next_fresh (ro_guard r)) (ag_free (ro_guard r)) (index_of (ro_peers r))
     \<and> (ro_peers r \<noteq> [] \<longrightarrow> ag_pinned_version (ro_guard r) \<noteq> None)
     \<and> log_ok r"

datatype room_op =
    AddPeer peer_id string u8
  | AddPeerAt peer_id string u8 u8
  | RemovePeer peer_id
  | RemoveAndCheck peer_id
  | MarkEnded
  | ClearEnded
  | BroadcastFrame peer_id frame
  | DeliverPrefixed u8 frame
  | BroadcastControl string
  | PeerReceives peer_id
  | PeerGone peer_id

text \<open>
  \<open>Uuid::new_v4\<close> never repeats an id of a peer in the room. Between the calls a peer's receiver may
  empty its channels or go away.
\<close>

fun room_step :: "room_op \<Rightarrow> room \<Rightarrow> room" where
  "room_step (AddPeer i pubkey v) r =
     (if map_of (ro_peers r) i = None then fst (add_peer i pubkey v r) else r)"
| "room_step (AddPeerAt i pubkey v idx) r =
     (if map_of (ro_peers r) i = None then fst (add_peer_at_index i pubkey v idx r) else r)"
| "room_step (RemovePeer i) r = remove_peer i r"
| "room_step (RemoveAndCheck i) r = fst (remove_peer_and_check_ended i r)"
| "room_step MarkEnded r = fst (mark_ended r)"
| "room_step ClearEnded r = clear_ended r"
| "room_step (BroadcastFrame i bytes) r = broadcast_frame i bytes r"
| "room_step (DeliverPrefixed idx bytes) r = deliver_prefixed idx bytes r"
| "room_step (BroadcastControl json) r = broadcast_control json r"
| "room_step (PeerReceives i) r =
     r\<lparr>ro_peers := map (\<lambda>(j, p). (j, if j = i
         then p\<lparr>ap_audio_tx := ap_audio_tx p\<lparr>mp_buffer := []\<rparr>, ap_ctrl_tx := ap_ctrl_tx p\<lparr>mp_buffer := []\<rparr>\<rparr>
         else p)) (ro_peers r)\<rparr>"
| "room_step (PeerGone i) r =
     r\<lparr>ro_peers := map (\<lambda>(j, p). (j, if j = i
         then p\<lparr>ap_audio_tx := ap_audio_tx p\<lparr>mp_closed := True\<rparr>, ap_ctrl_tx := ap_ctrl_tx p\<lparr>mp_closed := True\<rparr>\<rparr>
         else p)) (ro_peers r)\<rparr>"

lemma room_ok_new: "room_ok (new_room community channel)"
proof -
  have "index_of [] = (\<lambda>_. None)" by (rule ext) (simp add: index_of_def)
  with indices_ok_new show ?thesis
    by (simp add: room_ok_def new_room_def new_guard_def log_ok_def room_roster_def roster_at_def)
qed

text \<open>Steps that change the channels of peers only.\<close>

lemma room_ok_channels:
  assumes "room_ok r" and "\<And>i p. ap_pubkey (f i p) = ap_pubkey p \<and> ap_peer_index (f i p) = ap_peer_index p"
  shows "room_ok (r\<lparr>ro_peers := map (\<lambda>(i, p). (i, f i p)) (ro_peers r)\<rparr>)"
proof -
  have "index_of (map (\<lambda>(i, p). (i, f i p)) (ro_peers r)) = index_of (ro_peers r)"
    by (rule ext) (simp add: index_of_def map_of_map_snd option.map_comp comp_def assms(2))
  moreover have "room_roster (r\<lparr>ro_peers := map (\<lambda>(i, p). (i, f i p)) (ro_peers r)\<rparr>) = room_roster r"
    by (simp add: room_roster_def roster_peer_of_def image_mset.compositionality comp_def case_prod_unfold assms(2))
  ultimately show ?thesis using assms(1) by (simp add: room_ok_def log_ok_def hwf_map_snd)
qed

text \<open>A delta appended to the log.\<close>

lemma roster_at_snoc:
  "roster_at (log @ [d]) (Suc (length log)) = apply_roster_delta d (roster_at log (length log))"
  by (simp add: roster_at_def)

lemma log_ok_step:
  assumes "log_ok r" and "ro_roster_log r' = ro_roster_log r @ [d]"
    and "ag_roster_revision (ro_guard r') = ag_roster_revision (ro_guard r) + 1"
    and "rd_revision d = ag_roster_revision (ro_guard r')" and "one_sided d"
    and "room_roster r' = apply_roster_delta d (room_roster r)"
  shows "log_ok r'"
  using assms by (auto simp: log_ok_def roster_at_snoc nth_append less_Suc_eq)

lemma admit_ok:
  assumes r: "room_ok r" and fresh: "map_of (ro_peers r) i = None" and room: "length (ro_peers r) < MAX_PEERS_PER_ROOM"
    and idx: "indices_ok (ag_next_fresh g) (ag_free g) ((index_of (ro_peers r))(i \<mapsto> idx))"
    and g: "ag_roster_revision g = ag_roster_revision (ro_guard r)" "ag_pinned_version g \<noteq> None"
  shows "room_ok (admit i pubkey idx g r)"
proof -
  let ?r = "admit i pubkey idx g r"
  have peers: "length (ro_peers ?r) = Suc (length (ro_peers r))"
    by (simp add: admit_def Let_def update_absent [OF fresh])
  have "index_of (ro_peers ?r) = (index_of (ro_peers r))(i \<mapsto> idx)"
    by (rule ext) (simp add: admit_def Let_def index_of_edits)
  moreover have "log_ok ?r"
  proof (rule log_ok_step)
    show "log_ok r" using r by (simp add: room_ok_def)
    show "room_roster ?r = apply_roster_delta \<lparr>rd_revision = ag_roster_revision g + 1,
        rd_joined = Some \<lparr>rp_pubkey = pubkey, rp_peer_index = idx\<rparr>, rd_left = None\<rparr> (room_roster r)"
      by (simp add: admit_def Let_def room_roster_def update_absent [OF fresh] apply_roster_delta_def
          opt_mset_def roster_peer_of_def)
  qed (simp_all add: admit_def Let_def g one_sided_def)
  ultimately show ?thesis
    using r idx g room peers by (simp add: room_ok_def) (simp add: admit_def Let_def)
qed

lemma expel_ok:
  assumes r: "room_ok r" and look: "map_of (ro_peers r) i = Some p"
  shows "room_ok (expel i p r)"
proof -
  let ?r = "expel i p r"
  have wf: "hwf (ro_peers r)" using r by (simp add: room_ok_def)
  have m: "mset (ro_peers r) = add_mset (i, p) (mset (AList.delete i (ro_peers r)))"
    by (rule delete_present_mset [OF wf look])
  have "index_of (ro_peers ?r) = (index_of (ro_peers r))(i := None)"
    by (rule ext) (simp add: expel_def Let_def index_of_edits)
  moreover have "index_of (ro_peers r) i = Some (ap_peer_index p)" by (simp add: index_of_def look)
  then have "indices_ok (ag_next_fresh (ro_guard r)) (ap_peer_index p # ag_free (ro_guard r))
      ((index_of (ro_peers r))(i := None))"
    using r by (intro indices_ok_release) (simp_all add: room_ok_def)
  moreover have "log_ok ?r"
  proof (rule log_ok_step)
    show "log_ok r" using r by (simp add: room_ok_def)
    show "room_roster ?r = apply_roster_delta \<lparr>rd_revision = ag_roster_revision (ro_guard r) + 1, rd_joined = None,
        rd_left = Some \<lparr>rp_pubkey = ap_pubkey p, rp_peer_index = ap_peer_index p\<rparr>\<rparr> (room_roster r)"
      by (simp add: expel_def Let_def room_roster_def m apply_roster_delta_def opt_mset_def roster_peer_of_def)
  qed (simp_all add: expel_def Let_def release_def one_sided_def)
  moreover have "length (ro_peers ?r) \<le> length (ro_peers r)"
    by (simp add: expel_def Let_def length_delete_le)
  moreover have "ro_peers r \<noteq> []" using look by auto
  ultimately show ?thesis
    using r by (simp add: room_ok_def) (simp add: expel_def Let_def release_def)
qed

lemma version_check_Ok [simp]:
  "version_check v g = Ok u \<longleftrightarrow> ag_pinned_version g = None \<or> ag_pinned_version g = Some v"
  by (auto simp: version_check_def split: option.splits)

lemma version_check_Err [simp]:
  "version_check v g = Err e \<longleftrightarrow> (\<exists>pinned. ag_pinned_version g = Some pinned \<and> pinned \<noteq> v \<and> e = VersionMismatch pinned v)"
  by (auto simp: version_check_def split: option.splits)

lemma pin_version_fields [simp]:
  "ag_next_fresh (pin_version v g) = ag_next_fresh g" "ag_free (pin_version v g) = ag_free g"
  "ag_ended (pin_version v g) = ag_ended g" "ag_roster_revision (pin_version v g) = ag_roster_revision g"
  "\<exists>y. ag_pinned_version (pin_version v g) = Some y"
  by (simp_all add: pin_version_def split: option.split)

lemma alloc_None: "alloc g = (g', None) \<Longrightarrow> g' = g"
  by (auto simp: alloc_def split: list.splits if_splits)

text \<open>Both admissions end in one of two ways: the room as it was, or \<open>admit\<close> with a free index.\<close>

lemma add_peer_cases:
  assumes "room_ok r"
  obtains (rejected) e where "add_peer i pubkey v r = (r, Err e)"
  | (admitted) g idx where "add_peer i pubkey v r = (admit i pubkey idx (pin_version v g) r, Ok (i, idx))"
      and "alloc (ro_guard r) = (g, Some idx)" and "\<not> ag_ended (ro_guard r)"
      and "length (ro_peers r) < MAX_PEERS_PER_ROOM" and "version_check v (ro_guard r) = Ok ()"
proof (cases "ag_ended (ro_guard r) \<or> length (ro_peers r) \<ge> MAX_PEERS_PER_ROOM")
  case True
  then show ?thesis
    by (intro rejected [of "if ag_ended (ro_guard r) then Ended else Full"]) (auto simp: add_peer_def Let_def)
next
  case open_room: False
  show ?thesis
  proof (cases "version_check v (ro_guard r)")
    case (Inl e)
    with open_room show ?thesis by (intro rejected [of e]) (simp add: add_peer_def Let_def del: version_check_Err)
  next
    case (Inr u)
    then have False: "\<not> ag_ended (ro_guard r)" "length (ro_peers r) < MAX_PEERS_PER_ROOM"
      "version_check v (ro_guard r) = Ok ()" using open_room by simp_all
  obtain g x where a: "alloc (ro_guard r) = (g, x)" by fastforce
  show ?thesis
  proof (cases x)
    case None
    with a alloc_None have "g = ro_guard r" by blast
    with False a None show ?thesis by (intro rejected [of Full]) (simp add: add_peer_def Let_def del: version_check_Ok)
  next
    case (Some idx)
    with False a show ?thesis
      by (intro admitted) (simp_all add: add_peer_def Let_def del: version_check_Ok)
  qed
  qed
qed

lemma add_peer_ok:
  assumes r: "room_ok r" and fresh: "map_of (ro_peers r) i = None"
  shows "room_ok (fst (add_peer i pubkey v r))"
  using r
proof (cases rule: add_peer_cases [of r i pubkey v])
  case (rejected e)
  with r show ?thesis by simp
next
  case (admitted g idx)
  have "indices_ok (ag_next_fresh (ro_guard r)) (ag_free (ro_guard r)) (index_of (ro_peers r))"
    using r by (simp add: room_ok_def)
  from alloc_spec [OF this admitted(2)]
  have "indices_ok (ag_next_fresh g) (ag_free g) ((index_of (ro_peers r))(i \<mapsto> idx))"
    and "ag_roster_revision g = ag_roster_revision (ro_guard r)"
    by (auto intro: indices_ok_insert)
  then show ?thesis unfolding admitted(1) fst_conv
    by (intro admit_ok [OF r fresh admitted(4)]) simp_all
qed

lemma index_used_iff:
  "list_ex (\<lambda>(_, peer). ap_peer_index peer = x) peers \<longleftrightarrow> x \<in> ran (index_of peers)" if "hwf peers"
proof -
  have "x \<in> ran (index_of peers) \<longleftrightarrow> (\<exists>i p. map_of peers i = Some p \<and> ap_peer_index p = x)"
    by (auto simp: ran_def index_of_def)
  also have "\<dots> \<longleftrightarrow> (\<exists>i p. (i, p) \<in> set peers \<and> ap_peer_index p = x)" using that by (simp add: hwf_map_of_iff)
  finally show ?thesis by (auto simp: list_ex_iff)
qed

lemma add_peer_at_ok:
  assumes r: "room_ok r" and fresh: "map_of (ro_peers r) i = None"
  shows "room_ok (fst (add_peer_at_index i pubkey v idx r))"
proof (cases "snd (add_peer_at_index i pubkey v idx r)")
  case (Inl e)
  then have "fst (add_peer_at_index i pubkey v idx r) = r"
    by (auto simp: add_peer_at_index_def Let_def guarded_def split: if_splits sum.splits)
  with r show ?thesis by simp
next
  case (Inr j)
  define g where "g = (let g1 = pin_version v (ro_guard r);
      g2 = g1\<lparr>ag_free := filter (\<lambda>x. x \<noteq> idx) (ag_free g1)\<rparr>
    in if idx \<ge> ag_next_fresh g2 then g2\<lparr>ag_next_fresh := sat_succ idx\<rparr> else g2)"
  from Inr have run: "fst (add_peer_at_index i pubkey v idx r) = admit i pubkey idx g r"
    and room: "length (ro_peers r) < MAX_PEERS_PER_ROOM"
    and unused: "\<not> list_ex (\<lambda>(_, peer). ap_peer_index peer = idx) (ro_peers r)"
    by (auto simp: add_peer_at_index_def Let_def guarded_def g_def split: if_splits sum.splits)
  have "idx \<notin> ran (index_of (ro_peers r))" using unused r index_used_iff by (simp add: room_ok_def)
  then have "indices_ok (ag_next_fresh g) (ag_free g) ((index_of (ro_peers r))(i \<mapsto> idx))"
    using reserve_index [of "ag_next_fresh (ro_guard r)" "ag_free (ro_guard r)" "index_of (ro_peers r)" idx i] r
    by (cases "ag_next_fresh (ro_guard r) \<le> idx") (simp_all add: room_ok_def g_def Let_def)
  then show ?thesis unfolding run
    by (rule admit_ok [OF r fresh room]) (simp_all add: g_def Let_def)
qed

lemma guard_flag_ok: "room_ok r \<Longrightarrow> room_ok (r\<lparr>ro_guard := ro_guard r\<lparr>ag_ended := b\<rparr>\<rparr>)"
  by (simp add: room_ok_def log_ok_def room_roster_def)

lemma remove_ok: "room_ok r \<Longrightarrow> room_ok (remove_peer i r)"
  by (auto simp: remove_peer_def intro: expel_ok split: option.split)

lemma remove_check_ok: "room_ok r \<Longrightarrow> room_ok (fst (remove_peer_and_check_ended i r))"
  by (auto simp: remove_peer_and_check_ended_def Let_def intro: expel_ok guard_flag_ok split: option.split)

lemma broadcast_frame_eq:
  "broadcast_frame i bytes r =
     (case map_of (ro_peers r) i of None \<Rightarrow> r
      | Some p \<Rightarrow> r\<lparr>ro_peers := map (\<lambda>(j, q). (j, if j = i then q else send_audio (ap_peer_index p # bytes) q))
                                (ro_peers r)\<rparr>)"
  by (auto simp: broadcast_frame_def Let_def split: option.split intro!: arg_cong [where f = "\<lambda>x. ro_peers_update x r"]
      map_cong)

lemma deliver_prefixed_eq:
  "deliver_prefixed idx bytes r =
     r\<lparr>ro_peers := map (\<lambda>(j, q). (j, if ap_peer_index q = idx then q else send_audio bytes q)) (ro_peers r)\<rparr>"
  by (auto simp: deliver_prefixed_def intro!: arg_cong [where f = "\<lambda>x. ro_peers_update x r"] map_cong)

lemma fan_out_ok:
  assumes "room_ok r"
  shows "room_ok (broadcast_frame i bytes r)" and "room_ok (deliver_prefixed idx bytes r)"
    and "room_ok (broadcast_control json r)"
  using assms
  by (auto simp: broadcast_frame_eq deliver_prefixed_eq broadcast_control_def send_audio_def
      intro!: room_ok_channels split: option.split)

interpretation audio: invariant_machine room_step "\<lambda>r. \<exists>community channel. r = new_room community channel" room_ok
proof
  show "\<exists>community channel. r = new_room community channel \<Longrightarrow> room_ok r" for r
    using room_ok_new by blast
  show "room_ok r \<Longrightarrow> room_ok (room_step a r)" for r a
    by (cases a) (auto simp: add_peer_ok add_peer_at_ok remove_ok remove_check_ok fan_out_ok guard_flag_ok
        mark_ended_def clear_ended_def intro!: room_ok_channels)
qed

section \<open>Properties of a room\<close>

definition room_run :: "string \<Rightarrow> string \<Rightarrow> room_op list \<Rightarrow> room" where
  "room_run community channel ops = fold room_step ops (new_room community channel)"

lemma room_run_ok: "room_ok (room_run community channel ops)"
  unfolding room_run_def by (rule audio.inv_reachable) blast

lemma indices_distinct:
  assumes "room_ok r"
  shows "distinct (map (\<lambda>(i, p). ap_peer_index p) (ro_peers r))"
proof -
  have wf: "hwf (ro_peers r)" and ok: "indices_ok (ag_next_fresh (ro_guard r)) (ag_free (ro_guard r)) (index_of (ro_peers r))"
    using assms by (simp_all add: room_ok_def)
  have "inj_on (\<lambda>(i, p). ap_peer_index p) (set (ro_peers r))"
  proof (rule inj_onI, clarify)
    fix i p j q assume "(i, p) \<in> set (ro_peers r)" "(j, q) \<in> set (ro_peers r)" "ap_peer_index p = ap_peer_index q"
    then have look: "map_of (ro_peers r) i = Some p" "map_of (ro_peers r) j = Some q" by (simp_all add: hwf_map_of_iff wf)
    then have "index_of (ro_peers r) i = Some (ap_peer_index p)" "index_of (ro_peers r) j = Some (ap_peer_index p)"
      using \<open>ap_peer_index p = ap_peer_index q\<close> by (simp_all add: index_of_def)
    with ok have "i = j" unfolding indices_ok_def by blast
    with look show "i = j \<and> p = q" by simp
  qed
  moreover have "distinct (ro_peers r)" using wf by (simp add: hwf_def distinct_map)
  ultimately show ?thesis by (simp add: distinct_map)
qed

text \<open>
  C35 (Indices of a room). In every reachable room no two peers have the same media index, no index in
  use is in the free list, the free list has no repetition, there are at most 25 peers and a room with
  peers is pinned to a protocol version. This holds for any mix of local admissions and admissions at
  indices that the owner chose.
\<close>

theorem room_indices_unique:
  "let r = room_run community channel ops
   in distinct (map (\<lambda>(i, p). ap_peer_index p) (ro_peers r) @ ag_free (ro_guard r))
      \<and> length (ro_peers r) \<le> 25
      \<and> (case ag_pinned_version (ro_guard r) of None \<Rightarrow> ro_peers r = [] | Some v \<Rightarrow> True)"
proof -
  let ?r = "room_run community channel ops"
  have ok: "room_ok ?r" by (rule room_run_ok)
  have "ap_peer_index p \<in> ran (index_of (ro_peers ?r))" if "(i, p) \<in> set (ro_peers ?r)" for i p
    using that ok by (auto simp: room_ok_def ran_def index_of_def hwf_map_of_iff [symmetric])
  then have "ap_peer_index p \<notin> set (ag_free (ro_guard ?r))" if "(i, p) \<in> set (ro_peers ?r)" for i p
    using that ok unfolding room_ok_def indices_ok_def by blast
  moreover have "distinct (ag_free (ro_guard ?r))" using ok by (simp add: room_ok_def indices_ok_def)
  ultimately have "distinct (map (\<lambda>(i, p). ap_peer_index p) (ro_peers ?r) @ ag_free (ro_guard ?r))"
    using indices_distinct [OF ok] by auto
  then show ?thesis using ok by (auto simp: room_ok_def MAX_PEERS_PER_ROOM_def Let_def split: option.split)
qed

text \<open>
  Admission. In a reachable room a join with a new peer id either leaves the room as it was, with
  Ended exactly for an ended room, with a version mismatch only when the room is open, has a seat and is
  pinned to another version, and else Full; or the room was open with a seat and a compatible pin, the
  peer gets an index that no peer holds, and the room is pinned to the peer's version.
\<close>

theorem admission_outcome:
  "let r = room_run community channel ops
   in case add_peer i pubkey v r of
        (r', Inl e) \<Rightarrow>
          r' = r \<and> (e = Ended \<longleftrightarrow> ag_ended (ro_guard r))
          \<and> (case e of
               VersionMismatch pinned requested \<Rightarrow>
                 length (ro_peers r) < 25 \<and> ag_pinned_version (ro_guard r) = Some pinned
                 \<and> pinned \<noteq> v \<and> requested = v
             | Full \<Rightarrow> length (ro_peers r) = 25 \<or> ag_next_fresh (ro_guard r) = 255
             | Ended \<Rightarrow> True)
      | (r', Inr (j, idx)) \<Rightarrow>
          j = i \<and> \<not> ag_ended (ro_guard r) \<and> length (ro_peers r) < 25
          \<and> ag_pinned_version (ro_guard r) \<in> {None, Some v} \<and> ag_pinned_version (ro_guard r') = Some v
          \<and> idx \<notin> ran (index_of (ro_peers r)) \<and> index_of (ro_peers r') = (index_of (ro_peers r))(i \<mapsto> idx)"
proof -
  let ?r = "room_run community channel ops"
  let ?g = "ro_guard ?r"
  have ok: "room_ok ?r" by (rule room_run_ok)
  have len: "length (ro_peers ?r) \<le> 25" using ok by (simp add: room_ok_def MAX_PEERS_PER_ROOM_def)
  consider "ag_ended ?g" | "\<not> ag_ended ?g" "length (ro_peers ?r) = 25"
    | pinned where "\<not> ag_ended ?g" "length (ro_peers ?r) < 25" "ag_pinned_version ?g = Some pinned" "pinned \<noteq> v"
    | "\<not> ag_ended ?g" "length (ro_peers ?r) < 25" "ag_pinned_version ?g \<in> {None, Some v}"
    using len by (cases "ag_pinned_version ?g") fastforce+
  then show ?thesis
  proof cases
    case 4
    obtain g x where a: "alloc ?g = (g, x)" by fastforce
    have guard: "version_check v ?g = Ok ()" using 4 by auto
    show ?thesis
    proof (cases x)
      case None
      with a have "g = ?g" "ag_next_fresh ?g = 255"
        by (auto simp: alloc_def split: list.splits if_splits)
      with 4 a None guard show ?thesis
        by (simp add: add_peer_def Let_def MAX_PEERS_PER_ROOM_def del: version_check_Ok)
    next
      case (Some idx)
      have ind: "indices_ok (ag_next_fresh ?g) (ag_free ?g) (index_of (ro_peers ?r))"
        using ok by (simp add: room_ok_def)
      note spec = alloc_spec [OF ind a [unfolded Some]]
      have "add_peer i pubkey v ?r = (admit i pubkey idx (pin_version v g) ?r, Ok (i, idx))"
        using 4 a Some guard by (simp add: add_peer_def Let_def MAX_PEERS_PER_ROOM_def del: version_check_Ok)
      moreover have "index_of (ro_peers (admit i pubkey idx (pin_version v g) ?r)) = (index_of (ro_peers ?r))(i \<mapsto> idx)"
        by (rule ext) (simp add: admit_def Let_def index_of_edits)
      moreover have "ag_pinned_version (ro_guard (admit i pubkey idx (pin_version v g) ?r)) = Some v"
        using 4(3) spec(5) by (auto simp: admit_def Let_def pin_version_def)
      ultimately show ?thesis using 4 spec(1) by (simp add: Let_def)
    qed
  qed (simp_all add: add_peer_def Let_def MAX_PEERS_PER_ROOM_def version_check_def)
qed

text \<open>
  The last one out ends the room. Removing a peer of a reachable room returns its index and takes
  only that peer out; it reports the end exactly for the last peer of a room that was not ended, and
  then every later admission is refused with Ended; otherwise the ended flag stays as it was.
\<close>

theorem last_leaver_ends:
  "let r = room_run community channel ops
   in case remove_peer_and_check_ended i r of
        (r', None) \<Rightarrow> r' = r \<and> map_of (ro_peers r) i = None
      | (r', Some (idx, should_end)) \<Rightarrow>
          index_of (ro_peers r) i = Some idx \<and> map_of (ro_peers r') = (map_of (ro_peers r))(i := None)
          \<and> should_end = (\<not> ag_ended (ro_guard r) \<and> length (ro_peers r) = 1)
          \<and> (if should_end
             then snd (add_peer j pubkey v r') = Err Ended \<and> snd (add_peer_at_index j pubkey v k r') = Err Ended
             else ag_ended (ro_guard r') = ag_ended (ro_guard r))"
proof -
  let ?r = "room_run community channel ops"
  have wf: "hwf (ro_peers ?r)" using room_run_ok [of community channel ops] by (simp add: room_ok_def)
  show ?thesis
  proof (cases "map_of (ro_peers ?r) i")
    case None
    then show ?thesis by (simp add: remove_peer_and_check_ended_def Let_def)
  next
    case (Some p)
    have "size (mset (ro_peers ?r)) = Suc (size (mset (AList.delete i (ro_peers ?r))))"
      by (simp only: delete_present_mset [OF wf Some] size_add_mset)
    then have empty: "AList.delete i (ro_peers ?r) = [] \<longleftrightarrow> length (ro_peers ?r) = 1" by auto
    have del: "map_of (AList.delete i (ro_peers ?r)) = (map_of (ro_peers ?r))(i := None)"
      by (rule ext) (simp add: hget_delete)
    show ?thesis
      by (simp add: remove_peer_and_check_ended_def Let_def Some expel_def release_def empty index_of_def del
          add_peer_def add_peer_at_index_def)
  qed
qed

text \<open>
  Fan-out of a frame. In a reachable room a frame of a peer reaches every other peer whose audio
  channel is open and not full, behind the sender's index; the sender and the peers with a full or closed
  channel are as before, nothing is queued beyond the capacity. Delivering the same prefixed frame by the
  author's index, as the mesh path does, has exactly the same effect: no peer is skipped in error.
\<close>

theorem frame_fan_out:
  assumes "map_of (ro_peers (room_run community channel ops)) i = Some p"
  defines "r \<equiv> room_run community channel ops"
  shows "map_of (ro_peers (broadcast_frame i bytes r)) j =
      map_option (\<lambda>q. if j = i \<or> mp_closed (ap_audio_tx q) \<or> length (mp_buffer (ap_audio_tx q)) \<ge> mp_capacity (ap_audio_tx q)
           then q
           else q\<lparr>ap_audio_tx := ap_audio_tx q\<lparr>mp_buffer := mp_buffer (ap_audio_tx q) @ [ap_peer_index p # bytes]\<rparr>\<rparr>)
        (map_of (ro_peers r) j)
    \<and> deliver_prefixed (ap_peer_index p) (ap_peer_index p # bytes) r = broadcast_frame i bytes r"
proof -
  have look: "map_of (ro_peers r) i = Some p" using assms(1) by (simp add: r_def)
  have ok: "room_ok r" unfolding r_def by (rule room_run_ok)
  have effect: "map_of (ro_peers (broadcast_frame i bytes r)) j =
      map_option (\<lambda>q. if j = i \<or> mp_closed (ap_audio_tx q) \<or> length (mp_buffer (ap_audio_tx q)) \<ge> mp_capacity (ap_audio_tx q)
           then q
           else q\<lparr>ap_audio_tx := ap_audio_tx q\<lparr>mp_buffer := mp_buffer (ap_audio_tx q) @ [ap_peer_index p # bytes]\<rparr>\<rparr>)
        (map_of (ro_peers r) j)"
    by (cases "map_of (ro_peers r) j")
       (simp_all add: broadcast_frame_eq look map_of_map_snd send_audio_def try_send_def)
  have same: "ap_peer_index q = ap_peer_index p \<longleftrightarrow> j' = i" if "(j', q) \<in> set (ro_peers r)" for j' q
  proof -
    have "map_of (ro_peers r) j' = Some q" using that ok by (simp add: room_ok_def hwf_map_of_iff)
    then have "index_of (ro_peers r) j' = Some (ap_peer_index q)" and "index_of (ro_peers r) i = Some (ap_peer_index p)"
      using look by (simp_all add: index_of_def)
    moreover have "\<forall>a b x. index_of (ro_peers r) a = Some x \<longrightarrow> index_of (ro_peers r) b = Some x \<longrightarrow> a = b"
      using ok by (simp add: room_ok_def indices_ok_def)
    ultimately show ?thesis using look \<open>map_of (ro_peers r) j' = Some q\<close> by fastforce
  qed
  have "map (\<lambda>(j', q). (j', if ap_peer_index q = ap_peer_index p then q else send_audio (ap_peer_index p # bytes) q)) (ro_peers r)
      = map (\<lambda>(j', q). (j', if j' = i then q else send_audio (ap_peer_index p # bytes) q)) (ro_peers r)"
    using same by (intro map_cong) (auto split: prod.split)
  then have "deliver_prefixed (ap_peer_index p) (ap_peer_index p # bytes) r = broadcast_frame i bytes r"
    by (simp add: deliver_prefixed_eq broadcast_frame_eq look)
  with effect show ?thesis by blast
qed

definition two_peers :: "room_op list" where
  "two_peers = [AddPeer ''1'' ''alice'' 2, AddPeer ''2'' ''bob'' 2]"

lemma two_peers_run:
  "map_of (ro_peers (room_run ''c'' ''h'' two_peers)) ''1''
     = Some \<lparr>ap_pubkey = ''alice'', ap_audio_tx = mpsc_channel 8, ap_ctrl_tx = mpsc_channel 32, ap_peer_index = 0\<rparr>"
  "map_of (ro_peers (room_run ''c'' ''h'' two_peers)) ''2''
     = Some \<lparr>ap_pubkey = ''bob'', ap_audio_tx = mpsc_channel 8, ap_ctrl_tx = mpsc_channel 32, ap_peer_index = 1\<rparr>"
  by (simp_all add: room_run_def two_peers_def add_peer_def Let_def new_room_def new_guard_def MAX_PEERS_PER_ROOM_def
      version_check_def alloc_def admit_def pin_version_def AUDIO_CHANNEL_CAPACITY_def CTRL_CHANNEL_CAPACITY_def)

theorem frame_fan_out_witness:
  "map_of (ro_peers (broadcast_frame ''1'' [7, 8] (room_run ''c'' ''h'' two_peers))) ''2''
     = Some \<lparr>ap_pubkey = ''bob'', ap_audio_tx = \<lparr>mp_buffer = [[0, 7, 8]], mp_capacity = 8, mp_closed = False\<rparr>,
             ap_ctrl_tx = mpsc_channel 32, ap_peer_index = 1\<rparr>"
  using frame_fan_out [OF two_peers_run(1), of "[7, 8]" "''2''"]
  by (simp add: two_peers_run mpsc_channel_def)

section \<open>Properties of the roster\<close>

text \<open>What a client makes of the messages it is sent.\<close>

fun client_view :: "control_send list \<Rightarrow> roster_peer multiset \<Rightarrow> roster_peer multiset" where
  "client_view [] R = R"
| "client_view (ToClient (ClientRoster _ peers) # sends) R = client_view sends (mset peers)"
| "client_view (ToClient (ClientJoined _ peer) # sends) R = client_view sends (add_mset peer R)"
| "client_view (ToClient (ClientLeft _ peer) # sends) R = client_view sends (R - {#peer#})"
| "client_view (ToOwner _ # sends) R = client_view sends R"

text \<open>The snapshots and deltas that a room with the given log sends at any time.\<close>

definition genuine :: "roster_delta list \<Rightarrow> owner_frame \<Rightarrow> bool" where
  "genuine log frame =
     (case frame of
        Data (Some (RosterSnapshot revision peers)) \<Rightarrow>
          (\<exists>k\<le>length log. revision = of_nat k \<and> mset peers = roster_at log k)
      | Data (Some (RosterDelta revision joined left)) \<Rightarrow>
          (\<exists>k<length log. log ! k = \<lparr>rd_revision = revision, rd_joined = joined, rd_left = left\<rparr>)
      | _ \<Rightarrow> True)"

definition numbered :: "roster_delta list \<Rightarrow> bool" where
  "numbered log \<longleftrightarrow>
     Suc (length log) < 2 ^ 64 \<and> (\<forall>k<length log. rd_revision (log ! k) = of_nat (Suc k) \<and> one_sided (log ! k))"

lemma roster_at_Suc:
  "k < length log \<Longrightarrow> roster_at log (Suc k) = apply_roster_delta (log ! k) (roster_at log k)"
  by (simp add: roster_at_def take_Suc_conv_app_nth)

lemma genuine_delta_next:
  assumes "numbered log" and "k \<le> length log" and "genuine log (Data (Some (RosterDelta (of_nat k + 1) joined left)))"
  shows "k < length log" and "log ! k = \<lparr>rd_revision = of_nat (Suc k), rd_joined = joined, rd_left = left\<rparr>"
    and "(joined = None) \<noteq> (left = None)"
proof -
  from assms(3) obtain m where m: "m < length log"
    and at: "log ! m = \<lparr>rd_revision = of_nat k + 1, rd_joined = joined, rd_left = left\<rparr>"
    by (auto simp: genuine_def)
  with assms(1) have "(of_nat (Suc m) :: u64) = of_nat k + 1" by (auto simp: numbered_def)
  then have "(of_nat (Suc m) :: u64) = of_nat (Suc k)" by (simp add: add.commute)
  moreover have "Suc m < 2 ^ 64" "Suc k < 2 ^ 64" using assms(1,2) m by (simp_all add: numbered_def)
  ultimately have "Suc m = Suc k" by (simp only: u64_of_nat_inj)
  with m at show "k < length log" "log ! k = \<lparr>rd_revision = of_nat (Suc k), rd_joined = joined, rd_left = left\<rparr>"
    by (simp_all add: add.commute)
  with assms(1) show "(joined = None) \<noteq> (left = None)" by (auto simp: numbered_def one_sided_def)
qed

lemma follow_roster:
  assumes "numbered log"
  shows "list_all (\<lambda>(f, ok). genuine log f) frames \<Longrightarrow> k \<le> length log \<Longrightarrow>
     read_owner_control (of_nat k) frames = (sends, revision, cause) \<Longrightarrow>
     \<exists>k'\<le>length log. client_view sends (roster_at log k) = roster_at log k'
        \<and> (list_all snd frames \<longrightarrow> revision = of_nat k')"
proof (induction frames arbitrary: k sends)
  case Nil
  then show ?case by auto
next
  case (Cons a frames)
  obtain f ok where a: "a = (f, ok)" by fastforce
  from Cons.prems(1) have gen: "genuine log f" and rest: "list_all (\<lambda>(f, ok). genuine log f) frames"
    by (simp_all add: a)
  note IH = Cons.IH [OF rest]
  have skip: ?case if "read_owner_control (of_nat k) ((f, ok) # frames) = read_owner_control (of_nat k) frames"
    using IH [OF Cons.prems(2), of sends] Cons.prems(3) that by (auto simp: a simp del: read_owner_control.simps)
  have stop: ?case if "read_owner_control (of_nat k) ((f, ok) # frames) = ([], revision', cause')"
    and "ok \<Longrightarrow> revision' = of_nat k" for revision' cause'
    using Cons.prems(2,3) that by (auto simp: a simp del: read_owner_control.simps)
  have send: ?case if "read_owner_control (of_nat k) ((f, ok) # frames) =
        (case read_owner_control (of_nat m) frames of (sends, res) \<Rightarrow> (s # sends, res))"
    and "m \<le> length log" and "\<And>rest. client_view (s # rest) (roster_at log k) = client_view rest (roster_at log m)" for m s
  proof -
    from Cons.prems(3) that(1) obtain sends' where eq: "sends = s # sends'"
      and run: "read_owner_control (of_nat m) frames = (sends', revision, cause)"
      by (cases "read_owner_control (of_nat m) frames") (simp add: a del: read_owner_control.simps)
    from IH [OF that(2) run] that(3) [of sends'] eq show ?case by (auto simp: a)
  qed
  show ?case
  proof (cases f)
    case (Goodbye reason)
    then show ?thesis by (intro stop) simp_all
  next
    case OtherFrame
    then show ?thesis by (intro skip) simp
  next
    case StreamEnd
    then show ?thesis by (intro stop) simp_all
  next
    case StreamError
    then show ?thesis by (intro stop) simp_all
  next
    case (Data msg)
    show ?thesis
    proof (cases "\<exists>next joined left. msg = Some (RosterDelta next joined left)")
      case True
      then obtain "next" joined left where msg: "msg = Some (RosterDelta next joined left)" by blast
      show ?thesis
      proof (cases "next = of_nat k + 1")
        case True
        note d = genuine_delta_next [OF assms Cons.prems(2) gen [unfolded Data msg True]]
        have at: "roster_at log (Suc k) = roster_at log k - opt_mset left + opt_mset joined"
          by (simp add: roster_at_Suc [OF d(1)] d(2) apply_roster_delta_def)
        show ?thesis
        proof (cases joined)
          case (Some peer)
          with d(3) have "left = None" by simp
          note facts = this at Some d(1) \<open>next = of_nat k + 1\<close>
          show ?thesis
          proof (cases ok)
            case True
            with facts show ?thesis
              by (intro send [where m = "Suc k" and s = "ToClient (ClientJoined next peer)"])
                 (simp_all add: Data msg opt_mset_def add.commute)
          next
            case False
            with facts show ?thesis by (intro stop) (simp_all add: Data msg)
          qed
        next
          case None
          with d(3) obtain peer where "left = Some peer" by auto
          note facts = this at None d(1) \<open>next = of_nat k + 1\<close>
          show ?thesis
          proof (cases ok)
            case True
            with facts show ?thesis
              by (intro send [where m = "Suc k" and s = "ToClient (ClientLeft next peer)"])
                 (simp_all add: Data msg opt_mset_def add.commute)
          next
            case False
            with facts show ?thesis by (intro stop) (simp_all add: Data msg)
          qed
        qed
      next
        case False
        show ?thesis
        proof (cases "next \<le> of_nat k")
          case True
          with False show ?thesis by (intro skip) (simp add: Data msg)
        next
          case later: False
          show ?thesis
          proof (cases ok)
            case True
            with False later Cons.prems(2) show ?thesis
              by (intro send [where m = k and s = "ToOwner RosterResync"]) (simp_all add: Data msg)
          next
            case False': False
            with False later show ?thesis by (intro stop) (simp_all add: Data msg)
          qed
        qed
      qed
    next
      case other: False
      show ?thesis
      proof (cases "\<exists>next peers. msg = Some (RosterSnapshot next peers)")
        case True
        then obtain "next" peers where msg: "msg = Some (RosterSnapshot next peers)" by blast
        from gen obtain m where m: "m \<le> length log" "next = of_nat m" "mset peers = roster_at log m"
          by (auto simp: Data msg genuine_def)
        show ?thesis
        proof (cases ok)
          case True
          with m show ?thesis
            by (intro send [where m = m and s = "ToClient (ClientRoster next peers)"]) (simp_all add: Data msg)
        next
          case False
          then show ?thesis by (intro stop) (simp_all add: Data msg)
        qed
      next
        case False
        with other show ?thesis
          by (intro skip) (auto simp: Data split: option.split huddle_control_msg.split)
      qed
    qed
  qed
qed

text \<open>The deltas of a log in order, from any place at or before the snapshot.\<close>

definition delta_frames :: "roster_delta list \<Rightarrow> (owner_frame \<times> bool) list" where
  "delta_frames ds = map (\<lambda>d. (Data (Some (roster_delta_msg d)), True)) ds"

lemma u64_of_nat_le: "a < 2 ^ 64 \<Longrightarrow> b < 2 ^ 64 \<Longrightarrow> (of_nat a :: u64) \<le> of_nat b \<longleftrightarrow> a \<le> b"
  by (simp add: word_le_nat_alt unat_of_nat)

lemma follow_all_deltas:
  assumes "numbered log"
  shows "j \<le> k \<Longrightarrow> k \<le> length log \<Longrightarrow>
     \<exists>sends. read_owner_control (of_nat k) (delta_frames (drop j log)) = (sends, of_nat (length log), None)
       \<and> client_view sends (roster_at log k) = roster_at log (length log)"
proof (induction "length log - j" arbitrary: j k)
  case 0
  then have "drop j log = []" and "k = length log" by simp_all
  then show ?case by (simp add: delta_frames_def)
next
  case (Suc n)
  then have j: "j < length log" by simp
  have big: "Suc (length log) < 2 ^ 64" and revs: "rd_revision (log ! j) = of_nat (Suc j)" "one_sided (log ! j)"
    using assms j by (simp_all add: numbered_def)
  have frames: "delta_frames (drop j log)
      = (Data (Some (RosterDelta (of_nat (Suc j)) (rd_joined (log ! j)) (rd_left (log ! j)))), True)
        # delta_frames (drop (Suc j) log)"
    using j by (simp add: delta_frames_def Cons_nth_drop_Suc [symmetric] roster_delta_msg_def revs del: of_nat_Suc)
  have n: "n = length log - Suc j" using Suc.hyps(2) by simp
  have eq: "(of_nat (Suc j) :: u64) = of_nat k + 1 \<longleftrightarrow> j = k"
    using u64_of_nat_inj [of "Suc j" "Suc k"] j Suc.prems(2) big by (simp add: add.commute)
  show ?case
  proof (cases "j = k")
    case False
    with Suc.prems have jk: "Suc j \<le> k" by simp
    have "(of_nat (Suc j) :: u64) \<le> of_nat k"
      using u64_of_nat_le [of "Suc j" k] jk Suc.prems(2) big by simp
    with eq False have "read_owner_control (of_nat k) (delta_frames (drop j log))
        = read_owner_control (of_nat k) (delta_frames (drop (Suc j) log))"
      by (simp add: frames del: of_nat_Suc)
    with Suc.hyps(1) [OF n jk Suc.prems(2)] show ?thesis by simp
  next
    case True
    have k: "Suc k \<le> length log" using True j by simp
    from Suc.hyps(1) [OF n _ k] True obtain sends where
      run: "read_owner_control (of_nat (Suc k)) (delta_frames (drop (Suc j) log)) = (sends, of_nat (length log), None)"
      and view: "client_view sends (roster_at log (Suc k)) = roster_at log (length log)" by auto
    have at: "roster_at log (Suc k) = roster_at log k - opt_mset (rd_left (log ! k)) + opt_mset (rd_joined (log ! k))"
      using roster_at_Suc [of k log] j True by (simp add: apply_roster_delta_def)
    show ?thesis
    proof (cases "rd_joined (log ! j)")
      case (Some peer)
      with revs True have "rd_left (log ! k) = None" by (simp add: one_sided_def)
      with at view Some run True eq show ?thesis
        by (intro exI [of _ "ToClient (ClientJoined (of_nat (Suc j)) peer) # sends"])
           (simp add: frames [unfolded True] opt_mset_def del: of_nat_Suc)
    next
      case None
      with revs True obtain peer where "rd_left (log ! k) = Some peer" by (auto simp: one_sided_def)
      with at view None run True eq show ?thesis
        by (intro exI [of _ "ToClient (ClientLeft (of_nat (Suc j)) peer) # sends"])
           (simp add: frames [unfolded True] opt_mset_def del: of_nat_Suc)
    qed
  qed
qed

text \<open>A step keeps the labels of the room and only extends its log.\<close>

lemma room_step_extends:
  "ro_community_id (room_step op r) = ro_community_id r \<and> ro_channel_id (room_step op r) = ro_channel_id r
   \<and> (\<exists>ds. ro_roster_log (room_step op r) = ro_roster_log r @ ds)"
proof (cases op)
  case (AddPeer i pubkey v)
  then show ?thesis
    by (auto simp: add_peer_def Let_def guarded_def admit_def split: sum.split prod.split option.split)
next
  case (AddPeerAt i pubkey v idx)
  then show ?thesis
    by (auto simp: add_peer_at_index_def Let_def guarded_def admit_def split: sum.split)
next
  case (RemovePeer i)
  then show ?thesis by (simp add: remove_peer_def expel_def Let_def split: option.split)
next
  case (RemoveAndCheck i)
  then show ?thesis by (simp add: remove_peer_and_check_ended_def expel_def Let_def split: option.split)
next
  case (BroadcastFrame i bytes)
  then show ?thesis by (simp add: broadcast_frame_eq split: option.split)
qed (simp_all add: mark_ended_def clear_ended_def deliver_prefixed_def broadcast_control_def)

lemma room_fold_extends:
  "ro_community_id (fold room_step ops r) = ro_community_id r \<and> ro_channel_id (fold room_step ops r) = ro_channel_id r
   \<and> (\<exists>ds. ro_roster_log (fold room_step ops r) = ro_roster_log r @ ds)"
proof (induction ops arbitrary: r)
  case Nil
  then show ?case by simp
next
  case (Cons op ops)
  from Cons.IH [of "room_step op r"] room_step_extends [of op r] show ?case by force
qed

lemma room_ok_numbered:
  "room_ok r \<Longrightarrow> Suc (length (ro_roster_log r)) < 2 ^ 64 \<Longrightarrow> numbered (ro_roster_log r)"
  by (simp add: room_ok_def log_ok_def numbered_def)

text \<open>
  A follower never diverges. Take any room that lived through fewer than \<open>2 ^ 64 - 1\<close> roster changes
  and a non-owner relay that starts at one of its revisions. Whatever snapshots and deltas of that room
  reach it, in any order, repeated or with gaps, next to frames of any other kind, the messages it forwards
  turn the roster of the starting revision into the room's roster at some revision, never into a mixture;
  and when all sends succeed this is the revision it holds at the end. The last revision's roster is the
  room's own.
\<close>

theorem roster_never_diverges:
  fixes community channel ops
  defines "log \<equiv> ro_roster_log (room_run community channel ops)"
  assumes "Suc (length log) < 2 ^ 64" and "list_all (\<lambda>(f, ok). genuine log f) frames" and "k \<le> length log"
    and "read_owner_control (of_nat k) frames = (sends, revision, cause)"
  shows "(\<exists>k'\<le>length log. client_view sends (roster_at log k) = roster_at log k'
            \<and> (list_all snd frames \<longrightarrow> revision = of_nat k'))
       \<and> roster_at log (length log) = room_roster (room_run community channel ops)"
proof -
  have ok: "room_ok (room_run community channel ops)" by (rule room_run_ok)
  have "numbered log" using room_ok_numbered [OF ok] assms(2) by (simp add: log_def)
  from follow_roster [OF this assms(3-5)] ok show ?thesis by (simp add: log_def room_ok_def log_ok_def)
qed

lemma two_peers_log:
  "ro_roster_log (room_run ''c'' ''h'' two_peers) =
     [\<lparr>rd_revision = 1, rd_joined = Some \<lparr>rp_pubkey = ''alice'', rp_peer_index = 0\<rparr>, rd_left = None\<rparr>,
      \<lparr>rd_revision = 2, rd_joined = Some \<lparr>rp_pubkey = ''bob'', rp_peer_index = 1\<rparr>, rd_left = None\<rparr>]"
  by (simp add: room_run_def two_peers_def add_peer_def Let_def new_room_def new_guard_def MAX_PEERS_PER_ROOM_def
      version_check_def alloc_def admit_def pin_version_def AUDIO_CHANNEL_CAPACITY_def CTRL_CHANNEL_CAPACITY_def)

theorem roster_never_diverges_witness:
  "\<exists>k'\<le>2. (0 :: u64) = of_nat k' \<and> {#} = roster_at (ro_roster_log (room_run ''c'' ''h'' two_peers)) k'"
proof -
  let ?gap = "Data (Some (RosterDelta 2 (Some \<lparr>rp_pubkey = ''bob'', rp_peer_index = 1\<rparr>) None))"
  have len: "Suc (length (ro_roster_log (room_run ''c'' ''h'' two_peers))) < 2 ^ 64" by (simp add: two_peers_log)
  have gen: "list_all (\<lambda>(f, ok). genuine (ro_roster_log (room_run ''c'' ''h'' two_peers)) f) [(?gap, True)]"
    by (auto simp: genuine_def two_peers_log intro!: exI [of _ 1])
  have run: "read_owner_control (of_nat 0) [(?gap, True)] = ([ToOwner RosterResync], 0, None)" by simp
  from roster_never_diverges [OF len gen le0 run] show ?thesis
    by (auto simp: two_peers_log roster_at_def)
qed

text \<open>
  A follower catches up. A relay that subscribes to the roster, then takes a snapshot and then
  receives every delta since its subscription ends at the room's current revision, and its client with the
  room's current roster: the deltas that the snapshot already contains are skipped, the later ones applied
  once each.
\<close>

theorem roster_catches_up:
  fixes community channel ops0 ops1 ops2
  defines "r0 \<equiv> room_run community channel ops0" and "r1 \<equiv> room_run community channel (ops0 @ ops1)"
    and "r2 \<equiv> room_run community channel (ops0 @ ops1 @ ops2)"
  assumes "Suc (length (ro_roster_log r2)) < 2 ^ 64"
  shows "\<exists>sends. read_owner_control (rs_revision (room_roster_snapshot r1))
                  (delta_frames (drop (length (ro_roster_log r0)) (ro_roster_log r2)))
                = (sends, rs_revision (room_roster_snapshot r2), None)
           \<and> client_view sends (mset (rs_peers (room_roster_snapshot r1))) = room_roster r2"
proof -
  let ?log = "ro_roster_log r2"
  have r1: "r1 = fold room_step ops1 r0" and r2: "r2 = fold room_step ops2 r1"
    by (simp_all add: r0_def r1_def r2_def room_run_def)
  from room_fold_extends [of ops1 r0] obtain ds1 where l1: "ro_roster_log r1 = ro_roster_log r0 @ ds1"
    by (auto simp: r1)
  from room_fold_extends [of ops2 r1] obtain ds2 where l2: "?log = ro_roster_log r1 @ ds2" by (auto simp: r2)
  have ok1: "room_ok r1" and ok2: "room_ok r2" by (simp_all add: r1_def r2_def room_run_ok)
  have num: "numbered ?log" using room_ok_numbered [OF ok2] assms(4) by simp
  let ?k = "length (ro_roster_log r1)"
  have "mset (rs_peers (room_roster_snapshot r1)) = room_roster r1"
    by (simp add: room_roster_snapshot_def room_roster_def)
  also have "\<dots> = roster_at ?log ?k" using ok1 by (simp add: room_ok_def log_ok_def roster_at_def l2)
  finally have start: "mset (rs_peers (room_roster_snapshot r1)) = roster_at ?log ?k" .
  have fin: "room_roster r2 = roster_at ?log (length ?log)" using ok2 by (simp add: room_ok_def log_ok_def)
  have rev: "rs_revision (room_roster_snapshot r1) = of_nat ?k"
    "rs_revision (room_roster_snapshot r2) = of_nat (length ?log)"
    using ok1 ok2 by (simp_all add: room_ok_def log_ok_def room_roster_snapshot_def)
  have "length (ro_roster_log r0) \<le> ?k" and "?k \<le> length ?log" by (simp_all add: l1 l2)
  from follow_all_deltas [OF num this] show ?thesis by (simp add: start fin rev)
qed


theorem roster_catches_up_witness:
  "\<exists>sends. client_view sends {#\<lparr>rp_pubkey = ''alice'', rp_peer_index = 0\<rparr>#} = room_roster (room_run ''c'' ''h'' two_peers)"
proof -
  have len: "Suc (length (ro_roster_log (room_run ''c'' ''h'' ([] @ [AddPeer ''1'' ''alice'' 2] @ [AddPeer ''2'' ''bob'' 2])))) < 2 ^ 64"
    using two_peers_log by (simp add: two_peers_def)
  have "rs_peers (room_roster_snapshot (room_run ''c'' ''h'' ([] @ [AddPeer ''1'' ''alice'' 2])))
      = [\<lparr>rp_pubkey = ''alice'', rp_peer_index = 0\<rparr>]"
    by (simp add: room_run_def add_peer_def Let_def new_room_def new_guard_def MAX_PEERS_PER_ROOM_def room_roster_snapshot_def
        roster_peer_of_def version_check_def alloc_def admit_def pin_version_def)
  with roster_catches_up [OF len] show ?thesis by (auto simp: two_peers_def)
qed

section \<open>Properties of the manager\<close>

datatype manager_op = GetOrCreate string string | CleanupIfEmpty string string | OnRoom room_op nat

fun manager_step :: "manager_op \<Rightarrow> room_manager \<Rightarrow> room_manager" where
  "manager_step (GetOrCreate community channel) m = fst (get_or_create community channel m)"
| "manager_step (CleanupIfEmpty community channel) m = fst (cleanup_if_empty community channel m)"
| "manager_step (OnRoom op h) m = on_room (room_step op) h m"

definition manager_ok :: "room_manager \<Rightarrow> bool" where
  "manager_ok m \<longleftrightarrow>
     hwf (am_rooms m)
     \<and> (\<forall>key h. map_of (am_rooms m) key = Some h \<longrightarrow>
          (\<exists>r. map_of (am_heap m) h = Some r \<and> (ro_community_id r, ro_channel_id r) = key))
     \<and> (\<forall>h r. map_of (am_heap m) h = Some r \<longrightarrow> h < am_next m \<and> room_ok r)"

lemma manager_okD:
  assumes "manager_ok m"
  shows "hwf (am_rooms m)"
    and "map_of (am_rooms m) key = Some h \<Longrightarrow>
      \<exists>r. map_of (am_heap m) h = Some r \<and> (ro_community_id r, ro_channel_id r) = key"
    and "map_of (am_heap m) h = Some r \<Longrightarrow> h < am_next m \<and> room_ok r"
  using assms unfolding manager_ok_def by blast+

lemma manager_ok_step: "manager_ok m \<Longrightarrow> manager_ok (manager_step op m)"
proof (cases op)
  case (GetOrCreate community channel)
  assume ok: "manager_ok m"
  show ?thesis
  proof (cases "map_of (am_rooms m) (community, channel)")
    case None
    have "map_of (am_heap m) (am_next m) = None"
      using manager_okD(3) [OF ok, of "am_next m"] by (cases "map_of (am_heap m) (am_next m)") auto
    then have keep: "h \<noteq> am_next m" if "map_of (am_rooms m) key = Some h" for key h
      using manager_okD(2) [OF ok that] by auto
    have "ro_community_id (new_room community channel) = community \<and> ro_channel_id (new_room community channel) = channel"
      by (simp add: new_room_def)
    with ok None keep show ?thesis
      unfolding GetOrCreate manager_ok_def
      by (auto simp: get_or_create_def hget_update room_ok_new less_Suc_eq split: if_splits)
  qed (simp add: GetOrCreate get_or_create_def ok)
next
  case (CleanupIfEmpty community channel)
  assume "manager_ok m"
  then show ?thesis unfolding CleanupIfEmpty manager_ok_def
    by (auto simp: cleanup_if_empty_def hget_delete split: option.split)
next
  case (OnRoom rop h)
  assume ok: "manager_ok m"
  show ?thesis
  proof (cases "map_of (am_heap m) h")
    case (Some r)
    from manager_okD(3) [OF ok Some] have "room_ok (room_step rop r)" and "h < am_next m"
      by (simp_all add: audio.inv_step)
    moreover have "ro_community_id (room_step rop r) = ro_community_id r"
      and "ro_channel_id (room_step rop r) = ro_channel_id r" using room_step_extends [of rop r] by blast+
    moreover have "manager_step op m = m\<lparr>am_heap := AList.update h (room_step rop r) (am_heap m)\<rparr>"
      by (simp add: OnRoom on_room_def Some)
    moreover have "ro_community_id r = a \<and> ro_channel_id r = b" if "map_of (am_rooms m) (a, b) = Some h" for a b
      using manager_okD(2) [OF ok that] Some by auto
    ultimately show ?thesis
      using ok Some by (auto simp: manager_ok_def hget_update)
  qed (simp add: OnRoom on_room_def ok)
qed

interpretation rooms: invariant_machine manager_step "\<lambda>m. m = new_manager" manager_ok
  by unfold_locales (simp_all add: manager_ok_step, simp add: manager_ok_def new_manager_def)

definition manager_run :: "manager_op list \<Rightarrow> room_manager" where
  "manager_run ops = fold manager_step ops new_manager"

lemma manager_run_ok: "manager_ok (manager_run ops)"
  unfolding manager_run_def by (rule rooms.inv_reachable) simp

lemma filter_channel_single:
  assumes "hwf rooms"
  shows "(\<exists>key. filter (\<lambda>((community, channel), h). channel = ch) rooms = [(key, h)]) \<longleftrightarrow>
     (\<exists>c. map_of rooms (c, ch) = Some h \<and> (\<forall>c' h'. map_of rooms (c', ch) = Some h' \<longrightarrow> c' = c))"
    (is "(\<exists>key. ?F = _) \<longleftrightarrow> _")
proof
  assume "\<exists>key. ?F = [(key, h)]"
  then obtain c d where F: "?F = [((c, d), h)]" by fastforce
  have "set ?F = {((c, d), h)}" unfolding F by simp
  then have mem: "((c', d'), h') \<in> set rooms \<and> d' = ch \<longleftrightarrow> c' = c \<and> d' = d \<and> h' = h" for c' d' h'
    by (simp only: set_filter) (auto simp: set_eq_iff)
  from mem [of c d h] have own: "((c, d), h) \<in> set rooms" "d = ch" by blast+
  then have "((c, ch), h) \<in> set rooms" by blast
  moreover from mem have "c' = c" if "((c', ch), h') \<in> set rooms" for c' h' using that by blast
  ultimately show "\<exists>c. map_of rooms (c, ch) = Some h \<and> (\<forall>c' h'. map_of rooms (c', ch) = Some h' \<longrightarrow> c' = c)"
    by (simp only: hwf_map_of_iff [OF assms]) blast
next
  assume "\<exists>c. map_of rooms (c, ch) = Some h \<and> (\<forall>c' h'. map_of rooms (c', ch) = Some h' \<longrightarrow> c' = c)"
  then obtain c where c: "((c, ch), h) \<in> set rooms" "\<And>c' h'. ((c', ch), h') \<in> set rooms \<Longrightarrow> c' = c"
    by (auto simp: hwf_map_of_iff [OF assms])
  have uniq: "h' = h" if "((c, ch), h') \<in> set rooms" for h'
    using that c(1) by (simp add: hwf_map_of_iff [OF assms, symmetric])
  have "((c', d'), h') \<in> set ?F \<longleftrightarrow> ((c', d'), h') = ((c, ch), h)" for c' d' h'
    using c(1) c(2) [of c' h'] uniq [of h'] by auto
  then have "x \<in> set ?F \<longleftrightarrow> x = ((c, ch), h)" for x by (cases x; cases "fst x") auto
  then have set: "set ?F = {((c, ch), h)}" by blast
  have "distinct ?F" using assms by (simp add: hwf_def distinct_map)
  then have "length ?F = card {((c, ch), h)}" using distinct_card [of ?F] unfolding set by simp
  then obtain x where "?F = [x]" by (cases ?F) auto
  with set show "\<exists>key. ?F = [(key, h)]" by (metis list.set(1,2) singleton_insert_inj_eq')
qed

lemma get_unambiguous_Some:
  assumes "hwf (am_rooms m)"
  shows "get_unambiguous_by_channel ch m = Some h \<longleftrightarrow>
    (\<exists>c. get_room c ch m = Some h \<and> (\<forall>c' h'. get_room c' ch m = Some h' \<longrightarrow> c' = c))"
proof -
  have "get_unambiguous_by_channel ch m = Some h \<longleftrightarrow>
      (\<exists>key. filter (\<lambda>((community, channel), h). channel = ch) (am_rooms m) = [(key, h)])"
    by (auto simp: get_unambiguous_by_channel_def split: list.splits)
  then show ?thesis by (simp only: filter_channel_single [OF assms] get_room_def)
qed

text \<open>
  Rooms are isolated. In every reachable manager, the handle found under a community and channel
  leads to a room of that community and channel, and no other community or channel has this handle. The
  lookup for mesh datagrams, which know the channel only, returns this room exactly when no other
  community has a room for the channel and nothing otherwise, so audio is never routed to another tenant.
\<close>

theorem rooms_isolated:
  assumes "get_room c ch (manager_run ops) = Some h"
  shows "(\<exists>r. map_of (am_heap (manager_run ops)) h = Some r \<and> ro_community_id r = c \<and> ro_channel_id r = ch)
    \<and> (\<forall>c' ch'. get_room c' ch' (manager_run ops) = Some h \<longrightarrow> c' = c \<and> ch' = ch)
    \<and> get_unambiguous_by_channel ch (manager_run ops)
        = (if \<exists>c'. c' \<noteq> c \<and> get_room c' ch (manager_run ops) \<noteq> None then None else Some h)"
proof -
  let ?m = "manager_run ops"
  note ok = manager_okD [OF manager_run_ok [of ops]]
  have room: "\<exists>r. map_of (am_heap ?m) h' = Some r \<and> ro_community_id r = c' \<and> ro_channel_id r = ch'"
    if "get_room c' ch' ?m = Some h'" for c' ch' h'
    using ok(2) [of "(c', ch')" h'] that by (simp add: get_room_def)
  note room [OF assms]
  moreover from this room have "\<forall>c' ch'. get_room c' ch' ?m = Some h \<longrightarrow> c' = c \<and> ch' = ch" by fastforce
  moreover have "get_unambiguous_by_channel ch ?m = (if \<exists>c'. c' \<noteq> c \<and> get_room c' ch ?m \<noteq> None then None else Some h)"
  proof (cases "\<exists>c'. c' \<noteq> c \<and> get_room c' ch ?m \<noteq> None")
    case True
    then have "get_unambiguous_by_channel ch ?m \<noteq> Some h'" for h'
      using assms by (auto simp: get_unambiguous_Some [OF ok(1)])
    then have "get_unambiguous_by_channel ch ?m = None" by (meson not_Some_eq)
    with True show ?thesis by simp
  next
    case False
    then have "get_unambiguous_by_channel ch ?m = Some h"
      unfolding get_unambiguous_Some [OF ok(1)] using assms by (intro exI [of _ c]) auto
    with False show ?thesis by simp
  qed
  ultimately show ?thesis by blast
qed

theorem rooms_isolated_witness:
  "get_unambiguous_by_channel ''y'' (manager_run [GetOrCreate ''a'' ''x'', GetOrCreate ''b'' ''x'', GetOrCreate ''b'' ''y''])
     = Some 2"
proof -
  let ?m = "manager_run [GetOrCreate ''a'' ''x'', GetOrCreate ''b'' ''x'', GetOrCreate ''b'' ''y'']"
  have rooms: "am_rooms ?m = [((''a'', ''x''), 0), ((''b'', ''x''), 1), ((''b'', ''y''), 2)]"
    by (simp add: manager_run_def new_manager_def get_or_create_def)
  have look: "get_room c ''y'' ?m = (if c = ''b'' then Some 2 else None)" for c
    unfolding get_room_def rooms by simp
  have own: "get_room ''b'' ''y'' ?m = Some 2" unfolding look by (rule if_P [OF refl])
  have other: "\<not> (\<exists>c'. c' \<noteq> ''b'' \<and> get_room c' ''y'' ?m \<noteq> None)" unfolding look by presburger
  show ?thesis by (simp only: rooms_isolated [OF own, THEN conjunct2, THEN conjunct2] if_not_P [OF other])
qed

end
