(* ===== verification/AuditLog.thy ===== *)
theory AuditLog
  imports ByteStrings "HOL-Library.List_Lexorder" "HOL-Library.Char_ord" "HOL-Library.Finite_Map"
    "HOL-Library.Multiset"
begin

text \<open>
  The per-community audit log of \<open>crates/buzz-audit\<close>: the action strings (\<open>action.rs\<close>), the canonical
  JSON text and the entry hash (\<open>hash.rs\<close>), and the service that appends to a chain, verifies a segment
  of it and pages through it (\<open>service.rs\<close>).

  The table \<open>audit_log\<close> is the list of its rows in insertion order; every query of the service selects
  by community and sorts by sequence number, which is an \<open>i64\<close> (\<open>64 word\<close> read by \<open>sint\<close>). A community
  is a UUID. Appends of one community are serialised by an advisory lock, so an append is one
  step; each of its database calls can fail (\<open>db_stage\<close>).

  Parameters (record \<open>audit_lib\<close>): SHA-256, the RFC 3339 rendering of an instant, the scalar serialiser
  of \<open>serde_json\<close>, and what a \<open>TIMESTAMPTZ\<close> and a \<open>JSONB\<close> column give back for a value written to them
  (the first keeps microseconds only, where \<open>Utc::now()\<close> has nanoseconds).
\<close>

section \<open>Actions\<close>

datatype audit_action = EventCreated | EventDeleted | ChannelCreated | ChannelUpdated | ChannelDeleted
  | MemberAdded | MemberRemoved | AuthSuccess | AuthFailure | RateLimitExceeded | MediaUploaded

fun audit_action_as_str :: "audit_action \<Rightarrow> string" where
  "audit_action_as_str EventCreated = ''event_created''"
| "audit_action_as_str EventDeleted = ''event_deleted''"
| "audit_action_as_str ChannelCreated = ''channel_created''"
| "audit_action_as_str ChannelUpdated = ''channel_updated''"
| "audit_action_as_str ChannelDeleted = ''channel_deleted''"
| "audit_action_as_str MemberAdded = ''member_added''"
| "audit_action_as_str MemberRemoved = ''member_removed''"
| "audit_action_as_str AuthSuccess = ''auth_success''"
| "audit_action_as_str AuthFailure = ''auth_failure''"
| "audit_action_as_str RateLimitExceeded = ''rate_limit_exceeded''"
| "audit_action_as_str MediaUploaded = ''media_uploaded''"

definition ALL_ACTIONS :: "audit_action list" where
  "ALL_ACTIONS = [EventCreated, EventDeleted, ChannelCreated, ChannelUpdated, ChannelDeleted,
     MemberAdded, MemberRemoved, AuthSuccess, AuthFailure, RateLimitExceeded, MediaUploaded]"

text \<open>The error of the parser is a message that quotes the string.\<close>

definition audit_action_from_str :: "string \<Rightarrow> string + audit_action" where
  "audit_action_from_str s = ok_or s (List.find (\<lambda>a. audit_action_as_str a = s) ALL_ACTIONS)"

interpretation audit_action: string_codec audit_action_as_str audit_action_from_str
proof unfold_locales
  fix x show "audit_action_from_str (audit_action_as_str x) = Ok x"
    by (cases x) (simp_all add: audit_action_from_str_def ALL_ACTIONS_def)
next
  fix s x assume "audit_action_from_str s = Ok x"
  then show "audit_action_as_str x = s"
    by (auto simp: audit_action_from_str_def find_Some_iff)
qed

section \<open>JSON values and their canonical text\<close>

text \<open>
  \<open>serde_json::Value\<close>: a number is kept as its literal, an object as a map (distinct keys) in
  the map's iteration order.
\<close>

datatype json = JNull | JBool bool | JNumber string | JString string
  | JArray "json list" | JObject "(string \<times> json) list"

record audit_lib =
  lib_sha256 :: "bytes \<Rightarrow> bytes"
  lib_rfc3339 :: "int \<Rightarrow> string"
  lib_to_string :: "json \<Rightarrow> string + string"
  lib_timestamptz :: "int \<Rightarrow> int"
  lib_jsonb :: "json \<Rightarrow> json"

lemma size_list_sort_key: "size_list f (sort_key g xs) = size_list f xs"
proof -
  have "sum_list (map f (sort_key g xs)) = sum_list (map f xs)"
    by (metis mset_map mset_sort sum_mset_sum_list)
  then show ?thesis by (simp add: size_list_conv_sum_list)
qed

text \<open>
  \<open>canonical_fields\<close> and \<open>canonical_items\<close> are the two loops; their accumulators are \<open>first\<close> and \<open>out\<close>.
  Collecting into a \<open>BTreeMap\<close> orders the fields by key.
\<close>

function (sequential)
      canonical_json :: "(json \<Rightarrow> string + string) \<Rightarrow> json \<Rightarrow> string + string"
  and canonical_fields ::
    "(json \<Rightarrow> string + string) \<Rightarrow> (string \<times> json) list \<Rightarrow> bool \<Rightarrow> string \<Rightarrow> string + string"
  and canonical_items ::
    "(json \<Rightarrow> string + string) \<Rightarrow> json list \<Rightarrow> bool \<Rightarrow> string \<Rightarrow> string + string" where
  "canonical_json ser (JObject m) =
     and_then (canonical_fields ser (sort_key fst m) True ''{'') (\<lambda>out. Ok (out @ ''}''))"
| "canonical_json ser (JArray arr) =
     and_then (canonical_items ser arr True ''['') (\<lambda>out. Ok (out @ '']''))"
| "canonical_json ser other = ser other"
| "canonical_fields ser [] first out = Ok out"
| "canonical_fields ser ((k, v) # rest) first out =
     (let out = (if first then out else out @ '','')
      in and_then (ser (JString k)) (\<lambda>key.
         and_then (canonical_json ser v) (\<lambda>val.
           canonical_fields ser rest False (out @ key @ '':'' @ val))))"
| "canonical_items ser [] first out = Ok out"
| "canonical_items ser (v # rest) first out =
     (let out = (if first then out else out @ '','')
      in and_then (canonical_json ser v) (\<lambda>val. canonical_items ser rest False (out @ val)))"
  by pat_completeness auto
termination
  by (relation "measure (\<lambda>x. case x of
        Inl (_, v) \<Rightarrow> 2 * size v
      | Inr (Inl (_, m, _)) \<Rightarrow> 2 * size_list (size_prod (\<lambda>_. 0) size) m + 1
      | Inr (Inr (_, vs, _)) \<Rightarrow> 2 * size_list size vs + 1)")
    (simp_all add: size_list_sort_key)

text \<open>
  What an object means does not depend on the order of its fields: \<open>json_sem\<close> reads it as a finite map.
  \<open>json_ok\<close> says that no object has a key twice, at any depth.
\<close>

datatype json_value = VNull | VBool bool | VNumber string | VString string
  | VArray "json_value list" | VObject "(string, json_value) fmap"

primrec json_sem :: "json \<Rightarrow> json_value" where
  "json_sem JNull = VNull"
| "json_sem (JBool b) = VBool b"
| "json_sem (JNumber n) = VNumber n"
| "json_sem (JString s) = VString s"
| "json_sem (JArray vs) = VArray (map json_sem vs)"
| "json_sem (JObject m) = VObject (fmap_of_list (map (map_prod (\<lambda>k. k) json_sem) m))"

fun json_ok :: "json \<Rightarrow> bool" where
  "json_ok (JArray vs) = list_all json_ok vs"
| "json_ok (JObject m) = (distinct (map fst m) \<and> list_all (\<lambda>(k, v). json_ok v) m)"
| "json_ok _ = True"

text \<open>The scalars and keys that are handed to the serialiser.\<close>

fun json_scalars :: "json \<Rightarrow> json list" where
  "json_scalars (JArray vs) = concat (map json_scalars vs)"
| "json_scalars (JObject m) = concat (map (\<lambda>(k, v). JString k # json_scalars v) m)"
| "json_scalars v = [v]"

text \<open>The two loops as functions of the texts of their elements.\<close>

fun fields_text ::
  "(json \<Rightarrow> string + string) \<Rightarrow> (string \<times> (string + string)) list \<Rightarrow> bool \<Rightarrow> string \<Rightarrow> string + string" where
  "fields_text ser [] first out = Ok out"
| "fields_text ser ((k, t) # rest) first out =
     and_then (ser (JString k)) (\<lambda>key. and_then t (\<lambda>val.
       fields_text ser rest False ((if first then out else out @ '','') @ key @ '':'' @ val)))"

fun items_text :: "(string + string) list \<Rightarrow> bool \<Rightarrow> string \<Rightarrow> string + string" where
  "items_text [] first out = Ok out"
| "items_text (t # rest) first out =
     and_then t (\<lambda>val. items_text rest False ((if first then out else out @ '','') @ val))"

lemma canonical_fields_text:
  "canonical_fields ser m first out
     = fields_text ser (map (map_prod (\<lambda>k. k) (canonical_json ser)) m) first out"
  by (induction m arbitrary: first out) (auto simp: Let_def)

lemma canonical_items_text:
  "canonical_items ser vs first out = items_text (map (canonical_json ser) vs) first out"
  by (induction vs arbitrary: first out) (auto simp: Let_def)

lemma sort_key_fst_map_prod:
  "map (map_prod (\<lambda>k. k) f) (sort_key fst m) = sort_key fst (map (map_prod (\<lambda>k. k) f) m)"
proof (induction m)
  case (Cons x m)
  have "map (map_prod (\<lambda>k. k) f) (insort_key fst x ys) = insort_key fst (map_prod (\<lambda>k. k) f x) (map (map_prod (\<lambda>k. k) f) ys)"
    for ys by (induction ys) auto
  with Cons show ?case by simp
qed simp

lemma sort_key_fst_eqI:
  fixes m m' :: "('k::linorder \<times> 'v) list"
  assumes d: "distinct (map fst m)" and d': "distinct (map fst m')" and eq: "map_of m = map_of m'"
  shows "sort_key fst m = sort_key fst m'"
proof (rule map_sorted_distinct_set_unique [where f = fst])
  have "set m = set m'" using d d' eq by (metis map_of_inject_set)
  then show "set (sort_key fst m) = set (sort_key fst m')" by simp
  show "inj_on fst (set (sort_key fst m) \<union> set (sort_key fst m'))"
    using d \<open>set m = set m'\<close> by (simp add: distinct_map)
  show "distinct (map fst (sort_key fst m))" "distinct (map fst (sort_key fst m'))"
    using d d' by (metis distinct_map distinct_sort set_sort)+
qed simp_all

lemma canonical_object_text:
  "canonical_json ser (JObject m) =
     and_then (fields_text ser (sort_key fst (map (map_prod (\<lambda>k. k) (canonical_json ser)) m)) True ''{'')
       (\<lambda>out. Ok (out @ ''}''))"
  by (simp add: canonical_fields_text sort_key_fst_map_prod)

lemma map_of_map_prod: "map_of (map (map_prod (\<lambda>k. k) f) xs) = (\<lambda>k. map_option f (map_of xs k))"
  by (rule ext, induct_tac xs) auto

lemma json_sem_object_entries:
  assumes "fmap_of_list (map (map_prod (\<lambda>k. k) json_sem) m) = fmap_of_list (map (map_prod (\<lambda>k. k) json_sem) m')"
  shows "map_option json_sem (map_of m k) = map_option json_sem (map_of m' k)"
  using arg_cong [OF assms, of "\<lambda>x. fmlookup x k"]
  by (simp add: fmlookup_of_list map_of_map_prod)

text \<open>
  Canonical text. Two values that mean the same, whatever the order of the fields of their objects
  at any depth, have the same canonical text, so the same audit hash.
\<close>

theorem canonical_json_order_free:
  assumes "json_ok v" "json_ok w" "json_sem v = json_sem w"
  shows "canonical_json ser v = canonical_json ser w"
  using assms
proof (induction v arbitrary: w)
  case (JArray vs)
  then obtain ws where w: "w = JArray ws" and eq: "map json_sem vs = map json_sem ws"
    by (cases w) auto
  have "map (canonical_json ser) vs = map (canonical_json ser) ws"
  proof (rule nth_equalityI)
    show "length (map (canonical_json ser) vs) = length (map (canonical_json ser) ws)"
      using map_eq_imp_length_eq [OF eq] by simp
    fix i assume "i < length (map (canonical_json ser) vs)"
    then have i: "i < length vs" "i < length ws" using map_eq_imp_length_eq [OF eq] by simp_all
    have "json_sem (vs ! i) = json_sem (ws ! i)" using eq i by (metis nth_map)
    with i JArray.prems JArray.IH [of "vs ! i" "ws ! i"]
    show "map (canonical_json ser) vs ! i = map (canonical_json ser) ws ! i"
      by (simp add: w list_all_length)
  qed
  then show ?case by (simp add: w canonical_items_text)
next
  case (JObject m)
  then obtain m' where w: "w = JObject m'"
    and eq: "fmap_of_list (map (map_prod (\<lambda>k. k) json_sem) m) = fmap_of_list (map (map_prod (\<lambda>k. k) json_sem) m')"
    by (cases w) auto
  from JObject.prems have d: "distinct (map fst m)" "distinct (map fst m')"
    and oks: "\<And>k x. (k, x) \<in> set m \<Longrightarrow> json_ok x" "\<And>k x. (k, x) \<in> set m' \<Longrightarrow> json_ok x"
    by (auto simp: w list_all_iff)
  have one: "map_option (canonical_json ser) (map_of m k) = map_option (canonical_json ser) (map_of m' k)" for k
  proof (cases "map_of m k")
    case None
    then show ?thesis using json_sem_object_entries [OF eq, of k] by simp
  next
    case (Some x)
    then obtain y where y: "map_of m' k = Some y" "json_sem x = json_sem y"
      using json_sem_object_entries [OF eq, of k] by (cases "map_of m' k") auto
    have mem: "(k, x) \<in> set m" "(k, y) \<in> set m'" using Some y by (auto dest: map_of_SomeD)
    then have "canonical_json ser x = canonical_json ser y"
      using JObject.IH [of "(k, x)" x y] oks y by auto
    then show ?thesis using Some y by simp
  qed
  have "sort_key fst (map (map_prod (\<lambda>k. k) (canonical_json ser)) m)
          = sort_key fst (map (map_prod (\<lambda>k. k) (canonical_json ser)) m')"
    by (rule sort_key_fst_eqI) (use d one in \<open>simp_all add: map_of_map_prod fun_eq_iff comp_def\<close>)
  then show ?case by (simp only: w canonical_object_text)
qed (case_tac w; simp)+

lemma is_ok_and_then: "is_ok (and_then r f) \<longleftrightarrow> (\<exists>a. r = Ok a \<and> is_ok (f a))"
  by (cases r) simp_all

lemma is_ok_fields_text:
  "is_ok (fields_text ser m first out) \<longleftrightarrow> list_all (\<lambda>(k, t). is_ok (ser (JString k)) \<and> is_ok t) m"
  by (induction ser m first out rule: fields_text.induct) (auto simp: is_ok_and_then simp flip: is_ok_iff)

lemma is_ok_items_text: "is_ok (items_text ts first out) \<longleftrightarrow> list_all is_ok ts"
  by (induction ts first out rule: items_text.induct) (auto simp: is_ok_and_then simp flip: is_ok_iff)

text \<open>
  When canonicalisation fails. The recursion returns a text for every value exactly when the
  library serialises each scalar and key in it; one failure anywhere is a failure of the whole.
\<close>

theorem canonical_json_ok_iff:
  "is_ok (canonical_json ser v) \<longleftrightarrow> list_all (\<lambda>s. is_ok (ser s)) (json_scalars v)"
proof (induction v)
  case (JArray vs)
  then show ?case
    by (auto simp: canonical_items_text is_ok_and_then is_ok_items_text list_all_iff
        simp flip: is_ok_iff)
next
  case (JObject m)
  have IH: "is_ok (canonical_json ser x) \<longleftrightarrow> list_all (\<lambda>s. is_ok (ser s)) (json_scalars x)"
    if "(k, x) \<in> set m" for k x using JObject that by auto
  show ?case using IH
    by (fastforce simp: canonical_object_text is_ok_and_then is_ok_fields_text list_all_iff
        simp del: canonical_json.simps simp flip: is_ok_iff)
qed simp_all

section \<open>Entries and their hash\<close>

record audit_entry =
  ae_community :: uuid
  ae_seq :: i64
  ae_hash :: bytes
  ae_prev_hash :: "bytes option"
  ae_action :: audit_action
  ae_actor_pubkey :: "bytes option"
  ae_object_id :: "string option"
  ae_detail :: json
  ae_created_at :: int

record new_audit_entry =
  na_community :: uuid
  na_action :: audit_action
  na_actor_pubkey :: "bytes option"
  na_object_id :: "string option"
  na_detail :: json

datatype audit_error = Database | ChainViolation i64 | HashMismatch i64 | UnknownAction
  | Serialization string

definition GENESIS_HASH :: bytes where
  "GENESIS_HASH = replicate 32 0"

text \<open>The presence tag of an optional field, and the field.\<close>

fun tagged :: "bytes option \<Rightarrow> bytes" where
  "tagged (Some b) = 1 # b"
| "tagged None = [0]"

text \<open>All that is fed to the hasher, in the order of the \<open>update\<close> calls.\<close>

definition hash_input :: "audit_lib \<Rightarrow> audit_entry \<Rightarrow> audit_error + bytes" where
  "hash_input lib e =
     (case canonical_json (lib_to_string lib) (ae_detail e) of
        Inl err \<Rightarrow> Err (Serialization err)
      | Inr detail \<Rightarrow> Ok (
          uuid_bytes (ae_community e)
          @ be_bytes 8 (ae_seq e)
          @ str_bytes (lib_rfc3339 lib (ae_created_at e))
          @ str_bytes (audit_action_as_str (ae_action e))
          @ tagged (ae_actor_pubkey e)
          @ tagged (map_option str_bytes (ae_object_id e))
          @ str_bytes detail
          @ (case ae_prev_hash e of Some h \<Rightarrow> h | None \<Rightarrow> GENESIS_HASH)))"

definition compute_hash :: "audit_lib \<Rightarrow> audit_entry \<Rightarrow> audit_error + bytes" where
  "compute_hash lib e = and_then (hash_input lib e) (\<lambda>input. Ok (lib_sha256 lib input))"

section \<open>The table and the service\<close>

record audit_row =
  ar_community :: uuid
  ar_seq :: i64
  ar_hash :: bytes
  ar_prev_hash :: "bytes option"
  ar_action :: string
  ar_actor_pubkey :: "bytes option"
  ar_object_id :: "string option"
  ar_detail :: json
  ar_created_at :: int

type_synonym audit_table = "audit_row list"

text \<open>The row an \<open>INSERT\<close> leaves: instants and JSON pass through their column types.\<close>

definition stored_row :: "audit_lib \<Rightarrow> audit_entry \<Rightarrow> audit_row" where
  "stored_row lib e =
     \<lparr>ar_community = ae_community e, ar_seq = ae_seq e, ar_hash = ae_hash e,
      ar_prev_hash = ae_prev_hash e, ar_action = audit_action_as_str (ae_action e),
      ar_actor_pubkey = ae_actor_pubkey e, ar_object_id = ae_object_id e,
      ar_detail = lib_jsonb lib (ae_detail e), ar_created_at = lib_timestamptz lib (ae_created_at e)\<rparr>"

definition row_to_audit_entry :: "audit_row \<Rightarrow> audit_error + audit_entry" where
  "row_to_audit_entry r =
     (case audit_action_from_str (ar_action r) of
        Inl _ \<Rightarrow> Err UnknownAction
      | Inr action \<Rightarrow> Ok
          \<lparr>ae_community = ar_community r, ae_seq = ar_seq r, ae_hash = ar_hash r,
           ae_prev_hash = ar_prev_hash r, ae_action = action, ae_actor_pubkey = ar_actor_pubkey r,
           ae_object_id = ar_object_id r, ae_detail = ar_detail r, ae_created_at = ar_created_at r\<rparr>)"

text \<open>\<open>WHERE community_id = $1 ORDER BY seq ASC\<close>, and the first row of \<open>ORDER BY seq DESC LIMIT 1\<close>.\<close>

definition community_rows :: "uuid \<Rightarrow> audit_table \<Rightarrow> audit_row list" where
  "community_rows c tbl = sort_key (\<lambda>r. sint (ar_seq r)) (filter (\<lambda>r. ar_community r = c) tbl)"

definition chain_head :: "uuid \<Rightarrow> audit_table \<Rightarrow> audit_row option" where
  "chain_head c tbl =
     (case rev (community_rows c tbl) of [] \<Rightarrow> None | r # _ \<Rightarrow> Some r)"

text \<open>
  The database calls of an append, each of which can fail: nothing is stored unless the commit went
  through, and \<open>CommitAck\<close> is a commit whose acknowledgement was lost. The primary key is
  \<open>(community_id, seq)\<close> and \<open>(community_id, hash)\<close> is unique. The increment of \<open>seq\<close> wraps as in a
  release build.
\<close>

datatype db_stage = Acquire | Lock | Begin | SelectHead | Insert | Commit | CommitAck

definition row_conflicts :: "audit_row \<Rightarrow> audit_table \<Rightarrow> bool" where
  "row_conflicts r tbl \<longleftrightarrow> (\<exists>x\<in>set tbl. ar_community x = ar_community r
     \<and> (ar_seq x = ar_seq r \<or> ar_hash x = ar_hash r))"

definition next_entry :: "int \<Rightarrow> new_audit_entry \<Rightarrow> audit_table \<Rightarrow> audit_entry" where
  "next_entry now new tbl =
     (let (prev_seq, prev_hash) =
            (case chain_head (na_community new) tbl of
               Some row \<Rightarrow> (ar_seq row, Some (ar_hash row))
             | None \<Rightarrow> (0, None))
      in \<lparr>ae_community = na_community new, ae_seq = prev_seq + 1, ae_hash = [],
          ae_prev_hash = prev_hash, ae_action = na_action new,
          ae_actor_pubkey = na_actor_pubkey new, ae_object_id = na_object_id new,
          ae_detail = na_detail new, ae_created_at = now\<rparr>)"

definition log_inner ::
  "audit_lib \<Rightarrow> (db_stage \<Rightarrow> bool) \<Rightarrow> int \<Rightarrow> new_audit_entry \<Rightarrow> audit_table
     \<Rightarrow> audit_table \<times> (audit_error + audit_entry)" where
  "log_inner lib fails now new tbl =
     (if fails Begin \<or> fails SelectHead then (tbl, Err Database)
      else let entry = next_entry now new tbl
           in guarded (compute_hash lib entry) tbl (\<lambda>h.
                let entry = entry\<lparr>ae_hash := h\<rparr>; row = stored_row lib entry
                in if fails Insert \<or> row_conflicts row tbl \<or> fails Commit then (tbl, Err Database)
                   else if fails CommitAck then (tbl @ [row], Err Database)
                   else (tbl @ [row], Ok entry)))"

text \<open>The lock is released on every path; a failing release is ignored.\<close>

definition log_entry ::
  "audit_lib \<Rightarrow> (db_stage \<Rightarrow> bool) \<Rightarrow> int \<Rightarrow> new_audit_entry \<Rightarrow> audit_table
     \<Rightarrow> audit_table \<times> (audit_error + audit_entry)" where
  "log_entry lib fails now new tbl =
     (if fails Acquire \<or> fails Lock then (tbl, Err Database) else log_inner lib fails now new tbl)"

fun verify_rows :: "audit_lib \<Rightarrow> bytes option \<Rightarrow> audit_row list \<Rightarrow> audit_error + bool" where
  "verify_rows lib expected_prev [] = Ok True"
| "verify_rows lib expected_prev (row # rows) =
     and_then (row_to_audit_entry row) (\<lambda>entry.
       if expected_prev \<noteq> None \<and> ae_prev_hash entry \<noteq> expected_prev
       then Err (ChainViolation (ae_seq entry))
       else and_then (compute_hash lib entry) (\<lambda>computed.
         if computed \<noteq> ae_hash entry then Err (HashMismatch (ae_seq entry))
         else verify_rows lib (Some (ae_hash entry)) rows))"

definition range_rows :: "uuid \<Rightarrow> i64 \<Rightarrow> i64 \<Rightarrow> audit_table \<Rightarrow> audit_row list" where
  "range_rows c from_seq to_seq tbl =
     filter (\<lambda>r. sint from_seq \<le> sint (ar_seq r) \<and> sint (ar_seq r) \<le> sint to_seq) (community_rows c tbl)"

definition verify_chain ::
  "audit_lib \<Rightarrow> uuid \<Rightarrow> i64 \<Rightarrow> i64 \<Rightarrow> audit_table \<Rightarrow> audit_error + bool" where
  "verify_chain lib c from_seq to_seq tbl =
     (let rows = range_rows c from_seq to_seq tbl
      in if rows = [] then Ok False else verify_rows lib None rows)"

text \<open>Collecting an iterator of results stops at the first error.\<close>

fun collect_results :: "('e + 'a) list \<Rightarrow> 'e + 'a list" where
  "collect_results [] = Ok []"
| "collect_results (r # rs) = and_then r (\<lambda>a. and_then (collect_results rs) (\<lambda>as. Ok (a # as)))"

text \<open>Postgres rejects a negative \<open>LIMIT\<close>.\<close>

definition get_entries ::
  "uuid \<Rightarrow> i64 \<Rightarrow> i64 \<Rightarrow> audit_table \<Rightarrow> audit_error + audit_entry list" where
  "get_entries c from_seq limit tbl =
     (if sint limit < 0 then Err Database
      else collect_results (map row_to_audit_entry
        (take (nat (sint limit)) (filter (\<lambda>r. sint from_seq \<le> sint (ar_seq r)) (community_rows c tbl)))))"

section \<open>What verification checks\<close>

definition row_hashes :: "audit_lib \<Rightarrow> audit_row \<Rightarrow> bool" where
  "row_hashes lib r \<longleftrightarrow> and_then (row_to_audit_entry r) (compute_hash lib) = Ok (ar_hash r)"

definition links_to :: "audit_row \<Rightarrow> audit_row \<Rightarrow> bool" where
  "links_to a b \<longleftrightarrow> ar_prev_hash b = Some (ar_hash a)"

lemma row_entry_fields:
  assumes "row_to_audit_entry r = Ok e"
  shows "ae_community e = ar_community r" "ae_seq e = ar_seq r" "ae_hash e = ar_hash r"
    "ae_prev_hash e = ar_prev_hash r" "audit_action_as_str (ae_action e) = ar_action r"
    "ae_actor_pubkey e = ar_actor_pubkey r" "ae_object_id e = ar_object_id r"
    "ae_detail e = ar_detail r" "ae_created_at e = ar_created_at r"
  using assms
  by (auto simp: row_to_audit_entry_def audit_action.from_str_iff split: sum.splits)

lemma row_hashes_iff:
  "row_hashes lib r \<longleftrightarrow> (\<exists>e. row_to_audit_entry r = Ok e \<and> compute_hash lib e = Ok (ae_hash e))"
  by (auto simp: row_hashes_def row_entry_fields(3))

lemma compute_hash_ignores_hash [simp]: "compute_hash lib (e\<lparr>ae_hash := h\<rparr>) = compute_hash lib e"
  by (simp add: compute_hash_def hash_input_def split: sum.split)

lemma verify_rows_iff:
  "verify_rows lib p rows = Ok True \<longleftrightarrow>
     list_all (row_hashes lib) rows \<and> successively links_to rows
     \<and> (case (p, rows) of (Some h, r # _) \<Rightarrow> ar_prev_hash r = Some h | _ \<Rightarrow> True)"
proof (induction rows arbitrary: p)
  case (Cons r rows)
  show ?case
  proof (cases "row_hashes lib r")
    case False
    then have "verify_rows lib p (r # rows) \<noteq> Ok True"
      by (auto simp: row_hashes_iff)
    with False show ?thesis by simp
  next
    case True
    then obtain e where e: "row_to_audit_entry r = Ok e" "compute_hash lib e = Ok (ae_hash e)"
      by (auto simp: row_hashes_iff)
    have "verify_rows lib p (r # rows) =
       (if p \<noteq> None \<and> ar_prev_hash r \<noteq> p then Err (ChainViolation (ar_seq r))
        else verify_rows lib (Some (ar_hash r)) rows)"
      by (simp add: e row_entry_fields [OF e(1)])
    then show ?thesis
      using True Cons.IH [of "Some (ar_hash r)"]
      by (auto simp: links_to_def successively_Cons split: option.splits list.splits)
  qed
qed (simp split: option.split)

lemma verify_rows_not_False: "verify_rows lib p rows \<noteq> Ok False"
  by (induction rows arbitrary: p) auto

text \<open>
  What a positive verification means. A segment verifies exactly when it has a row, every
  row's stored hash is the hash recomputed from the row (so its action string is known and its detail
  serialises), and every row but the first carries its predecessor's hash; \<open>Ok(false)\<close> means
  exactly that the segment is empty.
\<close>

theorem verify_chain_iff:
  "(verify_chain lib c a b tbl = Ok True \<longleftrightarrow>
      range_rows c a b tbl \<noteq> [] \<and> list_all (row_hashes lib) (range_rows c a b tbl)
      \<and> successively links_to (range_rows c a b tbl))
   \<and> (verify_chain lib c a b tbl = Ok False \<longleftrightarrow> range_rows c a b tbl = [])"
  by (auto simp: verify_chain_def Let_def verify_rows_iff verify_rows_not_False)

section \<open>Chains built by appending\<close>

text \<open>
  \<open>linked P prev n rows\<close>: the rows are numbered from \<open>n + 1\<close>, each carries its predecessor's hash (the
  first one \<open>prev\<close>) and satisfies \<open>P\<close>.
\<close>

fun linked :: "(audit_row \<Rightarrow> bool) \<Rightarrow> bytes option \<Rightarrow> nat \<Rightarrow> audit_row list \<Rightarrow> bool" where
  "linked P prev n [] = True"
| "linked P prev n (r # rs) =
     (ar_seq r = of_nat (Suc n) \<and> ar_prev_hash r = prev \<and> P r
      \<and> linked P (Some (ar_hash r)) (Suc n) rs)"

lemma linked_snoc:
  "linked P prev n (rs @ [r]) \<longleftrightarrow>
     linked P prev n rs \<and> ar_seq r = of_nat (Suc (n + length rs))
     \<and> ar_prev_hash r = (if rs = [] then prev else Some (ar_hash (last rs))) \<and> P r"
  by (induction rs arbitrary: prev n) (auto simp del: of_nat_Suc)

lemma linked_conj: "linked P prev n rs \<longleftrightarrow> linked (\<lambda>_. True) prev n rs \<and> list_all P rs"
  by (induction rs arbitrary: prev n) (auto simp del: of_nat_Suc)

lemma linked_links: "linked P prev n rs \<Longrightarrow> successively links_to rs"
proof (induction rs arbitrary: prev n)
  case (Cons r rs)
  then show ?case by (cases rs) (auto simp: links_to_def simp del: of_nat_Suc)
qed simp

lemma linked_seqs: "linked P prev n rs \<Longrightarrow> map ar_seq rs = map of_nat [Suc n ..< Suc (n + length rs)]"
proof (induction rs arbitrary: prev n)
  case (Cons r rs)
  have "[Suc n ..< Suc (n + length (r # rs))] = Suc n # [Suc (Suc n) ..< Suc (Suc n + length rs)]"
    by (simp add: upt_conv_Cons del: upt_Suc)
  with Cons.prems Cons.IH [of "Some (ar_hash r)" "Suc n"] show ?case by (simp del: of_nat_Suc upt_Suc)
qed simp

lemma i64_of_nat: "n < 2 ^ 63 \<Longrightarrow> sint (of_nat n :: i64) = int n"
  by (simp add: signed_of_nat signed_take_bit_int_eq_self)

lemma linked_signed_seqs:
  assumes "linked P prev n rs" "n + length rs < 2 ^ 63"
  shows "map (\<lambda>r. sint (ar_seq r)) rs = map int [Suc n ..< Suc (n + length rs)]"
proof -
  have "map (\<lambda>r. sint (ar_seq r)) rs = map sint (map ar_seq rs)" by simp
  also have "\<dots> = map sint (map (of_nat :: nat \<Rightarrow> i64) [Suc n ..< Suc (n + length rs)])"
    by (simp only: linked_seqs [OF assms(1)])
  also have "\<dots> = map int [Suc n ..< Suc (n + length rs)]"
    unfolding map_map by (rule map_cong [OF refl]) (use assms(2) in \<open>simp add: i64_of_nat del: upt_Suc of_nat_Suc\<close>)
  finally show ?thesis .
qed

abbreviation own_rows :: "uuid \<Rightarrow> audit_table \<Rightarrow> audit_row list" where
  "own_rows c tbl \<equiv> filter (\<lambda>r. ar_community r = c) tbl"

definition audit_ok :: "audit_table \<Rightarrow> bool" where
  "audit_ok tbl \<longleftrightarrow> (length tbl < 2 ^ 63 \<longrightarrow> (\<forall>c. linked (\<lambda>_. True) None 0 (own_rows c tbl)))"

lemma audit_ok_rows:
  assumes "audit_ok tbl" "length tbl < 2 ^ 63"
  shows "community_rows c tbl = own_rows c tbl"
proof -
  have "length (own_rows c tbl) < 2 ^ 63" using assms(2) le_less_trans length_filter_le by blast
  then have "map (\<lambda>r. sint (ar_seq r)) (own_rows c tbl) = map int [Suc 0 ..< Suc (length (own_rows c tbl))]"
    using linked_signed_seqs [of "\<lambda>_. True" None 0 "own_rows c tbl"] assms by (simp add: audit_ok_def)
  then have "sorted (map (\<lambda>r. sint (ar_seq r)) (own_rows c tbl))"
    by (simp add: sorted_map sorted_wrt_map del: upt_Suc)
  then show ?thesis by (simp add: community_rows_def sort_key_id_if_sorted)
qed

lemma audit_ok_head:
  assumes "audit_ok tbl" "length tbl < 2 ^ 63"
  shows "chain_head c tbl = (if own_rows c tbl = [] then None else Some (last (own_rows c tbl)))"
  unfolding chain_head_def audit_ok_rows [OF assms]
  by (cases "own_rows c tbl" rule: rev_cases) simp_all

lemma log_entry_cases:
  obtains (none) "fst (log_entry lib fails now new tbl) = tbl"
      "\<exists>err. snd (log_entry lib fails now new tbl) = Err err"
  | (stored) h where "compute_hash lib (next_entry now new tbl) = Ok h"
      "fst (log_entry lib fails now new tbl)
         = tbl @ [stored_row lib ((next_entry now new tbl)\<lparr>ae_hash := h\<rparr>)]"
      "snd (log_entry lib fails now new tbl)
         = (if fails CommitAck then Err Database else Ok ((next_entry now new tbl)\<lparr>ae_hash := h\<rparr>))"
      "\<not> row_conflicts (stored_row lib ((next_entry now new tbl)\<lparr>ae_hash := h\<rparr>)) tbl"
proof (cases "compute_hash lib (next_entry now new tbl)")
  case (Inl err)
  then show ?thesis by (intro none) (auto simp: log_entry_def log_inner_def)
next
  case (Inr h)
  then show ?thesis
    by (cases "fails Acquire \<or> fails Lock \<or> fails Begin \<or> fails SelectHead \<or> fails Insert \<or> fails Commit
        \<or> row_conflicts (stored_row lib ((next_entry now new tbl)\<lparr>ae_hash := h\<rparr>)) tbl")
      (intro none stored; auto simp: log_entry_def log_inner_def Let_def)+
qed

lemma next_entry_fields [simp]:
  "ae_community (next_entry now new tbl) = na_community new"
  "ae_detail (next_entry now new tbl) = na_detail new"
  "ae_created_at (next_entry now new tbl) = now"
  by (simp_all add: next_entry_def Let_def split: prod.split)

lemma next_entry_links:
  assumes "audit_ok tbl" "length tbl < 2 ^ 63"
  shows "ae_seq (next_entry now new tbl) = of_nat (Suc (length (own_rows (na_community new) tbl)))"
    and "ae_prev_hash (next_entry now new tbl)
      = (if own_rows (na_community new) tbl = [] then None
         else Some (ar_hash (last (own_rows (na_community new) tbl))))"
proof -
  let ?own = "own_rows (na_community new) tbl"
  have lk: "linked (\<lambda>_. True) None 0 ?own" using assms by (simp add: audit_ok_def)
  show "ae_seq (next_entry now new tbl) = of_nat (Suc (length ?own))"
  proof (cases ?own rule: rev_cases)
    case (snoc xs x)
    with lk show ?thesis using linked_snoc [of "\<lambda>_. True" None 0 xs x]
      by (simp add: next_entry_def audit_ok_head [OF assms])
  qed (simp add: next_entry_def audit_ok_head [OF assms])
  show "ae_prev_hash (next_entry now new tbl) = (if ?own = [] then None else Some (ar_hash (last ?own)))"
    by (simp add: next_entry_def audit_ok_head [OF assms] Let_def)
qed

lemma stored_row_fields [simp]:
  "ar_community (stored_row lib e) = ae_community e" "ar_seq (stored_row lib e) = ae_seq e"
  "ar_hash (stored_row lib e) = ae_hash e" "ar_prev_hash (stored_row lib e) = ae_prev_hash e"
  by (simp_all add: stored_row_def)

section \<open>Runs of the service\<close>

datatype audit_op = LogOp "db_stage \<Rightarrow> bool" int new_audit_entry

fun audit_step :: "audit_lib \<Rightarrow> audit_op \<Rightarrow> audit_table \<Rightarrow> audit_table" where
  "audit_step lib (LogOp fails now new) tbl = fst (log_entry lib fails now new tbl)"

definition audit_run :: "audit_lib \<Rightarrow> audit_op list \<Rightarrow> audit_table" where
  "audit_run lib ops = fold (audit_step lib) ops []"

lemma audit_ok_log:
  assumes ok: "audit_ok tbl" shows "audit_ok (fst (log_entry lib fails now new tbl))"
proof (cases rule: log_entry_cases [of lib fails now new tbl])
  case none
  then show ?thesis using ok by simp
next
  case (stored h)
  show ?thesis
  proof (cases "length tbl < 2 ^ 63")
    case True
    then have "linked (\<lambda>_. True) None 0 (own_rows c tbl)" for c using ok by (simp add: audit_ok_def)
    then show ?thesis
      using next_entry_links [OF ok True]
      by (simp add: stored(2) audit_ok_def linked_snoc)
  qed (simp add: stored(2) audit_ok_def)
qed

interpretation audit: invariant_machine "audit_step lib" "\<lambda>t. t = []" audit_ok for lib
proof unfold_locales
  fix a s assume "audit_ok s"
  then show "audit_ok (audit_step lib a s)" by (cases a) (simp add: audit_ok_log)
qed (simp add: audit_ok_def)

lemma audit_run_ok: "audit_ok (audit_run lib ops)"
  unfolding audit_run_def by (rule audit.inv_reachable) simp

lemma log_entry_length: "length (fst (log_entry lib fails now new tbl)) \<le> Suc (length tbl)"
  by (cases rule: log_entry_cases [of lib fails now new tbl]) simp_all

lemma audit_run_length: "length (audit_run lib ops) \<le> length ops"
proof -
  have "length (fold (audit_step lib) ops tbl) \<le> length ops + length tbl" for tbl
  proof (induction ops arbitrary: tbl)
    case (Cons a ops)
    have "length (audit_step lib a tbl) \<le> Suc (length tbl)"
      by (cases a) (simp add: log_entry_length)
    with Cons [of "audit_step lib a tbl"] show ?case by simp
  qed simp
  then show ?thesis by (metis audit_run_def add_0_right list.size(3))
qed

lemma audit_run_rows:
  "length ops < 2 ^ 63 \<Longrightarrow> community_rows c (audit_run lib ops) = own_rows c (audit_run lib ops)"
  using audit_ok_rows [OF audit_run_ok] audit_run_length [of lib ops] by simp

text \<open>
  What an append does. In every reachable table an append that returns an entry has added exactly
  that entry's row, numbered by the length of its community's chain, linked to its head and carrying the
  hash of its fields. One that fails added nothing, except when only the acknowledgement of the
  commit was lost; it fails with a serialisation error exactly when the detail has no canonical text and the
  head was read.
\<close>

theorem log_entry_outcome:
  assumes "length ops < 2 ^ 63"
  shows "let tbl = audit_run lib ops; own = own_rows (na_community new) tbl;
             (tbl', res) = log_entry lib fails now new tbl
         in case res of
              Inr e \<Rightarrow> tbl' = tbl @ [stored_row lib e] \<and> ae_seq e = of_nat (Suc (length own))
                \<and> ae_prev_hash e = (if own = [] then None else Some (ar_hash (last own)))
                \<and> compute_hash lib e = Ok (ae_hash e) \<and> ae_created_at e = now
                \<and> ae_community e = na_community new \<and> ae_detail e = na_detail new
            | Inl err \<Rightarrow> (tbl' = tbl \<or> fails CommitAck)
                \<and> ((\<exists>x. err = Serialization x) \<longleftrightarrow>
                    \<not> is_ok (canonical_json (lib_to_string lib) (na_detail new))
                    \<and> \<not> (fails Acquire \<or> fails Lock \<or> fails Begin \<or> fails SelectHead))"
proof -
  let ?tbl = "audit_run lib ops"
  have len: "length ?tbl < 2 ^ 63" using assms audit_run_length [of lib ops] by simp
  note links = next_entry_links [OF audit_run_ok len, of now new]
  have hash: "compute_hash lib (next_entry now new ?tbl) =
      (case canonical_json (lib_to_string lib) (na_detail new) of Inl x \<Rightarrow> Err (Serialization x)
       | Inr t \<Rightarrow> compute_hash lib (next_entry now new ?tbl))"
    by (simp add: compute_hash_def hash_input_def split: sum.split)
  show ?thesis
  proof (cases rule: log_entry_cases [of lib fails now new ?tbl])
    case none
    show ?thesis
    proof (cases "canonical_json (lib_to_string lib) (na_detail new)")
      case (Inl x)
      then show ?thesis using none hash
        by (auto simp: log_entry_def log_inner_def Let_def split: if_splits prod.split)
    next
      case (Inr t)
      then obtain h where "compute_hash lib (next_entry now new ?tbl) = Ok h"
        by (simp add: compute_hash_def hash_input_def)
      then show ?thesis using none Inr
        by (auto simp: log_entry_def log_inner_def Let_def split: if_splits prod.split)
    qed
  next
    case (stored h)
    from stored(1) hash have ok: "is_ok (canonical_json (lib_to_string lib) (na_detail new))"
      by (auto simp: is_ok_iff split: sum.splits)
    obtain t res where lr: "log_entry lib fails now new ?tbl = (t, res)" by fastforce
    show ?thesis
    proof (cases "fails CommitAck")
      case True
      then show ?thesis using stored ok lr by simp
    next
      case False
      then have "res = Ok ((next_entry now new ?tbl)\<lparr>ae_hash := h\<rparr>)"
        "t = ?tbl @ [stored_row lib ((next_entry now new ?tbl)\<lparr>ae_hash := h\<rparr>)]"
        using stored lr by simp_all
      then show ?thesis using stored(1) lr links by simp
    qed
  qed
qed

text \<open>
  The round trip through the database is exact for an append when the column types keep what the hash
  covers of its instant and its detail.
\<close>

fun storage_exact :: "audit_lib \<Rightarrow> audit_op \<Rightarrow> bool" where
  "storage_exact lib (LogOp fails now new) \<longleftrightarrow>
     lib_rfc3339 lib (lib_timestamptz lib now) = lib_rfc3339 lib now
     \<and> canonical_json (lib_to_string lib) (lib_jsonb lib (na_detail new))
         = canonical_json (lib_to_string lib) (na_detail new)"

definition read_back :: "audit_lib \<Rightarrow> audit_entry \<Rightarrow> audit_entry" where
  "read_back lib e = e\<lparr>ae_detail := lib_jsonb lib (ae_detail e),
                       ae_created_at := lib_timestamptz lib (ae_created_at e)\<rparr>"

lemma row_to_entry_stored [simp]: "row_to_audit_entry (stored_row lib e) = Ok (read_back lib e)"
  by (simp add: row_to_audit_entry_def stored_row_def read_back_def)

lemma row_hashes_stored:
  "row_hashes lib (stored_row lib e) \<longleftrightarrow> compute_hash lib (read_back lib e) = Ok (ae_hash e)"
  by (simp add: row_hashes_def)

lemma stored_exact_hashes:
  assumes "storage_exact lib (LogOp fails now new)" "compute_hash lib (next_entry now new tbl) = Ok h"
  shows "row_hashes lib (stored_row lib ((next_entry now new tbl)\<lparr>ae_hash := h\<rparr>))"
  using assms
  by (simp add: row_hashes_stored compute_hash_def hash_input_def read_back_def split: sum.split_asm)

lemma audit_run_hashes:
  assumes "list_all (storage_exact lib) ops" "list_all (row_hashes lib) tbl"
  shows "list_all (row_hashes lib) (fold (audit_step lib) ops tbl)"
  using assms
proof (induction ops arbitrary: tbl)
  case (Cons a ops)
  obtain fails now new where a: "a = LogOp fails now new" by (cases a)
  have "list_all (row_hashes lib) (audit_step lib a tbl)"
    using Cons.prems
    by (cases rule: log_entry_cases [of lib fails now new tbl]) (simp_all add: a stored_exact_hashes)
  then show ?case using Cons by simp
qed simp

lemma range_rows_of: "range_rows c a b tbl = filter (\<lambda>r. sint a \<le> sint (ar_seq r) \<and> sint (ar_seq r) \<le> sint b)
    (community_rows c tbl)"
  by (simp add: range_rows_def)

lemma filter_le_takeWhile:
  fixes f :: "'a \<Rightarrow> int"
  shows "sorted (map f xs) \<Longrightarrow> filter (\<lambda>x. f x \<le> hi) xs = takeWhile (\<lambda>x. f x \<le> hi) xs"
proof (induction xs)
  case (Cons x xs)
  then show ?case by (cases xs) (auto simp: filter_empty_conv)
qed simp

lemma filter_upt_interval:
  fixes f :: "'a \<Rightarrow> int"
  assumes "map f xs = map int [m ..< m + length xs]"
  shows "\<exists>i k. filter (\<lambda>x. lo \<le> f x \<and> f x \<le> hi) xs = take k (drop i xs)"
  using assms
proof (induction xs arbitrary: m)
  case (Cons x xs)
  have fx: "f x = int m" and rest: "map f xs = map int [Suc m ..< Suc m + length xs]"
    using Cons.prems by (simp_all add: upt_conv_Cons del: upt_Suc)
  obtain i k where IH: "filter (\<lambda>x. lo \<le> f x \<and> f x \<le> hi) xs = take k (drop i xs)"
    using Cons.IH [OF rest] by blast
  have later: "f y > int m" if "y \<in> set xs" for y
  proof -
    from that have "f y \<in> set (map f xs)" by simp
    then show ?thesis unfolding rest by auto
  qed
  show ?case
  proof (cases "lo \<le> f x \<and> f x \<le> hi")
    case False
    then have "filter (\<lambda>x. lo \<le> f x \<and> f x \<le> hi) (x # xs) = take k (drop (Suc i) (x # xs))"
      by (simp add: IH)
    then show ?thesis by blast
  next
    case True
    have "filter (\<lambda>x. lo \<le> f x \<and> f x \<le> hi) xs = takeWhile (\<lambda>x. f x \<le> hi) xs"
    proof -
      have "sorted (map f xs)" unfolding rest by (simp add: sorted_map sorted_wrt_map del: upt_Suc)
      then have "filter (\<lambda>x. f x \<le> hi) xs = takeWhile (\<lambda>x. f x \<le> hi) xs"
        by (rule filter_le_takeWhile)
      moreover have "filter (\<lambda>x. lo \<le> f x \<and> f x \<le> hi) xs = filter (\<lambda>x. f x \<le> hi) xs"
        using later fx True by (intro filter_cong) force+
      ultimately show ?thesis by simp
    qed
    then have "filter (\<lambda>x. lo \<le> f x \<and> f x \<le> hi) (x # xs)
        = take (Suc (length (takeWhile (\<lambda>x. f x \<le> hi) xs))) (drop 0 (x # xs))"
      using True by (simp flip: takeWhile_eq_take)
    then show ?thesis by blast
  qed
qed simp

lemma successively_take_drop: "successively P xs \<Longrightarrow> successively P (take k (drop i xs))"
  by (metis append_take_drop_id successively_append_iff)

lemma audit_run_linked:
  assumes "length ops < 2 ^ 63"
  shows "linked (\<lambda>_. True) None 0 (own_rows c (audit_run lib ops))"
  using audit_run_ok [of lib ops] audit_run_length [of lib ops] assms by (simp add: audit_ok_def)

lemma audit_run_seqs:
  assumes "length ops < 2 ^ 63"
  shows "map (\<lambda>r. sint (ar_seq r)) (own_rows c (audit_run lib ops))
    = map int [1 ..< 1 + length (own_rows c (audit_run lib ops))]"
proof -
  have "length (own_rows c (audit_run lib ops)) < 2 ^ 63"
    by (rule le_less_trans [OF length_filter_le le_less_trans [OF audit_run_length assms]])
  then show ?thesis using linked_signed_seqs [OF audit_run_linked [OF assms], of c lib] by simp
qed

text \<open>
  C36 (Genuine chains verify). After any sequence of appends, failing ones included, over a storage
  that keeps what is hashed, every community's chain is numbered 1, 2, 3, ... without gaps and every
  segment of it verifies; only an empty segment gives false.
\<close>

theorem genuine_chain_verifies:
  assumes "list_all (storage_exact lib) ops" "length ops < 2 ^ 63"
  shows "verify_chain lib c a b (audit_run lib ops) = Ok (range_rows c a b (audit_run lib ops) \<noteq> [])
    \<and> map ar_seq (community_rows c (audit_run lib ops))
        = map of_nat [1 ..< Suc (length (community_rows c (audit_run lib ops)))]"
proof -
  let ?tbl = "audit_run lib ops" and ?own = "own_rows c (audit_run lib ops)"
  have rows: "community_rows c ?tbl = ?own" by (rule audit_run_rows [OF assms(2)])
  have hashes: "list_all (row_hashes lib) ?tbl"
    unfolding audit_run_def by (rule audit_run_hashes [OF assms(1)]) simp
  obtain i k where seg: "range_rows c a b ?tbl = take k (drop i ?own)"
    unfolding range_rows_of rows
    using filter_upt_interval [OF audit_run_seqs [OF assms(2)], of "sint a" "sint b" c lib] by blast
  have "successively links_to (range_rows c a b ?tbl)"
    unfolding seg by (intro successively_take_drop linked_links [OF audit_run_linked [OF assms(2)]])
  moreover have "list_all (row_hashes lib) (range_rows c a b ?tbl)"
    using hashes by (auto simp: range_rows_of rows list_all_iff)
  ultimately have "verify_rows lib None (range_rows c a b ?tbl) = Ok True"
    by (simp add: verify_rows_iff)
  then have "verify_chain lib c a b ?tbl = Ok (range_rows c a b ?tbl \<noteq> [])"
    by (auto simp: verify_chain_def Let_def)
  moreover have "map ar_seq ?own = map of_nat [1 ..< Suc (length ?own)]"
    using linked_seqs [OF audit_run_linked [OF assms(2)]] by simp
  ultimately show ?thesis by (simp add: rows)
qed

text \<open>
  A concrete library for the witnesses: an injective digest, a decimal clock rendering and columns that
  keep microseconds and every JSON value. Three appends, the second of which fails at its insert.
\<close>

definition demo_ser :: "json \<Rightarrow> string + string" where
  "demo_ser v = (case v of JNumber n \<Rightarrow> Ok n | JString t \<Rightarrow> Ok t | _ \<Rightarrow> Ok ''null'')"

definition demo_lib :: audit_lib where
  "demo_lib = \<lparr>lib_sha256 = (\<lambda>x. x), lib_rfc3339 = (\<lambda>t. show_nat (nat t)), lib_to_string = demo_ser,
     lib_timestamptz = (\<lambda>t. t div 1000 * 1000), lib_jsonb = (\<lambda>v. v)\<rparr>"

definition nil_uuid :: uuid where
  "nil_uuid = mk_uuid (replicate 16 0)"

definition demo_new :: new_audit_entry where
  "demo_new = \<lparr>na_community = nil_uuid, na_action = EventCreated, na_actor_pubkey = None,
     na_object_id = None, na_detail = JNull\<rparr>"

definition demo_ops :: "audit_op list" where
  "demo_ops = [LogOp (\<lambda>_. False) 1000 demo_new, LogOp (\<lambda>s. s = Insert) 2000 demo_new,
     LogOp (\<lambda>_. False) 3000 demo_new]"

lemma demo_exact: "list_all (storage_exact demo_lib) demo_ops"
  by (simp add: demo_ops_def demo_lib_def demo_new_def)

theorem genuine_chain_verifies_witness:
  "verify_chain demo_lib nil_uuid 1 2 (audit_run demo_lib demo_ops)
     = Ok (range_rows nil_uuid 1 2 (audit_run demo_lib demo_ops) \<noteq> [])"
proof -
  have "length demo_ops < 2 ^ 63" by (simp add: demo_ops_def)
  from genuine_chain_verifies [OF demo_exact this] show ?thesis by blast
qed

theorem log_entry_outcome_witness:
  "fst (log_entry demo_lib (\<lambda>_. False) 1000 demo_new (audit_run demo_lib []))
     = audit_run demo_lib [] @ [stored_row demo_lib ((next_entry 1000 demo_new [])
         \<lparr>ae_hash := lib_sha256 demo_lib (projr (hash_input demo_lib (next_entry 1000 demo_new [])))\<rparr>)]"
proof -
  obtain t r where lr: "log_entry demo_lib (\<lambda>_. False) 1000 demo_new (audit_run demo_lib []) = (t, r)"
    by fastforce
  have c: "canonical_json (lib_to_string demo_lib) JNull = Ok ''null''"
    by (simp add: demo_lib_def demo_ser_def)
  have r: "\<exists>e. r = Ok e \<and> e = (next_entry 1000 demo_new [])
      \<lparr>ae_hash := lib_sha256 demo_lib (projr (hash_input demo_lib (next_entry 1000 demo_new [])))\<rparr>"
    using lr c by (auto simp: log_entry_def log_inner_def audit_run_def Let_def row_conflicts_def
        compute_hash_def hash_input_def demo_new_def)
  have "length ([] :: audit_op list) < 2 ^ 63" by simp
  from log_entry_outcome [OF this, where lib = demo_lib and new = demo_new and fails = "\<lambda>_. False" and now = 1000] lr r
  show ?thesis by (auto simp: Let_def)
qed

theorem canonical_json_order_free_witness:
  "canonical_json demo_ser (JObject [(''b'', JArray [JNull]), (''a'', JNumber ''1'')])
     = canonical_json demo_ser (JObject [(''a'', JNumber ''1''), (''b'', JArray [JNull])])"
proof (rule canonical_json_order_free)
  show "json_sem (JObject [(''b'', JArray [JNull]), (''a'', JNumber ''1'')])
      = json_sem (JObject [(''a'', JNumber ''1''), (''b'', JArray [JNull])])"
    by (simp add: fmap_of_list_simps fmupd_reorder_neq)
qed simp_all

section \<open>The nanoseconds of the clock\<close>

lemma log_entry_Ok:
  assumes "log_entry lib fails now new tbl = (tbl', Ok e)"
  shows "tbl' = tbl @ [stored_row lib e]" "compute_hash lib e = Ok (ae_hash e)"
    "ae_community e = na_community new" "ae_created_at e = now" "ae_detail e = na_detail new"
    "\<not> row_conflicts (stored_row lib e) tbl"
proof -
  have t: "fst (log_entry lib fails now new tbl) = tbl'" "snd (log_entry lib fails now new tbl) = Ok e"
    using assms by simp_all
  then obtain h where h: "compute_hash lib (next_entry now new tbl) = Ok h"
      "e = (next_entry now new tbl)\<lparr>ae_hash := h\<rparr>" "tbl' = tbl @ [stored_row lib e]"
      "\<not> row_conflicts (stored_row lib e) tbl"
  proof (cases rule: log_entry_cases [of lib fails now new tbl])
    case none
    then show ?thesis using t by simp
  next
    case (stored h)
    have e: "e = (next_entry now new tbl)\<lparr>ae_hash := h\<rparr>"
      using stored(3) t(2) by (cases "fails CommitAck") simp_all
    show ?thesis by (rule that [OF stored(1) e]) (use stored(2,4) t(1) e in simp_all)
  qed
  then show "tbl' = tbl @ [stored_row lib e]" "compute_hash lib e = Ok (ae_hash e)"
    "ae_community e = na_community new" "ae_created_at e = now" "ae_detail e = na_detail new"
    "\<not> row_conflicts (stored_row lib e) tbl"
    by simp_all
qed

lemma one_row_range:
  assumes "log_entry lib fails now new tbl = (tbl', Ok e)"
  shows "range_rows (na_community new) (ae_seq e) (ae_seq e) tbl' = [stored_row lib e]"
proof -
  let ?c = "na_community new" and ?key = "\<lambda>r. sint (ar_seq r)"
  note ok = log_entry_Ok [OF assms]
  have interval: "(\<lambda>r. sint (ae_seq e) \<le> ?key r \<and> ?key r \<le> sint (ae_seq e))
      = (\<lambda>r. ?key r = sint (ae_seq e))"
    by (auto simp: fun_eq_iff)
  have "filter (\<lambda>r. ?key r = sint (ae_seq e)) (own_rows ?c tbl) = []"
    using ok(3,6) by (auto simp: filter_empty_conv row_conflicts_def dest!: signed_word_eqI)
  then have "filter (\<lambda>r. ?key r = sint (ae_seq e)) (own_rows ?c tbl') = [stored_row lib e]"
    by (simp add: ok(1,3) del: filter_filter)
  then show ?thesis
    unfolding range_rows_def community_rows_def interval sort_key_stable .
qed

text \<open>
  Nanoseconds break the chain. An append hashes the instant as the clock gave it, and the
  column gives back a rounded one. Whenever the rounding changes the instant's rendering, the appended entry
  does not verify: the digest (collision-free on the two inputs) no longer matches.
\<close>

theorem rounded_instant_rejected:
  assumes "log_entry lib fails now new tbl = (tbl', Ok e)"
    and "lib_rfc3339 lib (lib_timestamptz lib now) \<noteq> lib_rfc3339 lib now"
    and "canonical_json (lib_to_string lib) (lib_jsonb lib (na_detail new))
           = canonical_json (lib_to_string lib) (na_detail new)"
    and "inj_on (lib_sha256 lib) {x. hash_input lib e = Ok x \<or> hash_input lib (read_back lib e) = Ok x}"
  shows "verify_chain lib (na_community new) (ae_seq e) (ae_seq e) tbl' = Err (HashMismatch (ae_seq e))"
proof -
  note ok = log_entry_Ok [OF assms(1)]
  from ok(2) obtain x where x: "hash_input lib e = Ok x" "lib_sha256 lib x = ae_hash e"
    by (auto simp: compute_hash_def)
  from x(1) obtain t where t: "canonical_json (lib_to_string lib) (na_detail new) = Ok t"
    by (auto simp: hash_input_def ok(5) split: sum.splits)
  obtain y where y: "hash_input lib (read_back lib e) = Ok y" "y \<noteq> x"
    using x(1) t assms(2,3) ok(4,5) by (auto simp: hash_input_def read_back_def)
  with x assms(4) have "lib_sha256 lib y \<noteq> ae_hash e" by (auto simp: inj_on_def)
  then show ?thesis
    by (simp add: verify_chain_def one_row_range [OF assms(1)] compute_hash_def y(1))
      (simp add: read_back_def)
qed

theorem rounded_instant_rejected_witness:
  "\<exists>e tbl'. log_entry demo_lib (\<lambda>_. False) 1500 demo_new [] = (tbl', Ok e)
     \<and> verify_chain demo_lib nil_uuid (ae_seq e) (ae_seq e) tbl' = Err (HashMismatch (ae_seq e))"
proof -
  obtain h where h: "compute_hash demo_lib (next_entry 1500 demo_new []) = Ok h"
    by (simp add: compute_hash_def hash_input_def demo_lib_def demo_ser_def demo_new_def)
  then obtain tbl' e where run: "log_entry demo_lib (\<lambda>_. False) 1500 demo_new [] = (tbl', Ok e)"
    by (simp add: log_entry_def log_inner_def Let_def row_conflicts_def)
  have "lib_rfc3339 demo_lib (lib_timestamptz demo_lib 1500) \<noteq> lib_rfc3339 demo_lib 1500"
    by (simp add: demo_lib_def)
  moreover have "inj_on (lib_sha256 demo_lib) X" for X by (simp add: demo_lib_def)
  moreover have "canonical_json (lib_to_string demo_lib) (lib_jsonb demo_lib (na_detail demo_new))
      = canonical_json (lib_to_string demo_lib) (na_detail demo_new)"
    by (simp add: demo_lib_def)
  ultimately have "verify_chain demo_lib (na_community demo_new) (ae_seq e) (ae_seq e) tbl'
      = Err (HashMismatch (ae_seq e))"
    by (intro rounded_instant_rejected [OF run])
  then show ?thesis using run by (auto simp: demo_new_def)
qed

section \<open>Communities and pages\<close>

lemma collect_results_Ok: "collect_results (map Ok xs) = Ok xs"
  by (induction xs) simp_all

text \<open>
  Chains are isolated. An append to one community changes nothing that verification or
  reading of another community returns, whatever the table holds; and reading a community returns its
  entries only.
\<close>

theorem audit_communities_isolated:
  "(na_community new = c \<or>
      verify_chain lib' c a b (fst (log_entry lib fails now new tbl)) = verify_chain lib' c a b tbl
      \<and> get_entries c a b (fst (log_entry lib fails now new tbl)) = get_entries c a b tbl)
   \<and> (case get_entries c a b tbl of Inr es \<Rightarrow> list_all (\<lambda>e. ae_community e = c) es | Inl _ \<Rightarrow> True)"
proof -
  have other: "verify_chain lib' c a b (fst (log_entry lib fails now new tbl)) = verify_chain lib' c a b tbl
      \<and> get_entries c a b (fst (log_entry lib fails now new tbl)) = get_entries c a b tbl"
    if ne: "na_community new \<noteq> c"
  proof -
    have "own_rows c (fst (log_entry lib fails now new tbl)) = own_rows c tbl"
      using ne by (cases rule: log_entry_cases [of lib fails now new tbl]) simp_all
    then show ?thesis
      by (simp add: community_rows_def verify_chain_def range_rows_def get_entries_def)
  qed
  have own: "list_all (\<lambda>e. ae_community e = c) es"
    if "collect_results (map row_to_audit_entry rs) = Ok es" "\<forall>r\<in>set rs. ar_community r = c" for rs es
    using that by (induction rs arbitrary: es) (auto dest: row_entry_fields(1))
  have "\<forall>r\<in>set (take k (filter P (community_rows c tbl))). ar_community r = c" for k P
    by (auto simp: community_rows_def dest!: in_set_takeD)
  then have "case get_entries c a b tbl of Inr es \<Rightarrow> list_all (\<lambda>e. ae_community e = c) es | Inl _ \<Rightarrow> True"
    unfolding get_entries_def by (auto split: sum.split elim!: own)
  with other show ?thesis by blast
qed

lemma audit_run_parse:
  "list_all (\<lambda>r. is_ok (row_to_audit_entry r)) (audit_run lib ops)"
proof -
  have "list_all (\<lambda>r. is_ok (row_to_audit_entry r)) (fold (audit_step lib) ops tbl)"
    if "list_all (\<lambda>r. is_ok (row_to_audit_entry r)) tbl" for tbl
    using that
  proof (induction ops arbitrary: tbl)
    case (Cons a ops)
    obtain fails now new where a: "a = LogOp fails now new" by (cases a)
    have "list_all (\<lambda>r. is_ok (row_to_audit_entry r)) (audit_step lib a tbl)"
      using Cons.prems by (cases rule: log_entry_cases [of lib fails now new tbl]) (simp_all add: a)
    then show ?case using Cons by simp
  qed simp
  then show ?thesis by (simp add: audit_run_def)
qed

lemma collect_parsed:
  assumes "list_all (\<lambda>r. is_ok (row_to_audit_entry r)) rs"
  shows "collect_results (map row_to_audit_entry rs) = Ok (map (projr \<circ> row_to_audit_entry) rs)"
  using assms by (induction rs) (auto simp: is_ok_iff)

lemma filter_ge_drop:
  fixes f :: "'a \<Rightarrow> int"
  assumes "map f xs = map int [m ..< m + length xs]"
  shows "filter (\<lambda>x. int (m + i) \<le> f x) xs = drop i xs"
  using assms
proof (induction xs arbitrary: m i)
  case (Cons x xs)
  have fx: "f x = int m" and rest: "map f xs = map int [Suc m ..< Suc m + length xs]"
    using Cons.prems by (simp_all add: upt_conv_Cons del: upt_Suc)
  show ?case
  proof (cases i)
    case 0
    have "\<forall>y\<in>set xs. int m \<le> f y"
    proof
      fix y assume "y \<in> set xs"
      then have "f y \<in> set (map f xs)" by simp
      then show "int m \<le> f y" unfolding rest by auto
    qed
    then show ?thesis by (simp add: 0 fx)
  next
    case (Suc j)
    then show ?thesis using Cons.IH [OF rest, of j] by (simp add: fx)
  qed
qed simp

text \<open>
  Pages. Reading a reachable chain from sequence number \<open>i + 1\<close> with limit \<open>k\<close> returns
  exactly its entries \<open>i + 1 .. i + k\<close> in order, so consecutive pages are the whole log with nothing skipped
  or repeated; a negative limit is an error of the database.
\<close>

theorem get_entries_page:
  assumes "length ops < 2 ^ 63" "i < 2 ^ 63 - 1" "k < 2 ^ 63"
  shows "get_entries c (of_nat (Suc i)) (of_nat k) (audit_run lib ops)
     = Ok (take k (drop i (map (projr \<circ> row_to_audit_entry) (own_rows c (audit_run lib ops)))))"
proof -
  let ?own = "own_rows c (audit_run lib ops)"
  have k: "sint (of_nat k :: i64) = int k" and i: "sint (of_nat (Suc i) :: i64) = int (1 + i)"
    using assms(2,3) by (simp_all add: i64_of_nat del: of_nat_Suc)
  have "filter (\<lambda>r. int (1 + i) \<le> sint (ar_seq r)) ?own = drop i ?own"
    by (rule filter_ge_drop [OF audit_run_seqs [OF assms(1)]])
  moreover have "list_all (\<lambda>r. is_ok (row_to_audit_entry r)) (take k (drop i ?own))"
    using audit_run_parse [of lib ops] by (auto simp: list_all_iff dest!: in_set_takeD in_set_dropD)
  ultimately show ?thesis
    by (simp add: get_entries_def k i audit_run_rows [OF assms(1)] collect_parsed take_map drop_map
        del: of_nat_Suc)
qed

theorem get_entries_page_witness:
  "get_entries nil_uuid (of_nat (Suc 0)) (of_nat 1) (audit_run demo_lib demo_ops)
     = Ok (take 1 (drop 0 (map (projr \<circ> row_to_audit_entry) (own_rows nil_uuid (audit_run demo_lib demo_ops)))))"
proof -
  have "length demo_ops < 2 ^ 63" by (simp add: demo_ops_def)
  then show ?thesis by (rule get_entries_page) simp_all
qed

end
