(* ===== verification/AuditTamper.thy ===== *)
theory AuditTamper
  imports AuditLog
begin

text \<open>
  What the hash chain of \<open>AuditLog\<close> protects. The hashed bytes of \<open>compute_hash\<close> are a plain
  concatenation, without lengths: \<open>hash_input_injective\<close> says for which entries the concatenation
  determines the fields (\<open>plain_entry\<close>: a 32-byte key, an object detail, an object id without an opening
  brace), \<open>audit_boundary_ambiguous\<close> that outside them it does not. \<open>audit_tamper_evident\<close> is the
  promise of the chain: two segments that verify and end in the same hash agree, row by row, from the end.
\<close>

section \<open>Splitting a concatenation\<close>

lemma split_at_first:
  assumes "xs @ y # ys = xs' @ y' # ys'"
    and "list_all P xs" "list_all P xs'" "\<not> P y" "\<not> P y'"
  shows "xs = xs'" "y # ys = y' # ys'"
proof -
  have tw: "takeWhile P (zs @ z # zs') = zs" if "list_all P zs" "\<not> P z" for zs z zs'
    using that by (simp add: list_all_iff takeWhile_append2)
  show "xs = xs'" using tw [of xs y ys] tw [of xs' y' ys'] assms by simp
  then show "y # ys = y' # ys'" using assms(1) by simp
qed

section \<open>Which entries the hash determines\<close>

definition lower_byte :: "8 word \<Rightarrow> bool" where
  "lower_byte b \<longleftrightarrow> 95 \<le> unat b \<and> unat b \<le> 122"

text \<open>
  \<open>plain_clock\<close> is what an RFC 3339 text has: digits, \<open>-\<close>, \<open>:\<close>, \<open>.\<close>, \<open>+\<close> and a capital T, no
  underscore or lower-case letter; and instants with the same text are the same.
\<close>

definition plain_clock :: "audit_lib \<Rightarrow> bool" where
  "plain_clock lib \<longleftrightarrow> inj (lib_rfc3339 lib)
     \<and> (\<forall>t. list_all (\<lambda>b. \<not> lower_byte b) (str_bytes (lib_rfc3339 lib t)))"

definition plain_entry :: "audit_entry \<Rightarrow> bool" where
  "plain_entry e \<longleftrightarrow>
     (case ae_actor_pubkey e of None \<Rightarrow> True | Some pk \<Rightarrow> length pk = 32)
     \<and> (case ae_object_id e of None \<Rightarrow> True | Some i \<Rightarrow> CHR ''{'' \<notin> set i)
     \<and> (case ae_detail e of JObject _ \<Rightarrow> True | _ \<Rightarrow> False)
     \<and> (case ae_prev_hash e of None \<Rightarrow> True | Some h \<Rightarrow> length h = 32)"

text \<open>What is hashed of an entry; a missing predecessor counts as the all-zero hash.\<close>

definition hashed_view ::
  "audit_lib \<Rightarrow> audit_entry
     \<Rightarrow> uuid \<times> i64 \<times> int \<times> audit_action \<times> bytes option \<times> string option \<times> (string + string) \<times> bytes" where
  "hashed_view lib e =
     (ae_community e, ae_seq e, ae_created_at e, ae_action e, ae_actor_pubkey e, ae_object_id e,
      canonical_json (lib_to_string lib) (ae_detail e),
      case ae_prev_hash e of Some h \<Rightarrow> h | None \<Rightarrow> GENESIS_HASH)"

lemma action_bytes: "list_all lower_byte (str_bytes (audit_action_as_str a))"
  by (cases a) (simp_all add: str_bytes_def lower_byte_def)

lemma action_cons: "\<exists>b bs. str_bytes (audit_action_as_str a) = b # bs \<and> lower_byte b"
  using action_bytes [of a] by (cases a) (auto simp: str_bytes_def)

lemma tagged_cons: "\<exists>b bs. tagged x = b # bs \<and> \<not> lower_byte b"
  by (cases x) (simp_all add: lower_byte_def)

lemma fields_text_prefix:
  "fields_text ser m first out = Ok t \<Longrightarrow> \<exists>s. t = out @ s"
  by (induction ser m first out arbitrary: t rule: fields_text.induct) fastforce+

lemma canonical_object_brace:
  assumes "canonical_json ser (JObject m) = Ok t"
  shows "\<exists>t'. str_bytes t = 123 # t'"
proof -
  from assms obtain s where "fields_text ser (sort_key fst (map (map_prod (\<lambda>k. k) (canonical_json ser)) m)) True ''{'' = Ok s"
    "t = s @ ''}''"
    unfolding canonical_object_text by auto
  from fields_text_prefix [OF this(1)] this(2) show ?thesis by (auto simp: str_bytes_def)
qed

lemma plain_detail_text:
  assumes "plain_entry e" "canonical_json ser (ae_detail e) = Ok t"
  shows "\<exists>t'. str_bytes t = 123 # t'"
proof -
  from assms(1) obtain m where "ae_detail e = JObject m"
    by (auto simp: plain_entry_def split: json.splits)
  then show ?thesis using canonical_object_brace assms(2) by simp
qed

lemma tagged_key_split:
  assumes "tagged p @ xs = tagged p' @ xs'"
    and "case p of None \<Rightarrow> True | Some k \<Rightarrow> length k = 32" "case p' of None \<Rightarrow> True | Some k \<Rightarrow> length k = 32"
  shows "p = p'" "xs = xs'"
  using assms by (auto split: option.splits)

lemma tagged_object_split:
  assumes eq: "tagged (map_option str_bytes i) @ 123 # xs = tagged (map_option str_bytes i') @ 123 # xs'"
    and ok: "case i of None \<Rightarrow> True | Some s \<Rightarrow> CHR ''{'' \<notin> set s"
      "case i' of None \<Rightarrow> True | Some s \<Rightarrow> CHR ''{'' \<notin> set s"
  shows "i = i'" "xs = xs'"
proof -
  have no_brace: "list_all (\<lambda>b. b \<noteq> 123) (str_bytes s)" if "CHR ''{'' \<notin> set s" for s
  proof -
    have "(of_char c :: 8 word) \<noteq> 123" if "c \<in> set s" for c
      using that \<open>CHR ''{'' \<notin> set s\<close> of_char_byte_eq [of c "CHR ''{''"] by auto
    then show ?thesis by (auto simp: list_all_iff str_bytes_def)
  qed
  show "i = i'"
  proof (cases i; cases i')
    fix s s' assume i: "i = Some s" "i' = Some s'"
    then have "str_bytes s @ 123 # xs = str_bytes s' @ 123 # xs'" using eq by simp
    from split_at_first(1) [OF this no_brace no_brace] show ?thesis using i ok by simp
  qed (use eq in simp_all)
  then show "xs = xs'" using eq by simp
qed

text \<open>
  What a hash covers. For entries with 32-byte keys, object details and object ids without an
  opening brace, the hashed bytes determine the community, number, instant, action, actor, object, canonical
  detail and predecessor hash.
\<close>

theorem hash_input_injective:
  assumes clock: "plain_clock lib" and plain: "plain_entry e" "plain_entry e'"
    and x: "hash_input lib e = Ok x" "hash_input lib e' = Ok x"
  shows "hashed_view lib e = hashed_view lib e'"
proof -
  let ?prev = "\<lambda>e. case ae_prev_hash e of Some h \<Rightarrow> h | None \<Rightarrow> GENESIS_HASH"
  let ?act = "\<lambda>e. str_bytes (audit_action_as_str (ae_action e))"
  let ?obj = "\<lambda>e. tagged (map_option str_bytes (ae_object_id e))"
  let ?clock = "\<lambda>e. str_bytes (lib_rfc3339 lib (ae_created_at e))"
  obtain t t' where t: "canonical_json (lib_to_string lib) (ae_detail e) = Ok t"
      "canonical_json (lib_to_string lib) (ae_detail e') = Ok t'"
    using x by (auto simp: hash_input_def split: sum.splits)
  obtain s s' where s: "str_bytes t = 123 # s" "str_bytes t' = 123 # s'"
    using plain_detail_text plain t by metis
  have prev: "length (?prev e) = 32" "length (?prev e') = 32"
    using plain by (auto simp: plain_entry_def GENESIS_HASH_def split: option.splits)
  have all: "uuid_bytes (ae_community e) @ be_bytes 8 (ae_seq e) @ ?clock e @ ?act e
        @ tagged (ae_actor_pubkey e) @ ?obj e @ (123 # s) @ ?prev e
      = uuid_bytes (ae_community e') @ be_bytes 8 (ae_seq e') @ ?clock e' @ ?act e'
        @ tagged (ae_actor_pubkey e') @ ?obj e' @ (123 # s') @ ?prev e'"
    using x by (simp add: hash_input_def t s)
  have comm: "ae_community e = ae_community e'"
    and r0: "be_bytes 8 (ae_seq e) @ ?clock e @ ?act e @ tagged (ae_actor_pubkey e) @ ?obj e @ (123 # s) @ ?prev e
      = be_bytes 8 (ae_seq e') @ ?clock e' @ ?act e' @ tagged (ae_actor_pubkey e') @ ?obj e' @ (123 # s') @ ?prev e'"
    using append_eq_append_conv [THEN iffD1, OF _ all] by simp_all
  have seq: "ae_seq e = ae_seq e'" by (rule be_bytes_split(1) [OF r0]) simp
  have r1: "?clock e @ ?act e @ tagged (ae_actor_pubkey e) @ ?obj e @ (123 # s) @ ?prev e
      = ?clock e' @ ?act e' @ tagged (ae_actor_pubkey e') @ ?obj e' @ (123 # s') @ ?prev e'"
    by (rule be_bytes_split(2) [OF r0]) simp
  obtain a as a' as' where a: "?act e = a # as" "lower_byte a" "?act e' = a' # as'" "lower_byte a'"
    using action_cons by metis
  have nl: "list_all (\<lambda>b. \<not> lower_byte b) (?clock e)" "list_all (\<lambda>b. \<not> lower_byte b) (?clock e')"
    using clock by (simp_all add: plain_clock_def)
  note r1' = r1 [unfolded a append_Cons]
  have time: "?clock e = ?clock e'"
    by (rule split_at_first(1) [OF r1' nl]) (use a in simp_all)
  have r2: "?act e @ tagged (ae_actor_pubkey e) @ ?obj e @ (123 # s) @ ?prev e
      = ?act e' @ tagged (ae_actor_pubkey e') @ ?obj e' @ (123 # s') @ ?prev e'"
    unfolding a append_Cons by (rule split_at_first(2) [OF r1' nl]) (use a in simp_all)
  obtain b bs b' bs' where b: "tagged (ae_actor_pubkey e) = b # bs" "\<not> lower_byte b"
      "tagged (ae_actor_pubkey e') = b' # bs'" "\<not> lower_byte b'"
    using tagged_cons by metis
  note r2' = r2 [unfolded b append_Cons]
  have act: "?act e = ?act e'"
    by (rule split_at_first(1) [OF r2' action_bytes action_bytes]) (use b in simp_all)
  have r3: "tagged (ae_actor_pubkey e) @ ?obj e @ (123 # s) @ ?prev e
      = tagged (ae_actor_pubkey e') @ ?obj e' @ (123 # s') @ ?prev e'"
    unfolding b append_Cons
    by (rule split_at_first(2) [OF r2' action_bytes action_bytes]) (use b in simp_all)
  have pk: "ae_actor_pubkey e = ae_actor_pubkey e'"
    and r4: "?obj e @ 123 # (s @ ?prev e) = ?obj e' @ 123 # (s' @ ?prev e')"
    using tagged_key_split [OF r3] plain by (simp_all add: plain_entry_def)
  have obj: "ae_object_id e = ae_object_id e'" and r5: "s @ ?prev e = s' @ ?prev e'"
    using tagged_object_split [OF r4] plain by (simp_all add: plain_entry_def)
  have "s = s'" "?prev e = ?prev e'" using r5 prev by (simp_all add: append_eq_append_conv)
  then have "t = t'" using s by (metis str_bytes_eq)
  then show ?thesis
    using comm seq time act pk obj \<open>?prev e = ?prev e'\<close> clock t
    by (simp add: hashed_view_def plain_clock_def inj_eq)
qed

section \<open>Tampering\<close>

definition row_view ::
  "audit_lib \<Rightarrow> audit_row \<Rightarrow> (uuid \<times> i64 \<times> int \<times> audit_action \<times> bytes option \<times> string option
     \<times> (string + string) \<times> bytes) option" where
  "row_view lib r =
     (case row_to_audit_entry r of Inr e \<Rightarrow> Some (hashed_view lib e) | Inl _ \<Rightarrow> None)"

definition plain_row :: "audit_row \<Rightarrow> bool" where
  "plain_row r = (case row_to_audit_entry r of Inr e \<Rightarrow> plain_entry e | Inl _ \<Rightarrow> False)"

definition row_inputs :: "audit_lib \<Rightarrow> audit_row list \<Rightarrow> bytes set" where
  "row_inputs lib rows =
     {x. \<exists>r\<in>set rows. \<exists>e. row_to_audit_entry r = Ok e \<and> hash_input lib e = Ok x}"

lemma same_hash_same_view:
  assumes "plain_clock lib" "row_hashes lib r" "row_hashes lib r'" "plain_row r" "plain_row r'"
    and "inj_on (lib_sha256 lib) (row_inputs lib rows)" "r \<in> set rows" "r' \<in> set rows"
    and "ar_hash r = ar_hash r'"
  obtains e e' where "row_to_audit_entry r = Ok e" "row_to_audit_entry r' = Ok e'"
    "hashed_view lib e = hashed_view lib e'"
proof -
  obtain e e' x x' where e: "row_to_audit_entry r = Ok e" "row_to_audit_entry r' = Ok e'"
    and x: "hash_input lib e = Ok x" "hash_input lib e' = Ok x'"
    and h: "lib_sha256 lib x = ar_hash r" "lib_sha256 lib x' = ar_hash r'"
    using assms(2,3) by (auto simp: row_hashes_def compute_hash_def)
  have "x \<in> row_inputs lib rows" "x' \<in> row_inputs lib rows"
    using e x assms(7,8) by (auto simp: row_inputs_def)
  then have "x = x'" using assms(6,9) h by (auto simp: inj_on_def)
  moreover have "plain_entry e" "plain_entry e'" using assms(4,5) e by (simp_all add: plain_row_def)
  ultimately show ?thesis using that [OF e] hash_input_injective [OF assms(1)] x by blast
qed

lemma same_end_same_rows:
  assumes "plain_clock lib" "inj_on (lib_sha256 lib) (row_inputs lib all_rows)"
    and "list_all (row_hashes lib) rows" "list_all plain_row rows" "successively links_to rows"
    and "list_all (row_hashes lib) rows'" "list_all plain_row rows'" "successively links_to rows'"
    and "set rows \<subseteq> set all_rows" "set rows' \<subseteq> set all_rows"
    and "length rows' \<le> length rows" "rows' \<noteq> []" "ar_hash (last rows) = ar_hash (last rows')"
  shows "map (row_view lib) rows' = drop (length rows - length rows') (map (row_view lib) rows)"
  using assms(3-)
proof (induction rows' arbitrary: rows rule: rev_induct)
  case (snoc r' xs')
  then obtain xs r where rows: "rows = xs @ [r]" by (cases rows rule: rev_cases) auto
  obtain e e' where e: "row_to_audit_entry r = Ok e" "row_to_audit_entry r' = Ok e'"
      "hashed_view lib e = hashed_view lib e'"
    by (rule same_hash_same_view [OF assms(1) _ _ _ _ assms(2), of r r'])
      (use snoc.prems in \<open>auto simp: rows\<close>)
  have view: "row_view lib r' = row_view lib r" by (simp add: row_view_def e)
  show ?case
  proof (cases "xs' = []")
    case True
    then show ?thesis by (simp add: rows view)
  next
    case False
    with snoc.prems(9) have ne: "xs \<noteq> []" by (auto simp: rows)
    have "ar_prev_hash r = Some (ar_hash (last xs))" "ar_prev_hash r' = Some (ar_hash (last xs'))"
      using snoc.prems(3,6) ne False by (auto simp: rows successively_append_iff links_to_def)
    then have "ar_hash (last xs) = ar_hash (last xs')"
      using e by (auto simp: hashed_view_def row_entry_fields(4) [OF e(1)] row_entry_fields(4) [OF e(2)])
    then have "map (row_view lib) xs' = drop (length xs - length xs') (map (row_view lib) xs)"
      using snoc.prems False ne
      by (intro snoc.IH) (auto simp: rows successively_append_iff)
    then show ?thesis using snoc.prems(9) by (simp add: rows view)
  qed
qed simp

text \<open>
  C37 (Tampering with plain rows shows). Let all rows of two segments be plain: keys and predecessor hashes of 32
  bytes where there are any, a detail that is a JSON object, and no opening brace in the object id; and let the text
  of an instant determine the instant. If both segments verify and end in the same hash,
  the shorter one equals the end of the longer one in everything that is hashed, community and numbers included:
  under a digest without collisions on these rows, nobody can alter, insert, drop or reorder plain rows before a
  head hash that is known. For rows that are not plain this is false (\<open>audit_boundary_ambiguous\<close>).
\<close>

theorem audit_tamper_evident:
  assumes "plain_clock lib"
    and "inj_on (lib_sha256 lib) (row_inputs lib (range_rows c a b tbl @ range_rows c' a' b' tbl'))"
    and "list_all plain_row (range_rows c a b tbl)" "list_all plain_row (range_rows c' a' b' tbl')"
    and "verify_chain lib c a b tbl = Ok True" "verify_chain lib c' a' b' tbl' = Ok True"
    and "length (range_rows c' a' b' tbl') \<le> length (range_rows c a b tbl)"
    and "ar_hash (last (range_rows c a b tbl)) = ar_hash (last (range_rows c' a' b' tbl'))"
  shows "map (row_view lib) (range_rows c' a' b' tbl')
    = drop (length (range_rows c a b tbl) - length (range_rows c' a' b' tbl'))
        (map (row_view lib) (range_rows c a b tbl))"
proof -
  have ok: "list_all (row_hashes lib) rs \<and> successively links_to rs \<and> rs \<noteq> []"
    if "verify_chain lib d x y t = Ok True" "rs = range_rows d x y t" for d x y t rs
    using that by (auto simp: verify_chain_def Let_def verify_rows_iff split: if_splits)
  show ?thesis
    by (rule same_end_same_rows [OF assms(1,2)])
      (use assms ok [OF assms(5) refl] ok [OF assms(6) refl] in simp_all)
qed

text \<open>
  Fields the hash runs together. Moving the last character of an object id to the front of
  a numeric detail, or replacing a missing predecessor hash by the all-zero one, changes the row and leaves its
  hash: verification accepts both, for any digest.
\<close>

theorem audit_boundary_ambiguous:
  assumes "lib_to_string lib (JNumber n) = Ok n" "lib_to_string lib (JNumber (d # n)) = Ok (d # n)"
  shows "compute_hash lib (e\<lparr>ae_object_id := Some (i @ [d]), ae_detail := JNumber n\<rparr>)
      = compute_hash lib (e\<lparr>ae_object_id := Some i, ae_detail := JNumber (d # n)\<rparr>)
    \<and> compute_hash lib (e\<lparr>ae_prev_hash := None\<rparr>) = compute_hash lib (e\<lparr>ae_prev_hash := Some GENESIS_HASH\<rparr>)"
  using assms by (simp add: compute_hash_def hash_input_def str_bytes_def split: sum.split)

theorem audit_boundary_ambiguous_witness:
  "compute_hash demo_lib ((next_entry 1000 demo_new [])\<lparr>ae_object_id := Some (''msg'' @ ''1''), ae_detail := JNumber ''5''\<rparr>)
     = compute_hash demo_lib ((next_entry 1000 demo_new [])\<lparr>ae_object_id := Some ''msg'', ae_detail := JNumber (CHR ''1'' # ''5'')\<rparr>)"
proof -
  have "lib_to_string demo_lib (JNumber n) = Ok n" for n by (simp add: demo_lib_def demo_ser_def)
  from audit_boundary_ambiguous [OF this this] show ?thesis by blast
qed

text \<open>
  A library with an injective clock rendering, and two one-row tables whose rows differ only in the
  spelling of the missing predecessor.
\<close>

definition clock_lib :: audit_lib where
  "clock_lib = demo_lib\<lparr>lib_rfc3339 := show_int\<rparr>"

definition first_entry :: "bytes option \<Rightarrow> audit_entry" where
  "first_entry prev =
     \<lparr>ae_community = nil_uuid, ae_seq = 1, ae_hash = [], ae_prev_hash = prev, ae_action = EventCreated,
      ae_actor_pubkey = Some (replicate 32 9), ae_object_id = Some ''ab'', ae_detail = JObject [],
      ae_created_at = 1000\<rparr>"

definition first_row :: "bytes option \<Rightarrow> audit_row" where
  "first_row prev = stored_row clock_lib ((first_entry prev)
     \<lparr>ae_hash := projr (hash_input clock_lib (first_entry prev))\<rparr>)"

lemma digit_not_lower: "is_digit c \<Longrightarrow> \<not> lower_byte (of_char c)"
  by (auto simp: is_digit_def lower_byte_def)

lemma digits_plain: "list_all (\<lambda>b. \<not> lower_byte b) (map of_char (show_nat n))"
  unfolding list_all_iff using show_nat_digits digit_not_lower by fastforce

lemma clock_lib_plain: "plain_clock clock_lib"
proof -
  have "inj show_int" by (rule injI) simp
  moreover have "\<not> lower_byte (of_char CHR ''-'')" by (simp add: lower_byte_def)
  then have "list_all (\<lambda>b. \<not> lower_byte b) (str_bytes (show_int t))" for t
    using digits_plain unfolding show_int_def str_bytes_def by simp
  ultimately show ?thesis by (simp add: plain_clock_def clock_lib_def)
qed

lemma first_input: "hash_input clock_lib (first_entry prev) =
    Ok (projr (hash_input clock_lib (first_entry prev)))"
  by (simp add: hash_input_def first_entry_def)

lemma first_row_entry:
  "row_to_audit_entry (first_row prev)
     = Ok ((first_entry prev)\<lparr>ae_hash := projr (hash_input clock_lib (first_entry prev))\<rparr>)"
  by (simp add: first_row_def read_back_def clock_lib_def demo_lib_def first_entry_def)

lemma first_hash_input:
  "hash_input lib ((first_entry prev)\<lparr>ae_hash := h\<rparr>) = hash_input lib (first_entry prev)"
  by (simp add: hash_input_def first_entry_def)

lemma first_row_range: "range_rows nil_uuid 1 1 [first_row prev] = [first_row prev]"
  by (simp add: range_rows_def community_rows_def first_row_def first_entry_def)

lemma first_row_verifies: "verify_chain clock_lib nil_uuid 1 1 [first_row prev] = Ok True"
proof -
  obtain x where "hash_input clock_lib (first_entry prev) = Ok x" using first_input by metis
  moreover have "lib_sha256 clock_lib = (\<lambda>x. x)" by (simp add: clock_lib_def demo_lib_def)
  ultimately show ?thesis
    by (simp add: verify_chain_def first_row_range first_row_entry first_hash_input compute_hash_def)
qed

lemma genesis_same_input:
  "hash_input clock_lib (first_entry None) = hash_input clock_lib (first_entry (Some GENESIS_HASH))"
  by (simp add: hash_input_def first_entry_def)

theorem audit_tamper_evident_witness:
  "map (row_view clock_lib) [first_row (Some GENESIS_HASH)] = map (row_view clock_lib) [first_row None]"
proof -
  note r = first_row_range [of None] first_row_range [of "Some GENESIS_HASH"]
  obtain x where x: "hash_input clock_lib (first_entry None) = Ok x" using first_input by metis
  have "row_inputs clock_lib ([first_row None] @ [first_row (Some GENESIS_HASH)]) = {x}"
    by (auto simp: row_inputs_def first_row_entry first_hash_input x simp flip: genesis_same_input)
  then have "inj_on (lib_sha256 clock_lib)
      (row_inputs clock_lib (range_rows nil_uuid 1 1 [first_row None] @ range_rows nil_uuid 1 1 [first_row (Some GENESIS_HASH)]))"
    by (simp only: r) simp
  moreover have "plain_row (first_row p)" if "p \<in> {None, Some GENESIS_HASH}" for p
    using that by (auto simp: plain_row_def first_row_entry plain_entry_def first_entry_def GENESIS_HASH_def)
  moreover have "ar_hash (first_row None) = ar_hash (first_row (Some GENESIS_HASH))"
    by (simp add: first_row_def genesis_same_input)
  ultimately show ?thesis
    using audit_tamper_evident [OF clock_lib_plain, of nil_uuid 1 1 "[first_row None]" nil_uuid 1 1
        "[first_row (Some GENESIS_HASH)]"]
    by (simp add: r first_row_verifies)
qed

theorem hash_input_injective_witness:
  "hashed_view clock_lib (first_entry None) = hashed_view clock_lib (first_entry (Some GENESIS_HASH))"
proof (rule hash_input_injective [OF clock_lib_plain])
  show "hash_input clock_lib (first_entry None) = Ok (projr (hash_input clock_lib (first_entry None)))"
    by (rule first_input)
  show "hash_input clock_lib (first_entry (Some GENESIS_HASH))
      = Ok (projr (hash_input clock_lib (first_entry None)))"
    unfolding genesis_same_input by (rule first_input)
qed (simp_all add: plain_entry_def first_entry_def GENESIS_HASH_def)

end
