(* ===== verification/TunnelDirectory.thy ===== *)
theory TunnelDirectory
  imports RedisStore PairingQr
begin

text \<open>
  The fenced session directory of \<open>crates/buzz-relay/src/tunnel/directory.rs\<close>: who owns a tunnel or
  huddle session, arbitrated by Redis. A lease is a key with an expiry whose value is
  \<open>owner|generation|profile\<close>; the generation comes from a companion counter that never expires. The four
  embedded Lua scripts run atomically and are functions over the store; \<open>acquire\<close>, \<open>renew\<close>, \<open>release\<close>,
  \<open>lookup\<close> and \<open>validate_fenced_header\<close> parse what they return.

  The abstract specification is one \<open>slot\<close> per session: the highest generation handed out and the
  holder, if any. \<open>represents\<close> relates the store to the slots; every operation of the directory
  refines the slot operation (\<open>dir_step_refines\<close>), and the fencing properties are proved on the slots.

  Parameters (record \<open>dir_lib\<close>, laws \<open>dir_laws\<close>): the text of a UUID, hex, and Lua's rendering of
  a number, which is decimal below \<open>10^14\<close>. Time is the store's clock in milliseconds.
\<close>

section \<open>Profiles, leases and errors\<close>

datatype profile = ReliableStream | RealtimeMedia | HuddleControl

fun profile_as_wire_str :: "profile \<Rightarrow> string" where
  "profile_as_wire_str ReliableStream = ''reliable-stream''"
| "profile_as_wire_str RealtimeMedia = ''realtime-media''"
| "profile_as_wire_str HuddleControl = ''huddle-control''"

definition profile_from_wire :: "string \<Rightarrow> profile option" where
  "profile_from_wire v =
     (if v = ''reliable-stream'' then Some ReliableStream
      else if v = ''realtime-media'' then Some RealtimeMedia
      else if v = ''huddle-control'' then Some HuddleControl
      else None)"

interpretation profile: string_codec profile_as_wire_str "\<lambda>v. ok_or () (profile_from_wire v)"
proof unfold_locales
  fix p show "ok_or () (profile_from_wire (profile_as_wire_str p)) = Ok p"
    by (cases p) (simp_all add: profile_from_wire_def)
next
  fix v p assume "ok_or () (profile_from_wire v) = Ok p"
  then show "profile_as_wire_str p = v" by (auto simp: profile_from_wire_def split: if_splits)
qed

record fenced_header =
  fh_session :: uuid
  fh_generation :: u64
  fh_owner :: runtime_id

record session_lease =
  sl_community :: uuid
  sl_session :: uuid
  sl_owner :: runtime_id
  sl_generation :: u64
  sl_profile :: profile

definition lease_fenced_header :: "session_lease \<Rightarrow> fenced_header" where
  "lease_fenced_header l =
     \<lparr>fh_session = sl_session l, fh_generation = sl_generation l, fh_owner = sl_owner l\<rparr>"

datatype acquire_result = Acquired session_lease | Exists session_lease

datatype renew_result = Renewed session_lease | Lost "session_lease option" "u64 option"

datatype release_result = Released session_lease | NotOwner "session_lease option" "u64 option"

text \<open>\<open>ExpectFailed\<close> is the panic of the two \<open>expect\<close> calls.\<close>

datatype directory_error = PoolFailed | RedisFailed
  | MalformedLease uuid uuid string | MalformedGeneration uuid uuid string
  | UnexpectedScriptStatus string | InvalidLeaseTtl | ExpectFailed

datatype mesh_error = StaleGeneration uuid u64 u64
  | NoActiveLease uuid u64 u64 runtime_id
  | OwnerMismatch uuid u64 runtime_id runtime_id
  | FutureGeneration uuid u64 u64
  | Transport directory_error | MeshRedis
  | EncodeFailed | DecodeFailed | UnknownWireVersion u8 | EmptyFrame | FrameTooLarge nat nat
  | DatagramTooLarge nat nat | PeerNotConnected runtime_id | PeerDraining runtime_id | MeshDisabled

record dir_lib =
  dl_uuid :: "uuid \<Rightarrow> string"
  dl_hex :: "bytes \<Rightarrow> string"
  dl_unhex :: "string \<Rightarrow> bytes option"
  dl_lua_number :: "int \<Rightarrow> string"

definition to_hex :: "dir_lib \<Rightarrow> runtime_id \<Rightarrow> string" where
  "to_hex lib r = dl_hex lib (runtime_bytes r)"

section \<open>Keys and values\<close>

definition session_base :: "dir_lib \<Rightarrow> uuid \<Rightarrow> uuid \<Rightarrow> string" where
  "session_base lib community session =
     ''buzz:'' @ dl_uuid lib community @ '':tunnel:'' @ dl_uuid lib session"

definition lease_key :: "dir_lib \<Rightarrow> uuid \<Rightarrow> uuid \<Rightarrow> string" where
  "lease_key lib community session = session_base lib community session @ '':lease''"

definition generation_key :: "dir_lib \<Rightarrow> uuid \<Rightarrow> uuid \<Rightarrow> string" where
  "generation_key lib community session = session_base lib community session @ '':generation''"

definition parse_lease ::
  "dir_lib \<Rightarrow> uuid \<Rightarrow> uuid \<Rightarrow> string \<Rightarrow> directory_error + session_lease" where
  "parse_lease lib community session value =
     (let malformed = MalformedLease community session value
      in case split_on CHR ''|'' value of
           [owner_hex, gen, prof] \<Rightarrow>
             (case parse_u64 gen of
                None \<Rightarrow> Err malformed
              | Some g \<Rightarrow>
                  if g = 0 then Err malformed
                  else (case profile_from_wire prof of
                      None \<Rightarrow> Err malformed
                    | Some p \<Rightarrow>
                        (case dl_unhex lib owner_hex of
                           None \<Rightarrow> Err malformed
                         | Some b \<Rightarrow>
                             if length b \<noteq> 32 then Err malformed
                             else Ok \<lparr>sl_community = community, sl_session = session,
                                      sl_owner = mk_runtime b, sl_generation = g, sl_profile = p\<rparr>)))
         | _ \<Rightarrow> Err malformed)"

definition parse_optional_lease ::
  "dir_lib \<Rightarrow> uuid \<Rightarrow> uuid \<Rightarrow> string \<Rightarrow> directory_error + session_lease option" where
  "parse_optional_lease lib community session value =
     (if value = [] then Ok None
      else and_then (parse_lease lib community session value) (\<lambda>l. Ok (Some l)))"

definition parse_optional_generation ::
  "uuid \<Rightarrow> uuid \<Rightarrow> string \<Rightarrow> directory_error + u64 option" where
  "parse_optional_generation community session value =
     (if value = [] then Ok None
      else case parse_u64 value of
             None \<Rightarrow> Err (MalformedGeneration community session value)
           | Some g \<Rightarrow> if g = 0 then Err (MalformedGeneration community session value) else Ok (Some g))"

definition ttl_ms :: "nat \<Rightarrow> directory_error + nat" where
  "ttl_ms ttl = (if 0 < ttl \<and> ttl < 2 ^ 63 then Ok ttl else Err InvalidLeaseTtl)"

section \<open>The scripts\<close>

type_synonym reply = "string \<times> string \<times> string"

definition or_empty :: "string option \<Rightarrow> string" where
  "or_empty x = (case x of None \<Rightarrow> [] | Some v \<Rightarrow> v)"

definition acquire_script ::
  "dir_lib \<Rightarrow> string \<Rightarrow> string \<Rightarrow> string \<Rightarrow> string \<Rightarrow> nat \<Rightarrow> nat \<Rightarrow> redis \<Rightarrow> (redis \<times> reply) option" where
  "acquire_script lib lkey gkey owner prof ttl now st =
     (case redis_get now lkey st of
        Some current \<Rightarrow> Some (st, ''exists'', current, or_empty (redis_get now gkey st))
      | None \<Rightarrow>
          (case redis_incr now gkey st of
             None \<Rightarrow> None
           | Some (st, generation) \<Rightarrow>
               let value = owner @ ''|'' @ dl_lua_number lib generation @ ''|'' @ prof
               in Some (redis_set_px lkey value (now + ttl) st,
                        ''acquired'', value, dl_lua_number lib generation)))"

text \<open>The match \<open>^([^|]+)|([^|]+)|([^|]+)$\<close>.\<close>

definition lua_match_lease :: "string \<Rightarrow> (string \<times> string \<times> string) option" where
  "lua_match_lease v =
     (case split_on CHR ''|'' v of
        [a, b, c] \<Rightarrow> if a \<noteq> [] \<and> b \<noteq> [] \<and> c \<noteq> [] then Some (a, b, c) else None
      | _ \<Rightarrow> None)"

text \<open>\<open>renew\<close> and \<open>release\<close> share their test; \<open>on_own\<close> is the effect on an owned lease.\<close>

definition owned_script ::
  "string \<Rightarrow> (redis \<Rightarrow> redis) \<Rightarrow> string \<Rightarrow> string \<Rightarrow> string \<Rightarrow> string \<Rightarrow> nat \<Rightarrow> redis \<Rightarrow> (redis \<times> reply) option" where
  "owned_script status on_own lkey gkey owner generation now st =
     (case redis_get now lkey st of
        None \<Rightarrow> Some (st, ''missing'', [], or_empty (redis_get now gkey st))
      | Some current \<Rightarrow>
          let parts = lua_match_lease current;
              known = (case redis_get now gkey st of Some g \<Rightarrow> g
                       | None \<Rightarrow> or_empty (map_option (\<lambda>(_, g, _). g) parts))
          in if map_option (\<lambda>(o', g, _). (o', g)) parts = Some (owner, generation)
             then Some (on_own st, status, current, known)
             else Some (st, ''lost'', current, known))"

definition renew_script ::
  "string \<Rightarrow> string \<Rightarrow> string \<Rightarrow> string \<Rightarrow> nat \<Rightarrow> nat \<Rightarrow> redis \<Rightarrow> (redis \<times> reply) option" where
  "renew_script lkey gkey owner generation ttl now st =
     owned_script ''renewed'' (redis_pexpire lkey (now + ttl)) lkey gkey owner generation now st"

definition release_script ::
  "string \<Rightarrow> string \<Rightarrow> string \<Rightarrow> string \<Rightarrow> nat \<Rightarrow> redis \<Rightarrow> (redis \<times> reply) option" where
  "release_script lkey gkey owner generation now st =
     owned_script ''released'' (redis_del lkey) lkey gkey owner generation now st"

definition validate_script :: "string \<Rightarrow> string \<Rightarrow> nat \<Rightarrow> redis \<Rightarrow> string \<times> string" where
  "validate_script lkey gkey now st =
     (or_empty (redis_get now lkey st), or_empty (redis_get now gkey st))"

section \<open>The operations\<close>

definition run_script ::
  "net \<Rightarrow> (redis \<Rightarrow> (redis \<times> reply) option) \<Rightarrow> redis \<Rightarrow> redis \<times> (directory_error + reply)" where
  "run_script net script st =
     (case net of
        PoolDown \<Rightarrow> (st, Err PoolFailed)
      | NotSent \<Rightarrow> (st, Err RedisFailed)
      | ReplyLost \<Rightarrow> (case script st of None \<Rightarrow> (st, Err RedisFailed) | Some (st', _) \<Rightarrow> (st', Err RedisFailed))
      | NetOk \<Rightarrow> (case script st of None \<Rightarrow> (st, Err RedisFailed) | Some (st', r) \<Rightarrow> (st', Ok r)))"

definition acquire ::
  "dir_lib \<Rightarrow> net \<Rightarrow> nat \<Rightarrow> nat \<Rightarrow> uuid \<Rightarrow> uuid \<Rightarrow> runtime_id \<Rightarrow> profile \<Rightarrow> redis
     \<Rightarrow> redis \<times> (directory_error + acquire_result)" where
  "acquire lib net ttl now community session owner prof st =
     guarded (ttl_ms ttl) st (\<lambda>ms.
       let (st, reply) = run_script net (acquire_script lib (lease_key lib community session)
             (generation_key lib community session) (to_hex lib owner) (profile_as_wire_str prof) ms now) st
       in guarded reply st (\<lambda>(status, value, _).
            guarded (parse_lease lib community session value) st (\<lambda>lease.
              (st, if status = ''acquired'' then Ok (Acquired lease)
                   else if status = ''exists'' then Ok (Exists lease)
                   else Err (UnexpectedScriptStatus status)))))"

definition takeover ::
  "dir_lib \<Rightarrow> net \<Rightarrow> nat \<Rightarrow> nat \<Rightarrow> uuid \<Rightarrow> uuid \<Rightarrow> runtime_id \<Rightarrow> profile \<Rightarrow> redis
     \<Rightarrow> redis \<times> (directory_error + acquire_result)" where
  "takeover lib net ttl now community session owner prof st =
     acquire lib net ttl now community session owner prof st"

definition renew ::
  "dir_lib \<Rightarrow> net \<Rightarrow> nat \<Rightarrow> nat \<Rightarrow> session_lease \<Rightarrow> redis \<Rightarrow> redis \<times> (directory_error + renew_result)" where
  "renew lib net ttl now lease st =
     guarded (ttl_ms ttl) st (\<lambda>ms.
       let c = sl_community lease; s = sl_session lease;
           (st, reply) = run_script net (renew_script (lease_key lib c s) (generation_key lib c s)
             (to_hex lib (sl_owner lease)) (show_nat (unat (sl_generation lease))) ms now) st
       in guarded reply st (\<lambda>(status, value, known_generation).
            guarded (parse_optional_lease lib c s value) st (\<lambda>current.
              (st, if status = ''renewed''
                   then (case current of None \<Rightarrow> Err ExpectFailed | Some l \<Rightarrow> Ok (Renewed l))
                   else if status = ''missing'' \<or> status = ''lost''
                   then and_then (parse_optional_generation c s known_generation) (\<lambda>g. Ok (Lost current g))
                   else Err (UnexpectedScriptStatus status)))))"

definition release ::
  "dir_lib \<Rightarrow> net \<Rightarrow> nat \<Rightarrow> session_lease \<Rightarrow> redis \<Rightarrow> redis \<times> (directory_error + release_result)" where
  "release lib net now lease st =
     (let c = sl_community lease; s = sl_session lease;
          (st, reply) = run_script net (release_script (lease_key lib c s) (generation_key lib c s)
            (to_hex lib (sl_owner lease)) (show_nat (unat (sl_generation lease))) now) st
      in guarded reply st (\<lambda>(status, value, known_generation).
           guarded (parse_optional_lease lib c s value) st (\<lambda>current.
             (st, if status = ''released''
                  then (case current of None \<Rightarrow> Err ExpectFailed | Some l \<Rightarrow> Ok (Released l))
                  else if status = ''missing'' \<or> status = ''lost''
                  then and_then (parse_optional_generation c s known_generation) (\<lambda>g. Ok (NotOwner current g))
                  else Err (UnexpectedScriptStatus status)))))"

definition net_check :: "net \<Rightarrow> directory_error + unit" where
  "net_check net = (case net of NetOk \<Rightarrow> Ok () | PoolDown \<Rightarrow> Err PoolFailed | _ \<Rightarrow> Err RedisFailed)"

definition lookup ::
  "dir_lib \<Rightarrow> net \<Rightarrow> nat \<Rightarrow> uuid \<Rightarrow> uuid \<Rightarrow> redis \<Rightarrow> directory_error + session_lease option" where
  "lookup lib net now community session st =
     and_then (net_check net) (\<lambda>_.
       case redis_get now (lease_key lib community session) st of
         None \<Rightarrow> Ok None
       | Some v \<Rightarrow> and_then (parse_lease lib community session v) (\<lambda>l. Ok (Some l)))"

definition known_generation ::
  "dir_lib \<Rightarrow> net \<Rightarrow> nat \<Rightarrow> uuid \<Rightarrow> uuid \<Rightarrow> redis \<Rightarrow> directory_error + u64 option" where
  "known_generation lib net now community session st =
     and_then (net_check net) (\<lambda>_.
       case redis_get now (generation_key lib community session) st of
         Some v \<Rightarrow> parse_optional_generation community session v
       | None \<Rightarrow> Ok None)"

definition transport_err :: "directory_error + 'a \<Rightarrow> mesh_error + 'a" where
  "transport_err r = (case r of Inl e \<Rightarrow> Err (Transport e) | Inr a \<Rightarrow> Ok a)"

definition validate_fenced_header ::
  "dir_lib \<Rightarrow> net \<Rightarrow> nat \<Rightarrow> uuid \<Rightarrow> fenced_header \<Rightarrow> redis \<Rightarrow> mesh_error + unit" where
  "validate_fenced_header lib net now community fenced st =
     (let s = fh_session fenced; gen = fh_generation fenced;
          (lease_value, known_text) =
            validate_script (lease_key lib community s) (generation_key lib community s) now st
      in and_then (case net of NetOk \<Rightarrow> Ok () | PoolDown \<Rightarrow> Err (Transport PoolFailed) | _ \<Rightarrow> Err MeshRedis) (\<lambda>_.
         and_then (transport_err (parse_optional_generation community s known_text)) (\<lambda>counter.
         and_then (transport_err (parse_optional_lease lib community s lease_value)) (\<lambda>current.
           let from_counter = (case counter of None \<Rightarrow> 0 | Some g \<Rightarrow> g);
               known = max (case current of None \<Rightarrow> from_counter | Some l \<Rightarrow> sl_generation l) from_counter
           in if known > 0 \<and> gen < known then Err (StaleGeneration s gen known)
              else case current of
                None \<Rightarrow> Err (NoActiveLease s gen known (fh_owner fenced))
              | Some l \<Rightarrow>
                  if gen \<noteq> sl_generation l then Err (FutureGeneration s gen (sl_generation l))
                  else if fh_owner fenced \<noteq> sl_owner l
                  then Err (OwnerMismatch s gen (fh_owner fenced) (sl_owner l))
                  else Ok ()))))"

section \<open>Specification: one slot per session\<close>

record slot =
  slot_generation :: nat
  slot_holder :: "(runtime_id \<times> profile \<times> nat) option"

type_synonym slots = "uuid \<times> uuid \<Rightarrow> slot"

definition slot_live :: "nat \<Rightarrow> slot \<Rightarrow> bool" where
  "slot_live now sl = (case slot_holder sl of None \<Rightarrow> False | Some (_, _, t) \<Rightarrow> now < t)"

definition slot_held_by :: "nat \<Rightarrow> runtime_id \<Rightarrow> nat \<Rightarrow> slot \<Rightarrow> bool" where
  "slot_held_by now owner gen sl =
     (case slot_holder sl of None \<Rightarrow> False
      | Some (o', _, t) \<Rightarrow> now < t \<and> o' = owner \<and> slot_generation sl = gen)"

definition slot_acquire :: "nat \<Rightarrow> nat \<Rightarrow> runtime_id \<Rightarrow> profile \<Rightarrow> slot \<Rightarrow> slot" where
  "slot_acquire ttl now owner prof sl =
     (if slot_live now sl then sl
      else \<lparr>slot_generation = slot_generation sl + 1, slot_holder = Some (owner, prof, now + ttl)\<rparr>)"

definition slot_renew :: "nat \<Rightarrow> nat \<Rightarrow> runtime_id \<Rightarrow> nat \<Rightarrow> slot \<Rightarrow> slot" where
  "slot_renew ttl now owner gen sl =
     (if slot_held_by now owner gen sl
      then sl\<lparr>slot_holder := map_option (\<lambda>(o', p, _). (o', p, now + ttl)) (slot_holder sl)\<rparr> else sl)"

definition slot_release :: "nat \<Rightarrow> runtime_id \<Rightarrow> nat \<Rightarrow> slot \<Rightarrow> slot" where
  "slot_release now owner gen sl = (if slot_held_by now owner gen sl then sl\<lparr>slot_holder := None\<rparr> else sl)"

definition slot_lease :: "uuid \<Rightarrow> uuid \<Rightarrow> nat \<Rightarrow> slot \<Rightarrow> session_lease option" where
  "slot_lease c s now sl =
     (case slot_holder sl of None \<Rightarrow> None
      | Some (o', p, t) \<Rightarrow>
          if now < t then Some \<lparr>sl_community = c, sl_session = s, sl_owner = o',
            sl_generation = of_nat (slot_generation sl), sl_profile = p\<rparr> else None)"

definition slot_known :: "slot \<Rightarrow> u64 option" where
  "slot_known sl = (if slot_generation sl = 0 then None else Some (of_nat (slot_generation sl)))"

section \<open>Keys and values are unambiguous\<close>

definition dir_laws :: "dir_lib \<Rightarrow> bool" where
  "dir_laws lib \<longleftrightarrow> inj (dl_uuid lib) \<and> (\<forall>u. length (dl_uuid lib u) = 36)
     \<and> (\<forall>b. dl_unhex lib (dl_hex lib b) = Some b \<and> length (dl_hex lib b) = 2 * length b
            \<and> CHR ''|'' \<notin> set (dl_hex lib b))
     \<and> (\<forall>n<10 ^ 14. dl_lua_number lib (int n) = show_nat n)"

lemma dir_lawsD:
  assumes "dir_laws lib"
  shows "dl_uuid lib u = dl_uuid lib v \<longleftrightarrow> u = v" "length (dl_uuid lib u) = 36"
    "dl_unhex lib (dl_hex lib b) = Some b" "length (dl_hex lib b) = 2 * length b"
    "CHR ''|'' \<notin> set (dl_hex lib b)" "n < 10 ^ 14 \<Longrightarrow> dl_lua_number lib (int n) = show_nat n"
  using assms by (auto simp: dir_laws_def inj_eq)

lemma to_hex_facts:
  assumes "dir_laws lib"
  shows "to_hex lib r \<noteq> []" "CHR ''|'' \<notin> set (to_hex lib r)" "to_hex lib r = to_hex lib q \<longleftrightarrow> r = q"
proof -
  have "length (to_hex lib r) = 64" by (simp add: to_hex_def dir_lawsD(4) [OF assms])
  then show "to_hex lib r \<noteq> []" by auto
  show "CHR ''|'' \<notin> set (to_hex lib r)" by (simp add: to_hex_def dir_lawsD(5) [OF assms])
  show "to_hex lib r = to_hex lib q \<longleftrightarrow> r = q"
    unfolding to_hex_def by (metis dir_lawsD(3) [OF assms] option.inject runtime_bytes_inject)
qed

lemma session_base_eq:
  assumes "dir_laws lib"
  shows "session_base lib c s = session_base lib c' s' \<longleftrightarrow> c = c' \<and> s = s'"
proof -
  have "length (dl_uuid lib c) = length (dl_uuid lib c')" by (simp add: dir_lawsD(2) [OF assms])
  then show ?thesis by (auto simp: session_base_def dir_lawsD(1) [OF assms])
qed

lemma session_base_length: "dir_laws lib \<Longrightarrow> length (session_base lib c s) = 85"
  by (simp add: session_base_def dir_lawsD(2))

lemma key_eqs:
  assumes "dir_laws lib"
  shows "lease_key lib c s = lease_key lib c' s' \<longleftrightarrow> c = c' \<and> s = s'"
    "generation_key lib c s = generation_key lib c' s' \<longleftrightarrow> c = c' \<and> s = s'"
    "lease_key lib c s \<noteq> generation_key lib c' s'" "generation_key lib c s \<noteq> lease_key lib c' s'"
proof -
  have "length (lease_key lib c s) \<noteq> length (generation_key lib c' s')" for c s c' s'
    by (simp add: lease_key_def generation_key_def session_base_length [OF assms])
  then show "lease_key lib c s \<noteq> generation_key lib c' s'" "generation_key lib c s \<noteq> lease_key lib c' s'"
    by (metis)+
qed (simp_all add: lease_key_def generation_key_def session_base_eq [OF assms])

definition lease_text :: "dir_lib \<Rightarrow> runtime_id \<Rightarrow> nat \<Rightarrow> profile \<Rightarrow> string" where
  "lease_text lib owner gen prof =
     to_hex lib owner @ ''|'' @ show_nat gen @ ''|'' @ profile_as_wire_str prof"

lemma no_bar_show: "CHR ''|'' \<notin> set (show_nat n)"
  using show_nat_digits [of "CHR ''|''" n] by (auto simp: is_digit_def)

lemma no_bar_profile: "CHR ''|'' \<notin> set (profile_as_wire_str p)"
  by (cases p) simp_all

lemma split_lease_text:
  "dir_laws lib \<Longrightarrow> split_on CHR ''|'' (lease_text lib o' g p)
     = [to_hex lib o', show_nat g, profile_as_wire_str p]"
  by (simp add: lease_text_def split_on_append_sep split_on_single no_bar_show no_bar_profile
      to_hex_facts)

lemma profile_from_as [simp]: "profile_from_wire (profile_as_wire_str p) = Some p"
  by (cases p) (simp_all add: profile_from_wire_def)

lemma of_nat_u64_0: "0 < g \<Longrightarrow> g < 2 ^ 64 \<Longrightarrow> (of_nat g :: u64) \<noteq> 0"
  using u64_of_nat_inj [of g 0] by simp

lemma lease_text_not_Nil [simp]: "lease_text lib o' g p \<noteq> []"
  by (simp add: lease_text_def)

text \<open>
  Lease values. The value a lease is stored under reads back as that lease, for every owner,
  profile and non-zero generation of 64 bits, and the match of the Lua scripts takes it apart the same way.
\<close>

theorem lease_value_round_trip:
  assumes "dir_laws lib" "0 < g" "g < 2 ^ 64"
  shows "parse_lease lib c s (lease_text lib r g p)
      = Ok \<lparr>sl_community = c, sl_session = s, sl_owner = r, sl_generation = of_nat g, sl_profile = p\<rparr>
    \<and> lua_match_lease (lease_text lib r g p) = Some (to_hex lib r, show_nat g, profile_as_wire_str p)"
proof -
  have "profile_as_wire_str p \<noteq> []" by (cases p) simp_all
  moreover have "dl_unhex lib (to_hex lib r) = Some (runtime_bytes r)"
    by (simp add: to_hex_def dir_lawsD(3) [OF assms(1)])
  ultimately show ?thesis
    using assms(2,3)
    by (simp add: parse_lease_def lua_match_lease_def split_lease_text [OF assms(1)] Let_def
        to_hex_facts [OF assms(1)] of_nat_u64_0)
qed

section \<open>The store represents the slots\<close>

definition slot_repr :: "dir_lib \<Rightarrow> uuid \<Rightarrow> uuid \<Rightarrow> redis \<Rightarrow> slot \<Rightarrow> bool" where
  "slot_repr lib c s st sl \<longleftrightarrow>
     map_of (rd_expiry st) (generation_key lib c s) = None
     \<and> map_of (rd_values st) (generation_key lib c s)
         = (if slot_generation sl = 0 then None else Some (show_nat (slot_generation sl)))
     \<and> (case slot_holder sl of
          None \<Rightarrow> map_of (rd_values st) (lease_key lib c s) = None
        | Some (r, p, t) \<Rightarrow> 0 < slot_generation sl
            \<and> map_of (rd_values st) (lease_key lib c s) = Some (lease_text lib r (slot_generation sl) p)
            \<and> map_of (rd_expiry st) (lease_key lib c s) = Some t)"

definition represents :: "dir_lib \<Rightarrow> redis \<Rightarrow> slots \<Rightarrow> bool" where
  "represents lib st a \<longleftrightarrow> (\<forall>c s. slot_repr lib c s st (a (c, s)))"

lemma get_generation:
  "slot_repr lib c s st sl \<Longrightarrow> redis_get now (generation_key lib c s) st
     = (if slot_generation sl = 0 then None else Some (show_nat (slot_generation sl)))"
  by (simp add: slot_repr_def redis_get_def)

lemma get_lease:
  "slot_repr lib c s st sl \<Longrightarrow> redis_get now (lease_key lib c s) st =
     (case slot_holder sl of None \<Rightarrow> None
      | Some (r, p, t) \<Rightarrow> if now < t then Some (lease_text lib r (slot_generation sl) p) else None)"
  by (auto simp: slot_repr_def redis_get_def split: option.splits prod.splits)

lemma slot_repr_cong:
  assumes "slot_repr lib c s st sl"
    and "\<And>k. k \<in> {lease_key lib c s, generation_key lib c s} \<Longrightarrow>
      map_of (rd_values st') k = map_of (rd_values st) k \<and> map_of (rd_expiry st') k = map_of (rd_expiry st) k"
  shows "slot_repr lib c s st' sl"
  using assms(1) assms(2) [of "lease_key lib c s"] assms(2) [of "generation_key lib c s"]
  by (auto simp: slot_repr_def split: option.split)

text \<open>A state that differs from a represented one only at the keys of one session.\<close>

lemma represents_upd:
  assumes laws: "dir_laws lib" and rep: "represents lib st a"
    and other: "\<And>k. k \<noteq> lease_key lib c s \<Longrightarrow> k \<noteq> generation_key lib c s \<Longrightarrow>
      map_of (rd_values st') k = map_of (rd_values st) k \<and> map_of (rd_expiry st') k = map_of (rd_expiry st) k"
    and own: "slot_repr lib c s st' sl"
  shows "represents lib st' (a((c, s) := sl))"
  unfolding represents_def
proof (intro allI)
  fix c' s'
  show "slot_repr lib c' s' st' ((a((c, s) := sl)) (c', s'))"
  proof (cases "(c', s') = (c, s)")
    case True
    then show ?thesis using own by simp
  next
    case False
    have "slot_repr lib c' s' st' (a (c', s'))"
      by (rule slot_repr_cong [OF rep [unfolded represents_def, rule_format]])
        (use other key_eqs [OF laws] False in auto)
    then show ?thesis using False by auto
  qed
qed

section \<open>The scripts refine the slot operations\<close>

lemma represents_slot: "represents lib st a \<Longrightarrow> slot_repr lib c s st (a (c, s))"
  by (simp add: represents_def)

lemma represents_same: "represents lib st a \<Longrightarrow> a (c, s) = sl \<Longrightarrow> represents lib st (a((c, s) := sl))"
  by (simp add: fun_upd_idem)

text \<open>A generation that was incremented, and any lease that replaces the old one.\<close>

lemma incr_generation:
  assumes "slot_repr lib c s st sl" "slot_generation sl < 10 ^ 14"
  obtains st' where "redis_incr now (generation_key lib c s) st = Some (st', int (Suc (slot_generation sl)))"
    "map_of (rd_values st') (generation_key lib c s) = Some (show_nat (Suc (slot_generation sl)))"
    "map_of (rd_expiry st') (generation_key lib c s) = None"
    "\<And>k. k \<noteq> generation_key lib c s \<Longrightarrow> map_of (rd_values st') k = map_of (rd_values st) k
      \<and> map_of (rd_expiry st') k = map_of (rd_expiry st) k"
proof -
  let ?g = "slot_generation sl" and ?k = "generation_key lib c s"
  have cur: "(case redis_get now ?k st of None \<Rightarrow> Some 0 | Some v \<Rightarrow> parse_i64 v) = Some (int ?g)"
    using assms(2) by (simp add: get_generation [OF assms(1)])
  have "map_of (rd_expiry st) ?k = None" using assms(1) by (simp add: slot_repr_def)
  moreover have "show_int (int ?g + 1) = show_nat (Suc ?g)"
    using show_int_of_nat [of "Suc ?g"] by (simp add: add.commute)
  ultimately show ?thesis
    using assms(2) cur
    by (intro that [of "st\<lparr>rd_values := AList.update ?k (show_int (int ?g + 1)) (rd_values st),
          rd_expiry := (if redis_get now ?k st = None then AList.delete ?k (rd_expiry st) else rd_expiry st)\<rparr>"])
      (simp_all add: redis_incr_def hmap_simps)
qed

lemma acquire_script_refines:
  assumes laws: "dir_laws lib" and rep: "represents lib st a"
    and bound: "Suc (slot_generation (a (c, s))) < 10 ^ 14" and ttl: "0 < ttl"
  obtains st' status known l where
    "acquire_script lib (lease_key lib c s) (generation_key lib c s) (to_hex lib r)
        (profile_as_wire_str p) ttl now st = Some (st', status, lease_text lib (sl_owner l)
          (unat (sl_generation l)) (sl_profile l), known)"
    "represents lib st' (a((c, s) := slot_acquire ttl now r p (a (c, s))))"
    "status = (if slot_live now (a (c, s)) then ''exists'' else ''acquired'')"
    "slot_lease c s now (slot_acquire ttl now r p (a (c, s))) = Some l" "0 < sl_generation l"
proof -
  define sl where "sl = a (c, s)"
  note own = represents_slot [OF rep, of c s, folded sl_def]
  have small: "slot_generation sl < 10 ^ 14" using bound by (simp add: sl_def)
  have gen: "unat (of_nat n :: u64) = n" if "n < 10 ^ 14" for n
    using that by (simp add: unat_of_nat)
  show ?thesis
  proof (cases "slot_live now sl")
    case True
    then obtain o' p' t where h: "slot_holder sl = Some (o', p', t)" "now < t"
      by (auto simp: slot_live_def split: option.splits)
    then have g: "0 < slot_generation sl" using own by (simp add: slot_repr_def)
    have "0 < (of_nat (slot_generation sl) :: u64)"
      using of_nat_u64_0 [of "slot_generation sl"] g small by (simp add: word_neq_0_conv)
    then show ?thesis
      using True h get_lease [OF own, of now] small rep
      by (intro that [where st' = st and l = "\<lparr>sl_community = c, sl_session = s, sl_owner = o',
            sl_generation = of_nat (slot_generation sl), sl_profile = p'\<rparr>"])
        (simp_all add: acquire_script_def slot_acquire_def slot_lease_def sl_def [symmetric] gen fun_upd_idem)
  next
    case False
    then have none: "redis_get now (lease_key lib c s) st = None"
      by (auto simp: get_lease [OF own] slot_live_def split: option.split)
    obtain st1 where st1: "redis_incr now (generation_key lib c s) st = Some (st1, int (Suc (slot_generation sl)))"
      "map_of (rd_values st1) (generation_key lib c s) = Some (show_nat (Suc (slot_generation sl)))"
      "map_of (rd_expiry st1) (generation_key lib c s) = None"
      "\<And>k. k \<noteq> generation_key lib c s \<Longrightarrow> map_of (rd_values st1) k = map_of (rd_values st) k
        \<and> map_of (rd_expiry st1) k = map_of (rd_expiry st) k"
      by (rule incr_generation [OF own small]) blast
    let ?text = "lease_text lib r (Suc (slot_generation sl)) p"
    let ?st' = "redis_set_px (lease_key lib c s) ?text (now + ttl) st1"
    have new: "slot_repr lib c s ?st' (slot_acquire ttl now r p sl)"
      using False st1(2,3)
      by (simp add: slot_repr_def slot_acquire_def redis_set_px_def hmap_simps key_eqs [OF laws])
    have "represents lib ?st' (a((c, s) := slot_acquire ttl now r p sl))"
      by (rule represents_upd [OF laws rep _ new])
        (use st1(4) in \<open>simp add: redis_set_px_def hmap_simps\<close>)
    moreover have "0 < (of_nat (Suc (slot_generation sl)) :: u64)"
      using of_nat_u64_0 [of "Suc (slot_generation sl)"] bound by (simp add: word_neq_0_conv sl_def)
    moreover have "dl_lua_number lib (int (Suc (slot_generation sl))) = show_nat (Suc (slot_generation sl))"
      using dir_lawsD(6) [OF laws] bound sl_def by blast
    ultimately show ?thesis
      using False none st1(1) ttl bound gen [of "Suc (slot_generation sl)"]
      by (intro that [where st' = ?st' and l = "\<lparr>sl_community = c, sl_session = s, sl_owner = r,
            sl_generation = of_nat (Suc (slot_generation sl)), sl_profile = p\<rparr>"])
        (simp_all add: acquire_script_def slot_acquire_def slot_lease_def sl_def [symmetric]
          lease_text_def Let_def del: of_nat_Suc)
  qed
qed

text \<open>What \<open>renew\<close> and \<open>release\<close> report of a slot they do not own, or own.\<close>

lemma slot_bounds:
  assumes "slot_repr lib c s st sl" "slot_holder sl = Some (o', p, t)"
  shows "0 < slot_generation sl"
  using assms by (simp add: slot_repr_def)

lemma held_by_iff:
  assumes "slot_holder sl = Some (o', p, t)" "now < t"
  shows "slot_held_by now r g sl \<longleftrightarrow> o' = r \<and> slot_generation sl = g"
  using assms by (simp add: slot_held_by_def)

lemma owned_script_spec:
  assumes laws: "dir_laws lib" and own: "slot_repr lib c s st sl" and small: "slot_generation sl < 10 ^ 14"
  shows "owned_script status eff (lease_key lib c s) (generation_key lib c s) (to_hex lib r) (show_nat g) now st
    = Some (if slot_held_by now r g sl then eff st else st,
        if slot_held_by now r g sl then status else if slot_live now sl then ''lost'' else ''missing'',
        case slot_holder sl of None \<Rightarrow> []
          | Some (o', p, t) \<Rightarrow> if now < t then lease_text lib o' (slot_generation sl) p else [],
        if slot_generation sl = 0 then [] else show_nat (slot_generation sl))"
proof (cases "slot_live now sl")
  case False
  then have "redis_get now (lease_key lib c s) st = None" "\<not> slot_held_by now r g sl"
    by (auto simp: get_lease [OF own] slot_live_def slot_held_by_def split: option.splits)
  with False show ?thesis
    by (auto simp: owned_script_def get_generation [OF own] or_empty_def slot_live_def split: option.split)
next
  case True
  then obtain o' p t where h: "slot_holder sl = Some (o', p, t)" "now < t"
    by (auto simp: slot_live_def split: option.splits)
  note g0 = slot_bounds [OF own h(1)]
  have "slot_generation sl < 2 ^ 64" using small by simp
  from lease_value_round_trip [OF laws g0 this]
  have m: "lua_match_lease (lease_text lib o' (slot_generation sl) p)
      = Some (to_hex lib o', show_nat (slot_generation sl), profile_as_wire_str p)" by blast
  show ?thesis
    using h g0 True
    by (auto simp: owned_script_def get_lease [OF own] get_generation [OF own] m Let_def
        held_by_iff [OF h] to_hex_facts(3) [OF laws])
qed

lemma parse_slot_lease:
  assumes laws: "dir_laws lib" and own: "slot_repr lib c s st sl" and small: "slot_generation sl < 10 ^ 14"
  shows "parse_optional_lease lib c s (case slot_holder sl of None \<Rightarrow> []
      | Some (o', p, t) \<Rightarrow> if now < t then lease_text lib o' (slot_generation sl) p else [])
    = Ok (slot_lease c s now sl)"
proof (cases "slot_holder sl")
  case (Some h)
  then obtain o' p t where h: "slot_holder sl = Some (o', p, t)" by (cases h) auto
  have "parse_lease lib c s (lease_text lib o' (slot_generation sl) p)
      = Ok \<lparr>sl_community = c, sl_session = s, sl_owner = o', sl_generation = of_nat (slot_generation sl), sl_profile = p\<rparr>"
    using lease_value_round_trip [OF laws slot_bounds [OF own h]] small by simp
  then show ?thesis by (simp add: h slot_lease_def parse_optional_lease_def)
qed (simp add: slot_lease_def parse_optional_lease_def)

lemma parse_slot_known:
  assumes "slot_generation sl < 10 ^ 14"
  shows "parse_optional_generation c s (if slot_generation sl = 0 then [] else show_nat (slot_generation sl))
    = Ok (slot_known sl)"
  using assms of_nat_u64_0 [of "slot_generation sl"]
  by (simp add: parse_optional_generation_def slot_known_def)

lemma renew_effect_repr:
  assumes laws: "dir_laws lib" and rep: "represents lib st a" and held: "slot_held_by now r g (a (c, s))"
  shows "represents lib (redis_pexpire (lease_key lib c s) (now + ttl) st)
      (a((c, s) := slot_renew ttl now r g (a (c, s))))"
proof (rule represents_upd [OF laws rep])
  show "slot_repr lib c s (redis_pexpire (lease_key lib c s) (now + ttl) st) (slot_renew ttl now r g (a (c, s)))"
    using represents_slot [OF rep, of c s] held
    by (auto simp: slot_repr_def redis_pexpire_def hmap_simps key_eqs [OF laws] slot_renew_def slot_held_by_def
        split: option.splits)
qed (simp add: redis_pexpire_def hmap_simps)

lemma release_effect_repr:
  assumes laws: "dir_laws lib" and rep: "represents lib st a" and held: "slot_held_by now r g (a (c, s))"
  shows "represents lib (redis_del (lease_key lib c s) st) (a((c, s) := slot_release now r g (a (c, s))))"
proof (rule represents_upd [OF laws rep])
  show "slot_repr lib c s (redis_del (lease_key lib c s) st) (slot_release now r g (a (c, s)))"
    using represents_slot [OF rep, of c s] held
    by (auto simp: slot_repr_def redis_del_def hmap_simps key_eqs [OF laws] slot_release_def)
qed (simp add: redis_del_def hmap_simps)

section \<open>Runs of the directory\<close>

datatype dir_op =
    AcquireOp net nat nat uuid uuid runtime_id profile
  | RenewOp net nat nat session_lease
  | ReleaseOp net nat session_lease

fun dir_step :: "dir_lib \<Rightarrow> dir_op \<Rightarrow> redis \<Rightarrow> redis" where
  "dir_step lib (AcquireOp net ttl now c s r p) st = fst (acquire lib net ttl now c s r p st)"
| "dir_step lib (RenewOp net ttl now l) st = fst (renew lib net ttl now l st)"
| "dir_step lib (ReleaseOp net now l) st = fst (release lib net now l st)"

fun slot_step :: "dir_op \<Rightarrow> slots \<Rightarrow> slots" where
  "slot_step (AcquireOp net ttl now c s r p) a =
     (if ran net \<and> is_ok (ttl_ms ttl) then a((c, s) := slot_acquire ttl now r p (a (c, s))) else a)"
| "slot_step (RenewOp net ttl now l) a =
     (let k = (sl_community l, sl_session l)
      in if ran net \<and> is_ok (ttl_ms ttl)
         then a(k := slot_renew ttl now (sl_owner l) (unat (sl_generation l)) (a k)) else a)"
| "slot_step (ReleaseOp net now l) a =
     (let k = (sl_community l, sl_session l)
      in if ran net then a(k := slot_release now (sl_owner l) (unat (sl_generation l)) (a k)) else a)"

definition free_slots :: slots where
  "free_slots = (\<lambda>_. \<lparr>slot_generation = 0, slot_holder = None\<rparr>)"

lemma represents_empty: "represents lib empty_redis free_slots"
  by (simp add: represents_def slot_repr_def empty_redis_def free_slots_def)

lemma run_script_fst:
  "fst (run_script net script st) = (if ran net then case script st of None \<Rightarrow> st | Some (st', _) \<Rightarrow> st' else st)"
  by (cases net) (auto simp: run_script_def ran_def split: option.split)

lemma guarded_fst_same: "(\<And>x. fst (k x) = st) \<Longrightarrow> fst (guarded r st k) = st"
  by (cases r) simp_all

lemma acquire_fst:
  "fst (acquire lib net ttl now c s r p st) =
     (if is_ok (ttl_ms ttl) then fst (run_script net (acquire_script lib (lease_key lib c s) (generation_key lib c s)
        (to_hex lib r) (profile_as_wire_str p) ttl now) st) else st)"
  by (auto simp: acquire_def ttl_ms_def case_prod_unfold Let_def intro!: guarded_fst_same)

lemma renew_fst:
  "fst (renew lib net ttl now l st) =
     (if is_ok (ttl_ms ttl) then fst (run_script net (renew_script (lease_key lib (sl_community l) (sl_session l))
        (generation_key lib (sl_community l) (sl_session l)) (to_hex lib (sl_owner l))
        (show_nat (unat (sl_generation l))) ttl now) st) else st)"
  by (auto simp: renew_def ttl_ms_def case_prod_unfold Let_def intro!: guarded_fst_same)

lemma release_fst:
  "fst (release lib net now l st) =
     fst (run_script net (release_script (lease_key lib (sl_community l) (sl_session l))
        (generation_key lib (sl_community l) (sl_session l)) (to_hex lib (sl_owner l))
        (show_nat (unat (sl_generation l))) now) st)"
  by (auto simp: release_def case_prod_unfold Let_def intro!: guarded_fst_same)

lemma dir_step_refines:
  assumes laws: "dir_laws lib" and rep: "represents lib st a"
    and bound: "\<And>k. Suc (slot_generation (a k)) < 10 ^ 14"
  shows "represents lib (dir_step lib op st) (slot_step op a)"
proof (cases op)
  case (AcquireOp net ttl now c s r p)
  show ?thesis
  proof (cases "ran net \<and> is_ok (ttl_ms ttl)")
    case True
    then have "0 < ttl" by (auto simp: ttl_ms_def split: if_splits)
    then obtain st' x where "acquire_script lib (lease_key lib c s) (generation_key lib c s) (to_hex lib r)
          (profile_as_wire_str p) ttl now st = Some (st', x)"
      "represents lib st' (a((c, s) := slot_acquire ttl now r p (a (c, s))))"
      by (rule acquire_script_refines [OF laws rep bound, where r = r and p = p and now = now])
    then show ?thesis using True by (simp add: AcquireOp acquire_fst run_script_fst)
  qed (auto simp: AcquireOp acquire_fst run_script_fst rep)
next
  case (RenewOp net ttl now l)
  let ?k = "(sl_community l, sl_session l)" and ?g = "unat (sl_generation l)"
  have own: "slot_repr lib (sl_community l) (sl_session l) st (a ?k)" by (rule represents_slot [OF rep])
  have small: "slot_generation (a ?k) < 10 ^ 14" using bound [of ?k] by simp
  note script = renew_fst run_script_fst renew_script_def owned_script_spec [OF laws own small]
  show ?thesis
  proof (cases "ran net \<and> is_ok (ttl_ms ttl) \<and> slot_held_by now (sl_owner l) ?g (a ?k)")
    case True
    then show ?thesis using renew_effect_repr [OF laws rep, where ttl = ttl] by (simp add: RenewOp script Let_def)
  next
    case False
    then have "dir_step lib op st = st" "slot_step op a = a"
      by (auto simp: RenewOp script slot_renew_def Let_def)
    then show ?thesis using rep by simp
  qed
next
  case (ReleaseOp net now l)
  let ?k = "(sl_community l, sl_session l)" and ?g = "unat (sl_generation l)"
  have own: "slot_repr lib (sl_community l) (sl_session l) st (a ?k)" by (rule represents_slot [OF rep])
  have small: "slot_generation (a ?k) < 10 ^ 14" using bound [of ?k] by simp
  note script = release_fst run_script_fst release_script_def owned_script_spec [OF laws own small]
  show ?thesis
  proof (cases "ran net \<and> slot_held_by now (sl_owner l) ?g (a ?k)")
    case True
    then show ?thesis using release_effect_repr [OF laws rep] by (simp add: ReleaseOp script Let_def)
  next
    case False
    then have "dir_step lib op st = st" "slot_step op a = a"
      by (auto simp: ReleaseOp script slot_release_def Let_def)
    then show ?thesis using rep by simp
  qed
qed

lemma slot_step_generation: "slot_generation (slot_step op a k) \<le> Suc (slot_generation (a k))
    \<and> slot_generation (a k) \<le> slot_generation (slot_step op a k)"
  by (cases op) (auto simp: slot_acquire_def slot_renew_def slot_release_def Let_def)

lemma slot_fold_generation: "slot_generation (a k) \<le> slot_generation (fold slot_step ops a k)
    \<and> slot_generation (fold slot_step ops a k) \<le> slot_generation (a k) + length ops"
proof (induction ops arbitrary: a)
  case (Cons op ops)
  from Cons [of "slot_step op a"] slot_step_generation [of op a k] show ?case by simp
qed simp

lemma dir_fold_refines:
  assumes "dir_laws lib" "represents lib st a" "\<And>k. slot_generation (a k) + length ops < 10 ^ 14"
  shows "represents lib (fold (dir_step lib) ops st) (fold slot_step ops a)"
  using assms(2,3)
proof (induction ops arbitrary: st a)
  case (Cons op ops)
  have "Suc (slot_generation (a k)) < 10 ^ 14" for k using Cons.prems(2) [of k] by simp
  then have "represents lib (dir_step lib op st) (slot_step op a)"
    by (rule dir_step_refines [OF assms(1) Cons.prems(1)])
  moreover have "slot_generation (slot_step op a k) + length ops < 10 ^ 14" for k
    using Cons.prems(2) [of k] slot_step_generation [of op a k] by simp
  ultimately show ?case using Cons.IH by simp
qed simp

definition dir_run :: "dir_lib \<Rightarrow> dir_op list \<Rightarrow> redis" where
  "dir_run lib ops = fold (dir_step lib) ops empty_redis"

definition slot_run :: "dir_op list \<Rightarrow> slots" where
  "slot_run ops = fold slot_step ops free_slots"

lemma dir_run_represents:
  "dir_laws lib \<Longrightarrow> length ops < 10 ^ 14 \<Longrightarrow> represents lib (dir_run lib ops) (slot_run ops)"
  unfolding dir_run_def slot_run_def
  by (rule dir_fold_refines [OF _ represents_empty]) (simp_all add: free_slots_def)

lemma slot_run_generation: "slot_generation (slot_run ops k) \<le> length ops"
  using slot_fold_generation [of free_slots k ops] by (simp add: slot_run_def free_slots_def)

section \<open>What the operations return\<close>

lemma acquire_result:
  assumes laws: "dir_laws lib" and rep: "represents lib st a"
    and bound: "Suc (slot_generation (a (c, s))) < 10 ^ 14" and ttl: "0 < ttl" "ttl < 2 ^ 63"
  shows "snd (acquire lib NetOk ttl now c s r p st)
    = Ok ((if slot_live now (a (c, s)) then Exists else Acquired)
        (the (slot_lease c s now (slot_acquire ttl now r p (a (c, s))))))"
proof -
  obtain st' status known l where l:
    "acquire_script lib (lease_key lib c s) (generation_key lib c s) (to_hex lib r)
        (profile_as_wire_str p) ttl now st = Some (st', status, lease_text lib (sl_owner l)
          (unat (sl_generation l)) (sl_profile l), known)"
    "status = (if slot_live now (a (c, s)) then ''exists'' else ''acquired'')"
    "slot_lease c s now (slot_acquire ttl now r p (a (c, s))) = Some l" "0 < sl_generation l"
    by (rule acquire_script_refines [OF laws rep bound ttl(1), where r = r and p = p and now = now]) blast
  have "0 < unat (sl_generation l)" using l(4) by (simp add: unat_gt_0 word_neq_0_conv)
  moreover have "unat (sl_generation l) < 2 ^ 64" using unsigned_less [of "sl_generation l"] by simp
  ultimately have "parse_lease lib c s (lease_text lib (sl_owner l) (unat (sl_generation l)) (sl_profile l))
      = Ok \<lparr>sl_community = c, sl_session = s, sl_owner = sl_owner l, sl_generation = sl_generation l,
            sl_profile = sl_profile l\<rparr>"
    using lease_value_round_trip [OF laws] by simp
  moreover have "sl_community l = c" "sl_session l = s"
    using l(3) by (auto simp: slot_lease_def split: option.splits prod.splits if_splits)
  ultimately show ?thesis
    using l ttl by (simp add: acquire_def ttl_ms_def run_script_def case_prod_unfold Let_def)
qed

lemma renew_result:
  assumes laws: "dir_laws lib" and own: "slot_repr lib (sl_community l) (sl_session l) st sl"
    and small: "slot_generation sl < 10 ^ 14" and ttl: "0 < ttl" "ttl < 2 ^ 63"
  shows "snd (renew lib NetOk ttl now l st)
    = Ok (if slot_held_by now (sl_owner l) (unat (sl_generation l)) sl
          then Renewed (the (slot_lease (sl_community l) (sl_session l) now sl))
          else Lost (slot_lease (sl_community l) (sl_session l) now sl) (slot_known sl))"
proof -
  have held: "\<exists>x. slot_lease (sl_community l) (sl_session l) now sl = Some x"
    if "slot_held_by now (sl_owner l) (unat (sl_generation l)) sl"
    using that by (auto simp: slot_held_by_def slot_lease_def split: option.splits)
  show ?thesis
    using held ttl
    by (auto simp: renew_def ttl_ms_def run_script_def renew_script_def owned_script_spec [OF laws own small]
        parse_slot_lease [OF laws own small] parse_slot_known [OF small] Let_def split: if_splits)
qed

lemma release_result:
  assumes laws: "dir_laws lib" and own: "slot_repr lib (sl_community l) (sl_session l) st sl"
    and small: "slot_generation sl < 10 ^ 14"
  shows "snd (release lib NetOk now l st)
    = Ok (if slot_held_by now (sl_owner l) (unat (sl_generation l)) sl
          then Released (the (slot_lease (sl_community l) (sl_session l) now sl))
          else NotOwner (slot_lease (sl_community l) (sl_session l) now sl) (slot_known sl))"
proof -
  have held: "\<exists>x. slot_lease (sl_community l) (sl_session l) now sl = Some x"
    if "slot_held_by now (sl_owner l) (unat (sl_generation l)) sl"
    using that by (auto simp: slot_held_by_def slot_lease_def split: option.splits)
  show ?thesis
    using held
    by (auto simp: release_def run_script_def release_script_def owned_script_spec [OF laws own small]
        parse_slot_lease [OF laws own small] parse_slot_known [OF small] Let_def split: if_splits)
qed

lemma lookup_result:
  assumes laws: "dir_laws lib" and own: "slot_repr lib c s st sl" and small: "slot_generation sl < 10 ^ 14"
  shows "lookup lib NetOk now c s st = Ok (slot_lease c s now sl)"
    "known_generation lib NetOk now c s st = Ok (slot_known sl)"
proof -
  show "lookup lib NetOk now c s st = Ok (slot_lease c s now sl)"
    using parse_slot_lease [OF laws own small, of now]
    by (cases "slot_holder sl")
      (auto simp: lookup_def net_check_def get_lease [OF own] slot_lease_def parse_optional_lease_def
        split: if_splits)
  show "known_generation lib NetOk now c s st = Ok (slot_known sl)"
    using parse_slot_known [OF small, of c s]
    by (auto simp: known_generation_def net_check_def get_generation [OF own] slot_known_def)
qed

text \<open>
  C39 (The directory refines the slots). After any sequence of operations by any processes, with
  lost connections and lost replies, each call answers what the session's slot answers: an acquire gets a
  new generation exactly when no live holder exists, renew and release act exactly for the holder's own
  generation and otherwise report the holder and the highest generation, and no call is malformed.
\<close>

theorem directory_refines_slots:
  assumes "dir_laws lib" "length ops < 10 ^ 14 - 1" "0 < ttl" "ttl < 2 ^ 63"
  shows "let st = dir_run lib ops; sl = slot_run ops (c, s); sl' = slot_acquire ttl now r p sl;
             own = slot_held_by now r g sl; lease = slot_lease c s now sl;
             l = \<lparr>sl_community = c, sl_session = s, sl_owner = r, sl_generation = of_nat g, sl_profile = p\<rparr>
         in snd (acquire lib NetOk ttl now c s r p st)
              = Ok ((if slot_live now sl then Exists else Acquired) (the (slot_lease c s now sl')))
            \<and> (g < 2 ^ 64 \<longrightarrow> snd (renew lib NetOk ttl now l st)
                = Ok (if own then Renewed (the lease) else Lost lease (slot_known sl)))
            \<and> (g < 2 ^ 64 \<longrightarrow> snd (release lib NetOk now l st)
                = Ok (if own then Released (the lease) else NotOwner lease (slot_known sl)))
            \<and> lookup lib NetOk now c s st = Ok lease
            \<and> known_generation lib NetOk now c s st = Ok (slot_known sl)"
proof -
  have len: "length ops < 10 ^ 14" using assms(2) by simp
  note rep = dir_run_represents [OF assms(1) len]
  note own = represents_slot [OF rep, of c s]
  have small: "slot_generation (slot_run ops (c, s)) < 10 ^ 14"
    and small': "Suc (slot_generation (slot_run ops (c, s))) < 10 ^ 14"
    using slot_run_generation [of ops "(c, s)"] assms(2) by simp_all
  have g: "unat (of_nat g :: u64) = g" if "g < 2 ^ 64" using that by (simp add: unat_of_nat)
  let ?l = "\<lparr>sl_community = c, sl_session = s, sl_owner = r, sl_generation = of_nat g, sl_profile = p\<rparr>"
  show ?thesis
    unfolding Let_def
    using acquire_result [OF assms(1) rep small' assms(3,4)] lookup_result [OF assms(1) own small]
      renew_result [OF assms(1), of ?l "dir_run lib ops" "slot_run ops (c, s)"]
      release_result [OF assms(1), of ?l "dir_run lib ops" "slot_run ops (c, s)"] own small assms(3,4) g
    by simp
qed

lemma fence_verdict_aux:
  assumes "dir_laws lib" "length ops < 10 ^ 14"
  shows "validate_fenced_header lib NetOk now c f (dir_run lib ops) =
    (let s = fh_session f; g = fh_generation f; sl = slot_run ops (c, s);
         top = (of_nat (slot_generation sl) :: u64)
     in if g < top then Err (StaleGeneration s g top)
        else case slot_lease c s now sl of
               None \<Rightarrow> Err (NoActiveLease s g top (fh_owner f))
             | Some l \<Rightarrow> if g \<noteq> top then Err (FutureGeneration s g top)
                 else if fh_owner f \<noteq> sl_owner l then Err (OwnerMismatch s g (fh_owner f) (sl_owner l))
                 else Ok ())"
proof -
  let ?s = "fh_session f"
  define sl where "sl = slot_run ops (c, ?s)"
  note own = represents_slot [OF dir_run_represents [OF assms], of c ?s, folded sl_def]
  have small: "slot_generation sl < 10 ^ 14"
    using slot_run_generation [of ops "(c, ?s)"] assms(2) by (simp add: sl_def)
  have gen_text: "or_empty (redis_get now (generation_key lib c ?s) (dir_run lib ops))
      = (if slot_generation sl = 0 then [] else show_nat (slot_generation sl))"
    by (simp add: get_generation [OF own] or_empty_def)
  have lease: "or_empty (redis_get now (lease_key lib c ?s) (dir_run lib ops))
      = (case slot_holder sl of None \<Rightarrow> []
          | Some (o', p, t) \<Rightarrow> if now < t then lease_text lib o' (slot_generation sl) p else [])"
    by (auto simp: get_lease [OF own] or_empty_def split: option.split)
  have known: "(case slot_known sl of None \<Rightarrow> 0 | Some g \<Rightarrow> g) = of_nat (slot_generation sl)"
    by (simp add: slot_known_def)
  have gen: "sl_generation l = of_nat (slot_generation sl)" if "slot_lease c ?s now sl = Some l" for l
    using that by (auto simp: slot_lease_def split: option.splits prod.splits if_splits)
  show ?thesis
    unfolding validate_fenced_header_def validate_script_def gen_text lease Let_def prod.case
      parse_slot_lease [OF assms(1) own small] parse_slot_known [OF small] transport_err_def sum.case
      and_then_simps known sl_def [symmetric] net.case
    using gen by (cases "slot_lease c ?s now sl") (auto dest: le_less_trans [OF word_zero_le])
qed

text \<open>
  The fence. Validation accepts a frame exactly when its generation and owner are those of the
  session's live holder; a rejection says which of the four cases it is, a lower generation than any
  handed out being always stale.
\<close>

theorem fence_verdict:
  assumes "dir_laws lib" "length ops < 10 ^ 14"
  shows "validate_fenced_header lib NetOk now c f (dir_run lib ops) =
    (let s = fh_session f; g = fh_generation f; sl = slot_run ops (c, s);
         top = (of_nat (slot_generation sl) :: u64)
     in if g < top then Err (StaleGeneration s g top)
        else case slot_lease c s now sl of
               None \<Rightarrow> Err (NoActiveLease s g top (fh_owner f))
             | Some l \<Rightarrow> if g \<noteq> top then Err (FutureGeneration s g top)
                 else if fh_owner f \<noteq> sl_owner l then Err (OwnerMismatch s g (fh_owner f) (sl_owner l))
                 else Ok ())"
  using assms by (rule fence_verdict_aux)

section \<open>Fencing\<close>

text \<open>The leases that callers were told they acquired, oldest first.\<close>

fun acquired_leases :: "dir_lib \<Rightarrow> uuid \<Rightarrow> uuid \<Rightarrow> dir_op list \<Rightarrow> redis \<Rightarrow> session_lease list" where
  "acquired_leases lib c s [] st = []"
| "acquired_leases lib c s (op # ops) st =
     (case op of
        AcquireOp net ttl now c' s' r p \<Rightarrow>
          (case snd (acquire lib net ttl now c' s' r p st) of
             Inr (Acquired l) \<Rightarrow> if c' = c \<and> s' = s then [l] else []
           | _ \<Rightarrow> [])
      | _ \<Rightarrow> []) @ acquired_leases lib c s ops (dir_step lib op st)"

lemma acquired_lease:
  assumes "dir_laws lib" "represents lib st a" "Suc (slot_generation (a (c, s))) < 10 ^ 14"
    and "snd (acquire lib net ttl now c s r p st) = Ok (Acquired l)"
  shows "sl_generation l = of_nat (Suc (slot_generation (a (c, s))))"
    "slot_generation (slot_step (AcquireOp net ttl now c s r p) a (c, s)) = Suc (slot_generation (a (c, s)))"
    "sl_session l = s"
proof -
  have ok: "net = NetOk \<and> 0 < ttl \<and> ttl < 2 ^ 63"
    using assms(4) by (cases net) (auto simp: acquire_def ttl_ms_def run_script_def Let_def
        split: if_splits option.splits)
  then have "Acquired l = (if slot_live now (a (c, s)) then Exists else Acquired)
      (the (slot_lease c s now (slot_acquire ttl now r p (a (c, s)))))"
    using acquire_result [OF assms(1-3)] assms(4) by simp
  then have "\<not> slot_live now (a (c, s))" and l: "l = the (slot_lease c s now (slot_acquire ttl now r p (a (c, s))))"
    by (auto split: if_splits)
  then show "sl_generation l = of_nat (Suc (slot_generation (a (c, s))))"
    "slot_generation (slot_step (AcquireOp net ttl now c s r p) a (c, s)) = Suc (slot_generation (a (c, s)))"
    "sl_session l = s"
    using ok by (simp_all add: slot_lease_def slot_acquire_def ran_def ttl_ms_def del: of_nat_Suc)
qed

lemma acquired_above:
  assumes "dir_laws lib" "represents lib st a" "\<And>k. slot_generation (a k) + length ops < 10 ^ 14"
  shows "sorted_wrt (<) (map (unat \<circ> sl_generation) (acquired_leases lib c s ops st))
    \<and> (\<forall>l\<in>set (acquired_leases lib c s ops st). slot_generation (a (c, s)) < unat (sl_generation l)
         \<and> unat (sl_generation l) \<le> slot_generation (fold slot_step ops a (c, s)) \<and> sl_session l = s)"
  using assms(2,3)
proof (induction ops arbitrary: st a)
  case (Cons op ops)
  let ?st = "dir_step lib op st" and ?a = "slot_step op a"
  have small: "Suc (slot_generation (a k)) < 10 ^ 14" for k using Cons.prems(2) [of k] by simp
  have rep: "represents lib ?st ?a" by (rule dir_step_refines [OF assms(1) Cons.prems(1) small])
  have "slot_generation (?a k) + length ops < 10 ^ 14" for k
    using Cons.prems(2) [of k] slot_step_generation [of op a k] by simp
  note IH = Cons.IH [OF rep this]
  have mono: "slot_generation (a (c, s)) \<le> slot_generation (?a (c, s))"
    using slot_step_generation [of op a "(c, s)"] by simp
  have later: "slot_generation (?a (c, s)) \<le> slot_generation (fold slot_step ops ?a (c, s))"
    using slot_fold_generation [of ?a "(c, s)" ops] by simp
  show ?case
  proof (cases "\<exists>net ttl now r p l. op = AcquireOp net ttl now c s r p
      \<and> snd (acquire lib net ttl now c s r p st) = Ok (Acquired l)")
    case False
    then have "acquired_leases lib c s (op # ops) st = acquired_leases lib c s ops ?st"
      by (auto split: dir_op.split sum.split acquire_result.split)
    then show ?thesis using IH mono by fastforce
  next
    case True
    then obtain net ttl now r p l where op: "op = AcquireOp net ttl now c s r p"
      and l: "snd (acquire lib net ttl now c s r p st) = Ok (Acquired l)" by blast
    note al = acquired_lease [OF assms(1) Cons.prems(1) small l]
    have "unat (sl_generation l) = Suc (slot_generation (a (c, s)))"
      using small [of "(c, s)"] by (simp add: al(1) unat_of_nat del: of_nat_Suc)
    moreover have "acquired_leases lib c s (op # ops) st = l # acquired_leases lib c s ops ?st"
      using l by (simp add: op)
    ultimately show ?thesis using IH al(2,3) later
      by (auto simp: op dest: Suc_lessD simp del: slot_step.simps dir_step.simps)
  qed
qed simp

text \<open>
  C38 (One owner per generation). In any history of a session the leases handed out have strictly
  increasing generations, whoever acquired them and whatever expired, was released or was lost on the way: no
  two acquisitions ever share a fence.
\<close>

theorem generations_increase:
  assumes "dir_laws lib" "length ops < 10 ^ 14"
  shows "sorted_wrt (<) (map (unat \<circ> sl_generation) (acquired_leases lib c s ops empty_redis))"
proof -
  have "slot_generation (free_slots k) + length ops < 10 ^ 14" for k
    using assms(2) by (simp add: free_slots_def)
  from acquired_above [OF assms(1) represents_empty this] show ?thesis by blast
qed

fun op_time :: "dir_op \<Rightarrow> nat" where
  "op_time (AcquireOp net ttl now c s r p) = now"
| "op_time (RenewOp net ttl now l) = now"
| "op_time (ReleaseOp net now l) = now"

lemma slot_not_revived:
  assumes "g \<le> slot_generation (a k)" "\<not> slot_held_by now r g (a k)" "now \<le> op_time op"
  shows "\<not> slot_held_by (op_time op) r g (slot_step op a k)"
  using assms
  by (cases op)
    (auto simp: slot_acquire_def slot_renew_def slot_release_def slot_held_by_def slot_live_def Let_def
      split: option.splits if_splits)

lemma slot_not_revived_fold:
  assumes "g \<le> slot_generation (a k)" "\<not> slot_held_by now r g (a k)"
    and "sorted (map op_time ops)" "list_all (\<lambda>op. now \<le> op_time op) ops"
    and "list_all (\<lambda>op. op_time op \<le> now') ops" "now \<le> now'"
  shows "\<not> slot_held_by now' r g (fold slot_step ops a k)"
  using assms
proof (induction ops arbitrary: a now)
  case Nil
  then show ?case by (auto simp: slot_held_by_def split: option.splits)
next
  case (Cons op ops)
  have "\<not> slot_held_by (op_time op) r g (slot_step op a k)"
    using slot_not_revived [of g a k now r op] Cons.prems by simp
  moreover have "g \<le> slot_generation (slot_step op a k)"
    using slot_step_generation [of op a k] Cons.prems(1) by simp
  moreover have "list_all (\<lambda>op'. op_time op \<le> op_time op') ops" using Cons.prems(3) by (simp add: list_all_iff)
  ultimately show ?case using Cons.IH [of "slot_step op a" "op_time op"] Cons.prems by simp
qed

lemma validate_held:
  assumes "dir_laws lib" "length ops < 10 ^ 14"
  shows "validate_fenced_header lib NetOk now c f (dir_run lib ops) = Ok ()
    \<longleftrightarrow> slot_held_by now (fh_owner f) (unat (fh_generation f)) (slot_run ops (c, fh_session f))"
proof -
  define sl where "sl = slot_run ops (c, fh_session f)"
  have "slot_generation sl < 2 ^ 64"
    using slot_run_generation [of ops "(c, fh_session f)"] assms(2) by (simp add: sl_def)
  then have g: "fh_generation f = of_nat (slot_generation sl) \<longleftrightarrow> slot_generation sl = unat (fh_generation f)"
    by (auto simp: unat_of_nat)
  show ?thesis
    unfolding fence_verdict_aux [OF assms] sl_def [symmetric] Let_def
    using g by (auto simp: slot_lease_def slot_held_by_def split: option.splits)
qed

text \<open>
  A lost lease stays lost. Once the fence rejects the frames of a lease that was handed out,
  because it expired, was released or was taken over, it rejects them for ever, whatever renewals, releases or
  acquisitions follow, as long as the store's clock does not run backwards.
\<close>

theorem lost_lease_stays_lost:
  assumes "dir_laws lib" "length (ops @ later) < 10 ^ 14"
    and "l \<in> set (acquired_leases lib c s ops empty_redis)"
    and "validate_fenced_header lib NetOk now c (lease_fenced_header l) (dir_run lib ops) \<noteq> Ok ()"
    and "sorted (map op_time later)" "list_all (\<lambda>op. now \<le> op_time op \<and> op_time op \<le> now') later" "now \<le> now'"
  shows "validate_fenced_header lib NetOk now' c (lease_fenced_header l) (dir_run lib (ops @ later)) \<noteq> Ok ()"
proof -
  have len: "length ops < 10 ^ 14" using assms(2) by simp
  have "slot_generation (free_slots k) + length ops < 10 ^ 14" for k
    using len by (simp add: free_slots_def)
  from acquired_above [OF assms(1) represents_empty this, of c s] assms(3)
  have l: "unat (sl_generation l) \<le> slot_generation (slot_run ops (c, s))" "sl_session l = s"
    by (auto simp: slot_run_def)
  have held: "\<not> slot_held_by now (sl_owner l) (unat (sl_generation l)) (slot_run ops (c, s))"
    using assms(4) by (simp add: validate_held [OF assms(1) len] lease_fenced_header_def l)
  have "list_all (\<lambda>op. now \<le> op_time op) later" "list_all (\<lambda>op. op_time op \<le> now') later"
    using assms(6) by (simp_all add: list_all_iff)
  then have "\<not> slot_held_by now' (sl_owner l) (unat (sl_generation l)) (fold slot_step later (slot_run ops) (c, s))"
    using slot_not_revived_fold [where a = "slot_run ops" and k = "(c, s)"] l(1) held assms(5,7) by blast
  then have "\<not> slot_held_by now' (sl_owner l) (unat (sl_generation l)) (slot_run (ops @ later) (c, s))"
    by (simp add: slot_run_def)
  then show ?thesis by (simp add: validate_held [OF assms(1,2)] lease_fenced_header_def l)
qed

section \<open>A concrete library\<close>

definition demo_dir :: dir_lib where
  "demo_dir = \<lparr>dl_uuid = (\<lambda>u. demo_hex (uuid_bytes u) @ ''----''), dl_hex = demo_hex, dl_unhex = (\<lambda>s. Some (demo_unhex s)),
     dl_lua_number = show_int\<rparr>"

lemma demo_dir_laws: "dir_laws demo_dir"
proof -
  have "inj (\<lambda>u. demo_hex (uuid_bytes u) @ ''----'')"
  proof (rule injI)
    fix u v assume "demo_hex (uuid_bytes u) @ ''----'' = demo_hex (uuid_bytes v) @ ''----''"
    then have "demo_unhex (demo_hex (uuid_bytes u)) = demo_unhex (demo_hex (uuid_bytes v))" by simp
    then show "u = v" by (simp only: demo_unhex_hex uuid_bytes_inject)
  qed
  moreover have "CHR ''|'' \<notin> set (demo_hex b)" for b
    using demo_hex_lower [of b] by (auto simp: list_all_iff is_lowercase_hex_def is_digit_def)
  ultimately show ?thesis
    by (simp add: dir_laws_def demo_dir_def demo_hex_length)
qed

definition some_uuid :: uuid where
  "some_uuid = mk_uuid (replicate 16 0)"

definition some_runtime :: runtime_id where
  "some_runtime = mk_runtime (replicate 32 1)"

definition demo_history :: "uuid \<Rightarrow> dir_op list" where
  "demo_history c = [AcquireOp NetOk 10 0 c c some_runtime ReliableStream]"

definition demo_lease :: "uuid \<Rightarrow> session_lease" where
  "demo_lease c = \<lparr>sl_community = c, sl_session = c, sl_owner = some_runtime, sl_generation = 1,
     sl_profile = ReliableStream\<rparr>"

lemma demo_history_slots:
  "slot_run (demo_history c) (c, c) = \<lparr>slot_generation = 1, slot_holder = Some (some_runtime, ReliableStream, 10)\<rparr>"
  by (simp add: slot_run_def demo_history_def free_slots_def slot_acquire_def slot_live_def ran_def ttl_ms_def)

lemma demo_acquired: "acquired_leases demo_dir c c (demo_history c) empty_redis = [demo_lease c]"
proof -
  have "snd (acquire demo_dir NetOk 10 0 c c some_runtime ReliableStream empty_redis) = Ok (Acquired (demo_lease c))"
    using acquire_result [OF demo_dir_laws represents_empty, where c = c and s = c and ttl = 10 and now = 0
        and r = some_runtime and p = ReliableStream]
    by (simp add: free_slots_def slot_live_def slot_acquire_def slot_lease_def demo_lease_def)
  then show ?thesis by (simp add: demo_history_def)
qed

theorem lease_value_round_trip_witness:
  "lua_match_lease (lease_text demo_dir some_runtime 7 HuddleControl)
     = Some (to_hex demo_dir some_runtime, show_nat 7, profile_as_wire_str HuddleControl)"
  using lease_value_round_trip [OF demo_dir_laws, of 7] by simp

theorem directory_refines_slots_witness:
  "snd (acquire demo_dir NetOk 5 3 some_uuid some_uuid some_runtime HuddleControl (dir_run demo_dir (demo_history some_uuid)))
     = Ok (Exists (demo_lease some_uuid))"
proof -
  have "length (demo_history some_uuid) < 10 ^ 14 - 1" by (simp add: demo_history_def)
  from directory_refines_slots [OF demo_dir_laws this, where ttl = 5 and c = some_uuid and s = some_uuid and now = 3
      and r = some_runtime and p = HuddleControl]
  have "snd (acquire demo_dir NetOk 5 3 some_uuid some_uuid some_runtime HuddleControl (dir_run demo_dir (demo_history some_uuid)))
     = Ok ((if slot_live 3 (slot_run (demo_history some_uuid) (some_uuid, some_uuid)) then Exists else Acquired)
        (the (slot_lease some_uuid some_uuid 3 (slot_acquire 5 3 some_runtime HuddleControl (slot_run (demo_history some_uuid) (some_uuid, some_uuid))))))"
    by (simp add: Let_def)
  then show ?thesis
    by (simp add: demo_history_slots slot_live_def slot_acquire_def slot_lease_def demo_lease_def)
qed

theorem fence_verdict_witness:
  "validate_fenced_header demo_dir NetOk 3 some_uuid (lease_fenced_header (demo_lease some_uuid)) (dir_run demo_dir (demo_history some_uuid))
     = Ok ()"
proof -
  have "length (demo_history some_uuid) < 10 ^ 14" by (simp add: demo_history_def)
  from fence_verdict [OF demo_dir_laws this, of 3 some_uuid "lease_fenced_header (demo_lease some_uuid)"] show ?thesis
    by (simp add: lease_fenced_header_def demo_lease_def demo_history_slots slot_lease_def)
qed

theorem generations_increase_witness:
  "sorted_wrt (<) (map (unat \<circ> sl_generation) (acquired_leases demo_dir some_uuid some_uuid (demo_history some_uuid) empty_redis))"
proof -
  have "length (demo_history some_uuid) < 10 ^ 14" by (simp add: demo_history_def)
  then show ?thesis by (rule generations_increase [OF demo_dir_laws])
qed

theorem lost_lease_stays_lost_witness:
  "validate_fenced_header demo_dir NetOk 12 some_uuid (lease_fenced_header (demo_lease some_uuid))
     (dir_run demo_dir (demo_history some_uuid @ [RenewOp NetOk 10 11 (demo_lease some_uuid)])) \<noteq> Ok ()"
proof (rule lost_lease_stays_lost [OF demo_dir_laws, where s = some_uuid and now = 10])
  have "length (demo_history some_uuid) < 10 ^ 14" by (simp add: demo_history_def)
  from validate_held [OF demo_dir_laws this]
  show "validate_fenced_header demo_dir NetOk 10 some_uuid (lease_fenced_header (demo_lease some_uuid))
      (dir_run demo_dir (demo_history some_uuid)) \<noteq> Ok ()"
    by (simp add: lease_fenced_header_def demo_lease_def demo_history_slots slot_held_by_def)
next
  show "demo_lease some_uuid \<in> set (acquired_leases demo_dir some_uuid some_uuid (demo_history some_uuid) empty_redis)"
    by (simp only: demo_acquired) simp
qed (simp_all add: demo_history_def)

end
