(* ===== verification/TunnelStream.thy ===== *)
theory TunnelStream
  imports TunnelDirectory
begin

text \<open>
  Reliable tunnel sessions of \<open>crates/buzz-relay/src/tunnel/reliable.rs\<close> over the directory: joining
  (become owner, stay local, or forward to the owner), accepting an inbound stream, the frame codec, sending
  in chunks, receiving behind the fence, and the background renewal of a lease.

  A mesh stream is what has yet to arrive on it (frames or transport errors), what was sent, and how many
  more frames the link accepts before sends fail.
\<close>

section \<open>Mesh frames and streams\<close>

datatype goodbye_reason = SessionEnded | Draining | ReasonStaleGeneration

datatype stream_role = Control | Session fenced_header profile

record stream_hello =
  hello_sender :: runtime_id
  hello_role :: stream_role

datatype mesh_stream_frame = HelloFrame stream_hello | DataFrame fenced_header bytes
  | GoodbyeFrame fenced_header goodbye_reason | GossipFrame bytes

record mesh_stream =
  ms_in :: "(mesh_error + mesh_stream_frame) list"
  ms_out :: "mesh_stream_frame list"
  ms_room :: "nat option"
  ms_peer :: runtime_id
  ms_finished :: bool

definition send_frame :: "mesh_stream_frame \<Rightarrow> mesh_stream \<Rightarrow> mesh_stream \<times> (mesh_error + unit)" where
  "send_frame f m =
     (case ms_room m of
        None \<Rightarrow> (m\<lparr>ms_out := ms_out m @ [f]\<rparr>, Ok ())
      | Some n \<Rightarrow> if n = 0 then (m, Err (PeerNotConnected (ms_peer m)))
                  else (m\<lparr>ms_out := ms_out m @ [f], ms_room := Some (n - 1)\<rparr>, Ok ()))"

definition recv_frame :: "mesh_stream \<Rightarrow> mesh_stream \<times> (mesh_error + mesh_stream_frame option)" where
  "recv_frame m =
     (case ms_in m of
        [] \<Rightarrow> (m, Ok None)
      | Inl e # rest \<Rightarrow> (m\<lparr>ms_in := rest\<rparr>, Err e)
      | Inr f # rest \<Rightarrow> (m\<lparr>ms_in := rest\<rparr>, Ok (Some f)))"

datatype reliable_error = DirectoryErr directory_error | MeshErr mesh_error
  | ProfileMismatch uuid profile profile
  | SenderMismatch runtime_id runtime_id
  | UnexpectedStreamRole
  | OwnerIsNotLocal uuid runtime_id runtime_id
  | UnexpectedFrame string
  | FrameFenceMismatch fenced_header fenced_header
  | CommunityMismatch uuid uuid
  | MalformedReliableFrame string

definition mesh_err :: "mesh_error + 'a \<Rightarrow> reliable_error + 'a" where
  "mesh_err r = (case r of Inl e \<Rightarrow> Err (MeshErr e) | Inr a \<Rightarrow> Ok a)"

section \<open>The frame codec\<close>

datatype reliable_wire_frame = WireData uuid bytes | WireGoodbye uuid goodbye_reason

fun wire_community_id :: "reliable_wire_frame \<Rightarrow> uuid" where
  "wire_community_id (WireData c _) = c"
| "wire_community_id (WireGoodbye c _) = c"

fun reason_to_wire_byte :: "goodbye_reason \<Rightarrow> u8" where
  "reason_to_wire_byte SessionEnded = 1"
| "reason_to_wire_byte Draining = 2"
| "reason_to_wire_byte ReasonStaleGeneration = 3"

definition reason_from_wire_byte :: "u8 \<Rightarrow> reliable_error + goodbye_reason" where
  "reason_from_wire_byte b =
     (if b = 1 then Ok SessionEnded else if b = 2 then Ok Draining
      else if b = 3 then Ok ReasonStaleGeneration
      else Err (MalformedReliableFrame ''unknown goodbye reason''))"

fun encode_reliable :: "reliable_wire_frame \<Rightarrow> bytes" where
  "encode_reliable (WireData c payload) = [1, 1] @ uuid_bytes c @ payload"
| "encode_reliable (WireGoodbye c reason) = [1, 2] @ uuid_bytes c @ [reason_to_wire_byte reason]"

definition decode_reliable :: "bytes \<Rightarrow> reliable_error + reliable_wire_frame" where
  "decode_reliable b =
     (if length b < 18 then Err (MalformedReliableFrame ''too short'')
      else if b ! 0 \<noteq> 1 then Err (MalformedReliableFrame ''unknown version'')
      else let c = mk_uuid (take 16 (drop 2 b))
           in if b ! 1 = 1 then Ok (WireData c (drop 18 b))
              else if b ! 1 = 2 then
                if length b \<noteq> 19 then Err (MalformedReliableFrame ''bad goodbye length'')
                else and_then (reason_from_wire_byte (b ! 18)) (\<lambda>reason. Ok (WireGoodbye c reason))
              else Err (MalformedReliableFrame ''unknown kind''))"

lemma reason_wire: "reason_from_wire_byte (reason_to_wire_byte r) = Ok r"
  by (cases r) (simp_all add: reason_from_wire_byte_def)

lemma reason_wire_sound: "reason_from_wire_byte b = Ok r \<Longrightarrow> reason_to_wire_byte r = b"
  by (auto simp: reason_from_wire_byte_def split: if_splits)

lemma long_list_split:
  assumes "18 \<le> length b"
  shows "b = [b ! 0, b ! 1] @ take 16 (drop 2 b) @ drop 18 b"
proof -
  obtain x y r where b: "b = x # y # r" using assms by (cases b; cases "tl b") auto
  then show ?thesis using append_take_drop_id [of 16 r] by simp
qed

lemma reliable_codec_exact_aux:
  "decode_reliable b = Ok f \<longleftrightarrow> b = encode_reliable f"
proof
  assume "b = encode_reliable f"
  then show "decode_reliable b = Ok f"
    by (cases f) (simp_all add: decode_reliable_def reason_wire nth_append numeral_eq_Suc)
next
  assume dec: "decode_reliable b = Ok f"
  then have len: "18 \<le> length b" and v: "b ! 0 = 1"
    by (auto simp: decode_reliable_def split: if_splits)
  note split = long_list_split [OF len]
  have c: "uuid_bytes (mk_uuid (take 16 (drop 2 b))) = take 16 (drop 2 b)" using len by simp
  show "b = encode_reliable f"
  proof (cases "b ! 1 = 1")
    case True
    then have "f = WireData (mk_uuid (take 16 (drop 2 b))) (drop 18 b)"
      using dec len v by (simp add: decode_reliable_def Let_def)
    then show ?thesis using split v True c by simp
  next
    case False
    then obtain r where "b ! 1 = 2" "length b = 19" "reason_from_wire_byte (b ! 18) = Ok r"
        "f = WireGoodbye (mk_uuid (take 16 (drop 2 b))) r"
      using dec len v by (auto simp: decode_reliable_def Let_def split: if_splits)
    moreover from this have "drop 18 b = [reason_to_wire_byte r]"
      by (auto simp: Cons_nth_drop_Suc [of 18 b, symmetric] dest: reason_wire_sound)
    ultimately show ?thesis using split v c by simp
  qed
qed

text \<open>
  Reliable frames. Decoding accepts exactly the encodings of frames, and each as the frame it
  came from: no other bytes are accepted and no two frames share an encoding.
\<close>

theorem reliable_codec_exact:
  "decode_reliable b = Ok f \<longleftrightarrow> b = encode_reliable f"
  by (rule reliable_codec_exact_aux)

section \<open>Streams pinned to a session\<close>

record reliable_stream =
  rs_fenced :: fenced_header
  rs_stream :: mesh_stream
  rs_community :: "uuid option"

definition new_reliable_stream :: "fenced_header \<Rightarrow> mesh_stream \<Rightarrow> reliable_stream" where
  "new_reliable_stream fenced stream =
     \<lparr>rs_fenced = fenced, rs_stream = stream, rs_community = None\<rparr>"

definition with_community :: "uuid \<Rightarrow> reliable_stream \<Rightarrow> reliable_stream" where
  "with_community c rs = rs\<lparr>rs_community := Some c\<rparr>"

definition ensure_outbound_community ::
  "uuid \<Rightarrow> reliable_stream \<Rightarrow> reliable_stream \<times> (reliable_error + unit)" where
  "ensure_outbound_community c rs =
     (case rs_community rs of
        Some expected \<Rightarrow> if expected \<noteq> c then (rs, Err (CommunityMismatch expected c)) else (rs, Ok ())
      | None \<Rightarrow> (rs\<lparr>rs_community := Some c\<rparr>, Ok ()))"

definition MAX_RELIABLE_PAYLOAD_BYTES :: nat where
  "MAX_RELIABLE_PAYLOAD_BYTES = 1024 * 1024"

text \<open>Rust's \<open>slice::chunks\<close>, for a positive size.\<close>

function chunks :: "nat \<Rightarrow> 'a list \<Rightarrow> 'a list list" where
  "chunks n xs = (if xs = [] \<or> n = 0 then [] else take n xs # chunks n (drop n xs))"
  by pat_completeness auto
termination by (relation "measure (\<lambda>(n, xs). length xs)") auto

declare chunks.simps [simp del]

fun send_chunks ::
  "uuid \<Rightarrow> bytes list \<Rightarrow> reliable_stream \<Rightarrow> reliable_stream \<times> (reliable_error + unit)" where
  "send_chunks c [] rs = (rs, Ok ())"
| "send_chunks c (chunk # rest) rs =
     (let (m, r) = send_frame (DataFrame (rs_fenced rs) (encode_reliable (WireData c chunk))) (rs_stream rs);
          rs = rs\<lparr>rs_stream := m\<rparr>
      in guarded (mesh_err r) rs (\<lambda>_. send_chunks c rest rs))"

definition send_bytes ::
  "uuid \<Rightarrow> bytes \<Rightarrow> reliable_stream \<Rightarrow> reliable_stream \<times> (reliable_error + unit)" where
  "send_bytes c b rs =
     (let (rs, r) = ensure_outbound_community c rs
      in guarded r rs (\<lambda>_. send_chunks c (chunks MAX_RELIABLE_PAYLOAD_BYTES b) rs))"

definition finish_stream :: "reliable_stream \<Rightarrow> reliable_stream" where
  "finish_stream rs = rs\<lparr>rs_stream := (rs_stream rs)\<lparr>ms_finished := True\<rparr>\<rparr>"

definition send_goodbye ::
  "uuid \<Rightarrow> goodbye_reason \<Rightarrow> reliable_stream \<Rightarrow> reliable_stream \<times> (reliable_error + unit)" where
  "send_goodbye c reason rs =
     (let (rs, r) = ensure_outbound_community c rs
      in guarded r rs (\<lambda>_.
           let (m, r) = send_frame (DataFrame (rs_fenced rs) (encode_reliable (WireGoodbye c reason))) (rs_stream rs);
               rs = rs\<lparr>rs_stream := m\<rparr>
           in guarded (mesh_err r) rs (\<lambda>_. (finish_stream rs, Ok ()))))"

text \<open>The directory is asked at the instant \<open>now\<close> over a connection \<open>net\<close>.\<close>

definition validate_frame_fence ::
  "dir_lib \<Rightarrow> net \<Rightarrow> nat \<Rightarrow> redis \<Rightarrow> uuid \<Rightarrow> fenced_header \<Rightarrow> reliable_stream
     \<Rightarrow> reliable_stream \<times> (reliable_error + unit)" where
  "validate_frame_fence lib net now st c fenced rs =
     (if fenced \<noteq> rs_fenced rs then (rs, Err (FrameFenceMismatch (rs_fenced rs) fenced))
      else if rs_community rs \<noteq> None \<and> rs_community rs \<noteq> Some c
      then (rs, Err (CommunityMismatch (the (rs_community rs)) c))
      else guarded (mesh_err (validate_fenced_header lib net now c fenced st)) rs (\<lambda>_.
             (if rs_community rs = None then rs\<lparr>rs_community := Some c\<rparr> else rs, Ok ())))"

datatype reliable_frame = FrameData bytes | FrameGoodbye goodbye_reason

definition recv_validated ::
  "dir_lib \<Rightarrow> net \<Rightarrow> nat \<Rightarrow> redis \<Rightarrow> reliable_stream
     \<Rightarrow> reliable_stream \<times> (reliable_error + reliable_frame option)" where
  "recv_validated lib net now st rs =
     (let (m, r) = recv_frame (rs_stream rs); rs = rs\<lparr>rs_stream := m\<rparr>
      in guarded (mesh_err r) rs (\<lambda>got.
           case got of
             None \<Rightarrow> (rs, Ok None)
           | Some (DataFrame fenced payload) \<Rightarrow>
               guarded (decode_reliable payload) rs (\<lambda>frame.
                 let (rs, r) = validate_frame_fence lib net now st (wire_community_id frame) fenced rs
                 in guarded r rs (\<lambda>_.
                      (rs, Ok (Some (case frame of WireData _ p \<Rightarrow> FrameData p
                                                 | WireGoodbye _ reason \<Rightarrow> FrameGoodbye reason)))))
           | Some (GoodbyeFrame _ _) \<Rightarrow> (rs, Err (UnexpectedFrame ''goodbye''))
           | Some (HelloFrame _) \<Rightarrow> (rs, Err (UnexpectedFrame ''hello''))
           | Some (GossipFrame _) \<Rightarrow> (rs, Err (UnexpectedFrame ''gossip''))))"

section \<open>Joining\<close>

datatype reliable_join = Owned session_lease | Forwarded session_lease reliable_stream

record reliable_inbound =
  ri_fenced :: fenced_header
  ri_from :: runtime_id
  ri_stream :: reliable_stream

text \<open>\<open>open_stream\<close> is the mesh transport's \<open>open_session_stream\<close>.\<close>

definition join_session ::
  "dir_lib \<Rightarrow> (runtime_id \<Rightarrow> stream_hello \<Rightarrow> mesh_error + mesh_stream) \<Rightarrow> net \<Rightarrow> nat \<Rightarrow> nat \<Rightarrow> runtime_id
     \<Rightarrow> uuid \<Rightarrow> uuid \<Rightarrow> redis \<Rightarrow> redis \<times> (reliable_error + reliable_join)" where
  "join_session lib open_stream net ttl now local c s st =
     (let (st, r) = acquire lib net ttl now c s local ReliableStream st
      in case r of
           Inl e \<Rightarrow> (st, Err (DirectoryErr e))
         | Inr (Acquired lease) \<Rightarrow> (st, Ok (Owned lease))
         | Inr (Exists lease) \<Rightarrow>
             if sl_profile lease \<noteq> ReliableStream
             then (st, Err (ProfileMismatch s ReliableStream (sl_profile lease)))
             else if sl_owner lease = local then (st, Ok (Owned lease))
             else let fenced = lease_fenced_header lease;
                      hello = \<lparr>hello_sender = local, hello_role = Session fenced ReliableStream\<rparr>
                  in guarded (mesh_err (open_stream (sl_owner lease) hello)) st (\<lambda>stream.
                       (st, Ok (Forwarded lease (new_reliable_stream fenced stream)))))"

definition accept_inbound ::
  "runtime_id \<Rightarrow> runtime_id \<Rightarrow> stream_hello \<Rightarrow> mesh_stream \<Rightarrow> reliable_error + reliable_inbound" where
  "accept_inbound local from hello stream =
     (if hello_sender hello \<noteq> from then Err (SenderMismatch from (hello_sender hello))
      else case hello_role hello of
             Control \<Rightarrow> Err UnexpectedStreamRole
           | Session fenced prof \<Rightarrow>
               if prof \<noteq> ReliableStream
               then Err (ProfileMismatch (fh_session fenced) ReliableStream prof)
               else if fh_owner fenced \<noteq> local
               then Err (OwnerIsNotLocal (fh_session fenced) (fh_owner fenced) local)
               else Ok \<lparr>ri_fenced = fenced, ri_from = from, ri_stream = new_reliable_stream fenced stream\<rparr>)"

section \<open>Renewal in the background\<close>

text \<open>
  What wakes the renewer: the caller's cancellation or a tick of its interval (with the connection
  and instant of the renewal). The loop runs until one of them breaks it; \<open>None\<close> is a loop still
  running. The result says whether the caller cancelled, and the loss signal.
\<close>

datatype wake = CancelWake | TickWake net nat

fun renewer_loop ::
  "dir_lib \<Rightarrow> nat \<Rightarrow> session_lease \<Rightarrow> wake list \<Rightarrow> redis \<Rightarrow> redis \<times> (bool \<times> bool) option" where
  "renewer_loop lib ttl lease [] st = (st, None)"
| "renewer_loop lib ttl lease (CancelWake # ws) st = (st, Some (True, False))"
| "renewer_loop lib ttl lease (TickWake net now # ws) st =
     (let (st, r) = renew lib net ttl now lease st
      in case r of
           Inr (Renewed _) \<Rightarrow> renewer_loop lib ttl lease ws st
         | Inr (Lost _ _) \<Rightarrow> (st, Some (False, True))
         | Inl _ \<Rightarrow> (st, Some (False, True)))"

definition lease_renewer ::
  "dir_lib \<Rightarrow> nat \<Rightarrow> session_lease \<Rightarrow> wake list \<Rightarrow> net \<Rightarrow> nat \<Rightarrow> redis \<Rightarrow> redis \<times> bool option" where
  "lease_renewer lib ttl lease ws net now st =
     (case renewer_loop lib ttl lease ws st of
        (st, None) \<Rightarrow> (st, None)
      | (st, Some (caller_cancelled, lost)) \<Rightarrow>
          let (st, r) = release lib net now lease st
          in (st, Some (case r of
                Inr (Released _) \<Rightarrow> lost
              | Inr (NotOwner _ _) \<Rightarrow> True
              | Inl _ \<Rightarrow> if caller_cancelled then lost else True)))"

section \<open>Delivery\<close>

lemma chunks_Nil [simp]: "chunks n [] = []"
  by (simp add: chunks.simps)

lemma chunks_step: "xs \<noteq> [] \<Longrightarrow> 0 < n \<Longrightarrow> chunks n xs = take n xs # chunks n (drop n xs)"
  by (subst chunks.simps) simp

lemma concat_chunks: "0 < n \<Longrightarrow> concat (chunks n xs) = xs"
proof (induction n xs rule: chunks.induct)
  case (1 n xs)
  then show ?case by (cases "xs = []") (simp_all add: chunks_step)
qed

lemma length_chunks: "0 < n \<Longrightarrow> length (chunks n xs) = (length xs + n - 1) div n"
proof (induction n xs rule: chunks.induct)
  case (1 n xs)
  show ?case
  proof (cases "xs = []")
    case False
    have "Suc ((length xs - n + n - 1) div n) = (length xs + n - 1) div n"
    proof (cases "length xs \<le> n")
      case True
      have "length xs + n - 1 = n + (length xs - 1)" "length xs - 1 < n"
        using True False by (cases xs; simp)+
      then have "(length xs + n - 1) div n = 1"
        by (metis add.commute div_add_self1 div_less add_0 less_nat_zero_code)
      then show ?thesis using True 1 by simp
    next
      case False
      then have eqs: "length xs + n - 1 = n + (length xs - 1)" "length xs - n + n - 1 = length xs - 1" by simp_all
      have "(n + (length xs - 1)) div n = Suc ((length xs - 1) div n)"
        by (subst div_add_self1) (use 1 in simp_all)
      then show ?thesis by (simp only: eqs)
    qed
    with False 1 show ?thesis by (simp add: chunks_step)
  qed (use 1 in simp)
qed

lemma chunk_sizes: "0 < n \<Longrightarrow> list_all (\<lambda>c. c \<noteq> [] \<and> length c \<le> n) (chunks n xs)"
proof (induction n xs rule: chunks.induct)
  case (1 n xs)
  then show ?case by (cases "xs = []") (simp_all add: chunks_step)
qed

definition data_frame :: "fenced_header \<Rightarrow> uuid \<Rightarrow> bytes \<Rightarrow> mesh_stream_frame" where
  "data_frame fenced c chunk = DataFrame fenced (encode_reliable (WireData c chunk))"

lemma send_chunks_open:
  assumes "ms_room (rs_stream rs) = None"
  shows "send_chunks c cs rs = (rs\<lparr>rs_stream := (rs_stream rs)
      \<lparr>ms_out := ms_out (rs_stream rs) @ map (data_frame (rs_fenced rs) c) cs\<rparr>\<rparr>, Ok ())"
  using assms
  by (induction cs arbitrary: rs) (simp_all add: send_frame_def mesh_err_def data_frame_def)

text \<open>Receiving \<open>n\<close> frames of data; anything else ends it.\<close>

fun recv_data ::
  "dir_lib \<Rightarrow> net \<Rightarrow> nat \<Rightarrow> redis \<Rightarrow> nat \<Rightarrow> reliable_stream \<Rightarrow> reliable_stream \<times> bytes option" where
  "recv_data lib net now st 0 rs = (rs, Some [])"
| "recv_data lib net now st (Suc n) rs =
     (case recv_validated lib net now st rs of
        (rs, Inr (Some (FrameData p))) \<Rightarrow>
          (let (rs, more) = recv_data lib net now st n rs in (rs, map_option ((@) p) more))
      | (rs, _) \<Rightarrow> (rs, None))"

lemma recv_data_frames:
  assumes "validate_fenced_header lib net now c (rs_fenced rs) st = Ok ()"
    and "rs_community rs = None \<or> rs_community rs = Some c"
    and "ms_in (rs_stream rs) = map (Ok \<circ> data_frame (rs_fenced rs) c) cs"
  shows "snd (recv_data lib net now st (length cs) rs) = Some (concat cs)"
  using assms
proof (induction cs arbitrary: rs)
  case (Cons p cs)
  let ?rs = "rs\<lparr>rs_stream := (rs_stream rs)\<lparr>ms_in := map (Ok \<circ> data_frame (rs_fenced rs) c) cs\<rparr>,
      rs_community := Some c\<rparr>"
  have "decode_reliable (encode_reliable (WireData c p)) = Ok (WireData c p)"
    by (simp add: reliable_codec_exact_aux)
  then have "recv_validated lib net now st rs = (?rs, Ok (Some (FrameData p)))"
    using Cons.prems
    by (auto simp: recv_validated_def recv_frame_def data_frame_def mesh_err_def validate_frame_fence_def)
  moreover have "snd (recv_data lib net now st (length cs) ?rs) = Some (concat cs)"
    by (rule Cons.IH) (use Cons.prems in simp_all)
  ultimately show ?case by (simp add: case_prod_unfold Let_def)
qed simp

text \<open>
  C40 (Bytes arrive whole). Bytes sent on a pinned stream over a link that takes every frame leave as data frames
  of at most 1 MiB and at least one byte each, as few as possible, whose payloads are the bytes in order. If the
  link delivers them all in order and the directory confirms the fence for the whole transfer, the receiver reads
  exactly the bytes that were sent.
\<close>

theorem reliable_delivery:
  assumes "ms_room (rs_stream snd_rs) = None" "rs_community snd_rs = None \<or> rs_community snd_rs = Some c"
    and "rs_fenced rcv_rs = rs_fenced snd_rs" "rs_community rcv_rs = None \<or> rs_community rcv_rs = Some c"
    and "ms_out (rs_stream snd_rs) = []" "send_bytes c b snd_rs = (snd_rs', r)"
    and "ms_in (rs_stream rcv_rs) = map Ok (ms_out (rs_stream snd_rs'))"
    and "validate_fenced_header lib net now c (rs_fenced rcv_rs) st = Ok ()"
  shows "r = Ok ()
    \<and> (\<exists>payloads. ms_out (rs_stream snd_rs') = map (data_frame (rs_fenced snd_rs) c) payloads \<and> concat payloads = b
          \<and> list_all (\<lambda>p. p \<noteq> [] \<and> length p \<le> 1048576) payloads)
    \<and> length (ms_out (rs_stream snd_rs')) = (length b + 1048575) div 1048576
    \<and> snd (recv_data lib net now st (length (ms_out (rs_stream snd_rs'))) rcv_rs) = Some b"
proof -
  let ?n = MAX_RELIABLE_PAYLOAD_BYTES
  have pos: "0 < ?n" by (simp add: MAX_RELIABLE_PAYLOAD_BYTES_def)
  obtain rs1 where ens: "ensure_outbound_community c snd_rs = (rs1, Ok ())"
      "rs_stream rs1 = rs_stream snd_rs" "rs_fenced rs1 = rs_fenced snd_rs"
    using assms(2) by (auto simp: ensure_outbound_community_def)
  have out: "ms_out (rs_stream snd_rs') = map (data_frame (rs_fenced snd_rs) c) (chunks ?n b)" "r = Ok ()"
    using assms(6) ens send_chunks_open [of rs1] assms(1,5) by (auto simp: send_bytes_def)
  have "snd (recv_data lib net now st (length (chunks ?n b)) rcv_rs) = Some (concat (chunks ?n b))"
    by (rule recv_data_frames [OF assms(8,4)]) (simp add: assms(7) out(1) assms(3) comp_def)
  then have "snd (recv_data lib net now st (length (ms_out (rs_stream snd_rs'))) rcv_rs) = Some b"
    using out by (simp add: concat_chunks [OF pos])
  moreover have "length (ms_out (rs_stream snd_rs')) = (length b + 1048575) div 1048576"
    using length_chunks [OF pos, of b] out by (simp add: MAX_RELIABLE_PAYLOAD_BYTES_def)
  moreover have "list_all (\<lambda>p. p \<noteq> [] \<and> length p \<le> 1048576) (chunks ?n b)"
    using chunk_sizes [OF pos, of b] by (simp add: MAX_RELIABLE_PAYLOAD_BYTES_def)
  ultimately show ?thesis using out concat_chunks [OF pos, of b] by blast
qed

text \<open>
  Only fenced frames are delivered. Whatever arrives on a stream, a delivered frame came
  behind the stream's own fence, for the community the stream is latched to, and at that instant the directory had
  exactly that owner and generation as the live holder of the session.
\<close>

theorem delivered_frames_are_fenced:
  assumes "dir_laws lib" "length ops < 10 ^ 14"
    and "recv_validated lib NetOk now (dir_run lib ops) rs = (rs', Ok (Some f))"
  shows "\<exists>c payload rest. ms_in (rs_stream rs) = Ok (DataFrame (rs_fenced rs) payload) # rest
    \<and> ms_in (rs_stream rs') = rest \<and> rs_fenced rs' = rs_fenced rs
    \<and> rs_community rs' = Some c \<and> (rs_community rs = None \<or> rs_community rs = Some c)
    \<and> payload = encode_reliable (case f of FrameData p \<Rightarrow> WireData c p | FrameGoodbye g \<Rightarrow> WireGoodbye c g)
    \<and> slot_held_by now (fh_owner (rs_fenced rs)) (unat (fh_generation (rs_fenced rs)))
        (slot_run ops (c, fh_session (rs_fenced rs)))"
proof -
  obtain fenced payload rest where inp: "ms_in (rs_stream rs) = Ok (DataFrame fenced payload) # rest"
    using assms(3)
    by (auto simp: recv_validated_def recv_frame_def mesh_err_def Let_def
        split: list.splits sum.splits mesh_stream_frame.splits)
  obtain w where w: "decode_reliable payload = Ok w"
    using assms(3) by (cases "decode_reliable payload")
      (auto simp: recv_validated_def recv_frame_def mesh_err_def inp)
  let ?c = "wire_community_id w"
  let ?rs = "rs\<lparr>rs_stream := (rs_stream rs)\<lparr>ms_in := rest\<rparr>\<rparr>"
  obtain rs1 where val: "validate_frame_fence lib NetOk now (dir_run lib ops) ?c fenced ?rs = (rs1, Ok ())"
    and out: "rs' = rs1" "f = (case w of WireData _ p \<Rightarrow> FrameData p | WireGoodbye _ g \<Rightarrow> FrameGoodbye g)"
  proof -
    obtain rs2 r where v: "validate_frame_fence lib NetOk now (dir_run lib ops) ?c fenced ?rs = (rs2, r)"
      by fastforce
    show ?thesis
      using assms(3) v
      by (cases r) (auto simp: recv_validated_def recv_frame_def mesh_err_def inp w intro: that)
  qed
  have fence: "fenced = rs_fenced rs" "rs_community rs = None \<or> rs_community rs = Some ?c"
    and ok: "validate_fenced_header lib NetOk now ?c fenced (dir_run lib ops) = Ok ()"
    and rs1: "rs1 = ?rs\<lparr>rs_community := Some ?c\<rparr>"
    using val by (auto simp: validate_frame_fence_def mesh_err_def guarded_Ok_iff split: if_splits sum.splits)
  have "payload = encode_reliable w" using w by (simp add: reliable_codec_exact_aux)
  then have "payload = encode_reliable (case f of FrameData p \<Rightarrow> WireData ?c p | FrameGoodbye g \<Rightarrow> WireGoodbye ?c g)"
    by (cases w) (simp_all add: out(2))
  then show ?thesis
    using inp fence out(1) rs1 ok validate_held [OF assms(1,2)] by auto
qed

section \<open>Joining reaches the owner\<close>

lemma dir_run_snoc: "dir_run lib (ops @ ops') = fold (dir_step lib) ops' (dir_run lib ops)"
  by (simp add: dir_run_def)

lemma slot_run_snoc: "slot_run (ops @ ops') = fold slot_step ops' (slot_run ops)"
  by (simp add: slot_run_def)

text \<open>
  A join has an owner. A join that succeeds leaves the session with a live owner whose fence
  validates: either this process, or another one to which the stream was opened, pinned to that fence, and whose
  own acceptance check takes the stream it is offered.
\<close>

theorem join_reaches_owner:
  assumes "dir_laws lib" "length ops < 10 ^ 14 - 1" "0 < ttl" "ttl < 2 ^ 63"
    and "join_session lib open_stream NetOk ttl now local c s (dir_run lib ops) = (st', Ok j)"
  shows "case j of
      Owned l \<Rightarrow> sl_owner l = local
        \<and> validate_fenced_header lib NetOk now c (lease_fenced_header l) st' = Ok ()
    | Forwarded l rs \<Rightarrow> sl_owner l \<noteq> local \<and> rs_fenced rs = lease_fenced_header l
        \<and> validate_fenced_header lib NetOk now c (lease_fenced_header l) st' = Ok ()
        \<and> is_ok (accept_inbound (sl_owner l) local
            \<lparr>hello_sender = local, hello_role = Session (lease_fenced_header l) ReliableStream\<rparr> (rs_stream rs))"
proof -
  let ?op = "AcquireOp NetOk ttl now c s local ReliableStream"
  let ?sl = "slot_run ops (c, s)"
  let ?sl' = "slot_acquire ttl now local ReliableStream ?sl"
  have len: "length ops < 10 ^ 14" "length (ops @ [?op]) < 10 ^ 14" using assms(2) by simp_all
  have small: "Suc (slot_generation ?sl) < 10 ^ 14"
    using slot_run_generation [of ops "(c, s)"] assms(2) by simp
  obtain st1 res where acq: "acquire lib NetOk ttl now c s local ReliableStream (dir_run lib ops) = (st1, res)"
    by fastforce
  have res: "res = Ok ((if slot_live now ?sl then Exists else Acquired) (the (slot_lease c s now ?sl')))"
    using acquire_result [OF assms(1) dir_run_represents [OF assms(1) len(1)] small assms(3,4),
        where r = local and p = ReliableStream and now = now] acq by simp
  obtain l where l: "slot_lease c s now ?sl' = Some l"
  proof (cases "slot_live now ?sl")
    case True
    then obtain r p t where "slot_holder ?sl = Some (r, p, t)" "now < t"
      by (auto simp: slot_live_def split: option.splits)
    then show ?thesis using True by (intro that) (simp add: slot_lease_def slot_acquire_def)
  next
    case False
    then show ?thesis using assms(3) by (intro that) (simp add: slot_lease_def slot_acquire_def)
  qed
  have st1: "st1 = dir_run lib (ops @ [?op])" using acq by (simp add: dir_run_snoc)
  have slot1: "slot_run (ops @ [?op]) (c, s) = ?sl'"
    using assms(3,4) by (simp add: slot_run_snoc ran_def ttl_ms_def)
  have "unat (sl_generation l) = slot_generation ?sl'" "sl_session l = s" "slot_held_by now (sl_owner l) (slot_generation ?sl') ?sl'"
  proof -
    have "slot_generation ?sl' < 2 ^ 64" using small by (simp add: slot_acquire_def)
    then have g: "unat (of_nat (slot_generation ?sl') :: u64) = slot_generation ?sl'" by (simp add: unat_of_nat)
    show "unat (sl_generation l) = slot_generation ?sl'" "sl_session l = s"
      "slot_held_by now (sl_owner l) (slot_generation ?sl') ?sl'"
      using l g by (auto simp: slot_lease_def slot_held_by_def split: option.splits prod.splits if_splits)
  qed
  then have valid: "validate_fenced_header lib NetOk now c (lease_fenced_header l) st1 = Ok ()"
    unfolding st1 validate_held [OF assms(1) len(2)] by (simp add: lease_fenced_header_def slot1)
  have own: "sl_owner l = local" if "\<not> slot_live now ?sl"
    using l that assms(3) by (auto simp: slot_acquire_def slot_lease_def)
  show ?thesis
    using assms(5) acq res l valid own
    by (auto simp: join_session_def mesh_err_def accept_inbound_def new_reliable_stream_def Let_def
        guarded_Ok_iff lease_fenced_header_def split: if_splits sum.splits)
qed

section \<open>What the renewer leaves behind\<close>

lemma renewer_ticks:
  assumes "renewer_loop lib ttl lease ws st = (st', out)"
  obtains ops where "st' = fold (dir_step lib) ops st" "length ops \<le> length ws"
    "out = Some (True, b) \<Longrightarrow> CancelWake \<in> set ws \<and> \<not> b" "out = Some (False, b) \<Longrightarrow> b"
proof -
  have "\<exists>ops. st' = fold (dir_step lib) ops st \<and> length ops \<le> length ws
      \<and> (\<forall>b. out = Some (True, b) \<longrightarrow> CancelWake \<in> set ws \<and> \<not> b) \<and> (\<forall>b. out = Some (False, b) \<longrightarrow> b)"
    using assms
  proof (induction ws arbitrary: st)
    case Nil
    then show ?case by (intro exI [of _ "[]"]) simp
  next
    case (Cons w ws)
    show ?case
    proof (cases w)
      case CancelWake
      then have "st' = st" "out = Some (True, False)" using Cons.prems by simp_all
      then show ?thesis using CancelWake by (intro exI [of _ "[]"]) simp
    next
      case (TickWake net now)
      obtain st1 r where r: "renew lib net ttl now lease st = (st1, r)" by fastforce
      then have step: "st1 = fold (dir_step lib) [RenewOp net ttl now lease] st" by simp
      show ?thesis
      proof (cases "\<exists>l. r = Ok (Renewed l)")
        case True
        then have "renewer_loop lib ttl lease ws st1 = (st', out)"
          using Cons.prems r by (auto simp: TickWake)
        from Cons.IH [OF this] obtain ops where
          "st' = fold (dir_step lib) ops st1 \<and> length ops \<le> length ws
            \<and> (\<forall>b. out = Some (True, b) \<longrightarrow> CancelWake \<in> set ws \<and> \<not> b) \<and> (\<forall>b. out = Some (False, b) \<longrightarrow> b)"
          by blast
        then show ?thesis using step by (intro exI [of _ "RenewOp net ttl now lease # ops"]) auto
      next
        case False
        then have "st' = st1" "out = Some (False, True)"
          using Cons.prems r by (auto simp: TickWake split: sum.splits renew_result.splits)
        then show ?thesis using step by (intro exI [of _ "[RenewOp net ttl now lease]"]) simp
      qed
    qed
  qed
  then show ?thesis using that by blast
qed

text \<open>
  The renewer's end. Whenever the renewer of a lease ends and reached the store for its release, the
  lease is no longer held by anyone, in the state it leaves; and if it ends without the loss signal, the
  caller had cancelled it and it released the lease itself while still holding it.
\<close>

theorem renewer_outcome:
  assumes "dir_laws lib" "length ops + length ws + 1 < 10 ^ 14"
    and "lease_renewer lib ttl lease ws NetOk now (dir_run lib ops) = (st', Some lost)"
  shows "\<exists>ops'. st' = dir_run lib (ops @ ops' @ [ReleaseOp NetOk now lease])
    \<and> \<not> slot_held_by now (sl_owner lease) (unat (sl_generation lease))
        (slot_run (ops @ ops' @ [ReleaseOp NetOk now lease]) (sl_community lease, sl_session lease))
    \<and> (lost \<or> CancelWake \<in> set ws \<and> slot_held_by now (sl_owner lease) (unat (sl_generation lease))
        (slot_run (ops @ ops') (sl_community lease, sl_session lease)))"
proof -
  let ?k = "(sl_community lease, sl_session lease)" and ?g = "unat (sl_generation lease)"
  obtain st1 out where loop: "renewer_loop lib ttl lease ws (dir_run lib ops) = (st1, out)" by fastforce
  then obtain cc b where out: "out = Some (cc, b)"
    using assms(3) by (cases out) (auto simp: lease_renewer_def)
  obtain ops' where ops': "st1 = fold (dir_step lib) ops' (dir_run lib ops)" "length ops' \<le> length ws"
      "cc \<Longrightarrow> CancelWake \<in> set ws \<and> \<not> b" "\<not> cc \<Longrightarrow> b"
    by (rule renewer_ticks [OF loop, of b]) (use out in \<open>cases cc; blast\<close>)
  have st1: "st1 = dir_run lib (ops @ ops')" by (simp add: ops'(1) dir_run_snoc)
  have len: "length (ops @ ops') < 10 ^ 14" using assms(2) ops'(2) by simp
  note own = represents_slot [OF dir_run_represents [OF assms(1) len], of "sl_community lease" "sl_session lease"]
  have small: "slot_generation (slot_run (ops @ ops') ?k) < 10 ^ 14"
    using slot_run_generation [of "ops @ ops'" ?k] len by simp
  have res: "snd (release lib NetOk now lease st1) = Ok (if slot_held_by now (sl_owner lease) ?g (slot_run (ops @ ops') ?k)
      then Released (the (slot_lease (sl_community lease) (sl_session lease) now (slot_run (ops @ ops') ?k)))
      else NotOwner (slot_lease (sl_community lease) (sl_session lease) now (slot_run (ops @ ops') ?k))
        (slot_known (slot_run (ops @ ops') ?k)))"
    unfolding st1 by (rule release_result [OF assms(1) own small])
  have "st' = fst (release lib NetOk now lease st1)"
    and lost: "lost = (if slot_held_by now (sl_owner lease) ?g (slot_run (ops @ ops') ?k) then b else True)"
    using assms(3) loop out res
    by (auto simp: lease_renewer_def case_prod_unfold Let_def split: if_splits)
  then have "st' = dir_run lib (ops @ ops' @ [ReleaseOp NetOk now lease])"
    using st1 by (simp add: dir_run_snoc flip: append_assoc)
  moreover have "\<not> slot_held_by now (sl_owner lease) ?g (slot_run (ops @ ops' @ [ReleaseOp NetOk now lease]) ?k)"
    by (simp add: slot_run_snoc ran_def Let_def slot_release_def slot_held_by_def flip: append_assoc
        split: option.split)
  ultimately show ?thesis using lost ops'(3,4) by (intro exI [of _ ops']) (auto split: if_splits)
qed

text \<open>
  Cancelling a lost lease signals loss. Although a cancellation by the caller counts as a normal
  shutdown, the loss signal trips when the release finds that the lease was not held any more.
\<close>

theorem cancel_signals_loss:
  assumes "dir_laws lib" "length ops < 10 ^ 14"
  shows "snd (lease_renewer lib ttl lease [CancelWake] NetOk now (dir_run lib ops))
    = Some (\<not> slot_held_by now (sl_owner lease) (unat (sl_generation lease))
        (slot_run ops (sl_community lease, sl_session lease)))"
proof -
  let ?k = "(sl_community lease, sl_session lease)"
  have "slot_generation (slot_run ops ?k) < 10 ^ 14"
    using slot_run_generation [of ops ?k] assms(2) by simp
  from release_result [OF assms(1) represents_slot [OF dir_run_represents [OF assms]] this]
  show ?thesis by (simp add: lease_renewer_def case_prod_unfold Let_def)
qed

section \<open>Concrete runs\<close>

definition demo_fence :: "uuid \<Rightarrow> fenced_header" where
  "demo_fence c = lease_fenced_header (demo_lease c)"

definition demo_stream :: "uuid \<Rightarrow> (mesh_error + mesh_stream_frame) list \<Rightarrow> reliable_stream" where
  "demo_stream c frames = new_reliable_stream (demo_fence c)
     \<lparr>ms_in = frames, ms_out = [], ms_room = None, ms_peer = some_runtime, ms_finished = False\<rparr>"

lemma demo_length: "length (demo_history c) < 10 ^ 14"
  by (simp add: demo_history_def)

lemma demo_valid:
  "validate_fenced_header demo_dir NetOk 3 c (demo_fence c) (dir_run demo_dir (demo_history c)) = Ok ()"
  unfolding validate_held [OF demo_dir_laws demo_length]
  by (simp add: demo_fence_def lease_fenced_header_def demo_lease_def demo_history_slots slot_held_by_def)

lemma demo_stream_sel [simp]:
  "rs_fenced (demo_stream c fs) = demo_fence c" "rs_community (demo_stream c fs) = None"
  "ms_room (rs_stream (demo_stream c fs)) = None" "ms_out (rs_stream (demo_stream c fs)) = []"
  "ms_in (rs_stream (demo_stream c fs)) = fs"
  by (simp_all add: demo_stream_def new_reliable_stream_def)

theorem reliable_delivery_witness:
  "\<exists>out. snd (recv_data demo_dir NetOk 3 (dir_run demo_dir (demo_history some_uuid)) (length out)
      (demo_stream some_uuid (map Ok out))) = Some [5, 6, 7]"
proof -
  obtain s r where send: "send_bytes some_uuid [5, 6, 7] (demo_stream some_uuid []) = (s, r)" by fastforce
  have "snd (recv_data demo_dir NetOk 3 (dir_run demo_dir (demo_history some_uuid)) (length (ms_out (rs_stream s)))
      (demo_stream some_uuid (map Ok (ms_out (rs_stream s))))) = Some [5, 6, 7]"
    by (rule reliable_delivery [OF _ _ _ _ _ send, THEN conjunct2, THEN conjunct2, THEN conjunct2])
      (simp_all add: demo_valid)
  then show ?thesis by blast
qed

theorem delivered_frames_are_fenced_witness:
  "slot_held_by 3 (fh_owner (demo_fence some_uuid)) (unat (fh_generation (demo_fence some_uuid)))
     (slot_run (demo_history some_uuid) (some_uuid, fh_session (demo_fence some_uuid)))"
proof -
  let ?rs = "demo_stream some_uuid [Ok (data_frame (demo_fence some_uuid) some_uuid [5])]"
  have "decode_reliable (encode_reliable (WireData some_uuid [5])) = Ok (WireData some_uuid [5])"
    by (simp add: reliable_codec_exact_aux)
  then have "\<exists>rs'. recv_validated demo_dir NetOk 3 (dir_run demo_dir (demo_history some_uuid)) ?rs
      = (rs', Ok (Some (FrameData [5]))) \<and> rs_community rs' = Some some_uuid"
    by (simp add: recv_validated_def recv_frame_def data_frame_def mesh_err_def validate_frame_fence_def demo_valid)
  then obtain rs' where r: "recv_validated demo_dir NetOk 3 (dir_run demo_dir (demo_history some_uuid)) ?rs
      = (rs', Ok (Some (FrameData [5])))" "rs_community rs' = Some some_uuid" by blast
  from delivered_frames_are_fenced [OF demo_dir_laws demo_length r(1)] r(2) show ?thesis by auto
qed

definition no_peer :: "runtime_id \<Rightarrow> stream_hello \<Rightarrow> mesh_error + mesh_stream" where
  "no_peer r hello = Err (PeerNotConnected r)"

theorem join_reaches_owner_witness:
  "\<exists>l st'. join_session demo_dir no_peer NetOk 10 0 some_runtime some_uuid some_uuid (dir_run demo_dir []) = (st', Ok (Owned l))
     \<and> validate_fenced_header demo_dir NetOk 0 some_uuid (lease_fenced_header l) st' = Ok ()"
proof -
  have "snd (acquire demo_dir NetOk 10 0 some_uuid some_uuid some_runtime ReliableStream (dir_run demo_dir []))
      = Ok (Acquired (demo_lease some_uuid))"
    using acquire_result [OF demo_dir_laws represents_empty, where c = some_uuid and s = some_uuid and ttl = 10 and now = 0
        and r = some_runtime and p = ReliableStream]
    by (simp add: dir_run_def free_slots_def slot_live_def slot_acquire_def slot_lease_def demo_lease_def)
  then obtain st' where j: "join_session demo_dir no_peer NetOk 10 0 some_runtime some_uuid some_uuid (dir_run demo_dir [])
      = (st', Ok (Owned (demo_lease some_uuid)))"
    by (cases "acquire demo_dir NetOk 10 0 some_uuid some_uuid some_runtime ReliableStream (dir_run demo_dir [])")
      (simp add: join_session_def)
  have "length ([] :: dir_op list) < 10 ^ 14 - 1" by simp
  from join_reaches_owner [OF demo_dir_laws this _ _ j] have
    "validate_fenced_header demo_dir NetOk 0 some_uuid (lease_fenced_header (demo_lease some_uuid)) st' = Ok ()" by simp
  then show ?thesis using j by blast
qed

theorem cancel_signals_loss_witness:
  "snd (lease_renewer demo_dir 10 (demo_lease some_uuid) [CancelWake] NetOk 10 (dir_run demo_dir (demo_history some_uuid))) = Some True"
  using cancel_signals_loss [OF demo_dir_laws demo_length, of 10 "demo_lease some_uuid" 10 some_uuid]
  by (simp add: demo_lease_def demo_history_slots slot_held_by_def)

theorem renewer_outcome_witness:
  "\<exists>st' lost. lease_renewer demo_dir 10 (demo_lease some_uuid) [CancelWake] NetOk 3 (dir_run demo_dir (demo_history some_uuid)) = (st', Some lost)
     \<and> (\<exists>ops'. st' = dir_run demo_dir (demo_history some_uuid @ ops' @ [ReleaseOp NetOk 3 (demo_lease some_uuid)])
          \<and> \<not> slot_held_by 3 some_runtime 1
              (slot_run (demo_history some_uuid @ ops' @ [ReleaseOp NetOk 3 (demo_lease some_uuid)]) (some_uuid, some_uuid)))"
proof -
  obtain st' lost where r: "lease_renewer demo_dir 10 (demo_lease some_uuid) [CancelWake] NetOk 3
      (dir_run demo_dir (demo_history some_uuid)) = (st', Some lost)"
    by (simp add: lease_renewer_def case_prod_unfold Let_def)
  have "length (demo_history some_uuid) + length [CancelWake] + 1 < 10 ^ 14" by (simp add: demo_history_def)
  from renewer_outcome [OF demo_dir_laws this r] r show ?thesis by (auto simp: demo_lease_def)
qed

end
