(* ===== verification/MeshAudio.thy ===== *)
theory MeshAudio
  imports AudioRoom TunnelDirectory
begin

text \<open>
  Huddle audio between relay processes: the generation floor and the media datagrams of
  \<open>crates/buzz-relay/src/audio/mesh.rs\<close>, and the per-frame header of \<open>audio/wire.rs\<close>. The floor is the fence on
  the datagram path, where no store is asked: per session the highest generation seen. Rooms and their
  fan-out are those of \<open>AudioRoom\<close>, the fenced header that of \<open>TunnelDirectory\<close>. \<open>AudioRoom\<close> names
  communities and channels by strings; \<open>chan\<close> is the name of a session's channel.
\<close>

section \<open>The frame header\<close>

definition V2_HEADER_LEN :: nat where
  "V2_HEADER_LEN = 8"

definition FLAG_DTX :: u8 where
  "FLAG_DTX = 1"

text \<open>\<open>fr_level_dbov\<close> is an \<open>i8\<close>, read by \<open>sint\<close>.\<close>

record frame_header =
  fr_seq :: "16 word"
  fr_ts_48k :: u32
  fr_level_dbov :: u8
  fr_flags :: u8

definition u16_from_be :: "u8 \<Rightarrow> u8 \<Rightarrow> 16 word" where
  "u16_from_be a b = or (push_bit 8 (ucast a)) (ucast b)"

definition u32_from_be :: "u8 \<Rightarrow> u8 \<Rightarrow> u8 \<Rightarrow> u8 \<Rightarrow> u32" where
  "u32_from_be a b c d =
     or (push_bit 24 (ucast a)) (or (push_bit 16 (ucast b)) (or (push_bit 8 (ucast c)) (ucast d)))"

definition is_dtx :: "frame_header \<Rightarrow> bool" where
  "is_dtx h \<longleftrightarrow> and (fr_flags h) FLAG_DTX \<noteq> 0"

definition parse_frame_header :: "bytes \<Rightarrow> (frame_header \<times> bytes) option" where
  "parse_frame_header b =
     (if length b < V2_HEADER_LEN then None
      else let raw_level = b ! 6
           in Some (\<lparr>fr_seq = u16_from_be (b ! 0) (b ! 1),
                     fr_ts_48k = u32_from_be (b ! 2) (b ! 3) (b ! 4) (b ! 5),
                     fr_level_dbov = (if - 127 \<le> sint raw_level \<and> sint raw_level \<le> 0 then raw_level else - 127),
                     fr_flags = b ! 7\<rparr>,
                    drop V2_HEADER_LEN b))"

text \<open>The bytes a client authors for a header, in network byte order.\<close>

definition header_bytes :: "frame_header \<Rightarrow> bytes" where
  "header_bytes h = be_bytes 2 (fr_seq h) @ be_bytes 4 (fr_ts_48k h) @ [fr_level_dbov h, fr_flags h]"

lemma u16_be: "u16_from_be (ucast (drop_bit 8 w)) (ucast w) = w"
  by (rule bit_word_eqI) (auto simp: u16_from_be_def bit_simps)

lemma u32_be:
  "u32_from_be (ucast (drop_bit 24 w)) (ucast (drop_bit 16 w)) (ucast (drop_bit 8 w)) (ucast w) = w"
proof (rule bit_word_eqI)
  fix n assume n: "n < LENGTH(32)"
  consider "n < 8" | "8 \<le> n" "n < 16" | "16 \<le> n" "n < 24" | "24 \<le> n" by linarith
  then show "bit (u32_from_be (ucast (drop_bit 24 w)) (ucast (drop_bit 16 w)) (ucast (drop_bit 8 w)) (ucast w)) n
      = bit w n"
    using n by cases (simp_all add: u32_from_be_def bit_simps, (cases "bit w n"; simp; arith)+)
qed

lemma be_bytes_2: "be_bytes 2 w = [ucast (drop_bit 8 w), ucast w]"
  by (simp add: be_bytes_def numeral_eq_Suc)

lemma be_bytes_4: "be_bytes 4 w = [ucast (drop_bit 24 w), ucast (drop_bit 16 w), ucast (drop_bit 8 w), ucast w]"
  by (simp add: be_bytes_def numeral_eq_Suc)

text \<open>
  Audio headers. Parsing fails exactly on fewer than 8 bytes; the level it reports is always
  between -127 and 0, whatever the client wrote; and the bytes of a header with a level in that range, followed by any
  payload, parse back to that header and that payload.
\<close>

theorem frame_header_parse:
  "(parse_frame_header b = None \<longleftrightarrow> length b < 8)
   \<and> (case parse_frame_header b of None \<Rightarrow> True
      | Some (h, rest) \<Rightarrow> - 127 \<le> sint (fr_level_dbov h) \<and> sint (fr_level_dbov h) \<le> 0 \<and> rest = drop 8 b)
   \<and> parse_frame_header (header_bytes h @ payload)
      = Some (h\<lparr>fr_level_dbov := if sint (fr_level_dbov h) \<in> {- 127..0} then fr_level_dbov h else - 127\<rparr>, payload)"
  by (auto simp: parse_frame_header_def V2_HEADER_LEN_def Let_def header_bytes_def be_bytes_2 be_bytes_4
      nth_Cons' u16_be u32_be)

section \<open>The generation floor\<close>

type_synonym generation_floor = "(uuid, u64) hmap"

datatype fence_verdict = Accept bool | RejectStale u64

definition floor_check :: "uuid \<Rightarrow> u64 \<Rightarrow> generation_floor \<Rightarrow> generation_floor \<times> fence_verdict" where
  "floor_check session gen fl =
     (case map_of fl session of
        Some known \<Rightarrow>
          if gen < known then (fl, RejectStale known)
          else ((if gen > known then AList.update session gen fl else fl), Accept (gen > known))
      | None \<Rightarrow> (AList.update session gen fl, Accept False))"

definition floor_forget :: "uuid \<Rightarrow> generation_floor \<Rightarrow> generation_floor" where
  "floor_forget session fl = AList.delete session fl"

datatype floor_op = CheckOp uuid u64 | ForgetOp uuid

fun floor_step :: "floor_op \<Rightarrow> generation_floor \<Rightarrow> generation_floor" where
  "floor_step (CheckOp s g) fl = fst (floor_check s g fl)"
| "floor_step (ForgetOp s) fl = floor_forget s fl"

definition floor_run :: "floor_op list \<Rightarrow> generation_floor" where
  "floor_run ops = fold floor_step ops []"

text \<open>The generations presented for a session since it was last forgotten, newest first.\<close>

fun presented_step :: "uuid \<Rightarrow> floor_op \<Rightarrow> u64 list \<Rightarrow> u64 list" where
  "presented_step s (CheckOp s' g) gs = (if s' = s then g # gs else gs)"
| "presented_step s (ForgetOp s') gs = (if s' = s then [] else gs)"

definition presented :: "uuid \<Rightarrow> floor_op list \<Rightarrow> u64 list" where
  "presented s ops = fold (presented_step s) ops []"

definition newest :: "u64 list \<Rightarrow> u64 option" where
  "newest gs = (if gs = [] then None else Some (Max (set gs)))"

lemma newest_Cons: "newest (g # gs) = Some (case newest gs of None \<Rightarrow> g | Some k \<Rightarrow> max g k)"
  by (cases gs) (auto simp: newest_def)

lemma floor_is_newest:
  "map_of fl s = newest gs \<Longrightarrow> map_of (floor_step op fl) s = newest (presented_step s op gs)"
  by (cases op)
    (auto simp: floor_check_def floor_forget_def newest_Cons hmap_simps max_def newest_def [of "[]"]
      split: option.splits)

lemma floor_run_newest: "map_of (floor_run ops) s = newest (presented s ops)"
proof -
  have "map_of (fold floor_step ops fl) s = newest (fold (presented_step s) ops gs)"
    if "map_of fl s = newest gs" for fl gs
    using that by (induction ops arbitrary: fl gs) (auto intro: floor_is_newest)
  then show ?thesis by (simp add: floor_run_def presented_def newest_def)
qed

text \<open>
  The media fence. After any frames of any sessions, a frame is accepted exactly when no newer
  generation of its session was presented since the session was last forgotten, and accepting it reports
  whether it is the newest; frames of other sessions never matter.
\<close>

theorem media_fence_exact:
  "snd (floor_check s g (floor_run ops)) =
     (let gs = presented s ops
      in if gs = [] then Accept False
         else if g < Max (set gs) then RejectStale (Max (set gs))
         else Accept (Max (set gs) < g))"
  by (simp add: floor_check_def floor_run_newest newest_def Let_def)

section \<open>Media datagrams\<close>

record mesh_datagram =
  md_fenced :: fenced_header
  md_seq :: u64
  md_payload :: bytes

record mesh_router =
  mr_rooms :: room_manager
  mr_fence :: generation_floor
  mr_local :: runtime_id

definition on_media_datagram ::
  "(uuid \<Rightarrow> string) \<Rightarrow> mesh_datagram \<Rightarrow> mesh_router \<Rightarrow> mesh_router \<times> fence_verdict" where
  "on_media_datagram chan d mr =
     (let session = fh_session (md_fenced d);
          (fl, verdict) = floor_check session (fh_generation (md_fenced d)) (mr_fence mr);
          mr = mr\<lparr>mr_fence := fl\<rparr>
      in case verdict of
           RejectStale _ \<Rightarrow> (mr, verdict)
         | Accept _ \<Rightarrow>
             (case get_unambiguous_by_channel (chan session) (mr_rooms mr) of
                None \<Rightarrow> (mr, verdict)
              | Some room \<Rightarrow>
                  (case md_payload d of
                     [] \<Rightarrow> (mr, verdict)
                   | author_index # rest \<Rightarrow>
                       (let prefixed = [author_index] @ rest
                        in (mr\<lparr>mr_rooms := on_room (deliver_prefixed author_index prefixed) room (mr_rooms mr)\<rparr>,
                            verdict)))))"

text \<open>The sink of a remote peer: each frame as a numbered datagram; failed sends are dropped.\<close>

fun remote_peer_sink :: "fenced_header \<Rightarrow> u64 \<Rightarrow> frame list \<Rightarrow> mesh_datagram list" where
  "remote_peer_sink fenced sq [] = []"
| "remote_peer_sink fenced sq (f # frames) =
     \<lparr>md_fenced = fenced, md_seq = sq, md_payload = f\<rparr> # remote_peer_sink fenced (sq + 1) frames"

text \<open>
  Media across pods. A datagram behind the fence for the one room of its session, authored by a peer of that
  room, does in the room exactly what the peer's own frame would do there; one that is stale changes no room
  and leaves the floor.
\<close>

theorem media_datagram_delivery:
  assumes "map_of (am_heap (mr_rooms mr)) h = Some (room_run community channel ops)"
    and "get_unambiguous_by_channel (chan (fh_session (md_fenced d))) (mr_rooms mr) = Some h"
    and "map_of (ro_peers (room_run community channel ops)) i = Some p"
    and "md_payload d = ap_peer_index p # bytes"
    and "floor_check (fh_session (md_fenced d)) (fh_generation (md_fenced d)) (mr_fence mr) = (fl, v)"
  shows "on_media_datagram chan d mr =
    (case v of
       Accept _ \<Rightarrow> (mr\<lparr>mr_fence := fl, mr_rooms := on_room (broadcast_frame i bytes) h (mr_rooms mr)\<rparr>, v)
     | RejectStale _ \<Rightarrow> (mr, v))"
proof (cases v)
  case (RejectStale k)
  then have "fl = mr_fence mr" using assms(5) by (auto simp: floor_check_def split: option.splits if_splits)
  then show ?thesis using assms(5) RejectStale by (simp add: on_media_datagram_def)
next
  case (Accept b)
  have same: "deliver_prefixed (ap_peer_index p) (ap_peer_index p # bytes) (room_run community channel ops)
      = broadcast_frame i bytes (room_run community channel ops)"
    by (rule frame_fan_out [OF assms(3), THEN conjunct2])
  show ?thesis
    using assms Accept by (simp add: on_media_datagram_def on_room_def same)
qed

theorem media_datagram_delivery_witness:
  "\<exists>mr fl v. on_media_datagram (\<lambda>_. ''h'')
      \<lparr>md_fenced = \<lparr>fh_session = some_uuid, fh_generation = 1, fh_owner = some_runtime\<rparr>, md_seq = 0, md_payload = [0, 7]\<rparr> mr
    = (mr\<lparr>mr_fence := fl, mr_rooms := on_room (broadcast_frame ''1'' [7]) 0 (mr_rooms mr)\<rparr>, Accept v)"
proof -
  let ?mr = "\<lparr>mr_rooms = \<lparr>am_rooms = [((''c'', ''h''), 0)], am_heap = [(0, room_run ''c'' ''h'' two_peers)],
      am_next = 1\<rparr>, mr_fence = [], mr_local = some_runtime\<rparr>"
  let ?d = "\<lparr>md_fenced = \<lparr>fh_session = some_uuid, fh_generation = 1, fh_owner = some_runtime\<rparr>, md_seq = 0, md_payload = [0, 7]\<rparr>"
  have "on_media_datagram (\<lambda>_. ''h'') ?d ?mr =
      (case Accept False of
         Accept _ \<Rightarrow> (?mr\<lparr>mr_fence := [(some_uuid, 1)], mr_rooms := on_room (broadcast_frame ''1'' [7]) 0 (mr_rooms ?mr)\<rparr>, Accept False)
       | RejectStale _ \<Rightarrow> (?mr, Accept False))"
    by (rule media_datagram_delivery [OF _ _ two_peers_run(1)])
      (simp_all add: get_unambiguous_by_channel_def floor_check_def)
  then have "on_media_datagram (\<lambda>_. ''h'') ?d ?mr =
      (?mr\<lparr>mr_fence := [(some_uuid, 1)], mr_rooms := on_room (broadcast_frame ''1'' [7]) 0 (mr_rooms ?mr)\<rparr>, Accept False)"
    by simp
  then show ?thesis by blast
qed

end
