(* ===== verification/Spec2Isabelle.thy ===== *)
theory Spec2Isabelle
  imports Prelude ByteStrings RedisStore Tenant HttpAuth RateLimit HttpDoor AuthScope OwnerAttestation WsAuth AgentOwners RelayRoster RosterTx Invites Channel GitPerms GitManifest GitStore GitPublish GitPackCache GitHydrate GitAnnounce GitHistory GitLoadable GitDemo GitPublication GitRegistry GitWire GitPolicy GitTransport GitPush GitBans EventKinds Moderation ModerationSafety ModerationRules Ingest IngestRules EventFilter Subscription PairingQr Pairing Gossip AcpQueue Conformance AudioRoom AuditLog AuditTamper TunnelDirectory TunnelStream MeshAudio
begin

text \<open>
  Verification of the core logic of Buzz, a Nostr-based messaging platform for people and agents
  (Rust crates under \<open>src/crates\<close>).

  \<^bold>\<open>The program and its parts.\<close> A relay (\<open>buzz-relay\<close>) serves many communities, one per host name. It
  receives Nostr events over websockets and HTTP, stores them and fans each one out to the subscriptions
  that ask for it; it hosts git repositories, audio rooms and tunnel sessions, and keeps an audit log.
  Relay processes of one deployment find each other by gossip (\<open>buzz-relay-mesh\<close>) and share PostgreSQL,
  Redis and an object store. \<open>buzz-core\<close> holds what relay and clients share: event filters, channel
  roles, the push policy of the hosted repositories and the pairing of a second device. Agents run under a
  harness (\<open>buzz-acp\<close>) that queues the events of their channels and hands them over in batches. The
  theories follow these parts; file names below are relative to \<open>src/crates\<close>.

  \<^bold>\<open>Shared theories.\<close>
  \<^item> \<open>Prelude\<close>: results, hash maps, index buckets, strings, decimal numbers, machine integers, and the
    two interfaces \<open>string_codec\<close> (an \<open>as_str\<close> with its \<open>FromStr\<close>) and \<open>invariant_machine\<close> (transition
    functions with an invariant).
  \<^item> \<open>ByteStrings\<close>: fixed-size arrays, big-endian words, UTF-8 validation, signed decimals; UUIDs and
    runtime ids with decidable equality. \<open>RedisStore\<close>: the Redis commands the relay uses, over a store of
    values with expiry; \<open>net\<close> is a call over a connection that may fail before or after it took effect.
  \<^item> \<open>Channel\<close> (\<open>buzz-core/src/channel.rs\<close>): visibility, channel type and member role, with their wire
    strings and permission levels (three interpretations of \<open>string_codec\<close>; roles are a \<open>linorder\<close>).

  \<^bold>\<open>Who may do what.\<close>
  \<^item> \<open>Tenant\<close> (\<open>buzz-core/src/tenant.rs\<close>, \<open>buzz-relay/src/tenant.rs\<close>): from the host of a connection to
    its community. The lemmas say which spellings share a community and that binding fails closed.
  \<^item> \<open>AuthScope\<close> (\<open>buzz-auth/src/scope.rs\<close>, \<open>access.rs\<close>): scopes and channel access.
  \<^item> \<open>HttpAuth\<close>, \<open>RateLimit\<close>, \<open>HttpDoor\<close> (\<open>buzz-auth\<close>, \<open>buzz-pubsub\<close>, \<open>buzz-relay/src/admission.rs\<close>,
    \<open>api/bridge.rs\<close>, \<open>api/invites.rs\<close>): NIP-98 verification, the replay markers and the rate limiter on
    the shared store, and the front door that composes them. The limiter refines an abstract counter;
    the door's theorems are about any sequence of requests of any relay process.
  \<^item> \<open>OwnerAttestation\<close> (\<open>buzz-sdk/src/nip_oa.rs\<close>): the conditions grammar, signing and verification.
  \<^item> \<open>WsAuth\<close>, \<open>AgentOwners\<close> (\<open>buzz-auth/src/nip42.rs\<close>, \<open>buzz-relay/src/handlers/auth.rs\<close>,
    \<open>api/mod.rs\<close>, \<open>connection.rs\<close>, \<open>buzz-db/src/user.rs\<close>): the authentication of a websocket, the bans and
    relay membership it reads, the owner rows it writes; \<open>AgentOwners\<close> interleaves these steps.
  \<^item> \<open>RelayRoster\<close> (\<open>buzz-db/src/relay_members.rs\<close>, \<open>buzz-relay/src/handlers/relay_admin.rs\<close>,
    \<open>buzz-admin\<close>): members, roles and communities. A statement is one step; a handler that reads first
    and writes later is two, with other sessions in between.
  \<^item> \<open>RosterTx\<close> (\<open>bootstrap_owner\<close> and \<open>transfer_ownership\<close> of \<open>buzz-db/src/relay_members.rs\<close>): the two
    transactions that change an owner, statement by statement under \<open>READ COMMITTED\<close>, with private row versions,
    row locks, the advisory lock per key, waiting, abort and commit, next to all other writes of the roster. A
    community keeps one owner while its bootstraps run alone; the program does not see to that, and two that
    overlap leave two owners. A transaction that runs alone takes the measure of its phase down to its end.
  \<^item> \<open>Invites\<close> (\<open>buzz-relay/src/invite_token.rs\<close>, \<open>api/invites.rs\<close>): codes, receipts, minting and claiming.
  \<^item> \<open>GitPerms\<close> (\<open>buzz-core/src/git_perms.rs\<close>): the ref pattern grammar, matching (\<open>None\<close> is the
    \<open>unreachable!\<close>), protection tags and the push decision. The lemmas give parsing as an inverse of
    rendering, matching as a relation on segments, and the decision as one formula over the matching rules.
  \<^item> \<open>EventKinds\<close> (\<open>buzz-core/src/kind.rs\<close>): the kinds of events and their classes.
  \<^item> \<open>Moderation\<close> (\<open>buzz-db/src/moderation.rs\<close>, \<open>buzz-relay/src/handlers/moderation_authz.rs\<close>,
    \<open>moderation_commands.rs\<close>, \<open>report.rs\<close>): bans, timeouts, reports, the action log and the commands on them.
    A handler runs over the tables and a log of effects; before each call \<open>me_others\<close> lets other sessions act
    and \<open>me_fault\<close> may fail it. \<open>ModerationSafety\<close> has the rules for such handlers (\<open>triple\<close>, \<open>denied\<close>) and what
    single statements keep (\<open>run_statement\<close>, \<open>mod_ok\<close>; interpretation \<open>moderation\<close> of \<open>invariant_machine\<close>),
    \<open>ModerationRules\<close> the guarantees of the commands next to arbitrary other sessions.
  \<^item> \<open>Ingest\<close> (\<open>buzz-relay/src/handlers/event.rs\<close>, \<open>ingest.rs\<close>): where an event of a websocket goes, the gates
    an ingested event passes before the handler of its kind or the validation before storage, channel
    membership with its cache, and the request to leave. Each query reads its own snapshot of the tables
    (\<open>in_tables\<close>). \<open>IngestRules\<close> says what an admitted event satisfies and which events go around the ban gate.

  \<^bold>\<open>Events.\<close>
  \<^item> \<open>EventFilter\<close> (\<open>buzz-core/src/filter.rs\<close>, \<open>event.rs\<close>): NIP-01 filters on stored events, equal to the
    specification \<open>filter_spec\<close>.
  \<^item> \<open>Subscription\<close> (\<open>buzz-relay/src/subscription.rs\<close>): the registry of live subscriptions with its five
    indexes. \<open>reg_ok\<close> states that the indexes hold exactly the keys of the registered subscriptions; it
    holds in every state reached by the public operations (interpretation \<open>reg\<close> of
    \<open>invariant_machine\<close>). \<open>fan_out_exact\<close> says that fan-out equals the naive search over all
    subscriptions, \<open>registry_refines_map\<close> that the operations refine updates of one abstract map.
  \<^item> \<open>AuditLog\<close>, \<open>AuditTamper\<close> (\<open>buzz-audit\<close>): the hash chain per community, its verification, and what
    the chain protects (interpretations \<open>audit_action\<close> of \<open>string_codec\<close>, \<open>audit\<close> of \<open>invariant_machine\<close>).
  \<^item> \<open>Conformance\<close> (\<open>buzz-conformance/src\<close>): the trace schema, the check of a step and the replay of a
    trace, characterised by the step relation \<open>allowed\<close> that the TLA+ model's obligations give.

  \<^bold>\<open>Hosted git\<close> (\<open>buzz-relay/src/api/git\<close>, \<open>buzz-db/src/git_repo.rs\<close>, \<open>handlers/side_effects.rs\<close>).
  \<^item> \<open>GitManifest\<close>, \<open>GitStore\<close>, \<open>GitPublish\<close>: manifests and their validation, the object store client over
    a bucket with faults, and the publication of a push by one conditional write. The create-only writes
    share the locale \<open>create_only\<close>, interpreted as \<open>pack_store\<close>, \<open>manifest_store\<close> and \<open>idx_store\<close>.
  \<^item> \<open>GitPackCache\<close>, \<open>GitHydrate\<close>: the bounded pack cache and the reading of a repository.
  \<^item> \<open>GitAnnounce\<close>: the registry of names and the announcement handler as interleaving steps.
  \<^item> \<open>GitHistory\<close>: the step relation \<open>git_step\<close> of concurrent pushes and announcements on one bucket and its
    invariant \<open>git_ok\<close>; \<open>GitLoadable\<close>, \<open>GitPublication\<close>, \<open>GitRegistry\<close> hold what follows: published
    states are never lost, histories do not fork, what an announcement guarantees alone and next to others.
  \<^item> \<open>GitWire\<close>, \<open>GitPolicy\<close>, \<open>GitTransport\<close>: pkt-lines and the ref advertisement, the signed callback of
    the pre-receive hook and the policy decision, the endpoints from request to response. \<open>GitPush\<close> and
    \<open>GitBans\<close> hold the properties of the whole path. \<open>GitDemo\<close> is a small instance for the witnesses.

  \<^bold>\<open>Sessions between devices and relays.\<close>
  \<^item> \<open>PairingQr\<close> and \<open>Pairing\<close> (\<open>buzz-core/src/pairing\<close>): the QR URI and both session state machines.
    Every public method of \<open>PairingSession\<close> is a function to the new session and a result. \<open>eff\<close> gives
    what each method can change; the step relation \<open>protocol\<close> is the abstract specification, and every
    run of a fresh session is a run of it. Order, replay, peer, expiry and terminal-state properties are
    about arbitrary calls with arbitrary events; \<open>honest_pairing\<close> runs both sides together.
  \<^item> \<open>Gossip\<close> (\<open>buzz-relay-mesh/src\<close>): digest and delta anti-entropy on the gossip state and on the
    membership view. Both are last-writer-wins tables: locale \<open>lww_table\<close> has the merge laws once and is
    interpreted on both.
  \<^item> \<open>TunnelDirectory\<close>, \<open>TunnelStream\<close> (\<open>buzz-relay/src/tunnel\<close>): the fenced session directory, its
    refinement to one slot per session, and the reliable streams behind its fence.
  \<^item> \<open>AudioRoom\<close>, \<open>MeshAudio\<close> (\<open>buzz-relay/src/audio\<close>): admission and media indices, the log of roster
    deltas, frame fan-out, the registry of rooms (interpretations \<open>audio\<close> and \<open>rooms\<close> of
    \<open>invariant_machine\<close>), and the media datagrams between relay processes with their generation floor.
  \<^item> \<open>AcpQueue\<close> (\<open>buzz-acp/src/queue.rs\<close>, the \<open>EventQueue\<close> and \<open>parse_thread_tags\<close>): the per-channel
    queue of the agent harness, all thirteen state-changing methods. \<open>queue_ok\<close> is the invariant
    (interpretation \<open>acp\<close> of \<open>invariant_machine\<close>), \<open>held\<close> and \<open>handed_in\<close>/\<open>all_out\<close> account for every
    event with its multiplicity.

  \<^bold>\<open>How code is modelled.\<close> A struct is a record, an enum a datatype, a \<open>Result\<close> a sum with \<open>Err\<close> and \<open>Ok\<close>,
  a hash map an association list with distinct keys whose order is arbitrary (every theorem holds for any
  iteration order) or a map, \<open>&mut self\<close> a state passed and returned. Integers whose width matters
  (pairing versions, gossip heartbeats, sequence numbers, saturating counters, wire headers) are words;
  clocks, lengths and ports are naturals. Bytes are words of width 8 or characters, as the code reads them.
  A database or object store is the tables or objects the code touches, a statement or a
  transaction one atomic step, except that the ownership transactions of \<open>RosterTx\<close> are several steps with locks; arguments of a fault type say which call fails and whether it took effect. A handler that
  makes several calls takes the changes others make in between as functions or is several steps of a
  relation. The recursion of every definition is structural or has a measure, so no fuel is used anywhere.
  Instants are explicit arguments; one clock serves the relay and its stores.

  \<^bold>\<open>What is a parameter.\<close> Cryptography, serialisation and services outside the repository, with what the
  code relies on as a named predicate that a concrete instance satisfies in the witnesses: \<open>codec_laws\<close>,
  \<open>channel_laws\<close>, \<open>pair_laws\<close> (pairing), \<open>http_laws\<close>, \<open>attest_laws\<close>, \<open>invite_laws\<close>, \<open>dir_laws\<close>
  (Lua renders a number below \<open>10^14\<close> in decimal), \<open>git_laws\<close>, \<open>policy_laws\<close>; the records \<open>audit_lib\<close>
  and \<open>git_auth_lib\<close>; in \<open>Gossip\<close> the attestation check and the failure detector; in \<open>AcpQueue\<close> the
  jittered retry delay. Theorems that rest on collision freedom of SHA-256 say so for the digests at hand
  (\<open>no_clash\<close>, and in \<open>AuditTamper\<close> the two segments compared). Bounds: a directory generation below
  \<open>10^14\<close>, fewer than \<open>2^63\<close> calls of one rate limit.

  \<^bold>\<open>What is not modelled.\<close> Logging and metrics; sockets, subprocesses and SQL text; the phi-accrual
  arithmetic (floating point); prompt rendering in \<open>queue.rs\<close>; Unicode trimming in \<open>channel.rs\<close>; the
  conformance probe of the object store; the streaming of \<open>upload-pack\<close>; behind the gates of ingest the
  handlers of commands and workflows, the validation per kind, storage and fan-out to other processes; the
  delivery of moderation notices; agent observer frames; the workflow engine, persona packs, media, search, the agent runtime, command line tools and the desktop, mobile and
  web applications.
\<close>

end
